(* ===== verification/Prelude.thy ===== *)
theory Prelude
  imports Complex_Main "HOL-Library.Char_ord" "HOL-Library.List_Lexorder"
begin

section \<open>Shared vocabulary of the development\<close>

text \<open>
  What every component theory uses: the result type of Python code that may raise, the
  helpers for Python's truth tests on optional strings, the collections of facts that the
  component theories extend, and generic lemmas on lists, sorting and association lists.

  Python values are read as follows throughout the development.
  \<^item> A \<open>str\<close> or \<open>bytes\<close> value is a \<^typ>\<open>string\<close>: a list of code points below 256.
  \<^item> A \<open>float\<close> is a \<^typ>\<open>rat\<close>: arithmetic is exact and there is no NaN or infinity.
  \<^item> A \<open>datetime\<close> is an \<^typ>\<open>int\<close>, the UTC instant in microseconds; where the source
    distinguishes naive values, a datatype says which it is.
  \<^item> A \<open>dict\<close> whose order is never observed is a map; one that is iterated is an
    association list in insertion order.
\<close>

named_theorems op_defs \<open>definitions of the operations of a component\<close>
named_theorems inv_defs \<open>definitions of the invariants of a component\<close>

subsection \<open>Results of code that may raise\<close>

text \<open>\<open>Inl e\<close> is a raised exception, \<open>Inr v\<close> a returned value.\<close>

type_synonym ('e, 'a) result = "'e + 'a"

definition rbind :: "('e, 'a) result \<Rightarrow> ('a \<Rightarrow> ('e, 'b) result) \<Rightarrow> ('e, 'b) result" where
  "rbind r f = (case r of Inl e \<Rightarrow> Inl e | Inr v \<Rightarrow> f v)"

lemma rbind_simps [simp]:
  "rbind (Inl e) f = Inl e"
  "rbind (Inr v) f = f v"
  by (simp_all add: rbind_def)

lemma rbind_Inr_iff: "rbind r f = Inr w \<longleftrightarrow> (\<exists>v. r = Inr v \<and> f v = Inr w)"
  by (cases r) auto

lemma rbind_Inl_iff: "rbind r f = Inl e \<longleftrightarrow> r = Inl e \<or> (\<exists>v. r = Inr v \<and> f v = Inl e)"
  by (cases r) auto

text \<open>A truth test on an optional string: \<open>None\<close> and the empty string are false.\<close>

definition truthy :: "string option \<Rightarrow> bool" where
  "truthy s = (case s of None \<Rightarrow> False | Some x \<Rightarrow> x \<noteq> [])"

lemma truthy_simps [simp]:
  "truthy None = False"
  "truthy (Some x) = (x \<noteq> [])"
  by (simp_all add: truthy_def)

text \<open>Python's \<open>str.strip\<close> and \<open>str.lower\<close> on code points below 256.\<close>

definition is_space :: "char \<Rightarrow> bool" where
  "is_space c = (let n = (of_char c :: nat) in
     9 \<le> n \<and> n \<le> 13 \<or> 28 \<le> n \<and> n \<le> 32 \<or> n = 133 \<or> n = 160)"

definition py_strip :: "string \<Rightarrow> string" where
  "py_strip s = rev (dropWhile is_space (rev (dropWhile is_space s)))"

definition lower_char :: "char \<Rightarrow> char" where
  "lower_char c = (let n = (of_char c :: nat) in
     if 65 \<le> n \<and> n \<le> 90 \<or> 192 \<le> n \<and> n \<le> 222 \<and> n \<noteq> 215 then char_of (n + 32) else c)"

definition py_lower :: "string \<Rightarrow> string" where
  "py_lower s = map lower_char s"

subsection \<open>Invariants of step relations\<close>

text \<open>
  The contract behind every safety property over sequences of calls: an invariant that each
  step of a relation keeps holds in every state reached from a state where it holds, and a
  preorder that each step respects relates the first and the last state.
\<close>

locale step_invariant =
  fixes step :: "'s \<Rightarrow> 's \<Rightarrow> bool" and inv :: "'s \<Rightarrow> bool"
  assumes step_keeps: "step s t \<Longrightarrow> inv s \<Longrightarrow> inv t"
begin

lemma reachable_inv: "step\<^sup>*\<^sup>* s t \<Longrightarrow> inv s \<Longrightarrow> inv t"
  by (induction rule: rtranclp_induct) (auto intro: step_keeps)

end

locale step_monotone = step_invariant +
  fixes le :: "'s \<Rightarrow> 's \<Rightarrow> bool"
  assumes le_refl: "le s s" and le_trans: "le s t \<Longrightarrow> le t u \<Longrightarrow> le s u"
    and step_le: "step s t \<Longrightarrow> inv s \<Longrightarrow> le s t"
begin

lemma reachable_le: "step\<^sup>*\<^sup>* s t \<Longrightarrow> inv s \<Longrightarrow> le s t"
proof (induction rule: rtranclp_induct)
  case base
  show ?case by (rule le_refl)
next
  case (step t u)
  then have "inv t" by (auto dest: reachable_inv)
  with step show ?case by (blast intro: le_trans step_le)
qed

end

subsection \<open>Association lists in insertion order\<close>

text \<open>Storing under a key keeps the position of a key that is already present.\<close>

fun dict_put :: "'k \<Rightarrow> 'v \<Rightarrow> ('k \<times> 'v) list \<Rightarrow> ('k \<times> 'v) list" where
  "dict_put k v [] = [(k, v)]"
| "dict_put k v ((k', v') # xs) =
     (if k = k' then (k, v) # xs else (k', v') # dict_put k v xs)"

lemma map_of_dict_put [simp]: "map_of (dict_put k v d) = (map_of d)(k \<mapsto> v)"
  by (induction d) auto

lemma keys_dict_put: "fst ` set (dict_put k v d) = insert k (fst ` set d)"
  by (induction k v d rule: dict_put.induct) auto

lemma distinct_dict_put [simp]:
  "distinct (map fst (dict_put k v d)) = distinct (map fst d)"
proof (induction d)
  case Nil
  then show ?case by simp
next
  case (Cons p d)
  have "fst p \<notin> fst ` set (dict_put k v d) \<longleftrightarrow> fst p \<notin> fst ` set d" if "k \<noteq> fst p"
    using that by (auto simp: keys_dict_put)
  then show ?case using Cons by (cases p) (auto simp: image_iff)
qed

subsection \<open>Lists\<close>

lemma takeWhile_split_unique:
  assumes "\<forall>c\<in>set x. P c" and "\<forall>c\<in>set y. P c"
    and "s = [] \<or> \<not> P (hd s)" and "t = [] \<or> \<not> P (hd t)"
    and "x @ s = y @ t"
  shows "x = y \<and> s = t"
proof -
  have tw: "takeWhile P (u @ v) = u" if "\<forall>c\<in>set u. P c" "v = [] \<or> \<not> P (hd v)" for u v
    using that by (cases v) (auto simp: takeWhile_append2)
  have "takeWhile P (x @ s) = takeWhile P (y @ t)"
    using assms(5) by simp
  then have "x = y" using tw assms(1-4) by simp
  with assms(5) show ?thesis by simp
qed

lemma map_eq_transfer:
  assumes "map f xs = map f ys"
    and "\<And>x y. x \<in> set xs \<Longrightarrow> y \<in> set ys \<Longrightarrow> f x = f y \<Longrightarrow> g x = g y"
  shows "map g xs = map g ys"
  using assms
proof (induction xs arbitrary: ys)
  case (Cons x xs)
  then obtain y ys' where ys: "ys = y # ys'" "f x = f y" "map f xs = map f ys'" by auto
  with Cons.prems(2) have "g x = g y" "map g xs = map g ys'"
    using Cons.IH [OF ys(3)] by auto
  with ys(1) show ?case by simp
qed simp

lemma sort_key_sorted_id: "sorted (map f xs) \<Longrightarrow> sort_key f xs = xs"
  by (induction xs) (simp_all add: insort_is_Cons)

lemma sort_key_map: "sort_key g (map f xs) = map f (sort_key (\<lambda>x. g (f x)) xs)"
proof -
  have "insort_key g (f x) (map f ys) = map f (insort_key (\<lambda>x. g (f x)) x ys)" for x ys
    by (induction ys) auto
  then show ?thesis by (induction xs) simp_all
qed

lemma find_distinct_key:
  "distinct (map f xs) \<Longrightarrow> x \<in> set xs \<Longrightarrow> List.find (\<lambda>y. f y = f x) xs = Some x"
  by (induction xs) auto

lemma sorted_last_max:
  "sorted xs \<Longrightarrow> x \<in> set xs \<Longrightarrow> x \<le> last xs"
  by (induction xs) (auto split: if_splits intro: order_trans)

lemma find_snoc [simp]:
  "List.find P (xs @ [y]) =
     (case List.find P xs of None \<Rightarrow> if P y then Some y else None | Some z \<Rightarrow> Some z)"
  by (induction xs) auto

lemma find_Some_mem: "List.find P xs = Some x \<Longrightarrow> x \<in> set xs \<and> P x"
  by (auto simp: find_Some_iff)

end
