(* ===== verification/Canon_Json.thy ===== *)
theory Canon_Json
  imports Prelude
begin

section \<open>Canonical JSON serialisation\<close>

text \<open>
  The hashes and signatures of the program are taken over
  \<open>json.dumps(x, sort_keys=True, separators=..., ensure_ascii=...)\<close>. This theory models
  what the sources use of \<open>json.dumps\<close>: JSON documents, the recursive sorting of object
  keys (\<open>canon\<close>), the printer, and the UTF-8 encoding of the text. It shows that the
  printed text determines the document up to the order of object keys, which is what every
  tamper-evidence theorem rests on.

  The text of a float (Python's \<open>repr\<close>) is a parameter \<open>fr\<close>; \<open>float_repr_ok\<close> states what
  the printed form relies on: distinct floats print differently, with characters of
  \<open>num_char\<close> only, and never like an integer.
\<close>

datatype json =
    JNull
  | JBool bool
  | JInt int
  | JFloat rat
  | JStr string
  | JList "json list"
  | JObj "(string \<times> json) list"

text \<open>The keyword arguments of \<open>json.dumps\<close> that change the text.\<close>

record json_style =
  ensure_ascii :: bool
  item_sep :: string
  key_sep :: string

definition compact_style :: json_style where
  "compact_style = \<lparr>ensure_ascii = True, item_sep = '','', key_sep = '':''\<rparr>"

definition compact_utf8_style :: json_style where
  "compact_utf8_style = \<lparr>ensure_ascii = False, item_sep = '','', key_sep = '':''\<rparr>"

definition default_style :: json_style where
  "default_style = \<lparr>ensure_ascii = True, item_sep = '', '', key_sep = '': ''\<rparr>"

definition style_ok :: "json_style \<Rightarrow> bool" where
  "style_ok st \<longleftrightarrow> (\<exists>r. item_sep st = CHR '','' # r) \<and> (\<exists>r. key_sep st = CHR '':'' # r)"

lemma style_ok_styles [simp]:
  "style_ok compact_style" "style_ok compact_utf8_style" "style_ok default_style"
  by (simp_all add: style_ok_def compact_style_def compact_utf8_style_def default_style_def)

subsection \<open>Numbers\<close>

definition digit_char :: "nat \<Rightarrow> char" where
  "digit_char n = char_of (48 + n)"

fun nat_str :: "nat \<Rightarrow> string" where
  "nat_str n = (if n < 10 then [digit_char n] else nat_str (n div 10) @ [digit_char (n mod 10)])"

declare nat_str.simps [simp del]

definition int_str :: "int \<Rightarrow> string" where
  "int_str i = (if i < 0 then CHR ''-'' # nat_str (nat (- i)) else nat_str (nat i))"

definition num_char :: "char \<Rightarrow> bool" where
  "num_char c = (let n = (of_char c :: nat) in
     48 \<le> n \<and> n \<le> 57 \<or> n = 43 \<or> n = 45 \<or> n = 46 \<or> n = 101)"

definition float_char :: "char \<Rightarrow> bool" where
  "float_char c = (c = CHR ''.'' \<or> c = CHR ''e'')"

definition float_repr_ok :: "(rat \<Rightarrow> string) \<Rightarrow> bool" where
  "float_repr_ok fr \<longleftrightarrow> inj fr \<and> (\<forall>q. list_all num_char (fr q) \<and> list_ex float_char (fr q))"

definition int_char :: "char \<Rightarrow> bool" where
  "int_char c = (let n = (of_char c :: nat) in 48 \<le> n \<and> n \<le> 57 \<or> n = 45)"

definition str_nat :: "string \<Rightarrow> nat" where
  "str_nat = foldl (\<lambda>a c. 10 * a + (of_char c - 48)) 0"

lemma of_char_digit: "n < 10 \<Longrightarrow> of_char (digit_char n) = 48 + n"
  by (simp add: digit_char_def)

lemma str_nat_nat_str [simp]: "str_nat (nat_str n) = n"
proof (induction n rule: nat_str.induct)
  case (1 n)
  show ?case
  proof (cases "n < 10")
    case True
    then show ?thesis
      by (simp add: nat_str.simps [of n] str_nat_def of_char_digit)
  next
    case False
    with 1 have "str_nat (nat_str (n div 10)) = n div 10" by simp
    with False show ?thesis
      by (simp add: nat_str.simps [of n] str_nat_def of_char_digit)
  qed
qed

lemma digit_nat_str: "c \<in> set (nat_str n) \<Longrightarrow> 48 \<le> (of_char c :: nat) \<and> (of_char c :: nat) \<le> 57"
proof (induction n rule: nat_str.induct)
  case (1 n)
  show ?case
  proof (cases "n < 10")
    case True
    then show ?thesis using 1 by (simp add: nat_str.simps [of n] of_char_digit)
  next
    case False
    with 1 show ?thesis
      by (auto simp: nat_str.simps [of n] of_char_digit)
  qed
qed

lemma nat_str_nonempty [simp]: "nat_str n \<noteq> []"
  by (subst nat_str.simps) simp

lemma nat_str_inj: "nat_str m = nat_str n \<Longrightarrow> m = n"
  by (metis str_nat_nat_str)

lemma nat_str_no_minus: "nat_str n \<noteq> CHR ''-'' # r"
  using digit_nat_str [of "CHR ''-''" n] by auto

lemma inj_int_str: "int_str i = int_str j \<Longrightarrow> i = j"
  using nat_str_no_minus nat_str_no_minus [symmetric]
  by (auto simp: int_str_def split: if_splits dest!: nat_str_inj)

lemma int_char_int_str: "list_all int_char (int_str i)"
  using digit_nat_str by (auto simp: int_str_def int_char_def list_all_iff)

lemma int_str_nonempty [simp]: "int_str i \<noteq> []"
  by (simp add: int_str_def)

lemma int_char_num_char: "int_char c \<Longrightarrow> num_char c"
  by (auto simp: int_char_def num_char_def Let_def)

lemma float_char_not_int_char: "float_char c \<Longrightarrow> \<not> int_char c"
  by (auto simp: int_char_def float_char_def)

lemma int_str_not_float: "float_repr_ok fr \<Longrightarrow> int_str i \<noteq> fr q"
  using int_char_int_str [of i] float_char_not_int_char
  by (auto simp: float_repr_ok_def list_all_iff list_ex_iff) metis

subsection \<open>Strings\<close>

definition hex_digit :: "nat \<Rightarrow> char" where
  "hex_digit n = (if n < 10 then char_of (48 + n) else char_of (87 + n))"

definition quote_char :: char where "quote_char = CHR 0x22"
definition bslash :: char where "bslash = CHR 0x5C"

text \<open>
  The escapes of \<open>json.encoder\<close>: two-character escapes for the quote, the backslash and
  five control characters, \<open>u00XX\<close> for the other control characters and, with
  \<open>ensure_ascii\<close>, for everything outside the printable ASCII range.
\<close>

definition short_escape :: "char \<Rightarrow> char option" where
  "short_escape c =
     (if c = quote_char then Some quote_char
      else if c = bslash then Some bslash
      else if c = CHR 0x0A then Some CHR ''n''
      else if c = CHR 0x0D then Some CHR ''r''
      else if c = CHR 0x09 then Some CHR ''t''
      else if c = CHR 0x08 then Some CHR ''b''
      else if c = CHR 0x0C then Some CHR ''f''
      else None)"

definition esc_char :: "bool \<Rightarrow> char \<Rightarrow> string" where
  "esc_char asc c =
     (case short_escape c of
        Some k \<Rightarrow> [bslash, k]
      | None \<Rightarrow>
          (let n = (of_char c :: nat) in
           if n < 32 \<or> asc \<and> 126 < n
           then [bslash, CHR ''u'', CHR ''0'', CHR ''0'', hex_digit (n div 16), hex_digit (n mod 16)]
           else [c]))"

definition json_string :: "bool \<Rightarrow> string \<Rightarrow> string" where
  "json_string asc s = quote_char # concat (map (esc_char asc) s) @ [quote_char]"

text \<open>
  Python's \<open>repr\<close> of a string: single quotes unless the text holds one and no double quote,
  with escapes for the backslash, the quote, tab, newline, carriage return and the other
  characters that are not printable.
\<close>

definition repr_quote :: "string \<Rightarrow> char" where
  "repr_quote s = (if CHR 0x27 \<in> set s \<and> quote_char \<notin> set s then quote_char else CHR 0x27)"

definition repr_char :: "char \<Rightarrow> char \<Rightarrow> string" where
  "repr_char q c = (let n = (of_char c :: nat) in
     if c = q \<or> c = bslash then [bslash, c]
     else if n = 9 then [bslash, CHR ''t'']
     else if n = 10 then [bslash, CHR ''n'']
     else if n = 13 then [bslash, CHR ''r'']
     else if n < 32 \<or> 127 \<le> n \<and> n \<le> 160 \<or> n = 173
       then [bslash, CHR ''x'', hex_digit (n div 16), hex_digit (n mod 16)]
     else [c])"

definition py_repr :: "string \<Rightarrow> string" where
  "py_repr s = (let q = repr_quote s in q # concat (map (repr_char q) s) @ [q])"

text \<open>\<open>", ".join(...)\<close> and the \<open>repr\<close> of a list of strings.\<close>

fun py_join :: "string \<Rightarrow> string list \<Rightarrow> string" where
  "py_join sep [] = []"
| "py_join sep [x] = x"
| "py_join sep (x # y # xs) = x @ sep @ py_join sep (y # xs)"

definition py_repr_list :: "string list \<Rightarrow> string" where
  "py_repr_list xs = ''['' @ py_join '', '' (map py_repr xs) @ '']''"

lemma hex_digit_inj:
  assumes "hex_digit m = hex_digit n" "m < 16" "n < 16"
  shows "m = n"
proof -
  have "of_char (hex_digit k) = (if k < 10 then 48 + k else 87 + k)" if "k < 16" for k :: nat
    using that by (simp add: hex_digit_def)
  with assms have "(if m < 10 then 48 + m else 87 + m) = (if n < 10 then 48 + n else 87 + n)"
    by metis
  with assms(2,3) show ?thesis by (auto split: if_splits)
qed

lemma short_escape_inj:
  "short_escape c = Some k \<Longrightarrow> short_escape d = Some k \<Longrightarrow> c = d"
  by (auto simp: short_escape_def quote_char_def bslash_def split: if_splits)

lemma short_escape_not_u: "short_escape c \<noteq> Some CHR ''u''"
  by (simp add: short_escape_def quote_char_def bslash_def)

lemma short_escape_None: "short_escape c = None \<Longrightarrow> c \<noteq> quote_char \<and> c \<noteq> bslash"
  by (auto simp: short_escape_def split: if_splits)

lemma esc_char_cases:
  obtains (short) k where "short_escape c = Some k" "esc_char asc c = [bslash, k]"
  | (hex) "short_escape c = None"
      "esc_char asc c = [bslash, CHR ''u'', CHR ''0'', CHR ''0'',
         hex_digit (of_char c div 16), hex_digit (of_char c mod 16)]"
  | (plain) "c \<noteq> quote_char" "c \<noteq> bslash" "esc_char asc c = [c]"
proof (cases "short_escape c")
  case None
  then show ?thesis
    using short_escape_None [of c] that(2,3)
    by (cases "(of_char c :: nat) < 32 \<or> asc \<and> 126 < (of_char c :: nat)")
       (auto simp: esc_char_def Let_def)
qed (auto simp: esc_char_def intro: that(1))

lemma esc_char_prefix_code:
  assumes "esc_char asc c @ u = esc_char asc d @ v"
  shows "c = d \<and> u = v"
proof -
  have hx: "c = d" if "hex_digit (of_char c div 16) = hex_digit (of_char d div 16)"
    "hex_digit (of_char c mod 16) = hex_digit (of_char d mod 16)"
  proof -
    have b: "(of_char x :: nat) < 256" for x by simp
    have q: "(of_char x :: nat) div 16 < 16" for x using b [of x] by (simp add: less_mult_imp_div_less)
    have "(of_char c :: nat) div 16 = of_char d div 16" "(of_char c :: nat) mod 16 = of_char d mod 16"
      using that hex_digit_inj q by auto
    then have "(of_char c :: nat) = of_char d" by (metis div_mod_decomp)
    then show ?thesis by simp
  qed
  show ?thesis
  proof (cases asc c rule: esc_char_cases)
    case c: (short k)
    show ?thesis by (cases asc d rule: esc_char_cases)
      (use assms c short_escape_inj short_escape_not_u in auto)
  next
    case c: hex
    show ?thesis by (cases asc d rule: esc_char_cases)
      (use assms c hx short_escape_not_u in auto)
  next
    case c: plain
    show ?thesis by (cases asc d rule: esc_char_cases) (use assms c in auto)
  qed
qed

lemma esc_char_shape: "\<exists>a r. esc_char asc c = a # r \<and> a \<noteq> quote_char"
  by (cases asc c rule: esc_char_cases) (auto simp: bslash_def quote_char_def)

lemma esc_body_unique:
  assumes "concat (map (esc_char asc) x) @ quote_char # s = concat (map (esc_char asc) y) @ quote_char # t"
  shows "x = y \<and> s = t"
  using assms
proof (induction x arbitrary: y)
  case Nil
  show ?case
  proof (cases y)
    case Nil
    with Nil.prems show ?thesis by simp
  next
    case (Cons d y')
    with Nil.prems esc_char_shape [of asc d] show ?thesis by auto
  qed
next
  case (Cons c x)
  show ?case
  proof (cases y)
    case Nil
    with Cons.prems esc_char_shape [of asc c] show ?thesis by auto
  next
    case (Cons d y')
    with Cons.prems
    have "esc_char asc c @ (concat (map (esc_char asc) x) @ quote_char # s) =
          esc_char asc d @ (concat (map (esc_char asc) y') @ quote_char # t)" by simp
    then have "c = d" and "concat (map (esc_char asc) x) @ quote_char # s =
        concat (map (esc_char asc) y') @ quote_char # t"
      using esc_char_prefix_code by blast+
    with Cons.IH Cons show ?thesis by simp
  qed
qed

lemma json_string_unique:
  "json_string asc x @ s = json_string asc y @ t \<Longrightarrow> x = y \<and> s = t"
  using esc_body_unique [of asc x s y t] by (simp add: json_string_def)

subsection \<open>The printer\<close>

text \<open>
  \<open>print_json\<close> prints a document in the order its objects have; \<open>print_elems\<close> and
  \<open>print_members\<close> print what follows the first element up to the closing bracket.
\<close>

fun print_json :: "json_style \<Rightarrow> (rat \<Rightarrow> string) \<Rightarrow> json \<Rightarrow> string"
  and print_elems :: "json_style \<Rightarrow> (rat \<Rightarrow> string) \<Rightarrow> json list \<Rightarrow> string"
  and print_members :: "json_style \<Rightarrow> (rat \<Rightarrow> string) \<Rightarrow> (string \<times> json) list \<Rightarrow> string" where
  "print_json st fr JNull = ''null''"
| "print_json st fr (JBool b) = (if b then ''true'' else ''false'')"
| "print_json st fr (JInt i) = int_str i"
| "print_json st fr (JFloat q) = fr q"
| "print_json st fr (JStr s) = json_string (ensure_ascii st) s"
| "print_json st fr (JList []) = ''[]''"
| "print_json st fr (JList (x # xs)) = CHR ''['' # print_json st fr x @ print_elems st fr xs"
| "print_json st fr (JObj []) = ''{}''"
| "print_json st fr (JObj ((k, v) # kvs)) =
     CHR ''{'' # json_string (ensure_ascii st) k @ key_sep st @ print_json st fr v @
       print_members st fr kvs"
| "print_elems st fr [] = '']''"
| "print_elems st fr (x # xs) = item_sep st @ print_json st fr x @ print_elems st fr xs"
| "print_members st fr [] = ''}''"
| "print_members st fr ((k, v) # kvs) =
     item_sep st @ json_string (ensure_ascii st) k @ key_sep st @ print_json st fr v @
       print_members st fr kvs"

text \<open>Sorting of object keys at every level (\<open>sort_keys=True\<close>).\<close>

fun canon :: "json \<Rightarrow> json"
  and canon_list :: "json list \<Rightarrow> json list"
  and canon_members :: "(string \<times> json) list \<Rightarrow> (string \<times> json) list" where
  "canon JNull = JNull"
| "canon (JBool b) = JBool b"
| "canon (JInt i) = JInt i"
| "canon (JFloat q) = JFloat q"
| "canon (JStr s) = JStr s"
| "canon (JList xs) = JList (canon_list xs)"
| "canon (JObj kvs) = JObj (sort_key fst (canon_members kvs))"
| "canon_list [] = []"
| "canon_list (x # xs) = canon x # canon_list xs"
| "canon_members [] = []"
| "canon_members ((k, v) # kvs) = (k, canon v) # canon_members kvs"

definition dumps :: "json_style \<Rightarrow> (rat \<Rightarrow> string) \<Rightarrow> json \<Rightarrow> string" where
  "dumps st fr j = print_json st fr (canon j)"

text \<open>
  A JSON column stores the text of a document and reading it back parses the text. The
  document that comes back is the stored one with its keys in the order of the text.
\<close>

definition loads_dumps :: "json \<Rightarrow> json" where
  "loads_dumps j = canon j"

definition utf8_char :: "char \<Rightarrow> string" where
  "utf8_char c = (let n = (of_char c :: nat) in
     if n < 128 then [c] else [char_of (192 + n div 64), char_of (128 + n mod 64)])"

definition utf8 :: "string \<Rightarrow> string" where
  "utf8 s = concat (map utf8_char s)"

subsection \<open>The printed text determines the document\<close>

definition delim :: "string \<Rightarrow> bool" where
  "delim s \<longleftrightarrow> s = [] \<or> \<not> num_char (hd s)"

definition char_tag :: "char \<Rightarrow> nat" where
  "char_tag c =
     (if num_char c then 2 else if c = CHR ''n'' then 0
      else if c = CHR ''t'' \<or> c = CHR ''f'' then 1
      else if c = quote_char then 3 else if c = CHR ''['' then 4
      else if c = CHR ''{'' then 5 else 6)"

fun json_tag :: "json \<Rightarrow> nat" where
  "json_tag JNull = 0"
| "json_tag (JBool b) = 1"
| "json_tag (JInt i) = 2"
| "json_tag (JFloat q) = 2"
| "json_tag (JStr s) = 3"
| "json_tag (JList xs) = 4"
| "json_tag (JObj kvs) = 5"

lemma num_char_punct [simp]:
  "\<not> num_char CHR '',''" "\<not> num_char CHR '':''" "\<not> num_char CHR '']''" "\<not> num_char CHR ''}''"
  "\<not> num_char CHR ''[''" "\<not> num_char CHR ''{''" "\<not> num_char CHR ''n''" "\<not> num_char CHR ''t''"
  "\<not> num_char CHR ''f''" "\<not> num_char quote_char"
  by (simp_all add: num_char_def quote_char_def)

lemma char_tag_simps [simp]:
  "char_tag CHR ''n'' = 0" "char_tag CHR ''t'' = 1" "char_tag CHR ''f'' = 1"
  "char_tag quote_char = 3" "char_tag CHR ''['' = 4" "char_tag CHR ''{'' = 5"
  "num_char c \<Longrightarrow> char_tag c = 2"
  by (simp_all add: char_tag_def) (simp_all add: quote_char_def)

lemma float_repr_head:
  assumes "float_repr_ok fr"
  shows "\<exists>c r. fr q = c # r \<and> num_char c"
  using assms by (cases "fr q") (auto simp: float_repr_ok_def dest!: spec [of _ q])

lemma int_str_head: "\<exists>c r. int_str i = c # r \<and> num_char c"
  using int_char_int_str [of i] int_str_nonempty [of i]
  by (cases "int_str i") (auto dest: int_char_num_char)

lemma print_json_head:
  assumes "float_repr_ok fr"
  shows "\<exists>c r. print_json st fr j = c # r \<and> char_tag c = json_tag j"
proof (cases j)
  case (JInt i)
  then show ?thesis using int_str_head [of i] by auto
next
  case (JFloat q)
  then show ?thesis using float_repr_head [OF assms, of q] by auto
next
  case (JList xs)
  then show ?thesis by (cases xs) auto
next
  case (JObj kvs)
  then show ?thesis by (cases kvs) auto
qed (auto simp: json_string_def)

lemma print_json_tag:
  assumes "float_repr_ok fr" and "print_json st fr a @ s = print_json st fr b @ t"
  shows "json_tag a = json_tag b"
  using print_json_head [OF assms(1), of st a] print_json_head [OF assms(1), of st b] assms(2)
  by auto

lemma delim_elems: "style_ok st \<Longrightarrow> delim (print_elems st fr xs @ s)"
  by (cases xs) (auto simp: delim_def style_ok_def)

lemma delim_members: "style_ok st \<Longrightarrow> delim (print_members st fr kvs @ s)"
  by (cases kvs) (auto simp: delim_def style_ok_def)

lemma print_number_chars:
  assumes "float_repr_ok fr" "json_tag j = 2"
  shows "\<forall>c\<in>set (print_json st fr j). num_char c"
proof (cases j)
  case (JInt i)
  then show ?thesis using int_char_int_str [of i] int_char_num_char by (auto simp: list_all_iff)
next
  case (JFloat q)
  then show ?thesis using assms(1) by (simp add: float_repr_ok_def list_all_iff)
qed (use assms(2) in auto)

lemma print_number_inj:
  assumes "float_repr_ok fr" "json_tag a = 2" "json_tag b = 2"
    and "print_json st fr a = print_json st fr b"
  shows "a = b"
proof -
  from assms(1) have "inj fr" by (simp add: float_repr_ok_def)
  with assms(2-4) int_str_not_float [OF assms(1)] int_str_not_float [OF assms(1), symmetric] inj_int_str
  show ?thesis by (cases a; cases b) (simp_all add: inj_eq)
qed

lemma print_number_unique:
  assumes "float_repr_ok fr" "json_tag a = 2" "json_tag b = 2" "delim s" "delim t"
    and "print_json st fr a @ s = print_json st fr b @ t"
  shows "a = b \<and> s = t"
proof -
  have "print_json st fr a = print_json st fr b \<and> s = t"
    using assms(4-6) unfolding delim_def
    by (intro takeWhile_split_unique [OF print_number_chars [OF assms(1,2)]
          print_number_chars [OF assms(1,3)]])
  then show ?thesis using print_number_inj [OF assms(1-3)] by blast
qed

lemma json_tag_cases:
  "json_tag j = 0 \<Longrightarrow> j = JNull"
  "json_tag j = 1 \<Longrightarrow> \<exists>b. j = JBool b"
  "json_tag j = 3 \<Longrightarrow> \<exists>s. j = JStr s"
  "json_tag j = 4 \<Longrightarrow> \<exists>xs. j = JList xs"
  "json_tag j = 5 \<Longrightarrow> \<exists>kvs. j = JObj kvs"
  by (cases j; simp)+

lemma print_json_not_close [simp]:
  assumes "float_repr_ok fr"
  shows "print_json st fr j @ r \<noteq> CHR '']'' # r'" "CHR '']'' # r' \<noteq> print_json st fr j @ r"
proof -
  have "char_tag CHR '']'' = 6" by (simp add: char_tag_def quote_char_def)
  moreover have "json_tag j < 6" by (cases j) auto
  ultimately show "print_json st fr j @ r \<noteq> CHR '']'' # r'"
    using print_json_head [OF assms, of st j] by auto
  then show "CHR '']'' # r' \<noteq> print_json st fr j @ r" by metis
qed

lemma json_string_not_close [simp]:
  "json_string asc k @ r \<noteq> CHR ''}'' # r'" "CHR ''}'' # r' \<noteq> json_string asc k @ r"
  by (simp_all add: json_string_def quote_char_def)

lemma style_okE:
  assumes "style_ok st"
  obtains i k where "item_sep st = CHR '','' # i" "key_sep st = CHR '':'' # k"
  using assms by (auto simp: style_ok_def)

lemma print_unique:
  assumes "style_ok st" and "float_repr_ok fr"
  shows "print_json st fr a @ s = print_json st fr b @ t \<Longrightarrow> delim s \<Longrightarrow> delim t \<Longrightarrow> a = b \<and> s = t"
    and "print_elems st fr xs @ s = print_elems st fr ys @ t \<Longrightarrow> xs = ys \<and> s = t"
    and "print_members st fr kvs @ s = print_members st fr kvs' @ t \<Longrightarrow> kvs = kvs' \<and> s = t"
  using assms
proof (induction st fr a and st fr xs and st fr kvs
    arbitrary: b s t and ys s t and kvs' s t rule: print_json_print_elems_print_members.induct)
  case (1 st fr)
  then have "json_tag b = 0" using print_json_tag [of fr st JNull s b t] by simp
  with 1 show ?case by (auto dest: json_tag_cases)
next
  case (2 st fr v)
  then have "json_tag b = 1" using print_json_tag [of fr st "JBool v" s b t] by simp
  then obtain w where "b = JBool w" using json_tag_cases(2) by blast
  with 2 show ?case by (auto split: if_splits)
next
  case (3 st fr i)
  then have "json_tag b = 2" using print_json_tag [of fr st "JInt i" s b t] by simp
  with 3 show ?case using print_number_unique [of fr "JInt i" b s t st] by simp
next
  case (4 st fr q)
  then have "json_tag b = 2" using print_json_tag [of fr st "JFloat q" s b t] by simp
  with 4 show ?case using print_number_unique [of fr "JFloat q" b s t st] by simp
next
  case (5 st fr x)
  then have "json_tag b = 3" using print_json_tag [of fr st "JStr x" s b t] by simp
  with 5 show ?case by (auto dest!: json_tag_cases(3) dest: json_string_unique)
next
  case (6 st fr)
  then have "json_tag b = 4" using print_json_tag [of fr st "JList []" s b t] by simp
  then obtain ys where "b = JList ys" by (auto dest: json_tag_cases)
  with 6 show ?case by (cases ys) auto
next
  case (7 st fr x xs)
  have "json_tag b = 4" using print_json_tag [OF "7.prems"(5,1)] by simp
  then obtain ys where b: "b = JList ys" by (auto dest: json_tag_cases)
  with "7.prems" obtain y ys' where ys: "ys = y # ys'" by (cases ys) auto
  have "print_json st fr x @ print_elems st fr xs @ s = print_json st fr y @ print_elems st fr ys' @ t"
    using "7.prems"(1) b ys by simp
  then have "x = y \<and> print_elems st fr xs @ s = print_elems st fr ys' @ t"
    by (rule "7.IH"(1)) (simp_all add: delim_elems "7.prems")
  with "7.IH"(2) [of s ys' t] "7.prems" b ys show ?case by simp
next
  case (8 st fr)
  then have "json_tag b = 5" using print_json_tag [of fr st "JObj []" s b t] by simp
  then obtain m where b: "b = JObj m" by (auto dest: json_tag_cases)
  with 8 show ?case by (cases m) auto
next
  case (9 st fr k v kvs)
  have "json_tag b = 5" using print_json_tag [OF "9.prems"(5,1)] by simp
  then obtain m where b: "b = JObj m" by (auto dest: json_tag_cases)
  with "9.prems" obtain k' v' m' where m: "m = (k', v') # m'" by (cases m) auto
  have k: "k = k' \<and> print_json st fr v @ print_members st fr kvs @ s =
     print_json st fr v' @ print_members st fr m' @ t"
    using "9.prems"(1) b m by (auto dest: json_string_unique)
  then have "v = v' \<and> print_members st fr kvs @ s = print_members st fr m' @ t"
    by (intro "9.IH"(1)) (simp_all add: delim_members "9.prems")
  with k "9.IH"(2) [of s m' t] "9.prems" b m show ?case by simp
next
  case (10 st fr)
  then show ?case by (cases ys) (auto elim: style_okE)
next
  case (11 st fr x xs)
  from "11.prems" obtain y ys' where ys: "ys = y # ys'" by (cases ys) (auto elim: style_okE)
  have "print_json st fr x @ print_elems st fr xs @ s = print_json st fr y @ print_elems st fr ys' @ t"
    using "11.prems"(1) ys by simp
  then have "x = y \<and> print_elems st fr xs @ s = print_elems st fr ys' @ t"
    by (rule "11.IH"(1)) (simp_all add: delim_elems "11.prems")
  with "11.IH"(2) [of s ys' t] "11.prems" ys show ?case by simp
next
  case (12 st fr)
  then show ?case by (cases kvs') (auto elim: style_okE)
next
  case (13 st fr k v kvs)
  from "13.prems" obtain k' v' m' where m: "kvs' = (k', v') # m'"
    by (cases kvs') (auto elim: style_okE)
  have k: "k = k' \<and> print_json st fr v @ print_members st fr kvs @ s =
     print_json st fr v' @ print_members st fr m' @ t"
    using "13.prems"(1) m by (auto dest: json_string_unique)
  then have "v = v' \<and> print_members st fr kvs @ s = print_members st fr m' @ t"
    by (intro "13.IH"(1)) (simp_all add: delim_members "13.prems")
  with k "13.IH"(2) [of s m' t] "13.prems" m show ?case by simp
qed

lemma dumps_eq_iff:
  assumes "style_ok st" and "float_repr_ok fr"
  shows "dumps st fr a = dumps st fr b \<longleftrightarrow> canon a = canon b"
  using print_unique(1) [OF assms, of "canon a" "[]" "canon b" "[]"]
  by (auto simp: dumps_def delim_def)

subsection \<open>Canonical documents\<close>

lemma canon_members_map: "canon_members kvs = map (\<lambda>(k, v). (k, canon v)) kvs"
  by (induction kvs) auto

lemma canon_list_map: "canon_list xs = map canon xs"
  by (induction xs) auto

lemma sort_key_map_snd:
  "sort_key fst (map (\<lambda>(k, v). (k, f v)) kvs) = map (\<lambda>(k, v). (k, f v)) (sort_key fst kvs)"
proof -
  have ins: "insort_key fst (k, f v) (map (\<lambda>(k, v). (k, f v)) xs) =
      map (\<lambda>(k, v). (k, f v)) (insort_key fst (k, v) xs)" for k v and xs :: "('a \<times> 'c) list"
    by (induction xs) auto
  show ?thesis by (induction kvs) (auto simp: ins)
qed

lemma canon_idem [simp]: "canon (canon j) = canon j"
proof (induction j)
  case (JList xs)
  then show ?case by (simp add: canon_list_map)
next
  case (JObj kvs)
  have "map (\<lambda>(k, v). (k, canon v)) (sort_key fst (canon_members kvs)) = sort_key fst (canon_members kvs)"
    using JObj by (intro map_idI) (auto simp: canon_members_map snds.simps)
  then have "canon_members (sort_key fst (canon_members kvs)) = sort_key fst (canon_members kvs)"
    by (simp add: canon_members_map)
  then show ?case by (simp add: sort_key_sorted_id)
qed simp_all

lemma dumps_canon [simp]: "dumps st fr (canon j) = dumps st fr j"
  by (simp add: dumps_def)

lemma dumps_loads_dumps [simp]: "dumps st fr (loads_dumps j) = dumps st fr j"
  by (simp add: loads_dumps_def)

lemma map_fst_canon_members [simp]: "map fst (canon_members kvs) = map fst kvs"
  by (induction kvs) auto

lemma map_of_sort_key_fst:
  assumes "distinct (map fst xs)"
  shows "map_of (sort_key fst xs) = map_of xs"
proof
  fix k
  have d: "distinct (map fst (sort_key fst xs))" using assms by (simp add: distinct_map)
  have "map_of (sort_key fst xs) k = Some v \<longleftrightarrow> map_of xs k = Some v" for v
    using d assms by simp
  then show "map_of (sort_key fst xs) k = map_of xs k"
    by (cases "map_of xs k"; cases "map_of (sort_key fst xs) k") auto
qed

lemma map_of_keys_eq:
  "map fst xs = map fst ys \<Longrightarrow> distinct (map fst xs) \<Longrightarrow> map_of xs = map_of ys \<Longrightarrow> xs = ys"
proof -
  assume k: "map fst xs = map fst ys" and d: "distinct (map fst xs)" and m: "map_of xs = map_of ys"
  have v: "map snd zs = map (\<lambda>k. the (map_of zs k)) (map fst zs)" if "distinct (map fst zs)"
    for zs :: "('a \<times> 'b) list"
    using that by (auto intro!: map_cong)
  have "map snd xs = map snd ys" using v [OF d] v [of ys] k d m by simp
  with k show "xs = ys" by (metis zip_map_fst_snd)
qed

text \<open>Objects with the same distinct keys in the same order: equal text, equal members.\<close>

lemma canon_obj_eqD:
  assumes "canon (JObj kvs) = canon (JObj kvs')" "map fst kvs = map fst kvs'" "distinct (map fst kvs)"
  shows "canon_members kvs = canon_members kvs'"
proof -
  from assms(1) have "map_of (sort_key fst (canon_members kvs)) = map_of (sort_key fst (canon_members kvs'))"
    by simp
  then have "map_of (canon_members kvs) = map_of (canon_members kvs')"
    using assms(2,3) by (simp add: map_of_sort_key_fst)
  then show ?thesis using assms(2,3) by (intro map_of_keys_eq) simp_all
qed

subsection \<open>UTF-8\<close>

lemma utf8_char_prefix_code:
  assumes "utf8_char c @ u = utf8_char d @ v"
  shows "c = d \<and> u = v"
proof -
  have b: "(of_char x :: nat) < 256" for x by simp
  have lead: "(of_char (char_of (192 + (of_char x :: nat) div 64) :: char) :: nat) = 192 + of_char x div 64" for x
  proof -
    have "(of_char x :: nat) div 64 < 4" using b [of x] by (simp add: less_mult_imp_div_less)
    then show ?thesis by simp
  qed
  have cont: "(of_char (char_of (128 + (of_char x :: nat) mod 64) :: char) :: nat) = 128 + of_char x mod 64" for x
    using b [of x] by simp
  have eq: "c = d" if "(of_char c :: nat) div 64 = of_char d div 64" "(of_char c :: nat) mod 64 = of_char d mod 64"
    using that by (metis div_mod_decomp of_char_eq_iff)
  show ?thesis
    using assms lead [of c] lead [of d] cont [of c] cont [of d] eq
    by (auto simp: utf8_char_def Let_def split: if_splits)
qed

lemma utf8_char_nonempty: "utf8_char c \<noteq> []"
  by (simp add: utf8_char_def Let_def)

lemma utf8_inj: "utf8 x = utf8 y \<Longrightarrow> x = y"
proof (induction x arbitrary: y)
  case Nil
  then show ?case by (cases y) (auto simp: utf8_def utf8_char_nonempty)
next
  case (Cons c x)
  then show ?case
    by (cases y) (auto simp: utf8_def utf8_char_nonempty dest: utf8_char_prefix_code)
qed

subsection \<open>A float printer that meets the requirements\<close>

text \<open>Used by the examples: numerator and denominator around a dot.\<close>

definition ratio_repr :: "rat \<Rightarrow> string" where
  "ratio_repr q = int_str (fst (quotient_of q)) @ ''.'' @ int_str (snd (quotient_of q))"

lemma ratio_repr_inj: "ratio_repr p = ratio_repr q \<Longrightarrow> p = q"
proof -
  assume eq: "ratio_repr p = ratio_repr q"
  have dot: "\<not> int_char CHR ''.''" by (simp add: int_char_def)
  have chars: "\<forall>c\<in>set (int_str i). int_char c" for i
    using int_char_int_str by (simp add: list_all_iff)
  have "int_str (fst (quotient_of p)) = int_str (fst (quotient_of q)) \<and>
    CHR ''.'' # int_str (snd (quotient_of p)) = CHR ''.'' # int_str (snd (quotient_of q))"
    using eq dot by (intro takeWhile_split_unique [OF chars chars]) (simp_all add: ratio_repr_def)
  then have "quotient_of p = quotient_of q"
    by (auto intro: prod_eqI inj_int_str)
  then show "p = q" by (simp add: quotient_of_inject_eq)
qed

lemma float_repr_ok_ratio_repr [simp]: "float_repr_ok ratio_repr"
proof -
  have "num_char CHR ''.''" by (simp add: num_char_def)
  moreover have "list_all num_char (int_str i)" for i
    using int_char_int_str [of i] int_char_num_char by (auto simp: list_all_iff)
  ultimately show ?thesis
    by (auto simp: float_repr_ok_def ratio_repr_def float_char_def inj_def intro: ratio_repr_inj)
qed

end
