(* ===== verification/Crypto_Env.thy ===== *)
theory Crypto_Env
  imports Canon_Json
begin

section \<open>The environment of the program, and byte packing\<close>

text \<open>
  Primitives that are not part of the sources are fields of one parameter, a record of type
  \<open>env\<close> that every definition using them takes as its argument: SHA-256 (hex digest of a
  byte string), the text of a float, the ISO text of a UTC instant (in the
  format of the component that calls it), Ed25519 verification by
  the \<open>cryptography\<close> package, signing with a private key, HMAC-SHA256 (the digest bytes), and base64 (decoding
  may raise). Nothing
  is assumed of the hash: the tamper-evidence theorems name the two colliding messages.

  The second part models \<open>struct.pack\<close> with the formats \<open>>Q\<close> and \<open>>I\<close>.
\<close>

text \<open>How a call of \<open>public_key.verify\<close>, with the base64 decoding around it, can end.\<close>

datatype ed_outcome = EdVerified | EdInvalidSignature | EdValueError | EdTypeError

record env =
  sha256 :: "string \<Rightarrow> string"
  float_repr :: "rat \<Rightarrow> string"
  iso :: "int \<Rightarrow> string"
  ed25519_verify :: "string \<Rightarrow> string \<Rightarrow> string \<Rightarrow> ed_outcome"
  ed25519_sign :: "string \<Rightarrow> string \<Rightarrow> string"
  hmac_sha256 :: "string \<Rightarrow> string \<Rightarrow> string"
  b64_encode :: "string \<Rightarrow> string"
  b64_decode :: "string \<Rightarrow> string option"

text \<open>\<open>packages/ledger/src/crypto.py\<close>: verification fails closed on every library error.\<close>

definition verify_signature :: "env \<Rightarrow> string \<Rightarrow> string \<Rightarrow> string \<Rightarrow> bool" where
  "verify_signature E public_key_b64 payload signature_b64 =
     (case ed25519_verify E public_key_b64 payload signature_b64 of
        EdVerified \<Rightarrow> True
      | EdInvalidSignature \<Rightarrow> False
      | EdValueError \<Rightarrow> False
      | EdTypeError \<Rightarrow> False)"

text \<open>
  Compact canonical JSON as bytes: \<open>json.dumps(..., sort_keys=True, separators=(",", ":"))\<close>
  encoded as UTF-8.
\<close>

definition canonical_bytes :: "env \<Rightarrow> json \<Rightarrow> string" where
  "canonical_bytes E j = utf8 (dumps compact_style (float_repr E) j)"

lemma canonical_bytes_inj:
  assumes "float_repr_ok (float_repr E)" "canonical_bytes E a = canonical_bytes E b"
  shows "canon a = canon b"
  using assms dumps_eq_iff [OF _ assms(1), of compact_style]
  by (auto simp: canonical_bytes_def dest!: utf8_inj)

text \<open>A pair of messages on which the hash collides, among given messages.\<close>

definition collision_between :: "('m \<Rightarrow> 'h) \<Rightarrow> 'm set \<Rightarrow> 'm set \<Rightarrow> bool" where
  "collision_between H A B \<longleftrightarrow> (\<exists>x\<in>A. \<exists>y\<in>B. x \<noteq> y \<and> H x = H y)"

lemma collision_betweenI:
  "H x = H y \<Longrightarrow> x \<noteq> y \<Longrightarrow> x \<in> A \<Longrightarrow> y \<in> B \<Longrightarrow> collision_between H A B"
  by (auto simp: collision_between_def)

lemma collision_between_mono:
  "collision_between H A B \<Longrightarrow> A \<subseteq> A' \<Longrightarrow> B \<subseteq> B' \<Longrightarrow> collision_between H A' B'"
  by (auto simp: collision_between_def)

lemma not_collision_inj: "inj H \<Longrightarrow> \<not> collision_between H A B"
  by (auto simp: collision_between_def inj_eq)

subsection \<open>Big-endian packing\<close>

fun be_bytes :: "nat \<Rightarrow> nat \<Rightarrow> string" where
  "be_bytes 0 x = []"
| "be_bytes (Suc n) x = be_bytes n (x div 256) @ [char_of (x mod 256)]"

text \<open>\<open>struct.pack\<close> raises \<open>struct.error\<close> outside the range of the format.\<close>

definition pack_be :: "nat \<Rightarrow> int \<Rightarrow> string option" where
  "pack_be n i = (if 0 \<le> i \<and> i < 256 ^ n then Some (be_bytes n (nat i)) else None)"

lemma length_be_bytes [simp]: "length (be_bytes n x) = n"
  by (induction n arbitrary: x) auto

lemma be_bytes_inj:
  "x < 256 ^ n \<Longrightarrow> y < 256 ^ n \<Longrightarrow> be_bytes n x = be_bytes n y \<Longrightarrow> x = y"
proof (induction n arbitrary: x y)
  case 0
  then show ?case by simp
next
  case (Suc n)
  from Suc.prems(3) have "be_bytes n (x div 256) = be_bytes n (y div 256)"
    and m: "char_of (x mod 256) = (char_of (y mod 256) :: char)" by simp_all
  moreover have "x div 256 < 256 ^ n" "y div 256 < 256 ^ n"
    using Suc.prems(1,2) by (simp_all add: less_mult_imp_div_less mult.commute)
  ultimately have "x div 256 = y div 256" using Suc.IH by blast
  moreover have "x mod 256 = y mod 256"
    using m by (metis mod_mod_trivial of_char_of)
  ultimately show ?case by (metis div_mod_decomp)
qed

lemma pack_be_length: "pack_be n i = Some b \<Longrightarrow> length b = n"
  by (auto simp: pack_be_def split: if_splits)

lemma pack_be_inj: "pack_be n i = Some b \<Longrightarrow> pack_be n j = Some b \<Longrightarrow> i = j"
proof -
  assume a: "pack_be n i = Some b" "pack_be n j = Some b"
  then have r: "0 \<le> i" "i < 256 ^ n" "0 \<le> j" "j < 256 ^ n"
    and eq: "be_bytes n (nat i) = be_bytes n (nat j)"
    by (auto simp: pack_be_def split: if_splits)
  have "nat k < 256 ^ n" if "0 \<le> k" "k < 256 ^ n" for k :: int
    using that by (simp add: nat_less_iff)
  with r eq have "nat i = nat j" by (intro be_bytes_inj) auto
  with r show "i = j" by simp
qed

text \<open>A field of a message: a four-byte length and the bytes.\<close>

definition pack_field :: "string \<Rightarrow> string option" where
  "pack_field b = map_option (\<lambda>l. l @ b) (pack_be 4 (int (length b)))"

lemma pack_field_prefix_code:
  assumes "pack_field x = Some a" "pack_field y = Some b" "a @ u = b @ v"
  shows "x = y \<and> u = v"
proof -
  obtain l m where l: "pack_be 4 (int (length x)) = Some l" "a = l @ x"
    and m: "pack_be 4 (int (length y)) = Some m" "b = m @ y"
    using assms(1,2) by (auto simp: pack_field_def)
  from l(1) m(1) have "length l = length m" by (simp add: pack_be_length)
  with assms(3) l(2) m(2) have lm: "l = m" and rest: "x @ u = y @ v" by auto
  from l(1) m(1) lm have "length x = length y" by (metis of_nat_eq_iff pack_be_inj)
  with rest show ?thesis by auto
qed

end
