(* ===== verification/Hash_Chain.thy ===== *)
theory Hash_Chain
  imports Crypto_Env
begin

section \<open>Hash-linked sequences\<close>

text \<open>
  The transparency ledger, the certificate chain and the audit events of an admission
  receipt are all sequences in which an entry names the digest of the entry before it. The
  locale states what they share: an entry that passes its check has the digest of its
  message, and the message determines the digest the entry names as its predecessor. It
  proves once that two checked sequences with the same last digest carry the same messages
  unless two of their messages collide.
\<close>

fun linked :: "('e \<Rightarrow> 'h) \<Rightarrow> ('e \<Rightarrow> 'h) \<Rightarrow> 'h \<Rightarrow> 'e list \<Rightarrow> bool" where
  "linked prev dig g [] = True"
| "linked prev dig g (e # es) = (prev e = g \<and> linked prev dig (dig e) es)"

lemma linked_append:
  "linked prev dig g (xs @ ys) \<longleftrightarrow>
     linked prev dig g xs \<and> linked prev dig (if xs = [] then g else dig (last xs)) ys"
  by (induction xs arbitrary: g) auto

lemma linked_snoc [simp]:
  "linked prev dig g (xs @ [x]) \<longleftrightarrow>
     linked prev dig g xs \<and> prev x = (if xs = [] then g else dig (last xs))"
  by (simp add: linked_append)

lemma linked_first_iff:
  "linked prev dig g (xs @ [x]) \<Longrightarrow> g \<notin> dig ` set (xs @ [x]) \<Longrightarrow> prev x = g \<longleftrightarrow> xs = []"
  by (cases xs rule: rev_cases) (auto simp: linked_append)

locale hash_chain =
  fixes prev :: "'e \<Rightarrow> 'h"
    and dig :: "'e \<Rightarrow> 'h"
    and msg :: "'e \<Rightarrow> 'm"
    and H :: "'m \<Rightarrow> 'h"
    and ok :: "'e \<Rightarrow> bool"
  assumes dig_msg: "ok e \<Longrightarrow> dig e = H (msg e)"
    and msg_prev: "ok e \<Longrightarrow> ok e' \<Longrightarrow> msg e = msg e' \<Longrightarrow> prev e = prev e'"
begin

lemma last_step:
  assumes "ok x" "ok y" "dig x = dig y"
  shows "msg x = msg y \<and> prev x = prev y \<or> collision_between H {msg x} {msg y}"
  using assms dig_msg [of x] dig_msg [of y] msg_prev [of x y]
  by (auto simp: collision_between_def)

lemma same_head_same_messages:
  assumes "linked prev dig g xs" "linked prev dig g ys"
    and "\<forall>e\<in>set xs. ok e" "\<forall>e\<in>set ys. ok e"
    and "xs \<noteq> []" "ys \<noteq> []" "dig (last xs) = dig (last ys)"
    and "g \<notin> dig ` set xs" "g \<notin> dig ` set ys"
  shows "map msg xs = map msg ys \<or> collision_between H (msg ` set xs) (msg ` set ys)"
  using assms
proof (induction xs arbitrary: ys rule: rev_induct)
  case Nil
  then show ?case by simp
next
  case (snoc x xs)
  obtain ys' y where ys: "ys = ys' @ [y]" using snoc.prems(6) by (cases ys rule: rev_cases) auto
  consider (same) "msg x = msg y" "prev x = prev y" | (coll) "collision_between H {msg x} {msg y}"
    using last_step [of x y] snoc.prems ys by auto
  then show ?case
  proof cases
    case coll
    then show ?thesis using ys by (auto intro: collision_between_mono)
  next
    case same
    show ?thesis
    proof (cases "xs = [] \<or> ys' = []")
      case True
      have px: "prev x = g \<longleftrightarrow> xs = []" and py: "prev y = g \<longleftrightarrow> ys' = []"
        using linked_first_iff [OF snoc.prems(1)] linked_first_iff [of prev dig g ys' y]
          snoc.prems(2,8,9) ys by simp_all
      with True same have "xs = [] \<and> ys' = []" by auto
      then show ?thesis using ys same by simp
    next
      case False
      then have "dig (last xs) = dig (last ys')" using snoc.prems(1,2) ys same by simp
      then have "map msg xs = map msg ys' \<or> collision_between H (msg ` set xs) (msg ` set ys')"
        using snoc.prems ys False by (intro snoc.IH) auto
      then show ?thesis using ys same by (auto intro: collision_between_mono)
    qed
  qed
qed

end

end
