(* ===== verification/Resource_Budget.thy ===== *)
theory Resource_Budget
  imports Prelude
begin

section \<open>Budget reservations\<close>

text \<open>
  \<open>packages/contracts/src/interfaces.py\<close>: \<open>ResourceContext\<close> and the reservations made in it.
  A reservation object keeps a reference to its context; the model keeps the context and the
  reservations made in it side by side (\<open>pool\<close>) and a step names the reservation it acts on
  by its position. Costs and durations are exact rationals.
\<close>

record resource_estimate =
  est_cost :: rat
  est_count :: int
  est_wall :: rat

record resource_measurement =
  meas_cost :: rat
  meas_count :: int
  meas_wall :: rat

record resource_context =
  rc_budget :: rat
  rc_max_wall :: rat
  rc_spent :: rat
  rc_elapsed :: rat
  rc_replays :: int
  rc_reserved :: rat
  rc_reserved_count :: int

record reservation =
  rsv_estimate :: resource_estimate
  rsv_id :: string
  rsv_committed :: bool
  rsv_released :: bool
  rsv_attached :: bool \<comment> \<open>\<open>context\<close> is not \<open>None\<close>\<close>

definition new_context :: "rat \<Rightarrow> rat \<Rightarrow> resource_context" where
  "new_context budget max_wall =
     \<lparr>rc_budget = budget, rc_max_wall = max_wall, rc_spent = 0, rc_elapsed = 0, rc_replays = 0,
      rc_reserved = 0, rc_reserved_count = 0\<rparr>"

subsection \<open>Operations\<close>

definition reserve ::
  "resource_estimate \<Rightarrow> string \<Rightarrow> resource_context \<Rightarrow> reservation option \<times> resource_context" where
  "reserve estimate new_id ctx =
     (if rc_spent ctx + rc_reserved ctx + est_cost estimate > rc_budget ctx then (None, ctx)
      else (Some \<lparr>rsv_estimate = estimate, rsv_id = new_id, rsv_committed = False,
                   rsv_released = False, rsv_attached = True\<rparr>,
            ctx\<lparr>rc_reserved := rc_reserved ctx + est_cost estimate,
                rc_reserved_count := rc_reserved_count ctx + est_count estimate\<rparr>))"

definition reconcile ::
  "reservation \<Rightarrow> resource_measurement \<Rightarrow> resource_context \<Rightarrow> resource_context" where
  "reconcile rsv m ctx =
     ctx\<lparr>rc_reserved := rc_reserved ctx - est_cost (rsv_estimate rsv),
         rc_reserved_count := rc_reserved_count ctx - est_count (rsv_estimate rsv),
         rc_spent := rc_spent ctx + meas_cost m,
         rc_replays := rc_replays ctx + meas_count m,
         rc_elapsed := rc_elapsed ctx + meas_wall m\<rparr>"

definition context_release :: "reservation \<Rightarrow> resource_context \<Rightarrow> resource_context" where
  "context_release rsv ctx =
     ctx\<lparr>rc_reserved := rc_reserved ctx - est_cost (rsv_estimate rsv),
         rc_reserved_count := rc_reserved_count ctx - est_count (rsv_estimate rsv)\<rparr>"

definition budget_exhausted :: "resource_context \<Rightarrow> bool" where
  "budget_exhausted ctx \<longleftrightarrow>
     rc_spent ctx + rc_reserved ctx \<ge> rc_budget ctx \<or> rc_elapsed ctx \<ge> rc_max_wall ctx"

definition reservation_commit ::
  "resource_measurement \<Rightarrow> reservation \<Rightarrow> resource_context \<Rightarrow> reservation \<times> resource_context" where
  "reservation_commit m rsv ctx =
     (if \<not> rsv_committed rsv \<and> \<not> rsv_released rsv \<and> rsv_attached rsv
      then (rsv\<lparr>rsv_committed := True\<rparr>, reconcile rsv m ctx)
      else (rsv, ctx))"

definition reservation_release ::
  "reservation \<Rightarrow> resource_context \<Rightarrow> reservation \<times> resource_context" where
  "reservation_release rsv ctx =
     (if \<not> rsv_committed rsv \<and> \<not> rsv_released rsv \<and> rsv_attached rsv
      then (rsv\<lparr>rsv_released := True\<rparr>, context_release rsv ctx)
      else (rsv, ctx))"

subsection \<open>A context and the reservations made in it\<close>

type_synonym pool = "resource_context \<times> reservation list"

datatype pool_op =
    PReserve resource_estimate string
  | PCommit nat resource_measurement
  | PRelease nat

text \<open>Any client may make any call; acting on a reservation that was never made is no step.\<close>

fun pool_step :: "pool_op \<Rightarrow> pool \<Rightarrow> pool" where
  "pool_step (PReserve e i) (ctx, rs) =
     (case reserve e i ctx of (None, ctx') \<Rightarrow> (ctx', rs) | (Some r, ctx') \<Rightarrow> (ctx', rs @ [r]))"
| "pool_step (PCommit k m) (ctx, rs) =
     (if k < length rs then
        (case reservation_commit m (rs ! k) ctx of (r, ctx') \<Rightarrow> (ctx', rs[k := r]))
      else (ctx, rs))"
| "pool_step (PRelease k) (ctx, rs) =
     (if k < length rs then
        (case reservation_release (rs ! k) ctx of (r, ctx') \<Rightarrow> (ctx', rs[k := r]))
      else (ctx, rs))"

definition pool_run :: "pool_op list \<Rightarrow> pool \<Rightarrow> pool" where
  "pool_run ops p = fold pool_step ops p"

definition outstanding :: "reservation \<Rightarrow> bool" where
  "outstanding r \<longleftrightarrow> \<not> rsv_committed r \<and> \<not> rsv_released r"

definition outstanding_cost :: "reservation list \<Rightarrow> rat" where
  "outstanding_cost rs = (\<Sum>r\<leftarrow>rs. if outstanding r then est_cost (rsv_estimate r) else 0)"

text \<open>
  The accounting invariant: the reserved amount is what the outstanding reservations
  estimate, estimates are not negative, and spending plus reservations fit the budget.
\<close>

definition pool_inv :: "pool \<Rightarrow> bool" where
  "pool_inv p \<longleftrightarrow>
     (\<forall>r\<in>set (snd p). rsv_attached r \<and> 0 \<le> est_cost (rsv_estimate r)) \<and>
     rc_reserved (fst p) = outstanding_cost (snd p) \<and>
     rc_spent (fst p) + rc_reserved (fst p) \<le> rc_budget (fst p)"

text \<open>A call whose estimate is not negative and whose measurement stays within the estimate.\<close>

fun op_within :: "pool \<Rightarrow> pool_op \<Rightarrow> bool" where
  "op_within p (PReserve e i) = (0 \<le> est_cost e)"
| "op_within (ctx, rs) (PCommit k m) =
     (k < length rs \<longrightarrow> meas_cost m \<le> est_cost (rsv_estimate (rs ! k)))"
| "op_within p (PRelease k) = True"

fun ops_within :: "pool \<Rightarrow> pool_op list \<Rightarrow> bool" where
  "ops_within p [] = True"
| "ops_within p (x # xs) = (op_within p x \<and> ops_within (pool_step x p) xs)"

lemma outstanding_cost_append [simp]:
  "outstanding_cost (rs @ [r]) = outstanding_cost rs + (if outstanding r then est_cost (rsv_estimate r) else 0)"
  by (simp add: outstanding_cost_def)

lemma outstanding_cost_update:
  assumes "k < length rs" "outstanding (rs ! k)" "\<not> outstanding r"
  shows "outstanding_cost (rs[k := r]) = outstanding_cost rs - est_cost (rsv_estimate (rs ! k))"
  using assms
proof (induction rs arbitrary: k)
  case (Cons a rs)
  then show ?case by (cases k) (auto simp: outstanding_cost_def)
qed simp

lemma pool_step_budget [simp]: "rc_budget (fst (pool_step x p)) = rc_budget (fst p)"
  by (cases "(x, p)" rule: pool_step.cases)
     (auto simp: reserve_def reservation_commit_def reservation_release_def reconcile_def
       context_release_def)

lemma pool_step_inv:
  assumes "pool_inv p" "op_within p x"
  shows "pool_inv (pool_step x p)"
proof (cases "(x, p)" rule: pool_step.cases)
  case (1 e i ctx rs)
  with assms show ?thesis by (auto simp: pool_inv_def reserve_def outstanding_def)
next
  case (2 k m ctx rs)
  show ?thesis
  proof (cases "k < length rs \<and> outstanding (rs ! k)")
    case True
    then have "rsv_attached (rs ! k)" using assms 2 by (simp add: pool_inv_def)
    moreover have "outstanding_cost (rs[k := (rs ! k)\<lparr>rsv_committed := True\<rparr>]) =
        outstanding_cost rs - est_cost (rsv_estimate (rs ! k))"
      using True by (intro outstanding_cost_update) (auto simp: outstanding_def)
    ultimately show ?thesis using assms 2 True
      by (auto simp: pool_inv_def reservation_commit_def reconcile_def outstanding_def
          dest!: set_update_subset_insert [THEN subsetD])
  next
    case False
    then show ?thesis using assms 2
      by (auto simp: reservation_commit_def outstanding_def)
  qed
next
  case (3 k ctx rs)
  show ?thesis
  proof (cases "k < length rs \<and> outstanding (rs ! k)")
    case True
    then have "rsv_attached (rs ! k)" and nn: "0 \<le> est_cost (rsv_estimate (rs ! k))"
      using assms 3 by (auto simp: pool_inv_def)
    moreover have "rc_spent ctx + (outstanding_cost rs - est_cost (rsv_estimate (rs ! k))) \<le> rc_budget ctx"
      using assms(1) 3 nn by (simp add: pool_inv_def)
    moreover have "outstanding_cost (rs[k := (rs ! k)\<lparr>rsv_released := True\<rparr>]) =
        outstanding_cost rs - est_cost (rsv_estimate (rs ! k))"
      using True by (intro outstanding_cost_update) (auto simp: outstanding_def)
    ultimately show ?thesis using assms 3 True
      by (auto simp: pool_inv_def reservation_release_def context_release_def outstanding_def
          dest!: set_update_subset_insert [THEN subsetD])
  next
    case False
    then show ?thesis using assms 3
      by (auto simp: reservation_release_def outstanding_def)
  qed
qed

lemma pool_run_inv: "pool_inv p \<Longrightarrow> ops_within p ops \<Longrightarrow> pool_inv (pool_run ops p)"
  by (induction ops arbitrary: p) (auto simp: pool_run_def pool_step_inv)

lemma pool_run_budget [simp]: "rc_budget (fst (pool_run ops p)) = rc_budget (fst p)"
  by (induction ops arbitrary: p) (auto simp: pool_run_def)

text \<open>
  Budget safety: starting from a fresh context with a budget that is not negative, after
  any sequence of reservations, commits and releases by any clients in which estimates are not
  negative and measured costs stay within the reservation's estimate, the reserved amount is
  the sum of the outstanding estimates and spending plus reservations never exceed the budget.
\<close>

theorem budget_never_exceeded:
  assumes "0 \<le> budget" "ops_within (new_context budget wall, []) ops"
    and "pool_run ops (new_context budget wall, []) = (ctx, rs)"
  shows "rc_spent ctx + rc_reserved ctx \<le> budget \<and> rc_reserved ctx = outstanding_cost rs \<and>
         0 \<le> rc_reserved ctx"
proof -
  have "pool_inv (new_context budget wall, [])"
    using assms(1) by (simp add: pool_inv_def new_context_def outstanding_cost_def)
  then have inv: "pool_inv (ctx, rs)" using pool_run_inv assms(2,3) by metis
  have "rc_budget ctx = budget"
    using pool_run_budget [of ops "(new_context budget wall, [])"] assms(3)
    by (simp del: pool_run_budget) (simp add: new_context_def)
  moreover have "0 \<le> outstanding_cost rs"
    using inv by (auto simp: pool_inv_def outstanding_cost_def intro!: sum_list_nonneg)
  ultimately show ?thesis using inv by (simp add: pool_inv_def)
qed

theorem budget_never_exceeded_witness:
  "(case pool_run [PReserve \<lparr>est_cost = 4, est_count = 1, est_wall = 0\<rparr> ''a'',
                    PReserve \<lparr>est_cost = 7, est_count = 1, est_wall = 0\<rparr> ''b'',
                    PCommit 0 \<lparr>meas_cost = 3, meas_count = 1, meas_wall = 0\<rparr>]
            (new_context 10 300, []) of (ctx, rs) \<Rightarrow> rc_spent ctx + rc_reserved ctx \<le> 10 \<and> rc_spent ctx = 3)"
proof -
  let ?ops = "[PReserve \<lparr>est_cost = 4, est_count = 1, est_wall = 0\<rparr> ''a'',
                    PReserve \<lparr>est_cost = 7, est_count = 1, est_wall = 0\<rparr> ''b'',
                    PCommit 0 \<lparr>meas_cost = 3, meas_count = 1, meas_wall = 0\<rparr>]"
  obtain ctx rs where p: "pool_run ?ops (new_context 10 300, []) = (ctx, rs)" by fastforce
  have w: "ops_within (new_context 10 300, []) ?ops"
    by (simp add: new_context_def reserve_def reservation_commit_def)
  have "rc_spent ctx = 3"
    using p by (auto simp: pool_run_def new_context_def reserve_def reservation_commit_def reconcile_def)
  with budget_never_exceeded [OF _ w p] p show ?thesis by simp
qed

text \<open>
  A commit that measures more than was reserved breaks the bound: nothing in
  \<open>reconcile\<close> compares the measurement with the estimate.
\<close>

lemma overspend_example:
  "rc_spent (fst (pool_run [PReserve \<lparr>est_cost = 1, est_count = 1, est_wall = 0\<rparr> ''a'',
                    PCommit 0 \<lparr>meas_cost = 50, meas_count = 1, meas_wall = 0\<rparr>]
            (new_context 10 300, []))) = 50"
  by (simp add: pool_run_def new_context_def reserve_def reservation_commit_def reconcile_def)

end
