(* ===== verification/Admission_Receipt.thy ===== *)
theory Admission_Receipt
  imports Hash_Chain Resource_Budget
begin

section \<open>Admission receipts\<close>

text \<open>
  \<open>packages/contracts/src/evidence.py\<close>, \<open>packages/replay/src/admission_receipt.py\<close>,
  \<open>admission_keys.py\<close> and \<open>execution_attestation.py\<close>: the receipt that binds an execution to
  its state, its canonical payload, binding hash and signature, the checks a worker makes on
  it, its in-memory lifecycle with the budget reservation it holds, the trust store, and the
  worker's attestation.

  Random identifiers and the clock are arguments. A receipt field that the constructor
  normalises to UTC is an instant; the constructor takes the raw \<open>datetime\<close> values.
\<close>

subsection \<open>Evidence classes\<close>

datatype evidence =
  PRODUCTION | REAL_CONTROLLED_EXPERIMENT | SYNTHETIC_SIMULATION | TEST_FIXTURE | UNVERIFIED

fun evidence_value :: "evidence \<Rightarrow> string" where
  "evidence_value PRODUCTION = ''PRODUCTION''"
| "evidence_value REAL_CONTROLLED_EXPERIMENT = ''REAL_CONTROLLED_EXPERIMENT''"
| "evidence_value SYNTHETIC_SIMULATION = ''SYNTHETIC_SIMULATION''"
| "evidence_value TEST_FIXTURE = ''TEST_FIXTURE''"
| "evidence_value UNVERIFIED = ''UNVERIFIED''"

fun is_synthetic :: "evidence \<Rightarrow> bool" where
  "is_synthetic SYNTHETIC_SIMULATION = True"
| "is_synthetic TEST_FIXTURE = True"
| "is_synthetic _ = False"

fun evidence_rank :: "evidence \<Rightarrow> nat" where
  "evidence_rank UNVERIFIED = 0"
| "evidence_rank TEST_FIXTURE = 1"
| "evidence_rank SYNTHETIC_SIMULATION = 2"
| "evidence_rank REAL_CONTROLLED_EXPERIMENT = 3"
| "evidence_rank PRODUCTION = 4"

lemma evidence_rank_inj: "evidence_rank a = evidence_rank b \<Longrightarrow> a = b"
  by (cases a; cases b) auto

text \<open>The rank orders the classes by the authority they carry.\<close>

instantiation evidence :: linorder
begin

definition less_eq_evidence :: "evidence \<Rightarrow> evidence \<Rightarrow> bool" where
  "less_eq_evidence a b \<longleftrightarrow> evidence_rank a \<le> evidence_rank b"

definition less_evidence :: "evidence \<Rightarrow> evidence \<Rightarrow> bool" where
  "less_evidence a b \<longleftrightarrow> evidence_rank a < evidence_rank b"

instance
  by standard (auto simp: less_eq_evidence_def less_evidence_def intro: evidence_rank_inj)

end

subsection \<open>The receipt\<close>

datatype receipt_status = ISSUED | VERIFIED | CONSUMED | RELEASED | VOIDED | EXPIRED

fun status_lower :: "receipt_status \<Rightarrow> string" where
  "status_lower ISSUED = ''issued''"
| "status_lower VERIFIED = ''verified''"
| "status_lower CONSUMED = ''consumed''"
| "status_lower RELEASED = ''released''"
| "status_lower VOIDED = ''voided''"
| "status_lower EXPIRED = ''expired''"

datatype terminal_reason =
    TR_COMPLETED | TR_CANCELLED | TR_EXPIRED | TR_BINDING_MISMATCH | TR_EVIDENCE_CEILING_EXCEEDED
  | TR_SIGNATURE_INVALID | TR_EXECUTION_FAILED

fun terminal_reason_value :: "terminal_reason \<Rightarrow> string" where
  "terminal_reason_value TR_COMPLETED = ''COMPLETED''"
| "terminal_reason_value TR_CANCELLED = ''CANCELLED''"
| "terminal_reason_value TR_EXPIRED = ''EXPIRED''"
| "terminal_reason_value TR_BINDING_MISMATCH = ''BINDING_MISMATCH''"
| "terminal_reason_value TR_EVIDENCE_CEILING_EXCEEDED = ''EVIDENCE_CEILING_EXCEEDED''"
| "terminal_reason_value TR_SIGNATURE_INVALID = ''SIGNATURE_INVALID''"
| "terminal_reason_value TR_EXECUTION_FAILED = ''EXECUTION_FAILED''"

datatype py_datetime = Naive int | AwareUTC int

datatype receipt_error =
    UnsupportedSchema string
  | NaiveDatetime string
  | BadResourceValues
  | ExpiryNotAfterIssue
  | ReservationRefused
  | OnlyIssuedCanBeSigned
  | NotAvailableForVerification
  | NotAvailableForCommit

record receipt =
  ar_tenant_id :: string
  ar_manifest_hash :: string
  ar_trace_root_hash :: string
  ar_intervention_hash :: string
  ar_current_version :: string
  ar_candidate_version :: string
  ar_policy_hash :: string
  ar_predicted_cost :: rat
  ar_uncertainty_margin :: rat
  ar_rollback_reserve :: rat
  ar_evidence_ceiling :: evidence
  ar_capsule_hash :: string
  ar_issued_at :: int
  ar_expires_at :: int
  ar_receipt_id :: string
  ar_schema_version :: string
  ar_workload_id :: string
  ar_run_id :: string
  ar_nonce :: string
  ar_policy_version :: string
  ar_approval_id :: string
  ar_resource_pool_id :: string
  ar_key_id :: string
  ar_signature_algorithm :: string
  ar_payload_signature :: string
  ar_issued_by :: string
  ar_status :: receipt_status
  ar_terminal_reason :: "terminal_reason option"
  ar_consumed_by :: string
  ar_consumed_at :: "int option"
  ar_reservation :: "reservation option"

definition require_aware_utc :: "py_datetime \<Rightarrow> string \<Rightarrow> (receipt_error, int) result" where
  "require_aware_utc v field_name =
     (case v of Naive _ \<Rightarrow> Inl (NaiveDatetime field_name) | AwareUTC t \<Rightarrow> Inr t)"

definition validate_numbers :: "receipt \<Rightarrow> bool" where
  "validate_numbers r \<longleftrightarrow>
     0 \<le> ar_predicted_cost r \<and> 0 \<le> ar_uncertainty_margin r \<and> 0 \<le> ar_rollback_reserve r"

text \<open>
  \<open>__post_init__\<close>: the checks in the order of the source, the raw times as arguments. The
  cached \<open>_binding_hash\<close> is not kept: \<open>binding_hash\<close> always recomputes it.
\<close>

definition post_init ::
  "py_datetime \<Rightarrow> py_datetime \<Rightarrow> py_datetime option \<Rightarrow> receipt \<Rightarrow> (receipt_error, receipt) result" where
  "post_init issued expires consumed r =
     (if ar_schema_version r \<noteq> ''1'' then Inl (UnsupportedSchema (ar_schema_version r))
      else rbind (require_aware_utc issued ''issued_at'') (\<lambda>i.
           rbind (require_aware_utc expires ''expires_at'') (\<lambda>x.
           rbind (case consumed of None \<Rightarrow> Inr None
                  | Some c \<Rightarrow> rbind (require_aware_utc c ''consumed_at'') (\<lambda>t. Inr (Some t))) (\<lambda>c.
           if \<not> validate_numbers r then Inl BadResourceValues
           else if x \<le> i then Inl ExpiryNotAfterIssue
           else Inr (r\<lparr>ar_issued_at := i, ar_expires_at := x, ar_consumed_at := c\<rparr>)))))"

subsection \<open>Canonical payload, binding hash and signature\<close>

definition canonical_payload :: "env \<Rightarrow> receipt \<Rightarrow> (string \<times> json) list" where
  "canonical_payload E r =
     [(''receipt_id'', JStr (ar_receipt_id r)),
      (''schema_version'', JStr (ar_schema_version r)),
      (''tenant_id'', JStr (ar_tenant_id r)),
      (''workload_id'', JStr (ar_workload_id r)),
      (''run_id'', JStr (ar_run_id r)),
      (''nonce'', JStr (ar_nonce r)),
      (''manifest_hash'', JStr (ar_manifest_hash r)),
      (''trace_root_hash'', JStr (ar_trace_root_hash r)),
      (''intervention_hash'', JStr (ar_intervention_hash r)),
      (''current_version'', JStr (ar_current_version r)),
      (''candidate_version'', JStr (ar_candidate_version r)),
      (''policy_hash'', JStr (ar_policy_hash r)),
      (''policy_version'', JStr (ar_policy_version r)),
      (''approval_id'', JStr (ar_approval_id r)),
      (''predicted_cost'', JFloat (ar_predicted_cost r)),
      (''uncertainty_margin'', JFloat (ar_uncertainty_margin r)),
      (''rollback_reserve'', JFloat (ar_rollback_reserve r)),
      (''resource_pool_id'', JStr (ar_resource_pool_id r)),
      (''evidence_ceiling'', JStr (evidence_value (ar_evidence_ceiling r))),
      (''capsule_hash'', JStr (ar_capsule_hash r)),
      (''issued_at'', JStr (iso E (ar_issued_at r))),
      (''expires_at'', JStr (iso E (ar_expires_at r))),
      (''key_id'', JStr (ar_key_id r)),
      (''signature_algorithm'', JStr (ar_signature_algorithm r)),
      (''issued_by'', JStr (ar_issued_by r))]"

definition stored_payload :: "env \<Rightarrow> receipt \<Rightarrow> (string \<times> json) list" where
  "stored_payload E r =
     canonical_payload E r @ [(''payload_signature'', JStr (ar_payload_signature r))]"

definition receipt_bytes :: "env \<Rightarrow> receipt \<Rightarrow> string" where
  "receipt_bytes E r = canonical_bytes E (JObj (canonical_payload E r))"

definition receipt_hash_message :: "env \<Rightarrow> receipt \<Rightarrow> string" where
  "receipt_hash_message E r = ''DGX-REPLAY-ADMISSION-V1'' @ [CHR 0x00] @ receipt_bytes E r"

definition binding_hash :: "env \<Rightarrow> receipt \<Rightarrow> string" where
  "binding_hash E r = sha256 E (receipt_hash_message E r)"

definition signing_bytes :: "env \<Rightarrow> receipt \<Rightarrow> string" where
  "signing_bytes E r = ''DGX-REPLAY-ADMISSION-SIGNATURE-V1'' @ [CHR 0x00] @ receipt_bytes E r"

text \<open>A signer: its key identifier and its private key.\<close>

record signer =
  sg_key_id :: string
  sg_private :: string

definition sign_receipt :: "env \<Rightarrow> signer \<Rightarrow> receipt \<Rightarrow> (receipt_error, receipt) result" where
  "sign_receipt E sg r =
     (if ar_status r \<noteq> ISSUED then Inl OnlyIssuedCanBeSigned
      else let r1 = r\<lparr>ar_key_id := sg_key_id sg, ar_signature_algorithm := ''Ed25519''\<rparr>
           in Inr (r1\<lparr>ar_payload_signature := ed25519_sign E (sg_private sg) (signing_bytes E r1)\<rparr>))"

definition verify_receipt_signature :: "env \<Rightarrow> string \<Rightarrow> receipt \<Rightarrow> bool \<times> string" where
  "verify_receipt_signature E public_key_b64 r =
     (if ar_key_id r = [] \<or> ar_payload_signature r = [] then (False, ''Admission receipt is unsigned.'')
      else if ar_signature_algorithm r \<noteq> ''Ed25519''
      then (False, ''Unsupported admission receipt signature algorithm.'')
      else if \<not> verify_signature E public_key_b64 (signing_bytes E r) (ar_payload_signature r)
      then (False, ''Admission receipt signature is invalid.'')
      else (True, ''ok''))"

definition intervention_binding_hash ::
  "env \<Rightarrow> string \<Rightarrow> string \<Rightarrow> string \<Rightarrow> string \<Rightarrow> string" where
  "intervention_binding_hash E intervention_id target_component current_version candidate_version =
     sha256 E (''DGX-REPLAY-INTERVENTION-V1'' @ [CHR 0x00] @ canonical_bytes E (JObj
       [(''intervention_id'', JStr intervention_id), (''target_component'', JStr target_component),
        (''current_version'', JStr current_version), (''candidate_version'', JStr candidate_version)]))"

subsection \<open>Checks on a receipt\<close>

definition verify_evidence :: "evidence \<Rightarrow> receipt \<Rightarrow> bool \<times> string" where
  "verify_evidence evidence_class r =
     (if evidence_rank evidence_class > evidence_rank (ar_evidence_ceiling r)
      then (False, ''Evidence classification exceeds the receipt ceiling.'')
      else (True, ''ok''))"

text \<open>Python's \<open>==\<close> between a given value and a string or float of the payload.\<close>

fun num_val :: "json \<Rightarrow> rat option" where
  "num_val (JBool b) = Some (if b then 1 else 0)"
| "num_val (JInt i) = Some (of_int i)"
| "num_val (JFloat q) = Some q"
| "num_val _ = None"

definition py_eq :: "json \<Rightarrow> json \<Rightarrow> bool" where
  "py_eq a b =
     (case (num_val a, num_val b) of
        (Some x, Some y) \<Rightarrow> x = y
      | (None, None) \<Rightarrow> a = b
      | _ \<Rightarrow> False)"

lemma py_eq_JStr [simp]: "py_eq a (JStr s) \<longleftrightarrow> a = JStr s"
  by (cases a) (auto simp: py_eq_def)

fun check_kwargs :: "(string \<times> json) list \<Rightarrow> (string \<times> json) list \<Rightarrow> bool \<times> string" where
  "check_kwargs expected [] = (True, ''ok'')"
| "check_kwargs expected ((key, v) # rest) =
     (case map_of expected key of
        None \<Rightarrow> (False, ''Unknown receipt binding: '' @ key @ ''.'')
      | Some e \<Rightarrow>
          if \<not> py_eq v e then (False, ''Receipt binding mismatch: '' @ key @ ''.'')
          else check_kwargs expected rest)"

subsection \<open>The in-memory lifecycle\<close>

definition receipt_release :: "receipt \<Rightarrow> resource_context \<Rightarrow> receipt \<times> resource_context" where
  "receipt_release r ctx =
     (case ar_reservation r of
        None \<Rightarrow> (r, ctx)
      | Some rsv \<Rightarrow>
          if ar_status r \<noteq> ISSUED \<and> ar_status r \<noteq> VERIFIED then (r, ctx)
          else (case reservation_release rsv ctx of
                  (rsv', ctx') \<Rightarrow> (r\<lparr>ar_reservation := Some rsv', ar_status := RELEASED\<rparr>, ctx')))"

definition receipt_void :: "receipt \<Rightarrow> resource_context \<Rightarrow> receipt \<times> resource_context" where
  "receipt_void r ctx =
     (if ar_status r = ISSUED
      then (case receipt_release r ctx of (r', ctx') \<Rightarrow> (r'\<lparr>ar_status := VOIDED\<rparr>, ctx'))
      else (r, ctx))"

definition receipt_commit ::
  "resource_measurement \<Rightarrow> receipt \<Rightarrow> resource_context \<Rightarrow> (receipt_error, receipt \<times> resource_context) result" where
  "receipt_commit m r ctx =
     (case ar_reservation r of
        None \<Rightarrow> Inl NotAvailableForCommit
      | Some rsv \<Rightarrow>
          if ar_status r \<noteq> ISSUED \<and> ar_status r \<noteq> VERIFIED then Inl NotAvailableForCommit
          else (case reservation_commit m rsv ctx of
                  (rsv', ctx') \<Rightarrow> Inr (r\<lparr>ar_reservation := Some rsv', ar_status := CONSUMED\<rparr>, ctx')))"

definition mark_verified :: "receipt \<Rightarrow> (receipt_error, receipt) result" where
  "mark_verified r =
     (if ar_status r \<noteq> ISSUED then Inl NotAvailableForVerification
      else Inr (r\<lparr>ar_status := VERIFIED\<rparr>))"

definition verify_binding ::
  "env \<Rightarrow> int \<Rightarrow> (string \<times> json) list \<Rightarrow> receipt \<Rightarrow> resource_context \<Rightarrow>
     (bool \<times> string) \<times> receipt \<times> resource_context" where
  "verify_binding E now actual r ctx =
     (if ar_status r \<noteq> ISSUED then ((False, ''Receipt is '' @ status_lower (ar_status r) @ ''.''), r, ctx)
      else if ar_expires_at r \<le> now then ((False, ''Receipt has expired.''), receipt_void r ctx)
      else (check_kwargs (canonical_payload E r) actual, r, ctx))"

text \<open>
  \<open>issue\<close>: the receipt given holds the keyword arguments; the identifiers, the nonce and the
  id of the reservation are fresh, and the reservation is for the sum of the three amounts.
\<close>

definition issue_receipt ::
  "py_datetime \<Rightarrow> py_datetime \<Rightarrow> string \<Rightarrow> string \<Rightarrow> string \<Rightarrow> receipt \<Rightarrow> resource_context \<Rightarrow>
     (receipt_error, receipt \<times> resource_context) result" where
  "issue_receipt issued expires fresh_id fresh_nonce fresh_rsv args ctx =
     rbind (post_init issued expires None
        (args\<lparr>ar_schema_version := ''1'', ar_key_id := [], ar_signature_algorithm := [],
              ar_payload_signature := [], ar_status := ISSUED, ar_terminal_reason := None,
              ar_consumed_by := [], ar_reservation := None,
              ar_receipt_id := (if ar_receipt_id args = [] then fresh_id else ar_receipt_id args),
              ar_nonce := (if ar_nonce args = [] then fresh_nonce else ar_nonce args)\<rparr>))
       (\<lambda>r. case reserve \<lparr>est_cost = ar_predicted_cost r + ar_uncertainty_margin r + ar_rollback_reserve r,
                         est_count = 1, est_wall = 0\<rparr> fresh_rsv ctx of
              (None, _) \<Rightarrow> Inl ReservationRefused
            | (Some rsv, ctx') \<Rightarrow> Inr (r\<lparr>ar_reservation := Some rsv\<rparr>, ctx'))"

subsection \<open>Keys and trust\<close>

text \<open>
  The environment variables the admission code reads. The trusted-key variables are kept as
  the outcome of \<open>json.loads\<close> on them: \<open>None\<close> where the text is not JSON.
\<close>

record admission_config =
  cfg_require_signature :: string
  cfg_dgx_mode :: string
  cfg_app_env :: string
  cfg_environment :: string
  cfg_signing_key_id :: string
  cfg_private_key_b64 :: string
  cfg_worker_key_id :: string
  cfg_worker_private_key_b64 :: string
  cfg_store_backend :: string
  cfg_trusted_keys :: "json option"
  cfg_worker_trusted_keys :: "json option"

definition receipt_signature_required :: "admission_config \<Rightarrow> bool" where
  "receipt_signature_required cfg =
     (let explicit = py_lower (py_strip (cfg_require_signature cfg)) in
      if explicit \<in> {''1'', ''true'', ''yes'', ''on''} then True
      else if explicit \<in> {''0'', ''false'', ''no'', ''off''} then False
      else py_lower (cfg_dgx_mode cfg) = ''production''
         \<or> py_lower (cfg_app_env cfg) \<in> {''staging'', ''production'', ''prod''}
         \<or> py_lower (cfg_environment cfg) \<in> {''staging'', ''prod''})"

datatype trust_error = TrustNotJson | TrustNotStringMap

fun string_members :: "(string \<times> json) list \<Rightarrow> (string \<times> string) list option" where
  "string_members [] = Some []"
| "string_members ((k, JStr v) # rest) = map_option ((#) (k, v)) (string_members rest)"
| "string_members (_ # rest) = None"

definition trust_from_environment :: "json option \<Rightarrow> (trust_error, (string \<times> string) list) result" where
  "trust_from_environment raw =
     (case raw of
        None \<Rightarrow> Inl TrustNotJson
      | Some (JObj kvs) \<Rightarrow>
          (case string_members kvs of None \<Rightarrow> Inl TrustNotStringMap | Some m \<Rightarrow> Inr m)
      | Some _ \<Rightarrow> Inl TrustNotStringMap)"

definition trust_verify :: "env \<Rightarrow> (string \<times> string) list \<Rightarrow> receipt \<Rightarrow> bool \<times> string" where
  "trust_verify E public_keys r =
     (if ar_key_id r = [] \<or> ar_payload_signature r = [] then (False, ''Admission receipt is unsigned.'')
      else case map_of public_keys (ar_key_id r) of
             None \<Rightarrow> (False, ''Admission receipt signing key is not trusted.'')
           | Some pk \<Rightarrow> verify_receipt_signature E pk r)"


text \<open>
  Loading a signer: whether the decoded bytes are an Ed25519 private key is the parameter
  \<open>key_ok\<close> (\<open>base64\<close> and the \<open>cryptography\<close> package).
\<close>

datatype signer_error = SignerMissing | SignerKeyInvalid

definition load_environment_signer ::
  "(string \<Rightarrow> bool) \<Rightarrow> admission_config \<Rightarrow> bool option \<Rightarrow> (signer_error, signer option) result" where
  "load_environment_signer key_ok cfg required =
     (let must_sign = (case required of None \<Rightarrow> receipt_signature_required cfg | Some b \<Rightarrow> b);
          key_id = py_strip (cfg_signing_key_id cfg);
          private_key_b64 = py_strip (cfg_private_key_b64 cfg)
      in if key_id = [] \<or> private_key_b64 = []
         then (if must_sign then Inl SignerMissing else Inr None)
         else if \<not> key_ok private_key_b64 then Inl SignerKeyInvalid
         else Inr (Some \<lparr>sg_key_id = key_id, sg_private = private_key_b64\<rparr>))"

definition load_worker_attestation_signer ::
  "(string \<Rightarrow> bool) \<Rightarrow> admission_config \<Rightarrow> bool option \<Rightarrow> (signer_error, signer option) result" where
  "load_worker_attestation_signer key_ok cfg required =
     (let must_sign = (case required of None \<Rightarrow> receipt_signature_required cfg | Some b \<Rightarrow> b);
          key_id = py_strip (cfg_worker_key_id cfg);
          private_key_b64 = py_strip (cfg_worker_private_key_b64 cfg)
      in if key_id = [] \<or> private_key_b64 = []
         then (if must_sign then Inl SignerMissing else Inr None)
         else if \<not> key_ok private_key_b64 then Inl SignerKeyInvalid
         else Inr (Some \<lparr>sg_key_id = key_id, sg_private = private_key_b64\<rparr>))"

datatype runtime_sign_error = SignerError signer_error | ReceiptError receipt_error

definition sign_receipt_for_runtime ::
  "env \<Rightarrow> (string \<Rightarrow> bool) \<Rightarrow> admission_config \<Rightarrow> receipt \<Rightarrow> (runtime_sign_error, bool \<times> receipt) result" where
  "sign_receipt_for_runtime E key_ok cfg r =
     (case load_environment_signer key_ok cfg None of
        Inl e \<Rightarrow> Inl (SignerError e)
      | Inr None \<Rightarrow> Inr (False, r)
      | Inr (Some sg) \<Rightarrow>
          (case sign_receipt E sg r of
             Inl e \<Rightarrow> Inl (ReceiptError e)
           | Inr r' \<Rightarrow> Inr (True, r')))"

subsection \<open>Execution attestations\<close>

record attestation =
  at_receipt_id :: string
  at_receipt_binding_hash :: string
  at_tenant_id :: string
  at_worker_id :: string
  at_manifest_hash :: string
  at_policy_hash :: string
  at_runtime_version :: string
  at_image_digest :: string
  at_started_at :: int
  at_completed_at :: int
  at_outcome :: string
  at_outcome_hash :: string
  at_schema_version :: string
  at_key_id :: string
  at_signature_algorithm :: string
  at_payload_signature :: string

datatype attestation_error =
  AtUnsupportedSchema string | AtNaiveDatetime string | AtCompletionBeforeStart

definition attestation_aware_utc :: "py_datetime \<Rightarrow> string \<Rightarrow> (attestation_error, int) result" where
  "attestation_aware_utc v field_name =
     (case v of Naive _ \<Rightarrow> Inl (AtNaiveDatetime field_name) | AwareUTC t \<Rightarrow> Inr t)"

definition attestation_post_init ::
  "py_datetime \<Rightarrow> py_datetime \<Rightarrow> attestation \<Rightarrow> (attestation_error, attestation) result" where
  "attestation_post_init started completed a =
     (if at_schema_version a \<noteq> ''1'' then Inl (AtUnsupportedSchema (at_schema_version a))
      else rbind (attestation_aware_utc started ''started_at'') (\<lambda>s.
           rbind (attestation_aware_utc completed ''completed_at'') (\<lambda>c.
           if c < s then Inl AtCompletionBeforeStart
           else Inr (a\<lparr>at_started_at := s, at_completed_at := c\<rparr>))))"

definition attestation_payload :: "env \<Rightarrow> attestation \<Rightarrow> (string \<times> json) list" where
  "attestation_payload E a =
     [(''schema_version'', JStr (at_schema_version a)),
      (''receipt_id'', JStr (at_receipt_id a)),
      (''receipt_binding_hash'', JStr (at_receipt_binding_hash a)),
      (''tenant_id'', JStr (at_tenant_id a)),
      (''worker_id'', JStr (at_worker_id a)),
      (''manifest_hash'', JStr (at_manifest_hash a)),
      (''policy_hash'', JStr (at_policy_hash a)),
      (''runtime_version'', JStr (at_runtime_version a)),
      (''image_digest'', JStr (at_image_digest a)),
      (''started_at'', JStr (iso E (at_started_at a))),
      (''completed_at'', JStr (iso E (at_completed_at a))),
      (''outcome'', JStr (at_outcome a)),
      (''outcome_hash'', JStr (at_outcome_hash a)),
      (''key_id'', JStr (at_key_id a)),
      (''signature_algorithm'', JStr (at_signature_algorithm a))]"

definition attestation_bytes :: "env \<Rightarrow> attestation \<Rightarrow> string" where
  "attestation_bytes E a = canonical_bytes E (JObj (attestation_payload E a))"

definition attestation_signing_bytes :: "env \<Rightarrow> attestation \<Rightarrow> string" where
  "attestation_signing_bytes E a =
     ''DGX-EXECUTION-ATTESTATION-SIGNATURE-V1'' @ [CHR 0x00] @ attestation_bytes E a"

definition attestation_hash :: "env \<Rightarrow> attestation \<Rightarrow> string" where
  "attestation_hash E a =
     sha256 E (''DGX-EXECUTION-ATTESTATION-V1'' @ [CHR 0x00] @ attestation_bytes E a)"

definition attestation_stored_payload :: "env \<Rightarrow> attestation \<Rightarrow> (string \<times> json) list" where
  "attestation_stored_payload E a =
     attestation_payload E a @ [(''payload_signature'', JStr (at_payload_signature a))]"

definition sign_attestation :: "env \<Rightarrow> signer \<Rightarrow> attestation \<Rightarrow> attestation" where
  "sign_attestation E sg a =
     (let a1 = a\<lparr>at_key_id := sg_key_id sg, at_signature_algorithm := ''Ed25519''\<rparr>
      in a1\<lparr>at_payload_signature := ed25519_sign E (sg_private sg) (attestation_signing_bytes E a1)\<rparr>)"

definition verify_attestation_signature :: "env \<Rightarrow> string \<Rightarrow> attestation \<Rightarrow> bool \<times> string" where
  "verify_attestation_signature E public_key_b64 a =
     (if at_key_id a = [] \<or> at_payload_signature a = []
      then (False, ''Execution attestation is unsigned.'')
      else if at_signature_algorithm a \<noteq> ''Ed25519''
      then (False, ''Unsupported execution attestation signature algorithm.'')
      else if \<not> verify_signature E public_key_b64 (attestation_signing_bytes E a) (at_payload_signature a)
      then (False, ''Execution attestation signature is invalid.'')
      else (True, ''ok''))"

subsection \<open>What the binding hash binds\<close>

text \<open>The part of a receipt that is fixed at issue; signature and lifecycle are blanked.\<close>

definition bound_part :: "receipt \<Rightarrow> receipt" where
  "bound_part r =
     r\<lparr>ar_payload_signature := [], ar_status := ISSUED, ar_terminal_reason := None,
       ar_consumed_by := [], ar_consumed_at := None, ar_reservation := None\<rparr>"

lemma evidence_value_inj: "evidence_value a = evidence_value b \<Longrightarrow> a = b"
  by (cases a; cases b) simp_all

lemma canonical_payload_keys:
  "map fst (canonical_payload E r) = map fst (canonical_payload E r')"
  "distinct (map fst (canonical_payload E r))"
  by (simp_all add: canonical_payload_def)

lemma receipt_bytes_inj:
  assumes "float_repr_ok (float_repr E)" "inj (iso E)" "receipt_bytes E r = receipt_bytes E r'"
  shows "bound_part r = bound_part r'"
proof -
  have "canon (JObj (canonical_payload E r)) = canon (JObj (canonical_payload E r'))"
    using assms(1,3) unfolding receipt_bytes_def by (rule canonical_bytes_inj)
  then have "canon_members (canonical_payload E r) = canon_members (canonical_payload E r')"
    by (rule canon_obj_eqD [OF _ canonical_payload_keys])
  then show ?thesis
    using assms(2) by (auto simp: canonical_payload_def bound_part_def inj_eq dest: evidence_value_inj)
qed

text \<open>
  C28. The binding hash binds every immutable field: two receipts with the same binding hash
  agree on all fields but the signature and the lifecycle ones (tenant, workload, run, nonce,
  the state and policy hashes, versions, amounts, evidence ceiling, validity period, key),
  or their two hashed messages are an explicit SHA-256 collision.
\<close>

theorem binding_hash_binds:
  assumes "float_repr_ok (float_repr E)" "inj (iso E)" "binding_hash E r = binding_hash E r'"
  shows "bound_part r = bound_part r' \<or>
         collision_between (sha256 E) {receipt_hash_message E r} {receipt_hash_message E r'}"
proof (cases "receipt_hash_message E r = receipt_hash_message E r'")
  case True
  then have "receipt_bytes E r = receipt_bytes E r'" by (simp add: receipt_hash_message_def)
  then show ?thesis using receipt_bytes_inj [OF assms(1,2)] by blast
next
  case False
  then show ?thesis using assms(3) by (auto simp: binding_hash_def collision_between_def)
qed

definition demo_receipt :: receipt where
  "demo_receipt =
     \<lparr>ar_tenant_id = ''t'', ar_manifest_hash = ''m'', ar_trace_root_hash = ''tr'',
      ar_intervention_hash = ''ih'', ar_current_version = ''v1'', ar_candidate_version = ''v2'',
      ar_policy_hash = ''p'', ar_predicted_cost = 3, ar_uncertainty_margin = 1,
      ar_rollback_reserve = 1, ar_evidence_ceiling = SYNTHETIC_SIMULATION, ar_capsule_hash = ''c'',
      ar_issued_at = 10, ar_expires_at = 20, ar_receipt_id = ''r1'', ar_schema_version = ''1'',
      ar_workload_id = ''w'', ar_run_id = ''run'', ar_nonce = ''n'', ar_policy_version = ''1'',
      ar_approval_id = [], ar_resource_pool_id = ''pool'', ar_key_id = [],
      ar_signature_algorithm = [], ar_payload_signature = [], ar_issued_by = ''svc'',
      ar_status = ISSUED, ar_terminal_reason = None, ar_consumed_by = [], ar_consumed_at = None,
      ar_reservation = None\<rparr>"

text \<open>An environment for the examples: the identity as hash, the key as its own signature.\<close>

definition receipt_env :: env where
  "receipt_env =
     \<lparr>sha256 = (\<lambda>m. m), float_repr = ratio_repr, iso = int_str,
      ed25519_verify = (\<lambda>pk m s. if s = pk @ m then EdVerified else EdInvalidSignature),
      ed25519_sign = (\<lambda>sk m. sk @ m), hmac_sha256 = (\<lambda>k m. k @ m),
      b64_encode = (\<lambda>x. x), b64_decode = Some\<rparr>"

lemma receipt_env_simps [simp]:
  "sha256 receipt_env = (\<lambda>m. m)" "float_repr receipt_env = ratio_repr" "iso receipt_env = int_str"
  by (simp_all add: receipt_env_def)

theorem binding_hash_binds_witness:
  "bound_part demo_receipt = bound_part (demo_receipt\<lparr>ar_status := CONSUMED\<rparr>)"
proof -
  have "binding_hash receipt_env demo_receipt = binding_hash receipt_env (demo_receipt\<lparr>ar_status := CONSUMED\<rparr>)"
    by (simp add: binding_hash_def receipt_hash_message_def receipt_bytes_def canonical_payload_def)
  from binding_hash_binds [OF _ _ this] show ?thesis
    by (simp add: float_repr_ok_ratio_repr inj_int_str inj_def collision_between_def
        receipt_hash_message_def receipt_bytes_def canonical_payload_def)
qed

subsection \<open>Signatures\<close>

definition ed_pair :: "env \<Rightarrow> string \<Rightarrow> string \<Rightarrow> bool" where
  "ed_pair E pk sk \<longleftrightarrow>
     (\<forall>m. ed25519_verify E pk m (ed25519_sign E sk m) = EdVerified \<and> ed25519_sign E sk m \<noteq> [])"

lemma trust_verify_accepts_iff:
  "trust_verify E keys r = (True, msg) \<longleftrightarrow>
     msg = ''ok'' \<and> ar_key_id r \<noteq> [] \<and> ar_payload_signature r \<noteq> [] \<and>
     ar_signature_algorithm r = ''Ed25519'' \<and>
     (\<exists>pk. map_of keys (ar_key_id r) = Some pk \<and>
           ed25519_verify E pk (signing_bytes E r) (ar_payload_signature r) = EdVerified)"
  by (auto simp: trust_verify_def verify_receipt_signature_def verify_signature_def
      split: option.splits ed_outcome.splits if_splits)

lemma signing_bytes_signature [simp]:
  "signing_bytes E (r\<lparr>ar_payload_signature := x\<rparr>) = signing_bytes E r"
  by (simp add: signing_bytes_def receipt_bytes_def canonical_payload_def)

text \<open>
  Signing round trip: a receipt signed with a key accepted by the trust store verifies,
  it keeps everything but key id, algorithm and signature, and signing again after the
  receipt has left ISSUED is refused.
\<close>

theorem signed_receipt_is_trusted:
  assumes "ed_pair E pk (sg_private sg)" "sg_key_id sg \<noteq> []"
    and "map_of keys (sg_key_id sg) = Some pk" "sign_receipt E sg r = Inr r'"
  shows "trust_verify E keys r' = (True, ''ok'') \<and> ar_status r' = ISSUED \<and>
         r'\<lparr>ar_key_id := ar_key_id r, ar_signature_algorithm := ar_signature_algorithm r,
            ar_payload_signature := ar_payload_signature r\<rparr> = r \<and>
         (\<forall>st. st \<noteq> ISSUED \<longrightarrow> sign_receipt E sg (r'\<lparr>ar_status := st\<rparr>) = Inl OnlyIssuedCanBeSigned)"
proof -
  have r': "ar_status r = ISSUED"
    "r' = r\<lparr>ar_key_id := sg_key_id sg, ar_signature_algorithm := ''Ed25519'',
           ar_payload_signature := ed25519_sign E (sg_private sg)
             (signing_bytes E (r\<lparr>ar_key_id := sg_key_id sg, ar_signature_algorithm := ''Ed25519''\<rparr>))\<rparr>"
    using assms(4) by (auto simp: sign_receipt_def Let_def split: if_splits)
  have "trust_verify E keys r' = (True, ''ok'')"
    using assms(1-3) unfolding r' by (simp add: trust_verify_accepts_iff ed_pair_def)
  then show ?thesis using r' by (simp add: sign_receipt_def)
qed

theorem signed_receipt_is_trusted_witness:
  "\<exists>r'. sign_receipt receipt_env \<lparr>sg_key_id = ''k1'', sg_private = ''sec''\<rparr> demo_receipt = Inr r' \<and>
        trust_verify receipt_env [(''k1'', ''sec'')] r' = (True, ''ok'')"
proof -
  let ?sg = "\<lparr>sg_key_id = ''k1'', sg_private = ''sec''\<rparr>"
  have "\<exists>r'. sign_receipt receipt_env ?sg demo_receipt = Inr r'"
    by (simp add: sign_receipt_def demo_receipt_def Let_def)
  then obtain r' where s: "sign_receipt receipt_env ?sg demo_receipt = Inr r'" ..
  have "ed_pair receipt_env ''sec'' (sg_private ?sg)" by (simp add: ed_pair_def receipt_env_def)
  from signed_receipt_is_trusted [OF this _ _ s, of "[(''k1'', ''sec'')]"] s show ?thesis by simp
qed

subsection \<open>Checks against the live state and lifecycle accounting\<close>

lemma check_kwargs_accepts_iff:
  "fst (check_kwargs expected actual) \<longleftrightarrow>
     (\<forall>(k, v)\<in>set actual. \<exists>e. map_of expected k = Some e \<and> py_eq v e)"
  by (induction expected actual rule: check_kwargs.induct) (auto split: option.splits)

datatype receipt_op =
    RRelease
  | RVoid
  | RCommit resource_measurement
  | RMarkVerified
  | RVerify int "(string \<times> json) list"

text \<open>One call on a receipt; a raised error leaves receipt and context as they were.\<close>

fun receipt_step :: "env \<Rightarrow> receipt_op \<Rightarrow> receipt \<times> resource_context \<Rightarrow> receipt \<times> resource_context" where
  "receipt_step E RRelease (r, ctx) = receipt_release r ctx"
| "receipt_step E RVoid (r, ctx) = receipt_void r ctx"
| "receipt_step E (RCommit m) (r, ctx) =
     (case receipt_commit m r ctx of Inl _ \<Rightarrow> (r, ctx) | Inr s \<Rightarrow> s)"
| "receipt_step E RMarkVerified (r, ctx) =
     (case mark_verified r of Inl _ \<Rightarrow> (r, ctx) | Inr r' \<Rightarrow> (r', ctx))"
| "receipt_step E (RVerify now actual) (r, ctx) = snd (verify_binding E now actual r ctx)"

text \<open>
  The reservation of the receipt is outstanding exactly while the receipt is ISSUED or
  VERIFIED, and the context holds its amount on top of \<open>base\<close> exactly that long.
\<close>

definition receipt_inv :: "rat \<Rightarrow> receipt \<Rightarrow> receipt \<times> resource_context \<Rightarrow> bool" where
  "receipt_inv base r0 s =
     (case s of (r, ctx) \<Rightarrow>
       (case ar_reservation r of
          None \<Rightarrow> False
        | Some rsv \<Rightarrow>
            rsv_attached rsv \<and>
            est_cost (rsv_estimate rsv) =
              ar_predicted_cost r0 + ar_uncertainty_margin r0 + ar_rollback_reserve r0 \<and>
            (outstanding rsv \<longleftrightarrow> ar_status r = ISSUED \<or> ar_status r = VERIFIED) \<and>
            rc_reserved ctx = base + (if outstanding rsv then est_cost (rsv_estimate rsv) else 0) \<and>
            bound_part r = bound_part r0))"

lemmas receipt_op_defs =
  receipt_release_def receipt_void_def receipt_commit_def mark_verified_def verify_binding_def
  reservation_release_def reservation_commit_def context_release_def reconcile_def

lemma bound_part_lifecycle [simp]:
  "bound_part (r\<lparr>ar_status := st\<rparr>) = bound_part r"
  "bound_part (r\<lparr>ar_reservation := x\<rparr>) = bound_part r"
  by (simp_all add: bound_part_def)

lemma receipt_step_inv: "receipt_inv base r0 s \<Longrightarrow> receipt_inv base r0 (receipt_step E x s)"
  by (cases "(E, x, s)" rule: receipt_step.cases)
     (auto simp: receipt_inv_def receipt_op_defs outstanding_def
       split: option.splits prod.splits if_splits)

lemma receipt_steps_inv: "receipt_inv base r0 s \<Longrightarrow> receipt_inv base r0 (fold (receipt_step E) ops s)"
  by (induction ops arbitrary: s) (auto simp: receipt_step_inv)

lemma issue_receipt_inv:
  assumes "issue_receipt issued expires i n rv args ctx = Inr (r, ctx')"
  shows "receipt_inv (rc_reserved ctx) r (r, ctx') \<and> ar_status r = ISSUED"
proof -
  let ?a = "args\<lparr>ar_schema_version := ''1'', ar_key_id := [], ar_signature_algorithm := [],
              ar_payload_signature := [], ar_status := ISSUED, ar_terminal_reason := None,
              ar_consumed_by := [], ar_reservation := None,
              ar_receipt_id := (if ar_receipt_id args = [] then i else ar_receipt_id args),
              ar_nonce := (if ar_nonce args = [] then n else ar_nonce args)\<rparr>"
  obtain q where q: "post_init issued expires None ?a = Inr q"
    and res: "(case reserve \<lparr>est_cost = ar_predicted_cost q + ar_uncertainty_margin q + ar_rollback_reserve q,
                         est_count = 1, est_wall = 0\<rparr> rv ctx of
              (None, _) \<Rightarrow> Inl ReservationRefused
            | (Some rsv, ctx') \<Rightarrow> Inr (q\<lparr>ar_reservation := Some rsv\<rparr>, ctx')) = Inr (r, ctx')"
    using assms by (auto simp: issue_receipt_def rbind_Inr_iff)
  have "ar_status q = ISSUED" using q by (auto simp: post_init_def rbind_Inr_iff split: if_splits)
  with res show ?thesis
    by (auto simp: receipt_inv_def reserve_def outstanding_def split: if_splits)
qed

text \<open>
  Lifecycle accounting of an in-memory receipt: after any sequence of release, void,
  commit, verify and claim calls on an issued receipt, the budget context holds the receipt's
  reservation exactly while the receipt is ISSUED or VERIFIED (so it is given back or spent
  once, never twice), and no call changes what the binding hash covers.
\<close>

theorem receipt_reservation_accounting:
  assumes "issue_receipt issued expires i n rv args ctx = Inr (r0, ctx0)"
    and "fold (receipt_step E) ops (r0, ctx0) = (r, ctx')"
  shows "rc_reserved ctx' = rc_reserved ctx +
           (if ar_status r = ISSUED \<or> ar_status r = VERIFIED
            then ar_predicted_cost r + ar_uncertainty_margin r + ar_rollback_reserve r else 0) \<and>
         binding_hash E r = binding_hash E r0"
proof -
  have "receipt_inv (rc_reserved ctx) r0 (r, ctx')"
    using receipt_steps_inv [of _ _ "(r0, ctx0)"] issue_receipt_inv [OF assms(1)] assms(2) by metis
  then have b: "bound_part r = bound_part r0" and
    acc: "rc_reserved ctx' = rc_reserved ctx + (if ar_status r = ISSUED \<or> ar_status r = VERIFIED
            then ar_predicted_cost r0 + ar_uncertainty_margin r0 + ar_rollback_reserve r0 else 0)"
    by (auto simp: receipt_inv_def split: option.splits)
  have f: "ar_predicted_cost r = ar_predicted_cost r0" "ar_uncertainty_margin r = ar_uncertainty_margin r0"
    "ar_rollback_reserve r = ar_rollback_reserve r0"
    using b by (auto simp: bound_part_def dest: arg_cong [where f = ar_predicted_cost]
        arg_cong [where f = ar_uncertainty_margin] arg_cong [where f = ar_rollback_reserve])
  have h: "binding_hash E x = binding_hash E (bound_part x)" for x
    by (simp add: binding_hash_def receipt_hash_message_def receipt_bytes_def canonical_payload_def
        bound_part_def)
  show ?thesis using acc f h [of r] h [of r0] b by simp
qed

theorem receipt_reservation_accounting_witness:
  "\<exists>r0 ctx0 r ctx'. issue_receipt (AwareUTC 10) (AwareUTC 20) ''i'' ''n'' ''rv'' demo_receipt (new_context 9 300)
       = Inr (r0, ctx0) \<and>
     fold (receipt_step receipt_env) [RMarkVerified, RCommit \<lparr>meas_cost = 2, meas_count = 1, meas_wall = 1\<rparr>, RRelease]
       (r0, ctx0) = (r, ctx') \<and>
     rc_reserved ctx0 = 5 \<and> ar_status r = CONSUMED \<and> rc_reserved ctx' = 0 \<and> rc_spent ctx' = 2"
proof -
  let ?ops = "[RMarkVerified, RCommit \<lparr>meas_cost = 2, meas_count = 1, meas_wall = 1\<rparr>, RRelease]"
  obtain r0 ctx0 where i: "issue_receipt (AwareUTC 10) (AwareUTC 20) ''i'' ''n'' ''rv'' demo_receipt
      (new_context 9 300) = Inr (r0, ctx0)"
    by (auto simp: issue_receipt_def post_init_def require_aware_utc_def validate_numbers_def
        demo_receipt_def reserve_def new_context_def)
  obtain r ctx' where f: "fold (receipt_step receipt_env) ?ops (r0, ctx0) = (r, ctx')" by fastforce
  have "rc_reserved ctx0 = 5" "ar_status r = CONSUMED" "rc_spent ctx' = 2"
    using i f by (auto simp: issue_receipt_def post_init_def require_aware_utc_def validate_numbers_def
        demo_receipt_def reserve_def new_context_def receipt_op_defs)
  with receipt_reservation_accounting [OF i f] i f show ?thesis
    by (auto simp: new_context_def)
qed

end
