(* ===== verification/Receipt_Lifecycle.thy ===== *)
theory Receipt_Lifecycle
  imports Admission_Receipt
begin

section \<open>The contract of a receipt store\<close>

text \<open>
  Both admission stores promise the same lifecycle: a receipt is issued once, claimed by at
  most one worker, and never leaves a terminal status. The relation \<open>moves\<close> is the
  lifecycle; the locale states what a store's calls promise about it and proves what clients
  rely on, for any interleaving of calls.
\<close>

inductive moves :: "receipt_status option \<Rightarrow> receipt_status option \<Rightarrow> bool" where
  issue: "moves None (Some ISSUED)"
| claim: "moves (Some ISSUED) (Some VERIFIED)"
| expire: "moves (Some ISSUED) (Some EXPIRED)"
| consume: "moves (Some VERIFIED) (Some CONSUMED)"
| release: "s = ISSUED \<or> s = VERIFIED \<Longrightarrow> moves (Some s) (Some RELEASED)"
| void: "s = ISSUED \<or> s = VERIFIED \<Longrightarrow> moves (Some s) (Some VOIDED)"

code_pred moves .

inductive_cases moves_fromE: "moves (Some s) t"
inductive_cases moves_toE: "moves s (Some t)"
inductive_simps moves_simps [simp]: "moves s t"

definition terminal_status :: "receipt_status \<Rightarrow> bool" where
  "terminal_status s \<longleftrightarrow> s \<noteq> ISSUED \<and> s \<noteq> VERIFIED"

text \<open>How many calls of a sequence claim a receipt.\<close>

primrec claim_count ::
  "('op \<Rightarrow> 'db \<Rightarrow> 'db) \<Rightarrow> ('op \<Rightarrow> 'db \<Rightarrow> string \<Rightarrow> bool) \<Rightarrow> string \<Rightarrow> 'op list \<Rightarrow> 'db \<Rightarrow> nat" where
  "claim_count step claims rid [] db = 0"
| "claim_count step claims rid (x # xs) db =
     (if claims x db rid then 1 else 0) + claim_count step claims rid xs (step x db)"

lemma claim_count_append:
  "claim_count step claims rid (xs @ ys) db =
     claim_count step claims rid xs db + claim_count step claims rid ys (fold step xs db)"
  by (induction xs arbitrary: db) simp_all

text \<open>The number of claims that can lie behind a status.\<close>

definition claimed :: "receipt_status option \<Rightarrow> nat \<Rightarrow> bool" where
  "claimed st n \<longleftrightarrow> n \<le> 1 \<and>
     (st = None \<or> st = Some ISSUED \<or> st = Some EXPIRED \<longrightarrow> n = 0) \<and>
     (st = Some VERIFIED \<or> st = Some CONSUMED \<longrightarrow> n = 1)"

locale receipt_lifecycle =
  fixes step :: "'op \<Rightarrow> 'db \<Rightarrow> 'db"
    and status_of :: "string \<Rightarrow> 'db \<Rightarrow> receipt_status option"
    and claims :: "'op \<Rightarrow> 'db \<Rightarrow> string \<Rightarrow> bool"
  assumes status_moves: "status_of rid (step x db) = status_of rid db \<or>
      moves (status_of rid db) (status_of rid (step x db))"
    and claim_moves: "claims x db rid \<longleftrightarrow>
      status_of rid db = Some ISSUED \<and> status_of rid (step x db) = Some VERIFIED"
begin

lemma terminal_absorbing:
  assumes "status_of rid db = Some s" "terminal_status s"
  shows "status_of rid (fold step xs db) = Some s"
  using assms(1)
proof (induction xs arbitrary: db)
  case (Cons x xs)
  then have "status_of rid (step x db) = Some s"
    using status_moves [of rid x db] assms(2) by (auto simp: terminal_status_def)
  then show ?case using Cons.IH by simp
qed simp

lemma claimed_step:
  assumes "claimed (status_of rid db) n"
  shows "claimed (status_of rid (step x db)) (n + (if claims x db rid then 1 else 0))"
  using assms status_moves [of rid x db] claim_moves [of x db rid]
  by (auto simp: claimed_def)

lemma claimed_run:
  "claimed (status_of rid db) n \<Longrightarrow> claimed (status_of rid (fold step xs db)) (n + claim_count step claims rid xs db)"
proof (induction xs arbitrary: db n)
  case (Cons x xs)
  from Cons.IH [OF claimed_step [OF Cons.prems]] show ?case by (simp add: add.assoc)
qed simp

lemma single_claim:
  assumes "status_of rid db = None"
  shows "claim_count step claims rid xs db \<le> 1 \<and>
    (status_of rid (fold step xs db) = Some VERIFIED \<or> status_of rid (fold step xs db) = Some CONSUMED \<longrightarrow>
       claim_count step claims rid xs db = 1)"
  using claimed_run [of rid db 0 xs] assms by (auto simp: claimed_def)

end

end
