(* ===== verification/Admission_Store.thy ===== *)
theory Admission_Store
  imports Receipt_Lifecycle
begin

section \<open>The durable receipt store\<close>

text \<open>
  \<open>packages/replay/src/admission_store.py\<close>: the SQLite store of admission receipts, its
  verification decision and its audit events, chained by hash per receipt.

  The tables are lists of rows in insertion order. \<open>BEGIN IMMEDIATE\<close> and the lock make every
  call one transaction: a raised error leaves the tables as they were. The clock is read
  several times in a call; the \<open>n\<close>-th reading is \<open>clock n\<close>. A payload column is kept as the
  receipt it decodes to, with the lifecycle fields at their defaults; a details column is kept
  as the JSON document its text decodes to.
\<close>

subsection \<open>Tables\<close>

record receipt_row =
  rr_receipt_id :: string
  rr_tenant_id :: string
  rr_binding_hash :: string
  rr_status :: receipt_status
  rr_payload :: receipt
  rr_reserved_cost :: rat
  rr_resource_pool_id :: string \<comment> \<open>a column of the PostgreSQL table only\<close>
  rr_created_at :: string
  rr_terminal_at :: "string option"

record audit_event =
  ev_receipt_id :: string
  ev_sequence :: int
  ev_event_type :: string
  ev_event_hash :: string
  ev_previous_event_hash :: "string option"
  ev_reason :: string
  ev_details :: json
  ev_created_at :: string

record attestation_row =
  tr_receipt_id :: string
  tr_attestation_hash :: string
  tr_payload :: attestation
  tr_created_at :: string

record store_db =
  db_receipts :: "receipt_row list"
  db_events :: "audit_event list"
  db_attestations :: "attestation_row list"

definition empty_store :: store_db where
  "empty_store = \<lparr>db_receipts = [], db_events = [], db_attestations = []\<rparr>"

datatype store_error =
    ReceiptIdBoundToDifferentState
  | ReceiptNotFound
  | IntegrityError
  | TrustConfigError trust_error
  | PayloadInvalid receipt_error
  | WorkerKeyNotTrusted
  | AttestationRefused string
  | AttestationRequiresVerified
  | AttestationBindingMismatch
  | PoolBudgetExceeded

subsection \<open>The verification decision\<close>

definition required_binding_fields :: "string list" where
  "required_binding_fields =
     [''tenant_id'', ''workload_id'', ''run_id'', ''manifest_hash'', ''trace_root_hash'',
      ''intervention_hash'', ''current_version'', ''candidate_version'', ''policy_hash'',
      ''capsule_hash'', ''resource_pool_id'']"

record decision =
  vd_reason :: string
  vd_expired :: bool
  vd_signature_refusal :: bool

text \<open>The loop over the given required fields, in sorted order: the first mismatch.\<close>

fun first_mismatch :: "(string \<times> json) list \<Rightarrow> (string \<times> json) list \<Rightarrow> string list \<Rightarrow> string option" where
  "first_mismatch payload actual [] = None"
| "first_mismatch payload actual (k # ks) =
     (case (map_of actual k, map_of payload k) of
        (Some a, Some p) \<Rightarrow> if \<not> py_eq a p then Some k else first_mismatch payload actual ks
      | _ \<Rightarrow> first_mismatch payload actual ks)"

definition evaluate_bindings ::
  "env \<Rightarrow> (string \<times> json) list \<Rightarrow> evidence option \<Rightarrow> int \<Rightarrow> receipt \<Rightarrow> decision" where
  "evaluate_bindings E actual evidence_class now r =
     (if ar_status r \<noteq> ISSUED then
        \<lparr>vd_reason = ''Receipt is '' @ status_lower (ar_status r) @ ''.'', vd_expired = False,
         vd_signature_refusal = False\<rparr>
      else if ar_expires_at r \<le> now then
        \<lparr>vd_reason = ''Receipt has expired.'', vd_expired = True, vd_signature_refusal = False\<rparr>
      else (let given = sort (filter (\<lambda>k. k \<in> fst ` set actual) required_binding_fields);
                missing = sort (filter (\<lambda>k. k \<notin> fst ` set actual) required_binding_fields)
            in case first_mismatch (canonical_payload E r) actual given of
                 Some key \<Rightarrow>
                   \<lparr>vd_reason = ''Receipt binding mismatch: '' @ key @ ''.'', vd_expired = False,
                    vd_signature_refusal = False\<rparr>
               | None \<Rightarrow>
                   if missing \<noteq> [] then
                     \<lparr>vd_reason = ''Receipt binding incomplete: '' @ py_join '', '' missing @ ''.'',
                      vd_expired = False, vd_signature_refusal = False\<rparr>
                   else if evidence_class \<noteq> None \<and> \<not> fst (verify_evidence (the evidence_class) r) then
                     \<lparr>vd_reason = ''Evidence classification exceeds the receipt ceiling.'',
                      vd_expired = False, vd_signature_refusal = False\<rparr>
                   else \<lparr>vd_reason = [], vd_expired = False, vd_signature_refusal = False\<rparr>))"

text \<open>The keyword arguments of \<open>verify\<close> that select trust, with the process configuration.\<close>

record trust_args =
  ta_config :: admission_config
  ta_trusted_public_keys :: "(string \<times> string) list option"
  ta_require_signature :: "bool option"

definition signature_required :: "trust_args \<Rightarrow> bool" where
  "signature_required ta =
     (case ta_require_signature ta of None \<Rightarrow> receipt_signature_required (ta_config ta) | Some b \<Rightarrow> b)"

definition evaluate_verification ::
  "env \<Rightarrow> trust_args \<Rightarrow> (string \<times> json) list \<Rightarrow> evidence option \<Rightarrow> int \<Rightarrow> receipt \<Rightarrow>
     (trust_error, decision) result" where
  "evaluate_verification E ta actual evidence_class now r =
     (if ar_payload_signature r \<noteq> [] \<or> signature_required ta then
        rbind (case ta_trusted_public_keys ta of
                 Some keys \<Rightarrow> Inr keys
               | None \<Rightarrow> trust_from_environment (cfg_trusted_keys (ta_config ta)))
          (\<lambda>keys. case trust_verify E keys r of
             (signature_valid, signature_reason) \<Rightarrow>
               if \<not> signature_valid then
                 Inr \<lparr>vd_reason = signature_reason, vd_expired = False, vd_signature_refusal = True\<rparr>
               else Inr (evaluate_bindings E actual evidence_class now r))
      else Inr (evaluate_bindings E actual evidence_class now r))"

text \<open>The constructor runs again when a payload is read back, with the row's status.\<close>

definition persisted_payload :: "receipt \<Rightarrow> receipt" where
  "persisted_payload r =
     r\<lparr>ar_status := ISSUED, ar_terminal_reason := None, ar_consumed_by := [],
       ar_consumed_at := None, ar_reservation := None\<rparr>"

definition receipt_from_row :: "receipt_row \<Rightarrow> (receipt_error, receipt) result" where
  "receipt_from_row row =
     (let p = rr_payload row in
      post_init (AwareUTC (ar_issued_at p)) (AwareUTC (ar_expires_at p)) None
        (p\<lparr>ar_status := rr_status row\<rparr>))"

subsection \<open>Audit events\<close>

definition event_document ::
  "string \<Rightarrow> int \<Rightarrow> string \<Rightarrow> string option \<Rightarrow> string \<Rightarrow> json \<Rightarrow> string \<Rightarrow> (string \<times> json) list" where
  "event_document receipt_id sequence event_type previous_event_hash reason details created_at =
     [(''receipt_id'', JStr receipt_id),
      (''sequence'', JInt sequence),
      (''event_type'', JStr event_type),
      (''previous_event_hash'', case previous_event_hash of None \<Rightarrow> JNull | Some h \<Rightarrow> JStr h),
      (''reason'', JStr reason),
      (''details'', details),
      (''created_at'', JStr created_at)]"

definition event_message ::
  "env \<Rightarrow> string \<Rightarrow> int \<Rightarrow> string \<Rightarrow> string option \<Rightarrow> string \<Rightarrow> json \<Rightarrow> string \<Rightarrow> string" where
  "event_message E receipt_id sequence event_type previous_event_hash reason details created_at =
     ''DGX-ADMISSION-AUDIT-V1'' @ [CHR 0x00] @
     canonical_bytes E (JObj (event_document receipt_id sequence event_type previous_event_hash
       reason details created_at))"

definition event_hash ::
  "env \<Rightarrow> string \<Rightarrow> int \<Rightarrow> string \<Rightarrow> string option \<Rightarrow> string \<Rightarrow> json \<Rightarrow> string \<Rightarrow> string" where
  "event_hash E receipt_id sequence event_type previous_event_hash reason details created_at =
     sha256 E (event_message E receipt_id sequence event_type previous_event_hash reason details
       created_at)"

text \<open>\<open>SELECT * ... WHERE receipt_id = ? ORDER BY sequence\<close>.\<close>

definition events :: "string \<Rightarrow> 'a store_db_scheme \<Rightarrow> audit_event list" where
  "events receipt_id db =
     sort_key ev_sequence (filter (\<lambda>e. ev_receipt_id e = receipt_id) (db_events db))"

text \<open>An insertion checks the two uniqueness constraints of the table.\<close>

definition insert_event ::
  "audit_event \<Rightarrow> 'a store_db_scheme \<Rightarrow> (store_error, 'a store_db_scheme) result" where
  "insert_event e db =
     (if \<exists>x\<in>set (db_events db). ev_event_hash x = ev_event_hash e \<or>
           ev_receipt_id x = ev_receipt_id e \<and> ev_sequence x = ev_sequence e
      then Inl IntegrityError
      else Inr (db\<lparr>db_events := db_events db @ [e]\<rparr>))"

definition append_event ::
  "env \<Rightarrow> string \<Rightarrow> string \<Rightarrow> string \<Rightarrow> string \<Rightarrow> (string \<times> json) list \<Rightarrow> 'a store_db_scheme \<Rightarrow>
     (store_error, 'a store_db_scheme) result" where
  "append_event E created_at receipt_id event_type reason details db =
     (let previous = events receipt_id db;
          sequence = (if previous = [] then 1 else ev_sequence (last previous) + 1);
          previous_hash = (if previous = [] then None else Some (ev_event_hash (last previous)))
      in insert_event
           \<lparr>ev_receipt_id = receipt_id, ev_sequence = sequence, ev_event_type = event_type,
            ev_event_hash = event_hash E receipt_id sequence event_type previous_hash reason
              (JObj details) created_at,
            ev_previous_event_hash = previous_hash, ev_reason = reason,
            ev_details = loads_dumps (JObj details), ev_created_at = created_at\<rparr> db)"

fun verify_events :: "env \<Rightarrow> int \<Rightarrow> string option \<Rightarrow> audit_event list \<Rightarrow> bool \<times> string" where
  "verify_events E n previous_hash [] = (True, ''ok'')"
| "verify_events E n previous_hash (e # es) =
     (if ev_sequence e \<noteq> n then (False, ''Audit sequence gap at event '' @ int_str n @ ''.'')
      else if ev_previous_event_hash e \<noteq> previous_hash
      then (False, ''Audit predecessor mismatch at event '' @ int_str n @ ''.'')
      else if ev_event_hash e \<noteq> event_hash E (ev_receipt_id e) (ev_sequence e) (ev_event_type e)
                (ev_previous_event_hash e) (ev_reason e) (ev_details e) (ev_created_at e)
      then (False, ''Audit hash mismatch at event '' @ int_str n @ ''.'')
      else verify_events E (n + 1) (Some (ev_event_hash e)) es)"

definition verify_event_chain :: "env \<Rightarrow> string \<Rightarrow> 'a store_db_scheme \<Rightarrow> bool \<times> string" where
  "verify_event_chain E receipt_id db =
     (if events receipt_id db = [] then (False, ''Admission receipt has no audit events.'')
      else verify_events E 1 None (events receipt_id db))"

subsection \<open>Receipts\<close>

definition load_row :: "string \<Rightarrow> 'a store_db_scheme \<Rightarrow> receipt_row option" where
  "load_row receipt_id db = List.find (\<lambda>row. rr_receipt_id row = receipt_id) (db_receipts db)"

definition status :: "string \<Rightarrow> 'a store_db_scheme \<Rightarrow> receipt_status option" where
  "status receipt_id db = map_option rr_status (load_row receipt_id db)"

definition store_binding_hash :: "string \<Rightarrow> 'a store_db_scheme \<Rightarrow> (store_error, string) result" where
  "store_binding_hash receipt_id db =
     (case load_row receipt_id db of None \<Rightarrow> Inl ReceiptNotFound | Some row \<Rightarrow> Inr (rr_binding_hash row))"

text \<open>\<open>UPDATE admission_receipts SET ... WHERE receipt_id = ?\<close>.\<close>

definition update_rows ::
  "string \<Rightarrow> (receipt_row \<Rightarrow> receipt_row) \<Rightarrow> 'a store_db_scheme \<Rightarrow> 'a store_db_scheme" where
  "update_rows receipt_id f db =
     db\<lparr>db_receipts := map (\<lambda>row. if rr_receipt_id row = receipt_id then f row else row) (db_receipts db)\<rparr>"

text \<open>The receipt table has a primary key and unique binding hashes.\<close>

definition insert_receipt ::
  "receipt_row \<Rightarrow> 'a store_db_scheme \<Rightarrow> (store_error, 'a store_db_scheme) result" where
  "insert_receipt row db =
     (if \<exists>x\<in>set (db_receipts db). rr_receipt_id x = rr_receipt_id row \<or>
           rr_binding_hash x = rr_binding_hash row
      then Inl IntegrityError
      else Inr (db\<lparr>db_receipts := db_receipts db @ [row]\<rparr>))"

definition issue ::
  "env \<Rightarrow> (nat \<Rightarrow> string) \<Rightarrow> receipt \<Rightarrow> store_db \<Rightarrow> (store_error, string \<times> store_db) result" where
  "issue E clock r db =
     (case load_row (ar_receipt_id r) db of
        Some existing \<Rightarrow>
          if rr_binding_hash existing \<noteq> binding_hash E r then Inl ReceiptIdBoundToDifferentState
          else Inr (ar_receipt_id r, db)
      | None \<Rightarrow>
          rbind (insert_receipt
              \<lparr>rr_receipt_id = ar_receipt_id r, rr_tenant_id = ar_tenant_id r,
               rr_binding_hash = binding_hash E r, rr_status = ISSUED,
               rr_payload = persisted_payload r,
               rr_reserved_cost = ar_predicted_cost r + ar_uncertainty_margin r + ar_rollback_reserve r,
               rr_resource_pool_id = [], rr_created_at = clock 0, rr_terminal_at = None\<rparr> db) (\<lambda>db1.
          rbind (append_event E (clock 1) (ar_receipt_id r) ''ISSUE'' [] (stored_payload E r) db1) (\<lambda>db2.
          Inr (ar_receipt_id r, db2))))"

definition terminal_reason_of :: "decision \<Rightarrow> terminal_reason" where
  "terminal_reason_of d =
     (if vd_expired d then TR_EXPIRED
      else if vd_signature_refusal d then TR_SIGNATURE_INVALID else TR_BINDING_MISMATCH)"

definition verify ::
  "env \<Rightarrow> (nat \<Rightarrow> string) \<Rightarrow> trust_args \<Rightarrow> string \<Rightarrow> (string \<times> json) list \<Rightarrow> evidence option \<Rightarrow> int \<Rightarrow>
     store_db \<Rightarrow> (store_error, (bool \<times> string) \<times> store_db) result" where
  "verify E clock ta receipt_id actual evidence_class now db =
     (case load_row receipt_id db of
        None \<Rightarrow> Inr ((False, ''Admission receipt not found.''), db)
      | Some row \<Rightarrow>
          (case receipt_from_row row of
             Inl e \<Rightarrow> Inl (PayloadInvalid e)
           | Inr r \<Rightarrow>
               (case evaluate_verification E ta actual evidence_class now r of
                  Inl e \<Rightarrow> Inl (TrustConfigError e)
                | Inr d \<Rightarrow>
                    if vd_reason d \<noteq> [] then
                      rbind (append_event E (clock 0) receipt_id
                          (if vd_signature_refusal d then ''SIGNATURE_REFUSAL'' else ''MISMATCH_REFUSAL'')
                          (vd_reason d) [(''actual'', JObj actual)] db) (\<lambda>db1.
                      if rr_status row = ISSUED then
                        (let db2 = update_rows receipt_id
                               (\<lambda>x. x\<lparr>rr_status := (if vd_expired d then EXPIRED else VOIDED),
                                      rr_terminal_at := Some (clock 1)\<rparr>) db1
                         in rbind (append_event E (clock 2) receipt_id
                                (if vd_expired d then ''EXPIRE'' else ''VOID'') (vd_reason d)
                                [(''terminal_reason'', JStr (terminal_reason_value (terminal_reason_of d)))]
                                db2) (\<lambda>db3.
                            Inr ((False, vd_reason d), db3)))
                      else Inr ((False, vd_reason d), db1))
                    else
                      rbind (append_event E (clock 0) receipt_id ''VERIFY'' [] actual
                          (update_rows receipt_id (\<lambda>x. x\<lparr>rr_status := VERIFIED\<rparr>) db)) (\<lambda>db1.
                      Inr ((True, ''ok''), db1)))))"

text \<open>The table of allowed sources; no other status is ever given as a target.\<close>

definition allowed_sources :: "receipt_status \<Rightarrow> receipt_status set" where
  "allowed_sources target =
     (case target of
        CONSUMED \<Rightarrow> {VERIFIED}
      | RELEASED \<Rightarrow> {ISSUED, VERIFIED}
      | VOIDED \<Rightarrow> {ISSUED, VERIFIED}
      | EXPIRED \<Rightarrow> {ISSUED}
      | _ \<Rightarrow> {})"

definition terminal_transition ::
  "env \<Rightarrow> (nat \<Rightarrow> string) \<Rightarrow> string \<Rightarrow> receipt_status \<Rightarrow> string \<Rightarrow> string \<Rightarrow> store_db \<Rightarrow>
     (store_error, store_db) result" where
  "terminal_transition E clock receipt_id target event_type reason db =
     (case load_row receipt_id db of
        None \<Rightarrow> Inl ReceiptNotFound
      | Some row \<Rightarrow>
          if rr_status row \<notin> allowed_sources target then Inr db
          else append_event E (clock 1) receipt_id event_type reason []
                 (update_rows receipt_id
                    (\<lambda>x. x\<lparr>rr_status := target, rr_terminal_at := Some (clock 0)\<rparr>) db))"

definition consume :: "env \<Rightarrow> (nat \<Rightarrow> string) \<Rightarrow> string \<Rightarrow> store_db \<Rightarrow> (store_error, store_db) result" where
  "consume E clock receipt_id db = terminal_transition E clock receipt_id CONSUMED ''CONSUME'' [] db"

definition release :: "env \<Rightarrow> (nat \<Rightarrow> string) \<Rightarrow> string \<Rightarrow> store_db \<Rightarrow> (store_error, store_db) result" where
  "release E clock receipt_id db = terminal_transition E clock receipt_id RELEASED ''RELEASE'' [] db"

definition void ::
  "env \<Rightarrow> (nat \<Rightarrow> string) \<Rightarrow> string \<Rightarrow> string \<Rightarrow> store_db \<Rightarrow> (store_error, store_db) result" where
  "void E clock receipt_id reason db = terminal_transition E clock receipt_id VOIDED ''VOID'' reason db"

definition check_attestation ::
  "env \<Rightarrow> trust_args \<Rightarrow> attestation \<Rightarrow> (store_error, unit) result" where
  "check_attestation E ta a =
     (if at_payload_signature a \<noteq> [] \<or> signature_required ta then
        (case (case ta_trusted_public_keys ta of
                 Some keys \<Rightarrow> Inr keys
               | None \<Rightarrow> trust_from_environment (cfg_worker_trusted_keys (ta_config ta))) of
           Inl e \<Rightarrow> Inl (TrustConfigError e)
         | Inr trust \<Rightarrow>
             (case map_of trust (at_key_id a) of
                None \<Rightarrow> Inl WorkerKeyNotTrusted
              | Some public_key \<Rightarrow>
                  (case verify_attestation_signature E public_key a of
                     (valid, reason) \<Rightarrow> if \<not> valid then Inl (AttestationRefused reason) else Inr ())))
      else Inr ())"

definition insert_attestation ::
  "attestation_row \<Rightarrow> 'a store_db_scheme \<Rightarrow> (store_error, 'a store_db_scheme) result" where
  "insert_attestation row db =
     (if \<exists>x\<in>set (db_attestations db). tr_receipt_id x = tr_receipt_id row \<or>
           tr_attestation_hash x = tr_attestation_hash row
      then Inl IntegrityError
      else Inr (db\<lparr>db_attestations := db_attestations db @ [row]\<rparr>))"

definition record_attestation ::
  "env \<Rightarrow> (nat \<Rightarrow> string) \<Rightarrow> trust_args \<Rightarrow> attestation \<Rightarrow> store_db \<Rightarrow>
     (store_error, string \<times> store_db) result" where
  "record_attestation E clock ta a db =
     rbind (check_attestation E ta a) (\<lambda>_.
     case load_row (at_receipt_id a) db of
       None \<Rightarrow> Inl ReceiptNotFound
     | Some row \<Rightarrow>
         if rr_status row \<noteq> VERIFIED then Inl AttestationRequiresVerified
         else if rr_binding_hash row \<noteq> at_receipt_binding_hash a then Inl AttestationBindingMismatch
         else
           rbind (insert_attestation
               \<lparr>tr_receipt_id = at_receipt_id a, tr_attestation_hash = attestation_hash E a,
                tr_payload = a, tr_created_at = clock 0\<rparr> db) (\<lambda>db1.
           rbind (append_event E (clock 1) (at_receipt_id a) ''ATTEST'' []
               [(''attestation_hash'', JStr (attestation_hash E a))] db1) (\<lambda>db2.
           Inr (attestation_hash E a, db2))))"

text \<open>The choice of the backend: the stores themselves are built elsewhere.\<close>

datatype backend = SqliteBackend | PostgresBackend

definition get_admission_receipt_store :: "admission_config \<Rightarrow> (string, backend) result" where
  "get_admission_receipt_store cfg =
     (let configured = py_lower (py_strip (cfg_store_backend cfg));
          production_mode = (py_lower (cfg_dgx_mode cfg) = ''production''
            \<or> py_lower (cfg_app_env cfg) \<in> {''staging'', ''production'', ''prod''}
            \<or> py_lower (cfg_environment cfg) \<in> {''staging'', ''prod''});
          backend = (if configured = [] then (if production_mode then ''postgres'' else ''sqlite'')
                     else configured)
      in if backend = ''sqlite'' then Inr SqliteBackend
         else if backend = ''postgres'' then Inr PostgresBackend
         else Inl (''Unsupported admission store backend: '' @ backend @ ''.''))"

subsection \<open>Calls on the store\<close>

datatype store_call =
    CIssue receipt
  | CVerify trust_args string "(string \<times> json) list" "evidence option" int
  | CConsume string
  | CRelease string
  | CVoid string string
  | CAttest trust_args attestation

text \<open>
  A call with the readings of the clock during it. Calls of several workers interleave in any
  order; each is one transaction.
\<close>

type_synonym timed_call = "(nat \<Rightarrow> string) \<times> store_call"

fun run_call :: "env \<Rightarrow> timed_call \<Rightarrow> store_db \<Rightarrow> (store_error, (bool \<times> string) \<times> store_db) result" where
  "run_call E (clock, CIssue r) db = rbind (issue E clock r db) (\<lambda>(i, db'). Inr ((True, i), db'))"
| "run_call E (clock, CVerify ta rid actual ev now) db = verify E clock ta rid actual ev now db"
| "run_call E (clock, CConsume rid) db = rbind (consume E clock rid db) (\<lambda>db'. Inr ((True, []), db'))"
| "run_call E (clock, CRelease rid) db = rbind (release E clock rid db) (\<lambda>db'. Inr ((True, []), db'))"
| "run_call E (clock, CVoid rid reason) db = rbind (void E clock rid reason db) (\<lambda>db'. Inr ((True, []), db'))"
| "run_call E (clock, CAttest ta a) db =
     rbind (record_attestation E clock ta a db) (\<lambda>(h, db'). Inr ((True, h), db'))"

definition store_step :: "env \<Rightarrow> timed_call \<Rightarrow> store_db \<Rightarrow> store_db" where
  "store_step E c db = (case run_call E c db of Inl _ \<Rightarrow> db | Inr (_, db') \<Rightarrow> db')"

text \<open>The call that claims a receipt: a \<open>verify\<close> that answers \<open>True\<close>.\<close>

definition store_claims :: "env \<Rightarrow> timed_call \<Rightarrow> store_db \<Rightarrow> string \<Rightarrow> bool" where
  "store_claims E c db receipt_id =
     (case snd c of
        CVerify ta rid actual ev now \<Rightarrow>
          rid = receipt_id \<and> (case run_call E c db of Inr ((True, _), _) \<Rightarrow> True | _ \<Rightarrow> False)
      | _ \<Rightarrow> False)"

subsection \<open>Facts on the tables\<close>

lemma append_event_receipts:
  "append_event E t rid ty rs d db = Inr db' \<Longrightarrow>
     db_receipts db' = db_receipts db \<and> db_attestations db' = db_attestations db"
  by (auto simp: append_event_def insert_event_def Let_def split: if_splits)

lemma append_event_load_row:
  "append_event E t rid ty rs d db = Inr db' \<Longrightarrow> load_row x db' = load_row x db"
  by (drule append_event_receipts) (simp add: load_row_def)

lemma append_event_status:
  "append_event E t rid ty rs d db = Inr db' \<Longrightarrow> status x db' = status x db"
  by (simp add: status_def append_event_load_row)

lemma load_row_update:
  assumes "\<And>r. rr_receipt_id (f r) = rr_receipt_id r"
  shows "load_row x (update_rows rid f db) = map_option (\<lambda>r. if x = rid then f r else r) (load_row x db)"
proof -
  have "List.find (\<lambda>row. rr_receipt_id row = x) (map (\<lambda>row. if rr_receipt_id row = rid then f row else row) rs) =
      map_option (\<lambda>r. if x = rid then f r else r) (List.find (\<lambda>row. rr_receipt_id row = x) rs)" for rs
    by (induction rs) (auto simp: assms)
  then show ?thesis by (simp add: load_row_def update_rows_def)
qed

lemma status_update:
  assumes "\<And>r. rr_receipt_id (f r) = rr_receipt_id r" "\<And>r. rr_status (f r) = s"
  shows "status x (update_rows rid f db) =
    (if x = rid \<and> load_row rid db \<noteq> None then Some s else status x db)"
  using assms by (cases "load_row x db"; cases "load_row rid db") (auto simp: status_def load_row_update)

lemma load_row_insert_receipt:
  assumes "insert_receipt row db = Inr db'"
  shows "load_row x db' = (if x = rr_receipt_id row then Some row else load_row x db)"
proof -
  have "db' = db\<lparr>db_receipts := db_receipts db @ [row]\<rparr>" and
    new: "\<forall>y\<in>set (db_receipts db). rr_receipt_id y \<noteq> rr_receipt_id row"
    using assms by (auto simp: insert_receipt_def split: if_splits)
  moreover have "List.find (\<lambda>r. rr_receipt_id r = rr_receipt_id row) (db_receipts db) = None"
    using new by (auto simp: find_None_iff)
  ultimately show ?thesis by (auto simp: load_row_def split: option.splits)
qed

lemma load_row_insert_attestation:
  "insert_attestation row db = Inr db' \<Longrightarrow> load_row x db' = load_row x db"
  by (auto simp: insert_attestation_def load_row_def split: if_splits)

lemma load_row_id: "load_row rid db = Some row \<Longrightarrow> rr_receipt_id row = rid"
  by (auto simp: load_row_def dest: find_Some_mem)

lemma evaluate_bindings_issued:
  "vd_reason (evaluate_bindings E actual ev now r) = [] \<Longrightarrow> ar_status r = ISSUED"
  by (auto simp: evaluate_bindings_def split: if_splits)

lemma trust_verify_reason: "trust_verify E keys r = (False, reason) \<Longrightarrow> reason \<noteq> []"
  by (auto simp: trust_verify_def verify_receipt_signature_def split: option.splits if_splits)

text \<open>The keys a verification uses, and whether the signature part lets a receipt through.\<close>

definition trusted_keys :: "trust_args \<Rightarrow> (trust_error, (string \<times> string) list) result" where
  "trusted_keys ta =
     (case ta_trusted_public_keys ta of
        Some keys \<Rightarrow> Inr keys
      | None \<Rightarrow> trust_from_environment (cfg_trusted_keys (ta_config ta)))"

definition signature_ok :: "env \<Rightarrow> trust_args \<Rightarrow> receipt \<Rightarrow> bool" where
  "signature_ok E ta r \<longleftrightarrow>
     (ar_payload_signature r = [] \<and> \<not> signature_required ta) \<or>
     (\<exists>keys. trusted_keys ta = Inr keys \<and> fst (trust_verify E keys r))"

lemma evaluate_cases:
  assumes "evaluate_verification E ta actual ev now r = Inr d"
  shows "d = evaluate_bindings E actual ev now r \<and> signature_ok E ta r \<or>
         vd_reason d \<noteq> [] \<and> vd_signature_refusal d \<and> \<not> vd_expired d \<and> \<not> signature_ok E ta r"
proof (cases "ar_payload_signature r \<noteq> [] \<or> signature_required ta")
  case False
  then show ?thesis using assms by (auto simp: evaluate_verification_def signature_ok_def)
next
  case True
  then obtain keys where k: "trusted_keys ta = Inr keys"
    and d: "(case trust_verify E keys r of
             (signature_valid, signature_reason) \<Rightarrow>
               if \<not> signature_valid then
                 Inr \<lparr>vd_reason = signature_reason, vd_expired = False, vd_signature_refusal = True\<rparr>
               else Inr (evaluate_bindings E actual ev now r)) = (Inr d :: (trust_error, decision) result)"
    using assms by (auto simp: evaluate_verification_def rbind_Inr_iff trusted_keys_def)
  obtain v reason where t: "trust_verify E keys r = (v, reason)" by fastforce
  show ?thesis
  proof (cases v)
    case True
    with d t k show ?thesis by (simp add: signature_ok_def)
  next
    case False
    with t have "reason \<noteq> []" using trust_verify_reason by simp
    with False d t k True show ?thesis by (auto simp: signature_ok_def)
  qed
qed

lemma evaluate_issued:
  "evaluate_verification E ta actual ev now r = Inr d \<Longrightarrow> vd_reason d = [] \<Longrightarrow> ar_status r = ISSUED"
  by (drule evaluate_cases) (auto simp: evaluate_bindings_issued)

lemma receipt_from_row_status: "receipt_from_row row = Inr r \<Longrightarrow> ar_status r = rr_status row"
  by (auto simp: receipt_from_row_def post_init_def rbind_Inr_iff Let_def split: if_splits)

subsection \<open>How each call moves a status\<close>

lemma issue_status:
  assumes "issue E clock r db = Inr (i, db')"
  shows "status x db' = status x db \<or>
    x = ar_receipt_id r \<and> status x db = None \<and> status x db' = Some ISSUED"
proof (cases "load_row (ar_receipt_id r) db")
  case None
  then obtain row db1 where "insert_receipt row db = Inr db1" "rr_receipt_id row = ar_receipt_id r"
    "rr_status row = ISSUED" "\<exists>t d. append_event E t (ar_receipt_id r) ''ISSUE'' [] d db1 = Inr db'"
    using assms by (fastforce simp: issue_def rbind_Inr_iff)
  then have "status x db' = status x db1"
    and "load_row x db1 = (if x = ar_receipt_id r then Some row else load_row x db)" "rr_status row = ISSUED"
    by (auto simp: load_row_insert_receipt dest: append_event_status)
  then show ?thesis using None by (auto simp: status_def)
next
  case (Some row)
  then show ?thesis using assms by (auto simp: issue_def split: if_splits)
qed

lemma terminal_transition_status:
  assumes "terminal_transition E clock rid target ty reason db = Inr db'"
  shows "status x db' = status x db \<or>
    x = rid \<and> (\<exists>s\<in>allowed_sources target. status x db = Some s) \<and> status x db' = Some target"
proof (cases "load_row rid db")
  case None
  then show ?thesis using assms by (simp add: terminal_transition_def)
next
  case (Some row)
  then have "status rid db = Some (rr_status row)" by (simp add: status_def)
  then show ?thesis using assms Some
    by (auto simp: terminal_transition_def status_update split: if_splits
        dest!: append_event_status [where x = x])
qed

lemma verify_found:
  assumes "verify E clock ta rid actual ev now db = Inr ((b, m), db')" "load_row rid db = Some row"
  obtains r d where "receipt_from_row row = Inr r" "ar_status r = rr_status row"
    "evaluate_verification E ta actual ev now r = Inr d" "b \<longleftrightarrow> vd_reason d = []"
  using assms by (auto simp: verify_def rbind_Inr_iff Let_def receipt_from_row_status
      split: sum.splits if_splits)

lemma verify_status:
  assumes "verify E clock ta rid actual ev now db = Inr ((b, m), db')"
  shows "(if b then status rid db = Some ISSUED \<and> status x db' = (if x = rid then Some VERIFIED else status x db)
          else status x db' = status x db \<or>
               x = rid \<and> status x db = Some ISSUED \<and> (status x db' = Some EXPIRED \<or> status x db' = Some VOIDED))"
proof (cases "load_row rid db")
  case None
  then show ?thesis using assms by (auto simp: verify_def)
next
  case (Some row)
  then obtain r d where rd: "receipt_from_row row = Inr r" "ar_status r = rr_status row"
    "evaluate_verification E ta actual ev now r = Inr d" "b \<longleftrightarrow> vd_reason d = []"
    using assms verify_found by blast
  have st: "status rid db = Some (rr_status row)" using Some by (simp add: status_def)
  show ?thesis
  proof (cases b)
    case True
    then have "rr_status row = ISSUED" using rd evaluate_issued by metis
    then show ?thesis using assms rd Some True st
      by (auto simp: verify_def rbind_Inr_iff status_update dest!: append_event_status [where x = x])
  next
    case False
    then show ?thesis using assms rd Some st
      by (auto simp: verify_def rbind_Inr_iff status_update Let_def
          dest!: append_event_status [where x = x] split: if_splits)
  qed
qed

lemma record_attestation_status:
  "record_attestation E clock ta a db = Inr (h, db') \<Longrightarrow> status x db' = status x db"
  by (auto simp: record_attestation_def rbind_Inr_iff status_def
      dest!: append_event_load_row [where x = x] load_row_insert_attestation [where x = x]
      split: option.splits if_splits)

lemmas terminal_call_defs = consume_def release_def void_def

lemma store_step_moves:
  "status x (store_step E c db) = status x db \<or> moves (status x db) (status x (store_step E c db))"
proof (cases "run_call E c db")
  case (Inl e)
  then show ?thesis by (simp add: store_step_def)
next
  case (Inr p)
  obtain b m db' where p: "p = ((b, m), db')" by (metis surj_pair)
  have s: "store_step E c db = db'" using Inr p by (simp add: store_step_def)
  show ?thesis using Inr unfolding s p
    by (cases "(E, c, db)" rule: run_call.cases)
       (auto simp: rbind_Inr_iff terminal_call_defs allowed_sources_def
         dest!: issue_status [where x = x] terminal_transition_status [where x = x]
           verify_status [where x = x] record_attestation_status [where x = x] split: if_splits)
qed

lemma store_claims_iff:
  "store_claims E c db x \<longleftrightarrow> status x db = Some ISSUED \<and> status x (store_step E c db) = Some VERIFIED"
proof (cases "run_call E c db")
  case (Inl e)
  then show ?thesis by (auto simp: store_step_def store_claims_def split: store_call.splits)
next
  case (Inr p)
  obtain b m db' where p: "p = ((b, m), db')" by (metis surj_pair)
  have s: "store_step E c db = db'" using Inr p by (simp add: store_step_def)
  show ?thesis using Inr unfolding s p
    by (cases "(E, c, db)" rule: run_call.cases)
       (auto simp: rbind_Inr_iff terminal_call_defs allowed_sources_def store_claims_def
         dest!: issue_status [where x = x] terminal_transition_status [where x = x]
           verify_status [where x = x] record_attestation_status [where x = x]
         split: if_splits bool.splits)
qed

interpretation sqlite: receipt_lifecycle "store_step E" status "store_claims E" for E
  by unfold_locales (auto simp: store_step_moves store_claims_iff simp del: moves_simps)

subsection \<open>The audit chain\<close>

definition event_ok :: "env \<Rightarrow> audit_event \<Rightarrow> bool" where
  "event_ok E e \<longleftrightarrow>
     ev_event_hash e = event_hash E (ev_receipt_id e) (ev_sequence e) (ev_event_type e)
       (ev_previous_event_hash e) (ev_reason e) (ev_details e) (ev_created_at e)"

definition event_msg :: "env \<Rightarrow> audit_event \<Rightarrow> string" where
  "event_msg E e = event_message E (ev_receipt_id e) (ev_sequence e) (ev_event_type e)
       (ev_previous_event_hash e) (ev_reason e) (ev_details e) (ev_created_at e)"

abbreviation event_links :: "audit_event list \<Rightarrow> bool" where
  "event_links \<equiv> linked ev_previous_event_hash (\<lambda>e. Some (ev_event_hash e)) None"

definition chain_ok :: "env \<Rightarrow> audit_event list \<Rightarrow> bool" where
  "chain_ok E es \<longleftrightarrow>
     map ev_sequence es = map (\<lambda>i. 1 + int i) [0..<length es] \<and> event_links es \<and>
     (\<forall>e\<in>set es. event_ok E e)"

lemma verify_events_iff:
  "fst (verify_events E n p es) \<longleftrightarrow>
     map ev_sequence es = map (\<lambda>i. n + int i) [0..<length es] \<and>
     linked ev_previous_event_hash (\<lambda>e. Some (ev_event_hash e)) p es \<and> (\<forall>e\<in>set es. event_ok E e)"
proof (induction E n p es rule: verify_events.induct)
  case (1 E n p)
  then show ?case by simp
next
  case (2 E n p e es)
  have "map (\<lambda>i. n + int i) [0..<length (e # es)] = n # map (\<lambda>i. n + 1 + int i) [0..<length es]"
    by (simp add: upt_conv_Cons del: upt_Suc) (simp add: map_Suc_upt [symmetric] del: upt_Suc)
  then show ?case using 2 by (simp add: event_ok_def del: upt_Suc)
qed

lemma verify_events_result: "fst (verify_events E n p es) \<Longrightarrow> verify_events E n p es = (True, ''ok'')"
  by (induction E n p es rule: verify_events.induct) (auto split: if_splits)

definition raw_events :: "string \<Rightarrow> 'a store_db_scheme \<Rightarrow> audit_event list" where
  "raw_events rid db = filter (\<lambda>e. ev_receipt_id e = rid) (db_events db)"

lemma events_chain_ok: "chain_ok E (raw_events rid db) \<Longrightarrow> events rid db = raw_events rid db"
  by (auto simp: events_def raw_events_def chain_ok_def sorted_iff_nth_mono intro!: sort_key_sorted_id)

lemma event_hash_loads_dumps:
  "event_hash E rid n ty p rs (loads_dumps d) t = event_hash E rid n ty p rs d t"
proof -
  have "canon (JObj (event_document rid n ty p rs (canon d) t)) = canon (JObj (event_document rid n ty p rs d t))"
    by (simp add: event_document_def split: option.splits)
  then have "dumps st fr (JObj (event_document rid n ty p rs (canon d) t)) =
      dumps st fr (JObj (event_document rid n ty p rs d t))" for st fr
    by (metis dumps_canon)
  then show ?thesis by (simp add: event_hash_def event_message_def canonical_bytes_def loads_dumps_def)
qed

lemma append_event_raw:
  assumes "append_event E t rid ty rs d db = Inr db'" "chain_ok E (raw_events rid db)"
  shows "\<exists>e. ev_event_type e = ty \<and> ev_reason e = rs \<and> ev_created_at e = t \<and>
    ev_details e = loads_dumps (JObj d) \<and>
    raw_events x db' = (if x = rid then raw_events x db @ [e] else raw_events x db) \<and>
    chain_ok E (raw_events rid db')"
proof -
  let ?p = "raw_events rid db"
  define n where "n = (if ?p = [] then 1 else ev_sequence (last ?p) + 1)"
  define h where "h = (if ?p = [] then None else Some (ev_event_hash (last ?p)))"
  define e where "e = \<lparr>ev_receipt_id = rid, ev_sequence = n, ev_event_type = ty,
            ev_event_hash = event_hash E rid n ty h rs (JObj d) t,
            ev_previous_event_hash = h, ev_reason = rs,
            ev_details = loads_dumps (JObj d), ev_created_at = t\<rparr>"
  have db': "db' = db\<lparr>db_events := db_events db @ [e]\<rparr>"
    using assms by (auto simp: append_event_def insert_event_def Let_def events_chain_ok e_def n_def h_def
        split: if_splits)
  have n: "n = 1 + int (length ?p)"
  proof (cases ?p rule: rev_cases)
    case (snoc ys y)
    then show ?thesis using assms(2) by (simp add: n_def chain_ok_def)
  qed (simp add: n_def)
  have "chain_ok E (?p @ [e])"
    using assms(2) n by (auto simp: chain_ok_def e_def h_def event_ok_def event_hash_loads_dumps)
  then show ?thesis
    by (intro exI [of _ e]) (simp add: db' e_def raw_events_def)
qed

text \<open>The status the audit trail of a receipt tells.\<close>

definition audit_step :: "string \<Rightarrow> receipt_status option \<Rightarrow> receipt_status option" where
  "audit_step ty st =
     (if ty = ''ISSUE'' then Some ISSUED
      else if ty = ''VERIFY'' then Some VERIFIED
      else if ty = ''CONSUME'' then Some CONSUMED
      else if ty = ''RELEASE'' then Some RELEASED
      else if ty = ''VOID'' then Some VOIDED
      else if ty = ''EXPIRE'' then Some EXPIRED
      else st)"

definition audit_status :: "audit_event list \<Rightarrow> receipt_status option" where
  "audit_status es = fold audit_step (map ev_event_type es) None"

definition chains_ok :: "env \<Rightarrow> 'a store_db_scheme \<Rightarrow> bool" where
  "chains_ok E db \<longleftrightarrow> (\<forall>rid. chain_ok E (raw_events rid db))"

definition store_inv :: "env \<Rightarrow> 'a store_db_scheme \<Rightarrow> bool" where
  "store_inv E db \<longleftrightarrow> chains_ok E db \<and> (\<forall>rid. audit_status (raw_events rid db) = status rid db)"

lemma append_event_audit:
  assumes "append_event E t rid ty rs d db = Inr db'" "chains_ok E db"
  shows "chains_ok E db'"
    and "audit_status (raw_events x db') =
      (if x = rid then audit_step ty (audit_status (raw_events x db)) else audit_status (raw_events x db))"
proof -
  have c: "chain_ok E (raw_events rid db)" using assms(2) by (simp add: chains_ok_def)
  note raw = append_event_raw [OF assms(1) c]
  show "chains_ok E db'"
    unfolding chains_ok_def
  proof
    fix y
    show "chain_ok E (raw_events y db')"
      using raw [of y] assms(2) by (cases "y = rid") (auto simp: chains_ok_def)
  qed
  show "audit_status (raw_events x db') =
      (if x = rid then audit_step ty (audit_status (raw_events x db)) else audit_status (raw_events x db))"
    using raw [of x] by (auto simp: audit_status_def)
qed

lemma raw_events_tables [simp]:
  "raw_events x (update_rows rid f db) = raw_events x db"
  "chains_ok E (update_rows rid f db) = chains_ok E db"
  by (simp_all add: raw_events_def update_rows_def chains_ok_def)

lemma raw_events_insert:
  "insert_receipt row db = Inr db' \<Longrightarrow> raw_events x db' = raw_events x db"
  "insert_attestation arow db = Inr db' \<Longrightarrow> raw_events x db' = raw_events x db"
  by (auto simp: insert_receipt_def insert_attestation_def raw_events_def split: if_splits)

lemma chains_ok_insert:
  "insert_receipt row db = Inr db' \<Longrightarrow> chains_ok E db' = chains_ok E db"
  "insert_attestation arow db = Inr db' \<Longrightarrow> chains_ok E db' = chains_ok E db"
  by (simp_all add: chains_ok_def raw_events_insert)

lemma issue_inv: "issue E clock r db = Inr (i, db') \<Longrightarrow> store_inv E db \<Longrightarrow> store_inv E db'"
proof (cases "load_row (ar_receipt_id r) db")
  case (Some row)
  assume "issue E clock r db = Inr (i, db')" "store_inv E db"
  then show ?thesis using Some by (auto simp: issue_def split: if_splits)
next
  case None
  assume a: "issue E clock r db = Inr (i, db')" and inv: "store_inv E db"
  from None a obtain row db1 t d where ins: "insert_receipt row db = Inr db1" "rr_receipt_id row = ar_receipt_id r"
    "rr_status row = ISSUED" and app: "append_event E t (ar_receipt_id r) ''ISSUE'' [] d db1 = Inr db'"
    by (fastforce simp: issue_def rbind_Inr_iff)
  have c: "chains_ok E db1" using inv ins(1) chains_ok_insert(1) store_inv_def by blast
  have "audit_status (raw_events x db') = status x db'" for x
    using append_event_audit(2) [OF app c, of x] append_event_load_row [OF app, of x]
      load_row_insert_receipt [OF ins(1), of x] raw_events_insert(1) [OF ins(1)] inv ins
    by (auto simp: store_inv_def status_def audit_step_def)
  then show ?thesis using append_event_audit(1) [OF app c] by (simp add: store_inv_def)
qed

text \<open>An event that leaves the audited status alone, as refusals and attestations do.\<close>

lemma append_neutral_inv:
  assumes "append_event E t rid ty rs d db = Inr db'" "store_inv E db" "\<forall>st. audit_step ty st = st"
  shows "store_inv E db'"
proof -
  have c: "chains_ok E db" using assms(2) by (simp add: store_inv_def)
  show ?thesis
    using append_event_audit [OF assms(1) c] append_event_status [OF assms(1)] assms(2,3)
    by (simp add: store_inv_def)
qed

text \<open>A status change together with the event that records it.\<close>

lemma update_event_inv:
  assumes "append_event E t rid ty rs d (update_rows rid f db) = Inr db'" "store_inv E db"
    and "load_row rid db \<noteq> None" "\<And>x. rr_receipt_id (f x) = rr_receipt_id x" "\<And>x. rr_status (f x) = s"
    and "\<forall>st. audit_step ty st = Some s"
  shows "store_inv E db'"
proof -
  have c: "chains_ok E (update_rows rid f db)" using assms(2) by (simp add: store_inv_def)
  have "audit_status (raw_events x db') = status x db'" for x
    using append_event_audit(2) [OF assms(1) c, of x] append_event_status [OF assms(1), of x] assms
    by (auto simp: store_inv_def status_update)
  then show ?thesis using append_event_audit(1) [OF assms(1) c] by (simp add: store_inv_def)
qed

lemma terminal_transition_inv:
  assumes "terminal_transition E clock rid target ty reason db = Inr db'" "store_inv E db"
    and "\<forall>st. audit_step ty st = Some target"
  shows "store_inv E db'"
proof (cases "load_row rid db")
  case None
  then show ?thesis using assms by (simp add: terminal_transition_def)
next
  case (Some row)
  then show ?thesis using assms
    by (auto simp: terminal_transition_def split: if_splits elim!: update_event_inv)
qed

lemma verify_inv:
  assumes "verify E clock ta rid actual ev now db = Inr (a, db')" "store_inv E db"
  shows "store_inv E db'"
proof (cases "load_row rid db")
  case None
  then show ?thesis using assms by (simp add: verify_def)
next
  case (Some row)
  then obtain r d where r: "receipt_from_row row = Inr r" "evaluate_verification E ta actual ev now r = Inr d"
    using assms(1) by (auto simp: verify_def split: sum.splits)
  show ?thesis
  proof (cases "vd_reason d = []")
    case True
    then show ?thesis using assms Some r
      by (auto simp: verify_def rbind_Inr_iff audit_step_def elim!: update_event_inv)
  next
    case False
    then obtain db1 where app: "append_event E (clock 0) rid
          (if vd_signature_refusal d then ''SIGNATURE_REFUSAL'' else ''MISMATCH_REFUSAL'')
          (vd_reason d) [(''actual'', JObj actual)] db = Inr db1"
      using assms(1) Some r by (auto simp: verify_def rbind_Inr_iff)
    have inv1: "store_inv E db1" using append_neutral_inv [OF app assms(2)] by (simp add: audit_step_def)
    have "load_row rid db1 \<noteq> None" using append_event_load_row [OF app] Some by simp
    then show ?thesis using assms(1) Some r False app inv1
      by (auto simp: verify_def rbind_Inr_iff audit_step_def Let_def split: if_splits
          elim!: update_event_inv)
  qed
qed

lemma record_attestation_inv:
  assumes "record_attestation E clock ta a db = Inr (h, db')" "store_inv E db"
  shows "store_inv E db'"
proof -
  obtain row db1 where ins: "insert_attestation row db = Inr db1"
    and app: "append_event E (clock 1) (at_receipt_id a) ''ATTEST'' []
        [(''attestation_hash'', JStr (attestation_hash E a))] db1 = Inr db'"
    using assms(1) by (auto simp: record_attestation_def rbind_Inr_iff split: option.splits if_splits)
  have "store_inv E db1"
    using assms(2) raw_events_insert(2) [OF ins] load_row_insert_attestation [OF ins]
    by (simp add: store_inv_def chains_ok_def status_def)
  then show ?thesis using append_neutral_inv [OF app] by (simp add: audit_step_def)
qed

lemma store_step_inv: "store_inv E db \<Longrightarrow> store_inv E (store_step E c db)"
proof (cases "run_call E c db")
  case (Inr p)
  assume inv: "store_inv E db"
  obtain b m db' where p: "p = ((b, m), db')" by (metis surj_pair)
  have s: "store_step E c db = db'" using Inr p by (simp add: store_step_def)
  show ?thesis using Inr inv unfolding s p
    by (cases "(E, c, db)" rule: run_call.cases)
       (auto simp: rbind_Inr_iff terminal_call_defs audit_step_def
         elim: issue_inv verify_inv record_attestation_inv elim!: terminal_transition_inv)
qed (simp add: store_step_def)

lemma empty_store_inv: "store_inv E empty_store"
  by (simp add: store_inv_def chains_ok_def chain_ok_def raw_events_def empty_store_def
      audit_status_def status_def load_row_def)

lemma store_run_inv: "store_inv E db \<Longrightarrow> store_inv E (fold (store_step E) cs db)"
  by (induction cs arbitrary: db) (auto simp: store_step_inv)

lemma store_inv_verifies:
  assumes "store_inv E db" "status rid db \<noteq> None"
  shows "verify_event_chain E rid db = (True, ''ok'') \<and> audit_status (events rid db) = status rid db"
proof -
  have c: "chain_ok E (raw_events rid db)" and a: "audit_status (raw_events rid db) = status rid db"
    using assms(1) by (auto simp: store_inv_def chains_ok_def)
  then have "events rid db \<noteq> []" using assms(2) events_chain_ok [OF c] by (auto simp: audit_status_def)
  moreover have "fst (verify_events E 1 None (events rid db))"
    using c events_chain_ok [OF c] by (simp add: verify_events_iff chain_ok_def)
  ultimately show ?thesis
    using a events_chain_ok [OF c] by (simp add: verify_event_chain_def verify_events_result)
qed

text \<open>
  C1. Single use: for every interleaving of calls on the store, a receipt is claimed by at
  most one successful \<open>verify\<close>; a receipt that is VERIFIED or CONSUMED was claimed exactly
  once; and a terminal receipt keeps its status under all later calls.
\<close>

theorem receipt_single_use:
  "claim_count (store_step E) (store_claims E) rid cs empty_store \<le> 1 \<and>
    (status rid (fold (store_step E) cs empty_store) \<in> {Some VERIFIED, Some CONSUMED} \<longrightarrow>
       claim_count (store_step E) (store_claims E) rid cs empty_store = 1) \<and>
    (\<forall>s cs'. status rid (fold (store_step E) cs empty_store) = Some s \<and> terminal_status s \<longrightarrow>
       status rid (fold (store_step E) (cs @ cs') empty_store) = Some s)"
proof -
  have "status rid empty_store = None" by (simp add: status_def load_row_def empty_store_def)
  from sqlite.single_claim [OF this] sqlite.terminal_absorbing [of rid "fold (store_step E) cs empty_store"]
  show ?thesis by auto
qed

text \<open>
  C14. The audit trail refines the table: after any sequence of calls, the event chain of
  every stored receipt passes \<open>verify_event_chain\<close>, and replaying its event types gives
  exactly the status in the receipt's row.
\<close>

theorem audit_trail_matches_status:
  assumes "status rid (fold (store_step E) cs empty_store) \<noteq> None"
  shows "verify_event_chain E rid (fold (store_step E) cs empty_store) = (True, ''ok'') \<and>
         audit_status (events rid (fold (store_step E) cs empty_store)) =
           status rid (fold (store_step E) cs empty_store)"
  using store_inv_verifies [OF store_run_inv [OF empty_store_inv] assms] .

subsection \<open>What a verification accepts\<close>

lemma first_mismatch_None_iff:
  "first_mismatch payload actual ks = None \<longleftrightarrow>
     (\<forall>k\<in>set ks. \<forall>a p. map_of actual k = Some a \<and> map_of payload k = Some p \<longrightarrow> py_eq a p)"
  by (induction payload actual ks rule: first_mismatch.induct) (auto split: option.splits)

lemma required_in_payload:
  "k \<in> set required_binding_fields \<Longrightarrow> \<exists>p. map_of (canonical_payload E r) k = Some p"
  by (auto simp: required_binding_fields_def canonical_payload_def)

lemma evaluate_bindings_accepts_iff:
  "vd_reason (evaluate_bindings E actual ev now r) = [] \<longleftrightarrow>
     ar_status r = ISSUED \<and> now < ar_expires_at r \<and>
     (\<forall>k\<in>set required_binding_fields. \<exists>a p. map_of actual k = Some a \<and>
        map_of (canonical_payload E r) k = Some p \<and> py_eq a p) \<and>
     (\<forall>c. ev = Some c \<longrightarrow> c \<le> ar_evidence_ceiling r)"
proof -
  let ?given = "sort (filter (\<lambda>k. k \<in> fst ` set actual) required_binding_fields)"
  let ?missing = "sort (filter (\<lambda>k. k \<notin> fst ` set actual) required_binding_fields)"
  have dom: "k \<in> fst ` set actual \<longleftrightarrow> (\<exists>a. map_of actual k = Some a)" for k
    by (metis domD domI dom_map_of_conv_image_fst)
  have "first_mismatch (canonical_payload E r) actual ?given = None \<and> ?missing = [] \<longleftrightarrow>
     (\<forall>k\<in>set required_binding_fields. \<exists>a p. map_of actual k = Some a \<and>
        map_of (canonical_payload E r) k = Some p \<and> py_eq a p)" (is "?L \<longleftrightarrow> ?R")
  proof
    assume ?L
    then have m: "\<forall>k\<in>set required_binding_fields. k \<in> fst ` set actual"
      using set_sort [of "\<lambda>k. k" "filter (\<lambda>k. k \<notin> fst ` set actual) required_binding_fields"]
      by (auto simp: filter_empty_conv)
    show ?R
    proof
      fix k
      assume k: "k \<in> set required_binding_fields"
      then obtain a where a: "map_of actual k = Some a" using m dom by blast
      moreover obtain p where "map_of (canonical_payload E r) k = Some p"
        using required_in_payload k by blast
      ultimately show "\<exists>a p. map_of actual k = Some a \<and> map_of (canonical_payload E r) k = Some p \<and> py_eq a p"
        using \<open>?L\<close> k m by (auto simp: first_mismatch_None_iff)
    qed
  next
    assume ?R
    then have "\<forall>k\<in>set required_binding_fields. k \<in> fst ` set actual" using dom by blast
    then have "filter (\<lambda>k. k \<notin> fst ` set actual) required_binding_fields = []"
      by (auto simp: filter_empty_conv)
    with \<open>?R\<close> show ?L by (fastforce simp: first_mismatch_None_iff)
  qed
  then show ?thesis
    by (auto simp: evaluate_bindings_def Let_def verify_evidence_def less_eq_evidence_def
        split: option.splits)
qed

text \<open>
  C11. A worker's \<open>verify\<close> that returns on a stored receipt answers \<open>True\<close> exactly when the
  signature part passes (unsigned and not required, or signed by a trusted key), the receipt
  is still ISSUED and not expired, each of the eleven required binding fields is given and
  equals the receipt's, and the evidence class asked for is at most the receipt's ceiling.
  In that case exactly the status of this receipt changes, to VERIFIED.
\<close>

theorem verify_accepts_iff:
  assumes "verify E clock ta rid actual ev now db = Inr ((b, m), db')"
    and "load_row rid db = Some row" "receipt_from_row row = Inr r"
  shows "(b \<longleftrightarrow> signature_ok E ta r \<and> rr_status row = ISSUED \<and> now < ar_expires_at r \<and>
     (\<forall>k\<in>set required_binding_fields. \<exists>a p. map_of actual k = Some a \<and>
        map_of (canonical_payload E r) k = Some p \<and> py_eq a p) \<and>
     (\<forall>c. ev = Some c \<longrightarrow> c \<le> ar_evidence_ceiling r)) \<and>
     (b \<longrightarrow> (\<forall>x. status x db' = (if x = rid then Some VERIFIED else status x db)))"
proof -
  obtain d where d: "evaluate_verification E ta actual ev now r = Inr d" "b \<longleftrightarrow> vd_reason d = []"
    "ar_status r = rr_status row"
    using assms verify_found by (metis sum.inject(2))
  then have "b \<longleftrightarrow> signature_ok E ta r \<and> vd_reason (evaluate_bindings E actual ev now r) = []"
    using evaluate_cases [OF d(1)] by auto
  then show ?thesis
    using d(3) verify_status [OF assms(1)] by (auto simp: evaluate_bindings_accepts_iff)
qed

subsection \<open>Tampering with an audit chain\<close>

lemma event_document_keys:
  "map fst (event_document rid n ty p rs d t) = map fst (event_document rid' n' ty' p' rs' d' t')"
  "distinct (map fst (event_document rid n ty p rs d t))"
  by (simp_all add: event_document_def)

lemma event_message_eq_iff:
  assumes "float_repr_ok (float_repr E)"
  shows "event_message E rid n ty p rs d t = event_message E rid' n' ty' p' rs' d' t' \<longleftrightarrow>
    rid = rid' \<and> n = n' \<and> ty = ty' \<and> p = p' \<and> rs = rs' \<and> canon d = canon d' \<and> t = t'"
    (is "?L \<longleftrightarrow> ?R")
proof
  assume ?L
  then have "canonical_bytes E (JObj (event_document rid n ty p rs d t)) =
      canonical_bytes E (JObj (event_document rid' n' ty' p' rs' d' t'))"
    by (simp add: event_message_def)
  then have "canon (JObj (event_document rid n ty p rs d t)) =
      canon (JObj (event_document rid' n' ty' p' rs' d' t'))"
    by (rule canonical_bytes_inj [OF assms])
  then have "canon_members (event_document rid n ty p rs d t) =
      canon_members (event_document rid' n' ty' p' rs' d' t')"
    by (rule canon_obj_eqD [OF _ event_document_keys])
  then show ?R by (auto simp: event_document_def split: option.splits)
next
  assume ?R
  then have "event_hash (E\<lparr>sha256 := \<lambda>m. m\<rparr>) rid n ty p rs (loads_dumps d) t =
      event_hash (E\<lparr>sha256 := \<lambda>m. m\<rparr>) rid' n' ty' p' rs' (loads_dumps d') t'"
    by (simp add: loads_dumps_def)
  then have "event_hash (E\<lparr>sha256 := \<lambda>m. m\<rparr>) rid n ty p rs d t =
      event_hash (E\<lparr>sha256 := \<lambda>m. m\<rparr>) rid' n' ty' p' rs' d' t'"
    by (simp only: event_hash_loads_dumps)
  then show ?L by (simp add: event_hash_def event_message_def canonical_bytes_def)
qed

interpretation audit: hash_chain ev_previous_event_hash "\<lambda>e. Some (ev_event_hash e)" "event_msg E"
  "\<lambda>m. Some (sha256 E m)" "\<lambda>e. event_ok E e \<and> float_repr_ok (float_repr E)" for E
  by unfold_locales (auto simp: event_ok_def event_hash_def event_msg_def event_message_eq_iff)

lemma verify_event_chainD:
  assumes "verify_event_chain E rid db = (True, m)"
  shows "events rid db \<noteq> []" "event_links (events rid db)" "\<forall>e\<in>set (events rid db). event_ok E e"
  using assms verify_events_iff [of E 1 None "events rid db"]
  by (auto simp: verify_event_chain_def split: if_splits)

text \<open>An event with its details up to key order.\<close>

definition event_content :: "audit_event \<Rightarrow> string \<times> int \<times> string \<times> string option \<times> string \<times> json \<times> string" where
  "event_content e =
     (ev_receipt_id e, ev_sequence e, ev_event_type e, ev_previous_event_hash e, ev_reason e,
      canon (ev_details e), ev_created_at e)"

text \<open>
  C34. Tamper evidence of the audit chain: if the chain of a receipt passes
  \<open>verify_event_chain\<close> in two databases (say, the exported one and the stored one) and the
  last event hashes agree, then both contain the same events, field by field, or two of the
  hashed messages are an explicit SHA-256 collision. No event can be changed, inserted,
  dropped or reordered before a known last hash.
\<close>

theorem audit_chain_tamper_evident:
  assumes "float_repr_ok (float_repr E)"
    and "verify_event_chain E rid db = (True, m)" "verify_event_chain E rid' db' = (True, m')"
    and "ev_event_hash (last (events rid db)) = ev_event_hash (last (events rid' db'))"
  shows "map event_content (events rid db) = map event_content (events rid' db') \<or>
    collision_between (sha256 E) (event_msg E ` set (events rid db)) (event_msg E ` set (events rid' db'))"
proof -
  note l = verify_event_chainD [OF assms(2)] and r = verify_event_chainD [OF assms(3)]
  have "map (event_msg E) (events rid db) = map (event_msg E) (events rid' db') \<or>
    collision_between (\<lambda>m. Some (sha256 E m)) (event_msg E ` set (events rid db))
      (event_msg E ` set (events rid' db'))"
    using l r assms(1,4) by (intro audit.same_head_same_messages [where g = None]) auto
  then show ?thesis
  proof
    assume "map (event_msg E) (events rid db) = map (event_msg E) (events rid' db')"
    then have "map event_content (events rid db) = map event_content (events rid' db')"
      by (rule map_eq_transfer) (auto simp: event_msg_def event_message_eq_iff [OF assms(1)] event_content_def)
    then show ?thesis ..
  qed (auto simp: collision_between_def)
qed

subsection \<open>An example run\<close>

definition demo_trust :: trust_args where
  "demo_trust =
     \<lparr>ta_config = \<lparr>cfg_require_signature = [], cfg_dgx_mode = [], cfg_app_env = [],
        cfg_environment = [], cfg_signing_key_id = [], cfg_private_key_b64 = [],
        cfg_worker_key_id = [], cfg_worker_private_key_b64 = [], cfg_store_backend = [],
        cfg_trusted_keys = None, cfg_worker_trusted_keys = None\<rparr>,
      ta_trusted_public_keys = None, ta_require_signature = None\<rparr>"

definition demo_actual :: "(string \<times> json) list" where
  "demo_actual =
     [(''tenant_id'', JStr ''t''), (''workload_id'', JStr ''w''), (''run_id'', JStr ''run''),
      (''manifest_hash'', JStr ''m''), (''trace_root_hash'', JStr ''tr''),
      (''intervention_hash'', JStr ''ih''), (''current_version'', JStr ''v1''),
      (''candidate_version'', JStr ''v2''), (''policy_hash'', JStr ''p''),
      (''capsule_hash'', JStr ''c''), (''resource_pool_id'', JStr ''pool'')]"

definition demo_calls :: "timed_call list" where
  "demo_calls =
     [(\<lambda>_. ''T1'', CIssue demo_receipt),
      (\<lambda>_. ''T2'', CVerify demo_trust ''r1'' demo_actual (Some TEST_FIXTURE) 15),
      (\<lambda>_. ''T3'', CConsume ''r1'')]"

lemma receipt_env_event_hash [simp]:
  "event_hash receipt_env rid n ty p rs d t = event_hash receipt_env rid' n' ty' p' rs' d' t' \<longleftrightarrow>
    rid = rid' \<and> n = n' \<and> ty = ty' \<and> p = p' \<and> rs = rs' \<and> canon d = canon d' \<and> t = t'"
  using event_message_eq_iff [of receipt_env] by (simp add: event_hash_def float_repr_ok_ratio_repr)

lemmas demo_defs =
  status_def load_row_def events_def append_event_def insert_event_def insert_receipt_def
  update_rows_def store_step_def store_claims_def empty_store_def demo_calls_def

lemma demo_row:
  "receipt_from_row \<lparr>rr_receipt_id = i, rr_tenant_id = t, rr_binding_hash = h, rr_status = s,
     rr_payload = persisted_payload demo_receipt, rr_reserved_cost = c, rr_resource_pool_id = p,
     rr_created_at = a, rr_terminal_at = b\<rparr> = Inr (demo_receipt\<lparr>ar_status := s\<rparr>)"
  by (simp add: receipt_from_row_def persisted_payload_def demo_receipt_def post_init_def
      require_aware_utc_def validate_numbers_def)

lemma demo_evaluation:
  assumes "ev = None \<or> ev = Some TEST_FIXTURE"
  shows "evaluate_verification E demo_trust demo_actual ev 15 (demo_receipt\<lparr>ar_status := ISSUED\<rparr>) =
     Inr \<lparr>vd_reason = [], vd_expired = False, vd_signature_refusal = False\<rparr>"
proof -
  let ?r = "demo_receipt\<lparr>ar_status := ISSUED\<rparr>"
  have sig: "\<not> (ar_payload_signature ?r \<noteq> [] \<or> signature_required demo_trust)"
    by (simp add: demo_receipt_def signature_required_def demo_trust_def receipt_signature_required_def
        py_lower_def py_strip_def)
  have "vd_reason (evaluate_bindings E demo_actual ev 15 ?r) = []"
    unfolding evaluate_bindings_accepts_iff using assms
    by (auto simp: demo_receipt_def required_binding_fields_def demo_actual_def canonical_payload_def
        less_eq_evidence_def)
  then have "evaluate_bindings E demo_actual ev 15 ?r =
      \<lparr>vd_reason = [], vd_expired = False, vd_signature_refusal = False\<rparr>"
    by (auto simp: evaluate_bindings_def Let_def split: if_splits option.splits)
  with sig show ?thesis by (simp add: evaluate_verification_def)
qed

lemma demo_receipt_id [simp]: "ar_receipt_id demo_receipt = ''r1''"
  by (simp add: demo_receipt_def)

lemma demo_run:
  "status ''r1'' (fold (store_step receipt_env) demo_calls empty_store) = Some CONSUMED"
  by (simp add: demo_defs issue_def verify_def consume_def terminal_transition_def allowed_sources_def
      demo_evaluation demo_row Let_def)

lemma demo_run_prefix:
  "status ''r1'' (fold (store_step receipt_env) (take 1 demo_calls) empty_store) = Some ISSUED"
  "\<exists>row. load_row ''r1'' (fold (store_step receipt_env) (take 1 demo_calls) empty_store) = Some row \<and>
     receipt_from_row row = Inr (demo_receipt\<lparr>ar_status := ISSUED\<rparr>)"
  by (simp_all add: demo_defs issue_def demo_row Let_def)

theorem receipt_single_use_witness:
  "claim_count (store_step receipt_env) (store_claims receipt_env) ''r1'' demo_calls empty_store = 1 \<and>
   status ''r1'' (fold (store_step receipt_env) (demo_calls @ demo_calls) empty_store) = Some CONSUMED"
  using receipt_single_use [of receipt_env "''r1''" demo_calls] demo_run
  by (auto simp: terminal_status_def)

theorem audit_trail_matches_status_witness:
  "verify_event_chain receipt_env ''r1'' (fold (store_step receipt_env) demo_calls empty_store) = (True, ''ok'') \<and>
   audit_status (events ''r1'' (fold (store_step receipt_env) demo_calls empty_store)) = Some CONSUMED"
  using audit_trail_matches_status [of "''r1''" receipt_env demo_calls] demo_run by simp

theorem verify_accepts_iff_witness:
  "\<exists>row db'. load_row ''r1'' (fold (store_step receipt_env) (take 1 demo_calls) empty_store) = Some row \<and>
     verify receipt_env (\<lambda>_. ''T2'') demo_trust ''r1'' demo_actual (Some TEST_FIXTURE) 15
       (fold (store_step receipt_env) (take 1 demo_calls) empty_store) = Inr ((True, ''ok''), db') \<and>
     rr_status row = ISSUED \<and> status ''r1'' db' = Some VERIFIED"
proof -
  let ?db = "fold (store_step receipt_env) (take 1 demo_calls) empty_store"
  obtain row where row: "load_row ''r1'' ?db = Some row" "receipt_from_row row = Inr (demo_receipt\<lparr>ar_status := ISSUED\<rparr>)"
    using demo_run_prefix by blast
  have "\<exists>db'. verify receipt_env (\<lambda>_. ''T2'') demo_trust ''r1'' demo_actual (Some TEST_FIXTURE) 15 ?db
      = Inr ((True, ''ok''), db')"
    by (simp add: demo_defs issue_def verify_def demo_evaluation demo_row Let_def)
  then obtain db' where v: "verify receipt_env (\<lambda>_. ''T2'') demo_trust ''r1'' demo_actual (Some TEST_FIXTURE) 15 ?db
      = Inr ((True, ''ok''), db')" ..
  from verify_accepts_iff [OF v row] row(1) v show ?thesis by auto
qed

text \<open>A second database: the same run, with another receipt issued after it.\<close>

abbreviation other_receipt :: receipt where
  "other_receipt \<equiv> demo_receipt\<lparr>ar_receipt_id := ''r2''\<rparr>"

lemma other_binding: "binding_hash receipt_env demo_receipt \<noteq> binding_hash receipt_env other_receipt"
proof
  assume "binding_hash receipt_env demo_receipt = binding_hash receipt_env other_receipt"
  then have "receipt_bytes receipt_env demo_receipt = receipt_bytes receipt_env other_receipt"
    by (simp add: binding_hash_def receipt_hash_message_def)
  then have "bound_part demo_receipt = bound_part other_receipt"
    by (intro receipt_bytes_inj [of receipt_env]) (auto simp: float_repr_ok_ratio_repr inj_def inj_int_str)
  then show False by (simp add: bound_part_def demo_receipt_def)
qed

lemma other_run:
  "status ''r2'' (fold (store_step receipt_env) (demo_calls @ [(\<lambda>_. ''T4'', CIssue other_receipt)]) empty_store)
     = Some ISSUED"
  "events ''r1'' (fold (store_step receipt_env) (demo_calls @ [(\<lambda>_. ''T4'', CIssue other_receipt)]) empty_store) =
   events ''r1'' (fold (store_step receipt_env) demo_calls empty_store)"
  "status ''r1'' (fold (store_step receipt_env) (demo_calls @ [(\<lambda>_. ''T4'', CIssue other_receipt)]) empty_store)
     = Some CONSUMED"
  using other_binding
  by (simp_all add: demo_defs issue_def verify_def consume_def terminal_transition_def allowed_sources_def
      demo_evaluation demo_row Let_def)

theorem audit_chain_tamper_evident_witness:
  "status ''r2'' (fold (store_step receipt_env) (demo_calls @ [(\<lambda>_. ''T4'', CIssue other_receipt)]) empty_store)
     = Some ISSUED \<and>
   map event_content (events ''r1'' (fold (store_step receipt_env) demo_calls empty_store)) =
   map event_content (events ''r1''
     (fold (store_step receipt_env) (demo_calls @ [(\<lambda>_. ''T4'', CIssue other_receipt)]) empty_store))"
proof -
  let ?db = "fold (store_step receipt_env) demo_calls empty_store"
  let ?db' = "fold (store_step receipt_env) (demo_calls @ [(\<lambda>_. ''T4'', CIssue other_receipt)]) empty_store"
  have v: "verify_event_chain receipt_env ''r1'' ?db = (True, ''ok'')"
    "verify_event_chain receipt_env ''r1'' ?db' = (True, ''ok'')"
    using store_inv_verifies [OF store_run_inv [OF empty_store_inv]] demo_run other_run(3) by blast+
  have "\<not> collision_between (sha256 receipt_env) A B" for A B
    by (intro not_collision_inj) (simp add: inj_def)
  with audit_chain_tamper_evident [OF _ v] other_run(1,2) show ?thesis
    by (simp only: float_repr_ok_ratio_repr receipt_env_simps)
qed

subsection \<open>Attestations\<close>

text \<open>
  Every recorded attestation belongs to a receipt in the table with the binding hash it
  names, which has been claimed, and no receipt has two attestations.
\<close>

definition attestations_ok :: "'a store_db_scheme \<Rightarrow> bool" where
  "attestations_ok db \<longleftrightarrow>
     distinct (map tr_receipt_id (db_attestations db)) \<and>
     (\<forall>t\<in>set (db_attestations db). tr_receipt_id t = at_receipt_id (tr_payload t) \<and>
        (\<exists>row. load_row (tr_receipt_id t) db = Some row \<and>
           rr_binding_hash row = at_receipt_binding_hash (tr_payload t) \<and>
           rr_status row \<notin> {ISSUED, EXPIRED}))"

text \<open>Rows keep their identity and binding, and never return to ISSUED or expire late.\<close>

definition rows_advance :: "'a store_db_scheme \<Rightarrow> 'a store_db_scheme \<Rightarrow> bool" where
  "rows_advance db db' \<longleftrightarrow>
     (\<forall>rid row. load_row rid db = Some row \<and> rr_status row \<notin> {ISSUED, EXPIRED} \<longrightarrow>
        (\<exists>row'. load_row rid db' = Some row' \<and> rr_binding_hash row' = rr_binding_hash row \<and>
           rr_status row' \<notin> {ISSUED, EXPIRED}))"

lemma rows_advance_attestations:
  "rows_advance db db' \<Longrightarrow> db_attestations db' = db_attestations db \<Longrightarrow>
     attestations_ok db \<Longrightarrow> attestations_ok db'"
  unfolding attestations_ok_def rows_advance_def by metis

lemma rows_advance_refl [simp]: "rows_advance db db"
  by (auto simp: rows_advance_def)

lemma rows_advance_trans: "rows_advance a b \<Longrightarrow> rows_advance b c \<Longrightarrow> rows_advance a c"
  unfolding rows_advance_def by metis

lemma rows_advance_append: "append_event E t rid ty rs d db = Inr db' \<Longrightarrow> rows_advance db db'"
  by (simp add: rows_advance_def append_event_load_row)

lemma rows_advance_update:
  assumes "\<And>x. rr_receipt_id (f x) = rr_receipt_id x" "\<And>x. rr_binding_hash (f x) = rr_binding_hash x"
    and "\<And>x. load_row rid db = Some x \<Longrightarrow> rr_status x \<in> {ISSUED, EXPIRED} \<or> rr_status (f x) \<notin> {ISSUED, EXPIRED}"
  shows "rows_advance db (update_rows rid f db)"
  using assms by (auto simp: rows_advance_def load_row_update)

lemma rows_advance_insert:
  "insert_receipt row db = Inr db' \<Longrightarrow> rows_advance db db' \<and> db_attestations db' = db_attestations db"
proof -
  assume i: "insert_receipt row db = Inr db'"
  then have "load_row (rr_receipt_id row) db = None"
    by (auto simp: insert_receipt_def load_row_def find_None_iff split: if_splits)
  with i have "rows_advance db db'" by (auto simp: rows_advance_def load_row_insert_receipt)
  with i show ?thesis by (auto simp: insert_receipt_def split: if_splits)
qed

lemma update_append_advance:
  assumes "append_event E t rid ty rs d (update_rows rid f db) = Inr db'"
    and "\<And>x. rr_receipt_id (f x) = rr_receipt_id x" "\<And>x. rr_binding_hash (f x) = rr_binding_hash x"
    and "\<And>x. load_row rid db = Some x \<Longrightarrow> rr_status x \<in> {ISSUED, EXPIRED} \<or> rr_status (f x) \<notin> {ISSUED, EXPIRED}"
  shows "rows_advance db db' \<and> db_attestations db' = db_attestations db"
  using rows_advance_trans [OF rows_advance_update rows_advance_append [OF assms(1)]] assms(2-4)
    append_event_receipts [OF assms(1)] by (simp add: update_rows_def)

lemma issue_advance:
  "issue E clock r db = Inr (i, db') \<Longrightarrow> rows_advance db db' \<and> db_attestations db' = db_attestations db"
  by (auto simp: issue_def rbind_Inr_iff split: option.splits if_splits
      dest: append_event_receipts rows_advance_append dest!: rows_advance_insert
      elim: rows_advance_trans)

lemma terminal_transition_advance:
  assumes "terminal_transition E clock rid target ty reason db = Inr db'" "target \<notin> {ISSUED, EXPIRED}"
  shows "rows_advance db db' \<and> db_attestations db' = db_attestations db"
  using assms by (auto simp: terminal_transition_def split: option.splits if_splits
      dest!: update_append_advance)

lemma verify_advance:
  assumes "verify E clock ta rid actual ev now db = Inr ((b, m), db')"
  shows "rows_advance db db' \<and> db_attestations db' = db_attestations db"
proof (cases "load_row rid db")
  case None
  then show ?thesis using assms by (simp add: verify_def)
next
  case (Some row)
  then obtain r d where r: "receipt_from_row row = Inr r" "evaluate_verification E ta actual ev now r = Inr d"
    "ar_status r = rr_status row"
    using assms verify_found by blast
  show ?thesis
  proof (cases "vd_reason d = []")
    case True
    then show ?thesis using assms Some r evaluate_issued [OF r(2)]
      by (auto simp: verify_def rbind_Inr_iff dest!: update_append_advance)
  next
    case False
    then obtain db1 where app: "append_event E (clock 0) rid
          (if vd_signature_refusal d then ''SIGNATURE_REFUSAL'' else ''MISMATCH_REFUSAL'')
          (vd_reason d) [(''actual'', JObj actual)] db = Inr db1"
      using assms Some r by (auto simp: verify_def rbind_Inr_iff)
    have "rows_advance db1 db' \<and> db_attestations db' = db_attestations db1"
      using assms Some r False app append_event_load_row [OF app]
      by (auto simp: verify_def rbind_Inr_iff Let_def split: if_splits dest!: update_append_advance)
    then show ?thesis
      using rows_advance_trans [OF rows_advance_append [OF app]] append_event_receipts [OF app] by simp
  qed
qed

lemma record_attestation_ok:
  assumes "record_attestation E clock ta a db = Inr (h, db')" "attestations_ok db"
  shows "attestations_ok db'"
proof -
  obtain row db1 where row: "load_row (at_receipt_id a) db = Some row" "rr_status row = VERIFIED"
      "rr_binding_hash row = at_receipt_binding_hash a"
    and ins: "insert_attestation \<lparr>tr_receipt_id = at_receipt_id a, tr_attestation_hash = attestation_hash E a,
                tr_payload = a, tr_created_at = clock 0\<rparr> db = Inr db1"
    and app: "append_event E (clock 1) (at_receipt_id a) ''ATTEST'' []
        [(''attestation_hash'', JStr (attestation_hash E a))] db1 = Inr db'"
    using assms(1) by (auto simp: record_attestation_def rbind_Inr_iff split: option.splits if_splits)
  have "attestations_ok db1"
    using assms(2) row ins load_row_insert_attestation [OF ins]
    by (auto simp: attestations_ok_def insert_attestation_def split: if_splits) blast
  then show ?thesis
    using rows_advance_attestations [OF rows_advance_append [OF app]] append_event_receipts [OF app] by blast
qed

lemma store_step_attestations: "attestations_ok db \<Longrightarrow> attestations_ok (store_step E c db)"
proof (cases "run_call E c db")
  case (Inr p)
  assume ok: "attestations_ok db"
  obtain b m db' where p: "p = ((b, m), db')" by (metis surj_pair)
  have s: "store_step E c db = db'" using Inr p by (simp add: store_step_def)
  show ?thesis using Inr ok unfolding s p
    by (cases "(E, c, db)" rule: run_call.cases)
       (auto simp: rbind_Inr_iff terminal_call_defs intro: rows_advance_attestations record_attestation_ok
         dest!: issue_advance verify_advance terminal_transition_advance)
qed (simp add: store_step_def)

lemma store_run_attestations: "attestations_ok db \<Longrightarrow> attestations_ok (fold (store_step E) cs db)"
  by (induction cs arbitrary: db) (auto simp: store_step_attestations)

text \<open>An attestation is only added to a receipt that is VERIFIED at that moment.\<close>

lemma store_step_new_attestation:
  assumes "t \<in> set (db_attestations (store_step E c db))" "t \<notin> set (db_attestations db)"
  shows "status (tr_receipt_id t) db = Some VERIFIED"
proof (cases "run_call E c db")
  case (Inl e)
  then show ?thesis using assms by (simp add: store_step_def)
next
  case (Inr p)
  obtain b m db' where p: "p = ((b, m), db')" by (metis surj_pair)
  have s: "store_step E c db = db'" using Inr p by (simp add: store_step_def)
  show ?thesis using Inr assms unfolding s p
    by (cases "(E, c, db)" rule: run_call.cases)
       (auto simp: rbind_Inr_iff terminal_call_defs record_attestation_def insert_attestation_def status_def
         split: option.splits if_splits
         dest!: issue_advance verify_advance terminal_transition_advance append_event_receipts)
qed

lemma attested_claimed:
  "t \<in> set (db_attestations (fold (store_step E) cs empty_store)) \<Longrightarrow>
     claim_count (store_step E) (store_claims E) (tr_receipt_id t) cs empty_store = 1"
proof (induction cs rule: rev_induct)
  case Nil
  then show ?case by (simp add: empty_store_def)
next
  case (snoc c cs)
  let ?db = "fold (store_step E) cs empty_store"
  let ?n = "claim_count (store_step E) (store_claims E) (tr_receipt_id t)"
  have none: "status (tr_receipt_id t) empty_store = None"
    by (simp add: status_def load_row_def empty_store_def)
  note single = sqlite.single_claim [OF none]
  have "?n cs empty_store = 1"
  proof (cases "t \<in> set (db_attestations ?db)")
    case True
    then show ?thesis by (rule snoc.IH)
  next
    case False
    then have "status (tr_receipt_id t) ?db = Some VERIFIED"
      using snoc.prems store_step_new_attestation [of t E c ?db] by simp
    then show ?thesis using single by simp
  qed
  moreover have "?n (cs @ [c]) empty_store \<le> 1" using single by blast
  ultimately show ?case by (simp add: claim_count_append)
qed

text \<open>
  Attestations: after any sequence of calls, every recorded execution attestation
  belongs to a receipt of the table with exactly the binding hash the attestation names,
  that receipt has been claimed by exactly one successful \<open>verify\<close>, and no receipt has two
  attestations.
\<close>

theorem attestations_belong_to_claims:
  "(\<forall>t\<in>set (db_attestations (fold (store_step E) cs empty_store)).
     (\<exists>row. load_row (tr_receipt_id t) (fold (store_step E) cs empty_store) = Some row \<and>
        rr_binding_hash row = at_receipt_binding_hash (tr_payload t)) \<and>
     claim_count (store_step E) (store_claims E) (tr_receipt_id t) cs empty_store = 1) \<and>
   distinct (map tr_receipt_id (db_attestations (fold (store_step E) cs empty_store)))"
proof -
  have "attestations_ok empty_store" by (simp add: attestations_ok_def empty_store_def)
  from store_run_attestations [OF this, of E cs] attested_claimed show ?thesis
    by (fastforce simp: attestations_ok_def)
qed

definition demo_attestation :: attestation where
  "demo_attestation =
     \<lparr>at_receipt_id = ''r1'', at_receipt_binding_hash = binding_hash receipt_env demo_receipt,
      at_tenant_id = ''t'', at_worker_id = ''w1'', at_manifest_hash = ''m'', at_policy_hash = ''p'',
      at_runtime_version = ''1'', at_image_digest = ''d'', at_started_at = 11, at_completed_at = 12,
      at_outcome = ''ok'', at_outcome_hash = ''h'', at_schema_version = ''1'', at_key_id = [],
      at_signature_algorithm = [], at_payload_signature = []\<rparr>"

abbreviation attest_calls :: "timed_call list" where
  "attest_calls \<equiv> take 2 demo_calls @ [(\<lambda>_. ''T5'', CAttest demo_trust demo_attestation)]"

lemma attest_run:
  "\<exists>t. t \<in> set (db_attestations (fold (store_step receipt_env) attest_calls empty_store)) \<and>
     tr_receipt_id t = ''r1''"
proof -
  have "check_attestation receipt_env demo_trust demo_attestation = Inr ()"
    by (simp add: check_attestation_def demo_attestation_def signature_required_def demo_trust_def
        receipt_signature_required_def py_lower_def py_strip_def)
  moreover have "at_receipt_id demo_attestation = ''r1''"
    "at_receipt_binding_hash demo_attestation = binding_hash receipt_env demo_receipt"
    by (simp_all add: demo_attestation_def)
  ultimately show ?thesis
    by (simp add: demo_defs issue_def verify_def demo_evaluation demo_row Let_def record_attestation_def
        insert_attestation_def)
qed

theorem attestations_belong_to_claims_witness:
  "\<exists>t\<in>set (db_attestations (fold (store_step receipt_env) attest_calls empty_store)).
     claim_count (store_step receipt_env) (store_claims receipt_env) (tr_receipt_id t) attest_calls empty_store = 1"
  using attestations_belong_to_claims [of receipt_env attest_calls] attest_run by blast

end
