(* ===== verification/Postgres_Store.thy ===== *)
theory Postgres_Store
  imports Admission_Store
begin

section \<open>The distributed receipt store\<close>

text \<open>
  \<open>packages/replay/src/postgres_admission_store.py\<close>: the PostgreSQL store, which adds shared
  resource pools to the tables of the SQLite store. Row locks (\<open>SELECT ... FOR UPDATE\<close>) make a
  call one transaction, as in the SQLite store. Columns of type \<open>NUMERIC(18, 6)\<close> round what
  they store to six decimals (\<open>numeric6\<close>); their overflow and the UUID syntax of identifiers
  are not modelled, and the session time zone is UTC.
\<close>

subsection \<open>Configuration\<close>

definition starts_with :: "string \<Rightarrow> string \<Rightarrow> bool" where
  "starts_with p s \<longleftrightarrow> take (length p) s = p"

definition normalize_postgres_dsn :: "string \<Rightarrow> string option" where
  "normalize_postgres_dsn url =
     (if starts_with ''postgresql+asyncpg://'' url
      then Some (''postgresql://'' @ drop (length ''postgresql+asyncpg://'') url)
      else if starts_with ''postgresql+psycopg2://'' url
      then Some (''postgresql://'' @ drop (length ''postgresql+psycopg2://'') url)
      else if starts_with ''postgresql://'' url then Some url
      else None)"

text \<open>The constructor: \<open>default_budget_usd or float(os.getenv(...))\<close>, refused unless positive.\<close>

datatype pg_init_error = NotPostgresUrl | BudgetNotPositive

definition pg_init :: "string \<Rightarrow> rat option \<Rightarrow> rat \<Rightarrow> (pg_init_error, string \<times> rat) result" where
  "pg_init configured_url default_budget_usd env_budget =
     (case normalize_postgres_dsn configured_url of
        None \<Rightarrow> Inl NotPostgresUrl
      | Some url \<Rightarrow>
          (let configured_budget = (case default_budget_usd of
                 None \<Rightarrow> env_budget | Some b \<Rightarrow> if b = 0 then env_budget else b)
           in if configured_budget \<le> 0 then Inl BudgetNotPositive
              else Inr (url, configured_budget)))"

subsection \<open>Pools\<close>

text \<open>Rounding to six decimals, half away from zero.\<close>

definition numeric6 :: "rat \<Rightarrow> rat" where
  "numeric6 q =
     (if 0 \<le> q then of_int \<lfloor>q * 1000000 + 1 / 2\<rfloor> / 1000000
      else - (of_int \<lfloor>- q * 1000000 + 1 / 2\<rfloor> / 1000000))"

record pool_row =
  pl_pool_id :: string
  pl_budget :: rat
  pl_reserved :: rat
  pl_spent :: rat
  pl_updated_at :: string

record pg_db = store_db +
  db_pools :: "pool_row list"

definition empty_pg :: pg_db where
  "empty_pg = \<lparr>db_receipts = [], db_events = [], db_attestations = [], db_pools = []\<rparr>"

definition load_pool :: "string \<Rightarrow> pg_db \<Rightarrow> pool_row option" where
  "load_pool pool_id db = List.find (\<lambda>p. pl_pool_id p = pool_id) (db_pools db)"

text \<open>\<open>INSERT ... ON CONFLICT (pool_id) DO NOTHING\<close>.\<close>

definition ensure_pool :: "string \<Rightarrow> rat \<Rightarrow> string \<Rightarrow> pg_db \<Rightarrow> pg_db" where
  "ensure_pool pool_id budget t db =
     (case load_pool pool_id db of
        Some _ \<Rightarrow> db
      | None \<Rightarrow> db\<lparr>db_pools := db_pools db @
          [\<lparr>pl_pool_id = pool_id, pl_budget = numeric6 budget, pl_reserved = 0, pl_spent = 0,
            pl_updated_at = t\<rparr>]\<rparr>)"

text \<open>The rows an \<open>UPDATE\<close> with a key condition leaves.\<close>

definition update_where :: "('r \<Rightarrow> 'k) \<Rightarrow> 'k \<Rightarrow> ('r \<Rightarrow> 'r) \<Rightarrow> 'r list \<Rightarrow> 'r list" where
  "update_where key k f xs = map (\<lambda>r. if key r = k then f r else r) xs"

lemma map_key_update_where:
  "(\<And>x. key (f x) = key x) \<Longrightarrow> map key (update_where key k f xs) = map key xs"
  by (simp add: update_where_def comp_def if_distrib cong: if_cong)

lemma set_update_where:
  "r \<in> set (update_where key k f xs) \<longleftrightarrow> (\<exists>x\<in>set xs. r = (if key x = k then f x else x))"
  by (simp only: update_where_def set_map image_iff)

definition update_pools :: "string \<Rightarrow> (pool_row \<Rightarrow> pool_row) \<Rightarrow> pg_db \<Rightarrow> pg_db" where
  "update_pools pool_id f db =
     db\<lparr>db_pools := update_where pl_pool_id pool_id f (db_pools db)\<rparr>"

lemma receipts_update_rows [simp]:
  "db_receipts (update_rows rid f db) = update_where rr_receipt_id rid f (db_receipts db)"
  "db_pools (update_rows rid f db) = db_pools db"
  by (simp_all add: update_rows_def update_where_def)

subsection \<open>Operations\<close>

definition pg_append_event ::
  "env \<Rightarrow> string \<Rightarrow> string \<Rightarrow> string \<Rightarrow> string \<Rightarrow> (string \<times> json) list \<Rightarrow> pg_db \<Rightarrow> (store_error, pg_db) result" where
  "pg_append_event E created_at receipt_id event_type reason details db =
     append_event E created_at receipt_id event_type reason details db"

definition pg_issue ::
  "env \<Rightarrow> rat \<Rightarrow> (nat \<Rightarrow> string) \<Rightarrow> receipt \<Rightarrow> pg_db \<Rightarrow> (store_error, string \<times> pg_db) result" where
  "pg_issue E default_budget clock r db =
     (let reserved = ar_predicted_cost r + ar_uncertainty_margin r + ar_rollback_reserve r;
          pool_id = ar_resource_pool_id r
      in case load_row (ar_receipt_id r) db of
        Some existing \<Rightarrow>
          if rr_binding_hash existing \<noteq> binding_hash E r then Inl ReceiptIdBoundToDifferentState
          else Inr (ar_receipt_id r, db)
      | None \<Rightarrow>
          (let db1 = ensure_pool pool_id default_budget (clock 0) db
           in case load_pool pool_id db1 of
                None \<Rightarrow> Inl IntegrityError
              | Some pool \<Rightarrow>
                  if reserved > pl_budget pool - pl_reserved pool - pl_spent pool
                  then Inl PoolBudgetExceeded
                  else
                    rbind (insert_receipt
                      \<lparr>rr_receipt_id = ar_receipt_id r, rr_tenant_id = ar_tenant_id r,
                       rr_binding_hash = binding_hash E r, rr_status = ISSUED,
                       rr_payload = persisted_payload r, rr_reserved_cost = numeric6 reserved,
                       rr_resource_pool_id = pool_id, rr_created_at = clock 1,
                       rr_terminal_at = None\<rparr> db1) (\<lambda>db2.
                    rbind (pg_append_event E (clock 3) (ar_receipt_id r) ''ISSUE'' [] (stored_payload E r)
                      (update_pools pool_id
                        (\<lambda>p. p\<lparr>pl_reserved := numeric6 (pl_reserved p + reserved),
                               pl_updated_at := clock 2\<rparr>) db2)) (\<lambda>db3.
                    Inr (ar_receipt_id r, db3)))))"

definition release_reservation :: "string \<Rightarrow> receipt_row \<Rightarrow> receipt_status \<Rightarrow> pg_db \<Rightarrow> pg_db" where
  "release_reservation now row target db =
     (let spent = (if target = CONSUMED then rr_reserved_cost row else 0)
      in update_pools (rr_resource_pool_id row)
           (\<lambda>p. p\<lparr>pl_reserved := max 0 (pl_reserved p - rr_reserved_cost row),
                  pl_spent := pl_spent p + spent, pl_updated_at := now\<rparr>)
           (update_rows (rr_receipt_id row)
              (\<lambda>x. x\<lparr>rr_status := target, rr_terminal_at := Some now\<rparr>) db))"

definition pg_verify ::
  "env \<Rightarrow> (nat \<Rightarrow> string) \<Rightarrow> trust_args \<Rightarrow> string \<Rightarrow> (string \<times> json) list \<Rightarrow> evidence option \<Rightarrow> int \<Rightarrow>
     pg_db \<Rightarrow> (store_error, (bool \<times> string) \<times> pg_db) result" where
  "pg_verify E clock ta receipt_id actual evidence_class now db =
     (case load_row receipt_id db of
        None \<Rightarrow> Inr ((False, ''Admission receipt not found.''), db)
      | Some row \<Rightarrow>
          (case receipt_from_row row of
             Inl e \<Rightarrow> Inl (PayloadInvalid e)
           | Inr r \<Rightarrow>
               (case evaluate_verification E ta actual evidence_class now r of
                  Inl e \<Rightarrow> Inl (TrustConfigError e)
                | Inr d \<Rightarrow>
                    if vd_reason d \<noteq> [] then
                      rbind (pg_append_event E (clock 0) receipt_id
                          (if vd_signature_refusal d then ''SIGNATURE_REFUSAL'' else ''MISMATCH_REFUSAL'')
                          (vd_reason d) [(''actual'', JObj actual)] db) (\<lambda>db1.
                      if rr_status row = ISSUED then
                        rbind (pg_append_event E (clock 2) receipt_id
                            (if vd_expired d then ''EXPIRE'' else ''VOID'') (vd_reason d)
                            [(''terminal_reason'', JStr (terminal_reason_value (terminal_reason_of d)))]
                            (release_reservation (clock 1) row
                               (if vd_expired d then EXPIRED else VOIDED) db1)) (\<lambda>db3.
                        Inr ((False, vd_reason d), db3))
                      else Inr ((False, vd_reason d), db1))
                    else
                      rbind (pg_append_event E (clock 0) receipt_id ''VERIFY'' [] actual
                          (update_rows receipt_id (\<lambda>x. x\<lparr>rr_status := VERIFIED\<rparr>) db)) (\<lambda>db1.
                      Inr ((True, ''ok''), db1)))))"

definition pg_allowed_sources :: "receipt_status \<Rightarrow> receipt_status set" where
  "pg_allowed_sources target =
     (case target of
        CONSUMED \<Rightarrow> {VERIFIED}
      | RELEASED \<Rightarrow> {ISSUED, VERIFIED}
      | VOIDED \<Rightarrow> {ISSUED, VERIFIED}
      | _ \<Rightarrow> {})"

definition pg_terminal_transition ::
  "env \<Rightarrow> (nat \<Rightarrow> string) \<Rightarrow> string \<Rightarrow> receipt_status \<Rightarrow> string \<Rightarrow> string \<Rightarrow> pg_db \<Rightarrow>
     (store_error, pg_db) result" where
  "pg_terminal_transition E clock receipt_id target event_type reason db =
     (case load_row receipt_id db of
        None \<Rightarrow> Inl ReceiptNotFound
      | Some row \<Rightarrow>
          if rr_status row \<notin> pg_allowed_sources target then Inr db
          else pg_append_event E (clock 1) receipt_id event_type reason []
                 (release_reservation (clock 0) row target db))"

definition pg_consume :: "env \<Rightarrow> (nat \<Rightarrow> string) \<Rightarrow> string \<Rightarrow> pg_db \<Rightarrow> (store_error, pg_db) result" where
  "pg_consume E clock receipt_id db = pg_terminal_transition E clock receipt_id CONSUMED ''CONSUME'' [] db"

definition pg_release :: "env \<Rightarrow> (nat \<Rightarrow> string) \<Rightarrow> string \<Rightarrow> pg_db \<Rightarrow> (store_error, pg_db) result" where
  "pg_release E clock receipt_id db = pg_terminal_transition E clock receipt_id RELEASED ''RELEASE'' [] db"

definition pg_void ::
  "env \<Rightarrow> (nat \<Rightarrow> string) \<Rightarrow> string \<Rightarrow> string \<Rightarrow> pg_db \<Rightarrow> (store_error, pg_db) result" where
  "pg_void E clock receipt_id reason db = pg_terminal_transition E clock receipt_id VOIDED ''VOID'' reason db"

definition pg_record_attestation ::
  "env \<Rightarrow> (nat \<Rightarrow> string) \<Rightarrow> trust_args \<Rightarrow> attestation \<Rightarrow> pg_db \<Rightarrow> (store_error, string \<times> pg_db) result" where
  "pg_record_attestation E clock ta a db =
     rbind (check_attestation E ta a) (\<lambda>_.
     case load_row (at_receipt_id a) db of
       None \<Rightarrow> Inl ReceiptNotFound
     | Some row \<Rightarrow>
         if rr_status row \<noteq> VERIFIED then Inl AttestationRequiresVerified
         else if rr_binding_hash row \<noteq> at_receipt_binding_hash a then Inl AttestationBindingMismatch
         else
           rbind (insert_attestation
               \<lparr>tr_receipt_id = at_receipt_id a, tr_attestation_hash = attestation_hash E a,
                tr_payload = a, tr_created_at = clock 0\<rparr> db) (\<lambda>db1.
           rbind (pg_append_event E (clock 1) (at_receipt_id a) ''ATTEST'' []
               [(''attestation_hash'', JStr (attestation_hash E a))] db1) (\<lambda>db2.
           Inr (attestation_hash E a, db2))))"

text \<open>Reading the events back: an empty predecessor hash is read as none.\<close>

definition pg_events :: "string \<Rightarrow> pg_db \<Rightarrow> audit_event list" where
  "pg_events receipt_id db =
     map (\<lambda>e. e\<lparr>ev_previous_event_hash :=
                 (if truthy (ev_previous_event_hash e) then ev_previous_event_hash e else None)\<rparr>)
       (events receipt_id db)"

definition pg_verify_event_chain :: "env \<Rightarrow> string \<Rightarrow> pg_db \<Rightarrow> bool \<times> string" where
  "pg_verify_event_chain E receipt_id db =
     (if pg_events receipt_id db = [] then (False, ''Admission receipt has no audit events.'')
      else verify_events E 1 None (pg_events receipt_id db))"

subsection \<open>Calls on the store\<close>

fun pg_run_call :: "env \<Rightarrow> rat \<Rightarrow> timed_call \<Rightarrow> pg_db \<Rightarrow> (store_error, (bool \<times> string) \<times> pg_db) result" where
  "pg_run_call E B (clock, CIssue r) db = rbind (pg_issue E B clock r db) (\<lambda>(i, db'). Inr ((True, i), db'))"
| "pg_run_call E B (clock, CVerify ta rid actual ev now) db = pg_verify E clock ta rid actual ev now db"
| "pg_run_call E B (clock, CConsume rid) db = rbind (pg_consume E clock rid db) (\<lambda>db'. Inr ((True, []), db'))"
| "pg_run_call E B (clock, CRelease rid) db = rbind (pg_release E clock rid db) (\<lambda>db'. Inr ((True, []), db'))"
| "pg_run_call E B (clock, CVoid rid reason) db =
     rbind (pg_void E clock rid reason db) (\<lambda>db'. Inr ((True, []), db'))"
| "pg_run_call E B (clock, CAttest ta a) db =
     rbind (pg_record_attestation E clock ta a db) (\<lambda>(h, db'). Inr ((True, h), db'))"

definition pg_step :: "env \<Rightarrow> rat \<Rightarrow> timed_call \<Rightarrow> pg_db \<Rightarrow> pg_db" where
  "pg_step E B c db = (case pg_run_call E B c db of Inl _ \<Rightarrow> db | Inr (_, db') \<Rightarrow> db')"

definition pg_claims :: "env \<Rightarrow> rat \<Rightarrow> timed_call \<Rightarrow> pg_db \<Rightarrow> string \<Rightarrow> bool" where
  "pg_claims E B c db receipt_id =
     (case snd c of
        CVerify ta rid actual ev now \<Rightarrow>
          rid = receipt_id \<and> (case pg_run_call E B c db of Inr ((True, _), _) \<Rightarrow> True | _ \<Rightarrow> False)
      | _ \<Rightarrow> False)"

subsection \<open>How each call moves a status\<close>

lemma load_row_pools [simp]:
  "load_row x (update_pools p f db) = load_row x db"
  "load_row x (ensure_pool p b t db) = load_row x db"
  by (simp_all add: load_row_def update_pools_def ensure_pool_def split: option.splits)

lemma status_pools [simp]:
  "status x (update_pools p f db) = status x db"
  "status x (ensure_pool p b t db) = status x db"
  by (simp_all add: status_def)

lemma status_release_reservation:
  assumes "load_row rid db = Some row"
  shows "status x (release_reservation now row target db) = (if x = rid then Some target else status x db)"
  using assms load_row_id [OF assms] by (simp add: release_reservation_def Let_def status_update)

lemma pg_issue_new:
  assumes "pg_issue E B clock r db = Inr (i, db')" "load_row (ar_receipt_id r) db = None"
  obtains row db1 pool db2 where
    "db1 = ensure_pool (ar_resource_pool_id r) B (clock 0) db"
    "load_pool (ar_resource_pool_id r) db1 = Some pool"
    "ar_predicted_cost r + ar_uncertainty_margin r + ar_rollback_reserve r
       \<le> pl_budget pool - pl_reserved pool - pl_spent pool"
    "insert_receipt row db1 = Inr db2" "rr_receipt_id row = ar_receipt_id r" "rr_status row = ISSUED"
    "rr_reserved_cost row = numeric6 (ar_predicted_cost r + ar_uncertainty_margin r + ar_rollback_reserve r)"
    "rr_resource_pool_id row = ar_resource_pool_id r"
    "append_event E (clock 3) (ar_receipt_id r) ''ISSUE'' [] (stored_payload E r)
       (update_pools (ar_resource_pool_id r)
          (\<lambda>p. p\<lparr>pl_reserved := numeric6 (pl_reserved p +
                    (ar_predicted_cost r + ar_uncertainty_margin r + ar_rollback_reserve r)),
                 pl_updated_at := clock 2\<rparr>) db2) = Inr db'"
proof -
  let ?db1 = "ensure_pool (ar_resource_pool_id r) B (clock 0) db"
  let ?q = "ar_predicted_cost r + ar_uncertainty_margin r + ar_rollback_reserve r"
  let ?row = "\<lparr>rr_receipt_id = ar_receipt_id r, rr_tenant_id = ar_tenant_id r,
                       rr_binding_hash = binding_hash E r, rr_status = ISSUED,
                       rr_payload = persisted_payload r, rr_reserved_cost = numeric6 ?q,
                       rr_resource_pool_id = ar_resource_pool_id r, rr_created_at = clock 1,
                       rr_terminal_at = None\<rparr>"
  obtain pool where p: "load_pool (ar_resource_pool_id r) ?db1 = Some pool"
    using assms by (cases "load_pool (ar_resource_pool_id r) ?db1") (auto simp: pg_issue_def Let_def)
  let ?app = "\<lambda>db2. append_event E (clock 3) (ar_receipt_id r) ''ISSUE'' [] (stored_payload E r)
       (update_pools (ar_resource_pool_id r)
          (\<lambda>p. p\<lparr>pl_reserved := numeric6 (pl_reserved p + ?q), pl_updated_at := clock 2\<rparr>) db2)"
  have "(if ?q > pl_budget pool - pl_reserved pool - pl_spent pool then Inl PoolBudgetExceeded
      else rbind (insert_receipt ?row ?db1) (\<lambda>db2. rbind (?app db2) (\<lambda>db3. Inr (ar_receipt_id r, db3)))) =
      Inr (i, db')"
    using assms unfolding pg_issue_def pg_append_event_def Let_def p by (simp only: option.case)
  then have "?q \<le> pl_budget pool - pl_reserved pool - pl_spent pool"
    and "rbind (insert_receipt ?row ?db1) (\<lambda>db2. rbind (?app db2) (\<lambda>db3. Inr (ar_receipt_id r, db3))) = Inr (i, db')"
    by (simp_all only: not_less split: if_splits) simp_all
  then obtain db2 where "?q \<le> pl_budget pool - pl_reserved pool - pl_spent pool"
    "insert_receipt ?row ?db1 = Inr db2" "?app db2 = Inr db'"
    by (auto simp only: rbind_Inr_iff sum.inject prod.inject)
  then show ?thesis using p by (intro that [of ?db1 pool ?row db2]) simp_all
qed

lemma pg_issue_status:
  assumes "pg_issue E B clock r db = Inr (i, db')"
  shows "status x db' = status x db \<or>
    x = ar_receipt_id r \<and> status x db = None \<and> status x db' = Some ISSUED"
proof (cases "load_row (ar_receipt_id r) db")
  case None
  show ?thesis
  proof (rule pg_issue_new [OF assms None])
    fix row db1 pool db2
    assume "db1 = ensure_pool (ar_resource_pool_id r) B (clock 0) db"
      "insert_receipt row db1 = Inr db2" "rr_receipt_id row = ar_receipt_id r" "rr_status row = ISSUED"
      and app: "append_event E (clock 3) (ar_receipt_id r) ''ISSUE'' [] (stored_payload E r)
       (update_pools (ar_resource_pool_id r)
          (\<lambda>p. p\<lparr>pl_reserved := numeric6 (pl_reserved p +
                    (ar_predicted_cost r + ar_uncertainty_margin r + ar_rollback_reserve r)),
                 pl_updated_at := clock 2\<rparr>) db2) = Inr db'"
    then show ?thesis
      using None load_row_insert_receipt [of row db1 db2 x] append_event_load_row [OF app, of x]
      by (auto simp: status_def)
  qed
next
  case (Some row)
  then show ?thesis using assms by (auto simp: pg_issue_def Let_def split: if_splits)
qed

lemma pg_terminal_transition_status:
  assumes "pg_terminal_transition E clock rid target ty reason db = Inr db'"
  shows "status x db' = status x db \<or>
    x = rid \<and> (\<exists>s\<in>pg_allowed_sources target. status x db = Some s) \<and> status x db' = Some target"
proof (cases "load_row rid db")
  case None
  then show ?thesis using assms by (simp add: pg_terminal_transition_def)
next
  case (Some row)
  then have "status rid db = Some (rr_status row)" by (simp add: status_def)
  then show ?thesis using assms Some
    by (auto simp: pg_terminal_transition_def pg_append_event_def status_release_reservation split: if_splits
        dest!: append_event_status [where x = x])
qed

lemma pg_verify_found:
  assumes "pg_verify E clock ta rid actual ev now db = Inr ((b, m), db')" "load_row rid db = Some row"
  obtains r d where "receipt_from_row row = Inr r" "ar_status r = rr_status row"
    "evaluate_verification E ta actual ev now r = Inr d" "b \<longleftrightarrow> vd_reason d = []"
  using assms by (auto simp: pg_verify_def rbind_Inr_iff Let_def receipt_from_row_status
      split: sum.splits if_splits)

lemma pg_verify_status:
  assumes "pg_verify E clock ta rid actual ev now db = Inr ((b, m), db')"
  shows "(if b then status rid db = Some ISSUED \<and> status x db' = (if x = rid then Some VERIFIED else status x db)
          else status x db' = status x db \<or>
               x = rid \<and> status x db = Some ISSUED \<and> (status x db' = Some EXPIRED \<or> status x db' = Some VOIDED))"
proof (cases "load_row rid db")
  case None
  then show ?thesis using assms by (auto simp: pg_verify_def)
next
  case (Some row)
  then obtain r d where rd: "receipt_from_row row = Inr r" "ar_status r = rr_status row"
    "evaluate_verification E ta actual ev now r = Inr d" "b \<longleftrightarrow> vd_reason d = []"
    using assms pg_verify_found by blast
  have st: "status rid db = Some (rr_status row)" using Some by (simp add: status_def)
  show ?thesis
  proof (cases b)
    case True
    then have "rr_status row = ISSUED" using rd evaluate_issued by metis
    then show ?thesis using assms rd Some True st
      by (auto simp: pg_verify_def pg_append_event_def rbind_Inr_iff status_update
          dest!: append_event_status [where x = x])
  next
    case False
    then obtain db1 where app: "append_event E (clock 0) rid
          (if vd_signature_refusal d then ''SIGNATURE_REFUSAL'' else ''MISMATCH_REFUSAL'')
          (vd_reason d) [(''actual'', JObj actual)] db = Inr db1"
      using assms Some rd by (auto simp: pg_verify_def pg_append_event_def rbind_Inr_iff)
    have "load_row rid db1 = Some row" using append_event_load_row [OF app] Some by simp
    from status_release_reservation [OF this] show ?thesis
      using False assms rd Some st app append_event_status [OF app, of x]
      by (auto simp: pg_verify_def pg_append_event_def rbind_Inr_iff Let_def
          dest!: append_event_status [where x = x] split: if_splits)
  qed
qed

lemma pg_record_attestation_status:
  "pg_record_attestation E clock ta a db = Inr (h, db') \<Longrightarrow> status x db' = status x db"
  by (auto simp: pg_record_attestation_def pg_append_event_def rbind_Inr_iff status_def
      dest!: append_event_load_row [where x = x] load_row_insert_attestation [where x = x]
      split: option.splits if_splits)

lemmas pg_terminal_call_defs = pg_consume_def pg_release_def pg_void_def

lemma pg_step_moves:
  "status x (pg_step E B c db) = status x db \<or> moves (status x db) (status x (pg_step E B c db))"
  "pg_claims E B c db x \<longleftrightarrow> status x db = Some ISSUED \<and> status x (pg_step E B c db) = Some VERIFIED"
proof -
  have "(status x (pg_step E B c db) = status x db \<or> moves (status x db) (status x (pg_step E B c db))) \<and>
    (pg_claims E B c db x \<longleftrightarrow> status x db = Some ISSUED \<and> status x (pg_step E B c db) = Some VERIFIED)"
  proof (cases "pg_run_call E B c db")
    case (Inl e)
    then show ?thesis by (auto simp: pg_step_def pg_claims_def split: store_call.splits)
  next
    case (Inr p)
    obtain b m db' where p: "p = ((b, m), db')" by (metis surj_pair)
    have s: "pg_step E B c db = db'" using Inr p by (simp add: pg_step_def)
    show ?thesis using Inr unfolding s p
      by (cases "(E, B, c, db)" rule: pg_run_call.cases)
         (auto simp: rbind_Inr_iff pg_terminal_call_defs pg_allowed_sources_def pg_claims_def
           dest!: pg_issue_status [where x = x] pg_terminal_transition_status [where x = x]
             pg_verify_status [where x = x] pg_record_attestation_status [where x = x]
           split: if_splits bool.splits)
  qed
  then show "status x (pg_step E B c db) = status x db \<or> moves (status x db) (status x (pg_step E B c db))"
    "pg_claims E B c db x \<longleftrightarrow> status x db = Some ISSUED \<and> status x (pg_step E B c db) = Some VERIFIED"
    by blast+
qed

interpretation postgres: receipt_lifecycle "pg_step E B" status "pg_claims E B" for E B
  by unfold_locales (auto simp: pg_step_moves simp del: moves_simps)

subsection \<open>Pool accounting\<close>

text \<open>Amounts that a \<open>NUMERIC(18, 6)\<close> column holds without rounding.\<close>

definition micro :: "rat \<Rightarrow> bool" where
  "micro q \<longleftrightarrow> (\<exists>k :: int. q = of_int k / 1000000)"

lemma micro_add [intro]: "micro x \<Longrightarrow> micro y \<Longrightarrow> micro (x + y)"
  unfolding micro_def by (metis add_divide_distrib of_int_add)

lemma micro_diff [intro]: "micro x \<Longrightarrow> micro y \<Longrightarrow> micro (x - y)"
  unfolding micro_def by (metis diff_divide_distrib of_int_diff)

lemma micro_0 [simp, intro]: "micro 0"
  by (auto simp: micro_def intro: exI [of _ 0])

lemma micro_numeric6 [simp, intro]: "micro (numeric6 q)"
proof (cases "0 \<le> q")
  case False
  then have "numeric6 q = of_int (- \<lfloor>- q * 1000000 + 1 / 2\<rfloor>) / 1000000" by (simp add: numeric6_def)
  then show ?thesis unfolding micro_def ..
qed (auto simp: micro_def numeric6_def)

lemma numeric6_nonneg: "0 \<le> q \<Longrightarrow> 0 \<le> numeric6 q"
  by (simp add: numeric6_def)

lemma numeric6_add_micro:
  assumes "micro x" "0 \<le> x" "0 \<le> y"
  shows "numeric6 (x + y) = x + numeric6 y"
proof -
  obtain k where k: "x = of_int k / 1000000" using assms(1) by (auto simp: micro_def)
  then have "(x + y) * 1000000 + 1 / 2 = (y * 1000000 + 1 / 2) + of_int k" by (simp add: field_simps)
  then have "\<lfloor>(x + y) * 1000000 + 1 / 2\<rfloor> = \<lfloor>y * 1000000 + 1 / 2\<rfloor> + k" by (metis floor_add_int)
  then show ?thesis using assms k by (simp add: numeric6_def add_divide_distrib)
qed

lemma numeric6_le_micro:
  assumes "micro b" "0 \<le> y" "y \<le> b"
  shows "numeric6 y \<le> b"
proof -
  obtain k where k: "b = of_int k / 1000000" using assms(1) by (auto simp: micro_def)
  have "y * 1000000 + 1 / 2 < of_int (k + 1)" using assms k by (simp add: field_simps)
  then have "\<lfloor>y * 1000000 + 1 / 2\<rfloor> \<le> k" by (simp add: floor_le_iff)
  then show ?thesis using assms k by (simp add: numeric6_def divide_right_mono)
qed

definition live :: "receipt_status \<Rightarrow> bool" where
  "live s \<longleftrightarrow> s = ISSUED \<or> s = VERIFIED"

definition row_share :: "(receipt_status \<Rightarrow> bool) \<Rightarrow> string \<Rightarrow> receipt_row \<Rightarrow> rat" where
  "row_share P pool_id row =
     (if rr_resource_pool_id row = pool_id \<and> P (rr_status row) then rr_reserved_cost row else 0)"

definition pool_sum :: "(receipt_status \<Rightarrow> bool) \<Rightarrow> string \<Rightarrow> receipt_row list \<Rightarrow> rat" where
  "pool_sum P pool_id rows = (\<Sum>row\<leftarrow>rows. row_share P pool_id row)"

text \<open>
  The accounting of the pools: the reserved amount is what the receipts that are ISSUED or
  VERIFIED hold, the spent amount is what the CONSUMED ones held, and both fit the budget.
\<close>

definition pools_ok :: "pg_db \<Rightarrow> bool" where
  "pools_ok db \<longleftrightarrow>
     distinct (map rr_receipt_id (db_receipts db)) \<and> distinct (map pl_pool_id (db_pools db)) \<and>
     (\<forall>row\<in>set (db_receipts db). 0 \<le> rr_reserved_cost row \<and> micro (rr_reserved_cost row) \<and>
        rr_resource_pool_id row \<in> pl_pool_id ` set (db_pools db)) \<and>
     (\<forall>p\<in>set (db_pools db). micro (pl_budget p) \<and>
        pl_reserved p = pool_sum live (pl_pool_id p) (db_receipts db) \<and>
        pl_spent p = pool_sum ((=) CONSUMED) (pl_pool_id p) (db_receipts db) \<and>
        pl_reserved p + pl_spent p \<le> pl_budget p)"

lemma pool_sum_append [simp]: "pool_sum P i (rows @ [r]) = pool_sum P i rows + row_share P i r"
  by (simp add: pool_sum_def)

lemma pool_sum_props:
  assumes "\<forall>row\<in>set rows. 0 \<le> rr_reserved_cost row \<and> micro (rr_reserved_cost row)"
  shows "0 \<le> pool_sum P i rows" "micro (pool_sum P i rows)"
  using assms by (induction rows) (auto simp: pool_sum_def row_share_def)

lemma pool_sum_no_rows: "\<forall>row\<in>set rows. rr_resource_pool_id row \<noteq> i \<Longrightarrow> pool_sum P i rows = 0"
  by (induction rows) (auto simp: pool_sum_def row_share_def)

lemma pool_sum_update:
  assumes "distinct (map rr_receipt_id rows)" "row \<in> set rows"
  shows "pool_sum P i (update_where rr_receipt_id (rr_receipt_id row) f rows) =
    pool_sum P i rows - row_share P i row + row_share P i (f row)"
  using assms unfolding update_where_def
proof (induction rows)
  case (Cons a rows)
  show ?case
  proof (cases "a = row")
    case True
    then have "rr_receipt_id x \<noteq> rr_receipt_id row" if "x \<in> set rows" for x
      using Cons.prems(1) that by (auto simp: image_iff)
    then have "map (\<lambda>r. if rr_receipt_id r = rr_receipt_id row then f r else r) rows = rows"
      by (intro map_idI) simp
    with True show ?thesis by (simp add: pool_sum_def)
  next
    case False
    then have "row \<in> set rows" "rr_receipt_id a \<noteq> rr_receipt_id row" using Cons.prems by auto
    then show ?thesis using Cons by (simp add: pool_sum_def)
  qed
qed simp

lemma load_row_mem: "load_row rid db = Some row \<Longrightarrow> row \<in> set (db_receipts db)"
  by (auto simp: load_row_def dest: find_Some_mem)

text \<open>A share that stays below its pool's sum.\<close>

lemma row_share_le:
  assumes "\<forall>row\<in>set rows. 0 \<le> rr_reserved_cost row" "row \<in> set rows"
  shows "row_share P i row \<le> pool_sum P i rows"
proof -
  have "row_share P i row \<in> set (map (row_share P i) rows)" using assms(2) by simp
  moreover have "\<forall>x\<in>set (map (row_share P i) rows). 0 \<le> x" using assms(1) by (auto simp: row_share_def)
  ultimately show ?thesis unfolding pool_sum_def by (metis member_le_sum_list)
qed

definition pool_balanced :: "receipt_row list \<Rightarrow> pool_row \<Rightarrow> bool" where
  "pool_balanced rows p \<longleftrightarrow> micro (pl_budget p) \<and>
     pl_reserved p = pool_sum live (pl_pool_id p) rows \<and>
     pl_spent p = pool_sum ((=) CONSUMED) (pl_pool_id p) rows \<and>
     pl_reserved p + pl_spent p \<le> pl_budget p"

lemma pools_ok_iff:
  "pools_ok db \<longleftrightarrow>
     distinct (map rr_receipt_id (db_receipts db)) \<and> distinct (map pl_pool_id (db_pools db)) \<and>
     (\<forall>row\<in>set (db_receipts db). 0 \<le> rr_reserved_cost row \<and> micro (rr_reserved_cost row) \<and>
        rr_resource_pool_id row \<in> set (map pl_pool_id (db_pools db))) \<and>
     (\<forall>p\<in>set (db_pools db). pool_balanced (db_receipts db) p)"
  by (simp add: pools_ok_def pool_balanced_def)

lemma pools_okI:
  assumes "distinct (map rr_receipt_id (db_receipts db))" "distinct (map pl_pool_id (db_pools db))"
    and "\<And>r. r \<in> set (db_receipts db) \<Longrightarrow> 0 \<le> rr_reserved_cost r \<and> micro (rr_reserved_cost r) \<and>
        rr_resource_pool_id r \<in> set (map pl_pool_id (db_pools db))"
    and "\<And>p. p \<in> set (db_pools db) \<Longrightarrow> pool_balanced (db_receipts db) p"
  shows "pools_ok db"
  using assms by (simp add: pools_ok_iff)

text \<open>A status change of one row that keeps its amount, together with a change of the pools.\<close>

lemma update_row_pools_ok:
  assumes ok: "pools_ok db" and row: "load_row rid db = Some row"
    and f: "\<And>x. rr_receipt_id (f x) = rr_receipt_id x" "\<And>x. rr_reserved_cost (f x) = rr_reserved_cost x"
      "\<And>x. rr_resource_pool_id (f x) = rr_resource_pool_id x"
    and tables: "db_receipts db' = update_where rr_receipt_id rid f (db_receipts db)"
      "map pl_pool_id (db_pools db') = map pl_pool_id (db_pools db)"
    and bal: "\<And>p. p \<in> set (db_pools db') \<Longrightarrow> pool_balanced (db_receipts db') p"
  shows "pools_ok db'"
proof (rule pools_okI)
  have ids: "map rr_receipt_id (db_receipts db') = map rr_receipt_id (db_receipts db)"
    using f(1) tables(1) by (simp add: map_key_update_where)
  then show "distinct (map rr_receipt_id (db_receipts db'))" using ok by (simp add: pools_ok_iff)
  show "distinct (map pl_pool_id (db_pools db'))" using ok tables(2) by (simp add: pools_ok_iff)
  fix r
  assume "r \<in> set (db_receipts db')"
  then obtain x where "x \<in> set (db_receipts db)" "r = (if rr_receipt_id x = rid then f x else x)"
    using tables(1) by (auto simp: set_update_where)
  then show "0 \<le> rr_reserved_cost r \<and> micro (rr_reserved_cost r) \<and>
        rr_resource_pool_id r \<in> set (map pl_pool_id (db_pools db'))"
    unfolding tables(2) using ok f by (cases "rr_receipt_id x = rid") (simp_all add: pools_ok_iff)
qed (rule bal)

lemma release_reservation_pools:
  assumes ok: "pools_ok db" and row: "load_row rid db = Some row" and l: "live (rr_status row)" and t: "\<not> live target"
  shows "pools_ok (release_reservation now row target db)"
proof -
  let ?c = "rr_reserved_cost row" and ?i = "rr_resource_pool_id row"
  let ?s = "if target = CONSUMED then ?c else 0"
  let ?f = "\<lambda>x. x\<lparr>rr_status := target, rr_terminal_at := Some now\<rparr>"
  let ?rows = "update_where rr_receipt_id rid ?f (db_receipts db)"
  let ?g = "\<lambda>p. p\<lparr>pl_reserved := max 0 (pl_reserved p - ?c), pl_spent := pl_spent p + ?s, pl_updated_at := now\<rparr>"
  let ?db' = "release_reservation now row target db"
  have rid: "rr_receipt_id row = rid" and m: "row \<in> set (db_receipts db)"
    using row load_row_id load_row_mem by blast+
  have d: "distinct (map rr_receipt_id (db_receipts db))"
    and rows: "\<forall>r\<in>set (db_receipts db). 0 \<le> rr_reserved_cost r"
    using ok by (simp_all add: pools_ok_def)
  have live': "pool_sum live i ?rows = pool_sum live i (db_receipts db) - (if i = ?i then ?c else 0)" for i
    using pool_sum_update [OF d m, of live i ?f] l t rid by (auto simp: row_share_def)
  have spent': "pool_sum ((=) CONSUMED) i ?rows = pool_sum ((=) CONSUMED) i (db_receipts db) +
      (if i = ?i then ?s else 0)" for i
    using pool_sum_update [OF d m, of "(=) CONSUMED" i ?f] l rid by (auto simp: row_share_def live_def)
  have c: "?c \<le> pool_sum live ?i (db_receipts db)" "0 \<le> ?c"
    using row_share_le [of "db_receipts db" row live ?i] rows m l by (simp_all add: row_share_def)
  have tab: "db_receipts ?db' = ?rows" "db_pools ?db' = update_where pl_pool_id ?i ?g (db_pools db)"
    using rid by (simp_all add: release_reservation_def update_pools_def Let_def)
  have bal: "pool_balanced ?rows (if pl_pool_id p = ?i then ?g p else p)" if "p \<in> set (db_pools db)" for p
  proof -
    have "pool_balanced (db_receipts db) p" using ok that by (simp add: pools_ok_iff)
    then show ?thesis using c live' [of "pl_pool_id p"] spent' [of "pl_pool_id p"] by (auto simp: pool_balanced_def)
  qed
  show ?thesis
  proof (rule update_row_pools_ok [OF ok row, of ?f])
    show "map pl_pool_id (db_pools ?db') = map pl_pool_id (db_pools db)"
      unfolding tab by (rule map_key_update_where) simp
    fix p
    assume "p \<in> set (db_pools ?db')"
    then show "pool_balanced (db_receipts ?db') p" unfolding tab set_update_where using bal by blast
  qed (simp_all add: tab)
qed

lemma append_event_pools:
  "append_event E t rid ty rs d db = Inr db' \<Longrightarrow> pools_ok db' = pools_ok db"
  by (auto simp: append_event_def insert_event_def Let_def pools_ok_def split: if_splits)

lemma load_pool_mem: "load_pool i db = Some p \<Longrightarrow> p \<in> set (db_pools db) \<and> pl_pool_id p = i"
  by (auto simp: load_pool_def dest: find_Some_mem)

lemma ensure_pool_ok:
  assumes "pools_ok db" "0 < B"
  shows "pools_ok (ensure_pool i B t db)"
proof (cases "load_pool i db")
  case None
  then have "i \<notin> set (map pl_pool_id (db_pools db))" by (auto simp: load_pool_def find_None_iff)
  then have "pool_sum P i (db_receipts db) = 0" for P
    using assms(1) by (intro pool_sum_no_rows) (auto simp: pools_ok_iff)
  then show ?thesis using None assms numeric6_nonneg [of B] \<open>i \<notin> _\<close>
    by (auto simp: pools_ok_iff ensure_pool_def pool_balanced_def)
qed (simp add: ensure_pool_def assms)

lemma reserve_pool_ok:
  assumes ok: "pools_ok db1" and pool: "load_pool i db1 = Some pool"
    and q: "0 \<le> q" "q \<le> pl_budget pool - pl_reserved pool - pl_spent pool"
    and ins: "insert_receipt row db1 = Inr db2" and row: "rr_reserved_cost row = numeric6 q"
      "rr_resource_pool_id row = i" "rr_status row = ISSUED"
  shows "pools_ok (update_pools i (\<lambda>p. p\<lparr>pl_reserved := numeric6 (pl_reserved p + q), pl_updated_at := t\<rparr>) db2)"
proof -
  let ?g = "\<lambda>p. p\<lparr>pl_reserved := numeric6 (pl_reserved p + q), pl_updated_at := t\<rparr>"
  let ?pools = "update_where pl_pool_id i ?g (db_pools db1)"
  have db2: "db2 = db1\<lparr>db_receipts := db_receipts db1 @ [row]\<rparr>"
    and new: "\<forall>x\<in>set (db_receipts db1). rr_receipt_id x \<noteq> rr_receipt_id row"
    using ins by (auto simp: insert_receipt_def split: if_splits)
  have db': "update_pools i ?g db2 = db1\<lparr>db_receipts := db_receipts db1 @ [row], db_pools := ?pools\<rparr>"
    by (simp add: update_pools_def db2)
  have ids: "map pl_pool_id ?pools = map pl_pool_id (db_pools db1)"
    by (rule map_key_update_where) simp
  have rows: "\<forall>r\<in>set (db_receipts db1). 0 \<le> rr_reserved_cost r \<and> micro (rr_reserved_cost r)"
    using ok by (simp add: pools_ok_iff)
  have sh: "row_share live j row = (if j = i then numeric6 q else 0)" "row_share ((=) CONSUMED) j row = 0" for j
    using row by (auto simp: row_share_def live_def)
  have bal: "pool_balanced (db_receipts db1 @ [row]) (if pl_pool_id p = i then ?g p else p)"
    if p: "p \<in> set (db_pools db1)" for p
  proof -
    have b: "pool_balanced (db_receipts db1) p" using ok p by (simp add: pools_ok_iff)
    show ?thesis
    proof (cases "pl_pool_id p = i")
      case False
      then show ?thesis using b sh by (simp add: pool_balanced_def)
    next
      case True
      then have "p = pool" using load_pool_mem [OF pool] p ok by (auto simp: pools_ok_iff distinct_map inj_on_def)
      have m: "micro (pl_reserved p)" "0 \<le> pl_reserved p" "micro (pl_spent p)"
        using b rows pool_sum_props [of "db_receipts db1"] by (auto simp: pool_balanced_def)
      have "numeric6 q \<le> pl_budget p - pl_reserved p - pl_spent p"
        using m b q \<open>p = pool\<close> by (intro numeric6_le_micro) (auto simp: pool_balanced_def)
      then show ?thesis
        using True b sh m numeric6_add_micro [OF m(1,2) q(1)] by (simp add: pool_balanced_def)
    qed
  qed
  have "i \<in> set (map pl_pool_id (db_pools db1))" using load_pool_mem [OF pool] by auto
  with ids have "i \<in> set (map pl_pool_id ?pools)" by (simp only:)
  moreover have "distinct (map pl_pool_id ?pools)" unfolding ids using ok by (simp add: pools_ok_iff)
  moreover have "pool_balanced (db_receipts db1 @ [row]) p" if "p \<in> set ?pools" for p
    using that bal unfolding set_update_where by blast
  moreover have "rr_resource_pool_id r \<in> set (map pl_pool_id ?pools)" if "r \<in> set (db_receipts db1)" for r
    unfolding ids using ok that by (simp add: pools_ok_iff)
  ultimately show ?thesis using ok new row rows numeric6_nonneg [OF q(1)] unfolding db'
    by (intro pools_okI) (auto simp: pools_ok_iff)
qed

lemma pg_issue_pools:
  assumes "pg_issue E B clock r db = Inr (i, db')" "pools_ok db" "0 < B" "validate_numbers r"
  shows "pools_ok db'"
proof (cases "load_row (ar_receipt_id r) db")
  case (Some row)
  then show ?thesis using assms by (auto simp: pg_issue_def Let_def split: if_splits)
next
  case None
  let ?q = "ar_predicted_cost r + ar_uncertainty_margin r + ar_rollback_reserve r"
  have q: "0 \<le> ?q" using assms(4) by (simp add: validate_numbers_def)
  show ?thesis
  proof (rule pg_issue_new [OF assms(1) None])
    fix row db1 pool db2
    assume a: "db1 = ensure_pool (ar_resource_pool_id r) B (clock 0) db"
      "load_pool (ar_resource_pool_id r) db1 = Some pool" "?q \<le> pl_budget pool - pl_reserved pool - pl_spent pool"
      "insert_receipt row db1 = Inr db2" "rr_status row = ISSUED" "rr_reserved_cost row = numeric6 ?q"
      "rr_resource_pool_id row = ar_resource_pool_id r"
      and app: "append_event E (clock 3) (ar_receipt_id r) ''ISSUE'' [] (stored_payload E r)
       (update_pools (ar_resource_pool_id r)
          (\<lambda>p. p\<lparr>pl_reserved := numeric6 (pl_reserved p + ?q), pl_updated_at := clock 2\<rparr>) db2) = Inr db'"
    have "pools_ok db1" using ensure_pool_ok [OF assms(2,3)] a(1) by simp
    from reserve_pool_ok [OF this a(2) q a(3,4,6,7,5)] show ?thesis
      using append_event_pools [OF app] by simp
  qed
qed

lemma pg_terminal_transition_pools:
  assumes "pg_terminal_transition E clock rid target ty reason db = Inr db'" "pools_ok db"
    and "target \<in> {CONSUMED, RELEASED, VOIDED}"
  shows "pools_ok db'"
proof (cases "load_row rid db")
  case None
  then show ?thesis using assms by (simp add: pg_terminal_transition_def)
next
  case (Some row)
  have "live (rr_status row)" "\<not> live target" if "rr_status row \<in> pg_allowed_sources target"
    using that assms(3) by (auto simp: pg_allowed_sources_def live_def)
  with Some show ?thesis using assms release_reservation_pools [OF assms(2) Some]
    by (auto simp: pg_terminal_transition_def pg_append_event_def append_event_pools split: if_splits)
qed

lemma mark_verified_pools:
  assumes ok: "pools_ok db" and row: "load_row rid db = Some row" and st: "rr_status row = ISSUED"
  shows "pools_ok (update_rows rid (\<lambda>x. x\<lparr>rr_status := VERIFIED\<rparr>) db)"
proof (rule update_row_pools_ok [OF ok row, of "\<lambda>x. x\<lparr>rr_status := VERIFIED\<rparr>"])
  let ?f = "\<lambda>x. x\<lparr>rr_status := VERIFIED\<rparr>"
  let ?rows = "update_where rr_receipt_id rid ?f (db_receipts db)"
  fix p
  assume p: "p \<in> set (db_pools (update_rows rid ?f db))"
  have d: "distinct (map rr_receipt_id (db_receipts db))" using ok by (simp add: pools_ok_iff)
  have "pool_sum live i ?rows = pool_sum live i (db_receipts db)"
    "pool_sum ((=) CONSUMED) i ?rows = pool_sum ((=) CONSUMED) i (db_receipts db)" for i
    using pool_sum_update [OF d load_row_mem [OF row], of _ i ?f] st load_row_id [OF row]
    by (auto simp: row_share_def live_def)
  moreover have "pool_balanced (db_receipts db) p" using ok p by (simp add: pools_ok_iff)
  ultimately show "pool_balanced (db_receipts (update_rows rid ?f db)) p"
    by (simp add: pool_balanced_def)
qed simp_all

lemma pg_verify_pools:
  assumes "pg_verify E clock ta rid actual ev now db = Inr ((b, m), db')" "pools_ok db"
  shows "pools_ok db'"
proof (cases "load_row rid db")
  case None
  then show ?thesis using assms by (simp add: pg_verify_def)
next
  case (Some row)
  then obtain r d where rd: "receipt_from_row row = Inr r" "ar_status r = rr_status row"
    "evaluate_verification E ta actual ev now r = Inr d" "b \<longleftrightarrow> vd_reason d = []"
    using assms pg_verify_found by blast
  show ?thesis
  proof (cases b)
    case True
    then have "rr_status row = ISSUED" using rd evaluate_issued by metis
    from mark_verified_pools [OF assms(2) Some this] show ?thesis using assms(1) rd Some True
      by (auto simp: pg_verify_def pg_append_event_def rbind_Inr_iff append_event_pools)
  next
    case False
    then obtain db1 where app: "append_event E (clock 0) rid
          (if vd_signature_refusal d then ''SIGNATURE_REFUSAL'' else ''MISMATCH_REFUSAL'')
          (vd_reason d) [(''actual'', JObj actual)] db = Inr db1"
      using assms(1) Some rd by (auto simp: pg_verify_def pg_append_event_def rbind_Inr_iff)
    have "load_row rid db1 = Some row" "pools_ok db1"
      using append_event_load_row [OF app] append_event_pools [OF app] Some assms(2) by simp_all
    note rel = release_reservation_pools [OF this(2,1)]
    show ?thesis using False assms(1) rd Some app \<open>pools_ok db1\<close> rel
      by (auto simp: pg_verify_def pg_append_event_def rbind_Inr_iff append_event_pools live_def split: if_splits)
  qed
qed

lemma insert_attestation_pools: "insert_attestation row db = Inr db' \<Longrightarrow> pools_ok db' = pools_ok db"
  by (auto simp: insert_attestation_def pools_ok_def split: if_splits)

lemma pg_record_attestation_pools:
  assumes "pg_record_attestation E clock ta a db = Inr (h, db')" "pools_ok db"
  shows "pools_ok db'"
proof -
  obtain row db1 t d where "insert_attestation row db = Inr db1"
    "append_event E t (at_receipt_id a) ''ATTEST'' [] d db1 = Inr db'"
    using assms(1)
    by (auto simp: pg_record_attestation_def pg_append_event_def rbind_Inr_iff split: option.splits if_splits)
  then show ?thesis using assms(2) insert_attestation_pools append_event_pools by blast
qed

text \<open>Receipts reach the store from the constructor, which refuses negative amounts.\<close>

fun call_valid :: "timed_call \<Rightarrow> bool" where
  "call_valid (clock, CIssue r) = validate_numbers r"
| "call_valid (clock, c) = True"

lemma pg_step_pools: "pools_ok db \<Longrightarrow> 0 < B \<Longrightarrow> call_valid c \<Longrightarrow> pools_ok (pg_step E B c db)"
proof (cases "pg_run_call E B c db")
  case (Inr p)
  assume a: "pools_ok db" "0 < B" "call_valid c"
  obtain b m db' where p: "p = ((b, m), db')" by (metis surj_pair)
  have s: "pg_step E B c db = db'" using Inr p by (simp add: pg_step_def)
  show ?thesis using Inr a unfolding s p
    by (cases "(E, B, c, db)" rule: pg_run_call.cases)
       (auto simp: rbind_Inr_iff pg_terminal_call_defs
         dest: pg_issue_pools pg_verify_pools pg_record_attestation_pools pg_terminal_transition_pools)
qed (simp add: pg_step_def)

lemma pg_run_pools:
  "pools_ok db \<Longrightarrow> 0 < B \<Longrightarrow> list_all call_valid cs \<Longrightarrow> pools_ok (fold (pg_step E B) cs db)"
  by (induction cs arbitrary: db) (auto simp: pg_step_pools)

lemma empty_pg_pools: "pools_ok empty_pg"
  by (simp add: pools_ok_def empty_pg_def)

text \<open>
  C2. Distributed budget safety: whatever the interleaving of calls from API and worker
  processes, with receipts whose amounts are not negative, every shared pool satisfies
  reserved plus spent at most its budget; the reserved amount is exactly the sum held by the
  pool's ISSUED and VERIFIED receipts and the spent amount the sum of its CONSUMED ones, so
  the clamp \<open>GREATEST(0, ...)\<close> never hides a lost update and rounding to six decimals loses
  nothing.
\<close>

theorem pools_never_overcommitted:
  assumes "0 < B" "list_all call_valid cs" "p \<in> set (db_pools (fold (pg_step E B) cs empty_pg))"
  shows "pl_reserved p + pl_spent p \<le> pl_budget p \<and>
    pl_reserved p = pool_sum live (pl_pool_id p) (db_receipts (fold (pg_step E B) cs empty_pg)) \<and>
    pl_spent p = pool_sum ((=) CONSUMED) (pl_pool_id p) (db_receipts (fold (pg_step E B) cs empty_pg))"
  using pg_run_pools [OF empty_pg_pools assms(1,2), of E] assms(3) unfolding pools_ok_def by blast

text \<open>
  Single use across processes: in the distributed store a receipt is claimed by at most
  one successful \<open>verify\<close>, exactly one if it is VERIFIED or CONSUMED, and terminal statuses
  are final.
\<close>

theorem pg_receipt_single_use:
  "claim_count (pg_step E B) (pg_claims E B) rid cs empty_pg \<le> 1 \<and>
    (status rid (fold (pg_step E B) cs empty_pg) \<in> {Some VERIFIED, Some CONSUMED} \<longrightarrow>
       claim_count (pg_step E B) (pg_claims E B) rid cs empty_pg = 1) \<and>
    (\<forall>s cs'. status rid (fold (pg_step E B) cs empty_pg) = Some s \<and> terminal_status s \<longrightarrow>
       status rid (fold (pg_step E B) (cs @ cs') empty_pg) = Some s)"
proof -
  have "status rid empty_pg = None" by (simp add: status_def load_row_def empty_pg_def)
  from postgres.single_claim [OF this] postgres.terminal_absorbing [of rid "fold (pg_step E B) cs empty_pg"]
  show ?thesis by auto
qed

lemmas pg_demo_defs =
  demo_defs pg_step_def pg_claims_def empty_pg_def pg_issue_def pg_verify_def pg_terminal_call_defs
  pg_terminal_transition_def pg_append_event_def pg_allowed_sources_def release_reservation_def
  ensure_pool_def load_pool_def update_pools_def update_where_def

lemma demo_receipt_amounts [simp]:
  "ar_predicted_cost demo_receipt = 3" "ar_uncertainty_margin demo_receipt = 1"
  "ar_rollback_reserve demo_receipt = 1" "ar_resource_pool_id demo_receipt = ''pool''"
  by (simp_all add: demo_receipt_def)

lemma numeric6_examples [simp]: "numeric6 5 = 5" "numeric6 8 = 8"
  by (simp_all add: numeric6_def floor_eq_iff)

lemma pg_demo_run:
  "status ''r1'' (fold (pg_step receipt_env 8) demo_calls empty_pg) = Some CONSUMED"
  "\<exists>p\<in>set (db_pools (fold (pg_step receipt_env 8) demo_calls empty_pg)).
     pl_pool_id p = ''pool'' \<and> pl_budget p = 8 \<and> pl_spent p = 5"
  by (simp_all add: pg_demo_defs demo_evaluation demo_row Let_def)

theorem pools_never_overcommitted_witness:
  "\<exists>p\<in>set (db_pools (fold (pg_step receipt_env 8) demo_calls empty_pg)).
     pl_spent p = 5 \<and> pl_reserved p + pl_spent p \<le> 8"
proof -
  have v: "list_all call_valid demo_calls"
    by (simp add: demo_calls_def validate_numbers_def)
  obtain p where p: "p \<in> set (db_pools (fold (pg_step receipt_env 8) demo_calls empty_pg))"
    "pl_budget p = 8" "pl_spent p = 5"
    using pg_demo_run(2) by blast
  from pools_never_overcommitted [OF _ v p(1)] p show ?thesis by (intro bexI [OF _ p(1)]) auto
qed

theorem pg_receipt_single_use_witness:
  "claim_count (pg_step receipt_env 8) (pg_claims receipt_env 8) ''r1'' demo_calls empty_pg = 1 \<and>
   status ''r1'' (fold (pg_step receipt_env 8) (demo_calls @ demo_calls) empty_pg) = Some CONSUMED"
  using pg_receipt_single_use [of receipt_env 8 "''r1''" demo_calls] pg_demo_run(1)
  by (auto simp: terminal_status_def)

subsection \<open>The audit trail of the distributed store\<close>

lemma raw_events_pools [simp]:
  "raw_events x (update_pools p f db) = raw_events x db"
  "raw_events x (ensure_pool p b t db) = raw_events x db"
  by (simp_all add: raw_events_def update_pools_def ensure_pool_def split: option.splits)

lemma chains_ok_pools [simp]:
  "chains_ok E (update_pools p f db) = chains_ok E db"
  "chains_ok E (ensure_pool p b t db) = chains_ok E db"
  by (simp_all add: chains_ok_def)

lemma release_event_inv:
  assumes app: "append_event E t rid ty rs d (release_reservation now row target db) = Inr db'"
    and inv: "store_inv E db" and row: "load_row rid db = Some row"
    and ty: "\<forall>st. audit_step ty st = Some target"
  shows "store_inv E db'"
proof -
  have c: "chains_ok E (release_reservation now row target db)"
    and raw: "raw_events x (release_reservation now row target db) = raw_events x db" for x
    using inv by (simp_all add: store_inv_def release_reservation_def Let_def)
  have "audit_status (raw_events x db') = status x db'" for x
    using append_event_audit(2) [OF app c, of x] append_event_status [OF app, of x] raw
      status_release_reservation [OF row, of x] inv ty
    by (auto simp: store_inv_def)
  then show ?thesis using append_event_audit(1) [OF app c] by (simp add: store_inv_def)
qed

lemma pg_issue_inv:
  assumes "pg_issue E B clock r db = Inr (i, db')" "store_inv E db"
  shows "store_inv E db'"
proof (cases "load_row (ar_receipt_id r) db")
  case (Some row)
  then show ?thesis using assms by (auto simp: pg_issue_def Let_def split: if_splits)
next
  case None
  show ?thesis
  proof (rule pg_issue_new [OF assms(1) None])
    fix row db1 pool db2
    assume a: "db1 = ensure_pool (ar_resource_pool_id r) B (clock 0) db"
      "insert_receipt row db1 = Inr db2" "rr_receipt_id row = ar_receipt_id r" "rr_status row = ISSUED"
      and app: "append_event E (clock 3) (ar_receipt_id r) ''ISSUE'' [] (stored_payload E r)
       (update_pools (ar_resource_pool_id r)
          (\<lambda>p. p\<lparr>pl_reserved := numeric6 (pl_reserved p +
                    (ar_predicted_cost r + ar_uncertainty_margin r + ar_rollback_reserve r)),
                 pl_updated_at := clock 2\<rparr>) db2) = Inr db'" (is "append_event _ _ _ _ _ _ ?u = _")
    have c: "chains_ok E ?u" using assms(2) a chains_ok_insert(1) [OF a(2), of E] by (simp add: store_inv_def)
    have "audit_status (raw_events x db') = status x db'" for x
      using append_event_audit(2) [OF app c, of x] append_event_load_row [OF app, of x]
        load_row_insert_receipt [OF a(2), of x] raw_events_insert(1) [OF a(2), of x] assms(2) a
      by (auto simp: store_inv_def status_def audit_step_def)
    then show ?thesis using append_event_audit(1) [OF app c] by (simp add: store_inv_def)
  qed
qed

lemma pg_terminal_transition_inv:
  assumes "pg_terminal_transition E clock rid target ty reason db = Inr db'" "store_inv E db"
    and "\<forall>st. audit_step ty st = Some target"
  shows "store_inv E db'"
  using assms
  by (auto simp: pg_terminal_transition_def pg_append_event_def split: option.splits if_splits
      elim: release_event_inv)

lemma pg_verify_inv:
  assumes "pg_verify E clock ta rid actual ev now db = Inr ((b, m), db')" "store_inv E db"
  shows "store_inv E db'"
proof (cases "load_row rid db")
  case None
  then show ?thesis using assms by (simp add: pg_verify_def)
next
  case (Some row)
  then obtain r d where rd: "receipt_from_row row = Inr r"
    "evaluate_verification E ta actual ev now r = Inr d" "b \<longleftrightarrow> vd_reason d = []"
    using assms pg_verify_found by blast
  show ?thesis
  proof (cases b)
    case True
    then show ?thesis using assms Some rd
      by (auto simp: pg_verify_def pg_append_event_def rbind_Inr_iff audit_step_def elim!: update_event_inv)
  next
    case False
    then obtain db1 where app: "append_event E (clock 0) rid
          (if vd_signature_refusal d then ''SIGNATURE_REFUSAL'' else ''MISMATCH_REFUSAL'')
          (vd_reason d) [(''actual'', JObj actual)] db = Inr db1"
      using assms(1) Some rd by (auto simp: pg_verify_def pg_append_event_def rbind_Inr_iff)
    have inv1: "store_inv E db1" using append_neutral_inv [OF app assms(2)] by (simp add: audit_step_def)
    have "load_row rid db1 = Some row" using append_event_load_row [OF app] Some by simp
    then show ?thesis using assms(1) Some rd False app inv1
      by (auto simp: pg_verify_def pg_append_event_def rbind_Inr_iff audit_step_def split: if_splits
          elim: release_event_inv)
  qed
qed

lemma pg_record_attestation_inv:
  assumes "pg_record_attestation E clock ta a db = Inr (h, db')" "store_inv E db"
  shows "store_inv E db'"
proof -
  obtain row db1 t d where ins: "insert_attestation row db = Inr db1"
    and app: "append_event E t (at_receipt_id a) ''ATTEST'' [] d db1 = Inr db'"
    using assms(1)
    by (auto simp: pg_record_attestation_def pg_append_event_def rbind_Inr_iff split: option.splits if_splits)
  have "store_inv E db1"
    using assms(2) raw_events_insert(2) [OF ins] load_row_insert_attestation [OF ins]
    by (simp add: store_inv_def chains_ok_def status_def)
  then show ?thesis using append_neutral_inv [OF app] by (simp add: audit_step_def)
qed

lemma pg_step_inv: "store_inv E db \<Longrightarrow> store_inv E (pg_step E B c db)"
proof (cases "pg_run_call E B c db")
  case (Inr p)
  assume inv: "store_inv E db"
  obtain b m db' where p: "p = ((b, m), db')" by (metis surj_pair)
  have s: "pg_step E B c db = db'" using Inr p by (simp add: pg_step_def)
  show ?thesis using Inr inv unfolding s p
    by (cases "(E, B, c, db)" rule: pg_run_call.cases)
       (auto simp: rbind_Inr_iff pg_terminal_call_defs audit_step_def
         elim: pg_issue_inv pg_verify_inv pg_record_attestation_inv elim!: pg_terminal_transition_inv)
qed (simp add: pg_step_def)

lemma pg_run_inv: "store_inv E (fold (pg_step E B) cs empty_pg)"
proof (induction cs rule: rev_induct)
  case Nil
  show ?case by (simp add: store_inv_def chains_ok_def chain_ok_def raw_events_def empty_pg_def
      audit_status_def status_def load_row_def)
qed (simp add: pg_step_inv)

lemma pg_events_same:
  assumes "\<forall>m. sha256 E m \<noteq> []" "store_inv E db"
  shows "pg_events rid db = events rid db"
proof -
  have c: "chain_ok E (raw_events rid db)" using assms(2) by (simp add: store_inv_def chains_ok_def)
  have tr: "truthy (ev_previous_event_hash e)" if e: "e \<in> set (raw_events rid db)" "ev_previous_event_hash e \<noteq> None" for e
  proof -
    obtain xs ys where s: "raw_events rid db = xs @ e # ys" using split_list [OF e(1)] by blast
    with c e(2) have "xs \<noteq> []" "ev_previous_event_hash e = Some (ev_event_hash (last xs))"
      by (auto simp: chain_ok_def linked_append split: if_splits)
    moreover from this c s have "ev_event_hash (last xs) \<noteq> []"
      using assms(1) by (auto simp: chain_ok_def event_ok_def event_hash_def)
    ultimately show ?thesis by simp
  qed
  have "e\<lparr>ev_previous_event_hash :=
      (if truthy (ev_previous_event_hash e) then ev_previous_event_hash e else None)\<rparr> = e"
    if "e \<in> set (raw_events rid db)" for e
  proof (cases "ev_previous_event_hash e = None")
    case False
    then show ?thesis using tr [OF that] by simp
  qed simp
  then show ?thesis
    using events_chain_ok [OF c] unfolding pg_events_def by (intro map_idI) simp
qed

text \<open>
  The distributed store keeps an audit trail that verifies: after any sequence of calls
  the event chain of every stored receipt passes the store's own \<open>verify_event_chain\<close> and
  replaying the event types gives the status in the table. The digest is assumed never to be
  the empty string, which the store reads back as a missing predecessor.
\<close>

theorem pg_audit_trail_matches_status:
  assumes "\<forall>m. sha256 E m \<noteq> []" "status rid (fold (pg_step E B) cs empty_pg) \<noteq> None"
  shows "pg_verify_event_chain E rid (fold (pg_step E B) cs empty_pg) = (True, ''ok'') \<and>
         audit_status (pg_events rid (fold (pg_step E B) cs empty_pg)) =
           status rid (fold (pg_step E B) cs empty_pg)"
  using store_inv_verifies [OF pg_run_inv assms(2)] pg_events_same [OF assms(1) pg_run_inv]
  by (simp add: pg_verify_event_chain_def verify_event_chain_def split: if_splits)

definition pg_env :: env where
  "pg_env = receipt_env\<lparr>sha256 := (\<lambda>m. CHR ''h'' # m)\<rparr>"

lemma pg_env_event_hash [simp]:
  "event_hash pg_env rid n ty p rs d t = event_hash pg_env rid' n' ty' p' rs' d' t' \<longleftrightarrow>
    rid = rid' \<and> n = n' \<and> ty = ty' \<and> p = p' \<and> rs = rs' \<and> canon d = canon d' \<and> t = t'"
  using event_message_eq_iff [of pg_env] by (simp add: event_hash_def float_repr_ok_ratio_repr pg_env_def)

theorem pg_audit_trail_matches_status_witness:
  "pg_verify_event_chain pg_env ''r1'' (fold (pg_step pg_env 8) demo_calls empty_pg) = (True, ''ok'') \<and>
   audit_status (pg_events ''r1'' (fold (pg_step pg_env 8) demo_calls empty_pg)) = Some CONSUMED"
proof -
  have s: "status ''r1'' (fold (pg_step pg_env 8) demo_calls empty_pg) = Some CONSUMED"
    by (simp add: pg_demo_defs demo_evaluation demo_row Let_def)
  have "\<forall>m. sha256 pg_env m \<noteq> []" by (simp add: pg_env_def)
  from pg_audit_trail_matches_status [OF this, of "''r1''" 8 demo_calls] s show ?thesis by simp
qed

subsection \<open>Configuration\<close>

lemma normalize_postgres_dsn_result:
  assumes "normalize_postgres_dsn url = Some u"
  shows "starts_with ''postgresql://'' u \<and> normalize_postgres_dsn u = Some u"
  using assms by (auto simp: normalize_postgres_dsn_def starts_with_def split: if_splits)

end
