(* ===== verification/Recovery_FSM.thy ===== *)
theory Recovery_FSM
  imports Prelude
begin

section \<open>Recovery and incident state machines\<close>

text \<open>
  \<open>packages/recovery/src/state_machine.py\<close>: the saga that one recovery goes through, with its
  event log, the timeout that forces compensation, and cancellation.
  \<open>packages/recovery/src/incident_state_machine.py\<close>: the lifecycle of an incident, with the
  transition log it keeps in its telemetry. The clock is an argument of every call.
\<close>

subsection \<open>The recovery machine\<close>

datatype recovery_status =
    PROPOSED | POLICY_CHECKING | PENDING_APPROVAL | PREPARING | EXECUTING | VERIFYING | COMMITTED
  | COMPENSATING | COMPENSATED | FAILED | CANCELLED

definition terminal_states :: "recovery_status set" where
  "terminal_states = {COMMITTED, COMPENSATED, FAILED, CANCELLED}"

fun allowed_transitions :: "recovery_status \<Rightarrow> recovery_status set" where
  "allowed_transitions PROPOSED = {POLICY_CHECKING, CANCELLED}"
| "allowed_transitions POLICY_CHECKING = {PENDING_APPROVAL, PREPARING, FAILED, CANCELLED}"
| "allowed_transitions PENDING_APPROVAL = {PREPARING, CANCELLED}"
| "allowed_transitions PREPARING = {EXECUTING, FAILED, CANCELLED}"
| "allowed_transitions EXECUTING = {VERIFYING, COMPENSATING}"
| "allowed_transitions VERIFYING = {COMMITTED, COMPENSATING}"
| "allowed_transitions COMPENSATING = {COMPENSATED, FAILED}"
| "allowed_transitions COMMITTED = {}"
| "allowed_transitions COMPENSATED = {}"
| "allowed_transitions FAILED = {}"
| "allowed_transitions CANCELLED = {}"

record 'm state_event =
  se_from :: recovery_status
  se_to :: recovery_status
  se_actor :: string
  se_reason :: string
  se_occurred_at :: int
  se_metadata :: "'m option"

record 'm recovery_machine =
  rm_proposal_id :: string
  rm_current_status :: recovery_status
  rm_capsule_id :: "string option"
  rm_event_log :: "'m state_event list"
  rm_timeout_at :: int
  rm_retry_count :: int
  rm_max_retries :: int
  rm_escalated :: bool

datatype transition_error =
    FromTerminal recovery_status
  | NotAllowed recovery_status recovery_status
  | CancelTerminal
  | CancelExecuting

text \<open>A new machine times out thirty minutes (in microseconds) after its creation.\<close>

definition new_machine :: "string \<Rightarrow> int \<Rightarrow> 'm recovery_machine" where
  "new_machine proposal_id now =
     \<lparr>rm_proposal_id = proposal_id, rm_current_status = PROPOSED, rm_capsule_id = None,
      rm_event_log = [], rm_timeout_at = now + 30 * 60 * 1000000, rm_retry_count = 0,
      rm_max_retries = 2, rm_escalated = False\<rparr>"

definition timeout_reason :: string where
  "timeout_reason = ''Timeout exceeded; forcing compensation.''"

definition force_timeout :: "int \<Rightarrow> 'm recovery_machine \<Rightarrow> 'm recovery_machine" where
  "force_timeout now m =
     (if rm_current_status m \<notin> terminal_states then
        m\<lparr>rm_event_log := rm_event_log m @
            [\<lparr>se_from = rm_current_status m, se_to = COMPENSATING, se_actor = ''system'',
              se_reason = timeout_reason, se_occurred_at = now, se_metadata = None\<rparr>],
          rm_current_status := COMPENSATING, rm_escalated := True\<rparr>
      else m)"

definition transition ::
  "int \<Rightarrow> recovery_status \<Rightarrow> string \<Rightarrow> string \<Rightarrow> 'm option \<Rightarrow> 'm recovery_machine \<Rightarrow>
     (transition_error, 'm recovery_machine) result" where
  "transition now to_status actor reason metadata m =
     (if rm_current_status m \<in> terminal_states then Inl (FromTerminal (rm_current_status m))
      else if rm_timeout_at m < now then Inr (force_timeout now m)
      else if to_status \<notin> allowed_transitions (rm_current_status m)
      then Inl (NotAllowed (rm_current_status m) to_status)
      else Inr (m\<lparr>rm_event_log := rm_event_log m @
                    [\<lparr>se_from = rm_current_status m, se_to = to_status, se_actor = actor,
                      se_reason = reason, se_occurred_at = now, se_metadata = metadata\<rparr>],
                  rm_current_status := to_status\<rparr>))"

definition cancel ::
  "int \<Rightarrow> string \<Rightarrow> string \<Rightarrow> 'm recovery_machine \<Rightarrow> (transition_error, 'm recovery_machine) result" where
  "cancel now actor reason m =
     (if rm_current_status m \<in> terminal_states then Inl CancelTerminal
      else if rm_current_status m = EXECUTING then Inl CancelExecuting
      else transition now CANCELLED actor reason None m)"

definition should_retry :: "'m recovery_machine \<Rightarrow> bool" where
  "should_retry m \<longleftrightarrow> rm_current_status m = EXECUTING \<and> rm_retry_count m < rm_max_retries m"

definition record_retry :: "'m recovery_machine \<Rightarrow> 'm recovery_machine" where
  "record_retry m = m\<lparr>rm_retry_count := rm_retry_count m + 1\<rparr>"

definition is_terminal :: "'m recovery_machine \<Rightarrow> bool" where
  "is_terminal m \<longleftrightarrow> rm_current_status m \<in> terminal_states"

text \<open>One successful call on a machine at time \<open>now\<close>; a refused call changes nothing.\<close>

inductive machine_step :: "int \<Rightarrow> 'm recovery_machine \<Rightarrow> 'm recovery_machine \<Rightarrow> bool" where
  transition: "transition now to_status actor reason metadata m = Inr m' \<Longrightarrow> machine_step now m m'"
| cancel: "cancel now actor reason m = Inr m' \<Longrightarrow> machine_step now m m'"
| retry: "machine_step now m (record_retry m)"

inductive reachable :: "string \<Rightarrow> int \<Rightarrow> 'm recovery_machine \<Rightarrow> bool" for pid t0 where
  start: "reachable pid t0 (new_machine pid t0)"
| step: "reachable pid t0 m \<Longrightarrow> machine_step now m m' \<Longrightarrow> reachable pid t0 m'"

inductive_cases machine_stepE: "machine_step now m m'"

text \<open>An edge of the log: allowed by the table, or forced by the timeout.\<close>

definition forced :: "'m state_event \<Rightarrow> bool" where
  "forced e \<longleftrightarrow> se_from e \<notin> terminal_states \<and> se_to e = COMPENSATING \<and>
     se_actor e = ''system'' \<and> se_reason e = timeout_reason"

definition edge_ok :: "'m state_event \<Rightarrow> bool" where
  "edge_ok e \<longleftrightarrow> se_to e \<in> allowed_transitions (se_from e) \<or> forced e"

fun log_path :: "recovery_status \<Rightarrow> 'm state_event list \<Rightarrow> recovery_status \<Rightarrow> bool" where
  "log_path s [] t = (s = t)"
| "log_path s (e # es) t = (se_from e = s \<and> edge_ok e \<and> log_path (se_to e) es t)"

lemma log_path_append: "log_path s (xs @ ys) t \<longleftrightarrow> (\<exists>u. log_path s xs u \<and> log_path u ys t)"
  by (induction xs arbitrary: s) auto

lemma log_path_snoc: "log_path s (xs @ [e]) t \<longleftrightarrow> log_path s xs (se_from e) \<and> edge_ok e \<and> se_to e = t"
  by (auto simp: log_path_append)

text \<open>A call that succeeds logs one edge from the current status and moves along it.\<close>

lemma transition_cases:
  assumes "transition now to_status actor reason metadata m = Inr m'"
  obtains e where "edge_ok e" "se_from e = rm_current_status m" "rm_current_status m \<notin> terminal_states"
    "rm_event_log m' = rm_event_log m @ [e]" "rm_current_status m' = se_to e"
    "rm_timeout_at m' = rm_timeout_at m"
    "if rm_timeout_at m < now then forced e \<and> rm_escalated m'
     else se_to e = to_status \<and> rm_escalated m' = rm_escalated m"
proof (cases "rm_timeout_at m < now")
  case True
  let ?e = "\<lparr>se_from = rm_current_status m, se_to = COMPENSATING, se_actor = ''system'',
              se_reason = timeout_reason, se_occurred_at = now, se_metadata = None\<rparr>"
  show ?thesis using assms True
    by (intro that [of ?e]) (auto simp: transition_def force_timeout_def edge_ok_def forced_def split: if_splits)
next
  case False
  let ?e = "\<lparr>se_from = rm_current_status m, se_to = to_status, se_actor = actor,
                      se_reason = reason, se_occurred_at = now, se_metadata = metadata\<rparr>"
  show ?thesis using assms False
    by (intro that [of ?e]) (auto simp: transition_def edge_ok_def split: if_splits)
qed

lemma cancel_transition:
  "cancel now actor reason m = Inr m' \<Longrightarrow> transition now CANCELLED actor reason None m = Inr m'"
  by (auto simp: cancel_def split: if_splits)

lemma machine_step_cases:
  assumes "machine_step now m m'"
  shows "m' = record_retry m \<or> (\<exists>to_status actor reason metadata.
    transition now to_status actor reason metadata m = Inr m')"
  using assms by (auto elim!: machine_stepE dest: cancel_transition)

lemma reachable_path: "reachable pid t0 m \<Longrightarrow> log_path PROPOSED (rm_event_log m) (rm_current_status m)"
proof (induction rule: reachable.induct)
  case start
  then show ?case by (simp add: new_machine_def)
next
  case (step m now m')
  from machine_step_cases [OF step.hyps(2)] show ?case
  proof
    assume "m' = record_retry m"
    then show ?thesis using step.IH by (simp add: record_retry_def)
  next
    assume "\<exists>to_status actor reason metadata. transition now to_status actor reason metadata m = Inr m'"
    then obtain e where "edge_ok e" "se_from e = rm_current_status m"
      "rm_event_log m' = rm_event_log m @ [e]" "rm_current_status m' = se_to e"
      using transition_cases by metis
    then show ?thesis using step.IH by (simp add: log_path_snoc)
  qed
qed

text \<open>The only edges into the statuses of the success path.\<close>

lemma edge_into:
  assumes "edge_ok e"
  shows "se_to e = COMMITTED \<Longrightarrow> se_from e = VERIFYING"
    and "se_to e = VERIFYING \<Longrightarrow> se_from e = EXECUTING"
    and "se_to e = EXECUTING \<Longrightarrow> se_from e = PREPARING"
    and "se_to e = COMPENSATED \<Longrightarrow> se_from e = COMPENSATING"
  using assms by (cases "se_from e"; auto simp: edge_ok_def forced_def)+

lemma log_path_last:
  assumes "log_path PROPOSED es t" "t \<noteq> PROPOSED"
  obtains pre e where "es = pre @ [e]" "log_path PROPOSED pre (se_from e)" "edge_ok e" "se_to e = t"
  using assms by (cases es rule: rev_cases) (auto simp: log_path_snoc)

abbreviation edge :: "'m state_event \<Rightarrow> recovery_status \<times> recovery_status" where
  "edge e \<equiv> (se_from e, se_to e)"

text \<open>
  C30. A recovery is only COMMITTED after verification: in every reachable machine the event
  log is an unbroken path from PROPOSED to the current status along allowed transitions and
  forced compensations, and the log of a COMMITTED machine ends with the transitions
  PREPARING to EXECUTING, EXECUTING to VERIFYING, VERIFYING to COMMITTED.
\<close>

theorem committed_only_after_verifying:
  assumes "reachable pid t0 m"
  shows "log_path PROPOSED (rm_event_log m) (rm_current_status m) \<and>
    (rm_current_status m = COMMITTED \<longrightarrow>
       (\<exists>pre. map edge (rm_event_log m) =
          pre @ [(PREPARING, EXECUTING), (EXECUTING, VERIFYING), (VERIFYING, COMMITTED)]))"
proof -
  have p: "log_path PROPOSED (rm_event_log m) (rm_current_status m)" using assms by (rule reachable_path)
  have "\<exists>pre. map edge (rm_event_log m) =
          pre @ [(PREPARING, EXECUTING), (EXECUTING, VERIFYING), (VERIFYING, COMMITTED)]"
    if c: "rm_current_status m = COMMITTED"
  proof -
    obtain p1 e1 where 1: "rm_event_log m = p1 @ [e1]" "log_path PROPOSED p1 (se_from e1)" "edge_ok e1"
      "se_to e1 = COMMITTED"
      by (rule log_path_last [OF p]) (auto simp: c)
    then have f1: "se_from e1 = VERIFYING" by (simp add: edge_into)
    obtain p2 e2 where 2: "p1 = p2 @ [e2]" "log_path PROPOSED p2 (se_from e2)" "edge_ok e2"
      "se_to e2 = VERIFYING"
      by (rule log_path_last [OF 1(2)]) (auto simp: f1)
    then have f2: "se_from e2 = EXECUTING" by (simp add: edge_into)
    obtain p3 e3 where 3: "p2 = p3 @ [e3]" "edge_ok e3" "se_to e3 = EXECUTING"
      by (rule log_path_last [OF 2(2)]) (auto simp: f2)
    then have "se_from e3 = PREPARING" by (simp add: edge_into)
    then show ?thesis using 1 2 3 f1 f2 by (intro exI [of _ "map edge p3"]) simp
  qed
  with p show ?thesis by blast
qed

text \<open>
  Terminal statuses are final: no call succeeds in changing status, log or escalation of
  a machine that is COMMITTED, COMPENSATED, FAILED or CANCELLED.
\<close>

theorem terminal_is_final:
  assumes "is_terminal m" "machine_step now m m'"
  shows "is_terminal m' \<and> rm_current_status m' = rm_current_status m \<and>
    rm_event_log m' = rm_event_log m \<and> rm_escalated m' = rm_escalated m"
  using machine_step_cases [OF assms(2)] assms(1)
  by (auto simp: is_terminal_def record_retry_def transition_def)

text \<open>Any number of calls, all of them after the timeout.\<close>

inductive late_run :: "'m recovery_machine \<Rightarrow> 'm recovery_machine \<Rightarrow> bool" for m where
  none: "late_run m m"
| more: "late_run m m' \<Longrightarrow> rm_timeout_at m' < now \<Longrightarrow> machine_step now m' m'' \<Longrightarrow> late_run m m''"

lemma late_step:
  assumes "\<not> is_terminal m" "rm_timeout_at m < now" "machine_step now m m'"
  shows "\<not> is_terminal m' \<and>
    (rm_event_log m' \<noteq> rm_event_log m \<longrightarrow> rm_current_status m' = COMPENSATING \<and> rm_escalated m') \<and>
    (rm_event_log m' = rm_event_log m \<longrightarrow> rm_current_status m' = rm_current_status m \<and>
       rm_escalated m' = rm_escalated m)"
  using machine_step_cases [OF assms(3)] assms(1,2)
  by (auto simp: is_terminal_def record_retry_def transition_def force_timeout_def terminal_states_def
      split: if_splits)

text \<open>
  After its timeout a machine that is not terminal never becomes terminal: however many
  calls follow after \<open>timeout_at\<close>, and whatever status they ask for, it stays outside the
  terminal statuses, and as soon as one transition succeeds it is in COMPENSATING and stays
  there. The saga cannot reach COMPENSATED or FAILED once it has timed out, although the
  timeout handler is documented as escalating to FAILED.
\<close>

theorem timed_out_never_terminal:
  assumes "\<not> is_terminal m" "late_run m m'"
  shows "\<not> is_terminal m' \<and>
    (rm_event_log m' \<noteq> rm_event_log m \<longrightarrow> rm_current_status m' = COMPENSATING \<and> rm_escalated m')"
  using assms(2)
proof (induction rule: late_run.induct)
  case none
  then show ?case using assms(1) by simp
next
  case (more m' now m'')
  then show ?case using late_step [of m' now m''] by metis
qed

text \<open>A complete successful run, and a run that times out.\<close>

definition run_to :: "int \<Rightarrow> recovery_status \<Rightarrow> unit recovery_machine \<Rightarrow> unit recovery_machine" where
  "run_to now s m = (case transition now s ''system'' [] None m of Inl _ \<Rightarrow> m | Inr m' \<Rightarrow> m')"

definition demo_machine :: "unit recovery_machine" where
  "demo_machine = fold (run_to 1) [POLICY_CHECKING, PREPARING, EXECUTING, VERIFYING, COMMITTED]
     (new_machine ''p1'' 0)"

lemma reachable_run_to: "reachable pid t0 m \<Longrightarrow> reachable pid t0 (run_to now s m)"
  unfolding run_to_def by (auto split: sum.splits intro: reachable.step machine_step.transition)

lemma demo_machine_reachable: "reachable ''p1'' 0 demo_machine"
  unfolding demo_machine_def by (simp add: reachable_run_to reachable.start)

lemma demo_machine_status: "rm_current_status demo_machine = COMMITTED"
  by (simp add: demo_machine_def run_to_def transition_def new_machine_def terminal_states_def)

theorem committed_only_after_verifying_witness:
  "\<exists>pre. map edge (rm_event_log demo_machine) =
     pre @ [(PREPARING, EXECUTING), (EXECUTING, VERIFYING), (VERIFYING, COMMITTED)]"
  using committed_only_after_verifying [OF demo_machine_reachable] demo_machine_status by blast

theorem terminal_is_final_witness:
  "rm_current_status (record_retry demo_machine) = COMMITTED \<and>
   rm_event_log (record_retry demo_machine) = rm_event_log demo_machine"
  using terminal_is_final [OF _ machine_step.retry, of demo_machine] demo_machine_status
  by (simp add: is_terminal_def terminal_states_def)

theorem timed_out_never_terminal_witness:
  "\<exists>m'. transition 1800000001 FAILED ''system'' [] None (run_to 1 POLICY_CHECKING (new_machine ''p1'' 0)) = Inr m' \<and>
     \<not> is_terminal m' \<and> rm_current_status m' = COMPENSATING"
proof -
  let ?m = "run_to 1 POLICY_CHECKING (new_machine ''p1'' 0)"
  have m: "rm_timeout_at ?m = 1800000000" "rm_current_status ?m = POLICY_CHECKING" "rm_event_log ?m \<noteq> []"
    by (simp_all add: run_to_def transition_def new_machine_def terminal_states_def)
  have "\<exists>m'. transition 1800000001 FAILED ''system'' [] None ?m = Inr m' \<and> rm_event_log m' \<noteq> rm_event_log ?m"
    using m by (simp add: transition_def terminal_states_def force_timeout_def)
  then obtain m' where t: "transition 1800000001 FAILED ''system'' [] None ?m = Inr m'"
    and l: "rm_event_log m' \<noteq> rm_event_log ?m" by blast
  have "late_run ?m m'"
    using m by (intro late_run.more [OF late_run.none _ machine_step.transition [OF t]]) simp
  from timed_out_never_terminal [OF _ this] m t l show ?thesis
    by (simp add: is_terminal_def terminal_states_def)
qed

text \<open>The timeout may also jump over the table: from PROPOSED straight to COMPENSATING.\<close>

lemma timeout_skips_table:
  "\<exists>m'. transition 1800000001 POLICY_CHECKING ''system'' [] None (new_machine ''p1'' 0 :: unit recovery_machine) = Inr m' \<and>
     rm_current_status m' = COMPENSATING \<and> COMPENSATING \<notin> allowed_transitions PROPOSED"
  by (simp add: transition_def new_machine_def terminal_states_def force_timeout_def)

subsection \<open>The incident machine\<close>

datatype incident_status =
    OBSERVING | FAILURE_DETECTED | DIAGNOSING | REPLAYING | EVIDENCE_SUFFICIENT | EVIDENCE_INSUFFICIENT
  | RECOVERY_PLANNING | RECOVERY_VALIDATING | AWAITING_AUTHORIZATION | CANARY | RECOVERED
  | RECOVERY_REJECTED | CLOSED

fun incident_transitions :: "incident_status \<Rightarrow> incident_status set" where
  "incident_transitions OBSERVING = {FAILURE_DETECTED, CLOSED}"
| "incident_transitions FAILURE_DETECTED = {DIAGNOSING, CLOSED}"
| "incident_transitions DIAGNOSING = {REPLAYING, EVIDENCE_INSUFFICIENT, CLOSED}"
| "incident_transitions REPLAYING = {REPLAYING, EVIDENCE_SUFFICIENT, EVIDENCE_INSUFFICIENT, CLOSED}"
| "incident_transitions EVIDENCE_SUFFICIENT = {RECOVERY_PLANNING, CLOSED}"
| "incident_transitions EVIDENCE_INSUFFICIENT = {CLOSED}"
| "incident_transitions RECOVERY_PLANNING = {RECOVERY_VALIDATING, RECOVERY_REJECTED, CLOSED}"
| "incident_transitions RECOVERY_VALIDATING = {AWAITING_AUTHORIZATION, RECOVERY_REJECTED, CLOSED}"
| "incident_transitions AWAITING_AUTHORIZATION = {CANARY, RECOVERY_REJECTED, CLOSED}"
| "incident_transitions CANARY = {RECOVERED, RECOVERY_REJECTED, CLOSED}"
| "incident_transitions RECOVERED = {CLOSED}"
| "incident_transitions RECOVERY_REJECTED = {CLOSED}"
| "incident_transitions CLOSED = {}"

text \<open>One entry of \<open>telemetry["transition_log"]\<close>: its keys \<open>from\<close>, \<open>to\<close> and \<open>reason\<close>.\<close>

record log_entry =
  le_from :: incident_status
  le_to :: incident_status
  le_reason :: string

text \<open>The status and the log; the log is absent until the first transition.\<close>

record incident =
  in_status :: incident_status
  in_transition_log :: "log_entry list option"

datatype incident_error = IncidentTerminal incident_status | IncidentInvalid incident_status incident_status

definition incident_transition ::
  "incident_status \<Rightarrow> string \<Rightarrow> incident \<Rightarrow> (incident_error, incident) result" where
  "incident_transition to_status reason s =
     (if in_status s \<in> {CLOSED} then Inl (IncidentTerminal (in_status s))
      else if to_status \<notin> incident_transitions (in_status s)
      then Inl (IncidentInvalid (in_status s) to_status)
      else (let s1 = s\<lparr>in_status := to_status\<rparr>;
                log = (case in_transition_log s1 of None \<Rightarrow> [] | Some l \<Rightarrow> l)
            in Inr (s1\<lparr>in_transition_log := Some (log @
                 [\<lparr>le_from = in_status s1, le_to = to_status, le_reason = reason\<rparr>])\<rparr>)))"

inductive incident_reachable :: "incident \<Rightarrow> bool" where
  start: "incident_reachable \<lparr>in_status = OBSERVING, in_transition_log = None\<rparr>"
| step: "incident_reachable s \<Longrightarrow> incident_transition t reason s = Inr s' \<Longrightarrow> incident_reachable s'"

definition incident_log :: "incident \<Rightarrow> log_entry list" where
  "incident_log s = (case in_transition_log s of None \<Rightarrow> [] | Some l \<Rightarrow> l)"

fun status_path :: "incident_status \<Rightarrow> incident_status list \<Rightarrow> incident_status \<Rightarrow> bool" where
  "status_path s [] t = (s = t)"
| "status_path s (u # us) t = (u \<in> incident_transitions s \<and> status_path u us t)"

lemma status_path_snoc:
  "status_path s (xs @ [u]) t \<longleftrightarrow> (\<exists>v. status_path s xs v \<and> u \<in> incident_transitions v) \<and> u = t"
  by (induction xs arbitrary: s) auto

lemma incident_transition_Inr:
  assumes "incident_transition t reason s = Inr s'"
  shows "in_status s' = t \<and> t \<in> incident_transitions (in_status s) \<and>
    incident_log s' = incident_log s @ [\<lparr>le_from = t, le_to = t, le_reason = reason\<rparr>]"
  using assms by (auto simp: incident_transition_def Let_def incident_log_def split: if_splits option.splits)

lemma incident_reachable_path:
  "incident_reachable s \<Longrightarrow>
     status_path OBSERVING (map le_to (incident_log s)) (in_status s) \<and>
     (\<forall>e\<in>set (incident_log s). le_from e = le_to e)"
proof (induction rule: incident_reachable.induct)
  case start
  then show ?case by (simp add: incident_log_def)
next
  case (step s t reason s')
  then show ?case using incident_transition_Inr [OF step.hyps(2)] by (auto simp: status_path_snoc)
qed

lemma status_path_back:
  assumes "status_path OBSERVING xs t" "t \<noteq> OBSERVING" "\<And>v. t \<in> incident_transitions v \<Longrightarrow> v = w"
  shows "\<exists>ys. xs = ys @ [t] \<and> status_path OBSERVING ys w"
  using assms by (cases xs rule: rev_cases) (auto simp: status_path_snoc)

lemma incident_into:
  "RECOVERED \<in> incident_transitions v \<Longrightarrow> v = CANARY"
  "CANARY \<in> incident_transitions v \<Longrightarrow> v = AWAITING_AUTHORIZATION"
  "AWAITING_AUTHORIZATION \<in> incident_transitions v \<Longrightarrow> v = RECOVERY_VALIDATING"
  "RECOVERY_VALIDATING \<in> incident_transitions v \<Longrightarrow> v = RECOVERY_PLANNING"
  "RECOVERY_PLANNING \<in> incident_transitions v \<Longrightarrow> v = EVIDENCE_SUFFICIENT"
  "EVIDENCE_SUFFICIENT \<in> incident_transitions v \<Longrightarrow> v = REPLAYING"
  by (cases v; simp)+

text \<open>
  An incident is only RECOVERED along the gated path: the targets in its log end with
  EVIDENCE_SUFFICIENT, RECOVERY_PLANNING, RECOVERY_VALIDATING, AWAITING_AUTHORIZATION,
  CANARY, RECOVERED. At the same time every entry of the log has the same value under
  \<open>from\<close> and \<open>to\<close>: the code overwrites the status before it builds the entry, so the log does
  not record where a transition came from.
\<close>

theorem recovered_only_through_gates:
  assumes "incident_reachable s"
  shows "(in_status s = RECOVERED \<longrightarrow>
      (\<exists>pre. map le_to (incident_log s) = pre @
         [EVIDENCE_SUFFICIENT, RECOVERY_PLANNING, RECOVERY_VALIDATING, AWAITING_AUTHORIZATION, CANARY, RECOVERED])) \<and>
    (\<forall>e\<in>set (incident_log s). le_from e = le_to e)"
proof -
  have p: "status_path OBSERVING (map le_to (incident_log s)) (in_status s)"
    and f: "\<forall>e\<in>set (incident_log s). le_from e = le_to e"
    using incident_reachable_path [OF assms] by auto
  have "\<exists>pre. map le_to (incident_log s) = pre @
         [EVIDENCE_SUFFICIENT, RECOVERY_PLANNING, RECOVERY_VALIDATING, AWAITING_AUTHORIZATION, CANARY, RECOVERED]"
    if r: "in_status s = RECOVERED"
  proof -
    note b = status_path_back
    obtain y1 where y1: "map le_to (incident_log s) = y1 @ [RECOVERED]" "status_path OBSERVING y1 CANARY"
      using b [OF p [unfolded r] _ incident_into(1)] by auto
    obtain y2 where y2: "y1 = y2 @ [CANARY]" "status_path OBSERVING y2 AWAITING_AUTHORIZATION"
      using b [OF y1(2) _ incident_into(2)] by auto
    obtain y3 where y3: "y2 = y3 @ [AWAITING_AUTHORIZATION]" "status_path OBSERVING y3 RECOVERY_VALIDATING"
      using b [OF y2(2) _ incident_into(3)] by auto
    obtain y4 where y4: "y3 = y4 @ [RECOVERY_VALIDATING]" "status_path OBSERVING y4 RECOVERY_PLANNING"
      using b [OF y3(2) _ incident_into(4)] by auto
    obtain y5 where y5: "y4 = y5 @ [RECOVERY_PLANNING]" "status_path OBSERVING y5 EVIDENCE_SUFFICIENT"
      using b [OF y4(2) _ incident_into(5)] by auto
    obtain y6 where "y5 = y6 @ [EVIDENCE_SUFFICIENT]"
      using b [OF y5(2) _ incident_into(6)] by auto
    then show ?thesis using y1 y2 y3 y4 y5 by (intro exI [of _ y6]) simp
  qed
  with f show ?thesis by blast
qed

definition incident_run :: "incident_status list \<Rightarrow> incident" where
  "incident_run ts = fold (\<lambda>t s. case incident_transition t [] s of Inl _ \<Rightarrow> s | Inr s' \<Rightarrow> s') ts
     \<lparr>in_status = OBSERVING, in_transition_log = None\<rparr>"

lemma incident_run_reachable: "incident_reachable (incident_run ts)"
  unfolding incident_run_def
  by (induction ts rule: rev_induct)
     (auto split: sum.splits intro: incident_reachable.start incident_reachable.step)

theorem recovered_only_through_gates_witness:
  "\<exists>e\<in>set (incident_log (incident_run [FAILURE_DETECTED, DIAGNOSING, REPLAYING, EVIDENCE_SUFFICIENT,
       RECOVERY_PLANNING, RECOVERY_VALIDATING, AWAITING_AUTHORIZATION, CANARY, RECOVERED])).
     le_to e = RECOVERED \<and> le_from e = RECOVERED"
proof -
  let ?s = "incident_run [FAILURE_DETECTED, DIAGNOSING, REPLAYING, EVIDENCE_SUFFICIENT,
       RECOVERY_PLANNING, RECOVERY_VALIDATING, AWAITING_AUTHORIZATION, CANARY, RECOVERED]"
  have "in_status ?s = RECOVERED" by (simp add: incident_run_def incident_transition_def)
  with recovered_only_through_gates [OF incident_run_reachable] obtain pre where
    "map le_to (incident_log ?s) = pre @ [EVIDENCE_SUFFICIENT, RECOVERY_PLANNING, RECOVERY_VALIDATING,
       AWAITING_AUTHORIZATION, CANARY, RECOVERED]"
    and f: "\<forall>e\<in>set (incident_log ?s). le_from e = le_to e" by blast
  then have "RECOVERED \<in> set (map le_to (incident_log ?s))" by (simp only: set_append) simp
  then obtain e where "e \<in> set (incident_log ?s)" "le_to e = RECOVERED"
    by (simp only: set_map image_iff) metis
  with f show ?thesis by (intro bexI [of _ e]) simp_all
qed

end
