(* ===== verification/Provenance_Store.thy ===== *)
theory Provenance_Store
  imports Hash_Chain
begin

section \<open>Capabilities and the provenance memory store\<close>

text \<open>
  \<open>packages/memory/src/auth.py\<close>, \<open>capabilities.py\<close> and \<open>store.py\<close>: capability tokens signed
  with HMAC-SHA256, access contexts, the store of memory partitions with its persistent
  quarantine, and its hash-linked access audit.

  An operation returns its outcome together with the new state, because some paths that raise
  have changed the state before (a denied access is audited). The clock is read once per
  call; event identifiers are arguments.
\<close>

subsection \<open>Capabilities\<close>

record capability =
  cp_capability_id :: string
  cp_requester_id :: string
  cp_tenant_id :: string
  cp_action :: string
  cp_resource :: string
  cp_issued_at :: int
  cp_expires_at :: int
  cp_issuer :: string
  cp_nonce :: string
  cp_policy_version :: string
  cp_signature :: string

record access_context =
  cx_requester_id :: string
  cx_tenant_id :: string
  cx_capabilities :: "capability list"
  cx_expires_at :: int

definition context_is_valid :: "int \<Rightarrow> access_context \<Rightarrow> bool" where
  "context_is_valid now ctx \<longleftrightarrow> now \<le> cx_expires_at ctx"

definition capability_document :: "env \<Rightarrow> capability \<Rightarrow> (string \<times> json) list" where
  "capability_document E cap =
     [(''capability_id'', JStr (cp_capability_id cap)),
      (''requester_id'', JStr (cp_requester_id cap)),
      (''tenant_id'', JStr (cp_tenant_id cap)),
      (''action'', JStr (cp_action cap)),
      (''resource'', JStr (cp_resource cap)),
      (''issued_at'', JStr (iso E (cp_issued_at cap))),
      (''expires_at'', JStr (iso E (cp_expires_at cap))),
      (''issuer'', JStr (cp_issuer cap)),
      (''nonce'', JStr (cp_nonce cap)),
      (''policy_version'', JStr (cp_policy_version cap))]"

definition capability_bytes :: "env \<Rightarrow> capability \<Rightarrow> string" where
  "capability_bytes E cap = canonical_bytes E (JObj (capability_document E cap))"

definition capability_sign :: "env \<Rightarrow> string \<Rightarrow> capability \<Rightarrow> capability" where
  "capability_sign E secret cap =
     cap\<lparr>cp_signature := b64_encode E (hmac_sha256 E secret (capability_bytes E cap))\<rparr>"

text \<open>The revocation store: the identifiers revoked so far.\<close>

type_synonym revocations = "string list"

definition revoke :: "string \<Rightarrow> revocations \<Rightarrow> revocations" where
  "revoke capability_id revoked =
     (if capability_id \<notin> set revoked then revoked @ [capability_id] else revoked)"

definition is_revoked :: "string \<Rightarrow> revocations \<Rightarrow> bool" where
  "is_revoked capability_id revoked \<longleftrightarrow> capability_id \<in> set revoked"

datatype prov_error =
    Base64Error
  | ContextInvalid
  | CrossTenantViolation
  | QuarantineViolation
  | MissingCapability
  | AuditIntegrityError

text \<open>What the verifying process holds: its secret and the revocations it knows.\<close>

record verifier =
  vf_secret :: string
  vf_revoked :: revocations

definition capability_verify ::
  "env \<Rightarrow> verifier \<Rightarrow> int \<Rightarrow> capability \<Rightarrow> access_context \<Rightarrow> string \<Rightarrow> string \<Rightarrow> (prov_error, bool) result" where
  "capability_verify E vf now cap ctx required_action required_resource =
     (if cp_requester_id cap \<noteq> cx_requester_id ctx \<or> cp_tenant_id cap \<noteq> cx_tenant_id ctx then Inr False
      else if cp_action cap \<noteq> required_action then Inr False
      else if cp_resource cap \<noteq> ''*'' \<and> cp_resource cap \<noteq> required_resource then Inr False
      else if cp_signature cap = [] then Inr False
      else if cp_expires_at cap < now then Inr False
      else if is_revoked (cp_capability_id cap) (vf_revoked vf) then Inr False
      else (case b64_decode E (cp_signature cap) of
              None \<Rightarrow> Inl Base64Error
            | Some actual_mac \<Rightarrow>
                Inr (hmac_sha256 E (vf_secret vf) (capability_bytes E cap) = actual_mac)))"

fun has_capability_in ::
  "env \<Rightarrow> verifier \<Rightarrow> int \<Rightarrow> access_context \<Rightarrow> string \<Rightarrow> string \<Rightarrow> capability list \<Rightarrow> (prov_error, bool) result" where
  "has_capability_in E vf now ctx action resource [] = Inr False"
| "has_capability_in E vf now ctx action resource (cap # caps) =
     (if cp_action cap = action \<and> (cp_resource cap = ''*'' \<or> cp_resource cap = resource) then
        rbind (capability_verify E vf now cap ctx action resource) (\<lambda>ok.
          if ok then Inr True else has_capability_in E vf now ctx action resource caps)
      else has_capability_in E vf now ctx action resource caps)"

definition has_capability ::
  "env \<Rightarrow> verifier \<Rightarrow> int \<Rightarrow> access_context \<Rightarrow> string \<Rightarrow> string \<Rightarrow> (prov_error, bool) result" where
  "has_capability E vf now ctx action resource =
     has_capability_in E vf now ctx action resource (cx_capabilities ctx)"

text \<open>The capability covers an access: the six conditions of the documentation of \<open>verify\<close>.\<close>

definition capability_covers ::
  "env \<Rightarrow> verifier \<Rightarrow> int \<Rightarrow> access_context \<Rightarrow> string \<Rightarrow> string \<Rightarrow> capability \<Rightarrow> bool" where
  "capability_covers E vf now ctx action resource cap \<longleftrightarrow>
     cp_requester_id cap = cx_requester_id ctx \<and> cp_tenant_id cap = cx_tenant_id ctx \<and>
     cp_action cap = action \<and> (cp_resource cap = ''*'' \<or> cp_resource cap = resource) \<and>
     cp_signature cap \<noteq> [] \<and>
     b64_decode E (cp_signature cap) = Some (hmac_sha256 E (vf_secret vf) (capability_bytes E cap)) \<and>
     now \<le> cp_expires_at cap \<and> \<not> is_revoked (cp_capability_id cap) (vf_revoked vf)"

lemma capability_verify_iff:
  "capability_verify E vf now cap ctx action resource = Inr True \<longleftrightarrow>
     capability_covers E vf now ctx action resource cap"
  by (auto simp: capability_verify_def capability_covers_def split: option.splits)

lemma has_capability_in_covers:
  "has_capability_in E vf now ctx action resource caps = Inr True \<Longrightarrow>
     \<exists>cap\<in>set caps. capability_covers E vf now ctx action resource cap"
  by (induction E vf now ctx action resource caps rule: has_capability_in.induct)
     (auto simp: rbind_Inr_iff capability_verify_iff split: if_splits)

lemma capability_document_keys:
  "map fst (capability_document E c) = map fst (capability_document E c')"
  "distinct (map fst (capability_document E c))"
  by (simp_all add: capability_document_def)

lemma capability_bytes_inj:
  assumes "float_repr_ok (float_repr E)" "inj (iso E)" "capability_bytes E c = capability_bytes E c'"
  shows "c\<lparr>cp_signature := s\<rparr> = c'\<lparr>cp_signature := s\<rparr>"
proof -
  have "canon (JObj (capability_document E c)) = canon (JObj (capability_document E c'))"
    using assms(1,3) unfolding capability_bytes_def by (rule canonical_bytes_inj)
  then have "canon_members (capability_document E c) = canon_members (capability_document E c')"
    by (rule canon_obj_eqD [OF _ capability_document_keys])
  then show ?thesis using assms(2) by (auto simp: capability_document_def inj_eq)
qed

lemma capability_bytes_signature [simp]:
  "capability_bytes E (c\<lparr>cp_signature := s\<rparr>) = capability_bytes E c"
  by (simp add: capability_bytes_def capability_document_def)

lemma capability_sign_covers:
  assumes "b64_decode E (b64_encode E mac) = Some mac" "b64_encode E mac \<noteq> []"
    and "mac = hmac_sha256 E (vf_secret vf) (capability_bytes E cap)"
    and "now \<le> cp_expires_at cap" "\<not> is_revoked (cp_capability_id cap) (vf_revoked vf)"
    and "cx_requester_id ctx = cp_requester_id cap" "cx_tenant_id ctx = cp_tenant_id cap"
    and "cp_resource cap = ''*'' \<or> cp_resource cap = resource"
  shows "capability_covers E vf now ctx (cp_action cap) resource (capability_sign E (vf_secret vf) cap)"
  using assms by (auto simp: capability_covers_def capability_sign_def)

text \<open>
  Capabilities are unforgeable short of a MAC collision: a token that carries the
  signature made for another token and is accepted by the verifier with the same secret has
  every bound field equal to the signed one (identifier, requester, tenant, action, resource,
  validity, issuer, nonce, policy version), or the two byte strings collide under HMAC with
  that secret. And the signed token itself is accepted for its own requester, tenant, action
  and resource until it expires or is revoked.
\<close>

theorem capability_binding:
  assumes "float_repr_ok (float_repr E)" "inj (iso E)" "\<forall>x. b64_decode E (b64_encode E x) = Some x"
    and "\<forall>x. b64_encode E x \<noteq> []"
  shows "(capability_verify E vf now cap ctx action resource = Inr True \<and>
      cp_signature cap = cp_signature (capability_sign E (vf_secret vf) orig) \<longrightarrow>
      cap = capability_sign E (vf_secret vf) orig \<or>
      collision_between (hmac_sha256 E (vf_secret vf)) {capability_bytes E cap} {capability_bytes E orig}) \<and>
    (now \<le> cp_expires_at orig \<and> \<not> is_revoked (cp_capability_id orig) (vf_revoked vf) \<and>
      cx_requester_id ctx = cp_requester_id orig \<and> cx_tenant_id ctx = cp_tenant_id orig \<and>
      (cp_resource orig = ''*'' \<or> cp_resource orig = resource) \<longrightarrow>
      capability_verify E vf now (capability_sign E (vf_secret vf) orig) ctx (cp_action orig) resource = Inr True)"
proof (intro conjI impI)
  assume a: "capability_verify E vf now cap ctx action resource = Inr True \<and>
      cp_signature cap = cp_signature (capability_sign E (vf_secret vf) orig)"
  then have eq: "hmac_sha256 E (vf_secret vf) (capability_bytes E cap) =
      hmac_sha256 E (vf_secret vf) (capability_bytes E orig)"
    using assms(3) by (auto simp: capability_verify_iff capability_covers_def capability_sign_def)
  show "cap = capability_sign E (vf_secret vf) orig \<or>
      collision_between (hmac_sha256 E (vf_secret vf)) {capability_bytes E cap} {capability_bytes E orig}"
  proof (cases "capability_bytes E cap = capability_bytes E orig")
    case True
    have "cap = orig\<lparr>cp_signature := cp_signature cap\<rparr>"
      using capability_bytes_inj [OF assms(1,2) True, of "cp_signature cap"] by simp
    moreover have "cp_signature cap = b64_encode E (hmac_sha256 E (vf_secret vf) (capability_bytes E orig))"
      using a by (simp add: capability_sign_def)
    ultimately show ?thesis unfolding capability_sign_def by metis
  next
    case False
    then show ?thesis using eq by (auto simp: collision_between_def)
  qed
next
  assume "now \<le> cp_expires_at orig \<and> \<not> is_revoked (cp_capability_id orig) (vf_revoked vf) \<and>
      cx_requester_id ctx = cp_requester_id orig \<and> cx_tenant_id ctx = cp_tenant_id orig \<and>
      (cp_resource orig = ''*'' \<or> cp_resource orig = resource)"
  then show "capability_verify E vf now (capability_sign E (vf_secret vf) orig) ctx (cp_action orig) resource = Inr True"
    using assms(3,4) by (simp add: capability_verify_iff capability_sign_covers)
qed

subsection \<open>The store\<close>

record access_event =
  ae_event_id :: string
  ae_requester :: string
  ae_tenant :: string
  ae_partition :: string
  ae_action :: string
  ae_capability_id :: "string option"
  ae_timestamp :: int
  ae_policy_version :: string
  ae_result :: string
  ae_event_hash :: string
  ae_previous_hash :: string

record quarantine_row =
  qr_partition_id :: string
  qr_tenant_id :: string
  qr_reason :: string
  qr_created_at :: int
  qr_created_by :: string
  qr_status :: string

record prov_store =
  pv_partitions :: "(string \<times> json list) list"
  pv_quarantine :: "quarantine_row list"
  pv_audit :: "access_event list"

definition empty_prov :: prov_store where
  "empty_prov = \<lparr>pv_partitions = [], pv_quarantine = [], pv_audit = []\<rparr>"

type_synonym 'a prov_result = "(prov_error, 'a) result \<times> prov_store"

text \<open>The text hashed for an event; a missing capability is formatted as \<open>None\<close>.\<close>

definition audit_event_data :: "env \<Rightarrow> string \<Rightarrow> access_event \<Rightarrow> string" where
  "audit_event_data E previous_hash e =
     ''DGX-AUDIT-EVENT-V1|'' @ previous_hash @ ''|'' @ ae_event_id e @ ''|'' @ ae_requester e @ ''|'' @
     ae_tenant e @ ''|'' @ ae_partition e @ ''|'' @ ae_action e @ ''|'' @
     (case ae_capability_id e of None \<Rightarrow> ''None'' | Some c \<Rightarrow> c) @ ''|'' @ ae_policy_version e @ ''|'' @
     ae_result e @ ''|'' @ iso E (ae_timestamp e)"

definition hash_audit_event :: "env \<Rightarrow> string \<Rightarrow> access_event \<Rightarrow> string" where
  "hash_audit_event E previous_hash e = sha256 E (utf8 (audit_event_data E previous_hash e))"

definition genesis_audit :: string where
  "genesis_audit = ''GENESIS-AUDIT''"

definition log_audit :: "env \<Rightarrow> access_event \<Rightarrow> prov_store \<Rightarrow> unit prov_result" where
  "log_audit E e st =
     (let previous_hash = (if pv_audit st = [] then genesis_audit else ae_event_hash (last (pv_audit st)))
      in if ae_event_id e \<in> ae_event_id ` set (pv_audit st) then (Inl AuditIntegrityError, st)
         else (Inr (), st\<lparr>pv_audit := pv_audit st @
                [e\<lparr>ae_event_hash := hash_audit_event E previous_hash e,
                   ae_previous_hash := previous_hash\<rparr>]\<rparr>))"

definition new_event ::
  "string \<Rightarrow> int \<Rightarrow> access_context \<Rightarrow> string \<Rightarrow> string \<Rightarrow> string \<Rightarrow> access_event" where
  "new_event event_id now ctx pid action res =
     \<lparr>ae_event_id = event_id, ae_requester = cx_requester_id ctx, ae_tenant = cx_tenant_id ctx,
      ae_partition = pid, ae_action = action, ae_capability_id = None, ae_timestamp = now,
      ae_policy_version = ''v2'', ae_result = res, ae_event_hash = [], ae_previous_hash = []\<rparr>"

definition is_quarantined :: "string \<Rightarrow> prov_store \<Rightarrow> bool" where
  "is_quarantined pid st =
     (case List.find (\<lambda>q. qr_partition_id q = pid) (pv_quarantine st) of
        None \<Rightarrow> False
      | Some q \<Rightarrow> qr_status q = ''ACTIVE'')"

text \<open>\<open>partition_id.startswith(f"{tenant_id}_")\<close>.\<close>

definition in_tenant :: "string \<Rightarrow> string \<Rightarrow> bool" where
  "in_tenant tenant_id pid \<longleftrightarrow> take (length (tenant_id @ ''_'')) pid = tenant_id @ ''_''"

text \<open>The audit entry of an access, then the result of the access.\<close>

definition log_then :: "env \<Rightarrow> access_event \<Rightarrow> (prov_error, 'a) result \<Rightarrow> prov_store \<Rightarrow> 'a prov_result" where
  "log_then E e r st =
     (case log_audit E e st of
        (Inl err, st1) \<Rightarrow> (Inl err, st1)
      | (Inr _, st1) \<Rightarrow> (r, st1))"

definition prov_write ::
  "env \<Rightarrow> string \<Rightarrow> int \<Rightarrow> string \<Rightarrow> json \<Rightarrow> access_context \<Rightarrow> prov_store \<Rightarrow> unit prov_result" where
  "prov_write E eid now pid data ctx st =
     (if \<not> context_is_valid now ctx then (Inl ContextInvalid, st)
      else if \<not> in_tenant (cx_tenant_id ctx) pid then (Inl CrossTenantViolation, st)
      else if is_quarantined pid st
      then log_then E (new_event eid now ctx pid ''WRITE'' ''DENIED_QUARANTINE'') (Inl QuarantineViolation) st
      else let old = (case map_of (pv_partitions st) pid of None \<Rightarrow> [] | Some xs \<Rightarrow> xs);
               st1 = st\<lparr>pv_partitions := dict_put pid (old @ [data]) (pv_partitions st)\<rparr>
           in log_then E (new_event eid now ctx pid ''WRITE'' ''ALLOWED'') (Inr ()) st1)"

definition prov_read ::
  "env \<Rightarrow> verifier \<Rightarrow> string \<Rightarrow> int \<Rightarrow> string \<Rightarrow> access_context \<Rightarrow> prov_store \<Rightarrow> json list prov_result" where
  "prov_read E vf eid now pid ctx st =
     (let data = (case map_of (pv_partitions st) pid of None \<Rightarrow> [] | Some xs \<Rightarrow> xs)
      in if \<not> context_is_valid now ctx then (Inl ContextInvalid, st)
         else if \<not> in_tenant (cx_tenant_id ctx) pid then (Inl CrossTenantViolation, st)
         else if is_quarantined pid st then
           (case has_capability E vf now ctx ''FORENSIC_READ'' pid of
              Inl e \<Rightarrow> (Inl e, st)
            | Inr ok \<Rightarrow>
                if \<not> ok
                then log_then E (new_event eid now ctx pid ''READ'' ''DENIED_MISSING_CAPABILITY'')
                       (Inl QuarantineViolation) st
                else log_then E (new_event eid now ctx pid ''FORENSIC_READ'' ''ALLOWED'') (Inr data) st)
         else log_then E (new_event eid now ctx pid ''READ'' ''ALLOWED'') (Inr data) st)"

text \<open>\<open>not context.is_valid() or not self._has_capability(...)\<close>, short-circuit.\<close>

definition authorized ::
  "env \<Rightarrow> verifier \<Rightarrow> int \<Rightarrow> access_context \<Rightarrow> string \<Rightarrow> string \<Rightarrow> (prov_error, bool) result" where
  "authorized E vf now ctx action pid =
     (if \<not> context_is_valid now ctx then Inr False else has_capability E vf now ctx action pid)"

definition quarantine_partition ::
  "env \<Rightarrow> verifier \<Rightarrow> string \<Rightarrow> int \<Rightarrow> string \<Rightarrow> access_context \<Rightarrow> string \<Rightarrow> prov_store \<Rightarrow> unit prov_result" where
  "quarantine_partition E vf eid now pid ctx reason st =
     (case authorized E vf now ctx ''QUARANTINE'' pid of
        Inl e \<Rightarrow> (Inl e, st)
      | Inr ok \<Rightarrow>
          if \<not> ok then (Inl MissingCapability, st)
          else let st1 = st\<lparr>pv_quarantine :=
                     filter (\<lambda>q. qr_partition_id q \<noteq> pid) (pv_quarantine st) @
                     [\<lparr>qr_partition_id = pid, qr_tenant_id = cx_tenant_id ctx, qr_reason = reason,
                       qr_created_at = now, qr_created_by = cx_requester_id ctx, qr_status = ''ACTIVE''\<rparr>]\<rparr>
               in log_then E (new_event eid now ctx pid ''QUARANTINE'' ''SUCCESS'') (Inr ()) st1)"

definition unquarantine_partition ::
  "env \<Rightarrow> verifier \<Rightarrow> string \<Rightarrow> int \<Rightarrow> string \<Rightarrow> access_context \<Rightarrow> prov_store \<Rightarrow> unit prov_result" where
  "unquarantine_partition E vf eid now pid ctx st =
     (case authorized E vf now ctx ''UNQUARANTINE'' pid of
        Inl e \<Rightarrow> (Inl e, st)
      | Inr ok \<Rightarrow>
          if \<not> ok then (Inl MissingCapability, st)
          else let st1 = st\<lparr>pv_quarantine :=
                     map (\<lambda>q. if qr_partition_id q = pid then q\<lparr>qr_status := ''RELEASED''\<rparr> else q)
                       (pv_quarantine st)\<rparr>
               in log_then E (new_event eid now ctx pid ''UNQUARANTINE'' ''SUCCESS'') (Inr ()) st1)"

fun verify_audit_from :: "env \<Rightarrow> string \<Rightarrow> access_event list \<Rightarrow> bool" where
  "verify_audit_from E expected_prev [] = True"
| "verify_audit_from E expected_prev (e # es) =
     (if ae_previous_hash e \<noteq> expected_prev then False
      else if hash_audit_event E expected_prev e \<noteq> ae_event_hash e then False
      else verify_audit_from E (ae_event_hash e) es)"

definition verify_audit_chain :: "env \<Rightarrow> prov_store \<Rightarrow> bool" where
  "verify_audit_chain E st = verify_audit_from E genesis_audit (pv_audit st)"

definition prov_clear :: "prov_store \<Rightarrow> prov_store" where
  "prov_clear st = st\<lparr>pv_partitions := [], pv_quarantine := [], pv_audit := []\<rparr>"

datatype prov_call =
    PWrite string json access_context
  | PRead string access_context
  | PQuarantine string access_context string
  | PUnquarantine string access_context
  | PClear

text \<open>A call with the event identifier, the time and the verifier (secret, revocations) it uses.\<close>

record prov_env =
  pe_event_id :: string
  pe_now :: int
  pe_verifier :: verifier

fun prov_step :: "env \<Rightarrow> prov_env \<times> prov_call \<Rightarrow> prov_store \<Rightarrow> prov_store" where
  "prov_step E (p, PWrite pid data ctx) st =
     snd (prov_write E (pe_event_id p) (pe_now p) pid data ctx st)"
| "prov_step E (p, PRead pid ctx) st =
     snd (prov_read E (pe_verifier p) (pe_event_id p) (pe_now p) pid ctx st)"
| "prov_step E (p, PQuarantine pid ctx reason) st =
     snd (quarantine_partition E (pe_verifier p) (pe_event_id p) (pe_now p) pid ctx reason st)"
| "prov_step E (p, PUnquarantine pid ctx) st =
     snd (unquarantine_partition E (pe_verifier p) (pe_event_id p) (pe_now p) pid ctx st)"
| "prov_step E (p, PClear) st = prov_clear st"

subsection \<open>Quarantine\<close>

lemma log_then_tables [simp]:
  "pv_partitions (snd (log_then E e r st)) = pv_partitions st"
  "pv_quarantine (snd (log_then E e r st)) = pv_quarantine st"
  by (auto simp: log_then_def log_audit_def Let_def split: prod.splits sum.splits)

lemma log_then_Inr: "fst (log_then E e r st) = Inr x \<Longrightarrow> r = Inr x"
  by (auto simp: log_then_def log_audit_def Let_def split: prod.splits sum.splits if_splits)

lemma is_quarantined_log_then [simp]: "is_quarantined pid (snd (log_then E e r st)) = is_quarantined pid st"
  by (simp add: is_quarantined_def)

lemma is_quarantined_partitions [simp]: "is_quarantined pid (st\<lparr>pv_partitions := x\<rparr>) = is_quarantined pid st"
  by (simp add: is_quarantined_def)

lemma find_filter_other:
  "x \<noteq> y \<Longrightarrow> List.find (\<lambda>q. f q = x) (filter (\<lambda>q. f q \<noteq> y) qs) = List.find (\<lambda>q. f q = x) qs"
  by (induction qs) auto

lemma is_quarantined_insert:
  "is_quarantined pid (st\<lparr>pv_quarantine := filter (\<lambda>q. qr_partition_id q \<noteq> p) (pv_quarantine st) @
     [\<lparr>qr_partition_id = p, qr_tenant_id = t, qr_reason = r, qr_created_at = n, qr_created_by = c,
       qr_status = ''ACTIVE''\<rparr>]\<rparr>) \<longleftrightarrow> pid = p \<or> is_quarantined pid st"
proof (cases "pid = p")
  case True
  have "List.find (\<lambda>q. qr_partition_id q = p) (filter (\<lambda>q. qr_partition_id q \<noteq> p) (pv_quarantine st)) = None"
    by (auto simp: find_None_iff)
  then show ?thesis using True by (simp add: is_quarantined_def)
next
  case False
  then show ?thesis
    by (simp add: is_quarantined_def find_filter_other split: option.splits)
qed

lemma is_quarantined_release:
  "pid \<noteq> p \<Longrightarrow> is_quarantined pid (st\<lparr>pv_quarantine :=
     map (\<lambda>q. if qr_partition_id q = p then q\<lparr>qr_status := s\<rparr> else q) (pv_quarantine st)\<rparr>) =
   is_quarantined pid st"
proof -
  assume a: "pid \<noteq> p"
  have "(case List.find (\<lambda>q. qr_partition_id q = pid)
      (map (\<lambda>q. if qr_partition_id q = p then q\<lparr>qr_status := s\<rparr> else q) qs) of
        None \<Rightarrow> False | Some q \<Rightarrow> qr_status q = ''ACTIVE'') =
    (case List.find (\<lambda>q. qr_partition_id q = pid) qs of None \<Rightarrow> False | Some q \<Rightarrow> qr_status q = ''ACTIVE'')" for qs
    using a by (induction qs) auto
  then show ?thesis by (simp add: is_quarantined_def)
qed

text \<open>
  A call that lifts the quarantine of a partition: an authorised \<open>unquarantine_partition\<close>, or \<open>clear\<close>, which
  asks for no authorisation.
\<close>

fun lifts :: "env \<Rightarrow> string \<Rightarrow> prov_env \<times> prov_call \<Rightarrow> bool" where
  "lifts E pid (p, PUnquarantine pid' ctx) \<longleftrightarrow>
     pid' = pid \<and> authorized E (pe_verifier p) (pe_now p) ctx ''UNQUARANTINE'' pid' = Inr True"
| "lifts E pid (p, PClear) \<longleftrightarrow> True"
| "lifts E pid (p, _) \<longleftrightarrow> False"

lemma quarantined_step:
  assumes "is_quarantined pid st" "\<not> lifts E pid c"
  shows "is_quarantined pid (prov_step E c st) \<and>
    map_of (pv_partitions (prov_step E c st)) pid = map_of (pv_partitions st) pid"
  using assms
proof (cases "(E, c, st)" rule: prov_step.cases)
  case (1 E' p pid' data ctx st')
  then show ?thesis using assms by (auto simp: prov_write_def Let_def)
next
  case (2 E' p pid' ctx st')
  then show ?thesis using assms by (auto simp: prov_read_def Let_def split: sum.splits)
next
  case (3 E' p pid' ctx reason st')
  then show ?thesis using assms
    by (auto simp: quarantine_partition_def Let_def is_quarantined_insert split: sum.splits)
next
  case (4 E' p pid' ctx st')
  then show ?thesis using assms
    by (cases "pid' = pid") (auto simp: unquarantine_partition_def Let_def is_quarantined_release split: sum.splits)
next
  case (5 E' p st')
  then show ?thesis using assms by simp
qed

lemma authorized_covers:
  "authorized E vf now ctx action pid = Inr True \<Longrightarrow>
     \<exists>cap\<in>set (cx_capabilities ctx). capability_covers E vf now ctx action pid cap"
  by (auto simp: authorized_def has_capability_def dest: has_capability_in_covers split: if_splits)

text \<open>
  C29. Quarantine is enforced on a store that is not cleared: of all calls of the store, in any order and
  with any outcome, only an \<open>unquarantine_partition\<close> with a valid UNQUARANTINE capability for the partition and
  the unauthenticated \<open>clear\<close> end a quarantine. As long as neither is called a quarantined partition stays
  quarantined and its contents do not change; a write to it never succeeds, and a read returns data only to a
  context holding a valid FORENSIC_READ capability for it. After \<open>clear\<close> no partition is quarantined and nothing
  of its contents or of the audit is left, whoever called it.
\<close>

theorem quarantine_enforced:
  assumes "is_quarantined pid st" "\<forall>c\<in>set cs. \<not> lifts E pid c"
  shows "is_quarantined pid (fold (prov_step E) cs st) \<and>
    map_of (pv_partitions (fold (prov_step E) cs st)) pid = map_of (pv_partitions st) pid \<and>
    (\<forall>eid now data ctx. fst (prov_write E eid now pid data ctx (fold (prov_step E) cs st)) \<noteq> Inr ()) \<and>
    (\<forall>vf eid now ctx data. fst (prov_read E vf eid now pid ctx (fold (prov_step E) cs st)) = Inr data \<longrightarrow>
       (\<exists>cap\<in>set (cx_capabilities ctx). capability_covers E vf now ctx ''FORENSIC_READ'' pid cap)) \<and>
    (\<forall>p. \<not> is_quarantined pid (prov_step E (p, PClear) st) \<and> pv_partitions (prov_step E (p, PClear) st) = [] \<and>
       pv_audit (prov_step E (p, PClear) st) = [])"
proof -
  have q: "is_quarantined pid (fold (prov_step E) cs st) \<and>
      map_of (pv_partitions (fold (prov_step E) cs st)) pid = map_of (pv_partitions st) pid"
    using assms
  proof (induction cs rule: rev_induct)
    case (snoc c cs)
    then show ?case using quarantined_step [of pid "fold (prov_step E) cs st" E c] by simp
  qed simp
  moreover have "fst (prov_write E eid now pid data ctx s) \<noteq> Inr ()" if "is_quarantined pid s" for eid now data ctx s
    using that by (auto simp: prov_write_def dest: log_then_Inr)
  moreover have "\<exists>cap\<in>set (cx_capabilities ctx). capability_covers E vf now ctx ''FORENSIC_READ'' pid cap"
    if "is_quarantined pid s" "fst (prov_read E vf eid now pid ctx s) = Inr data" for vf eid now ctx data s
    using that
    by (auto simp: prov_read_def Let_def has_capability_def split: if_splits sum.splits
        dest: log_then_Inr has_capability_in_covers)
  moreover have "\<not> is_quarantined pid (prov_clear st) \<and> pv_partitions (prov_clear st) = [] \<and> pv_audit (prov_clear st) = []"
    by (simp add: prov_clear_def is_quarantined_def)
  ultimately show ?thesis by auto
qed

subsection \<open>The access audit\<close>

lemma verify_audit_from_iff:
  "verify_audit_from E g es \<longleftrightarrow>
     linked ae_previous_hash ae_event_hash g es \<and>
     (\<forall>e\<in>set es. ae_event_hash e = hash_audit_event E (ae_previous_hash e) e)"
  by (induction E g es rule: verify_audit_from.induct) auto

lemma hash_audit_event_update [simp]:
  "hash_audit_event E p (e\<lparr>ae_event_hash := h, ae_previous_hash := q\<rparr>) = hash_audit_event E p e"
  by (simp add: hash_audit_event_def audit_event_data_def)

lemma log_then_audit: "verify_audit_chain E st \<Longrightarrow> verify_audit_chain E (snd (log_then E e r st))"
  by (auto simp: verify_audit_chain_def verify_audit_from_iff log_then_def log_audit_def Let_def
      split: prod.splits sum.splits if_splits)

lemma verify_audit_tables [simp]:
  "verify_audit_chain E (st\<lparr>pv_partitions := x\<rparr>) = verify_audit_chain E st"
  "verify_audit_chain E (st\<lparr>pv_quarantine := y\<rparr>) = verify_audit_chain E st"
  by (simp_all add: verify_audit_chain_def)

lemma prov_step_audit: "verify_audit_chain E st \<Longrightarrow> verify_audit_chain E (prov_step E c st)"
  by (cases "(E, c, st)" rule: prov_step.cases)
     (auto simp: prov_clear_def verify_audit_chain_def [of E "st\<lparr>pv_partitions := [], pv_quarantine := [], pv_audit := []\<rparr>"]
       prov_write_def prov_read_def quarantine_partition_def unquarantine_partition_def Let_def
       log_then_audit split: sum.splits)

text \<open>
  The access audit always verifies: after any sequence of writes, reads, quarantines,
  releases and clears, by any callers and with any outcome, \<open>verify_audit_chain\<close> holds.
\<close>

theorem access_audit_verifies: "verify_audit_chain E (fold (prov_step E) cs empty_prov)"
proof (induction cs rule: rev_induct)
  case Nil
  show ?case by (simp add: verify_audit_chain_def empty_prov_def)
qed (simp add: prov_step_audit)

definition access_msg :: "env \<Rightarrow> access_event \<Rightarrow> string" where
  "access_msg E e = utf8 (audit_event_data E (ae_previous_hash e) e)"

definition access_ok :: "env \<Rightarrow> access_event \<Rightarrow> bool" where
  "access_ok E e \<longleftrightarrow> ae_event_hash e = hash_audit_event E (ae_previous_hash e) e \<and>
     CHR ''|'' \<notin> set (ae_previous_hash e)"

text \<open>Digests without a bar are delimited by the bar that follows them.\<close>

lemma access_msg_prev:
  assumes "access_ok E e" "access_ok E e'" "access_msg E e = access_msg E e'"
  shows "ae_previous_hash e = ae_previous_hash e'"
proof -
  define rest where "rest x = CHR ''|'' # ae_event_id x @ ''|'' @ ae_requester x @ ''|'' @
     ae_tenant x @ ''|'' @ ae_partition x @ ''|'' @ ae_action x @ ''|'' @
     (case ae_capability_id x of None \<Rightarrow> ''None'' | Some c \<Rightarrow> c) @ ''|'' @ ae_policy_version x @ ''|'' @
     ae_result x @ ''|'' @ iso E (ae_timestamp x)" for x :: access_event
  have d: "audit_event_data E (ae_previous_hash x) x = ''DGX-AUDIT-EVENT-V1|'' @ ae_previous_hash x @ rest x" for x
    by (simp add: audit_event_data_def rest_def)
  have "ae_previous_hash e @ rest e = ae_previous_hash e' @ rest e'"
    using utf8_inj [OF assms(3) [unfolded access_msg_def]] d by simp
  then have "ae_previous_hash e = ae_previous_hash e' \<and> rest e = rest e'"
    using assms(1,2)
    by (intro takeWhile_split_unique [where P = "\<lambda>c. c \<noteq> CHR ''|''"]) (auto simp: access_ok_def rest_def)
  then show ?thesis ..
qed

interpretation access: hash_chain ae_previous_hash ae_event_hash "access_msg E" "sha256 E" "access_ok E" for E
proof unfold_locales
  show "access_ok E e \<Longrightarrow> ae_event_hash e = sha256 E (access_msg E e)" for e
    by (simp add: access_ok_def hash_audit_event_def access_msg_def)
qed (rule access_msg_prev)

text \<open>
  What the access audit detects: two audit tables that both verify and end in the same
  event hash contain the same sequence of hashed texts, so the same number of events in the
  same order, or two of those texts collide. (Digests are hexadecimal: they contain no bar
  and are not the genesis text.) The texts do not determine the fields, see
  \<open>audit_fields_ambiguous\<close>.
\<close>

theorem access_audit_same_texts:
  assumes "\<forall>m. CHR ''|'' \<notin> set (sha256 E m)" "\<forall>m. sha256 E m \<noteq> genesis_audit"
    and "verify_audit_chain E st" "verify_audit_chain E st'"
    and "pv_audit st \<noteq> []" "pv_audit st' \<noteq> []"
    and "ae_event_hash (last (pv_audit st)) = ae_event_hash (last (pv_audit st'))"
  shows "map (access_msg E) (pv_audit st) = map (access_msg E) (pv_audit st') \<or>
    collision_between (sha256 E) (access_msg E ` set (pv_audit st)) (access_msg E ` set (pv_audit st'))"
proof -
  have ok: "access_ok E e" if v: "verify_audit_chain E s" and e: "e \<in> set (pv_audit s)" for s e
  proof -
    have l: "linked ae_previous_hash ae_event_hash genesis_audit (pv_audit s)"
      and h: "\<forall>e\<in>set (pv_audit s). ae_event_hash e = hash_audit_event E (ae_previous_hash e) e"
      using v by (auto simp: verify_audit_chain_def verify_audit_from_iff)
    obtain xs ys where s: "pv_audit s = xs @ e # ys" using split_list [OF e] by blast
    then have "ae_previous_hash e = (if xs = [] then genesis_audit else ae_event_hash (last xs))"
      using l by (auto simp: linked_append)
    moreover have "CHR ''|'' \<notin> set (ae_event_hash (last xs))" if "xs \<noteq> []"
      using h s that assms(1) by (simp add: hash_audit_event_def)
    ultimately show ?thesis using h e by (auto simp: access_ok_def genesis_audit_def)
  qed
  have g: "genesis_audit \<notin> ae_event_hash ` set (pv_audit s)" if "verify_audit_chain E s" for s
  proof
    assume "genesis_audit \<in> ae_event_hash ` set (pv_audit s)"
    then obtain e where "e \<in> set (pv_audit s)" "ae_event_hash e = genesis_audit" by auto
    with that have "hash_audit_event E (ae_previous_hash e) e = genesis_audit"
      by (simp add: verify_audit_chain_def verify_audit_from_iff)
    with assms(2) show False by (simp add: hash_audit_event_def)
  qed
  show ?thesis
    using assms(3-7) ok g
    by (intro access.same_head_same_messages [where g = genesis_audit])
       (auto simp: verify_audit_chain_def verify_audit_from_iff)
qed

text \<open>
  The hashed text joins the fields with bars without escaping, so an event can be rewritten
  (here, moving text from the tenant into the requester) without changing any hash.
\<close>

lemma audit_fields_ambiguous:
  "\<exists>e e'. ae_requester e \<noteq> ae_requester e' \<and> ae_tenant e \<noteq> ae_tenant e' \<and>
     hash_audit_event E p e = hash_audit_event E p e'"
proof -
  let ?c = "\<lambda>r t. \<lparr>cx_requester_id = r, cx_tenant_id = t, cx_capabilities = [], cx_expires_at = 0\<rparr>"
  let ?e = "new_event ''id'' 0 (?c ''a'' ''b|c'') ''p'' ''READ'' ''ALLOWED''"
  let ?e' = "new_event ''id'' 0 (?c ''a|b'' ''c'') ''p'' ''READ'' ''ALLOWED''"
  show ?thesis
    by (intro exI [of _ ?e] exI [of _ ?e']) (simp add: new_event_def hash_audit_event_def audit_event_data_def)
qed

subsection \<open>Tenants\<close>

lemma in_tenant_iff: "in_tenant t pid \<longleftrightarrow> (\<exists>rest. pid = t @ CHR ''_'' # rest)"
  by (auto simp: in_tenant_def) (metis append_Cons append_Nil append_assoc append_take_drop_id)

text \<open>
  Tenant isolation: when the tenant identifiers contain no underscore, a partition one
  tenant has written is never read by another tenant.
\<close>

theorem tenants_isolated:
  assumes "CHR ''_'' \<notin> set (cx_tenant_id ctx)" "CHR ''_'' \<notin> set (cx_tenant_id ctx')"
    and "fst (prov_write E eid now pid data ctx st) = Inr ()"
    and "fst (prov_read E vf eid' now' pid ctx' st') = Inr xs"
  shows "cx_tenant_id ctx = cx_tenant_id ctx'"
proof -
  have "in_tenant (cx_tenant_id ctx) pid" "in_tenant (cx_tenant_id ctx') pid"
    using assms(3,4) by (auto simp: prov_write_def prov_read_def Let_def split: if_splits)
  then obtain r r' where "cx_tenant_id ctx @ CHR ''_'' # r = cx_tenant_id ctx' @ CHR ''_'' # r'"
    by (auto simp: in_tenant_iff)
  then have "cx_tenant_id ctx = cx_tenant_id ctx' \<and> CHR ''_'' # r = CHR ''_'' # r'"
    using assms(1,2) by (intro takeWhile_split_unique [where P = "\<lambda>c. c \<noteq> CHR ''_''"]) auto
  then show ?thesis ..
qed

text \<open>With an underscore in an identifier, tenant \<open>a\<close> reads what tenant \<open>a_b\<close> wrote.\<close>

definition ctx_of :: "string \<Rightarrow> capability list \<Rightarrow> access_context" where
  "ctx_of t caps = \<lparr>cx_requester_id = ''u'', cx_tenant_id = t, cx_capabilities = caps, cx_expires_at = 100\<rparr>"

lemma underscore_breaks_isolation:
  "fst (prov_read E vf ''e2'' 2 ''a_b_notes'' (ctx_of ''a'' [])
     (snd (prov_write E ''e1'' 1 ''a_b_notes'' (JStr ''secret'') (ctx_of ''a_b'' []) empty_prov))) =
   Inr [JStr ''secret'']"
  by (simp add: prov_read_def prov_write_def Let_def context_is_valid_def ctx_of_def in_tenant_def
      is_quarantined_def empty_prov_def log_then_def log_audit_def new_event_def)

subsection \<open>Examples\<close>

definition prov_demo_env :: env where
  "prov_demo_env =
     \<lparr>sha256 = (\<lambda>m. CHR ''h'' # filter (\<lambda>c. c \<noteq> CHR ''|'') m), float_repr = ratio_repr, iso = int_str,
      ed25519_verify = (\<lambda>pk m s. EdInvalidSignature), ed25519_sign = (\<lambda>sk m. []),
      hmac_sha256 = (\<lambda>k m. k @ m), b64_encode = (\<lambda>x. CHR ''='' # x),
      b64_decode = (\<lambda>s. case s of [] \<Rightarrow> None | c # x \<Rightarrow> Some x)\<rparr>"

definition demo_token :: "string \<Rightarrow> capability" where
  "demo_token action =
     \<lparr>cp_capability_id = ''c1'', cp_requester_id = ''u'', cp_tenant_id = ''a'', cp_action = action,
      cp_resource = ''*'', cp_issued_at = 0, cp_expires_at = 50, cp_issuer = ''DriftGuard-X'',
      cp_nonce = ''n'', cp_policy_version = ''1.0'', cp_signature = []\<rparr>"

definition demo_cap :: "string \<Rightarrow> capability" where
  "demo_cap action = capability_sign prov_demo_env ''key'' (demo_token action)"

lemma demo_token_fields [simp]:
  "cp_action (demo_token a) = a" "cp_resource (demo_token a) = ''*''" "cp_expires_at (demo_token a) = 50"
  "cp_requester_id (demo_token a) = ''u''" "cp_tenant_id (demo_token a) = ''a''"
  by (simp_all add: demo_token_def)

lemma b64_demo [simp]:
  "b64_decode prov_demo_env (b64_encode prov_demo_env x) = Some x" "b64_encode prov_demo_env x \<noteq> []"
  by (simp_all add: prov_demo_env_def)

abbreviation demo_verifier :: verifier where
  "demo_verifier \<equiv> \<lparr>vf_secret = ''key'', vf_revoked = []\<rparr>"

lemma demo_cap_covers:
  "capability_covers prov_demo_env demo_verifier 1 (ctx_of ''a'' caps) action pid (demo_cap action)"
  using capability_sign_covers [of prov_demo_env _ demo_verifier "demo_token action" 1 "ctx_of ''a'' caps" pid]
  by (simp add: demo_cap_def ctx_of_def is_revoked_def)

lemma demo_authorized:
  "authorized prov_demo_env demo_verifier 1 (ctx_of ''a'' [demo_cap action]) action pid = Inr True"
proof -
  have "capability_verify prov_demo_env demo_verifier 1 (demo_cap action) (ctx_of ''a'' [demo_cap action]) action pid = Inr True"
    using demo_cap_covers by (simp add: capability_verify_iff)
  moreover have "cp_action (demo_cap action) = action" "cp_resource (demo_cap action) = ''*''"
    by (simp_all add: demo_cap_def capability_sign_def)
  ultimately show ?thesis
    by (simp add: authorized_def has_capability_def context_is_valid_def ctx_of_def)
qed

definition demo_quarantine :: "prov_env \<times> prov_call" where
  "demo_quarantine =
     (\<lparr>pe_event_id = ''e1'', pe_now = 1, pe_verifier = demo_verifier\<rparr>,
      PQuarantine ''a_x'' (ctx_of ''a'' [demo_cap ''QUARANTINE'']) ''drift'')"

lemma demo_quarantined: "is_quarantined ''a_x'' (prov_step prov_demo_env demo_quarantine empty_prov)"
  by (simp add: demo_quarantine_def quarantine_partition_def demo_authorized Let_def is_quarantined_insert)

theorem capability_binding_witness:
  "capability_verify prov_demo_env demo_verifier 1 (demo_cap ''READ'') (ctx_of ''a'' []) ''READ'' ''a_x'' = Inr True"
proof -
  have c: "float_repr_ok (float_repr prov_demo_env)" "inj (iso prov_demo_env)"
    by (simp_all add: prov_demo_env_def inj_def inj_int_str float_repr_ok_ratio_repr)
  show ?thesis
    using capability_binding [OF c, where vf = demo_verifier and now = 1 and ctx = "ctx_of ''a'' []"
        and resource = "''a_x''" and orig = "demo_token ''READ''"]
    by (simp add: demo_cap_def ctx_of_def is_revoked_def)
qed

theorem quarantine_enforced_witness:
  "is_quarantined ''a_x'' (prov_step prov_demo_env demo_quarantine empty_prov) \<and>
   fst (prov_write prov_demo_env ''e9'' 2 ''a_x'' JNull (ctx_of ''a'' [])
     (fold (prov_step prov_demo_env)
       [(\<lparr>pe_event_id = ''e2'', pe_now = 1, pe_verifier = demo_verifier\<rparr>, PUnquarantine ''a_x'' (ctx_of ''b'' []))]
       (prov_step prov_demo_env demo_quarantine empty_prov))) \<noteq> Inr ()"
proof -
  let ?cs = "[(\<lparr>pe_event_id = ''e2'', pe_now = 1, pe_verifier = demo_verifier\<rparr>, PUnquarantine ''a_x'' (ctx_of ''b'' []))]"
  have "\<forall>c\<in>set ?cs. \<not> lifts prov_demo_env ''a_x'' c"
    by (simp add: authorized_def has_capability_def ctx_of_def context_is_valid_def)
  from quarantine_enforced [OF demo_quarantined this] demo_quarantined show ?thesis by blast
qed

theorem access_audit_same_texts_witness:
  "pv_audit (prov_step prov_demo_env demo_quarantine empty_prov) \<noteq> [] \<and>
   map (access_msg prov_demo_env) (pv_audit (prov_step prov_demo_env demo_quarantine empty_prov)) =
   map (access_msg prov_demo_env) (pv_audit
     ((prov_step prov_demo_env demo_quarantine empty_prov)\<lparr>pv_partitions := [(''a_y'', [JNull])]\<rparr>))"
proof -
  let ?st = "prov_step prov_demo_env demo_quarantine empty_prov"
  let ?st' = "?st\<lparr>pv_partitions := [(''a_y'', [JNull])]\<rparr>"
  have h: "\<forall>m. CHR ''|'' \<notin> set (sha256 prov_demo_env m)" "\<forall>m. sha256 prov_demo_env m \<noteq> genesis_audit"
    by (simp_all add: prov_demo_env_def genesis_audit_def)
  have v: "verify_audit_chain prov_demo_env ?st"
    by (rule prov_step_audit) (simp add: verify_audit_chain_def empty_prov_def)
  then have v': "verify_audit_chain prov_demo_env ?st'" by simp
  have n: "pv_audit ?st \<noteq> []"
    by (simp add: demo_quarantine_def quarantine_partition_def demo_authorized Let_def log_then_def log_audit_def
        empty_prov_def)
  then have "pv_audit ?st' \<noteq> []" by simp
  from access_audit_same_texts [OF h v v' n this] n show ?thesis by simp
qed

theorem tenants_isolated_witness:
  "fst (prov_write prov_demo_env ''e1'' 1 ''a_x'' (JStr ''d'') (ctx_of ''a'' []) empty_prov) = Inr () \<and>
   (\<nexists>xs. fst (prov_read prov_demo_env demo_verifier ''e2'' 1 ''a_x'' (ctx_of ''b'' []) empty_prov) = Inr xs)"
proof -
  have w: "fst (prov_write prov_demo_env ''e1'' 1 ''a_x'' (JStr ''d'') (ctx_of ''a'' []) empty_prov) = Inr ()"
    by (simp add: prov_write_def Let_def context_is_valid_def ctx_of_def in_tenant_def
      is_quarantined_def empty_prov_def log_then_def log_audit_def)
  have "cx_tenant_id (ctx_of ''b'' []) = ''b''" "cx_tenant_id (ctx_of ''a'' []) = ''a''"
    by (simp_all add: ctx_of_def)
  with w tenants_isolated [OF _ _ w, where ctx' = "ctx_of ''b'' []"] show ?thesis by fastforce
qed

end
