(* ===== verification/Recovery_Executor.thy ===== *)
theory Recovery_Executor
  imports Admission_Store Provenance_Store
begin

section \<open>Recovery actions, rollback capsules and the executor\<close>

text \<open>
  \<open>packages/recovery/src/actions.py\<close>, \<open>capsule.py\<close> and \<open>executor.py\<close>: the allowlist of recovery
  actions and its parameter check, the rollback capsule with its integrity hash and registry,
  the guards that every executor runs before it applies an action, the development executor
  on its fixture stores, compensation, and execution under a durable admission receipt.

  Parameter values are JSON values. The fixture stores are association lists keyed by JSON
  values; a list or an object as a key raises \<open>TypeError\<close>. Descriptions meant for people are
  left out of the results; error codes are kept. An operation returns its outcome with the new
  state, since some paths raise after they have changed it.
\<close>

subsection \<open>Actions\<close>

datatype action_type =
    INCREASE_TOP_K | RETRY_HYBRID_RETRIEVAL | SWITCH_STABLE_INDEX | RERANK | ROUTE_STABLE_MODEL
  | DISABLE_TEST_TOOL | QUARANTINE_MEMORY_NS | QUARANTINE_PROVENANCE_PARTITION
  | REVERT_PROMPT_VERSION | ROLLBACK_COMPONENT

fun action_value :: "action_type \<Rightarrow> string" where
  "action_value INCREASE_TOP_K = ''increase_top_k''"
| "action_value RETRY_HYBRID_RETRIEVAL = ''retry_hybrid_retrieval''"
| "action_value SWITCH_STABLE_INDEX = ''switch_stable_index''"
| "action_value RERANK = ''rerank''"
| "action_value ROUTE_STABLE_MODEL = ''route_stable_model''"
| "action_value DISABLE_TEST_TOOL = ''disable_test_tool''"
| "action_value QUARANTINE_MEMORY_NS = ''quarantine_memory_ns''"
| "action_value QUARANTINE_PROVENANCE_PARTITION = ''quarantine_provenance_partition''"
| "action_value REVERT_PROMPT_VERSION = ''revert_prompt_version''"
| "action_value ROLLBACK_COMPONENT = ''rollback_component''"

datatype execution_mode = DRY_RUN | SIMULATION | MANUAL | APPROVED

record action_definition =
  ad_risk_tier :: string
  ad_is_reversible :: bool
  ad_required_params :: "string list"
  ad_optional_params :: "string list"

text \<open>The registry has an entry for every action, so the allowlist guard never refuses one.\<close>

fun action_registry :: "action_type \<Rightarrow> action_definition" where
  "action_registry INCREASE_TOP_K =
     \<lparr>ad_risk_tier = ''low'', ad_is_reversible = True,
      ad_required_params = [''component_id'', ''new_top_k''], ad_optional_params = [''max_allowed_top_k'']\<rparr>"
| "action_registry RETRY_HYBRID_RETRIEVAL =
     \<lparr>ad_risk_tier = ''low'', ad_is_reversible = True,
      ad_required_params = [''component_id'', ''strategy''], ad_optional_params = [''alpha'']\<rparr>"
| "action_registry SWITCH_STABLE_INDEX =
     \<lparr>ad_risk_tier = ''medium'', ad_is_reversible = True,
      ad_required_params = [''component_id'', ''target_index_id''], ad_optional_params = [''verify_checksum'']\<rparr>"
| "action_registry RERANK =
     \<lparr>ad_risk_tier = ''low'', ad_is_reversible = True,
      ad_required_params = [''component_id'', ''reranker_id''], ad_optional_params = [''top_n'']\<rparr>"
| "action_registry ROUTE_STABLE_MODEL =
     \<lparr>ad_risk_tier = ''medium'', ad_is_reversible = True,
      ad_required_params = [''component_id'', ''stable_model_alias''], ad_optional_params = [''max_tokens'']\<rparr>"
| "action_registry DISABLE_TEST_TOOL =
     \<lparr>ad_risk_tier = ''medium'', ad_is_reversible = True,
      ad_required_params = [''tool_id''], ad_optional_params = [''reason'']\<rparr>"
| "action_registry QUARANTINE_MEMORY_NS =
     \<lparr>ad_risk_tier = ''medium'', ad_is_reversible = True,
      ad_required_params = [''namespace_id'', ''tenant_id''], ad_optional_params = [''ttl_hours'']\<rparr>"
| "action_registry QUARANTINE_PROVENANCE_PARTITION =
     \<lparr>ad_risk_tier = ''medium'', ad_is_reversible = True,
      ad_required_params = [''partition_id''],
      ad_optional_params = [''document_set'', ''tool_route'', ''preserve_challenge_examples'']\<rparr>"
| "action_registry REVERT_PROMPT_VERSION =
     \<lparr>ad_risk_tier = ''medium'', ad_is_reversible = True,
      ad_required_params = [''prompt_id'', ''target_version_tag''], ad_optional_params = [''reason'']\<rparr>"
| "action_registry ROLLBACK_COMPONENT =
     \<lparr>ad_risk_tier = ''high'', ad_is_reversible = True,
      ad_required_params = [''component_id'', ''target_version_id'', ''expected_current_version_id''],
      ad_optional_params = [''dry_run'']\<rparr>"

type_synonym params = "(string \<times> json) list"

record proposal =
  pp_action_type :: action_type
  pp_tenant_id :: string
  pp_node_id :: string
  pp_run_id :: string
  pp_diagnosis_id :: string
  pp_requester_id :: string
  pp_params :: params
  pp_execution_mode :: execution_mode
  pp_idempotency_key :: string
  pp_expected_version_id :: "string option"
  pp_certificate_id :: "string option"
  pp_proposal_id :: string
  pp_policy_decision :: "string option"
  pp_approval_request_id :: "string option"
  pp_admission_receipt_id :: "string option"
  pp_admission_binding :: params

definition param_hash :: "env \<Rightarrow> proposal \<Rightarrow> string" where
  "param_hash E p =
     take 16 (sha256 E (utf8 (dumps default_style (float_repr E)
       (JObj [(''action'', JStr (action_value (pp_action_type p))), (''params'', JObj (pp_params p))]))))"

datatype param_issue = MissingParam string | UnknownParam string

definition validate_params :: "proposal \<Rightarrow> param_issue list" where
  "validate_params p =
     (let defn = action_registry (pp_action_type p) in
      map MissingParam (filter (\<lambda>k. k \<notin> fst ` set (pp_params p)) (ad_required_params defn)) @
      map UnknownParam (filter (\<lambda>k. k \<notin> set (ad_required_params defn) \<union> set (ad_optional_params defn))
        (map fst (pp_params p))))"

subsection \<open>Rollback capsules\<close>

datatype capsule_status = ACTIVE | USED | CAPSULE_EXPIRED | CAPSULE_VOIDED

record constraint =
  cc_component_id :: json
  cc_expected_version_id :: string
  cc_description :: string

record capsule =
  cs_capsule_id :: string
  cs_proposal_id :: string
  cs_action_type :: string
  cs_tenant_id :: string
  cs_component_id :: json
  cs_previous_state :: params
  cs_target_state :: params
  cs_artifact_hashes :: params
  cs_constraints :: "constraint list"
  cs_rollback_params :: params
  cs_verify_steps :: "string list"
  cs_status :: capsule_status
  cs_created_at :: int
  cs_expires_at :: int
  cs_used_at :: "int option"
  cs_created_by :: string
  cs_integrity_hash :: string

definition constraint_doc :: "constraint \<Rightarrow> json" where
  "constraint_doc c =
     JObj [(''component_id'', cc_component_id c), (''expected_version_id'', JStr (cc_expected_version_id c)),
           (''description'', JStr (cc_description c))]"

definition capsule_document :: "env \<Rightarrow> capsule \<Rightarrow> (string \<times> json) list" where
  "capsule_document E c =
     [(''capsule_id'', JStr (cs_capsule_id c)),
      (''proposal_id'', JStr (cs_proposal_id c)),
      (''action_type'', JStr (cs_action_type c)),
      (''tenant_id'', JStr (cs_tenant_id c)),
      (''component_id'', cs_component_id c),
      (''previous_state'', JObj (cs_previous_state c)),
      (''target_state'', JObj (cs_target_state c)),
      (''artifact_hashes'', JObj (cs_artifact_hashes c)),
      (''compatibility_constraints'', JList (map constraint_doc (cs_constraints c))),
      (''rollback_params'', JObj (cs_rollback_params c)),
      (''verify_steps'', JList (map JStr (cs_verify_steps c))),
      (''created_at'', JStr (iso E (cs_created_at c))),
      (''expires_at'', JStr (iso E (cs_expires_at c))),
      (''created_by'', JStr (cs_created_by c))]"

definition capsule_message :: "env \<Rightarrow> capsule \<Rightarrow> string" where
  "capsule_message E c = utf8 (dumps default_style (float_repr E) (JObj (capsule_document E c)))"

definition compute_integrity :: "env \<Rightarrow> capsule \<Rightarrow> string" where
  "compute_integrity E c = sha256 E (capsule_message E c)"

definition capsule_post_init :: "env \<Rightarrow> capsule \<Rightarrow> capsule" where
  "capsule_post_init E c = c\<lparr>cs_integrity_hash := compute_integrity E c\<rparr>"

definition verify_integrity :: "env \<Rightarrow> capsule \<Rightarrow> bool" where
  "verify_integrity E c \<longleftrightarrow> compute_integrity E c = cs_integrity_hash c"

datatype unusable = AlreadyConsumed | VoidedByOperator | ExpiredCapsule | IntegrityFailed

definition is_usable :: "env \<Rightarrow> int \<Rightarrow> capsule \<Rightarrow> unusable option" where
  "is_usable E now c =
     (if cs_status c = USED then Some AlreadyConsumed
      else if cs_status c = CAPSULE_VOIDED then Some VoidedByOperator
      else if cs_status c = CAPSULE_EXPIRED \<or> cs_expires_at c < now then Some ExpiredCapsule
      else if \<not> verify_integrity E c then Some IntegrityFailed
      else None)"

definition check_compatibility :: "(json \<times> json) list \<Rightarrow> capsule \<Rightarrow> constraint list" where
  "check_compatibility live_versions c =
     filter (\<lambda>k. map_of live_versions (cc_component_id k) \<noteq> Some (JStr (cc_expected_version_id k)))
       (cs_constraints c)"

definition seal_used :: "int \<Rightarrow> capsule \<Rightarrow> capsule" where
  "seal_used now c = c\<lparr>cs_status := USED, cs_used_at := Some now\<rparr>"

type_synonym capsules = "(string \<times> capsule) list"

definition capsule_store :: "capsule \<Rightarrow> capsules \<Rightarrow> capsules" where
  "capsule_store c reg = dict_put (cs_capsule_id c) c reg"

text \<open>Looking a capsule up marks it expired when its time has passed.\<close>

definition capsule_get :: "int \<Rightarrow> string \<Rightarrow> capsules \<Rightarrow> capsule option \<times> capsules" where
  "capsule_get now capsule_id reg =
     (case map_of reg capsule_id of
        None \<Rightarrow> (None, reg)
      | Some c \<Rightarrow>
          if cs_status c = ACTIVE \<and> cs_expires_at c < now
          then (Some (c\<lparr>cs_status := CAPSULE_EXPIRED\<rparr>),
                dict_put capsule_id (c\<lparr>cs_status := CAPSULE_EXPIRED\<rparr>) reg)
          else (Some c, reg))"

definition capsule_for_proposal :: "string \<Rightarrow> capsules \<Rightarrow> capsule option" where
  "capsule_for_proposal proposal_id reg =
     List.find (\<lambda>c. cs_proposal_id c = proposal_id) (map snd reg)"

definition capsule_void :: "string \<Rightarrow> capsules \<Rightarrow> capsules" where
  "capsule_void capsule_id reg =
     (case map_of reg capsule_id of
        None \<Rightarrow> reg
      | Some c \<Rightarrow> dict_put capsule_id (c\<lparr>cs_status := CAPSULE_VOIDED\<rparr>) reg)"

subsection \<open>Results and the guards of every executor\<close>

datatype exec_code =
    TopKExceedsLimit | NotImplemented | NoRollbackHandler | KeyErrorIn string | ValueErrorIn
  | Unusable unusable | ExceptionText string

datatype exec_error =
    ParamValidation "param_issue list"
  | IdempotencyConflict
  | StaleVersion
  | PyTypeError
  | PyRuntimeError
  | PyKeyError string
  | ProvError prov_error

record exec_result =
  xr_proposal_id :: string
  xr_success :: bool
  xr_capsule_id :: "string option"
  xr_mode :: execution_mode
  xr_side_effects :: params
  xr_error :: "exec_code option"

record exec_base =
  ex_used_keys :: "string list"
  ex_live_versions :: "(json \<times> json) list"
  ex_capsules :: capsules

type_synonym ('a, 's) exec_outcome = "(exec_error, 'a) result \<times> 's"

fun unhashable :: "json \<Rightarrow> bool" where
  "unhashable (JList _) = True"
| "unhashable (JObj _) = True"
| "unhashable _ = False"

text \<open>Python's truth value of a JSON value.\<close>

fun json_truthy :: "json \<Rightarrow> bool" where
  "json_truthy JNull = False"
| "json_truthy (JBool b) = b"
| "json_truthy (JInt i) = (i \<noteq> 0)"
| "json_truthy (JFloat q) = (q \<noteq> 0)"
| "json_truthy (JStr s) = (s \<noteq> [])"
| "json_truthy (JList xs) = (xs \<noteq> [])"
| "json_truthy (JObj kvs) = (kvs \<noteq> [])"

definition register_live_version :: "string \<Rightarrow> string \<Rightarrow> 's exec_base_scheme \<Rightarrow> 's exec_base_scheme" where
  "register_live_version component_id version_id s =
     s\<lparr>ex_live_versions := dict_put (JStr component_id) (JStr version_id) (ex_live_versions s)\<rparr>"

definition idem_key :: "proposal \<Rightarrow> string" where
  "idem_key p = pp_proposal_id p @ '':'' @ pp_idempotency_key p"

text \<open>Guard 4, the optimistic version lock: \<open>None\<close> when it passes.\<close>

definition version_guard :: "proposal \<Rightarrow> 's exec_base_scheme \<Rightarrow> exec_error option" where
  "version_guard p s =
     (case pp_expected_version_id p of
        None \<Rightarrow> None
      | Some expected \<Rightarrow>
          (case map_of (pp_params p) ''component_id'' of
             None \<Rightarrow> None
           | Some component_id \<Rightarrow>
               if \<not> json_truthy component_id then None
               else if unhashable component_id then Some PyTypeError
               else if map_of (ex_live_versions s) component_id \<noteq> Some (JStr expected)
               then Some StaleVersion else None))"

text \<open>
  \<open>execute\<close> is a template: preparing the capsule and applying the action are the methods of
  the subclass.
\<close>

definition execute ::
  "(proposal \<Rightarrow> 's exec_base_scheme \<Rightarrow> (capsule, 's exec_base_scheme) exec_outcome) \<Rightarrow>
   (proposal \<Rightarrow> capsule \<Rightarrow> 's exec_base_scheme \<Rightarrow> (exec_result, 's exec_base_scheme) exec_outcome) \<Rightarrow>
   proposal \<Rightarrow> 's exec_base_scheme \<Rightarrow> (exec_result, 's exec_base_scheme) exec_outcome" where
  "execute prepare_capsule apply_action p s =
     (if validate_params p \<noteq> [] then (Inl (ParamValidation (validate_params p)), s)
      else if idem_key p \<in> set (ex_used_keys s) then (Inl IdempotencyConflict, s)
      else case version_guard p s of
        Some e \<Rightarrow> (Inl e, s)
      | None \<Rightarrow>
          if pp_execution_mode p = DRY_RUN then
            (Inr \<lparr>xr_proposal_id = pp_proposal_id p, xr_success = True, xr_capsule_id = None,
                  xr_mode = DRY_RUN, xr_side_effects = [], xr_error = None\<rparr>, s)
          else (case prepare_capsule p s of
              (Inl e, s1) \<Rightarrow> (Inl e, s1)
            | (Inr c, s1) \<Rightarrow>
                (let s2 = s1\<lparr>ex_capsules := capsule_store c (ex_capsules s1)\<rparr> in
                 case apply_action p c s2 of
                   (Inl e, s3) \<Rightarrow> (Inl e, s3)
                 | (Inr r, s3) \<Rightarrow>
                     (let r1 = r\<lparr>xr_capsule_id := Some (cs_capsule_id c), xr_mode := pp_execution_mode p\<rparr>
                      in (Inr r1,
                          if xr_success r1
                          then s3\<lparr>ex_used_keys := ex_used_keys s3 @ [idem_key p]\<rparr> else s3)))))"

text \<open>
  Sealing mutates the capsule object, which is the one in the registry when the capsule given
  was taken from there.
\<close>

definition reseal :: "int \<Rightarrow> capsule \<Rightarrow> 's exec_base_scheme \<Rightarrow> 's exec_base_scheme" where
  "reseal now c s =
     (if map_of (ex_capsules s) (cs_capsule_id c) = Some c
      then s\<lparr>ex_capsules := dict_put (cs_capsule_id c) (seal_used now c) (ex_capsules s)\<rparr> else s)"

definition compensate ::
  "env \<Rightarrow> int \<Rightarrow> (capsule \<Rightarrow> 's exec_base_scheme \<Rightarrow> (exec_result, 's exec_base_scheme) exec_outcome) \<Rightarrow>
   capsule \<Rightarrow> 's exec_base_scheme \<Rightarrow> (exec_result, 's exec_base_scheme) exec_outcome" where
  "compensate E now rollback c s =
     (case is_usable E now c of
        Some reason \<Rightarrow>
          (Inr \<lparr>xr_proposal_id = cs_proposal_id c, xr_success = False, xr_capsule_id = Some (cs_capsule_id c),
                 xr_mode = DRY_RUN, xr_side_effects = [], xr_error = Some (Unusable reason)\<rparr>, s)
      | None \<Rightarrow>
          (case rollback c s of
             (Inl e, s1) \<Rightarrow> (Inl e, s1)
           | (Inr r, s1) \<Rightarrow> (Inr r, if xr_success r then reseal now c s1 else s1)))"

subsection \<open>The development executor\<close>

record local_exec = exec_base +
  lx_top_k :: "(json \<times> json) list"
  lx_index :: "(json \<times> json) list"
  lx_reranker :: "(json \<times> json) list"
  lx_model :: "(json \<times> json) list"
  lx_tools_disabled :: "json list"
  lx_quarantined_ns :: "json list"
  lx_prompt_versions :: "(json \<times> json) list"
  lx_prov :: prov_store \<comment> \<open>the global provenance store\<close>

text \<open>
  What a call takes from its environment: the capability secret, the verifier of the
  provenance store, the clock, fresh identifiers, and \<open>str\<close> of a dictionary.
\<close>

record exec_env =
  xe_env :: env
  xe_secret :: "string option"
  xe_verifier :: verifier
  xe_now :: int
  xe_event_id :: string
  xe_cap_id :: string
  xe_nonce :: string
  xe_capsule_id :: string
  xe_repr :: "params \<Rightarrow> string"

definition get_or :: "(json \<times> json) list \<Rightarrow> json \<Rightarrow> json \<Rightarrow> json" where
  "get_or d k dflt = (case map_of d k of None \<Rightarrow> dflt | Some v \<Rightarrow> v)"

definition param_or :: "proposal \<Rightarrow> string \<Rightarrow> json \<Rightarrow> json" where
  "param_or p k dflt = (case map_of (pp_params p) k of None \<Rightarrow> dflt | Some v \<Rightarrow> v)"

definition with_key :: "json \<Rightarrow> 'a \<Rightarrow> (exec_error, 'a) result" where
  "with_key k v = (if unhashable k then Inl PyTypeError else Inr v)"

text \<open>Partition identifiers are strings.\<close>

fun partition_of :: "json \<Rightarrow> string option" where
  "partition_of (JStr s) = Some s"
| "partition_of _ = None"

definition snapshot_state :: "proposal \<Rightarrow> local_exec \<Rightarrow> (exec_error, params) result" where
  "snapshot_state p s =
     (case pp_action_type p of
        INCREASE_TOP_K \<Rightarrow>
          (let cid = param_or p ''component_id'' (JStr []) in
           with_key cid [(''component_id'', cid), (''top_k'', get_or (lx_top_k s) cid (JInt 10))])
      | RETRY_HYBRID_RETRIEVAL \<Rightarrow>
          Inr [(''component_id'', param_or p ''component_id'' (JStr [])), (''strategy'', JStr ''dense'')]
      | SWITCH_STABLE_INDEX \<Rightarrow>
          (let cid = param_or p ''component_id'' (JStr []) in
           with_key cid [(''component_id'', cid), (''index_id'', get_or (lx_index s) cid (JStr ''index_v1''))])
      | RERANK \<Rightarrow>
          (let cid = param_or p ''component_id'' (JStr []) in
           with_key cid [(''component_id'', cid), (''reranker_id'', get_or (lx_reranker s) cid (JStr ''none''))])
      | ROUTE_STABLE_MODEL \<Rightarrow>
          (let cid = param_or p ''component_id'' (JStr []) in
           with_key cid [(''component_id'', cid), (''model'', get_or (lx_model s) cid (JStr ''gpt-4''))])
      | DISABLE_TEST_TOOL \<Rightarrow>
          (let tid = param_or p ''tool_id'' (JStr []) in
           with_key tid [(''tool_id'', tid), (''disabled'', JBool (tid \<in> set (lx_tools_disabled s)))])
      | QUARANTINE_MEMORY_NS \<Rightarrow>
          (let ns = param_or p ''namespace_id'' (JStr []) in
           with_key ns [(''namespace_id'', ns), (''quarantined'', JBool (ns \<in> set (lx_quarantined_ns s)))])
      | QUARANTINE_PROVENANCE_PARTITION \<Rightarrow>
          (let pid = param_or p ''partition_id'' (JStr []) in
           case partition_of pid of
             None \<Rightarrow> Inl PyTypeError
           | Some q \<Rightarrow> Inr [(''partition_id'', pid), (''quarantined'', JBool (is_quarantined q (lx_prov s)))])
      | REVERT_PROMPT_VERSION \<Rightarrow>
          (let pid = param_or p ''prompt_id'' (JStr []) in
           with_key pid [(''prompt_id'', pid), (''version_tag'', get_or (lx_prompt_versions s) pid (JStr ''v1''))])
      | ROLLBACK_COMPONENT \<Rightarrow>
          (let cid = param_or p ''component_id'' (JStr []) in
           with_key cid [(''component_id'', cid), (''version_id'', get_or (ex_live_versions s) cid JNull)]))"

text \<open>The text \<open>json.dumps\<close> gives a dictionary key that is not a string.\<close>

fun key_text :: "env \<Rightarrow> json \<Rightarrow> string" where
  "key_text E (JStr s) = s"
| "key_text E (JInt i) = int_str i"
| "key_text E (JFloat q) = float_repr E q"
| "key_text E (JBool b) = (if b then ''true'' else ''false'')"
| "key_text E JNull = ''null''"
| "key_text E _ = []"

definition local_prepare_capsule :: "exec_env \<Rightarrow> proposal \<Rightarrow> local_exec \<Rightarrow> (capsule, local_exec) exec_outcome" where
  "local_prepare_capsule xe p s =
     (case snapshot_state p s of
        Inl e \<Rightarrow> (Inl e, s)
      | Inr prev \<Rightarrow>
          (let component_id = param_or p ''component_id'' (JStr ''unknown'') in
           if unhashable component_id then (Inl PyTypeError, s)
           else
             (Inr (capsule_post_init (xe_env xe)
                \<lparr>cs_capsule_id = xe_capsule_id xe, cs_proposal_id = pp_proposal_id p,
                 cs_action_type = action_value (pp_action_type p), cs_tenant_id = pp_tenant_id p,
                 cs_component_id = component_id, cs_previous_state = prev, cs_target_state = pp_params p,
                 cs_artifact_hashes =
                   (if prev \<noteq> [] then
                      [(key_text (xe_env xe) component_id,
                        JStr (take 16 (sha256 (xe_env xe) (utf8 (xe_repr xe prev)))))] else []),
                 cs_constraints =
                   (if truthy (pp_expected_version_id p) \<and> component_id \<noteq> JStr ''unknown'' then
                      [\<lparr>cc_component_id = component_id,
                        cc_expected_version_id = the (pp_expected_version_id p),
                        cc_description = ''Component must be at expected version for safe rollback.''\<rparr>]
                    else []),
                 cs_rollback_params = prev, cs_verify_steps = [''canary_replay'', ''metric_delta_check''],
                 cs_status = ACTIVE, cs_created_at = xe_now xe,
                 cs_expires_at = xe_now xe + 72 * 3600 * 1000000, cs_used_at = None,
                 cs_created_by = pp_requester_id p, cs_integrity_hash = []\<rparr>), s)))"

text \<open>\<open>int\<close> of a JSON value: a string is parsed by \<open>py_int_str\<close>.\<close>

fun digits_value :: "int \<Rightarrow> bool \<Rightarrow> string \<Rightarrow> int option" where
  "digits_value acc seen [] = (if seen then Some acc else None)"
| "digits_value acc seen (c # cs) =
     (if CHR ''0'' \<le> c \<and> c \<le> CHR ''9''
      then digits_value (acc * 10 + (of_char c - 48)) True cs
      else if c = CHR ''_'' \<and> seen then digits_value acc False cs
      else None)"

definition py_int_str :: "string \<Rightarrow> int option" where
  "py_int_str raw =
     (case py_strip raw of
        [] \<Rightarrow> None
      | c # cs \<Rightarrow>
          if c = CHR ''-'' then map_option uminus (digits_value 0 False cs)
          else if c = CHR ''+'' then digits_value 0 False cs
          else digits_value 0 False (c # cs))"

datatype int_outcome = IntValue int | IntValueError | IntTypeError

fun py_int :: "json \<Rightarrow> int_outcome" where
  "py_int (JInt i) = IntValue i"
| "py_int (JBool b) = IntValue (if b then 1 else 0)"
| "py_int (JFloat q) = IntValue (if 0 \<le> q then \<lfloor>q\<rfloor> else \<lceil>q\<rceil>)"
| "py_int (JStr s) = (case py_int_str s of None \<Rightarrow> IntValueError | Some i \<Rightarrow> IntValue i)"
| "py_int _ = IntTypeError"

definition ok_result :: "proposal \<Rightarrow> params \<Rightarrow> exec_result" where
  "ok_result p effects =
     \<lparr>xr_proposal_id = pp_proposal_id p, xr_success = True, xr_capsule_id = None, xr_mode = DRY_RUN,
      xr_side_effects = effects, xr_error = None\<rparr>"

definition fail_result :: "string \<Rightarrow> exec_code \<Rightarrow> exec_result" where
  "fail_result proposal_id code =
     \<lparr>xr_proposal_id = proposal_id, xr_success = False, xr_capsule_id = None, xr_mode = DRY_RUN,
      xr_side_effects = [], xr_error = Some code\<rparr>"

text \<open>\<open>params[k]\<close>: the \<open>KeyError\<close> is caught and becomes a failed result.\<close>

definition with_param ::
  "proposal \<Rightarrow> string \<Rightarrow> local_exec \<Rightarrow> (json \<Rightarrow> (exec_result, local_exec) exec_outcome) \<Rightarrow>
     (exec_result, local_exec) exec_outcome" where
  "with_param p k s f =
     (case map_of (pp_params p) k of
        None \<Rightarrow> (Inr (fail_result (pp_proposal_id p) (KeyErrorIn k)), s)
      | Some v \<Rightarrow> f v)"

text \<open>Storing under a key raises \<open>TypeError\<close>, which is not caught, for an unhashable key.\<close>

definition put_result ::
  "proposal \<Rightarrow> json \<Rightarrow> params \<Rightarrow> local_exec \<Rightarrow> local_exec \<Rightarrow> (exec_result, local_exec) exec_outcome" where
  "put_result p k effects s s' =
     (if unhashable k then (Inl PyTypeError, s) else (Inr (ok_result p effects), s'))"

definition executor_capability :: "exec_env \<Rightarrow> string \<Rightarrow> string \<Rightarrow> string \<Rightarrow> string \<Rightarrow> access_context" where
  "executor_capability xe secret tenant_id action resource =
     (let expires = xe_now xe + 5 * 60 * 1000000;
          cap = capability_sign (xe_env xe) secret
            \<lparr>cp_capability_id = xe_cap_id xe, cp_requester_id = ''executor'', cp_tenant_id = tenant_id,
             cp_action = action, cp_resource = resource, cp_issued_at = xe_now xe, cp_expires_at = expires,
             cp_issuer = ''DriftGuard-X'', cp_nonce = xe_nonce xe, cp_policy_version = ''1.0'',
             cp_signature = []\<rparr>
      in \<lparr>cx_requester_id = ''executor'', cx_tenant_id = tenant_id, cx_capabilities = [cap],
          cx_expires_at = expires\<rparr>)"

definition add_once :: "json \<Rightarrow> json list \<Rightarrow> json list" where
  "add_once x xs = (if x \<in> set xs then xs else xs @ [x])"

definition apply_quarantine_provenance ::
  "exec_env \<Rightarrow> proposal \<Rightarrow> local_exec \<Rightarrow> (exec_result, local_exec) exec_outcome" where
  "apply_quarantine_provenance xe p s =
     with_param p ''partition_id'' s (\<lambda>pid.
       case (partition_of pid, xe_secret xe) of
         (None, _) \<Rightarrow> (Inl PyTypeError, s)
       | (_, None) \<Rightarrow> (Inl PyRuntimeError, s)
       | (Some q, Some secret) \<Rightarrow>
           if secret = [] then (Inl PyRuntimeError, s)
           else (case quarantine_partition (xe_env xe) (xe_verifier xe) (xe_event_id xe) (xe_now xe) q
                        (executor_capability xe secret (pp_tenant_id p) ''QUARANTINE'' q)
                        (''Quarantined by proposal '' @ pp_proposal_id p) (lx_prov s) of
                   (Inl Base64Error, st) \<Rightarrow>
                     (Inr (fail_result (pp_proposal_id p) ValueErrorIn), s\<lparr>lx_prov := st\<rparr>)
                 | (Inl e, st) \<Rightarrow> (Inl (ProvError e), s\<lparr>lx_prov := st\<rparr>)
                 | (Inr _, st) \<Rightarrow>
                     (Inr (ok_result p [(''partition_id'', pid), (''quarantined'', JBool True)]),
                      s\<lparr>lx_prov := st\<rparr>)))"

definition apply_increase_top_k :: "proposal \<Rightarrow> local_exec \<Rightarrow> (exec_result, local_exec) exec_outcome" where
  "apply_increase_top_k p s =
     with_param p ''component_id'' s (\<lambda>cid.
     with_param p ''new_top_k'' s (\<lambda>raw.
       case py_int raw of
         IntTypeError \<Rightarrow> (Inl PyTypeError, s)
       | IntValueError \<Rightarrow> (Inr (fail_result (pp_proposal_id p) ValueErrorIn), s)
       | IntValue new_k \<Rightarrow>
           (case py_int (param_or p ''max_allowed_top_k'' (JInt 100)) of
              IntTypeError \<Rightarrow> (Inl PyTypeError, s)
            | IntValueError \<Rightarrow> (Inr (fail_result (pp_proposal_id p) ValueErrorIn), s)
            | IntValue max_k \<Rightarrow>
                if new_k > max_k then (Inr (fail_result (pp_proposal_id p) TopKExceedsLimit), s)
                else put_result p cid [(''top_k'', JInt new_k)] s
                       (s\<lparr>lx_top_k := dict_put cid (JInt new_k) (lx_top_k s)\<rparr>))))"

definition local_apply :: "exec_env \<Rightarrow> proposal \<Rightarrow> capsule \<Rightarrow> local_exec \<Rightarrow> (exec_result, local_exec) exec_outcome" where
  "local_apply xe p c s =
     (case pp_action_type p of
        INCREASE_TOP_K \<Rightarrow> apply_increase_top_k p s
      | RETRY_HYBRID_RETRIEVAL \<Rightarrow>
          with_param p ''component_id'' s (\<lambda>cid. with_param p ''strategy'' s (\<lambda>strategy.
            (Inr (ok_result p [(''strategy'', strategy)]), s)))
      | SWITCH_STABLE_INDEX \<Rightarrow>
          with_param p ''component_id'' s (\<lambda>cid. with_param p ''target_index_id'' s (\<lambda>idx.
            put_result p cid [(''index_id'', idx)] s (s\<lparr>lx_index := dict_put cid idx (lx_index s)\<rparr>)))
      | RERANK \<Rightarrow>
          with_param p ''component_id'' s (\<lambda>cid. with_param p ''reranker_id'' s (\<lambda>rr.
            put_result p cid [(''reranker_id'', rr)] s (s\<lparr>lx_reranker := dict_put cid rr (lx_reranker s)\<rparr>)))
      | ROUTE_STABLE_MODEL \<Rightarrow>
          with_param p ''component_id'' s (\<lambda>cid. with_param p ''stable_model_alias'' s (\<lambda>alias.
            put_result p cid [(''model'', alias)] s (s\<lparr>lx_model := dict_put cid alias (lx_model s)\<rparr>)))
      | DISABLE_TEST_TOOL \<Rightarrow>
          with_param p ''tool_id'' s (\<lambda>tid.
            put_result p tid [(''tool_id'', tid), (''disabled'', JBool True)] s
              (s\<lparr>lx_tools_disabled := add_once tid (lx_tools_disabled s)\<rparr>))
      | QUARANTINE_MEMORY_NS \<Rightarrow>
          with_param p ''namespace_id'' s (\<lambda>ns.
            put_result p ns [(''namespace_id'', ns), (''quarantined'', JBool True)] s
              (s\<lparr>lx_quarantined_ns := add_once ns (lx_quarantined_ns s)\<rparr>))
      | QUARANTINE_PROVENANCE_PARTITION \<Rightarrow> apply_quarantine_provenance xe p s
      | REVERT_PROMPT_VERSION \<Rightarrow>
          with_param p ''prompt_id'' s (\<lambda>pid. with_param p ''target_version_tag'' s (\<lambda>vtag.
            put_result p pid [(''prompt_id'', pid), (''version_tag'', vtag)] s
              (s\<lparr>lx_prompt_versions := dict_put pid vtag (lx_prompt_versions s)\<rparr>)))
      | ROLLBACK_COMPONENT \<Rightarrow>
          with_param p ''component_id'' s (\<lambda>cid. with_param p ''target_version_id'' s (\<lambda>target_vid.
            put_result p cid [(''component_id'', cid), (''version_id'', target_vid)] s
              (s\<lparr>ex_live_versions := dict_put cid target_vid (ex_live_versions s)\<rparr>))))"

subsection \<open>Rollback\<close>

definition rolled_back :: "capsule \<Rightarrow> exec_result" where
  "rolled_back c =
     \<lparr>xr_proposal_id = cs_proposal_id c, xr_success = True, xr_capsule_id = Some (cs_capsule_id c),
      xr_mode = DRY_RUN, xr_side_effects = [], xr_error = None\<rparr>"

text \<open>
  \<open>store[prev[key]] = prev[value]\<close>: the value is looked up first; \<open>KeyError\<close> and \<open>TypeError\<close>
  are caught and become a failed result.
\<close>

definition restore ::
  "capsule \<Rightarrow> string \<Rightarrow> string \<Rightarrow> local_exec \<Rightarrow> (json \<Rightarrow> json \<Rightarrow> local_exec) \<Rightarrow>
     (exec_result, local_exec) exec_outcome" where
  "restore c key value s f =
     (case map_of (cs_previous_state c) value of
        None \<Rightarrow> (Inr (fail_result (cs_proposal_id c) (KeyErrorIn value)), s)
      | Some v \<Rightarrow>
          (case map_of (cs_previous_state c) key of
             None \<Rightarrow> (Inr (fail_result (cs_proposal_id c) (KeyErrorIn key)), s)
           | Some k \<Rightarrow>
               if unhashable k then (Inr (fail_result (cs_proposal_id c) ValueErrorIn), s)
               else (Inr (rolled_back c), f k v)))"

text \<open>\<open>if not prev.get(flag, False): members.discard(prev[key])\<close>.\<close>

definition discard_unless ::
  "capsule \<Rightarrow> string \<Rightarrow> string \<Rightarrow> local_exec \<Rightarrow> (json \<Rightarrow> local_exec) \<Rightarrow> (exec_result, local_exec) exec_outcome" where
  "discard_unless c flag key s f =
     (if json_truthy (case map_of (cs_previous_state c) flag of None \<Rightarrow> JBool False | Some v \<Rightarrow> v)
      then (Inr (rolled_back c), s)
      else (case map_of (cs_previous_state c) key of
              None \<Rightarrow> (Inr (fail_result (cs_proposal_id c) (KeyErrorIn key)), s)
            | Some k \<Rightarrow>
                if unhashable k then (Inr (fail_result (cs_proposal_id c) ValueErrorIn), s)
                else (Inr (rolled_back c), f k)))"

definition rollback_provenance :: "exec_env \<Rightarrow> capsule \<Rightarrow> local_exec \<Rightarrow> (exec_result, local_exec) exec_outcome" where
  "rollback_provenance xe c s =
     (if json_truthy (case map_of (cs_previous_state c) ''quarantined'' of None \<Rightarrow> JBool False | Some v \<Rightarrow> v)
      then (Inr (rolled_back c), s)
      else case xe_secret xe of
        None \<Rightarrow> (Inl PyRuntimeError, s)
      | Some secret \<Rightarrow>
          if secret = [] then (Inl PyRuntimeError, s)
          else (case map_of (cs_previous_state c) ''partition_id'' of
              None \<Rightarrow> (Inr (fail_result (cs_proposal_id c) (KeyErrorIn ''partition_id'')), s)
            | Some pid \<Rightarrow>
                (case partition_of pid of
                   None \<Rightarrow> (Inr (fail_result (cs_proposal_id c) ValueErrorIn), s)
                 | Some q \<Rightarrow>
                     (case unquarantine_partition (xe_env xe) (xe_verifier xe) (xe_event_id xe) (xe_now xe) q
                             (executor_capability xe secret ''system'' ''UNQUARANTINE'' q) (lx_prov s) of
                        (Inl e, st) \<Rightarrow> (Inl (ProvError e), s\<lparr>lx_prov := st\<rparr>)
                      | (Inr _, st) \<Rightarrow> (Inr (rolled_back c), s\<lparr>lx_prov := st\<rparr>)))))"

definition local_rollback :: "exec_env \<Rightarrow> capsule \<Rightarrow> local_exec \<Rightarrow> (exec_result, local_exec) exec_outcome" where
  "local_rollback xe c s =
     (let t = cs_action_type c in
      if t = action_value INCREASE_TOP_K then
        restore c ''component_id'' ''top_k'' s (\<lambda>k v. s\<lparr>lx_top_k := dict_put k v (lx_top_k s)\<rparr>)
      else if t = action_value SWITCH_STABLE_INDEX then
        restore c ''component_id'' ''index_id'' s (\<lambda>k v. s\<lparr>lx_index := dict_put k v (lx_index s)\<rparr>)
      else if t = action_value RERANK then
        restore c ''component_id'' ''reranker_id'' s (\<lambda>k v. s\<lparr>lx_reranker := dict_put k v (lx_reranker s)\<rparr>)
      else if t = action_value ROUTE_STABLE_MODEL then
        restore c ''component_id'' ''model'' s (\<lambda>k v. s\<lparr>lx_model := dict_put k v (lx_model s)\<rparr>)
      else if t = action_value DISABLE_TEST_TOOL then
        discard_unless c ''disabled'' ''tool_id'' s
          (\<lambda>k. s\<lparr>lx_tools_disabled := filter (\<lambda>x. x \<noteq> k) (lx_tools_disabled s)\<rparr>)
      else if t = action_value QUARANTINE_MEMORY_NS then
        discard_unless c ''quarantined'' ''namespace_id'' s
          (\<lambda>k. s\<lparr>lx_quarantined_ns := filter (\<lambda>x. x \<noteq> k) (lx_quarantined_ns s)\<rparr>)
      else if t = action_value QUARANTINE_PROVENANCE_PARTITION then rollback_provenance xe c s
      else if t = action_value REVERT_PROMPT_VERSION then
        restore c ''prompt_id'' ''version_tag'' s
          (\<lambda>k v. s\<lparr>lx_prompt_versions := dict_put k v (lx_prompt_versions s)\<rparr>)
      else if t = action_value ROLLBACK_COMPONENT then
        restore c ''component_id'' ''version_id'' s
          (\<lambda>k v. s\<lparr>ex_live_versions := dict_put k v (ex_live_versions s)\<rparr>)
      else (Inr (fail_result (cs_proposal_id c) NoRollbackHandler), s))"

definition local_execute :: "exec_env \<Rightarrow> proposal \<Rightarrow> local_exec \<Rightarrow> (exec_result, local_exec) exec_outcome" where
  "local_execute xe p s = execute (local_prepare_capsule xe) (local_apply xe) p s"

definition local_compensate :: "exec_env \<Rightarrow> capsule \<Rightarrow> local_exec \<Rightarrow> (exec_result, local_exec) exec_outcome" where
  "local_compensate xe c s = compensate (xe_env xe) (xe_now xe) (local_rollback xe) c s"

subsection \<open>Execution under an admission receipt\<close>

datatype admission_refusal =
    ReceiptRequired
  | VerifyRaised store_error
  | RefusedAtBoundary string
  | ExecRaised exec_error
  | StoreRaised store_error

text \<open>\<open>{"tenant_id": ..., **binding}\<close>: the binding may override the tenant.\<close>

definition admission_actual :: "proposal \<Rightarrow> params" where
  "admission_actual p =
     fold (\<lambda>(k, v) d. dict_put k v d) (pp_admission_binding p) [(''tenant_id'', JStr (pp_tenant_id p))]"

text \<open>
  \<open>exec\<close> is the executor's \<open>execute\<close>; \<open>exc_text\<close>, \<open>store_text\<close> and \<open>code_text\<close> are \<open>str\<close> of an
  exception of either side and of a result's error. An exception from executing or consuming voids the receipt and is
  raised again; when voiding raises, that error wins.
\<close>

definition execute_with_admission ::
  "env \<Rightarrow> (nat \<Rightarrow> string) \<Rightarrow> trust_args \<Rightarrow> int \<Rightarrow> (exec_error \<Rightarrow> string) \<Rightarrow> (store_error \<Rightarrow> string) \<Rightarrow>
   (exec_code \<Rightarrow> string) \<Rightarrow> (proposal \<Rightarrow> 's \<Rightarrow> (exec_result, 's) exec_outcome) \<Rightarrow> proposal \<Rightarrow> 's \<times> store_db \<Rightarrow>
     (admission_refusal, exec_result) result \<times> 's \<times> store_db" where
  "execute_with_admission E clock ta now exc_text store_text code_text exec p sd =
     (case sd of (s, db) \<Rightarrow>
      if \<not> truthy (pp_admission_receipt_id p) then (Inl ReceiptRequired, s, db)
      else let rid = the (pp_admission_receipt_id p) in
      case verify E clock ta rid (admission_actual p) None now db of
        Inl e \<Rightarrow> (Inl (VerifyRaised e), s, db)
      | Inr ((admitted, reason), db1) \<Rightarrow>
          if \<not> admitted then (Inl (RefusedAtBoundary reason), s, db1)
          else (case exec p s of
              (Inl e, s1) \<Rightarrow>
                (case void E (\<lambda>n. clock (n + 10)) rid (exc_text e) db1 of
                   Inl v \<Rightarrow> (Inl (StoreRaised v), s1, db1)
                 | Inr db2 \<Rightarrow> (Inl (ExecRaised e), s1, db2))
            | (Inr r, s1) \<Rightarrow>
                if xr_success r then
                  (case consume E (\<lambda>n. clock (n + 10)) rid db1 of
                     Inr db2 \<Rightarrow> (Inr r, s1, db2)
                   | Inl e \<Rightarrow>
                       (case void E (\<lambda>n. clock (n + 20)) rid (store_text e) db1 of
                          Inl v \<Rightarrow> (Inl (StoreRaised v), s1, db1)
                        | Inr db2 \<Rightarrow> (Inl (StoreRaised e), s1, db2)))
                else
                  (case void E (\<lambda>n. clock (n + 10)) rid
                          (case xr_error r of None \<Rightarrow> ''execution failed'' | Some c \<Rightarrow> code_text c) db1 of
                     Inr db2 \<Rightarrow> (Inr r, s1, db2)
                   | Inl e \<Rightarrow>
                       (case void E (\<lambda>n. clock (n + 20)) rid (store_text e) db1 of
                          Inl v \<Rightarrow> (Inl (StoreRaised v), s1, db1)
                        | Inr db2 \<Rightarrow> (Inl (StoreRaised e), s1, db2)))))"

subsection \<open>Guards and idempotency\<close>

lemma execute_success:
  assumes "execute prep app p s = (Inr r, s')" "pp_execution_mode p \<noteq> DRY_RUN"
  obtains c s1 r0 s3 where "validate_params p = []" "version_guard p s = None"
    "prep p s = (Inr c, s1)"
    "app p c (s1\<lparr>ex_capsules := capsule_store c (ex_capsules s1)\<rparr>) = (Inr r0, s3)"
    "r = r0\<lparr>xr_capsule_id := Some (cs_capsule_id c), xr_mode := pp_execution_mode p\<rparr>"
    "s' = (if xr_success r then s3\<lparr>ex_used_keys := ex_used_keys s3 @ [idem_key p]\<rparr> else s3)"
  using assms by (auto simp: execute_def Let_def split: if_splits option.splits prod.splits sum.splits)

text \<open>
  Guards of every executor, for any way to prepare and apply an action: a dry run and
  every refusal by the parameter check, the idempotency check or the version lock leave the
  state untouched; and once a proposal has been executed successfully outside a dry run,
  executing it again is refused as a duplicate and changes nothing.
\<close>

theorem execute_guards_and_idempotency:
  "((pp_execution_mode p = DRY_RUN \<or> validate_params p \<noteq> [] \<or> idem_key p \<in> set (ex_used_keys s) \<or>
      version_guard p s \<noteq> None) \<longrightarrow> snd (execute prep app p s) = s) \<and>
   (\<forall>r s'. execute prep app p s = (Inr r, s') \<and> xr_success r \<and> pp_execution_mode p \<noteq> DRY_RUN \<longrightarrow>
      execute prep' app' p s' = (Inl IdempotencyConflict, s'))"
proof (intro conjI impI allI)
  show "snd (execute prep app p s) = s"
    if "pp_execution_mode p = DRY_RUN \<or> validate_params p \<noteq> [] \<or> idem_key p \<in> set (ex_used_keys s) \<or>
      version_guard p s \<noteq> None"
    using that by (auto simp: execute_def split: option.splits)
next
  fix r s'
  assume a: "execute prep app p s = (Inr r, s') \<and> xr_success r \<and> pp_execution_mode p \<noteq> DRY_RUN"
  then obtain s3 where "validate_params p = []" "s' = s3\<lparr>ex_used_keys := ex_used_keys s3 @ [idem_key p]\<rparr>"
    using execute_success [of prep app p s r s'] by metis
  then show "execute prep' app' p s' = (Inl IdempotencyConflict, s')" by (simp add: execute_def)
qed

subsection \<open>Compensation restores the observable state\<close>

text \<open>What the fixture stores answer, default values included.\<close>

record observation =
  ob_top_k :: "json \<Rightarrow> json"
  ob_index :: "json \<Rightarrow> json"
  ob_reranker :: "json \<Rightarrow> json"
  ob_model :: "json \<Rightarrow> json"
  ob_tools :: "json set"
  ob_ns :: "json set"
  ob_prompt :: "json \<Rightarrow> json"
  ob_version :: "json \<Rightarrow> json"
  ob_prov :: "string \<Rightarrow> bool"

definition observe :: "local_exec \<Rightarrow> observation" where
  "observe s =
     \<lparr>ob_top_k = (\<lambda>k. get_or (lx_top_k s) k (JInt 10)),
      ob_index = (\<lambda>k. get_or (lx_index s) k (JStr ''index_v1'')),
      ob_reranker = (\<lambda>k. get_or (lx_reranker s) k (JStr ''none'')),
      ob_model = (\<lambda>k. get_or (lx_model s) k (JStr ''gpt-4'')),
      ob_tools = set (lx_tools_disabled s),
      ob_ns = set (lx_quarantined_ns s),
      ob_prompt = (\<lambda>k. get_or (lx_prompt_versions s) k (JStr ''v1'')),
      ob_version = (\<lambda>k. get_or (ex_live_versions s) k JNull),
      ob_prov = (\<lambda>q. is_quarantined q (lx_prov s))\<rparr>"

lemma get_or_put: "get_or (dict_put k v d) x dflt = (if x = k then v else get_or d x dflt)"
  by (simp add: get_or_def)

lemma get_or_restore: "get_or (dict_put k (get_or d k dflt) (dict_put k v d)) = (\<lambda>x e. if x = k then get_or d k dflt else get_or d x e)"
  by (intro ext) (simp add: get_or_put)

lemma is_usable_None_iff:
  "is_usable E now c = None \<longleftrightarrow> cs_status c = ACTIVE \<and> now \<le> cs_expires_at c \<and> verify_integrity E c"
  by (cases "cs_status c") (auto simp: is_usable_def)

lemma capsule_post_init_usable:
  assumes "cs_status c = ACTIVE" "now \<le> cs_expires_at c"
  shows "is_usable E now (capsule_post_init E c) = None"
  using assms
  by (simp add: is_usable_def verify_integrity_def capsule_post_init_def compute_integrity_def
      capsule_message_def capsule_document_def)

lemma local_prepare_capsule_Inr:
  assumes "local_prepare_capsule xe p s = (Inr c, s1)"
  shows "s1 = s" "snapshot_state p s = Inr (cs_previous_state c)"
    "cs_action_type c = action_value (pp_action_type p)" "cs_capsule_id c = xe_capsule_id xe"
    "cs_proposal_id c = pp_proposal_id p"
    "now \<le> xe_now xe + 72 * 3600 * 1000000 \<Longrightarrow> is_usable (xe_env xe) now c = None"
  using assms
  by (auto simp: local_prepare_capsule_def Let_def capsule_post_init_usable split: sum.splits if_splits)
     (simp_all add: capsule_post_init_def)

text \<open>The actions whose rollback restores a fixture store.\<close>

definition fixture_action :: "action_type \<Rightarrow> bool" where
  "fixture_action t \<longleftrightarrow> t \<noteq> RETRY_HYBRID_RETRIEVAL \<and> t \<noteq> QUARANTINE_PROVENANCE_PARTITION"

lemma with_param_success:
  "with_param p k s f = (Inr r, s1) \<Longrightarrow> xr_success r \<Longrightarrow>
     \<exists>v. map_of (pp_params p) k = Some v \<and> f v = (Inr r, s1)"
  by (auto simp: with_param_def fail_result_def split: option.splits)

lemma put_result_success: "put_result p k e s s' = (Inr r, s1) \<Longrightarrow> \<not> unhashable k \<and> s1 = s'"
  by (auto simp: put_result_def split: if_splits)

lemma increase_top_k_success:
  assumes "apply_increase_top_k p s = (Inr r, s1)" "xr_success r"
  shows "\<exists>cid k. map_of (pp_params p) ''component_id'' = Some cid \<and> \<not> unhashable cid \<and>
    s1 = s\<lparr>lx_top_k := dict_put cid (JInt k) (lx_top_k s)\<rparr>"
  using assms
  by (auto simp: apply_increase_top_k_def fail_result_def split: int_outcome.splits if_splits
      dest!: with_param_success put_result_success)

lemmas rollback_defs =
  local_rollback_def Let_def restore_def discard_unless_def snapshot_state_def with_key_def param_or_def

text \<open>Undoing what was applied under the snapshot taken before.\<close>

lemma apply_rollback:
  assumes snap: "snapshot_state p s = Inr (cs_previous_state c)"
    and act: "cs_action_type c = action_value (pp_action_type p)" "fixture_action (pp_action_type p)"
    and app: "local_apply xe p c s = (Inr r, s1)" "xr_success r"
  shows "\<exists>s2. local_rollback xe' c (s1\<lparr>ex_used_keys := u\<rparr>) = (Inr (rolled_back c), s2) \<and>
    observe s2 = observe s \<and> ex_capsules s2 = ex_capsules s"
proof (cases "pp_action_type p")
  case INCREASE_TOP_K
  then show ?thesis using act app snap [symmetric]
    by (auto simp: local_apply_def rollback_defs observe_def get_or_put fun_eq_iff dest!: increase_top_k_success)
next
  case DISABLE_TEST_TOOL
  then show ?thesis using act app snap [symmetric]
    by (auto simp: local_apply_def rollback_defs observe_def add_once_def split: if_splits
        dest!: with_param_success put_result_success)
next
  case QUARANTINE_MEMORY_NS
  then show ?thesis using act app snap [symmetric]
    by (auto simp: local_apply_def rollback_defs observe_def add_once_def split: if_splits
        dest!: with_param_success put_result_success)
qed (use act app snap [symmetric] in \<open>auto simp: local_apply_def rollback_defs observe_def get_or_put fun_eq_iff
        fixture_action_def dest!: with_param_success put_result_success\<close>)

lemma observe_base [simp]:
  "observe (s\<lparr>ex_capsules := x\<rparr>) = observe s" "observe (s\<lparr>ex_used_keys := y\<rparr>) = observe s"
  by (simp_all add: observe_def)

lemma snapshot_capsules [simp]: "snapshot_state p (s\<lparr>ex_capsules := x\<rparr>) = snapshot_state p s"
  by (auto simp: snapshot_state_def Let_def split: action_type.splits option.splits)

lemma apply_keeps_capsules:
  "local_apply xe p c s = (Inr r, s1) \<Longrightarrow> ex_capsules s1 = ex_capsules s"
  by (auto simp: local_apply_def apply_increase_top_k_def apply_quarantine_provenance_def with_param_def put_result_def
      split: action_type.splits option.splits if_splits int_outcome.splits prod.splits sum.splits prov_error.splits)

text \<open>
  What a successful action leaves behind: its capsule in the registry, under which compensation
  restores every observable store.
\<close>

lemma execute_then_compensate:
  assumes "local_execute xe p s = (Inr r, s1)" "xr_success r" "pp_execution_mode p \<noteq> DRY_RUN"
    and "fixture_action (pp_action_type p)"
    and "xe_env xe' = xe_env xe" "xe_now xe' \<le> xe_now xe + 72 * 3600 * 1000000"
  obtains c s2 where "ex_capsules s1 = capsule_store c (ex_capsules s)"
    "cs_capsule_id c = xe_capsule_id xe" "cs_proposal_id c = pp_proposal_id p"
    "local_compensate xe' c s1 = (Inr (rolled_back c), s2)" "observe s2 = observe s"
    "map_of (ex_capsules s2) (xe_capsule_id xe) = Some (seal_used (xe_now xe') c)"
proof -
  obtain c s0 r0 s3 where prep: "local_prepare_capsule xe p s = (Inr c, s0)"
    and app: "local_apply xe p c (s0\<lparr>ex_capsules := capsule_store c (ex_capsules s0)\<rparr>) = (Inr r0, s3)"
    and r: "r = r0\<lparr>xr_capsule_id := Some (cs_capsule_id c), xr_mode := pp_execution_mode p\<rparr>"
    and s1: "s1 = s3\<lparr>ex_used_keys := ex_used_keys s3 @ [idem_key p]\<rparr>"
    using execute_success [OF assms(1) [unfolded local_execute_def] assms(3)] assms(2) by metis
  note c = local_prepare_capsule_Inr [OF prep]
  let ?s = "s\<lparr>ex_capsules := capsule_store c (ex_capsules s)\<rparr>"
  have caps: "ex_capsules s1 = capsule_store c (ex_capsules s)"
    using apply_keeps_capsules [OF app] c(1) s1 by simp
  have succ: "xr_success r0" using assms(2) r by simp
  from app have app': "local_apply xe p c ?s = (Inr r0, s3)" using c(1) by simp
  obtain s2 where rb: "local_rollback xe' c s1 = (Inr (rolled_back c), s2)" "observe s2 = observe s"
    "ex_capsules s2 = capsule_store c (ex_capsules s)"
    using apply_rollback [OF _ c(3) assms(4) app' succ, of xe' "ex_used_keys s3 @ [idem_key p]"] c(2) s1 by auto
  have "local_compensate xe' c s1 = (Inr (rolled_back c), reseal (xe_now xe') c s2)"
    using rb(1) c(6) [OF assms(6)] assms(5) by (simp add: local_compensate_def compensate_def rolled_back_def)
  moreover have "observe (reseal (xe_now xe') c s2) = observe s" using rb(2) by (simp add: reseal_def)
  moreover have "map_of (ex_capsules (reseal (xe_now xe') c s2)) (xe_capsule_id xe) = Some (seal_used (xe_now xe') c)"
    using rb(3) c(4) by (simp add: reseal_def capsule_store_def)
  ultimately show thesis using that [of c "reseal (xe_now xe') c s2"] caps c(4,5) by blast
qed

text \<open>
  C13. Compensation undoes a recovery action: after the development executor has applied one
  of the eight actions on its fixture stores, the capsule it stored is in the registry, and
  compensating with it (within its 72 hours) succeeds, gives every store the value it had
  before for every key, and marks the capsule as used, so that compensating with the
  registry's capsule a second time fails.
\<close>

theorem compensate_undoes_execute:
  assumes "local_execute xe p s = (Inr r, s1)" "xr_success r" "pp_execution_mode p \<noteq> DRY_RUN"
    and "fixture_action (pp_action_type p)"
    and "xe_env xe' = xe_env xe" "xe_now xe' \<le> xe_now xe + 72 * 3600 * 1000000"
  shows "\<exists>c s2. map_of (ex_capsules s1) (xe_capsule_id xe) = Some c \<and>
    local_compensate xe' c s1 = (Inr (rolled_back c), s2) \<and> observe s2 = observe s \<and>
    (\<exists>c'. map_of (ex_capsules s2) (xe_capsule_id xe) = Some c' \<and>
       (\<forall>xe'' s3. fst (local_compensate xe'' c' s3) =
          Inr \<lparr>xr_proposal_id = cs_proposal_id c', xr_success = False, xr_capsule_id = Some (cs_capsule_id c'),
               xr_mode = DRY_RUN, xr_side_effects = [], xr_error = Some (Unusable AlreadyConsumed)\<rparr>))"
proof -
  obtain c s2 where c: "ex_capsules s1 = capsule_store c (ex_capsules s)" "cs_capsule_id c = xe_capsule_id xe"
    "local_compensate xe' c s1 = (Inr (rolled_back c), s2)" "observe s2 = observe s"
    "map_of (ex_capsules s2) (xe_capsule_id xe) = Some (seal_used (xe_now xe') c)"
    using execute_then_compensate [OF assms] by blast
  have "map_of (ex_capsules s1) (xe_capsule_id xe) = Some c" using c(1,2) by (simp add: capsule_store_def)
  with c show ?thesis
    by (intro exI [of _ c] exI [of _ s2] conjI exI [of _ "seal_used (xe_now xe') c"])
       (simp_all add: local_compensate_def compensate_def is_usable_def seal_used_def)
qed

text \<open>
  The registry declares every action reversible, but a retrieval retry has no rollback
  handler: its compensation fails.
\<close>

lemma retry_has_no_rollback:
  "cs_action_type c = action_value RETRY_HYBRID_RETRIEVAL \<Longrightarrow>
     local_rollback xe c s = (Inr (fail_result (cs_proposal_id c) NoRollbackHandler), s) \<and>
     ad_is_reversible (action_registry RETRY_HYBRID_RETRIEVAL)"
  by (simp add: local_rollback_def)

subsection \<open>Capsule integrity\<close>

lemma capsule_document_keys:
  "map fst (capsule_document E c) = map fst (capsule_document E c')"
  "distinct (map fst (capsule_document E c))"
  by (simp_all add: capsule_document_def)

text \<open>
  A capsule that passes \<open>is_usable\<close> is the one that was sealed: if its stored integrity
  hash is the one computed when capsule \<open>c0\<close> was made, then identity, tenant, action, validity
  and author agree, and previous state, target state and rollback parameters agree up to the
  order of keys, or the two hashed texts are a SHA-256 collision.
\<close>

theorem usable_capsule_is_sealed:
  assumes "float_repr_ok (float_repr E)" "inj (iso E)"
    and "is_usable E now c = None" "cs_integrity_hash c = compute_integrity E orig"
  shows "collision_between (sha256 E) {capsule_message E c} {capsule_message E orig} \<or>
    cs_capsule_id c = cs_capsule_id orig \<and> cs_proposal_id c = cs_proposal_id orig \<and>
    cs_action_type c = cs_action_type orig \<and> cs_tenant_id c = cs_tenant_id orig \<and>
    cs_created_at c = cs_created_at orig \<and> cs_expires_at c = cs_expires_at orig \<and>
    cs_created_by c = cs_created_by orig \<and>
    canon (JObj (cs_previous_state c)) = canon (JObj (cs_previous_state orig)) \<and>
    canon (JObj (cs_target_state c)) = canon (JObj (cs_target_state orig)) \<and>
    canon (JObj (cs_rollback_params c)) = canon (JObj (cs_rollback_params orig))"
proof (cases "capsule_message E c = capsule_message E orig")
  case True
  then have "canon (JObj (capsule_document E c)) = canon (JObj (capsule_document E orig))"
    using dumps_eq_iff [OF _ assms(1), of default_style] by (auto simp: capsule_message_def dest!: utf8_inj)
  then have "canon_members (capsule_document E c) = canon_members (capsule_document E orig)"
    by (rule canon_obj_eqD [OF _ capsule_document_keys])
  then show ?thesis using assms(2) by (auto simp: capsule_document_def inj_eq)
next
  case False
  have "compute_integrity E c = compute_integrity E orig"
    using assms(3,4) by (simp add: is_usable_def verify_integrity_def split: if_splits)
  with False show ?thesis by (auto simp: compute_integrity_def collision_between_def)
qed

subsection \<open>One execution per receipt\<close>

lemma terminal_transition_exact:
  assumes "terminal_transition E clock rid target ty reason db = Inr db'" "status rid db = Some st"
    and "st \<in> allowed_sources target"
  shows "status rid db' = Some target"
proof -
  obtain row where row: "load_row rid db = Some row" "rr_status row = st" using assms(2) by (auto simp: status_def)
  then show ?thesis using assms(1,3)
    by (auto simp: terminal_transition_def status_update dest!: append_event_status [where x = rid])
qed

lemma admission_runs_executor:
  assumes "execute_with_admission E clock ta now exc_text store_text code_text exec p (s, db) = (out, s', db')"
    and "pp_admission_receipt_id p = Some rid"
  shows "s' = s \<and> (\<forall>r. out \<noteq> Inr r) \<and> (\<forall>e. out \<noteq> Inl (ExecRaised e)) \<or>
    (\<exists>db1. verify E clock ta rid (admission_actual p) None now db = Inr ((True, ''ok''), db1) \<and>
       status rid db = Some ISSUED \<and> status rid db1 = Some VERIFIED \<and> snd (exec p s) = s' \<and>
       (case out of
          Inr r \<Rightarrow> status rid db' = Some (if xr_success r then CONSUMED else VOIDED) \<and> fst (exec p s) = Inr r
        | Inl (ExecRaised e) \<Rightarrow> status rid db' = Some VOIDED \<and> fst (exec p s) = Inl e
        | Inl (StoreRaised e) \<Rightarrow> status rid db' = Some VOIDED \<or> db' = db1
        | Inl _ \<Rightarrow> False))"
proof (cases "verify E clock ta rid (admission_actual p) None now db")
  case (Inl e)
  then show ?thesis using assms by (auto simp: execute_with_admission_def Let_def split: if_splits)
next
  case (Inr v)
  obtain b m db1 where v: "v = ((b, m), db1)" by (metis surj_pair)
  show ?thesis
  proof (cases b)
    case False
    then show ?thesis using Inr v assms by (auto simp: execute_with_admission_def Let_def split: if_splits)
  next
    case True
    have st: "status rid db = Some ISSUED" "status rid db1 = Some VERIFIED"
      using verify_status [OF Inr [unfolded v], of rid] True by auto
    have m: "m = ''ok''" using Inr v True
      by (auto simp: verify_def rbind_Inr_iff Let_def split: option.splits sum.splits if_splits)
    have cons: "consume E cl rid db1 = Inr db2 \<Longrightarrow> status rid db2 = Some CONSUMED" for cl db2
      using terminal_transition_exact [OF _ st(2)] by (simp add: consume_def allowed_sources_def)
    have vd: "void E cl rid t db1 = Inr db2 \<Longrightarrow> status rid db2 = Some VOIDED" for cl t db2
      using terminal_transition_exact [OF _ st(2)] by (simp add: void_def allowed_sources_def)
    show ?thesis
      using Inr v True m st assms
      by (auto simp: execute_with_admission_def Let_def split: if_splits prod.splits sum.splits
          dest: cons vd)
  qed
qed

text \<open>
  C7. One execution per admission receipt: for any executor, a call of
  \<open>execute_with_admission\<close> changes the executor's state only if the receipt was ISSUED and its
  verification succeeded. If the call returns a successful result the receipt is CONSUMED, if
  it returns a failed one or re-raises the executor's error the receipt is VOIDED, and after a
  call that ran the executor every later call with that receipt, by any executor and for any
  proposal, leaves the executor's state alone.
\<close>

theorem admitted_execution_once:
  assumes "execute_with_admission E clock ta now exc_text store_text code_text exec p (s, db) = (out, s', db')"
    and "pp_admission_receipt_id p = Some rid"
  shows "(s' \<noteq> s \<longrightarrow> status rid db = Some ISSUED) \<and>
    (\<forall>r. out = Inr r \<longrightarrow> status rid db' = Some (if xr_success r then CONSUMED else VOIDED)) \<and>
    (\<forall>e. out = Inl (ExecRaised e) \<longrightarrow> status rid db' = Some VOIDED) \<and>
    (s' \<noteq> s \<longrightarrow> (\<forall>clock2 ta2 now2 exec2 p2. pp_admission_receipt_id p2 = Some rid \<longrightarrow>
       fst (snd (execute_with_admission E clock2 ta2 now2 exc_text store_text code_text exec2 p2 (s', db'))) = s'))"
proof -
  note run = admission_runs_executor [OF assms]
  have later: "fst (snd (execute_with_admission E clock2 ta2 now2 exc_text store_text code_text exec2 p2 (s', db'))) = s'"
    if "status rid db' \<noteq> Some ISSUED" "pp_admission_receipt_id p2 = Some rid" for clock2 ta2 now2 exec2 p2
  proof -
    obtain o2 s2 d2 where r2: "execute_with_admission E clock2 ta2 now2 exc_text store_text code_text exec2 p2 (s', db')
        = (o2, s2, d2)" by (metis surj_pair)
    then show ?thesis using admission_runs_executor [OF r2 that(2)] that(1) by auto
  qed
  have ni: "status rid db' \<noteq> Some ISSUED" if "s' \<noteq> s"
  proof (cases out)
    case (Inl e)
    then show ?thesis using run that by (cases e) auto
  next
    case (Inr r)
    then show ?thesis using run that by (auto split: if_splits)
  qed
  have "s' \<noteq> s \<longrightarrow> status rid db = Some ISSUED" using run by blast
  moreover have "\<forall>r. out = Inr r \<longrightarrow> status rid db' = Some (if xr_success r then CONSUMED else VOIDED)"
    "\<forall>e. out = Inl (ExecRaised e) \<longrightarrow> status rid db' = Some VOIDED"
    using run by auto
  ultimately show ?thesis using ni later by blast
qed

subsection \<open>Examples\<close>

definition demo_proposal :: proposal where
  "demo_proposal =
     \<lparr>pp_action_type = SWITCH_STABLE_INDEX, pp_tenant_id = ''t'', pp_node_id = ''n'', pp_run_id = ''run'',
      pp_diagnosis_id = ''d'', pp_requester_id = ''u'',
      pp_params = [(''component_id'', JStr ''retriever''), (''target_index_id'', JStr ''index_v7'')],
      pp_execution_mode = SIMULATION, pp_idempotency_key = ''k'', pp_expected_version_id = None,
      pp_certificate_id = None, pp_proposal_id = ''p1'', pp_policy_decision = Some ''allow'',
      pp_approval_request_id = None, pp_admission_receipt_id = Some ''r1'',
      pp_admission_binding = demo_actual\<rparr>"

definition demo_exec_env :: exec_env where
  "demo_exec_env =
     \<lparr>xe_env = receipt_env, xe_secret = None, xe_verifier = \<lparr>vf_secret = [], vf_revoked = []\<rparr>, xe_now = 0,
      xe_event_id = ''e'', xe_cap_id = ''c'', xe_nonce = ''n'', xe_capsule_id = ''cap1'', xe_repr = (\<lambda>_. [])\<rparr>"

definition empty_exec :: local_exec where
  "empty_exec =
     \<lparr>ex_used_keys = [], ex_live_versions = [], ex_capsules = [], lx_top_k = [], lx_index = [],
      lx_reranker = [], lx_model = [], lx_tools_disabled = [], lx_quarantined_ns = [],
      lx_prompt_versions = [], lx_prov = empty_prov\<rparr>"

lemma demo_prepare:
  "\<exists>c. local_prepare_capsule demo_exec_env demo_proposal empty_exec = (Inr c, empty_exec)"
  by (simp add: local_prepare_capsule_def snapshot_state_def with_key_def param_or_def demo_proposal_def Let_def)

lemma demo_execute:
  "\<exists>r s1. local_execute demo_exec_env demo_proposal empty_exec = (Inr r, s1) \<and> xr_success r \<and> s1 \<noteq> empty_exec"
proof -
  obtain c where c: "local_prepare_capsule demo_exec_env demo_proposal empty_exec = (Inr c, empty_exec)"
    using demo_prepare by blast
  have "validate_params demo_proposal = []" "version_guard demo_proposal empty_exec = None"
    "pp_execution_mode demo_proposal = SIMULATION"
    by (simp_all add: validate_params_def demo_proposal_def version_guard_def)
  with c show ?thesis
    by (simp add: local_execute_def execute_def Let_def empty_exec_def)
       (simp add: local_apply_def with_param_def demo_proposal_def put_result_def ok_result_def)
qed

theorem execute_guards_and_idempotency_witness:
  "\<exists>r s1. local_execute demo_exec_env demo_proposal empty_exec = (Inr r, s1) \<and>
     local_execute demo_exec_env demo_proposal s1 = (Inl IdempotencyConflict, s1)"
proof -
  obtain r s1 where e: "local_execute demo_exec_env demo_proposal empty_exec = (Inr r, s1)" "xr_success r"
    using demo_execute by blast
  have "pp_execution_mode demo_proposal \<noteq> DRY_RUN" by (simp add: demo_proposal_def)
  with e execute_guards_and_idempotency [of demo_proposal empty_exec "local_prepare_capsule demo_exec_env"
      "local_apply demo_exec_env" "local_prepare_capsule demo_exec_env" "local_apply demo_exec_env"]
  show ?thesis unfolding local_execute_def by blast
qed

theorem compensate_undoes_execute_witness:
  "\<exists>r s1 c s2. local_execute demo_exec_env demo_proposal empty_exec = (Inr r, s1) \<and>
     local_compensate demo_exec_env c s1 = (Inr (rolled_back c), s2) \<and> observe s2 = observe empty_exec"
proof -
  obtain r s1 where e: "local_execute demo_exec_env demo_proposal empty_exec = (Inr r, s1)" "xr_success r"
    using demo_execute by blast
  have "pp_execution_mode demo_proposal \<noteq> DRY_RUN" "fixture_action (pp_action_type demo_proposal)"
    by (simp_all add: demo_proposal_def fixture_action_def)
  from compensate_undoes_execute [OF e this, of demo_exec_env] e show ?thesis by auto
qed

theorem usable_capsule_is_sealed_witness:
  "\<exists>c. local_prepare_capsule demo_exec_env demo_proposal empty_exec = (Inr c, empty_exec) \<and>
     cs_tenant_id (c\<lparr>cs_used_at := Some 3\<rparr>) = cs_tenant_id c"
proof -
  obtain c where c: "local_prepare_capsule demo_exec_env demo_proposal empty_exec = (Inr c, empty_exec)"
    using demo_prepare by blast
  have env: "xe_env demo_exec_env = receipt_env" by (simp add: demo_exec_env_def)
  have u: "is_usable receipt_env 0 c = None"
    using local_prepare_capsule_Inr(6) [OF c, of 0] env by (simp add: demo_exec_env_def)
  then have i: "cs_integrity_hash c = compute_integrity receipt_env c"
    by (simp add: is_usable_None_iff verify_integrity_def)
  have m: "capsule_message receipt_env (c\<lparr>cs_used_at := Some 3\<rparr>) = capsule_message receipt_env c"
    by (simp add: capsule_message_def capsule_document_def)
  have u': "is_usable receipt_env 0 (c\<lparr>cs_used_at := Some 3\<rparr>) = None"
    "cs_integrity_hash (c\<lparr>cs_used_at := Some 3\<rparr>) = compute_integrity receipt_env c"
    using u i m by (simp_all add: is_usable_None_iff verify_integrity_def compute_integrity_def)
  have "float_repr_ok (float_repr receipt_env)" "inj (iso receipt_env)"
    by (simp_all add: float_repr_ok_ratio_repr inj_def inj_int_str)
  from usable_capsule_is_sealed [OF this u'] c m show ?thesis
    by (auto simp: collision_between_def)
qed

abbreviation demo_db :: store_db where
  "demo_db \<equiv> fold (store_step receipt_env) (take 1 demo_calls) empty_store"

lemma demo_admission_actual: "admission_actual demo_proposal = demo_actual"
  by (simp add: admission_actual_def demo_proposal_def demo_actual_def)

theorem admitted_execution_once_witness:
  "\<exists>out s' db'. execute_with_admission receipt_env (\<lambda>n. int_str (int n)) demo_trust 15 (\<lambda>_. []) (\<lambda>_. []) (\<lambda>_. [])
      (\<lambda>p s. (Inr (ok_result p []), s + 1)) demo_proposal (0 :: nat, demo_db) = (out, s', db') \<and>
    s' = 1 \<and> status ''r1'' db' = Some CONSUMED"
proof -
  let ?run = "execute_with_admission receipt_env (\<lambda>n. int_str (int n)) demo_trust 15 (\<lambda>_. []) (\<lambda>_. []) (\<lambda>_. [])
      (\<lambda>p s. (Inr (ok_result p []), s + 1)) demo_proposal (0 :: nat, demo_db)"
  have rid: "pp_admission_receipt_id demo_proposal = Some ''r1''" by (simp add: demo_proposal_def)
  have "\<exists>db'. ?run = (Inr (ok_result demo_proposal []), 1, db')"
    by (simp add: execute_with_admission_def rid demo_admission_actual demo_defs issue_def verify_def consume_def
        terminal_transition_def allowed_sources_def demo_evaluation demo_row Let_def ok_result_def)
  then obtain db' where r: "?run = (Inr (ok_result demo_proposal []), 1, db')" by blast
  from admitted_execution_once [OF r rid] r show ?thesis by (simp add: ok_result_def)
qed

end
