(* ===== verification/Ledger_Store.thy ===== *)
theory Ledger_Store
  imports Hash_Chain
begin

section \<open>The transparency ledger\<close>

text \<open>
  \<open>packages/ledger/src/store.py\<close>: the payload and entry hashes, and the SQLite table of
  \<open>SQLiteTransparencyStore\<close> as a list of rows in the order of insertion. A query with
  \<open>ORDER BY sequence_number\<close> is a stable sort of that list. The primary key and the UNIQUE
  constraint are checked by the insertion; an exception leaves the table as it was.

  The clock is an argument (\<open>now\<close>, the ISO text of the current time).
\<close>

record ledger_row =
  row_seq :: int
  row_timestamp :: string
  row_prev :: string
  row_payload_hash :: string
  row_hash :: string
  row_version :: string
  row_payload :: json

record append_result =
  res_seq :: int
  res_entry_hash :: string
  res_prev :: string
  res_payload_hash :: string
  res_timestamp :: string

datatype ledger_error =
    AppendConflict
  | StructError
  | SqliteOverflow
  | MissingLink string
  | PayloadHashMismatch int
  | EntryHashMismatch int
  | GenesisTampered
  | SequenceGap int int
  | PrevHashMismatch int

type_synonym ledger = "ledger_row list"

definition genesis :: string where
  "genesis = ''GENESIS-DGX-LEDGER-V1''"

subsection \<open>Hashing\<close>

definition get_canonical_json :: "env \<Rightarrow> json \<Rightarrow> string" where
  "get_canonical_json E data = utf8 (dumps compact_utf8_style (float_repr E) data)"

definition payload_message :: "env \<Rightarrow> json \<Rightarrow> string" where
  "payload_message E payload = ''DGX-LEDGER-PAYLOAD-V1'' @ get_canonical_json E payload"

definition compute_payload_hash :: "env \<Rightarrow> json \<Rightarrow> string" where
  "compute_payload_hash E payload = sha256 E (payload_message E payload)"

text \<open>The bytes hashed for an entry; \<open>None\<close> where \<open>struct.pack\<close> raises.\<close>

definition entry_message :: "int \<Rightarrow> string \<Rightarrow> string \<Rightarrow> string option" where
  "entry_message seq prev_hash pay_hash =
     (case pack_be 8 seq of None \<Rightarrow> None | Some seq_bytes \<Rightarrow>
      (case pack_field seq_bytes of None \<Rightarrow> None | Some f1 \<Rightarrow>
      (case pack_field (utf8 prev_hash) of None \<Rightarrow> None | Some f2 \<Rightarrow>
      (case pack_field (utf8 pay_hash) of None \<Rightarrow> None | Some f3 \<Rightarrow>
         Some (''DGX-LEDGER-ENTRY-V1'' @ f1 @ f2 @ f3)))))"

definition compute_entry_hash ::
  "env \<Rightarrow> int \<Rightarrow> string \<Rightarrow> string \<Rightarrow> (ledger_error, string) result" where
  "compute_entry_hash E seq prev_hash pay_hash =
     (case entry_message seq prev_hash pay_hash of
        None \<Rightarrow> Inl StructError
      | Some m \<Rightarrow> Inr (sha256 E m))"

subsection \<open>Operations of the store\<close>

definition by_seq :: "ledger \<Rightarrow> ledger" where
  "by_seq rows = sort_key row_seq rows"

definition last_row :: "ledger \<Rightarrow> ledger_row option" where
  "last_row rows = (if rows = [] then None else Some (last (by_seq rows)))"

definition next_slot :: "ledger \<Rightarrow> int \<times> string" where
  "next_slot rows =
     (case last_row rows of
        Some r \<Rightarrow> (row_seq r + 1, row_hash r)
      | None \<Rightarrow> (0, genesis))"

definition insert_row :: "ledger \<Rightarrow> ledger_row \<Rightarrow> (ledger_error, ledger) result" where
  "insert_row rows r =
     (if 2 ^ 63 \<le> row_seq r then Inl SqliteOverflow
      else if row_seq r \<in> row_seq ` set rows \<or> row_hash r \<in> row_hash ` set rows
      then Inl AppendConflict
      else Inr (rows @ [r]))"

definition append_entry ::
  "env \<Rightarrow> string \<Rightarrow> json \<Rightarrow> ledger \<Rightarrow> (ledger_error, append_result \<times> ledger) result" where
  "append_entry E now payload rows =
     (let (seq, prev_hash) = next_slot rows;
          pay_hash = compute_payload_hash E payload
      in rbind (compute_entry_hash E seq prev_hash pay_hash) (\<lambda>eh.
           rbind (insert_row rows
               \<lparr>row_seq = seq, row_timestamp = now, row_prev = prev_hash,
                row_payload_hash = pay_hash, row_hash = eh, row_version = ''V1'',
                row_payload = loads_dumps payload\<rparr>)
             (\<lambda>rows'. Inr (\<lparr>res_seq = seq, res_entry_hash = eh, res_prev = prev_hash,
                 res_payload_hash = pay_hash, res_timestamp = now\<rparr>, rows'))))"

definition get_entry :: "string \<Rightarrow> ledger \<Rightarrow> ledger_row option" where
  "get_entry eh rows = List.find (\<lambda>r. row_hash r = eh) rows"

definition iterate :: "ledger \<Rightarrow> ledger" where
  "iterate rows = by_seq rows"

definition latest_checkpoint :: "ledger \<Rightarrow> ledger_row option" where
  "latest_checkpoint rows = last_row rows"

text \<open>The two recomputations that both verifiers make on a row.\<close>

definition check_row :: "env \<Rightarrow> ledger_row \<Rightarrow> (ledger_error, unit) result" where
  "check_row E r =
     (if compute_payload_hash E (row_payload r) \<noteq> row_payload_hash r
      then Inl (PayloadHashMismatch (row_seq r))
      else rbind (compute_entry_hash E (row_seq r) (row_prev r) (row_payload_hash r)) (\<lambda>h.
        if h \<noteq> row_hash r then Inl (EntryHashMismatch (row_seq r)) else Inr ()))"

text \<open>
  \<open>verify_chain\<close> follows the predecessor hashes. Nothing in the table bounds the number of
  steps, so not returning is the value \<open>None\<close>.
\<close>

partial_function (option) verify_chain ::
  "env \<Rightarrow> ledger \<Rightarrow> string \<Rightarrow> (ledger_error, bool) result option" where
  "verify_chain E rows current_hash =
     (case get_entry current_hash rows of
        None \<Rightarrow> Some (Inl (MissingLink current_hash))
      | Some r \<Rightarrow>
          (case check_row E r of
             Inl e \<Rightarrow> Some (Inl e)
           | Inr _ \<Rightarrow>
               if row_seq r = 0 then
                 (if row_prev r \<noteq> genesis then Some (Inl GenesisTampered) else Some (Inr True))
               else verify_chain E rows (row_prev r)))"

fun verify_rows :: "env \<Rightarrow> int \<Rightarrow> string \<Rightarrow> ledger \<Rightarrow> (ledger_error, bool) result" where
  "verify_rows E expected_seq expected_prev [] = Inr True"
| "verify_rows E expected_seq expected_prev (r # rs) =
     (if row_seq r \<noteq> expected_seq then Inl (SequenceGap expected_seq (row_seq r))
      else if row_prev r \<noteq> expected_prev then Inl (PrevHashMismatch (row_seq r))
      else rbind (check_row E r) (\<lambda>_. verify_rows E (expected_seq + 1) (row_hash r) rs))"

definition verify_full_chain :: "env \<Rightarrow> ledger \<Rightarrow> (ledger_error, bool) result" where
  "verify_full_chain E rows = verify_rows E 0 genesis (by_seq rows)"

subsection \<open>Messages determine what they encode\<close>

lemma payload_message_eq_iff:
  assumes "float_repr_ok (float_repr E)"
  shows "payload_message E p = payload_message E q \<longleftrightarrow> canon p = canon q"
  using dumps_eq_iff [OF style_ok_styles(2) assms] utf8_inj
  by (auto simp: payload_message_def get_canonical_json_def) (metis dumps_canon)

lemma entry_message_inj:
  assumes "entry_message s p h = Some m" "entry_message s' p' h' = Some m"
  shows "s = s' \<and> p = p' \<and> h = h'"
proof -
  obtain b f1 f2 f3 where 1: "pack_be 8 s = Some b" "pack_field b = Some f1"
      "pack_field (utf8 p) = Some f2" "pack_field (utf8 h) = Some f3"
      "m = ''DGX-LEDGER-ENTRY-V1'' @ f1 @ f2 @ f3"
    using assms(1) by (auto simp: entry_message_def split: option.splits)
  obtain b' g1 g2 g3 where 2: "pack_be 8 s' = Some b'" "pack_field b' = Some g1"
      "pack_field (utf8 p') = Some g2" "pack_field (utf8 h') = Some g3"
      "m = ''DGX-LEDGER-ENTRY-V1'' @ g1 @ g2 @ g3"
    using assms(2) by (auto simp: entry_message_def split: option.splits)
  from 1(5) 2(5) have "f1 @ f2 @ f3 = g1 @ g2 @ g3" by simp
  with 1(2) 2(2) have "b = b'" "f2 @ f3 = g2 @ g3" using pack_field_prefix_code by blast+
  moreover from this 1(3) 2(3) have "utf8 p = utf8 p'" "f3 = g3" using pack_field_prefix_code by blast+
  moreover from this 1(4) 2(4) have "utf8 h = utf8 h'"
    using pack_field_prefix_code [of "utf8 h" f3 "utf8 h'" g3 "[]" "[]"] by simp
  ultimately show ?thesis using 1(1) 2(1) pack_be_inj utf8_inj by blast
qed

subsection \<open>Verified ledgers\<close>

text \<open>The conditions \<open>verify_full_chain\<close> establishes, as a predicate on the sorted rows.\<close>

definition row_ok :: "env \<Rightarrow> ledger_row \<Rightarrow> bool" where
  "row_ok E r \<longleftrightarrow> check_row E r = Inr ()"

definition row_message :: "ledger_row \<Rightarrow> string" where
  "row_message r = the (entry_message (row_seq r) (row_prev r) (row_payload_hash r))"

lemma row_okD:
  assumes "row_ok E r"
  shows "compute_payload_hash E (row_payload r) = row_payload_hash r"
    and "entry_message (row_seq r) (row_prev r) (row_payload_hash r) = Some (row_message r)"
    and "row_hash r = sha256 E (row_message r)"
  using assms
  by (auto simp: row_ok_def check_row_def row_message_def compute_entry_hash_def rbind_Inr_iff
      split: if_splits option.splits)

interpretation rows: hash_chain row_prev row_hash row_message "sha256 E" "row_ok E"
  for E :: env
proof unfold_locales
  show "row_hash r = sha256 E (row_message r)" if "row_ok E r" for r
    using row_okD(3) [OF that] .
  show "row_prev r = row_prev r'"
    if "row_ok E r" "row_ok E r'" "row_message r = row_message r'" for r r'
    using row_okD(2) [OF that(1)] row_okD(2) [OF that(2)] that(3) entry_message_inj by metis
qed

lemma verify_rows_iff:
  "verify_rows E s g rs = Inr v \<longleftrightarrow>
     v \<and> map row_seq rs = map (\<lambda>i. s + int i) [0..<length rs] \<and>
     linked row_prev row_hash g rs \<and> (\<forall>r\<in>set rs. row_ok E r)"
proof (induction rs arbitrary: s g)
  case Nil
  then show ?case by auto
next
  case (Cons r rs)
  have shift: "map (\<lambda>i. s + int i) [0..<Suc n] = s # map (\<lambda>i. (s + 1) + int i) [0..<n]" for n
    by (simp add: upt_conv_Cons map_Suc_upt [symmetric] del: upt_Suc)
  show ?case
    using Cons.IH [of "s + 1" "row_hash r"]
    by (auto simp: rbind_Inr_iff row_ok_def shift simp del: upt_Suc)
qed

lemma verify_rows_true: "verify_rows E s g rs = Inr v \<Longrightarrow> v"
  by (simp add: verify_rows_iff)

lemma by_seq_sorted_id: "sorted (map row_seq rows) \<Longrightarrow> by_seq rows = rows"
  by (simp add: by_seq_def sort_key_sorted_id)

lemma set_by_seq [simp]: "set (by_seq rows) = set rows"
  by (simp add: by_seq_def)

lemma length_by_seq [simp]: "length (by_seq rows) = length rows"
  by (simp add: by_seq_def)

lemma by_seq_eq_Nil [simp]: "by_seq rows = [] \<longleftrightarrow> rows = []"
  by (simp flip: length_0_conv)

lemma verified_last:
  assumes "verify_full_chain E rows = Inr True" "rows \<noteq> []"
  shows "row_seq (last (by_seq rows)) = int (length rows) - 1"
proof -
  have eq: "map row_seq (by_seq rows) = map int [0..<length rows]"
    using assms(1) by (simp add: verify_full_chain_def verify_rows_iff)
  have "row_seq (last (by_seq rows)) = last (map row_seq (by_seq rows))"
    using assms(2) by (simp add: last_map)
  also have "\<dots> = int (length rows) - 1"
    unfolding eq using assms(2) by (simp add: last_map of_nat_diff Suc_leI)
  finally show ?thesis .
qed

lemma verified_next_slot:
  assumes "verify_full_chain E rows = Inr True"
  shows "next_slot rows =
    (int (length rows), if rows = [] then genesis else row_hash (last (by_seq rows)))"
  using verified_last [OF assms] by (auto simp: next_slot_def last_row_def)

lemma by_seq_snoc:
  assumes "\<forall>r\<in>set rows. row_seq r < row_seq x"
  shows "by_seq (rows @ [x]) = by_seq rows @ [x]"
proof -
  have ins: "insort_key row_seq a (ys @ [x]) = insort_key row_seq a ys @ [x]"
    if "row_seq a < row_seq x" for a ys
    using that by (induction ys) auto
  show ?thesis using assms
  proof (induction rows)
    case Nil
    then show ?case by (simp add: by_seq_def)
  next
    case (Cons a rows)
    then show ?case using ins [of a] by (simp add: by_seq_def)
  qed
qed

lemma verified_seq_bound:
  assumes "verify_full_chain E rows = Inr True" "r \<in> set rows"
  shows "0 \<le> row_seq r \<and> row_seq r < int (length rows)"
proof -
  have "row_seq r \<in> set (map row_seq (by_seq rows))" using assms(2) by simp
  also have "map row_seq (by_seq rows) = map int [0..<length rows]"
    using assms(1) by (simp add: verify_full_chain_def verify_rows_iff)
  finally show ?thesis by auto
qed

subsection \<open>Properties of the ledger\<close>

lemma append_entry_Inr:
  assumes "append_entry E now payload rows = Inr (res, rows')"
    and "next_slot rows = (seq, prev_hash)"
  obtains r where "rows' = rows @ [r]" "row_seq r = seq" "row_prev r = prev_hash"
    "row_ok E r" "row_hash r = res_entry_hash res" "row_payload r = canon payload"
    "row_payload_hash r = res_payload_hash res"
    "row_seq r \<notin> row_seq ` set rows" "row_hash r \<notin> row_hash ` set rows" "res_seq res = seq"
  using assms
  by (auto simp: append_entry_def insert_row_def Let_def rbind_Inr_iff row_ok_def check_row_def
      compute_payload_hash_def loads_dumps_def payload_message_def get_canonical_json_def
      split: if_splits)

lemma append_extends_verified:
  assumes "verify_full_chain E rows = Inr True"
    and "append_entry E now payload rows = Inr (res, rows')"
  shows "verify_full_chain E rows' = Inr True \<and>
    (\<exists>r. rows' = rows @ [r] \<and> row_seq r = int (length rows) \<and> res_seq res = row_seq r \<and>
         row_hash r = res_entry_hash res \<and> row_payload r = canon payload)"
proof -
  obtain r where r: "rows' = rows @ [r]" "row_seq r = int (length rows)"
      "row_prev r = (if rows = [] then genesis else row_hash (last (by_seq rows)))"
      "row_ok E r" "row_hash r = res_entry_hash res" "row_payload r = canon payload"
      "res_seq res = int (length rows)"
    using append_entry_Inr [OF assms(2) verified_next_slot [OF assms(1)]] by metis
  have srt: "by_seq (rows @ [r]) = by_seq rows @ [r]"
    using verified_seq_bound [OF assms(1)] r(2) by (intro by_seq_snoc) auto
  have "verify_full_chain E rows' = Inr True"
    using assms(1) r srt by (auto simp: verify_full_chain_def verify_rows_iff)
  with r show ?thesis by auto
qed

text \<open>
  C6. Appending keeps a ledger verified: after a successful append to a ledger that
  \<open>verify_full_chain\<close> accepts, the new ledger is accepted too, it has exactly one more row,
  every earlier row is unchanged, and the new row carries the returned sequence number and
  entry hash and the payload.
\<close>

theorem append_keeps_verified:
  assumes "verify_full_chain E rows = Inr True"
    and "append_entry E now payload rows = Inr (res, rows')"
  shows "verify_full_chain E rows' = Inr True \<and>
    (\<exists>r. rows' = rows @ [r] \<and> row_seq r = int (length rows) \<and> res_seq res = row_seq r \<and>
         row_hash r = res_entry_hash res \<and> row_payload r = canon payload)"
  using assms by (rule append_extends_verified)

text \<open>What a row claims, with its payload up to key order.\<close>

definition row_view :: "ledger_row \<Rightarrow> int \<times> string \<times> string \<times> string \<times> json" where
  "row_view r = (row_seq r, row_prev r, row_payload_hash r, row_hash r, canon (row_payload r))"

lemma row_view_eqI:
  assumes "float_repr_ok (float_repr E)" "row_ok E r" "row_ok E r'"
    and m: "row_message r = row_message r'"
    and nc: "\<not> collision_between (sha256 E) {payload_message E (row_payload r)} {payload_message E (row_payload r')}"
  shows "row_view r = row_view r'"
proof -
  have f: "row_seq r = row_seq r' \<and> row_prev r = row_prev r' \<and> row_payload_hash r = row_payload_hash r'"
    using entry_message_inj row_okD(2) [OF assms(2)] row_okD(2) [OF assms(3)] m by metis
  moreover have "row_hash r = row_hash r'"
    using row_okD(3) [OF assms(2)] row_okD(3) [OF assms(3)] m by simp
  moreover have "sha256 E (payload_message E (row_payload r)) = sha256 E (payload_message E (row_payload r'))"
    using f row_okD(1) [OF assms(2)] row_okD(1) [OF assms(3)] by (simp add: compute_payload_hash_def)
  then have "canon (row_payload r) = canon (row_payload r')"
    using nc payload_message_eq_iff [OF assms(1)] by (auto simp: collision_between_def)
  ultimately show ?thesis by (simp add: row_view_def)
qed

text \<open>
  C18. Tamper evidence: two ledgers that \<open>verify_full_chain\<close> accepts and whose newest entries
  have the same entry hash hold, row by row, the same sequence numbers, predecessor hashes,
  payload hashes and entry hashes, and the same payloads up to key order, unless two of the
  messages hashed for them collide under SHA-256. A hash equal to the genesis marker is
  excluded, which holds for every hex digest.
\<close>

theorem same_head_same_ledger:
  assumes "verify_full_chain E rows = Inr True" "verify_full_chain E rows' = Inr True"
    and "rows \<noteq> []" "rows' \<noteq> []"
    and "row_hash (last (by_seq rows)) = row_hash (last (by_seq rows'))"
    and "float_repr_ok (float_repr E)" "\<forall>m. sha256 E m \<noteq> genesis"
  shows "map row_view (by_seq rows) = map row_view (by_seq rows')
       \<or> collision_between (sha256 E) (row_message ` set rows) (row_message ` set rows')
       \<or> collision_between (sha256 E) (payload_message E ` row_payload ` set rows)
           (payload_message E ` row_payload ` set rows')"
proof (rule disjCI)
  assume n: "\<not> (collision_between (sha256 E) (row_message ` set rows) (row_message ` set rows')
    \<or> collision_between (sha256 E) (payload_message E ` row_payload ` set rows)
           (payload_message E ` row_payload ` set rows'))"
  note nm = n [unfolded de_Morgan_disj, THEN conjunct1]
    and nc = n [unfolded de_Morgan_disj, THEN conjunct2]
  have ok: "\<forall>r\<in>set rows. row_ok E r" "\<forall>r\<in>set rows'. row_ok E r"
    and lk: "linked row_prev row_hash genesis (by_seq rows)" "linked row_prev row_hash genesis (by_seq rows')"
    using assms(1,2) by (auto simp: verify_full_chain_def verify_rows_iff)
  have ng: "genesis \<notin> row_hash ` set rows" "genesis \<notin> row_hash ` set rows'"
    using ok row_okD(3) assms(7) by (metis imageE)+
  have "map row_message (by_seq rows) = map row_message (by_seq rows')"
    using rows.same_head_same_messages [OF lk, of E] ok ng nm assms(3-5) by simp
  then show "map row_view (by_seq rows) = map row_view (by_seq rows')"
  proof (rule map_eq_transfer)
    fix r r' assume r: "r \<in> set (by_seq rows)" "r' \<in> set (by_seq rows')" "row_message r = row_message r'"
    then have "\<not> collision_between (sha256 E) {payload_message E (row_payload r)} {payload_message E (row_payload r')}"
      using nc by (auto simp: collision_between_def)
    with r ok show "row_view r = row_view r'"
      by (intro row_view_eqI [OF assms(6)]) auto
  qed
qed

lemma verify_chain_prefix:
  assumes "distinct (map row_hash rows)" "set rs \<subseteq> set rows" "rs \<noteq> []"
    and "verify_rows E 0 genesis rs = Inr True"
  shows "verify_chain E rows (row_hash (last rs)) = Some (Inr True)"
  using assms(2-4)
proof (induction rs rule: rev_induct)
  case Nil
  then show ?case by simp
next
  case (snoc r rs)
  have v: "verify_rows E 0 genesis rs = Inr True" "row_seq r = int (length rs)" "row_ok E r"
      "row_prev r = (if rs = [] then genesis else row_hash (last rs))"
    using snoc.prems(3) by (auto simp: verify_rows_iff)
  have "get_entry (row_hash r) rows = Some r"
    using assms(1) snoc.prems(1) by (simp add: get_entry_def find_distinct_key)
  moreover have "check_row E r = Inr ()" using v(3) by (simp add: row_ok_def)
  ultimately show ?case
    using snoc v by (subst verify_chain.simps) auto
qed

lemma verify_rows_take:
  "verify_rows E s g rs = Inr True \<Longrightarrow> verify_rows E s g (take n rs) = Inr True"
proof (induction rs arbitrary: s g n)
  case (Cons r rs)
  then show ?case by (cases n) (auto simp: rbind_Inr_iff split: if_splits)
qed simp

lemma verify_chain_accepts:
  assumes "verify_full_chain E rows = Inr True" "distinct (map row_hash rows)"
    and "r \<in> set rows"
  shows "verify_chain E rows (row_hash r) = Some (Inr True)"
proof -
  obtain i where i: "i < length rows" "by_seq rows ! i = r"
    using assms(3) by (metis in_set_conv_nth length_by_seq set_by_seq)
  let ?rs = "take (Suc i) (by_seq rows)"
  have "verify_rows E 0 genesis ?rs = Inr True"
    using assms(1) by (simp add: verify_full_chain_def verify_rows_take)
  moreover have "set ?rs \<subseteq> set rows" using set_take_subset [of "Suc i" "by_seq rows"] by simp
  moreover have "?rs \<noteq> []" using i by auto
  ultimately have "verify_chain E rows (row_hash (last ?rs)) = Some (Inr True)"
    using verify_chain_prefix [OF assms(2)] by blast
  moreover have "last ?rs = r" using i by (simp add: take_Suc_conv_app_nth)
  ultimately show ?thesis by simp
qed

text \<open>
  The backward walk agrees with the full check: on a ledger that \<open>verify_full_chain\<close>
  accepts and whose entry hashes are distinct (the UNIQUE constraint), \<open>verify_chain\<close>
  started at any stored entry hash returns, and returns \<open>True\<close>.
\<close>

theorem verify_chain_of_verified:
  assumes "verify_full_chain E rows = Inr True" "distinct (map row_hash rows)"
    and "r \<in> set rows"
  shows "verify_chain E rows (row_hash r) = Some (Inr True)"
  using assms by (rule verify_chain_accepts)

lemma check_row_timestamp [simp]: "check_row E (r\<lparr>row_timestamp := t\<rparr>) = check_row E r"
  by (simp add: check_row_def cong: if_cong)

lemma verify_rows_timestamp:
  "verify_rows E s g (map (\<lambda>r. r\<lparr>row_timestamp := f r\<rparr>) rs) = verify_rows E s g rs"
  by (induction rs arbitrary: s g) auto

lemma by_seq_take [simp]: "by_seq (take n (by_seq rows)) = take n (by_seq rows)"
  by (simp add: by_seq_def sort_key_sorted_id take_map [symmetric] sorted_wrt_take)

text \<open>
  What the full check cannot see: an accepted ledger stays accepted when its newest
  entries are deleted, and when the timestamps of its rows are replaced.
\<close>

theorem verified_truncation_and_timestamps:
  assumes "verify_full_chain E rows = Inr True"
  shows "verify_full_chain E (take n (by_seq rows)) = Inr True
       \<and> verify_full_chain E (map (\<lambda>r. r\<lparr>row_timestamp := f r\<rparr>) rows) = Inr True"
proof
  show "verify_full_chain E (take n (by_seq rows)) = Inr True"
    using assms by (simp add: verify_full_chain_def verify_rows_take)
  have "by_seq (map (\<lambda>r. r\<lparr>row_timestamp := f r\<rparr>) rows) = map (\<lambda>r. r\<lparr>row_timestamp := f r\<rparr>) (by_seq rows)"
    by (simp add: by_seq_def sort_key_map)
  then show "verify_full_chain E (map (\<lambda>r. r\<lparr>row_timestamp := f r\<rparr>) rows) = Inr True"
    using assms by (simp add: verify_full_chain_def verify_rows_timestamp)
qed

lemma pack_be_8: "0 \<le> i \<Longrightarrow> i < 2 ^ 63 \<Longrightarrow> pack_be 8 i = Some (be_bytes 8 (nat i))"
  by (simp add: pack_be_def)

lemma pack_field_short: "length b < 2 ^ 32 \<Longrightarrow> \<exists>f. pack_field b = Some f"
  by (simp add: pack_field_def pack_be_def)

lemma entry_message_defined:
  assumes "0 \<le> s" "s < 2 ^ 63" "length (utf8 p) < 2 ^ 32" "length (utf8 h) < 2 ^ 32"
  shows "\<exists>m. entry_message s p h = Some m"
  using pack_be_8 [OF assms(1,2)] pack_field_short [of "be_bytes 8 (nat s)"]
    pack_field_short [OF assms(3)] pack_field_short [OF assms(4)]
  by (auto simp: entry_message_def)

text \<open>
  Progress: appending to an accepted ledger succeeds, unless the sequence number leaves
  SQLite's integer range or the new entry hash is already in the table; digests are
  64 ASCII characters long, so they fit their length fields.
\<close>

theorem append_succeeds:
  assumes "verify_full_chain E rows = Inr True" "int (length rows) < 2 ^ 63"
    and "\<forall>m. length (utf8 (sha256 E m)) = 64"
    and "compute_entry_hash E (int (length rows))
           (if rows = [] then genesis else row_hash (last (by_seq rows)))
           (compute_payload_hash E payload) \<notin> Inr ` row_hash ` set rows"
  shows "\<exists>res rows'. append_entry E now payload rows = Inr (res, rows')"
proof -
  define prev_hash where "prev_hash = (if rows = [] then genesis else row_hash (last (by_seq rows)))"
  have slot: "next_slot rows = (int (length rows), prev_hash)"
    using verified_next_slot [OF assms(1)] by (simp add: prev_hash_def)
  have "length (utf8 prev_hash) < 2 ^ 32"
  proof (cases "rows = []")
    case True
    then show ?thesis by (simp add: prev_hash_def genesis_def utf8_def utf8_char_def)
  next
    case False
    then have "last (by_seq rows) \<in> set rows" by (metis by_seq_eq_Nil last_in_set set_by_seq)
    then have "row_ok E (last (by_seq rows))"
      using assms(1) by (simp add: verify_full_chain_def verify_rows_iff)
    with False show ?thesis using row_okD(3) assms(3) by (simp add: prev_hash_def)
  qed
  then obtain m where "entry_message (int (length rows)) prev_hash (compute_payload_hash E payload) = Some m"
    using entry_message_defined [OF _ assms(2)] assms(3) by (fastforce simp: compute_payload_hash_def)
  then have eh: "compute_entry_hash E (int (length rows)) prev_hash (compute_payload_hash E payload) = Inr (sha256 E m)"
    by (simp add: compute_entry_hash_def)
  have "int (length rows) \<notin> row_seq ` set rows"
    using verified_seq_bound [OF assms(1)] by fastforce
  moreover have "sha256 E m \<notin> row_hash ` set rows"
    using assms(4) eh by (auto simp: prev_hash_def)
  ultimately show ?thesis
    using assms(2) by (auto simp: append_entry_def slot eh insert_row_def Let_def)
qed

subsection \<open>A concrete ledger\<close>

text \<open>An environment whose hash is injective, and a ledger with one entry in it.\<close>

definition demo_env :: env where
  "demo_env = \<lparr>sha256 = (\<lambda>m. CHR ''#'' # m), float_repr = ratio_repr, iso = int_str,
     ed25519_verify = (\<lambda>k m s. if s = k @ m then EdVerified else EdInvalidSignature),
     ed25519_sign = (\<lambda>k m. k @ m), hmac_sha256 = (\<lambda>k m. k @ m),
      b64_encode = (\<lambda>x. x), b64_decode = Some\<rparr>"

definition demo_payload :: json where
  "demo_payload = JObj [(''run'', JStr ''r1''), (''cost'', JFloat (1 / 2))]"

definition demo_ledger :: ledger where
  "demo_ledger = (case append_entry demo_env ''t0'' demo_payload [] of
     Inr (_, rows) \<Rightarrow> rows | Inl _ \<Rightarrow> [])"

lemma demo_env_simps [simp]:
  "float_repr_ok (float_repr demo_env)" "inj (sha256 demo_env)" "sha256 demo_env m \<noteq> genesis"
  by (simp_all add: demo_env_def inj_def genesis_def)

theorem append_keeps_verified_witness:
  "\<exists>res rows'. append_entry demo_env ''t1'' (JInt 7) demo_ledger = Inr (res, rows') \<and>
     verify_full_chain demo_env rows' = Inr True \<and> length rows' = 2"
proof -
  have v: "verify_full_chain demo_env demo_ledger = Inr True" by code_simp
  have l: "length demo_ledger = 1" by code_simp
  have "\<not> isl (append_entry demo_env ''t1'' (JInt 7) demo_ledger)" by code_simp
  then obtain res rows' where a: "append_entry demo_env ''t1'' (JInt 7) demo_ledger = Inr (res, rows')"
    by (cases "append_entry demo_env ''t1'' (JInt 7) demo_ledger") auto
  from append_keeps_verified [OF v a] l a show ?thesis by auto
qed

theorem same_head_same_ledger_witness:
  "map row_view (by_seq demo_ledger) =
     map row_view (by_seq (map (\<lambda>r. r\<lparr>row_payload := JObj [(''cost'', JFloat (1 / 2)), (''run'', JStr ''r1'')]\<rparr>) demo_ledger))"
proof -
  let ?rows' = "map (\<lambda>r. r\<lparr>row_payload := JObj [(''cost'', JFloat (1 / 2)), (''run'', JStr ''r1'')]\<rparr>) demo_ledger"
  have v: "verify_full_chain demo_env demo_ledger = Inr True" "verify_full_chain demo_env ?rows' = Inr True"
    by code_simp+
  have n: "demo_ledger \<noteq> []" "?rows' \<noteq> []" by code_simp+
  have h: "row_hash (last (by_seq demo_ledger)) = row_hash (last (by_seq ?rows'))" by code_simp
  have nc: "\<not> collision_between (sha256 demo_env) A B" for A B
    by (rule not_collision_inj) simp
  show ?thesis
    using same_head_same_ledger [OF v n h] by (simp only: nc demo_env_simps simp_thms)
qed

theorem verify_chain_of_verified_witness:
  "verify_chain demo_env demo_ledger (row_hash (hd demo_ledger)) = Some (Inr True)"
proof -
  have "verify_full_chain demo_env demo_ledger = Inr True" "distinct (map row_hash demo_ledger)"
    "hd demo_ledger \<in> set demo_ledger" by code_simp+
  then show ?thesis by (rule verify_chain_of_verified)
qed

theorem verified_truncation_witness:
  "verify_full_chain demo_env (take 0 (by_seq demo_ledger)) = Inr True \<and>
   verify_full_chain demo_env (map (\<lambda>r. r\<lparr>row_timestamp := ''forged''\<rparr>) demo_ledger) = Inr True"
proof -
  have "verify_full_chain demo_env demo_ledger = Inr True" by code_simp
  from verified_truncation_and_timestamps [OF this, of 0 "\<lambda>_. ''forged''"] show ?thesis by simp
qed

definition demo_digest :: "string \<Rightarrow> string" where
  "demo_digest m = take 64 (m @ replicate 64 (CHR ''0''))"

lemma demo_digest_ascii: "length (utf8 (map (\<lambda>c. if (of_char c :: nat) < 128 then c else CHR ''0'') (demo_digest m))) = 64"
proof -
  have len: "length (demo_digest m) = 64" by (simp add: demo_digest_def)
  have "length (utf8 (map (\<lambda>c. if (of_char c :: nat) < 128 then c else CHR ''0'') s)) = length s" for s
    by (induction s) (auto simp: utf8_def utf8_char_def)
  with len show ?thesis by simp
qed

theorem append_succeeds_witness:
  "\<exists>res rows'. append_entry
     (demo_env\<lparr>sha256 := \<lambda>m. map (\<lambda>c. if (of_char c :: nat) < 128 then c else CHR ''0'') (demo_digest m)\<rparr>)
     ''t0'' (JInt 7) [] = Inr (res, rows')"
  by (rule append_succeeds) (simp_all add: demo_digest_ascii verify_full_chain_def by_seq_def)

end
