(* ===== verification/Canary.thy ===== *)
theory Canary
  imports Prelude
begin

section \<open>Canary verification\<close>

text \<open>
  \<open>packages/recovery/src/canary.py\<close>: the verdict on a recovery action from a set of replayed
  episodes with metrics before and after it. The texts of the failure reasons are the constructors
  of a datatype that carry the numbers the texts show.
\<close>

record canary_episode =
  ce_episode_id :: string
  ce_baseline_quality :: rat
  ce_baseline_cost_usd :: rat
  ce_baseline_latency_ms :: rat
  ce_baseline_safe :: bool
  ce_post_quality :: rat
  ce_post_cost_usd :: rat
  ce_post_latency_ms :: rat
  ce_post_safe :: bool

record canary_thresholds =
  ct_min_quality_delta :: rat
  ct_max_cost_delta_usd :: rat
  ct_max_latency_delta_ms :: rat

definition default_thresholds :: canary_thresholds where
  "default_thresholds =
     \<lparr>ct_min_quality_delta = - 2 / 100, ct_max_cost_delta_usd = 20 / 100, ct_max_latency_delta_ms = 200\<rparr>"

datatype canary_failure =
    NoEpisodes
  | SafetyRegression nat nat
  | QualityRegression rat rat
  | CostOverrun rat rat
  | LatencyRegression rat rat

record canary_result =
  cv_proposal_id :: string
  cv_n_episodes :: nat
  cv_safety_pass :: bool
  cv_quality_pass :: bool
  cv_cost_pass :: bool
  cv_latency_pass :: bool
  cv_overall_pass :: bool
  cv_mean_quality_delta :: rat
  cv_mean_cost_delta :: rat
  cv_mean_latency_delta :: rat
  cv_safety_violations_post :: nat
  cv_failure_reasons :: "canary_failure list"
  cv_verified_at :: int

definition mean_of :: "(canary_episode \<Rightarrow> rat) \<Rightarrow> canary_episode list \<Rightarrow> rat" where
  "mean_of f episodes = sum_list (map f episodes) / of_nat (length episodes)"

definition count_of :: "(canary_episode \<Rightarrow> bool) \<Rightarrow> canary_episode list \<Rightarrow> nat" where
  "count_of P episodes = length (filter P episodes)"

definition run_canary_verification ::
    "int \<Rightarrow> string \<Rightarrow> canary_episode list \<Rightarrow> canary_thresholds option \<Rightarrow> canary_result" where
  "run_canary_verification now proposal_id episodes thresholds =
     (let th = (case thresholds of None \<Rightarrow> default_thresholds | Some t \<Rightarrow> t) in
      if episodes = [] then
        \<lparr>cv_proposal_id = proposal_id, cv_n_episodes = 0, cv_safety_pass = False, cv_quality_pass = False,
         cv_cost_pass = False, cv_latency_pass = False, cv_overall_pass = False, cv_mean_quality_delta = 0,
         cv_mean_cost_delta = 0, cv_mean_latency_delta = 0, cv_safety_violations_post = 0,
         cv_failure_reasons = [NoEpisodes], cv_verified_at = now\<rparr>
      else
        let mean_q = mean_of (\<lambda>ep. ce_post_quality ep - ce_baseline_quality ep) episodes;
            mean_c = mean_of (\<lambda>ep. ce_post_cost_usd ep - ce_baseline_cost_usd ep) episodes;
            mean_l = mean_of (\<lambda>ep. ce_post_latency_ms ep - ce_baseline_latency_ms ep) episodes;
            violations_post = count_of (\<lambda>ep. \<not> ce_post_safe ep) episodes;
            baseline_violations = count_of (\<lambda>ep. \<not> ce_baseline_safe ep) episodes;
            safety_pass = (violations_post \<le> baseline_violations);
            quality_pass = (ct_min_quality_delta th \<le> mean_q);
            cost_pass = (mean_c \<le> ct_max_cost_delta_usd th);
            latency_pass = (mean_l \<le> ct_max_latency_delta_ms th) in
        \<lparr>cv_proposal_id = proposal_id, cv_n_episodes = length episodes, cv_safety_pass = safety_pass,
         cv_quality_pass = quality_pass, cv_cost_pass = cost_pass, cv_latency_pass = latency_pass,
         cv_overall_pass = (safety_pass \<and> quality_pass \<and> cost_pass \<and> latency_pass),
         cv_mean_quality_delta = mean_q, cv_mean_cost_delta = mean_c, cv_mean_latency_delta = mean_l,
         cv_safety_violations_post = violations_post,
         cv_failure_reasons =
           (if safety_pass then [] else [SafetyRegression violations_post baseline_violations]) @
           (if quality_pass then [] else [QualityRegression mean_q (ct_min_quality_delta th)]) @
           (if cost_pass then [] else [CostOverrun mean_c (ct_max_cost_delta_usd th)]) @
           (if latency_pass then [] else [LatencyRegression mean_l (ct_max_latency_delta_ms th)]),
         cv_verified_at = now\<rparr>)"

subsection \<open>The verdict\<close>

lemma mean_le_iff:
  "episodes \<noteq> [] \<Longrightarrow> mean_of f episodes \<le> b \<longleftrightarrow> sum_list (map f episodes) \<le> of_nat (length episodes) * b"
  by (simp add: mean_of_def divide_le_eq mult.commute)

lemma le_mean_iff:
  "episodes \<noteq> [] \<Longrightarrow> b \<le> mean_of f episodes \<longleftrightarrow> of_nat (length episodes) * b \<le> sum_list (map f episodes)"
  by (simp add: mean_of_def le_divide_eq mult.commute)

text \<open>
  The verdict of the canary is exactly the documented rule on totals: it passes when there is an
  episode, the episodes unsafe after the action are no more than those unsafe before it, and the totals
  of the quality, cost and latency differences respect the thresholds times the number of episodes; and
  it reports no failure reason exactly when it passes.
\<close>

theorem canary_verdict_exact:
  "(cv_overall_pass (run_canary_verification now pid episodes (Some th)) \<longleftrightarrow>
      episodes \<noteq> [] \<and>
      length (filter (\<lambda>ep. \<not> ce_post_safe ep) episodes) \<le> length (filter (\<lambda>ep. \<not> ce_baseline_safe ep) episodes) \<and>
      of_nat (length episodes) * ct_min_quality_delta th
        \<le> (\<Sum>ep\<leftarrow>episodes. ce_post_quality ep - ce_baseline_quality ep) \<and>
      (\<Sum>ep\<leftarrow>episodes. ce_post_cost_usd ep - ce_baseline_cost_usd ep)
        \<le> of_nat (length episodes) * ct_max_cost_delta_usd th \<and>
      (\<Sum>ep\<leftarrow>episodes. ce_post_latency_ms ep - ce_baseline_latency_ms ep)
        \<le> of_nat (length episodes) * ct_max_latency_delta_ms th) \<and>
   (cv_failure_reasons (run_canary_verification now pid episodes (Some th)) = [] \<longleftrightarrow>
      cv_overall_pass (run_canary_verification now pid episodes (Some th)))"
  by (auto simp: run_canary_verification_def Let_def mean_le_iff le_mean_iff count_of_def)

text \<open>
  The safety rule compares totals: an action that fixes one episode and breaks another passes, although the
  module says that new violations are never introduced.
\<close>

definition canary_swap :: "canary_episode list" where
  "canary_swap =
     [\<lparr>ce_episode_id = ''a'', ce_baseline_quality = 1, ce_baseline_cost_usd = 0, ce_baseline_latency_ms = 0,
       ce_baseline_safe = False, ce_post_quality = 1, ce_post_cost_usd = 0, ce_post_latency_ms = 0, ce_post_safe = True\<rparr>,
      \<lparr>ce_episode_id = ''b'', ce_baseline_quality = 1, ce_baseline_cost_usd = 0, ce_baseline_latency_ms = 0,
       ce_baseline_safe = True, ce_post_quality = 1, ce_post_cost_usd = 0, ce_post_latency_ms = 0, ce_post_safe = False\<rparr>]"

lemma canary_masks_new_violation:
  "cv_overall_pass (run_canary_verification 0 ''p'' canary_swap None) \<and>
   ce_baseline_safe (canary_swap ! 1) \<and> \<not> ce_post_safe (canary_swap ! 1)"
  by (simp add: canary_swap_def run_canary_verification_def Let_def default_thresholds_def mean_of_def count_of_def)

end
