(* ===== verification/Recovery_Engine.thy ===== *)
theory Recovery_Engine
  imports Recovery_FSM Recovery_Executor Ledger_Store Canary
begin

section \<open>The recovery engine\<close>

text \<open>
  \<open>packages/recovery/src/engine.py\<close>: one recovery from the policy decision to a committed or compensated
  action. The engine drives the state machine of \<open>Recovery_FSM\<close>, the development executor (under an
  admission receipt when the proposal names one), the canary and, after a compensation, the transparency
  ledger. The capsule registry of the engine is the one its executor was built with.

  A machine transition is refused by an exception, and past its deadline it silently goes to COMPENSATING: both are
  kept. \<open>run\<close> returns the exception it ends with, if any, with the state, since a raise leaves the
  record and the stores as they are at that point. Log texts for people are the constructors of \<open>escalation\<close>; other texts
  of exceptions are given by the environment.

  The eligibility certificate and its signing bytes are from \<open>packages/contracts/src/models.py\<close>.
\<close>

record eligibility_certificate =
  el_original_trace_root_hash :: string
  el_manifest_hash :: string
  el_intervention_hash :: string
  el_measured_resource :: "(string \<times> json) list"
  el_replay_outcome :: string
  el_reliability_delta :: rat
  el_policy_version :: string
  el_policy_decision :: string
  el_approval_decision_set :: "string list"
  el_canary_result_hash :: string
  el_recovery_capsule_hash :: string
  el_executor_image_digest :: string
  el_timestamp :: int
  el_signer_identity :: string
  el_signature_b64 :: string

definition eligibility_document :: "env \<Rightarrow> eligibility_certificate \<Rightarrow> (string \<times> json) list" where
  "eligibility_document E rec =
     [(''original_trace_root_hash'', JStr (el_original_trace_root_hash rec)),
      (''manifest_hash'', JStr (el_manifest_hash rec)),
      (''intervention_hash'', JStr (el_intervention_hash rec)),
      (''measured_resource_budget_and_usage'', JObj (el_measured_resource rec)),
      (''replay_outcome'', JStr (el_replay_outcome rec)),
      (''reliability_delta'', JFloat (el_reliability_delta rec)),
      (''policy_version'', JStr (el_policy_version rec)),
      (''policy_decision'', JStr (el_policy_decision rec)),
      (''approval_decision_set'', JList (map JStr (el_approval_decision_set rec))),
      (''canary_result_hash'', JStr (el_canary_result_hash rec)),
      (''recovery_capsule_hash'', JStr (el_recovery_capsule_hash rec)),
      (''executor_image_digest'', JStr (el_executor_image_digest rec)),
      (''timestamp'', JStr (iso E (el_timestamp rec))),
      (''signer_identity'', JStr (el_signer_identity rec))]"

definition serialize_for_signing :: "env \<Rightarrow> eligibility_certificate \<Rightarrow> string" where
  "serialize_for_signing E rec =
     utf8 (''DriftGuard-X-REC-v1'' @ [char_of (10 :: nat)] @
       dumps compact_style (float_repr E) (JObj (eligibility_document E rec)))"

datatype escalation =
    PolicyDenyBlocked
  | NoCertificate
  | NoPublicKey
  | InvalidSignature
  | ExpiredCertificate
  | CanaryReasons string
  | NoCapsule
  | CompensationFailed string

record recovery_record =
  rr_proposal :: proposal
  rr_machine :: "unit recovery_machine"
  rr_execution_result :: "exec_result option"
  rr_canary_result :: "canary_result option"
  rr_capsule :: "capsule option"
  rr_compensation_result :: "exec_result option"
  rr_escalation_log :: "escalation list"

record engine_state =
  es_executor :: local_exec
  es_receipts :: store_db
  es_ledger :: ledger
  es_records :: "(string \<times> recovery_record) list"
  es_auto_compensate :: bool

text \<open>
  What a run takes from outside: the primitives, the readings of the clock in the order of the run
  (reading 0 creates the machine), the environment of the executor for the action and for the rollback, the
  arguments of the receipt check, the time text of the ledger, and the texts of exceptions and reasons.
\<close>

record run_env =
  re_env :: env
  re_clock :: "nat \<Rightarrow> int"
  re_exec :: exec_env
  re_comp :: exec_env
  re_store_clock :: "nat \<Rightarrow> string"
  re_trust :: trust_args
  re_store_now :: int
  re_ledger_now :: string
  re_exec_text :: "exec_error \<Rightarrow> string"
  re_refusal_text :: "admission_refusal \<Rightarrow> string"
  re_store_text :: "store_error \<Rightarrow> string"
  re_code_text :: "exec_code option \<Rightarrow> string"
  re_canary_text :: "canary_failure list \<Rightarrow> string"

datatype run_error =
    TransitionRaised transition_error
  | ExecutorRaised exec_error
  | AdmissionRaised admission_refusal

type_synonym run_outcome = "run_error option \<times> recovery_record \<times> engine_state"

definition escalate :: "escalation \<Rightarrow> recovery_record \<Rightarrow> recovery_record" where
  "escalate e r = r\<lparr>rr_escalation_log := rr_escalation_log r @ [e]\<rparr>"

text \<open>\<open>machine.transition\<close> with the rest of the run as continuation; a refusal ends the run.\<close>

definition advance ::
    "int \<Rightarrow> recovery_status \<Rightarrow> string \<Rightarrow> recovery_record \<Rightarrow> engine_state \<Rightarrow>
       (recovery_record \<Rightarrow> run_outcome) \<Rightarrow> run_outcome" where
  "advance now to_status reason r st k =
     (case transition now to_status ''system'' reason None (rr_machine r) of
        Inl e \<Rightarrow> (Some (TransitionRaised e), r, st)
      | Inr m \<Rightarrow> k (r\<lparr>rr_machine := m\<rparr>))"

definition run_executor ::
    "run_env \<Rightarrow> proposal \<Rightarrow> engine_state \<Rightarrow> (run_error, exec_result) result \<times> engine_state" where
  "run_executor re p st =
     (if truthy (pp_admission_receipt_id p) then
        (case execute_with_admission (re_env re) (re_store_clock re) (re_trust re) (re_store_now re)
                (re_exec_text re) (re_store_text re) (\<lambda>c. re_code_text re (Some c))
                (local_execute (re_exec re)) p (es_executor st, es_receipts st) of
           (Inl e, x, db) \<Rightarrow> (Inl (AdmissionRaised e), st\<lparr>es_executor := x, es_receipts := db\<rparr>)
         | (Inr r, x, db) \<Rightarrow> (Inr r, st\<lparr>es_executor := x, es_receipts := db\<rparr>))
      else
        (case local_execute (re_exec re) p (es_executor st) of
           (Inl e, x) \<Rightarrow> (Inl (ExecutorRaised e), st\<lparr>es_executor := x\<rparr>)
         | (Inr r, x) \<Rightarrow> (Inr r, st\<lparr>es_executor := x\<rparr>)))"

definition error_text :: "run_env \<Rightarrow> run_error \<Rightarrow> string" where
  "error_text re e = (case e of
     ExecutorRaised x \<Rightarrow> re_exec_text re x
   | AdmissionRaised x \<Rightarrow> re_refusal_text re x
   | TransitionRaised _ \<Rightarrow> [])"

text \<open>The rollback evidence; an error of the ledger is logged and dropped.\<close>

definition rollback_evidence :: "run_env \<Rightarrow> capsule \<Rightarrow> exec_result \<Rightarrow> recovery_record \<Rightarrow> json" where
  "rollback_evidence re c res r =
     JObj [(''type'', JStr ''ROLLBACK_COMPENSATED''),
           (''proposal_id'', JStr (pp_proposal_id (rr_proposal r))),
           (''capsule_id'', JStr (cs_capsule_id c)),
           (''side_effects'', JObj (xr_side_effects res)),
           (''timestamp'', JStr (re_ledger_now re))]"

definition record_evidence :: "run_env \<Rightarrow> json \<Rightarrow> engine_state \<Rightarrow> engine_state" where
  "record_evidence re payload st =
     (case append_entry (re_env re) (re_ledger_now re) payload (es_ledger st) of
        Inl _ \<Rightarrow> st
      | Inr (_, l) \<Rightarrow> st\<lparr>es_ledger := l\<rparr>)"

text \<open>
  Compensation. The capsule of the record is the object of the registry, so that its status after the rollback is the
  one found there.
\<close>

definition compensate_record :: "run_env \<Rightarrow> string \<Rightarrow> recovery_record \<Rightarrow> engine_state \<Rightarrow> run_outcome" where
  "compensate_record re reason r st =
     advance (re_clock re 8) COMPENSATING reason r st (\<lambda>r.
       case (case rr_capsule r of
               Some c \<Rightarrow> Some c
             | None \<Rightarrow> capsule_for_proposal (pp_proposal_id (rr_proposal r)) (ex_capsules (es_executor st))) of
         None \<Rightarrow>
           advance (re_clock re 9) FAILED ''No capsule available for compensation.'' r st (\<lambda>r.
             (None, escalate NoCapsule r, st))
       | Some c \<Rightarrow>
           (case local_compensate (re_comp re) c (es_executor st) of
              (Inl e, x) \<Rightarrow> (Some (ExecutorRaised e), r, st\<lparr>es_executor := x\<rparr>)
            | (Inr res, x) \<Rightarrow>
                (let r = r\<lparr>rr_compensation_result := Some res,
                            rr_capsule := (if rr_capsule r = None then None
                              else map_of (ex_capsules x) (cs_capsule_id c))\<rparr>;
                     st = st\<lparr>es_executor := x\<rparr> in
                 if xr_success res then
                   advance (re_clock re 9) COMPENSATED ''Compensation succeeded.'' r st (\<lambda>r.
                     (None, r, record_evidence re (rollback_evidence re c res r) st))
                 else
                   advance (re_clock re 9) FAILED (''Compensation failed: '' @ re_code_text re (xr_error res)) r st (\<lambda>r.
                     (None, escalate (CompensationFailed (re_code_text re (xr_error res))) r, st)))))"

text \<open>The checks of the certificate: the reason of the failure and the escalation, or nothing.\<close>

definition check_certificate ::
    "run_env \<Rightarrow> eligibility_certificate option \<Rightarrow> string option \<Rightarrow> (string \<times> escalation) option" where
  "check_certificate re certificate public_key =
     (case certificate of
        None \<Rightarrow> Some (''Missing Recovery Eligibility Certificate.'', NoCertificate)
      | Some cert \<Rightarrow>
          if \<not> truthy public_key
          then Some (''Missing Signer Public Key for REC verification.'', NoPublicKey)
          else if \<not> verify_signature (re_env re) (the public_key) (serialize_for_signing (re_env re) cert)
                     (el_signature_b64 cert)
          then Some (''REC signature verification failed.'', InvalidSignature)
          else if 3600 * 1000000 < re_clock re 3 - el_timestamp cert
          then Some (''REC is expired.'', ExpiredCertificate)
          else None)"

text \<open>Verification by the canary, and what follows from its verdict.\<close>

definition verify_by_canary ::
    "run_env \<Rightarrow> canary_episode list \<Rightarrow> canary_thresholds option \<Rightarrow> recovery_record \<Rightarrow> engine_state \<Rightarrow> run_outcome" where
  "verify_by_canary re episodes thresholds r st =
     (let pid = pp_proposal_id (rr_proposal r);
          c = capsule_for_proposal pid (ex_capsules (es_executor st)) in
      advance (re_clock re 6) VERIFYING ''Running canary verification.'' (r\<lparr>rr_capsule := c\<rparr>) st (\<lambda>r.
        let res = run_canary_verification (re_clock re 7) pid episodes thresholds;
            r = r\<lparr>rr_canary_result := Some res\<rparr>;
            reasons = re_canary_text re (cv_failure_reasons res) in
        if cv_overall_pass res then
          advance (re_clock re 8) COMMITTED ''Canary verification passed.'' r st (\<lambda>r. (None, r, st))
        else if es_auto_compensate st \<and> c \<noteq> None then
          compensate_record re (''Canary failed: '' @ reasons) r st
        else
          advance (re_clock re 8) FAILED (''Canary failed (auto-compensate disabled): '' @ reasons) r st (\<lambda>r.
            (None, escalate (CanaryReasons reasons) r, st))))"

definition execute_and_verify ::
    "run_env \<Rightarrow> canary_episode list \<Rightarrow> canary_thresholds option \<Rightarrow> recovery_record \<Rightarrow> engine_state \<Rightarrow> run_outcome" where
  "execute_and_verify re episodes thresholds r st =
     advance (re_clock re 5) EXECUTING ''Executing action.'' r st (\<lambda>r.
       case run_executor re (rr_proposal r) st of (out, st') \<Rightarrow>
         let res = (case out of
                      Inr res \<Rightarrow> res
                    | Inl e \<Rightarrow> fail_result (pp_proposal_id (rr_proposal r)) (ExceptionText (error_text re e)));
             r = r\<lparr>rr_execution_result := Some res\<rparr> in
         if \<not> xr_success res
         then compensate_record re (''Execution failed: '' @ re_code_text re (xr_error res)) r st'
         else verify_by_canary re episodes thresholds r st')"

definition dry_run :: "run_env \<Rightarrow> recovery_record \<Rightarrow> engine_state \<Rightarrow> run_outcome" where
  "dry_run re r st =
     advance (re_clock re 2) PREPARING ''Dry run.'' r st (\<lambda>r.
     advance (re_clock re 3) EXECUTING ''Dry run execute.'' r st (\<lambda>r.
       case run_executor re (rr_proposal r) st of
         (Inl e, st') \<Rightarrow> (Some e, r, st')
       | (Inr res, st') \<Rightarrow>
           advance (re_clock re 4) VERIFYING ''Dry run verify.'' (r\<lparr>rr_execution_result := Some res\<rparr>) st' (\<lambda>r.
           advance (re_clock re 5) COMMITTED ''Dry run committed.'' r st' (\<lambda>r. (None, r, st')))))"

definition run_body ::
    "run_env \<Rightarrow> canary_episode list \<Rightarrow> canary_thresholds option \<Rightarrow> eligibility_certificate option \<Rightarrow>
       string option \<Rightarrow> recovery_record \<Rightarrow> engine_state \<Rightarrow> run_outcome" where
  "run_body re episodes thresholds certificate public_key r st =
     (let p = rr_proposal r in
      advance (re_clock re 1) POLICY_CHECKING ''Starting policy check.'' r st (\<lambda>r.
        if pp_policy_decision p = Some ''deny'' then
          advance (re_clock re 2) FAILED ''Policy denied this recovery action.'' r st (\<lambda>r.
            (None, escalate PolicyDenyBlocked r, st))
        else if pp_policy_decision p = Some ''needs_approval'' \<and> \<not> truthy (pp_approval_request_id p) then
          advance (re_clock re 2) PENDING_APPROVAL ''Awaiting human approval.'' r st (\<lambda>r. (None, r, st))
        else if pp_execution_mode p = DRY_RUN then dry_run re r st
        else
          advance (re_clock re 2) PREPARING ''Preparing capsule.'' r st (\<lambda>r.
            case check_certificate re certificate public_key of
              Some (reason, esc) \<Rightarrow>
                advance (re_clock re 4) FAILED reason r st (\<lambda>r. (None, escalate esc r, st))
            | None \<Rightarrow> execute_and_verify re episodes thresholds r st)))"

definition fresh_record :: "run_env \<Rightarrow> proposal \<Rightarrow> recovery_record" where
  "fresh_record re p =
     \<lparr>rr_proposal = p, rr_machine = new_machine (pp_proposal_id p) (re_clock re 0), rr_execution_result = None,
      rr_canary_result = None, rr_capsule = None, rr_compensation_result = None, rr_escalation_log = []\<rparr>"

definition run ::
    "run_env \<Rightarrow> proposal \<Rightarrow> canary_episode list \<Rightarrow> canary_thresholds option \<Rightarrow> eligibility_certificate option \<Rightarrow>
       string option \<Rightarrow> engine_state \<Rightarrow> run_outcome" where
  "run re p episodes thresholds certificate public_key st =
     (case run_body re episodes thresholds certificate public_key (fresh_record re p) st of
        (err, r, st') \<Rightarrow> (err, r, st'\<lparr>es_records := dict_put (pp_proposal_id p) r (es_records st')\<rparr>))"

text \<open>Cancelling suppresses the refusal of the machine.\<close>

definition cancel_record :: "int \<Rightarrow> string \<Rightarrow> string \<Rightarrow> engine_state \<Rightarrow> recovery_record option \<times> engine_state" where
  "cancel_record now proposal_id actor st =
     (case map_of (es_records st) proposal_id of
        None \<Rightarrow> (None, st)
      | Some r \<Rightarrow>
          (case cancel now actor ''Operator cancelled.'' (rr_machine r) of
             Inl _ \<Rightarrow> (Some r, st)
           | Inr m \<Rightarrow>
               (Some (r\<lparr>rr_machine := m\<rparr>),
                st\<lparr>es_records := dict_put proposal_id (r\<lparr>rr_machine := m\<rparr>) (es_records st)\<rparr>)))"

definition get_record :: "string \<Rightarrow> engine_state \<Rightarrow> recovery_record option" where
  "get_record proposal_id st = map_of (es_records st) proposal_id"

subsection \<open>Reasoning about a run\<close>

abbreviation status_of :: "recovery_record \<Rightarrow> recovery_status" where
  "status_of r \<equiv> rm_current_status (rr_machine r)"

lemma transition_status:
  "transition now to_status actor reason metadata m = Inr m' \<Longrightarrow>
     rm_current_status m' = to_status \<or> rm_current_status m' = COMPENSATING"
  by (auto simp: transition_def force_timeout_def split: if_splits)

lemma advance_cases:
  assumes "advance now to_status reason r st k = (err, r', st')"
  obtains (raised) e where "err = Some (TransitionRaised e)" "r' = r" "st' = st"
  | (moved) m where "transition now to_status ''system'' reason None (rr_machine r) = Inr m"
      "rm_current_status m = to_status \<or> rm_current_status m = COMPENSATING" "k (r\<lparr>rr_machine := m\<rparr>) = (err, r', st')"
  using assms by (auto simp: advance_def dest: transition_status split: sum.splits)

lemma compensate_not_committed:
  assumes "compensate_record re reason r st = (err, r', st')" "status_of r' = COMMITTED"
  shows "status_of r = COMMITTED"
  using assms unfolding compensate_record_def
  by (auto simp: Let_def escalate_def split: option.splits prod.splits sum.splits if_splits elim!: advance_cases)

lemma verify_by_canary_committed:
  assumes "verify_by_canary re episodes th r st = (err, r', st')" "status_of r \<noteq> COMMITTED" "status_of r' = COMMITTED"
  shows "err = None \<and> rr_execution_result r' = rr_execution_result r \<and>
    cv_overall_pass (run_canary_verification (re_clock re 7) (pp_proposal_id (rr_proposal r)) episodes th)"
  using assms unfolding verify_by_canary_def Let_def
  by (auto simp: escalate_def split: if_splits elim!: advance_cases dest!: compensate_not_committed)

lemma execute_and_verify_committed:
  assumes "execute_and_verify re episodes th r st = (err, r', st')" "status_of r \<noteq> COMMITTED" "status_of r' = COMMITTED"
  shows "err = None \<and> (\<exists>res. rr_execution_result r' = Some res \<and> xr_success res) \<and>
    cv_overall_pass (run_canary_verification (re_clock re 7) (pp_proposal_id (rr_proposal r)) episodes th)"
  using assms(1) unfolding execute_and_verify_def
proof (cases rule: advance_cases)
  case raised
  then show ?thesis using assms(2,3) by simp
next
  case (moved m)
  let ?r = "r\<lparr>rr_machine := m\<rparr>"
  have s: "status_of ?r \<noteq> COMMITTED" using moved(2) by auto
  show ?thesis using moved(3) s assms(3)
    by (auto simp: Let_def split: prod.splits if_splits
        dest!: compensate_not_committed verify_by_canary_committed)
qed

lemma dry_run_executor:
  assumes "run_executor re p st = (out, st')" "pp_execution_mode p = DRY_RUN"
  shows "es_executor st' = es_executor st"
proof -
  have loc: "snd (local_execute xe p s) = s" for xe s
    using assms(2) by (auto simp: local_execute_def execute_def split: option.splits)
  show ?thesis
  proof (cases "truthy (pp_admission_receipt_id p)")
    case True
    then obtain rid where rid: "pp_admission_receipt_id p = Some rid" by (cases "pp_admission_receipt_id p") auto
    obtain o' x db where run: "execute_with_admission (re_env re) (re_store_clock re) (re_trust re) (re_store_now re)
        (re_exec_text re) (re_store_text re) (\<lambda>c. re_code_text re (Some c)) (local_execute (re_exec re)) p
        (es_executor st, es_receipts st) = (o', x, db)" by (metis surj_pair)
    have "x = es_executor st" using admission_runs_executor [OF run rid] loc by auto
    then show ?thesis using assms(1) True run by (auto simp: run_executor_def split: sum.splits)
  next
    case False
    then show ?thesis using assms(1) loc [of "re_exec re" "es_executor st"]
      by (auto simp: run_executor_def split: prod.splits sum.splits)
  qed
qed

lemma dry_run_state:
  assumes "dry_run re r st = (err, r', st')" "pp_execution_mode (rr_proposal r) = DRY_RUN" "status_of r \<noteq> COMMITTED"
  shows "es_executor st' = es_executor st \<and> (status_of r' = COMMITTED \<longrightarrow> err = None)"
  using assms unfolding dry_run_def
  by (auto split: prod.splits sum.splits elim!: advance_cases dest!: dry_run_executor)

text \<open>The branch of a run that may change something: preparing, the certificate, and what follows it.\<close>

definition certified_part ::
    "run_env \<Rightarrow> canary_episode list \<Rightarrow> canary_thresholds option \<Rightarrow> eligibility_certificate option \<Rightarrow>
       string option \<Rightarrow> recovery_record \<Rightarrow> engine_state \<Rightarrow> run_outcome" where
  "certified_part re episodes th certificate public_key r st =
     advance (re_clock re 2) PREPARING ''Preparing capsule.'' r st (\<lambda>r.
       case check_certificate re certificate public_key of
         Some (reason, esc) \<Rightarrow> advance (re_clock re 4) FAILED reason r st (\<lambda>r. (None, escalate esc r, st))
       | None \<Rightarrow> execute_and_verify re episodes th r st)"

lemma certified_part_guarded:
  assumes "certified_part re episodes th certificate public_key r st = (err, r', st')" "status_of r \<noteq> COMMITTED"
  shows "(status_of r' = COMMITTED \<longrightarrow> err = None \<and> check_certificate re certificate public_key = None \<and>
      (\<exists>res. rr_execution_result r' = Some res \<and> xr_success res) \<and>
      cv_overall_pass (run_canary_verification (re_clock re 7) (pp_proposal_id (rr_proposal r)) episodes th)) \<and>
    (es_executor st' \<noteq> es_executor st \<longrightarrow> check_certificate re certificate public_key = None)"
  using assms(1) unfolding certified_part_def
proof (cases rule: advance_cases)
  case raised
  then show ?thesis using assms(2) by simp
next
  case (moved m)
  let ?r = "r\<lparr>rr_machine := m\<rparr>"
  have s: "status_of ?r \<noteq> COMMITTED" using moved(2) by auto
  show ?thesis
  proof (cases "check_certificate re certificate public_key")
    case None
    then have "execute_and_verify re episodes th ?r st = (err, r', st')" using moved(3) by simp
    from execute_and_verify_committed [OF this s] show ?thesis using None by auto
  next
    case (Some q)
    then show ?thesis using moved(3) s by (cases q) (auto simp: escalate_def elim!: advance_cases)
  qed
qed

text \<open>The check accepts exactly a certificate whose signature verifies under a given key and that is at most an hour old.\<close>

lemma check_certificate_None_iff:
  "check_certificate re certificate public_key = None \<longleftrightarrow>
     (\<exists>cert key. certificate = Some cert \<and> public_key = Some key \<and> key \<noteq> [] \<and>
     ed25519_verify (re_env re) key (serialize_for_signing (re_env re) cert) (el_signature_b64 cert) = EdVerified \<and>
     re_clock re 3 - el_timestamp cert \<le> 3600 * 1000000)"
  by (cases public_key) (auto simp: check_certificate_def verify_signature_def split: option.splits ed_outcome.splits)

text \<open>
  C3. What a run may do, whatever the clock says: a recovery ends COMMITTED only when the call returned normally,
  the policy had not denied it and, outside a dry run, an eligibility certificate was given whose signature verifies
  under the given public key and whose time stamp is at most an hour before the reading of the clock, the action
  succeeded and the canary passed on a non-empty set of episodes. The executor's state changes only outside a dry run
  and only under such a certificate.
\<close>

theorem run_is_guarded:
  assumes "run re p episodes th certificate public_key st = (err, r, st')"
  shows "(rm_current_status (rr_machine r) = COMMITTED \<longrightarrow>
       err = None \<and> pp_policy_decision p \<noteq> Some ''deny'' \<and>
       (pp_execution_mode p = DRY_RUN \<or>
        (\<exists>cert key. certificate = Some cert \<and> public_key = Some key \<and> key \<noteq> [] \<and>
          ed25519_verify (re_env re) key (serialize_for_signing (re_env re) cert) (el_signature_b64 cert) = EdVerified \<and>
          re_clock re 3 - el_timestamp cert \<le> 3600 * 1000000) \<and>
        (\<exists>res. rr_execution_result r = Some res \<and> xr_success res) \<and>
        episodes \<noteq> [] \<and>
        cv_overall_pass (run_canary_verification (re_clock re 7) (pp_proposal_id p) episodes th))) \<and>
    (es_executor st' \<noteq> es_executor st \<longrightarrow>
       pp_policy_decision p \<noteq> Some ''deny'' \<and> pp_execution_mode p \<noteq> DRY_RUN \<and>
       (\<exists>cert key. certificate = Some cert \<and> public_key = Some key \<and> key \<noteq> [] \<and>
          ed25519_verify (re_env re) key (serialize_for_signing (re_env re) cert) (el_signature_b64 cert) = EdVerified \<and>
          re_clock re 3 - el_timestamp cert \<le> 3600 * 1000000))"
proof -
  obtain st1 where body: "run_body re episodes th certificate public_key (fresh_record re p) st = (err, r, st1)"
    and st': "es_executor st' = es_executor st1"
    using assms by (auto simp: run_def split: prod.splits)
  have fresh: "rr_proposal (fresh_record re p) = p" "status_of (fresh_record re p) \<noteq> COMMITTED"
    by (simp_all add: fresh_record_def new_machine_def)
  have pass: "episodes \<noteq> []" if "cv_overall_pass (run_canary_verification now pid episodes th)" for now pid
    using that by (auto simp: run_canary_verification_def Let_def)
  from body show ?thesis unfolding run_body_def fresh Let_def
  proof (cases rule: advance_cases)
    case raised
    then show ?thesis using fresh st' by simp
  next
    case (moved m)
    let ?r = "(fresh_record re p)\<lparr>rr_machine := m\<rparr>"
    have s: "status_of ?r \<noteq> COMMITTED" and pr: "rr_proposal ?r = p" using moved(2) fresh by auto
    consider (deny) "pp_policy_decision p = Some ''deny''"
      | (ask) "pp_policy_decision p = Some ''needs_approval''" "\<not> truthy (pp_approval_request_id p)"
      | (dry) "pp_policy_decision p \<noteq> Some ''deny''" "pp_execution_mode p = DRY_RUN" "dry_run re ?r st = (err, r, st1)"
      | (real) "pp_policy_decision p \<noteq> Some ''deny''" "pp_execution_mode p \<noteq> DRY_RUN"
          "certified_part re episodes th certificate public_key ?r st = (err, r, st1)"
      using moved(3) by (auto simp: certified_part_def split: if_splits)
    then show ?thesis
    proof cases
      case real
      then show ?thesis using certified_part_guarded [OF real(3) s] pass pr st'
        unfolding check_certificate_None_iff by auto
    next
      case dry
      then show ?thesis using dry_run_state [OF dry(3)] s pr st' by auto
    qed (use moved(3) s st' in \<open>auto simp: escalate_def elim!: advance_cases\<close>)
  qed
qed

subsection \<open>Runs within the deadline\<close>

definition moved_machine :: "int \<Rightarrow> recovery_status \<Rightarrow> string \<Rightarrow> 'm recovery_machine \<Rightarrow> 'm recovery_machine" where
  "moved_machine now to_status reason m =
     m\<lparr>rm_event_log := rm_event_log m @
         [\<lparr>se_from = rm_current_status m, se_to = to_status, se_actor = ''system'', se_reason = reason,
           se_occurred_at = now, se_metadata = None\<rparr>],
       rm_current_status := to_status\<rparr>"

lemma moved_machine_simps [simp]:
  "rm_current_status (moved_machine now to_status reason m) = to_status"
  "rm_timeout_at (moved_machine now to_status reason m) = rm_timeout_at m"
  by (simp_all add: moved_machine_def)

lemma advance_ok:
  assumes "now \<le> rm_timeout_at (rr_machine r)" "to_status \<in> allowed_transitions (status_of r)"
  shows "advance now to_status reason r st k = k (r\<lparr>rr_machine := moved_machine now to_status reason (rr_machine r)\<rparr>)"
proof -
  have "status_of r \<notin> terminal_states" using assms(2) by (auto simp: terminal_states_def)
  then show ?thesis using assms by (simp add: advance_def transition_def moved_machine_def)
qed

definition timely :: "run_env \<Rightarrow> bool" where
  "timely re \<longleftrightarrow> (\<forall>k. re_clock re k \<le> re_clock re 0 + 30 * 60 * 1000000)"

lemma timely_fresh: "timely re \<Longrightarrow> re_clock re k \<le> rm_timeout_at (rr_machine (fresh_record re p))"
  by (simp add: timely_def fresh_record_def new_machine_def)








text \<open>Within the deadline an action that policy and certificate let through and that succeeds reaches the canary.\<close>

lemma run_reaches_canary:
  assumes "timely re" "pp_policy_decision p \<noteq> Some ''deny''"
    and "pp_policy_decision p = Some ''needs_approval'' \<Longrightarrow> truthy (pp_approval_request_id p)"
    and "pp_execution_mode p \<noteq> DRY_RUN" "check_certificate re certificate public_key = None"
    and "run_executor re p st = (Inr res, st1)" "xr_success res"
  obtains r where "run_body re episodes th certificate public_key (fresh_record re p) st = verify_by_canary re episodes th r st1"
    "status_of r = EXECUTING" "rr_proposal r = p" "rr_execution_result r = Some res"
    "\<And>k. re_clock re k \<le> rm_timeout_at (rr_machine r)"
proof -
  let ?r0 = "fresh_record re p"
  have t: "re_clock re k \<le> rm_timeout_at (rr_machine ?r0)" for k using assms(1) by (rule timely_fresh)
  have r0: "status_of ?r0 = PROPOSED" "rr_proposal ?r0 = p" by (simp_all add: fresh_record_def new_machine_def)
  define r2 where "r2 = ?r0\<lparr>rr_machine := moved_machine (re_clock re 2) PREPARING ''Preparing capsule.''
      (moved_machine (re_clock re 1) POLICY_CHECKING ''Starting policy check.'' (rr_machine ?r0))\<rparr>"
  define r4 where "r4 = r2\<lparr>rr_machine := moved_machine (re_clock re 5) EXECUTING ''Executing action.'' (rr_machine r2),
      rr_execution_result := Some res\<rparr>"
  have r2: "status_of r2 = PREPARING" "rr_proposal r2 = p" "\<And>k. re_clock re k \<le> rm_timeout_at (rr_machine r2)"
    using t r0 by (simp_all add: r2_def)
  have "\<not> (pp_policy_decision p = Some ''needs_approval'' \<and> \<not> truthy (pp_approval_request_id p))"
    using assms(3) by blast
  then have "run_body re episodes th certificate public_key ?r0 st = execute_and_verify re episodes th r2 st"
    using assms(2,4,5) t r0 by (auto simp: run_body_def advance_ok r2_def)
  also have "\<dots> = verify_by_canary re episodes th r4 st1"
    using assms(6,7) r2 by (simp add: execute_and_verify_def advance_ok r4_def)
  finally show thesis using r2 that [of r4] by (simp add: r4_def)
qed

text \<open>
  A recovery that passes its canary is committed: within the deadline, when policy and certificate let the action
  through, the action succeeds and the canary passes, the run returns with the recovery COMMITTED, the result of the
  action in its record and the executor in the state the action left.
\<close>

theorem passed_canary_commits:
  assumes "timely re" "pp_policy_decision p \<noteq> Some ''deny''"
    and "pp_policy_decision p = Some ''needs_approval'' \<Longrightarrow> truthy (pp_approval_request_id p)"
    and "pp_execution_mode p \<noteq> DRY_RUN" "check_certificate re certificate public_key = None"
    and "run_executor re p st = (Inr res, st1)" "xr_success res"
    and "cv_overall_pass (run_canary_verification (re_clock re 7) (pp_proposal_id p) episodes th)"
  shows "\<exists>r st'. run re p episodes th certificate public_key st = (None, r, st') \<and>
    rm_current_status (rr_machine r) = COMMITTED \<and> rr_execution_result r = Some res \<and>
    es_executor st' = es_executor st1"
proof -
  obtain r where r: "run_body re episodes th certificate public_key (fresh_record re p) st = verify_by_canary re episodes th r st1"
    "status_of r = EXECUTING" "rr_proposal r = p" "rr_execution_result r = Some res"
    "\<And>k. re_clock re k \<le> rm_timeout_at (rr_machine r)"
    using run_reaches_canary [OF assms(1-7)] by metis
  show ?thesis using assms(8) r by (simp add: run_def verify_by_canary_def Let_def advance_ok)
qed


text \<open>
  Although \<open>run\<close> documents that it never raises, a failed canary without automatic compensation does: the table
  has no transition from VERIFYING to FAILED. The action stays applied and the record VERIFYING.
\<close>

lemma failed_canary_raises:
  assumes "\<And>k. re_clock re k \<le> rm_timeout_at (rr_machine r)" "status_of r = EXECUTING" "\<not> es_auto_compensate st"
    and "\<not> cv_overall_pass (run_canary_verification (re_clock re 7) (pp_proposal_id (rr_proposal r)) episodes th)"
  shows "\<exists>r'. verify_by_canary re episodes th r st = (Some (TransitionRaised (NotAllowed VERIFYING FAILED)), r', st)"
  using assms
  by (simp add: verify_by_canary_def Let_def advance_ok)
     (simp add: advance_def transition_def terminal_states_def not_less)

text \<open>
  Past its deadline a run goes on: the machine is moved to COMPENSATING at every transition, yet the action is
  executed and, when the canary passes, never rolled back.
\<close>

lemma late_transition:
  assumes "rm_timeout_at (rr_machine r) < now" "status_of r \<notin> terminal_states"
  shows "advance now to_status reason r st k = k (r\<lparr>rr_machine := force_timeout now (rr_machine r)\<rparr>)"
  using assms by (simp add: advance_def transition_def)

lemma late_commit_is_not_undone:
  assumes "rm_timeout_at (rr_machine r) < re_clock re 6" "rm_timeout_at (rr_machine r) < re_clock re 8"
    and "status_of r \<notin> terminal_states"
    and "cv_overall_pass (run_canary_verification (re_clock re 7) (pp_proposal_id (rr_proposal r)) episodes th)"
  shows "\<exists>r'. verify_by_canary re episodes th r st = (None, r', st) \<and> status_of r' = COMPENSATING"
  using assms
  by (simp add: verify_by_canary_def Let_def late_transition force_timeout_def terminal_states_def)

subsection \<open>Examples\<close>

definition signed_env :: env where
  "signed_env = receipt_env\<lparr>ed25519_verify := (\<lambda>k m s. if s = k @ m then EdVerified else EdInvalidSignature)\<rparr>"

definition demo_certificate :: eligibility_certificate where
  "demo_certificate =
     (let c = \<lparr>el_original_trace_root_hash = ''t'', el_manifest_hash = ''m'', el_intervention_hash = ''i'',
        el_measured_resource = [], el_replay_outcome = ''ok'', el_reliability_delta = 0, el_policy_version = ''1'',
        el_policy_decision = ''allow'', el_approval_decision_set = [], el_canary_result_hash = [],
        el_recovery_capsule_hash = [], el_executor_image_digest = [], el_timestamp = 0, el_signer_identity = ''s'',
        el_signature_b64 = []\<rparr>
      in c\<lparr>el_signature_b64 := ''key'' @ serialize_for_signing signed_env c\<rparr>)"

definition demo_run_env :: run_env where
  "demo_run_env =
     \<lparr>re_env = signed_env, re_clock = (\<lambda>k. int (min k 9)), re_exec = demo_exec_env, re_comp = demo_exec_env,
      re_store_clock = (\<lambda>n. int_str (int n)), re_trust = demo_trust, re_store_now = 15, re_ledger_now = ''now'',
      re_exec_text = (\<lambda>_. []), re_refusal_text = (\<lambda>_. []), re_store_text = (\<lambda>_. []), re_code_text = (\<lambda>_. []),
      re_canary_text = (\<lambda>_. [])\<rparr>"

definition demo_run_proposal :: proposal where
  "demo_run_proposal = demo_proposal\<lparr>pp_admission_receipt_id := None\<rparr>"

definition demo_engine_state :: engine_state where
  "demo_engine_state =
     \<lparr>es_executor = empty_exec, es_receipts = empty_store, es_ledger = [], es_records = [], es_auto_compensate = True\<rparr>"

lemma demo_certificate_ok: "check_certificate demo_run_env (Some demo_certificate) (Some ''key'') = None"
  by (simp add: check_certificate_def demo_run_env_def demo_certificate_def verify_signature_def signed_env_def
      serialize_for_signing_def eligibility_document_def Let_def)

lemma demo_run_executes:
  "\<exists>res st1. run_executor demo_run_env demo_run_proposal demo_engine_state = (Inr res, st1) \<and> xr_success res"
proof -
  have c: "\<exists>c. local_prepare_capsule demo_exec_env demo_run_proposal empty_exec = (Inr c, empty_exec)"
    by (simp add: local_prepare_capsule_def snapshot_state_def with_key_def param_or_def demo_run_proposal_def
        demo_proposal_def Let_def)
  have "validate_params demo_run_proposal = []" "version_guard demo_run_proposal empty_exec = None"
    "pp_execution_mode demo_run_proposal = SIMULATION"
    by (simp_all add: validate_params_def demo_run_proposal_def demo_proposal_def version_guard_def)
  with c have "\<exists>res x. local_execute demo_exec_env demo_run_proposal empty_exec = (Inr res, x) \<and> xr_success res"
    by (auto simp: local_execute_def execute_def Let_def empty_exec_def)
       (simp add: local_apply_def with_param_def demo_run_proposal_def demo_proposal_def put_result_def ok_result_def)
  moreover have "\<not> truthy (pp_admission_receipt_id demo_run_proposal)" by (simp add: demo_run_proposal_def)
  ultimately show ?thesis by (auto simp: run_executor_def demo_run_env_def demo_engine_state_def)
qed

lemma demo_run_allowed:
  "timely demo_run_env" "pp_policy_decision demo_run_proposal \<noteq> Some ''deny''"
  "pp_policy_decision demo_run_proposal = Some ''needs_approval'' \<Longrightarrow> truthy (pp_approval_request_id demo_run_proposal)"
  "pp_execution_mode demo_run_proposal \<noteq> DRY_RUN"
  by (simp_all add: timely_def demo_run_env_def demo_run_proposal_def demo_proposal_def min_le_iff_disj)


theorem run_is_guarded_witness:
  "es_executor (snd (snd (run demo_run_env demo_run_proposal canary_swap None
     (Some (demo_certificate\<lparr>el_signature_b64 := ''forged''\<rparr>)) (Some ''key'') demo_engine_state))) = empty_exec"
proof -
  let ?cert = "demo_certificate\<lparr>el_signature_b64 := ''forged''\<rparr>"
  obtain err r st' where run: "run demo_run_env demo_run_proposal canary_swap None (Some ?cert) (Some ''key'')
      demo_engine_state = (err, r, st')" by (metis surj_pair)
  have "ed25519_verify (re_env demo_run_env) ''key'' m ''forged'' \<noteq> EdVerified" for m
    by (simp add: demo_run_env_def signed_env_def)
  with run_is_guarded [OF run] run show ?thesis by (auto simp: demo_engine_state_def)
qed

theorem passed_canary_commits_witness:
  "\<exists>r st'. run demo_run_env demo_run_proposal canary_swap None (Some demo_certificate) (Some ''key'') demo_engine_state
      = (None, r, st') \<and> rm_current_status (rr_machine r) = COMMITTED"
proof -
  obtain res st1 where e: "run_executor demo_run_env demo_run_proposal demo_engine_state = (Inr res, st1)" "xr_success res"
    using demo_run_executes by blast
  have "cv_overall_pass (run_canary_verification t pid canary_swap None)" for t pid
    by (simp add: canary_swap_def run_canary_verification_def Let_def default_thresholds_def mean_of_def count_of_def)
  from passed_canary_commits [OF demo_run_allowed demo_certificate_ok e this] show ?thesis by blast
qed


end
