(* ===== verification/Certificate_Chain.thy ===== *)
theory Certificate_Chain
  imports Hash_Chain
begin

section \<open>The certificate chain\<close>

text \<open>
  \<open>packages/ledger/src/schema.py\<close> and \<open>chain.py\<close>: signed recovery certificates, each naming the hash of the
  one before it, in an append-only table.

  The table is the list of its rows in the order of their identifiers. A payload column holds the JSON text of a
  certificate, which \<open>from_dict\<close> reads back as the same certificate; a column holding anything else is outside
  the model. The evidence kind is kept as its text. A process caches the head of the chain in its own
  \<open>LedgerChain\<close> object, so the object and the table are separate parts of the state.
\<close>

record certificate =
  cf_cert_id :: string
  cf_tenant_id :: string
  cf_pipeline_id :: string
  cf_run_id :: string
  cf_trace_before_digest :: string
  cf_trace_after_digest :: "string option"
  cf_replay_capsule_hash :: string
  cf_intervention_vector :: "(string \<times> json) list"
  cf_contribution_metrics :: "(string \<times> rat) list"
  cf_certification_method :: string
  cf_epsilon :: rat
  cf_delta :: rat
  cf_policy_version :: string
  cf_policy_reason :: string
  cf_approvals :: "string list"
  cf_action_result :: string
  cf_verification_result :: string
  cf_rollback_capsule_digest :: "string option"
  cf_timestamp :: string
  cf_previous_cert_hash :: string
  cf_evidence_kind :: string
  cf_signature :: "string option"
  cf_signer_key_id :: "string option"
  cf_signer_pub_key :: "string option"

definition DOMAIN_SEPARATOR :: string where
  "DOMAIN_SEPARATOR = ''DriftGuardX-Recovery-Cert-V2''"

definition opt_json :: "string option \<Rightarrow> json" where
  "opt_json x = (case x of None \<Rightarrow> JNull | Some s \<Rightarrow> JStr s)"

definition canonical_dict :: "certificate \<Rightarrow> (string \<times> json) list" where
  "canonical_dict c =
     [(''cert_id'', JStr (cf_cert_id c)),
      (''tenant_id'', JStr (cf_tenant_id c)),
      (''pipeline_id'', JStr (cf_pipeline_id c)),
      (''run_id'', JStr (cf_run_id c)),
      (''trace_before_digest'', JStr (cf_trace_before_digest c)),
      (''trace_after_digest'', opt_json (cf_trace_after_digest c)),
      (''replay_capsule_hash'', JStr (cf_replay_capsule_hash c)),
      (''intervention_vector'', JObj (cf_intervention_vector c)),
      (''contribution_metrics'', JObj (map (\<lambda>(k, q). (k, JFloat q)) (cf_contribution_metrics c))),
      (''certification_method'', JStr (cf_certification_method c)),
      (''epsilon'', JFloat (cf_epsilon c)),
      (''delta'', JFloat (cf_delta c)),
      (''policy_version'', JStr (cf_policy_version c)),
      (''policy_reason'', JStr (cf_policy_reason c)),
      (''approvals'', JList (map JStr (cf_approvals c))),
      (''action_result'', JStr (cf_action_result c)),
      (''verification_result'', JStr (cf_verification_result c)),
      (''rollback_capsule_digest'', opt_json (cf_rollback_capsule_digest c)),
      (''timestamp'', JStr (cf_timestamp c)),
      (''previous_cert_hash'', JStr (cf_previous_cert_hash c)),
      (''evidence_kind'', JStr (cf_evidence_kind c))]"

definition cert_bytes :: "env \<Rightarrow> certificate \<Rightarrow> string" where
  "cert_bytes E c = canonical_bytes E
     (JObj [(''domain'', JStr DOMAIN_SEPARATOR), (''version'', JStr ''2.0''), (''data'', JObj (canonical_dict c))])"

definition cert_hash :: "env \<Rightarrow> certificate \<Rightarrow> string" where
  "cert_hash E c = sha256 E (cert_bytes E c)"

record chain_row =
  cw_cert_id :: string
  cw_cert_hash :: string
  cw_previous_hash :: string
  cw_payload :: certificate
  cw_signature :: string
  cw_signer_pub_key :: string
  cw_timestamp :: string

record ledger_chain =
  lc_head_hash :: "string option"
  lc_size :: nat

datatype chain_error =
    NotSigned
  | ForkDetected
  | SignatureInvalid
  | ConstraintViolation

definition genesis_hash :: string where "genesis_hash = ''GENESIS''"

definition new_chain :: ledger_chain where
  "new_chain = \<lparr>lc_head_hash = None, lc_size = 0\<rparr>"

definition load_head :: "chain_row list \<Rightarrow> ledger_chain" where
  "load_head rows =
     \<lparr>lc_head_hash = Some (if rows = [] then genesis_hash else cw_cert_hash (last rows)), lc_size = length rows\<rparr>"

definition row_of :: "env \<Rightarrow> certificate \<Rightarrow> chain_row" where
  "row_of E cert =
     \<lparr>cw_cert_id = cf_cert_id cert, cw_cert_hash = cert_hash E cert, cw_previous_hash = cf_previous_cert_hash cert,
      cw_payload = cert, cw_signature = the (cf_signature cert), cw_signer_pub_key = the (cf_signer_pub_key cert),
      cw_timestamp = cf_timestamp cert\<rparr>"

definition append_certificate ::
    "env \<Rightarrow> certificate \<Rightarrow> ledger_chain \<Rightarrow> chain_row list \<Rightarrow> (chain_error, string \<times> ledger_chain \<times> chain_row list) result" where
  "append_certificate E cert ch rows =
     (if \<not> truthy (cf_signature cert) \<or> \<not> truthy (cf_signer_pub_key cert) then Inl NotSigned
      else if Some (cf_previous_cert_hash cert) \<noteq> lc_head_hash ch then Inl ForkDetected
      else
        let h = cert_hash E cert in
        if \<not> verify_signature E (the (cf_signer_pub_key cert)) (cert_bytes E cert) (the (cf_signature cert))
        then Inl SignatureInvalid
        else if cf_cert_id cert \<in> cw_cert_id ` set rows \<or> h \<in> cw_cert_hash ` set rows then Inl ConstraintViolation
        else Inr (h, \<lparr>lc_head_hash = Some h, lc_size = lc_size ch + 1\<rparr>, rows @ [row_of E cert]))"

definition get_all_certificates :: "chain_row list \<Rightarrow> certificate list" where
  "get_all_certificates rows = map cw_payload rows"

fun verify_certs :: "env \<Rightarrow> string \<Rightarrow> certificate list \<Rightarrow> bool" where
  "verify_certs E expected_prev [] = True"
| "verify_certs E expected_prev (c # cs) =
     (if cf_previous_cert_hash c \<noteq> expected_prev then False
      else if \<not> truthy (cf_signature c) \<or> \<not> truthy (cf_signer_pub_key c) then False
      else if \<not> verify_signature E (the (cf_signer_pub_key c)) (cert_bytes E c) (the (cf_signature c)) then False
      else verify_certs E (cert_hash E c) cs)"

definition verify_chain :: "env \<Rightarrow> chain_row list \<Rightarrow> bool" where
  "verify_chain E rows = verify_certs E genesis_hash (get_all_certificates rows)"

definition head_hash :: "ledger_chain \<Rightarrow> string" where
  "head_hash ch = (if truthy (lc_head_hash ch) then the (lc_head_hash ch) else genesis_hash)"

subsection \<open>What the bytes of a certificate determine\<close>

definition cert_view :: "certificate \<Rightarrow> json" where
  "cert_view c = canon (JObj (canonical_dict c))"

lemma cert_bytes_view:
  assumes "float_repr_ok (float_repr E)" "cert_bytes E c = cert_bytes E c'"
  shows "cert_view c = cert_view c'"
proof -
  have "canon (JObj [(''domain'', JStr DOMAIN_SEPARATOR), (''version'', JStr ''2.0''), (''data'', JObj (canonical_dict c))]) =
      canon (JObj [(''domain'', JStr DOMAIN_SEPARATOR), (''version'', JStr ''2.0''), (''data'', JObj (canonical_dict c'))])"
    using canonical_bytes_inj [OF assms(1)] assms(2) unfolding cert_bytes_def by blast
  from canon_obj_eqD [OF this] show ?thesis by (simp add: cert_view_def)
qed

text \<open>A certificate that passes the checks of \<open>verify_chain\<close>, linkage apart.\<close>

definition cert_ok :: "env \<Rightarrow> certificate \<Rightarrow> bool" where
  "cert_ok E c \<longleftrightarrow> float_repr_ok (float_repr E) \<and> truthy (cf_signature c) \<and> truthy (cf_signer_pub_key c) \<and>
     verify_signature E (the (cf_signer_pub_key c)) (cert_bytes E c) (the (cf_signature c))"

lemma cert_view_prev:
  assumes "cert_view c = cert_view c'"
  shows "cf_previous_cert_hash c = cf_previous_cert_hash c'" "cf_cert_id c = cf_cert_id c'"
    "cf_tenant_id c = cf_tenant_id c'" "cf_action_result c = cf_action_result c'"
    "cf_approvals c = cf_approvals c'"
proof -
  have keys: "map fst (canonical_dict c) = map fst (canonical_dict c')" "distinct (map fst (canonical_dict c))"
    by (simp_all add: canonical_dict_def)
  have "canon_members (canonical_dict c) = canon_members (canonical_dict c')"
    using canon_obj_eqD [OF _ keys] assms by (simp only: cert_view_def)
  then show "cf_previous_cert_hash c = cf_previous_cert_hash c'" "cf_cert_id c = cf_cert_id c'"
    "cf_tenant_id c = cf_tenant_id c'" "cf_action_result c = cf_action_result c'"
    "cf_approvals c = cf_approvals c'"
    by (simp_all add: canonical_dict_def canon_list_map comp_def)
      (metis (mono_tags, lifting) json.inject(4) map_eq_conv list.inj_map_strong)
qed

interpretation certs: hash_chain cf_previous_cert_hash "cert_hash E" "cert_bytes E" "sha256 E" "cert_ok E" for E :: env
  by unfold_locales (auto simp: cert_hash_def cert_ok_def dest: cert_bytes_view cert_view_prev(1))

lemma verify_certs_linked:
  "verify_certs E g cs \<longleftrightarrow> linked cf_previous_cert_hash (cert_hash E) g cs \<and>
     (\<forall>c\<in>set cs. truthy (cf_signature c) \<and> truthy (cf_signer_pub_key c) \<and>
        verify_signature E (the (cf_signer_pub_key c)) (cert_bytes E c) (the (cf_signature c)))"
  by (induction E g cs rule: verify_certs.induct) auto

subsection \<open>One writer\<close>

inductive chain_step :: "env \<Rightarrow> ledger_chain \<times> chain_row list \<Rightarrow> ledger_chain \<times> chain_row list \<Rightarrow> bool" for E :: env where
  initialize: "chain_step E (ch, rows) (load_head rows, rows)"
| append: "append_certificate E cert ch rows = Inr (h, ch', rows') \<Longrightarrow> chain_step E (ch, rows) (ch', rows')"

definition head_of :: "env \<Rightarrow> chain_row list \<Rightarrow> string" where
  "head_of E rows = (if rows = [] then genesis_hash else cert_hash E (cw_payload (last rows)))"

fun chain_ok :: "env \<Rightarrow> ledger_chain \<times> chain_row list \<Rightarrow> bool" where
  "chain_ok E (ch, rows) \<longleftrightarrow>
     verify_chain E rows \<and> distinct (map cw_cert_id rows) \<and> distinct (map cw_cert_hash rows) \<and>
     (\<forall>w\<in>set rows. cw_cert_hash w = cert_hash E (cw_payload w) \<and> cw_cert_id w = cf_cert_id (cw_payload w)) \<and>
     (lc_head_hash ch = None \<or> lc_head_hash ch = Some (head_of E rows) \<and> lc_size ch = length rows)"

lemma append_certificate_Inr:
  assumes "append_certificate E cert ch rows = Inr (h, ch', rows')"
  shows "rows' = rows @ [row_of E cert] \<and> h = cert_hash E cert \<and> lc_head_hash ch = Some (cf_previous_cert_hash cert) \<and>
    ch' = \<lparr>lc_head_hash = Some h, lc_size = lc_size ch + 1\<rparr> \<and> h \<notin> cw_cert_hash ` set rows \<and>
    cf_cert_id cert \<notin> cw_cert_id ` set rows \<and> truthy (cf_signature cert) \<and> truthy (cf_signer_pub_key cert) \<and>
    verify_signature E (the (cf_signer_pub_key cert)) (cert_bytes E cert) (the (cf_signature cert))"
  using assms by (simp add: append_certificate_def Let_def split: if_splits) metis

interpretation chain: step_invariant "chain_step E" "chain_ok E" for E
proof unfold_locales
  fix s t
  assume "chain_step E s t" "chain_ok E s"
  then show "chain_ok E t"
  proof (cases rule: chain_step.cases)
    case (initialize ch rows)
    then show ?thesis using \<open>chain_ok E s\<close> by (auto simp: load_head_def head_of_def)
  next
    case (append cert ch rows h ch' rows')
    note w = append_certificate_Inr [OF append(3)]
    have ok: "chain_ok E (ch, rows)" using \<open>chain_ok E s\<close> append(1) by simp
    have prev: "cf_previous_cert_hash cert = head_of E rows" "lc_size ch = length rows" using ok w by auto
    have "linked cf_previous_cert_hash (cert_hash E) genesis_hash (get_all_certificates rows @ [cert])"
      using ok prev(1)
      by (auto simp: verify_chain_def verify_certs_linked head_of_def get_all_certificates_def last_map)
    then have "verify_chain E rows'"
      using ok w by (simp add: verify_chain_def get_all_certificates_def verify_certs_linked row_of_def)
    moreover have "cw_payload (row_of E cert) = cert" "cw_cert_hash (row_of E cert) = h"
      "cw_cert_id (row_of E cert) = cf_cert_id cert"
      using w by (simp_all add: row_of_def)
    ultimately show ?thesis using ok w prev(2) append(2) by (auto simp: head_of_def)
  qed
qed

text \<open>
  A single writer keeps the chain verified: after any sequence of initialisations and appends of one
  \<open>LedgerChain\<close> object on an empty table, refused appends included, \<open>verify_chain\<close> accepts the table, certificate identifiers and
  hashes are unique, and the cached head and size of an initialised object are those of the table.
\<close>

theorem single_writer_chain_verifies:
  assumes "(chain_step E)\<^sup>*\<^sup>* (new_chain, []) (ch, rows)"
  shows "verify_chain E rows \<and> distinct (map cw_cert_id rows) \<and> distinct (map cw_cert_hash rows) \<and>
    (\<forall>w\<in>set rows. cw_cert_hash w = cert_hash E (cw_payload w)) \<and>
    (lc_head_hash ch = None \<or>
     lc_head_hash ch = Some (if rows = [] then genesis_hash else cw_cert_hash (last rows)) \<and> lc_size ch = length rows)"
proof -
  have "chain_ok E (new_chain, [])"
    by (simp add: new_chain_def verify_chain_def get_all_certificates_def)
  then have "chain_ok E (ch, rows)" using chain.reachable_inv [OF assms] by blast
  then show ?thesis by (auto simp: head_of_def)
qed

text \<open>
  Tamper evidence of the chain: two tables that \<open>verify_chain\<close> accepts and whose last certificates have
  the same hash hold the same certificates, in the same order and in every signed field, or two of the byte strings hashed for
  them are a collision of SHA-256. No digest is the text GENESIS.
\<close>

theorem same_head_same_certificates:
  assumes "verify_chain E rows" "verify_chain E rows'" "rows \<noteq> []" "rows' \<noteq> []"
    and "cert_hash E (cw_payload (last rows)) = cert_hash E (cw_payload (last rows'))"
    and "float_repr_ok (float_repr E)" "\<forall>m. sha256 E m \<noteq> genesis_hash"
  shows "map cert_view (get_all_certificates rows) = map cert_view (get_all_certificates rows') \<or>
    collision_between (sha256 E) (cert_bytes E ` set (get_all_certificates rows))
      (cert_bytes E ` set (get_all_certificates rows'))"
proof -
  let ?cs = "get_all_certificates rows" and ?cs' = "get_all_certificates rows'"
  have lk: "linked cf_previous_cert_hash (cert_hash E) genesis_hash ?cs"
    "linked cf_previous_cert_hash (cert_hash E) genesis_hash ?cs'"
    "\<forall>c\<in>set ?cs. cert_ok E c" "\<forall>c\<in>set ?cs'. cert_ok E c"
    using assms(1,2,6) by (auto simp: verify_chain_def verify_certs_linked cert_ok_def)
  have ne: "?cs \<noteq> []" "?cs' \<noteq> []" "cert_hash E (last ?cs) = cert_hash E (last ?cs')"
    using assms(3-5) by (simp_all add: get_all_certificates_def last_map)
  have g: "genesis_hash \<notin> cert_hash E ` A" for A using assms(7) by (auto simp: cert_hash_def dest: sym)
  from certs.same_head_same_messages [OF lk ne g g]
  show ?thesis
  proof
    assume "map (cert_bytes E) ?cs = map (cert_bytes E) ?cs'"
    then have "map cert_view ?cs = map cert_view ?cs'"
      by (rule map_eq_transfer) (use assms(6) cert_bytes_view in blast)
    then show ?thesis by simp
  qed simp
qed

subsection \<open>Examples\<close>

definition chain_env :: env where
  "chain_env = \<lparr>sha256 = (\<lambda>m. CHR ''#'' # m), float_repr = ratio_repr, iso = int_str,
     ed25519_verify = (\<lambda>_ _ _. EdVerified), ed25519_sign = (\<lambda>k m. k @ m), hmac_sha256 = (\<lambda>k m. k @ m),
     b64_encode = (\<lambda>x. x), b64_decode = Some\<rparr>"

definition sample_cert :: "string \<Rightarrow> string \<Rightarrow> certificate" where
  "sample_cert cid prev =
     \<lparr>cf_cert_id = cid, cf_tenant_id = ''t'', cf_pipeline_id = ''p'', cf_run_id = ''r'', cf_trace_before_digest = ''b'',
      cf_trace_after_digest = None, cf_replay_capsule_hash = ''c'', cf_intervention_vector = [],
      cf_contribution_metrics = [], cf_certification_method = ''m'', cf_epsilon = 0, cf_delta = 0,
      cf_policy_version = ''1'', cf_policy_reason = [], cf_approvals = [], cf_action_result = ''ok'',
      cf_verification_result = ''ok'', cf_rollback_capsule_digest = None, cf_timestamp = ''0'',
      cf_previous_cert_hash = prev, cf_evidence_kind = ''unverified'', cf_signature = Some ''s'',
      cf_signer_key_id = None, cf_signer_pub_key = Some ''k''\<rparr>"

lemma chain_env_simps [simp]:
  "verify_signature chain_env k m s" "float_repr_ok (float_repr chain_env)" "sha256 chain_env m \<noteq> genesis_hash"
  "\<not> collision_between (sha256 chain_env) A B"
  by (auto simp: chain_env_def verify_signature_def genesis_hash_def collision_between_def)

definition sample_rows :: "chain_row list" where
  "sample_rows = [row_of chain_env (sample_cert ''c1'' genesis_hash)]"

lemma sample_append:
  "append_certificate chain_env (sample_cert ''c1'' genesis_hash) (load_head []) [] =
     Inr (cert_hash chain_env (sample_cert ''c1'' genesis_hash),
       \<lparr>lc_head_hash = Some (cert_hash chain_env (sample_cert ''c1'' genesis_hash)), lc_size = 1\<rparr>, sample_rows)"
  by (simp add: append_certificate_def sample_cert_def load_head_def sample_rows_def Let_def)

theorem single_writer_chain_verifies_witness:
  "length sample_rows = 1 \<and> verify_chain chain_env sample_rows"
proof -
  have "(chain_step chain_env)\<^sup>*\<^sup>* (new_chain, []) (load_head [], [])"
    by (intro r_into_rtranclp chain_step.initialize)
  from rtranclp.rtrancl_into_rtrancl [OF this chain_step.append [OF sample_append]]
  show ?thesis using single_writer_chain_verifies by (simp add: sample_rows_def)
qed

theorem same_head_same_certificates_witness:
  "map cert_view (get_all_certificates sample_rows) =
   map cert_view (get_all_certificates (map (\<lambda>w. w\<lparr>cw_timestamp := ''forged''\<rparr>) sample_rows))"
proof -
  let ?b = "map (\<lambda>w. w\<lparr>cw_timestamp := ''forged''\<rparr>) sample_rows"
  have "verify_chain chain_env sample_rows" "verify_chain chain_env ?b" "sample_rows \<noteq> []" "?b \<noteq> []"
    "cert_hash chain_env (cw_payload (last sample_rows)) = cert_hash chain_env (cw_payload (last ?b))"
    by (simp_all add: verify_chain_def get_all_certificates_def sample_rows_def row_of_def sample_cert_def)
  from same_head_same_certificates [OF this] show ?thesis by simp
qed

text \<open>
  Two processes that both initialise on the empty table each append a certificate after GENESIS, and both
  appends are accepted; the table that results is no longer verified.
\<close>

lemma two_writers_fork:
  "\<exists>h ch rows. append_certificate chain_env (sample_cert ''c2'' genesis_hash) (load_head []) sample_rows = Inr (h, ch, rows) \<and>
     \<not> verify_chain chain_env rows"
proof -
  let ?c1 = "sample_cert ''c1'' genesis_hash" and ?c2 = "sample_cert ''c2'' genesis_hash"
  have "cf_cert_id ?c1 \<noteq> cf_cert_id ?c2" by (simp add: sample_cert_def)
  then have "cert_bytes chain_env ?c1 \<noteq> cert_bytes chain_env ?c2"
    using cert_bytes_view [of chain_env ?c1 ?c2] cert_view_prev(2) [of ?c1 ?c2] by auto
  then have "cert_hash chain_env ?c2 \<noteq> cert_hash chain_env ?c1" by (simp add: cert_hash_def chain_env_def)
  moreover have "genesis_hash \<noteq> cert_hash chain_env ?c1" by (simp add: cert_hash_def chain_env_def genesis_hash_def)
  moreover have f: "cf_cert_id ?c2 = ''c2''" "truthy (cf_signature ?c2)" "truthy (cf_signer_pub_key ?c2)"
    "cf_previous_cert_hash ?c2 = genesis_hash" "cf_cert_id ?c1 = ''c1''"
    by (simp_all add: sample_cert_def)
  ultimately show ?thesis
    by (simp add: append_certificate_def load_head_def sample_rows_def row_of_def verify_chain_def get_all_certificates_def Let_def)
qed

end
