(* ===== verification/Transparency_Witness.thy ===== *)
theory Transparency_Witness
  imports Ledger_Store
begin

section \<open>Witnessed certificate batches\<close>

text \<open>
  \<open>packages/ledger/src/witness.py\<close>: a batch of recovery certificates is committed to the transparency
  ledger under the Merkle root of their hashes, bound to a policy snapshot and a canary verdict.
  Of a certificate (\<open>packages/contracts/src/models.py\<close>) the witness reads its hash and its validity flag.
\<close>

record witnessed_certificate =
  wc_certificate_hash :: string
  wc_is_valid :: bool

record commit_result =
  wr_certificate_commit_hash :: string
  wr_ledger_entry_hash :: string

text \<open>The byte strings hashed for one level: the last of an odd number of hashes is paired with itself.\<close>

fun level_messages :: "string list \<Rightarrow> string list" where
  "level_messages [] = []"
| "level_messages [l] = [char_of (1 :: nat) # utf8 l @ utf8 l]"
| "level_messages (l # r # hs) = (char_of (1 :: nat) # utf8 l @ utf8 r) # level_messages hs"

lemma length_level_messages [simp]: "length (level_messages hs) = (length hs + 1) div 2"
  by (induction hs rule: level_messages.induct) auto

function compute_merkle_root :: "env \<Rightarrow> string list \<Rightarrow> string" where
  "compute_merkle_root E [] = []"
| "compute_merkle_root E [h] = sha256 E (char_of (0 :: nat) # utf8 h)"
| "compute_merkle_root E (l # r # hs) = compute_merkle_root E (map (sha256 E) (level_messages (l # r # hs)))"
  by pat_completeness auto

termination
  by (relation "measure (\<lambda>(E, hs). length hs)") auto

definition bool_str :: "bool \<Rightarrow> string" where
  "bool_str b = (if b then ''True'' else ''False'')"

definition commit_payload :: "string \<Rightarrow> string \<Rightarrow> bool \<Rightarrow> string" where
  "commit_payload merkle_root policy_snapshot_hash canary_result =
     merkle_root @ '':'' @ policy_snapshot_hash @ '':'' @ bool_str canary_result"

definition commit_entry :: "string \<Rightarrow> string \<Rightarrow> string \<Rightarrow> nat \<Rightarrow> string \<Rightarrow> bool \<Rightarrow> (string \<times> json) list" where
  "commit_entry timestamp commit_hash merkle_root n policy_snapshot_hash canary_result =
     [(''timestamp'', JStr timestamp), (''commit_hash'', JStr commit_hash), (''merkle_root'', JStr merkle_root),
      (''certificate_count'', JInt (int n)), (''policy_snapshot'', JStr policy_snapshot_hash),
      (''canary_passed'', JBool canary_result)]"

text \<open>The two texts are the time of the entry and the time the ledger records.\<close>

definition commit_certificates ::
    "env \<Rightarrow> string \<Rightarrow> string \<Rightarrow> witnessed_certificate list \<Rightarrow> string \<Rightarrow> bool \<Rightarrow> ledger \<Rightarrow>
       (ledger_error, commit_result \<times> ledger) result" where
  "commit_certificates E timestamp now certificates policy_snapshot_hash canary_result rows =
     (let cert_hashes = map wc_certificate_hash (filter wc_is_valid certificates);
          merkle_root = compute_merkle_root E cert_hashes;
          commit_hash = sha256 E (utf8 (commit_payload merkle_root policy_snapshot_hash canary_result)) in
      rbind (append_entry E now
          (JObj (commit_entry timestamp commit_hash merkle_root (length cert_hashes) policy_snapshot_hash canary_result)) rows)
        (\<lambda>(res, rows'). Inr (\<lparr>wr_certificate_commit_hash = commit_hash, wr_ledger_entry_hash = res_entry_hash res\<rparr>, rows')))"

datatype witness_error = LedgerRaised ledger_error | PayloadHasNoGet

definition verify_ledger_entry :: "env \<Rightarrow> string \<Rightarrow> ledger \<Rightarrow> (ledger_error, bool) result option" where
  "verify_ledger_entry E entry_hash rows = verify_chain E rows entry_hash"

text \<open>The loop of \<open>verify_certificate_commit\<close>; a walk that does not return makes the call not return.\<close>

fun find_commit :: "env \<Rightarrow> ledger \<Rightarrow> string \<Rightarrow> ledger_row list \<Rightarrow> (witness_error, bool) result option" where
  "find_commit E rows commit_hash [] = Some (Inr False)"
| "find_commit E rows commit_hash (r # rs) =
     (case row_payload r of
        JObj kvs \<Rightarrow>
          if map_of kvs ''commit_hash'' = Some (JStr commit_hash)
          then map_option (map_sum LedgerRaised id) (verify_chain E rows (row_hash r))
          else find_commit E rows commit_hash rs
      | _ \<Rightarrow> Some (Inl PayloadHasNoGet))"

definition verify_certificate_commit :: "env \<Rightarrow> string \<Rightarrow> ledger \<Rightarrow> (witness_error, bool) result option" where
  "verify_certificate_commit E commit_hash rows = find_commit E rows commit_hash (iterate rows)"

subsection \<open>Committing and checking a commit\<close>

lemma find_commit_accepts:
  assumes "verify_full_chain E rows = Inr True" "distinct (map row_hash rows)" "set rs \<subseteq> set rows"
    and "\<forall>r\<in>set rs. \<exists>kvs. row_payload r = JObj kvs"
    and "\<exists>r\<in>set rs. \<exists>kvs. row_payload r = JObj kvs \<and> map_of kvs ''commit_hash'' = Some (JStr h)"
  shows "find_commit E rows h rs = Some (Inr True)"
  using assms(3-5)
proof (induction rs)
  case (Cons r rs)
  then obtain kvs where "row_payload r = JObj kvs" by auto
  moreover have "verify_chain E rows (row_hash r) = Some (Inr True)"
    using assms(1,2) Cons.prems(1) by (intro verify_chain_accepts) auto
  ultimately show ?case using Cons by auto
qed simp

text \<open>
  A committed batch can be found again: after a successful commit to an accepted ledger of JSON objects, the ledger is still
  accepted, \<open>verify_certificate_commit\<close> returns and answers True for the commit hash of the result, and so
  does \<open>verify_ledger_entry\<close> for its entry hash.
\<close>

theorem committed_batch_verifies:
  assumes "verify_full_chain E rows = Inr True" "distinct (map row_hash rows)"
    and "\<forall>r\<in>set rows. \<exists>kvs. row_payload r = JObj kvs"
    and "commit_certificates E timestamp now certificates policy canary rows = Inr (res, rows')"
  shows "verify_full_chain E rows' = Inr True \<and>
    verify_certificate_commit E (wr_certificate_commit_hash res) rows' = Some (Inr True) \<and>
    verify_ledger_entry E (wr_ledger_entry_hash res) rows' = Some (Inr True)"
proof -
  obtain a ts n root_hash where app: "append_entry E now
      (JObj (commit_entry ts (wr_certificate_commit_hash res) root_hash n policy canary)) rows = Inr (a, rows')"
    and eh: "wr_ledger_entry_hash res = res_entry_hash a"
    using assms(4) by (auto simp: commit_certificates_def Let_def rbind_Inr_iff)
  obtain s p where slot: "next_slot rows = (s, p)" by (cases "next_slot rows")
  obtain r where r: "rows' = rows @ [r]" "row_hash r \<notin> row_hash ` set rows" "row_hash r = res_entry_hash a"
    "row_payload r = canon (JObj (commit_entry ts (wr_certificate_commit_hash res) root_hash n policy canary))"
    using append_entry_Inr [OF app slot] by metis
  have v: "verify_full_chain E rows' = Inr True" using append_extends_verified [OF assms(1) app] by blast
  have d: "distinct (map row_hash rows')" using assms(2) r(1,2) by simp
  have "verify_chain E rows' (row_hash r) = Some (Inr True)"
    using verify_chain_accepts [OF v d, of r] r(1) by simp
  moreover have "verify_certificate_commit E (wr_certificate_commit_hash res) rows' = Some (Inr True)"
    unfolding verify_certificate_commit_def iterate_def
  proof (rule find_commit_accepts [OF v d])
    show "set (by_seq rows') \<subseteq> set rows'" by simp
    show "\<forall>r\<in>set (by_seq rows'). \<exists>kvs. row_payload r = JObj kvs" using assms(3) r(1,4) by auto
    show "\<exists>r\<in>set (by_seq rows'). \<exists>kvs. row_payload r = JObj kvs \<and>
        map_of kvs ''commit_hash'' = Some (JStr (wr_certificate_commit_hash res))"
      using r(1,4) by (intro bexI [of _ r]) (auto simp: commit_entry_def)
  qed
  ultimately show ?thesis using v eh r(3) by (simp add: verify_ledger_entry_def)
qed

subsection \<open>What the Merkle root binds\<close>

text \<open>Every byte string hashed for a root.\<close>

function root_messages :: "env \<Rightarrow> string list \<Rightarrow> string set" where
  "root_messages E [] = {}"
| "root_messages E [h] = {char_of (0 :: nat) # utf8 h}"
| "root_messages E (l # r # hs) =
     set (level_messages (l # r # hs)) \<union> root_messages E (map (sha256 E) (level_messages (l # r # hs)))"
  by pat_completeness auto

termination
  by (relation "measure (\<lambda>(E, hs). length hs)") auto

lemma level_messages_inj:
  assumes "\<forall>x\<in>set xs. length (utf8 x) = n" "\<forall>y\<in>set ys. length (utf8 y) = n" "length xs = length ys"
    and "level_messages xs = level_messages ys"
  shows "xs = ys"
  using assms
proof (induction xs arbitrary: ys rule: level_messages.induct)
  case (2 l)
  from 2(3) obtain l' where "ys = [l']" by (cases ys) auto
  with 2 show ?case by (auto dest!: utf8_inj)
next
  case (3 l r hs)
  from 3(4) obtain l' r' hs' where ys: "ys = l' # r' # hs'" by (cases ys; cases "tl ys") auto
  with 3(2-5) have "utf8 l = utf8 l'" "utf8 r = utf8 r'" and tl: "level_messages hs = level_messages hs'" by auto
  moreover have "hs = hs'" using 3(1) [of hs'] 3(2-4) tl ys by simp
  ultimately show ?case using ys by (auto dest!: utf8_inj)
qed simp

lemma map_hash_eq:
  assumes "map H xs = map H ys"
  shows "xs = ys \<or> collision_between H (set xs) (set ys)"
  using assms
proof (induction xs arbitrary: ys)
  case (Cons x xs)
  then obtain y ys' where ys: "ys = y # ys'" "H x = H y" "map H xs = map H ys'" by auto
  from Cons.IH [OF ys(3)] ys(1,2) show ?case
    by (cases "x = y") (auto simp: collision_between_def)
qed simp

lemma root_unfold:
  assumes "2 \<le> length hs"
  shows "compute_merkle_root E hs = compute_merkle_root E (map (sha256 E) (level_messages hs))"
    "root_messages E hs = set (level_messages hs) \<union> root_messages E (map (sha256 E) (level_messages hs))"
  using assms by (cases hs; cases "tl hs"; auto)+

text \<open>
  The Merkle root binds the batch: two batches with the same number of certificate hashes and the same root
  consist of the same hashes in the same order, or two of the byte strings hashed on the way to the roots are a
  collision of SHA-256. Hashes and digests have one common length.
\<close>

theorem merkle_root_binds:
  assumes "length xs = length ys" "compute_merkle_root E xs = compute_merkle_root E ys"
    and "\<forall>h\<in>set xs. length (utf8 h) = n" "\<forall>h\<in>set ys. length (utf8 h) = n" "\<forall>m. length (utf8 (sha256 E m)) = n"
  shows "xs = ys \<or> collision_between (sha256 E) (root_messages E xs) (root_messages E ys)"
  using assms(1-4)
proof (induction "length xs" arbitrary: xs ys rule: less_induct)
  case less
  consider (zero) "xs = []" "ys = []" | (one) x y where "xs = [x]" "ys = [y]" | (more) "2 \<le> length xs" "2 \<le> length ys"
    using less(2) by (cases xs; cases "tl xs"; cases ys; cases "tl ys") (auto simp: length_Suc_conv)
  then show ?case
  proof cases
    case one
    then show ?thesis using less(3)
      by (auto simp: collision_between_def dest: utf8_inj)
  next
    case more
    let ?xs = "level_messages xs" and ?ys = "level_messages ys"
    have "map (sha256 E) ?xs = map (sha256 E) ?ys \<or>
        collision_between (sha256 E) (root_messages E (map (sha256 E) ?xs)) (root_messages E (map (sha256 E) ?ys))"
    proof (rule less(1))
      show "length (map (sha256 E) ?xs) < length xs" using more by simp
      show "compute_merkle_root E (map (sha256 E) ?xs) = compute_merkle_root E (map (sha256 E) ?ys)"
        using less(3) root_unfold(1) [OF more(1), of E] root_unfold(1) [OF more(2), of E] by simp
    qed (use less(2) assms(5) in auto)
    moreover have "xs = ys" if "?xs = ?ys" using level_messages_inj [OF less(4,5,2) that] .
    ultimately show ?thesis
      using map_hash_eq [of "sha256 E" ?xs ?ys] root_unfold(2) [OF more(1), of E] root_unfold(2) [OF more(2), of E]
      by (auto intro: collision_between_mono)
  qed simp
qed

text \<open>The number of hashes matters: pairing the last hash with itself lets two batches share a root.\<close>

lemma root_of_repeated_last:
  "compute_merkle_root E [a, b, c] = compute_merkle_root E [a, b, c, c]"
  by simp

subsection \<open>Examples\<close>

definition fixed_env :: env where
  "fixed_env = \<lparr>sha256 = (\<lambda>m. CHR ''#'' # replicate 3 (CHR ''0'')), float_repr = ratio_repr, iso = int_str,
     ed25519_verify = (\<lambda>_ _ _. EdInvalidSignature), ed25519_sign = (\<lambda>k m. k @ m),
     hmac_sha256 = (\<lambda>k m. k @ m), b64_encode = (\<lambda>x. x), b64_decode = Some\<rparr>"

theorem merkle_root_binds_witness:
  "compute_merkle_root fixed_env [''aaaa'', ''bbbb'', ''cccc''] = compute_merkle_root fixed_env [''aaaa'', ''bbbb'', ''dddd''] \<and>
   collision_between (sha256 fixed_env) (root_messages fixed_env [''aaaa'', ''bbbb'', ''cccc''])
     (root_messages fixed_env [''aaaa'', ''bbbb'', ''dddd''])"
proof -
  have r: "compute_merkle_root fixed_env [''aaaa'', ''bbbb'', ''cccc''] = compute_merkle_root fixed_env [''aaaa'', ''bbbb'', ''dddd'']"
    by code_simp
  have l: "\<forall>h\<in>set [''aaaa'', ''bbbb'', ''cccc'']. length (utf8 h) = 4" "\<forall>h\<in>set [''aaaa'', ''bbbb'', ''dddd'']. length (utf8 h) = 4"
    by code_simp+
  have d: "\<forall>m. length (utf8 (sha256 fixed_env m)) = 4"
    by (simp add: fixed_env_def utf8_def utf8_char_def numeral_eq_Suc)
  from merkle_root_binds [OF _ r l d] r show ?thesis by simp
qed

theorem committed_batch_verifies_witness:
  "\<exists>res rows. commit_certificates demo_env ''t'' ''u'' [\<lparr>wc_certificate_hash = ''a'', wc_is_valid = True\<rparr>] ''p'' True [] = Inr (res, rows) \<and>
     verify_certificate_commit demo_env (wr_certificate_commit_hash res) rows = Some (Inr True)"
proof -
  have "case commit_certificates demo_env ''t'' ''u'' [\<lparr>wc_certificate_hash = ''a'', wc_is_valid = True\<rparr>] ''p'' True [] of
      Inl _ \<Rightarrow> False | Inr _ \<Rightarrow> True"
    by code_simp
  then obtain res rows where c: "commit_certificates demo_env ''t'' ''u'' [\<lparr>wc_certificate_hash = ''a'', wc_is_valid = True\<rparr>] ''p'' True []
      = Inr (res, rows)"
    by (auto split: sum.splits)
  have "verify_full_chain demo_env [] = Inr True" by code_simp
  from committed_batch_verifies [OF this _ _ c] c show ?thesis by simp
qed

end
