(* ===== verification/Policy_Hierarchy.thy ===== *)
theory Policy_Hierarchy
  imports Crypto_Env
begin

section \<open>Policy hierarchy, risk tiers and the inheritance resolver\<close>

text \<open>
  \<open>packages/policy/src/tiers.py\<close>, \<open>hierarchy.py\<close>, \<open>resolver.py\<close>, \<open>shadow.py\<close> and
  \<open>gate.py\<close>: the risk tier of an action, policy rules and nodes, the registry, the walk from a
  node to its ancestors, the tightening-only combination of the matching rules, the shadow
  report of a candidate registry, and the stand-alone gate.

  A \<open>str\<close> enum is a datatype with a function to its value. A call reads the clock once: the
  time is an argument, as is a fresh identifier. \<open>PolicyConflictError\<close> is the error of a sum,
  with its text.
\<close>

datatype policy_level = ORGANIZATION | BUSINESS_UNIT | PIPELINE | AGENT

fun level_value :: "policy_level \<Rightarrow> string" where
  "level_value ORGANIZATION = ''organization''"
| "level_value BUSINESS_UNIT = ''business_unit''"
| "level_value PIPELINE = ''pipeline''"
| "level_value AGENT = ''agent''"

datatype rule_verdict = ALLOW | DENY | NEEDS_APPROVAL

fun verdict_value :: "rule_verdict \<Rightarrow> string" where
  "verdict_value ALLOW = ''allow''"
| "verdict_value DENY = ''deny''"
| "verdict_value NEEDS_APPROVAL = ''needs_approval''"

text \<open>The text of a member in an f-string.\<close>

fun verdict_format :: "rule_verdict \<Rightarrow> string" where
  "verdict_format ALLOW = ''RuleVerdict.ALLOW''"
| "verdict_format DENY = ''RuleVerdict.DENY''"
| "verdict_format NEEDS_APPROVAL = ''RuleVerdict.NEEDS_APPROVAL''"

datatype risk_tier = TierLow | TierMedium | TierHigh | TierCritical

fun tier_value :: "risk_tier \<Rightarrow> string" where
  "tier_value TierLow = ''low''"
| "tier_value TierMedium = ''medium''"
| "tier_value TierHigh = ''high''"
| "tier_value TierCritical = ''critical''"

subsection \<open>Risk tiers\<close>

definition ACTION_TIER_MAP :: "(string \<times> risk_tier) list" where
  "ACTION_TIER_MAP =
     map (\<lambda>a. (a, TierLow))
       [''read_trace'', ''list_runs'', ''get_run'', ''get_replay'', ''read_diagnosis'',
        ''health_check'', ''ingest_spans'', ''create_run'', ''list_candidates'',
        ''get_certificate'', ''read_policy'', ''shadow_evaluate_policy'', ''view_approval_queue''] @
     map (\<lambda>a. (a, TierMedium))
       [''create_replay'', ''schedule_replay'', ''cancel_replay'', ''mutate_staging_kb'',
        ''create_intervention'', ''submit_diagnosis'', ''request_approval'', ''approve_action'',
        ''deny_action''] @
     map (\<lambda>a. (a, TierHigh))
       [''apply_intervention'', ''apply_repair_decision'', ''apply_rollback'',
        ''promote_component_version'', ''update_policy'', ''activate_policy'',
        ''revoke_certificate'', ''flush_cache'', ''update_model_config''] @
     map (\<lambda>a. (a, TierCritical))
       [''delete_memory'', ''mutate_production_kb'', ''grant_permissions'',
        ''execute_arbitrary_shell'', ''modify_external_system'', ''publish_source_code'',
        ''delete_trace'', ''overwrite_experiment'', ''deactivate_safety_gate'',
        ''break_glass_override'']"

definition get_tier :: "string \<Rightarrow> risk_tier" where
  "get_tier action =
     (case map_of ACTION_TIER_MAP (py_lower action) of Some t \<Rightarrow> t | None \<Rightarrow> TierHigh)"

record tier_requirements =
  tr_required_approvers :: int
  tr_two_person_control :: bool
  tr_auto_approve :: bool

fun TIER_APPROVAL_REQUIREMENTS :: "risk_tier \<Rightarrow> tier_requirements" where
  "TIER_APPROVAL_REQUIREMENTS TierLow =
     \<lparr>tr_required_approvers = 0, tr_two_person_control = False, tr_auto_approve = True\<rparr>"
| "TIER_APPROVAL_REQUIREMENTS TierMedium =
     \<lparr>tr_required_approvers = 1, tr_two_person_control = False, tr_auto_approve = False\<rparr>"
| "TIER_APPROVAL_REQUIREMENTS TierHigh =
     \<lparr>tr_required_approvers = 1, tr_two_person_control = True, tr_auto_approve = False\<rparr>"
| "TIER_APPROVAL_REQUIREMENTS TierCritical =
     \<lparr>tr_required_approvers = 2, tr_two_person_control = True, tr_auto_approve = False\<rparr>"

definition get_approval_requirements :: "string \<Rightarrow> tier_requirements" where
  "get_approval_requirements action = TIER_APPROVAL_REQUIREMENTS (get_tier action)"

subsection \<open>Rules and nodes\<close>

record policy_rule =
  pr_action_pattern :: string
  pr_verdict :: rule_verdict
  pr_risk_tier :: risk_tier
  pr_required_approvers :: int
  pr_two_person_control :: bool
  pr_allowed_roles :: "string list"
  pr_max_budget_usd :: "rat option"
  pr_data_retention_days :: "int option"
  pr_rationale :: string
  pr_source_level :: policy_level
  pr_override_justification :: "string option"
  pr_override_metadata :: "(string \<times> json) list"
  pr_rule_id :: string
  pr_created_at :: int
  pr_version :: string

definition rule_payload :: "policy_rule \<Rightarrow> json" where
  "rule_payload r = JObj
     [(''action_pattern'', JStr (pr_action_pattern r)),
      (''verdict'', JStr (verdict_value (pr_verdict r))),
      (''risk_tier'', JStr (tier_value (pr_risk_tier r))),
      (''required_approvers'', JInt (pr_required_approvers r)),
      (''two_person_control'', JBool (pr_two_person_control r)),
      (''allowed_roles'', JList (map JStr (sort (pr_allowed_roles r)))),
      (''max_budget_usd'', case pr_max_budget_usd r of None \<Rightarrow> JNull | Some b \<Rightarrow> JFloat b),
      (''data_retention_days'', case pr_data_retention_days r of None \<Rightarrow> JNull | Some d \<Rightarrow> JInt d)]"

text \<open>\<open>PolicyRule.__post_init__\<close>: the content hash that is the version of the rule.\<close>

definition rule_post_init :: "env \<Rightarrow> policy_rule \<Rightarrow> policy_rule" where
  "rule_post_init E r =
     r\<lparr>pr_version := take 16 (sha256 E (utf8 (dumps default_style (float_repr E) (rule_payload r))))\<rparr>"

record policy_node =
  pn_node_id :: string
  pn_level :: policy_level
  pn_tenant_id :: string
  pn_parent_id :: "string option"
  pn_rules :: "policy_rule list"
  pn_is_active :: bool
  pn_schema_version :: string
  pn_created_at :: int
  pn_updated_at :: int

text \<open>\<open>str.endswith\<close> and \<open>str.startswith\<close>.\<close>

definition endswith :: "string \<Rightarrow> string \<Rightarrow> bool" where
  "endswith s t \<longleftrightarrow> length t \<le> length s \<and> drop (length s - length t) s = t"

definition startswith :: "string \<Rightarrow> string \<Rightarrow> bool" where
  "startswith s t \<longleftrightarrow> take (length t) s = t"

definition action_matches :: "string \<Rightarrow> string \<Rightarrow> bool" where
  "action_matches pattern action =
     (if endswith pattern ''.*''
      then let prefix = take (length pattern - 2) pattern in
           action = prefix \<or> startswith action (prefix @ ''.'')
      else pattern = action)"

fun first_matching :: "string \<Rightarrow> policy_rule list \<Rightarrow> policy_rule option" where
  "first_matching action [] = None"
| "first_matching action (r # rs) =
     (if action_matches (pr_action_pattern r) action then Some r else first_matching action rs)"

definition get_rule_for_action :: "policy_node \<Rightarrow> string \<Rightarrow> policy_rule option" where
  "get_rule_for_action n action = first_matching action (pn_rules n)"

record effective_policy =
  ep_action :: string
  ep_tenant_id :: string
  ep_node_id :: string
  ep_verdict :: rule_verdict
  ep_risk_tier :: risk_tier
  ep_required_approvers :: int
  ep_two_person_control :: bool
  ep_allowed_roles :: "string list"
  ep_max_budget_usd :: "rat option"
  ep_winning_rule :: policy_rule
  ep_override_chain :: "policy_rule list"
  ep_conflict_detected :: bool
  ep_conflict_description :: "string option"
  ep_evaluated_at :: int

subsection \<open>Registry and ancestors\<close>

type_synonym registry = "((string \<times> string) \<times> policy_node) list"

definition register :: "policy_node \<Rightarrow> registry \<Rightarrow> registry" where
  "register n reg = dict_put (pn_tenant_id n, pn_node_id n) n reg"

definition registry_get :: "registry \<Rightarrow> string \<Rightarrow> string \<Rightarrow> policy_node option" where
  "registry_get reg tenant_id node_id = map_of reg (tenant_id, node_id)"

definition all_for_tenant :: "registry \<Rightarrow> string \<Rightarrow> policy_node list" where
  "all_for_tenant reg tenant_id = [n. ((t, _), n) \<leftarrow> reg, t = tenant_id]"

text \<open>The loop of \<open>_ancestor_chain\<close>: the nodes in the order they are appended.\<close>

function ancestor_walk :: "registry \<Rightarrow> string \<Rightarrow> string list \<Rightarrow> policy_node option \<Rightarrow> policy_node list" where
  "ancestor_walk reg t visited None = []"
| "ancestor_walk reg t visited (Some n) =
     (if pn_node_id n \<in> set visited then []
      else n # (case pn_parent_id n of
                  None \<Rightarrow> []
                | Some p \<Rightarrow> ancestor_walk reg t (pn_node_id n # visited) (registry_get reg t p)))"
  by pat_completeness auto

text \<open>Each turn visits one more of the finitely many node identifiers of the registry.\<close>

termination
proof (relation "measure (\<lambda>(reg, t, visited, n).
    card ((pn_node_id ` (snd ` set reg \<union> set_option n)) - set visited))")
  show "wf (measure (\<lambda>(reg :: registry, t :: string, visited, n).
    card ((pn_node_id ` (snd ` set reg \<union> set_option n)) - set visited)))" by simp
next
  fix reg :: registry and t p :: string and visited :: "string list" and n :: policy_node
  assume fresh: "pn_node_id n \<notin> set visited"
  have "set_option (registry_get reg t p) \<subseteq> snd ` set reg"
    by (cases "registry_get reg t p") (force simp: registry_get_def dest!: map_of_SomeD)+
  with fresh show "((reg, t, pn_node_id n # visited, registry_get reg t p), reg, t, visited, Some n)
      \<in> measure (\<lambda>(reg, t, visited, n). card ((pn_node_id ` (snd ` set reg \<union> set_option n)) - set visited))"
    by (auto intro!: psubset_card_mono)
qed

definition ancestor_chain :: "registry \<Rightarrow> string \<Rightarrow> string \<Rightarrow> policy_node list" where
  "ancestor_chain reg tenant_id leaf_node_id =
     (case registry_get reg tenant_id leaf_node_id of
        None \<Rightarrow> []
      | Some n \<Rightarrow> rev (ancestor_walk reg tenant_id [] (Some n)))"

subsection \<open>Resolution\<close>

fun VERDICT_PRECEDENCE :: "rule_verdict \<Rightarrow> nat" where
  "VERDICT_PRECEDENCE DENY = 0"
| "VERDICT_PRECEDENCE NEEDS_APPROVAL = 1"
| "VERDICT_PRECEDENCE ALLOW = 2"

fun TIER_PRECEDENCE :: "risk_tier \<Rightarrow> nat" where
  "TIER_PRECEDENCE TierCritical = 0"
| "TIER_PRECEDENCE TierHigh = 1"
| "TIER_PRECEDENCE TierMedium = 2"
| "TIER_PRECEDENCE TierLow = 3"

text \<open>The local variables of the loop in \<open>resolve\<close>.\<close>

record resolution =
  effective_verdict :: rule_verdict
  effective_tier :: risk_tier
  effective_approvers :: int
  effective_two_person :: bool
  effective_budget :: "rat option"
  effective_roles :: "string list"
  winning_rule :: policy_rule
  conflict_detected :: bool
  conflict_description :: "string option"

definition start_resolution :: "policy_rule \<Rightarrow> resolution" where
  "start_resolution r =
     \<lparr>effective_verdict = ALLOW, effective_tier = TierLow, effective_approvers = 0,
      effective_two_person = False, effective_budget = None, effective_roles = [],
      winning_rule = r, conflict_detected = False, conflict_description = None\<rparr>"

datatype conflict_error = PolicyConflictError string

text \<open>The verdict part of the loop body, which may raise.\<close>

definition tighten_verdict ::
    "nat \<Rightarrow> policy_rule \<Rightarrow> resolution \<Rightarrow> (conflict_error, resolution) result" where
  "tighten_verdict i r s =
     (if VERDICT_PRECEDENCE (pr_verdict r) < VERDICT_PRECEDENCE (effective_verdict s)
      then Inr (s\<lparr>effective_verdict := pr_verdict r, winning_rule := r\<rparr>)
      else if 0 < i \<and> VERDICT_PRECEDENCE (pr_verdict r) > VERDICT_PRECEDENCE (effective_verdict s)
      then if \<not> truthy (pr_override_justification r)
           then Inl (PolicyConflictError
             (''Rule '' @ pr_rule_id r @ '' at '' @ level_value (pr_source_level r) @
              '' attempts to relax verdict from '' @ verdict_format (effective_verdict s) @ '' to '' @
              verdict_format (pr_verdict r) @ '' without override_justification.''))
           else Inr (s\<lparr>conflict_detected := True,
                       conflict_description :=
                         Some (''Override at '' @ level_value (pr_source_level r) @ '': '' @
                               the (pr_override_justification r))\<rparr>)
      else Inr s)"

text \<open>The rest of the body: tier, approvers, two-person control, budget and roles.\<close>

definition tighten_limits :: "policy_rule \<Rightarrow> resolution \<Rightarrow> resolution" where
  "tighten_limits r s =
     s\<lparr>effective_tier := if TIER_PRECEDENCE (pr_risk_tier r) < TIER_PRECEDENCE (effective_tier s)
                         then pr_risk_tier r else effective_tier s,
       effective_approvers := max (effective_approvers s) (pr_required_approvers r),
       effective_two_person := effective_two_person s \<or> pr_two_person_control r,
       effective_budget :=
         (case pr_max_budget_usd r of
            None \<Rightarrow> effective_budget s
          | Some b \<Rightarrow> (case effective_budget s of None \<Rightarrow> Some b | Some c \<Rightarrow> Some (min c b))),
       effective_roles :=
         (if pr_allowed_roles r \<noteq> []
          then if effective_roles s = [] then pr_allowed_roles r
               else filter (\<lambda>x. x \<in> set (pr_allowed_roles r)) (effective_roles s)
          else effective_roles s)\<rparr>"

fun tighten_loop ::
    "nat \<Rightarrow> policy_rule list \<Rightarrow> resolution \<Rightarrow> (conflict_error, resolution) result" where
  "tighten_loop i [] s = Inr s"
| "tighten_loop i (r # rs) s =
     rbind (tighten_verdict i r s) (\<lambda>s'. tighten_loop (Suc i) rs (tighten_limits r s'))"

definition matching_rules :: "policy_node list \<Rightarrow> string \<Rightarrow> policy_rule list" where
  "matching_rules chain action =
     concat (map (\<lambda>n. if \<not> pn_is_active n then []
                      else case get_rule_for_action n action of None \<Rightarrow> [] | Some r \<Rightarrow> [r]) chain)"

definition default_sentinel :: "env \<Rightarrow> int \<Rightarrow> string \<Rightarrow> policy_rule" where
  "default_sentinel E now action = rule_post_init E
     \<lparr>pr_action_pattern = action, pr_verdict = DENY, pr_risk_tier = TierHigh,
      pr_required_approvers = 1, pr_two_person_control = False, pr_allowed_roles = [],
      pr_max_budget_usd = None, pr_data_retention_days = None,
      pr_rationale = ''No matching policy rule found. Default deny.'',
      pr_source_level = ORGANIZATION, pr_override_justification = None,
      pr_override_metadata = [], pr_rule_id = ''DEFAULT_DENY'', pr_created_at = now,
      pr_version = ''''\<rparr>"

definition default_deny :: "env \<Rightarrow> int \<Rightarrow> string \<Rightarrow> string \<Rightarrow> string \<Rightarrow> effective_policy" where
  "default_deny E now action tenant_id node_id =
     \<lparr>ep_action = action, ep_tenant_id = tenant_id, ep_node_id = node_id, ep_verdict = DENY,
      ep_risk_tier = TierHigh, ep_required_approvers = 0, ep_two_person_control = False,
      ep_allowed_roles = [], ep_max_budget_usd = None,
      ep_winning_rule = default_sentinel E now action,
      ep_override_chain = [default_sentinel E now action],
      ep_conflict_detected = False, ep_conflict_description = None, ep_evaluated_at = now\<rparr>"

definition resolve ::
    "env \<Rightarrow> int \<Rightarrow> registry \<Rightarrow> string \<Rightarrow> string \<Rightarrow> string \<Rightarrow> (conflict_error, effective_policy) result" where
  "resolve E now reg tenant_id node_id action =
     (let chain = ancestor_chain reg tenant_id node_id in
      if chain = [] then Inr (default_deny E now action tenant_id node_id)
      else let rules = matching_rules chain action in
        if rules = [] then Inr (default_deny E now action tenant_id node_id)
        else rbind (tighten_loop 0 rules (start_resolution (hd rules))) (\<lambda>s. Inr
          \<lparr>ep_action = action, ep_tenant_id = tenant_id, ep_node_id = node_id,
           ep_verdict = effective_verdict s, ep_risk_tier = effective_tier s,
           ep_required_approvers = effective_approvers s,
           ep_two_person_control = effective_two_person s,
           ep_allowed_roles = effective_roles s, ep_max_budget_usd = effective_budget s,
           ep_winning_rule = winning_rule s, ep_override_chain = rules,
           ep_conflict_detected = conflict_detected s,
           ep_conflict_description = conflict_description s, ep_evaluated_at = now\<rparr>))"

subsection \<open>Shadow evaluation\<close>

record historical_event =
  he_event_id :: string
  he_action :: string
  he_tenant_id :: string
  he_node_id :: string
  he_requester_id :: string
  he_requester_role :: string
  he_recorded_verdict :: string
  he_recorded_at :: int

record shadow_result =
  sr_event_id :: string
  sr_action :: string
  sr_recorded_verdict :: string
  sr_shadow_verdict :: string
  sr_changed :: bool
  sr_change_direction :: "string option"
  sr_shadow_rule_id :: string
  sr_shadow_rationale :: string

record shadow_report =
  rp_candidate_policy_id :: string
  rp_n_events :: nat
  rp_n_unchanged :: nat
  rp_n_tightened :: nat
  rp_n_relaxed :: nat
  rp_results :: "shadow_result list"
  rp_generated_at :: int

definition verdict_rank :: "string \<Rightarrow> nat" where
  "verdict_rank v =
     (case map_of [(''allow'', 2), (''needs_approval'', 1), (''deny'', 0 :: nat)] v of
        Some n \<Rightarrow> n | None \<Rightarrow> 2)"

definition shadow_event :: "env \<Rightarrow> int \<Rightarrow> registry \<Rightarrow> historical_event \<Rightarrow> shadow_result" where
  "shadow_event E now reg ev =
     (let (shadow_verdict, rule_id, rationale) =
            (case resolve E now reg (he_tenant_id ev) (he_node_id ev) (he_action ev) of
               Inr ep \<Rightarrow> (verdict_value (ep_verdict ep), pr_rule_id (ep_winning_rule ep),
                          pr_rationale (ep_winning_rule ep))
             | Inl (PolicyConflictError msg) \<Rightarrow> (''deny'', ''SHADOW_ERROR'', msg));
          changed = (shadow_verdict \<noteq> he_recorded_verdict ev) in
      \<lparr>sr_event_id = he_event_id ev, sr_action = he_action ev,
       sr_recorded_verdict = he_recorded_verdict ev, sr_shadow_verdict = shadow_verdict,
       sr_changed = changed,
       sr_change_direction =
         (if \<not> changed then None
          else if verdict_rank shadow_verdict < verdict_rank (he_recorded_verdict ev)
          then Some ''tightened'' else Some ''relaxed''),
       sr_shadow_rule_id = rule_id, sr_shadow_rationale = rationale\<rparr>)"

fun shadow_loop :: "env \<Rightarrow> int \<Rightarrow> registry \<Rightarrow> historical_event list \<Rightarrow> shadow_report \<Rightarrow> shadow_report" where
  "shadow_loop E now reg [] rp = rp"
| "shadow_loop E now reg (ev # evs) rp =
     (let r = shadow_event E now reg ev;
          rp' = (case sr_change_direction r of
                   None \<Rightarrow> rp\<lparr>rp_n_unchanged := rp_n_unchanged rp + 1\<rparr>
                 | Some d \<Rightarrow> if d = ''tightened'' then rp\<lparr>rp_n_tightened := rp_n_tightened rp + 1\<rparr>
                             else rp\<lparr>rp_n_relaxed := rp_n_relaxed rp + 1\<rparr>) in
      shadow_loop E now reg evs (rp'\<lparr>rp_results := rp_results rp @ [r]\<rparr>))"

definition shadow_evaluate ::
    "env \<Rightarrow> int \<Rightarrow> historical_event list \<Rightarrow> registry \<Rightarrow> string \<Rightarrow> shadow_report" where
  "shadow_evaluate E now events reg candidate_policy_id =
     shadow_loop E now reg events
       \<lparr>rp_candidate_policy_id = candidate_policy_id, rp_n_events = length events,
        rp_n_unchanged = 0, rp_n_tightened = 0, rp_n_relaxed = 0, rp_results = [],
        rp_generated_at = now\<rparr>"

subsection \<open>The stand-alone gate\<close>

record policy_result =
  ps_action :: rule_verdict
  ps_rule_id :: string
  ps_rationale :: string
  ps_risk_level :: risk_tier
  ps_requires_human_approval :: bool
  ps_metadata :: "(string \<times> json) list"

definition ALWAYS_DENY_ACTIONS :: "string list" where
  "ALWAYS_DENY_ACTIONS =
     [''delete_memory'', ''mutate_production_kb'', ''grant_permissions'',
      ''execute_arbitrary_shell'', ''modify_external_system'', ''publish_source_code'',
      ''delete_trace'', ''overwrite_experiment'']"

definition NEEDS_APPROVAL_ACTIONS :: "string list" where
  "NEEDS_APPROVAL_ACTIONS =
     [''apply_rollback'', ''create_replay'', ''apply_repair_decision'', ''apply_intervention'',
      ''mutate_staging_kb'']"

definition ALWAYS_ALLOW_ACTIONS :: "string list" where
  "ALWAYS_ALLOW_ACTIONS =
     [''read_trace'', ''list_runs'', ''get_run'', ''get_replay'', ''read_diagnosis'',
      ''health_check'', ''ingest_spans'', ''create_run'']"

text \<open>\<open>PolicyGate.evaluate\<close> reads only the action of the request.\<close>

definition evaluate_policy :: "string \<Rightarrow> policy_result" where
  "evaluate_policy act =
     (let action = py_lower act; q = [CHR 0x27] in
      if action \<in> set ALWAYS_DENY_ACTIONS then
        \<lparr>ps_action = DENY, ps_rule_id = ''ALWAYS_DENY'',
         ps_rationale = ''Action '' @ q @ action @ q @ '' is unconditionally denied by safety policy.'',
         ps_risk_level = TierCritical, ps_requires_human_approval = False, ps_metadata = []\<rparr>
      else if action \<in> set ALWAYS_ALLOW_ACTIONS then
        \<lparr>ps_action = ALLOW, ps_rule_id = ''ALWAYS_ALLOW'',
         ps_rationale = ''Action '' @ q @ action @ q @ '' is a safe read-only operation.'',
         ps_risk_level = TierLow, ps_requires_human_approval = False, ps_metadata = []\<rparr>
      else if action \<in> set NEEDS_APPROVAL_ACTIONS then
        \<lparr>ps_action = NEEDS_APPROVAL, ps_rule_id = ''NEEDS_HUMAN_APPROVAL'',
         ps_rationale = ''Action '' @ q @ action @ q @ '' requires human approval before execution.'',
         ps_risk_level = TierMedium, ps_requires_human_approval = True, ps_metadata = []\<rparr>
      else
        \<lparr>ps_action = DENY, ps_rule_id = ''DEFAULT_DENY'',
         ps_rationale = ''Unknown action '' @ q @ action @ q @ '' denied by default-deny policy.'',
         ps_risk_level = TierHigh, ps_requires_human_approval = False, ps_metadata = []\<rparr>)"

subsection \<open>Ancestors\<close>

text \<open>\<open>a\<close> is a registered child of \<open>b\<close>.\<close>

definition child_of :: "registry \<Rightarrow> string \<Rightarrow> policy_node \<Rightarrow> policy_node \<Rightarrow> bool" where
  "child_of reg t a b \<longleftrightarrow> (\<exists>p. pn_parent_id a = Some p \<and> registry_get reg t p = Some b)"

lemma ancestor_walk_cong:
  assumes "\<And>p. registry_get reg t p = registry_get reg' t p"
  shows "ancestor_walk reg t vis n = ancestor_walk reg' t vis n"
  using assms
  by (induction reg t vis n rule: ancestor_walk.induct) (auto split: option.splits)

lemma ancestor_walk_fresh:
  "distinct (map pn_node_id (ancestor_walk reg t vis n)) \<and>
   pn_node_id ` set (ancestor_walk reg t vis n) \<inter> set vis = {}"
  by (induction reg t vis n rule: ancestor_walk.induct) (auto split: option.splits)

lemma ancestor_walk_hd:
  "ancestor_walk reg t vis n \<noteq> [] \<Longrightarrow> n = Some (hd (ancestor_walk reg t vis n))"
  by (cases n) (auto split: if_splits)

lemma ancestor_walk_linked:
  "successively (child_of reg t) (ancestor_walk reg t vis n)"
proof (induction reg t vis n rule: ancestor_walk.induct)
  case (2 reg t vis n)
  show ?case
  proof (cases "pn_node_id n \<in> set vis \<or> pn_parent_id n = None")
    case True
    then show ?thesis by auto
  next
    case False
    then obtain p where p: "pn_parent_id n = Some p" "pn_node_id n \<notin> set vis" by auto
    let ?w = "ancestor_walk reg t (pn_node_id n # vis) (registry_get reg t p)"
    have "successively (child_of reg t) ?w" using 2 [OF p(2,1)] .
    moreover have "child_of reg t n (hd ?w)" if "?w \<noteq> []"
      using ancestor_walk_hd [OF that] p(1) by (auto simp: child_of_def)
    ultimately show ?thesis using p by (cases ?w) (auto simp del: ancestor_walk.simps simp: ancestor_walk.simps(2) [of reg t vis n])
  qed
qed simp

lemma ancestor_walk_stops:
  "ancestor_walk reg t vis n \<noteq> [] \<Longrightarrow>
   (case pn_parent_id (last (ancestor_walk reg t vis n)) of
      None \<Rightarrow> True
    | Some p \<Rightarrow> (case registry_get reg t p of
        None \<Rightarrow> True
      | Some b \<Rightarrow> pn_node_id b \<in> set vis \<union> pn_node_id ` set (ancestor_walk reg t vis n)))"
proof (induction reg t vis n rule: ancestor_walk.induct)
  case (2 reg t vis n)
  then have fresh: "pn_node_id n \<notin> set vis" by (auto split: if_splits)
  show ?case
  proof (cases "pn_parent_id n")
    case None
    with fresh show ?thesis by simp
  next
    case (Some p)
    let ?w = "ancestor_walk reg t (pn_node_id n # vis) (registry_get reg t p)"
    have w: "ancestor_walk reg t vis (Some n) = n # ?w" using fresh Some by simp
    show ?thesis
    proof (cases "?w = []")
      case True
      then have "case registry_get reg t p of None \<Rightarrow> True
        | Some b \<Rightarrow> pn_node_id b \<in> insert (pn_node_id n) (set vis)"
        by (auto split: option.splits if_splits)
      with w True Some show ?thesis by (auto split: option.splits)
    next
      case False
      from 2(1) [OF fresh Some False] False w show ?thesis
        by (auto split: option.splits)
    qed
  qed
qed simp

text \<open>
  The ancestor chain of a registered node ends with that node, holds no node identifier
  twice, links every node to its registered parent, and stops only where there is no registered
  parent or where the parent is already in the chain: a cyclic registry cannot loop.
\<close>

theorem ancestor_chain_ok:
  assumes "registry_get reg t leaf = Some n"
  shows "ancestor_chain reg t leaf \<noteq> [] \<and> last (ancestor_chain reg t leaf) = n \<and>
    distinct (map pn_node_id (ancestor_chain reg t leaf)) \<and>
    successively (\<lambda>b a. child_of reg t a b) (ancestor_chain reg t leaf) \<and>
    (\<forall>b. child_of reg t (hd (ancestor_chain reg t leaf)) b \<longrightarrow>
         pn_node_id b \<in> pn_node_id ` set (ancestor_chain reg t leaf))"
proof -
  define w where "w = ancestor_walk reg t [] (Some n)"
  have c: "ancestor_chain reg t leaf = rev w" by (simp add: ancestor_chain_def assms w_def)
  have ne: "w \<noteq> []" and hd: "hd w = n" by (auto simp: w_def)
  have "distinct (map pn_node_id w)"
    using ancestor_walk_fresh [of reg t "[]" "Some n"] by (simp add: w_def del: ancestor_walk.simps)
  moreover have "successively (child_of reg t) w" unfolding w_def by (rule ancestor_walk_linked)
  moreover have "pn_node_id b \<in> pn_node_id ` set w" if "child_of reg t (last w) b" for b
    using that ancestor_walk_stops [of reg t "[]" "Some n"] ne
    by (auto simp: w_def child_of_def simp del: ancestor_walk.simps)
  ultimately show ?thesis using ne hd
    by (auto simp: c rev_map [symmetric] last_rev hd_rev successively_rev simp del: ancestor_walk.simps)
qed

subsection \<open>Tightening\<close>

text \<open>
  What the combination of the matching rules promises: every limit is the most restrictive one
  of the rules, and the winning rule is the first of those with the effective verdict.
\<close>

definition tightened :: "policy_rule list \<Rightarrow> effective_policy \<Rightarrow> bool" where
  "tightened rules ep \<longleftrightarrow>
     VERDICT_PRECEDENCE (ep_verdict ep) = Min (set (map (VERDICT_PRECEDENCE \<circ> pr_verdict) rules)) \<and>
     TIER_PRECEDENCE (ep_risk_tier ep) = Min (set (map (TIER_PRECEDENCE \<circ> pr_risk_tier) rules)) \<and>
     ep_required_approvers ep = Max (set (0 # map pr_required_approvers rules)) \<and>
     ep_two_person_control ep = list_ex pr_two_person_control rules \<and>
     ep_max_budget_usd ep =
       (case List.map_filter pr_max_budget_usd rules of [] \<Rightarrow> None | b # bs \<Rightarrow> Some (Min (set (b # bs)))) \<and>
     List.find (\<lambda>r. pr_verdict r = ep_verdict ep) rules = Some (ep_winning_rule ep)"

lemma verdict_precedence_inj [simp]:
  "VERDICT_PRECEDENCE a = VERDICT_PRECEDENCE b \<longleftrightarrow> a = b"
  by (cases a; cases b) auto

lemma verdict_precedence_le [simp]: "VERDICT_PRECEDENCE a \<le> 2"
  by (cases a) auto

lemma tier_precedence_le [simp]: "TIER_PRECEDENCE a \<le> 3"
  by (cases a) auto

lemma tighten_verdict_limits:
  assumes "tighten_verdict i r s = Inr s'"
  shows "effective_tier s' = effective_tier s" "effective_approvers s' = effective_approvers s"
    "effective_two_person s' = effective_two_person s" "effective_budget s' = effective_budget s"
    "effective_roles s' = effective_roles s"
  using assms by (auto simp: tighten_verdict_def split: if_splits)

lemma tighten_verdict_verdict:
  assumes "tighten_verdict i r s = Inr s'"
  shows "VERDICT_PRECEDENCE (effective_verdict s') =
    min (VERDICT_PRECEDENCE (effective_verdict s)) (VERDICT_PRECEDENCE (pr_verdict r))"
    "winning_rule s' = (if VERDICT_PRECEDENCE (pr_verdict r) < VERDICT_PRECEDENCE (effective_verdict s)
                        then r else winning_rule s)"
  using assms by (auto simp: tighten_verdict_def split: if_splits)

lemma tighten_limits_simps [simp]:
  "effective_verdict (tighten_limits r s) = effective_verdict s"
  "winning_rule (tighten_limits r s) = winning_rule s"
  "TIER_PRECEDENCE (effective_tier (tighten_limits r s)) =
     min (TIER_PRECEDENCE (effective_tier s)) (TIER_PRECEDENCE (pr_risk_tier r))"
  "effective_approvers (tighten_limits r s) = max (effective_approvers s) (pr_required_approvers r)"
  "effective_two_person (tighten_limits r s) = (effective_two_person s \<or> pr_two_person_control r)"
  by (auto simp: tighten_limits_def min_def)

text \<open>The budgets seen so far, the current one first.\<close>

definition budgets :: "rat option \<Rightarrow> policy_rule list \<Rightarrow> rat list" where
  "budgets b rs = (case b of None \<Rightarrow> [] | Some x \<Rightarrow> [x]) @ List.map_filter pr_max_budget_usd rs"

definition least_of :: "rat list \<Rightarrow> rat option" where
  "least_of bs = (if bs = [] then None else Some (Min (set bs)))"

lemma Min_min_Cons: "Min (set (min a b # xs)) = Min (set (a # b # xs))" for a :: "'a :: linorder"
  by (cases "xs = []") (auto simp: min.assoc)

lemma Max_max_Cons: "Max (set (max a b # xs)) = Max (set (a # b # xs))" for a :: "'a :: linorder"
  by (cases "xs = []") (auto simp: max.assoc)

lemma least_of_min: "least_of (min a b # xs) = least_of (a # b # xs)"
  unfolding least_of_def Min_min_Cons by simp

lemma budget_step:
  "least_of (budgets (effective_budget (tighten_limits r s)) rs) = least_of (budgets (effective_budget s) (r # rs))"
  by (cases "effective_budget s"; cases "pr_max_budget_usd r")
    (simp_all add: tighten_limits_def budgets_def least_of_min List.map_filter_simps)

lemma tighten_loop_ok:
  assumes "tighten_loop i rs s = Inr s'"
  shows "VERDICT_PRECEDENCE (effective_verdict s') =
      Min (set (VERDICT_PRECEDENCE (effective_verdict s) # map (VERDICT_PRECEDENCE \<circ> pr_verdict) rs)) \<and>
    TIER_PRECEDENCE (effective_tier s') =
      Min (set (TIER_PRECEDENCE (effective_tier s) # map (TIER_PRECEDENCE \<circ> pr_risk_tier) rs)) \<and>
    effective_approvers s' = Max (set (effective_approvers s # map pr_required_approvers rs)) \<and>
    effective_two_person s' = (effective_two_person s \<or> list_ex pr_two_person_control rs) \<and>
    effective_budget s' = least_of (budgets (effective_budget s) rs)"
  using assms
proof (induction rs arbitrary: i s)
  case Nil
  then show ?case by (auto simp: budgets_def least_of_def List.map_filter_def split: option.splits)
next
  case (Cons r rs)
  from Cons.prems obtain s1 where s1: "tighten_verdict i r s = Inr s1"
    and rest: "tighten_loop (Suc i) rs (tighten_limits r s1) = Inr s'"
    by (auto simp: rbind_Inr_iff)
  note IH = Cons.IH [OF rest]
  have b: "budgets (effective_budget (tighten_limits r s1)) rs = budgets (effective_budget (tighten_limits r s)) rs"
    by (simp add: tighten_limits_def tighten_verdict_limits(4) [OF s1] cong: option.case_cong)
  show ?case using IH
    by (simp only: tighten_limits_simps tighten_verdict_limits [OF s1] tighten_verdict_verdict [OF s1]
        Min_min_Cons Max_max_Cons b budget_step list.map comp_def list_ex_Cons_iff disj_assoc)
qed

lemma tighten_loop_winner:
  assumes "tighten_loop i rs s = Inr s'"
  shows "winning_rule s' =
    (if effective_verdict s' = effective_verdict s then winning_rule s
     else the (List.find (\<lambda>r. pr_verdict r = effective_verdict s') rs))"
  using assms
proof (induction rs arbitrary: i s)
  case (Cons r rs)
  from Cons.prems obtain s1 where s1: "tighten_verdict i r s = Inr s1"
    and rest: "tighten_loop (Suc i) rs (tighten_limits r s1) = Inr s'"
    by (auto simp: rbind_Inr_iff)
  have le: "VERDICT_PRECEDENCE (effective_verdict s') \<le> VERDICT_PRECEDENCE (effective_verdict s1)"
    using tighten_loop_ok [OF rest] by simp
  show ?case
  proof (cases "VERDICT_PRECEDENCE (pr_verdict r) < VERDICT_PRECEDENCE (effective_verdict s)")
    case True
    then have "s1 = s\<lparr>effective_verdict := pr_verdict r, winning_rule := r\<rparr>"
      using s1 by (simp add: tighten_verdict_def)
    with Cons.IH [OF rest] le True show ?thesis by auto
  next
    case False
    then have e: "effective_verdict s1 = effective_verdict s" "winning_rule s1 = winning_rule s"
      using tighten_verdict_verdict [OF s1] by (auto simp: min_def split: if_splits)
    have "effective_verdict s' = effective_verdict s" if "pr_verdict r = effective_verdict s'"
      using that False le e by (metis le_antisym linorder_not_less verdict_precedence_inj)
    with Cons.IH [OF rest] e show ?thesis by auto
  qed
qed simp

lemma resolve_cases:
  obtains (default) "matching_rules (ancestor_chain reg t n) action = []"
      "resolve E now reg t n action = Inr (default_deny E now action t n)"
  | (conflict) e where "matching_rules (ancestor_chain reg t n) action \<noteq> []"
      "tighten_loop 0 (matching_rules (ancestor_chain reg t n) action)
         (start_resolution (hd (matching_rules (ancestor_chain reg t n) action))) = Inl e"
      "resolve E now reg t n action = Inl e"
  | (resolved) s ep where "matching_rules (ancestor_chain reg t n) action \<noteq> []"
      "tighten_loop 0 (matching_rules (ancestor_chain reg t n) action)
         (start_resolution (hd (matching_rules (ancestor_chain reg t n) action))) = Inr s"
      "resolve E now reg t n action = Inr ep"
      "ep_verdict ep = effective_verdict s" "ep_risk_tier ep = effective_tier s"
      "ep_required_approvers ep = effective_approvers s"
      "ep_two_person_control ep = effective_two_person s"
      "ep_allowed_roles ep = effective_roles s" "ep_max_budget_usd ep = effective_budget s"
      "ep_winning_rule ep = winning_rule s"
      "ep_override_chain ep = matching_rules (ancestor_chain reg t n) action"
proof -
  let ?rules = "matching_rules (ancestor_chain reg t n) action"
  consider "?rules = []" | "?rules \<noteq> []" "ancestor_chain reg t n \<noteq> []"
    by (cases "ancestor_chain reg t n = []") (auto simp: matching_rules_def)
  then show thesis
  proof cases
    case 1
    then have "resolve E now reg t n action = Inr (default_deny E now action t n)"
      by (simp add: resolve_def Let_def)
    with 1 show thesis by (rule default)
  next
    case 2
    show thesis
    proof (cases "tighten_loop 0 ?rules (start_resolution (hd ?rules))")
      case (Inl e)
      with 2 show thesis by (intro conflict [of e]) (simp_all add: resolve_def Let_def)
    next
      case (Inr s)
      with 2 show thesis
        by (intro resolved [of s "projr (resolve E now reg t n action)"])
          (simp_all add: resolve_def Let_def)
    qed
  qed
qed

lemma start_precedence [simp]:
  "effective_verdict (start_resolution r) = ALLOW" "effective_tier (start_resolution r) = TierLow"
  "effective_approvers (start_resolution r) = 0" "effective_two_person (start_resolution r) = False"
  "effective_budget (start_resolution r) = None" "effective_roles (start_resolution r) = []"
  "winning_rule (start_resolution r) = r"
  by (simp_all add: start_resolution_def)

lemma Min_bound_Cons:
  fixes k :: "'a :: linorder"
  assumes "\<forall>x\<in>set xs. x \<le> k" "xs \<noteq> []"
  shows "Min (set (k # xs)) = Min (set xs)"
proof -
  have "Min (set xs) \<le> k" using assms Min_in [of "set xs"] by auto
  then show ?thesis using assms(2) by (simp add: min_absorb2)
qed

lemma find_first_verdict:
  assumes "VERDICT_PRECEDENCE v = Min (set (map (VERDICT_PRECEDENCE \<circ> pr_verdict) rs))" "rs \<noteq> []"
  shows "\<exists>r. List.find (\<lambda>r. pr_verdict r = v) rs = Some r"
proof -
  have "VERDICT_PRECEDENCE v \<in> set (map (VERDICT_PRECEDENCE \<circ> pr_verdict) rs)"
    unfolding assms(1) using assms(2) by (intro Min_in) auto
  then have "\<exists>r\<in>set rs. pr_verdict r = v" by auto
  then show ?thesis by (cases "List.find (\<lambda>r. pr_verdict r = v) rs") (auto simp: find_None_iff)
qed

lemma tighten_loop_tightened:
  assumes "rules \<noteq> []" "tighten_loop 0 rules (start_resolution (hd rules)) = Inr s"
  shows "VERDICT_PRECEDENCE (effective_verdict s) = Min (set (map (VERDICT_PRECEDENCE \<circ> pr_verdict) rules))"
    and "TIER_PRECEDENCE (effective_tier s) = Min (set (map (TIER_PRECEDENCE \<circ> pr_risk_tier) rules))"
    and "List.find (\<lambda>r. pr_verdict r = effective_verdict s) rules = Some (winning_rule s)"
proof -
  note ok = tighten_loop_ok [OF assms(2)]
  show v: "VERDICT_PRECEDENCE (effective_verdict s) = Min (set (map (VERDICT_PRECEDENCE \<circ> pr_verdict) rules))"
    using ok assms(1) Min_bound_Cons [of "map (VERDICT_PRECEDENCE \<circ> pr_verdict) rules" 2] by simp
  show "TIER_PRECEDENCE (effective_tier s) = Min (set (map (TIER_PRECEDENCE \<circ> pr_risk_tier) rules))"
    using ok assms(1) Min_bound_Cons [of "map (TIER_PRECEDENCE \<circ> pr_risk_tier) rules" 3] by simp
  obtain w where w: "List.find (\<lambda>r. pr_verdict r = effective_verdict s) rules = Some w"
    using find_first_verdict [OF v assms(1)] by blast
  show "List.find (\<lambda>r. pr_verdict r = effective_verdict s) rules = Some (winning_rule s)"
  proof (cases "effective_verdict s = ALLOW")
    case True
    have "VERDICT_PRECEDENCE (effective_verdict s) \<le> VERDICT_PRECEDENCE (pr_verdict (hd rules))"
      unfolding v using assms(1) by (intro Min_le) auto
    with True have "pr_verdict (hd rules) = ALLOW" by (cases "pr_verdict (hd rules)") auto
    with True assms(1) show ?thesis using tighten_loop_winner [OF assms(2)] by (cases rules) auto
  next
    case False
    with w show ?thesis using tighten_loop_winner [OF assms(2)] by simp
  qed
qed

text \<open>The roles that every rule with a role list names; the roles a resolved policy admits.\<close>

definition role_in_all :: "policy_rule list \<Rightarrow> string \<Rightarrow> bool" where
  "role_in_all rules x \<longleftrightarrow> (\<forall>r\<in>set rules. pr_allowed_roles r \<noteq> [] \<longrightarrow> x \<in> set (pr_allowed_roles r))"

definition admits_role :: "effective_policy \<Rightarrow> string \<Rightarrow> bool" where
  "admits_role ep x \<longleftrightarrow> ep_allowed_roles ep = [] \<or> x \<in> set (ep_allowed_roles ep)"

lemma tighten_loop_roles:
  assumes "tighten_loop i rs s = Inr s'" "role_in_all rs x"
    and "effective_roles s = [] \<or> x \<in> set (effective_roles s)"
  shows "(effective_roles s' = [] \<or> y \<in> set (effective_roles s')) \<longleftrightarrow>
    (effective_roles s = [] \<or> y \<in> set (effective_roles s)) \<and> role_in_all rs y"
  using assms
proof (induction rs arbitrary: i s)
  case (Cons r rs)
  from Cons.prems(1) obtain s1 where s1: "tighten_verdict i r s = Inr s1"
    and rest: "tighten_loop (Suc i) rs (tighten_limits r s1) = Inr s'"
    by (auto simp: rbind_Inr_iff)
  have x: "role_in_all rs x" "pr_allowed_roles r = [] \<or> x \<in> set (pr_allowed_roles r)"
    using Cons.prems(2) by (auto simp: role_in_all_def)
  let ?roles = "effective_roles (tighten_limits r s1)"
  have roles: "?roles = [] \<or> z \<in> set ?roles \<longleftrightarrow>
      (effective_roles s = [] \<or> z \<in> set (effective_roles s)) \<and>
      (pr_allowed_roles r = [] \<or> z \<in> set (pr_allowed_roles r))" for z
    using x(2) Cons.prems(3)
    by (auto simp: tighten_limits_def tighten_verdict_limits(5) [OF s1] filter_empty_conv)
  have "?roles = [] \<or> x \<in> set ?roles" using roles [of x] x(2) Cons.prems(3) by blast
  from Cons.IH [OF rest x(1) this] roles [of y] show ?case by (auto simp: role_in_all_def)
qed (simp add: role_in_all_def)

text \<open>
  C22. When a policy resolves, no matching rule means the default denial. Otherwise the effective verdict
  and tier are the most restrictive of the matching rules, the approver count their maximum, the
  budget their minimum, two-person control is on when any rule asks for it, the winning rule is
  the first one with the effective verdict, and the audit chain is the list of the rules. A role
  that every rule admits is admitted, and when such a role exists only such roles are.
\<close>

theorem resolve_tightens:
  assumes "resolve E now reg t n action = Inr ep"
    and "rules = matching_rules (ancestor_chain reg t n) action"
  shows "if rules = [] then ep = default_deny E now action t n
    else tightened rules ep \<and> ep_override_chain ep = rules \<and>
      (\<forall>x. role_in_all rules x \<longrightarrow> (\<forall>y. admits_role ep y \<longleftrightarrow> role_in_all rules y))"
proof (cases rule: resolve_cases [of reg t n action E now])
  case (resolved s ep')
  have ep: "ep' = ep" using resolved(3) assms(1) by simp
  note ok = tighten_loop_ok [OF resolved(2)]
    and tight = tighten_loop_tightened [OF resolved(1,2)]
  have "tightened rules ep"
    unfolding tightened_def assms(2)
  proof (intro conjI)
    show "ep_max_budget_usd ep = (case List.map_filter pr_max_budget_usd
        (matching_rules (ancestor_chain reg t n) action) of
        [] \<Rightarrow> None | b # bs \<Rightarrow> Some (Min (set (b # bs))))"
      using resolved(9) ok unfolding ep
      by (auto simp: least_of_def budgets_def split: list.splits)
  qed (use resolved(4-7,10) ok tight in \<open>simp_all add: ep\<close>)
  moreover have "admits_role ep y \<longleftrightarrow> role_in_all rules y" if "role_in_all rules x" for x y
    using tighten_loop_roles [OF resolved(2), of x y] that resolved(8)
    by (simp add: admits_role_def ep assms(2))
  ultimately show ?thesis using resolved(1,11) by (auto simp: assms(2) ep)
qed (use assms in auto)

lemma ex_split_Cons:
  "(\<exists>pre x. (\<exists>post. a # xs = pre @ x # post) \<and> P pre x) \<longleftrightarrow>
   P [] a \<or> (\<exists>pre x. (\<exists>post. xs = pre @ x # post) \<and> P (a # pre) x)"
  by (auto simp: Cons_eq_append_conv)

lemma tighten_loop_conflict:
  "(\<exists>e. tighten_loop (Suc i) rs s = Inl e) \<longleftrightarrow>
   (\<exists>pre r post. rs = pre @ r # post \<and> \<not> truthy (pr_override_justification r) \<and>
      (\<exists>v \<in> insert (effective_verdict s) (pr_verdict ` set pre).
         VERDICT_PRECEDENCE v < VERDICT_PRECEDENCE (pr_verdict r)))"
    (is "?L i rs s \<longleftrightarrow> ?R rs s")
proof (induction rs arbitrary: i s)
  case (Cons r rs)
  let ?now = "\<not> truthy (pr_override_justification r) \<and>
    VERDICT_PRECEDENCE (effective_verdict s) < VERDICT_PRECEDENCE (pr_verdict r)"
  have R: "?R (r # rs) s \<longleftrightarrow> ?now \<or> (\<exists>pre q post. rs = pre @ q # post \<and>
      \<not> truthy (pr_override_justification q) \<and>
      (\<exists>v \<in> insert (effective_verdict s) (insert (pr_verdict r) (pr_verdict ` set pre)).
         VERDICT_PRECEDENCE v < VERDICT_PRECEDENCE (pr_verdict q)))"
    (is "_ \<longleftrightarrow> ?now \<or> ?later") by (simp add: ex_split_Cons)
  show ?case
  proof (cases "tighten_verdict (Suc i) r s")
    case (Inl e)
    then have ?now by (auto simp: tighten_verdict_def split: if_splits)
    with Inl R show ?thesis by auto
  next
    case (Inr s1)
    then have not_now: "\<not> ?now" by (auto simp: tighten_verdict_def split: if_splits)
    have prec: "VERDICT_PRECEDENCE (effective_verdict s1) =
        min (VERDICT_PRECEDENCE (effective_verdict s)) (VERDICT_PRECEDENCE (pr_verdict r))"
      by (rule tighten_verdict_verdict(1) [OF Inr])
    have "?L (Suc i) rs (tighten_limits r s1) \<longleftrightarrow> ?later"
      unfolding Cons.IH by (simp add: prec min_less_iff_disj disj_assoc)
    moreover have "?L i (r # rs) s \<longleftrightarrow> ?L (Suc i) rs (tighten_limits r s1)" by (simp add: Inr)
    ultimately show ?thesis using not_now R by blast
  qed
qed simp

text \<open>
  Resolution raises exactly when some matching rule is more permissive than a rule of an
  ancestor (or an earlier level) and carries no justification: no relaxation goes unnoticed and
  no legal hierarchy is refused.
\<close>

theorem conflict_iff_unjustified_relaxation:
  "(\<exists>e. resolve E now reg t n action = Inl e) \<longleftrightarrow>
   (\<exists>pre r post. matching_rules (ancestor_chain reg t n) action = pre @ r # post \<and>
      \<not> truthy (pr_override_justification r) \<and>
      (\<exists>q\<in>set pre. VERDICT_PRECEDENCE (pr_verdict q) < VERDICT_PRECEDENCE (pr_verdict r)))"
proof -
  let ?rules = "matching_rules (ancestor_chain reg t n) action"
  show ?thesis
  proof (cases ?rules)
    case Nil
    then show ?thesis by (cases rule: resolve_cases [of reg t n action E now]) auto
  next
    case (Cons r rs)
    define s where "s = start_resolution r"
    obtain s1 where s1: "tighten_verdict 0 r s = Inr s1"
      by (cases "tighten_verdict 0 r s") (auto simp: tighten_verdict_def split: if_splits)
    have v: "effective_verdict s1 = pr_verdict r"
    proof -
      have "VERDICT_PRECEDENCE (effective_verdict s1) = VERDICT_PRECEDENCE (pr_verdict r)"
        using tighten_verdict_verdict(1) [OF s1] by (cases "pr_verdict r") (auto simp: s_def)
      then show ?thesis by simp
    qed
    have "(\<exists>e. resolve E now reg t n action = Inl e) \<longleftrightarrow>
        (\<exists>e. tighten_loop (Suc 0) rs (tighten_limits r s1) = Inl e)"
      using s1 Cons
      by (cases rule: resolve_cases [of reg t n action E now]) (auto simp: s_def)
    also have "\<dots> \<longleftrightarrow> (\<exists>pre q post. rs = pre @ q # post \<and> \<not> truthy (pr_override_justification q) \<and>
        (\<exists>v \<in> insert (pr_verdict r) (pr_verdict ` set pre).
           VERDICT_PRECEDENCE v < VERDICT_PRECEDENCE (pr_verdict q)))"
      unfolding tighten_loop_conflict by (simp add: v)
    also have "\<dots> \<longleftrightarrow> (\<exists>pre q post. r # rs = pre @ q # post \<and> \<not> truthy (pr_override_justification q) \<and>
        (\<exists>p\<in>set pre. VERDICT_PRECEDENCE (pr_verdict p) < VERDICT_PRECEDENCE (pr_verdict q)))"
      by (simp add: ex_split_Cons)
    finally show ?thesis by (simp add: Cons)
  qed
qed

text \<open>
  The policy of a tenant depends only on the nodes registered for that tenant: two registries
  that agree on them resolve every action of the tenant alike, whatever other tenants register.
\<close>

theorem tenant_policy_isolated:
  assumes "\<And>n. registry_get reg t n = registry_get reg' t n"
  shows "resolve E now reg t n action = resolve E now reg' t n action"
proof -
  have "ancestor_chain reg t n = ancestor_chain reg' t n"
    unfolding ancestor_chain_def assms ancestor_walk_cong [OF assms] by (rule refl)
  then show ?thesis by (simp add: resolve_def)
qed

lemma registry_get_register:
  "registry_get (register nd reg) t n =
     (if (t, n) = (pn_tenant_id nd, pn_node_id nd) then Some nd else registry_get reg t n)"
  by (simp add: register_def registry_get_def)

subsection \<open>Shadow reports\<close>

definition direction_count :: "string option \<Rightarrow> shadow_result list \<Rightarrow> nat" where
  "direction_count d rs = length (filter (\<lambda>r. sr_change_direction r = d) rs)"

lemma shadow_directions:
  "sr_change_direction (shadow_event E now reg ev) \<in> {None, Some ''tightened'', Some ''relaxed''}"
  by (simp add: shadow_event_def Let_def split: prod.splits)

lemma shadow_loop_counts:
  "rp_results (shadow_loop E now reg evs rp) = rp_results rp @ map (shadow_event E now reg) evs \<and>
   rp_n_unchanged (shadow_loop E now reg evs rp) =
     rp_n_unchanged rp + direction_count None (map (shadow_event E now reg) evs) \<and>
   rp_n_tightened (shadow_loop E now reg evs rp) =
     rp_n_tightened rp + direction_count (Some ''tightened'') (map (shadow_event E now reg) evs) \<and>
   rp_n_relaxed (shadow_loop E now reg evs rp) =
     rp_n_relaxed rp + direction_count (Some ''relaxed'') (map (shadow_event E now reg) evs) \<and>
   rp_n_events (shadow_loop E now reg evs rp) = rp_n_events rp"
proof (induction evs arbitrary: rp)
  case (Cons ev evs)
  consider "sr_change_direction (shadow_event E now reg ev) = None"
    | "sr_change_direction (shadow_event E now reg ev) = Some ''tightened''"
    | "sr_change_direction (shadow_event E now reg ev) = Some ''relaxed''"
    using shadow_directions [of E now reg ev] by auto
  then show ?case by cases (simp_all add: Cons.IH direction_count_def Let_def)
qed (simp add: direction_count_def)

lemma shadow_direction_iff:
  "sr_change_direction (shadow_event E now reg ev) =
     (let v = sr_shadow_verdict (shadow_event E now reg ev) in
      if v = he_recorded_verdict ev then None
      else if verdict_rank v < verdict_rank (he_recorded_verdict ev) then Some ''tightened''
      else Some ''relaxed'')"
  by (simp add: shadow_event_def Let_def split: prod.splits)

text \<open>
  A shadow report has one result per event, in order, its three counters are the numbers of
  results in each direction and add up to the number of events; the verdict it reports for an event is
  the one the candidate registry resolves to, or a denial where resolution raises.
\<close>

theorem shadow_report_counts:
  "let rp = shadow_evaluate E now events reg pid; results = map (shadow_event E now reg) events in
     rp_results rp = results \<and>
     rp_n_unchanged rp = direction_count None results \<and>
     rp_n_tightened rp = direction_count (Some ''tightened'') results \<and>
     rp_n_relaxed rp = direction_count (Some ''relaxed'') results \<and>
     rp_n_unchanged rp + rp_n_tightened rp + rp_n_relaxed rp = rp_n_events rp \<and>
     map sr_shadow_verdict results =
       map (\<lambda>ev. case resolve E now reg (he_tenant_id ev) (he_node_id ev) (he_action ev) of
                   Inr ep \<Rightarrow> verdict_value (ep_verdict ep) | Inl _ \<Rightarrow> ''deny'') events"
proof -
  have sum: "direction_count None rs + direction_count (Some ''tightened'') rs +
      direction_count (Some ''relaxed'') rs = length rs"
    if "\<forall>r\<in>set rs. sr_change_direction r \<in> {None, Some ''tightened'', Some ''relaxed''}" for rs
    using that by (induction rs) (auto simp: direction_count_def)
  have dirs: "\<forall>r\<in>set (map (shadow_event E now reg) events).
      sr_change_direction r \<in> {None, Some ''tightened'', Some ''relaxed''}"
    using shadow_directions by auto
  have "sr_shadow_verdict (shadow_event E now reg ev) =
      (case resolve E now reg (he_tenant_id ev) (he_node_id ev) (he_action ev) of
         Inr ep \<Rightarrow> verdict_value (ep_verdict ep) | Inl _ \<Rightarrow> ''deny'')" for ev
    by (auto simp: shadow_event_def Let_def split: prod.splits sum.splits conflict_error.splits)
  with sum [OF dirs] show ?thesis
    by (simp add: shadow_evaluate_def shadow_loop_counts Let_def)
qed

subsection \<open>The gate agrees with the tier registry\<close>

lemma gate_lists_tiers:
  "list_all (\<lambda>a. map_of ACTION_TIER_MAP a = Some TierLow) ALWAYS_ALLOW_ACTIONS"
  "list_all (\<lambda>a. map_of ACTION_TIER_MAP a = Some TierCritical) ALWAYS_DENY_ACTIONS"
  "list_all (\<lambda>a. map_of ACTION_TIER_MAP a \<in> {Some TierMedium, Some TierHigh}) NEEDS_APPROVAL_ACTIONS"
  by code_simp+

text \<open>
  The stand-alone gate is default-deny and never weaker than the tier registry: what it allows is
  of tier LOW, a CRITICAL action is denied, and a HIGH action is never allowed; it asks for approval
  exactly on its approval list, where no action is CRITICAL.
\<close>

theorem gate_agrees_with_tiers:
  "(ps_action (evaluate_policy a) = ALLOW \<longrightarrow> get_tier a = TierLow) \<and>
   (get_tier a = TierCritical \<longrightarrow> ps_action (evaluate_policy a) = DENY) \<and>
   (get_tier a = TierHigh \<longrightarrow> ps_action (evaluate_policy a) \<noteq> ALLOW) \<and>
   (py_lower a \<notin> dom (map_of ACTION_TIER_MAP) \<longrightarrow> ps_rule_id (evaluate_policy a) = ''DEFAULT_DENY'') \<and>
   (ps_requires_human_approval (evaluate_policy a) \<longleftrightarrow> ps_action (evaluate_policy a) = NEEDS_APPROVAL)"
  using gate_lists_tiers
  by (auto simp: evaluate_policy_def get_tier_def Let_def list_all_iff)

subsection \<open>Concrete hierarchies\<close>

definition policy_env :: env where
  "policy_env = \<lparr>sha256 = (\<lambda>m. m), float_repr = ratio_repr, iso = int_str,
     ed25519_verify = (\<lambda>_ _ _. EdInvalidSignature), ed25519_sign = (\<lambda>k m. k @ m),
     hmac_sha256 = (\<lambda>k m. k @ m), b64_encode = (\<lambda>x. x), b64_decode = Some\<rparr>"

definition demo_rule :: "rule_verdict \<Rightarrow> int \<Rightarrow> rat option \<Rightarrow> string list \<Rightarrow> string \<Rightarrow> policy_rule" where
  "demo_rule v k b roles rid =
     \<lparr>pr_action_pattern = ''apply.*'', pr_verdict = v, pr_risk_tier = TierHigh,
      pr_required_approvers = k, pr_two_person_control = False, pr_allowed_roles = roles,
      pr_max_budget_usd = b, pr_data_retention_days = None, pr_rationale = [],
      pr_source_level = ORGANIZATION, pr_override_justification = None, pr_override_metadata = [],
      pr_rule_id = rid, pr_created_at = 0, pr_version = rid\<rparr>"

definition demo_node :: "string \<Rightarrow> string option \<Rightarrow> policy_rule list \<Rightarrow> policy_node" where
  "demo_node nid p rs =
     \<lparr>pn_node_id = nid, pn_level = AGENT, pn_tenant_id = ''t'', pn_parent_id = p, pn_rules = rs,
      pn_is_active = True, pn_schema_version = ''v1.0'', pn_created_at = 0, pn_updated_at = 0\<rparr>"

text \<open>Two nodes that are each other's parent, with a rule each.\<close>

definition demo_registry :: registry where
  "demo_registry =
     register (demo_node ''agent'' (Some ''org'') [demo_rule NEEDS_APPROVAL 2 (Some 5) [''ops''] ''r2''])
       (register (demo_node ''org'' (Some ''agent'') [demo_rule ALLOW 1 (Some 9) [''dev'', ''ops''] ''r1'']) [])"

lemmas demo_policy_defs = demo_registry_def register_def demo_node_def demo_rule_def registry_get_def

lemma demo_get:
  "registry_get demo_registry ''t'' ''agent'' =
     Some (demo_node ''agent'' (Some ''org'') [demo_rule NEEDS_APPROVAL 2 (Some 5) [''ops''] ''r2''])"
  "registry_get demo_registry ''t'' ''org'' =
     Some (demo_node ''org'' (Some ''agent'') [demo_rule ALLOW 1 (Some 9) [''dev'', ''ops''] ''r1''])"
  by (simp_all add: demo_policy_defs)

lemma demo_chain:
  "map pn_node_id (ancestor_chain demo_registry ''t'' ''agent'') = [''org'', ''agent'']"
  by (simp add: ancestor_chain_def demo_get) (simp add: demo_node_def demo_get)

theorem ancestor_chain_ok_witness:
  "registry_get demo_registry ''t'' ''agent'' \<noteq> None \<and>
   distinct (map pn_node_id (ancestor_chain demo_registry ''t'' ''agent''))"
  using ancestor_chain_ok [OF demo_get(1)] by (simp add: demo_get)

lemma demo_rules:
  "matching_rules (ancestor_chain demo_registry ''t'' ''agent'') ''apply.fix'' =
     [demo_rule ALLOW 1 (Some 9) [''dev'', ''ops''] ''r1'', demo_rule NEEDS_APPROVAL 2 (Some 5) [''ops''] ''r2'']"
  by (simp add: ancestor_chain_def demo_get)
    (simp add: demo_node_def demo_get matching_rules_def get_rule_for_action_def action_matches_def
      endswith_def startswith_def demo_rule_def)

lemma demo_resolve:
  "\<exists>ep. resolve policy_env now demo_registry ''t'' ''agent'' ''apply.fix'' = Inr ep \<and>
     ep_verdict ep = NEEDS_APPROVAL \<and> ep_required_approvers ep = 2 \<and> ep_allowed_roles ep = [''ops'']"
proof -
  have "ancestor_chain demo_registry ''t'' ''agent'' \<noteq> []" using demo_chain by auto
  then show ?thesis
    by (simp add: resolve_def Let_def demo_rules)
      (simp add: demo_rule_def tighten_verdict_def start_resolution_def tighten_limits_def)
qed

theorem resolve_tightens_witness:
  "\<exists>ep. resolve policy_env 0 demo_registry ''t'' ''agent'' ''apply.fix'' = Inr ep \<and>
     ep_verdict ep = NEEDS_APPROVAL \<and> ep_required_approvers ep = 2 \<and> ep_max_budget_usd ep = Some 5"
proof -
  obtain ep where ep: "resolve policy_env 0 demo_registry ''t'' ''agent'' ''apply.fix'' = Inr ep"
    using demo_resolve by blast
  have t: "tightened [demo_rule ALLOW 1 (Some 9) [''dev'', ''ops''] ''r1'',
      demo_rule NEEDS_APPROVAL 2 (Some 5) [''ops''] ''r2''] ep"
    using resolve_tightens [OF ep demo_rules [symmetric]] by simp
  then have "ep_verdict ep = NEEDS_APPROVAL"
    by (cases "ep_verdict ep") (simp_all add: tightened_def demo_rule_def)
  with t ep show ?thesis by (auto simp: tightened_def demo_rule_def List.map_filter_simps)
qed

theorem tenant_policy_isolated_witness:
  "resolve policy_env 0 demo_registry ''t'' ''agent'' ''apply.fix'' =
     resolve policy_env 0 (register ((demo_node ''org'' None [])\<lparr>pn_tenant_id := ''u''\<rparr>) demo_registry)
       ''t'' ''agent'' ''apply.fix''"
  by (rule tenant_policy_isolated) (simp add: registry_get_register demo_node_def)

text \<open>
  Role lists with no common role combine to the empty list, which a caller reads as no
  restriction: the combination of two restrictions can be weaker than either.
\<close>

lemma disjoint_roles_unrestricted:
  "\<exists>s. tighten_loop 0 [demo_rule ALLOW 0 None [''dev''] ''r1'', demo_rule ALLOW 0 None [''ops''] ''r2'']
         (start_resolution (demo_rule ALLOW 0 None [''dev''] ''r1'')) = Inr s \<and> effective_roles s = []"
  by (simp add: demo_rule_def tighten_verdict_def start_resolution_def tighten_limits_def)

theorem gate_agrees_with_tiers_witness:
  "get_tier ''delete_memory'' = TierCritical \<and> ps_action (evaluate_policy ''delete_memory'') = DENY"
proof -
  have "get_tier ''delete_memory'' = TierCritical"
    by (simp add: get_tier_def ACTION_TIER_MAP_def py_lower_def lower_char_def)
  with gate_agrees_with_tiers [of "''delete_memory''"] show ?thesis by blast
qed

end
