(* ===== verification/Approvals.thy ===== *)
theory Approvals
  imports Crypto_Env
begin

section \<open>The approval service\<close>

text \<open>
  \<open>packages/policy/src/approvals.py\<close>: requests for approval, the decisions on them, the audit
  log, and the operations create, approve, deny, break-glass and expire. The requests are the
  values of a dict keyed by identifier; an operation that mutates a stored request writes it
  back under its key. An operation returns its outcome and the new service, since expiry on
  access changes the state before the exception is raised. A call reads the clock several
  times, for the check of the expiry, for the time of a decision and for each audit entry: the argument
  \<open>clk\<close> gives the readings of one call in their order. The identifier of a new decision is an argument.

  The names of the audit events are a datatype (one of them is not a Latin-1 text in the source).
\<close>

datatype approval_status = PENDING | APPROVED | DENIED | EXPIRED | BREAK_GLASS

record approval_decision =
  ad_request_id :: string
  ad_actor_id :: string
  ad_decision :: approval_status
  ad_comment :: string
  ad_decided_at :: int
  ad_decision_id :: string
  ad_is_break_glass :: bool
  ad_break_glass_justification :: "string option"

record approval_request =
  aq_action :: string
  aq_resource :: string
  aq_requester_id :: string
  aq_tenant_id :: string
  aq_node_id :: string
  aq_risk_tier :: string
  aq_required_approvers :: int
  aq_two_person_control :: bool
  aq_request_id :: string
  aq_status :: approval_status
  aq_created_at :: int
  aq_expires_at :: int
  aq_delegated_approvers :: "string list"
  aq_approvals :: "approval_decision list"
  aq_context :: "(string \<times> json) list"

datatype audit_kind = EvCreated | EvApproved | EvStatusApproved | EvDenied | EvBreakGlass | EvExpired

record audit_entry =
  au_request_id :: string
  au_event :: audit_kind
  au_actor_id :: string
  au_detail :: string
  au_timestamp :: string
  au_requires_post_hoc_review :: bool

record approval_service =
  ap_requests :: "(string \<times> approval_request) list"
  ap_audit_log :: "audit_entry list"

datatype approval_error =
    RequestNotFound
  | SelfApprovalError
  | ApprovalExpiredError approval_status
  | UnauthorizedApproverError
  | JustificationTooShort

definition new_service :: approval_service where
  "new_service = \<lparr>ap_requests = [], ap_audit_log = []\<rparr>"

subsection \<open>Internals\<close>

definition audit :: "env \<Rightarrow> int \<Rightarrow> string \<Rightarrow> audit_kind \<Rightarrow> string \<Rightarrow> string \<Rightarrow> bool \<Rightarrow>
    approval_service \<Rightarrow> approval_service" where
  "audit E now rid ev actor detail review s =
     s\<lparr>ap_audit_log := ap_audit_log s @
        [\<lparr>au_request_id = rid, au_event = ev, au_actor_id = actor, au_detail = detail,
          au_timestamp = iso E now, au_requires_post_hoc_review = review\<rparr>]\<rparr>"

definition put_request :: "string \<Rightarrow> approval_request \<Rightarrow> approval_service \<Rightarrow> approval_service" where
  "put_request rid r s = s\<lparr>ap_requests := dict_put rid r (ap_requests s)\<rparr>"

definition get_request :: "approval_service \<Rightarrow> string \<Rightarrow> approval_request option" where
  "get_request s rid = map_of (ap_requests s) rid"

definition get_active :: "env \<Rightarrow> (nat \<Rightarrow> int) \<Rightarrow> string \<Rightarrow> approval_service \<Rightarrow>
    (approval_error, approval_request) result \<times> approval_service" where
  "get_active E clk rid s =
     (case get_request s rid of
        None \<Rightarrow> (Inl RequestNotFound, s)
      | Some req \<Rightarrow>
          let (req', s') =
            (if aq_status req = PENDING \<and> aq_expires_at req < clk 0
             then let r = req\<lparr>aq_status := EXPIRED\<rparr> in
                  (r, audit E (clk 1) rid EvExpired ''system'' ''TTL exceeded on access'' False (put_request rid r s))
             else (req, s)) in
          if aq_status req' \<in> {APPROVED, DENIED, EXPIRED, BREAK_GLASS}
          then (Inl (ApprovalExpiredError (aq_status req')), s')
          else (Inr req', s'))"

definition check_not_self_approval :: "approval_request \<Rightarrow> string \<Rightarrow> (approval_error, unit) result" where
  "check_not_self_approval req actor =
     (if actor = aq_requester_id req then Inl SelfApprovalError else Inr ())"

definition check_actor_authorized :: "approval_request \<Rightarrow> string \<Rightarrow> (approval_error, unit) result" where
  "check_actor_authorized req actor =
     (if aq_delegated_approvers req \<noteq> [] \<and> actor \<notin> set (aq_delegated_approvers req)
      then Inl UnauthorizedApproverError else Inr ())"

subsection \<open>Operations\<close>

definition create_request ::
    "env \<Rightarrow> int \<Rightarrow> approval_request \<Rightarrow> approval_service \<Rightarrow> approval_request \<times> approval_service" where
  "create_request E now r s =
     (r, audit E now (aq_request_id r) EvCreated (aq_requester_id r)
           (''Action='' @ aq_action r @ '' Tier='' @ aq_risk_tier r) False
           (put_request (aq_request_id r) r s))"

text \<open>The set of distinct actors with an approving decision.\<close>

definition approved_by :: "approval_request \<Rightarrow> string set" where
  "approved_by r = set (map ad_actor_id (filter (\<lambda>d. ad_decision d = APPROVED) (aq_approvals r)))"

definition approve :: "env \<Rightarrow> (nat \<Rightarrow> int) \<Rightarrow> string \<Rightarrow> string \<Rightarrow> string \<Rightarrow> string \<Rightarrow> approval_service \<Rightarrow>
    (approval_error, approval_request) result \<times> approval_service" where
  "approve E clk did rid actor comment s =
     (case get_active E clk rid s of
        (Inl e, s1) \<Rightarrow> (Inl e, s1)
      | (Inr req, s1) \<Rightarrow>
          case rbind (check_actor_authorized req actor) (\<lambda>_. check_not_self_approval req actor) of
            Inl e \<Rightarrow> (Inl e, s1)
          | Inr _ \<Rightarrow>
              let d = \<lparr>ad_request_id = rid, ad_actor_id = actor, ad_decision = APPROVED,
                       ad_comment = comment, ad_decided_at = clk 1, ad_decision_id = did,
                       ad_is_break_glass = False, ad_break_glass_justification = None\<rparr>;
                  req1 = req\<lparr>aq_approvals := aq_approvals req @ [d]\<rparr>;
                  s2 = audit E (clk 2) rid EvApproved actor comment False (put_request rid req1 s1) in
              if aq_required_approvers req1 \<le> int (card (approved_by req1))
              then let req2 = req1\<lparr>aq_status := APPROVED\<rparr> in
                (Inr req2,
                 audit E (clk 3) rid EvStatusApproved ''system''
                   (''Reached '' @ int_str (aq_required_approvers req1) @ '' approver(s)'') False
                   (put_request rid req2 s2))
              else (Inr req1, s2))"

definition deny :: "env \<Rightarrow> (nat \<Rightarrow> int) \<Rightarrow> string \<Rightarrow> string \<Rightarrow> string \<Rightarrow> string \<Rightarrow> approval_service \<Rightarrow>
    (approval_error, approval_request) result \<times> approval_service" where
  "deny E clk did rid actor comment s =
     (case get_active E clk rid s of
        (Inl e, s1) \<Rightarrow> (Inl e, s1)
      | (Inr req, s1) \<Rightarrow>
          case check_actor_authorized req actor of
            Inl e \<Rightarrow> (Inl e, s1)
          | Inr _ \<Rightarrow>
              let d = \<lparr>ad_request_id = rid, ad_actor_id = actor, ad_decision = DENIED,
                       ad_comment = comment, ad_decided_at = clk 1, ad_decision_id = did,
                       ad_is_break_glass = False, ad_break_glass_justification = None\<rparr>;
                  req1 = req\<lparr>aq_approvals := aq_approvals req @ [d], aq_status := DENIED\<rparr> in
              (Inr req1, audit E (clk 2) rid EvDenied actor comment False (put_request rid req1 s1)))"

definition break_glass :: "env \<Rightarrow> (nat \<Rightarrow> int) \<Rightarrow> string \<Rightarrow> string \<Rightarrow> string \<Rightarrow> string \<Rightarrow> approval_service \<Rightarrow>
    (approval_error, approval_request) result \<times> approval_service" where
  "break_glass E clk did rid actor justification s =
     (case get_request s rid of
        None \<Rightarrow> (Inl RequestNotFound, s)
      | Some req \<Rightarrow>
          case check_not_self_approval req actor of
            Inl e \<Rightarrow> (Inl e, s)
          | Inr _ \<Rightarrow>
              if justification = [] \<or> length (py_strip justification) < 20
              then (Inl JustificationTooShort, s)
              else
                let d = \<lparr>ad_request_id = rid, ad_actor_id = actor, ad_decision = APPROVED,
                         ad_comment = ''BREAK_GLASS: '' @ justification, ad_decided_at = clk 0,
                         ad_decision_id = did, ad_is_break_glass = True,
                         ad_break_glass_justification = Some justification\<rparr>;
                    req1 = req\<lparr>aq_approvals := aq_approvals req @ [d], aq_status := BREAK_GLASS\<rparr> in
                (Inr req1, audit E (clk 1) rid EvBreakGlass actor justification True (put_request rid req1 s)))"

definition is_stale :: "int \<Rightarrow> approval_request \<Rightarrow> bool" where
  "is_stale now r \<longleftrightarrow> aq_status r = PENDING \<and> aq_expires_at r < now"

text \<open>The loop of \<open>expire_stale\<close> over the values of the dict, in order.\<close>

fun expire_loop :: "env \<Rightarrow> (nat \<Rightarrow> int) \<Rightarrow> nat \<Rightarrow> (string \<times> approval_request) list \<Rightarrow> approval_service \<Rightarrow>
    string list \<times> approval_service" where
  "expire_loop E clk n [] s = ([], s)"
| "expire_loop E clk n ((k, r) # rs) s =
     (if is_stale (clk 0) r
      then let s1 = audit E (clk (Suc n)) (aq_request_id r) EvExpired ''system'' ''TTL exceeded'' False
                      (put_request k (r\<lparr>aq_status := EXPIRED\<rparr>) s);
               (ids, s2) = expire_loop E clk (Suc n) rs s1 in
           (aq_request_id r # ids, s2)
      else expire_loop E clk n rs s)"

definition expire_stale :: "env \<Rightarrow> (nat \<Rightarrow> int) \<Rightarrow> approval_service \<Rightarrow> string list \<times> approval_service" where
  "expire_stale E clk s = expire_loop E clk 0 (ap_requests s) s"

definition pending_for_tenant :: "approval_service \<Rightarrow> string \<Rightarrow> approval_request list" where
  "pending_for_tenant s tenant_id =
     filter (\<lambda>r. aq_tenant_id r = tenant_id \<and> aq_status r = PENDING) (map snd (ap_requests s))"

subsection \<open>What every call keeps\<close>

text \<open>
  Every call of the service, with any arguments and any outcome; a created request is one that
  the constructor's defaults give: pending and with no decisions. The \<open>slack\<close> bounds the time that passes, by the
  clock, between the check of the expiry and the later readings of one \<open>approve\<close>.
\<close>

definition fresh_request :: "approval_request \<Rightarrow> bool" where
  "fresh_request r \<longleftrightarrow> aq_status r = PENDING \<and> aq_approvals r = []"

inductive approval_step :: "env \<Rightarrow> int \<Rightarrow> approval_service \<Rightarrow> approval_service \<Rightarrow> bool" for E slack where
  create: "fresh_request r \<Longrightarrow> approval_step E slack s (snd (create_request E now r s))"
| approve: "(\<And>k. clk k \<le> clk 0 + slack) \<Longrightarrow> approval_step E slack s (snd (approve E clk did rid actor comment s))"
| deny: "approval_step E slack s (snd (deny E clk did rid actor comment s))"
| break_glass: "approval_step E slack s (snd (break_glass E clk did rid actor just s))"
| expire: "approval_step E slack s (snd (expire_stale E clk s))"

definition decision_ok :: "approval_request \<Rightarrow> approval_decision \<Rightarrow> bool" where
  "decision_ok r d \<longleftrightarrow> (ad_decision d = APPROVED \<longrightarrow>
     ad_actor_id d \<noteq> aq_requester_id r \<and>
     (\<not> ad_is_break_glass d \<longrightarrow>
        aq_delegated_approvers r = [] \<or> ad_actor_id d \<in> set (aq_delegated_approvers r)))"

definition reviewed :: "audit_entry list \<Rightarrow> string \<Rightarrow> approval_request \<Rightarrow> bool" where
  "reviewed lg rid r \<longleftrightarrow>
     (\<exists>d\<in>set (aq_approvals r). \<exists>j. ad_is_break_glass d \<and> ad_actor_id d \<noteq> aq_requester_id r \<and>
        ad_break_glass_justification d = Some j \<and> 20 \<le> length (py_strip j) \<and>
        (\<exists>e\<in>set lg. au_request_id e = rid \<and> au_event e = EvBreakGlass \<and>
           au_actor_id e = ad_actor_id d \<and> au_detail e = j \<and> au_requires_post_hoc_review e))"

definition quorum :: "approval_request \<Rightarrow> bool" where
  "quorum r \<longleftrightarrow> approved_by r \<noteq> {} \<and> aq_required_approvers r \<le> int (card (approved_by r)) \<and>
     (\<forall>d\<in>set (aq_approvals r). ad_decision d = APPROVED \<and> \<not> ad_is_break_glass d)"

definition request_ok :: "audit_entry list \<Rightarrow> string \<Rightarrow> approval_request \<Rightarrow> bool" where
  "request_ok lg k r \<longleftrightarrow> aq_request_id r = k \<and>
     (\<forall>d\<in>set (aq_approvals r). decision_ok r d) \<and>
     (aq_status r = PENDING \<longrightarrow>
        (\<forall>d\<in>set (aq_approvals r). ad_decision d = APPROVED \<and> \<not> ad_is_break_glass d)) \<and>
     (aq_status r = APPROVED \<longrightarrow> quorum r) \<and>
     (aq_status r = BREAK_GLASS \<longrightarrow> reviewed lg k r)"

definition service_ok :: "approval_service \<Rightarrow> bool" where
  "service_ok s \<longleftrightarrow> (\<forall>(k, r)\<in>set (ap_requests s). request_ok (ap_audit_log s) k r)"

text \<open>An approval is recorded by a call that still found the request unexpired.\<close>

definition in_time :: "int \<Rightarrow> approval_service \<Rightarrow> bool" where
  "in_time slack s \<longleftrightarrow> (\<forall>(k, r)\<in>set (ap_requests s). \<forall>d\<in>set (aq_approvals r).
     ad_decision d = APPROVED \<and> \<not> ad_is_break_glass d \<longrightarrow> ad_decided_at d \<le> aq_expires_at r + slack)"

text \<open>The audit log of the second state extends that of the first.\<close>

definition log_extends :: "approval_service \<Rightarrow> approval_service \<Rightarrow> bool" where
  "log_extends s t \<longleftrightarrow> (\<exists>es. ap_audit_log t = ap_audit_log s @ es)"

lemma set_dict_put: "set (dict_put k v d) \<subseteq> insert (k, v) (set d)"
  by (induction k v d rule: dict_put.induct) auto

lemma reviewed_mono: "reviewed lg k r \<Longrightarrow> reviewed (lg @ es) k r"
  unfolding reviewed_def by fastforce

lemma request_ok_mono: "request_ok lg k r \<Longrightarrow> request_ok (lg @ es) k r"
  unfolding request_ok_def using reviewed_mono by blast

lemma audit_simps [simp]:
  "ap_requests (audit E now rid ev actor detail review s) = ap_requests s"
  "ap_requests (put_request rid r s) = dict_put rid r (ap_requests s)"
  "ap_audit_log (put_request rid r s) = ap_audit_log s"
  by (simp_all add: audit_def put_request_def)

lemma log_extends_refl [simp]: "log_extends s s"
  by (simp add: log_extends_def)

lemma log_extends_trans [trans]: "log_extends s t \<Longrightarrow> log_extends t u \<Longrightarrow> log_extends s u"
  by (auto simp: log_extends_def)

lemma log_extends_audit [intro]:
  "log_extends s t \<Longrightarrow> log_extends s (audit E now rid ev actor detail review t)"
  by (auto simp: log_extends_def audit_def)

lemma log_extends_put_audit [intro!]:
  "log_extends s t \<Longrightarrow> log_extends s (audit E now rid ev actor detail review (put_request k r t))"
  by (auto simp: log_extends_def audit_def put_request_def)

lemma log_extends_put [simp]:
  "log_extends s (put_request rid r t) = log_extends s t"
  "log_extends (put_request rid r s) t = log_extends s t"
  by (simp_all add: log_extends_def)

lemma service_ok_lookup:
  "service_ok s \<Longrightarrow> get_request s rid = Some r \<Longrightarrow> request_ok (ap_audit_log s) rid r"
  by (auto simp: service_ok_def get_request_def dest!: map_of_SomeD)

text \<open>Writing back one request, with audit entries appended.\<close>

lemma service_ok_put:
  assumes "service_ok s" "set (ap_requests t) \<subseteq> insert (rid, r) (set (ap_requests s))"
    and "log_extends s t" "request_ok (ap_audit_log t) rid r"
  shows "service_ok t"
proof -
  obtain es where es: "ap_audit_log t = ap_audit_log s @ es"
    using assms(3) by (auto simp: log_extends_def)
  have "request_ok (ap_audit_log t) k q" if "(k, q) \<in> set (ap_requests t)" for k q
  proof (cases "(k, q) = (rid, r)")
    case False
    with that assms(1,2) have "request_ok (ap_audit_log s) k q" by (auto simp: service_ok_def)
    then show ?thesis unfolding es by (rule request_ok_mono)
  qed (use assms(4) in simp)
  then show ?thesis by (auto simp: service_ok_def)
qed

lemma service_ok_put_audit:
  assumes "service_ok s"
    and "request_ok (ap_audit_log (audit E now rid' ev actor detail review s)) rid r"
  shows "service_ok (audit E now rid' ev actor detail review (put_request rid r s))"
proof (rule service_ok_put [OF assms(1)])
  show "set (ap_requests (audit E now rid' ev actor detail review (put_request rid r s))) \<subseteq>
      insert (rid, r) (set (ap_requests s))" by (simp add: set_dict_put)
  show "log_extends s (audit E now rid' ev actor detail review (put_request rid r s))"
    by (simp add: log_extends_def audit_def put_request_def)
  show "request_ok (ap_audit_log (audit E now rid' ev actor detail review (put_request rid r s))) rid r"
    using assms(2) by (simp add: audit_def put_request_def)
qed

lemma request_ok_audit:
  "request_ok (ap_audit_log s) k r \<Longrightarrow>
   request_ok (ap_audit_log (audit E now rid ev actor detail review s)) k r"
  by (simp add: audit_def request_ok_mono)

lemma request_ok_expired: "request_ok lg k r \<Longrightarrow> request_ok lg k (r\<lparr>aq_status := EXPIRED\<rparr>)"
  by (auto simp: request_ok_def decision_ok_def)

subsection \<open>Outcomes of the active check\<close>

lemma get_active_cases:
  obtains (missing) "get_request s rid = None" "get_active E clk rid s = (Inl RequestNotFound, s)"
  | (stale) r s' where "get_request s rid = Some r" "is_stale (clk 0) r"
      "s' = audit E (clk 1) rid EvExpired ''system'' ''TTL exceeded on access'' False
              (put_request rid (r\<lparr>aq_status := EXPIRED\<rparr>) s)"
      "get_active E clk rid s = (Inl (ApprovalExpiredError EXPIRED), s')"
  | (decided) r where "get_request s rid = Some r" "aq_status r \<noteq> PENDING"
      "get_active E clk rid s = (Inl (ApprovalExpiredError (aq_status r)), s)"
  | (active) r where "get_request s rid = Some r" "aq_status r = PENDING" "clk 0 \<le> aq_expires_at r"
      "get_active E clk rid s = (Inr r, s)"
proof (cases "get_request s rid")
  case None
  then show thesis by (intro missing) (simp_all add: get_active_def)
next
  case (Some r)
  show thesis
  proof (cases "aq_status r = PENDING")
    case True
    show thesis
    proof (cases "aq_expires_at r < clk 0")
      case exp: True
      with Some True show thesis
        by (intro stale [of r]) (simp_all add: get_active_def is_stale_def Let_def)
    next
      case False
      with Some True show thesis by (intro active [of r]) (simp_all add: get_active_def)
    qed
  next
    case False
    then have "aq_status r \<in> {APPROVED, DENIED, EXPIRED, BREAK_GLASS}"
      by (cases "aq_status r") auto
    with False Some show thesis by (intro decided [of r]) (simp_all add: get_active_def)
  qed
qed

lemma get_active_error_ok:
  assumes "service_ok s" "get_active E clk rid s = (Inl e, s')"
  shows "service_ok s' \<and> log_extends s s'"
  using assms
  by (cases rule: get_active_cases [of s rid E clk])
    (auto intro!: service_ok_put_audit request_ok_audit request_ok_expired dest: service_ok_lookup)

subsection \<open>Every call keeps the invariant and the log\<close>

lemma dict_put_twice [simp]: "dict_put k v (dict_put k w d) = dict_put k v d"
  by (induction k w d rule: dict_put.induct) auto

lemma approved_by_status [simp]: "approved_by (r\<lparr>aq_status := st\<rparr>) = approved_by r"
  by (simp add: approved_by_def)

lemma mem_approved_by:
  "x \<in> approved_by r \<longleftrightarrow> (\<exists>d\<in>set (aq_approvals r). ad_decision d = APPROVED \<and> ad_actor_id d = x)"
  by (auto simp: approved_by_def)

lemma approved_by_snoc [simp]:
  "ad_decision d = APPROVED \<Longrightarrow>
   approved_by (r\<lparr>aq_approvals := aq_approvals r @ [d]\<rparr>) = insert (ad_actor_id d) (approved_by r)"
  by (auto simp: approved_by_def)

text \<open>The request after one more approving decision.\<close>

definition add_approval :: "int \<Rightarrow> string \<Rightarrow> string \<Rightarrow> string \<Rightarrow> string \<Rightarrow> approval_request \<Rightarrow> approval_request" where
  "add_approval now did rid actor comment r =
     (let r1 = r\<lparr>aq_approvals := aq_approvals r @
            [\<lparr>ad_request_id = rid, ad_actor_id = actor, ad_decision = APPROVED, ad_comment = comment,
              ad_decided_at = now, ad_decision_id = did, ad_is_break_glass = False,
              ad_break_glass_justification = None\<rparr>]\<rparr> in
      if aq_required_approvers r1 \<le> int (card (approved_by r1)) then r1\<lparr>aq_status := APPROVED\<rparr> else r1)"

text \<open>Who may approve a pending request.\<close>

definition may_approve :: "approval_request \<Rightarrow> string \<Rightarrow> bool" where
  "may_approve r actor \<longleftrightarrow> actor \<noteq> aq_requester_id r \<and>
     (aq_delegated_approvers r = [] \<or> actor \<in> set (aq_delegated_approvers r))"

lemma approve_cases:
  obtains (refused) e s' where "get_active E clk rid s = (Inl e, s')"
      "approve E clk did rid actor comment s = (Inl e, s')"
  | (forbidden) r e where "get_active E clk rid s = (Inr r, s)" "\<not> may_approve r actor"
      "approve E clk did rid actor comment s = (Inl e, s)"
      "e = (if aq_delegated_approvers r \<noteq> [] \<and> actor \<notin> set (aq_delegated_approvers r)
            then UnauthorizedApproverError else SelfApprovalError)"
  | (recorded) r s' where "get_active E clk rid s = (Inr r, s)" "may_approve r actor"
      "aq_status r = PENDING" "clk 0 \<le> aq_expires_at r"
      "approve E clk did rid actor comment s = (Inr (add_approval (clk 1) did rid actor comment r), s')"
      "ap_requests s' = dict_put rid (add_approval (clk 1) did rid actor comment r) (ap_requests s)"
      "log_extends s s'"
proof (cases rule: get_active_cases [of s rid E clk])
  case (active r)
  show thesis
  proof (cases "may_approve r actor")
    case False
    with active(4) show thesis
      by (intro forbidden [of r])
        (auto simp: approve_def check_actor_authorized_def check_not_self_approval_def may_approve_def)
  next
    case True
    let ?a = "approve E clk did rid actor comment s"
    have "fst ?a = Inr (add_approval (clk 1) did rid actor comment r)"
      "ap_requests (snd ?a) = dict_put rid (add_approval (clk 1) did rid actor comment r) (ap_requests s)"
      "log_extends s (snd ?a)"
      using True active(4)
      by (auto simp: approve_def check_actor_authorized_def check_not_self_approval_def
          may_approve_def add_approval_def Let_def)
    with True active show thesis by (intro recorded [of r "snd ?a"]) (auto simp: prod_eq_iff)
  qed
qed (use refused in \<open>auto simp: approve_def\<close>)

lemma request_ok_add_approval:
  assumes "request_ok lg rid r" "aq_status r = PENDING" "may_approve r actor"
  shows "request_ok lg rid (add_approval now did rid actor comment r)"
  using assms
  by (auto simp: request_ok_def add_approval_def may_approve_def decision_ok_def quorum_def
      Let_def)

lemma approve_keeps:
  assumes "service_ok s"
  shows "service_ok (snd (approve E clk did rid actor comment s)) \<and>
    log_extends s (snd (approve E clk did rid actor comment s))"
proof (cases rule: approve_cases [of E clk rid s did actor comment])
  case (refused e s')
  then show ?thesis using get_active_error_ok [OF assms] by simp
next
  case (forbidden r e)
  then show ?thesis using assms by simp
next
  case (recorded r s')
  have "get_request s rid = Some r"
    using recorded(1) by (cases rule: get_active_cases [of s rid E clk]) auto
  then have "request_ok (ap_audit_log s) rid r" by (rule service_ok_lookup [OF assms])
  then have "request_ok (ap_audit_log s) rid (add_approval (clk 1) did rid actor comment r)"
    using recorded by (intro request_ok_add_approval) auto
  moreover obtain es where "ap_audit_log s' = ap_audit_log s @ es"
    using recorded(7) by (auto simp: log_extends_def)
  ultimately have "service_ok s'"
    using recorded(6,7) request_ok_mono
    by (intro service_ok_put [OF assms, of s' rid "add_approval (clk 1) did rid actor comment r"])
      (auto simp: set_dict_put)
  then show ?thesis using recorded by simp
qed

lemma deny_keeps:
  assumes "service_ok s"
  shows "service_ok (snd (deny E clk did rid actor comment s)) \<and>
    log_extends s (snd (deny E clk did rid actor comment s))"
proof (cases rule: get_active_cases [of s rid E clk])
  case (active r)
  have "request_ok (ap_audit_log s) rid r" by (rule service_ok_lookup [OF assms active(1)])
  then show ?thesis
    using assms active(4)
    by (auto simp: deny_def check_actor_authorized_def Let_def request_ok_def decision_ok_def
        intro!: service_ok_put_audit)
next
  case (stale r s')
  then show ?thesis using get_active_error_ok [OF assms stale(4)] by (simp add: deny_def)
qed (use assms in \<open>auto simp: deny_def\<close>)

lemma break_glass_keeps:
  assumes "service_ok s"
  shows "service_ok (snd (break_glass E clk did rid actor just s)) \<and>
    log_extends s (snd (break_glass E clk did rid actor just s))"
proof (cases "get_request s rid")
  case (Some r)
  have "request_ok (ap_audit_log s) rid r" by (rule service_ok_lookup [OF assms Some])
  then have "request_ok (ap_audit_log (audit E (clk 1) rid EvBreakGlass actor just True s)) rid
      (r\<lparr>aq_approvals := aq_approvals r @
           [\<lparr>ad_request_id = rid, ad_actor_id = actor, ad_decision = APPROVED,
             ad_comment = ''BREAK_GLASS: '' @ just, ad_decided_at = clk 0, ad_decision_id = did,
             ad_is_break_glass = True, ad_break_glass_justification = Some just\<rparr>],
         aq_status := BREAK_GLASS\<rparr>)"
    if "actor \<noteq> aq_requester_id r" "20 \<le> length (py_strip just)"
    using that by (auto simp: request_ok_def decision_ok_def reviewed_def audit_def)
  then show ?thesis
    using assms Some
    by (auto simp: break_glass_def check_not_self_approval_def Let_def intro!: service_ok_put_audit)
qed (use assms in \<open>simp add: break_glass_def\<close>)

lemma expire_loop_keeps:
  assumes "service_ok s" "\<forall>(k, r)\<in>set rs. request_ok (ap_audit_log s) k r"
  shows "service_ok (snd (expire_loop E clk n rs s)) \<and> log_extends s (snd (expire_loop E clk n rs s))"
  using assms
proof (induction rs arbitrary: n s)
  case (Cons p rs)
  obtain k r where p: "p = (k, r)" by (cases p)
  show ?case
  proof (cases "is_stale (clk 0) r")
    case True
    let ?s1 = "audit E (clk (Suc n)) (aq_request_id r) EvExpired ''system'' ''TTL exceeded'' False
      (put_request k (r\<lparr>aq_status := EXPIRED\<rparr>) s)"
    have "service_ok ?s1"
      using Cons.prems p by (intro service_ok_put_audit request_ok_audit request_ok_expired) auto
    moreover have "\<forall>(k, r)\<in>set rs. request_ok (ap_audit_log ?s1) k r"
      using Cons.prems(2) by (auto simp: audit_def request_ok_mono)
    ultimately have "service_ok (snd (expire_loop E clk (Suc n) rs ?s1))" "log_extends ?s1 (snd (expire_loop E clk (Suc n) rs ?s1))"
      using Cons.IH by blast+
    moreover have "log_extends s ?s1" by auto
    ultimately have "service_ok (snd (expire_loop E clk (Suc n) rs ?s1)) \<and> log_extends s (snd (expire_loop E clk (Suc n) rs ?s1))"
      by (blast intro: log_extends_trans)
    then show ?thesis by (simp add: p True Let_def case_prod_beta)
  next
    case False
    with Cons p show ?thesis by auto
  qed
qed simp

lemma create_keeps:
  assumes "service_ok s" "fresh_request r"
  shows "service_ok (snd (create_request E now r s)) \<and> log_extends s (snd (create_request E now r s))"
proof -
  have "request_ok (ap_audit_log s) (aq_request_id r) r"
    using assms(2) by (simp add: request_ok_def fresh_request_def)
  with assms(1) show ?thesis
    by (auto simp: create_request_def intro!: service_ok_put_audit request_ok_audit)
qed

lemma expire_keeps:
  assumes "service_ok s"
  shows "service_ok (snd (expire_stale E clk s)) \<and> log_extends s (snd (expire_stale E clk s))"
  using expire_loop_keeps [OF assms] assms by (auto simp: expire_stale_def service_ok_def)

subsection \<open>Approvals in time\<close>

lemma in_time_put:
  assumes "in_time slack s" "set (ap_requests t) \<subseteq> insert (rid, r) (set (ap_requests s))"
    and "\<forall>d\<in>set (aq_approvals r). ad_decision d = APPROVED \<and> \<not> ad_is_break_glass d \<longrightarrow> ad_decided_at d \<le> aq_expires_at r + slack"
  shows "in_time slack t"
  using assms unfolding in_time_def by (blast elim: subsetCE)

lemma in_time_lookup:
  assumes "in_time slack s" "get_request s rid = Some r" "d \<in> set (aq_approvals r)" "ad_decision d = APPROVED"
    "\<not> ad_is_break_glass d"
  shows "ad_decided_at d \<le> aq_expires_at r + slack"
  using assms by (auto simp: in_time_def get_request_def dest!: map_of_SomeD)

lemma get_active_in_time:
  assumes "in_time slack s" "get_active E clk rid s = (res, s')"
  shows "in_time slack s'"
proof (cases rule: get_active_cases [of s rid E clk])
  case (stale r s'')
  then show ?thesis using assms in_time_lookup [OF assms(1) stale(1)]
    by (intro in_time_put [OF assms(1), of _ rid "r\<lparr>aq_status := EXPIRED\<rparr>"]) (auto simp: set_dict_put)
qed (use assms in auto)

lemma approve_in_time:
  assumes "in_time slack s" "\<And>k. clk k \<le> clk 0 + slack"
  shows "in_time slack (snd (approve E clk did rid actor comment s))"
proof (cases rule: approve_cases [of E clk rid s did actor comment])
  case (refused e s')
  then show ?thesis using get_active_in_time [OF assms(1)] by simp
next
  case (recorded r s')
  have r: "get_request s rid = Some r"
    using recorded(1) by (cases rule: get_active_cases [of s rid E clk]) auto
  have "clk 1 \<le> aq_expires_at r + slack" using assms(2) [of 1] recorded(4) by simp
  then show ?thesis using recorded in_time_lookup [OF assms(1) r]
    by (intro in_time_put [OF assms(1), of _ rid "add_approval (clk 1) did rid actor comment r"])
      (auto simp: set_dict_put add_approval_def Let_def)
qed (use assms in simp)

lemma deny_in_time:
  assumes "in_time slack s"
  shows "in_time slack (snd (deny E clk did rid actor comment s))"
proof (cases rule: get_active_cases [of s rid E clk])
  case (active r)
  have "in_time slack t" if "set (ap_requests t) \<subseteq> insert (rid, r\<lparr>aq_approvals := aq_approvals r @
      [\<lparr>ad_request_id = rid, ad_actor_id = actor, ad_decision = DENIED, ad_comment = comment, ad_decided_at = clk 1,
        ad_decision_id = did, ad_is_break_glass = False, ad_break_glass_justification = None\<rparr>], aq_status := DENIED\<rparr>)
      (set (ap_requests s))" for t
    using in_time_lookup [OF assms active(1)] by (intro in_time_put [OF assms that]) auto
  then show ?thesis using assms active(4)
    by (auto simp: deny_def check_actor_authorized_def Let_def set_dict_put)
next
  case (stale r s')
  then show ?thesis using get_active_in_time [OF assms stale(4)] by (simp add: deny_def)
qed (use assms in \<open>auto simp: deny_def\<close>)

lemma break_glass_in_time:
  assumes "in_time slack s"
  shows "in_time slack (snd (break_glass E clk did rid actor just s))"
proof (cases "get_request s rid")
  case (Some r)
  have "in_time slack t" if "set (ap_requests t) \<subseteq> insert (rid, r\<lparr>aq_approvals := aq_approvals r @
      [\<lparr>ad_request_id = rid, ad_actor_id = actor, ad_decision = APPROVED, ad_comment = ''BREAK_GLASS: '' @ just,
        ad_decided_at = clk 0, ad_decision_id = did, ad_is_break_glass = True,
        ad_break_glass_justification = Some just\<rparr>], aq_status := BREAK_GLASS\<rparr>) (set (ap_requests s))" for t
    using in_time_lookup [OF assms Some] by (intro in_time_put [OF assms that]) auto
  then show ?thesis using assms Some
    by (auto simp: break_glass_def check_not_self_approval_def Let_def set_dict_put)
qed (use assms in \<open>simp add: break_glass_def\<close>)

lemma expire_loop_in_time:
  assumes "in_time slack s" "\<forall>(k, r)\<in>set rs. \<forall>d\<in>set (aq_approvals r).
      ad_decision d = APPROVED \<and> \<not> ad_is_break_glass d \<longrightarrow> ad_decided_at d \<le> aq_expires_at r + slack"
  shows "in_time slack (snd (expire_loop E clk n rs s))"
  using assms
proof (induction rs arbitrary: n s)
  case (Cons p rs)
  obtain k r where p: "p = (k, r)" by (cases p)
  let ?s1 = "audit E (clk (Suc n)) (aq_request_id r) EvExpired ''system'' ''TTL exceeded'' False
      (put_request k (r\<lparr>aq_status := EXPIRED\<rparr>) s)"
  have "in_time slack ?s1"
    using Cons.prems p by (intro in_time_put [OF Cons.prems(1), of _ k "r\<lparr>aq_status := EXPIRED\<rparr>"]) (auto simp: set_dict_put)
  then show ?case using Cons p by (auto simp: Let_def case_prod_beta)
qed simp

lemma approval_step_keeps:
  assumes "approval_step E slack s t" "service_ok s \<and> in_time slack s"
  shows "(service_ok t \<and> in_time slack t) \<and> log_extends s t"
  using assms(1)
proof (cases rule: approval_step.cases)
  case (create r now)
  have "in_time slack t" unfolding create(1)
    by (rule in_time_put [OF conjunct2 [OF assms(2)], of _ "aq_request_id r" r])
      (use create(2) in \<open>auto simp: create_request_def set_dict_put fresh_request_def\<close>)
  then show ?thesis using create_keeps [OF _ create(2)] assms(2) create(1) by blast
next
  case (approve clk did rid actor comment)
  then show ?thesis using approve_keeps approve_in_time [of slack s clk] assms(2) by blast
next
  case (deny clk did rid actor comment)
  then show ?thesis using deny_keeps deny_in_time assms(2) by blast
next
  case (break_glass clk did rid actor just)
  then show ?thesis using break_glass_keeps break_glass_in_time assms(2) by blast
next
  case (expire clk)
  have "in_time slack t" unfolding expire expire_stale_def
    using assms(2) by (intro expire_loop_in_time) (auto simp: in_time_def)
  then show ?thesis using expire expire_keeps assms(2) by blast
qed

interpretation approvals: step_monotone "approval_step E slack" "\<lambda>s. service_ok s \<and> in_time slack s" log_extends for E slack
  by unfold_locales (auto dest: approval_step_keeps intro: log_extends_trans)

subsection \<open>Properties\<close>

lemma service_ok_new [simp]: "service_ok new_service"
  by (simp add: service_ok_def new_service_def)

lemma in_time_new [simp]: "in_time slack new_service"
  by (simp add: in_time_def new_service_def)

lemmas reachable_service_ok = approvals.reachable_inv [OF _ conjI [OF service_ok_new in_time_new]]

text \<open>
  C12. After any sequence of calls on a new service, an APPROVED request carries approvals only, from
  at least the required number of distinct actors, none of them the requester, all of them in the
  delegated list where there is one. Each approval was recorded by a call that found the request unexpired
  when it checked: the time of the decision, which the call reads afterwards, exceeds the expiry by no more than what
  passes between the two readings of the clock, and may exceed it by that much (\<open>decided_after_expiry\<close> below).
\<close>

theorem approved_means_quorum:
  assumes "(approval_step E slack)\<^sup>*\<^sup>* new_service s" "get_request s rid = Some r" "aq_status r = APPROVED"
  shows "approved_by r \<noteq> {} \<and> aq_required_approvers r \<le> int (card (approved_by r)) \<and>
    aq_requester_id r \<notin> approved_by r \<and>
    (aq_delegated_approvers r = [] \<or> approved_by r \<subseteq> set (aq_delegated_approvers r)) \<and>
    (\<forall>d\<in>set (aq_approvals r). ad_decision d = APPROVED \<and> \<not> ad_is_break_glass d \<and>
       ad_decided_at d \<le> aq_expires_at r + slack)"
proof -
  have inv: "service_ok s" "in_time slack s" using reachable_service_ok [OF assms(1)] by simp_all
  have "request_ok (ap_audit_log s) rid r" by (rule service_ok_lookup [OF inv(1) assms(2)])
  with assms(3) in_time_lookup [OF inv(2) assms(2)] show ?thesis
    by (auto simp: request_ok_def quorum_def decision_ok_def mem_approved_by)
qed

text \<open>
  A break-glass override is always on record: after any sequence of calls, a request in status
  BREAK_GLASS has an overriding decision by someone other than the requester with a justification
  of at least twenty characters, and the audit log holds that override marked for review. Log
  entries are never removed: the log only grows.
\<close>

theorem break_glass_is_logged:
  assumes "(approval_step E slack)\<^sup>*\<^sup>* new_service s" "(approval_step E slack)\<^sup>*\<^sup>* s t"
    and "get_request s rid = Some r" "aq_status r = BREAK_GLASS"
  shows "\<exists>d\<in>set (aq_approvals r). \<exists>j e. ad_is_break_glass d \<and> ad_actor_id d \<noteq> aq_requester_id r \<and>
    ad_break_glass_justification d = Some j \<and> 20 \<le> length (py_strip j) \<and>
    e \<in> set (ap_audit_log t) \<and> au_request_id e = rid \<and> au_event e = EvBreakGlass \<and>
    au_actor_id e = ad_actor_id d \<and> au_detail e = j \<and> au_requires_post_hoc_review e"
proof -
  have ok: "service_ok s" "in_time slack s" using reachable_service_ok [OF assms(1)] by simp_all
  have "reviewed (ap_audit_log s) rid r"
    using service_ok_lookup [OF ok(1) assms(3)] assms(4) by (simp add: request_ok_def)
  moreover obtain es where "ap_audit_log t = ap_audit_log s @ es"
    using approvals.reachable_le [OF assms(2) conjI [OF ok]] by (auto simp: log_extends_def)
  ultimately show ?thesis unfolding reviewed_def by fastforce
qed

text \<open>
  Every outcome of an approval: it is recorded exactly when the request exists, is pending and
  not past its expiry, and the actor is neither the requester nor outside the delegated list. Otherwise
  it raises and no decision is added to any request; a decided request stays exactly as it is.
\<close>

theorem approve_outcome:
  "(isl (fst (approve E clk did rid actor comment s)) = False \<longleftrightarrow>
     (\<exists>r. get_request s rid = Some r \<and> aq_status r = PENDING \<and> clk 0 \<le> aq_expires_at r \<and>
        may_approve r actor)) \<and>
   (\<forall>k. case (get_request s k, get_request (snd (approve E clk did rid actor comment s)) k) of
      (None, None) \<Rightarrow> True
    | (Some r, Some r') \<Rightarrow>
        (if k = rid \<and> isl (fst (approve E clk did rid actor comment s)) = False
         then r' = add_approval (clk 1) did rid actor comment r
         else r' = (if k = rid \<and> is_stale (clk 0) r then r\<lparr>aq_status := EXPIRED\<rparr> else r))
    | _ \<Rightarrow> False)"
proof (cases rule: approve_cases [of E clk rid s did actor comment])
  case (refused e s')
  from refused show ?thesis
    by (cases rule: get_active_cases [of s rid E clk])
      (auto simp: is_stale_def get_request_def split: option.splits if_splits)
next
  case (forbidden r e)
  from forbidden show ?thesis
    by (cases rule: get_active_cases [of s rid E clk])
      (auto simp: is_stale_def split: option.splits)
next
  case (recorded r s')
  from recorded(1) show ?thesis
    by (cases rule: get_active_cases [of s rid E clk])
      (use recorded in \<open>auto simp: get_request_def split: option.splits\<close>)
qed

text \<open>A request that two distinct people have to approve, and the calls that approve it.\<close>

definition approvals_env :: env where
  "approvals_env = \<lparr>sha256 = (\<lambda>m. m), float_repr = ratio_repr, iso = int_str,
     ed25519_verify = (\<lambda>_ _ _. EdInvalidSignature), ed25519_sign = (\<lambda>k m. k @ m),
     hmac_sha256 = (\<lambda>k m. k @ m), b64_encode = (\<lambda>x. x), b64_decode = Some\<rparr>"

definition demo_request :: approval_request where
  "demo_request =
     \<lparr>aq_action = ''a'', aq_resource = ''n'', aq_requester_id = ''alice'', aq_tenant_id = ''t'',
      aq_node_id = ''n'', aq_risk_tier = ''critical'', aq_required_approvers = 2,
      aq_two_person_control = True, aq_request_id = ''q'', aq_status = PENDING, aq_created_at = 0,
      aq_expires_at = 100, aq_delegated_approvers = [], aq_approvals = [], aq_context = []\<rparr>"

definition demo_approved :: approval_service where
  "demo_approved =
     snd (approve approvals_env (\<lambda>_. 2) ''d2'' ''q'' ''carol'' []
       (snd (approve approvals_env (\<lambda>_. 1) ''d1'' ''q'' ''bob'' []
         (snd (create_request approvals_env 0 demo_request new_service)))))"

definition demo_override :: approval_service where
  "demo_override =
     snd (break_glass approvals_env (\<lambda>_. 3) ''d3'' ''q'' ''dave'' ''production outage in eu-1''
       (snd (create_request approvals_env 0 demo_request new_service)))"

lemma demo_reachable:
  "(approval_step approvals_env 0)\<^sup>*\<^sup>* new_service demo_approved"
  "(approval_step approvals_env 0)\<^sup>*\<^sup>* new_service demo_override"
proof -
  have c: "(approval_step approvals_env 0)\<^sup>*\<^sup>* new_service (snd (create_request approvals_env 0 demo_request new_service))"
    by (intro r_into_rtranclp approval_step.create) (simp add: fresh_request_def demo_request_def)
  show "(approval_step approvals_env 0)\<^sup>*\<^sup>* new_service demo_approved"
    unfolding demo_approved_def
    by (rule rtranclp.rtrancl_into_rtrancl [OF rtranclp.rtrancl_into_rtrancl [OF c approval_step.approve]
          approval_step.approve]) simp_all
  show "(approval_step approvals_env 0)\<^sup>*\<^sup>* new_service demo_override"
    unfolding demo_override_def
    by (rule rtranclp.rtrancl_into_rtrancl [OF c approval_step.break_glass])
qed

lemmas demo_service_defs = demo_approved_def demo_override_def approve_def break_glass_def create_request_def
  get_active_def get_request_def put_request_def audit_def new_service_def demo_request_def
  check_actor_authorized_def check_not_self_approval_def approved_by_def Let_def

lemma demo_approved_request:
  "\<exists>r. get_request demo_approved ''q'' = Some r \<and> aq_status r = APPROVED \<and> aq_required_approvers r = 2"
  by (simp add: demo_service_defs del: set_filter)

lemma demo_override_request:
  "\<exists>r. get_request demo_override ''q'' = Some r \<and> aq_status r = BREAK_GLASS"
  by (simp add: demo_service_defs py_strip_def is_space_def)

theorem approved_means_quorum_witness:
  "\<exists>r. get_request demo_approved ''q'' = Some r \<and> 2 \<le> int (card (approved_by r))"
proof -
  obtain r where r: "get_request demo_approved ''q'' = Some r" "aq_status r = APPROVED"
    "aq_required_approvers r = 2" using demo_approved_request by blast
  with approved_means_quorum [OF demo_reachable(1) r(1,2)] show ?thesis by auto
qed

text \<open>The expiry passes between the two readings: the approval counts although its time stamp is later.\<close>

lemma decided_after_expiry:
  assumes "get_request s rid = Some r" "aq_status r = PENDING" "may_approve r actor"
    and "clk 0 \<le> aq_expires_at r" "aq_expires_at r < clk 1"
  shows "\<exists>r' s' d. approve E clk did rid actor comment s = (Inr r', s') \<and> d \<in> set (aq_approvals r') \<and>
    ad_decision d = APPROVED \<and> aq_expires_at r' < ad_decided_at d"
proof (cases rule: approve_cases [of E clk rid s did actor comment])
  case (recorded q s')
  have "q = r" using recorded(1) assms(1) by (cases rule: get_active_cases [of s rid E clk]) auto
  moreover have "last (aq_approvals (add_approval (clk 1) did rid actor comment r)) \<in>
      set (aq_approvals (add_approval (clk 1) did rid actor comment r))" by (rule last_in_set) (simp add: add_approval_def Let_def)
  moreover have "ad_decision (last (aq_approvals (add_approval (clk 1) did rid actor comment r))) = APPROVED"
    "ad_decided_at (last (aq_approvals (add_approval (clk 1) did rid actor comment r))) = clk 1"
    "aq_expires_at (add_approval (clk 1) did rid actor comment r) = aq_expires_at r"
    by (simp_all add: add_approval_def Let_def)
  ultimately show ?thesis using recorded(5) assms(5) by metis
qed (use assms in \<open>auto simp: get_active_def\<close>)

theorem break_glass_is_logged_witness:
  "\<exists>e\<in>set (ap_audit_log demo_override). au_event e = EvBreakGlass \<and> au_requires_post_hoc_review e"
proof -
  obtain r where r: "get_request demo_override ''q'' = Some r" "aq_status r = BREAK_GLASS"
    using demo_override_request by blast
  from break_glass_is_logged [OF demo_reachable(2) rtranclp.rtrancl_refl r] show ?thesis by auto
qed

text \<open>
  Break-glass ignores the status of the request: it also overrides a request that was denied.
\<close>

lemma break_glass_overrides_denial:
  "get_request s rid = Some r \<Longrightarrow> aq_status r = DENIED \<Longrightarrow> actor \<noteq> aq_requester_id r \<Longrightarrow>
   20 \<le> length (py_strip just) \<Longrightarrow> just \<noteq> [] \<Longrightarrow>
   \<exists>r' s'. break_glass E clk did rid actor just s = (Inr r', s') \<and> aq_status r' = BREAK_GLASS"
  by (simp add: break_glass_def check_not_self_approval_def Let_def)

end
