(* ===== verification/Policy_Engine.thy ===== *)
theory Policy_Engine
  imports Policy_Hierarchy Approvals
begin

section \<open>The policy engine and its hooks\<close>

text \<open>
  \<open>packages/policy/src/engine.py\<close> and \<open>hooks.py\<close>: one evaluation pipeline over the resolver and the
  approval service, with a decision log, and the checks that the closed loop calls before a
  replay, a recovery, an execution and a rollback. The engine state holds the registry, the
  approval service and the log; the identifiers of the decision and of a new request, and the
  time, are arguments. An evaluation reads the clock for each time stamp it sets; no check compares two of them, and
  one argument stands for these readings.
\<close>

record engine_decision =
  gd_decision_id :: string
  gd_action :: string
  gd_tenant_id :: string
  gd_node_id :: string
  gd_requester_id :: string
  gd_requester_role :: string
  gd_verdict :: string
  gd_risk_tier :: string
  gd_rule_id :: string
  gd_policy_version :: string
  gd_rationale :: string
  gd_requires_approval :: bool
  gd_two_person_control :: bool
  gd_approval_request_id :: "string option"
  gd_effective_policy :: "effective_policy option"
  gd_decided_at :: int

record engine =
  en_registry :: registry
  en_approvals :: approval_service
  en_decisions :: "engine_decision list"

definition new_engine :: "registry \<Rightarrow> engine" where
  "new_engine reg = \<lparr>en_registry = reg, en_approvals = new_service, en_decisions = []\<rparr>"

definition log_decision :: "engine_decision \<Rightarrow> engine \<Rightarrow> engine_decision \<times> engine" where
  "log_decision d s = (d, s\<lparr>en_decisions := en_decisions s @ [d]\<rparr>)"

text \<open>The decision object before the first step: the defaults of the dataclass.\<close>

definition fresh_decision ::
    "int \<Rightarrow> string \<Rightarrow> string \<Rightarrow> string \<Rightarrow> string \<Rightarrow> string \<Rightarrow> string \<Rightarrow> engine_decision" where
  "fresh_decision now did action tenant_id node_id requester_id requester_role =
     \<lparr>gd_decision_id = did, gd_action = action, gd_tenant_id = tenant_id, gd_node_id = node_id,
      gd_requester_id = requester_id, gd_requester_role = requester_role, gd_verdict = ''deny'',
      gd_risk_tier = ''high'', gd_rule_id = ''DEFAULT_DENY'', gd_policy_version = ''unknown'',
      gd_rationale = [], gd_requires_approval = False, gd_two_person_control = False,
      gd_approval_request_id = None, gd_effective_policy = None, gd_decided_at = now\<rparr>"

text \<open>A text or, where it is empty, another one: Python's \<open>or\<close> on strings.\<close>

definition str_or :: "string \<Rightarrow> string \<Rightarrow> string" where
  "str_or a b = (if a \<noteq> [] then a else b)"

text \<open>The request that the engine creates, with the default expiry of 24 hours.\<close>

definition engine_request ::
    "int \<Rightarrow> string \<Rightarrow> effective_policy \<Rightarrow> string \<Rightarrow> string \<Rightarrow> string \<Rightarrow> string \<Rightarrow> approval_request" where
  "engine_request now rid ep action tenant_id node_id requester_id =
     (let tier_reqs = get_approval_requirements action in
      \<lparr>aq_action = action, aq_resource = node_id, aq_requester_id = requester_id,
       aq_tenant_id = tenant_id, aq_node_id = node_id, aq_risk_tier = tier_value (ep_risk_tier ep),
       aq_required_approvers = max (ep_required_approvers ep) (tr_required_approvers tier_reqs),
       aq_two_person_control = (ep_two_person_control ep \<or> tr_two_person_control tier_reqs),
       aq_request_id = rid, aq_status = PENDING, aq_created_at = now,
       aq_expires_at = now + 24 * 3600 * 1000000, aq_delegated_approvers = [], aq_approvals = [],
       aq_context = []\<rparr>)"

text \<open>Step 4, the look at an existing approval: the rationale when it is accepted.\<close>

definition existing_approval ::
    "approval_service \<Rightarrow> string \<Rightarrow> string \<Rightarrow> string option \<Rightarrow> (string \<times> string) option" where
  "existing_approval ap action tenant_id existing =
     (if truthy existing
      then let aid = the existing in
        (case get_request ap aid of
           None \<Rightarrow> None
         | Some req \<Rightarrow>
             if aq_status req = APPROVED \<and> aq_action req = action \<and> aq_tenant_id req = tenant_id
             then Some (aid, ''Approved via request '' @ aid @ ''.'')
             else if aq_status req = BREAK_GLASS
             then Some (aid, ''Break-glass override '' @ aid @ ''.'')
             else None)
      else None)"

definition evaluate ::
    "env \<Rightarrow> int \<Rightarrow> string \<Rightarrow> string \<Rightarrow> string \<Rightarrow> string \<Rightarrow> string \<Rightarrow> string \<Rightarrow> string \<Rightarrow> string option \<Rightarrow>
     engine \<Rightarrow> engine_decision \<times> engine" where
  "evaluate E now did rid action tenant_id node_id requester_id requester_role existing s =
     (let d0 = fresh_decision now did action tenant_id node_id requester_id requester_role; q = [CHR 0x27] in
      case resolve E now (en_registry s) tenant_id node_id action of
        Inl (PolicyConflictError msg) \<Rightarrow>
          log_decision (d0\<lparr>gd_verdict := ''deny'',
            gd_rationale := ''Policy resolution error (fail-closed): '' @ msg,
            gd_rule_id := ''RESOLUTION_ERROR''\<rparr>) s
      | Inr ep \<Rightarrow>
          let d1 = d0\<lparr>gd_effective_policy := Some ep, gd_risk_tier := tier_value (ep_risk_tier ep),
                      gd_rule_id := pr_rule_id (ep_winning_rule ep),
                      gd_policy_version := pr_version (ep_winning_rule ep)\<rparr> in
          if ep_verdict ep = DENY then
            log_decision (d1\<lparr>gd_verdict := ''deny'',
              gd_rationale := str_or (pr_rationale (ep_winning_rule ep)) ''Denied by policy.''\<rparr>) s
          else if ep_allowed_roles ep \<noteq> [] \<and> requester_role \<notin> set (ep_allowed_roles ep) then
            log_decision (d1\<lparr>gd_verdict := ''deny'',
              gd_rationale := ''Role '' @ q @ requester_role @ q @ '' not in allowed roles '' @
                py_repr_list (ep_allowed_roles ep) @ ''.'',
              gd_rule_id := ''ROLE_DENIED''\<rparr>) s
          else if ep_verdict ep = NEEDS_APPROVAL \<or> 0 < ep_required_approvers ep then
            let d2 = d1\<lparr>gd_requires_approval := True, gd_two_person_control := ep_two_person_control ep\<rparr> in
            case existing_approval (en_approvals s) action tenant_id existing of
              Some (aid, why) \<Rightarrow>
                log_decision (d2\<lparr>gd_verdict := ''allow'', gd_rationale := why,
                  gd_approval_request_id := Some aid\<rparr>) s
            | None \<Rightarrow>
                let req = engine_request now rid ep action tenant_id node_id requester_id;
                    ap = snd (create_request E now req (en_approvals s)) in
                log_decision (d2\<lparr>gd_verdict := ''needs_approval'',
                  gd_rationale := ''Action '' @ q @ action @ q @ '' requires '' @
                    int_str (aq_required_approvers req) @ '' approver(s). Approval request created: '' @ rid,
                  gd_approval_request_id := Some rid\<rparr>) (s\<lparr>en_approvals := ap\<rparr>)
          else
            log_decision (d1\<lparr>gd_verdict := ''allow'',
              gd_rationale := str_or (pr_rationale (ep_winning_rule ep))
                (''Action '' @ q @ action @ q @ '' is permitted.'')\<rparr>) s)"

subsection \<open>Hooks\<close>

datatype hook_error = PolicyDeniedError engine_decision | QuarantineEnforcementError string

definition check :: "env \<Rightarrow> int \<Rightarrow> string \<Rightarrow> string \<Rightarrow> string \<Rightarrow> string \<Rightarrow> string \<Rightarrow> string \<Rightarrow> string \<Rightarrow>
    string option \<Rightarrow> engine \<Rightarrow> (hook_error, string option) result \<times> engine" where
  "check E now did rid action tenant_id node_id requester_id requester_role existing s =
     (let (d, s') = evaluate E now did rid action tenant_id node_id requester_id requester_role existing s in
      (if gd_verdict d = ''deny'' then Inl (PolicyDeniedError d)
       else if gd_verdict d = ''needs_approval'' then Inr (gd_approval_request_id d)
       else Inr None, s'))"

definition pre_replay_check where
  "pre_replay_check E now did rid = check E now did rid ''schedule_replay''"

definition pre_recovery_check where
  "pre_recovery_check E now did rid = check E now did rid ''apply_repair_decision''"

definition pre_execution_check where
  "pre_execution_check E now did rid = check E now did rid ''apply_intervention''"

definition pre_rollback_check where
  "pre_rollback_check E now did rid = check E now did rid ''apply_rollback''"

definition pre_memory_read_check :: "string \<Rightarrow> string list \<Rightarrow> string \<Rightarrow> (hook_error, unit) result" where
  "pre_memory_read_check partition_id quarantined requester_role =
     (if partition_id \<in> set quarantined
      then if requester_role = ''forensic_auditor'' then Inr ()
           else Inl (QuarantineEnforcementError partition_id)
      else Inr ())"

subsection \<open>The decision\<close>

definition approval_needed :: "effective_policy \<Rightarrow> bool" where
  "approval_needed ep \<longleftrightarrow> ep_verdict ep = NEEDS_APPROVAL \<or> 0 < ep_required_approvers ep"

definition approval_valid :: "approval_service \<Rightarrow> string \<Rightarrow> string \<Rightarrow> string option \<Rightarrow> bool" where
  "approval_valid ap action tenant_id existing \<longleftrightarrow>
     (\<exists>aid req. existing = Some aid \<and> aid \<noteq> [] \<and> get_request ap aid = Some req \<and>
        (aq_status req = APPROVED \<and> aq_action req = action \<and> aq_tenant_id req = tenant_id \<or>
         aq_status req = BREAK_GLASS))"

lemma existing_approval_iff:
  "(existing_approval ap action tenant_id existing \<noteq> None) = approval_valid ap action tenant_id existing"
  by (cases existing) (auto simp: existing_approval_def approval_valid_def Let_def split: option.splits)

lemma existing_approval_id:
  "existing_approval ap action tenant_id existing = Some (aid, why) \<Longrightarrow> existing = Some aid"
  by (cases existing) (auto simp: existing_approval_def Let_def split: option.splits if_splits)

text \<open>The verdict read off the resolved policy.\<close>

definition policy_verdict ::
    "(conflict_error, effective_policy) result \<Rightarrow> string \<Rightarrow> bool \<Rightarrow> string" where
  "policy_verdict resolved role approved =
     (case resolved of
        Inl _ \<Rightarrow> ''deny''
      | Inr ep \<Rightarrow>
          if ep_verdict ep = DENY \<or> \<not> admits_role ep role then ''deny''
          else if approval_needed ep \<and> \<not> approved then ''needs_approval''
          else ''allow'')"

lemma engine_cases:
  fixes E now did rid action tenant_id node_id requester_id role existing s
  defines "r \<equiv> evaluate E now did rid action tenant_id node_id requester_id role existing s"
  shows "gd_verdict (fst r) = policy_verdict (resolve E now (en_registry s) tenant_id node_id action) role
      (approval_valid (en_approvals s) action tenant_id existing)"
    and "en_decisions (snd r) = en_decisions s @ [fst r]"
    and "en_registry (snd r) = en_registry s"
    and "en_approvals (snd r) =
      (if gd_verdict (fst r) = ''needs_approval''
       then snd (create_request E now
         (engine_request now rid (projr (resolve E now (en_registry s) tenant_id node_id action))
            action tenant_id node_id requester_id) (en_approvals s))
       else en_approvals s)"
    and "gd_approval_request_id (fst r) =
      (if gd_verdict (fst r) = ''needs_approval'' then Some rid
       else if gd_verdict (fst r) = ''allow'' \<and>
         approval_needed (projr (resolve E now (en_registry s) tenant_id node_id action))
       then existing else None)"
  unfolding r_def evaluate_def existing_approval_iff [symmetric]
  by (auto simp: policy_verdict_def approval_needed_def admits_role_def log_decision_def fresh_decision_def Let_def
      split: sum.splits conflict_error.splits option.splits dest: existing_approval_id)

text \<open>
  What the engine promises, in terms of the rules that match along the hierarchy: deny when there is none, when one relaxes an earlier one
  without justification, when one denies or when the role is not admitted; otherwise allow when the approval is there or when
  every rule allows and asks for no approver; otherwise ask.
\<close>

definition unjustified_relaxation :: "policy_rule list \<Rightarrow> bool" where
  "unjustified_relaxation rules \<longleftrightarrow>
     (\<exists>pre r post. rules = pre @ r # post \<and> \<not> truthy (pr_override_justification r) \<and>
        (\<exists>q\<in>set pre. VERDICT_PRECEDENCE (pr_verdict q) < VERDICT_PRECEDENCE (pr_verdict r)))"

definition permits :: "policy_rule \<Rightarrow> bool" where
  "permits r \<longleftrightarrow> pr_verdict r = ALLOW \<and> pr_required_approvers r \<le> 0"

definition decide :: "policy_rule list \<Rightarrow> bool \<Rightarrow> bool \<Rightarrow> string" where
  "decide rules admitted approved =
     (if rules = [] \<or> unjustified_relaxation rules \<or> DENY \<in> pr_verdict ` set rules \<or> \<not> admitted then ''deny''
      else if approved \<or> list_all permits rules then ''allow''
      else ''needs_approval'')"

text \<open>A role is admitted when every rule that lists roles lists it; only where no role is common does the resolved list count.\<close>

definition role_admitted :: "policy_rule list \<Rightarrow> effective_policy \<Rightarrow> string \<Rightarrow> bool" where
  "role_admitted rules ep role = (if \<exists>x. role_in_all rules x then role_in_all rules role else admits_role ep role)"

lemma Min_verdict_eq:
  assumes "rules \<noteq> []" "VERDICT_PRECEDENCE v = Min (set (map (VERDICT_PRECEDENCE \<circ> pr_verdict) rules))"
  shows "v = DENY \<longleftrightarrow> DENY \<in> pr_verdict ` set rules"
    and "v = ALLOW \<longleftrightarrow> (\<forall>r\<in>set rules. pr_verdict r = ALLOW)"
proof -
  have mem: "v \<in> pr_verdict ` set rules"
    using find_first_verdict [OF assms(2,1)] by (auto simp: find_Some_iff)
  have le: "VERDICT_PRECEDENCE v \<le> VERDICT_PRECEDENCE (pr_verdict r)" if "r \<in> set rules" for r
    unfolding assms(2) using that by (intro Min_le) auto
  have "v = DENY" if r: "r \<in> set rules" "pr_verdict r = DENY" for r
    using le [OF r(1)] r(2) by (cases v) auto
  then show "v = DENY \<longleftrightarrow> DENY \<in> pr_verdict ` set rules" using mem by (metis imageE)
  have "pr_verdict r = ALLOW" if "v = ALLOW" "r \<in> set rules" for r
    using le [OF that(2)] that(1) by (cases "pr_verdict r") auto
  then show "v = ALLOW \<longleftrightarrow> (\<forall>r\<in>set rules. pr_verdict r = ALLOW)" using mem by auto
qed

lemma policy_of_rules:
  assumes "resolve E now reg t n action = Inr ep" "rules = matching_rules (ancestor_chain reg t n) action"
  shows "ep_verdict ep = DENY \<longleftrightarrow> rules = [] \<or> DENY \<in> pr_verdict ` set rules"
    and "ep_verdict ep \<noteq> DENY \<Longrightarrow> approval_needed ep \<longleftrightarrow> \<not> list_all permits rules"
    and "ep_verdict ep \<noteq> DENY \<Longrightarrow> role_admitted rules ep role \<longleftrightarrow> admits_role ep role"
proof -
  have "(ep_verdict ep = DENY \<longleftrightarrow> rules = [] \<or> DENY \<in> pr_verdict ` set rules) \<and>
    (ep_verdict ep \<noteq> DENY \<longrightarrow> (approval_needed ep \<longleftrightarrow> \<not> list_all permits rules)) \<and>
    (ep_verdict ep \<noteq> DENY \<longrightarrow> (role_admitted rules ep role \<longleftrightarrow> admits_role ep role))"
  proof (cases rule: resolve_cases [of reg t n action E now])
    case default
    then show ?thesis using assms by (simp add: default_deny_def)
  next
    case (conflict e)
    then show ?thesis using assms by simp
  next
    case (resolved st ep')
    have ep: "ep' = ep" and rules: "rules \<noteq> []" using resolved(1,3) assms by auto
    note lp = resolved(2) [folded assms(2)]
    note v = Min_verdict_eq [OF rules tighten_loop_tightened(1) [OF rules lp]]
    have a: "0 < effective_approvers st \<longleftrightarrow> (\<exists>r\<in>set rules. 0 < pr_required_approvers r)"
      using tighten_loop_ok [OF lp] by (simp add: Max_gr_iff)
    have "role_in_all rules x \<Longrightarrow> admits_role ep role \<longleftrightarrow> role_in_all rules role" for x
      using tighten_loop_roles [OF lp, of x role] resolved(8) ep by (simp add: admits_role_def)
    then have ro: "role_admitted rules ep role \<longleftrightarrow> admits_role ep role" by (auto simp: role_admitted_def)
    have "approval_needed ep \<longleftrightarrow> \<not> list_all permits rules" if "ep_verdict ep \<noteq> DENY"
    proof -
      have "ep_verdict ep = NEEDS_APPROVAL \<longleftrightarrow> ep_verdict ep \<noteq> ALLOW" using that by (cases "ep_verdict ep") auto
      then show ?thesis using v(2) a resolved(4,6) ep
        by (auto simp: approval_needed_def list_all_iff permits_def not_le [symmetric])
    qed
    then show ?thesis using v(1) resolved(4) ep rules ro by simp
  qed
  then show "ep_verdict ep = DENY \<longleftrightarrow> rules = [] \<or> DENY \<in> pr_verdict ` set rules"
    "ep_verdict ep \<noteq> DENY \<Longrightarrow> approval_needed ep \<longleftrightarrow> \<not> list_all permits rules"
    "ep_verdict ep \<noteq> DENY \<Longrightarrow> role_admitted rules ep role \<longleftrightarrow> admits_role ep role" by blast+
qed

lemma policy_verdict_decide:
  assumes "rules = matching_rules (ancestor_chain reg t n) action"
  shows "policy_verdict (resolve E now reg t n action) role approved =
    decide rules (role_admitted rules (projr (resolve E now reg t n action)) role) approved"
proof (cases "resolve E now reg t n action")
  case (Inl e)
  then have "unjustified_relaxation rules"
    using conflict_iff_unjustified_relaxation [of E now reg t n action] by (auto simp: unjustified_relaxation_def assms)
  then show ?thesis by (simp add: Inl policy_verdict_def decide_def)
next
  case (Inr ep)
  then have n: "\<not> unjustified_relaxation rules"
    using conflict_iff_unjustified_relaxation [of E now reg t n action] by (auto simp: unjustified_relaxation_def assms)
  note p = policy_of_rules [OF Inr assms]
  show ?thesis
  proof (cases "ep_verdict ep = DENY")
    case True
    then show ?thesis using p(1) Inr by (auto simp: policy_verdict_def decide_def)
  next
    case False
    then show ?thesis using p(1) p(2,3) [OF False] n Inr by (auto simp: policy_verdict_def decide_def)
  qed
qed

text \<open>
  C8. The engine decides as specified by the rules that match the action along the hierarchy of the node: it denies when
  there is none, when one of them relaxes an earlier one without justification, when one denies, or when the role is not
  admitted; otherwise it allows when the request shown is an approval of this action and tenant or a break-glass override, or
  when every rule allows with no approver; and otherwise it asks for approval. So an action is allowed without an approval exactly when
  every matching rule allows it with no approver, whatever its risk tier: the promise in the documentation of the engine
  that a HIGH or CRITICAL action without an approval is never allowed is not kept (\<open>critical_without_approval\<close> below).
  Every decision is appended to the log, and the approval service changes only by the one pending
  request that a decision to ask for approval names, for at least as many approvers as the policy and the risk tier require.
\<close>

theorem evaluate_refines_decide:
  "let rules = matching_rules (ancestor_chain (en_registry s) tenant_id node_id) action;
       ep = projr (resolve E now (en_registry s) tenant_id node_id action);
       (d, s') = evaluate E now did rid action tenant_id node_id requester_id role existing s;
       approved = approval_valid (en_approvals s) action tenant_id existing;
       req = engine_request now rid ep action tenant_id node_id requester_id in
   gd_verdict d = decide rules (role_admitted rules ep role) approved \<and>
   (gd_verdict d = ''allow'' \<and> \<not> approved \<longleftrightarrow>
      rules \<noteq> [] \<and> list_all (\<lambda>r. pr_verdict r = ALLOW \<and> pr_required_approvers r \<le> 0) rules \<and>
      role_admitted rules ep role \<and> \<not> approved) \<and>
   en_decisions s' = en_decisions s @ [d] \<and> en_registry s' = en_registry s \<and>
   (if gd_verdict d = ''needs_approval''
    then gd_approval_request_id d = Some rid \<and> get_request (en_approvals s') rid = Some req \<and>
      en_approvals s' = snd (create_request E now req (en_approvals s)) \<and> fresh_request req \<and>
      aq_required_approvers req =
        max (ep_required_approvers ep) (tr_required_approvers (get_approval_requirements action))
    else en_approvals s' = en_approvals s)"
proof -
  let ?rules = "matching_rules (ancestor_chain (en_registry s) tenant_id node_id) action"
  note ev = engine_cases [of E now did rid action tenant_id node_id requester_id role existing s]
  note v = ev(1) [unfolded policy_verdict_decide [OF refl]]
  have "DENY \<notin> pr_verdict ` set rules \<and> \<not> unjustified_relaxation rules" if "list_all permits rules" for rules
    using that by (auto simp: list_all_iff permits_def unjustified_relaxation_def)
  then have "decide rules adm b = ''allow'' \<and> \<not> b \<longleftrightarrow> rules \<noteq> [] \<and> list_all permits rules \<and> adm \<and> \<not> b" for rules adm b
    by (auto simp: decide_def)
  then show ?thesis
    using v ev(2-5) permits_def [abs_def]
    by (simp add: Let_def case_prod_beta create_request_def get_request_def engine_request_def fresh_request_def)
qed

subsection \<open>The engine with its approval service\<close>

text \<open>
  The calls on the engine and on the approval service it holds, and changes of the registry.
  Requests come from the engine alone, as in the program.
\<close>

inductive policy_step :: "env \<Rightarrow> engine \<Rightarrow> engine \<Rightarrow> bool" for E where
  evaluate: "policy_step E s
    (snd (evaluate E now did rid action tenant_id node_id requester_id role existing s))"
| approve: "policy_step E s
    (s\<lparr>en_approvals := snd (approve E clk did rid actor comment (en_approvals s))\<rparr>)"
| deny: "policy_step E s
    (s\<lparr>en_approvals := snd (deny E clk did rid actor comment (en_approvals s))\<rparr>)"
| break_glass: "policy_step E s
    (s\<lparr>en_approvals := snd (break_glass E clk did rid actor just (en_approvals s))\<rparr>)"
| expire: "policy_step E s (s\<lparr>en_approvals := snd (expire_stale E clk (en_approvals s))\<rparr>)"
| register: "policy_step E s (s\<lparr>en_registry := register nd (en_registry s)\<rparr>)"

text \<open>The fields of a request that no decision changes.\<close>

definition static_part :: "approval_request \<Rightarrow> string \<times> string \<times> string \<times> int" where
  "static_part r = (aq_action r, aq_tenant_id r, aq_requester_id r, aq_required_approvers r)"

definition tier_respected :: "approval_request \<Rightarrow> bool" where
  "tier_respected r \<longleftrightarrow>
     tr_required_approvers (get_approval_requirements (aq_action r)) \<le> aq_required_approvers r"

definition engine_ok :: "engine \<Rightarrow> bool" where
  "engine_ok s \<longleftrightarrow> service_ok (en_approvals s) \<and> (\<forall>(k, r)\<in>set (ap_requests (en_approvals s)). tier_respected r)"

text \<open>A call that keeps the static part of every request.\<close>

definition keeps_static :: "approval_service \<Rightarrow> approval_service \<Rightarrow> bool" where
  "keeps_static s t \<longleftrightarrow> (\<forall>(k, r')\<in>set (ap_requests t). \<exists>r. (k, r) \<in> set (ap_requests s) \<and> static_part r' = static_part r)"

lemma keeps_static_refl [simp]: "keeps_static s s"
  by (auto simp: keeps_static_def)

lemma keeps_static_put:
  assumes "(rid, r) \<in> set (ap_requests s)" "static_part r' = static_part r"
    and "ap_requests t = dict_put rid r' (ap_requests s)"
  shows "keeps_static s t"
  using assms set_dict_put [of rid r' "ap_requests s"] by (fastforce simp: keeps_static_def)

lemma keeps_static_put_audit:
  "(rid, r) \<in> set (ap_requests s) \<Longrightarrow> static_part r' = static_part r \<Longrightarrow>
   keeps_static s (audit E now rid ev actor detail review (put_request rid r' s))"
  by (rule keeps_static_put) auto

lemma get_request_mem: "get_request s rid = Some r \<Longrightarrow> (rid, r) \<in> set (ap_requests s)"
  by (auto simp: get_request_def dest: map_of_SomeD)

lemma keeps_static_get_active:
  "get_active E clk rid s = (res, t) \<Longrightarrow> keeps_static s t"
  by (cases rule: get_active_cases [of s rid E clk])
    (auto simp: static_part_def dest!: get_request_mem intro!: keeps_static_put_audit)

lemma get_active_request:
  "get_active E clk rid s = (Inr r, t) \<Longrightarrow> (rid, r) \<in> set (ap_requests s) \<and> t = s"
  by (cases rule: get_active_cases [of s rid E clk]) (auto dest: get_request_mem)

lemma keeps_static_approve: "keeps_static s (snd (approve E clk did rid actor comment s))"
proof (cases rule: approve_cases [of E clk rid s did actor comment])
  case (refused e s')
  then show ?thesis using keeps_static_get_active by auto
next
  case (recorded r s')
  have "(rid, r) \<in> set (ap_requests s)" using get_active_request [OF recorded(1)] by simp
  moreover have "static_part (add_approval (clk 1) did rid actor comment r) = static_part r"
    by (simp add: static_part_def add_approval_def Let_def)
  ultimately show ?thesis using recorded(5,6) by (simp add: keeps_static_put)
qed simp

lemma keeps_static_deny: "keeps_static s (snd (deny E clk did rid actor comment s))"
proof (cases "get_active E clk rid s")
  case (Pair res s1)
  show ?thesis
  proof (cases res)
    case (Inl e)
    then show ?thesis using keeps_static_get_active [OF Pair] Pair by (simp add: deny_def)
  next
    case (Inr r)
    with Pair get_active_request [of E clk rid s r s1] have r: "(rid, r) \<in> set (ap_requests s)" "s1 = s"
      by auto
    then show ?thesis using Pair Inr
      by (auto simp: deny_def Let_def static_part_def split: sum.split
          intro!: keeps_static_put_audit [OF r(1)])
  qed
qed

lemma keeps_static_break_glass: "keeps_static s (snd (break_glass E clk did rid actor just s))"
proof (cases "get_request s rid")
  case (Some r)
  then show ?thesis
    by (auto simp: break_glass_def Let_def static_part_def split: sum.split
        intro!: keeps_static_put_audit [OF get_request_mem [OF Some]])
qed (simp add: break_glass_def)

lemma keeps_static_expire_loop:
  "set rs \<subseteq> set (ap_requests s0) \<Longrightarrow> keeps_static s0 s \<Longrightarrow> keeps_static s0 (snd (expire_loop E clk n rs s))"
proof (induction rs arbitrary: n s)
  case (Cons p rs)
  obtain k r where p: "p = (k, r)" by (cases p)
  let ?s1 = "audit E (clk (Suc n)) (aq_request_id r) EvExpired ''system'' ''TTL exceeded'' False
    (put_request k (r\<lparr>aq_status := EXPIRED\<rparr>) s)"
  have "keeps_static s0 ?s1"
    using Cons.prems p set_dict_put [of k "r\<lparr>aq_status := EXPIRED\<rparr>" "ap_requests s"]
    by (fastforce simp: keeps_static_def static_part_def)
  then show ?case using Cons p by (simp add: Let_def case_prod_beta)
qed simp

lemmas keeps_static_calls =
  keeps_static_approve keeps_static_deny keeps_static_break_glass
  keeps_static_expire_loop [OF subset_refl keeps_static_refl, where n = 0, folded expire_stale_def]

lemma engine_ok_static:
  assumes "engine_ok s" "keeps_static (en_approvals s) ap" "service_ok ap"
  shows "engine_ok (s\<lparr>en_approvals := ap\<rparr>)"
  using assms by (fastforce simp: engine_ok_def keeps_static_def tier_respected_def static_part_def)

lemma engine_ok_evaluate:
  assumes "engine_ok s"
  shows "engine_ok (snd (evaluate E now did rid action tenant_id node_id requester_id role existing s))"
proof -
  let ?r = "evaluate E now did rid action tenant_id node_id requester_id role existing s"
  let ?req = "engine_request now rid (projr (resolve E now (en_registry s) tenant_id node_id action))
    action tenant_id node_id requester_id"
  note ev = engine_cases [of E now did rid action tenant_id node_id requester_id role existing s]
  have "fresh_request ?req" "tier_respected ?req"
    by (simp_all add: fresh_request_def engine_request_def tier_respected_def Let_def)
  moreover have "set (ap_requests (snd (create_request E now ?req (en_approvals s)))) \<subseteq>
      insert (aq_request_id ?req, ?req) (set (ap_requests (en_approvals s)))"
    by (simp add: create_request_def set_dict_put)
  moreover have "service_ok (snd (create_request E now ?req (en_approvals s)))"
    using create_keeps assms calculation(1) by (auto simp: engine_ok_def)
  ultimately show ?thesis
    using assms ev(4) by (auto simp: engine_ok_def)
qed

lemma service_ok_calls:
  assumes "service_ok s"
  shows "service_ok (snd (approve E clk did rid actor comment s))"
    "service_ok (snd (deny E clk did rid actor comment s))"
    "service_ok (snd (break_glass E clk did rid actor just s))"
    "service_ok (snd (expire_stale E clk s))"
  using approve_keeps [OF assms] deny_keeps [OF assms] break_glass_keeps [OF assms] expire_keeps [OF assms] by auto

lemma engine_ok_service: "engine_ok s \<Longrightarrow> service_ok (en_approvals s)"
  by (simp add: engine_ok_def)

lemma engine_ok_register: "engine_ok s \<Longrightarrow> engine_ok (s\<lparr>en_registry := reg\<rparr>)"
  by (simp add: engine_ok_def)

interpretation engine: step_invariant "policy_step E" engine_ok for E
proof
  fix s t
  assume "policy_step E s t" "engine_ok s"
  then show "engine_ok t"
    by (cases rule: policy_step.cases)
      (auto intro: engine_ok_static keeps_static_calls service_ok_calls engine_ok_evaluate
        engine_ok_register engine_ok_service)
qed

lemma engine_ok_new [simp]: "engine_ok (new_engine reg)"
  by (simp add: engine_ok_def new_engine_def) (simp add: new_service_def)

text \<open>
  C23. In every state that calls on the engine and its approval service can reach, an action is allowed only when its policy
  resolves to something other than DENY and admits the role, and in one of two ways. Where the resolved policy needs approval, that is,
  where a matching rule says so or asks for an approver, there is a request for the same action and tenant that at least as many distinct
  people as the risk tier of the action demands (two for a CRITICAL action) have approved, none of them the requester of that
  request, or a break-glass override, of any action and tenant, that the audit log holds for review. Where it needs none, some rule
  matches and every matching rule allows the action with no approver; then no approval is asked for, also for a HIGH or
  CRITICAL action, against the documentation of the engine.
\<close>

theorem allowed_means_authorised:
  assumes "(policy_step E)\<^sup>*\<^sup>* (new_engine reg) s"
    and "evaluate E now did rid action tenant_id node_id requester_id role existing s = (d, s')"
    and "gd_verdict d = ''allow''"
  shows "\<exists>ep. resolve E now (en_registry s) tenant_id node_id action = Inr ep \<and>
    ep_verdict ep \<noteq> DENY \<and> admits_role ep role \<and>
    (if approval_needed ep then
      (\<exists>aid r. existing = Some aid \<and> get_request (en_approvals s) aid = Some r \<and>
        (aq_status r = APPROVED \<and> aq_action r = action \<and> aq_tenant_id r = tenant_id \<and>
           tr_required_approvers (get_approval_requirements action) \<le> int (card (approved_by r)) \<and>
           aq_requester_id r \<notin> approved_by r \<or>
         aq_status r = BREAK_GLASS \<and> reviewed (ap_audit_log (en_approvals s)) aid r))
     else (let rules = matching_rules (ancestor_chain (en_registry s) tenant_id node_id) action in
       rules \<noteq> [] \<and> list_all (\<lambda>r. pr_verdict r = ALLOW \<and> pr_required_approvers r \<le> 0) rules))"
proof -
  have inv: "engine_ok s" by (rule engine.reachable_inv [OF assms(1) engine_ok_new])
  have "policy_verdict (resolve E now (en_registry s) tenant_id node_id action) role
      (approval_valid (en_approvals s) action tenant_id existing) = ''allow''"
    using engine_cases(1) [of E now did rid action tenant_id node_id requester_id role existing s]
    by (simp add: assms(2,3))
  then obtain ep where ep: "resolve E now (en_registry s) tenant_id node_id action = Inr ep"
    "ep_verdict ep \<noteq> DENY" "admits_role ep role"
    "approval_needed ep \<longrightarrow> approval_valid (en_approvals s) action tenant_id existing"
    by (auto simp: policy_verdict_def split: sum.splits if_splits)
  have ok: "request_ok (ap_audit_log (en_approvals s)) aid r \<and> tier_respected r"
    if "get_request (en_approvals s) aid = Some r" for aid r
    using inv service_ok_lookup [OF engine_ok_service [OF inv] that] get_request_mem [OF that]
    by (auto simp: engine_ok_def)
  have "aq_requester_id r \<notin> approved_by r \<and>
      tr_required_approvers (get_approval_requirements (aq_action r)) \<le> int (card (approved_by r))"
    if "get_request (en_approvals s) aid = Some r" "aq_status r = APPROVED" for aid r
    using ok [OF that(1)] that(2)
    by (auto simp: request_ok_def quorum_def tier_respected_def decision_ok_def mem_approved_by)
  moreover have "reviewed (ap_audit_log (en_approvals s)) aid r"
    if "get_request (en_approvals s) aid = Some r" "aq_status r = BREAK_GLASS" for aid r
    using ok [OF that(1)] that(2) by (simp add: request_ok_def)
  ultimately have "approval_needed ep \<longrightarrow>
      (\<exists>aid r. existing = Some aid \<and> get_request (en_approvals s) aid = Some r \<and>
        (aq_status r = APPROVED \<and> aq_action r = action \<and> aq_tenant_id r = tenant_id \<and>
           tr_required_approvers (get_approval_requirements action) \<le> int (card (approved_by r)) \<and>
           aq_requester_id r \<notin> approved_by r \<or>
         aq_status r = BREAK_GLASS \<and> reviewed (ap_audit_log (en_approvals s)) aid r))"
    using ep(4) by (fastforce simp: approval_valid_def)
  moreover have "rules \<noteq> [] \<and> list_all permits rules"
    if "\<not> approval_needed ep" "rules = matching_rules (ancestor_chain (en_registry s) tenant_id node_id) action" for rules
    using policy_of_rules(1,2) [OF ep(1) that(2)] that(1) ep(2) by blast
  ultimately show ?thesis using ep(1-3) unfolding permits_def [abs_def] Let_def by auto
qed

text \<open>
  Each hook raises exactly when the engine denies its action, returns the identifier of a request that
  is now pending in the service when approval is missing, and returns nothing exactly when the action is
  allowed; a read of a quarantined partition is refused to everyone but the forensic auditor.
\<close>

theorem hooks_follow_engine:
  "let v = policy_verdict (resolve E now (en_registry s) t n ''apply_intervention'') role
             (approval_valid (en_approvals s) ''apply_intervention'' t existing);
       (res, s') = pre_execution_check E now did rid t n requester role existing s in
   (isl res \<longleftrightarrow> v = ''deny'') \<and> (res = Inr None \<longleftrightarrow> v = ''allow'') \<and>
   (if v = ''needs_approval''
    then res = Inr (Some rid) \<and> map_option aq_status (get_request (en_approvals s') rid) = Some PENDING
    else en_approvals s' = en_approvals s) \<and>
   (isl (pre_memory_read_check p quarantined role) \<longleftrightarrow> p \<in> set quarantined \<and> role \<noteq> ''forensic_auditor'')"
proof -
  let ?r = "evaluate E now did rid ''apply_intervention'' t n requester role existing s"
  note ev = engine_cases [of E now did rid "''apply_intervention''" t n requester role existing s]
  have v: "gd_verdict (fst ?r) \<in> {''deny'', ''needs_approval'', ''allow''}"
    unfolding ev(1) by (auto simp: policy_verdict_def split: sum.splits)
  have "isl (pre_memory_read_check p quarantined role) \<longleftrightarrow> p \<in> set quarantined \<and> role \<noteq> ''forensic_auditor''"
    by (simp add: pre_memory_read_check_def)
  moreover have "map_option aq_status (get_request (en_approvals (snd ?r)) rid) = Some PENDING"
    if "gd_verdict (fst ?r) = ''needs_approval''"
    using ev(4) that by (simp add: create_request_def get_request_def engine_request_def Let_def)
  ultimately show ?thesis
    using v ev(4,5) by (auto simp: pre_execution_check_def check_def case_prod_beta ev(1) [symmetric])
qed

subsection \<open>A request approved by two people\<close>

definition demo_engine :: engine where
  "demo_engine = snd (evaluate policy_env 0 ''e1'' ''q'' ''apply.fix'' ''t'' ''agent'' ''alice'' ''ops'' None
     (new_engine demo_registry))"

definition demo_engine_approved :: engine where
  "demo_engine_approved =
     (let s1 = demo_engine\<lparr>en_approvals := snd (approve policy_env (\<lambda>_. 1) ''d1'' ''q'' ''bob'' [] (en_approvals demo_engine))\<rparr> in
      s1\<lparr>en_approvals := snd (approve policy_env (\<lambda>_. 2) ''d2'' ''q'' ''carol'' [] (en_approvals s1))\<rparr>)"

lemma demo_engine_reachable: "(policy_step policy_env)\<^sup>*\<^sup>* (new_engine demo_registry) demo_engine_approved"
proof -
  have "(policy_step policy_env)\<^sup>*\<^sup>* (new_engine demo_registry) demo_engine"
    unfolding demo_engine_def by (rule r_into_rtranclp) (rule policy_step.evaluate)
  from rtranclp.rtrancl_into_rtrancl [OF this policy_step.approve]
  have "(policy_step policy_env)\<^sup>*\<^sup>* (new_engine demo_registry)
    (demo_engine\<lparr>en_approvals := snd (approve policy_env (\<lambda>_. 1) ''d1'' ''q'' ''bob'' [] (en_approvals demo_engine))\<rparr>)" .
  from rtranclp.rtrancl_into_rtrancl [OF this policy_step.approve] show ?thesis
    unfolding demo_engine_approved_def Let_def .
qed

lemma demo_engine_approvals:
  "\<exists>ep. ep_required_approvers ep = 2 \<and> en_registry demo_engine = demo_registry \<and>
     en_approvals demo_engine = snd (create_request policy_env 0
       (engine_request 0 ''q'' ep ''apply.fix'' ''t'' ''agent'' ''alice'') new_service)"
proof -
  obtain ep where ep: "resolve policy_env 0 demo_registry ''t'' ''agent'' ''apply.fix'' = Inr ep"
    "ep_verdict ep = NEEDS_APPROVAL" "ep_required_approvers ep = 2" "ep_allowed_roles ep = [''ops'']"
    using demo_resolve by blast
  note ev = engine_cases [of policy_env 0 "''e1''" "''q''" "''apply.fix''" "''t''" "''agent''"
      "''alice''" "''ops''" None "new_engine demo_registry", folded demo_engine_def]
  have "gd_verdict (fst (evaluate policy_env 0 ''e1'' ''q'' ''apply.fix'' ''t'' ''agent'' ''alice'' ''ops'' None
      (new_engine demo_registry))) = ''needs_approval''"
    unfolding ev(1) using ep
    by (simp add: policy_verdict_def new_engine_def approval_needed_def admits_role_def approval_valid_def)
  with ev(3,4) ep show ?thesis by (intro exI [of _ ep]) (simp add: new_engine_def)
qed

lemma demo_engine_request:
  "\<exists>r. get_request (en_approvals demo_engine_approved) ''q'' = Some r \<and> aq_status r = APPROVED \<and>
     aq_action r = ''apply.fix'' \<and> aq_tenant_id r = ''t''"
proof -
  obtain ep where ep: "ep_required_approvers ep = 2" "en_approvals demo_engine = snd (create_request policy_env 0
       (engine_request 0 ''q'' ep ''apply.fix'' ''t'' ''agent'' ''alice'') new_service)"
    using demo_engine_approvals by blast
  have "tr_required_approvers (get_approval_requirements ''apply.fix'') \<le> 2"
    by (cases "get_tier ''apply.fix''") (simp_all add: get_approval_requirements_def)
  then have "max (ep_required_approvers ep) (tr_required_approvers (get_approval_requirements ''apply.fix'')) = 2"
    using ep(1) by simp
  then show ?thesis
    by (simp add: demo_engine_approved_def ep(2) engine_request_def demo_service_defs del: set_filter)
qed

theorem allowed_means_authorised_witness:
  "\<exists>d s' aid r. evaluate policy_env 3 ''e2'' ''q2'' ''apply.fix'' ''t'' ''agent'' ''alice'' ''ops'' (Some ''q'')
       demo_engine_approved = (d, s') \<and> gd_verdict d = ''allow'' \<and>
     get_request (en_approvals demo_engine_approved) aid = Some r \<and> aq_requester_id r \<notin> approved_by r"
proof -
  obtain d s' where e: "evaluate policy_env 3 ''e2'' ''q2'' ''apply.fix'' ''t'' ''agent'' ''alice'' ''ops'' (Some ''q'')
       demo_engine_approved = (d, s')" by fastforce
  obtain ep where ep: "resolve policy_env 3 demo_registry ''t'' ''agent'' ''apply.fix'' = Inr ep"
    "ep_verdict ep = NEEDS_APPROVAL" "ep_required_approvers ep = 2" "ep_allowed_roles ep = [''ops'']"
    using demo_resolve by blast
  obtain r where r: "get_request (en_approvals demo_engine_approved) ''q'' = Some r" "aq_status r = APPROVED"
    "aq_action r = ''apply.fix''" "aq_tenant_id r = ''t''" using demo_engine_request by blast
  have reg: "en_registry demo_engine_approved = demo_registry"
    using demo_engine_approvals by (auto simp: demo_engine_approved_def Let_def)
  have "gd_verdict d = ''allow''"
    using engine_cases(1) [of policy_env 3 "''e2''" "''q2''" "''apply.fix''" "''t''" "''agent''"
      "''alice''" "''ops''" "Some ''q''" demo_engine_approved] ep r
    by (simp add: e reg policy_verdict_def admits_role_def approval_valid_def)
  with allowed_means_authorised [OF demo_engine_reachable e this] ep r e show ?thesis
    by (auto simp: reg approval_needed_def)
qed

text \<open>
  The tier of an action is consulted only for the request the engine creates: a rule that allows an
  action with no approver lets a CRITICAL action through without any approval.
\<close>

definition open_registry :: registry where
  "open_registry = register (demo_node ''n'' None
     [(demo_rule ALLOW 0 None [] ''r'')\<lparr>pr_action_pattern := ''delete_memory''\<rparr>]) []"

lemma critical_without_approval:
  "get_tier ''delete_memory'' = TierCritical \<and>
   gd_verdict (fst (evaluate policy_env 0 ''e'' ''q'' ''delete_memory'' ''t'' ''n'' ''alice'' ''ops'' None
     (new_engine open_registry))) = ''allow''"
proof -
  have c: "ancestor_chain open_registry ''t'' ''n'' =
      [demo_node ''n'' None [(demo_rule ALLOW 0 None [] ''r'')\<lparr>pr_action_pattern := ''delete_memory''\<rparr>]]"
    by (simp add: ancestor_chain_def open_registry_def demo_policy_defs)
  have m: "matching_rules (ancestor_chain open_registry ''t'' ''n'') ''delete_memory'' =
      [(demo_rule ALLOW 0 None [] ''r'')\<lparr>pr_action_pattern := ''delete_memory''\<rparr>]"
    by (simp add: c matching_rules_def demo_node_def get_rule_for_action_def action_matches_def endswith_def
        demo_rule_def)
  have "get_tier ''delete_memory'' = TierCritical"
    by (simp add: get_tier_def ACTION_TIER_MAP_def py_lower_def lower_char_def)
  moreover have "policy_verdict (resolve policy_env 0 open_registry ''t'' ''n'' ''delete_memory'') ''ops'' b = ''allow''" for b
    by (simp add: resolve_def Let_def m)
      (simp add: c demo_rule_def tighten_verdict_def start_resolution_def tighten_limits_def
        policy_verdict_def admits_role_def approval_needed_def)
  ultimately show ?thesis by (simp add: engine_cases new_engine_def)
qed

end
