(* ===== verification/Merkle_Dag.thy ===== *)
theory Merkle_Dag
  imports Crypto_Env "HOL-Library.Multiset"
begin

section \<open>The Merkle DAG of trace states\<close>

text \<open>
  \<open>packages/replay/src/merkle_dag.py\<close>: content-addressed nodes whose hash covers the payload and the
  hashes of the parents, insertion with de-duplication, forks of a lineage, and the
  integrity checks.

  Digests are hexadecimal texts, so their ASCII encoding is the text itself. The length prefix has
  eight bytes; the theorems on hashes name the bound on the lengths. The identifiers of the children
  are a Python set: the order of iteration is an argument \<open>ord\<close> that lists a set of identifiers.
\<close>

record merkle_node =
  mn_node_id :: string
  mn_payload :: json
  mn_parent_hashes :: "string list"
  mn_version :: string
  mn_node_hash :: string
  mn_children_ids :: "string list"

datatype merkle_error =
    UnsupportedVersion string
  | ParentNotFound string
  | DuplicateMutation string
  | TargetNotFound string
  | NoSuchKey string
  | CycleDetected

definition length_prefix_encode :: "string \<Rightarrow> string" where
  "length_prefix_encode b = be_bytes 8 (length b) @ b"

definition payload_bytes :: "env \<Rightarrow> json \<Rightarrow> string" where
  "payload_bytes E p = utf8 (dumps default_style (float_repr E) p)"

definition content_hash :: "env \<Rightarrow> json \<Rightarrow> string" where
  "content_hash E p = sha256 E (payload_bytes E p)"

text \<open>The bytes of the two domains of version 1, and of the legacy version.\<close>

definition v1_message :: "env \<Rightarrow> json \<Rightarrow> string list \<Rightarrow> string" where
  "v1_message E payload parents =
     (if parents = [] then [char_of (0 :: nat)] @ ''V1'' @ length_prefix_encode (payload_bytes E payload)
      else [char_of (1 :: nat)] @ ''V1'' @ length_prefix_encode (payload_bytes E payload) @
        concat (map length_prefix_encode (sort parents)))"

definition v0_message :: "env \<Rightarrow> json \<Rightarrow> string list \<Rightarrow> string" where
  "v0_message E payload parents =
     [char_of (if parents = [] then 0 else 1 :: nat)] @ content_hash E payload @ concat (sort parents)"

definition compute_hash :: "env \<Rightarrow> string \<Rightarrow> json \<Rightarrow> string list \<Rightarrow> (merkle_error, string) result" where
  "compute_hash E version payload parents =
     (if version = ''v0'' then Inr (sha256 E (v0_message E payload parents))
      else if version = ''v1'' then Inr (sha256 E (v1_message E payload parents))
      else Inl (UnsupportedVersion version))"

definition make_node :: "env \<Rightarrow> string \<Rightarrow> json \<Rightarrow> string list \<Rightarrow> string \<Rightarrow> (merkle_error, merkle_node) result" where
  "make_node E nid payload parents version =
     rbind (compute_hash E version payload parents) (\<lambda>h. Inr
       \<lparr>mn_node_id = nid, mn_payload = payload, mn_parent_hashes = parents, mn_version = version,
        mn_node_hash = h, mn_children_ids = []\<rparr>)"

record merkle_store =
  ms_blobs :: "(string \<times> json) list"
  ms_nodes :: "(string \<times> merkle_node) list"
  ms_hash_index :: "(string \<times> string) list"

definition new_store :: merkle_store where
  "new_store = \<lparr>ms_blobs = [], ms_nodes = [], ms_hash_index = []\<rparr>"

definition get_node :: "merkle_store \<Rightarrow> string \<Rightarrow> merkle_node option" where
  "get_node s nid = map_of (ms_nodes s) nid"

definition get_by_hash :: "merkle_store \<Rightarrow> string \<Rightarrow> merkle_node option" where
  "get_by_hash s h = (if truthy (map_of (ms_hash_index s) h)
     then get_node s (the (map_of (ms_hash_index s) h)) else None)"

subsection \<open>Insertion\<close>

fun parent_hashes :: "merkle_store \<Rightarrow> string list \<Rightarrow> (merkle_error, string list) result" where
  "parent_hashes s [] = Inr []"
| "parent_hashes s (p # ps) =
     (case get_node s p of
        None \<Rightarrow> Inl (ParentNotFound p)
      | Some n \<Rightarrow> rbind (parent_hashes s ps) (\<lambda>hs. Inr (mn_node_hash n # hs)))"

definition add_child :: "string \<Rightarrow> string \<Rightarrow> (string \<times> merkle_node) list \<Rightarrow> (string \<times> merkle_node) list" where
  "add_child nid pid ns =
     (case map_of ns pid of
        None \<Rightarrow> ns
      | Some n \<Rightarrow> dict_put pid (n\<lparr>mn_children_ids := List.insert nid (mn_children_ids n)\<rparr>) ns)"

definition add_node ::
    "env \<Rightarrow> string \<Rightarrow> json \<Rightarrow> string list \<Rightarrow> merkle_store \<Rightarrow> (merkle_error, merkle_node \<times> merkle_store) result" where
  "add_node E nid payload parent_ids s =
     rbind (parent_hashes s parent_ids) (\<lambda>phs.
     rbind (make_node E nid payload phs ''v1'') (\<lambda>node.
       case get_node s nid of
         Some existing \<Rightarrow>
           if mn_node_hash existing \<noteq> mn_node_hash node then Inl (DuplicateMutation nid)
           else Inr (existing, s)
       | None \<Rightarrow>
           (case map_of (ms_hash_index s) (mn_node_hash node) of
              Some eid \<Rightarrow>
                (case get_node s eid of None \<Rightarrow> Inl (NoSuchKey eid) | Some n \<Rightarrow> Inr (n, s))
            | None \<Rightarrow>
                let blob_key = content_hash E payload;
                    blobs = (if blob_key \<in> set (map fst (ms_blobs s)) then ms_blobs s
                             else dict_put blob_key payload (ms_blobs s));
                    nodes = fold (add_child nid) parent_ids (dict_put nid node (ms_nodes s)) in
                Inr (the (map_of nodes nid),
                     s\<lparr>ms_blobs := blobs, ms_nodes := nodes,
                       ms_hash_index := dict_put (mn_node_hash node) nid (ms_hash_index s)\<rparr>))))"

subsection \<open>Forks of a lineage\<close>

text \<open>The breadth-first search for the descendants; \<open>ord\<close> lists a Python set.\<close>

fun push_new :: "string list \<Rightarrow> string list \<Rightarrow> string list \<Rightarrow> string list \<times> string list" where
  "push_new [] visited queue = (visited, queue)"
| "push_new (c # cs) visited queue =
     (if c \<in> set visited then push_new cs visited queue
      else push_new cs (visited @ [c]) (queue @ [c]))"

definition children_of :: "(string list \<Rightarrow> string list) \<Rightarrow> merkle_store \<Rightarrow> string \<Rightarrow> string list" where
  "children_of ord s nid = (case get_node s nid of None \<Rightarrow> [] | Some n \<Rightarrow> ord (mn_children_ids n))"

definition child_universe :: "(string list \<Rightarrow> string list) \<Rightarrow> merkle_store \<Rightarrow> string set" where
  "child_universe ord s = (\<Union>(i, n) \<in> set (ms_nodes s). set (ord (mn_children_ids n)))"

lemma finite_child_universe [simp]: "finite (child_universe ord s)"
  by (auto simp: child_universe_def)

lemma children_of_universe: "set (children_of ord s nid) \<subseteq> child_universe ord s"
  by (cases "get_node s nid")
     (force simp: children_of_def child_universe_def get_node_def dest: map_of_SomeD)+

lemma push_new_measure:
  assumes "push_new cs v q = (v', q')" "set cs \<subseteq> U" "finite U"
  shows "card (U - set v') + length q' = card (U - set v) + length q"
  using assms
proof (induction cs v q rule: push_new.induct)
  case (2 c cs v q)
  have "Suc (card (U - insert c (set v))) = card (U - set v)" if "c \<notin> set v"
    using that 2(4,5) card_Suc_Diff1 [of "U - set v" c]
    by (simp add: Diff_insert [symmetric] insert_commute)
  then show ?case using 2 by (auto split: if_splits)
qed simp

function descend ::
    "(string list \<Rightarrow> string list) \<Rightarrow> merkle_store \<Rightarrow> string list \<Rightarrow> string list \<Rightarrow> string list \<Rightarrow> string list" where
  "descend ord s visited [] descendants = descendants"
| "descend ord s visited (c # queue) descendants =
     (case push_new (children_of ord s c) visited queue of
        (visited', queue') \<Rightarrow> descend ord s visited' queue' (List.insert c descendants))"
  by pat_completeness auto

termination
  by (relation "measure (\<lambda>(ord, s, visited, queue, descendants).
        card (child_universe ord s - set visited) + length queue)")
     (auto dest!: push_new_measure [OF sym children_of_universe finite_child_universe])

text \<open>The in-degrees inside the descendants, a dictionary in the order of its first assignment.\<close>

definition bump :: "int \<Rightarrow> string \<Rightarrow> (string \<times> int) list \<Rightarrow> (string \<times> int) list" where
  "bump k c deg = (case map_of deg c of None \<Rightarrow> deg | Some n \<Rightarrow> dict_put c (n + k) deg)"

definition in_degrees :: "(string list \<Rightarrow> string list) \<Rightarrow> merkle_store \<Rightarrow> string list \<Rightarrow> (string \<times> int) list" where
  "in_degrees ord s ds =
     fold (\<lambda>d. fold (bump 1) (children_of ord s d)) ds (map (\<lambda>d. (d, 0)) ds)"

fun release :: "string list \<Rightarrow> (string \<times> int) list \<Rightarrow> string list \<Rightarrow> (string \<times> int) list \<times> string list" where
  "release [] deg queue = (deg, queue)"
| "release (c # cs) deg queue =
     (case map_of deg c of
        None \<Rightarrow> release cs deg queue
      | Some n \<Rightarrow> release cs (bump (-1) c deg) (if n - 1 = 0 then queue @ [c] else queue))"

definition pending :: "(string \<times> int) list \<Rightarrow> string set" where
  "pending deg = {c. \<exists>n > 0. map_of deg c = Some n}"

lemma finite_pending [simp]: "finite (pending deg)"
  by (rule finite_subset [of _ "dom (map_of deg)"]) (auto simp: pending_def finite_dom_map_of)

lemma release_measure:
  "release cs deg queue = (deg', queue') \<Longrightarrow>
     card (pending deg') + length queue' \<le> card (pending deg) + length queue"
proof (induction cs deg queue rule: release.induct)
  case (2 c cs deg queue)
  show ?case
  proof (cases "map_of deg c")
    case (Some n)
    have *: "pending (bump (-1) c deg) = (if n - 1 > 0 then pending deg else pending deg - {c})"
      using Some by (auto simp: pending_def bump_def split: if_splits)
    have "Suc (card (pending deg - {c})) = card (pending deg)" if "n = 1"
      using Some that by (intro card_Suc_Diff1 finite_pending) (auto simp: pending_def)
    moreover have "card (pending deg - {c}) \<le> card (pending deg)" by (intro card_mono) auto
    ultimately have "card (pending (bump (-1) c deg)) + (if n - 1 = 0 then 1 else 0) \<le> card (pending deg)"
      by (auto simp: *)
    then show ?thesis using 2 Some by (auto split: if_splits)
  qed (use 2 in simp)
qed simp

type_synonym fork_plan = "(string \<times> json \<times> string list) list"

definition fork_id :: "string \<Rightarrow> string" where
  "fork_id nid = nid @ ''_fork''"

definition remap_parents :: "merkle_store \<Rightarrow> string list \<Rightarrow> string list \<Rightarrow> string list" where
  "remap_parents s processed hs = concat (map (\<lambda>h.
     case map_of (ms_hash_index s) h of
       None \<Rightarrow> []
     | Some pid \<Rightarrow> if pid \<in> set processed then [fork_id pid] else if pid \<noteq> [] then [pid] else []) hs)"

text \<open>
  Kahn's loop. The dictionary \<open>old_to_new\<close> maps every processed node to its
  fork identifier, so the list of the processed nodes represents it.
\<close>

function topo_loop ::
    "(string list \<Rightarrow> string list) \<Rightarrow> merkle_store \<Rightarrow> string \<Rightarrow> json \<Rightarrow> (string \<times> int) list \<Rightarrow> string list \<Rightarrow>
       string list \<Rightarrow> fork_plan \<Rightarrow> (merkle_error, string list \<times> fork_plan) result" where
  "topo_loop ord s target payload deg [] processed plan = Inr (processed, plan)"
| "topo_loop ord s target payload deg (c # queue) processed plan =
     (case get_node s c of
        None \<Rightarrow> Inl (NoSuchKey c)
      | Some n \<Rightarrow>
          (case release (ord (mn_children_ids n)) deg queue of
             (deg', queue') \<Rightarrow>
               topo_loop ord s target payload deg' queue' (processed @ [c])
                 (plan @ [(fork_id c, if c = target then payload else mn_payload n,
                           remap_parents s processed (mn_parent_hashes n))])))"
  by pat_completeness auto

termination
  by (relation "measure (\<lambda>(ord, s, target, payload, deg, queue, processed, plan).
        card (pending deg) + length queue)")
     (auto dest!: release_measure [OF sym])

text \<open>
  The commit of the buffered nodes: a node that is refused ends the call, and those inserted before
  it stay in the store.
\<close>

fun commit ::
    "env \<Rightarrow> string \<Rightarrow> fork_plan \<Rightarrow> merkle_node option \<Rightarrow> merkle_store \<Rightarrow>
       (merkle_error, merkle_node option) result \<times> merkle_store" where
  "commit E target [] forked s = (Inr forked, s)"
| "commit E target ((nid, payload, parent_ids) # plan) forked s =
     (case add_node E nid payload parent_ids s of
        Inl e \<Rightarrow> (Inl e, s)
      | Inr (node, s') \<Rightarrow> commit E target plan (if nid = fork_id target then Some node else forked) s')"

definition fork_lineage ::
    "env \<Rightarrow> (string list \<Rightarrow> string list) \<Rightarrow> string \<Rightarrow> json \<Rightarrow> merkle_store \<Rightarrow>
       (merkle_error, merkle_node option) result \<times> merkle_store" where
  "fork_lineage E ord target new_payload s =
     (case get_node s target of
        None \<Rightarrow> (Inl (TargetNotFound target), s)
      | Some _ \<Rightarrow>
          let descendants = descend ord s [target] [target] [];
              ds = ord descendants;
              deg = in_degrees ord s ds in
          (case topo_loop ord s target new_payload deg (map fst (filter (\<lambda>(d, k). k = 0) deg)) [] [] of
             Inl e \<Rightarrow> (Inl e, s)
           | Inr (processed, plan) \<Rightarrow>
               if length processed \<noteq> length descendants then (Inl CycleDetected, s)
               else commit E target plan None s))"

subsection \<open>Integrity checks\<close>

definition verify_chain :: "env \<Rightarrow> merkle_store \<Rightarrow> string \<Rightarrow> (merkle_error, bool) result" where
  "verify_chain E s nid =
     (case get_node s nid of
        None \<Rightarrow> Inr False
      | Some n \<Rightarrow>
          rbind (make_node E (mn_node_id n) (mn_payload n) (mn_parent_hashes n) (mn_version n))
            (\<lambda>r. Inr (mn_node_hash r = mn_node_hash n)))"

text \<open>The while loop of \<open>verify_path\<close>: it visits each stored node at most once.\<close>

function path_walk ::
    "env \<Rightarrow> merkle_store \<Rightarrow> string \<Rightarrow> string list \<Rightarrow> string \<Rightarrow> (merkle_error, bool) result" where
  "path_walk E s rid visited nid =
     (if nid = rid then verify_chain E s rid
      else if nid \<in> set visited then Inr False
      else case get_node s nid of
             None \<Rightarrow> Inr False
           | Some n \<Rightarrow>
               (case mn_parent_hashes n of
                  [] \<Rightarrow> Inr False
                | h # _ \<Rightarrow>
                    (case map_of (ms_hash_index s) h of
                       None \<Rightarrow> Inr False
                     | Some pid \<Rightarrow>
                         (case verify_chain E s pid of
                            Inl e \<Rightarrow> Inl e
                          | Inr ok \<Rightarrow> if \<not> ok then Inr False
                              else path_walk E s rid (nid # visited) pid))))"
  by pat_completeness auto

termination
proof (relation "measure (\<lambda>(E, s, rid, visited, nid). card (fst ` set (ms_nodes s) - set visited))")
  fix E :: env and s rid nid and visited :: "string list" and n :: merkle_node
  assume "nid \<notin> set visited" "get_node s nid = Some n"
  moreover from this(2) have "nid \<in> fst ` set (ms_nodes s)"
    by (force simp: get_node_def dest: map_of_SomeD)
  ultimately show "((E, s, rid, nid # visited, pid), E, s, rid, visited, nid)
      \<in> measure (\<lambda>(E, s, rid, visited, nid). card (fst ` set (ms_nodes s) - set visited))" for pid
    by (simp only: in_measure prod.case, intro psubset_card_mono) auto
qed simp

declare path_walk.simps [simp del]

definition verify_path :: "env \<Rightarrow> merkle_store \<Rightarrow> string \<Rightarrow> string \<Rightarrow> (merkle_error, bool) result" where
  "verify_path E s leaf_id root_id =
     rbind (verify_chain E s leaf_id) (\<lambda>ok. if \<not> ok then Inr False else path_walk E s root_id [] leaf_id)"

fun verify_all :: "env \<Rightarrow> merkle_store \<Rightarrow> string list \<Rightarrow> (merkle_error, bool) result" where
  "verify_all E s [] = Inr True"
| "verify_all E s (nid # nids) =
     rbind (verify_chain E s nid) (\<lambda>ok. if ok then verify_all E s nids else Inr False)"

definition verify_full_dag :: "env \<Rightarrow> merkle_store \<Rightarrow> (merkle_error, bool) result" where
  "verify_full_dag E s = verify_all E s (map fst (ms_nodes s))"

subsection \<open>The invariant of a store\<close>

text \<open>
  Every node is stored under its identifier with the digest of its content, its parents were stored
  before it, the hash index is exactly the inverse of the node registry, and the blobs hold
  every payload once under its content hash. The children of a node play no part: \<open>core\<close> drops them.
\<close>

fun core :: "string \<times> merkle_node \<Rightarrow> string \<times> merkle_node" where
  "core (i, n) = (i, n\<lparr>mn_children_ids := []\<rparr>)"

fun layered :: "env \<Rightarrow> string set \<Rightarrow> (string \<times> merkle_node) list \<Rightarrow> bool" where
  "layered E H [] = True"
| "layered E H ((i, n) # ns) =
     (mn_node_id n = i \<and> mn_version n = ''v1'' \<and>
      mn_node_hash n = sha256 E (v1_message E (mn_payload n) (mn_parent_hashes n)) \<and>
      set (mn_parent_hashes n) \<subseteq> H \<and> layered E (insert (mn_node_hash n) H) ns)"

definition node_hashes :: "(string \<times> merkle_node) list \<Rightarrow> string set" where
  "node_hashes ns = mn_node_hash ` snd ` set ns"

definition dag_ok :: "env \<Rightarrow> merkle_store \<Rightarrow> bool" where
  "dag_ok E s \<longleftrightarrow>
     distinct (map fst (ms_nodes s)) \<and> layered E {} (ms_nodes s) \<and>
     (\<forall>h i. map_of (ms_hash_index s) h = Some i \<longleftrightarrow> map_option mn_node_hash (get_node s i) = Some h) \<and>
     distinct (map fst (ms_blobs s)) \<and> (\<forall>(k, p) \<in> set (ms_blobs s). k = content_hash E p) \<and>
     content_hash E ` mn_payload ` snd ` set (ms_nodes s) \<subseteq> fst ` set (ms_blobs s)"

lemma layered_append:
  "layered E H (xs @ ys) \<longleftrightarrow> layered E H xs \<and> layered E (node_hashes xs \<union> H) ys"
  by (induction E H xs rule: layered.induct) (auto simp: node_hashes_def)

lemma core_fields:
  assumes "core p = core q"
  shows "fst p = fst q" "mn_node_id (snd p) = mn_node_id (snd q)" "mn_payload (snd p) = mn_payload (snd q)"
    "mn_parent_hashes (snd p) = mn_parent_hashes (snd q)" "mn_version (snd p) = mn_version (snd q)"
    "mn_node_hash (snd p) = mn_node_hash (snd q)"
  using assms by (cases p; cases q; cases "snd p"; cases "snd q"; simp)+

lemma layered_core:
  "map core xs = map core ys \<Longrightarrow> layered E H xs = layered E H ys"
proof (induction xs arbitrary: ys H)
  case (Cons p xs)
  then obtain q ys' where ys: "ys = q # ys'" "core p = core q" "map core xs = map core ys'"
    by (cases ys) auto
  show ?case using Cons.IH [OF ys(3)] core_fields [OF ys(2)] ys(1)
    by (cases p; cases q) simp
qed simp

lemma map_core_add_child: "map core (add_child nid pid ns) = map core ns"
proof -
  have "map core (dict_put pid (n\<lparr>mn_children_ids := cs\<rparr>) ns) = map core ns" if "map_of ns pid = Some n" for n cs
    using that by (induction ns) (auto split: if_splits)
  then show ?thesis by (auto simp: add_child_def split: option.split)
qed

lemma map_core_add_children: "map core (fold (add_child nid) ps ns) = map core ns"
  by (induction ps arbitrary: ns) (simp_all add: map_core_add_child)

lemma dict_put_fresh: "k \<notin> fst ` set d \<Longrightarrow> dict_put k v d = d @ [(k, v)]"
  by (induction d) auto

lemma core_map: "map core xs = map core ys \<Longrightarrow> map (\<lambda>p. f (core p)) xs = map (\<lambda>p. f (core p)) ys"
  by (drule arg_cong [where f = "map f"]) (simp add: comp_def)

lemma core_facts:
  assumes "map core xs = map core ys"
  shows "map fst xs = map fst ys" and "mn_payload ` snd ` set xs = mn_payload ` snd ` set ys"
    and "map_option mn_node_hash (map_of xs i) = map_option mn_node_hash (map_of ys i)"
    and "map_option mn_payload (map_of xs i) = map_option mn_payload (map_of ys i)"
    and "map_option mn_parent_hashes (map_of xs i) = map_option mn_parent_hashes (map_of ys i)"
proof -
  have c: "fst (core p) = fst p" "mn_payload (snd (core p)) = mn_payload (snd p)"
    "mn_node_hash (snd (core p)) = mn_node_hash (snd p)"
    "mn_parent_hashes (snd (core p)) = mn_parent_hashes (snd p)" for p by (cases p; simp)+
  have m: "map_of (map (\<lambda>p. (fst p, g (snd p))) zs) i = map_option g (map_of zs i)"
    for g :: "merkle_node \<Rightarrow> 'x" and zs by (induction zs) auto
  have "map (\<lambda>p. mn_payload (snd p)) xs = map (\<lambda>p. mn_payload (snd p)) ys"
    using core_map [OF assms, of "\<lambda>p. mn_payload (snd p)"] by (simp add: c)
  then have "set (map (\<lambda>p. mn_payload (snd p)) xs) = set (map (\<lambda>p. mn_payload (snd p)) ys)"
    by (rule arg_cong)
  then show "mn_payload ` snd ` set xs = mn_payload ` snd ` set ys"
    by (simp add: image_image)
  show "map fst xs = map fst ys"
    using core_map [OF assms, of fst] by (simp add: c)
  show "map_option mn_node_hash (map_of xs i) = map_option mn_node_hash (map_of ys i)"
    "map_option mn_payload (map_of xs i) = map_option mn_payload (map_of ys i)"
    "map_option mn_parent_hashes (map_of xs i) = map_option mn_parent_hashes (map_of ys i)"
    using core_map [OF assms, of "\<lambda>p. (fst p, mn_node_hash (snd p))"]
      core_map [OF assms, of "\<lambda>p. (fst p, mn_payload (snd p))"]
      core_map [OF assms, of "\<lambda>p. (fst p, mn_parent_hashes (snd p))"]
    by (simp_all add: c flip: m)
qed

lemma parent_hashes_mem:
  "parent_hashes s ps = Inr hs \<Longrightarrow> set hs \<subseteq> node_hashes (ms_nodes s)"
proof (induction ps arbitrary: hs)
  case (Cons p ps)
  then obtain n hs' where n: "map_of (ms_nodes s) p = Some n"
    "parent_hashes s ps = Inr hs'" "hs = mn_node_hash n # hs'"
    by (auto simp: get_node_def rbind_Inr_iff split: option.splits)
  from map_of_SomeD [OF n(1)] have "mn_node_hash n \<in> node_hashes (ms_nodes s)"
    by (force simp: node_hashes_def)
  then show ?case using Cons.IH [OF n(2)] n(3) by simp
qed simp

text \<open>A successful insertion returns a stored node, or appends one new layer to the store.\<close>

lemma add_nodeE:
  assumes "add_node E nid payload ps s = Inr (n, t)"
  obtains (old) "t = s" "n \<in> snd ` set (ms_nodes s)"
  | (new) node phs where "parent_hashes s ps = Inr phs"
      "node = \<lparr>mn_node_id = nid, mn_payload = payload, mn_parent_hashes = phs, mn_version = ''v1'',
         mn_node_hash = sha256 E (v1_message E payload phs), mn_children_ids = []\<rparr>"
      "get_node s nid = None" "map_of (ms_hash_index s) (mn_node_hash node) = None"
      "map core (ms_nodes t) = map core (ms_nodes s @ [(nid, node)])"
      "ms_hash_index t = dict_put (mn_node_hash node) nid (ms_hash_index s)"
      "ms_blobs t = (if content_hash E payload \<in> fst ` set (ms_blobs s) then ms_blobs s
         else dict_put (content_hash E payload) payload (ms_blobs s))"
proof -
  obtain phs where phs: "parent_hashes s ps = Inr phs"
    using assms by (auto simp: add_node_def rbind_Inr_iff)
  define node where "node = \<lparr>mn_node_id = nid, mn_payload = payload, mn_parent_hashes = phs,
      mn_version = ''v1'', mn_node_hash = sha256 E (v1_message E payload phs), mn_children_ids = []\<rparr>"
  have mk: "make_node E nid payload phs ''v1'' = Inr node"
    by (simp add: make_node_def compute_hash_def node_def)
  note A = assms [unfolded add_node_def phs mk rbind_simps]
  show thesis
  proof (cases "get_node s nid")
    case (Some m)
    with A have "t = s" "n = m" by (auto split: if_splits)
    with Some show thesis by (intro old) (force simp: get_node_def dest: map_of_SomeD)+
  next
    case None
    show thesis
    proof (cases "map_of (ms_hash_index s) (mn_node_hash node)")
      case (Some eid)
      with None A have "t = s" "get_node s eid = Some n" by (auto split: option.splits)
      then show thesis by (intro old) (force simp: get_node_def dest: map_of_SomeD)+
    next
      case None2: None
      have "nid \<notin> fst ` set (ms_nodes s)" using None by (simp add: get_node_def map_of_eq_None_iff)
      moreover from A None None2
      have t: "t = s\<lparr>ms_blobs := (if content_hash E payload \<in> fst ` set (ms_blobs s) then ms_blobs s
            else dict_put (content_hash E payload) payload (ms_blobs s)),
          ms_nodes := fold (add_child nid) ps (dict_put nid node (ms_nodes s)),
          ms_hash_index := dict_put (mn_node_hash node) nid (ms_hash_index s)\<rparr>"
        by (simp add: Let_def)
      ultimately show thesis
        by (intro new [OF phs node_def None None2]) (simp_all add: t map_core_add_children dict_put_fresh)
    qed
  qed
qed

lemma add_node_keeps_ok:
  assumes ok: "dag_ok E s" and add: "add_node E nid payload ps s = Inr (n, t)"
  shows "dag_ok E t"
  using add
proof (cases rule: add_nodeE)
  case old
  with ok show ?thesis by simp
next
  case (new node phs)
  note core = core_facts [OF new(5)]
  have fresh: "nid \<notin> fst ` set (ms_nodes s)"
    using new(3) by (simp add: get_node_def map_of_eq_None_iff)
  have "layered E {} (ms_nodes s @ [(nid, node)])"
    using ok parent_hashes_mem [OF new(1)] new(2) by (simp add: dag_ok_def layered_append)
  then have "layered E {} (ms_nodes t)" using layered_core [OF new(5)] by simp
  moreover have "distinct (map fst (ms_nodes t))"
    using core(1) fresh ok by (simp add: dag_ok_def)
  moreover have "(map_of (ms_hash_index t) h = Some i) = (map_option mn_node_hash (get_node t i) = Some h)" for h i
  proof -
    have "map_option mn_node_hash (get_node t i) =
        (if i = nid then Some (mn_node_hash node) else map_option mn_node_hash (get_node s i))"
      using new(3) by (auto simp: get_node_def core(3) map_add_def split: option.split)
    moreover have "map_of (ms_hash_index s) h = Some i \<longleftrightarrow> map_option mn_node_hash (get_node s i) = Some h" for h i
      using ok by (simp add: dag_ok_def)
    ultimately show ?thesis using new(3,4,6)
      by (auto split: if_splits) (metis option.distinct(1))
  qed
  moreover have "distinct (map fst (ms_blobs t))" "\<forall>(k, p) \<in> set (ms_blobs t). k = content_hash E p"
    using ok new(7) by (auto simp: dag_ok_def dict_put_fresh)
  moreover have "content_hash E ` mn_payload ` snd ` set (ms_nodes t) \<subseteq> fst ` set (ms_blobs t)"
  proof -
    have "content_hash E ` mn_payload ` snd ` set (ms_nodes s) \<subseteq> fst ` set (ms_blobs s)"
      using ok by (simp add: dag_ok_def)
    then show ?thesis
      using new(2,7) core(2) by (simp add: keys_dict_put subset_insertI2)
  qed
  ultimately show ?thesis by (simp add: dag_ok_def)
qed

definition extends :: "merkle_store \<Rightarrow> merkle_store \<Rightarrow> bool" where
  "extends s t \<longleftrightarrow> (\<exists>zs. map core (ms_nodes t) = map core (ms_nodes s @ zs))"

lemma extends_refl: "extends s s"
  by (auto simp: extends_def intro: exI [of _ "[]"])

lemma extends_trans: "extends s t \<Longrightarrow> extends t u \<Longrightarrow> extends s u"
  unfolding extends_def by (metis append_assoc map_append)

lemma add_node_extends: "add_node E nid payload ps s = Inr (n, t) \<Longrightarrow> extends s t"
  by (erule add_nodeE) (blast intro: extends_refl, unfold extends_def, blast)

lemma commit_keeps:
  assumes "commit E target plan f s = (r, t)" "dag_ok E s"
  shows "dag_ok E t \<and> extends s t"
  using assms
proof (induction E target plan f s arbitrary: r t rule: commit.induct)
  case (1 E target f s)
  then show ?case by (simp add: extends_refl)
next
  case (2 E target nid payload ps plan f s)
  show ?case
  proof (cases "add_node E nid payload ps s")
    case (Inl e)
    with 2 show ?thesis by (simp add: extends_refl)
  next
    case (Inr p)
    obtain n u where p: "p = (n, u)" by (cases p)
    have "dag_ok E u" "extends s u"
      using Inr p 2(3) by (auto intro: add_node_keeps_ok add_node_extends)
    with 2 Inr p show ?thesis by (auto intro: extends_trans)
  qed
qed

lemma fork_keeps:
  "fork_lineage E ord target payload s = (r, t) \<Longrightarrow> dag_ok E s \<Longrightarrow> dag_ok E t \<and> extends s t"
  by (auto simp: fork_lineage_def Let_def extends_refl commit_keeps
      split: option.splits sum.splits prod.splits if_splits)

subsection \<open>Histories of a store\<close>

inductive dag_step :: "env \<Rightarrow> (string list \<Rightarrow> string list) \<Rightarrow> merkle_store \<Rightarrow> merkle_store \<Rightarrow> bool"
  for E :: env and ord :: "string list \<Rightarrow> string list" where
  add: "add_node E nid payload parent_ids s = Inr (n, t) \<Longrightarrow> dag_step E ord s t"
| fork: "fork_lineage E ord target payload s = (r, t) \<Longrightarrow> dag_step E ord s t"

interpretation merkle: step_monotone "dag_step E ord" "dag_ok E" extends for E ord
proof unfold_locales
  show "dag_ok E t" if "dag_step E ord s t" "dag_ok E s" for s t
    using that by (cases rule: dag_step.cases) (auto dest: add_node_keeps_ok fork_keeps)
  show "extends s t" if "dag_step E ord s t" "dag_ok E s" for s t
    using that by (cases rule: dag_step.cases) (auto dest: add_node_extends fork_keeps)
qed (auto intro: extends_refl extends_trans)

lemma new_store_ok: "dag_ok E new_store"
  by (simp add: dag_ok_def new_store_def get_node_def)

lemma layered_node:
  "layered E H ns \<Longrightarrow> map_of ns i = Some n \<Longrightarrow>
     mn_node_id n = i \<and> mn_version n = ''v1'' \<and>
     mn_node_hash n = sha256 E (v1_message E (mn_payload n) (mn_parent_hashes n))"
  by (induction E H ns rule: layered.induct) (auto split: if_splits)

lemma verify_chain_ok:
  "dag_ok E s \<Longrightarrow> verify_chain E s i = Inr (get_node s i \<noteq> None)"
  by (auto simp: verify_chain_def make_node_def compute_hash_def dag_ok_def get_node_def
      dest: layered_node split: option.split)

lemma verify_all_ok:
  "dag_ok E s \<Longrightarrow> set is \<subseteq> fst ` set (ms_nodes s) \<Longrightarrow> verify_all E s is = Inr True"
proof (induction "is")
  case (Cons i js)
  then have "get_node s i \<noteq> None"
    by (auto simp: get_node_def map_of_eq_None_iff)
  with Cons show ?case by (simp add: verify_chain_ok)
qed simp

text \<open>
  C17. Any sequence of insertions and forks keeps the store verifiable: \<open>verify_full_dag\<close> answers
  True in every state, forks that failed half-way included, and no node that was stored loses or changes its
  payload, its parent hashes or its hash. Every payload of a stored node is held among the blobs, whose keys are
  distinct content hashes.
\<close>

theorem dag_history_verifies:
  assumes "(dag_step E ord)\<^sup>*\<^sup>* new_store s" "(dag_step E ord)\<^sup>*\<^sup>* s t"
  shows "verify_full_dag E t = Inr True \<and>
    (\<forall>nid n. get_node s nid = Some n \<longrightarrow>
      (\<exists>m. get_node t nid = Some m \<and> mn_payload m = mn_payload n \<and>
        mn_parent_hashes m = mn_parent_hashes n \<and> mn_node_hash m = mn_node_hash n)) \<and>
    distinct (map fst (ms_blobs t)) \<and>
    (\<forall>nid m. get_node t nid = Some m \<longrightarrow>
      (\<exists>p. map_of (ms_blobs t) (content_hash E (mn_payload m)) = Some p \<and>
        content_hash E p = content_hash E (mn_payload m)))"
proof -
  have ok: "dag_ok E s" using merkle.reachable_inv [OF assms(1) new_store_ok] .
  have okt: "dag_ok E t" and ext: "extends s t"
    using merkle.reachable_inv [OF assms(2) ok] merkle.reachable_le [OF assms(2) ok] .
  have "verify_full_dag E t = Inr True"
    using okt by (simp add: verify_full_dag_def verify_all_ok)
  moreover have "\<exists>m. get_node t nid = Some m \<and> mn_payload m = mn_payload n \<and>
      mn_parent_hashes m = mn_parent_hashes n \<and> mn_node_hash m = mn_node_hash n"
    if n: "get_node s nid = Some n" for nid n
  proof -
    obtain zs where zs: "map core (ms_nodes t) = map core (ms_nodes s @ zs)"
      using ext by (auto simp: extends_def)
    have "distinct (map fst (ms_nodes s @ zs))"
      using okt core_facts(1) [OF zs] by (simp add: dag_ok_def)
    then have "map_of (ms_nodes s @ zs) nid = Some n"
      using n by (auto simp: get_node_def map_add_Some_iff map_of_eq_None_iff dest: map_of_SomeD)
    then show ?thesis using core_facts(3-5) [OF zs, of nid] by (auto simp: get_node_def)
  qed
  moreover have "distinct (map fst (ms_blobs t))" using okt by (simp add: dag_ok_def)
  moreover have "\<exists>p. map_of (ms_blobs t) (content_hash E (mn_payload m)) = Some p \<and>
      content_hash E p = content_hash E (mn_payload m)" if m: "get_node t nid = Some m" for nid m
  proof -
    have "m \<in> snd ` set (ms_nodes t)" using m by (force simp: get_node_def dest: map_of_SomeD)
    then have "content_hash E (mn_payload m) \<in> fst ` set (ms_blobs t)"
      using okt unfolding dag_ok_def by blast
    then obtain p where p: "map_of (ms_blobs t) (content_hash E (mn_payload m)) = Some p"
      by (metis map_of_eq_None_iff not_None_eq)
    with okt show ?thesis by (auto simp: dag_ok_def dest!: map_of_SomeD)
  qed
  ultimately show ?thesis by blast
qed

subsection \<open>Paths to an ancestor\<close>

text \<open>The primary ancestry of a node: its first parent, found through the hash index.\<close>

definition first_parent :: "merkle_store \<Rightarrow> string \<Rightarrow> string option" where
  "first_parent s nid = (case get_node s nid of
     None \<Rightarrow> None
   | Some n \<Rightarrow> (case mn_parent_hashes n of [] \<Rightarrow> None | h # _ \<Rightarrow> map_of (ms_hash_index s) h))"

definition primary_ancestor :: "merkle_store \<Rightarrow> string \<Rightarrow> string \<Rightarrow> bool" where
  "primary_ancestor s = (\<lambda>a b. first_parent s a = Some b)\<^sup>*\<^sup>*"

definition rank :: "merkle_store \<Rightarrow> string \<Rightarrow> nat" where
  "rank s nid = length (takeWhile (\<lambda>p. fst p \<noteq> nid) (ms_nodes s))"

lemma takeWhile_key_absent:
  "k \<notin> fst ` set xs \<Longrightarrow> length (takeWhile (\<lambda>p. fst p \<noteq> k) (xs @ (k, v) # ys)) = length xs"
  by (induction xs) auto

lemma takeWhile_key_present:
  "k \<in> fst ` set xs \<Longrightarrow> length (takeWhile (\<lambda>p. fst p \<noteq> k) (xs @ ys)) < length xs"
  by (induction xs) auto

lemma parent_stored_before:
  assumes ok: "dag_ok E s" and n: "get_node s nid = Some n" and h: "h \<in> set (mn_parent_hashes n)"
  obtains pid m where "map_of (ms_hash_index s) h = Some pid" "get_node s pid = Some m" "rank s pid < rank s nid"
proof -
  from n obtain xs ys where ns: "ms_nodes s = xs @ (nid, n) # ys"
    by (metis get_node_def map_of_SomeD in_set_conv_decomp)
  have d: "distinct (map fst (ms_nodes s))" using ok by (simp add: dag_ok_def)
  have "layered E {} (xs @ (nid, n) # ys)" using ok ns by (simp add: dag_ok_def)
  then have "h \<in> node_hashes xs" using h by (auto simp: layered_append)
  then obtain pid m where m: "(pid, m) \<in> set xs" "mn_node_hash m = h" by (auto simp: node_hashes_def)
  have g: "get_node s pid = Some m" using m(1) ns d by (simp add: get_node_def)
  have "nid \<notin> fst ` set xs" using d unfolding ns by simp
  moreover have "pid \<in> fst ` set xs" using m(1) by force
  ultimately
  have "rank s nid = length xs" "rank s pid < length xs"
    unfolding rank_def ns by (blast intro: takeWhile_key_absent takeWhile_key_present)+
  moreover have "map_of (ms_hash_index s) h = Some pid"
    using ok g m(2) by (simp add: dag_ok_def)
  ultimately show thesis using g that by simp
qed

lemma primary_ancestor_unfold:
  "primary_ancestor s a b \<longleftrightarrow> a = b \<or> (\<exists>c. first_parent s a = Some c \<and> primary_ancestor s c b)"
  unfolding primary_ancestor_def
  by (auto elim: converse_rtranclpE intro: converse_rtranclp_into_rtranclp)

lemma path_walk_exact:
  assumes "dag_ok E s" "get_node s nid \<noteq> None" "\<forall>v\<in>set visited. rank s nid < rank s v"
  shows "path_walk E s rid visited nid = Inr (primary_ancestor s nid rid)"
  using assms
proof (induction E s rid visited nid rule: path_walk.induct)
  case (1 E s rid visited nid)
  obtain n where n: "get_node s nid = Some n" using 1(3) by auto
  have nv: "nid \<notin> set visited" using 1(4) by auto
  note unfold = path_walk.simps [of E s rid visited nid] primary_ancestor_unfold [of s nid rid]
  show ?case
  proof (cases "nid = rid \<or> mn_parent_hashes n = []")
    case True
    then show ?thesis using n nv 1(2)
      by (auto simp: unfold verify_chain_ok first_parent_def)
  next
    case False
    then obtain h hs where h: "mn_parent_hashes n = h # hs" by (cases "mn_parent_hashes n") auto
    obtain pid m where p: "map_of (ms_hash_index s) h = Some pid" "get_node s pid = Some m"
      "rank s pid < rank s nid"
      using parent_stored_before [OF 1(2) n, of h] h by auto
    have fp: "first_parent s nid = Some pid" using n h p(1) by (simp add: first_parent_def)
    have "path_walk E s rid (nid # visited) pid = Inr (primary_ancestor s pid rid)"
      using False nv n h p 1(2,4) by (intro 1(1)) (auto simp: verify_chain_ok)
    then show ?thesis using False nv n h p fp 1(2)
      by (simp add: unfold verify_chain_ok)
  qed
qed

text \<open>
  On a store built by insertions and forks \<open>verify_path\<close> is exact: it accepts precisely
  when the leaf is stored and the root lies on its chain of first parents. It
  always returns, whatever the arguments.
\<close>

theorem verify_path_exact:
  assumes "(dag_step E ord)\<^sup>*\<^sup>* new_store s"
  shows "verify_path E s leaf_id root_id =
    Inr (get_node s leaf_id \<noteq> None \<and> primary_ancestor s leaf_id root_id)"
proof -
  have "dag_ok E s" using merkle.reachable_inv [OF assms new_store_ok] .
  then show ?thesis by (simp add: verify_path_def verify_chain_ok path_walk_exact)
qed

subsection \<open>What a hash binds\<close>

lemma length_prefix_code:
  assumes "length x < 256 ^ 8" "length y < 256 ^ 8"
    and "length_prefix_encode x @ u = length_prefix_encode y @ v"
  shows "x = y \<and> u = v"
proof -
  from assms(3) have "be_bytes 8 (length x) = be_bytes 8 (length y)" and r: "x @ u = y @ v"
    by (auto simp: length_prefix_encode_def)
  with assms(1,2) have "length x = length y" by (intro be_bytes_inj) auto
  with r show ?thesis by simp
qed

lemma length_prefix_list_inj:
  "\<lbrakk>\<forall>x\<in>set xs. length x < 256 ^ 8; \<forall>y\<in>set ys. length y < 256 ^ 8;
    concat (map length_prefix_encode xs) = concat (map length_prefix_encode ys)\<rbrakk> \<Longrightarrow> xs = ys"
proof (induction xs arbitrary: ys)
  case Nil
  then show ?case by (cases ys) (auto simp: length_prefix_encode_def simp flip: length_0_conv)
next
  case (Cons x xs)
  show ?case
  proof (cases ys)
    case Nil
    with Cons.prems(3) show ?thesis by (auto simp: length_prefix_encode_def simp flip: length_0_conv)
  next
    case (Cons y ys')
    then show ?thesis using Cons.prems Cons.IH [of ys'] length_prefix_code [of x y] by auto
  qed
qed

lemma v1_message_inj:
  assumes "float_repr_ok (float_repr E)" "v1_message E p ps = v1_message E q qs"
    and "length (payload_bytes E p) < 256 ^ 8" "length (payload_bytes E q) < 256 ^ 8"
    and "\<forall>h\<in>set ps. length h < 256 ^ 8" "\<forall>h\<in>set qs. length h < 256 ^ 8"
  shows "canon p = canon q \<and> mset ps = mset qs"
proof -
  define tail where "tail hs = concat (map length_prefix_encode (sort hs))" for hs
  have split: "v1_message E j hs = char_of (if hs = [] then 0 else 1 :: nat) # ''V1'' @
      length_prefix_encode (payload_bytes E j) @ tail hs" for j hs
    by (simp add: v1_message_def tail_def)
  have "length_prefix_encode (payload_bytes E p) @ tail ps = length_prefix_encode (payload_bytes E q) @ tail qs"
    using assms(2) by (simp add: split)
  from length_prefix_code [OF assms(3,4) this]
  have b: "payload_bytes E p = payload_bytes E q" and t: "tail ps = tail qs" by auto
  from t have "sort ps = sort qs"
    using assms(5,6) unfolding tail_def by (intro length_prefix_list_inj) auto
  then have "mset ps = mset qs" by (metis mset_sort)
  moreover from b have "canon p = canon q"
    using dumps_eq_iff [OF _ assms(1), of default_style] by (auto simp: payload_bytes_def dest!: utf8_inj)
  ultimately show ?thesis by simp
qed

text \<open>
  A node hash binds content and ancestry: two stored nodes, of the same store or of two, that carry the same
  hash have payloads with the same JSON text and the same parent hashes, repeated ones counted, in whatever order
  the parents were given, or their two encoded messages are a collision of SHA-256. The encoded lengths fit
  the eight-byte prefix.
\<close>

theorem node_hash_binds:
  assumes "(dag_step E ord)\<^sup>*\<^sup>* new_store s" "(dag_step E ord')\<^sup>*\<^sup>* new_store t"
    and "get_node s i = Some n" "get_node t j = Some m" "mn_node_hash n = mn_node_hash m"
    and "float_repr_ok (float_repr E)"
    and "length (payload_bytes E (mn_payload n)) < 256 ^ 8" "length (payload_bytes E (mn_payload m)) < 256 ^ 8"
    and "\<And>x. length (sha256 E x) < 256 ^ 8"
  shows "canon (mn_payload n) = canon (mn_payload m) \<and> mset (mn_parent_hashes n) = mset (mn_parent_hashes m) \<or>
    collision_between (sha256 E) {v1_message E (mn_payload n) (mn_parent_hashes n)}
      {v1_message E (mn_payload m) (mn_parent_hashes m)}"
proof -
  have ok: "dag_ok E s" "dag_ok E t"
    using assms(1,2) by (blast intro: merkle.reachable_inv new_store_ok)+
  have hash: "mn_node_hash x = sha256 E (v1_message E (mn_payload x) (mn_parent_hashes x))"
    if "dag_ok E u" "get_node u k = Some x" for u k x
    using that layered_node [of E "{}" "ms_nodes u" k x] by (simp add: dag_ok_def get_node_def)
  have short: "\<forall>h\<in>set (mn_parent_hashes x). length h < 256 ^ 8"
    if u: "dag_ok E u" "get_node u k = Some x" for u k x
  proof
    fix h assume "h \<in> set (mn_parent_hashes x)"
    then obtain pid y where y: "map_of (ms_hash_index u) h = Some pid" "get_node u pid = Some y"
      by (rule parent_stored_before [OF u])
    then have "h = mn_node_hash y" using u(1) by (simp add: dag_ok_def)
    also have "\<dots> = sha256 E (v1_message E (mn_payload y) (mn_parent_hashes y))" by (rule hash [OF u(1) y(2)])
    finally show "length h < 256 ^ 8" using assms(9) by simp
  qed
  show ?thesis
  proof (cases "v1_message E (mn_payload n) (mn_parent_hashes n) = v1_message E (mn_payload m) (mn_parent_hashes m)")
    case True
    from v1_message_inj [OF assms(6) True assms(7,8) short [OF ok(1) assms(3)] short [OF ok(2) assms(4)]]
    show ?thesis by simp
  next
    case False
    then show ?thesis
      using hash [OF ok(1) assms(3)] hash [OF ok(2) assms(4)] assms(5) by (auto simp: collision_between_def)
  qed
qed

subsection \<open>A concrete store\<close>

definition merkle_env :: env where
  "merkle_env = \<lparr>sha256 = take 1000, float_repr = ratio_repr, iso = int_str,
     ed25519_verify = (\<lambda>_ _ _. EdInvalidSignature), ed25519_sign = (\<lambda>k m. k @ m),
     hmac_sha256 = (\<lambda>k m. k @ m), b64_encode = (\<lambda>x. x), b64_decode = Some\<rparr>"

definition put_node :: "string \<Rightarrow> json \<Rightarrow> string list \<Rightarrow> merkle_store \<Rightarrow> merkle_store" where
  "put_node nid p ps s = (case add_node merkle_env nid p ps s of Inl _ \<Rightarrow> s | Inr (_, t) \<Rightarrow> t)"

definition prompt_store :: merkle_store where
  "prompt_store = put_node ''a'' (JInt 1) [] new_store"

definition answer_store :: merkle_store where
  "answer_store = put_node ''b'' (JInt 2) [''a''] prompt_store"

definition answer_fork :: merkle_store where
  "answer_fork = snd (fork_lineage merkle_env id ''a'' (JInt 3) answer_store)"

lemma put_node_step: "(dag_step merkle_env ord)\<^sup>*\<^sup>* s (put_node nid p ps s)"
  by (auto simp: put_node_def split: sum.split prod.split intro: dag_step.add)

lemma answer_steps:
  "(dag_step merkle_env id)\<^sup>*\<^sup>* new_store prompt_store"
  "(dag_step merkle_env id)\<^sup>*\<^sup>* new_store answer_store"
  "(dag_step merkle_env id)\<^sup>*\<^sup>* answer_store answer_fork"
proof -
  show p: "(dag_step merkle_env id)\<^sup>*\<^sup>* new_store prompt_store"
    unfolding prompt_store_def by (rule put_node_step)
  have "(dag_step merkle_env id)\<^sup>*\<^sup>* prompt_store answer_store"
    unfolding answer_store_def by (rule put_node_step)
  with p show "(dag_step merkle_env id)\<^sup>*\<^sup>* new_store answer_store" by (rule rtranclp_trans)
  show "(dag_step merkle_env id)\<^sup>*\<^sup>* answer_store answer_fork"
    unfolding answer_fork_def by (intro r_into_rtranclp dag_step.fork [OF surjective_pairing])
qed

lemma answer_fork_nodes: "map fst (ms_nodes answer_fork) = [''a'', ''b'', ''a_fork'', ''b_fork'']"
  by code_simp

theorem dag_history_verifies_witness:
  "map fst (ms_nodes answer_fork) = [''a'', ''b'', ''a_fork'', ''b_fork''] \<and>
   verify_full_dag merkle_env answer_fork = Inr True"
  using dag_history_verifies [OF answer_steps(2,3)] answer_fork_nodes by blast

theorem verify_path_exact_witness:
  "verify_path merkle_env answer_store ''b'' ''a'' = Inr True \<and>
   verify_path merkle_env answer_store ''a'' ''b'' = Inr False"
proof -
  have "first_parent answer_store ''b'' = Some ''a''" "first_parent answer_store ''a'' = None"
    "get_node answer_store ''b'' \<noteq> None"
    by code_simp+
  then have "primary_ancestor answer_store ''b'' ''a''" "\<not> primary_ancestor answer_store ''a'' ''b''"
    by (simp_all add: primary_ancestor_unfold [of answer_store "''b''"]
        primary_ancestor_unfold [of answer_store "''a''"])
  then show ?thesis
    using \<open>get_node answer_store ''b'' \<noteq> None\<close>
    by (simp add: verify_path_exact [OF answer_steps(2)])
qed

theorem node_hash_binds_witness:
  "\<exists>n m. get_node prompt_store ''a'' = Some n \<and> get_node answer_store ''a'' = Some m \<and>
     mn_children_ids n \<noteq> mn_children_ids m \<and>
     (canon (mn_payload n) = canon (mn_payload m) \<and> mset (mn_parent_hashes n) = mset (mn_parent_hashes m) \<or>
      collision_between (sha256 merkle_env) {v1_message merkle_env (mn_payload n) (mn_parent_hashes n)}
        {v1_message merkle_env (mn_payload m) (mn_parent_hashes m)})"
proof -
  define n m where "n = the (get_node prompt_store ''a'')" and "m = the (get_node answer_store ''a'')"
  have g: "get_node prompt_store ''a'' = Some n" "get_node answer_store ''a'' = Some m"
    "mn_node_hash n = mn_node_hash m" "mn_children_ids n \<noteq> mn_children_ids m"
    "length (payload_bytes merkle_env (mn_payload n)) = 1"
    "length (payload_bytes merkle_env (mn_payload m)) = 1"
    unfolding n_def m_def by code_simp+
  have "length (sha256 merkle_env x) < 256 ^ 8" for x by (simp add: merkle_env_def)
  moreover have "float_repr_ok (float_repr merkle_env)" by (simp add: merkle_env_def)
  ultimately show ?thesis
    using node_hash_binds [OF answer_steps(1,2) g(1-3)] g by simp
qed

text \<open>
  A fork that leaves the payload of its target as it is finds the target by its hash, and no node with the
  fork identifier is registered: the commit of the children then refuses them.
\<close>

lemma fork_same_payload_refused:
  "fst (fork_lineage merkle_env id ''a'' (JInt 1) answer_store) = Inl (ParentNotFound ''a_fork'')"
  by code_simp

end
