(* ===== verification/Stopping_Rule.thy ===== *)
theory Stopping_Rule
  imports Resource_Budget
begin

section \<open>The evidentiary stopping rule\<close>

text \<open>
  \<open>packages/replay/src/stopping_rule.py\<close>: when the sequential experiment loop may stop, and with which
  outcome. The criteria are tried in a fixed order. The entropies of the last iterations are kept in a bounded
  deque. The texts of the reasons are constructors that carry the numbers they print. The incident state, an
  argument the rule does not read, is left out.
\<close>

datatype stopping_outcome =
    CONFIRMED | UNRESOLVED | RESOURCE_EXHAUSTED | SAFETY_LIMIT | NO_ADMISSIBLE_EXPERIMENT

datatype stop_reason =
    BudgetExhausted
  | SafetyCap int
  | Confidence rat rat string
  | Margin rat rat
  | Converged rat rat int
  | NoCandidates
  | Insufficient "rat option" rat int
  | NoValidReplay

record stopping_rule =
  sr_confidence_threshold :: rat
  sr_margin_threshold :: rat
  sr_entropy_convergence_delta :: rat
  sr_entropy_window :: int
  sr_min_eig_threshold :: rat
  sr_min_replays :: int
  sr_max_experiments :: int
  sr_entropy_history :: "rat list"
  sr_replay_count :: int

datatype value_error = DequeLength | MaxOfEmpty

text \<open>\<open>deque(maxlen=...)\<close> refuses a negative length.\<close>

definition new_rule :: "rat \<Rightarrow> rat \<Rightarrow> rat \<Rightarrow> int \<Rightarrow> rat \<Rightarrow> int \<Rightarrow> int \<Rightarrow> (value_error, stopping_rule) result" where
  "new_rule confidence margin delta window min_eig min_replays max_experiments =
     (if window + 1 < 0 then Inl DequeLength
      else Inr \<lparr>sr_confidence_threshold = confidence, sr_margin_threshold = margin,
                sr_entropy_convergence_delta = delta, sr_entropy_window = window,
                sr_min_eig_threshold = min_eig, sr_min_replays = min_replays,
                sr_max_experiments = max_experiments, sr_entropy_history = [], sr_replay_count = 0\<rparr>)"

definition default_rule :: stopping_rule where
  "default_rule = \<lparr>sr_confidence_threshold = 85/100, sr_margin_threshold = 60/100,
     sr_entropy_convergence_delta = 1/100, sr_entropy_window = 3, sr_min_eig_threshold = 2/100,
     sr_min_replays = 2, sr_max_experiments = 20, sr_entropy_history = [], sr_replay_count = 0\<rparr>"

text \<open>Appending to a full deque drops elements on the left.\<close>

definition deque_append :: "nat \<Rightarrow> 'a \<Rightarrow> 'a list \<Rightarrow> 'a list" where
  "deque_append maxlen x xs = (let ys = xs @ [x] in drop (length ys - maxlen) ys)"

definition record_iteration :: "rat \<Rightarrow> stopping_rule \<Rightarrow> stopping_rule" where
  "record_iteration entropy r =
     r\<lparr>sr_entropy_history := deque_append (nat (sr_entropy_window r + 1)) entropy (sr_entropy_history r),
       sr_replay_count := sr_replay_count r + 1\<rparr>"

definition reset :: "stopping_rule \<Rightarrow> stopping_rule" where
  "reset r = r\<lparr>sr_entropy_history := [], sr_replay_count := 0\<rparr>"

subsection \<open>The beliefs the rule reads\<close>

text \<open>The beliefs of a model are a dict in insertion order; \<open>max(beliefs, key=...)\<close> is the first key of maximal value.\<close>

type_synonym beliefs = "(string \<times> rat) list"

definition max_value :: "beliefs \<Rightarrow> rat" where
  "max_value b = Max (set (map snd b))"

definition top_key :: "beliefs \<Rightarrow> string" where
  "top_key b = (case List.find (\<lambda>(k, v). v = max_value b) b of Some (k, _) \<Rightarrow> k | None \<Rightarrow> [])"

definition values_desc :: "beliefs \<Rightarrow> rat list" where
  "values_desc b = rev (sort (map snd b))"

definition posterior_margin :: "beliefs \<Rightarrow> rat" where
  "posterior_margin b = values_desc b ! 0 - values_desc b ! 1"

text \<open>The largest step between neighbouring entropies; \<open>max\<close> of an empty sequence raises.\<close>

fun steps :: "rat list \<Rightarrow> rat list" where
  "steps (x # y # zs) = \<bar>y - x\<bar> # steps (y # zs)"
| "steps _ = []"

definition max_step :: "rat list \<Rightarrow> (value_error, rat) result" where
  "max_step h = (if steps h = [] then Inl MaxOfEmpty else Inr (Max (set (steps h))))"

subsection \<open>The decision\<close>

definition is_sufficient ::
    "beliefs \<Rightarrow> rat \<Rightarrow> resource_context \<Rightarrow> 'c list \<Rightarrow> stopping_rule \<Rightarrow>
       (value_error, bool \<times> stopping_outcome \<times> stop_reason) result" where
  "is_sufficient beliefs entropy ctx remaining r =
     (let has_min_evidence = sr_min_replays r \<le> sr_replay_count r in
      if budget_exhausted ctx then Inr (True, RESOURCE_EXHAUSTED, BudgetExhausted)
      else if sr_max_experiments r \<le> rc_replays ctx then Inr (True, SAFETY_LIMIT, SafetyCap (sr_max_experiments r))
      else if has_min_evidence \<and> beliefs \<noteq> [] \<and> sr_confidence_threshold r \<le> max_value beliefs
      then Inr (True, CONFIRMED, Confidence (max_value beliefs) (sr_confidence_threshold r) (top_key beliefs))
      else if has_min_evidence \<and> 2 \<le> length beliefs \<and> sr_margin_threshold r \<le> posterior_margin beliefs
      then Inr (True, CONFIRMED, Margin (posterior_margin beliefs) (sr_margin_threshold r))
      else
        (let rest = (if remaining = [] then Inr (True, NO_ADMISSIBLE_EXPERIMENT, NoCandidates)
                     else Inr (False, UNRESOLVED,
                       Insufficient (if beliefs = [] then None else Some (max_value beliefs)) entropy (sr_replay_count r)))
         in if has_min_evidence \<and> sr_entropy_window r \<le> int (length (sr_entropy_history r))
            then rbind (max_step (sr_entropy_history r)) (\<lambda>max_delta.
                   if max_delta < sr_entropy_convergence_delta r
                   then Inr (True, UNRESOLVED, Converged max_delta (sr_entropy_convergence_delta r) (sr_entropy_window r))
                   else rest)
            else rest))"

subsection \<open>What a decision means\<close>

text \<open>The evidence for a confirmation, as the documentation of the rule words it.\<close>

definition confirmed_evidence :: "beliefs \<Rightarrow> stopping_rule \<Rightarrow> bool" where
  "confirmed_evidence b r \<longleftrightarrow> sr_min_replays r \<le> sr_replay_count r \<and>
     ((\<exists>k v. (k, v) \<in> set b \<and> sr_confidence_threshold r \<le> v) \<or>
      (\<exists>x y zs. values_desc b = x # y # zs \<and> sr_margin_threshold r \<le> x - y))"

lemma max_value_ge: "b \<noteq> [] \<Longrightarrow> t \<le> max_value b \<longleftrightarrow> (\<exists>k v. (k, v) \<in> set b \<and> t \<le> v)"
  unfolding max_value_def by (subst Max_ge_iff) (force simp: image_iff)+

lemma length_values_desc [simp]: "length (values_desc b) = length b"
  by (simp add: values_desc_def)

lemma posterior_margin_ge:
  "2 \<le> length b \<Longrightarrow> t \<le> posterior_margin b \<longleftrightarrow> (\<exists>x y zs. values_desc b = x # y # zs \<and> t \<le> x - y)"
proof -
  assume "2 \<le> length b"
  then obtain x y zs where "values_desc b = x # y # zs"
    using length_values_desc [of b] by (cases "values_desc b"; cases "tl (values_desc b)") auto
  then show ?thesis by (simp add: posterior_margin_def)
qed

lemma confirmed_evidence_iff:
  "confirmed_evidence b r \<longleftrightarrow> sr_min_replays r \<le> sr_replay_count r \<and>
     (b \<noteq> [] \<and> sr_confidence_threshold r \<le> max_value b \<or>
      2 \<le> length b \<and> sr_margin_threshold r \<le> posterior_margin b)"
proof -
  have "2 \<le> length b" if "values_desc b = x # y # zs" for x y zs
    using length_values_desc [of b] that by simp
  then show ?thesis
    unfolding confirmed_evidence_def using max_value_ge [of b] posterior_margin_ge [of b] by force
qed

text \<open>A rule whose window is at least one and whose deque is long enough never compares too few entropies.\<close>

definition rule_ok :: "stopping_rule \<Rightarrow> bool" where
  "rule_ok r \<longleftrightarrow> 2 \<le> sr_entropy_window r \<and> 0 \<le> sr_replay_count r \<and>
     int (length (sr_entropy_history r)) = min (sr_replay_count r) (sr_entropy_window r + 1)"

lemma rule_ok_operations:
  "rule_ok r \<Longrightarrow> rule_ok (record_iteration e r)"
  "rule_ok r \<Longrightarrow> rule_ok (reset r)"
  by (auto simp: rule_ok_def record_iteration_def reset_def deque_append_def Let_def)

lemma new_rule_ok: "2 \<le> w \<Longrightarrow> new_rule c m d w g n x = Inr r \<Longrightarrow> rule_ok r"
  by (auto simp: new_rule_def rule_ok_def split: if_splits)

lemma steps_nonempty: "2 \<le> length h \<Longrightarrow> steps h \<noteq> []"
  by (cases h rule: steps.cases) auto

lemma max_step_returns: "2 \<le> length h \<Longrightarrow> \<exists>d. max_step h = Inr d"
  using steps_nonempty by (auto simp: max_step_def)

lemma is_sufficient_limits:
  "budget_exhausted ctx \<Longrightarrow> is_sufficient b e ctx rest r = Inr (True, RESOURCE_EXHAUSTED, BudgetExhausted)"
  "\<not> budget_exhausted ctx \<Longrightarrow> sr_max_experiments r \<le> rc_replays ctx \<Longrightarrow>
     is_sufficient b e ctx rest r = Inr (True, SAFETY_LIMIT, SafetyCap (sr_max_experiments r))"
  by (simp_all add: is_sufficient_def)

lemma is_sufficient_confirmed:
  assumes "\<not> budget_exhausted ctx" "\<not> sr_max_experiments r \<le> rc_replays ctx" "confirmed_evidence b r"
  shows "\<exists>why. is_sufficient b e ctx rest r = Inr (True, CONFIRMED, why)"
  using assms unfolding confirmed_evidence_iff by (auto simp: is_sufficient_def Let_def)

lemma is_sufficient_unconfirmed:
  assumes "\<not> budget_exhausted ctx" "\<not> sr_max_experiments r \<le> rc_replays ctx" "\<not> confirmed_evidence b r" "rule_ok r"
  obtains why where "is_sufficient b e ctx rest r = Inr (True, UNRESOLVED, why)"
  | why where "rest = []" "is_sufficient b e ctx rest r = Inr (True, NO_ADMISSIBLE_EXPERIMENT, why)"
  | why where "rest \<noteq> []" "is_sufficient b e ctx rest r = Inr (False, UNRESOLVED, why)"
proof -
  obtain d where d: "2 \<le> length (sr_entropy_history r) \<Longrightarrow> max_step (sr_entropy_history r) = Inr d"
    using max_step_returns by blast
  have "sr_entropy_window r \<le> int (length (sr_entropy_history r)) \<Longrightarrow> 2 \<le> length (sr_entropy_history r)"
    using assms(4) unfolding rule_ok_def by linarith
  moreover have "\<not> (sr_min_replays r \<le> sr_replay_count r \<and> b \<noteq> [] \<and> sr_confidence_threshold r \<le> max_value b)"
    "\<not> (sr_min_replays r \<le> sr_replay_count r \<and> 2 \<le> length b \<and> sr_margin_threshold r \<le> posterior_margin b)"
    using assms(3) unfolding confirmed_evidence_iff by blast+
  ultimately show ?thesis
    using assms(1,2) d that
    by (cases "sr_min_replays r \<le> sr_replay_count r \<and> sr_entropy_window r \<le> int (length (sr_entropy_history r))";
        cases "d < sr_entropy_convergence_delta r"; cases "rest = []")
       (simp_all add: is_sufficient_def Let_def cong: if_cong)
qed

text \<open>
  The stopping rule is total on every rule built with a window of at least two and driven by its operations, and
  its verdicts mean what they say: a confirmation has the minimum evidence and a posterior above the threshold or a
  sufficient margin, and is given whenever both resource limits leave room for it; exhausted resources and the
  safety cap always stop; and the loop is told to go on only below every limit, with candidates left.
\<close>

theorem stopping_rule_exact:
  assumes "rule_ok r"
  shows "\<exists>stop out why. is_sufficient b e ctx rest r = Inr (stop, out, why) \<and>
    (out = CONFIRMED \<longleftrightarrow>
       \<not> budget_exhausted ctx \<and> rc_replays ctx < sr_max_experiments r \<and> confirmed_evidence b r) \<and>
    (out = RESOURCE_EXHAUSTED \<longleftrightarrow> budget_exhausted ctx) \<and>
    (out = SAFETY_LIMIT \<longleftrightarrow> \<not> budget_exhausted ctx \<and> sr_max_experiments r \<le> rc_replays ctx) \<and>
    (\<not> stop \<longrightarrow> rest \<noteq> [] \<and> out = UNRESOLVED)"
proof (cases "budget_exhausted ctx \<or> sr_max_experiments r \<le> rc_replays ctx")
  case True
  then show ?thesis by (cases "budget_exhausted ctx") (auto simp: is_sufficient_limits)
next
  case False
  then have lim: "\<not> budget_exhausted ctx" "\<not> sr_max_experiments r \<le> rc_replays ctx" by auto
  show ?thesis
  proof (cases "confirmed_evidence b r")
    case True
    with is_sufficient_confirmed [OF lim this, of e rest] lim show ?thesis by auto
  next
    case False
    from is_sufficient_unconfirmed [OF lim False assms, of e rest] False lim show ?thesis by cases auto
  qed
qed

definition sample_rule :: stopping_rule where
  "sample_rule = record_iteration (1/2) (record_iteration 1 default_rule)"

lemma sample_rule_ok: "rule_ok sample_rule"
  unfolding sample_rule_def by (intro rule_ok_operations) (simp add: rule_ok_def default_rule_def)

theorem stopping_rule_exact_witness:
  "\<exists>why. is_sufficient [(''a'', 9/10), (''b'', 1/10)] (1/2) (new_context 5 300) [''b''] sample_rule
     = Inr (True, CONFIRMED, why)"
proof -
  have "confirmed_evidence [(''a'', 9/10), (''b'', 1/10)] sample_rule"
    unfolding confirmed_evidence_iff by (simp add: max_value_def sample_rule_def record_iteration_def default_rule_def)
  moreover have "\<not> budget_exhausted (new_context 5 300)" "rc_replays (new_context 5 300) < sr_max_experiments sample_rule"
    by (simp_all add: budget_exhausted_def new_context_def sample_rule_def record_iteration_def default_rule_def)
  ultimately show ?thesis
    using stopping_rule_exact [OF sample_rule_ok, of "[(''a'', 9/10), (''b'', 1/10)]" "1/2" "new_context 5 300" "[''b'']"]
    by auto
qed

end
