(* ===== verification/Belief_Model.thy ===== *)
theory Belief_Model
  imports Stopping_Rule
begin

section \<open>Beliefs about the root cause\<close>

text \<open>
  \<open>packages/replay/src/belief_model.py\<close>: likelihood estimators, the transitive closures of the causal graph, the
  determinism estimator, the Bayesian belief model and the graph impact of an intervention. The edges of a graph,
  dicts with the keys \<open>source_id\<close> and \<open>target_id\<close>, are pairs. Beliefs are dicts in insertion order. Arithmetic is
  exact, so the guards against NaN never fire; the binary logarithm is a parameter \<open>lg\<close>. The order in which
  Python iterates a set is a parameter \<open>ord\<close>.
\<close>

type_synonym edges = "(string \<times> string) list"
type_synonym estimator = "string \<Rightarrow> string \<Rightarrow> string \<Rightarrow> rat"

definition heuristic_likelihood :: estimator where
  "heuristic_likelihood intervention_node root_cause outcome =
     (if intervention_node = root_cause then if outcome = ''mitigated'' then 9/10 else 1/10
      else if outcome = ''mitigated'' then 1/10 else 9/10)"

subsection \<open>Transitive closures\<close>

type_synonym reach = "string \<Rightarrow> string set"

text \<open>\<open>setdefault(s, set()).add(t)\<close> for every edge, in both directions; a missing key reads as the empty set.\<close>

definition direct_descendants :: "edges \<Rightarrow> reach" where
  "direct_descendants E = fold (\<lambda>(s, t) D. D(s := insert t (D s))) E (\<lambda>_. {})"

definition direct_ancestors :: "edges \<Rightarrow> reach" where
  "direct_ancestors E = fold (\<lambda>(s, t) A. A(t := insert s (A t))) E (\<lambda>_. {})"

definition closure_nodes :: "edges \<Rightarrow> string set" where
  "closure_nodes E = snd ` set E \<union> fst ` set E"

text \<open>One update of the set of \<open>n\<close> by the set of \<open>d\<close>, with the flag that records growth.\<close>

definition absorb_one :: "string \<Rightarrow> string \<Rightarrow> reach \<times> bool \<Rightarrow> reach \<times> bool" where
  "absorb_one n d st =
     (case st of (M, changed) \<Rightarrow>
        let old_len = card (M n); M' = M(n := M n \<union> M d) in (M', changed \<or> old_len < card (M' n)))"

text \<open>The loop over a copy of the current set of \<open>n\<close>.\<close>

definition absorb :: "(string set \<Rightarrow> string list) \<Rightarrow> string \<Rightarrow> reach \<times> bool \<Rightarrow> reach \<times> bool" where
  "absorb ord n st = fold (absorb_one n) (ord (fst st n)) st"

definition closure_pass ::
    "(string set \<Rightarrow> string list) \<Rightarrow> string list \<Rightarrow> reach \<times> reach \<Rightarrow> reach \<times> reach \<times> bool" where
  "closure_pass ord nodes DA =
     (case DA of (D, A) \<Rightarrow>
        fold (\<lambda>n (D, A, changed).
          let (D', c1) = absorb ord n (D, changed); (A', c2) = absorb ord n (A, c1) in (D', A', c2))
          nodes (D, A, False))"

text \<open>\<open>while changed\<close>: not returning is the value \<^const>\<open>None\<close>.\<close>

partial_function (option) closure_loop ::
    "(string set \<Rightarrow> string list) \<Rightarrow> string list \<Rightarrow> reach \<times> reach \<Rightarrow> (reach \<times> reach) option" where
  "closure_loop ord nodes DA =
     (case closure_pass ord nodes DA of (D, A, changed) \<Rightarrow>
        if changed then closure_loop ord nodes (D, A) else Some (D, A))"

definition build_closures :: "(string set \<Rightarrow> string list) \<Rightarrow> edges \<Rightarrow> (reach \<times> reach) option" where
  "build_closures ord E =
     closure_loop ord (ord (closure_nodes E)) (direct_descendants E, direct_ancestors E)"

definition topological_likelihood :: "reach \<times> reach \<Rightarrow> estimator" where
  "topological_likelihood DA intervention_node root_cause outcome =
     (case DA of (descendants, ancestors) \<Rightarrow>
        if intervention_node = root_cause then if outcome = ''mitigated'' then 9/10 else 1/10
        else if intervention_node \<in> descendants root_cause then if outcome = ''mitigated'' then 8/10 else 2/10
        else if intervention_node \<in> ancestors root_cause then if outcome = ''mitigated'' then 1/10 else 9/10
        else if outcome = ''mitigated'' then 1/10 else 9/10)"

subsection \<open>Determinism of components\<close>

record determinism =
  de_run_counts :: "string \<Rightarrow> int"
  de_stable_counts :: "string \<Rightarrow> int"
  de_last_hashes :: "string \<rightharpoonup> string"

definition new_determinism :: determinism where
  "new_determinism = \<lparr>de_run_counts = (\<lambda>_. 0), de_stable_counts = (\<lambda>_. 0), de_last_hashes = Map.empty\<rparr>"

definition record_observation :: "string \<Rightarrow> string \<Rightarrow> determinism \<Rightarrow> determinism" where
  "record_observation component_id output_hash d =
     d\<lparr>de_run_counts := (de_run_counts d)(component_id := de_run_counts d component_id + 1),
       de_stable_counts :=
         (if de_last_hashes d component_id = Some output_hash
          then (de_stable_counts d)(component_id := de_stable_counts d component_id + 1) else de_stable_counts d),
       de_last_hashes := (de_last_hashes d)(component_id \<mapsto> output_hash)\<rparr>"

definition estimate_determinism :: "string \<Rightarrow> determinism \<Rightarrow> rat" where
  "estimate_determinism component_id d =
     (let runs = de_run_counts d component_id in
      if runs < 2 then 7/10 else of_int (de_stable_counts d component_id + 1) / of_int (runs + 2))"

subsection \<open>The belief model\<close>

definition LAPLACE_ALPHA :: rat where "LAPLACE_ALPHA = 1/10"

text \<open>A dict comprehension: of equal keys the first keeps its place.\<close>

definition initial_beliefs :: "string list \<Rightarrow> beliefs" where
  "initial_beliefs components =
     (if components = [] then []
      else let total = of_nat (length components) * (1 + LAPLACE_ALPHA) in
           fold (\<lambda>c b. dict_put c ((1 + LAPLACE_ALPHA) / total) b) components [])"

definition safe_prob :: "rat \<Rightarrow> rat" where
  "safe_prob p = (if p < 0 then 0 else min 1 p)"

definition entropy_of :: "(rat \<Rightarrow> rat) \<Rightarrow> rat list \<Rightarrow> rat" where
  "entropy_of lg ps = foldl (\<lambda>h p. if 0 < p then h - p * lg p else h) 0 ps"

definition entropy :: "(rat \<Rightarrow> rat) \<Rightarrow> beliefs \<Rightarrow> rat" where
  "entropy lg b = max 0 (entropy_of lg (map snd b))"

definition normalise :: "beliefs \<Rightarrow> beliefs" where
  "normalise b = (let s = sum_list (map snd b) in if 0 < s then map (\<lambda>(c, v). (c, v / s)) b else b)"

definition update_beliefs :: "string \<Rightarrow> string \<Rightarrow> estimator \<Rightarrow> beliefs \<Rightarrow> beliefs" where
  "update_beliefs intervention_node outcome estimator b =
     (let unnormalized = map (\<lambda>(c, prior). (c, safe_prob (estimator intervention_node c outcome) * prior)) b;
          total = sum_list (map snd unnormalized)
      in normalise
           (if total \<le> 0 then map (\<lambda>(c, _). (c, 1 / of_nat (max 1 (length b)))) b
            else map (\<lambda>(c, v). (c, safe_prob (v / total))) unnormalized))"

text \<open>The probability of an outcome, and the entropy of the posterior after it.\<close>

definition outcome_prob :: "string \<Rightarrow> estimator \<Rightarrow> string \<Rightarrow> beliefs \<Rightarrow> rat" where
  "outcome_prob node estimator oc b =
     sum_list (map (\<lambda>(c, p). safe_prob (estimator node c oc) * p) b)"

definition posterior_entropy :: "(rat \<Rightarrow> rat) \<Rightarrow> string \<Rightarrow> estimator \<Rightarrow> string \<Rightarrow> beliefs \<Rightarrow> rat" where
  "posterior_entropy lg node estimator oc b =
     entropy_of lg (map (\<lambda>(c, p). safe_prob (estimator node c oc) * p / outcome_prob node estimator oc b) b)"

definition expected_information_gain ::
    "(rat \<Rightarrow> rat) \<Rightarrow> string \<Rightarrow> estimator \<Rightarrow> beliefs \<Rightarrow> rat \<times> rat" where
  "expected_information_gain lg node estimator b =
     (let expected_h_post = foldl (\<lambda>acc oc. let p = outcome_prob node estimator oc b in
            if 0 < p then acc + p * posterior_entropy lg node estimator oc b else acc) 0 [''mitigated'', ''reproduced'']
      in (max 0 (entropy lg b - expected_h_post), expected_h_post))"

definition get_most_likely_cause :: "rat \<Rightarrow> beliefs \<Rightarrow> string option \<times> rat" where
  "get_most_likely_cause threshold b =
     (if b = [] then (None, 0)
      else if threshold \<le> max_value b then (Some (top_key b), max_value b) else (None, max_value b))"

subsection \<open>Impact on the graph\<close>

text \<open>The search marks a node when it leaves the queue; unmarked targets are appended, possibly several times.\<close>

definition fresh_targets :: "edges \<Rightarrow> string \<Rightarrow> string set \<Rightarrow> string list" where
  "fresh_targets E x D = map snd (filter (\<lambda>(s, t). s = x \<and> t \<noteq> [] \<and> t \<notin> D) E)"

function impact_search :: "edges \<Rightarrow> string list \<Rightarrow> string set \<Rightarrow> string set" where
  "impact_search E [] D = D"
| "impact_search E (x # queue) D =
     impact_search E (queue @ fresh_targets E x (insert x D)) (insert x D)"
  by pat_completeness auto

lemma set_fresh_targets: "set (fresh_targets E x D) = {t. (x, t) \<in> set E \<and> t \<noteq> [] \<and> t \<notin> D}"
  by (force simp: fresh_targets_def)

text \<open>Either a new node is marked, or the queue holds one marked node less.\<close>

termination impact_search
proof (relation "measures [\<lambda>(E, q, D). card ((set q \<union> snd ` set E) - D), \<lambda>(E, q, D). length (filter (\<lambda>y. y \<in> D) q)]")
  fix E :: edges and x queue D
  let ?q = "queue @ fresh_targets E x (insert x D)" and ?D = "insert x D"
  have sub: "(set ?q \<union> snd ` set E) - ?D \<subseteq> (set (x # queue) \<union> snd ` set E) - D"
    by (force simp: set_fresh_targets)
  show "((E, ?q, ?D), E, x # queue, D) \<in> measures
      [\<lambda>(E, q, D). card ((set q \<union> snd ` set E) - D), \<lambda>(E, q, D). length (filter (\<lambda>y. y \<in> D) q)]"
  proof (cases "x \<in> D")
    case True
    then have "insert x D = D" by blast
    moreover have "card ((set ?q \<union> snd ` set E) - ?D) \<le> card ((set (x # queue) \<union> snd ` set E) - D)"
      using sub by (intro card_mono) auto
    moreover have "filter (\<lambda>y. y \<in> D) (fresh_targets E x D) = []"
      by (auto simp: filter_empty_conv set_fresh_targets)
    ultimately show ?thesis using True by auto
  next
    case False
    have "(set ?q \<union> snd ` set E) - ?D \<subset> (set (x # queue) \<union> snd ` set E) - D"
      using sub False by auto
    then have "card ((set ?q \<union> snd ` set E) - ?D) < card ((set (x # queue) \<union> snd ` set E) - D)"
      by (intro psubset_card_mono) auto
    then show ?thesis by simp
  qed
qed simp

definition calculate_graph_impact :: "string list \<Rightarrow> edges \<Rightarrow> string \<Rightarrow> rat" where
  "calculate_graph_impact nodes E node =
     (if nodes = [] then 0 else of_nat (card (impact_search E [node] {})) / of_nat (length nodes))"

subsection \<open>The closure loop computes the transitive closure\<close>

lemma direct_descendants_eq: "direct_descendants E n = {t. (n, t) \<in> set E}"
proof -
  have "fold (\<lambda>(s, t) D. D(s := insert t (D s))) E D0 n = D0 n \<union> {t. (n, t) \<in> set E}" for D0 :: reach
    by (induction E arbitrary: D0) (auto split: if_splits)
  then show ?thesis by (simp add: direct_descendants_def)
qed

lemma direct_ancestors_eq: "direct_ancestors E n = {s. (s, n) \<in> set E}"
proof -
  have "fold (\<lambda>(s, t) A. A(t := insert s (A t))) E A0 n = A0 n \<union> {s. (s, n) \<in> set E}" for A0 :: reach
    by (induction E arbitrary: A0) (auto split: if_splits)
  then show ?thesis by (simp add: direct_ancestors_def)
qed

definition finite_reach :: "reach \<Rightarrow> bool" where
  "finite_reach M \<longleftrightarrow> (\<forall>n. finite (M n))"

text \<open>The same loops without the flag.\<close>

definition merge :: "string \<Rightarrow> string list \<Rightarrow> reach \<Rightarrow> reach" where
  "merge n ds M = fold (\<lambda>d M. M(n := M n \<union> M d)) ds M"

definition pass :: "(string set \<Rightarrow> string list) \<Rightarrow> string list \<Rightarrow> reach \<Rightarrow> reach" where
  "pass ord nodes M = fold (\<lambda>n M. merge n (ord (M n)) M) nodes M"

lemma merge_simps [simp]: "merge n [] M = M" "merge n (d # ds) M = merge n ds (M(n := M n \<union> M d))"
  by (simp_all add: merge_def)

lemma pass_simps [simp]: "pass ord [] M = M" "pass ord (n # ns) M = pass ord ns (merge n (ord (M n)) M)"
  by (simp_all add: pass_def)

lemma upd_grows: "(M :: reach) \<le> M(n := M n \<union> M d)"
  by (auto simp: le_fun_def)

lemma merge_grows: "M \<le> merge n ds M"
proof (induction ds arbitrary: M)
  case (Cons d ds)
  then show ?case using upd_grows [of M n d] order_trans by (fastforce simp: merge_simps)
qed simp

lemma pass_grows: "M \<le> pass ord ns M"
proof (induction ns arbitrary: M)
  case (Cons n ns)
  then show ?case using merge_grows [of M n "ord (M n)"] order_trans by (fastforce simp: pass_simps)
qed simp

lemma merge_finite: "finite_reach M \<Longrightarrow> finite_reach (merge n ds M)"
  by (induction ds arbitrary: M) (auto simp: finite_reach_def)

lemma pass_finite: "finite_reach M \<Longrightarrow> finite_reach (pass ord ns M)"
  by (induction ns arbitrary: M) (auto intro: merge_finite)

lemma merge_other: "m \<noteq> n \<Longrightarrow> merge n ds M m = M m"
  by (induction ds arbitrary: M) auto

lemma pass_other: "m \<notin> set ns \<Longrightarrow> pass ord ns M m = M m"
  by (induction ns arbitrary: M) (auto simp: merge_other)

lemma merge_stable: "merge n ds M = M \<Longrightarrow> d \<in> set ds \<Longrightarrow> M d \<subseteq> M n"
proof (induction ds)
  case (Cons x ds)
  let ?M = "M(n := M n \<union> M x)"
  from Cons.prems(1) have "?M \<le> M" using merge_grows [of ?M n ds] by simp
  then have eq: "?M = M" using upd_grows [of M n x] by (rule antisym)
  then have "M x \<subseteq> M n" by (metis Un_upper2 fun_upd_same)
  moreover have "merge n ds M = M" using Cons.prems(1) eq by simp
  ultimately show ?case using Cons by auto
qed simp

lemma pass_stable: "pass ord ns M = M \<Longrightarrow> n \<in> set ns \<Longrightarrow> d \<in> set (ord (M n)) \<Longrightarrow> M d \<subseteq> M n"
proof (induction ns)
  case (Cons k ns)
  let ?M = "merge k (ord (M k)) M"
  from Cons.prems(1) have "?M \<le> M" using pass_grows [of ?M ord ns] by simp
  then have eq: "?M = M" using merge_grows [of M k] by (metis antisym)
  moreover have "pass ord ns M = M" using Cons.prems(1) eq by simp
  ultimately show ?case using Cons merge_stable [OF eq] by auto
qed simp

lemma merge_sound:
  "M \<le> T \<Longrightarrow> (\<And>m d. d \<in> T m \<Longrightarrow> T d \<subseteq> T m) \<Longrightarrow> set ds \<subseteq> T n \<Longrightarrow> merge n ds M \<le> T"
proof (induction ds arbitrary: M)
  case (Cons d ds)
  have "M d \<subseteq> T n" using Cons.prems by (fastforce simp: le_fun_def)
  then have "M(n := M n \<union> M d) \<le> T" using Cons.prems(1) by (auto simp: le_fun_def)
  with Cons show ?case by auto
qed simp

lemma pass_sound:
  assumes "M \<le> T" "finite_reach M" "\<And>m d. d \<in> T m \<Longrightarrow> T d \<subseteq> T m" "\<And>S. finite S \<Longrightarrow> set (ord S) = S"
  shows "pass ord ns M \<le> T"
  using assms
proof (induction ns arbitrary: M)
  case (Cons n ns)
  have "set (ord (M n)) \<subseteq> T n" using Cons.prems by (auto simp: finite_reach_def le_fun_def)
  then have "merge n (ord (M n)) M \<le> T" using merge_sound [OF Cons.prems(1)] Cons.prems(3) by blast
  then show ?case using Cons.IH Cons.prems(2-4) merge_finite by auto
qed simp

lemma grow_chain: "a \<le> b \<Longrightarrow> b \<le> c \<Longrightarrow> b \<noteq> a \<or> c \<noteq> b \<longleftrightarrow> c \<noteq> (a :: reach)"
  by (metis antisym)

lemma absorb_eq:
  assumes "finite_reach M"
  shows "absorb ord n (M, c) = (merge n (ord (M n)) M, c \<or> merge n (ord (M n)) M \<noteq> M)"
proof -
  have "fold (absorb_one n) ds (M, c) = (merge n ds M, c \<or> merge n ds M \<noteq> M)" if "finite_reach M" for ds
    using that
  proof (induction ds arbitrary: M c)
    case (Cons d ds)
    let ?M = "M(n := M n \<union> M d)"
    have fin: "finite_reach ?M" using Cons.prems by (auto simp: finite_reach_def)
    have "card (M n) < card (M n \<union> M d) \<longleftrightarrow> M n \<union> M d \<noteq> M n"
      using Cons.prems by (metis card_seteq finite_UnI finite_reach_def not_le order_refl sup_ge1 less_irrefl)
    also have "\<dots> \<longleftrightarrow> ?M \<noteq> M" by (metis fun_upd_same fun_upd_triv)
    finally have step: "absorb_one n d (M, c) = (?M, c \<or> ?M \<noteq> M)" by (simp add: absorb_one_def Let_def)
    have "?M \<noteq> M \<or> merge n ds ?M \<noteq> ?M \<longleftrightarrow> merge n ds ?M \<noteq> M"
      by (rule grow_chain [OF upd_grows merge_grows])
    moreover have "fold (absorb_one n) (d # ds) (M, c) = (merge n ds ?M, (c \<or> ?M \<noteq> M) \<or> merge n ds ?M \<noteq> ?M)"
      by (simp only: fold_Cons o_apply step Cons.IH [OF fin])
    ultimately show ?case by (simp only: merge_simps disj_assoc)
  qed simp
  with assms show ?thesis by (simp add: absorb_def)
qed

lemma closure_pass_eq:
  assumes "finite_reach D" "finite_reach A"
  shows "closure_pass ord ns (D, A) = (pass ord ns D, pass ord ns A, pass ord ns D \<noteq> D \<or> pass ord ns A \<noteq> A)"
proof -
  let ?f = "\<lambda>n (D, A, changed).
          let (D', c1) = absorb ord n (D, changed); (A', c2) = absorb ord n (A, c1) in (D', A', c2)"
  have "fold ?f ns (D, A, c) = (pass ord ns D, pass ord ns A, c \<or> pass ord ns D \<noteq> D \<or> pass ord ns A \<noteq> A)" for c
    using assms
  proof (induction ns arbitrary: D A c)
    case (Cons n ns)
    let ?D = "merge n (ord (D n)) D" and ?A = "merge n (ord (A n)) A"
    have "?f n (D, A, c) = (?D, ?A, c \<or> ?D \<noteq> D \<or> ?A \<noteq> A)"
      using Cons.prems by (simp add: absorb_eq Let_def)
    then have "fold ?f (n # ns) (D, A, c) = fold ?f ns (?D, ?A, c \<or> ?D \<noteq> D \<or> ?A \<noteq> A)"
      by (simp only: fold_Cons o_apply)
    also note Cons.IH [OF merge_finite [OF Cons.prems(1)] merge_finite [OF Cons.prems(2)]]
    finally have eq: "fold ?f (n # ns) (D, A, c) = (pass ord ns ?D, pass ord ns ?A,
      (c \<or> ?D \<noteq> D \<or> ?A \<noteq> A) \<or> pass ord ns ?D \<noteq> ?D \<or> pass ord ns ?A \<noteq> ?A)" .
    have "?D \<noteq> D \<or> pass ord ns ?D \<noteq> ?D \<longleftrightarrow> pass ord ns ?D \<noteq> D"
      "?A \<noteq> A \<or> pass ord ns ?A \<noteq> ?A \<longleftrightarrow> pass ord ns ?A \<noteq> A"
      by (rule grow_chain [OF merge_grows pass_grows])+
    then show ?case unfolding eq pass_simps by blast
  qed simp
  then show ?thesis by (simp add: closure_pass_def)
qed

text \<open>What is still missing from the sets of the nodes decreases with every pass that changes something.\<close>

definition missing :: "string set \<Rightarrow> string list \<Rightarrow> reach \<Rightarrow> nat" where
  "missing U ns M = (\<Sum>n\<in>set ns. card (U - M n))"

lemma missing_decreases:
  assumes "finite U" "\<forall>n. pass ord ns M n \<subseteq> U"
  shows "missing U ns (pass ord ns M) \<le> missing U ns M \<and>
    (pass ord ns M \<noteq> M \<longrightarrow> missing U ns (pass ord ns M) < missing U ns M)"
proof -
  have le: "M n \<subseteq> pass ord ns M n" for n using pass_grows [of M ord ns] by (simp add: le_fun_def)
  have each: "card (U - pass ord ns M n) \<le> card (U - M n)" for n
    using le assms(1) by (intro card_mono) auto
  moreover have "\<exists>n\<in>set ns. card (U - pass ord ns M n) < card (U - M n)" if "pass ord ns M \<noteq> M"
  proof -
    from that obtain n where n: "pass ord ns M n \<noteq> M n" by (auto simp: fun_eq_iff)
    then have "n \<in> set ns" using pass_other by metis
    moreover have "U - pass ord ns M n \<subset> U - M n" using n le assms(2) by blast
    ultimately show ?thesis using assms(1) by (auto intro: psubset_card_mono)
  qed
  ultimately show ?thesis unfolding missing_def by (auto intro: sum_mono sum_strict_mono_ex1)
qed

lemma closure_loop_returns:
  assumes "finite_reach D" "finite_reach A" "D \<le> TD" "A \<le> TA" "finite U" "\<And>n. TD n \<subseteq> U" "\<And>n. TA n \<subseteq> U"
    and "\<And>m d. d \<in> TD m \<Longrightarrow> TD d \<subseteq> TD m" "\<And>m d. d \<in> TA m \<Longrightarrow> TA d \<subseteq> TA m"
    and "\<And>S. finite S \<Longrightarrow> set (ord S) = S"
  shows "\<exists>D' A'. closure_loop ord ns (D, A) = Some (D', A') \<and> D \<le> D' \<and> D' \<le> TD \<and> A \<le> A' \<and> A' \<le> TA \<and>
    (\<forall>n\<in>set ns. (\<forall>d\<in>D' n. D' d \<subseteq> D' n) \<and> (\<forall>d\<in>A' n. A' d \<subseteq> A' n))"
  using assms(1-4)
proof (induction "missing U ns D + missing U ns A" arbitrary: D A rule: less_induct)
  case less
  let ?D = "pass ord ns D" and ?A = "pass ord ns A"
  have bounds: "?D \<le> TD" "?A \<le> TA" using less.prems assms(8-10) by (blast intro: pass_sound)+
  then have "\<forall>n. ?D n \<subseteq> U" "\<forall>n. ?A n \<subseteq> U" using assms(6,7) unfolding le_fun_def by (meson order_trans)+
  note dec = missing_decreases [OF assms(5) this(1)] missing_decreases [OF assms(5) this(2)]
  show ?case
  proof (cases "?D \<noteq> D \<or> ?A \<noteq> A")
    case True
    then have "missing U ns ?D + missing U ns ?A < missing U ns D + missing U ns A" using dec by linarith
    from less.hyps [OF this pass_finite [OF less.prems(1)] pass_finite [OF less.prems(2)] bounds] True
    show ?thesis using pass_grows [of D ord ns] pass_grows [of A ord ns]
      by (subst closure_loop.simps) (auto simp: closure_pass_eq [OF less.prems(1,2)] intro: order_trans)
  next
    case False
    then have eq: "?D = D" "?A = A" by auto
    have "set (ord (M n)) = M n" if "finite_reach M" for M n using that assms(10) by (simp add: finite_reach_def)
    then show ?thesis using less.prems eq pass_stable [OF eq(1)] pass_stable [OF eq(2)]
      by (subst closure_loop.simps) (auto simp: closure_pass_eq [OF less.prems(1,2)])
  qed
qed

lemma transitive_between:
  assumes "\<And>n. {t. (n, t) \<in> R} \<subseteq> M n" "\<And>n. M n \<subseteq> {t. (n, t) \<in> R\<^sup>+}" "\<And>n d. n \<in> Domain R \<Longrightarrow> d \<in> M n \<Longrightarrow> M d \<subseteq> M n"
  shows "M n = {t. (n, t) \<in> R\<^sup>+}"
proof -
  have "t \<in> M n" if "(n, t) \<in> R\<^sup>+" for n t
    using that
  proof (induction rule: converse_trancl_induct)
    case (base y)
    then show ?case using assms(1) by auto
  next
    case (step y z)
    then show ?case using assms(1,3) by blast
  qed
  with assms(2) show ?thesis by blast
qed

text \<open>
  C33. The closure loop of the topological estimator returns on every graph, cyclic ones included, whatever the
  order in which sets are iterated, and computes exactly the transitive closure of the edges: the descendants of a
  node are the nodes reachable from it by at least one edge, and the ancestors those that reach it.
\<close>

theorem closures_exact:
  assumes "\<And>S. finite S \<Longrightarrow> set (ord S) = S"
  shows "\<exists>D A. build_closures ord E = Some (D, A) \<and>
    (\<forall>n. D n = {m. (n, m) \<in> (set E)\<^sup>+} \<and> A n = {m. (m, n) \<in> (set E)\<^sup>+})"
proof -
  let ?R = "set E" and ?U = "closure_nodes E"
  let ?TD = "\<lambda>n. {m. (n, m) \<in> ?R\<^sup>+}" and ?TA = "\<lambda>n. {m. (n, m) \<in> (?R\<inverse>)\<^sup>+}"
  have U: "finite ?U" "fst ` ?R \<subseteq> ?U" "snd ` ?R \<subseteq> ?U" by (auto simp: closure_nodes_def)
  have sub: "{t. (n, t) \<in> R\<^sup>+} \<subseteq> Range R" for n and R :: "(string \<times> string) set"
    using trancl_range [of R] by blast
  have "Range ?R \<subseteq> ?U" "Range (?R\<inverse>) \<subseteq> ?U" using U by (force simp: Range_snd Range_converse Domain_fst)+
  then have inU: "?TD n \<subseteq> ?U" "?TA n \<subseteq> ?U" for n using sub by blast+
  have fin: "finite_reach (direct_descendants E)" "finite_reach (direct_ancestors E)"
    unfolding finite_reach_def direct_descendants_eq direct_ancestors_eq
    by (intro allI finite_subset [OF _ U(1)]; force simp: closure_nodes_def)+
  obtain D A where loop: "build_closures ord E = Some (D, A)"
    and D: "direct_descendants E \<le> D" "D \<le> ?TD" and A: "direct_ancestors E \<le> A" "A \<le> ?TA"
    and stable: "\<forall>n\<in>?U. (\<forall>d\<in>D n. D d \<subseteq> D n) \<and> (\<forall>d\<in>A n. A d \<subseteq> A n)"
    using closure_loop_returns [of "direct_descendants E" "direct_ancestors E" ?TD ?TA ?U ord "ord ?U",
        OF fin _ _ U(1) inU] assms U(1)
    by (fastforce simp: build_closures_def le_fun_def direct_descendants_eq direct_ancestors_eq intro: trancl_trans)
  have dom: "Domain ?R \<subseteq> ?U" "Domain (?R\<inverse>) \<subseteq> ?U" by (force simp: closure_nodes_def)+
  have "D n = ?TD n" for n
    by (rule transitive_between) (use D stable dom(1) in \<open>auto simp: le_fun_def direct_descendants_eq subset_iff\<close>)
  moreover have "A n = ?TA n" for n
    by (rule transitive_between) (use A stable dom(2) in \<open>auto simp: le_fun_def direct_ancestors_eq subset_iff\<close>)
  ultimately show ?thesis using loop by (auto simp: trancl_converse)
qed

subsection \<open>Bayesian updating\<close>

definition is_distribution :: "beliefs \<Rightarrow> bool" where
  "is_distribution b \<longleftrightarrow> distinct (map fst b) \<and> (\<forall>p\<in>set (map snd b). 0 \<le> p) \<and> sum_list (map snd b) = 1"

lemma safe_prob_bounds [simp]: "0 \<le> safe_prob p" "safe_prob p \<le> 1"
  by (simp_all add: safe_prob_def)

lemma safe_prob_id: "0 \<le> p \<Longrightarrow> p \<le> 1 \<Longrightarrow> safe_prob p = p"
  by (simp add: safe_prob_def)

lemma sum_list_div: "sum_list (map (\<lambda>x. f x / (t :: rat)) xs) = sum_list (map f xs) / t"
  by (induction xs) (simp_all add: add_divide_distrib)

lemma elem_le_sum_list_nonneg: "\<forall>y\<in>set xs. 0 \<le> f y \<Longrightarrow> x \<in> set xs \<Longrightarrow> f x \<le> (sum_list (map f xs) :: rat)"
proof (induction xs)
  case (Cons a xs)
  have "0 \<le> sum_list (map f xs)" by (rule sum_list_nonneg) (use Cons.prems(1) in auto)
  with Cons show ?case by (auto intro: add_increasing)
qed simp

lemma normalise_id: "sum_list (map snd b) = 1 \<Longrightarrow> normalise b = b"
  by (simp add: normalise_def case_prod_beta)

lemma weights_nonneg:
  "is_distribution b \<Longrightarrow> \<forall>y\<in>set b. 0 \<le> safe_prob (f (fst y)) * snd y"
  by (auto simp: is_distribution_def)

lemma outcome_prob_alt:
  "outcome_prob node est oc b = sum_list (map (\<lambda>y. safe_prob (est node (fst y) oc) * snd y) b)"
  by (simp add: outcome_prob_def case_prod_beta')

lemma update_bayes:
  assumes "is_distribution b" "0 < outcome_prob node est oc b"
  shows "update_beliefs node oc est b =
    map (\<lambda>(c, p). (c, safe_prob (est node c oc) * p / outcome_prob node est oc b)) b"
proof -
  let ?w = "\<lambda>y. safe_prob (est node (fst y) oc) * snd y" and ?t = "outcome_prob node est oc b"
  have nn: "\<forall>y\<in>set b. 0 \<le> ?w y" using weights_nonneg [OF assms(1), of "\<lambda>c. est node c oc"] by simp
  have clamp: "safe_prob (?w y / ?t) = ?w y / ?t" if "y \<in> set b" for y
    using that nn assms(2) elem_le_sum_list_nonneg [OF nn that] by (intro safe_prob_id) (auto simp: outcome_prob_alt)
  have "map (\<lambda>y. (fst y, safe_prob (?w y / ?t))) b = map (\<lambda>y. (fst y, ?w y / ?t)) b"
    using clamp by simp
  moreover have "sum_list (map snd (map (\<lambda>y. (fst y, ?w y / ?t)) b)) = 1"
    using assms(2) by (simp add: o_def sum_list_div outcome_prob_alt)
  moreover have "update_beliefs node oc est b = normalise (map (\<lambda>y. (fst y, safe_prob (?w y / ?t))) b)"
    using assms(2) unfolding update_beliefs_def outcome_prob_alt by (simp add: Let_def case_prod_beta' o_def)
  ultimately show ?thesis by (simp only: normalise_id case_prod_beta')
qed

lemma update_uniform:
  assumes "is_distribution b" "outcome_prob node est oc b \<le> 0"
  shows "update_beliefs node oc est b = map (\<lambda>(c, _). (c, 1 / of_nat (length b))) b"
proof -
  have "b \<noteq> []" using assms(1) by (auto simp: is_distribution_def)
  then have len: "max 1 (length b) = length b" by (cases b) auto
  have "sum_list (map (\<lambda>y. 1 / of_nat (length b)) b) = (1 :: rat)"
    using \<open>b \<noteq> []\<close> by (simp add: sum_list_triv)
  with assms(2) len show ?thesis
    unfolding update_beliefs_def outcome_prob_alt by (simp add: Let_def case_prod_beta' o_def normalise_id)
qed

text \<open>
  Updating the beliefs after a replay is Bayes' rule. From a probability distribution over the components the
  update gives a distribution over the same components in the same order, for every estimator, also one that
  returns numbers outside the unit interval; where the observed outcome has positive probability, the new belief of
  a component is its likelihood times its prior over the probability of the outcome, so neither the clamping nor the
  final renormalisation changes anything; and where the outcome is impossible the beliefs become uniform.
\<close>

theorem update_is_bayes:
  assumes "is_distribution b"
  shows "is_distribution (update_beliefs node oc est b) \<and>
    map fst (update_beliefs node oc est b) = map fst b \<and>
    (if 0 < outcome_prob node est oc b
     then update_beliefs node oc est b =
       map (\<lambda>(c, p). (c, safe_prob (est node c oc) * p / outcome_prob node est oc b)) b
     else update_beliefs node oc est b = map (\<lambda>(c, _). (c, 1 / of_nat (length b))) b)"
proof (cases "0 < outcome_prob node est oc b")
  case True
  have nn: "\<forall>y\<in>set b. 0 \<le> safe_prob (est node (fst y) oc) * snd y"
    using weights_nonneg [OF assms, of "\<lambda>c. est node c oc"] by simp
  have "sum_list (map (\<lambda>y. safe_prob (est node (fst y) oc) * snd y / outcome_prob node est oc b) b) = 1"
    using True by (simp add: sum_list_div outcome_prob_alt)
  then show ?thesis using True assms nn unfolding update_bayes [OF assms True] is_distribution_def
    by (auto simp: case_prod_beta' o_def)
next
  case False
  have "b \<noteq> []" using assms by (auto simp: is_distribution_def)
  then have "sum_list (map (\<lambda>y. 1 / of_nat (length b)) b) = (1 :: rat)" by (simp add: sum_list_triv)
  with False assms show ?thesis unfolding update_uniform [OF assms, unfolded not_less [symmetric], OF False] is_distribution_def
    by (auto simp: case_prod_beta' o_def)
qed

lemma fold_dict_put_fresh:
  "distinct (map fst d @ cs) \<Longrightarrow> fold (\<lambda>c b. dict_put c v b) cs d = d @ map (\<lambda>c. (c, v)) cs"
proof (induction cs arbitrary: d)
  case (Cons c cs)
  have "dict_put c v d = d @ [(c, v)]" using Cons.prems by (induction d) auto
  then show ?case using Cons by (auto simp del: dict_put.simps)
qed simp

lemma initial_beliefs_uniform:
  assumes "distinct cs" "cs \<noteq> []"
  shows "initial_beliefs cs = map (\<lambda>c. (c, 1 / of_nat (length cs))) cs" "is_distribution (initial_beliefs cs)"
proof -
  have "fold (\<lambda>c b. dict_put c v b) cs [] = map (\<lambda>c. (c, v)) cs" for v :: rat
    using fold_dict_put_fresh [of "[]" cs v] assms by simp
  then show eq: "initial_beliefs cs = map (\<lambda>c. (c, 1 / of_nat (length cs))) cs"
    using assms by (simp add: initial_beliefs_def LAPLACE_ALPHA_def)
  show "is_distribution (initial_beliefs cs)"
    using assms unfolding eq is_distribution_def by (auto simp: o_def sum_list_triv)
qed

theorem update_is_bayes_witness:
  "update_beliefs ''a'' ''mitigated'' heuristic_likelihood (initial_beliefs [''a'', ''b'']) = [(''a'', 9/10), (''b'', 1/10)]"
proof -
  have d: "is_distribution (initial_beliefs [''a'', ''b''])" by (intro initial_beliefs_uniform(2)) auto
  have i: "initial_beliefs [''a'', ''b''] = [(''a'', 1/2), (''b'', 1/2)]"
    using initial_beliefs_uniform(1) [of "[''a'', ''b'']"] by simp
  show ?thesis using update_is_bayes [OF d, of "''a''" "''mitigated''" heuristic_likelihood]
    by (simp add: i outcome_prob_def heuristic_likelihood_def safe_prob_def split: if_splits)
qed

subsection \<open>The determinism estimate\<close>

text \<open>Every run that is counted as stable is a run, and the first run of a component is never stable.\<close>

lemma determinism_bounds:
  assumes "\<forall>c. 0 \<le> de_stable_counts d c \<and> de_stable_counts d c \<le> de_run_counts d c"
  shows "\<forall>c. 0 \<le> de_stable_counts (record_observation k h d) c \<and>
      de_stable_counts (record_observation k h d) c \<le> de_run_counts (record_observation k h d) c"
    and "0 < estimate_determinism c d \<and> estimate_determinism c d < 1"
proof -
  show "\<forall>c. 0 \<le> de_stable_counts (record_observation k h d) c \<and>
      de_stable_counts (record_observation k h d) c \<le> de_run_counts (record_observation k h d) c"
    using assms by (auto simp: record_observation_def add_increasing2)
  have "(0 :: rat) < of_int (de_stable_counts d c + 1)" "(of_int (de_stable_counts d c + 1) :: rat) < of_int (de_run_counts d c + 2)"
    using assms by (simp_all only: of_int_0_less_iff of_int_less_iff) (smt (verit))+
  then show "0 < estimate_determinism c d \<and> estimate_determinism c d < 1"
    by (auto simp: estimate_determinism_def Let_def divide_less_eq zero_less_divide_iff)
qed

subsection \<open>The impact search computes reachability\<close>

definition impact_edges :: "edges \<Rightarrow> (string \<times> string) set" where
  "impact_edges E = {(s, t). (s, t) \<in> set E \<and> t \<noteq> []}"

lemma impact_search_sound:
  "set q \<union> D \<subseteq> {y. (x, y) \<in> (impact_edges E)\<^sup>*} \<Longrightarrow> impact_search E q D \<subseteq> {y. (x, y) \<in> (impact_edges E)\<^sup>*}"
proof (induction E q D rule: impact_search.induct)
  case (2 E k queue D)
  have "set (fresh_targets E k (insert k D)) \<subseteq> {y. (x, y) \<in> (impact_edges E)\<^sup>*}"
    using "2.prems" by (auto simp: set_fresh_targets impact_edges_def intro: rtrancl_into_rtrancl)
  with 2 show ?case by auto
qed auto

lemma impact_search_complete:
  "\<forall>s\<in>D. impact_edges E `` {s} \<subseteq> D \<union> set q \<Longrightarrow>
     set q \<union> D \<subseteq> impact_search E q D \<and> impact_edges E `` impact_search E q D \<subseteq> impact_search E q D"
proof (induction E q D rule: impact_search.induct)
  case (2 E k queue D)
  have "\<forall>s\<in>insert k D. impact_edges E `` {s} \<subseteq> insert k D \<union> set (queue @ fresh_targets E k (insert k D))"
    using "2.prems" by (auto simp: set_fresh_targets impact_edges_def)
  from 2(1) [OF this] show ?case by auto
qed auto

lemma impact_search_eq: "impact_search E [x] {} = {y. (x, y) \<in> (impact_edges E)\<^sup>*}"
proof
  show "impact_search E [x] {} \<subseteq> {y. (x, y) \<in> (impact_edges E)\<^sup>*}" by (rule impact_search_sound) auto
  have c: "x \<in> impact_search E [x] {}" "impact_edges E `` impact_search E [x] {} \<subseteq> impact_search E [x] {}"
    using impact_search_complete [of "{}" E "[x]"] by auto
  have "y \<in> impact_search E [x] {}" if "(x, y) \<in> (impact_edges E)\<^sup>*" for y
    using that c by (induction rule: rtrancl_induct) auto
  then show "{y. (x, y) \<in> (impact_edges E)\<^sup>*} \<subseteq> impact_search E [x] {}" by blast
qed

text \<open>
  The impact of an intervention is exactly the share of the graph it can reach: on every graph, also a cyclic
  one, the search ends with the set of nodes reachable from the intervention along edges with a named target, the
  intervention itself included, and the result is the number of these nodes over the number of nodes listed. It is
  at most one whenever the listed nodes are distinct and hold the intervention and every target.
\<close>

theorem graph_impact_exact:
  "impact_search E [node] {} = {y. (node, y) \<in> (impact_edges E)\<^sup>*} \<and>
   calculate_graph_impact nodes E node =
     (if nodes = [] then 0 else of_nat (card {y. (node, y) \<in> (impact_edges E)\<^sup>*}) / of_nat (length nodes)) \<and>
   (distinct nodes \<and> insert node (snd ` set E) \<subseteq> set nodes \<longrightarrow> calculate_graph_impact nodes E node \<le> 1)"
proof (intro conjI impI)
  assume a: "distinct nodes \<and> insert node (snd ` set E) \<subseteq> set nodes"
  have "y \<in> insert node (snd ` set E)" if "(node, y) \<in> (impact_edges E)\<^sup>*" for y
    using that by (induction rule: rtrancl_induct) (force simp: impact_edges_def)+
  then have "card {y. (node, y) \<in> (impact_edges E)\<^sup>*} \<le> card (set nodes)" using a by (intro card_mono) auto
  then show "calculate_graph_impact nodes E node \<le> 1"
    using a by (auto simp: calculate_graph_impact_def impact_search_eq distinct_card simp del: impact_search.simps)
qed (simp_all add: impact_search_eq calculate_graph_impact_def del: impact_search.simps)

theorem graph_impact_exact_witness:
  "calculate_graph_impact [''a'', ''b'', ''c''] [(''a'', ''b''), (''b'', ''a'')] ''a'' \<le> 1"
  using graph_impact_exact [of "[(''a'', ''b''), (''b'', ''a'')]" "''a''" "[''a'', ''b'', ''c'']"] by simp

theorem closures_exact_witness:
  "\<exists>D A. build_closures sorted_list_of_set [(''a'', ''b''), (''b'', ''c'')] = Some (D, A) \<and> ''c'' \<in> D ''a'' \<and> ''a'' \<in> A ''c''"
proof -
  obtain D A where "build_closures sorted_list_of_set [(''a'', ''b''), (''b'', ''c'')] = Some (D, A)"
    and "\<forall>n. D n = {m. (n, m) \<in> (set [(''a'', ''b''), (''b'', ''c'')])\<^sup>+} \<and> A n = {m. (m, n) \<in> (set [(''a'', ''b''), (''b'', ''c'')])\<^sup>+}"
    using closures_exact [of sorted_list_of_set "[(''a'', ''b''), (''b'', ''c'')]"] by auto
  moreover have "(''a'', ''c'') \<in> {(''a'', ''b''), (''b'', ''c'')}\<^sup>+"
    by (rule trancl_trans [of _ "''b''"]) auto
  ultimately show ?thesis by auto
qed

end
