(* ===== verification/Experiment_Planner.thy ===== *)
theory Experiment_Planner
  imports Belief_Model
begin

section \<open>Choosing the next experiment\<close>

text \<open>
  \<open>packages/replay/src/causal_experiment_planner.py\<close>: every untested candidate is scored by its expected
  information gain over a weighted sum of cost, blast radius and risk; the best one is returned if it promises
  enough information and its cost can be reserved. A candidate is a dict with optional keys; an experiment is the
  candidate with the keys the planner adds. The reservation is an object of the resource context of
  \<open>Resource_Budget\<close>; its fresh identifier is an argument.
\<close>

record candidate =
  ec_candidate_id :: "string option"
  ec_id :: "string option"
  ec_target_variable :: "string option"
  ec_node_id :: "string option"
  ec_estimated_cost_usd :: "rat option"
  ec_regression_risk :: "rat option"

record planned = candidate +
  ex_envelope_id :: string
  ex_expected_eig :: rat
  ex_utility :: rat
  ex_blast_radius :: rat
  ex_reserved_cost_usd :: rat
  ex_reservation :: "reservation option"

definition cand_id :: "'z candidate_scheme \<Rightarrow> string" where
  "cand_id c = (case ec_candidate_id c of Some i \<Rightarrow> i | None \<Rightarrow> (case ec_id c of Some i \<Rightarrow> i | None \<Rightarrow> []))"

definition target_node :: "candidate \<Rightarrow> string" where
  "target_node c = (case ec_target_variable c of Some t \<Rightarrow> t
     | None \<Rightarrow> (case ec_node_id c of Some n \<Rightarrow> n | None \<Rightarrow> cand_id c))"

record planner =
  xp_nodes :: "string list"
  xp_edges :: edges
  xp_estimator :: estimator
  xp_default_cost :: rat
  xp_min_eig_threshold :: rat
  xp_eig_weight :: rat
  xp_cost_penalty :: rat
  xp_blast_penalty :: rat
  xp_risk_penalty :: rat
  xp_tested :: "string set"

text \<open>The default planner: no graph, the topological estimator over its edges, the default weights.\<close>

definition default_planner :: "estimator \<Rightarrow> planner" where
  "default_planner est =
     \<lparr>xp_nodes = [], xp_edges = [], xp_estimator = est, xp_default_cost = 5/100, xp_min_eig_threshold = 1/100,
      xp_eig_weight = 1, xp_cost_penalty = 1, xp_blast_penalty = 3/2, xp_risk_penalty = 2, xp_tested = {}\<rparr>"

definition reset_planner :: "planner \<Rightarrow> planner" where
  "reset_planner p = p\<lparr>xp_tested := {}\<rparr>"

definition mark_tested :: "string \<Rightarrow> planner \<Rightarrow> planner" where
  "mark_tested c p = p\<lparr>xp_tested := insert c (xp_tested p)\<rparr>"

definition estimate_blast :: "planner \<Rightarrow> string \<Rightarrow> rat" where
  "estimate_blast p node = (if xp_nodes p = [] then 1/2 else calculate_graph_impact (xp_nodes p) (xp_edges p) node)"

datatype planner_error = ZeroDivision

definition compute_experiment_utility ::
    "rat \<Rightarrow> rat \<Rightarrow> rat \<Rightarrow> rat \<Rightarrow> rat \<Rightarrow> rat \<Rightarrow> rat \<Rightarrow> rat \<Rightarrow> (planner_error, rat) result" where
  "compute_experiment_utility eig cost blast risk eig_weight cost_penalty blast_penalty risk_penalty =
     (let denominator = cost * cost_penalty + blast * blast_penalty + risk * risk_penalty + 1 / 10 ^ 8
      in if denominator = 0 then Inl ZeroDivision else Inr (eig * eig_weight / denominator))"

record scored =
  sx_candidate :: candidate
  sx_eig :: rat
  sx_utility :: rat
  sx_blast_radius :: rat
  sx_cost_usd :: rat

definition cost_of_candidate :: "planner \<Rightarrow> candidate \<Rightarrow> rat" where
  "cost_of_candidate p c = (case ec_estimated_cost_usd c of Some x \<Rightarrow> x | None \<Rightarrow> xp_default_cost p)"

definition score :: "(rat \<Rightarrow> rat) \<Rightarrow> planner \<Rightarrow> beliefs \<Rightarrow> candidate \<Rightarrow> (planner_error, scored) result" where
  "score lg p b c =
     (let node = target_node c;
          eig = fst (expected_information_gain lg node (xp_estimator p) b);
          blast = estimate_blast p node;
          cost = cost_of_candidate p c;
          risk = (case ec_regression_risk c of Some r \<Rightarrow> r | None \<Rightarrow> blast * (1/2))
      in rbind (compute_experiment_utility eig cost blast risk (xp_eig_weight p) (xp_cost_penalty p)
                  (xp_blast_penalty p) (xp_risk_penalty p))
           (\<lambda>u. Inr \<lparr>sx_candidate = c, sx_eig = eig, sx_utility = u, sx_blast_radius = blast, sx_cost_usd = cost\<rparr>))"

fun score_all :: "(rat \<Rightarrow> rat) \<Rightarrow> planner \<Rightarrow> beliefs \<Rightarrow> candidate list \<Rightarrow> (planner_error, scored list) result" where
  "score_all lg p b [] = Inr []"
| "score_all lg p b (c # cs) = rbind (score lg p b c) (\<lambda>s. rbind (score_all lg p b cs) (\<lambda>ss. Inr (s # ss)))"

text \<open>\<open>max(..., key=...)\<close> keeps the first of equal elements.\<close>

fun first_max :: "('a \<Rightarrow> rat) \<Rightarrow> 'a \<Rightarrow> 'a list \<Rightarrow> 'a" where
  "first_max f best [] = best"
| "first_max f best (y # ys) = first_max f (if f best < f y then y else best) ys"

definition experiment_of :: "string \<Rightarrow> reservation \<Rightarrow> scored \<Rightarrow> planned" where
  "experiment_of envelope_id rsv s = candidate.extend (sx_candidate s)
     (planned.fields envelope_id (sx_eig s) (sx_utility s) (sx_blast_radius s) (sx_cost_usd s) (Some rsv))"

definition plan_next_experiment ::
    "(rat \<Rightarrow> rat) \<Rightarrow> string \<Rightarrow> string \<Rightarrow> candidate list \<Rightarrow> beliefs \<Rightarrow> resource_context \<Rightarrow> planner \<Rightarrow>
       (planner_error, planned option \<times> resource_context \<times> planner) result" where
  "plan_next_experiment lg new_id envelope_id candidates belief_state ctx p =
     (if budget_exhausted ctx then Inr (None, ctx, p)
      else if belief_state = [] then Inr (None, ctx, p)
      else
        let untested = filter (\<lambda>c. cand_id c \<notin> xp_tested p) candidates
        in if untested = [] then Inr (None, ctx, p)
           else rbind (score_all lg p belief_state untested) (\<lambda>scored.
             let best = first_max sx_utility (hd scored) (tl scored)
             in if sx_eig best < xp_min_eig_threshold p then Inr (None, ctx, p)
                else (case reserve \<lparr>est_cost = sx_cost_usd best, est_count = 1, est_wall = 0\<rparr> new_id ctx of
                  (None, ctx') \<Rightarrow> Inr (None, ctx', p)
                | (Some rsv, ctx') \<Rightarrow>
                    Inr (Some (experiment_of envelope_id rsv best), ctx', mark_tested (cand_id (sx_candidate best)) p))))"

text \<open>The batch variant: the reservation is taken out of the experiment and committed at its estimate.\<close>

definition take_reservation :: "planned \<Rightarrow> resource_context \<Rightarrow> planned \<times> resource_context" where
  "take_reservation e ctx =
     (e\<lparr>ex_reservation := None\<rparr>,
      case ex_reservation e of None \<Rightarrow> ctx
      | Some rsv \<Rightarrow> snd (reservation_commit
          \<lparr>meas_cost = est_cost (rsv_estimate rsv), meas_count = 1, meas_wall = 0\<rparr> rsv ctx))"

fun select_loop ::
    "nat \<Rightarrow> (rat \<Rightarrow> rat) \<Rightarrow> (nat \<Rightarrow> string) \<Rightarrow> string \<Rightarrow> candidate list \<Rightarrow> beliefs \<Rightarrow> resource_context \<Rightarrow> planner \<Rightarrow>
       (planner_error, planned list \<times> resource_context \<times> planner) result" where
  "select_loop 0 lg ids envelope_id cs b ctx p = Inr ([], ctx, p)"
| "select_loop (Suc n) lg ids envelope_id cs b ctx p =
     rbind (plan_next_experiment lg (ids n) envelope_id cs b ctx p) (\<lambda>(e, ctx', p').
       case e of None \<Rightarrow> Inr ([], ctx', p')
       | Some e \<Rightarrow>
           (case take_reservation e ctx' of (e', ctx'') \<Rightarrow>
              rbind (select_loop n lg ids envelope_id cs b ctx'' p') (\<lambda>(es, ctx3, p3). Inr (e' # es, ctx3, p3))))"

definition select_minimum_experiments ::
    "(rat \<Rightarrow> rat) \<Rightarrow> (nat \<Rightarrow> string) \<Rightarrow> candidate list \<Rightarrow> string \<Rightarrow> beliefs \<Rightarrow> resource_context option \<Rightarrow> nat \<Rightarrow> planner \<Rightarrow>
       (planner_error, planned list \<times> resource_context \<times> planner) result" where
  "select_minimum_experiments lg ids cs envelope_id belief_state ctx max_to_select p =
     (let b = (if belief_state = [] then
                 fold (\<lambda>c d. dict_put (case ec_target_variable c of Some t \<Rightarrow> t | None \<Rightarrow> [])
                                (1 / of_nat (max 1 (length cs))) d) cs []
               else belief_state);
          ctx0 = (case ctx of Some x \<Rightarrow> x | None \<Rightarrow> new_context (of_nat max_to_select * xp_default_cost p) 300)
      in select_loop max_to_select lg ids envelope_id cs b ctx0 p)"

subsection \<open>What the planner promises\<close>

lemma first_max_mem: "first_max f best ys \<in> insert best (set ys)"
  by (induction ys arbitrary: best) auto

lemma first_max_ge: "y \<in> insert best (set ys) \<Longrightarrow> f y \<le> f (first_max f best ys)"
proof (induction ys arbitrary: best y)
  case (Cons z zs)
  let ?m = "if f best < f z then z else best"
  have "f ?m \<le> f (first_max f ?m zs)" using Cons.IH [of ?m ?m] by simp
  moreover have "f best \<le> f ?m" "f z \<le> f ?m" by auto
  ultimately show ?case using Cons.prems Cons.IH [of y ?m] by (auto simp del: if_split intro: order_trans)
qed simp

lemma score_all_elems:
  "score_all lg p b cs = Inr ss \<Longrightarrow> map sx_candidate ss = cs \<and> (\<forall>s\<in>set ss. score lg p b (sx_candidate s) = Inr s)"
proof (induction cs arbitrary: ss)
  case (Cons c cs)
  then obtain s ss' where s: "score lg p b c = Inr s" "score_all lg p b cs = Inr ss'" "ss = s # ss'"
    by (auto simp: rbind_Inr_iff)
  then have "sx_candidate s = c" by (auto simp: score_def Let_def rbind_Inr_iff)
  with s Cons.IH [OF s(2)] show ?case by auto
qed simp

lemma cand_id_experiment_of [simp]: "cand_id (experiment_of eid rsv s) = cand_id (sx_candidate s)"
  by (cases "sx_candidate s") (simp add: experiment_of_def cand_id_def candidate.defs split: option.splits)

lemma experiment_of_fields [simp]:
  "ex_reservation (experiment_of eid rsv s) = Some rsv" "ex_expected_eig (experiment_of eid rsv s) = sx_eig s"
  "ex_utility (experiment_of eid rsv s) = sx_utility s" "ex_reserved_cost_usd (experiment_of eid rsv s) = sx_cost_usd s"
  by (simp_all add: experiment_of_def candidate.defs planned.defs)

text \<open>The facts about a returned experiment that its callers use.\<close>

definition chosen_experiment ::
    "(rat \<Rightarrow> rat) \<Rightarrow> planner \<Rightarrow> beliefs \<Rightarrow> candidate list \<Rightarrow> resource_context \<Rightarrow> resource_context \<Rightarrow> planned \<Rightarrow> bool" where
  "chosen_experiment lg p b cs ctx ctx' e \<longleftrightarrow>
     (\<exists>c\<in>set cs. cand_id c = cand_id e) \<and> cand_id e \<notin> xp_tested p \<and> xp_min_eig_threshold p \<le> ex_expected_eig e \<and>
     (\<forall>d\<in>set cs. cand_id d \<notin> xp_tested p \<longrightarrow> (\<exists>s. score lg p b d = Inr s \<and> sx_utility s \<le> ex_utility e)) \<and>
     (\<exists>rsv new_id. ex_reservation e = Some rsv \<and>
        reserve \<lparr>est_cost = ex_reserved_cost_usd e, est_count = 1, est_wall = 0\<rparr> new_id ctx = (Some rsv, ctx'))"

lemma plan_cases:
  assumes "plan_next_experiment lg new_id eid cs b ctx p = Inr (r, ctx', p')"
  obtains (stop) "r = None" "ctx' = ctx" "p' = p"
  | (go) e where "r = Some e" "\<not> budget_exhausted ctx" "p' = mark_tested (cand_id e) p" "chosen_experiment lg p b cs ctx ctx' e"
proof -
  let ?un = "filter (\<lambda>c. cand_id c \<notin> xp_tested p) cs"
  show ?thesis
  proof (cases "budget_exhausted ctx \<or> b = [] \<or> ?un = []")
    case True
    then show ?thesis using assms that(1) by (auto simp: plan_next_experiment_def Let_def split: if_splits)
  next
    case False
    then obtain ss where ss: "score_all lg p b ?un = Inr ss"
      using assms by (auto simp: plan_next_experiment_def Let_def rbind_Inr_iff split: if_splits)
    note el = score_all_elems [OF ss]
    let ?best = "first_max sx_utility (hd ss) (tl ss)"
    let ?est = "\<lparr>est_cost = sx_cost_usd ?best, est_count = 1, est_wall = 0\<rparr>"
    have "ss \<noteq> []" using el False by auto
    then have ins: "insert (hd ss) (set (tl ss)) = set ss" by (cases ss) auto
    have best: "?best \<in> set ss" and ge: "\<And>s. s \<in> set ss \<Longrightarrow> sx_utility s \<le> sx_utility ?best"
      using first_max_mem [of sx_utility "hd ss" "tl ss"] first_max_ge [of _ "hd ss" "tl ss" sx_utility] ins by auto
    have body: "(if sx_eig ?best < xp_min_eig_threshold p then Inr (None, ctx, p)
         else (case reserve ?est new_id ctx of
             (None, ctx') \<Rightarrow> Inr (None, ctx', p)
           | (Some rsv, ctx') \<Rightarrow> Inr (Some (experiment_of eid rsv ?best), ctx', mark_tested (cand_id (sx_candidate ?best)) p)))
         = (Inr (r, ctx', p') :: (planner_error, _) result)"
      using assms False ss by (simp add: plan_next_experiment_def Let_def split del: if_split)
    show ?thesis
    proof (cases "sx_eig ?best < xp_min_eig_threshold p \<or> fst (reserve ?est new_id ctx) = None")
      case True
      then show ?thesis using body that(1) by (auto simp: reserve_def split: if_splits)
    next
      case nb: False
      then obtain rsv where rsv: "reserve ?est new_id ctx = (Some rsv, ctx')" "r = Some (experiment_of eid rsv ?best)"
        "p' = mark_tested (cand_id (sx_candidate ?best)) p"
        using body by (auto split: prod.splits option.splits)
      have mem: "sx_candidate ?best \<in> set ?un" using best el by (metis image_eqI set_map)
      have "\<exists>s. score lg p b d = Inr s \<and> sx_utility s \<le> sx_utility ?best" if "d \<in> set ?un" for d
        using that el ge by (metis (no_types, lifting) image_iff set_map)
      then have "chosen_experiment lg p b cs ctx ctx' (experiment_of eid rsv ?best)"
        using mem rsv(1) nb unfolding chosen_experiment_def by (auto simp: not_less)
      with that(2) rsv False show ?thesis by auto
    qed
  qed
qed

text \<open>
  The planner returns the best affordable experiment. Where it returns one, its candidate is one of those
  offered and was not tested before, no untested candidate has a higher utility, its expected information gain
  reaches the threshold, its cost is reserved and fits the budget with everything spent and reserved so far, and the
  candidate counts as tested from then on; where it returns none, neither the resource context nor the planner changes.
\<close>

theorem planner_returns_best:
  assumes "plan_next_experiment lg new_id eid cs b ctx p = Inr (r, ctx', p')"
  shows "case r of
      None \<Rightarrow> ctx' = ctx \<and> p' = p
    | Some e \<Rightarrow> chosen_experiment lg p b cs ctx ctx' e \<and> cand_id e \<in> xp_tested p' \<and>
        rc_spent ctx' + rc_reserved ctx' \<le> rc_budget ctx' \<and>
        rc_reserved ctx' = rc_reserved ctx + ex_reserved_cost_usd e \<and> rc_spent ctx' = rc_spent ctx"
  using assms
  by (cases rule: plan_cases) (auto simp: chosen_experiment_def mark_tested_def reserve_def split: if_splits)

lemma commit_at_estimate:
  assumes "reserve est i ctx = (Some rsv, ctx')"
    "m = \<lparr>meas_cost = est_cost (rsv_estimate rsv), meas_count = 1, meas_wall = 0\<rparr>"
  shows "rc_spent (snd (reservation_commit m rsv ctx')) + rc_reserved (snd (reservation_commit m rsv ctx')) =
      rc_spent ctx' + rc_reserved ctx' \<and> rc_budget (snd (reservation_commit m rsv ctx')) = rc_budget ctx' \<and>
      rc_reserved (snd (reservation_commit m rsv ctx')) = rc_reserved ctx \<and> rc_budget ctx' = rc_budget ctx"
  using assms by (auto simp: reserve_def reservation_commit_def reconcile_def split: if_splits)

lemma select_loop_props:
  assumes "select_loop n lg ids eid cs b ctx p = Inr (es, ctx', p')" "rc_spent ctx + rc_reserved ctx \<le> rc_budget ctx"
  shows "length es \<le> n \<and> distinct (map cand_id es) \<and> set (map cand_id es) \<subseteq> set (map cand_id cs) - xp_tested p \<and>
    rc_spent ctx' + rc_reserved ctx' \<le> rc_budget ctx' \<and> rc_budget ctx' = rc_budget ctx \<and> rc_reserved ctx' = rc_reserved ctx"
  using assms
proof (induction n arbitrary: es ctx p)
  case (Suc n)
  from Suc.prems(1) obtain r ctx1 p1 where plan: "plan_next_experiment lg (ids n) eid cs b ctx p = Inr (r, ctx1, p1)"
    by (auto simp: rbind_Inr_iff)
  from plan show ?case
  proof (cases rule: plan_cases)
    case stop
    then show ?thesis using Suc.prems plan by auto
  next
    case (go e)
    then obtain rsv i where rsv: "ex_reservation e = Some rsv"
      "reserve \<lparr>est_cost = ex_reserved_cost_usd e, est_count = 1, est_wall = 0\<rparr> i ctx = (Some rsv, ctx1)"
      unfolding chosen_experiment_def by blast
    define ctx2 where "ctx2 = snd (take_reservation e ctx1)"
    obtain es' where es': "select_loop n lg ids eid cs b ctx2 p1 = Inr (es', ctx', p')"
      "es = e\<lparr>ex_reservation := None\<rparr> # es'"
      using Suc.prems(1) plan go(1) by (auto simp: rbind_Inr_iff ctx2_def take_reservation_def)
    have c2: "rc_spent ctx2 + rc_reserved ctx2 \<le> rc_budget ctx2" "rc_budget ctx2 = rc_budget ctx" "rc_reserved ctx2 = rc_reserved ctx"
      using commit_at_estimate [OF rsv(2) refl] rsv by (auto simp: ctx2_def take_reservation_def reserve_def split: if_splits)
    have "cand_id e \<in> cand_id ` set cs" "cand_id e \<notin> xp_tested p"
      using go(4) unfolding chosen_experiment_def by (metis image_eqI)+
    moreover have "cand_id (e\<lparr>ex_reservation := None\<rparr>) = cand_id e" by (simp add: cand_id_def split: option.split)
    ultimately show ?thesis using Suc.IH [OF es'(1) c2(1)] es'(2) c2 go(3)
      by (auto simp: mark_tested_def)
  qed
qed simp

text \<open>
  A batch of experiments for a target environment stays within its budget: the experiments are at most as
  many as asked for, they are of different candidates, all offered and none tested before, and what is spent and
  reserved afterwards does not exceed the budget, with no reservation left open.
\<close>

theorem batch_within_budget:
  assumes "select_minimum_experiments lg ids cs eid b (Some ctx) n p = Inr (es, ctx', p')"
    and "rc_spent ctx + rc_reserved ctx \<le> rc_budget ctx"
  shows "length es \<le> n \<and> distinct (map cand_id es) \<and> set (map cand_id es) \<subseteq> set (map cand_id cs) - xp_tested p \<and>
    rc_spent ctx' + rc_reserved ctx' \<le> rc_budget ctx \<and> rc_reserved ctx' = rc_reserved ctx"
proof -
  obtain b' where "select_loop n lg ids eid cs b' ctx p = Inr (es, ctx', p')"
    using assms(1) by (simp add: select_minimum_experiments_def Let_def)
  from select_loop_props [OF this assms(2)] show ?thesis by simp
qed

text \<open>Candidates with non-negative numbers are always scored.\<close>

lemma score_returns:
  assumes "0 \<le> cost_of_candidate p c" "0 \<le> xp_cost_penalty p" "0 \<le> xp_blast_penalty p" "0 \<le> xp_risk_penalty p"
    and "case ec_regression_risk c of None \<Rightarrow> True | Some r \<Rightarrow> 0 \<le> r"
  shows "\<exists>s. score lg p b c = Inr s"
proof -
  have blast: "0 \<le> estimate_blast p n" for n by (simp add: estimate_blast_def calculate_graph_impact_def)
  let ?risk = "case ec_regression_risk c of Some r \<Rightarrow> r | None \<Rightarrow> estimate_blast p (target_node c) * (1/2)"
  have "0 \<le> ?risk" using assms(5) blast by (auto split: option.splits)
  then have "0 < cost_of_candidate p c * xp_cost_penalty p + estimate_blast p (target_node c) * xp_blast_penalty p +
      ?risk * xp_risk_penalty p + 1 / 10 ^ 8"
    using assms blast by (intro add_nonneg_pos add_nonneg_nonneg mult_nonneg_nonneg) auto
  then show ?thesis by (auto simp: score_def compute_experiment_utility_def Let_def)
qed

definition sample_candidate :: "string \<Rightarrow> candidate" where
  "sample_candidate c = \<lparr>ec_candidate_id = Some c, ec_id = None, ec_target_variable = Some c, ec_node_id = None,
     ec_estimated_cost_usd = None, ec_regression_risk = None\<rparr>"

definition sample_planner :: planner where
  "sample_planner = default_planner heuristic_likelihood"

text \<open>A logarithm table that is right at the powers of two the sample meets.\<close>

definition sample_lg :: "rat \<Rightarrow> rat" where
  "sample_lg q = (if q = 1/2 then - 1 else if q = 9/10 then - 152/1000 else if q = 1/10 then - 3322/1000 else 0)"

lemma sample_eig:
  "fst (expected_information_gain sample_lg ''a'' heuristic_likelihood [(''a'', 1/2), (''b'', 1/2)]) = 531/1000"
  by (simp add: expected_information_gain_def outcome_prob_def posterior_entropy_def entropy_def entropy_of_def
      heuristic_likelihood_def safe_prob_def sample_lg_def)

lemma sample_score:
  "\<exists>u. score sample_lg sample_planner [(''a'', 1/2), (''b'', 1/2)] (sample_candidate ''a'') =
     Inr \<lparr>sx_candidate = sample_candidate ''a'', sx_eig = 531/1000, sx_utility = u, sx_blast_radius = 1/2, sx_cost_usd = 5/100\<rparr>"
  by (intro exI [of _ "53100000 / 130000001"])
     (simp add: score_def Let_def target_node_def estimate_blast_def cost_of_candidate_def sample_planner_def sample_eig
      default_planner_def sample_candidate_def compute_experiment_utility_def)

lemma sample_plan:
  "\<exists>e ctx' p'. plan_next_experiment sample_lg ''r1'' ''t'' [sample_candidate ''a'']
     [(''a'', 1/2), (''b'', 1/2)] (new_context 5 300) sample_planner = Inr (Some e, ctx', p') \<and> cand_id e = ''a''"
proof -
  have "cand_id (sample_candidate ''a'') = ''a''" by (simp add: cand_id_def sample_candidate_def)
  moreover have "xp_tested sample_planner = {}" "xp_min_eig_threshold sample_planner = 1/100"
    by (simp_all add: sample_planner_def default_planner_def)
  ultimately show ?thesis using sample_score
    by (auto simp: plan_next_experiment_def Let_def budget_exhausted_def new_context_def reserve_def)
qed

theorem planner_returns_best_witness:
  "\<exists>e ctx' p'. plan_next_experiment sample_lg ''r1'' ''t'' [sample_candidate ''a'']
     [(''a'', 1/2), (''b'', 1/2)] (new_context 5 300) sample_planner = Inr (Some e, ctx', p') \<and>
     ''a'' \<in> xp_tested p' \<and> rc_spent ctx' + rc_reserved ctx' \<le> rc_budget ctx'"
proof -
  obtain e ctx' p' where e: "plan_next_experiment sample_lg ''r1'' ''t'' [sample_candidate ''a'']
     [(''a'', 1/2), (''b'', 1/2)] (new_context 5 300) sample_planner = Inr (Some e, ctx', p')" "cand_id e = ''a''"
    using sample_plan by blast
  from planner_returns_best [OF e(1)] e show ?thesis by auto
qed

end
