(* ===== verification/Causal_Graph.thy ===== *)
theory Causal_Graph
  imports Crypto_Env
begin

section \<open>The causal reliability graph\<close>

text \<open>
  \<open>packages/contracts/src/graph.py\<close> and \<open>packages/graph/src/builder.py\<close>, \<open>validation.py\<close>: graphs
  with their identity hash, the construction of a graph from a trace, and the validation
  (orphans, and cycles of causal edges by depth-first search).

  UUIDs are their texts. The version registry is not part of the sources: it is a
  function from tenant and version to the state of the version, if known. The cycle check is
  recursive in the source and raises \<open>RecursionError\<close> when the interpreter has no frame left: the number of
  frames it has is a parameter of the model, and \<open>causal_check_enough_frames\<close> shows that one for each
  identifier of the graph is enough.
\<close>

datatype node_type =
    NtRequest | NtQuery | NtRetriever | NtIndex | NtChunker | NtReranker | NtPrompt | NtModel
  | NtMemory | NtGuardrail | NtTool | NtPolicy | NtHumanApproval | NtProvider
  | NtOperationalResource | NtAgent | NtInformation | NtComputation | NtActuation

datatype edge_type =
    DATA_DEPENDENCY | CONTROL_FLOW | EXECUTION_ORDER | VERSION_LINEAGE | POLICY_DEPENDENCY
  | MEMORY_INFLUENCE | EVIDENCE_CITATION | TOOL_EFFECT | RETRY_FALLBACK | INTER_AGENT_COMMUNICATION

fun edge_type_value :: "edge_type \<Rightarrow> string" where
  "edge_type_value DATA_DEPENDENCY = ''data_dependency''"
| "edge_type_value CONTROL_FLOW = ''control_flow''"
| "edge_type_value EXECUTION_ORDER = ''execution_order''"
| "edge_type_value VERSION_LINEAGE = ''version_lineage''"
| "edge_type_value POLICY_DEPENDENCY = ''policy_dependency''"
| "edge_type_value MEMORY_INFLUENCE = ''memory_influence''"
| "edge_type_value EVIDENCE_CITATION = ''evidence_citation''"
| "edge_type_value TOOL_EFFECT = ''tool_effect''"
| "edge_type_value RETRY_FALLBACK = ''retry_fallback''"
| "edge_type_value INTER_AGENT_COMMUNICATION = ''inter_agent_communication''"

record graph_node =
  gn_id :: string
  gn_type :: node_type
  gn_label :: string
  gn_is_versioned :: bool
  gn_version_id :: "string option"
  gn_span_id :: "string option"
  gn_features :: "(string \<times> json) list"
  gn_created_at :: int

record graph_edge =
  ge_id :: string
  ge_source :: string
  ge_target :: string
  ge_type :: edge_type
  ge_label :: string
  ge_properties :: "(string \<times> json) list"

record causal_graph =
  cg_tenant_id :: string
  cg_run_id :: string
  cg_nodes :: "graph_node list"
  cg_edges :: "graph_edge list"
  cg_builder_version :: string
  cg_trace_digest :: string
  cg_graph_hash :: string
  cg_created_at :: int

definition graph_payload :: "causal_graph \<Rightarrow> json" where
  "graph_payload g = JObj
     [(''trace_digest'', JStr (cg_trace_digest g)),
      (''builder_version'', JStr (cg_builder_version g)),
      (''nodes'', JList (map JStr (sort (map gn_id (cg_nodes g))))),
      (''edges'', JList (map JStr (sort (map
         (\<lambda>e. ge_source e @ ''->'' @ ge_target e @ '':'' @ edge_type_value (ge_type e)) (cg_edges g)))))]"

text \<open>The model validator, which runs whenever a graph is constructed.\<close>

definition compute_graph_hash :: "env \<Rightarrow> causal_graph \<Rightarrow> causal_graph" where
  "compute_graph_hash E g =
     g\<lparr>cg_graph_hash := sha256 E (utf8 (dumps default_style (float_repr E) (graph_payload g)))\<rparr>"

subsection \<open>Construction from a trace\<close>

text \<open>Python's text of a value in an f-string: \<open>str\<close>, which is \<open>repr\<close> except on strings.\<close>

fun json_repr :: "(rat \<Rightarrow> string) \<Rightarrow> json \<Rightarrow> string" where
  "json_repr fr JNull = ''None''"
| "json_repr fr (JBool b) = (if b then ''True'' else ''False'')"
| "json_repr fr (JInt i) = int_str i"
| "json_repr fr (JFloat q) = fr q"
| "json_repr fr (JStr s) = py_repr s"
| "json_repr fr (JList xs) = ''['' @ py_join '', '' (map (json_repr fr) xs) @ '']''"
| "json_repr fr (JObj kvs) =
     ''{'' @ py_join '', '' (map (\<lambda>(k, v). py_repr k @ '': '' @ json_repr fr v) kvs) @ ''}''"

definition json_str :: "(rat \<Rightarrow> string) \<Rightarrow> json \<Rightarrow> string" where
  "json_str fr v = (case v of JStr s \<Rightarrow> s | _ \<Rightarrow> json_repr fr v)"

text \<open>The fields of a span and of a trace that the builder reads.\<close>

record span_record =
  sp_span_id :: string
  sp_parent_span_id :: "string option"
  sp_name :: string
  sp_attributes :: "(string \<times> json) list"
  sp_component_type :: "string option"
  sp_component_version_id :: "string option"
  sp_latency_ms :: "rat option"

record trace_artifact =
  ta_run_id :: string
  ta_tenant_id :: string
  ta_spans :: "span_record list"

definition BUILDER_VERSION :: string where "BUILDER_VERSION = ''v1.0''"

definition map_component_to_node_type :: "string option \<Rightarrow> node_type" where
  "map_component_to_node_type ct =
     (if \<not> truthy ct then NtOperationalResource
      else case map_of [(''retriever'', NtRetriever), (''generator'', NtModel), (''prompt'', NtPrompt),
             (''tool_call'', NtTool), (''guardrail'', NtGuardrail), (''policy'', NtPolicy),
             (''agent'', NtAgent)] (py_lower (the ct)) of
             Some t \<Rightarrow> t | None \<Rightarrow> NtOperationalResource)"

type_synonym graph_parts = "(string \<times> graph_node) list \<times> graph_edge list"

definition event_id :: "string \<Rightarrow> string" where "event_id sid = ''event:'' @ sid"

definition mk_edge :: "string \<Rightarrow> string \<Rightarrow> edge_type \<Rightarrow> string \<Rightarrow> graph_edge" where
  "mk_edge s t ty label =
     \<lparr>ge_id = s @ ''->'' @ t, ge_source = s, ge_target = t, ge_type = ty, ge_label = label,
      ge_properties = []\<rparr>"

definition mk_node :: "int \<Rightarrow> string \<Rightarrow> node_type \<Rightarrow> string \<Rightarrow> graph_node" where
  "mk_node now nid ty label =
     \<lparr>gn_id = nid, gn_type = ty, gn_label = label, gn_is_versioned = False, gn_version_id = None,
      gn_span_id = None, gn_features = [], gn_created_at = now\<rparr>"

definition add_if_missing :: "graph_node \<Rightarrow> (string \<times> graph_node) list \<Rightarrow> (string \<times> graph_node) list" where
  "add_if_missing n ns = (if gn_id n \<in> set (map fst ns) then ns else dict_put (gn_id n) n ns)"

text \<open>The body of the first loop: the event node of a span, and its version node and edge.\<close>

definition span_features ::
    "(string \<Rightarrow> string \<Rightarrow> string option) \<Rightarrow> string \<Rightarrow> span_record \<Rightarrow> (string \<times> json) list" where
  "span_features reg tenant_id sp =
     (case sp_component_version_id sp of
        None \<Rightarrow> []
      | Some v \<Rightarrow> (case reg tenant_id v of None \<Rightarrow> [] | Some st \<Rightarrow> [(''state'', JStr st)])) @
     (case sp_latency_ms sp of None \<Rightarrow> [] | Some l \<Rightarrow> [(''latency_ms'', JFloat l)])"

definition add_span ::
    "(string \<Rightarrow> string \<Rightarrow> string option) \<Rightarrow> int \<Rightarrow> string \<Rightarrow> span_record \<Rightarrow> graph_parts \<Rightarrow> graph_parts" where
  "add_span reg now tenant_id sp p =
     (case p of (nodes, edges) \<Rightarrow>
        let ty = map_component_to_node_type (sp_component_type sp);
            nid = event_id (sp_span_id sp);
            version = sp_component_version_id sp;
            features = span_features reg tenant_id sp;
            node = (mk_node now nid ty (if sp_name sp \<noteq> [] then sp_name sp else ''unnamed_span''))
                     \<lparr>gn_is_versioned := version \<noteq> None, gn_version_id := version,
                      gn_span_id := Some (sp_span_id sp), gn_features := features\<rparr>;
            nodes1 = dict_put nid node nodes in
        case version of
          None \<Rightarrow> (nodes1, edges)
        | Some v \<Rightarrow>
            let cid = ''version:'' @ v;
                cnode = (mk_node now cid ty (sp_name sp @ '' (v)''))
                          \<lparr>gn_is_versioned := True, gn_version_id := Some v, gn_features := features\<rparr> in
            (add_if_missing cnode nodes1, edges @ [mk_edge nid cid VERSION_LINEAGE ''instance_of'']))"

text \<open>The body of the second loop: control flow, memory influence and agent messages.\<close>

definition link_parent :: "span_record list \<Rightarrow> span_record \<Rightarrow> graph_parts \<Rightarrow> graph_parts" where
  "link_parent spans sp p =
     (case p of (nodes, edges) \<Rightarrow>
        if truthy (sp_parent_span_id sp) \<and> the (sp_parent_span_id sp) \<in> sp_span_id ` set spans
        then (nodes, edges @ [mk_edge (event_id (the (sp_parent_span_id sp))) (event_id (sp_span_id sp))
                                CONTROL_FLOW ''calls''])
        else (nodes, edges))"

definition link_memory :: "env \<Rightarrow> int \<Rightarrow> span_record \<Rightarrow> graph_parts \<Rightarrow> graph_parts" where
  "link_memory E now sp p =
     (case p of (nodes, edges) \<Rightarrow>
        case map_of (sp_attributes sp) ''dgx.memory.referenced'' of
          None \<Rightarrow> (nodes, edges)
        | Some m \<Rightarrow>
            let mid = ''memory:'' @ json_str (float_repr E) m in
            (add_if_missing (mk_node now mid NtMemory ''Memory Store'') nodes,
             edges @ [mk_edge mid (event_id (sp_span_id sp)) MEMORY_INFLUENCE ''recalls'']))"

definition link_agent :: "env \<Rightarrow> int \<Rightarrow> span_record \<Rightarrow> graph_parts \<Rightarrow> graph_parts" where
  "link_agent E now sp p =
     (case p of (nodes, edges) \<Rightarrow>
        case map_of (sp_attributes sp) ''dgx.agent.message_to'' of
          None \<Rightarrow> (nodes, edges)
        | Some a \<Rightarrow>
            let aid = json_str (float_repr E) a; tid = ''agent:'' @ aid in
            (add_if_missing (mk_node now tid NtAgent (''Agent ('' @ aid @ '')'')) nodes,
             edges @ [mk_edge (event_id (sp_span_id sp)) tid INTER_AGENT_COMMUNICATION ''messages'']))"

definition build :: "env \<Rightarrow> (string \<Rightarrow> string \<Rightarrow> string option) \<Rightarrow> int \<Rightarrow> trace_artifact \<Rightarrow> causal_graph" where
  "build E reg now tr =
     (let spans = ta_spans tr;
          p1 = fold (add_span reg now (ta_tenant_id tr)) spans ([], []);
          (nodes, edges) = fold (\<lambda>sp p. link_agent E now sp (link_memory E now sp (link_parent spans sp p))) spans p1 in
      compute_graph_hash E
        \<lparr>cg_tenant_id = ta_tenant_id tr, cg_run_id = ta_run_id tr, cg_nodes = map snd nodes,
         cg_edges = edges, cg_builder_version = BUILDER_VERSION, cg_trace_digest = ''unknown'',
         cg_graph_hash = [], cg_created_at = now\<rparr>)"

subsection \<open>Validation\<close>

datatype graph_error = OrphanNode string | CausalCycle | RecursionLimit

definition check_orphans :: "causal_graph \<Rightarrow> (graph_error, unit) result" where
  "check_orphans g =
     (let connected = map ge_source (cg_edges g) @ map ge_target (cg_edges g) in
      if 1 < length (cg_nodes g)
      then case List.find (\<lambda>n. gn_id n \<notin> set connected) (cg_nodes g) of
             Some n \<Rightarrow> Inl (OrphanNode (gn_id n)) | None \<Rightarrow> Inr ()
      else Inr ())"

text \<open>The adjacency dict of the cycle check: the targets of the causal edges of a node, in order.\<close>

definition is_causal :: "graph_edge \<Rightarrow> bool" where
  "is_causal e \<longleftrightarrow> ge_type e \<notin> {MEMORY_INFLUENCE, RETRY_FALLBACK}"

definition causal_adj :: "causal_graph \<Rightarrow> string \<Rightarrow> string list" where
  "causal_adj g x =
     (if x \<in> gn_id ` set (cg_nodes g)
      then map ge_target (filter (\<lambda>e. is_causal e \<and> ge_source e = x) (cg_edges g)) else [])"

text \<open>
  \<open>is_cyclic\<close> and its loop over the neighbours; the state is the pair of the visited set and
  the recursion stack, the result also says whether a cycle was found. The number is that of the frames
  the interpreter has left: a call without one raises, which is \<^const>\<open>None\<close>.
\<close>

type_synonym dfs_state = "string list \<times> string list"

fun is_cyclic :: "(string \<Rightarrow> string list) \<Rightarrow> nat \<Rightarrow> string \<Rightarrow> dfs_state \<Rightarrow> (bool \<times> dfs_state) option"
and scan :: "(string \<Rightarrow> string list) \<Rightarrow> nat \<Rightarrow> string list \<Rightarrow> dfs_state \<Rightarrow> (bool \<times> dfs_state) option" where
  "is_cyclic adj 0 x s = None"
| "is_cyclic adj (Suc n) x (visited, rec_stack) =
     (case scan adj n (adj x) (x # visited, x # rec_stack) of
        None \<Rightarrow> None
      | Some (True, s) \<Rightarrow> Some (True, s)
      | Some (False, (v, r)) \<Rightarrow> Some (False, (v, removeAll x r)))"
| "scan adj n [] s = Some (False, s)"
| "scan adj n (y # ys) s =
     (if y \<notin> set (fst s)
      then case is_cyclic adj n y s of
             None \<Rightarrow> None
           | Some (True, s') \<Rightarrow> Some (True, s')
           | Some (False, s') \<Rightarrow> scan adj n ys s'
      else if y \<in> set (snd s) then Some (True, s)
      else scan adj n ys s)"

fun cycle_loop :: "(string \<Rightarrow> string list) \<Rightarrow> nat \<Rightarrow> string list \<Rightarrow> dfs_state \<Rightarrow> (graph_error, unit) result option" where
  "cycle_loop adj n [] s = Some (Inr ())"
| "cycle_loop adj n (x # xs) s =
     (if x \<in> set (fst s) then cycle_loop adj n xs s
      else case is_cyclic adj n x s of
             None \<Rightarrow> None
           | Some (True, _) \<Rightarrow> Some (Inl CausalCycle)
           | Some (False, s') \<Rightarrow> cycle_loop adj n xs s')"

definition check_cycles :: "nat \<Rightarrow> causal_graph \<Rightarrow> (graph_error, unit) result" where
  "check_cycles frames g =
     (case cycle_loop (causal_adj g) frames (map gn_id (cg_nodes g)) ([], []) of
        None \<Rightarrow> Inl RecursionLimit
      | Some r \<Rightarrow> r)"

definition validate :: "nat \<Rightarrow> causal_graph \<Rightarrow> (graph_error, bool) result" where
  "validate frames g = rbind (check_orphans g) (\<lambda>_. rbind (check_cycles frames g) (\<lambda>_. Inr True))"

subsection \<open>The cycle check is exact\<close>

definition edges_of :: "(string \<Rightarrow> string list) \<Rightarrow> (string \<times> string) set" where
  "edges_of adj = {(x, y). y \<in> set (adj x)}"

text \<open>The finished nodes: visited, and no longer on the recursion stack.\<close>

definition finished :: "dfs_state \<Rightarrow> string set" where
  "finished s = set (fst s) - set (snd s)"

text \<open>No edge leaves the finished nodes, and no cycle lies within them.\<close>

definition dfs_inv :: "(string \<Rightarrow> string list) \<Rightarrow> dfs_state \<Rightarrow> bool" where
  "dfs_inv adj s \<longleftrightarrow> set (snd s) \<subseteq> set (fst s) \<and>
     (\<forall>x\<in>finished s. set (adj x) \<subseteq> finished s) \<and>
     acyclic (edges_of adj \<inter> (finished s \<times> UNIV))"

lemma closed_rtrancl:
  assumes "(b, w) \<in> (E \<inter> (insert x B \<times> UNIV))\<^sup>*" "b \<in> B" "\<forall>b\<in>B. E `` {b} \<subseteq> B" "x \<notin> B"
  shows "w \<in> B \<and> (b, w) \<in> (E \<inter> (B \<times> UNIV))\<^sup>*"
  using assms(1)
proof (induction rule: rtrancl_induct)
  case base
  then show ?case using assms(2) by simp
next
  case (step y z)
  then have "(y, z) \<in> E \<inter> (B \<times> UNIV)" "z \<in> B" using assms(3,4) by auto
  with step.IH show ?case by (meson rtrancl.rtrancl_into_rtrancl)
qed

lemma acyclic_insert_source:
  assumes "acyclic (E \<inter> (B \<times> UNIV))" "\<forall>b\<in>B. E `` {b} \<subseteq> B" "x \<notin> B" "E `` {x} \<subseteq> B"
  shows "acyclic (E \<inter> (insert x B \<times> UNIV))"
proof (rule acyclicI, intro allI notI)
  fix z
  assume "(z, z) \<in> (E \<inter> (insert x B \<times> UNIV))\<^sup>+"
  then obtain y where y: "(z, y) \<in> E \<inter> (insert x B \<times> UNIV)" "(y, z) \<in> (E \<inter> (insert x B \<times> UNIV))\<^sup>*"
    by (meson tranclD)
  have "y \<in> B" using y(1) assms(2,4) by auto
  with closed_rtrancl [OF y(2) _ assms(2,3)] have z: "z \<in> B" "(y, z) \<in> (E \<inter> (B \<times> UNIV))\<^sup>*" by auto
  with y(1) have "(z, y) \<in> E \<inter> (B \<times> UNIV)" by auto
  then have "(z, z) \<in> (E \<inter> (B \<times> UNIV))\<^sup>+" using z(2) by (rule rtrancl_into_trancl2)
  with assms(1) show False by (simp add: acyclic_def)
qed

lemma dfs_inv_finish:
  assumes "dfs_inv adj (v, r)" "set (adj x) \<subseteq> finished (v, r)" "x \<in> set v" "x \<in> set r"
    and "r' = removeAll x r"
  shows "dfs_inv adj (v, r')"
proof -
  have f: "finished (v, r') = insert x (finished (v, r))"
    using assms(3,4,5) by (auto simp: finished_def)
  have "acyclic (edges_of adj \<inter> (insert x (finished (v, r)) \<times> UNIV))"
    using assms by (intro acyclic_insert_source) (auto simp: dfs_inv_def edges_of_def finished_def)
  then show ?thesis
    unfolding dfs_inv_def f using assms by (auto simp: dfs_inv_def)
qed

lemma dfs_exact:
  "is_cyclic adj n x s = Some (b, s') \<Longrightarrow> dfs_inv adj s \<Longrightarrow> x \<notin> set (fst s) \<Longrightarrow>
   (\<forall>z\<in>set (snd s). (z, x) \<in> (edges_of adj)\<^sup>+) \<Longrightarrow>
   if b then \<not> acyclic (edges_of adj)
   else dfs_inv adj s' \<and> set (snd s') = set (snd s) \<and> insert x (set (fst s)) \<subseteq> set (fst s')"
  "scan adj n ys s = Some (b, s') \<Longrightarrow> dfs_inv adj s \<Longrightarrow>
   (\<forall>z\<in>set (snd s). \<forall>y\<in>set ys. (z, y) \<in> (edges_of adj)\<^sup>+) \<Longrightarrow>
   if b then \<not> acyclic (edges_of adj)
   else dfs_inv adj s' \<and> set (snd s') = set (snd s) \<and> set (fst s) \<subseteq> set (fst s') \<and>
     set ys \<subseteq> finished s'"
proof (induction adj n x s and adj n ys s arbitrary: b s' and b s' rule: is_cyclic_scan.induct)
  case (2 adj n x v r)
  let ?s = "(x # v, x # r)"
  have inv: "dfs_inv adj ?s"
  proof -
    have "finished ?s = finished (v, r)" using 2(4) by (auto simp: finished_def)
    then show ?thesis using 2(3) by (auto simp: dfs_inv_def)
  qed
  have reach: "\<forall>z\<in>set (snd ?s). \<forall>y\<in>set (adj x). (z, y) \<in> (edges_of adj)\<^sup>+"
  proof (intro ballI)
    fix z y assume z: "z \<in> set (snd ?s)" and "y \<in> set (adj x)"
    then have "(x, y) \<in> edges_of adj" by (simp add: edges_of_def)
    then show "(z, y) \<in> (edges_of adj)\<^sup>+"
      using z 2(5) by (auto intro: trancl_into_trancl)
  qed
  from 2(2) obtain c v1 r1 where sc: "scan adj n (adj x) ?s = Some (c, v1, r1)"
    by (auto split: option.splits prod.splits)
  note IH = 2(1) [OF sc inv reach]
  show ?case
  proof (cases c)
    case True
    with 2(2) sc IH show ?thesis by auto
  next
    case False
    with 2(2) sc have s': "\<not> b" "s' = (v1, removeAll x r1)" by auto
    from IH False have d: "dfs_inv adj (v1, r1)" "set r1 = insert x (set r)" "set (x # v) \<subseteq> set v1"
      "set (adj x) \<subseteq> finished (v1, r1)" by auto
    have "x \<notin> set r" using 2(3,4) by (auto simp: dfs_inv_def)
    with d have "set (removeAll x r1) = set r" by auto
    moreover have "dfs_inv adj (v1, removeAll x r1)"
      by (rule dfs_inv_finish [OF d(1,4)]) (use d(2,3) in simp_all)
    ultimately show ?thesis using s' d(3) by auto
  qed
next
  case (4 adj n y ys s)
  consider (new) c s1 where "y \<notin> set (fst s)" "is_cyclic adj n y s = Some (c, s1)"
    | (on_stack) "y \<in> set (snd s)" "y \<in> set (fst s)" | (seen) "y \<in> finished s" "y \<in> set (fst s)" "y \<notin> set (snd s)"
    using 4(4) by (auto simp: finished_def split: if_splits option.splits prod.splits)
  then show ?case
  proof cases
    case new
    have reach: "\<forall>z\<in>set (snd s). (z, y) \<in> (edges_of adj)\<^sup>+" using 4(6) by auto
    note IH = 4(1) [OF new 4(5) new(1) reach]
    show ?thesis
    proof (cases c)
      case True
      with IH new 4(4) show ?thesis by auto
    next
      case False
      with new 4(4) have rest: "scan adj n ys s1 = Some (b, s')" by auto
      from IH False have d: "dfs_inv adj s1" "set (snd s1) = set (snd s)" "insert y (set (fst s)) \<subseteq> set (fst s1)"
        by auto
      have "\<forall>z\<in>set (snd s1). \<forall>y\<in>set ys. (z, y) \<in> (edges_of adj)\<^sup>+" using d(2) 4(6) by auto
      from 4(2) [OF new(1,2) _ _ rest d(1) this] False
      have IH2: "if b then \<not> acyclic (edges_of adj)
        else dfs_inv adj s' \<and> set (snd s') = set (snd s1) \<and> set (fst s1) \<subseteq> set (fst s') \<and> set ys \<subseteq> finished s'"
        by auto
      have "y \<notin> set (snd s)" using new(1) 4(5) by (auto simp: dfs_inv_def)
      with IH2 d show ?thesis by (cases b) (simp_all add: finished_def, blast)
    qed
  next
    case on_stack
    then have "(y, y) \<in> (edges_of adj)\<^sup>+" using 4(6) by auto
    with on_stack 4(4) show ?thesis by (auto simp: acyclic_def)
  next
    case seen
    with 4(4) have rest: "scan adj n ys s = Some (b, s')" by auto
    have "\<forall>z\<in>set (snd s). \<forall>y\<in>set ys. (z, y) \<in> (edges_of adj)\<^sup>+" using 4(6) by auto
    from 4(3) [OF _ seen(3) rest 4(5) this] seen show ?thesis
      by (cases b) (simp_all add: finished_def, blast)
  qed
qed auto

lemma dfs_visits_more:
  "is_cyclic adj n x s = Some (b, s') \<Longrightarrow> set (fst s) \<subseteq> set (fst s')"
  "scan adj n ys s = Some (b, s') \<Longrightarrow> set (fst s) \<subseteq> set (fst s')"
proof (induction adj n x s and adj n ys s arbitrary: b s' and b s' rule: is_cyclic_scan.induct)
  case (2 adj n x v r)
  then show ?case by (auto split: option.splits prod.splits bool.splits)
next
  case (4 adj n y ys s)
  show ?case
  proof (cases "y \<in> set (fst s)")
    case True
    with 4 show ?thesis by (auto split: if_splits)
  next
    case False
    with 4(4) obtain c s1 where c: "is_cyclic adj n y s = Some (c, s1)"
      by (auto split: option.splits prod.splits)
    with 4(1) False have le: "set (fst s) \<subseteq> set (fst s1)" by blast
    show ?thesis
    proof (cases c)
      case True
      with 4(4) c False le show ?thesis by simp
    next
      case c': False
      with 4(4) c False have "scan adj n ys s1 = Some (b, s')" by simp
      with 4(2) [OF False c] c' have "set (fst s1) \<subseteq> set (fst s')" by simp
      with le show ?thesis by (rule subset_trans)
    qed
  qed
qed auto

text \<open>One unit of fuel for each identifier not yet visited is enough.\<close>

lemma dfs_enough_fuel:
  assumes "finite U" "\<And>x. set (adj x) \<subseteq> U"
  shows "x \<in> U \<Longrightarrow> x \<notin> set (fst s) \<Longrightarrow> card (U - set (fst s)) \<le> n \<Longrightarrow> is_cyclic adj n x s \<noteq> None"
    and "set ys \<subseteq> U \<Longrightarrow> card (U - set (fst s)) \<le> n \<Longrightarrow> scan adj n ys s \<noteq> None"
  using assms
proof (induction adj n x s and adj n ys s rule: is_cyclic_scan.induct)
  case (1 adj x s)
  then have "U - set (fst s) = {}" by simp
  with 1 show ?case by auto
next
  case (2 adj n x v r)
  have "U - set (x # v) \<subset> U - set v" using 2 by auto
  then have "card (U - set (x # v)) < card (U - set v)" using 2 by (intro psubset_card_mono) auto
  with 2 have "scan adj n (adj x) (x # v, x # r) \<noteq> None" by (intro 2(1)) auto
  then show ?case by (auto split: prod.splits bool.splits)
next
  case (4 adj n y ys s)
  have "card (U - set (fst s')) \<le> n" if "is_cyclic adj n y s = Some (b, s')" for b s'
  proof -
    have "card (U - set (fst s')) \<le> card (U - set (fst s))"
      using dfs_visits_more(1) [OF that] 4 by (intro card_mono) auto
    with 4 show ?thesis by simp
  qed
  with 4 show ?case
    by (cases "y \<in> set (fst s)") (auto split: option.splits prod.splits bool.splits)
qed auto

lemma cycle_loop_exact:
  assumes "cycle_loop adj n xs s = Some res" "dfs_inv adj s" "snd s = []"
    and "\<forall>x. adj x \<noteq> [] \<longrightarrow> x \<in> set xs \<union> set (fst s)"
  shows "isl res \<longleftrightarrow> \<not> acyclic (edges_of adj)"
  using assms
proof (induction xs arbitrary: s)
  case Nil
  have "x \<in> finished s" if "(x, y) \<in> edges_of adj" for x y
    using that Nil.prems(3,4) by (cases "adj x") (auto simp: edges_of_def finished_def)
  then have "edges_of adj \<inter> (finished s \<times> UNIV) = edges_of adj" by auto
  with Nil.prems show ?case by (auto simp: dfs_inv_def)
next
  case (Cons x xs)
  show ?case
  proof (cases "x \<in> set (fst s)")
    case True
    with Cons.prems show ?thesis by (intro Cons.IH) auto
  next
    case False
    with Cons.prems(1) obtain c s1 where c: "is_cyclic adj n x s = Some (c, s1)"
      by (auto split: option.splits prod.splits)
    note ex = dfs_exact(1) [OF c Cons.prems(2) False]
    show ?thesis
    proof (cases c)
      case True
      with ex Cons.prems(1,3) c False show ?thesis by auto
    next
      case c': False
      from ex c' Cons.prems(3) have d: "dfs_inv adj s1" "snd s1 = []" "insert x (set (fst s)) \<subseteq> set (fst s1)"
        by auto
      moreover have "cycle_loop adj n xs s1 = Some res" using Cons.prems(1) c c' False by simp
      moreover have "\<forall>y. adj y \<noteq> [] \<longrightarrow> y \<in> set xs \<union> set (fst s1)" using Cons.prems(4) d(3) by auto
      ultimately show ?thesis by (intro Cons.IH)
    qed
  qed
qed

lemma cycle_loop_total:
  assumes "finite U" "\<And>x. set (adj x) \<subseteq> U" "card U \<le> n" "set xs \<subseteq> U"
  shows "\<exists>res. cycle_loop adj n xs s = Some res"
  using assms(4)
proof (induction xs arbitrary: s)
  case (Cons x xs)
  have "card (U - set (fst s)) \<le> n"
    using assms(1,3) card_mono [of U "U - set (fst s)"] by (meson Diff_subset le_trans)
  then have "is_cyclic adj n x s \<noteq> None" if "x \<notin> set (fst s)"
    using dfs_enough_fuel(1) [OF assms(1,2)] that Cons.prems by auto
  with Cons show ?case
    by (cases "x \<in> set (fst s)") (auto split: option.splits prod.splits bool.splits)
qed simp

lemma cycle_loop_error: "cycle_loop adj n xs s = Some (Inl e) \<Longrightarrow> e = CausalCycle"
  by (induction adj n xs s rule: cycle_loop.induct) (auto split: if_splits option.splits prod.splits bool.splits)

text \<open>The identifiers a graph mentions, as nodes or as targets of edges.\<close>

definition graph_ids :: "causal_graph \<Rightarrow> string list" where
  "graph_ids g = map gn_id (cg_nodes g) @ map ge_target (cg_edges g)"

lemma causal_check_enough_frames:
  assumes "card (set (graph_ids g)) \<le> frames"
  shows "cycle_loop (causal_adj g) frames (map gn_id (cg_nodes g)) ([], []) \<noteq> None"
proof -
  have "set (causal_adj g x) \<subseteq> set (graph_ids g)" for x
    by (auto simp: causal_adj_def graph_ids_def)
  then have "\<exists>r. cycle_loop (causal_adj g) frames (map gn_id (cg_nodes g)) ([], []) = Some r"
    using assms by (intro cycle_loop_total [where U = "set (graph_ids g)"]) (auto simp: graph_ids_def)
  then show ?thesis by blast
qed

text \<open>The causal edges that leave a node of the graph.\<close>

definition causal_edges :: "causal_graph \<Rightarrow> (string \<times> string) set" where
  "causal_edges g = {(ge_source e, ge_target e) | e. e \<in> set (cg_edges g) \<and> is_causal e \<and>
     ge_source e \<in> gn_id ` set (cg_nodes g)}"

lemma edges_of_causal_adj: "edges_of (causal_adj g) = causal_edges g"
  by (force simp: edges_of_def causal_adj_def causal_edges_def)

definition orphan_free :: "causal_graph \<Rightarrow> bool" where
  "orphan_free g \<longleftrightarrow> length (cg_nodes g) \<le> 1 \<or>
     gn_id ` set (cg_nodes g) \<subseteq> ge_source ` set (cg_edges g) \<union> ge_target ` set (cg_edges g)"

lemma check_orphans_Inr: "check_orphans g = Inr () \<longleftrightarrow> orphan_free g"
proof -
  have "check_orphans g = Inr () \<longleftrightarrow> length (cg_nodes g) \<le> 1 \<or>
      List.find (\<lambda>n. gn_id n \<notin> set (map ge_source (cg_edges g) @ map ge_target (cg_edges g))) (cg_nodes g) = None"
    by (auto simp: check_orphans_def Let_def split: option.splits)
  then show ?thesis by (auto simp: orphan_free_def find_None_iff image_subset_iff)
qed

lemma check_orphans_Inl: "check_orphans g = Inl e \<Longrightarrow> \<exists>x. e = OrphanNode x"
  by (auto simp: check_orphans_def Let_def split: option.splits if_splits)

lemma check_cycles_cases:
  obtains (limit) "check_cycles frames g = Inl RecursionLimit" "frames < card (set (graph_ids g))"
  | (cyclic) "check_cycles frames g = Inl CausalCycle" "\<not> acyclic (causal_edges g)"
  | (fine) "check_cycles frames g = Inr ()" "acyclic (causal_edges g)"
proof (cases "cycle_loop (causal_adj g) frames (map gn_id (cg_nodes g)) ([], [])")
  case None
  then have "frames < card (set (graph_ids g))" using causal_check_enough_frames by (metis not_less)
  with None show ?thesis by (intro limit) (simp_all add: check_cycles_def)
next
  case (Some r)
  have "isl r \<longleftrightarrow> \<not> acyclic (edges_of (causal_adj g))"
    by (rule cycle_loop_exact [OF Some]) (auto simp: dfs_inv_def finished_def causal_adj_def acyclic_def split: if_splits)
  then have c: "isl r \<longleftrightarrow> \<not> acyclic (causal_edges g)" by (simp add: edges_of_causal_adj)
  show ?thesis
  proof (cases r)
    case (Inl e)
    then show ?thesis using Some c cycle_loop_error by (intro cyclic) (auto simp: check_cycles_def)
  next
    case (Inr u)
    then show ?thesis using Some c by (intro fine) (auto simp: check_cycles_def)
  qed
qed

text \<open>
  C19. What the validation decides. A graph it accepts has, if it has more than one node, an edge at every node, and
  no cycle of edges other than memory influence and retries; a graph it reports as cyclic has such a cycle and no
  orphan; it reports an orphan exactly when there is one; and when the interpreter has a frame for every identifier of
  the graph, both verdicts are exact. The edges are those the code filters, all types but two, and not only control flow
  and data dependency as its comment says; and these two checks are all: the duplicate executions and the temporal
  order that the documentation of the class names are not looked at.
\<close>

theorem validate_exact:
  "(validate frames g = Inr True \<longrightarrow> orphan_free g \<and> acyclic (causal_edges g)) \<and>
   (validate frames g = Inl CausalCycle \<longrightarrow> orphan_free g \<and> \<not> acyclic (causal_edges g)) \<and>
   ((\<exists>x. validate frames g = Inl (OrphanNode x)) \<longleftrightarrow> \<not> orphan_free g) \<and>
   (card (set (graph_ids g)) \<le> frames \<longrightarrow>
      (validate frames g = Inr True \<longleftrightarrow> orphan_free g \<and> acyclic (causal_edges g)) \<and>
      (validate frames g = Inl CausalCycle \<longleftrightarrow> orphan_free g \<and> \<not> acyclic (causal_edges g)))"
proof (cases "check_orphans g")
  case (Inl e)
  moreover from Inl obtain x where "e = OrphanNode x" using check_orphans_Inl by blast
  moreover from Inl have "\<not> orphan_free g" using check_orphans_Inr [of g] by simp
  ultimately show ?thesis by (simp add: validate_def)
next
  case (Inr u)
  then have "validate frames g = rbind (check_cycles frames g) (\<lambda>_. Inr True)" "orphan_free g"
    using check_orphans_Inr [of g] by (simp_all add: validate_def)
  then show ?thesis by (cases rule: check_cycles_cases [of frames g]) simp_all
qed

text \<open>
  What follows of the differences to the documentation: a cycle of messages between agents is rejected, two executions of
  the same node and an effect that is recorded before its cause are accepted, and a chain longer than the frames
  the interpreter has left raises \<open>RecursionError\<close>, which is no \<open>GraphValidationError\<close>.
\<close>

definition plain_graph :: "(string \<times> int) list \<Rightarrow> (string \<times> string) list \<Rightarrow> edge_type \<Rightarrow> causal_graph" where
  "plain_graph ids es ty =
     \<lparr>cg_tenant_id = [], cg_run_id = [], cg_nodes = map (\<lambda>(i, t). mk_node t i NtAgent i) ids,
      cg_edges = map (\<lambda>(a, b). mk_edge a b ty []) es, cg_builder_version = BUILDER_VERSION, cg_trace_digest = [],
      cg_graph_hash = [], cg_created_at = 0\<rparr>"

lemma validate_beyond_documentation:
  "validate 1000 (plain_graph [(''a'', 0), (''b'', 1)] [(''a'', ''b''), (''b'', ''a'')] INTER_AGENT_COMMUNICATION) = Inl CausalCycle"
  "validate 1000 (plain_graph [(''a'', 0), (''a'', 0), (''b'', 1)] [(''a'', ''b'')] CONTROL_FLOW) = Inr True"
  "validate 1000 (plain_graph [(''a'', 1), (''b'', 0)] [(''a'', ''b'')] CONTROL_FLOW) = Inr True"
  "validate 2 (plain_graph [(''a'', 0), (''b'', 1), (''c'', 2)] [(''a'', ''b''), (''b'', ''c'')] CONTROL_FLOW) = Inl RecursionLimit"
  by code_simp+

theorem validate_exact_witness:
  "\<not> acyclic (causal_edges (plain_graph [(''a'', 0), (''b'', 1)] [(''a'', ''b''), (''b'', ''a'')] CONTROL_FLOW)) \<and>
   acyclic (causal_edges (plain_graph [(''a'', 0), (''b'', 1)] [(''a'', ''b'')] CONTROL_FLOW)) \<and>
   (\<exists>x. validate 2 (plain_graph [(''a'', 0), (''b'', 1)] [] CONTROL_FLOW) = Inl (OrphanNode x))"
proof -
  let ?c = "plain_graph [(''a'', 0), (''b'', 1)] [(''a'', ''b''), (''b'', ''a'')] CONTROL_FLOW"
  let ?d = "plain_graph [(''a'', 0), (''b'', 1)] [(''a'', ''b'')] CONTROL_FLOW"
  have "validate 2 ?c = Inl CausalCycle" "validate 2 ?d = Inr True" by code_simp+
  moreover have "\<not> orphan_free (plain_graph [(''a'', 0), (''b'', 1)] [] CONTROL_FLOW)" by code_simp
  ultimately show ?thesis
    using validate_exact [of 2 ?c] validate_exact [of 2 ?d] validate_exact [of 2 "plain_graph [(''a'', 0), (''b'', 1)] [] CONTROL_FLOW"]
    by blast
qed

subsection \<open>Graphs built from traces\<close>

definition version_edges :: "span_record \<Rightarrow> graph_edge list" where
  "version_edges sp = (case sp_component_version_id sp of None \<Rightarrow> []
     | Some v \<Rightarrow> [mk_edge (event_id (sp_span_id sp)) (''version:'' @ v) VERSION_LINEAGE ''instance_of''])"

definition parent_edges :: "span_record list \<Rightarrow> span_record \<Rightarrow> graph_edge list" where
  "parent_edges spans sp =
     (if truthy (sp_parent_span_id sp) \<and> the (sp_parent_span_id sp) \<in> sp_span_id ` set spans
      then [mk_edge (event_id (the (sp_parent_span_id sp))) (event_id (sp_span_id sp)) CONTROL_FLOW ''calls'']
      else [])"

definition memory_edges :: "env \<Rightarrow> span_record \<Rightarrow> graph_edge list" where
  "memory_edges E sp = (case map_of (sp_attributes sp) ''dgx.memory.referenced'' of None \<Rightarrow> []
     | Some m \<Rightarrow> [mk_edge (''memory:'' @ json_str (float_repr E) m) (event_id (sp_span_id sp)) MEMORY_INFLUENCE ''recalls''])"

definition agent_edges :: "env \<Rightarrow> span_record \<Rightarrow> graph_edge list" where
  "agent_edges E sp = (case map_of (sp_attributes sp) ''dgx.agent.message_to'' of None \<Rightarrow> []
     | Some a \<Rightarrow> [mk_edge (event_id (sp_span_id sp)) (''agent:'' @ json_str (float_repr E) a) INTER_AGENT_COMMUNICATION ''messages''])"

lemmas edge_list_defs = version_edges_def parent_edges_def memory_edges_def agent_edges_def

text \<open>What both loops keep: nodes stored under their own identifiers, no edge to nowhere.\<close>

definition parts_ok :: "graph_parts \<Rightarrow> bool" where
  "parts_ok p \<longleftrightarrow> distinct (map fst (fst p)) \<and> (\<forall>(k, n)\<in>set (fst p). gn_id n = k) \<and>
     (\<forall>e\<in>set (snd p). {ge_source e, ge_target e} \<subseteq> fst ` set (fst p))"

lemma dict_put_ids:
  "\<forall>(k, n)\<in>set d. gn_id n = k \<Longrightarrow> gn_id v = k \<Longrightarrow> \<forall>(k, n)\<in>set (dict_put k v d). gn_id n = k"
  by (induction k v d rule: dict_put.induct) auto

lemma add_if_missing_keys: "fst ` set (add_if_missing n ns) = insert (gn_id n) (fst ` set ns)"
  by (auto simp: add_if_missing_def keys_dict_put image_iff)

lemma add_if_missing_ok:
  assumes "parts_ok (ns, es)" "\<forall>e\<in>set es'. {ge_source e, ge_target e} \<subseteq> insert (gn_id n) (fst ` set ns)"
  shows "parts_ok (add_if_missing n ns, es @ es')"
proof -
  have "\<forall>(k, m)\<in>set (add_if_missing n ns). gn_id m = k" "distinct (map fst (add_if_missing n ns))"
    using assms(1) dict_put_ids [of ns n "gn_id n"] by (auto simp: add_if_missing_def parts_ok_def)
  then show ?thesis using assms unfolding parts_ok_def by (auto simp: add_if_missing_keys)
qed

lemma add_span_ok:
  assumes "parts_ok p"
  shows "parts_ok (add_span reg now t sp p) \<and> snd (add_span reg now t sp p) = snd p @ version_edges sp \<and>
    insert (event_id (sp_span_id sp)) (fst ` set (fst p)) \<subseteq> fst ` set (fst (add_span reg now t sp p))"
proof -
  obtain ns es where p: "p = (ns, es)" by (cases p)
  have put: "parts_ok (dict_put (event_id (sp_span_id sp)) n ns, es)" if "gn_id n = event_id (sp_span_id sp)" for n
    using assms that dict_put_ids [of ns n "event_id (sp_span_id sp)"]
    by (auto simp: p parts_ok_def keys_dict_put)
  show ?thesis
  proof (cases "sp_component_version_id sp")
    case None
    then show ?thesis
      using put by (auto simp: p add_span_def Let_def version_edges_def keys_dict_put mk_node_def)
  next
    case (Some v)
    then show ?thesis
      using put
      by (auto simp: p add_span_def Let_def version_edges_def keys_dict_put add_if_missing_keys mk_node_def mk_edge_def
          intro!: add_if_missing_ok)
  qed
qed

lemma add_spans_ok:
  "parts_ok p \<Longrightarrow> parts_ok (fold (add_span reg now t) sps p) \<and>
   snd (fold (add_span reg now t) sps p) = snd p @ concat (map version_edges sps) \<and>
   event_id ` sp_span_id ` set sps \<union> fst ` set (fst p) \<subseteq> fst ` set (fst (fold (add_span reg now t) sps p))"
proof (induction sps arbitrary: p)
  case (Cons sp sps)
  from add_span_ok [OF Cons.prems, of reg now t sp] Cons.IH [of "add_span reg now t sp p"]
  show ?case by (simp add: subset_iff image_iff)
qed simp

lemma link_parent_ok:
  assumes "parts_ok (ns, es)" "event_id ` sp_span_id ` set spans \<subseteq> fst ` set ns" "sp \<in> set spans"
  shows "link_parent spans sp (ns, es) = (ns, es @ parent_edges spans sp)"
    and "parts_ok (ns, es @ parent_edges spans sp)"
  using assms by (auto simp: link_parent_def parent_edges_def parts_ok_def mk_edge_def)

lemma link_memory_ok:
  assumes "parts_ok (ns, es)" "event_id (sp_span_id sp) \<in> fst ` set ns"
  shows "\<exists>ns'. link_memory E now sp (ns, es) = (ns', es @ memory_edges E sp) \<and>
    parts_ok (ns', es @ memory_edges E sp) \<and> fst ` set ns \<subseteq> fst ` set ns'"
proof (cases "map_of (sp_attributes sp) ''dgx.memory.referenced''")
  case (Some m)
  let ?n = "mk_node now (''memory:'' @ json_str (float_repr E) m) NtMemory ''Memory Store''"
  have "parts_ok (add_if_missing ?n ns, es @ memory_edges E sp)"
    using assms Some by (intro add_if_missing_ok) (auto simp: memory_edges_def mk_edge_def mk_node_def)
  then show ?thesis
    using Some by (auto simp: link_memory_def memory_edges_def Let_def add_if_missing_keys)
qed (use assms in \<open>auto simp: link_memory_def memory_edges_def\<close>)

lemma link_agent_ok:
  assumes "parts_ok (ns, es)" "event_id (sp_span_id sp) \<in> fst ` set ns"
  shows "\<exists>ns'. link_agent E now sp (ns, es) = (ns', es @ agent_edges E sp) \<and>
    parts_ok (ns', es @ agent_edges E sp) \<and> fst ` set ns \<subseteq> fst ` set ns'"
proof (cases "map_of (sp_attributes sp) ''dgx.agent.message_to''")
  case (Some a)
  let ?aid = "json_str (float_repr E) a"
  let ?n = "mk_node now (''agent:'' @ ?aid) NtAgent (''Agent ('' @ ?aid @ '')'')"
  have "parts_ok (add_if_missing ?n ns, es @ agent_edges E sp)"
    using assms Some by (intro add_if_missing_ok) (auto simp: agent_edges_def mk_edge_def mk_node_def)
  then show ?thesis
    using Some by (auto simp: link_agent_def agent_edges_def Let_def add_if_missing_keys)
qed (use assms in \<open>auto simp: link_agent_def agent_edges_def\<close>)

definition link_edges :: "env \<Rightarrow> span_record list \<Rightarrow> span_record \<Rightarrow> graph_edge list" where
  "link_edges E spans sp = parent_edges spans sp @ memory_edges E sp @ agent_edges E sp"

lemma link_ok:
  assumes "parts_ok (ns, es)" "event_id ` sp_span_id ` set spans \<subseteq> fst ` set ns" "sp \<in> set spans"
  shows "\<exists>ns'. link_agent E now sp (link_memory E now sp (link_parent spans sp (ns, es))) = (ns', es @ link_edges E spans sp) \<and>
    parts_ok (ns', es @ link_edges E spans sp) \<and> fst ` set ns \<subseteq> fst ` set ns'"
proof -
  have ev: "event_id (sp_span_id sp) \<in> fst ` set ns" using assms(2,3) by auto
  obtain n1 where n1: "link_memory E now sp (ns, es @ parent_edges spans sp) = (n1, (es @ parent_edges spans sp) @ memory_edges E sp)"
    "parts_ok (n1, (es @ parent_edges spans sp) @ memory_edges E sp)" "fst ` set ns \<subseteq> fst ` set n1"
    using link_memory_ok [OF link_parent_ok(2) [OF assms] ev] by blast
  from n1(3) ev have "event_id (sp_span_id sp) \<in> fst ` set n1" by blast
  from link_agent_ok [OF n1(2) this, of E now] obtain n2 where
    "link_agent E now sp (n1, (es @ parent_edges spans sp) @ memory_edges E sp) =
       (n2, ((es @ parent_edges spans sp) @ memory_edges E sp) @ agent_edges E sp)"
    "parts_ok (n2, ((es @ parent_edges spans sp) @ memory_edges E sp) @ agent_edges E sp)"
    "fst ` set n1 \<subseteq> fst ` set n2" by blast
  with n1 show ?thesis by (simp add: link_parent_ok(1) [OF assms] link_edges_def)
qed

lemma link_all_ok:
  assumes "parts_ok (ns, es)" "event_id ` sp_span_id ` set spans \<subseteq> fst ` set ns" "set sps \<subseteq> set spans"
  shows "\<exists>ns'. fold (\<lambda>sp p. link_agent E now sp (link_memory E now sp (link_parent spans sp p))) sps (ns, es) =
      (ns', es @ concat (map (link_edges E spans) sps)) \<and>
    parts_ok (ns', es @ concat (map (link_edges E spans) sps)) \<and> fst ` set ns \<subseteq> fst ` set ns'"
  using assms
proof (induction sps arbitrary: ns es)
  case (Cons sp sps)
  then obtain n1 where n1:
    "link_agent E now sp (link_memory E now sp (link_parent spans sp (ns, es))) = (n1, es @ link_edges E spans sp)"
    "parts_ok (n1, es @ link_edges E spans sp)" "fst ` set ns \<subseteq> fst ` set n1"
    using link_ok [OF Cons.prems(1,2), of sp E now] by auto
  from Cons.prems(2) n1(3) have "event_id ` sp_span_id ` set spans \<subseteq> fst ` set n1" by (rule subset_trans)
  from Cons.IH [OF n1(2) this] Cons.prems(3) obtain n2 where
    "fold (\<lambda>sp p. link_agent E now sp (link_memory E now sp (link_parent spans sp p))) sps (n1, es @ link_edges E spans sp) =
      (n2, (es @ link_edges E spans sp) @ concat (map (link_edges E spans) sps))"
    "parts_ok (n2, (es @ link_edges E spans sp) @ concat (map (link_edges E spans) sps))"
    "fst ` set n1 \<subseteq> fst ` set n2" by auto
  with n1 show ?case by simp
qed auto

lemma build_parts:
  obtains ns where "cg_nodes (build E reg now tr) = map snd ns"
    "cg_edges (build E reg now tr) =
       concat (map version_edges (ta_spans tr)) @ concat (map (link_edges E (ta_spans tr)) (ta_spans tr))"
    "parts_ok (ns, cg_edges (build E reg now tr))"
    "event_id ` sp_span_id ` set (ta_spans tr) \<subseteq> fst ` set ns"
proof -
  define p1 where "p1 = fold (add_span reg now (ta_tenant_id tr)) (ta_spans tr) ([], [])"
  have p1: "parts_ok p1" "snd p1 = concat (map version_edges (ta_spans tr))"
    "event_id ` sp_span_id ` set (ta_spans tr) \<subseteq> fst ` set (fst p1)"
    using add_spans_ok [of "([], [])" reg now "ta_tenant_id tr" "ta_spans tr"]
    by (simp_all add: p1_def parts_ok_def)
  from link_all_ok [of "fst p1" "snd p1" "ta_spans tr" "ta_spans tr" E now, unfolded prod.collapse, OF p1(1,3)]
  obtain ns where ns: "fold (\<lambda>sp p. link_agent E now sp (link_memory E now sp (link_parent (ta_spans tr) sp p)))
      (ta_spans tr) p1 = (ns, snd p1 @ concat (map (link_edges E (ta_spans tr)) (ta_spans tr)))"
    "parts_ok (ns, snd p1 @ concat (map (link_edges E (ta_spans tr)) (ta_spans tr)))"
    "fst ` set (fst p1) \<subseteq> fst ` set ns" by auto
  show thesis
    by (rule that [of ns])
      (use ns p1 in \<open>auto simp: build_def p1_def [symmetric] compute_graph_hash_def Let_def\<close>)
qed

lemma event_id_inj [simp]: "event_id a = event_id b \<longleftrightarrow> a = b"
  by (simp add: event_id_def)

lemma parts_ids:
  assumes "parts_ok (ns, es)"
  shows "map gn_id (map snd ns) = map fst ns" "gn_id ` set (map snd ns) = fst ` set ns"
proof -
  show "map gn_id (map snd ns) = map fst ns" using assms by (auto simp: parts_ok_def)
  then show "gn_id ` set (map snd ns) = fst ` set ns" by (metis list.set_map)
qed

text \<open>The parent links of a trace between spans that are both in it.\<close>

definition parent_links :: "trace_artifact \<Rightarrow> (string \<times> string) set" where
  "parent_links tr = {(p, sp_span_id sp) | p sp. sp \<in> set (ta_spans tr) \<and> sp_parent_span_id sp = Some p \<and>
     p \<noteq> [] \<and> p \<in> sp_span_id ` set (ta_spans tr)}"

lemma edge_types:
  "e \<in> set (version_edges sp) \<Longrightarrow> ge_type e = VERSION_LINEAGE"
  "e \<in> set (parent_edges spans sp) \<Longrightarrow> ge_type e = CONTROL_FLOW"
  "e \<in> set (memory_edges E sp) \<Longrightarrow> ge_type e = MEMORY_INFLUENCE"
  "e \<in> set (agent_edges E sp) \<Longrightarrow> ge_type e = INTER_AGENT_COMMUNICATION"
  by (auto simp: edge_list_defs mk_edge_def split: option.splits if_splits)

lemma parent_edge_pairs:
  "{(ge_source e, ge_target e) | e. \<exists>sp\<in>set (ta_spans tr). e \<in> set (parent_edges (ta_spans tr) sp)} =
   (\<lambda>(p, c). (event_id p, event_id c)) ` parent_links tr" (is "?L = ?R")
proof
  show "?L \<subseteq> ?R"
    by (fastforce simp: parent_edges_def parent_links_def mk_edge_def truthy_def split: option.splits if_splits)
  show "?R \<subseteq> ?L"
  proof
    fix x assume "x \<in> ?R"
    then obtain p sp where x: "x = (event_id p, event_id (sp_span_id sp))" "sp \<in> set (ta_spans tr)"
      "sp_parent_span_id sp = Some p" "p \<noteq> []" "p \<in> sp_span_id ` set (ta_spans tr)"
      by (auto simp: parent_links_def)
    then have "mk_edge (event_id p) (event_id (sp_span_id sp)) CONTROL_FLOW ''calls'' \<in> set (parent_edges (ta_spans tr) sp)"
      by (simp add: parent_edges_def)
    with x(1,2) show "x \<in> ?L"
      by (intro CollectI exI [of _ "mk_edge (event_id p) (event_id (sp_span_id sp)) CONTROL_FLOW ''calls''"])
        (auto simp: mk_edge_def)
  qed
qed

text \<open>
  C36. The graph built from a trace is well-formed: no identifier names two nodes, every edge joins two nodes
  of the graph, every span has its event node, and an edge leads from one event to another as control flow
  exactly for the parent links of the trace.
\<close>

theorem build_well_formed:
  "let g = build E reg now tr; ids = gn_id ` set (cg_nodes g) in
   distinct (map gn_id (cg_nodes g)) \<and>
   list_all (\<lambda>e. ge_source e \<in> ids \<and> ge_target e \<in> ids) (cg_edges g) \<and>
   event_id ` sp_span_id ` set (ta_spans tr) \<subseteq> ids \<and>
   {(ge_source e, ge_target e) | e. e \<in> set (cg_edges g) \<and> ge_type e = CONTROL_FLOW} =
     (\<lambda>(p, c). (event_id p, event_id c)) ` parent_links tr"
proof -
  obtain ns where ns: "cg_nodes (build E reg now tr) = map snd ns"
    "cg_edges (build E reg now tr) =
       concat (map version_edges (ta_spans tr)) @ concat (map (link_edges E (ta_spans tr)) (ta_spans tr))"
    "parts_ok (ns, cg_edges (build E reg now tr))"
    "event_id ` sp_span_id ` set (ta_spans tr) \<subseteq> fst ` set ns"
    by (rule build_parts)
  note ids = parts_ids [OF ns(3), folded ns(1)]
  have "e \<in> set (cg_edges (build E reg now tr)) \<and> ge_type e = CONTROL_FLOW \<longleftrightarrow>
      (\<exists>sp\<in>set (ta_spans tr). e \<in> set (parent_edges (ta_spans tr) sp))" for e
    unfolding ns(2) by (auto simp: link_edges_def dest: edge_types)
  then have "{(ge_source e, ge_target e) | e. e \<in> set (cg_edges (build E reg now tr)) \<and> ge_type e = CONTROL_FLOW} =
      (\<lambda>(p, c). (event_id p, event_id c)) ` parent_links tr"
    by (simp add: parent_edge_pairs)
  then show ?thesis
    using ns(3,4) unfolding Let_def ids by (simp add: parts_ok_def list_all_iff)
qed

lemma acyclic_sinks:
  assumes "Range S \<inter> Domain (R \<union> S) = {}"
  shows "acyclic (R \<union> S) \<longleftrightarrow> acyclic R"
proof -
  have "(x, y) \<in> R\<^sup>+" if "(x, y) \<in> (R \<union> S)\<^sup>+" "y \<in> Domain (R \<union> S)" for x y
    using that
  proof (induction rule: trancl_induct)
    case (base y)
    with assms show ?case by blast
  next
    case (step y z)
    then have "(x, y) \<in> R\<^sup>+" "(y, z) \<in> R" using assms by auto
    then show ?case by (rule trancl_into_trancl)
  qed
  moreover have "x \<in> Domain (R \<union> S)" if "(x, x) \<in> (R \<union> S)\<^sup>+" for x
    using that by (meson DomainI tranclD)
  ultimately show ?thesis
    unfolding acyclic_def by (meson Un_upper1 trancl_mono)
qed

lemma trancl_event_image:
  "(event_id a, y) \<in> ((\<lambda>(p, c). (event_id p, event_id c)) ` R)\<^sup>+ \<longleftrightarrow> (\<exists>b. y = event_id b \<and> (a, b) \<in> R\<^sup>+)"
  (is "?L y \<longleftrightarrow> ?R y")
proof
  assume "?L y"
  then show "?R y"
  proof (induction rule: trancl_induct)
    case (step y z)
    then obtain b c where "y = event_id b" "(a, b) \<in> R\<^sup>+" "z = event_id c" "(b, c) \<in> R" by auto
    then show ?case by (blast intro: trancl_into_trancl)
  qed auto
next
  assume "?R y"
  then obtain b where y: "y = event_id b" and "(a, b) \<in> R\<^sup>+" by blast
  from this(2) have "(event_id a, event_id b) \<in> ((\<lambda>(p, c). (event_id p, event_id c)) ` R)\<^sup>+"
  proof (induction rule: trancl_induct)
    case (base b)
    then have "(event_id a, event_id b) \<in> (\<lambda>(p, c). (event_id p, event_id c)) ` R" by force
    then show ?case by (rule r_into_trancl)
  next
    case (step b c)
    then have "(event_id b, event_id c) \<in> (\<lambda>(p, c). (event_id p, event_id c)) ` R" by force
    with step.IH show ?case by (rule trancl_into_trancl)
  qed
  then show "?L y" by (simp add: y)
qed

lemma acyclic_event_image: "acyclic ((\<lambda>(p, c). (event_id p, event_id c)) ` R) \<longleftrightarrow> acyclic R"
proof -
  let ?I = "(\<lambda>(p, c). (event_id p, event_id c)) ` R"
  have "\<exists>a. x = event_id a" if "(x, x) \<in> ?I\<^sup>+" for x
    using tranclD [OF that] by auto
  then have "(\<exists>x. (x, x) \<in> ?I\<^sup>+) \<longleftrightarrow> (\<exists>a. (event_id a, event_id a) \<in> ?I\<^sup>+)" by blast
  also have "\<dots> \<longleftrightarrow> (\<exists>a. (a, a) \<in> R\<^sup>+)" unfolding trancl_event_image by simp
  finally show ?thesis unfolding acyclic_def by blast
qed

text \<open>The causal edges of a built graph: control flow, and edges into sinks.\<close>

lemma build_causal_edges:
  obtains S where "causal_edges (build E reg now tr) = (\<lambda>(p, c). (event_id p, event_id c)) ` parent_links tr \<union> S"
    "Range S \<inter> range event_id = {}" "Domain S \<subseteq> range event_id"
proof -
  obtain ns where ns: "cg_nodes (build E reg now tr) = map snd ns"
    "cg_edges (build E reg now tr) =
       concat (map version_edges (ta_spans tr)) @ concat (map (link_edges E (ta_spans tr)) (ta_spans tr))"
    "parts_ok (ns, cg_edges (build E reg now tr))"
    "event_id ` sp_span_id ` set (ta_spans tr) \<subseteq> fst ` set ns"
    by (rule build_parts)
  have src: "ge_source e \<in> gn_id ` set (cg_nodes (build E reg now tr))" if "e \<in> set (cg_edges (build E reg now tr))" for e
    using ns(3) that unfolding ns(1) parts_ids(2) [OF ns(3)] by (auto simp: parts_ok_def)
  define A where "A = {e. \<exists>sp\<in>set (ta_spans tr). e \<in> set (version_edges sp) \<union> set (agent_edges E sp)}"
  define S where "S = {(ge_source e, ge_target e) | e. e \<in> A}"
  have causal: "e \<in> set (cg_edges (build E reg now tr)) \<and> is_causal e \<longleftrightarrow>
      (\<exists>sp\<in>set (ta_spans tr). e \<in> set (parent_edges (ta_spans tr) sp)) \<or> e \<in> A" for e
    unfolding ns(2) A_def by (auto simp: link_edges_def is_causal_def dest: edge_types)
  have "causal_edges (build E reg now tr) =
      {(ge_source e, ge_target e) | e. \<exists>sp\<in>set (ta_spans tr). e \<in> set (parent_edges (ta_spans tr) sp)} \<union> S"
  proof -
    have "(x, y) \<in> causal_edges (build E reg now tr) \<longleftrightarrow>
        (\<exists>e. (e \<in> set (cg_edges (build E reg now tr)) \<and> is_causal e) \<and> x = ge_source e \<and> y = ge_target e)" for x y
      using src by (auto simp: causal_edges_def)
    then show ?thesis unfolding causal S_def set_eq_iff split_paired_All by (simp add: conj_disj_distribR ex_disj_distrib) blast
  qed
  moreover have "ge_source e \<in> range event_id \<and> ge_target e \<notin> range event_id" if "e \<in> A" for e
    using that by (auto simp: A_def version_edges_def agent_edges_def mk_edge_def event_id_def split: option.splits)
  then have "Range S \<inter> range event_id = {} \<and> Domain S \<subseteq> range event_id"
    unfolding S_def Domain_unfold Range.simps by (intro conjI) (simp add: disjoint_iff Range_iff, metis, blast)
  ultimately show thesis unfolding parent_edge_pairs by (intro that) auto
qed

text \<open>
  The validator rejects the graph of a trace for a cycle exactly when the parent links of the trace are
  cyclic: version lineage, agent messages and memory references never make a cycle of causal edges.
\<close>

theorem built_graph_acyclic_iff:
  "acyclic (causal_edges (build E reg now tr)) \<longleftrightarrow> acyclic (parent_links tr)"
proof -
  obtain S where S: "causal_edges (build E reg now tr) = (\<lambda>(p, c). (event_id p, event_id c)) ` parent_links tr \<union> S"
    "Range S \<inter> range event_id = {}" "Domain S \<subseteq> range event_id"
    by (rule build_causal_edges)
  have "Domain ((\<lambda>(p, c). (event_id p, event_id c)) ` parent_links tr \<union> S) \<subseteq> range event_id"
    using S(3) by auto
  with S(2) have "Range S \<inter> Domain ((\<lambda>(p, c). (event_id p, event_id c)) ` parent_links tr \<union> S) = {}" by blast
  from acyclic_sinks [OF this] show ?thesis by (simp add: S(1) acyclic_event_image)
qed

end
