(* ===== verification/Causal_Cut.thy ===== *)
theory Causal_Cut
  imports Causal_Graph Provenance_Store
begin

section \<open>The causal recovery cut\<close>

text \<open>
  \<open>packages/recovery/src/causal_cut.py\<close>: the enumeration of failure paths with a stack, and the
  choice of recovery actions that block all of them, by exhaustive search over combinations or, when
  there are too many, by greedy set cover.

  The source iterates over a set of node identifiers, whose order Python does not fix: the order
  is an argument, a list of the elements. Costs are rationals; the division by a cost that cancels
  the epsilon is the one error of the greedy branch.
\<close>

record fault_source =
  fs_node_id :: string
  fs_probability :: rat

record failure_target =
  ft_node_id :: string
  ft_failure_type :: string
  ft_severity :: string
  ft_evidence :: "(string \<times> json) list"

record cut_action =
  ca_action_id :: string
  ca_target_component :: string
  ca_action_type :: string
  ca_replacement :: "string option"
  ca_change_cost :: rat
  ca_blast_radius :: rat
  ca_regression_risk :: rat
  ca_expected_downtime :: rat
  ca_reversibility :: bool
  ca_required_capability :: "capability option"
  ca_metadata :: "(string \<times> json) list"

datatype optimization_method = EXACT | APPROXIMATE | HEURISTIC

record recovery_cut =
  rc_recovery_id :: string
  rc_fault_sources :: "fault_source list"
  rc_failure_targets :: "failure_target list"
  rc_selected_actions :: "cut_action list"
  rc_blocked_paths :: "string list list"
  rc_residual_paths :: "string list list"
  rc_total_change_cost :: rat
  rc_blast_radius :: rat
  rc_regression_risk :: rat
  rc_expected_downtime :: rat
  rc_optimization_method :: optimization_method
  rc_evidence_hash :: string
  rc_created_at :: int

subsection \<open>Failure paths\<close>

text \<open>The adjacency dict: the targets of the edges of a node, in the order of the edges.\<close>

definition path_adj :: "causal_graph \<Rightarrow> string \<Rightarrow> string list" where
  "path_adj g x =
     (if x \<in> gn_id ` set (cg_nodes g)
      then map ge_target (filter (\<lambda>e. ge_source e = x) (cg_edges g)) else [])"

text \<open>The identifiers that occur in an adjacency given as a list of pairs.\<close>

type_synonym adjacency = "(string \<times> string list) list"

definition adj_list :: "causal_graph \<Rightarrow> adjacency" where
  "adj_list g = map (\<lambda>n. (gn_id n, path_adj g (gn_id n))) (cg_nodes g)"

definition neighbours :: "adjacency \<Rightarrow> string \<Rightarrow> string list" where
  "neighbours adj x = (case map_of adj x of None \<Rightarrow> [] | Some ys \<Rightarrow> ys)"

definition adj_ids :: "adjacency \<Rightarrow> string set" where
  "adj_ids adj = (\<Union>(_, ys)\<in>set adj. set ys)"

text \<open>The pushes of one turn, last pushed first; the stack is a list with its top in front.\<close>

definition pushes :: "adjacency \<Rightarrow> string \<times> string list \<Rightarrow> (string \<times> string list) list" where
  "pushes adj cp = rev (map (\<lambda>y. (y, snd cp @ [y])) (filter (\<lambda>y. y \<notin> set (snd cp)) (neighbours adj (fst cp))))"

lemma neighbours_ids: "set (neighbours adj x) \<subseteq> adj_ids adj"
proof (cases "map_of adj x")
  case (Some ys)
  from map_of_SomeD [OF Some] show ?thesis by (auto simp: neighbours_def adj_ids_def Some)
qed (simp add: neighbours_def)

lemma finite_adj_ids [simp]: "finite (adj_ids adj)"
  by (auto simp: adj_ids_def)

lemma length_neighbours: "length (neighbours adj x) \<le> sum_list (map (length \<circ> snd) adj)"
proof (cases "map_of adj x")
  case (Some ys)
  then have "length ys \<in> set (map (length \<circ> snd) adj)" by (force dest: map_of_SomeD)
  from member_le_sum_list [OF this] show ?thesis by (simp add: neighbours_def Some)
qed (simp add: neighbours_def)

text \<open>A weight for the entries of the stack: what a turn pushes weighs less than what it pops.\<close>

definition path_weight :: "adjacency \<Rightarrow> string list \<Rightarrow> nat" where
  "path_weight adj p = Suc (sum_list (map (length \<circ> snd) adj)) ^ card (adj_ids adj - set p)"

lemma pushes_weight:
  "sum_list (map (path_weight adj \<circ> snd) (pushes adj cp)) < path_weight adj (snd cp)"
proof -
  let ?b = "Suc (sum_list (map (length \<circ> snd) adj))" and ?p = "snd cp"
  let ?ys = "filter (\<lambda>y. y \<notin> set ?p) (neighbours adj (fst cp))"
  show ?thesis
  proof (cases "?ys = []")
    case True
    then show ?thesis by (simp add: pushes_def path_weight_def)
  next
    case False
    then obtain y0 where y0: "y0 \<in> set ?ys" by (cases ?ys) auto
    let ?n = "card (adj_ids adj - set ?p)"
    have w: "path_weight adj (?p @ [y]) = ?b ^ (?n - 1)" if "y \<in> set ?ys" for y
    proof -
      have "y \<in> adj_ids adj - set ?p" using that neighbours_ids by auto
      moreover have "adj_ids adj - set (?p @ [y]) = (adj_ids adj - set ?p) - {y}" by auto
      ultimately show ?thesis by (simp add: path_weight_def)
    qed
    have "y0 \<in> adj_ids adj - set ?p" using y0 neighbours_ids by auto
    then have n: "0 < ?n" by (auto simp: card_gt_0_iff)
    have "map (path_weight adj \<circ> snd) (pushes adj cp) = rev (map (\<lambda>y. ?b ^ (?n - 1)) ?ys)"
      unfolding pushes_def rev_map [symmetric] map_map using w by (auto simp: rev_map)
    then have "sum_list (map (path_weight adj \<circ> snd) (pushes adj cp)) = length ?ys * ?b ^ (?n - 1)"
      by (simp add: sum_list_triv)
    also have "\<dots> < ?b * ?b ^ (?n - 1)"
    proof (rule mult_strict_right_mono)
      have "length ?ys \<le> length (neighbours adj (fst cp))" by (rule length_filter_le)
      also have "\<dots> \<le> sum_list (map (length \<circ> snd) adj)" by (rule length_neighbours)
      finally show "length ?ys < ?b" by (rule le_imp_less_Suc)
    qed simp
    also have "\<dots> = path_weight adj ?p"
      unfolding path_weight_def using n by (metis power_minus_mult mult.commute)
    finally show ?thesis .
  qed
qed

text \<open>The while loop of \<open>enumerate_paths\<close> for one start node; the result is in the order of discovery.\<close>

function path_loop :: "adjacency \<Rightarrow> string set \<Rightarrow> (string \<times> string list) list \<Rightarrow> string list list" where
  "path_loop adj targets [] = []"
| "path_loop adj targets (cp # stack) =
     (if fst cp \<in> targets then [snd cp] else []) @ path_loop adj targets (pushes adj cp @ stack)"
  by pat_completeness auto

termination
  by (relation "measure (\<lambda>(adj, _, stack). sum_list (map (path_weight adj \<circ> snd) stack))")
    (use pushes_weight in \<open>auto simp: comp_def\<close>)

definition enumerate_paths :: "causal_graph \<Rightarrow> string list \<Rightarrow> failure_target list \<Rightarrow> string list list" where
  "enumerate_paths g starts targets =
     concat (map (\<lambda>s. path_loop (adj_list g) (set (map ft_node_id targets)) [(s, [s])])
       (filter (\<lambda>s. s \<in> gn_id ` set (cg_nodes g)) starts))"

subsection \<open>The optimizer\<close>

definition action_cost :: "cut_action \<Rightarrow> rat" where
  "action_cost a = ca_change_cost a * 1 + ca_blast_radius a * (3/2) + ca_regression_risk a * 2 +
     ca_expected_downtime a * (1/2)"

definition cost_of :: "cut_action list \<Rightarrow> rat" where
  "cost_of as = sum_list (map action_cost as)"

definition hits :: "string list list \<Rightarrow> cut_action \<Rightarrow> nat list" where
  "hits paths a = filter (\<lambda>i. ca_target_component a \<in> set (paths ! i)) [0..<length paths]"

text \<open>\<open>action_coverage\<close>, a dict: a later action with the same identifier overwrites an earlier one.\<close>

definition action_coverage :: "cut_action list \<Rightarrow> string list list \<Rightarrow> (string \<times> nat list) list" where
  "action_coverage acts paths = fold (\<lambda>a d. dict_put (ca_action_id a) (hits paths a) d) acts []"

definition coverage :: "(string \<times> nat list) list \<Rightarrow> cut_action \<Rightarrow> nat set" where
  "coverage d a = (case map_of d (ca_action_id a) of None \<Rightarrow> {} | Some is \<Rightarrow> set is)"

text \<open>\<open>itertools.combinations\<close>: the subsequences of a given length, in lexicographic order of positions.\<close>

fun combinations :: "'a list \<Rightarrow> nat \<Rightarrow> 'a list list" where
  "combinations xs 0 = [[]]"
| "combinations [] (Suc k) = []"
| "combinations (x # xs) (Suc k) = map ((#) x) (combinations xs k) @ combinations xs (Suc k)"

definition MAX_EXACT_COMBINATIONS :: nat where "MAX_EXACT_COMBINATIONS = 10000"

definition all_combos :: "'a list \<Rightarrow> 'a list list" where
  "all_combos xs = concat (map (combinations xs) [1..<length xs + 1])"

text \<open>The loop over the combinations: the first of those of least cost.\<close>

definition try_combo ::
    "(cut_action \<Rightarrow> nat set) \<Rightarrow> nat \<Rightarrow> cut_action list \<Rightarrow> (cut_action list \<times> rat) option \<Rightarrow> (cut_action list \<times> rat) option" where
  "try_combo cov n combo best =
     (if card (\<Union>(set (map cov combo))) = n
      then let cost = cost_of combo in
           (case best of None \<Rightarrow> Some (combo, cost)
            | Some (_, c) \<Rightarrow> if cost < c then Some (combo, cost) else best)
      else best)"

definition exact_search :: "(cut_action \<Rightarrow> nat set) \<Rightarrow> nat \<Rightarrow> cut_action list \<Rightarrow> cut_action list option" where
  "exact_search cov n useful = map_option fst (fold (try_combo cov n) (all_combos useful) None)"

text \<open>One scan of the greedy branch for the best ratio, which raises on a division by zero.\<close>

datatype cut_error = CutZeroDivision

definition epsilon :: rat where "epsilon = 1 / 100000"

fun best_ratio ::
    "(cut_action \<Rightarrow> nat set) \<Rightarrow> nat set \<Rightarrow> cut_action list \<Rightarrow> cut_action list \<Rightarrow> (cut_action option \<times> rat) \<Rightarrow>
     (cut_error, cut_action option \<times> rat) result" where
  "best_ratio cov unc sel [] best = Inr best"
| "best_ratio cov unc sel (a # as) best =
     (if a \<in> set sel then best_ratio cov unc sel as best
      else if cov a \<inter> unc = {} then best_ratio cov unc sel as best
      else if action_cost a + epsilon = 0 then Inl CutZeroDivision
      else let ratio = of_nat (card (cov a \<inter> unc)) / (action_cost a + epsilon) in
           best_ratio cov unc sel as (if snd best < ratio then (Some a, ratio) else best))"

lemma best_ratio_covers:
  "best_ratio cov unc sel as best = Inr (Some a, q) \<Longrightarrow>
   fst best \<noteq> Some a \<Longrightarrow> a \<in> set as \<and> cov a \<inter> unc \<noteq> {} \<and> a \<notin> set sel"
proof (induction cov unc sel as best rule: best_ratio.induct)
  case (2 cov unc sel b as best)
  then show ?case by (fastforce simp: Let_def split: if_splits)
qed auto

text \<open>
  The greedy loop; the uncovered positions are a list without repetition. It ends since every turn
  covers one more path.
\<close>

function greedy ::
    "(cut_action \<Rightarrow> nat set) \<Rightarrow> cut_action list \<Rightarrow> nat list \<Rightarrow> cut_action list \<Rightarrow>
     (cut_error, cut_action list \<times> nat list) result" where
  "greedy cov useful unc sel =
     (if unc = [] then Inr (sel, unc)
      else case best_ratio cov (set unc) sel useful (None, - 1) of
             Inl e \<Rightarrow> Inl e
           | Inr (None, _) \<Rightarrow> Inr (sel, unc)
           | Inr (Some a, _) \<Rightarrow> greedy cov useful (filter (\<lambda>i. i \<notin> cov a) unc) (sel @ [a]))"
  by pat_completeness auto

termination
proof (relation "measure (\<lambda>(_, _, unc, _). length unc)")
  fix cov :: "cut_action \<Rightarrow> nat set" and useful sel a q and unc :: "nat list" and p :: "cut_action option \<times> rat" and o'
  assume p: "best_ratio cov (set unc) sel useful (None, - 1) = Inr p" "(o', q) = p" "o' = Some a"
  then have "cov a \<inter> set unc \<noteq> {}" using best_ratio_covers [of cov "set unc" sel useful "(None, - 1)" a q] by auto
  then have "\<exists>i\<in>set unc. i \<in> cov a" by blast
  then show "((cov, useful, filter (\<lambda>i. i \<notin> cov a) unc, sel @ [a]), cov, useful, unc, sel)
      \<in> measure (\<lambda>(_, _, unc, _). length unc)"
    using length_filter_less [of _ unc "\<lambda>i. i \<notin> cov a"] by auto
qed simp

declare greedy.simps [simp del]

definition evidence_message :: "env \<Rightarrow> fault_source list \<Rightarrow> failure_target list \<Rightarrow> cut_action list \<Rightarrow> string" where
  "evidence_message E sources targets sel = utf8 (dumps default_style (float_repr E) (JObj
     [(''targets'', JList (map (JStr \<circ> ft_node_id) targets)),
      (''sources'', JList (map (JStr \<circ> fs_node_id) sources)),
      (''actions'', JList (map (JStr \<circ> ca_action_id) sel))]))"

definition build_cut :: "env \<Rightarrow> int \<Rightarrow> string \<Rightarrow> cut_action list \<Rightarrow> string list list \<Rightarrow> string list list \<Rightarrow>
    fault_source list \<Rightarrow> failure_target list \<Rightarrow> optimization_method \<Rightarrow> recovery_cut" where
  "build_cut E now rid sel blocked residual sources targets m =
     \<lparr>rc_recovery_id = rid, rc_fault_sources = sources, rc_failure_targets = targets,
      rc_selected_actions = sel, rc_blocked_paths = blocked, rc_residual_paths = residual,
      rc_total_change_cost = sum_list (map ca_change_cost sel),
      rc_blast_radius = sum_list (map ca_blast_radius sel),
      rc_regression_risk = sum_list (map ca_regression_risk sel),
      rc_expected_downtime = sum_list (map ca_expected_downtime sel),
      rc_optimization_method = m, rc_evidence_hash = sha256 E (evidence_message E sources targets sel),
      rc_created_at = now\<rparr>"

definition optimize :: "env \<Rightarrow> int \<Rightarrow> string \<Rightarrow> cut_action list \<Rightarrow> string list list \<Rightarrow> fault_source list \<Rightarrow>
    failure_target list \<Rightarrow> (cut_error, recovery_cut) result" where
  "optimize E now rid available paths sources targets =
     (let cov = coverage (action_coverage available paths); n = length paths in
      if n = 0 then Inr (build_cut E now rid [] paths [] sources targets EXACT)
      else
        let useful = filter (\<lambda>a. cov a \<noteq> {}) available in
        rbind
          (if length (all_combos useful) \<le> MAX_EXACT_COMBINATIONS
           then Inr (exact_search cov n useful, EXACT)
           else rbind (greedy cov useful [0..<n] []) (\<lambda>(sel, unc).
                  Inr (if unc = [] then Some sel else None, APPROXIMATE)))
          (\<lambda>(best, m).
             let sel = (case best of None \<Rightarrow> [] | Some c \<Rightarrow> c) in
             Inr (if sel \<noteq> [] then build_cut E now rid sel paths [] sources targets m
                  else build_cut E now rid sel [] paths sources targets m)))"

subsection \<open>The enumeration is exact\<close>

text \<open>An edge of the graph as the enumerator reads it: it must leave a node of the graph.\<close>

definition edge_of :: "causal_graph \<Rightarrow> string \<Rightarrow> string \<Rightarrow> bool" where
  "edge_of g x y \<longleftrightarrow> x \<in> gn_id ` set (cg_nodes g) \<and>
     (\<exists>e\<in>set (cg_edges g). ge_source e = x \<and> ge_target e = y)"

lemma map_of_keyed:
  "map_of (map (\<lambda>n. (k n, f (k n))) ns) x = (if x \<in> k ` set ns then Some (f x) else None)"
  by (induction ns) auto

lemma neighbours_adj_list: "y \<in> set (neighbours (adj_list g) x) \<longleftrightarrow> edge_of g x y"
proof -
  have n: "neighbours (adj_list g) x = (if x \<in> gn_id ` set (cg_nodes g) then path_adj g x else [])"
    unfolding neighbours_def adj_list_def map_of_keyed [of gn_id "path_adj g"]
    by (cases "x \<in> gn_id ` set (cg_nodes g)") (simp_all only: if_True if_False option.case)
  show ?thesis
  proof (cases "x \<in> gn_id ` set (cg_nodes g)")
    case True
    then have "neighbours (adj_list g) x = map ge_target (filter (\<lambda>e. ge_source e = x) (cg_edges g))"
      by (simp only: n path_adj_def if_True)
    with True show ?thesis unfolding edge_of_def by auto
  next
    case False
    then show ?thesis by (simp only: n edge_of_def if_False list.set empty_iff simp_thms)
  qed
qed

text \<open>What one entry of the stack stands for: its path, extended without repetition to a target.\<close>

definition extends :: "adjacency \<Rightarrow> string set \<Rightarrow> string \<times> string list \<Rightarrow> string list \<Rightarrow> bool" where
  "extends adj targets cp q \<longleftrightarrow>
     (\<exists>r. q = snd cp @ r \<and> successively (\<lambda>x y. y \<in> set (neighbours adj x)) (fst cp # r) \<and>
        distinct r \<and> set r \<inter> set (snd cp) = {} \<and> last (fst cp # r) \<in> targets)"

lemma extends_step:
  "extends adj targets cp q \<longleftrightarrow>
     fst cp \<in> targets \<and> q = snd cp \<or> (\<exists>cp'\<in>set (pushes adj cp). extends adj targets cp' q)"
  (is "?L \<longleftrightarrow> ?now \<or> ?later")
proof
  assume ?L
  then obtain r where r: "q = snd cp @ r" "successively (\<lambda>x y. y \<in> set (neighbours adj x)) (fst cp # r)"
    "distinct r" "set r \<inter> set (snd cp) = {}" "last (fst cp # r) \<in> targets" by (auto simp: extends_def)
  show "?now \<or> ?later"
  proof (cases r)
    case Nil
    with r show ?thesis by simp
  next
    case (Cons y r')
    with r have "(y, snd cp @ [y]) \<in> set (pushes adj cp)" by (auto simp: pushes_def)
    moreover have "extends adj targets (y, snd cp @ [y]) q"
      unfolding extends_def by (rule exI [of _ r']) (use r Cons in auto)
    ultimately show ?thesis by blast
  qed
next
  assume "?now \<or> ?later"
  then show ?L
  proof
    assume ?now
    then show ?L unfolding extends_def by (intro exI [of _ "[]"]) auto
  next
    assume ?later
    then obtain y where "y \<in> set (neighbours adj (fst cp))" "y \<notin> set (snd cp)"
      "extends adj targets (y, snd cp @ [y]) q" by (auto simp: pushes_def)
    moreover from this(3) obtain r where
      "q = (snd cp @ [y]) @ r" "successively (\<lambda>x y. y \<in> set (neighbours adj x)) (y # r)"
      "distinct r" "set r \<inter> set (snd cp @ [y]) = {}" "last (y # r) \<in> targets"
      unfolding extends_def fst_conv snd_conv by blast
    ultimately show ?L unfolding extends_def by (intro exI [of _ "y # r"]) auto
  qed
qed

lemma set_path_loop: "set (path_loop adj targets stack) = {q. \<exists>cp\<in>set stack. extends adj targets cp q}"
proof (induction adj targets stack rule: path_loop.induct)
  case (2 adj targets cp stack)
  have "set (path_loop adj targets (cp # stack)) =
      {q. fst cp \<in> targets \<and> q = snd cp} \<union> {q. \<exists>cp'\<in>set (pushes adj cp). extends adj targets cp' q} \<union>
      {q. \<exists>cp'\<in>set stack. extends adj targets cp' q}"
    by (simp add: 2) blast
  also have "\<dots> = {q. extends adj targets cp q} \<union> {q. \<exists>cp'\<in>set stack. extends adj targets cp' q}"
    unfolding extends_step [of adj targets cp] by blast
  finally show ?case by auto
qed simp

definition failure_path :: "causal_graph \<Rightarrow> string set \<Rightarrow> string set \<Rightarrow> string list \<Rightarrow> bool" where
  "failure_path g sources targets p \<longleftrightarrow> p \<noteq> [] \<and> hd p \<in> sources \<and> hd p \<in> gn_id ` set (cg_nodes g) \<and>
     last p \<in> targets \<and> successively (edge_of g) p"

lemma set_enumerate_paths:
  "set (enumerate_paths g starts targets) =
     {p. failure_path g (set starts) (ft_node_id ` set targets) p \<and> distinct p}"
proof -
  have "extends (adj_list g) T (s, [s]) q \<longleftrightarrow>
      q \<noteq> [] \<and> hd q = s \<and> last q \<in> T \<and> successively (edge_of g) q \<and> distinct q" for s q T
    unfolding extends_def neighbours_adj_list fst_conv snd_conv by (cases q) (auto simp del: last.simps)
  then have "set (path_loop (adj_list g) T [(s, [s])]) =
      {q. q \<noteq> [] \<and> hd q = s \<and> last q \<in> T \<and> successively (edge_of g) q \<and> distinct q}" for s T
    unfolding set_path_loop by simp
  then show ?thesis by (auto simp: enumerate_paths_def failure_path_def simp del: path_loop.simps)
qed

text \<open>
  The enumeration of failure paths terminates and finds exactly the paths of the graph without repeated
  nodes that lead from a fault source in the graph to a failure target.
\<close>

theorem enumerate_paths_exact:
  "set (enumerate_paths g starts targets) =
     {p. failure_path g (set starts) (ft_node_id ` set targets) p \<and> distinct p}"
  by (rule set_enumerate_paths)

text \<open>Every walk of the graph contains a path with the same ends.\<close>

lemma walk_contains_path:
  assumes "w \<noteq> []" "successively P w"
  shows "\<exists>p. p \<noteq> [] \<and> hd p = hd w \<and> last p = last w \<and> successively P p \<and> distinct p \<and> set p \<subseteq> set w"
  using assms
proof (induction "length w" arbitrary: w rule: less_induct)
  case less
  show ?case
  proof (cases "distinct w")
    case False
    then obtain a x b c where w: "w = a @ [x] @ b @ [x] @ c" using not_distinct_decomp by blast
    let ?v = "a @ [x] @ c"
    have "length ?v < length w" "?v \<noteq> []" using w by auto
    moreover have "successively P ((x # b) @ x # c)" using less.prems(2) unfolding w
      by (simp add: successively_append_iff)
    then have "successively P (x # c)" by (simp only: successively_append_iff)
    then have "successively P ?v" using less.prems(2) unfolding w
      by (auto simp: successively_append_iff)
    ultimately obtain p where "p \<noteq> []" "hd p = hd ?v" "last p = last ?v" "successively P p" "distinct p" "set p \<subseteq> set ?v"
      using less.hyps by blast
    moreover have "hd ?v = hd w" "last ?v = last w" "set ?v \<subseteq> set w" using w by (auto simp: hd_append)
    ultimately show ?thesis by (metis subset_trans)
  next
    case True
    with less.prems show ?thesis by (intro exI [of _ w]) simp
  qed
qed

subsection \<open>The search is exact\<close>

lemma set_combinations: "set (combinations xs k) = {ys \<in> set (subseqs xs). length ys = k}"
proof (induction xs k rule: combinations.induct)
  case (1 xs)
  have "[] \<in> set (subseqs xs)" by (induction xs) (auto simp: Let_def)
  then show ?case by auto
qed (auto simp: Let_def)

lemma length_subseqs_le: "ys \<in> set (subseqs xs) \<Longrightarrow> length ys \<le> length xs"
  by (induction xs arbitrary: ys) (auto simp: Let_def le_SucI)

lemma set_subseqs_le: "ys \<in> set (subseqs xs) \<Longrightarrow> set ys \<subseteq> set xs"
  using subseqs_powset [of xs] by blast

lemma set_all_combos: "set (all_combos xs) = set (subseqs xs) - {[]}"
proof -
  have "ys \<in> set (all_combos xs) \<longleftrightarrow> ys \<in> set (subseqs xs) \<and> 0 < length ys \<and> length ys \<le> length xs" for ys
    by (auto simp: all_combos_def set_combinations Suc_le_eq)
  then show ?thesis using length_subseqs_le by fastforce
qed

definition covers :: "(cut_action \<Rightarrow> nat set) \<Rightarrow> nat \<Rightarrow> cut_action list \<Rightarrow> bool" where
  "covers cov n combo \<longleftrightarrow> card (\<Union>(set (map cov combo))) = n"

text \<open>After the loop the best combination is a covering one of least cost, if any covers.\<close>

definition best_of :: "(cut_action \<Rightarrow> nat set) \<Rightarrow> nat \<Rightarrow> cut_action list set \<Rightarrow> (cut_action list \<times> rat) option \<Rightarrow> bool" where
  "best_of cov n combos best \<longleftrightarrow>
     (case best of
        None \<Rightarrow> \<forall>c\<in>combos. \<not> covers cov n c
      | Some (c, q) \<Rightarrow> c \<in> combos \<and> covers cov n c \<and> q = cost_of c \<and>
          (\<forall>c'\<in>combos. covers cov n c' \<longrightarrow> cost_of c \<le> cost_of c'))"

lemma best_of_step: "best_of cov n combos best \<Longrightarrow> best_of cov n (insert c combos) (try_combo cov n c best)"
  by (auto simp: best_of_def try_combo_def covers_def Let_def split: option.splits)

lemma best_of_fold:
  "best_of cov n seen best \<Longrightarrow> best_of cov n (seen \<union> set combos) (fold (try_combo cov n) combos best)"
proof (induction combos arbitrary: seen best)
  case (Cons c combos)
  from Cons.IH [OF best_of_step [OF Cons.prems, of c]] show ?case by simp
qed simp

lemma exact_search_best:
  "case exact_search cov n useful of
     None \<Rightarrow> \<forall>c\<in>set (subseqs useful) - {[]}. \<not> covers cov n c
   | Some c \<Rightarrow> c \<in> set (subseqs useful) - {[]} \<and> covers cov n c \<and>
       (\<forall>c'\<in>set (subseqs useful) - {[]}. covers cov n c' \<longrightarrow> cost_of c \<le> cost_of c')"
proof -
  have "best_of cov n {} None" by (simp add: best_of_def)
  from best_of_fold [OF this, of "all_combos useful"] show ?thesis
    by (auto simp: exact_search_def set_all_combos best_of_def split: option.splits)
qed

subsection \<open>Coverage\<close>

lemma map_of_coverage:
  "distinct (map ca_action_id acts) \<Longrightarrow> a \<in> set acts \<or> map_of d (ca_action_id a) = Some (hits paths a) \<and>
     ca_action_id a \<notin> ca_action_id ` set acts \<Longrightarrow>
   map_of (fold (\<lambda>a d. dict_put (ca_action_id a) (hits paths a) d) acts d) (ca_action_id a) = Some (hits paths a)"
proof (induction acts arbitrary: d)
  case (Cons b acts)
  have "map_of (fold (\<lambda>a d. dict_put (ca_action_id a) (hits paths a) d) acts
      (dict_put (ca_action_id b) (hits paths b) d)) (ca_action_id a) = Some (hits paths a)"
    using Cons.prems by (intro Cons.IH) auto
  then show ?case by simp
qed simp

lemma coverage_hits:
  assumes "distinct (map ca_action_id acts)" "a \<in> set acts"
  shows "coverage (action_coverage acts paths) a = {i. i < length paths \<and> ca_target_component a \<in> set (paths ! i)}"
  using map_of_coverage [OF assms(1), of a "[]" paths] assms(2)
  by (auto simp: coverage_def action_coverage_def hits_def)

text \<open>A set of actions blocks a list of paths when it has an action on a node of each.\<close>

definition blocks :: "cut_action set \<Rightarrow> string list list \<Rightarrow> bool" where
  "blocks A paths \<longleftrightarrow> (\<forall>p\<in>set paths. \<exists>a\<in>A. ca_target_component a \<in> set p)"

lemma covers_iff_blocks:
  assumes "distinct (map ca_action_id acts)" "set combo \<subseteq> set acts"
  shows "covers (coverage (action_coverage acts paths)) (length paths) combo \<longleftrightarrow> blocks (set combo) paths"
proof -
  let ?U = "\<Union>(set (map (coverage (action_coverage acts paths)) combo))"
  have U: "?U = {i. i < length paths \<and> (\<exists>a\<in>set combo. ca_target_component a \<in> set (paths ! i))}"
  proof -
    have "coverage (action_coverage acts paths) ` set combo =
        (\<lambda>a. {i. i < length paths \<and> ca_target_component a \<in> set (paths ! i)}) ` set combo"
      using assms(2) by (intro image_cong refl coverage_hits [OF assms(1)]) auto
    then show ?thesis by auto
  qed
  have "card ?U = length paths \<longleftrightarrow> ?U = {0..<length paths}"
  proof
    assume "card ?U = length paths"
    moreover have "?U \<subseteq> {0..<length paths}" unfolding U by auto
    ultimately show "?U = {0..<length paths}" by (intro card_subset_eq) simp_all
  qed simp
  also have "\<dots> \<longleftrightarrow> (\<forall>i<length paths. \<exists>a\<in>set combo. ca_target_component a \<in> set (paths ! i))"
    unfolding U by auto
  also have "\<dots> \<longleftrightarrow> blocks (set combo) paths"
    unfolding blocks_def all_set_conv_all_nth ..
  finally show ?thesis unfolding covers_def .
qed

subsection \<open>Greedy cover\<close>

lemma greedy_Nil [simp]: "greedy cov useful [] sel = Inr (sel, [])"
  by (simp add: greedy.simps)

lemma greedy_sound:
  "greedy cov useful unc sel = Inr (sel', unc') \<Longrightarrow>
   set sel' \<subseteq> set sel \<union> set useful \<and> set sel \<subseteq> set sel' \<and>
   (\<forall>i\<in>set unc. i \<in> set unc' \<or> (\<exists>a\<in>set sel'. i \<in> cov a))"
proof (induction cov useful unc sel rule: greedy.induct)
  case (1 cov useful unc sel)
  show ?case
  proof (cases "unc = []")
    case True
    with 1(2) show ?thesis by auto
  next
    case False
    with 1(2) obtain b q where b: "best_ratio cov (set unc) sel useful (None, - 1) = Inr (b, q)"
      by (auto simp: greedy.simps [of cov useful unc] split: sum.splits)
    show ?thesis
    proof (cases b)
      case None
      with 1(2) b False show ?thesis by (auto simp: greedy.simps [of cov useful unc])
    next
      case (Some a)
      with 1(2) b False have g: "greedy cov useful (filter (\<lambda>i. i \<notin> cov a) unc) (sel @ [a]) = Inr (sel', unc')"
        by (simp add: greedy.simps [of cov useful unc])
      have "a \<in> set useful" using best_ratio_covers [of cov "set unc" sel useful "(None, - 1)" a q] b Some by simp
      moreover note 1(1) [OF False b _ Some g]
      ultimately show ?thesis by auto
    qed
  qed
qed

lemma best_ratio_total:
  assumes "finite unc" "\<forall>a\<in>set as. 0 \<le> action_cost a" "fst best = None \<longrightarrow> snd best = - 1"
  shows "\<exists>b q. best_ratio cov unc sel as best = Inr (b, q) \<and> (b = None \<longrightarrow> q = - 1) \<and>
    (b = None \<longleftrightarrow> fst best = None \<and> (\<forall>a\<in>set as. a \<in> set sel \<or> cov a \<inter> unc = {}))"
  using assms
proof (induction cov unc sel as best rule: best_ratio.induct)
  case (1 cov unc sel best)
  then show ?case by (cases best) auto
next
  case (2 cov unc sel a as best)
  show ?case
  proof (cases "a \<in> set sel \<or> cov a \<inter> unc = {}")
    case True
    with 2 show ?thesis by auto
  next
    case False
    let ?ratio = "of_nat (card (cov a \<inter> unc)) / (action_cost a + epsilon)"
    let ?best = "if snd best < ?ratio then (Some a, ?ratio) else best"
    have pos: "0 < action_cost a + epsilon" using 2(5) by (auto simp: epsilon_def intro: add_nonneg_pos)
    have "0 < card (cov a \<inter> unc)" using False 2(4) by (simp add: card_gt_0_iff)
    with pos have "0 < ?ratio" by simp
    then have some: "fst ?best \<noteq> None" using 2(6) by auto
    have "\<exists>b q. best_ratio cov unc sel as ?best = Inr (b, q) \<and> (b = None \<longrightarrow> q = - 1) \<and>
        (b = None \<longleftrightarrow> fst ?best = None \<and> (\<forall>a\<in>set as. a \<in> set sel \<or> cov a \<inter> unc = {}))"
      using 2(3) [of ?ratio] False pos 2(4,5) some by auto
    with False pos some show ?thesis by (auto simp: Let_def)
  qed
qed

lemma greedy_complete:
  assumes "\<forall>a\<in>set useful. 0 \<le> action_cost a"
    and "\<forall>i\<in>set unc. \<exists>a\<in>set useful. i \<in> cov a" "\<forall>a\<in>set sel. cov a \<inter> set unc = {}"
  shows "\<exists>sel'. greedy cov useful unc sel = Inr (sel', [])"
  using assms
proof (induction cov useful unc sel rule: greedy.induct)
  case (1 cov useful unc sel)
  show ?case
  proof (cases "unc = []")
    case True
    then show ?thesis by (simp add: greedy.simps)
  next
    case False
    then obtain i where i: "i \<in> set unc" by (cases unc) auto
    with 1(3) obtain c where c: "c \<in> set useful" "i \<in> cov c" by blast
    with i 1(4) have "c \<notin> set sel" by auto
    obtain b q where b: "best_ratio cov (set unc) sel useful (None, - 1) = Inr (b, q)"
      "b = None \<longleftrightarrow> (\<forall>a\<in>set useful. a \<in> set sel \<or> cov a \<inter> set unc = {})"
      using best_ratio_total [of "set unc" useful "(None, - 1)" cov sel] 1(2) by auto
    with c i \<open>c \<notin> set sel\<close> obtain a where a: "b = Some a" by (cases b) auto
    have "\<exists>sel'. greedy cov useful (filter (\<lambda>i. i \<notin> cov a) unc) (sel @ [a]) = Inr (sel', [])"
      by (rule 1(1) [OF False b(1) refl a]) (use 1(2,3,4) in auto)
    then show ?thesis using False b(1) a by (simp add: greedy.simps [of cov useful unc])
  qed
qed

lemma greedy_total:
  assumes "\<forall>a\<in>set useful. 0 \<le> action_cost a"
  shows "\<exists>r. greedy cov useful unc sel = Inr r"
  using assms
proof (induction cov useful unc sel rule: greedy.induct)
  case (1 cov useful unc sel)
  obtain b q where b: "best_ratio cov (set unc) sel useful (None, - 1) = Inr (b, q)"
    using best_ratio_total [of "set unc" useful "(None, - 1)" cov sel] 1(2) by auto
  with 1 show ?case
    by (cases b; cases "unc = []") (auto simp: greedy.simps [of cov useful unc])
qed

subsection \<open>The cut\<close>

text \<open>The selection of \<open>optimize\<close> and its method, before the cut is built.\<close>

definition useful_actions :: "cut_action list \<Rightarrow> string list list \<Rightarrow> cut_action list" where
  "useful_actions available paths = filter (\<lambda>a. coverage (action_coverage available paths) a \<noteq> {}) available"

lemma blocks_useful:
  assumes "distinct (map ca_action_id available)" "C \<subseteq> set available" "blocks C paths"
  shows "blocks (C \<inter> set (useful_actions available paths)) paths"
proof -
  have "a \<in> set (useful_actions available paths)" if "a \<in> C" "p \<in> set paths" "ca_target_component a \<in> set p" for a p
  proof -
    from that(2) obtain i where "i < length paths" "p = paths ! i" by (auto simp: in_set_conv_nth)
    then show ?thesis using coverage_hits [OF assms(1), of a paths] that assms(2) by (auto simp: useful_actions_def)
  qed
  with assms(3) show ?thesis unfolding blocks_def by blast
qed

lemma exact_search_spec:
  assumes "distinct (map ca_action_id available)" "paths \<noteq> []" "\<forall>a\<in>set available. 0 \<le> action_cost a"
  defines "r \<equiv> exact_search (coverage (action_coverage available paths)) (length paths) (useful_actions available paths)"
  shows "case r of
      None \<Rightarrow> \<not> blocks (set available) paths
    | Some c \<Rightarrow> c \<noteq> [] \<and> set c \<subseteq> set available \<and> blocks (set c) paths \<and>
        (\<forall>C\<subseteq>set available. blocks C paths \<longrightarrow> cost_of c \<le> (\<Sum>a\<in>C. action_cost a))"
proof -
  let ?useful = "useful_actions available paths" and ?cov = "coverage (action_coverage available paths)"
  have sub: "set ?useful \<subseteq> set available" by (auto simp: useful_actions_def)
  have cov: "covers ?cov (length paths) c \<longleftrightarrow> blocks (set c) paths" if "c \<in> set (subseqs ?useful)" for c
    using set_subseqs_le [OF that] sub by (intro covers_iff_blocks [OF assms(1)]) auto
  have dist: "distinct ?useful"
    using assms(1) distinct_map [of ca_action_id available] by (simp add: useful_actions_def)
  have found: "\<exists>c'\<in>set (subseqs ?useful) - {[]}. covers ?cov (length paths) c' \<and> cost_of c' \<le> (\<Sum>a\<in>C. action_cost a)"
    if C: "C \<subseteq> set available" "blocks C paths" for C
  proof -
    obtain c' where c': "c' \<in> set (subseqs ?useful)" "set c' = C \<inter> set ?useful"
      using subseqs_powset [of ?useful] by (metis Int_lower2 PowI imageE)
    have b: "blocks (set c') paths" unfolding c'(2) by (rule blocks_useful [OF assms(1) C])
    then have "c' \<noteq> []" using assms(2) by (cases paths) (auto simp: blocks_def)
    moreover have "cost_of c' = (\<Sum>a\<in>set c'. action_cost a)"
      unfolding cost_of_def using subseqs_distinctD [OF c'(1) dist] by (rule sum_list_distinct_conv_sum_set)
    moreover have "\<dots> \<le> (\<Sum>a\<in>C. action_cost a)"
      unfolding c'(2) using C(1) assms(3) by (intro sum_mono2) (auto intro: finite_subset)
    ultimately show ?thesis using b cov [OF c'(1)] c'(1) by auto
  qed
  show ?thesis
  proof (cases r)
    case None
    with exact_search_best [where cov = ?cov and n = "length paths" and useful = ?useful]
    have "\<forall>c\<in>set (subseqs ?useful) - {[]}. \<not> covers ?cov (length paths) c" by (simp add: r_def)
    with found [of "set available"] show ?thesis by (auto simp: None)
  next
    case (Some c)
    with exact_search_best [where cov = ?cov and n = "length paths" and useful = ?useful]
    have c: "c \<in> set (subseqs ?useful) - {[]}" "covers ?cov (length paths) c"
      "\<forall>c'\<in>set (subseqs ?useful) - {[]}. covers ?cov (length paths) c' \<longrightarrow> cost_of c \<le> cost_of c'"
      by (simp_all add: r_def)
    have "cost_of c \<le> (\<Sum>a\<in>C. action_cost a)" if "C \<subseteq> set available" "blocks C paths" for C
      using found [OF that] c(3) by (meson order_trans)
    moreover have "set c \<subseteq> set available" "blocks (set c) paths"
      using c set_subseqs_le [of c ?useful] sub cov by auto
    ultimately show ?thesis using c(1) by (simp add: Some)
  qed
qed

lemma greedy_spec:
  assumes "distinct (map ca_action_id available)" "paths \<noteq> []" "\<forall>a\<in>set available. 0 \<le> action_cost a"
  shows "\<exists>sel unc. greedy (coverage (action_coverage available paths)) (useful_actions available paths) [0..<length paths] [] = Inr (sel, unc) \<and>
    set sel \<subseteq> set available \<and> (unc = [] \<longleftrightarrow> blocks (set available) paths) \<and> (unc = [] \<longrightarrow> sel \<noteq> [] \<and> blocks (set sel) paths)"
proof -
  let ?useful = "useful_actions available paths" and ?cov = "coverage (action_coverage available paths)"
  have sub: "set ?useful \<subseteq> set available" by (auto simp: useful_actions_def)
  obtain sel unc where g: "greedy ?cov ?useful [0..<length paths] [] = Inr (sel, unc)"
    using greedy_total [of ?useful ?cov] sub assms(3) by fastforce
  have s: "set sel \<subseteq> set available" "unc = [] \<Longrightarrow> \<forall>i<length paths. \<exists>a\<in>set sel. i \<in> ?cov a"
    using greedy_sound [OF g] sub by auto
  have b: "blocks (set sel) paths" if "unc = []"
    using s(2) [OF that] s(1) coverage_hits [OF assms(1)] unfolding blocks_def all_set_conv_all_nth by blast
  have "unc = []" if "blocks (set available) paths"
  proof -
    have "\<exists>a\<in>set ?useful. i \<in> ?cov a" if "i < length paths" for i
      using blocks_useful [OF assms(1) subset_refl \<open>blocks (set available) paths\<close>] that sub
        coverage_hits [OF assms(1)] unfolding blocks_def all_set_conv_all_nth by blast
    then have "\<exists>sel'. greedy ?cov ?useful [0..<length paths] [] = Inr (sel', [])"
      using sub assms(3) by (intro greedy_complete) auto
    with g show ?thesis by auto
  qed
  moreover have "blocks (set available) paths" if "unc = []"
    using b [OF that] s(1) unfolding blocks_def by blast
  moreover have "sel \<noteq> []" if "unc = []"
    using b [OF that] assms(2) by (cases paths) (auto simp: blocks_def)
  ultimately show ?thesis using g s(1) b by blast
qed

lemma optimize_spec:
  assumes "distinct (map ca_action_id available)" "\<forall>a\<in>set available. 0 \<le> action_cost a"
  shows "\<exists>rcut. optimize E now rid available paths sources targets = Inr rcut \<and>
    (if blocks (set available) paths
     then set (rc_selected_actions rcut) \<subseteq> set available \<and> blocks (set (rc_selected_actions rcut)) paths \<and>
       rc_blocked_paths rcut = paths \<and> rc_residual_paths rcut = []
     else rc_selected_actions rcut = [] \<and> rc_blocked_paths rcut = [] \<and> rc_residual_paths rcut = paths) \<and>
    (rc_optimization_method rcut = EXACT \<longrightarrow>
      (\<forall>C\<subseteq>set available. blocks C paths \<longrightarrow> cost_of (rc_selected_actions rcut) \<le> (\<Sum>a\<in>C. action_cost a)))"
proof (cases "paths = []")
  case True
  moreover have "0 \<le> (\<Sum>a\<in>C. action_cost a)" if "C \<subseteq> set available" for C
    using that assms(2) by (intro sum_nonneg) auto
  ultimately show ?thesis by (simp add: optimize_def Let_def build_cut_def blocks_def cost_of_def)
next
  case False
  let ?cov = "coverage (action_coverage available paths)" and ?useful = "useful_actions available paths"
  show ?thesis
  proof (cases "length (all_combos ?useful) \<le> MAX_EXACT_COMBINATIONS")
    case True
    then have o: "optimize E now rid available paths sources targets =
        (let sel = (case exact_search ?cov (length paths) ?useful of None \<Rightarrow> [] | Some c \<Rightarrow> c) in
         Inr (if sel \<noteq> [] then build_cut E now rid sel paths [] sources targets EXACT
              else build_cut E now rid sel [] paths sources targets EXACT))"
      using False by (simp add: optimize_def Let_def useful_actions_def)
    have mono: "blocks (set available) paths" if "C \<subseteq> set available" "blocks C paths" for C
      using that unfolding blocks_def by blast
    from exact_search_spec [OF assms(1) False assms(2)] mono show ?thesis
      unfolding o by (auto simp: Let_def build_cut_def split: option.splits)
  next
    case approx: False
    obtain sel unc where g: "greedy ?cov ?useful [0..<length paths] [] = Inr (sel, unc)"
      "set sel \<subseteq> set available" "unc = [] \<longleftrightarrow> blocks (set available) paths"
      "unc = [] \<longrightarrow> sel \<noteq> [] \<and> blocks (set sel) paths"
      using greedy_spec [OF assms(1) False assms(2)] by blast
    then have "optimize E now rid available paths sources targets =
        Inr (if unc = [] then build_cut E now rid sel paths [] sources targets APPROXIMATE
             else build_cut E now rid [] [] paths sources targets APPROXIMATE)"
      using False approx by (simp add: optimize_def Let_def useful_actions_def)
    with g(2-4) show ?thesis by (auto simp: build_cut_def)
  qed
qed

text \<open>
  For actions with distinct identifiers and costs that are not negative, the optimizer always returns a cut.
  When the available actions can block every failure path at all, the selected ones are
  available and block every path, and no path is left; otherwise nothing is selected and every path is reported as residual.
  When the search was exact, no set of available actions that blocks every path is cheaper.
\<close>

theorem optimize_blocks_or_reports:
  assumes "distinct (map ca_action_id available)" "\<forall>a\<in>set available. 0 \<le> action_cost a"
  shows "\<exists>rcut. optimize E now rid available paths sources targets = Inr rcut \<and>
    (if blocks (set available) paths
     then set (rc_selected_actions rcut) \<subseteq> set available \<and> blocks (set (rc_selected_actions rcut)) paths \<and>
       rc_blocked_paths rcut = paths \<and> rc_residual_paths rcut = []
     else rc_selected_actions rcut = [] \<and> rc_blocked_paths rcut = [] \<and> rc_residual_paths rcut = paths) \<and>
    (rc_optimization_method rcut = EXACT \<longrightarrow>
      (\<forall>C\<subseteq>set available. blocks C paths \<longrightarrow> cost_of (rc_selected_actions rcut) \<le> (\<Sum>a\<in>C. action_cost a)))"
  by (rule optimize_spec [OF assms])

subsection \<open>Soundness of a cut\<close>

text \<open>Without any assumption on the identifiers: what the table says of an action holds of an available one of its identifier.\<close>

lemma coverage_fold_sound:
  assumes "map_of (fold (\<lambda>a d. dict_put (ca_action_id a) (hits paths a) d) acts d) k = Some is"
  shows "map_of d k = Some is \<or> (\<exists>b\<in>set acts. ca_action_id b = k \<and> is = hits paths b)"
  using assms
proof (induction acts arbitrary: d)
  case (Cons b acts)
  then show ?case by (fastforce split: if_splits)
qed simp

lemma coverage_sound:
  assumes "i \<in> coverage (action_coverage acts paths) a"
  shows "i < length paths \<and> (\<exists>b\<in>set acts. ca_action_id b = ca_action_id a \<and> ca_target_component b \<in> set (paths ! i))"
proof -
  obtain xs where xs: "map_of (action_coverage acts paths) (ca_action_id a) = Some xs" "i \<in> set xs"
    using assms by (auto simp: coverage_def split: option.splits)
  from coverage_fold_sound [OF xs(1) [unfolded action_coverage_def]] xs(2) show ?thesis by (auto simp: hits_def)
qed

lemma exact_search_sound:
  assumes "exact_search (coverage (action_coverage available paths)) (length paths) useful = Some c" "i < length paths"
  shows "set c \<subseteq> set useful \<and> (\<exists>a\<in>set c. i \<in> coverage (action_coverage available paths) a)"
proof -
  let ?U = "\<Union>(set (map (coverage (action_coverage available paths)) c))"
  have c: "c \<in> set (subseqs useful)" "card ?U = length paths"
    using exact_search_best [where cov = "coverage (action_coverage available paths)" and n = "length paths" and useful = useful] assms(1)
    by (auto simp: covers_def)
  have "?U \<subseteq> {0..<length paths}" using coverage_sound by fastforce
  then have "?U = {0..<length paths}" using c(2) by (intro card_subset_eq) simp_all
  with assms(2) have "i \<in> ?U" by simp
  then show ?thesis using set_subseqs_le [OF c(1)] by auto
qed

lemma optimize_sound:
  assumes "optimize E now rid available paths sources targets = Inr rcut" "rc_residual_paths rcut = []" "i < length paths"
  shows "\<exists>a\<in>set (rc_selected_actions rcut). a \<in> set available \<and> i \<in> coverage (action_coverage available paths) a"
proof -
  let ?cov = "coverage (action_coverage available paths)" and ?useful = "useful_actions available paths"
  have sub: "set ?useful \<subseteq> set available" and ne: "paths \<noteq> []" using assms(3) by (auto simp: useful_actions_def)
  show ?thesis
  proof (cases "length (all_combos ?useful) \<le> MAX_EXACT_COMBINATIONS")
    case True
    then have "rc_selected_actions rcut \<noteq> [] \<and>
        exact_search ?cov (length paths) ?useful = Some (rc_selected_actions rcut)"
      using assms(1,2) ne
      by (auto simp: optimize_def Let_def useful_actions_def build_cut_def split: option.splits if_splits)
    then show ?thesis using exact_search_sound [OF _ assms(3)] sub by blast
  next
    case False
    obtain sel unc where g: "greedy ?cov ?useful [0..<length paths] [] = Inr (sel, unc)"
      using assms(1) ne False by (auto simp: optimize_def Let_def useful_actions_def rbind_Inr_iff split: if_splits)
    then have "unc = []" "rc_selected_actions rcut = sel"
      using assms(1,2) ne False by (auto simp: optimize_def Let_def useful_actions_def build_cut_def split: if_splits)
    then show ?thesis using greedy_sound [OF g] assms(3) sub by (auto simp: subset_iff)
  qed
qed

text \<open>
  C9. A cut with no residual path really cuts the graph, for every list of available actions: whatever route a failure takes
  along the edges of the graph from one of the fault sources to one of the failure targets, it passes a component that an
  available action with the identifier of a selected one acts on. That is the selected action itself whenever the
  available actions of one identifier act on one component, in particular when the identifiers are
  distinct; nothing in the code enforces this, and where it fails a cut may report no residual path and miss a failure
  (\<open>repeated_identifier_misses\<close> below). Nothing is assumed of the costs.
\<close>

theorem cut_blocks_every_failure:
  assumes "set starts = fs_node_id ` set sources"
    and "optimize E now rid available (enumerate_paths g starts targets) sources targets = Inr rcut"
    and "rc_residual_paths rcut = []"
    and "failure_path g (fs_node_id ` set sources) (ft_node_id ` set targets) w"
  shows "\<exists>a\<in>set (rc_selected_actions rcut). a \<in> set available \<and>
    (\<exists>b\<in>set available. ca_action_id b = ca_action_id a \<and> ca_target_component b \<in> set w) \<and>
    ((\<forall>b\<in>set available. ca_action_id b = ca_action_id a \<longrightarrow> ca_target_component b = ca_target_component a) \<longrightarrow>
       ca_target_component a \<in> set w)"
proof -
  let ?paths = "enumerate_paths g starts targets"
  obtain p where p: "p \<noteq> []" "hd p = hd w" "last p = last w" "successively (edge_of g) p" "distinct p" "set p \<subseteq> set w"
    using walk_contains_path [of w "edge_of g"] assms(4) by (auto simp: failure_path_def)
  then have "p \<in> set ?paths"
    using assms(1,4) by (auto simp: set_enumerate_paths failure_path_def)
  then obtain i where i: "i < length ?paths" "?paths ! i = p" by (auto simp: in_set_conv_nth)
  obtain a where a: "a \<in> set (rc_selected_actions rcut)" "a \<in> set available" "i \<in> coverage (action_coverage available ?paths) a"
    using optimize_sound [OF assms(2,3) i(1)] by blast
  from coverage_sound [OF a(3)] i(2) obtain b where
    b: "b \<in> set available" "ca_action_id b = ca_action_id a" "ca_target_component b \<in> set p" by auto
  have "ca_target_component b \<in> set w" using b(3) p(6) by (rule subsetD [rotated])
  with a(1,2) b(1,2) show ?thesis by metis
qed

subsection \<open>A graph with one bottleneck\<close>

definition line_graph :: causal_graph where
  "line_graph = \<lparr>cg_tenant_id = ''t'', cg_run_id = ''r'',
     cg_nodes = map (\<lambda>x. mk_node 0 x NtTool x) [''a'', ''b'', ''c''],
     cg_edges = [mk_edge ''a'' ''b'' CONTROL_FLOW [], mk_edge ''b'' ''c'' CONTROL_FLOW [], mk_edge ''b'' ''a'' CONTROL_FLOW []],
     cg_builder_version = BUILDER_VERSION, cg_trace_digest = [], cg_graph_hash = [], cg_created_at = 0\<rparr>"

definition line_action :: cut_action where
  "line_action = \<lparr>ca_action_id = ''x'', ca_target_component = ''b'', ca_action_type = ''ISOLATE'', ca_replacement = None,
     ca_change_cost = 1, ca_blast_radius = 0, ca_regression_risk = 0, ca_expected_downtime = 0,
     ca_reversibility = True, ca_required_capability = None, ca_metadata = []\<rparr>"

definition line_source :: fault_source where "line_source = \<lparr>fs_node_id = ''a'', fs_probability = 1\<rparr>"

definition line_target :: failure_target where
  "line_target = \<lparr>ft_node_id = ''c'', ft_failure_type = [], ft_severity = [], ft_evidence = []\<rparr>"

definition cut_env :: env where
  "cut_env = \<lparr>sha256 = (\<lambda>m. m), float_repr = ratio_repr, iso = int_str,
     ed25519_verify = (\<lambda>_ _ _. EdInvalidSignature), ed25519_sign = (\<lambda>k m. k @ m),
     hmac_sha256 = (\<lambda>k m. k @ m), b64_encode = (\<lambda>x. x), b64_decode = Some\<rparr>"

lemma line_paths: "enumerate_paths line_graph [''a''] [line_target] = [[''a'', ''b'', ''c'']]"
  by (simp add: enumerate_paths_def line_graph_def line_target_def mk_node_def mk_edge_def adj_list_def path_adj_def
      neighbours_def pushes_def)

lemma line_actions_ok: "distinct (map ca_action_id [line_action])" "\<forall>a\<in>set [line_action]. 0 \<le> action_cost a"
  by (simp_all add: line_action_def action_cost_def)

lemma line_blocked: "blocks (set [line_action]) [[''a'', ''b'', ''c'']]"
  by (simp add: blocks_def line_action_def)

theorem optimize_blocks_or_reports_witness:
  "\<exists>rcut. optimize cut_env 0 ''id'' [line_action] [[''a'', ''b'', ''c'']] [line_source] [line_target] = Inr rcut \<and>
     rc_residual_paths rcut = []"
  using optimize_blocks_or_reports [OF line_actions_ok, of cut_env 0 "''id''" "[[''a'', ''b'', ''c'']]" "[line_source]" "[line_target]"]
    line_blocked by auto

theorem cut_blocks_every_failure_witness:
  "\<exists>rcut. optimize cut_env 0 ''id'' [line_action] (enumerate_paths line_graph [''a''] [line_target]) [line_source] [line_target] = Inr rcut \<and>
     (\<exists>a\<in>set (rc_selected_actions rcut). ca_target_component a \<in> set [''a'', ''b'', ''a'', ''b'', ''c''])"
proof -
  have starts: "set [''a''] = fs_node_id ` set [line_source]" by (simp add: line_source_def)
  obtain rcut where c: "optimize cut_env 0 ''id'' [line_action] (enumerate_paths line_graph [''a''] [line_target])
      [line_source] [line_target] = Inr rcut" "rc_residual_paths rcut = []"
    using optimize_spec [OF line_actions_ok, of cut_env 0 "''id''" "[[''a'', ''b'', ''c'']]" "[line_source]" "[line_target]"]
      line_blocked by (auto simp: line_paths)
  have w: "failure_path line_graph (fs_node_id ` set [line_source]) (ft_node_id ` set [line_target]) [''a'', ''b'', ''a'', ''b'', ''c'']"
    by (simp add: failure_path_def line_graph_def line_source_def line_target_def edge_of_def mk_node_def mk_edge_def)
  from cut_blocks_every_failure [OF starts c w] c(1) show ?thesis by auto
qed

text \<open>
  The table of coverage is keyed by identifiers: with two available actions of one identifier, the first of which acts on a component
  off every path, the first is selected for the coverage of the second, and the cut reports that nothing is left.
\<close>

lemma repeated_identifier_misses:
  "case optimize cut_env 0 ''id'' [line_action\<lparr>ca_target_component := ''z''\<rparr>, line_action]
       [[''a'', ''b'', ''c'']] [line_source] [line_target] of
     Inl e \<Rightarrow> False
   | Inr rcut \<Rightarrow> rc_residual_paths rcut = [] \<and> rc_blocked_paths rcut = [[''a'', ''b'', ''c'']] \<and>
       map ca_target_component (rc_selected_actions rcut) = [''z'']"
  by code_simp

end
