(* ===== verification/Divergence_Validator.thy ===== *)
theory Divergence_Validator
  imports Crypto_Env
begin

section \<open>Divergence of a replay from the original execution\<close>

text \<open>
  \<open>packages/replay/src/divergence_validator.py\<close> and the \<open>DivergenceReport\<close> of \<open>contracts/src/interfaces.py\<close>. A replay is
  compared with the original execution node by node, in the order of the node identifiers: intervened nodes may
  change, frozen nodes must keep their hash, a change of a forbidden node stops the comparison, and every other
  change needs a tolerance rule or the permission of an allowed descendant. Outputs are JSON values; the hashes are
  those of \<open>json.dumps(..., sort_keys=True)\<close>.

  Three functions of Python's library are parameters, fields of the record \<open>pytext\<close>: the reading of a float from a text
  (\<open>None\<close> where \<open>float\<close> raises), \<open>json.loads\<close> (\<open>None\<close> where it raises) and the ratio of
  \<open>difflib.SequenceMatcher\<close>. Texts of reasons are constructors.
\<close>

record pytext =
  float_of_text :: "string \<Rightarrow> rat option"
  json_loads :: "string \<Rightarrow> json option"
  seq_ratio :: "string \<Rightarrow> string \<Rightarrow> rat"

subsection \<open>Python values\<close>

text \<open>\<open>str\<close> of a JSON value: a string as it is, everything else as its \<open>repr\<close>.\<close>

fun repr_json :: "(rat \<Rightarrow> string) \<Rightarrow> json \<Rightarrow> string" where
  "repr_json fr JNull = ''None''"
| "repr_json fr (JBool b) = (if b then ''True'' else ''False'')"
| "repr_json fr (JInt i) = int_str i"
| "repr_json fr (JFloat q) = fr q"
| "repr_json fr (JStr s) = py_repr s"
| "repr_json fr (JList xs) = ''['' @ py_join '', '' (map (repr_json fr) xs) @ '']''"
| "repr_json fr (JObj kvs) =
     ''{'' @ py_join '', '' (map (\<lambda>kv. py_repr (fst kv) @ '': '' @ repr_json fr (snd kv)) kvs) @ ''}''"

definition py_str :: "(rat \<Rightarrow> string) \<Rightarrow> json \<Rightarrow> string" where
  "py_str fr v = (case v of JStr s \<Rightarrow> s | _ \<Rightarrow> repr_json fr v)"

text \<open>The truth value of a JSON value.\<close>

fun json_truthy :: "json \<Rightarrow> bool" where
  "json_truthy JNull = False"
| "json_truthy (JBool b) = b"
| "json_truthy (JInt i) = (i \<noteq> 0)"
| "json_truthy (JFloat q) = (q \<noteq> 0)"
| "json_truthy (JStr s) = (s \<noteq> [])"
| "json_truthy (JList xs) = (xs \<noteq> [])"
| "json_truthy (JObj kvs) = (kvs \<noteq> [])"

text \<open>\<open>float(v)\<close>: \<open>None\<close> stands for the \<open>TypeError\<close> or \<open>ValueError\<close>. A bool is an int.\<close>

definition py_float :: "pytext \<Rightarrow> json \<Rightarrow> rat option" where
  "py_float P v = (case v of JBool b \<Rightarrow> Some (if b then 1 else 0) | JInt i \<Rightarrow> Some (of_int i) | JFloat q \<Rightarrow> Some q
     | JStr s \<Rightarrow> float_of_text P s | _ \<Rightarrow> None)"

text \<open>\<open>str.split()\<close>: the maximal runs of characters that are not white space.\<close>

fun py_split_acc :: "string \<Rightarrow> string \<Rightarrow> string list" where
  "py_split_acc w [] = (if w = [] then [] else [rev w])"
| "py_split_acc w (c # cs) =
     (if is_space c then (if w = [] then py_split_acc [] cs else rev w # py_split_acc [] cs) else py_split_acc (c # w) cs)"

definition py_split :: "string \<Rightarrow> string list" where
  "py_split s = py_split_acc [] s"

text \<open>The elements of a Python set: numbers are equal across \<open>bool\<close>, \<open>int\<close> and \<open>float\<close>; lists and dicts are not hashable.\<close>

fun set_element :: "json \<Rightarrow> json option" where
  "set_element (JBool b) = Some (JFloat (if b then 1 else 0))"
| "set_element (JInt i) = Some (JFloat (of_int i))"
| "set_element (JList _) = None"
| "set_element (JObj _) = None"
| "set_element v = Some v"

fun all_some :: "'a option list \<Rightarrow> 'a list option" where
  "all_some [] = Some []"
| "all_some (None # xs) = None"
| "all_some (Some x # xs) = map_option ((#) x) (all_some xs)"

definition stable_hash :: "env \<Rightarrow> json \<Rightarrow> string" where
  "stable_hash E v = sha256 E (utf8 (dumps default_style (float_repr E) v))"

subsection \<open>Tolerance rules\<close>

datatype tol_failure =
    NoRule | ExactMismatch | KeysMismatch | InvalidJson | JaccardBelow rat rat | JaccardError
  | TextBelow rat rat | TextError | DeltaExceeds rat rat | DeltaFallback | UnknownTolerance json

datatype div_error = AttributeError | ThresholdError

text \<open>A missing rule, and a rule that is \<open>None\<close>, mean an exact match.\<close>

definition dict_get :: "string \<Rightarrow> (string \<times> json) list \<Rightarrow> json" where
  "dict_get k d = (case map_of d k of Some v \<Rightarrow> v | None \<Rightarrow> JNull)"

definition rule_for :: "string \<Rightarrow> (string \<times> json) list \<Rightarrow> json" where
  "rule_for node_id constraints =
     (case map_of constraints node_id of Some v \<Rightarrow> v | None \<Rightarrow> dict_get ''*'' constraints)"

definition object_keys :: "json \<Rightarrow> string set option" where
  "object_keys v = (case v of JObj kvs \<Rightarrow> Some (fst ` set kvs) | _ \<Rightarrow> None)"

definition read_object :: "pytext \<Rightarrow> json \<Rightarrow> json option" where
  "read_object P v = (case v of JStr s \<Rightarrow> json_loads P s | _ \<Rightarrow> Some v)"

definition semantic_json :: "pytext \<Rightarrow> json \<Rightarrow> json \<Rightarrow> tol_failure option" where
  "semantic_json P a b =
     (case (Option.bind (read_object P a) object_keys, Option.bind (read_object P b) object_keys) of
        (Some x, Some y) \<Rightarrow> if x \<noteq> y then Some KeysMismatch else None
      | _ \<Rightarrow> Some InvalidJson)"

text \<open>\<open>_flatten_to_set\<close>: \<open>None\<close> where it raises.\<close>

definition member_texts :: "(rat \<Rightarrow> string) \<Rightarrow> (string \<times> json) list \<Rightarrow> json list" where
  "member_texts fr kvs = map (\<lambda>(k, v). JStr (k @ '':'' @ py_str fr v)) kvs"

definition flatten_to_set :: "(rat \<Rightarrow> string) \<Rightarrow> json \<Rightarrow> json set option" where
  "flatten_to_set fr v =
     (case v of
        JObj kvs \<Rightarrow> Some (set (member_texts fr kvs))
      | JList (JObj kvs # xs) \<Rightarrow>
          map_option (\<lambda>ls. set (concat ls))
            (all_some (map (\<lambda>x. case x of JObj m \<Rightarrow> Some (member_texts fr m) | _ \<Rightarrow> None) (JObj kvs # xs)))
      | JList xs \<Rightarrow> map_option set (all_some (map set_element xs))
      | JStr s \<Rightarrow> Some (set (map JStr (py_split s)))
      | _ \<Rightarrow> None)"

definition threshold_of :: "pytext \<Rightarrow> rat \<Rightarrow> (string \<times> json) list \<Rightarrow> rat option" where
  "threshold_of P dflt constraint =
     (case map_of constraint ''threshold'' of None \<Rightarrow> Some dflt | Some v \<Rightarrow> py_float P v)"

definition jaccard_overlap ::
    "pytext \<Rightarrow> (rat \<Rightarrow> string) \<Rightarrow> (string \<times> json) list \<Rightarrow> json \<Rightarrow> json \<Rightarrow> tol_failure option" where
  "jaccard_overlap P fr constraint a b =
     (case (flatten_to_set fr a, flatten_to_set fr b) of
        (Some x, Some y) \<Rightarrow>
          if x = {} \<and> y = {} then None
          else (let overlap = of_nat (card (x \<inter> y)) / of_nat (card (x \<union> y)) in
            case threshold_of P (8/10) constraint of
              None \<Rightarrow> Some JaccardError
            | Some t \<Rightarrow> if overlap < t then Some (JaccardBelow overlap t) else None)
      | _ \<Rightarrow> Some JaccardError)"

definition semantic_text ::
    "pytext \<Rightarrow> (rat \<Rightarrow> string) \<Rightarrow> (string \<times> json) list \<Rightarrow> json \<Rightarrow> json \<Rightarrow> tol_failure option" where
  "semantic_text P fr constraint a b =
     (let similarity = seq_ratio P (py_str fr a) (py_str fr b) in
      case threshold_of P (9/10) constraint of
        None \<Rightarrow> Some TextError
      | Some t \<Rightarrow> if similarity < t then Some (TextBelow similarity t) else None)"

text \<open>Here the threshold is read outside the \<open>try\<close>.\<close>

definition numeric_delta ::
    "env \<Rightarrow> pytext \<Rightarrow> (string \<times> json) list \<Rightarrow> json \<Rightarrow> json \<Rightarrow> (div_error, tol_failure option) result" where
  "numeric_delta E P constraint a b =
     (case threshold_of P 0 constraint of
        None \<Rightarrow> Inl ThresholdError
      | Some t \<Rightarrow>
          Inr (case (py_float P a, py_float P b) of
                 (Some x, Some y) \<Rightarrow> if t < \<bar>x - y\<bar> then Some (DeltaExceeds \<bar>x - y\<bar> t) else None
               | _ \<Rightarrow> if stable_hash E a \<noteq> stable_hash E b then Some DeltaFallback else None))"

definition check_tolerance ::
    "env \<Rightarrow> pytext \<Rightarrow> string \<Rightarrow> json \<Rightarrow> json \<Rightarrow> (string \<times> json) list \<Rightarrow> (div_error, tol_failure option) result" where
  "check_tolerance E P node_id a b constraints =
     (case rule_for node_id constraints of
        JNull \<Rightarrow> Inr (if stable_hash E a \<noteq> stable_hash E b then Some NoRule else None)
      | JObj c \<Rightarrow>
          (let tolerance_type = (case map_of c ''type'' of None \<Rightarrow> JStr ''exact'' | Some t \<Rightarrow> t) in
           if tolerance_type = JStr ''exact''
           then Inr (if stable_hash E a \<noteq> stable_hash E b then Some ExactMismatch else None)
           else if tolerance_type = JStr ''semantic_json'' then Inr (semantic_json P a b)
           else if tolerance_type = JStr ''jaccard_overlap'' then Inr (jaccard_overlap P (float_repr E) c a b)
           else if tolerance_type = JStr ''semantic_text'' then Inr (semantic_text P (float_repr E) c a b)
           else if tolerance_type = JStr ''numeric_delta'' then numeric_delta E P c a b
           else if tolerance_type = JStr ''ignore'' then Inr None
           else Inr (Some (UnknownTolerance tolerance_type)))
      | _ \<Rightarrow> Inl AttributeError)"

subsection \<open>Snapshots\<close>

text \<open>A span is a dict; the keys the validators read, each possibly absent.\<close>

record span =
  sp_span_id :: "string option"
  sp_node_id :: "string option"
  sp_output :: "json option"
  sp_component_type :: "string option"

definition span_node_id :: "span \<Rightarrow> string" where
  "span_node_id s = (case sp_span_id s of Some i \<Rightarrow> i | None \<Rightarrow> (case sp_node_id s of Some i \<Rightarrow> i | None \<Rightarrow> []))"

definition span_output :: "span \<Rightarrow> json" where
  "span_output s = (case sp_output s of Some v \<Rightarrow> v | None \<Rightarrow> JObj [])"

text \<open>A snapshot: node identifier and output; the hash of a node is that of its output.\<close>

type_synonym snapshot = "(string \<times> json) list"

definition from_spans :: "span list \<Rightarrow> snapshot" where
  "from_spans spans =
     fold (\<lambda>s d. if span_node_id s = [] then d else dict_put (span_node_id s) (span_output s) d) spans []"

subsection \<open>The comparison\<close>

record envelope_rules =
  er_intervened :: "string list"
  er_allowed_descendants :: "string list"
  er_forbidden :: "string list"
  er_frozen :: "(string \<times> string) list"
  er_constraints :: "(string \<times> json) list"

datatype node_report =
    Intervened bool
  | FrozenViolation string string
  | Unchanged
  | ForbiddenDivergence string string
  | UnexpectedDivergence tol_failure string string
  | WithinTolerance string string
  | DescendantChanged string string
  | DescendantViolation tol_failure string string

definition node_value :: "snapshot \<Rightarrow> string \<Rightarrow> json" where
  "node_value s n = (case map_of s n of None \<Rightarrow> JNull | Some v \<Rightarrow> v)"

definition state_hash :: "env \<Rightarrow> snapshot \<Rightarrow> string \<Rightarrow> string" where
  "state_hash E s n = (case map_of s n of None \<Rightarrow> [] | Some v \<Rightarrow> stable_hash E v)"

definition descendant_rule :: "string \<Rightarrow> (string \<times> json) list \<Rightarrow> json" where
  "descendant_rule n constraints =
     (if json_truthy (dict_get n constraints) then dict_get n constraints else dict_get ''*'' constraints)"

text \<open>What follows the check of the frozen variables.\<close>

definition classify_change ::
    "env \<Rightarrow> pytext \<Rightarrow> snapshot \<Rightarrow> snapshot \<Rightarrow> envelope_rules \<Rightarrow> string \<Rightarrow> (div_error, node_report) result" where
  "classify_change E P original replay er n =
     (let oh = state_hash E original n; rh = state_hash E replay n;
          tolerance = check_tolerance E P n (node_value original n) (node_value replay n) (er_constraints er) in
      if oh = rh then Inr Unchanged
      else if n \<in> set (er_forbidden er) then Inr (ForbiddenDivergence oh rh)
      else if n \<notin> set (er_allowed_descendants er)
      then rbind tolerance (\<lambda>f. Inr (case f of None \<Rightarrow> WithinTolerance oh rh | Some r \<Rightarrow> UnexpectedDivergence r oh rh))
      else if descendant_rule n (er_constraints er) = JNull then Inr (DescendantChanged oh rh)
      else rbind tolerance (\<lambda>f. Inr (case f of None \<Rightarrow> DescendantChanged oh rh | Some r \<Rightarrow> DescendantViolation r oh rh)))"

definition classify_node ::
    "env \<Rightarrow> pytext \<Rightarrow> snapshot \<Rightarrow> snapshot \<Rightarrow> envelope_rules \<Rightarrow> string \<Rightarrow> (div_error, node_report) result" where
  "classify_node E P original replay er n =
     (let oh = state_hash E original n; rh = state_hash E replay n in
      if n \<in> set (er_intervened er) then Inr (Intervened (oh \<noteq> rh))
      else case map_of (er_frozen er) n of
        Some h \<Rightarrow> if rh \<noteq> h then Inr (FrozenViolation h rh) else classify_change E P original replay er n
      | None \<Rightarrow> classify_change E P original replay er n)"

text \<open>The loop stops after the first forbidden divergence.\<close>

fun is_forbidden_report :: "node_report \<Rightarrow> bool" where
  "is_forbidden_report (ForbiddenDivergence _ _) = True"
| "is_forbidden_report _ = False"

fun compare_nodes ::
    "(string \<Rightarrow> (div_error, node_report) result) \<Rightarrow> string list \<Rightarrow> (div_error, (string \<times> node_report) list) result" where
  "compare_nodes f [] = Inr []"
| "compare_nodes f (n # ns) =
     rbind (f n) (\<lambda>r. if is_forbidden_report r then Inr [(n, r)]
       else rbind (compare_nodes f ns) (\<lambda>rs. Inr ((n, r) # rs)))"

record divergence_report =
  dr_valid :: bool
  dr_per_node :: "(string \<times> node_report) list"
  dr_early_terminated :: bool
  dr_violated_frozen :: "string list"
  dr_violated_forbidden :: "string list"

fun is_frozen_report :: "node_report \<Rightarrow> bool" where
  "is_frozen_report (FrozenViolation _ _) = True"
| "is_frozen_report _ = False"

fun is_unexpected_report :: "node_report \<Rightarrow> bool" where
  "is_unexpected_report (UnexpectedDivergence _ _ _) = True"
| "is_unexpected_report _ = False"

fun is_descendant_report :: "node_report \<Rightarrow> bool" where
  "is_descendant_report (DescendantViolation _ _ _) = True"
| "is_descendant_report _ = False"

definition report_of :: "(string \<times> node_report) list \<Rightarrow> divergence_report" where
  "report_of rs =
     (let frozen = map fst (filter (\<lambda>(n, r). is_frozen_report r) rs);
          forbidden = map fst (filter (\<lambda>(n, r). is_forbidden_report r) rs)
      in \<lparr>dr_valid = (\<not> (frozen \<noteq> [] \<or> forbidden \<noteq> [] \<or> (\<exists>x\<in>set rs. is_unexpected_report (snd x)) \<or>
                        (\<exists>x\<in>set rs. is_descendant_report (snd x)))),
          dr_per_node = rs, dr_early_terminated = (forbidden \<noteq> []),
          dr_violated_frozen = frozen, dr_violated_forbidden = forbidden\<rparr>)"

definition all_node_ids :: "snapshot \<Rightarrow> snapshot \<Rightarrow> string list" where
  "all_node_ids original replay = sort (remdups (map fst original @ map fst replay))"

definition validate_replay ::
    "env \<Rightarrow> pytext \<Rightarrow> snapshot \<Rightarrow> snapshot \<Rightarrow> envelope_rules \<Rightarrow> (div_error, divergence_report) result" where
  "validate_replay E P original replay er =
     rbind (compare_nodes (classify_node E P original replay er) (all_node_ids original replay)) (\<lambda>rs. Inr (report_of rs))"

subsection \<open>The adapter of the orchestrator\<close>

text \<open>
  A replay is a dict. The adapter keeps the first invalid report, or else the first one, in \<open>worst\<close>, and returns
  \<open>worst or DivergenceReport(valid=True, ...)\<close>; the truth value of a report is its \<open>valid\<close>.
\<close>

record replay_result =
  rp_original_spans :: "span list option"
  rp_replay_spans :: "span list option"
  rp_spans :: "span list option"
  rp_status :: "string option"
  rp_actual_cost_usd :: "json option"

definition replay_spans_of :: "replay_result \<Rightarrow> span list" where
  "replay_spans_of r = (case rp_replay_spans r of Some s \<Rightarrow> s
     | None \<Rightarrow> (case rp_spans r of Some s \<Rightarrow> s | None \<Rightarrow> []))"

definition passed_report :: divergence_report where
  "passed_report = \<lparr>dr_valid = True, dr_per_node = [], dr_early_terminated = False, dr_violated_frozen = [],
     dr_violated_forbidden = []\<rparr>"

fun worst_report ::
    "env \<Rightarrow> pytext \<Rightarrow> envelope_rules \<Rightarrow> divergence_report option \<Rightarrow> replay_result list \<Rightarrow>
       (div_error, divergence_report option) result" where
  "worst_report E P er worst [] = Inr worst"
| "worst_report E P er worst (r # rs) =
     rbind (validate_replay E P (from_spans (case rp_original_spans r of Some s \<Rightarrow> s | None \<Rightarrow> []))
              (from_spans (replay_spans_of r)) er) (\<lambda>report.
       worst_report E P er
         (case worst of None \<Rightarrow> Some report
          | Some w \<Rightarrow> if \<not> dr_valid report \<and> dr_valid w then Some report else Some w) rs)"

definition report_truthy :: "divergence_report option \<Rightarrow> bool" where
  "report_truthy r = (case r of None \<Rightarrow> False | Some x \<Rightarrow> dr_valid x)"

definition validate_divergence ::
    "env \<Rightarrow> pytext \<Rightarrow> replay_result list \<Rightarrow> envelope_rules \<Rightarrow> (div_error, divergence_report) result" where
  "validate_divergence E P replays er =
     (if replays = [] then Inr passed_report
      else rbind (worst_report E P er None replays) (\<lambda>worst.
        Inr (if report_truthy worst then the worst else passed_report)))"

subsection \<open>A valid report is exactly a coherent replay\<close>

text \<open>
  The specification: a node that is not intervened keeps a frozen hash, and if its hash changed it is not forbidden
  and the change is permitted, as that of an allowed descendant without a rule or within the tolerance.
\<close>

definition node_coherent ::
    "env \<Rightarrow> pytext \<Rightarrow> snapshot \<Rightarrow> snapshot \<Rightarrow> envelope_rules \<Rightarrow> string \<Rightarrow> bool" where
  "node_coherent E P original replay er n \<longleftrightarrow>
     n \<in> set (er_intervened er) \<or>
     ((\<forall>h. map_of (er_frozen er) n = Some h \<longrightarrow> state_hash E replay n = h) \<and>
      (state_hash E original n = state_hash E replay n \<or>
       n \<notin> set (er_forbidden er) \<and>
       (n \<in> set (er_allowed_descendants er) \<and> descendant_rule n (er_constraints er) = JNull \<or>
        check_tolerance E P n (node_value original n) (node_value replay n) (er_constraints er) = Inr None)))"

fun good_report :: "node_report \<Rightarrow> bool" where
  "good_report (FrozenViolation _ _) = False"
| "good_report (ForbiddenDivergence _ _) = False"
| "good_report (UnexpectedDivergence _ _ _) = False"
| "good_report (DescendantViolation _ _ _) = False"
| "good_report _ = True"

lemma good_report_iff:
  "good_report r \<longleftrightarrow> \<not> is_frozen_report r \<and> \<not> is_forbidden_report r \<and> \<not> is_unexpected_report r \<and> \<not> is_descendant_report r"
  by (cases r) auto

lemma classify_change_good:
  "classify_change E P original replay er n = Inr r \<Longrightarrow> good_report r \<longleftrightarrow>
     state_hash E original n = state_hash E replay n \<or>
     n \<notin> set (er_forbidden er) \<and>
     (n \<in> set (er_allowed_descendants er) \<and> descendant_rule n (er_constraints er) = JNull \<or>
      check_tolerance E P n (node_value original n) (node_value replay n) (er_constraints er) = Inr None)"
  unfolding classify_change_def Let_def
  by (auto simp: rbind_Inr_iff split: if_splits option.splits)

lemma classify_node_good:
  "classify_node E P original replay er n = Inr r \<Longrightarrow> good_report r \<longleftrightarrow> node_coherent E P original replay er n"
  unfolding classify_node_def node_coherent_def Let_def
  by (auto simp: classify_change_good split: if_splits option.splits)

lemma compare_nodes_elems:
  "compare_nodes f ns = Inr rs \<Longrightarrow> (n, r) \<in> set rs \<Longrightarrow> n \<in> set ns \<and> f n = Inr r"
  by (induction ns arbitrary: rs) (auto simp: rbind_Inr_iff split: if_splits)

text \<open>Either every node is compared, or the last report is a forbidden divergence.\<close>

lemma compare_nodes_complete:
  "compare_nodes f ns = Inr rs \<Longrightarrow> map fst rs = ns \<or> (\<exists>x\<in>set rs. is_forbidden_report (snd x))"
  by (induction ns arbitrary: rs) (fastforce simp: rbind_Inr_iff split: if_splits)+

lemma report_valid_iff: "dr_valid (report_of rs) \<longleftrightarrow> (\<forall>x\<in>set rs. good_report (snd x))"
  by (auto simp: report_of_def Let_def filter_empty_conv good_report_iff)

lemma ball_by_fst:
  "(\<And>n r. (n, r) \<in> set rs \<Longrightarrow> G r \<longleftrightarrow> C n) \<Longrightarrow> (\<forall>x\<in>set rs. G (snd x)) \<longleftrightarrow> (\<forall>n\<in>fst ` set rs. C n)"
  by auto

lemma bex_by_fst:
  "(\<And>n r. (n, r) \<in> set rs \<Longrightarrow> G r \<longleftrightarrow> C n) \<Longrightarrow> (\<exists>x\<in>set rs. G (snd x)) \<longleftrightarrow> (\<exists>n\<in>fst ` set rs. C n)"
  by force

lemma validate_valid_iff:
  assumes "validate_replay E P original replay er = Inr rep"
  shows "dr_valid rep \<longleftrightarrow> (\<forall>n\<in>fst ` set original \<union> fst ` set replay. node_coherent E P original replay er n)"
proof -
  obtain rs where rs: "compare_nodes (classify_node E P original replay er) (all_node_ids original replay) = Inr rs"
    "rep = report_of rs"
    using assms by (auto simp: validate_replay_def rbind_Inr_iff)
  have nodes: "set (all_node_ids original replay) = fst ` set original \<union> fst ` set replay"
    by (simp add: all_node_ids_def)
  have each: "n \<in> set (all_node_ids original replay) \<and> (good_report r \<longleftrightarrow> node_coherent E P original replay er n)"
    if "(n, r) \<in> set rs" for n r
    using compare_nodes_elems [OF rs(1) that] classify_node_good by blast
  show ?thesis
  proof (cases "\<exists>x\<in>set rs. is_forbidden_report (snd x)")
    case True
    then obtain n r where x: "(n, r) \<in> set rs" "is_forbidden_report r" by auto
    then have "\<not> good_report r" by (simp add: good_report_iff)
    with x each [OF x(1)] show ?thesis unfolding rs(2) report_valid_iff nodes by force
  next
    case False
    with compare_nodes_complete [OF rs(1)] have "map fst rs = all_node_ids original replay" by blast
    then have "fst ` set rs = fst ` set original \<union> fst ` set replay" by (metis list.set_map nodes)
    moreover have "(\<forall>x\<in>set rs. good_report (snd x)) \<longleftrightarrow> (\<forall>n\<in>fst ` set rs. node_coherent E P original replay er n)"
      by (rule ball_by_fst) (use each in blast)
    ultimately show ?thesis unfolding rs(2) report_valid_iff by simp
  qed
qed

lemma early_iff: "dr_early_terminated (report_of rs) \<longleftrightarrow> (\<exists>x\<in>set rs. is_forbidden_report (snd x))"
  by (force simp: report_of_def Let_def filter_empty_conv)

text \<open>A node whose forbidden divergence would be reported.\<close>

definition forbidden_change :: "env \<Rightarrow> snapshot \<Rightarrow> snapshot \<Rightarrow> envelope_rules \<Rightarrow> string \<Rightarrow> bool" where
  "forbidden_change E original replay er n \<longleftrightarrow>
     n \<in> set (er_forbidden er) \<and> n \<notin> set (er_intervened er) \<and>
     (\<forall>h. map_of (er_frozen er) n = Some h \<longrightarrow> state_hash E replay n = h) \<and> state_hash E original n \<noteq> state_hash E replay n"

lemma classify_forbidden:
  "classify_node E P original replay er n = Inr r \<Longrightarrow>
     is_forbidden_report r \<longleftrightarrow> forbidden_change E original replay er n"
  unfolding classify_node_def classify_change_def forbidden_change_def Let_def
  by (auto simp: rbind_Inr_iff split: if_splits option.splits)

lemma validate_early_iff:
  assumes "validate_replay E P original replay er = Inr rep"
  shows "dr_early_terminated rep \<longleftrightarrow> (\<exists>n\<in>fst ` set original \<union> fst ` set replay. forbidden_change E original replay er n)"
proof -
  obtain rs where rs: "compare_nodes (classify_node E P original replay er) (all_node_ids original replay) = Inr rs"
    "rep = report_of rs"
    using assms by (auto simp: validate_replay_def rbind_Inr_iff)
  have nodes: "set (all_node_ids original replay) = fst ` set original \<union> fst ` set replay"
    by (simp add: all_node_ids_def)
  have each: "n \<in> set (all_node_ids original replay) \<and> (is_forbidden_report r \<longleftrightarrow> forbidden_change E original replay er n)"
    if "(n, r) \<in> set rs" for n r
    using compare_nodes_elems [OF rs(1) that] classify_forbidden by blast
  show ?thesis
  proof (cases "map fst rs = all_node_ids original replay")
    case True
    then have "fst ` set rs = fst ` set original \<union> fst ` set replay" by (metis list.set_map nodes)
    moreover have "(\<exists>x\<in>set rs. is_forbidden_report (snd x)) \<longleftrightarrow> (\<exists>n\<in>fst ` set rs. forbidden_change E original replay er n)"
      by (rule bex_by_fst) (use each in blast)
    ultimately show ?thesis unfolding rs(2) early_iff by simp
  next
    case False
    with compare_nodes_complete [OF rs(1)] have f: "\<exists>x\<in>set rs. is_forbidden_report (snd x)" by blast
    then obtain n r where x: "(n, r) \<in> set rs" "is_forbidden_report r" by auto
    with each [OF x(1)] f show ?thesis unfolding rs(2) early_iff nodes [symmetric] by blast
  qed
qed

text \<open>
  C27. Divergence validation is exact. Where \<open>validate\<close> returns, its report is valid if and only if every node of
  either execution is coherent with the envelope: intervened, or with its frozen hash kept and either unchanged or
  changed where the rules permit it; and it reports an early termination if and only if some node that is forbidden to
  diverge did. That the comparison stops at the first forbidden node, and skips nodes that sort after it, never turns
  an incoherent replay into a valid one.
\<close>

theorem divergence_validation_exact:
  assumes "validate_replay E P original replay er = Inr rep"
  shows "(dr_valid rep \<longleftrightarrow> (\<forall>n\<in>fst ` set original \<union> fst ` set replay. node_coherent E P original replay er n)) \<and>
    (dr_early_terminated rep \<longleftrightarrow>
       (\<exists>n\<in>fst ` set original \<union> fst ` set replay. forbidden_change E original replay er n))"
  using validate_valid_iff [OF assms] validate_early_iff [OF assms] by blast

lemma adapter_always_passes:
  "validate_divergence E P replays er = Inr rep \<Longrightarrow> dr_valid rep"
  by (auto simp: validate_divergence_def passed_report_def rbind_Inr_iff report_truthy_def split: if_splits option.splits)

lemma valid_not_early: "dr_valid (report_of rs) \<Longrightarrow> \<not> dr_early_terminated (report_of rs)"
  by (auto simp: report_of_def Let_def)

lemma worst_report_from:
  "worst_report E P er w rs = Inr v \<Longrightarrow> (\<forall>x. w = Some x \<longrightarrow> (\<exists>l. x = report_of l)) \<Longrightarrow> v = Some y \<Longrightarrow> \<exists>l. y = report_of l"
proof (induction rs arbitrary: w)
  case (Cons r rs)
  then obtain rep where rep: "validate_replay E P (from_spans (case rp_original_spans r of Some s \<Rightarrow> s | None \<Rightarrow> []))
      (from_spans (replay_spans_of r)) er = Inr rep"
    and rest: "worst_report E P er (case w of None \<Rightarrow> Some rep
          | Some w \<Rightarrow> if \<not> dr_valid rep \<and> dr_valid w then Some rep else Some w) rs = Inr v"
    by (auto simp: rbind_Inr_iff)
  from rep have "\<exists>l. rep = report_of l" by (auto simp: validate_replay_def rbind_Inr_iff)
  then show ?case using Cons.prems(2) by (intro Cons.IH [OF rest _ Cons.prems(3)]) (auto split: option.splits if_splits)
qed auto

text \<open>
  C35. The adapter that the orchestrator and the recovery validation call never reports a divergence. The truth
  value of a report is its \<open>valid\<close> field, and the adapter ends with \<open>worst or DivergenceReport(valid=True, ...)\<close>, so a
  report that found a violation is replaced by a passing one: whatever the replays and the envelope, the report that
  is returned is valid, not terminated early, and names no violated node.
\<close>

theorem adapter_never_rejects:
  assumes "validate_divergence E P replays er = Inr rep"
  shows "dr_valid rep \<and> \<not> dr_early_terminated rep \<and> dr_violated_frozen rep = [] \<and> dr_violated_forbidden rep = []"
proof (cases "rep = passed_report")
  case True
  then show ?thesis by (simp add: passed_report_def)
next
  case False
  then obtain w where w: "worst_report E P er None replays = Inr (Some w)" "dr_valid w" "rep = w"
    using assms by (auto simp: validate_divergence_def rbind_Inr_iff report_truthy_def split: if_splits option.splits)
  obtain l where "w = report_of l" using worst_report_from [OF w(1)] by auto
  with w show ?thesis by (auto simp: report_of_def Let_def)
qed

subsection \<open>A replay that diverges\<close>

definition sample_text :: pytext where
  "sample_text = \<lparr>float_of_text = (\<lambda>_. None), json_loads = (\<lambda>_. None), seq_ratio = (\<lambda>_ _. 0)\<rparr>"

definition sample_span :: "string \<Rightarrow> int \<Rightarrow> span" where
  "sample_span n v = \<lparr>sp_span_id = Some n, sp_node_id = None, sp_output = Some (JInt v), sp_component_type = Some n\<rparr>"

definition frozen_rules :: envelope_rules where
  "frozen_rules = \<lparr>er_intervened = [], er_allowed_descendants = [], er_forbidden = [''n''], er_frozen = [],
     er_constraints = []\<rparr>"

definition diverging_replay :: replay_result where
  "diverging_replay = \<lparr>rp_original_spans = Some [sample_span ''n'' 1], rp_replay_spans = Some [sample_span ''n'' 2],
     rp_spans = None, rp_status = Some ''completed'', rp_actual_cost_usd = None\<rparr>"

text \<open>An environment whose hash is the identity.\<close>

definition plain_env :: env where
  "plain_env = \<lparr>sha256 = (\<lambda>x. x), float_repr = ratio_repr, iso = int_str, ed25519_verify = (\<lambda>_ _ _. EdVerified),
     ed25519_sign = (\<lambda>_ x. x), hmac_sha256 = (\<lambda>k m. k @ m), b64_encode = (\<lambda>x. x), b64_decode = Some\<rparr>"

lemma sample_snapshot: "from_spans [sample_span ''n'' v] = [(''n'', JInt v)]"
  by (simp add: from_spans_def span_node_id_def span_output_def sample_span_def)

lemma sample_hash: "state_hash plain_env [(''n'', JInt v)] ''n'' = utf8 (int_str v)"
  by (simp add: state_hash_def stable_hash_def plain_env_def dumps_def)

lemma sample_forbidden: "forbidden_change plain_env [(''n'', JInt 1)] [(''n'', JInt 2)] frozen_rules ''n''"
  unfolding forbidden_change_def sample_hash by (auto simp: frozen_rules_def dest!: utf8_inj inj_int_str)

lemma sample_validate:
  "\<exists>rep. validate_replay plain_env sample_text [(''n'', JInt 1)] [(''n'', JInt 2)] frozen_rules = Inr rep"
proof -
  have "state_hash plain_env [(''n'', JInt 1)] ''n'' \<noteq> state_hash plain_env [(''n'', JInt 2)] ''n''"
    using sample_forbidden by (simp add: forbidden_change_def)
  then show ?thesis
    by (simp add: validate_replay_def all_node_ids_def classify_node_def classify_change_def frozen_rules_def Let_def)
qed

theorem divergence_validation_exact_witness:
  "\<exists>rep. validate_replay plain_env sample_text [(''n'', JInt 1)] [(''n'', JInt 2)] frozen_rules = Inr rep \<and>
     dr_early_terminated rep"
proof -
  obtain rep where rep: "validate_replay plain_env sample_text [(''n'', JInt 1)] [(''n'', JInt 2)] frozen_rules = Inr rep"
    using sample_validate by blast
  from divergence_validation_exact [OF this] sample_forbidden rep show ?thesis by auto
qed

theorem adapter_never_rejects_witness:
  "\<exists>rep. validate_divergence plain_env sample_text [diverging_replay] frozen_rules = Inr rep \<and> dr_valid rep"
proof -
  obtain rep where "validate_replay plain_env sample_text [(''n'', JInt 1)] [(''n'', JInt 2)] frozen_rules = Inr rep"
    using sample_validate by blast
  then obtain rep' where r: "validate_divergence plain_env sample_text [diverging_replay] frozen_rules = Inr rep'"
    by (simp add: validate_divergence_def diverging_replay_def replay_spans_of_def sample_snapshot)
  from adapter_never_rejects [OF this] r show ?thesis by blast
qed

end
