(* ===== verification/Recovery_Validation.thy ===== *)
theory Recovery_Validation
  imports Admission_Receipt Causal_Cut Divergence_Validator
begin

section \<open>Validating a recovery cut\<close>

text \<open>
  \<open>packages/recovery/src/validation.py\<close>, the replay executors of \<open>recovery/src/replay_executor.py\<close>, and the envelope of
  \<open>contracts/src/recovery_models.py\<close> with its HMAC. A cut is replayed in a controlled environment and becomes
  eligible for a canary when its capabilities verify, no failure path is left, the replay succeeded with evidence that
  is not synthetic, the divergence report is valid and the measured metrics keep the invariants.

  The replay executor and the divergence validator are arguments, as they are of the constructor: the synthetic executor and the
  validator that the repository uses by default are modelled, any other is a function that may raise. The secret of the environment and the mode are arguments. The texts of reasons are
  constructors.
\<close>

subsection \<open>The envelope\<close>

record recovery_invariant =
  iv_invariant_id :: string
  iv_scope :: string
  iv_metric :: string
  iv_baseline :: rat
  iv_allowed_deviation :: rat
  iv_severity :: string
  iv_evidence_source :: string

record replay_envelope =
  ee_trace_id :: string
  ee_recovery_cut :: recovery_cut
  ee_invariants :: "recovery_invariant list"
  ee_snapshot_hash :: string
  ee_frozen_variables :: "(string \<times> string) list"
  ee_intervened_variables :: "string list"
  ee_exogenous_variables :: "(string \<times> json) list"
  ee_allowed_causal_descendants :: "string list"
  ee_forbidden_divergence_nodes :: "string list"
  ee_constraints :: "(string \<times> json) list"
  ee_policy_binding :: "string option"
  ee_trusted_time_binding :: "string option"
  ee_sandbox_config :: "(string \<times> json) list"
  ee_schema_version :: string
  ee_graph_hash :: string
  ee_envelope_hash :: string

definition invariant_json :: "recovery_invariant \<Rightarrow> json" where
  "invariant_json i = JObj
     [(''invariant_id'', JStr (iv_invariant_id i)), (''scope'', JStr (iv_scope i)), (''metric'', JStr (iv_metric i)),
      (''baseline'', JFloat (iv_baseline i)), (''allowed_deviation'', JFloat (iv_allowed_deviation i)),
      (''severity'', JStr (iv_severity i)), (''evidence_source'', JStr (iv_evidence_source i))]"

definition opt_json :: "string option \<Rightarrow> json" where
  "opt_json s = (case s of None \<Rightarrow> JNull | Some x \<Rightarrow> JStr x)"

definition envelope_document :: "replay_envelope \<Rightarrow> json" where
  "envelope_document e = JObj
     [(''trace_id'', JStr (ee_trace_id e)), (''snapshot_hash'', JStr (ee_snapshot_hash e)),
      (''frozen_variables'', JObj (map (\<lambda>(k, v). (k, JStr v)) (ee_frozen_variables e))),
      (''intervened_variables'', JList (map JStr (sort (ee_intervened_variables e)))),
      (''exogenous_variables'', JObj (ee_exogenous_variables e)),
      (''allowed_causal_descendants'', JList (map JStr (sort (ee_allowed_causal_descendants e)))),
      (''forbidden_divergence_nodes'', JList (map JStr (sort (ee_forbidden_divergence_nodes e)))),
      (''constraints'', JObj (ee_constraints e)),
      (''invariants'', JList (map invariant_json (ee_invariants e))),
      (''sandbox_config'', JObj (ee_sandbox_config e)), (''graph_hash'', JStr (ee_graph_hash e)),
      (''schema_version'', JStr (ee_schema_version e)), (''policy_binding'', opt_json (ee_policy_binding e)),
      (''trusted_time_binding'', opt_json (ee_trusted_time_binding e)),
      (''recovery_id'', JStr (rc_recovery_id (ee_recovery_cut e)))]"

text \<open>\<open>hexdigest\<close> of the digest bytes.\<close>

definition hexlify :: "string \<Rightarrow> string" where
  "hexlify s = concat (map (\<lambda>c. [hex_digit (of_char c div 16), hex_digit (of_char c mod 16)]) s)"

definition envelope_mac :: "env \<Rightarrow> string \<Rightarrow> replay_envelope \<Rightarrow> string" where
  "envelope_mac E secret e =
     hexlify (hmac_sha256 E (utf8 secret) (utf8 (dumps default_style (float_repr E) (envelope_document e))))"

datatype validation_error =
    SecretMissing | NonAsciiDigest | CapabilityRaised prov_error | DivergenceRaised div_error

definition compute_envelope_hash ::
    "env \<Rightarrow> string option \<Rightarrow> replay_envelope \<Rightarrow> (validation_error, replay_envelope) result" where
  "compute_envelope_hash E secret e =
     (if ee_envelope_hash e \<noteq> [] then Inr e
      else if \<not> truthy secret then Inl SecretMissing
      else Inr (e\<lparr>ee_envelope_hash := envelope_mac E (the secret) e\<rparr>))"

text \<open>The check clears the stored hash, recomputes it in place and compares; \<open>compare_digest\<close> refuses non-ASCII text.\<close>

definition verify_envelope_hash ::
    "env \<Rightarrow> string option \<Rightarrow> replay_envelope \<Rightarrow> (validation_error, bool) result \<times> replay_envelope" where
  "verify_envelope_hash E secret e =
     (let expected = ee_envelope_hash e; cleared = e\<lparr>ee_envelope_hash := []\<rparr> in
      case compute_envelope_hash E secret cleared of
        Inl x \<Rightarrow> (Inl x, cleared)
      | Inr e' \<Rightarrow>
          (if \<exists>c\<in>set (ee_envelope_hash e' @ expected). 128 \<le> (of_char c :: nat) then Inl NonAsciiDigest
           else Inr (ee_envelope_hash e' = expected), e'))"

subsection \<open>Replay executors\<close>

datatype sandbox_outcome =
    SUCCESS | SANDBOX_UNAVAILABLE | SANDBOX_TIMEOUT | SANDBOX_POLICY_VIOLATION | ACTION_UNSUPPORTED
  | EXOGENOUS_CONTROL_FAILURE | REPLAY_EXECUTION_FAILURE | TRACE_CAPTURE_FAILURE

record recovery_replay =
  rx_outcome :: sandbox_outcome
  rx_evidence_kind :: evidence
  rx_new_spans :: "span list"
  rx_metrics :: "(string \<times> rat) list"

text \<open>The synthetic executor rewrites the output of every span of a targeted component.\<close>

definition recovered_output :: "cut_action \<Rightarrow> json" where
  "recovered_output a = JObj [(''status'', JStr ''recovered''), (''action'', JStr (ca_action_type a))]"

definition apply_action :: "cut_action \<Rightarrow> span list \<Rightarrow> span list" where
  "apply_action a spans =
     map (\<lambda>s. if sp_component_type s = Some (ca_target_component a) then s\<lparr>sp_output := Some (recovered_output a)\<rparr> else s) spans"

definition cut_metrics :: "recovery_cut \<Rightarrow> (string \<times> rat) list" where
  "cut_metrics rcut = [(''regression_count'', rc_regression_risk rcut), (''blast_radius'', rc_blast_radius rcut)]"

definition synthetic_replay :: "recovery_cut \<Rightarrow> span list \<Rightarrow> recovery_replay" where
  "synthetic_replay rcut original_spans =
     \<lparr>rx_outcome = SUCCESS, rx_evidence_kind = SYNTHETIC_SIMULATION,
      rx_new_spans = fold apply_action (rc_selected_actions rcut) original_spans, rx_metrics = cut_metrics rcut\<rparr>"

text \<open>
  The local executor builds a pipeline, applies every action and runs it in a sandbox. The pipeline (whether it
  takes patches, and what its execution returns after them) and the sandbox, which may raise, are arguments. What
  the replayed function returns is a dict with an \<open>_error\<close> key or with the results.
\<close>

record pipeline =
  pi_apply_patch :: bool
  pi_execute :: "(string \<times> string option) list \<Rightarrow> (string, span list \<times> (string \<times> rat) list) result"

datatype replay_dict = ErrorDict string | ResultDict "span list" "(string \<times> rat) list"

definition applier_apply :: "pipeline \<Rightarrow> cut_action \<Rightarrow> bool" where
  "applier_apply p a =
     (if ca_action_type a \<in> {''REPLACE'', ''ROLLBACK'', ''RECONFIGURE''} then pi_apply_patch p else False)"

definition replay_fn :: "pipeline \<Rightarrow> recovery_cut \<Rightarrow> replay_dict" where
  "replay_fn p rcut =
     (if \<exists>a\<in>set (rc_selected_actions rcut). \<not> applier_apply p a then ErrorDict ''ACTION_UNSUPPORTED''
      else case pi_execute p (map (\<lambda>a. (ca_target_component a, ca_replacement a)) (rc_selected_actions rcut)) of
        Inl _ \<Rightarrow> ErrorDict ''REPLAY_EXECUTION_FAILURE''
      | Inr (spans, metrics) \<Rightarrow> ResultDict spans metrics)"

definition metric_or :: "string \<Rightarrow> rat \<Rightarrow> (string \<times> rat) list \<Rightarrow> rat" where
  "metric_or k d m = (case map_of m k of None \<Rightarrow> d | Some v \<Rightarrow> v)"

definition local_replay ::
    "(replay_dict \<Rightarrow> (string, replay_dict) result) \<Rightarrow> pipeline \<Rightarrow> recovery_cut \<Rightarrow> recovery_replay" where
  "local_replay sandbox p rcut =
     (case sandbox (replay_fn p rcut) of
        Inl _ \<Rightarrow> \<lparr>rx_outcome = SANDBOX_UNAVAILABLE, rx_evidence_kind = REAL_CONTROLLED_EXPERIMENT,
                 rx_new_spans = [], rx_metrics = []\<rparr>
      | Inr (ErrorDict e) \<Rightarrow>
          \<lparr>rx_outcome = (if e = ''ACTION_UNSUPPORTED'' then ACTION_UNSUPPORTED else REPLAY_EXECUTION_FAILURE),
           rx_evidence_kind = REAL_CONTROLLED_EXPERIMENT, rx_new_spans = [], rx_metrics = []\<rparr>
      | Inr (ResultDict spans metrics) \<Rightarrow>
          \<lparr>rx_outcome = SUCCESS, rx_evidence_kind = REAL_CONTROLLED_EXPERIMENT, rx_new_spans = spans,
           rx_metrics = [(''regression_count'', metric_or ''regression_count'' (rc_regression_risk rcut) metrics),
                         (''blast_radius'', metric_or ''blast_radius'' (rc_blast_radius rcut) metrics)]\<rparr>)"

datatype replay_executor =
    is_simulated: SyntheticExecutor
  | RealExecutor "recovery_cut \<Rightarrow> replay_envelope \<Rightarrow> span list \<Rightarrow> (string, recovery_replay) result"

definition run_replay ::
    "replay_executor \<Rightarrow> recovery_cut \<Rightarrow> replay_envelope \<Rightarrow> span list \<Rightarrow> (string, recovery_replay) result" where
  "run_replay x rcut e spans =
     (case x of SyntheticExecutor \<Rightarrow> Inr (synthetic_replay rcut spans) | RealExecutor f \<Rightarrow> f rcut e spans)"

subsection \<open>The pipeline of checks\<close>

datatype validation_reason =
    AccessContextMissing
  | CapabilityNotProvided string string
  | ContextRequired
  | CapabilityRejected string
  | EnvelopeMismatch
  | SyntheticForbidden
  | ReplayFailed sandbox_outcome
  | ReplayRaised string
  | ValidationPassed
  | ResidualPathsRemain
  | DivergenceFailed
  | InvariantViolated
  | SyntheticPassed

datatype violation = DivergenceFound divergence_report | MetricExceeded string rat rat rat

record validation_result =
  vr_recovery_cut :: recovery_cut
  vr_failure_resolved :: bool
  vr_invariants :: "recovery_invariant list"
  vr_invariants_satisfied :: bool
  vr_divergence_report :: "(string \<times> violation) list"
  vr_residual_risk :: rat
  vr_eligible_for_canary :: bool
  vr_reason :: validation_reason
  vr_evidence_class :: evidence

text \<open>A refusal. The keyword \<open>evidence_kind\<close> is not a field of the model and is ignored, so the class is its default.\<close>

definition rejected :: "recovery_cut \<Rightarrow> recovery_invariant list \<Rightarrow> validation_reason \<Rightarrow> validation_result" where
  "rejected rcut invariants reason =
     \<lparr>vr_recovery_cut = rcut, vr_failure_resolved = False, vr_invariants = invariants, vr_invariants_satisfied = False,
      vr_divergence_report = [], vr_residual_risk = 1, vr_eligible_for_canary = False, vr_reason = reason,
      vr_evidence_class = UNVERIFIED\<rparr>"

record validation_env =
  ve_env :: env
  ve_text :: pytext
  ve_verifier :: verifier
  ve_secret :: "string option"
  ve_production :: bool
  ve_executor :: replay_executor
  ve_divergence_validator :: "replay_result list \<Rightarrow> replay_envelope \<Rightarrow> (div_error, divergence_report) result"
  ve_now :: int

text \<open>The loop over the actions: the reason of a refusal, or nothing.\<close>

fun check_capabilities ::
    "validation_env \<Rightarrow> access_context option \<Rightarrow> string set \<Rightarrow> cut_action list \<Rightarrow>
       (validation_error, validation_reason option) result" where
  "check_capabilities ve ctx ids [] = Inr None"
| "check_capabilities ve ctx ids (a # as) =
     (case ca_required_capability a of
        None \<Rightarrow> check_capabilities ve ctx ids as
      | Some cap \<Rightarrow>
          if cp_capability_id cap \<notin> ids then Inr (Some (CapabilityNotProvided (cp_capability_id cap) (ca_action_id a)))
          else (case ctx of
              None \<Rightarrow> Inr (Some ContextRequired)
            | Some c \<Rightarrow>
                (case capability_verify (ve_env ve) (ve_verifier ve) (ve_now ve) cap c (ca_action_type a) (ca_target_component a) of
                   Inl e \<Rightarrow> Inl (CapabilityRaised e)
                 | Inr ok \<Rightarrow>
                     if \<not> ok then Inr (Some (CapabilityRejected (cp_capability_id cap)))
                     else check_capabilities ve ctx ids as)))"

definition frozen_of :: "env \<Rightarrow> string list \<Rightarrow> span list \<Rightarrow> (string \<times> string) list" where
  "frozen_of E intervened spans =
     fold (\<lambda>s d. if span_node_id s \<noteq> [] \<and> (case sp_component_type s of Some c \<Rightarrow> c | None \<Rightarrow> []) \<notin> set intervened
                 then dict_put (span_node_id s) (stable_hash E (span_output s)) d else d) spans []"

definition envelope_for ::
    "validation_env \<Rightarrow> recovery_cut \<Rightarrow> recovery_invariant list \<Rightarrow> string \<Rightarrow> span list \<Rightarrow> (string \<times> json) list \<Rightarrow>
       (validation_error, replay_envelope) result" where
  "envelope_for ve rcut invariants trace_id spans exogenous =
     (let intervened = map ca_target_component (rc_selected_actions rcut) in
      compute_envelope_hash (ve_env ve) (ve_secret ve)
        \<lparr>ee_trace_id = trace_id, ee_recovery_cut = rcut, ee_invariants = invariants, ee_snapshot_hash = [],
         ee_frozen_variables = frozen_of (ve_env ve) intervened spans, ee_intervened_variables = intervened,
         ee_exogenous_variables = exogenous, ee_allowed_causal_descendants = [], ee_forbidden_divergence_nodes = [],
         ee_constraints = [], ee_policy_binding = None, ee_trusted_time_binding = None,
         ee_sandbox_config = [(''isolation_level'', JStr ''strict'')], ee_schema_version = ''2.0'', ee_graph_hash = [],
         ee_envelope_hash = []\<rparr>)"

definition rules_of :: "replay_envelope \<Rightarrow> envelope_rules" where
  "rules_of e = \<lparr>er_intervened = ee_intervened_variables e, er_allowed_descendants = ee_allowed_causal_descendants e,
     er_forbidden = ee_forbidden_divergence_nodes e, er_frozen = ee_frozen_variables e, er_constraints = ee_constraints e\<rparr>"

text \<open>The validator that is used where none is given: the adapter of \<open>DynamicCausalDivergenceValidator\<close>.\<close>

definition default_validator ::
    "env \<Rightarrow> pytext \<Rightarrow> replay_result list \<Rightarrow> replay_envelope \<Rightarrow> (div_error, divergence_report) result" where
  "default_validator E P replays e = validate_divergence E P replays (rules_of e)"

text \<open>The one replay that the validator is given.\<close>

definition judged_replay :: "span list \<Rightarrow> recovery_replay \<Rightarrow> replay_result" where
  "judged_replay spans res =
     \<lparr>rp_original_spans = Some spans, rp_replay_spans = Some (rx_new_spans res), rp_spans = None,
      rp_status = None, rp_actual_cost_usd = None\<rparr>"

text \<open>The invariants against the measured metrics; an invariant whose metric was not measured is skipped.\<close>

definition check_invariants ::
    "(string \<times> rat) list \<Rightarrow> recovery_invariant list \<Rightarrow> bool \<times> (string \<times> violation) list \<times> validation_reason \<Rightarrow>
       bool \<times> (string \<times> violation) list \<times> validation_reason" where
  "check_invariants metrics invariants st =
     fold (\<lambda>i (satisfied, divergences, reason).
       case map_of metrics (iv_metric i) of
         None \<Rightarrow> (satisfied, divergences, reason)
       | Some measured \<Rightarrow>
           if iv_baseline i + iv_allowed_deviation i < measured
           then (False, dict_put (iv_invariant_id i)
                   (MetricExceeded (iv_metric i) measured (iv_baseline i) (iv_allowed_deviation i)) divergences, InvariantViolated)
           else (satisfied, divergences, reason)) invariants st"

text \<open>Steps 6 and 7: the divergence report, the invariants and the eligibility.\<close>

definition judge_replay ::
    "validation_env \<Rightarrow> recovery_cut \<Rightarrow> recovery_invariant list \<Rightarrow> span list \<Rightarrow> replay_envelope \<Rightarrow> recovery_replay \<Rightarrow>
       (validation_error, validation_result) result" where
  "judge_replay ve rcut invariants spans e res =
     (let failure_resolved = (rc_residual_paths rcut = []);
          reason0 = (if failure_resolved then ValidationPassed else ResidualPathsRemain) in
      case ve_divergence_validator ve [judged_replay spans res] e of
        Inl x \<Rightarrow> Inl (DivergenceRaised x)
      | Inr div_report \<Rightarrow>
          (let (satisfied, divergences, reason) =
                 check_invariants (rx_metrics res) invariants
                   (if dr_valid div_report then (True, [], reason0)
                    else (False, [(''divergence'', DivergenceFound div_report)], DivergenceFailed));
               synthetic = (rx_evidence_kind res = SYNTHETIC_SIMULATION)
           in Inr \<lparr>vr_recovery_cut = rcut, vr_failure_resolved = failure_resolved, vr_invariants = invariants,
                   vr_invariants_satisfied = satisfied, vr_divergence_report = divergences,
                   vr_residual_risk = rc_regression_risk rcut,
                   vr_eligible_for_canary = (failure_resolved \<and> satisfied \<and> dr_valid div_report \<and> \<not> synthetic),
                   vr_reason = (if synthetic \<and> reason = ValidationPassed then SyntheticPassed else reason),
                   vr_evidence_class = UNVERIFIED\<rparr>))"

definition validate_cut ::
    "validation_env \<Rightarrow> recovery_cut \<Rightarrow> recovery_invariant list \<Rightarrow> string \<Rightarrow> span list \<Rightarrow> access_context option \<Rightarrow>
       (string \<times> json) list \<Rightarrow> capability list option \<Rightarrow> (validation_error, validation_result) result" where
  "validate_cut ve rcut invariants trace_id spans ctx exogenous provided =
     (if ctx = None \<and> provided = None then Inr (rejected rcut invariants AccessContextMissing)
      else
        let caps = (case ctx of Some c \<Rightarrow> cx_capabilities c | None \<Rightarrow> (case provided of Some p \<Rightarrow> p | None \<Rightarrow> [])) in
        rbind (check_capabilities ve ctx (cp_capability_id ` set caps) (rc_selected_actions rcut)) (\<lambda>refusal.
          case refusal of Some reason \<Rightarrow> Inr (rejected rcut invariants reason)
          | None \<Rightarrow>
              rbind (envelope_for ve rcut invariants trace_id spans exogenous) (\<lambda>e0.
                case verify_envelope_hash (ve_env ve) (ve_secret ve) e0 of (ok, e) \<Rightarrow>
                  rbind ok (\<lambda>ok.
                    if \<not> ok then Inr (rejected rcut invariants EnvelopeMismatch)
                    else if ve_production ve \<and> is_simulated (ve_executor ve)
                    then Inr (rejected rcut invariants SyntheticForbidden)
                    else case run_replay (ve_executor ve) rcut e spans of
                        Inl x \<Rightarrow> Inr (rejected rcut invariants (ReplayRaised x))
                      | Inr res \<Rightarrow>
                          if rx_outcome res \<noteq> SUCCESS then Inr (rejected rcut invariants (ReplayFailed (rx_outcome res)))
                          else judge_replay ve rcut invariants spans e res))))"

definition validate_minimal ::
    "validation_env \<Rightarrow> recovery_cut \<Rightarrow> access_context option \<Rightarrow> (validation_error, validation_result) result" where
  "validate_minimal ve rcut ctx = validate_cut ve rcut [] (rc_recovery_id rcut) [] ctx [] None"

subsection \<open>The envelope check\<close>

lemma hexlify_ascii: "c \<in> set (hexlify s) \<Longrightarrow> (of_char c :: nat) < 128"
proof -
  have "(of_char (hex_digit n) :: nat) < 128" if "n < 16" for n :: nat
    using that by (simp add: hex_digit_def)
  moreover have "(of_char c :: nat) div 16 < 16" for c :: char
    by (rule less_mult_imp_div_less) simp
  ultimately show "c \<in> set (hexlify s) \<Longrightarrow> (of_char c :: nat) < 128" by (auto simp: hexlify_def)
qed

lemma mac_ignores_hash [simp]: "envelope_mac E secret (e\<lparr>ee_envelope_hash := h\<rparr>) = envelope_mac E secret e"
  by (simp add: envelope_mac_def envelope_document_def)

text \<open>
  Checking an envelope accepts exactly the hash that the fields give, but the check stores what it recomputed: after a
  tampered envelope was refused once, the same check accepts it. Only the first verdict protects the replay.
\<close>

theorem envelope_check_repairs:
  assumes "truthy secret" "verify_envelope_hash E secret e = (Inr ok, e')"
  shows "(ok \<longleftrightarrow> ee_envelope_hash e = envelope_mac E (the secret) e) \<and>
    verify_envelope_hash E secret e' = (Inr True, e') \<and> envelope_document e' = envelope_document e"
proof -
  have e': "e' = e\<lparr>ee_envelope_hash := envelope_mac E (the secret) e\<rparr>"
    using assms by (auto simp: verify_envelope_hash_def compute_envelope_hash_def Let_def split: if_splits)
  have "\<not> 128 \<le> (of_char c :: nat)" if "c \<in> set (envelope_mac E k f)" for c k f
    using hexlify_ascii that unfolding envelope_mac_def by (metis not_le)
  then have "verify_envelope_hash E secret e' = (Inr True, e')"
    using assms(1) by (auto simp: verify_envelope_hash_def compute_envelope_hash_def Let_def e')
  moreover have "ok \<longleftrightarrow> ee_envelope_hash e = envelope_mac E (the secret) e"
    using assms by (auto simp: verify_envelope_hash_def compute_envelope_hash_def Let_def split: if_splits)
  ultimately show ?thesis by (simp add: e' envelope_document_def)
qed

lemma verify_fresh_envelope:
  assumes "compute_envelope_hash E secret e = Inr e'" "ee_envelope_hash e = []"
  shows "verify_envelope_hash E secret e' = (Inr True, e')"
proof -
  have e': "e' = e\<lparr>ee_envelope_hash := envelope_mac E (the secret) e\<rparr>" "truthy secret"
    using assms by (auto simp: compute_envelope_hash_def split: if_splits)
  have "\<not> 128 \<le> (of_char c :: nat)" if "c \<in> set (envelope_mac E k f)" for c k f
    using hexlify_ascii that unfolding envelope_mac_def by (metis not_le)
  then show ?thesis using e' by (auto simp: verify_envelope_hash_def compute_envelope_hash_def Let_def)
qed

subsection \<open>When a cut is eligible for a canary\<close>

text \<open>Every capability that a selected action requires was handed in and covers the action on its component.\<close>

definition capabilities_authorised :: "validation_env \<Rightarrow> access_context \<Rightarrow> cut_action list \<Rightarrow> bool" where
  "capabilities_authorised ve c as \<longleftrightarrow>
     (\<forall>a\<in>set as. \<forall>cap. ca_required_capability a = Some cap \<longrightarrow>
        cp_capability_id cap \<in> cp_capability_id ` set (cx_capabilities c) \<and>
        capability_covers (ve_env ve) (ve_verifier ve) (ve_now ve) c (ca_action_type a) (ca_target_component a) cap)"

lemma check_capabilities_iff:
  "check_capabilities ve (Some c) (cp_capability_id ` set (cx_capabilities c)) as = Inr None \<longleftrightarrow>
     capabilities_authorised ve c as"
proof (induction as)
  case (Cons a as)
  show ?case
  proof (cases "ca_required_capability a")
    case (Some cap)
    let ?v = "capability_verify (ve_env ve) (ve_verifier ve) (ve_now ve) cap c (ca_action_type a) (ca_target_component a)"
    have "(case ?v of Inl e \<Rightarrow> Inl (CapabilityRaised e)
         | Inr ok \<Rightarrow> if \<not> ok then Inr (Some (CapabilityRejected (cp_capability_id cap)))
              else check_capabilities ve (Some c) (cp_capability_id ` set (cx_capabilities c)) as) = Inr None \<longleftrightarrow>
        ?v = Inr True \<and> capabilities_authorised ve c as"
      by (auto simp: Cons.IH split: sum.splits)
    then show ?thesis by (auto simp: Some capabilities_authorised_def capability_verify_iff)
  qed (auto simp: Cons.IH capabilities_authorised_def)
qed (simp add: capabilities_authorised_def)

text \<open>The measured metrics keep the invariants that they bear on.\<close>

definition metrics_keep :: "(string \<times> rat) list \<Rightarrow> recovery_invariant list \<Rightarrow> bool" where
  "metrics_keep metrics invariants \<longleftrightarrow>
     (\<forall>i\<in>set invariants. \<forall>m. map_of metrics (iv_metric i) = Some m \<longrightarrow> m \<le> iv_baseline i + iv_allowed_deviation i)"

lemma check_invariants_satisfied:
  "fst (check_invariants metrics invariants st) \<longleftrightarrow> fst st \<and> metrics_keep metrics invariants"
proof (induction invariants arbitrary: st)
  case (Cons i ivs)
  obtain sat dvs why where st: "st = (sat, dvs, why)" by (cases st)
  show ?case
  proof (cases "map_of metrics (iv_metric i)")
    case None
    then show ?thesis using Cons [of st] by (simp add: check_invariants_def st metrics_keep_def)
  next
    case (Some m)
    show ?thesis
    proof (cases "iv_baseline i + iv_allowed_deviation i < m")
      case True
      then show ?thesis using Some Cons by (auto simp: check_invariants_def st metrics_keep_def)
    next
      case False
      then show ?thesis using Some Cons [of st] by (auto simp: check_invariants_def st metrics_keep_def)
    qed
  qed
qed (simp add: check_invariants_def metrics_keep_def)

lemma check_invariants_keeps:
  assumes "k \<notin> iv_invariant_id ` set invariants"
  shows "map_of (fst (snd (check_invariants metrics invariants st))) k = map_of (fst (snd st)) k"
  using assms
proof (induction invariants arbitrary: st)
  case (Cons i ivs)
  obtain sat dvs why where st: "st = (sat, dvs, why)" by (cases st)
  have "iv_invariant_id i \<noteq> k" "k \<notin> iv_invariant_id ` set ivs" using Cons.prems by auto
  then show ?case using Cons.IH by (auto simp: check_invariants_def st split: option.splits)
qed (simp add: check_invariants_def)

lemma judge_eligible:
  assumes "judge_replay ve rcut invs spans e res = Inr r"
  shows "\<exists>rep. ve_divergence_validator ve [judged_replay spans res] e = Inr rep \<and>
      (vr_eligible_for_canary r \<longleftrightarrow> rc_residual_paths rcut = [] \<and> rx_evidence_kind res \<noteq> SYNTHETIC_SIMULATION \<and>
         dr_valid rep \<and> metrics_keep (rx_metrics res) invs) \<and>
      (vr_invariants_satisfied r \<longleftrightarrow> dr_valid rep \<and> metrics_keep (rx_metrics res) invs) \<and>
      (map_of (vr_divergence_report r) ''divergence'' = Some (DivergenceFound rep) \<or> dr_valid rep \<or>
         ''divergence'' \<in> iv_invariant_id ` set invs)"
    and "vr_evidence_class r = UNVERIFIED"
proof -
  obtain dv where dv: "ve_divergence_validator ve [judged_replay spans res] e = Inr dv"
    using assms by (auto simp: judge_replay_def Let_def split: sum.splits)
  let ?st = "if dr_valid dv then (True, [], if rc_residual_paths rcut = [] then ValidationPassed else ResidualPathsRemain)
    else (False, [(''divergence'', DivergenceFound dv)], DivergenceFailed)"
  obtain sat dvs why where c: "check_invariants (rx_metrics res) invs ?st = (sat, dvs, why)"
    by (metis prod_cases3)
  have sat: "sat \<longleftrightarrow> dr_valid dv \<and> metrics_keep (rx_metrics res) invs"
    using check_invariants_satisfied [of "rx_metrics res" invs ?st] c by auto
  have kept: "map_of dvs ''divergence'' = Some (DivergenceFound dv) \<or> dr_valid dv \<or> ''divergence'' \<in> iv_invariant_id ` set invs"
    using check_invariants_keeps [of "''divergence''" invs "rx_metrics res" ?st] c by (cases "dr_valid dv") auto
  have r: "r = \<lparr>vr_recovery_cut = rcut, vr_failure_resolved = (rc_residual_paths rcut = []), vr_invariants = invs,
       vr_invariants_satisfied = sat, vr_divergence_report = dvs, vr_residual_risk = rc_regression_risk rcut,
       vr_eligible_for_canary = (rc_residual_paths rcut = [] \<and> sat \<and> dr_valid dv \<and> rx_evidence_kind res \<noteq> SYNTHETIC_SIMULATION),
       vr_reason = (if rx_evidence_kind res = SYNTHETIC_SIMULATION \<and> why = ValidationPassed then SyntheticPassed else why),
       vr_evidence_class = UNVERIFIED\<rparr>"
    using assms c by (simp add: judge_replay_def Let_def dv)
  show "vr_evidence_class r = UNVERIFIED" by (simp add: r)
  show "\<exists>rep. ve_divergence_validator ve [judged_replay spans res] e = Inr rep \<and>
      (vr_eligible_for_canary r \<longleftrightarrow> rc_residual_paths rcut = [] \<and> rx_evidence_kind res \<noteq> SYNTHETIC_SIMULATION \<and>
         dr_valid rep \<and> metrics_keep (rx_metrics res) invs) \<and>
      (vr_invariants_satisfied r \<longleftrightarrow> dr_valid rep \<and> metrics_keep (rx_metrics res) invs) \<and>
      (map_of (vr_divergence_report r) ''divergence'' = Some (DivergenceFound rep) \<or> dr_valid rep \<or>
         ''divergence'' \<in> iv_invariant_id ` set invs)"
    by (intro exI [of _ dv] conjI) (use dv sat kept in \<open>auto simp: r\<close>)
qed

text \<open>The replay that a validation rests on, with the envelope it ran in.\<close>

definition controlled_replay ::
    "validation_env \<Rightarrow> recovery_cut \<Rightarrow> recovery_invariant list \<Rightarrow> string \<Rightarrow> span list \<Rightarrow> (string \<times> json) list \<Rightarrow>
       replay_envelope \<Rightarrow> recovery_replay \<Rightarrow> bool" where
  "controlled_replay ve rcut invs tid spans exo e res \<longleftrightarrow>
     (\<exists>f. ve_executor ve = RealExecutor f \<and> envelope_for ve rcut invs tid spans exo = Inr e \<and>
        f rcut e spans = Inr res \<and> rx_outcome res = SUCCESS \<and> rx_evidence_kind res \<noteq> SYNTHETIC_SIMULATION)"

lemma rejected_fields [simp]:
  "vr_eligible_for_canary (rejected rcut invs why) = False" "vr_evidence_class (rejected rcut invs why) = UNVERIFIED"
  "vr_invariants_satisfied (rejected rcut invs why) = False"
  by (simp_all add: rejected_def)

text \<open>The outcomes of a validation with an access context.\<close>

lemma validate_cut_cases:
  assumes "validate_cut ve rcut invs tid spans (Some c) exo prov = Inr r"
  obtains (refused) why where "r = rejected rcut invs why"
      "\<not> (capabilities_authorised ve c (rc_selected_actions rcut) \<and>
         (\<exists>e res. envelope_for ve rcut invs tid spans exo = Inr e \<and> run_replay (ve_executor ve) rcut e spans = Inr res \<and>
            rx_outcome res = SUCCESS \<and> \<not> (ve_production ve \<and> is_simulated (ve_executor ve))))"
  | (judged) e res where "capabilities_authorised ve c (rc_selected_actions rcut)"
      "envelope_for ve rcut invs tid spans exo = Inr e" "run_replay (ve_executor ve) rcut e spans = Inr res"
      "rx_outcome res = SUCCESS" "\<not> (ve_production ve \<and> is_simulated (ve_executor ve))"
      "judge_replay ve rcut invs spans e res = Inr r"
proof -
  let ?caps = "check_capabilities ve (Some c) (cp_capability_id ` set (cx_capabilities c)) (rc_selected_actions rcut)"
  obtain refusal where ref: "?caps = Inr refusal"
    using assms by (auto simp: validate_cut_def Let_def rbind_Inr_iff)
  show ?thesis
  proof (cases refusal)
    case (Some why)
    then have "\<not> capabilities_authorised ve c (rc_selected_actions rcut)"
      using ref check_capabilities_iff by (metis Inr_inject option.distinct(1))
    moreover have "r = rejected rcut invs why" using assms ref Some by (simp add: validate_cut_def Let_def)
    ultimately show ?thesis using refused by blast
  next
    case None
    then have auth: "capabilities_authorised ve c (rc_selected_actions rcut)"
      using ref check_capabilities_iff by blast
    obtain e where e: "envelope_for ve rcut invs tid spans exo = Inr e"
      using assms ref None by (auto simp: validate_cut_def Let_def rbind_Inr_iff)
    have ver: "verify_envelope_hash (ve_env ve) (ve_secret ve) e = (Inr True, e)"
      by (rule verify_fresh_envelope) (use e in \<open>auto simp: envelope_for_def Let_def\<close>)
    have body: "(if ve_production ve \<and> is_simulated (ve_executor ve) then Inr (rejected rcut invs SyntheticForbidden)
       else case run_replay (ve_executor ve) rcut e spans of
            Inl x \<Rightarrow> Inr (rejected rcut invs (ReplayRaised x))
          | Inr res \<Rightarrow> if rx_outcome res \<noteq> SUCCESS then Inr (rejected rcut invs (ReplayFailed (rx_outcome res)))
                      else judge_replay ve rcut invs spans e res) = Inr r"
      using assms ref None e ver by (simp add: validate_cut_def Let_def split del: if_split)
    show ?thesis
    proof (cases "ve_production ve \<and> is_simulated (ve_executor ve)")
      case True
      with body refused show ?thesis by auto
    next
      case prod: False
      show ?thesis
      proof (cases "run_replay (ve_executor ve) rcut e spans")
        case (Inl x)
        with body prod refused e show ?thesis by auto
      next
        case (Inr res)
        with body prod refused judged [OF auth e Inr _ prod] e show ?thesis by (auto split: if_splits)
      qed
    qed
  qed
qed

text \<open>
  C31. Canary eligibility is exact, for every executor and every divergence validator the validation is built with. A cut
  validated under an access context is eligible for a canary if and only if every required capability was handed in and covers its
  action, no failure path is left over, a replay by an executor other than the synthetic one succeeded with evidence that is
  not synthetic, the validator returned a valid report on that replay and its envelope, and the metrics keep every invariant
  they measure. A synthetic replay never makes a cut eligible, whatever it measured; nor does a replay that the validator
  rejects. (The validator that the repository uses by default rejects none: \<open>default_validator_accepts\<close>.) The evidence class
  of the result is UNVERIFIED in every case, also after a real controlled experiment.
\<close>

theorem canary_eligibility_exact:
  assumes "validate_cut ve rcut invs tid spans (Some c) exo prov = Inr r"
  shows "(vr_eligible_for_canary r \<longleftrightarrow>
      capabilities_authorised ve c (rc_selected_actions rcut) \<and> rc_residual_paths rcut = [] \<and>
      (\<exists>e res rep. controlled_replay ve rcut invs tid spans exo e res \<and>
         ve_divergence_validator ve [judged_replay spans res] e = Inr rep \<and> dr_valid rep \<and>
         metrics_keep (rx_metrics res) invs)) \<and>
    vr_evidence_class r = UNVERIFIED"
  using assms
proof (cases rule: validate_cut_cases)
  case (refused why)
  moreover have "\<not> (capabilities_authorised ve c (rc_selected_actions rcut) \<and>
      (\<exists>e res. controlled_replay ve rcut invs tid spans exo e res))"
    using refused(2) by (auto simp: controlled_replay_def run_replay_def)
  ultimately show ?thesis by auto
next
  case (judged e res)
  have "controlled_replay ve rcut invs tid spans exo e' res' \<longleftrightarrow>
      e' = e \<and> res' = res \<and> rx_evidence_kind res \<noteq> SYNTHETIC_SIMULATION" for e' res'
    using judged by (cases "ve_executor ve") (auto simp: controlled_replay_def run_replay_def synthetic_replay_def)
  then show ?thesis using judged(1) judge_eligible [OF judged(6)] by auto
qed

text \<open>The default validator never rejects a replay, so that with it the gate of the divergence report is always open.\<close>

lemma default_validator_accepts: "default_validator E P replays e = Inr rep \<Longrightarrow> dr_valid rep"
  unfolding default_validator_def by (rule adapter_always_passes)

lemma satisfied_authorised:
  assumes "validate_cut ve rcut invs tid spans (Some c) exo prov = Inr r" "vr_invariants_satisfied r"
  shows "capabilities_authorised ve c (rc_selected_actions rcut)"
  using assms(1) by (cases rule: validate_cut_cases) (use assms(2) in auto)

subsection \<open>A validated cut\<close>

definition sample_cut :: recovery_cut where
  "sample_cut = \<lparr>rc_recovery_id = ''c1'', rc_fault_sources = [], rc_failure_targets = [], rc_selected_actions = [],
     rc_blocked_paths = [], rc_residual_paths = [], rc_total_change_cost = 0, rc_blast_radius = 0, rc_regression_risk = 0,
     rc_expected_downtime = 0, rc_optimization_method = EXACT, rc_evidence_hash = ''h'', rc_created_at = 0\<rparr>"

definition sample_replay :: recovery_replay where
  "sample_replay = local_replay Inr \<lparr>pi_apply_patch = True, pi_execute = (\<lambda>_. Inr ([], []))\<rparr> sample_cut"

definition sample_ve :: validation_env where
  "sample_ve = \<lparr>ve_env = plain_env, ve_text = sample_text, ve_verifier = \<lparr>vf_secret = ''k'', vf_revoked = []\<rparr>,
     ve_secret = Some ''s'', ve_production = True, ve_executor = RealExecutor (\<lambda>_ _ _. Inr sample_replay),
     ve_divergence_validator = default_validator plain_env sample_text, ve_now = 0\<rparr>"

text \<open>The same with a validator that rejects the replay, as a mock in the tests of the repository does.\<close>

definition rejecting_ve :: validation_env where
  "rejecting_ve = sample_ve\<lparr>ve_divergence_validator := (\<lambda>_ _. Inr (passed_report\<lparr>dr_valid := False\<rparr>))\<rparr>"

definition sample_context :: access_context where
  "sample_context = \<lparr>cx_requester_id = ''u'', cx_tenant_id = ''t'', cx_capabilities = [], cx_expires_at = 10\<rparr>"

lemma sample_replay_fields [simp]:
  "rx_outcome sample_replay = SUCCESS" "rx_evidence_kind sample_replay = REAL_CONTROLLED_EXPERIMENT"
  "rx_new_spans sample_replay = []"
  by (simp_all add: sample_replay_def local_replay_def replay_fn_def sample_cut_def)

lemma sample_envelope:
  "\<exists>e. envelope_for sample_ve sample_cut [] ''t1'' [] [] = Inr e" "\<exists>e. envelope_for rejecting_ve sample_cut [] ''t1'' [] [] = Inr e"
  by (simp_all add: envelope_for_def Let_def compute_envelope_hash_def sample_ve_def rejecting_ve_def)

lemma sample_validates_by:
  assumes "envelope_for ve sample_cut [] ''t1'' [] [] = Inr e" "ve_executor ve = RealExecutor (\<lambda>_ _ _. Inr sample_replay)"
    and "ve_divergence_validator ve [judged_replay [] sample_replay] e = Inr rep"
  shows "\<exists>r. validate_cut ve sample_cut [] ''t1'' [] (Some sample_context) [] None = Inr r"
proof -
  have "verify_envelope_hash (ve_env ve) (ve_secret ve) e = (Inr True, e)"
    by (rule verify_fresh_envelope) (use assms(1) in \<open>auto simp: envelope_for_def Let_def\<close>)
  moreover have "\<exists>r. judge_replay ve sample_cut [] [] e sample_replay = Inr r"
    using assms(3) by (simp add: judge_replay_def Let_def case_prod_beta)
  ultimately show ?thesis using assms(1,2) by (auto simp: validate_cut_def Let_def sample_cut_def run_replay_def)
qed

theorem canary_eligibility_exact_witness:
  "(\<exists>r. validate_cut sample_ve sample_cut [] ''t1'' [] (Some sample_context) [] None = Inr r \<and> vr_eligible_for_canary r) \<and>
   (\<exists>r. validate_cut rejecting_ve sample_cut [] ''t1'' [] (Some sample_context) [] None = Inr r \<and> \<not> vr_eligible_for_canary r)"
proof -
  obtain e where e: "envelope_for sample_ve sample_cut [] ''t1'' [] [] = Inr e" using sample_envelope by blast
  have "\<exists>rep. default_validator plain_env sample_text [judged_replay [] sample_replay] e = Inr rep"
    by (simp add: default_validator_def judged_replay_def validate_divergence_def replay_spans_of_def from_spans_def
        validate_replay_def all_node_ids_def Let_def case_prod_beta)
  then obtain rep where rep: "ve_divergence_validator sample_ve [judged_replay [] sample_replay] e = Inr rep" "dr_valid rep"
    using default_validator_accepts by (auto simp: sample_ve_def)
  have x: "ve_executor sample_ve = RealExecutor (\<lambda>_ _ _. Inr sample_replay)"
    "ve_executor rejecting_ve = RealExecutor (\<lambda>_ _ _. Inr sample_replay)"
    by (simp_all add: sample_ve_def rejecting_ve_def)
  obtain r where r: "validate_cut sample_ve sample_cut [] ''t1'' [] (Some sample_context) [] None = Inr r"
    using sample_validates_by [OF e x(1) rep(1)] by blast
  have "controlled_replay sample_ve sample_cut [] ''t1'' [] [] e sample_replay"
    using e x(1) by (simp add: controlled_replay_def)
  then have yes: "vr_eligible_for_canary r" using canary_eligibility_exact [OF r] rep
    by (auto simp: capabilities_authorised_def metrics_keep_def sample_cut_def)
  obtain e' where e': "envelope_for rejecting_ve sample_cut [] ''t1'' [] [] = Inr e'" using sample_envelope by blast
  have rej: "ve_divergence_validator rejecting_ve rs d = Inr (passed_report\<lparr>dr_valid := False\<rparr>)" for rs d
    by (simp add: rejecting_ve_def)
  obtain r' where r': "validate_cut rejecting_ve sample_cut [] ''t1'' [] (Some sample_context) [] None = Inr r'"
    using sample_validates_by [OF e' x(2) rej] by blast
  have "\<not> vr_eligible_for_canary r'" using canary_eligibility_exact [OF r'] by (auto simp: rej)
  with yes r r' show ?thesis by blast
qed

theorem envelope_check_repairs_witness:
  "\<exists>e e'. verify_envelope_hash plain_env (Some ''s'') e = (Inr False, e') \<and>
     verify_envelope_hash plain_env (Some ''s'') e' = (Inr True, e')"
proof -
  obtain e0 where "envelope_for sample_ve sample_cut [] ''t1'' [] [] = Inr e0" using sample_envelope by blast
  define e where "e = e0\<lparr>ee_envelope_hash := ''x''\<rparr>"
  have "hexlify s \<noteq> ''x''" for s by (cases s) (auto simp: hexlify_def)
  then have mac: "envelope_mac plain_env ''s'' e \<noteq> ''x''" by (simp add: envelope_mac_def)
  have "\<not> 128 \<le> (of_char c :: nat)" if "c \<in> set (envelope_mac plain_env ''s'' e)" for c
    using hexlify_ascii that unfolding envelope_mac_def by (metis not_le)
  then obtain ok e' where v: "verify_envelope_hash plain_env (Some ''s'') e = (Inr ok, e')"
    by (auto simp: verify_envelope_hash_def compute_envelope_hash_def Let_def e_def)
  have "ee_envelope_hash e = ''x''" by (simp add: e_def)
  with envelope_check_repairs [OF _ v] mac have "\<not> ok" "verify_envelope_hash plain_env (Some ''s'') e' = (Inr True, e')"
    by auto
  with v show ?thesis by auto
qed

end
