(* ===== verification/Incident_Orchestrator.thy ===== *)
theory Incident_Orchestrator
  imports Recovery_FSM Experiment_Planner Recovery_Validation
begin

section \<open>The incident orchestrator\<close>

text \<open>
  \<open>packages/recovery/src/orchestrator.py\<close>: \<open>process_incident\<close> drives an incident from detection to a decision. It
  is written against the interfaces of \<open>contracts/src/interfaces.py\<close>; the injected objects are the fields of a record
  of functions over a world \<open>'w\<close>, their own mutable state. Every call may raise and may change the world.

  The body is a program that may leave early: \<open>Returned\<close> is a \<open>return\<close>, \<open>Raised\<close> an exception, which the outer handler
  turns into the closing of the incident. The experiment loop is a partial function whose value \<^const>\<open>None\<close> is not
  returning. The transition log records texts; the parameters \<open>sv_text\<close> and
  \<open>sv_report_text\<close> give the text of a stopping reason and of the reason of a divergence report, and \<open>sv_pytext\<close> holds Python's
  \<open>float\<close> on a text.
\<close>

subsection \<open>State\<close>

record trace =
  tr_spans :: "span list option"
  tr_hash :: "string option"

record telemetry =
  te_stop_outcome :: stopping_outcome
  te_stop_reason :: stop_reason
  te_top_posterior :: rat
  te_posterior_margin :: rat
  te_entropy :: rat
  te_replay_count :: int
  te_valid_replay_count :: nat
  te_invalid_replay_count :: nat
  te_budget_used_usd :: rat
  te_elapsed_seconds :: rat

record incident_certificate =
  ic_incident_id :: string
  ic_trace_hash :: string
  ic_causal_graph_hash :: string
  ic_envelope_id :: "string option"
  ic_envelope_hash :: string
  ic_posterior :: beliefs
  ic_cut :: recovery_cut
  ic_replays_executed :: int
  ic_total_cost_usd :: rat
  ic_stop_reason :: stop_reason

text \<open>The answers of the injected objects a decision rests on, and the certificate handed to the ledger, in order.\<close>

datatype event =
    Executed "replay_result list"
  | Judged "replay_result list" divergence_report
  | Checked int recovery_cut access_context validation_result
  | Authorized validation_result "capability list" bool
  | Recorded incident_certificate

text \<open>The incident, the resource context, the history of answers, and the world of the injected objects.\<close>

record 'w orchestration =
  os_incident_id :: string
  os_incident :: incident
  os_envelope_id :: "string option"
  os_posterior :: beliefs
  os_telemetry :: "telemetry option"
  os_context :: resource_context
  os_events :: "event list"
  os_world :: 'w

type_synonym ('w, 'a) call = "'w \<Rightarrow> (string, 'a) result \<times> 'w"

text \<open>The injected interfaces. A trace or graph that is empty, and a cut that is missing, is \<open>None\<close>.\<close>

record 'w services =
  sv_get_trace :: "string \<Rightarrow> ('w, trace option) call"
  sv_get_causal_graph :: "string \<Rightarrow> ('w, trace option) call"
  sv_generate_candidates :: "string \<Rightarrow> ('w, candidate list) call"
  sv_build_envelope :: "string \<Rightarrow> candidate list \<Rightarrow> ('w, replay_envelope) call"
  sv_check_admissibility :: "replay_envelope \<Rightarrow> ('w, bool) call"
  sv_is_sufficient :: "resource_context \<Rightarrow> candidate list \<Rightarrow> ('w, bool \<times> stopping_outcome \<times> stop_reason) call"
  sv_record_iteration :: "(rat \<Rightarrow> ('w, unit) call) option"
  sv_plan :: "replay_envelope \<Rightarrow> candidate list \<Rightarrow> beliefs \<Rightarrow> resource_context \<Rightarrow> ('w, planned option \<times> resource_context) call"
  sv_execute_replays :: "planned list \<Rightarrow> ('w, replay_result list) call"
  sv_validate_divergence :: "replay_result list \<Rightarrow> replay_envelope \<Rightarrow> ('w, divergence_report) call"
  sv_update_belief :: "replay_result list \<Rightarrow> ('w, beliefs) call"
  sv_current_beliefs :: "('w, beliefs) call"
  sv_entropy :: "('w, rat) call"
  sv_solve :: "failure_target list \<Rightarrow> beliefs \<Rightarrow> ('w, recovery_cut option) call"
  sv_validate_cut :: "recovery_cut \<Rightarrow> recovery_invariant list \<Rightarrow> string \<Rightarrow> span list \<Rightarrow> access_context \<Rightarrow>
      (string \<times> json) list \<Rightarrow> ('w, validation_result) call"
  sv_authorize :: "validation_result \<Rightarrow> capability list \<Rightarrow> ('w, bool) call"
  sv_record_certificate :: "incident_certificate \<Rightarrow> ('w, string) call"
  sv_monotonic :: "'w \<Rightarrow> rat \<times> 'w"
  sv_now :: "'w \<Rightarrow> int \<times> 'w"
  sv_text :: "stop_reason \<Rightarrow> string"
  sv_report_text :: "divergence_report \<Rightarrow> string"
  sv_pytext :: pytext

subsection \<open>Programs that may leave early\<close>

datatype exit = Returned string | Raised string

type_synonym ('w, 'a) prog = "'w orchestration \<Rightarrow> (exit, 'a) result \<times> 'w orchestration"

definition obind :: "('w, 'a) prog \<Rightarrow> ('a \<Rightarrow> ('w, 'b) prog) \<Rightarrow> ('w, 'b) prog" where
  "obind m f s = (case m s of (Inl e, s') \<Rightarrow> (Inl e, s') | (Inr a, s') \<Rightarrow> f a s')"

definition leave :: "string \<Rightarrow> ('w, 'a) prog" where
  "leave r s = (Inl (Returned r), s)"

definition raise :: "string \<Rightarrow> ('w, 'a) prog" where
  "raise e s = (Inl (Raised e), s)"

definition give :: "'a \<Rightarrow> ('w, 'a) prog" where
  "give a s = (Inr a, s)"

definition modify :: "('w orchestration \<Rightarrow> 'w orchestration) \<Rightarrow> ('w, unit) prog" where
  "modify f s = (Inr (), f s)"

definition emit :: "event \<Rightarrow> ('w, unit) prog" where
  "emit e = modify (\<lambda>s. s\<lparr>os_events := os_events s @ [e]\<rparr>)"

definition look :: "('w orchestration \<Rightarrow> 'a) \<Rightarrow> ('w, 'a) prog" where
  "look f s = (Inr (f s), s)"

definition invoke :: "('w, 'a) call \<Rightarrow> ('w, 'a) prog" where
  "invoke c s = (case c (os_world s) of (r, w) \<Rightarrow>
     (case r of Inl e \<Rightarrow> Inl (Raised e) | Inr a \<Rightarrow> Inr a, s\<lparr>os_world := w\<rparr>))"

definition on_exception :: "('w, 'a) prog \<Rightarrow> ('w orchestration \<Rightarrow> 'w orchestration) \<Rightarrow> ('w, 'a) prog" where
  "on_exception m h s = (case m s of (Inl x, s') \<Rightarrow> (Inl x, h s') | (Inr a, s') \<Rightarrow> (Inr a, s'))"

definition clock :: "('w \<Rightarrow> 'a \<times> 'w) \<Rightarrow> ('w, 'a) prog" where
  "clock c s = (case c (os_world s) of (t, w) \<Rightarrow> (Inr t, s\<lparr>os_world := w\<rparr>))"

definition move :: "incident_status \<Rightarrow> string \<Rightarrow> ('w, unit) prog" where
  "move to reason s = (case incident_transition to reason (os_incident s) of
     Inl e \<Rightarrow> (Inl (Raised ''invalid transition''), s)
   | Inr i \<Rightarrow> (Inr (), s\<lparr>os_incident := i\<rparr>))"

text \<open>A refusal: a transition, then \<open>return ""\<close>.\<close>

definition refuse :: "incident_status \<Rightarrow> string \<Rightarrow> ('w, 'a) prog" where
  "refuse to reason = obind (move to reason) (\<lambda>_. leave [])"

subsection \<open>One turn of the experiment loop\<close>

record loop_locals =
  lo_replays :: "replay_result list"
  lo_remaining :: "candidate list"
  lo_valid :: nat
  lo_start :: rat

datatype turn = Again loop_locals | Stopped stopping_outcome stop_reason loop_locals

text \<open>\<open>float\<close> of what a replay reports as its cost, by default zero, and the sum over the replays; both may raise.\<close>

definition reported_cost :: "pytext \<Rightarrow> replay_result \<Rightarrow> (string, rat) result" where
  "reported_cost P r =
     (case rp_actual_cost_usd r of
        None \<Rightarrow> Inr 0
      | Some v \<Rightarrow> (case py_float P v of Some c \<Rightarrow> Inr c | None \<Rightarrow> Inl ''float() refused the reported cost''))"

fun total_cost :: "pytext \<Rightarrow> replay_result list \<Rightarrow> (string, rat) result" where
  "total_cost P [] = Inr 0"
| "total_cost P (r # rs) = rbind (reported_cost P r) (\<lambda>c. rbind (total_cost P rs) (\<lambda>d. Inr (c + d)))"

text \<open>
  The execution with its reservation: released when the executor raises, else committed at the measured cost. The cost is summed
  after the handler that releases, so that an exception there leaves the reservation as it is.
\<close>

definition execute_reserved :: "'w services \<Rightarrow> planned \<Rightarrow> ('w, replay_result list) prog" where
  "execute_reserved sv e =
     obind (clock (sv_monotonic sv)) (\<lambda>started.
     obind (on_exception (invoke (sv_execute_replays sv [e\<lparr>ex_reservation := None\<rparr>]))
              (\<lambda>s. case ex_reservation e of None \<Rightarrow> s
                   | Some rsv \<Rightarrow> s\<lparr>os_context := snd (reservation_release rsv (os_context s))\<rparr>)) (\<lambda>replays.
     obind (emit (Executed replays)) (\<lambda>_.
       case ex_reservation e of
         None \<Rightarrow> give replays
       | Some rsv \<Rightarrow>
           (case total_cost (sv_pytext sv) replays of
              Inl x \<Rightarrow> raise x
            | Inr actual_cost \<Rightarrow>
                obind (clock (sv_monotonic sv)) (\<lambda>finished.
                obind (modify (\<lambda>s. s\<lparr>os_context := snd (reservation_commit
                         \<lparr>meas_cost = (if actual_cost \<le> 0 then est_cost (rsv_estimate rsv) else actual_cost),
                          meas_count = int (length replays), meas_wall = finished - started\<rparr> rsv (os_context s))\<rparr>)) (\<lambda>_.
                give replays))))))"

definition absorb_evidence :: "'w services \<Rightarrow> replay_result list \<Rightarrow> loop_locals \<Rightarrow> ('w, turn) prog" where
  "absorb_evidence sv replays l =
     obind (invoke (sv_update_belief sv replays)) (\<lambda>new_belief.
     obind (modify (\<lambda>s. s\<lparr>os_posterior := new_belief\<rparr>)) (\<lambda>_.
     obind (case sv_record_iteration sv of None \<Rightarrow> give ()
            | Some rec \<Rightarrow> obind (invoke (sv_entropy sv)) (\<lambda>h. invoke (rec h))) (\<lambda>_.
     give (Again (l\<lparr>lo_valid := lo_valid l + length replays, lo_replays := lo_replays l @ replays\<rparr>)))))"

definition judge_evidence ::
    "'w services \<Rightarrow> replay_envelope \<Rightarrow> replay_result list \<Rightarrow> loop_locals \<Rightarrow> ('w, turn) prog" where
  "judge_evidence sv envelope replays l =
     obind (invoke (sv_validate_divergence sv replays envelope)) (\<lambda>rep.
     obind (emit (Judged replays rep)) (\<lambda>_.
       if dr_early_terminated rep then refuse EVIDENCE_INSUFFICIENT (''Replay early-terminated: '' @ sv_report_text sv rep)
       else if \<not> dr_valid rep then give (Again (l\<lparr>lo_replays := lo_replays l @ replays\<rparr>))
       else absorb_evidence sv replays l))"

definition exhausted_turn :: "'w services \<Rightarrow> loop_locals \<Rightarrow> ('w, turn) prog" where
  "exhausted_turn sv l =
     obind (look os_context) (\<lambda>ctx.
     obind (invoke (sv_is_sufficient sv ctx [])) (\<lambda>(_, outcome, why).
       give (if lo_valid l = 0 then Stopped NO_ADMISSIBLE_EXPERIMENT NoValidReplay l else Stopped outcome why l)))"

definition run_experiment :: "'w services \<Rightarrow> replay_envelope \<Rightarrow> planned \<Rightarrow> loop_locals \<Rightarrow> ('w, turn) prog" where
  "run_experiment sv envelope e l =
     obind (execute_reserved sv e) (\<lambda>replays.
       judge_evidence sv envelope replays
         (l\<lparr>lo_remaining := filter (\<lambda>c. cand_id c \<noteq> cand_id e) (lo_remaining l)\<rparr>))"

definition turn_of_loop :: "'w services \<Rightarrow> replay_envelope \<Rightarrow> loop_locals \<Rightarrow> ('w, turn) prog" where
  "turn_of_loop sv envelope l =
     obind (clock (sv_monotonic sv)) (\<lambda>t.
     obind (modify (\<lambda>s. s\<lparr>os_context := (os_context s)\<lparr>rc_elapsed := t - lo_start l\<rparr>\<rparr>)) (\<lambda>_.
     obind (look os_context) (\<lambda>ctx0.
     obind (invoke (sv_is_sufficient sv ctx0 (lo_remaining l))) (\<lambda>(should_stop, outcome, why).
       if should_stop \<and> (outcome \<noteq> CONFIRMED \<or> 0 < lo_valid l) then give (Stopped outcome why l)
       else
         obind (invoke (sv_current_beliefs sv)) (\<lambda>b.
         obind (look os_context) (\<lambda>ctx1.
         obind (invoke (sv_plan sv envelope (lo_remaining l) b ctx1)) (\<lambda>(e, ctx).
         obind (modify (\<lambda>s. s\<lparr>os_context := ctx\<rparr>)) (\<lambda>_.
           case e of None \<Rightarrow> exhausted_turn sv l
           | Some e \<Rightarrow> run_experiment sv envelope e l))))))))"

partial_function (option) experiment_loop ::
    "'w services \<Rightarrow> replay_envelope \<Rightarrow> loop_locals \<Rightarrow> 'w orchestration \<Rightarrow>
       ((exit, stopping_outcome \<times> stop_reason \<times> loop_locals) result \<times> 'w orchestration) option" where
  "experiment_loop sv envelope l s =
     (case turn_of_loop sv envelope l s of
        (Inl x, s') \<Rightarrow> Some (Inl x, s')
      | (Inr t, s') \<Rightarrow>
          (case t of Again l' \<Rightarrow> experiment_loop sv envelope l' s'
           | Stopped outcome why l' \<Rightarrow> Some (Inr (outcome, why, l'), s')))"

subsection \<open>Before and after the loop\<close>

text \<open>Steps 1 to 3: detection, trace and graph, candidates, envelope, admissibility.\<close>

definition prepare :: "'w services \<Rightarrow> ('w, trace \<times> trace \<times> candidate list \<times> replay_envelope) prog" where
  "prepare sv =
     obind (look os_incident_id) (\<lambda>iid.
      obind (move FAILURE_DETECTED ''Failure target registered.'') (\<lambda>_.
      obind (invoke (sv_get_trace sv iid)) (\<lambda>tr.
      obind (case tr of None \<Rightarrow> raise ''No trace found.'' | Some x \<Rightarrow> give x) (\<lambda>trc.
      obind (invoke (sv_get_causal_graph sv iid)) (\<lambda>gr.
      obind (case gr of None \<Rightarrow> raise ''No causal graph found.'' | Some x \<Rightarrow> give x) (\<lambda>graph.
      obind (move DIAGNOSING ''Analyzing trace and graph.'') (\<lambda>_.
      obind (invoke (sv_generate_candidates sv iid)) (\<lambda>candidates.
        if candidates = [] then refuse EVIDENCE_INSUFFICIENT ''No candidate interventions.''
        else
          obind (invoke (sv_build_envelope sv iid candidates)) (\<lambda>envelope.
          obind (modify (\<lambda>s. s\<lparr>os_envelope_id := Some (ee_trace_id envelope)\<rparr>)) (\<lambda>_.
          obind (invoke (sv_check_admissibility sv envelope)) (\<lambda>ok.
            if \<not> ok then refuse EVIDENCE_INSUFFICIENT ''RAEB admissibility rejected envelope.''
            else
              obind (move REPLAYING ''Starting sequential causal experiment loop.'') (\<lambda>_.
              give (trc, graph, candidates, envelope)))))))))))))"

text \<open>The telemetry and the verdict on the evidence.\<close>

fun outcome_value :: "stopping_outcome \<Rightarrow> string" where
  "outcome_value CONFIRMED = ''confirmed''"
| "outcome_value UNRESOLVED = ''unresolved''"
| "outcome_value RESOURCE_EXHAUSTED = ''resource_exhausted''"
| "outcome_value SAFETY_LIMIT = ''safety_limit''"
| "outcome_value NO_ADMISSIBLE_EXPERIMENT = ''no_admissible_experiment''"

definition conclude_evidence ::
    "'w services \<Rightarrow> stopping_outcome \<Rightarrow> stop_reason \<Rightarrow> loop_locals \<Rightarrow> ('w, unit) prog" where
  "conclude_evidence sv outcome why l =
     obind (invoke (sv_current_beliefs sv)) (\<lambda>b.
     obind (invoke (sv_entropy sv)) (\<lambda>h.
     obind (modify (\<lambda>s. s\<lparr>os_telemetry := Some
       \<lparr>te_stop_outcome = outcome, te_stop_reason = why,
        te_top_posterior = (if b = [] then 0 else values_desc b ! 0),
        te_posterior_margin = (if 2 \<le> length b then posterior_margin b else 0), te_entropy = h,
        te_replay_count = rc_replays (os_context s),
        te_valid_replay_count = length (filter (\<lambda>r. rp_status r = Some ''completed'') (lo_replays l)),
        te_invalid_replay_count = length (filter (\<lambda>r. rp_status r \<noteq> Some ''completed'') (lo_replays l)),
        te_budget_used_usd = rc_spent (os_context s), te_elapsed_seconds = rc_elapsed (os_context s)\<rparr>\<rparr>)) (\<lambda>_.
       if outcome = CONFIRMED then move EVIDENCE_SUFFICIENT (''Evidence confirmed: '' @ sv_text sv why)
       else refuse EVIDENCE_INSUFFICIENT
              (''Evidence insufficient. Outcome: '' @ outcome_value outcome @ '' - '' @ sv_text sv why))))"

text \<open>Steps 6 to 9: the cut, its validation, the authorization, the canary and the certificate.\<close>

definition record_outcome ::
    "'w services \<Rightarrow> trace \<Rightarrow> trace \<Rightarrow> replay_envelope \<Rightarrow> stop_reason \<Rightarrow> recovery_cut \<Rightarrow> ('w, string) prog" where
  "record_outcome sv trc graph envelope why rcut =
     obind (look (\<lambda>s. \<lparr>ic_incident_id = os_incident_id s,
            ic_trace_hash = (case tr_hash trc of Some h \<Rightarrow> h | None \<Rightarrow> []),
            ic_causal_graph_hash = (case tr_hash graph of Some h \<Rightarrow> h | None \<Rightarrow> []),
            ic_envelope_id = os_envelope_id s, ic_envelope_hash = ee_envelope_hash envelope,
            ic_posterior = os_posterior s, ic_cut = rcut, ic_replays_executed = rc_replays (os_context s),
            ic_total_cost_usd = rc_spent (os_context s), ic_stop_reason = why\<rparr>)) (\<lambda>cert.
      obind (emit (Recorded cert)) (\<lambda>_.
      obind (invoke (sv_record_certificate sv cert)) (\<lambda>cert_id.
      obind (move CLOSED ''Incident fully resolved.'') (\<lambda>_. give cert_id))))"

definition authorize_and_canary ::
    "'w services \<Rightarrow> trace \<Rightarrow> trace \<Rightarrow> replay_envelope \<Rightarrow> stop_reason \<Rightarrow> access_context \<Rightarrow> recovery_cut \<Rightarrow>
       validation_result \<Rightarrow> ('w, string) prog" where
  "authorize_and_canary sv trc graph envelope why ctx rcut val =
     obind (move AWAITING_AUTHORIZATION ''Checking policy capabilities.'') (\<lambda>_.
     obind (invoke (sv_authorize sv val (cx_capabilities ctx))) (\<lambda>ok.
     obind (emit (Authorized val (cx_capabilities ctx) ok)) (\<lambda>_.
       if \<not> ok then refuse RECOVERY_REJECTED ''Authorization failed.''
       else if \<not> vr_eligible_for_canary val
       then refuse RECOVERY_REJECTED ''Recovery not eligible for canary deployment.''
       else
         obind (move CANARY ''Deploying canary.'') (\<lambda>_.
         obind (look os_envelope_id) (\<lambda>envelope_id.
           if truthy envelope_id
           then refuse RECOVERY_REJECTED (''Real canary deployments are currently blocked pending production support. '' @
             ''Refusing to fabricate recovery success.'')
           else record_outcome sv trc graph envelope why rcut)))))"

definition plan_recovery ::
    "'w services \<Rightarrow> failure_target list \<Rightarrow> access_context option \<Rightarrow> trace \<Rightarrow> trace \<Rightarrow> replay_envelope \<Rightarrow> stop_reason \<Rightarrow>
       ('w, string) prog" where
  "plan_recovery sv targets actx trc graph envelope why =
     obind (move RECOVERY_PLANNING ''Solving for minimum causal cut.'') (\<lambda>_.
     obind (look os_posterior) (\<lambda>fault_sources.
     obind (invoke (sv_solve sv targets fault_sources)) (\<lambda>rc.
       case rc of None \<Rightarrow> refuse RECOVERY_REJECTED ''Impossible to find valid cut.''
       | Some rcut \<Rightarrow>
           obind (move RECOVERY_VALIDATING ''Validating cut in controlled replay.'') (\<lambda>_.
             case actx of
               None \<Rightarrow> refuse RECOVERY_REJECTED ''Missing or expired authenticated recovery access context.''
             | Some ctx \<Rightarrow>
                 obind (clock (sv_now sv)) (\<lambda>now.
                   if \<not> context_is_valid now ctx
                   then refuse RECOVERY_REJECTED ''Missing or expired authenticated recovery access context.''
                   else
                     obind (invoke (sv_validate_cut sv rcut (ee_invariants envelope) (ee_trace_id envelope)
                              (case tr_spans trc of Some x \<Rightarrow> x | None \<Rightarrow> []) ctx (ee_exogenous_variables envelope))) (\<lambda>val.
                     obind (emit (Checked now rcut ctx val)) (\<lambda>_.
                       if \<not> vr_invariants_satisfied val
                       then refuse RECOVERY_REJECTED ''Invariant validation failed.''
                       else authorize_and_canary sv trc graph envelope why ctx rcut val)))))))"

subsection \<open>The incident from start to end\<close>

text \<open>\<open>budget_usd or default\<close>: a missing and a zero budget both become the default.\<close>

definition or_default :: "rat option \<Rightarrow> rat \<Rightarrow> rat" where
  "or_default x d = (case x of None \<Rightarrow> d | Some v \<Rightarrow> if v = 0 then d else v)"

definition incident_body ::
    "'w services \<Rightarrow> failure_target list \<Rightarrow> access_context option \<Rightarrow> rat \<Rightarrow> 'w orchestration \<Rightarrow>
       ((exit, string) result \<times> 'w orchestration) option" where
  "incident_body sv targets actx loop_start s =
     (case prepare sv s of
        (Inl x, s1) \<Rightarrow> Some (Inl x, s1)
      | (Inr (trc, graph, candidates, envelope), s1) \<Rightarrow>
          (case experiment_loop sv envelope
                  \<lparr>lo_replays = [], lo_remaining = candidates, lo_valid = 0, lo_start = loop_start\<rparr> s1 of
             None \<Rightarrow> None
           | Some (Inl x, s2) \<Rightarrow> Some (Inl x, s2)
           | Some (Inr (outcome, why, l), s2) \<Rightarrow>
               Some (obind (conclude_evidence sv outcome why l)
                 (\<lambda>_. plan_recovery sv targets actx trc graph envelope why) s2)))"

text \<open>The handler closes the incident unless it is in a state the code lists as terminal.\<close>

definition fail_closed :: "string \<Rightarrow> 'w orchestration \<Rightarrow> (exit, string) result \<times> 'w orchestration" where
  "fail_closed e s =
     (if in_status (os_incident s) \<notin> {CLOSED, RECOVERED, RECOVERY_REJECTED, EVIDENCE_INSUFFICIENT}
      then obind (move CLOSED (''Fatal error: '' @ e)) (\<lambda>_. give []) s
      else give [] s)"

definition process_incident ::
    "'w services \<Rightarrow> rat \<Rightarrow> rat \<Rightarrow> failure_target list \<Rightarrow> access_context option \<Rightarrow> rat option \<Rightarrow> rat option \<Rightarrow>
       'w orchestration \<Rightarrow> ((exit, string) result \<times> 'w orchestration) option" where
  "process_incident sv default_budget default_time targets actx budget time_budget s0 =
     (let s1 = s0\<lparr>os_context := new_context (or_default budget default_budget) (or_default time_budget default_time)\<rparr>;
          (loop_start, w) = sv_monotonic sv (os_world s1)
      in map_option (\<lambda>(r, s).
           case r of
             Inr c \<Rightarrow> (Inr c, s)
           | Inl (Returned c) \<Rightarrow> (Inr c, s)
           | Inl (Raised e) \<Rightarrow> fail_closed e s)
         (incident_body sv targets actx loop_start (s1\<lparr>os_world := w\<rparr>)))"

subsection \<open>Reasoning about programs\<close>

text \<open>\<open>wp m Q X s\<close>: the normal outcome of \<open>m\<close> satisfies \<open>Q\<close>, leaving early satisfies \<open>X\<close>.\<close>

definition wp :: "('w, 'a) prog \<Rightarrow> ('a \<Rightarrow> 'w orchestration \<Rightarrow> bool) \<Rightarrow> (exit \<Rightarrow> 'w orchestration \<Rightarrow> bool) \<Rightarrow>
    'w orchestration \<Rightarrow> bool" where
  "wp m Q X s = (case m s of (Inl x, s') \<Rightarrow> X x s' | (Inr a, s') \<Rightarrow> Q a s')"

lemma wp_obind [simp]: "wp (obind m f) Q X s = wp m (\<lambda>a. wp (f a) Q X) X s"
  by (auto simp: wp_def obind_def split: prod.splits sum.splits)

lemma wp_look [simp]: "wp (look f) Q X s = Q (f s) s"
  by (simp add: wp_def look_def)

lemma wp_give [simp]: "wp (give a) Q X s = Q a s"
  by (simp add: wp_def give_def)

lemma wp_leave [simp]: "wp (leave r) Q X s = X (Returned r) s"
  by (simp add: wp_def leave_def)

lemma wp_raise [simp]: "wp (raise e) Q X s = X (Raised e) s"
  by (simp add: wp_def raise_def)

lemma wp_modify [simp]: "wp (modify f) Q X s = Q () (f s)"
  by (simp add: wp_def modify_def)

lemma wp_mono: "wp m Q X s \<Longrightarrow> (\<And>a s. Q a s \<Longrightarrow> Q' a s) \<Longrightarrow> (\<And>x s. X x s \<Longrightarrow> X' x s) \<Longrightarrow> wp m Q' X' s"
  by (auto simp: wp_def split: prod.splits sum.splits)

lemma wp_invoke [simp]:
  "wp (invoke c) Q X s = (case c (os_world s) of
      (Inl e, w) \<Rightarrow> X (Raised e) (s\<lparr>os_world := w\<rparr>) | (Inr a, w) \<Rightarrow> Q a (s\<lparr>os_world := w\<rparr>))"
  by (auto simp: wp_def invoke_def split: prod.splits sum.splits)

lemma wp_clock [simp]: "wp (clock c) Q X s = (case c (os_world s) of (t, w) \<Rightarrow> Q t (s\<lparr>os_world := w\<rparr>))"
  by (auto simp: wp_def clock_def split: prod.splits)

lemma wp_on_exception [simp]: "wp (on_exception m h) Q X s = wp m Q (\<lambda>x s'. X x (h s')) s"
  by (auto simp: wp_def on_exception_def split: prod.splits sum.splits)

lemma wp_move:
  "wp (move t reason) Q X s = (case incident_transition t reason (os_incident s) of
      Inl e \<Rightarrow> X (Raised ''invalid transition'') s | Inr i \<Rightarrow> Q () (s\<lparr>os_incident := i\<rparr>))"
  by (auto simp: wp_def move_def split: sum.splits)

lemmas wp_splits = prod.splits sum.splits option.splits if_splits

subsection \<open>Gates\<close>

text \<open>The statuses an incident has passed, from its transition log.\<close>

definition visited :: "incident \<Rightarrow> incident_status set" where
  "visited i = set (map le_to (incident_log i))"

text \<open>A non-empty batch of replays of this run passed the divergence validation.\<close>

definition evidence_seen :: "event list \<Rightarrow> bool" where
  "evidence_seen evs \<longleftrightarrow> (\<exists>replays rep. Judged replays rep \<in> set evs \<and> replays \<noteq> [] \<and> dr_valid rep \<and> \<not> dr_early_terminated rep)"

text \<open>A cut was validated under a valid access context, found eligible, and authorized with the capabilities of that context.\<close>

definition checked :: "recovery_cut \<Rightarrow> access_context \<Rightarrow> validation_result \<Rightarrow> event list \<Rightarrow> bool" where
  "checked rcut ctx val evs \<longleftrightarrow> (\<exists>now. context_is_valid now ctx \<and> Checked now rcut ctx val \<in> set evs)"

definition gates_passed :: "access_context option \<Rightarrow> event list \<Rightarrow> bool" where
  "gates_passed actx evs \<longleftrightarrow> (\<exists>ctx rcut val. actx = Some ctx \<and> checked rcut ctx val evs \<and>
     vr_invariants_satisfied val \<and> vr_eligible_for_canary val \<and>
     Authorized val (cx_capabilities ctx) True \<in> set evs)"

fun recorded :: "event list \<Rightarrow> incident_certificate list" where
  "recorded [] = []"
| "recorded (Recorded c # evs) = c # recorded evs"
| "recorded (_ # evs) = recorded evs"

lemma recorded_append [simp]: "recorded (xs @ ys) = recorded xs @ recorded ys"
  by (induction xs rule: recorded.induct) auto

lemma evidence_seen_mono [intro]: "evidence_seen evs \<Longrightarrow> evidence_seen (evs @ later)"
  by (auto simp: evidence_seen_def)

lemma checkedI [intro!]: "context_is_valid now ctx \<Longrightarrow> checked rcut ctx val (evs @ [Checked now rcut ctx val])"
  by (auto simp: checked_def)

lemma checked_mono [intro]: "checked rcut ctx val evs \<Longrightarrow> checked rcut ctx val (evs @ later)"
  by (auto simp: checked_def)

lemma gates_passed_mono [intro]: "gates_passed actx evs \<Longrightarrow> gates_passed actx (evs @ later)"
  unfolding gates_passed_def by auto

text \<open>The invariant of the incident and its history.\<close>

definition quiet :: "access_context option \<Rightarrow> incident \<Rightarrow> event list \<Rightarrow> bool" where
  "quiet actx i evs \<longleftrightarrow> incident_reachable i \<and> in_status i \<noteq> RECOVERED \<and>
     (EVIDENCE_SUFFICIENT \<in> visited i \<longrightarrow> evidence_seen evs) \<and> (CANARY \<in> visited i \<longrightarrow> gates_passed actx evs)"

lemma quiet_mono [intro]: "quiet actx i evs \<Longrightarrow> quiet actx i (evs @ later)"
  by (auto simp: quiet_def)

text \<open>A certificate is handed out at most once, after all gates, and only where the envelope has no identifier.\<close>

definition settled :: "access_context option \<Rightarrow> 'w orchestration \<Rightarrow> bool" where
  "settled actx s \<longleftrightarrow> quiet actx (os_incident s) (os_events s) \<and> length (recorded (os_events s)) \<le> 1 \<and>
     (recorded (os_events s) \<noteq> [] \<longrightarrow> \<not> truthy (os_envelope_id s) \<and> gates_passed actx (os_events s))"

text \<open>How the body may be left early.\<close>

definition exit_ok :: "access_context option \<Rightarrow> exit \<Rightarrow> 'w orchestration \<Rightarrow> bool" where
  "exit_ok actx x s \<longleftrightarrow> settled actx s \<and>
     (\<forall>r. x = Returned r \<longrightarrow> r = [] \<and> recorded (os_events s) = [] \<and>
        in_status (os_incident s) \<in> {RECOVERY_REJECTED, EVIDENCE_INSUFFICIENT})"

definition before :: "access_context option \<Rightarrow> 'w orchestration \<Rightarrow> bool" where
  "before actx s \<longleftrightarrow> quiet actx (os_incident s) (os_events s) \<and> recorded (os_events s) = []"

lemma before_raised: "before actx s \<Longrightarrow> exit_ok actx (Raised e) s"
  by (simp add: exit_ok_def before_def settled_def)

lemma quiet_move:
  assumes "quiet actx j evs" "incident_transition t reason j = Inr i" "t \<noteq> RECOVERED"
    and "t = EVIDENCE_SUFFICIENT \<Longrightarrow> evidence_seen evs" "t = CANARY \<Longrightarrow> gates_passed actx evs"
  shows "quiet actx i evs \<and> in_status i = t"
proof -
  have "incident_reachable i" using assms(1,2) by (auto simp: quiet_def intro: incident_reachable.step)
  moreover note incident_transition_Inr [OF assms(2)]
  ultimately show ?thesis using assms by (auto simp: quiet_def visited_def)
qed

lemma before_move:
  assumes "before actx s" "t \<noteq> RECOVERED" "t = EVIDENCE_SUFFICIENT \<Longrightarrow> evidence_seen (os_events s)"
    and "t = CANARY \<Longrightarrow> gates_passed actx (os_events s)"
    and "\<And>i. quiet actx i (os_events s) \<Longrightarrow> in_status i = t \<Longrightarrow> Q () (s\<lparr>os_incident := i\<rparr>)"
  shows "wp (move t reason) Q (exit_ok actx) s"
  using assms quiet_move [of actx "os_incident s" "os_events s" t reason]
  by (auto simp: wp_move before_def intro!: before_raised split: sum.splits)

lemma before_refuse:
  assumes "before actx s" "t \<in> {RECOVERY_REJECTED, EVIDENCE_INSUFFICIENT}"
  shows "wp (refuse t reason) Q (exit_ok actx) s"
  unfolding refuse_def wp_obind
  by (rule before_move) (use assms in \<open>auto simp: exit_ok_def before_def settled_def\<close>)

lemmas before_intros = before_move before_refuse before_raised quiet_mono

subsection \<open>Every stage keeps the gates\<close>

lemma prepare_ok: "before actx s \<Longrightarrow> wp (prepare sv) (\<lambda>_. before actx) (exit_ok actx) s"
  unfolding prepare_def
  by (auto simp: before_def intro!: before_intros split: prod.splits sum.splits option.splits)

lemma execute_reserved_ok:
  assumes "before actx s"
  shows "wp (execute_reserved sv e)
    (\<lambda>_ s'. before actx s' \<and> (evidence_seen (os_events s) \<longrightarrow> evidence_seen (os_events s'))) (exit_ok actx) s"
proof -
  have q: "quiet actx (os_incident s) (os_events s @ [x])" "evidence_seen (os_events s) \<longrightarrow> evidence_seen (os_events s @ [x])" for x
    using assms by (auto simp: before_def)
  show ?thesis using assms unfolding execute_reserved_def emit_def
    by (auto simp: before_def q intro!: before_raised split: prod.splits sum.splits option.splits)
qed

definition turn_ok :: "turn \<Rightarrow> event list \<Rightarrow> bool" where
  "turn_ok t evs = (case t of
     Again l \<Rightarrow> 0 < lo_valid l \<longrightarrow> evidence_seen evs
   | Stopped outcome why l \<Rightarrow> outcome = CONFIRMED \<longrightarrow> evidence_seen evs)"

lemma turn_ok_simps [simp]:
  "turn_ok (Again l) evs \<longleftrightarrow> (0 < lo_valid l \<longrightarrow> evidence_seen evs)"
  "turn_ok (Stopped outcome why l) evs \<longleftrightarrow> (outcome = CONFIRMED \<longrightarrow> evidence_seen evs)"
  by (simp_all add: turn_ok_def)

definition turn_post :: "access_context option \<Rightarrow> turn \<Rightarrow> 'w orchestration \<Rightarrow> bool" where
  "turn_post actx t s \<longleftrightarrow> before actx s \<and> turn_ok t (os_events s)"

lemma turn_postI [intro!]: "before actx s \<Longrightarrow> turn_ok t (os_events s) \<Longrightarrow> turn_post actx t s"
  by (simp add: turn_post_def)

lemma absorb_evidence_ok:
  "before actx s \<Longrightarrow> (replays \<noteq> [] \<Longrightarrow> evidence_seen (os_events s)) \<Longrightarrow> (0 < lo_valid l \<Longrightarrow> evidence_seen (os_events s)) \<Longrightarrow>
     wp (absorb_evidence sv replays l) (turn_post actx) (exit_ok actx) s"
  unfolding absorb_evidence_def
  by (auto simp: before_def intro!: before_raised split: prod.splits sum.splits option.splits)

lemma judge_evidence_ok:
  assumes "before actx s" "0 < lo_valid l \<Longrightarrow> evidence_seen (os_events s)"
  shows "wp (judge_evidence sv envelope replays l) (turn_post actx) (exit_ok actx) s"
proof -
  have seen: "evidence_seen (os_events s @ [Judged replays rep])" if "replays \<noteq> []" "dr_valid rep" "\<not> dr_early_terminated rep" for rep
    using that by (auto simp: evidence_seen_def)
  have kept: "0 < lo_valid l \<Longrightarrow> evidence_seen (os_events s @ [x])" for x
    using assms(2) by auto
  show ?thesis using assms(1) unfolding judge_evidence_def emit_def
    by (auto simp: before_def intro!: before_intros absorb_evidence_ok intro: seen kept split: prod.splits sum.splits)
qed

lemma turn_of_loop_ok:
  assumes "before actx s" "0 < lo_valid l \<Longrightarrow> evidence_seen (os_events s)"
  shows "wp (turn_of_loop sv envelope l) (turn_post actx) (exit_ok actx) s"
proof -
  have run: "wp (run_experiment sv envelope e l) (turn_post actx) (exit_ok actx) s'"
    if "before actx s'" "os_events s' = os_events s" for e s'
    unfolding run_experiment_def wp_obind
    by (rule wp_mono [OF execute_reserved_ok [OF that(1)]]) (use assms(2) that(2) in \<open>auto intro!: judge_evidence_ok\<close>)
  have stop: "wp (exhausted_turn sv l) (turn_post actx) (exit_ok actx) s'"
    if "before actx s'" "os_events s' = os_events s" for s'
    using that assms(2) unfolding exhausted_turn_def
    by (auto simp: before_def intro!: before_raised split: prod.splits sum.splits)
  show ?thesis using assms unfolding turn_of_loop_def
    by (auto simp: before_def intro!: before_raised run stop split: prod.splits sum.splits option.splits)
qed

lemma experiment_loop_ok:
  assumes "experiment_loop sv envelope l s = Some (r, s')" "before actx s" "0 < lo_valid l \<Longrightarrow> evidence_seen (os_events s)"
  shows "case r of Inl x \<Rightarrow> exit_ok actx x s'
    | Inr (outcome, why, l') \<Rightarrow> before actx s' \<and> (outcome = CONFIRMED \<longrightarrow> evidence_seen (os_events s'))"
proof -
  let ?post = "\<lambda>y. case y of (Inl x, s') \<Rightarrow> exit_ok actx x s'
      | (Inr (outcome, why, l'), s') \<Rightarrow> before actx s' \<and> (outcome = CONFIRMED \<longrightarrow> evidence_seen (os_events s'))"
  have "(\<lambda>sv envelope l s y. before actx s \<longrightarrow> (0 < lo_valid l \<longrightarrow> evidence_seen (os_events s)) \<longrightarrow> ?post y)
     sv envelope l s (r, s')"
  proof (rule experiment_loop.raw_induct [OF _ assms(1)], goal_cases)
    case (1 loop sv envelope l s y)
    show ?case
    proof (intro impI)
      assume b: "before actx s" and e: "0 < lo_valid l \<longrightarrow> evidence_seen (os_events s)"
      note ok = turn_of_loop_ok [OF b e [rule_format], where sv=sv and envelope=envelope, unfolded wp_def turn_post_def]
      show "?post y" using ok 1(1) 1(2) by (fastforce split: prod.splits sum.splits turn.splits)
    qed
  qed
  then show ?thesis using assms by (auto split: sum.splits)
qed

lemma conclude_evidence_ok:
  assumes "before actx s" "outcome = CONFIRMED \<longrightarrow> evidence_seen (os_events s)"
  shows "wp (conclude_evidence sv outcome why l) (\<lambda>_. before actx) (exit_ok actx) s"
  using assms unfolding conclude_evidence_def
  by (auto simp: before_def intro!: before_intros split: prod.splits sum.splits)

text \<open>The normal end: the certificate was recorded and the incident closed.\<close>

definition finished :: "access_context option \<Rightarrow> string \<Rightarrow> 'w orchestration \<Rightarrow> bool" where
  "finished actx c s \<longleftrightarrow> settled actx s \<and> in_status (os_incident s) = CLOSED \<and> length (recorded (os_events s)) = 1"

lemma record_outcome_ok:
  assumes "before actx s" "\<not> truthy (os_envelope_id s)" "gates_passed actx (os_events s)"
  shows "wp (record_outcome sv trc graph envelope why rcut) (finished actx) (exit_ok actx) s"
  using assms quiet_move [of actx "os_incident s" _ CLOSED "''Incident fully resolved.''"]
  unfolding record_outcome_def emit_def
  by (auto simp: wp_move exit_ok_def settled_def finished_def before_def split: prod.splits sum.splits)

lemma authorize_and_canary_ok:
  assumes "before actx s" "actx = Some ctx" "checked rcut ctx val (os_events s)"
    and "vr_invariants_satisfied val"
  shows "wp (authorize_and_canary sv trc graph envelope why ctx rcut val) (finished actx) (exit_ok actx) s"
proof -
  have g: "gates_passed actx (os_events s @ [Authorized val (cx_capabilities ctx) ok])" if "vr_eligible_for_canary val" ok for ok
    using assms that unfolding gates_passed_def by auto
  show ?thesis using assms(1) unfolding authorize_and_canary_def emit_def
    by (auto simp: before_def intro!: before_intros record_outcome_ok g split: prod.splits sum.splits)
qed

lemma plan_recovery_ok:
  assumes "before actx s"
  shows "wp (plan_recovery sv targets actx trc graph envelope why) (finished actx) (exit_ok actx) s"
  using assms unfolding plan_recovery_def emit_def
  by (auto simp: before_def intro!: before_intros authorize_and_canary_ok split: prod.splits sum.splits option.splits)

lemma incident_body_ok:
  assumes "incident_body sv targets actx t s = Some (r, s')" "before actx s"
  shows "case r of Inl x \<Rightarrow> exit_ok actx x s' | Inr c \<Rightarrow> finished actx c s'"
proof -
  obtain p s1 where p: "prepare sv s = (p, s1)" by fastforce
  note pre = prepare_ok [OF assms(2), of sv, unfolded wp_def p, simplified]
  show ?thesis
  proof (cases p)
    case (Inl x)
    then show ?thesis using p pre assms(1) by (auto simp: incident_body_def)
  next
    case (Inr q)
    obtain trc graph cs envelope where q: "q = (trc, graph, cs, envelope)" by (cases q)
    let ?l = "\<lparr>lo_replays = [], lo_remaining = cs, lo_valid = 0, lo_start = t\<rparr>"
    obtain r2 s2 where lp: "experiment_loop sv envelope ?l s1 = Some (r2, s2)"
      using assms(1) p Inr q by (auto simp: incident_body_def split: option.splits)
    have lo: "case r2 of Inl x \<Rightarrow> exit_ok actx x s2
      | Inr (outcome, why, l') \<Rightarrow> before actx s2 \<and> (outcome = CONFIRMED \<longrightarrow> evidence_seen (os_events s2))"
      by (rule experiment_loop_ok [OF lp]) (use pre Inr in auto)
    show ?thesis
    proof (cases r2)
      case (Inl x)
      then show ?thesis using lo lp p \<open>p = Inr q\<close> q assms(1) by (auto simp: incident_body_def)
    next
      case ok: (Inr z)
      obtain oc why l where z: "z = (oc, why, l)" by (cases z)
      have "before actx s2" "oc = CONFIRMED \<longrightarrow> evidence_seen (os_events s2)" using lo ok z by auto
      then have "wp (obind (conclude_evidence sv oc why l) (\<lambda>_. plan_recovery sv targets actx trc graph envelope why))
          (finished actx) (exit_ok actx) s2"
        unfolding wp_obind by (rule wp_mono [OF conclude_evidence_ok]) (auto intro: plan_recovery_ok)
      then show ?thesis using lp p \<open>p = Inr q\<close> q ok z assms(1)
        by (auto simp: incident_body_def wp_def split: sum.splits prod.splits)
    qed
  qed
qed

subsection \<open>The decision fails closed\<close>

lemma fail_closed_returns: "\<exists>s'. fail_closed e s = (Inr [], s') \<and> os_context s' = os_context s \<and> os_events s' = os_events s \<and>
    os_envelope_id s' = os_envelope_id s \<and>
    (if in_status (os_incident s) \<in> {CLOSED, RECOVERED, RECOVERY_REJECTED, EVIDENCE_INSUFFICIENT} then os_incident s' = os_incident s
     else incident_transition CLOSED (''Fatal error: '' @ e) (os_incident s) = Inr (os_incident s'))"
  by (cases "in_status (os_incident s)")
     (auto simp: fail_closed_def obind_def move_def give_def incident_transition_def Let_def)

lemma fail_closed_ok:
  assumes "exit_ok actx (Raised x) s" "fail_closed e s = (r, s')"
  shows "r = Inr [] \<and> settled actx s' \<and> in_status (os_incident s') \<in> {CLOSED, RECOVERY_REJECTED, EVIDENCE_INSUFFICIENT}"
proof -
  have st: "settled actx s" using assms(1) by (simp add: exit_ok_def)
  then have nr: "in_status (os_incident s) \<noteq> RECOVERED" by (simp add: settled_def quiet_def)
  from fail_closed_returns [of e s] assms(2) have r: "r = Inr []" "os_events s' = os_events s" "os_envelope_id s' = os_envelope_id s"
    and i: "if in_status (os_incident s) \<in> {CLOSED, RECOVERED, RECOVERY_REJECTED, EVIDENCE_INSUFFICIENT} then os_incident s' = os_incident s
     else incident_transition CLOSED (''Fatal error: '' @ e) (os_incident s) = Inr (os_incident s')" by auto
  show ?thesis
  proof (cases "in_status (os_incident s) \<in> {CLOSED, RECOVERED, RECOVERY_REJECTED, EVIDENCE_INSUFFICIENT}")
    case True
    then show ?thesis using st r i nr by (auto simp: settled_def)
  next
    case False
    then have "incident_transition CLOSED (''Fatal error: '' @ e) (os_incident s) = Inr (os_incident s')" using i by simp
    moreover have "quiet actx (os_incident s) (os_events s)" using st by (simp add: settled_def)
    ultimately show ?thesis using quiet_move [of actx "os_incident s" "os_events s" CLOSED] st r by (auto simp: settled_def)
  qed
qed

text \<open>
  C5. The orchestrator fails closed. Whatever the injected objects answer or raise, if processing a freshly observed
  incident ends, it ends with a returned value and the incident is closed, rejected or lacks evidence, never
  recovered. Its log shows sufficient evidence only if a non-empty batch of replays of this run passed divergence
  validation, and shows the canary only if a cut was validated under a valid access context, found eligible and
  authorized. A certificate is recorded at most once, only past all those gates and only where the envelope has no
  identifier, and a non-empty result is only returned with a recorded certificate.
\<close>

theorem orchestrator_fails_closed:
  assumes "process_incident sv db dt targets actx budget time s = Some (r, s')"
    and "os_incident s = \<lparr>in_status = OBSERVING, in_transition_log = None\<rparr>" "os_events s = []"
  shows "\<exists>c. r = Inr c \<and> in_status (os_incident s') \<in> {CLOSED, RECOVERY_REJECTED, EVIDENCE_INSUFFICIENT} \<and>
    (EVIDENCE_SUFFICIENT \<in> visited (os_incident s') \<longrightarrow> evidence_seen (os_events s')) \<and>
    (CANARY \<in> visited (os_incident s') \<longrightarrow> gates_passed actx (os_events s')) \<and>
    length (recorded (os_events s')) \<le> 1 \<and>
    (recorded (os_events s') \<noteq> [] \<longrightarrow> \<not> truthy (os_envelope_id s') \<and> gates_passed actx (os_events s')) \<and>
    (c \<noteq> [] \<longrightarrow> recorded (os_events s') \<noteq> [])"
proof -
  let ?s1 = "s\<lparr>os_context := new_context (or_default budget db) (or_default time dt)\<rparr>"
  obtain t w where t: "sv_monotonic sv (os_world s) = (t, w)" by fastforce
  let ?s2 = "?s1\<lparr>os_world := w\<rparr>"
  have "before actx ?s2"
    using assms(2,3) by (auto simp: before_def quiet_def visited_def incident_log_def incident_reachable.start)
  moreover obtain rb sb where b: "incident_body sv targets actx t ?s2 = Some (rb, sb)"
    "(r, s') = (case rb of Inr c \<Rightarrow> (Inr c, sb) | Inl (Returned c) \<Rightarrow> (Inr c, sb) | Inl (Raised e) \<Rightarrow> fail_closed e sb)"
    using assms(1) t by (auto simp: process_incident_def)
  ultimately have body: "case rb of Inl x \<Rightarrow> exit_ok actx x sb | Inr c \<Rightarrow> finished actx c sb"
    using incident_body_ok by blast
  have "\<exists>c. r = Inr c \<and> settled actx s' \<and> in_status (os_incident s') \<in> {CLOSED, RECOVERY_REJECTED, EVIDENCE_INSUFFICIENT} \<and>
      (c \<noteq> [] \<longrightarrow> recorded (os_events s') \<noteq> [])"
  proof (cases rb)
    case (Inr c)
    then show ?thesis using body b(2) by (auto simp: finished_def)
  next
    case (Inl x)
    show ?thesis
    proof (cases x)
      case (Returned c)
      then show ?thesis using Inl body b(2) by (auto simp: exit_ok_def)
    next
      case (Raised e)
      then have "exit_ok actx (Raised e) sb" "fail_closed e sb = (r, s')" using Inl body b(2) by auto
      from fail_closed_ok [OF this] show ?thesis by simp
    qed
  qed
  then show ?thesis by (auto simp: settled_def quiet_def)
qed

subsection \<open>What the loop relies on in the planner\<close>

text \<open>
  The loop has no iteration bound of its own. It ends because the planner only returns an experiment of a candidate it
  was offered, and the orchestrator takes that candidate away; no budget stays reserved because every reservation the
  planner makes in the context is committed or released, unless the sum of the reported costs raises in between.
\<close>

text \<open>After the first \<open>n\<close> answers a batch of replays was returned with a reported cost that is no number.\<close>

definition bad_cost :: "pytext \<Rightarrow> nat \<Rightarrow> event list \<Rightarrow> bool" where
  "bad_cost P n evs \<longleftrightarrow> (\<exists>replays r. Executed replays \<in> set (drop n evs) \<and> r \<in> set replays \<and> isl (reported_cost P r))"

lemma total_cost_raises: "isl (total_cost P rs) \<longleftrightarrow> (\<exists>r\<in>set rs. isl (reported_cost P r))"
proof (induction rs)
  case (Cons r rs)
  then show ?case by (cases "reported_cost P r"; cases "total_cost P rs") auto
qed simp

locale planner_contract =
  fixes sv :: "'w services"
  assumes plan_offered: "sv_plan sv envelope cs b ctx w = (Inr (Some e, ctx'), w') \<Longrightarrow> \<exists>c\<in>set cs. cand_id c = cand_id e"
    and plan_reserved: "sv_plan sv envelope cs b ctx w = (Inr (Some e, ctx'), w') \<Longrightarrow>
      \<exists>rsv est i. ex_reservation e = Some rsv \<and> reserve est i ctx = (Some rsv, ctx')"
    and plan_none: "sv_plan sv envelope cs b ctx w = (Inr (None, ctx'), w') \<Longrightarrow> ctx' = ctx"
begin

text \<open>What is reserved, and the number of answers the run began with.\<close>

definition held :: "rat \<times> int \<times> nat \<Rightarrow> 'w orchestration \<Rightarrow> bool" where
  "held h s \<longleftrightarrow> rc_reserved (os_context s) = fst h \<and> rc_reserved_count (os_context s) = fst (snd h) \<and>
     snd (snd h) \<le> length (os_events s)"

definition left :: "rat \<times> int \<times> nat \<Rightarrow> 'w orchestration \<Rightarrow> bool" where
  "left h s \<longleftrightarrow> held h s \<or> bad_cost (sv_pytext sv) (snd (snd h)) (os_events s)"

lemma held_left [intro]: "held h s \<Longrightarrow> left h s"
  by (simp add: left_def)

lemma held_exec:
  assumes "ex_reservation e = Some rsv" "reserve est i ctx = (Some rsv, os_context s)"
    and "fst h = rc_reserved ctx" "fst (snd h) = rc_reserved_count ctx" "snd (snd h) \<le> length (os_events s)"
  shows "wp (execute_reserved sv e) (\<lambda>_. held h) (\<lambda>_. left h) s"
proof -
  have r: "rc_reserved (os_context s) = rc_reserved ctx + est_cost (rsv_estimate rsv)"
    "rc_reserved_count (os_context s) = rc_reserved_count ctx + est_count (rsv_estimate rsv)"
    "\<not> rsv_committed rsv" "\<not> rsv_released rsv" "rsv_attached rsv"
    using assms(2) by (auto simp: reserve_def split: if_splits dest!: sym [of _ "os_context s"])
  have bad: "bad_cost (sv_pytext sv) (snd (snd h)) (os_events s @ [Executed rs])" if "total_cost (sv_pytext sv) rs = Inl x" for rs x
  proof -
    have "\<exists>r\<in>set rs. isl (reported_cost (sv_pytext sv) r)" using that total_cost_raises [of "sv_pytext sv" rs] by simp
    then show ?thesis using assms(5) by (auto simp: bad_cost_def)
  qed
  show ?thesis using assms(1,3,4,5) r unfolding execute_reserved_def emit_def
    by (auto simp: held_def left_def reservation_commit_def reservation_release_def reconcile_def context_release_def bad
        split: prod.splits sum.splits)
qed

lemma held_judge:
  "held h s \<Longrightarrow> wp (judge_evidence sv envelope replays l)
     (\<lambda>t s'. held h s' \<and> (case t of Again l' \<Rightarrow> lo_remaining l' = lo_remaining l | Stopped _ _ _ \<Rightarrow> True)) (\<lambda>_. held h) s"
  unfolding judge_evidence_def absorb_evidence_def emit_def refuse_def
  by (auto simp: held_def wp_move split: prod.splits sum.splits option.splits)

definition progress :: "rat \<times> int \<times> nat \<Rightarrow> loop_locals \<Rightarrow> turn \<Rightarrow> 'w orchestration \<Rightarrow> bool" where
  "progress h l t s \<longleftrightarrow> held h s \<and>
     (case t of Again l' \<Rightarrow> length (lo_remaining l') < length (lo_remaining l) | Stopped _ _ _ \<Rightarrow> True)"

lemma progress_run:
  assumes "sv_plan sv envelope (lo_remaining l) b ctx w = (Inr (Some e, os_context s), w')"
    and "fst h = rc_reserved ctx" "fst (snd h) = rc_reserved_count ctx" "snd (snd h) \<le> length (os_events s)"
  shows "wp (run_experiment sv envelope e l) (progress h l) (\<lambda>_. left h) s"
proof -
  from plan_reserved [OF assms(1)] obtain rsv est i where
    "ex_reservation e = Some rsv" "reserve est i ctx = (Some rsv, os_context s)" by blast
  note ex = held_exec [OF this assms(2-4)]
  from plan_offered [OF assms(1)] obtain c where "c \<in> set (lo_remaining l)" "cand_id c = cand_id e" by blast
  then have "length (filter (\<lambda>c. cand_id c \<noteq> cand_id e) (lo_remaining l)) < length (lo_remaining l)"
    by (intro length_filter_less [of c]) auto
  then show ?thesis unfolding run_experiment_def wp_obind
    by (intro wp_mono [OF ex] wp_mono [OF held_judge]) (auto simp: progress_def split: turn.splits)
qed

lemma progress_stop: "held h s \<Longrightarrow> wp (exhausted_turn sv l) (progress h l) (\<lambda>_. left h) s"
  unfolding exhausted_turn_def by (auto simp: held_def left_def progress_def split: prod.splits sum.splits)

lemma turn_progress:
  assumes "held h s"
  shows "wp (turn_of_loop sv envelope l) (progress h l) (\<lambda>_. left h) s"
proof -
  let ?ctx = "\<lambda>x. (os_context s)\<lparr>rc_elapsed := x\<rparr>"
  have run: "wp (run_experiment sv envelope e l) (progress h l) (\<lambda>_. left h) (s\<lparr>os_world := u, os_context := c\<rparr>)"
    if "sv_plan sv envelope (lo_remaining l) b (?ctx x) w = (Inr (Some e, c), w')" for b x w e c w' u
    by (rule progress_run [where ctx="?ctx x"]) (use that assms in \<open>auto simp: held_def\<close>)
  have stop: "wp (exhausted_turn sv l) (progress h l) (\<lambda>_. left h) (s\<lparr>os_world := u, os_context := c\<rparr>)"
    if "sv_plan sv envelope (lo_remaining l) b (?ctx x) w = (Inr (None, c), w')" for b x w c w' u
    by (rule progress_stop) (use plan_none [OF that] assms in \<open>auto simp: held_def\<close>)
  have h: "held h (s'\<lparr>os_world := w\<rparr>) = held h s'" "held h (s\<lparr>os_world := w, os_context := ?ctx x\<rparr>)"
    "held h (s\<lparr>os_context := ?ctx x\<rparr>)" "progress h l (Stopped oc why l) s' = held h s'" for s' w x oc why
    using assms by (simp_all add: held_def progress_def)
  show ?thesis unfolding turn_of_loop_def
    by (auto simp: h split: prod.splits sum.splits option.splits intro: run stop)
qed

lemma loop_returns:
  "held h s \<Longrightarrow> \<exists>r s'. experiment_loop sv envelope l s = Some (r, s') \<and> (case r of Inl _ \<Rightarrow> left h s' | Inr _ \<Rightarrow> held h s')"
proof (induction "length (lo_remaining l)" arbitrary: l s rule: less_induct)
  case less
  note step = turn_progress [OF less.prems, where envelope=envelope and l=l, unfolded wp_def progress_def]
  show ?case
  proof (cases "turn_of_loop sv envelope l s")
    case (Pair r s1)
    show ?thesis
    proof (cases r)
      case (Inl x)
      then show ?thesis using Pair step by (subst experiment_loop.simps) auto
    next
      case (Inr t)
      then show ?thesis using Pair step less.hyps by (subst experiment_loop.simps) (cases t; auto)
    qed
  qed
qed

lemma prepare_held: "held h s \<Longrightarrow> wp (prepare sv) (\<lambda>_. held h) (\<lambda>_. held h) s"
  unfolding prepare_def refuse_def by (auto simp: held_def wp_move split: prod.splits sum.splits option.splits)

lemma conclude_held: "held h s \<Longrightarrow> wp (conclude_evidence sv outcome why l) (\<lambda>_. held h) (\<lambda>_. held h) s"
  unfolding conclude_evidence_def refuse_def by (auto simp: held_def wp_move split: prod.splits sum.splits)

lemma canary_held: "held h s \<Longrightarrow>
    wp (authorize_and_canary sv trc graph envelope why ctx rcut val) (\<lambda>_. held h) (\<lambda>_. held h) s"
  unfolding authorize_and_canary_def record_outcome_def refuse_def emit_def
  by (auto simp: held_def wp_move split: prod.splits sum.splits)

lemma recovery_held:
  assumes "held h s"
  shows "wp (plan_recovery sv targets actx trc graph envelope why) (\<lambda>_. held h) (\<lambda>_. held h) s"
proof -
  have later: "held h s'" if "os_context s' = os_context s" "length (os_events s) \<le> length (os_events s')" for s'
    using assms that by (auto simp: held_def)
  show ?thesis unfolding plan_recovery_def refuse_def emit_def
    by (auto simp: wp_move intro!: canary_held later split: prod.splits sum.splits option.splits)
qed

lemma body_returns:
  assumes "held h s"
  shows "\<exists>r s'. incident_body sv targets actx t s = Some (r, s') \<and> left h s'"
proof -
  obtain p s1 where p: "prepare sv s = (p, s1)" by fastforce
  have s1: "held h s1" using prepare_held [OF assms] p by (auto simp: wp_def split: sum.splits)
  show ?thesis
  proof (cases p)
    case (Inl x)
    then show ?thesis using p s1 by (auto simp: incident_body_def)
  next
    case (Inr q)
    obtain trc graph cs envelope where q: "q = (trc, graph, cs, envelope)" by (cases q)
    obtain r2 s2 where lp: "case r2 of Inl _ \<Rightarrow> left h s2 | Inr _ \<Rightarrow> held h s2"
      "experiment_loop sv envelope \<lparr>lo_replays = [], lo_remaining = cs, lo_valid = 0, lo_start = t\<rparr> s1 = Some (r2, s2)"
      using loop_returns [OF s1] by blast
    show ?thesis
    proof (cases r2)
      case (Inl x)
      then show ?thesis using lp p \<open>p = Inr q\<close> q by (simp add: incident_body_def)
    next
      case ok: (Inr z)
      obtain oc why l where z: "z = (oc, why, l)" by (cases z)
      have s2: "held h s2" using lp(1) ok by simp
      let ?m = "obind (conclude_evidence sv oc why l) (\<lambda>_. plan_recovery sv targets actx trc graph envelope why)"
      have "wp ?m (\<lambda>_. held h) (\<lambda>_. held h) s2"
        unfolding wp_obind by (rule wp_mono [OF conclude_held [OF s2]]) (auto intro: recovery_held)
      then have "held h (snd (?m s2))" by (auto simp: wp_def split: prod.splits sum.splits)
      then show ?thesis using lp p \<open>p = Inr q\<close> q ok z by (cases "?m s2") (auto simp: incident_body_def)
    qed
  qed
qed

lemma incident_returns:
  "\<exists>c s'. process_incident sv db dt targets actx budget time s = Some (Inr c, s') \<and>
     (rc_reserved (os_context s') = 0 \<and> rc_reserved_count (os_context s') = 0 \<or>
      bad_cost (sv_pytext sv) (length (os_events s)) (os_events s'))"
proof -
  obtain t w where t: "sv_monotonic sv (os_world s) = (t, w)" by fastforce
  let ?s = "s\<lparr>os_context := new_context (or_default budget db) (or_default time dt), os_world := w\<rparr>"
  let ?h = "(0, 0, length (os_events s))"
  have "held ?h ?s" by (simp add: held_def new_context_def)
  from body_returns [OF this] obtain r s' where b: "incident_body sv targets actx t ?s = Some (r, s')" "left ?h s'" by blast
  show ?thesis
  proof (cases "\<exists>e. r = Inl (Raised e)")
    case True
    then obtain e where e: "r = Inl (Raised e)" by blast
    from fail_closed_returns [of e s'] obtain s2 where "fail_closed e s' = (Inr [], s2)" "os_context s2 = os_context s'"
      "os_events s2 = os_events s'" by blast
    then show ?thesis using b t e by (auto simp: process_incident_def held_def left_def)
  next
    case False
    then show ?thesis using b t by (auto simp: process_incident_def held_def left_def split: sum.splits exit.splits)
  qed
qed

end

subsection \<open>The orchestrator with the components of the repository\<close>

text \<open>
  The planner, stopping rule, divergence validator and recovery validator are the ones modelled here; the world holds
  their state next to the world of everything else, which \<open>rest\<close> supplies: trace and graph providers, envelope
  builder, gateway, executor, belief model, solver, policy, ledger and clocks. \<open>ids\<close> draws a fresh identifier.
\<close>

record 'x plant =
  pl_planner :: planner
  pl_rule :: stopping_rule
  pl_outside :: 'x

definition outside :: "('x, 'a) call \<Rightarrow> ('x plant, 'a) call" where
  "outside c w = (case c (pl_outside w) of (r, x) \<Rightarrow> (r, w\<lparr>pl_outside := x\<rparr>))"

definition outside_clock :: "('x \<Rightarrow> 'a \<times> 'x) \<Rightarrow> 'x plant \<Rightarrow> 'a \<times> 'x plant" where
  "outside_clock c w = (case c (pl_outside w) of (t, x) \<Rightarrow> (t, w\<lparr>pl_outside := x\<rparr>))"

definition plan_call ::
    "(rat \<Rightarrow> rat) \<Rightarrow> ('x \<Rightarrow> string \<times> 'x) \<Rightarrow> replay_envelope \<Rightarrow> candidate list \<Rightarrow> beliefs \<Rightarrow> resource_context \<Rightarrow>
       ('x plant, planned option \<times> resource_context) call" where
  "plan_call lg ids envelope cs b ctx w =
     (case ids (pl_outside w) of (i, x) \<Rightarrow>
        (case plan_next_experiment lg i (ee_trace_id envelope) cs b ctx (pl_planner w) of
           Inl ZeroDivision \<Rightarrow> (Inl ''float division by zero'', w\<lparr>pl_outside := x\<rparr>)
         | Inr (e, ctx', p) \<Rightarrow> (Inr (e, ctx'), w\<lparr>pl_planner := p, pl_outside := x\<rparr>)))"

definition sufficient_call ::
    "'x services \<Rightarrow> resource_context \<Rightarrow> candidate list \<Rightarrow> ('x plant, bool \<times> stopping_outcome \<times> stop_reason) call" where
  "sufficient_call rest ctx remaining w =
     (case outside (sv_current_beliefs rest) w of
        (Inl e, w1) \<Rightarrow> (Inl e, w1)
      | (Inr b, w1) \<Rightarrow>
          (case outside (sv_entropy rest) w1 of
             (Inl e, w2) \<Rightarrow> (Inl e, w2)
           | (Inr h, w2) \<Rightarrow>
               (case is_sufficient b h ctx remaining (pl_rule w2) of
                  Inl _ \<Rightarrow> (Inl ''max() iterable argument is empty'', w2)
                | Inr d \<Rightarrow> (Inr d, w2))))"

definition standard_services ::
    "(rat \<Rightarrow> rat) \<Rightarrow> ('x \<Rightarrow> string \<times> 'x) \<Rightarrow> validation_env \<Rightarrow> 'x services \<Rightarrow> 'x plant services" where
  "standard_services lg ids ve rest =
     \<lparr>sv_get_trace = (\<lambda>i. outside (sv_get_trace rest i)),
      sv_get_causal_graph = (\<lambda>i. outside (sv_get_causal_graph rest i)),
      sv_generate_candidates = (\<lambda>i. outside (sv_generate_candidates rest i)),
      sv_build_envelope = (\<lambda>i cs. outside (sv_build_envelope rest i cs)),
      sv_check_admissibility = (\<lambda>e. outside (sv_check_admissibility rest e)),
      sv_is_sufficient = sufficient_call rest,
      sv_record_iteration = Some (\<lambda>h w. (Inr (), w\<lparr>pl_rule := record_iteration h (pl_rule w)\<rparr>)),
      sv_plan = plan_call lg ids,
      sv_execute_replays = (\<lambda>es. outside (sv_execute_replays rest es)),
      sv_validate_divergence = (\<lambda>replays e w. (case validate_divergence (ve_env ve) (ve_text ve) replays (rules_of e) of
           Inl _ \<Rightarrow> Inl ''divergence validation raised'' | Inr rep \<Rightarrow> Inr rep, w)),
      sv_update_belief = (\<lambda>rs. outside (sv_update_belief rest rs)),
      sv_current_beliefs = outside (sv_current_beliefs rest),
      sv_entropy = outside (sv_entropy rest),
      sv_solve = (\<lambda>ts b. outside (sv_solve rest ts b)),
      sv_validate_cut = (\<lambda>rcut invs tid spans ctx exo w. (case validate_cut ve rcut invs tid spans (Some ctx) exo None of
           Inl _ \<Rightarrow> Inl ''recovery validation raised'' | Inr v \<Rightarrow> Inr v, w)),
      sv_authorize = (\<lambda>v cs. outside (sv_authorize rest v cs)),
      sv_record_certificate = (\<lambda>c. outside (sv_record_certificate rest c)),
      sv_monotonic = outside_clock (sv_monotonic rest),
      sv_now = outside_clock (sv_now rest),
      sv_text = sv_text rest,
      sv_report_text = sv_report_text rest,
      sv_pytext = sv_pytext rest\<rparr>"

lemma plan_call_cases:
  assumes "plan_call lg ids envelope cs b ctx w = (Inr (r, ctx'), w')"
  obtains (none) "r = None" "ctx' = ctx"
  | (some) e where "r = Some e" "chosen_experiment lg (pl_planner w) b cs ctx ctx' e"
proof -
  from assms obtain i p where "plan_next_experiment lg i (ee_trace_id envelope) cs b ctx (pl_planner w) = Inr (r, ctx', p)"
    by (auto simp: plan_call_def split: prod.splits sum.splits planner_error.splits)
  then show ?thesis by (cases rule: plan_cases) (use that in auto)
qed

interpretation std: planner_contract "standard_services lg ids ve rest" for lg ids ve rest
proof
  fix envelope cs b ctx w e ctx' w'
  assume "sv_plan (standard_services lg ids ve rest) envelope cs b ctx w = (Inr (Some e, ctx'), w')"
  then have p: "plan_call lg ids envelope cs b ctx w = (Inr (Some e, ctx'), w')" by (simp add: standard_services_def)
  from p have c: "chosen_experiment lg (pl_planner w) b cs ctx ctx' e" by (cases rule: plan_call_cases) auto
  then show "\<exists>c\<in>set cs. cand_id c = cand_id e" unfolding chosen_experiment_def by blast
  from c show "\<exists>rsv est i. ex_reservation e = Some rsv \<and> reserve est i ctx = (Some rsv, ctx')"
    unfolding chosen_experiment_def by blast
next
  fix envelope cs b ctx w ctx' w'
  assume "sv_plan (standard_services lg ids ve rest) envelope cs b ctx w = (Inr (None, ctx'), w')"
  then have p: "plan_call lg ids envelope cs b ctx w = (Inr (None, ctx'), w')" by (simp add: standard_services_def)
  then show "ctx' = ctx" by (cases rule: plan_call_cases) auto
qed

text \<open>
  C10. With the planner, the stopping rule and the validators of the repository the orchestrator always returns: from any
  state, whatever the other injected objects answer or raise, the experiment loop ends although it has no iteration
  bound and no exception leaves \<open>process_incident\<close>. No budget stays reserved, unless in this run the executor returned a
  replay whose reported cost \<open>float\<close> refuses: that exception is raised after the reservation was taken from the
  experiment and outside the handler that releases it, and leaves it open (\<open>refused_cost_leaves_reservation\<close> below).
\<close>

theorem orchestrator_returns:
  "\<exists>c s'. process_incident (standard_services lg ids ve rest) db dt targets actx budget time s = Some (Inr c, s') \<and>
     (rc_reserved (os_context s') = 0 \<and> rc_reserved_count (os_context s') = 0 \<or>
      (\<exists>replays r. Executed replays \<in> set (drop (length (os_events s)) (os_events s')) \<and> r \<in> set replays \<and>
         isl (reported_cost (sv_pytext rest) r)))"
  using std.incident_returns [of lg ids ve rest db dt targets actx budget time s]
  by (simp add: bad_cost_def standard_services_def)

text \<open>What the executor reports is summed after the reservation has left the experiment: a cost that is no number keeps it open.\<close>

lemma refused_cost_leaves_reservation:
  assumes "ex_reservation e = Some rsv" "sv_execute_replays sv [e\<lparr>ex_reservation := None\<rparr>] (snd (sv_monotonic sv (os_world s))) = (Inr replays, w)"
    and "r \<in> set replays" "rp_actual_cost_usd r = Some JNull"
  shows "\<exists>x s'. execute_reserved sv e s = (Inl (Raised x), s') \<and> os_context s' = os_context s"
proof -
  have "isl (total_cost (sv_pytext sv) replays)"
    using assms(3,4) total_cost_raises [of "sv_pytext sv" replays] by (auto simp: reported_cost_def py_float_def split: option.splits)
  then obtain x where "total_cost (sv_pytext sv) replays = Inl x" by (auto simp: isl_def)
  then show ?thesis using assms(1,2)
    by (auto simp: execute_reserved_def obind_def clock_def on_exception_def invoke_def emit_def modify_def raise_def split: prod.splits)
qed

subsection \<open>A run past every gate\<close>

definition sample_replay_envelope :: "string \<Rightarrow> replay_envelope" where
  "sample_replay_envelope tid = \<lparr>ee_trace_id = tid, ee_recovery_cut = sample_cut, ee_invariants = [], ee_snapshot_hash = [],
     ee_frozen_variables = [], ee_intervened_variables = [], ee_exogenous_variables = [], ee_allowed_causal_descendants = [],
     ee_forbidden_divergence_nodes = [], ee_constraints = [], ee_policy_binding = None, ee_trusted_time_binding = None,
     ee_sandbox_config = [], ee_schema_version = [], ee_graph_hash = [], ee_envelope_hash = []\<rparr>"

definition sample_verdict :: validation_result where
  "sample_verdict = \<lparr>vr_recovery_cut = sample_cut, vr_failure_resolved = True, vr_invariants = [],
     vr_invariants_satisfied = True, vr_divergence_report = [], vr_residual_risk = 0, vr_eligible_for_canary = True,
     vr_reason = ValidationPassed, vr_evidence_class = UNVERIFIED\<rparr>"

definition sample_planned :: planned where
  "sample_planned = candidate.extend (sample_candidate ''a'') (planned.fields [] 1 1 0 0 None)"

definition sample_replay_result :: replay_result where
  "sample_replay_result = \<lparr>rp_original_spans = None, rp_replay_spans = None, rp_spans = None, rp_status = Some ''completed'',
     rp_actual_cost_usd = None\<rparr>"

text \<open>Objects that agree to everything; \<open>tid\<close> is the trace id of the envelope.\<close>

definition sample_services :: "string \<Rightarrow> unit services" where
  "sample_services tid =
     \<lparr>sv_get_trace = (\<lambda>_ w. (Inr (Some \<lparr>tr_spans = None, tr_hash = None\<rparr>), w)),
      sv_get_causal_graph = (\<lambda>_ w. (Inr (Some \<lparr>tr_spans = None, tr_hash = None\<rparr>), w)),
      sv_generate_candidates = (\<lambda>_ w. (Inr [sample_candidate ''a''], w)),
      sv_build_envelope = (\<lambda>_ _ w. (Inr (sample_replay_envelope tid), w)),
      sv_check_admissibility = (\<lambda>_ w. (Inr True, w)),
      sv_is_sufficient = (\<lambda>_ _ w. (Inr (True, CONFIRMED, NoCandidates), w)),
      sv_record_iteration = None,
      sv_plan = (\<lambda>_ _ _ ctx w. (Inr (Some sample_planned, ctx), w)),
      sv_execute_replays = (\<lambda>_ w. (Inr [sample_replay_result], w)),
      sv_validate_divergence = (\<lambda>_ _ w. (Inr passed_report, w)),
      sv_update_belief = (\<lambda>_ w. (Inr [], w)), sv_current_beliefs = (\<lambda>w. (Inr [], w)), sv_entropy = (\<lambda>w. (Inr 0, w)),
      sv_solve = (\<lambda>_ _ w. (Inr (Some sample_cut), w)),
      sv_validate_cut = (\<lambda>_ _ _ _ _ _ w. (Inr sample_verdict, w)),
      sv_authorize = (\<lambda>_ _ w. (Inr True, w)),
      sv_record_certificate = (\<lambda>_ w. (Inr ''cert'', w)),
      sv_monotonic = (\<lambda>w. (0, w)), sv_now = (\<lambda>w. (0, w)), sv_text = (\<lambda>_. []), sv_report_text = (\<lambda>_. []),
      sv_pytext = sample_text\<rparr>"

lemma sample_services_fields:
  "sv_get_trace (sample_services tid) = (\<lambda>_ w. (Inr (Some \<lparr>tr_spans = None, tr_hash = None\<rparr>), w))"
  "sv_get_causal_graph (sample_services tid) = (\<lambda>_ w. (Inr (Some \<lparr>tr_spans = None, tr_hash = None\<rparr>), w))"
  "sv_generate_candidates (sample_services tid) = (\<lambda>_ w. (Inr [sample_candidate ''a''], w))"
  "sv_build_envelope (sample_services tid) = (\<lambda>_ _ w. (Inr (sample_replay_envelope tid), w))"
  "sv_check_admissibility (sample_services tid) = (\<lambda>_ w. (Inr True, w))"
  "sv_is_sufficient (sample_services tid) = (\<lambda>_ _ w. (Inr (True, CONFIRMED, NoCandidates), w))"
  "sv_record_iteration (sample_services tid) = None"
  "sv_plan (sample_services tid) = (\<lambda>_ _ _ ctx w. (Inr (Some sample_planned, ctx), w))"
  "sv_execute_replays (sample_services tid) = (\<lambda>_ w. (Inr [sample_replay_result], w))"
  "sv_validate_divergence (sample_services tid) = (\<lambda>_ _ w. (Inr passed_report, w))"
  "sv_update_belief (sample_services tid) = (\<lambda>_ w. (Inr [], w))"
  "sv_current_beliefs (sample_services tid) = (\<lambda>w. (Inr [], w))"
  "sv_entropy (sample_services tid) = (\<lambda>w. (Inr 0, w))"
  "sv_solve (sample_services tid) = (\<lambda>_ _ w. (Inr (Some sample_cut), w))"
  "sv_validate_cut (sample_services tid) = (\<lambda>_ _ _ _ _ _ w. (Inr sample_verdict, w))"
  "sv_authorize (sample_services tid) = (\<lambda>_ _ w. (Inr True, w))"
  "sv_record_certificate (sample_services tid) = (\<lambda>_ w. (Inr ''cert'', w))"
  "sv_monotonic (sample_services tid) = (\<lambda>w. (0, w))"
  "sv_now (sample_services tid) = (\<lambda>w. (0, w))"
  "sv_text (sample_services tid) = (\<lambda>_. [])"
  "sv_report_text (sample_services tid) = (\<lambda>_. [])"
  "sv_pytext (sample_services tid) = sample_text"
  by (simp_all add: sample_services_def)

definition sample_orchestration :: "unit orchestration" where
  "sample_orchestration = \<lparr>os_incident_id = ''i'', os_incident = \<lparr>in_status = OBSERVING, in_transition_log = None\<rparr>,
     os_envelope_id = None, os_posterior = [], os_telemetry = None, os_context = new_context 0 0, os_events = [], os_world = ()\<rparr>"

lemma sample_envelope_id: "ee_trace_id (sample_replay_envelope tid) = tid"
  by (simp add: sample_replay_envelope_def)

lemma sample_run:
  "\<exists>s'. process_incident (sample_services []) 5 300 [] (Some sample_context) None None sample_orchestration =
     Some (Inr ''cert'', s') \<and> in_status (os_incident s') = CLOSED \<and> CANARY \<in> visited (os_incident s')"
proof -
  let ?sv = "sample_services []"
  let ?l = "\<lparr>lo_replays = [], lo_remaining = [sample_candidate ''a''], lo_valid = 0, lo_start = 0\<rparr>"
  note run = obind_def look_def invoke_def give_def modify_def clock_def emit_def sample_services_fields
  have turn1: "turn_of_loop ?sv (sample_replay_envelope []) ?l s =
      (Inr (Again \<lparr>lo_replays = [sample_replay_result], lo_remaining = [], lo_valid = 1, lo_start = 0\<rparr>),
       s\<lparr>os_context := (os_context s)\<lparr>rc_elapsed := 0\<rparr>, os_posterior := [], os_events := os_events s @ [Executed [sample_replay_result], Judged [sample_replay_result] passed_report]\<rparr>)" for s
    by (simp add: turn_of_loop_def run_experiment_def execute_reserved_def on_exception_def judge_evidence_def run
      absorb_evidence_def passed_report_def sample_planned_def planned.defs candidate.defs cand_id_def sample_candidate_def)
  have turn2: "turn_of_loop ?sv (sample_replay_envelope []) (l\<lparr>lo_valid := 1\<rparr>) s =
      (Inr (Stopped CONFIRMED NoCandidates (l\<lparr>lo_valid := 1\<rparr>)), s\<lparr>os_context := (os_context s)\<lparr>rc_elapsed := - lo_start l\<rparr>\<rparr>)" for l s
    by (simp add: turn_of_loop_def run)
  have "experiment_loop ?sv (sample_replay_envelope []) ?l s = Some (Inr (CONFIRMED, NoCandidates,
      \<lparr>lo_replays = [sample_replay_result], lo_remaining = [], lo_valid = 1, lo_start = 0\<rparr>),
      s\<lparr>os_context := (os_context s)\<lparr>rc_elapsed := 0\<rparr>, os_posterior := [], os_events := os_events s @ [Executed [sample_replay_result], Judged [sample_replay_result] passed_report]\<rparr>)" for s
    using turn2 [of "\<lparr>lo_replays = [sample_replay_result], lo_remaining = [], lo_valid = 1, lo_start = 0\<rparr>"]
    by (subst experiment_loop.simps, simp add: turn1, subst experiment_loop.simps) simp
  then show ?thesis
    by (simp add: process_incident_def sample_orchestration_def Let_def incident_body_def prepare_def conclude_evidence_def
      plan_recovery_def authorize_and_canary_def record_outcome_def move_def incident_transition_def run sample_verdict_def
      sample_context_def context_is_valid_def sample_envelope_id visited_def incident_log_def image_iff conj_disj_distribR ex_disj_distrib)
qed

theorem orchestrator_fails_closed_witness:
  "\<exists>c s'. process_incident (sample_services []) 5 300 [] (Some sample_context) None None sample_orchestration = Some (Inr c, s') \<and>
     in_status (os_incident s') = CLOSED \<and> gates_passed (Some sample_context) (os_events s') \<and> length (recorded (os_events s')) = 1"
proof -
  obtain s' where s': "process_incident (sample_services []) 5 300 [] (Some sample_context) None None sample_orchestration =
     Some (Inr ''cert'', s')" "in_status (os_incident s') = CLOSED" "CANARY \<in> visited (os_incident s')"
    using sample_run by blast
  have "os_incident sample_orchestration = \<lparr>in_status = OBSERVING, in_transition_log = None\<rparr>" "os_events sample_orchestration = []"
    by (simp_all add: sample_orchestration_def)
  from orchestrator_fails_closed [OF s'(1) this] s' show ?thesis
    by (cases "recorded (os_events s')") auto
qed

end
