(* ===== verification/Transport_Gate.thy ===== *)
theory Transport_Gate
  imports Admission_Receipt Experiment_Planner
begin

section \<open>The transportability gate and the transfer guard\<close>

text \<open>
  \<open>packages/contracts/src/transport_models.py\<close>, \<open>packages/policy/src/causal_transport_gate.py\<close> and
  \<open>packages/policy/src/transfer_guard.py\<close>: whether a recovery or a diagnosis that was validated in one environment may
  be used in another. Descriptors and envelopes are authenticated by an HMAC over their fields; the gate then
  compares the environments along the footprint of the recovery. \<open>compare_digest\<close> raises on text that is not ASCII.
  Dicts with values of any type are association lists of JSON values; the logarithm of the planner and the fresh
  reservation identifiers are arguments, as in \<open>Experiment_Planner\<close>.
\<close>

subsection \<open>Data\<close>

datatype transport_status =
  DIRECTLY_TRANSPORTABLE | TARGET_VALIDATION_REQUIRED | NOT_TRANSPORTABLE | TRANSPORT_UNKNOWN

fun transport_status_value :: "transport_status \<Rightarrow> string" where
  "transport_status_value DIRECTLY_TRANSPORTABLE = ''DIRECTLY_TRANSPORTABLE''"
| "transport_status_value TARGET_VALIDATION_REQUIRED = ''TARGET_VALIDATION_REQUIRED''"
| "transport_status_value NOT_TRANSPORTABLE = ''NOT_TRANSPORTABLE''"
| "transport_status_value TRANSPORT_UNKNOWN = ''UNKNOWN''"

record calibration =
  cb_metric :: string
  cb_sample_size :: int
  cb_confidence_level :: rat
  cb_dataset :: string
  cb_time :: int
  cb_evaluator :: string
  cb_source_result :: rat
  cb_target_result :: "rat option"

record descriptor =
  ed_environment_id :: string
  ed_tenant_id :: string
  ed_model :: string
  ed_prompt :: string
  ed_retriever :: string
  ed_memory :: string
  ed_tools :: "string list"
  ed_policy :: string
  ed_index :: string
  ed_data_distribution_fingerprint :: string
  ed_execution_configuration :: "(string \<times> json) list"
  ed_causal_graph_hash :: string
  ed_provenance_hash :: string
  ed_calibration_evidence :: "calibration option"
  ed_captured_at :: int
  ed_signature :: "string option"

record environment_difference =
  df_variable :: string
  df_source_value_hash :: string
  df_target_value_hash :: string
  df_affected_components :: "string list"
  df_causal_relevance :: rat
  df_transport_risk :: rat

record footprint =
  fp_recovery_id :: string
  fp_components :: "string list"
  fp_edges :: "string list"
  fp_policy_conditions :: "(string \<times> json) list"
  fp_data_conditions :: "(string \<times> json) list"
  fp_calibration_conditions :: "(string \<times> json) list"

record target_experiment =
  tx_target_variable :: string
  tx_expected_eig :: rat

record transport_decision =
  td_recovery_id :: string
  td_source_environment :: string
  td_target_environment :: string
  td_status :: transport_status
  td_preserved :: "string list"
  td_violated :: "string list"
  td_unknown :: "string list"
  td_experiments :: "target_experiment list"
  td_evidence_strength :: string
  td_components_checked :: nat
  td_edges_checked :: nat
  td_explanation :: string
  td_policy_version :: string
  td_footprint_hash :: string
  td_source_signature :: "string option"
  td_target_signature :: "string option"
  td_schema_version :: string
  td_created_at :: int
  td_decision_hash :: string

datatype transport_error = NonAsciiSignature | PlannerRaised planner_error | GateNotConfigured

subsection \<open>Signatures and hashes\<close>

definition opt_str :: "string option \<Rightarrow> json" where
  "opt_str x = (case x of None \<Rightarrow> JNull | Some s \<Rightarrow> JStr s)"

definition calibration_json :: "env \<Rightarrow> calibration \<Rightarrow> json" where
  "calibration_json E c = JObj
     [(''metric'', JStr (cb_metric c)), (''sample_size'', JInt (cb_sample_size c)),
      (''confidence_level'', JFloat (cb_confidence_level c)), (''dataset'', JStr (cb_dataset c)),
      (''time'', JStr (iso E (cb_time c))), (''evaluator'', JStr (cb_evaluator c)),
      (''source_result'', JFloat (cb_source_result c)),
      (''target_result'', case cb_target_result c of None \<Rightarrow> JNull | Some r \<Rightarrow> JFloat r)]"

definition descriptor_json :: "env \<Rightarrow> descriptor \<Rightarrow> json" where
  "descriptor_json E d = JObj
     [(''environment_id'', JStr (ed_environment_id d)), (''tenant_id'', JStr (ed_tenant_id d)),
      (''model'', JStr (ed_model d)), (''prompt'', JStr (ed_prompt d)), (''retriever'', JStr (ed_retriever d)),
      (''memory'', JStr (ed_memory d)), (''tools'', JList (map JStr (ed_tools d))), (''policy'', JStr (ed_policy d)),
      (''index'', JStr (ed_index d)), (''data_distribution_fingerprint'', JStr (ed_data_distribution_fingerprint d)),
      (''execution_configuration'', JObj (ed_execution_configuration d)),
      (''causal_graph_hash'', JStr (ed_causal_graph_hash d)), (''provenance_hash'', JStr (ed_provenance_hash d)),
      (''calibration_evidence'', case ed_calibration_evidence d of None \<Rightarrow> JNull | Some c \<Rightarrow> calibration_json E c),
      (''captured_at'', JStr (iso E (ed_captured_at d)))]"

definition recompute_signature :: "env \<Rightarrow> string \<Rightarrow> descriptor \<Rightarrow> string" where
  "recompute_signature E secret_key d = b64_encode E (hmac_sha256 E (utf8 secret_key) (canonical_bytes E (descriptor_json E d)))"

definition footprint_json :: "footprint \<Rightarrow> json" where
  "footprint_json f = JObj
     [(''recovery_id'', JStr (fp_recovery_id f)), (''required_invariant_components'', JList (map JStr (fp_components f))),
      (''required_invariant_edges'', JList (map JStr (fp_edges f))),
      (''required_policy_conditions'', JObj (fp_policy_conditions f)),
      (''required_data_conditions'', JObj (fp_data_conditions f)),
      (''required_calibration_conditions'', JObj (fp_calibration_conditions f))]"

definition footprint_hash :: "env \<Rightarrow> footprint \<Rightarrow> string" where
  "footprint_hash E f = sha256 E (canonical_bytes E (footprint_json f))"

definition experiment_json :: "target_experiment \<Rightarrow> json" where
  "experiment_json x = JObj [(''target_variable'', JStr (tx_target_variable x)), (''type'', JStr ''causal_intervention''),
     (''expected_eig'', JFloat (tx_expected_eig x))]"

definition decision_json :: "env \<Rightarrow> transport_decision \<Rightarrow> json" where
  "decision_json E d = JObj
     [(''recovery_id'', JStr (td_recovery_id d)), (''source_environment'', JStr (td_source_environment d)),
      (''target_environment'', JStr (td_target_environment d)), (''status'', JStr (transport_status_value (td_status d))),
      (''preserved_conditions'', JList (map JStr (td_preserved d))), (''violated_conditions'', JList (map JStr (td_violated d))),
      (''unknown_conditions'', JList (map JStr (td_unknown d))),
      (''required_target_experiments'', JList (map experiment_json (td_experiments d))),
      (''confidence_metadata'', JObj [(''evidence_strength'', JStr (td_evidence_strength d)),
         (''footprint_components_checked'', JInt (int (td_components_checked d))),
         (''footprint_edges_checked'', JInt (int (td_edges_checked d)))]),
      (''explanation'', JStr (td_explanation d)), (''policy_version'', JStr (td_policy_version d)),
      (''footprint_hash'', JStr (td_footprint_hash d)), (''source_descriptor_signature'', opt_str (td_source_signature d)),
      (''target_descriptor_signature'', opt_str (td_target_signature d)),
      (''decision_schema_version'', JStr (td_schema_version d)), (''created_at'', JStr (iso E (td_created_at d)))]"

definition decision_hash :: "env \<Rightarrow> transport_decision \<Rightarrow> string" where
  "decision_hash E d = sha256 E (canonical_bytes E (decision_json E d))"

definition digest_equal :: "string \<Rightarrow> string \<Rightarrow> (transport_error, bool) result" where
  "digest_equal a b = (if list_ex (\<lambda>c. 128 \<le> (of_char c :: nat)) (a @ b) then Inl NonAsciiSignature else Inr (a = b))"

text \<open>A missing or empty signature is refused before anything is computed.\<close>

definition verify_descriptor :: "env \<Rightarrow> string \<Rightarrow> descriptor \<Rightarrow> (transport_error, bool) result" where
  "verify_descriptor E key d =
     (if \<not> truthy (ed_signature d) then Inr False
      else digest_equal (recompute_signature E key d) (the (ed_signature d)))"

subsection \<open>Differences and the footprint\<close>

definition graph_derived_relevance :: "string \<Rightarrow> footprint \<Rightarrow> rat" where
  "graph_derived_relevance v f =
     (let total_items = length (fp_components f) + length (fp_edges f) + length (fp_policy_conditions f);
          hits = (if v \<in> set (fp_components f) then 1 else 0) + (if v \<in> set (fp_edges f) then 1 else 0) +
                 (if v \<in> fst ` set (fp_policy_conditions f) then 1 else 0 :: nat)
      in if total_items = 0 then 1/2 else min 1 (of_nat hits / of_nat total_items))"

text \<open>The first sixteen digits of the hash of the default JSON text.\<close>

definition value_hash :: "env \<Rightarrow> json \<Rightarrow> string" where
  "value_hash E v = take 16 (sha256 E (utf8 (dumps default_style (float_repr E) v)))"

text \<open>The variables the gate compares, with their values and the components a difference affects, in order.\<close>

definition compared :: "descriptor \<Rightarrow> (string \<times> json \<times> string list) list" where
  "compared d =
     [(''model'', JStr (ed_model d), [''generator'']), (''prompt'', JStr (ed_prompt d), [''prompt'']),
      (''retriever'', JStr (ed_retriever d), [''retriever'', ''index'']), (''policy'', JStr (ed_policy d), [''guardrail'']),
      (''index'', JStr (ed_index d), [''retriever'']),
      (''data_distribution'', JStr (ed_data_distribution_fingerprint d), [''model'', ''index'']),
      (''causal_graph'', JStr (ed_causal_graph_hash d), [''graph'']),
      (''tools'', JList (map JStr (ed_tools d)), [''tool_dispatcher''])]"

definition add_diff ::
    "env \<Rightarrow> footprint \<Rightarrow> string \<Rightarrow> json \<Rightarrow> json \<Rightarrow> string list \<Rightarrow> environment_difference list" where
  "add_diff E f v s_val t_val affected =
     (if value_hash E s_val \<noteq> value_hash E t_val then
        let relevance = graph_derived_relevance v f in
        [\<lparr>df_variable = v, df_source_value_hash = value_hash E s_val, df_target_value_hash = value_hash E t_val,
          df_affected_components = affected, df_causal_relevance = relevance,
          df_transport_risk = min 1 (relevance * (12/10))\<rparr>]
      else [])"

definition find_differences :: "env \<Rightarrow> descriptor \<Rightarrow> descriptor \<Rightarrow> footprint \<Rightarrow> environment_difference list" where
  "find_differences E src tgt f =
     concat (map (\<lambda>((v, s, affected), (_, t, _)). add_diff E f v s t affected) (zip (compared src) (compared tgt)))"

record conditions =
  cn_violated :: "string list"
  cn_preserved :: "string list"
  cn_unknown :: "string list"

text \<open>A dict over the differences: of several with one variable the last one counts.\<close>

definition diff_of :: "environment_difference list \<Rightarrow> string \<Rightarrow> environment_difference option" where
  "diff_of ds v = map_of (rev (map (\<lambda>d. (df_variable d, d)) ds)) v"

definition check_component :: "environment_difference list \<Rightarrow> string \<Rightarrow> conditions \<Rightarrow> conditions" where
  "check_component ds c k = (case diff_of ds c of
     Some d \<Rightarrow> if 8/10 \<le> df_causal_relevance d then k\<lparr>cn_violated := cn_violated k @ [''component:'' @ c]\<rparr>
               else k\<lparr>cn_unknown := cn_unknown k @ [''component:'' @ c]\<rparr>
   | None \<Rightarrow> k\<lparr>cn_preserved := cn_preserved k @ [''component:'' @ c]\<rparr>)"

definition check_hard :: "string \<Rightarrow> environment_difference list \<Rightarrow> string \<Rightarrow> conditions \<Rightarrow> conditions" where
  "check_hard prefix ds v k = (case diff_of ds v of
     Some _ \<Rightarrow> k\<lparr>cn_violated := cn_violated k @ [prefix @ v]\<rparr>
   | None \<Rightarrow> k\<lparr>cn_preserved := cn_preserved k @ [prefix @ v]\<rparr>)"

definition check_calibration :: "environment_difference list \<Rightarrow> string \<Rightarrow> conditions \<Rightarrow> conditions" where
  "check_calibration ds v k = (case diff_of ds v of
     Some _ \<Rightarrow> k\<lparr>cn_unknown := cn_unknown k @ [''calibration:'' @ v]\<rparr>
   | None \<Rightarrow> k\<lparr>cn_preserved := cn_preserved k @ [''calibration:'' @ v]\<rparr>)"

definition evaluate_footprint_invariants :: "footprint \<Rightarrow> environment_difference list \<Rightarrow> conditions" where
  "evaluate_footprint_invariants f ds =
     fold (check_calibration ds) (map fst (fp_calibration_conditions f))
       (fold (check_hard ''data:'' ds) (map fst (fp_data_conditions f))
         (fold (check_hard ''policy:'' ds) (map fst (fp_policy_conditions f))
           (fold (check_hard ''edge:'' ds) (fp_edges f)
             (fold (check_component ds) (fp_components f)
               \<lparr>cn_violated = [], cn_preserved = [], cn_unknown = []\<rparr>))))"

subsection \<open>The decision\<close>

definition transport_candidates :: "string list \<Rightarrow> candidate list" where
  "transport_candidates unknown = map (\<lambda>(i, u). \<lparr>ec_candidate_id = Some (''transport_exp_'' @ nat_str i), ec_id = None,
     ec_target_variable = Some u, ec_node_id = None, ec_estimated_cost_usd = None, ec_regression_risk = None\<rparr>)
     (enumerate 0 unknown)"

definition transport_beliefs :: "string list \<Rightarrow> beliefs" where
  "transport_beliefs unknown = map (\<lambda>c. (cand_id c, 1 / of_nat (max 1 (length (transport_candidates unknown)))))
     (transport_candidates unknown)"

text \<open>The planner as its constructor makes it without arguments: the closures of no edges are empty.\<close>

definition transport_planner :: planner where
  "transport_planner = default_planner (topological_likelihood (\<lambda>_. {}, \<lambda>_. {}))"

definition plan_target_experiments ::
    "(rat \<Rightarrow> rat) \<Rightarrow> (nat \<Rightarrow> string) \<Rightarrow> string \<Rightarrow> string list \<Rightarrow> (transport_error, target_experiment list) result" where
  "plan_target_experiments lg ids rec_id unknown =
     (case select_minimum_experiments lg ids (transport_candidates unknown) rec_id (transport_beliefs unknown)
             (Some (new_context (of_nat (length unknown) * (1/10)) 300)) (length unknown) transport_planner of
        Inl e \<Rightarrow> Inl (PlannerRaised e)
      | Inr (selected, _, _) \<Rightarrow>
          Inr (map (\<lambda>e. \<lparr>tx_target_variable = the (ec_target_variable e), tx_expected_eig = ex_expected_eig e\<rparr>) selected))"

definition build_decision ::
    "env \<Rightarrow> (rat \<Rightarrow> rat) \<Rightarrow> (nat \<Rightarrow> string) \<Rightarrow> int \<Rightarrow> string \<Rightarrow> descriptor \<Rightarrow> descriptor \<Rightarrow> transport_status \<Rightarrow>
       string list \<Rightarrow> string list \<Rightarrow> string list \<Rightarrow> string \<Rightarrow> footprint \<Rightarrow> (transport_error, transport_decision) result" where
  "build_decision E lg ids now rec_id src tgt status preserved violated unknown explanation f =
     rbind (if status = TARGET_VALIDATION_REQUIRED then plan_target_experiments lg ids rec_id unknown else Inr []) (\<lambda>experiments.
       let d = \<lparr>td_recovery_id = rec_id, td_source_environment = ed_environment_id src,
                td_target_environment = ed_environment_id tgt, td_status = status, td_preserved = preserved,
                td_violated = violated, td_unknown = unknown, td_experiments = experiments,
                td_evidence_strength = (if violated = [] then ''cryptographic'' else ''insufficient''),
                td_components_checked = length (fp_components f), td_edges_checked = length (fp_edges f),
                td_explanation = explanation, td_policy_version = ''2.0'', td_footprint_hash = footprint_hash E f,
                td_source_signature = ed_signature src, td_target_signature = ed_signature tgt,
                td_schema_version = ''1.0'', td_created_at = now, td_decision_hash = []\<rparr>
       in Inr (d\<lparr>td_decision_hash := decision_hash E d\<rparr>))"

definition after_colon :: "string \<Rightarrow> string" where
  "after_colon c = tl (dropWhile (\<lambda>x. x \<noteq> CHR '':'') c)"

text \<open>The unknown conditions with the differences that no condition covers.\<close>

definition unsettled :: "conditions \<Rightarrow> environment_difference list \<Rightarrow> string list" where
  "unsettled k differences =
     (let covered = after_colon ` set (filter (\<lambda>c. CHR '':'' \<in> set c) (cn_preserved k @ cn_violated k @ cn_unknown k))
      in cn_unknown k @ filter (\<lambda>v. v \<notin> covered) (map df_variable differences))"

definition transport_verdict :: "string list \<Rightarrow> string list \<Rightarrow> environment_difference list \<Rightarrow> transport_status \<times> string" where
  "transport_verdict violated unknown differences =
     (if violated \<noteq> []
      then (NOT_TRANSPORTABLE, ''Critical footprint invariant violations: '' @ py_repr_list violated)
      else if unknown \<noteq> []
      then (TARGET_VALIDATION_REQUIRED, ''Conditions require target-domain validation: '' @ py_repr_list unknown)
      else if differences = []
      then (DIRECTLY_TRANSPORTABLE, ''All recovery mechanism assumptions are preserved in the target environment.'')
      else (TRANSPORT_UNKNOWN, ''Insufficient evidence to determine transportability.''))"

definition judge_environments ::
    "env \<Rightarrow> (rat \<Rightarrow> rat) \<Rightarrow> (nat \<Rightarrow> string) \<Rightarrow> int \<Rightarrow> descriptor \<Rightarrow> descriptor \<Rightarrow> footprint \<Rightarrow>
       (transport_error, transport_decision) result" where
  "judge_environments E lg ids now src tgt f =
     (let differences = find_differences E src tgt f;
          k = evaluate_footprint_invariants f differences;
          unknown = unsettled k differences;
          preserved = (if differences = [] then [''all_environment_variables''] else cn_preserved k)
      in case transport_verdict (cn_violated k) unknown differences of (status, explanation) \<Rightarrow>
           build_decision E lg ids now (fp_recovery_id f) src tgt status preserved (cn_violated k) unknown explanation f)"

definition evaluate_transportability ::
    "env \<Rightarrow> (rat \<Rightarrow> rat) \<Rightarrow> (nat \<Rightarrow> string) \<Rightarrow> int \<Rightarrow> string \<Rightarrow> descriptor \<Rightarrow> descriptor \<Rightarrow> footprint \<Rightarrow> bool \<Rightarrow>
       (transport_error, transport_decision) result" where
  "evaluate_transportability E lg ids now key src tgt f allow_cross_tenant =
     rbind (rbind (verify_descriptor E key src) (\<lambda>ok. if ok then verify_descriptor E key tgt else Inr False)) (\<lambda>authentic.
       let refuse = (\<lambda>status explanation. build_decision E lg ids now (fp_recovery_id f) src tgt status [] [] [] explanation f) in
       if \<not> authentic then refuse NOT_TRANSPORTABLE ''Forged or missing provenance signature.''
       else if ed_calibration_evidence src = None \<or> ed_calibration_evidence tgt = None
       then refuse TRANSPORT_UNKNOWN ''Missing structured calibration evidence.''
       else if ed_tenant_id src \<noteq> ed_tenant_id tgt \<and> \<not> allow_cross_tenant
       then refuse NOT_TRANSPORTABLE ''Cross-tenant transport denied by policy.''
       else judge_environments E lg ids now src tgt f)"

text \<open>The key of the gate: the argument, else the environment, else a development key.\<close>

definition transport_key :: "string option \<Rightarrow> string option \<Rightarrow> string" where
  "transport_key verification_key env_key =
     (if truthy verification_key then the verification_key
      else case env_key of Some k \<Rightarrow> k | None \<Rightarrow> ''dgx-insecure-dev-transport-key'')"

definition gate_evaluate ::
    "env \<Rightarrow> (rat \<Rightarrow> rat) \<Rightarrow> (nat \<Rightarrow> string) \<Rightarrow> int \<Rightarrow> string \<Rightarrow> descriptor \<Rightarrow> descriptor \<Rightarrow> footprint \<Rightarrow>
       (transport_error, transport_decision) result" where
  "gate_evaluate E lg ids now key src tgt f = evaluate_transportability E lg ids now key src tgt f False"

text \<open>The adapter of the orchestrator; the gate is optional.\<close>

definition validate_transportability ::
    "env \<Rightarrow> (rat \<Rightarrow> rat) \<Rightarrow> (nat \<Rightarrow> string) \<Rightarrow> int \<Rightarrow> string option \<Rightarrow> descriptor \<Rightarrow> descriptor \<Rightarrow> footprint \<Rightarrow>
       (transport_error, transport_decision) result" where
  "validate_transportability E lg ids now gate src tgt f =
     (case gate of None \<Rightarrow> Inl GateNotConfigured | Some key \<Rightarrow> gate_evaluate E lg ids now key src tgt f)"

subsection \<open>What the status means\<close>

text \<open>The specification: the variables whose value hashes differ, and those the footprint does not tolerate to differ.\<close>

definition changed_variables :: "env \<Rightarrow> descriptor \<Rightarrow> descriptor \<Rightarrow> string set" where
  "changed_variables E s t = {v.
     v = ''model'' \<and> value_hash E (JStr (ed_model s)) \<noteq> value_hash E (JStr (ed_model t)) \<or>
     v = ''prompt'' \<and> value_hash E (JStr (ed_prompt s)) \<noteq> value_hash E (JStr (ed_prompt t)) \<or>
     v = ''retriever'' \<and> value_hash E (JStr (ed_retriever s)) \<noteq> value_hash E (JStr (ed_retriever t)) \<or>
     v = ''policy'' \<and> value_hash E (JStr (ed_policy s)) \<noteq> value_hash E (JStr (ed_policy t)) \<or>
     v = ''index'' \<and> value_hash E (JStr (ed_index s)) \<noteq> value_hash E (JStr (ed_index t)) \<or>
     v = ''data_distribution'' \<and> value_hash E (JStr (ed_data_distribution_fingerprint s)) \<noteq>
       value_hash E (JStr (ed_data_distribution_fingerprint t)) \<or>
     v = ''causal_graph'' \<and> value_hash E (JStr (ed_causal_graph_hash s)) \<noteq> value_hash E (JStr (ed_causal_graph_hash t)) \<or>
     v = ''tools'' \<and> value_hash E (JList (map JStr (ed_tools s))) \<noteq> value_hash E (JList (map JStr (ed_tools t)))}"

definition intolerable :: "footprint \<Rightarrow> string \<Rightarrow> bool" where
  "intolerable f v \<longleftrightarrow> v \<in> set (fp_edges f) \<or> v \<in> fst ` set (fp_policy_conditions f) \<or> v \<in> fst ` set (fp_data_conditions f) \<or>
     v \<in> set (fp_components f) \<and> 8/10 \<le> graph_derived_relevance v f"

definition authentic :: "env \<Rightarrow> string \<Rightarrow> descriptor \<Rightarrow> bool" where
  "authentic E key d \<longleftrightarrow> ed_signature d = Some (recompute_signature E key d) \<and> recompute_signature E key d \<noteq> []"

definition transport_spec :: "env \<Rightarrow> string \<Rightarrow> descriptor \<Rightarrow> descriptor \<Rightarrow> footprint \<Rightarrow> bool \<Rightarrow> transport_status" where
  "transport_spec E key src tgt f cross =
     (if \<not> (authentic E key src \<and> authentic E key tgt) then NOT_TRANSPORTABLE
      else if ed_calibration_evidence src = None \<or> ed_calibration_evidence tgt = None then TRANSPORT_UNKNOWN
      else if ed_tenant_id src \<noteq> ed_tenant_id tgt \<and> \<not> cross then NOT_TRANSPORTABLE
      else if \<exists>v\<in>changed_variables E src tgt. intolerable f v then NOT_TRANSPORTABLE
      else if changed_variables E src tgt = {} then DIRECTLY_TRANSPORTABLE
      else TARGET_VALIDATION_REQUIRED)"

lemma verify_descriptor_authentic: "verify_descriptor E key d = Inr b \<Longrightarrow> b = authentic E key d"
  by (cases "ed_signature d") (auto simp: verify_descriptor_def digest_equal_def authentic_def truthy_def split: if_splits)

lemma add_diff_variables: "v \<in> df_variable ` set (add_diff E f w x y a) \<longleftrightarrow> v = w \<and> value_hash E x \<noteq> value_hash E y"
  by (cases "value_hash E x = value_hash E y") (simp_all add: add_diff_def Let_def)

lemma differences_variables: "df_variable ` set (find_differences E s t f) = changed_variables E s t"
  by (rule set_eqI) (simp only: find_differences_def compared_def zip_Cons_Cons zip_Nil list.map prod.case concat.simps set_append image_Un
      Un_iff add_diff_variables append_Nil2 changed_variables_def mem_Collect_eq)

lemma differences_relevance:
  "d \<in> set (find_differences E s t f) \<Longrightarrow> df_causal_relevance d = graph_derived_relevance (df_variable d) f"
  by (auto simp: find_differences_def add_diff_def Let_def split: if_splits prod.splits)

lemma diff_of_None: "diff_of ds v = None \<longleftrightarrow> v \<notin> df_variable ` set ds"
  by (simp add: diff_of_def map_of_eq_None_iff image_image)

lemma diff_of_Some: "diff_of ds v = Some d \<Longrightarrow> d \<in> set ds \<and> df_variable d = v"
  by (auto simp: diff_of_def dest!: map_of_SomeD)

text \<open>Which conditions the five loops put where.\<close>

definition grave :: "environment_difference list \<Rightarrow> string \<Rightarrow> bool" where
  "grave ds c = (case diff_of ds c of Some d \<Rightarrow> 8/10 \<le> df_causal_relevance d | None \<Rightarrow> False)"

definition differs :: "environment_difference list \<Rightarrow> string \<Rightarrow> bool" where
  "differs ds c \<longleftrightarrow> c \<in> df_variable ` set ds"

lemma check_steps:
  "check_component ds c k = (if grave ds c then k\<lparr>cn_violated := cn_violated k @ [''component:'' @ c]\<rparr>
     else if differs ds c then k\<lparr>cn_unknown := cn_unknown k @ [''component:'' @ c]\<rparr>
     else k\<lparr>cn_preserved := cn_preserved k @ [''component:'' @ c]\<rparr>)"
  "check_hard p ds c k = (if differs ds c then k\<lparr>cn_violated := cn_violated k @ [p @ c]\<rparr>
     else k\<lparr>cn_preserved := cn_preserved k @ [p @ c]\<rparr>)"
  "check_calibration ds c k = (if differs ds c then k\<lparr>cn_unknown := cn_unknown k @ [''calibration:'' @ c]\<rparr>
     else k\<lparr>cn_preserved := cn_preserved k @ [''calibration:'' @ c]\<rparr>)"
  using diff_of_None [of ds c]
  by (auto simp: check_component_def check_hard_def check_calibration_def grave_def differs_def split: option.splits)

lemma grave_differs: "grave ds c \<Longrightarrow> differs ds c"
  using diff_of_None [of ds c] by (auto simp: grave_def differs_def split: option.splits)

lemma fold_component: "fold (check_component ds) cs k = k\<lparr>
    cn_violated := cn_violated k @ map ((@) ''component:'') (filter (grave ds) cs),
    cn_unknown := cn_unknown k @ map ((@) ''component:'') (filter (\<lambda>c. differs ds c \<and> \<not> grave ds c) cs),
    cn_preserved := cn_preserved k @ map ((@) ''component:'') (filter (\<lambda>c. \<not> differs ds c) cs)\<rparr>"
  by (induction cs arbitrary: k) (auto simp: check_steps(1) grave_differs)

lemma fold_hard: "fold (check_hard p ds) cs k = k\<lparr>
    cn_violated := cn_violated k @ map ((@) p) (filter (differs ds) cs),
    cn_preserved := cn_preserved k @ map ((@) p) (filter (\<lambda>c. \<not> differs ds c) cs)\<rparr>"
  by (induction cs arbitrary: k) (simp_all add: check_steps(2))

lemma fold_calibration: "fold (check_calibration ds) cs k = k\<lparr>
    cn_unknown := cn_unknown k @ map ((@) ''calibration:'') (filter (differs ds) cs),
    cn_preserved := cn_preserved k @ map ((@) ''calibration:'') (filter (\<lambda>c. \<not> differs ds c) cs)\<rparr>"
  by (induction cs arbitrary: k) (simp_all add: check_steps(3))

lemmas footprint_folds = evaluate_footprint_invariants_def fold_component fold_hard fold_calibration

lemma violated_iff:
  assumes "ds = find_differences E s t f"
  shows "cn_violated (evaluate_footprint_invariants f ds) = [] \<longleftrightarrow> (\<forall>v\<in>changed_variables E s t. \<not> intolerable f v)"
proof -
  have d: "differs ds v \<longleftrightarrow> v \<in> changed_variables E s t" for v
    using differences_variables [of E s t f] assms by (simp add: differs_def)
  have g: "grave ds v \<longleftrightarrow> v \<in> changed_variables E s t \<and> 8/10 \<le> graph_derived_relevance v f" for v
  proof (cases "diff_of ds v")
    case None
    then have "v \<notin> changed_variables E s t" using d diff_of_None by (simp add: differs_def)
    with None show ?thesis by (simp add: grave_def)
  next
    case (Some x)
    from diff_of_Some [OF this] have "df_causal_relevance x = graph_derived_relevance v f" "differs ds v"
      using differences_relevance assms by (auto simp: differs_def)
    with Some d show ?thesis by (simp add: grave_def)
  qed
  show ?thesis by (auto simp: footprint_folds filter_empty_conv d g intolerable_def)
qed

text \<open>A change that is not a violation is always unknown, so the last branch of the gate is never taken.\<close>

lemma change_is_unknown:
  assumes "ds \<noteq> []" "k = evaluate_footprint_invariants f ds" "cn_violated k = []"
  shows "unsettled k ds \<noteq> []"
proof
  assume empty: "unsettled k ds = []"
  let ?covered = "after_colon ` set (filter (\<lambda>c. CHR '':'' \<in> set c) (cn_preserved k @ cn_violated k @ cn_unknown k))"
  obtain d where d: "d \<in> set ds" using assms(1) by (cases ds) auto
  have "cn_unknown k = []" using empty by (simp add: unsettled_def Let_def)
  moreover have "df_variable d \<in> ?covered" using d empty by (auto simp: unsettled_def Let_def filter_empty_conv)
  ultimately have "df_variable d \<in> after_colon ` set (cn_preserved k)" using assms(3) by auto
  moreover have "\<not> differs ds v" if "v \<in> after_colon ` set (cn_preserved k)" for v
    using that assms(2) by (auto simp: footprint_folds after_colon_def)
  ultimately show False using d by (auto simp: differs_def)
qed

lemma no_change: "cn_violated (evaluate_footprint_invariants f []) = [] \<and> unsettled (evaluate_footprint_invariants f []) [] = []"
proof -
  have n: "\<not> differs [] v" "\<not> grave [] v" for v using grave_differs [of "[]" v] by (auto simp: differs_def)
  show ?thesis by (simp add: footprint_folds unsettled_def n)
qed

lemma build_decision_status: "build_decision E lg ids now i s t st p v u x f = Inr d \<Longrightarrow>
    td_status d = st \<and> td_violated d = v \<and> td_unknown d = u"
  by (auto simp: build_decision_def Let_def rbind_Inr_iff)

lemma judge_environments_status:
  assumes "judge_environments E lg ids now s t f = Inr d"
  shows "td_status d = (if \<exists>v\<in>changed_variables E s t. intolerable f v then NOT_TRANSPORTABLE
    else if changed_variables E s t = {} then DIRECTLY_TRANSPORTABLE else TARGET_VALIDATION_REQUIRED)"
proof -
  let ?ds = "find_differences E s t f"
  let ?k = "evaluate_footprint_invariants f ?ds"
  have "?ds = [] \<longleftrightarrow> changed_variables E s t = {}"
    using differences_variables [of E s t f] by (metis image_is_empty set_empty)
  moreover note violated_iff [OF refl, of f E s t] change_is_unknown [of ?ds, OF _ refl, of f] no_change [of f]
  ultimately show ?thesis using assms
    by (cases "?ds = []"; cases "cn_violated ?k = []")
       (auto simp: judge_environments_def transport_verdict_def Let_def dest!: build_decision_status split: if_splits)
qed

text \<open>
  C20. The gate decides exactly as specified. A decision it returns is that no transport takes place when a signature is
  missing or does not verify, tenants differ without permission, or a changed variable is required by the footprint
  as an edge, a policy or data condition or a component of relevance 0.8 or more; it is unknown only when
  calibration evidence is missing; it is direct when none of the eight compared variables changed, and otherwise target
  validation is required. Memory, execution configuration and provenance hash are not compared.
\<close>

theorem transport_status_exact:
  assumes "evaluate_transportability E lg ids now key src tgt f cross = Inr d"
  shows "td_status d = transport_spec E key src tgt f cross"
proof -
  obtain b where b: "rbind (verify_descriptor E key src) (\<lambda>ok. if ok then verify_descriptor E key tgt else Inr False) = Inr b"
    using assms by (auto simp: evaluate_transportability_def rbind_Inr_iff)
  then have "b \<longleftrightarrow> authentic E key src \<and> authentic E key tgt"
    by (auto simp: rbind_Inr_iff dest!: verify_descriptor_authentic split: if_splits)
  then show ?thesis using assms b judge_environments_status [of E lg ids now src tgt f d]
    by (auto simp: evaluate_transportability_def transport_spec_def Let_def dest!: build_decision_status split: if_splits)
qed

subsection \<open>The experiments a decision asks for\<close>

text \<open>
  The candidates carry the unknown condition as their target, the beliefs are over the candidate identifiers: no
  target is a cause, so every outcome is equally likely under every cause and nothing is to be learnt.
\<close>

text \<open>What the argument uses of the logarithm.\<close>

definition log_nonpositive :: "(rat \<Rightarrow> rat) \<Rightarrow> bool" where
  "log_nonpositive lg \<longleftrightarrow> (\<forall>q. 0 < q \<and> q \<le> 1 \<longrightarrow> lg q \<le> 0)"

lemma entropy_of_nonneg:
  assumes lg: "log_nonpositive lg"
  shows "\<forall>p\<in>set ps. p \<le> 1 \<Longrightarrow> 0 \<le> h \<Longrightarrow> 0 \<le> foldl (\<lambda>h p. if 0 < p then h - p * lg p else h) h ps"
proof (induction ps arbitrary: h)
  case (Cons p ps)
  have "0 \<le> h - p * lg p" if "0 < p"
    using lg that Cons.prems mult_nonneg_nonpos [of p "lg p"] by (simp add: log_nonpositive_def)
  then show ?case using Cons by auto
qed simp

lemma no_information:
  assumes lg: "log_nonpositive lg"
    and node: "\<forall>(c, p)\<in>set b. c \<noteq> node" and sum: "sum_list (map snd b) = 1" and le: "\<forall>p\<in>set (map snd b). p \<le> 1"
  shows "fst (expected_information_gain lg node (topological_likelihood (\<lambda>_. {}, \<lambda>_. {})) b) = 0"
proof -
  let ?e = "topological_likelihood (\<lambda>_. {}, \<lambda>_. {})"
  have w: "map (\<lambda>(c, p). safe_prob (?e node c oc) * p) b = map (\<lambda>x. (if oc = ''mitigated'' then 1/10 else 9/10) * x) (map snd b)" for oc
    using node by (auto simp: topological_likelihood_def safe_prob_def)
  have op: "outcome_prob node ?e oc b = (if oc = ''mitigated'' then 1/10 else 9/10)" for oc
    unfolding outcome_prob_def w sum_list_const_mult using sum by simp
  have "map (\<lambda>(c, p). safe_prob (?e node c oc) * p / outcome_prob node ?e oc b) b = map snd b" for oc
    using node by (auto simp: op topological_likelihood_def safe_prob_def)
  then have pe: "posterior_entropy lg node ?e oc b = entropy_of lg (map snd b)" for oc
    unfolding posterior_entropy_def by presburger
  have "0 \<le> entropy_of lg (map snd b)"
    unfolding entropy_of_def by (rule entropy_of_nonneg [OF lg le]) auto
  then show ?thesis by (simp add: expected_information_gain_def op pe entropy_def)
qed

lemma transport_candidates_simps:
  assumes "c \<in> set (transport_candidates unknown)"
  shows "target_node c \<in> set unknown" "\<exists>i. cand_id c = ''transport_exp_'' @ nat_str i"
    "cost_of_candidate p c = xp_default_cost p" "ec_regression_risk c = None"
  using assms by (auto simp: transport_candidates_def target_node_def cand_id_def cost_of_candidate_def in_set_enumerate_eq)

lemma length_transport_candidates [simp]: "length (transport_candidates unknown) = length unknown"
  by (simp add: transport_candidates_def)

lemma transport_nonempty: "unknown \<noteq> [] \<Longrightarrow> transport_candidates unknown \<noteq> [] \<and> transport_beliefs unknown \<noteq> []"
  by (cases unknown) (simp_all add: transport_candidates_def transport_beliefs_def)

lemma transport_beliefs_sum: "unknown \<noteq> [] \<Longrightarrow> sum_list (map snd (transport_beliefs unknown)) = 1"
  by (simp add: transport_beliefs_def comp_def case_prod_beta sum_list_triv flip: length_greater_0_conv)

lemma nothing_scores:
  assumes lg: "log_nonpositive lg" and u: "unknown \<noteq> []"
    and names: "\<forall>v\<in>set unknown. \<forall>i. v \<noteq> ''transport_exp_'' @ nat_str i"
    and c: "c \<in> set (transport_candidates unknown)" and s: "score lg transport_planner (transport_beliefs unknown) c = Inr s"
  shows "sx_eig s = 0"
proof -
  have "\<forall>(k, p)\<in>set (transport_beliefs unknown). k \<noteq> target_node c"
  proof clarify
    fix p assume "(target_node c, p) \<in> set (transport_beliefs unknown)"
    then obtain d where "d \<in> set (transport_candidates unknown)" "cand_id d = target_node c"
      by (auto simp: transport_beliefs_def)
    then show False using names transport_candidates_simps(1) [OF c] transport_candidates_simps(2) by metis
  qed
  moreover have "\<forall>p\<in>set (map snd (transport_beliefs unknown)). p \<le> 1" by (auto simp: transport_beliefs_def)
  ultimately have "fst (expected_information_gain lg (target_node c) (xp_estimator transport_planner) (transport_beliefs unknown)) = 0"
    using no_information [OF lg] transport_beliefs_sum [OF u] by (simp add: transport_planner_def default_planner_def)
  then show ?thesis using s by (auto simp: score_def Let_def rbind_Inr_iff)
qed

lemma plans_nothing:
  assumes lg: "log_nonpositive lg" and u: "unknown \<noteq> []"
    and names: "\<forall>v\<in>set unknown. \<forall>i. v \<noteq> ''transport_exp_'' @ nat_str i"
    and plan: "plan_next_experiment lg i rid (transport_candidates unknown) (transport_beliefs unknown) ctx transport_planner = Inr (r, ctx', p')"
  shows "r = None \<and> ctx' = ctx \<and> p' = transport_planner"
proof (cases "budget_exhausted ctx")
  case True
  then show ?thesis using plan by (simp add: plan_next_experiment_def)
next
  case False
  let ?cs = "transport_candidates unknown"
  have [simp]: "xp_tested transport_planner = {}" "xp_min_eig_threshold transport_planner = 1/100"
    by (simp_all add: transport_planner_def default_planner_def)
  have ne: "?cs \<noteq> []" "transport_beliefs unknown \<noteq> []" using transport_nonempty [OF u] by auto
  obtain ss where ss: "score_all lg transport_planner (transport_beliefs unknown) ?cs = Inr ss"
    using plan False ne by (cases "score_all lg transport_planner (transport_beliefs unknown) ?cs") (simp_all add: plan_next_experiment_def Let_def)
  note el = score_all_elems [OF ss]
  have "ss \<noteq> []" using el ne by auto
  then have best: "first_max sx_utility (hd ss) (tl ss) \<in> set ss"
    using first_max_mem [of sx_utility "hd ss" "tl ss"] by (cases ss) auto
  then have "sx_candidate (first_max sx_utility (hd ss) (tl ss)) \<in> set ?cs" using el by (metis image_eqI set_map)
  then have "sx_eig (first_max sx_utility (hd ss) (tl ss)) = 0"
    by (rule nothing_scores [OF lg u names]) (use el best in auto)
  then show ?thesis using plan False ne ss by (simp add: plan_next_experiment_def Let_def)
qed

lemma plan_target_experiments_nothing:
  assumes lg: "log_nonpositive lg" and u: "unknown \<noteq> []"
    and names: "\<forall>v\<in>set unknown. \<forall>i. v \<noteq> ''transport_exp_'' @ nat_str i"
    and "plan_target_experiments lg ids rid unknown = Inr xs"
  shows "xs = []"
proof -
  have ne: "transport_beliefs unknown \<noteq> []" using transport_nonempty [OF u] by auto
  obtain n where n: "length unknown = Suc n" using u by (cases unknown) auto
  let ?ctx = "new_context (of_nat (length unknown) * (1/10)) 300"
  obtain es ctx2 p2 where sel: "select_loop (length unknown) lg ids rid (transport_candidates unknown) (transport_beliefs unknown) ?ctx
      transport_planner = Inr (es, ctx2, p2)" and xs: "es = [] \<longrightarrow> xs = []"
    using assms(4) ne by (auto simp: plan_target_experiments_def select_minimum_experiments_def split: sum.splits)
  obtain r ctx' p' where "plan_next_experiment lg (ids n) rid (transport_candidates unknown) (transport_beliefs unknown) ?ctx
      transport_planner = Inr (r, ctx', p')" using sel n by (auto simp: rbind_Inr_iff)
  with plans_nothing [OF lg u names this] sel n xs show ?thesis by (simp add: rbind_Inr_iff)
qed

text \<open>The conditions the gate cannot settle never carry the name of a candidate.\<close>

lemma unknown_names:
  assumes "k = evaluate_footprint_invariants f ds" "ds = find_differences E s t f"
    and "v \<in> set (unsettled k ds)"
  shows "v \<noteq> ''transport_exp_'' @ x"
proof -
  have "v \<in> set (cn_unknown k) \<or> v \<in> changed_variables E s t"
    using assms differences_variables [of E s t f] by (auto simp: unsettled_def Let_def)
  then show ?thesis using assms(1) by (auto simp: footprint_folds changed_variables_def)
qed

text \<open>
  The gate never asks for an experiment. The logarithm is not positive on probabilities; then every decision
  that requires target validation, although it has unknown conditions, lists no experiment: the planner is given beliefs over
  candidate identifiers and targets that are conditions, so each experiment has no expected information.
\<close>

theorem gate_plans_no_experiment:
  assumes "log_nonpositive lg"
    and "evaluate_transportability E lg ids now key src tgt f cross = Inr d"
  shows "td_experiments d = [] \<and> (td_status d = TARGET_VALIDATION_REQUIRED \<longrightarrow> td_unknown d \<noteq> [])"
proof -
  have b: "td_experiments d = [] \<and> (td_status d = TARGET_VALIDATION_REQUIRED \<longrightarrow> td_unknown d \<noteq> [])"
    if "build_decision E lg ids now i src tgt st pr vi un x f = Inr d"
      "st = TARGET_VALIDATION_REQUIRED \<Longrightarrow> un \<noteq> [] \<and> (\<forall>v\<in>set un. \<forall>i. v \<noteq> ''transport_exp_'' @ nat_str i)" for i st pr vi un x
    using that plan_target_experiments_nothing [OF assms(1)]
    by (auto simp: build_decision_def Let_def rbind_Inr_iff split: if_splits)
  have judged: ?thesis if j: "judge_environments E lg ids now src tgt f = Inr d"
  proof -
    let ?ds = "find_differences E src tgt f"
    let ?k = "evaluate_footprint_invariants f ?ds"
    let ?un = "unsettled ?k ?ds"
    obtain st x where v: "transport_verdict (cn_violated ?k) ?un ?ds = (st, x)" by fastforce
    then have "st = TARGET_VALIDATION_REQUIRED \<Longrightarrow> ?un \<noteq> []" by (auto simp: transport_verdict_def split: if_splits)
    moreover have "\<forall>v\<in>set ?un. \<forall>i. v \<noteq> ''transport_exp_'' @ nat_str i" using unknown_names [OF refl refl] by blast
    ultimately show ?thesis using b j v by (simp add: judge_environments_def Let_def)
  qed
  obtain a where "(let refuse = (\<lambda>status explanation. build_decision E lg ids now (fp_recovery_id f) src tgt status [] [] [] explanation f) in
       if \<not> a then refuse NOT_TRANSPORTABLE ''Forged or missing provenance signature.''
       else if ed_calibration_evidence src = None \<or> ed_calibration_evidence tgt = None
       then refuse TRANSPORT_UNKNOWN ''Missing structured calibration evidence.''
       else if ed_tenant_id src \<noteq> ed_tenant_id tgt \<and> \<not> cross
       then refuse NOT_TRANSPORTABLE ''Cross-tenant transport denied by policy.''
       else judge_environments E lg ids now src tgt f) = Inr d"
    using assms(2) unfolding evaluate_transportability_def rbind_Inr_iff by blast
  then show ?thesis using judged b [where st=NOT_TRANSPORTABLE] b [where st=TRANSPORT_UNKNOWN]
    by (auto simp: Let_def split: if_splits)
qed

subsection \<open>The transfer guard\<close>

record similarity =
  si_score :: rat
  si_matched_anchors :: nat
  si_unrecognized_penalties :: nat

record guard_calibration =
  gc_confidence_interval :: rat
  gc_support_size :: int
  gc_empirical_risk :: rat

record provenance_envelope =
  pv_tenant_id :: string
  pv_components :: "string list"
  pv_environment_hash :: string
  pv_calibration_evidence :: guard_calibration
  pv_evidence_kind :: evidence
  pv_signature :: "string option"

definition envelope_text :: "env \<Rightarrow> provenance_envelope \<Rightarrow> string" where
  "envelope_text E p = pv_tenant_id p @ ''|'' @ py_join '','' (sort (pv_components p)) @ ''|'' @ pv_environment_hash p @ ''|'' @
     float_repr E (gc_confidence_interval (pv_calibration_evidence p)) @ ''|'' @
     int_str (gc_support_size (pv_calibration_evidence p)) @ ''|'' @ float_repr E (gc_empirical_risk (pv_calibration_evidence p))"

definition envelope_signature :: "env \<Rightarrow> string \<Rightarrow> provenance_envelope \<Rightarrow> string" where
  "envelope_signature E secret_key p = b64_encode E (hmac_sha256 E (utf8 secret_key) (utf8 (envelope_text E p)))"

definition verify_envelope :: "env \<Rightarrow> string \<Rightarrow> provenance_envelope \<Rightarrow> (transport_error, bool) result" where
  "verify_envelope E key p =
     (if \<not> truthy (pv_signature p) then Inr False
      else digest_equal (envelope_signature E key p) (the (pv_signature p)))"

text \<open>The weight of a component by its prefix; \<open>None\<close> is a component no prefix matches.\<close>

definition component_weight :: "string \<Rightarrow> rat option" where
  "component_weight c =
     (case List.find (\<lambda>(p, w). take (length p) c = p)
        [(''model:'', 3), (''agent:'', 5/2), (''prompt:'', 2), (''tool:'', 1), (''data:'', 1)] of
        Some (_, w) \<Rightarrow> Some w | None \<Rightarrow> None)"

definition recognized :: "string list \<Rightarrow> string set" where
  "recognized cs = {c \<in> set cs. component_weight c \<noteq> None}"

definition unrecognized :: "string list \<Rightarrow> nat" where
  "unrecognized cs = length (filter (\<lambda>c. component_weight c = None) cs)"

definition total_weight :: "string set \<Rightarrow> rat" where
  "total_weight S = (\<Sum>c\<in>S. the (component_weight c))"

definition compute_provenance_similarity :: "provenance_envelope \<Rightarrow> provenance_envelope \<Rightarrow> similarity" where
  "compute_provenance_similarity src tgt =
     (let source_nodes = recognized (pv_components src); target_nodes = recognized (pv_components tgt);
          unrec = unrecognized (pv_components src) + unrecognized (pv_components tgt) in
      if source_nodes = {} \<and> target_nodes = {}
      then \<lparr>si_score = (if unrec = 0 then 1 else 0), si_matched_anchors = 0, si_unrecognized_penalties = unrec\<rparr>
      else
        let intersection_weight = total_weight (source_nodes \<inter> target_nodes);
            union_weight = total_weight (source_nodes \<union> target_nodes);
            raw_score = (if 0 < union_weight then intersection_weight / union_weight else 0);
            penalty = of_nat unrec * (2/10)
        in \<lparr>si_score = max 0 (raw_score - penalty), si_matched_anchors = card (source_nodes \<inter> target_nodes),
            si_unrecognized_penalties = unrec\<rparr>)"

definition can_transfer_diagnosis ::
    "env \<Rightarrow> string \<Rightarrow> provenance_envelope \<Rightarrow> provenance_envelope \<Rightarrow> rat \<Rightarrow> rat \<Rightarrow> (transport_error, bool) result" where
  "can_transfer_diagnosis E key src tgt similarity_threshold max_shift =
     rbind (rbind (verify_envelope E key src) (\<lambda>ok. if ok then verify_envelope E key tgt else Inr False)) (\<lambda>genuine.
       Inr (if \<not> genuine then False
            else if pv_evidence_kind src = SYNTHETIC_SIMULATION then False
            else if pv_tenant_id src = pv_tenant_id tgt \<and> pv_environment_hash src = pv_environment_hash tgt then True
            else if si_score (compute_provenance_similarity src tgt) < similarity_threshold then False
            else \<not> (max_shift < \<bar>gc_empirical_risk (pv_calibration_evidence src) - gc_empirical_risk (pv_calibration_evidence tgt)\<bar>)))"

text \<open>The guard hands the causal question to a gate with its own key.\<close>

definition guard_evaluate ::
    "env \<Rightarrow> (rat \<Rightarrow> rat) \<Rightarrow> (nat \<Rightarrow> string) \<Rightarrow> int \<Rightarrow> string \<Rightarrow> string option \<Rightarrow> descriptor \<Rightarrow> descriptor \<Rightarrow> footprint \<Rightarrow> bool \<Rightarrow>
       (transport_error, transport_decision) result" where
  "guard_evaluate E lg ids now guard_key env_key src tgt f cross =
     evaluate_transportability E lg ids now (transport_key (Some guard_key) env_key) src tgt f cross"

subsection \<open>What the similarity means\<close>

lemma component_weight_pos: "component_weight c = Some w \<Longrightarrow> 0 < w"
  by (auto simp: component_weight_def find_Some_iff nth_Cons' split: option.splits if_splits)

lemma recognized_weight: "c \<in> recognized cs \<Longrightarrow> 0 < the (component_weight c)"
  using component_weight_pos by (auto simp: recognized_def)

lemma finite_recognized [simp]: "finite (recognized cs)"
  by (simp add: recognized_def)

lemma total_weight_mono:
  assumes "A \<subseteq> B" "finite B" "\<And>c. c \<in> B \<Longrightarrow> 0 < the (component_weight c)"
  shows "total_weight A \<le> total_weight B" "A \<noteq> B \<Longrightarrow> total_weight A < total_weight B"
proof -
  have f: "finite A" using assms(1,2) finite_subset by blast
  show "total_weight A \<le> total_weight B" unfolding total_weight_def
    using assms by (intro sum_mono2) (auto intro: less_imp_le)
  show "total_weight A < total_weight B" if ne: "A \<noteq> B"
  proof -
    obtain b where "b \<in> B - A" using ne assms(1) by blast
    then show ?thesis unfolding total_weight_def using assms by (intro sum_strict_mono2 [of B A b]) (auto intro: less_imp_le)
  qed
qed

lemma similarity_score_cases:
  fixes src tgt
  defines "S \<equiv> recognized (pv_components src)" and "T \<equiv> recognized (pv_components tgt)"
    and "n \<equiv> unrecognized (pv_components src) + unrecognized (pv_components tgt)"
  assumes ne: "S \<union> T \<noteq> {}"
  shows "si_score (compute_provenance_similarity src tgt) = max 0 (total_weight (S \<inter> T) / total_weight (S \<union> T) - of_nat n * (2/10))"
    "0 < total_weight (S \<union> T)"
proof -
  show pos: "0 < total_weight (S \<union> T)"
    using total_weight_mono(2) [of "{}" "S \<union> T"] ne recognized_weight by (auto simp: S_def T_def total_weight_def)
  then show "si_score (compute_provenance_similarity src tgt) = max 0 (total_weight (S \<inter> T) / total_weight (S \<union> T) - of_nat n * (2/10))"
    using ne by (auto simp: compute_provenance_similarity_def Let_def S_def T_def n_def)
qed

text \<open>
  The similarity of two envelopes is a number between 0 and 1, does not depend on their order, and is 1 exactly when both
  name the same recognised components and neither has a component without a known prefix.
\<close>

theorem similarity_sound:
  "0 \<le> si_score (compute_provenance_similarity p q) \<and> si_score (compute_provenance_similarity p q) \<le> 1 \<and>
   compute_provenance_similarity p q = compute_provenance_similarity q p \<and>
   (si_score (compute_provenance_similarity p q) = 1 \<longleftrightarrow>
      recognized (pv_components p) = recognized (pv_components q) \<and>
      (\<forall>c\<in>set (pv_components p) \<union> set (pv_components q). component_weight c \<noteq> None))"
proof -
  let ?S = "recognized (pv_components p)" and ?T = "recognized (pv_components q)"
  let ?n = "unrecognized (pv_components p) + unrecognized (pv_components q)"
  have sym: "compute_provenance_similarity p q = compute_provenance_similarity q p"
    by (simp add: compute_provenance_similarity_def Let_def Int_commute Un_commute add.commute conj_commute)
  have n0: "?n = 0 \<longleftrightarrow> (\<forall>c\<in>set (pv_components p) \<union> set (pv_components q). component_weight c \<noteq> None)"
    by (auto simp: unrecognized_def filter_empty_conv)
  show ?thesis
  proof (cases "?S \<union> ?T = {}")
    case True
    then show ?thesis using sym n0 by (auto simp: compute_provenance_similarity_def Let_def)
  next
    case False
    note sc = similarity_score_cases [OF False]
    let ?r = "total_weight (?S \<inter> ?T) / total_weight (?S \<union> ?T)"
    have w: "\<And>c. c \<in> ?S \<union> ?T \<Longrightarrow> 0 < the (component_weight c)" using recognized_weight by blast
    have le: "total_weight (?S \<inter> ?T) \<le> total_weight (?S \<union> ?T)" by (rule total_weight_mono) (use w in auto)
    then have r1: "?r \<le> 1" using sc(2) by simp
    have eq: "?r = 1 \<longleftrightarrow> ?S = ?T"
    proof
      assume "?r = 1"
      then have "\<not> total_weight (?S \<inter> ?T) < total_weight (?S \<union> ?T)" by auto
      then show "?S = ?T" using total_weight_mono(2) [of "?S \<inter> ?T" "?S \<union> ?T"] w by auto
    qed (use sc(2) in auto)
    have "max 0 (x - of_nat m * (2/10)) = 1 \<longleftrightarrow> x = 1 \<and> m = 0" if "x \<le> 1" for x :: rat and m :: nat
      using that by (cases "m = 0") (auto simp: max_def)
    from this [OF r1] have "max 0 (?r - of_nat ?n * (2/10)) = 1 \<longleftrightarrow> ?r = 1 \<and> ?n = 0" .
    then have one: "si_score (compute_provenance_similarity p q) = 1 \<longleftrightarrow> ?S = ?T \<and> ?n = 0" unfolding sc(1) eq .
    have "?r - of_nat ?n * (2/10) \<le> 1" using r1 by (rule order_trans [rotated]) simp
    then have "0 \<le> si_score (compute_provenance_similarity p q)" "si_score (compute_provenance_similarity p q) \<le> 1"
      using sc(1) by simp_all
    then show ?thesis using sym unfolding one n0 by (intro conjI refl) assumption+
  qed
qed

subsection \<open>What the guard grants\<close>

definition genuine :: "env \<Rightarrow> string \<Rightarrow> provenance_envelope \<Rightarrow> bool" where
  "genuine E key p \<longleftrightarrow> pv_signature p = Some (envelope_signature E key p) \<and> envelope_signature E key p \<noteq> []"

lemma verify_envelope_genuine: "verify_envelope E key p = Inr b \<Longrightarrow> b = genuine E key p"
  by (cases "pv_signature p") (auto simp: verify_envelope_def digest_equal_def genuine_def truthy_def split: if_splits)

text \<open>
  A diagnosis is transferred exactly when both envelopes carry the signature of the key, the evidence of the source is not
  labelled synthetic, and either tenant and environment are the same or the components are similar enough and the
  empirical risk shifted little enough. The label itself is not signed: relabelling the evidence of the source keeps its
  signature, so the only envelopes the label stops are those whose holder leaves it in place.
\<close>

theorem transfer_exact:
  assumes "can_transfer_diagnosis E key src tgt threshold shift = Inr b"
  shows "(b \<longleftrightarrow> genuine E key src \<and> genuine E key tgt \<and> pv_evidence_kind src \<noteq> SYNTHETIC_SIMULATION \<and>
      (pv_tenant_id src = pv_tenant_id tgt \<and> pv_environment_hash src = pv_environment_hash tgt \<or>
       threshold \<le> si_score (compute_provenance_similarity src tgt) \<and>
       \<bar>gc_empirical_risk (pv_calibration_evidence src) - gc_empirical_risk (pv_calibration_evidence tgt)\<bar> \<le> shift)) \<and>
    genuine E key (src\<lparr>pv_evidence_kind := k\<rparr>) = genuine E key src"
proof -
  have u: "envelope_signature E key (src\<lparr>pv_evidence_kind := k\<rparr>) = envelope_signature E key src"
    by (simp add: envelope_signature_def envelope_text_def)
  then have "genuine E key (src\<lparr>pv_evidence_kind := k\<rparr>) = genuine E key src" by (simp add: genuine_def)
  moreover obtain g where "rbind (verify_envelope E key src) (\<lambda>ok. if ok then verify_envelope E key tgt else Inr False) = Inr g"
    and b: "b = (if \<not> g then False
            else if pv_evidence_kind src = SYNTHETIC_SIMULATION then False
            else if pv_tenant_id src = pv_tenant_id tgt \<and> pv_environment_hash src = pv_environment_hash tgt then True
            else if si_score (compute_provenance_similarity src tgt) < threshold then False
            else \<not> (shift < \<bar>gc_empirical_risk (pv_calibration_evidence src) - gc_empirical_risk (pv_calibration_evidence tgt)\<bar>))"
    using assms by (auto simp: can_transfer_diagnosis_def rbind_Inr_iff)
  then have "g \<longleftrightarrow> genuine E key src \<and> genuine E key tgt"
    by (auto simp: rbind_Inr_iff dest!: verify_envelope_genuine split: if_splits)
  ultimately show ?thesis using b by auto
qed

text \<open>The separators of the signed text are not escaped: different component lists have one signature.\<close>

lemma components_ambiguous:
  assumes "sort (pv_components p) = [''model:a'', ''tool:b'']"
  shows "envelope_signature E key (p\<lparr>pv_components := [''model:a,tool:b'']\<rparr>) = envelope_signature E key p"
  by (simp add: envelope_signature_def envelope_text_def assms)

text \<open>Adding a requirement to a footprint dilutes the relevance of the others: a violation becomes an unknown condition.\<close>

lemma more_requirements_weaken:
  "graph_derived_relevance ''model'' \<lparr>fp_recovery_id = [], fp_components = [''model''], fp_edges = [],
     fp_policy_conditions = [], fp_data_conditions = [], fp_calibration_conditions = []\<rparr> = 1 \<and>
   graph_derived_relevance ''model'' \<lparr>fp_recovery_id = [], fp_components = [''model''], fp_edges = [''a->b''],
     fp_policy_conditions = [], fp_data_conditions = [], fp_calibration_conditions = []\<rparr> = 1/2"
  by (simp add: graph_derived_relevance_def)

subsection \<open>Witnesses\<close>

definition transport_env :: env where
  "transport_env = \<lparr>sha256 = (\<lambda>m. m), float_repr = ratio_repr, iso = int_str, ed25519_verify = (\<lambda>_ _ _. EdVerified),
     ed25519_sign = (\<lambda>_ _. []), hmac_sha256 = (\<lambda>k m. k), b64_encode = (\<lambda>m. m), b64_decode = Some\<rparr>"

definition sample_calibration :: calibration where
  "sample_calibration = \<lparr>cb_metric = [], cb_sample_size = 1, cb_confidence_level = 1, cb_dataset = [], cb_time = 0,
     cb_evaluator = [], cb_source_result = 1, cb_target_result = None\<rparr>"

definition sample_descriptor :: "string \<Rightarrow> descriptor" where
  "sample_descriptor m = \<lparr>ed_environment_id = ''e'', ed_tenant_id = ''t'', ed_model = m, ed_prompt = [], ed_retriever = [],
     ed_memory = m, ed_tools = [], ed_policy = [], ed_index = [], ed_data_distribution_fingerprint = [],
     ed_execution_configuration = [], ed_causal_graph_hash = [], ed_provenance_hash = [],
     ed_calibration_evidence = Some sample_calibration, ed_captured_at = 0, ed_signature = Some ''k''\<rparr>"

definition sample_footprint :: footprint where
  "sample_footprint = \<lparr>fp_recovery_id = ''r'', fp_components = [], fp_edges = [], fp_policy_conditions = [],
     fp_data_conditions = [], fp_calibration_conditions = []\<rparr>"

lemma sample_authentic: "verify_descriptor transport_env ''k'' (sample_descriptor m) = Inr True"
  "recompute_signature transport_env ''k'' (sample_descriptor m) = ''k''"
  by (simp_all add: verify_descriptor_def digest_equal_def recompute_signature_def transport_env_def sample_descriptor_def utf8_def
    utf8_char_def)

lemma sample_differences:
  "map df_variable (find_differences transport_env (sample_descriptor ''m1'') (sample_descriptor ''m2'') sample_footprint) = [''model'']"
  by (simp add: find_differences_def compared_def add_diff_def Let_def value_hash_def transport_env_def sample_descriptor_def
    dumps_def json_string_def esc_char_def short_escape_def utf8_def utf8_char_def default_style_def bslash_def quote_char_def)

lemma sample_log: "log_nonpositive (\<lambda>_. 0)"
  by (simp add: log_nonpositive_def)

lemma sample_decision:
  "\<exists>d. evaluate_transportability transport_env (\<lambda>_. 0) nat_str 0 ''k'' (sample_descriptor ''m1'') (sample_descriptor ''m2'')
     sample_footprint False = Inr d \<and> td_status d = TARGET_VALIDATION_REQUIRED"
proof -
  let ?s = "sample_descriptor ''m1''" and ?t = "sample_descriptor ''m2''"
  let ?ds = "find_differences transport_env ?s ?t sample_footprint"
  let ?p = "transport_planner"
  have "\<exists>u. score (\<lambda>_. 0) ?p (transport_beliefs [''model'']) c = Inr u" if "c \<in> set (transport_candidates [''model''])" for c
    by (rule score_returns) (use transport_candidates_simps [OF that] in \<open>auto simp: transport_planner_def default_planner_def\<close>)
  then obtain u where "score_all (\<lambda>_. 0) ?p (transport_beliefs [''model'']) (transport_candidates [''model'']) = Inr [u]"
    by (auto simp: transport_candidates_def)
  then obtain r where r: "plan_next_experiment (\<lambda>_. 0) (nat_str 0) ''r'' (transport_candidates [''model'']) (transport_beliefs [''model''])
      (new_context (1/10) 300) ?p = Inr r"
    by (fastforce simp: plan_next_experiment_def Let_def reserve_def transport_planner_def default_planner_def)
  have "\<exists>xs. plan_target_experiments (\<lambda>_. 0) nat_str ''r'' [''model''] = Inr xs"
    using r transport_nonempty [of "[''model'']"] plans_nothing [OF sample_log, of "[''model'']" "nat_str 0" "''r''" "new_context (1/10) 300"]
    by (cases r) (auto simp: plan_target_experiments_def select_minimum_experiments_def)
  then obtain xs where xs: "plan_target_experiments (\<lambda>_. 0) nat_str ''r'' [''model''] = Inr xs" by blast
  have k: "evaluate_footprint_invariants sample_footprint ?ds = \<lparr>cn_violated = [], cn_preserved = [], cn_unknown = []\<rparr>"
    by (simp add: evaluate_footprint_invariants_def sample_footprint_def)
  have un: "unsettled \<lparr>cn_violated = [], cn_preserved = [], cn_unknown = []\<rparr> ?ds = [''model'']"
    using sample_differences by (simp add: unsettled_def)
  have "ed_calibration_evidence (sample_descriptor m) = Some sample_calibration" "ed_tenant_id (sample_descriptor m) = ''t''" for m
    by (simp_all add: sample_descriptor_def)
  then have "evaluate_transportability transport_env (\<lambda>_. 0) nat_str 0 ''k'' ?s ?t sample_footprint False =
      judge_environments transport_env (\<lambda>_. 0) nat_str 0 ?s ?t sample_footprint"
    using sample_authentic(1) by (simp add: evaluate_transportability_def)
  moreover have "fp_recovery_id sample_footprint = ''r''" by (simp add: sample_footprint_def)
  ultimately show ?thesis using xs
    by (simp add: judge_environments_def Let_def k un transport_verdict_def build_decision_def)
qed

theorem transport_status_exact_witness:
  "\<exists>d. evaluate_transportability transport_env (\<lambda>_. 0) nat_str 0 ''k'' (sample_descriptor ''m1'') (sample_descriptor ''m2'')
     sample_footprint False = Inr d \<and>
   transport_spec transport_env ''k'' (sample_descriptor ''m1'') (sample_descriptor ''m2'') sample_footprint False = TARGET_VALIDATION_REQUIRED"
proof -
  obtain d where d: "evaluate_transportability transport_env (\<lambda>_. 0) nat_str 0 ''k'' (sample_descriptor ''m1'') (sample_descriptor ''m2'')
     sample_footprint False = Inr d" "td_status d = TARGET_VALIDATION_REQUIRED" using sample_decision by blast
  from transport_status_exact [OF d(1)] d show ?thesis by auto
qed

theorem gate_plans_no_experiment_witness:
  "\<exists>d. evaluate_transportability transport_env (\<lambda>_. 0) nat_str 0 ''k'' (sample_descriptor ''m1'') (sample_descriptor ''m2'')
     sample_footprint False = Inr d \<and> td_status d = TARGET_VALIDATION_REQUIRED \<and> td_unknown d \<noteq> [] \<and> td_experiments d = []"
proof -
  obtain d where d: "evaluate_transportability transport_env (\<lambda>_. 0) nat_str 0 ''k'' (sample_descriptor ''m1'') (sample_descriptor ''m2'')
     sample_footprint False = Inr d" "td_status d = TARGET_VALIDATION_REQUIRED" using sample_decision by blast
  from gate_plans_no_experiment [OF sample_log d(1)] d show ?thesis by auto
qed

definition sample_provenance :: "evidence \<Rightarrow> provenance_envelope" where
  "sample_provenance k = \<lparr>pv_tenant_id = ''t'', pv_components = [''model:a''], pv_environment_hash = ''h'',
     pv_calibration_evidence = \<lparr>gc_confidence_interval = 1, gc_support_size = 1, gc_empirical_risk = 0\<rparr>,
     pv_evidence_kind = k, pv_signature = Some ''k''\<rparr>"

theorem transfer_exact_witness:
  "can_transfer_diagnosis transport_env ''k'' (sample_provenance PRODUCTION) (sample_provenance SYNTHETIC_SIMULATION) (8/10) (1/10) = Inr True \<and>
   genuine transport_env ''k'' (sample_provenance SYNTHETIC_SIMULATION)"
proof -
  have t: "can_transfer_diagnosis transport_env ''k'' (sample_provenance PRODUCTION) (sample_provenance SYNTHETIC_SIMULATION) (8/10) (1/10) = Inr True"
    by (simp add: can_transfer_diagnosis_def verify_envelope_def digest_equal_def envelope_signature_def sample_provenance_def
      transport_env_def utf8_def utf8_char_def)
  have "(sample_provenance PRODUCTION)\<lparr>pv_evidence_kind := SYNTHETIC_SIMULATION\<rparr> = sample_provenance SYNTHETIC_SIMULATION"
    by (simp add: sample_provenance_def)
  with transfer_exact [OF t, of SYNTHETIC_SIMULATION] t show ?thesis by simp
qed

end
