(* ===== verification/Task_Scheduler.thy ===== *)
theory Task_Scheduler
  imports Prelude
begin

section \<open>The task scheduler\<close>

text \<open>
  \<open>packages/replay/src/aor_scheduler.py\<close>: tasks with dependencies are run by a pool of threads; a task that raises is
  diagnosed in a second pool. All state is read and written under one lock, so a step is one critical section: a
  pass of the main loop, the end of a task function (which may return anything or raise any \<open>Exception\<close>), or the end of a
  diagnosis. A \<open>SystemExit\<close> or another exception that is no \<open>Exception\<close> is not caught by the code, would leave
  its task running for ever, and is outside the model.
  Steps of the threads interleave in any order. The table of tasks is a dict in insertion order, filled before the loop
  runs. \<open>ao_started\<close> lists what was handed to the pool.
\<close>

subsection \<open>State\<close>

datatype task_status = TPENDING | TRUNNING | TCOMPLETED | TFAILED | TBLOCKED | TDIAGNOSING

record 'v aor_task =
  tk_dependencies :: "string list"
  tk_status :: task_status
  tk_result :: "'v option"
  tk_error :: "string option"
  tk_diagnostic :: "('v option \<times> string option) option"

definition new_task :: "string list \<Rightarrow> 'v aor_task" where
  "new_task deps = \<lparr>tk_dependencies = deps, tk_status = TPENDING, tk_result = None, tk_error = None, tk_diagnostic = None\<rparr>"

type_synonym 'v table = "(string \<times> 'v aor_task) list"

record 'v scheduler =
  ao_tasks :: "'v table"
  ao_pool :: "string list"
  ao_diagnostics :: "string list"
  ao_started :: "string list"

definition empty_scheduler :: "'v scheduler" where
  "empty_scheduler = \<lparr>ao_tasks = [], ao_pool = [], ao_diagnostics = [], ao_started = []\<rparr>"

definition add_task :: "string \<Rightarrow> 'v aor_task \<Rightarrow> 'v scheduler \<Rightarrow> 'v scheduler" where
  "add_task i t s = s\<lparr>ao_tasks := dict_put i t (ao_tasks s)\<rparr>"

definition set_task :: "string \<Rightarrow> ('v aor_task \<Rightarrow> 'v aor_task) \<Rightarrow> 'v table \<Rightarrow> 'v table" where
  "set_task i f ts = map (\<lambda>(j, t). (j, if j = i then f t else t)) ts"

definition status_of :: "'v table \<Rightarrow> string \<Rightarrow> task_status option" where
  "status_of ts i = map_option tk_status (map_of ts i)"

definition get_task :: "string \<Rightarrow> 'v scheduler \<Rightarrow> 'v aor_task option" where
  "get_task i s = map_of (ao_tasks s) i"

subsection \<open>A pass of the main loop\<close>

text \<open>The loop over the dependencies of a task stops at the first that is not complete.\<close>

datatype readiness = Ready | Waiting | Doomed

fun check_dependencies :: "'v table \<Rightarrow> string list \<Rightarrow> readiness" where
  "check_dependencies ts [] = Ready"
| "check_dependencies ts (d # ds) =
     (case status_of ts d of
        None \<Rightarrow> check_dependencies ts ds
      | Some st \<Rightarrow>
          if st \<in> {TFAILED, TBLOCKED, TDIAGNOSING} then Doomed
          else if st \<noteq> TCOMPLETED then Waiting
          else check_dependencies ts ds)"

text \<open>Tasks are visited in the order of the table; one that is blocked is seen as blocked by those after it.\<close>

definition visit_task :: "string \<Rightarrow> 'v table \<times> string list \<Rightarrow> 'v table \<times> string list" where
  "visit_task i st =
     (case st of (ts, ready) \<Rightarrow>
        (case map_of ts i of
           None \<Rightarrow> (ts, ready)
         | Some t \<Rightarrow>
             if tk_status t \<noteq> TPENDING then (ts, ready)
             else (case check_dependencies ts (tk_dependencies t) of
                 Doomed \<Rightarrow> (set_task i (\<lambda>t. t\<lparr>tk_status := TBLOCKED\<rparr>) ts, ready)
               | Waiting \<Rightarrow> (ts, ready)
               | Ready \<Rightarrow> (ts, ready @ [i]))))"

definition get_ready_tasks :: "'v table \<Rightarrow> 'v table \<times> string list" where
  "get_ready_tasks ts = fold visit_task (map fst ts) (ts, [])"

definition all_done :: "'v table \<Rightarrow> bool" where
  "all_done ts \<longleftrightarrow> list_all (\<lambda>(_, t). tk_status t \<notin> {TPENDING, TRUNNING, TDIAGNOSING}) ts"

definition start_task :: "string \<Rightarrow> 'v scheduler \<Rightarrow> 'v scheduler" where
  "start_task i s = s\<lparr>ao_tasks := set_task i (\<lambda>t. t\<lparr>tk_status := TRUNNING\<rparr>) (ao_tasks s),
     ao_pool := ao_pool s @ [i], ao_started := ao_started s @ [i]\<rparr>"

text \<open>One pass: \<^const>\<open>None\<close> is leaving the loop.\<close>

definition main_pass :: "'v scheduler \<Rightarrow> 'v scheduler option" where
  "main_pass s =
     (if all_done (ao_tasks s) then None
      else case get_ready_tasks (ao_tasks s) of (ts, ready) \<Rightarrow> Some (fold start_task ready (s\<lparr>ao_tasks := ts\<rparr>)))"

subsection \<open>The threads\<close>

text \<open>The end of a task function: a result, or an exception, which sends the task to diagnosis.\<close>

definition execute_task :: "string \<Rightarrow> (string, 'v) result \<Rightarrow> 'v scheduler \<Rightarrow> 'v scheduler" where
  "execute_task i r s =
     (case r of
        Inr v \<Rightarrow> s\<lparr>ao_tasks := set_task i (\<lambda>t. t\<lparr>tk_result := Some v, tk_status := TCOMPLETED\<rparr>) (ao_tasks s),
                   ao_pool := remove1 i (ao_pool s)\<rparr>
      | Inl e \<Rightarrow> s\<lparr>ao_tasks := set_task i (\<lambda>t. t\<lparr>tk_error := Some e, tk_status := TDIAGNOSING\<rparr>) (ao_tasks s),
                   ao_pool := remove1 i (ao_pool s), ao_diagnostics := ao_diagnostics s @ [i]\<rparr>)"

definition run_diagnostic :: "string \<Rightarrow> (string, 'v option \<times> string option) result \<Rightarrow> 'v scheduler \<Rightarrow> 'v scheduler" where
  "run_diagnostic i r s =
     s\<lparr>ao_tasks := set_task i (\<lambda>t. t\<lparr>tk_diagnostic := Some (case r of Inr d \<Rightarrow> d | Inl e \<Rightarrow> (None, Some e)), tk_status := TFAILED\<rparr>)
                     (ao_tasks s),
       ao_diagnostics := remove1 i (ao_diagnostics s)\<rparr>"

inductive sched_step :: "'v scheduler \<Rightarrow> 'v scheduler \<Rightarrow> bool" where
  pass: "main_pass s = Some s' \<Longrightarrow> sched_step s s'"
| task: "i \<in> set (ao_pool s) \<Longrightarrow> sched_step s (execute_task i r s)"
| diagnosis: "i \<in> set (ao_diagnostics s) \<Longrightarrow> sched_step s (run_diagnostic i d s)"

text \<open>The states of a run over the tasks \<open>specs\<close>, given as identifiers with dependencies.\<close>

definition loaded :: "(string \<times> string list) list \<Rightarrow> 'v scheduler" where
  "loaded specs = fold (\<lambda>(i, deps). add_task i (new_task deps)) specs empty_scheduler"

inductive sched_reachable :: "(string \<times> string list) list \<Rightarrow> 'v scheduler \<Rightarrow> bool" for specs where
  start: "sched_reachable specs (loaded specs)"
| step: "sched_reachable specs s \<Longrightarrow> sched_step s s' \<Longrightarrow> sched_reachable specs s'"

subsection \<open>Small steps of a pass\<close>

lemma map_of_set_task [simp]: "map_of (set_task i f ts) = (map_of ts)(i := map_option f (map_of ts i))"
  by (induction ts) (auto simp: set_task_def)

lemma map_fst_set_task [simp]: "map fst (set_task i f ts) = map fst ts"
  by (induction ts) (auto simp: set_task_def)

definition done_for :: "'v table \<Rightarrow> string list \<Rightarrow> bool" where
  "done_for ts deps \<longleftrightarrow> (\<forall>d\<in>set deps. status_of ts d \<in> {None, Some TCOMPLETED})"

definition doomed_for :: "'v table \<Rightarrow> string list \<Rightarrow> bool" where
  "doomed_for ts deps \<longleftrightarrow> (\<exists>d\<in>set deps. status_of ts d \<in> {Some TFAILED, Some TBLOCKED, Some TDIAGNOSING})"

lemma check_ready: "check_dependencies ts deps = Ready \<longleftrightarrow> done_for ts deps"
  by (induction deps) (auto simp: done_for_def split: option.splits)

lemma check_doomed: "check_dependencies ts deps = Doomed \<Longrightarrow> doomed_for ts deps"
  by (induction deps) (auto simp: doomed_for_def split: option.splits if_splits)

definition startable :: "'v table \<Rightarrow> string \<Rightarrow> bool" where
  "startable ts i \<longleftrightarrow> (\<exists>t. map_of ts i = Some t \<and> tk_status t = TPENDING \<and> done_for ts (tk_dependencies t))"

inductive block_step :: "'v table \<Rightarrow> 'v table \<Rightarrow> bool" where
  "map_of ts i = Some t \<Longrightarrow> tk_status t = TPENDING \<Longrightarrow> doomed_for ts (tk_dependencies t) \<Longrightarrow>
     block_step ts (set_task i (\<lambda>t. t\<lparr>tk_status := TBLOCKED\<rparr>) ts)"

lemma status_set_task: "status_of (set_task i f ts) j = (if j = i then map_option (tk_status \<circ> f) (map_of ts i) else status_of ts j)"
  by (simp add: status_of_def option.map_comp)

text \<open>Changing a pending task leaves every other startable task startable.\<close>

lemma startable_other:
  assumes "startable ts j" "j \<noteq> i" "map_of ts i = Some t" "tk_status t = TPENDING"
  shows "startable (set_task i f ts) j"
proof -
  have "done_for (set_task i f ts) ds" if "done_for ts ds" for ds
  proof -
    have "i \<notin> set ds" using that assms(3,4) by (auto simp: done_for_def status_of_def)
    then show ?thesis using that by (auto simp: done_for_def status_set_task)
  qed
  then show ?thesis using assms(1,2) by (auto simp: startable_def)
qed

lemma visit_cases:
  assumes "visit_task x (ts, ready) = (ts1, ready1)"
  obtains (same) "ts1 = ts" "ready1 = ready"
        "\<And>t. map_of ts x = Some t \<Longrightarrow> tk_status t = TPENDING \<Longrightarrow> check_dependencies ts (tk_dependencies t) = Waiting"
    | (block) t where "map_of ts x = Some t" "tk_status t = TPENDING" "doomed_for ts (tk_dependencies t)" "ready1 = ready"
        "ts1 = set_task x (\<lambda>t. t\<lparr>tk_status := TBLOCKED\<rparr>) ts"
    | (ready) "ts1 = ts" "ready1 = ready @ [x]" "startable ts x"
proof (cases "map_of ts x")
  case None
  then show ?thesis using assms same by (simp add: visit_task_def)
next
  case (Some t)
  show ?thesis
  proof (cases "tk_status t = TPENDING")
    case True
    show ?thesis
    proof (cases "check_dependencies ts (tk_dependencies t)")
      case Ready
      then have "startable ts x" using Some True by (simp add: startable_def check_ready)
      then show ?thesis using assms Some True Ready ready by (simp add: visit_task_def)
    next
      case Waiting
      then show ?thesis using assms Some True same by (simp add: visit_task_def)
    next
      case Doomed
      then show ?thesis using assms Some True block check_doomed [OF Doomed] by (simp add: visit_task_def)
    qed
  next
    case False
    then show ?thesis using assms Some same by (simp add: visit_task_def)
  qed
qed

lemma visit_fold:
  assumes "fold visit_task xs (ts, ready) = (ts', ready')" "distinct xs" "distinct ready" "set xs \<inter> set ready = {}"
    and "\<forall>i\<in>set ready. startable ts i"
  shows "block_step\<^sup>*\<^sup>* ts ts' \<and> distinct ready' \<and> (\<forall>i\<in>set ready'. startable ts' i)"
  using assms
proof (induction xs arbitrary: ts ready)
  case (Cons x xs)
  obtain ts1 ready1 where v: "visit_task x (ts, ready) = (ts1, ready1)" by fastforce
  have rest: "fold visit_task xs (ts1, ready1) = (ts', ready')" using Cons.prems(1) v by simp
  from v show ?case
  proof (cases rule: visit_cases)
    case same
    then show ?thesis using Cons.IH [OF rest] Cons.prems by auto
  next
    case block
    have "block_step ts ts1" using block by (auto intro: block_step.intros)
    moreover have "startable ts1 i" if "i \<in> set ready" for i
      unfolding block(5) by (rule startable_other) (use that block Cons.prems in auto)
    ultimately show ?thesis using Cons.IH [OF rest] Cons.prems block(4) by (auto intro: converse_rtranclp_into_rtranclp)
  next
    case ready
    then show ?thesis using Cons.IH [OF rest] Cons.prems by auto
  qed
qed auto

text \<open>One pass is a sequence of blockings and then of starts, each of a task that may start.\<close>

lemma main_pass_steps:
  assumes "main_pass s = Some s'" "distinct (map fst (ao_tasks s))"
  obtains ts ready where "block_step\<^sup>*\<^sup>* (ao_tasks s) ts" "distinct ready" "\<forall>i\<in>set ready. startable ts i"
    "s' = fold start_task ready (s\<lparr>ao_tasks := ts\<rparr>)"
proof -
  obtain ts ready where g: "get_ready_tasks (ao_tasks s) = (ts, ready)" by fastforce
  then have "s' = fold start_task ready (s\<lparr>ao_tasks := ts\<rparr>)" using assms(1) by (auto simp: main_pass_def split: if_splits)
  with visit_fold [of "map fst (ao_tasks s)" "ao_tasks s" "[]" ts ready] g assms(2) that show ?thesis
    by (auto simp: get_ready_tasks_def)
qed

subsection \<open>The invariant\<close>

definition ran :: "task_status \<Rightarrow> bool" where
  "ran st \<longleftrightarrow> st \<in> {TRUNNING, TCOMPLETED, TFAILED, TDIAGNOSING}"

definition task_ok :: "'v table \<Rightarrow> 'v aor_task \<Rightarrow> bool" where
  "task_ok ts t \<longleftrightarrow>
     (ran (tk_status t) \<longrightarrow> done_for ts (tk_dependencies t)) \<and>
     (tk_status t = TBLOCKED \<longrightarrow> doomed_for ts (tk_dependencies t)) \<and>
     (tk_status t = TCOMPLETED \<longrightarrow> tk_result t \<noteq> None) \<and>
     (tk_status t = TFAILED \<longrightarrow> tk_error t \<noteq> None \<and> tk_diagnostic t \<noteq> None) \<and>
     (tk_status t = TDIAGNOSING \<longrightarrow> tk_error t \<noteq> None)"

definition sched_inv :: "'v scheduler \<Rightarrow> bool" where
  "sched_inv s \<longleftrightarrow> distinct (map fst (ao_tasks s)) \<and> distinct (ao_started s) \<and> distinct (ao_pool s) \<and> distinct (ao_diagnostics s) \<and>
     (\<forall>i. i \<in> set (ao_pool s) \<longleftrightarrow> status_of (ao_tasks s) i = Some TRUNNING) \<and>
     (\<forall>i. i \<in> set (ao_diagnostics s) \<longleftrightarrow> status_of (ao_tasks s) i = Some TDIAGNOSING) \<and>
     (\<forall>i. i \<in> set (ao_started s) \<longleftrightarrow> (\<exists>st. status_of (ao_tasks s) i = Some st \<and> ran st)) \<and>
     (\<forall>i t. map_of (ao_tasks s) i = Some t \<longrightarrow> task_ok (ao_tasks s) t)"

text \<open>The statuses only move forward, which keeps what was known of the dependencies.\<close>

definition forward :: "task_status \<Rightarrow> task_status \<Rightarrow> bool" where
  "forward a b \<longleftrightarrow> (a, b) \<in> {(TPENDING, TBLOCKED), (TPENDING, TRUNNING), (TRUNNING, TCOMPLETED), (TRUNNING, TDIAGNOSING),
     (TDIAGNOSING, TFAILED)}"

lemma status_forward:
  assumes "map_of ts i = Some t" "forward (tk_status t) (tk_status (f t))"
  shows "status_of (set_task i f ts) d = status_of ts d \<or>
    (\<exists>a b. status_of ts d = Some a \<and> status_of (set_task i f ts) d = Some b \<and> forward a b)"
  using assms by (auto simp: status_set_task status_of_def)

lemma forward_keeps:
  assumes "map_of ts i = Some t" "forward (tk_status t) (tk_status (f t))"
  shows "done_for ts ds \<Longrightarrow> done_for (set_task i f ts) ds" "doomed_for ts ds \<Longrightarrow> doomed_for (set_task i f ts) ds"
proof -
  note fw = status_forward [where f=f, OF assms]
  show "done_for (set_task i f ts) ds" if "done_for ts ds"
    unfolding done_for_def
  proof
    fix d assume "d \<in> set ds"
    then have "status_of ts d = None \<or> status_of ts d = Some TCOMPLETED" using \<open>done_for ts ds\<close> by (auto simp: done_for_def)
    with fw [of d] show "status_of (set_task i f ts) d \<in> {None, Some TCOMPLETED}" by (auto simp: forward_def)
  qed
  show "doomed_for (set_task i f ts) ds" if "doomed_for ts ds"
  proof -
    obtain d where d: "d \<in> set ds" "status_of ts d \<in> {Some TFAILED, Some TBLOCKED, Some TDIAGNOSING}"
      using \<open>doomed_for ts ds\<close> by (auto simp: doomed_for_def)
    then have "status_of (set_task i f ts) d \<in> {Some TFAILED, Some TBLOCKED, Some TDIAGNOSING}"
      using fw [of d] by (auto simp: forward_def)
    with d(1) show ?thesis by (auto simp: doomed_for_def)
  qed
qed

lemma task_ok_keeps:
  assumes "map_of ts i = Some t" "forward (tk_status t) (tk_status (f t))" "task_ok ts u"
  shows "task_ok (set_task i f ts) u"
  using assms(3) forward_keeps [where f=f, OF assms(1,2)] by (auto simp: task_ok_def)

lemma tasks_ok_step:
  assumes "\<forall>j u. map_of ts j = Some u \<longrightarrow> task_ok ts u" "map_of ts i = Some t" "forward (tk_status t) (tk_status (f t))"
    and "task_ok (set_task i f ts) (f t)"
  shows "\<forall>j u. map_of (set_task i f ts) j = Some u \<longrightarrow> task_ok (set_task i f ts) u"
  using assms task_ok_keeps [where f=f, OF assms(2,3)] by auto

definition fresh_scheduler :: "'v scheduler \<Rightarrow> bool" where
  "fresh_scheduler s \<longleftrightarrow> (\<forall>i t. map_of (ao_tasks s) i = Some t \<longrightarrow> (\<exists>deps. t = new_task deps)) \<and> distinct (map fst (ao_tasks s)) \<and>
     ao_pool s = [] \<and> ao_diagnostics s = [] \<and> ao_started s = []"

lemma fresh_add: "fresh_scheduler s \<Longrightarrow> fresh_scheduler (add_task i (new_task deps) s)"
  unfolding fresh_scheduler_def add_task_def by auto

lemma fresh_loaded: "fresh_scheduler (loaded specs)"
proof -
  have "fresh_scheduler s \<Longrightarrow> fresh_scheduler (fold (\<lambda>(i, deps). add_task i (new_task deps)) specs s)" for s :: "'v scheduler"
    by (induction specs arbitrary: s) (auto simp: fresh_add)
  moreover have "fresh_scheduler (empty_scheduler :: 'v scheduler)" by (simp add: fresh_scheduler_def empty_scheduler_def)
  ultimately show ?thesis by (simp add: loaded_def)
qed

lemma fresh_inv:
  assumes "fresh_scheduler s"
  shows "sched_inv s"
proof -
  have new: "\<exists>deps. t = new_task deps" if "map_of (ao_tasks s) i = Some t" for i t
    using that assms unfolding fresh_scheduler_def by blast
  have st: "status_of (ao_tasks s) i = None \<or> status_of (ao_tasks s) i = Some TPENDING" for i
    using new [of i] by (cases "map_of (ao_tasks s) i") (auto simp: status_of_def new_task_def)
  have "task_ok (ao_tasks s) (new_task deps)" for deps by (simp add: task_ok_def new_task_def ran_def)
  then have "\<forall>i t. map_of (ao_tasks s) i = Some t \<longrightarrow> task_ok (ao_tasks s) t" using new by blast
  moreover have "status_of (ao_tasks s) i \<noteq> Some TRUNNING" "status_of (ao_tasks s) i \<noteq> Some TDIAGNOSING"
    "status_of (ao_tasks s) i = Some x \<Longrightarrow> \<not> ran x" for i x using st [of i] by (auto simp: ran_def)
  ultimately show ?thesis using assms unfolding sched_inv_def fresh_scheduler_def by auto
qed

text \<open>A step that moves the status of one task forward and keeps the books keeps the invariant.\<close>

lemma inv_step:
  assumes inv: "sched_inv s" and i: "map_of (ao_tasks s) i = Some t" and fw: "forward (tk_status t) (tk_status (f t))"
    and ok: "task_ok (set_task i f (ao_tasks s)) (f t)"
    and pool: "distinct pool" "set pool = (if tk_status (f t) = TRUNNING then insert i (set (ao_pool s)) else set (ao_pool s) - {i})"
    and diag: "distinct diag" "set diag = (if tk_status (f t) = TDIAGNOSING then insert i (set (ao_diagnostics s)) else set (ao_diagnostics s) - {i})"
    and started: "distinct started" "set started = (if ran (tk_status (f t)) then insert i (set (ao_started s)) else set (ao_started s) - {i})"
  shows "sched_inv \<lparr>ao_tasks = set_task i f (ao_tasks s), ao_pool = pool, ao_diagnostics = diag, ao_started = started\<rparr>"
proof -
  have "\<forall>j u. map_of (set_task i f (ao_tasks s)) j = Some u \<longrightarrow> task_ok (set_task i f (ao_tasks s)) u"
    by (rule tasks_ok_step [where f=f, OF _ i fw ok]) (use inv in \<open>simp add: sched_inv_def\<close>)
  then show ?thesis using inv i pool diag started by (auto simp: sched_inv_def status_set_task)
qed

lemma inv_of: "sched_inv s \<Longrightarrow> map_of (ao_tasks s) i = Some t \<Longrightarrow> task_ok (ao_tasks s) t"
  by (simp add: sched_inv_def)

lemma block_inv:
  assumes "block_step ts ts'" "ts = ao_tasks s" "sched_inv s"
  shows "sched_inv (s\<lparr>ao_tasks := ts'\<rparr>)"
  using assms(1)
proof cases
  case (1 i t)
  let ?f = "\<lambda>t :: 'a aor_task. t\<lparr>tk_status := TBLOCKED\<rparr>"
  have fw: "forward (tk_status t) (tk_status (?f t))" using 1 by (simp add: forward_def)
  have "status_of (ao_tasks s) i = Some TPENDING" using 1 assms(2) by (simp add: status_of_def)
  then have notin: "i \<notin> set (ao_pool s)" "i \<notin> set (ao_diagnostics s)" "i \<notin> set (ao_started s)"
    using assms(3) by (auto simp: sched_inv_def ran_def)
  have "task_ok (set_task i ?f ts) (?f t)"
    using forward_keeps(2) [where f="?f", OF _ fw] 1 by (auto simp: task_ok_def ran_def)
  then have "sched_inv \<lparr>ao_tasks = set_task i ?f (ao_tasks s), ao_pool = ao_pool s, ao_diagnostics = ao_diagnostics s, ao_started = ao_started s\<rparr>"
    by (intro inv_step [where t=t]) (use 1 assms fw notin in \<open>auto simp: sched_inv_def ran_def\<close>)
  then show ?thesis using 1 assms(2) by (cases s) simp
qed

lemma start_inv:
  assumes "startable (ao_tasks s) i" "sched_inv s"
  shows "sched_inv (start_task i s)"
proof -
  let ?f = "\<lambda>t :: 'a aor_task. t\<lparr>tk_status := TRUNNING\<rparr>"
  obtain t where t: "map_of (ao_tasks s) i = Some t" "tk_status t = TPENDING" "done_for (ao_tasks s) (tk_dependencies t)"
    using assms(1) by (auto simp: startable_def)
  have fw: "forward (tk_status t) (tk_status (?f t))" using t by (simp add: forward_def)
  have "status_of (ao_tasks s) i = Some TPENDING" using t by (simp add: status_of_def)
  then have notin: "i \<notin> set (ao_pool s)" "i \<notin> set (ao_diagnostics s)" "i \<notin> set (ao_started s)"
    using assms(2) by (auto simp: sched_inv_def ran_def)
  have "task_ok (set_task i ?f (ao_tasks s)) (?f t)"
    using forward_keeps(1) [where f="?f", OF t(1) fw] t(3) by (auto simp: task_ok_def ran_def)
  then have "sched_inv \<lparr>ao_tasks = set_task i ?f (ao_tasks s), ao_pool = ao_pool s @ [i], ao_diagnostics = ao_diagnostics s,
      ao_started = ao_started s @ [i]\<rparr>"
    by (intro inv_step [where t=t]) (use t assms fw notin in \<open>auto simp: sched_inv_def ran_def\<close>)
  then show ?thesis by (cases s) (simp add: start_task_def)
qed

lemma exec_inv:
  assumes "i \<in> set (ao_pool s)" "sched_inv s"
  shows "sched_inv (execute_task i r s)"
proof -
  obtain t where t: "map_of (ao_tasks s) i = Some t" "tk_status t = TRUNNING"
    using assms by (auto simp: sched_inv_def status_of_def)
  have st: "i \<in> set (ao_started s)" "i \<notin> set (ao_diagnostics s)" "distinct (ao_pool s)" "distinct (ao_diagnostics s)" "distinct (ao_started s)"
    using assms t by (auto simp: sched_inv_def status_of_def ran_def)
  have d: "done_for (ao_tasks s) (tk_dependencies t)" using inv_of [OF assms(2) t(1)] t(2) by (simp add: task_ok_def ran_def)
  show ?thesis
  proof (cases r)
    case (Inr v)
    let ?f = "\<lambda>t. t\<lparr>tk_result := Some v, tk_status := TCOMPLETED\<rparr>"
    have fw: "forward (tk_status t) (tk_status (?f t))" using t by (simp add: forward_def)
    have "task_ok (set_task i ?f (ao_tasks s)) (?f t)"
      using forward_keeps(1) [where f="?f", OF t(1) fw] d by (simp add: task_ok_def ran_def)
    then have "sched_inv \<lparr>ao_tasks = set_task i ?f (ao_tasks s), ao_pool = remove1 i (ao_pool s), ao_diagnostics = ao_diagnostics s,
        ao_started = ao_started s\<rparr>"
      by (intro inv_step [where t=t]) (use t assms fw st in \<open>auto simp: ran_def\<close>)
    then show ?thesis using Inr by (cases s) (simp add: execute_task_def)
  next
    case (Inl e)
    let ?f = "\<lambda>t. t\<lparr>tk_error := Some e, tk_status := TDIAGNOSING\<rparr>"
    have fw: "forward (tk_status t) (tk_status (?f t))" using t by (simp add: forward_def)
    have "task_ok (set_task i ?f (ao_tasks s)) (?f t)"
      using forward_keeps(1) [where f="?f", OF t(1) fw] d by (simp add: task_ok_def ran_def)
    then have "sched_inv \<lparr>ao_tasks = set_task i ?f (ao_tasks s), ao_pool = remove1 i (ao_pool s),
        ao_diagnostics = ao_diagnostics s @ [i], ao_started = ao_started s\<rparr>"
      by (intro inv_step [where t=t]) (use t assms fw st in \<open>auto simp: ran_def\<close>)
    then show ?thesis using Inl by (cases s) (simp add: execute_task_def)
  qed
qed

lemma diag_inv:
  assumes "i \<in> set (ao_diagnostics s)" "sched_inv s"
  shows "sched_inv (run_diagnostic i r s)"
proof -
  let ?f = "\<lambda>t. t\<lparr>tk_diagnostic := Some (case r of Inr d \<Rightarrow> d | Inl e \<Rightarrow> (None, Some e)), tk_status := TFAILED\<rparr>"
  obtain t where t: "map_of (ao_tasks s) i = Some t" "tk_status t = TDIAGNOSING"
    using assms by (auto simp: sched_inv_def status_of_def)
  have st: "i \<in> set (ao_started s)" "i \<notin> set (ao_pool s)" "distinct (ao_pool s)" "distinct (ao_diagnostics s)" "distinct (ao_started s)"
    using assms t by (auto simp: sched_inv_def status_of_def ran_def)
  have d: "done_for (ao_tasks s) (tk_dependencies t)" "tk_error t \<noteq> None"
    using inv_of [OF assms(2) t(1)] t(2) by (simp_all add: task_ok_def ran_def)
  have fw: "forward (tk_status t) (tk_status (?f t))" using t by (simp add: forward_def)
  have "task_ok (set_task i ?f (ao_tasks s)) (?f t)"
    using forward_keeps(1) [where f="?f", OF t(1) fw] d by (simp add: task_ok_def ran_def)
  then have "sched_inv \<lparr>ao_tasks = set_task i ?f (ao_tasks s), ao_pool = ao_pool s, ao_diagnostics = remove1 i (ao_diagnostics s),
      ao_started = ao_started s\<rparr>"
    by (intro inv_step [where t=t]) (use t assms fw st in \<open>auto simp: ran_def\<close>)
  then show ?thesis by (cases s) (simp add: run_diagnostic_def)
qed

lemma blocks_inv:
  assumes "block_step\<^sup>*\<^sup>* ts ts'" "ts = ao_tasks s" "sched_inv s"
  shows "sched_inv (s\<lparr>ao_tasks := ts'\<rparr>)"
  using assms
proof (induction rule: rtranclp_induct)
  case (step y z)
  then show ?case using block_inv [of y z "s\<lparr>ao_tasks := y\<rparr>"] by simp
qed simp

lemma startable_start:
  assumes "startable (ao_tasks s) j" "startable (ao_tasks s) i" "j \<noteq> i"
  shows "startable (ao_tasks (start_task i s)) j"
  using assms startable_other [of "ao_tasks s" j i] by (auto simp: start_task_def startable_def [of _ i])

lemma starts_inv:
  assumes "distinct ready" "\<forall>i\<in>set ready. startable (ao_tasks s) i" "sched_inv s"
  shows "sched_inv (fold start_task ready s)"
  using assms
proof (induction ready arbitrary: s)
  case (Cons i ready)
  have "sched_inv (start_task i s)" using Cons.prems by (simp add: start_inv)
  moreover have "\<forall>j\<in>set ready. startable (ao_tasks (start_task i s)) j"
    using Cons.prems by (auto intro: startable_start)
  ultimately show ?case using Cons by simp
qed simp

lemma step_inv: "sched_step s s' \<Longrightarrow> sched_inv s \<Longrightarrow> sched_inv s'"
proof (induction rule: sched_step.induct)
  case (pass s s')
  then have "distinct (map fst (ao_tasks s))" by (simp add: sched_inv_def)
  with pass.hyps obtain ts ready where p: "block_step\<^sup>*\<^sup>* (ao_tasks s) ts" "distinct ready" "\<forall>i\<in>set ready. startable ts i"
    "s' = fold start_task ready (s\<lparr>ao_tasks := ts\<rparr>)" by (rule main_pass_steps)
  show ?case unfolding p(4) by (rule starts_inv) (use p blocks_inv [OF p(1) refl pass.prems] in auto)
qed (simp_all add: exec_inv diag_inv)

interpretation sched: step_invariant sched_step sched_inv
  by unfold_locales (rule step_inv)

lemma sched_reachable_steps: "sched_reachable specs s \<Longrightarrow> sched_step\<^sup>*\<^sup>* (loaded specs) s"
  by (induction rule: sched_reachable.induct) (auto intro: rtranclp.rtrancl_into_rtrancl)

lemma sched_reachable_inv: "sched_reachable specs s \<Longrightarrow> sched_inv s"
  by (rule sched.reachable_inv [OF sched_reachable_steps]) (auto intro: fresh_inv fresh_loaded)

subsection \<open>Order, and at most one execution\<close>

text \<open>
  C15. The scheduler runs every task at most once and in order, in every interleaving of the loop and the threads: what was
  handed to the pool is handed once; a task that was started has all its known dependencies complete, from the start on;
  a blocked task was never started and has a dependency that failed, is blocked or is being diagnosed; a completed task
  has a result, a failed one its error and a diagnosis; and the loop ends only when no task is pending, running or
  in diagnosis.
\<close>

theorem scheduler_runs_in_order:
  assumes "sched_reachable specs s" "get_task i s = Some t"
  shows "distinct (ao_started s) \<and> (i \<in> set (ao_started s) \<longleftrightarrow> tk_status t \<notin> {TPENDING, TBLOCKED}) \<and>
    (i \<in> set (ao_started s) \<longrightarrow> (\<forall>d\<in>set (tk_dependencies t). status_of (ao_tasks s) d \<in> {None, Some TCOMPLETED})) \<and>
    (tk_status t = TBLOCKED \<longrightarrow> (\<exists>d\<in>set (tk_dependencies t). status_of (ao_tasks s) d \<in> {Some TFAILED, Some TBLOCKED, Some TDIAGNOSING})) \<and>
    (tk_status t = TCOMPLETED \<longrightarrow> tk_result t \<noteq> None) \<and> (tk_status t = TFAILED \<longrightarrow> tk_error t \<noteq> None \<and> tk_diagnostic t \<noteq> None) \<and>
    (main_pass s = None \<longrightarrow> tk_status t \<in> {TCOMPLETED, TFAILED, TBLOCKED})"
proof -
  have inv: "sched_inv s" using assms(1) by (rule sched_reachable_inv)
  have t: "map_of (ao_tasks s) i = Some t" using assms(2) by (simp add: get_task_def)
  have st: "i \<in> set (ao_started s) \<longleftrightarrow> ran (tk_status t)" using inv t by (auto simp: sched_inv_def status_of_def)
  have "ran (tk_status t) \<longleftrightarrow> tk_status t \<notin> {TPENDING, TBLOCKED}" by (cases "tk_status t") (auto simp: ran_def)
  moreover have "tk_status t \<in> {TCOMPLETED, TFAILED, TBLOCKED}" if "main_pass s = None"
  proof -
    have "all_done (ao_tasks s)" using that by (auto simp: main_pass_def split: if_splits prod.splits)
    then show ?thesis using t by (cases "tk_status t") (auto simp: all_done_def list_all_iff dest: map_of_SomeD)
  qed
  moreover have "distinct (ao_started s)" using inv by (simp add: sched_inv_def)
  ultimately show ?thesis using st inv_of [OF inv t] unfolding task_ok_def done_for_def doomed_for_def by blast
qed

subsection \<open>The loop ends where dependencies are acyclic\<close>

fun weight :: "task_status \<Rightarrow> nat" where
  "weight TPENDING = 3" | "weight TRUNNING = 2" | "weight TDIAGNOSING = 1" | "weight _ = 0"

definition work :: "'v table \<Rightarrow> nat" where
  "work ts = sum_list (map (\<lambda>(_, t). weight (tk_status t)) ts)"

lemma work_Cons [simp]: "work ((j, t) # ts) = weight (tk_status t) + work ts"
  by (simp add: work_def)

lemma work_set_task:
  "distinct (map fst ts) \<Longrightarrow> map_of ts i = Some t \<Longrightarrow> work (set_task i f ts) + weight (tk_status t) = work ts + weight (tk_status (f t))"
proof (induction ts)
  case (Cons x ts)
  obtain j u where x: "x = (j, u)" by fastforce
  have "set_task i f ts = ts" if "i \<notin> fst ` set ts" using that by (force simp: set_task_def intro!: map_idI)
  moreover have "set_task i f ((j, u) # ts) = (j, if j = i then f u else u) # set_task i f ts" by (simp add: set_task_def)
  ultimately show ?case using Cons x by (auto dest: map_of_SomeD split: if_splits)
qed simp

lemma forward_weight: "forward a b \<Longrightarrow> weight b < weight a"
  by (auto simp: forward_def)

lemma forward_work:
  assumes "distinct (map fst ts)" "map_of ts i = Some t" "forward (tk_status t) (tk_status (f t))"
  shows "work (set_task i f ts) < work ts"
  using work_set_task [OF assms(1,2), of f] forward_weight [OF assms(3)] by simp

lemma block_work: "block_step ts ts' \<Longrightarrow> distinct (map fst ts) \<Longrightarrow> work ts' < work ts \<and> map fst ts' = map fst ts"
  by (induction rule: block_step.induct) (auto intro!: forward_work simp: forward_def)

lemma blocks_work: "block_step\<^sup>*\<^sup>* ts ts' \<Longrightarrow> distinct (map fst ts) \<Longrightarrow> (ts' = ts \<or> work ts' < work ts) \<and> map fst ts' = map fst ts"
proof (induction rule: rtranclp_induct)
  case (step y z)
  then show ?case using block_work [of y z] by auto
qed simp

lemma start_work:
  assumes "startable (ao_tasks s) i" "distinct (map fst (ao_tasks s))"
  shows "work (ao_tasks (start_task i s)) < work (ao_tasks s) \<and> map fst (ao_tasks (start_task i s)) = map fst (ao_tasks s)"
  using assms by (auto simp: start_task_def startable_def forward_def intro!: forward_work)

lemma starts_work:
  assumes "distinct ready" "\<forall>i\<in>set ready. startable (ao_tasks s) i" "distinct (map fst (ao_tasks s))"
  shows "fold start_task ready s = s \<and> ready = [] \<or> work (ao_tasks (fold start_task ready s)) < work (ao_tasks s)"
  using assms
proof (induction ready arbitrary: s)
  case (Cons i ready)
  have "\<forall>j\<in>set ready. startable (ao_tasks (start_task i s)) j" using Cons.prems by (auto intro: startable_start)
  moreover note start_work [of s i] Cons.IH [of "start_task i s"] Cons.prems
  ultimately show ?case by auto
qed simp

lemma pass_work:
  assumes "main_pass s = Some s'" "distinct (map fst (ao_tasks s))"
  shows "s' = s \<or> work (ao_tasks s') < work (ao_tasks s)"
proof -
  from assms obtain ts ready where p: "block_step\<^sup>*\<^sup>* (ao_tasks s) ts" "distinct ready" "\<forall>i\<in>set ready. startable ts i"
    "s' = fold start_task ready (s\<lparr>ao_tasks := ts\<rparr>)" by (rule main_pass_steps)
  note b = blocks_work [OF p(1) assms(2)]
  have "fold start_task ready (s\<lparr>ao_tasks := ts\<rparr>) = s\<lparr>ao_tasks := ts\<rparr> \<and> ready = [] \<or>
      work (ao_tasks (fold start_task ready (s\<lparr>ao_tasks := ts\<rparr>))) < work ts"
    using starts_work [of ready "s\<lparr>ao_tasks := ts\<rparr>"] p b assms(2) by simp
  then show ?thesis using b p(4) by auto
qed

lemma step_work: "sched_step s s' \<Longrightarrow> sched_inv s \<Longrightarrow> s' = s \<or> work (ao_tasks s') < work (ao_tasks s)"
proof (induction rule: sched_step.induct)
  case (pass s s')
  then show ?case by (intro pass_work) (auto simp: sched_inv_def)
next
  case (task i s r)
  then obtain t where "map_of (ao_tasks s) i = Some t" "tk_status t = TRUNNING" "distinct (map fst (ao_tasks s))"
    by (auto simp: sched_inv_def status_of_def)
  then show ?case by (cases r) (auto simp: execute_task_def forward_def intro!: forward_work)
next
  case (diagnosis i s d)
  then obtain t where "map_of (ao_tasks s) i = Some t" "tk_status t = TDIAGNOSING" "distinct (map fst (ao_tasks s))"
    by (auto simp: sched_inv_def status_of_def)
  then show ?case by (auto simp: run_diagnostic_def forward_def intro!: forward_work)
qed

text \<open>Tasks keep their identifiers and dependencies.\<close>

definition same_deps :: "'v table \<Rightarrow> 'v table \<Rightarrow> bool" where
  "same_deps ts ts' \<longleftrightarrow> (\<forall>i. map_option tk_dependencies (map_of ts' i) = map_option tk_dependencies (map_of ts i))"

lemma same_deps_refl [simp]: "same_deps ts ts" by (simp add: same_deps_def)

lemma same_deps_trans: "same_deps a b \<Longrightarrow> same_deps b c \<Longrightarrow> same_deps a c" by (simp add: same_deps_def)

lemma same_deps_set: "(\<And>t. tk_dependencies (f t) = tk_dependencies t) \<Longrightarrow> same_deps ts (set_task i f ts)"
  by (auto simp: same_deps_def option.map_comp comp_def)

lemma same_deps_blocks: "block_step\<^sup>*\<^sup>* ts ts' \<Longrightarrow> same_deps ts ts'"
proof (induction rule: rtranclp_induct)
  case (step y z)
  have "same_deps y z" using step.hyps(2) by (rule block_step.cases) (auto intro: same_deps_set)
  then show ?case using step.IH same_deps_trans by blast
qed simp

lemma same_deps_starts: "same_deps (ao_tasks s) (ao_tasks (fold start_task ready s))"
proof (induction ready arbitrary: s)
  case (Cons i ready)
  have "same_deps (ao_tasks s) (ao_tasks (start_task i s))" by (simp add: start_task_def same_deps_set)
  then show ?case using Cons.IH same_deps_trans by fastforce
qed simp

lemma same_deps_step: "sched_step s s' \<Longrightarrow> sched_inv s \<Longrightarrow> same_deps (ao_tasks s) (ao_tasks s')"
proof (induction rule: sched_step.induct)
  case (pass s s')
  then have "distinct (map fst (ao_tasks s))" by (simp add: sched_inv_def)
  with pass.hyps obtain ts ready where p: "block_step\<^sup>*\<^sup>* (ao_tasks s) ts" "s' = fold start_task ready (s\<lparr>ao_tasks := ts\<rparr>)"
    by (rule main_pass_steps)
  then show ?case using same_deps_blocks [OF p(1)] same_deps_starts [of "s\<lparr>ao_tasks := ts\<rparr>" ready] same_deps_trans by fastforce
next
  case (task i s r)
  then show ?case by (cases r) (simp_all add: execute_task_def same_deps_set)
qed (simp add: run_diagnostic_def same_deps_set)

lemma reachable_deps: "sched_reachable specs s \<Longrightarrow> same_deps (ao_tasks (loaded specs)) (ao_tasks s)"
proof (induction rule: sched_reachable.induct)
  case (step s s')
  then show ?case using same_deps_step sched_reachable_inv same_deps_trans by blast
qed simp

lemma visit_progress:
  assumes "fold visit_task xs (ts, ready) = (ts', ready')" "i \<in> set xs \<or> ready \<noteq> []" "distinct (map fst ts)"
    and "map_of ts i = Some t" "tk_status t = TPENDING" "check_dependencies ts (tk_dependencies t) \<noteq> Waiting"
  shows "ready' \<noteq> [] \<or> work ts' < work ts"
proof -
  have mono: "work ts' \<le> work ts \<and> (ready \<noteq> [] \<longrightarrow> ready' \<noteq> [])"
    if "fold visit_task xs (ts, ready) = (ts', ready')" "distinct (map fst ts)" for xs and ts ts' :: "'a table" and ready ready'
    using that
  proof (induction xs arbitrary: ts ready)
    case (Cons x xs)
    obtain ts1 ready1 where v: "visit_task x (ts, ready) = (ts1, ready1)" by fastforce
    then have "work ts1 \<le> work ts \<and> (ready \<noteq> [] \<longrightarrow> ready1 \<noteq> []) \<and> map fst ts1 = map fst ts"
      by (cases rule: visit_cases) (use Cons.prems in \<open>auto simp: forward_def intro!: less_imp_le forward_work\<close>)
    then show ?case using Cons.IH [of ts1 ready1] Cons.prems v by auto
  qed simp
  show ?thesis using assms
  proof (induction xs arbitrary: ready)
    case (Cons x xs)
    obtain ts1 ready1 where v: "visit_task x (ts, ready) = (ts1, ready1)" by fastforce
    have rest: "fold visit_task xs (ts1, ready1) = (ts', ready')" using Cons.prems(1) v by simp
    from v show ?case
    proof (cases rule: visit_cases)
      case same
      then show ?thesis using Cons.IH [of ready1] rest Cons.prems by auto
    next
      case block
      then have "work ts1 < work ts" using Cons.prems by (auto simp: forward_def intro!: forward_work)
      then show ?thesis using mono [OF rest] block Cons.prems by simp
    next
      case ready
      then show ?thesis using mono [OF rest] Cons.prems by simp
    qed
  qed simp
qed

text \<open>A ranking of the tasks along which dependencies descend; dependencies that are not tasks do not count.\<close>

definition ranked :: "(string \<Rightarrow> nat) \<Rightarrow> 'v table \<Rightarrow> bool" where
  "ranked r ts \<longleftrightarrow> (\<forall>i t. map_of ts i = Some t \<longrightarrow> (\<forall>d\<in>set (tk_dependencies t). map_of ts d \<noteq> None \<longrightarrow> r d < r i))"

lemma ranked_same: "ranked r ts \<Longrightarrow> same_deps ts ts' \<Longrightarrow> ranked r ts'"
  unfolding ranked_def same_deps_def
  by (smt (verit) map_option_is_None option.map_sel option.exhaust_sel option.sel option.simps(9))

lemma pending_progress:
  assumes inv: "sched_inv s" and r: "ranked r (ao_tasks s)" and idle: "ao_pool s = []" "ao_diagnostics s = []" and nd: "\<not> all_done (ao_tasks s)"
  shows "\<exists>s'. main_pass s = Some s' \<and> work (ao_tasks s') < work (ao_tasks s)"
proof -
  let ?ts = "ao_tasks s"
  let ?P = "\<lambda>i. status_of ?ts i = Some TPENDING"
  have dist: "distinct (map fst ?ts)" using inv by (simp add: sched_inv_def)
  have quiet: "status_of ?ts i \<noteq> Some TRUNNING" "status_of ?ts i \<noteq> Some TDIAGNOSING" for i
    using inv idle by (auto simp: sched_inv_def)
  from nd obtain i t where it: "(i, t) \<in> set ?ts" "tk_status t \<in> {TPENDING, TRUNNING, TDIAGNOSING}"
    by (auto simp: all_done_def list_all_iff)
  then have "map_of ?ts i = Some t" using dist by simp
  then have "?P i" using it(2) quiet [of i] by (auto simp: status_of_def)
  then obtain m where m: "?P m" "\<And>j. ?P j \<Longrightarrow> r m \<le> r j" using ex_has_least_nat [of ?P i r] by blast
  then obtain u where u: "map_of ?ts m = Some u" "tk_status u = TPENDING" by (auto simp: status_of_def)
  have "check_dependencies ?ts ds \<noteq> Waiting" if "set ds \<subseteq> set (tk_dependencies u)" for ds
    using that
  proof (induction ds)
    case (Cons d ds)
    have "\<not> ?P d"
    proof
      assume "?P d"
      then have "map_of ?ts d \<noteq> None" by (auto simp: status_of_def)
      then have "r d < r m" using r u Cons.prems by (auto simp: ranked_def)
      then show False using m(2) [OF \<open>?P d\<close>] by simp
    qed
    then show ?case using Cons quiet [of d] by (cases "status_of ?ts d"; cases "the (status_of ?ts d)") auto
  qed simp
  then have settled: "check_dependencies ?ts (tk_dependencies u) \<noteq> Waiting" by blast
  obtain ts ready where g: "get_ready_tasks ?ts = (ts, ready)" by fastforce
  have "m \<in> set (map fst ?ts)" using u(1) by (metis domI dom_map_of_conv_image_fst set_map)
  then have gain: "ready \<noteq> [] \<or> work ts < work ?ts"
    using visit_progress [OF g [unfolded get_ready_tasks_def] _ dist u settled] by blast
  have s': "main_pass s = Some (fold start_task ready (s\<lparr>ao_tasks := ts\<rparr>))" using nd g by (simp add: main_pass_def)
  have v: "block_step\<^sup>*\<^sup>* ?ts ts \<and> distinct ready \<and> (\<forall>i\<in>set ready. startable ts i)"
    by (rule visit_fold [OF g [unfolded get_ready_tasks_def]]) (use dist in auto)
  then have "distinct (map fst ts)" "work ts \<le> work ?ts" using blocks_work [of ?ts ts] dist by auto
  then have "work (ao_tasks (fold start_task ready (s\<lparr>ao_tasks := ts\<rparr>))) < work ?ts"
    using starts_work [of ready "s\<lparr>ao_tasks := ts\<rparr>"] v gain by auto
  with s' show ?thesis by blast
qed

text \<open>
  C32. Where dependencies are acyclic and tasks raise subclasses of \<open>Exception\<close> only, the scheduler ends: every step that changes anything uses up work, of which there is
  only finitely much, and as long as some task is pending, running or in diagnosis a step that uses up work is possible.
\<close>

theorem scheduler_ends:
  assumes "sched_reachable specs s" "ranked r (ao_tasks (loaded specs :: 'v scheduler))"
  shows "(\<forall>s'. sched_step s s' \<longrightarrow> s' = s \<or> work (ao_tasks s') < work (ao_tasks s)) \<and>
    (main_pass s = None \<or> (\<exists>s' :: 'v scheduler. sched_step s s' \<and> work (ao_tasks s') < work (ao_tasks s)))"
proof (intro conjI)
  have inv: "sched_inv s" using assms(1) by (rule sched_reachable_inv)
  then show "\<forall>s'. sched_step s s' \<longrightarrow> s' = s \<or> work (ao_tasks s') < work (ao_tasks s)" using step_work by blast
  have r: "ranked r (ao_tasks s)" using assms(2) reachable_deps [OF assms(1)] ranked_same by blast
  show "main_pass s = None \<or> (\<exists>s'. sched_step s s' \<and> work (ao_tasks s') < work (ao_tasks s))"
  proof (cases "all_done (ao_tasks s)")
    case True
    then show ?thesis by (simp add: main_pass_def)
  next
    case nd: False
    have dist: "distinct (map fst (ao_tasks s))" using inv by (simp add: sched_inv_def)
    consider (pool) i where "i \<in> set (ao_pool s)" | (diag) i where "i \<in> set (ao_diagnostics s)" | (idle) "ao_pool s = []" "ao_diagnostics s = []"
      by (cases "ao_pool s"; cases "ao_diagnostics s") auto
    then show ?thesis
    proof cases
      case pool
      then obtain t where "map_of (ao_tasks s) i = Some t" "tk_status t = TRUNNING" using inv by (auto simp: sched_inv_def status_of_def)
      then have "work (ao_tasks (execute_task i (Inl []) s)) < work (ao_tasks s)"
        using dist by (auto simp: execute_task_def forward_def intro!: forward_work)
      then show ?thesis using sched_step.task [OF pool] by blast
    next
      case diag
      then obtain t where "map_of (ao_tasks s) i = Some t" "tk_status t = TDIAGNOSING" using inv by (auto simp: sched_inv_def status_of_def)
      then have "work (ao_tasks (run_diagnostic i (Inl []) s)) < work (ao_tasks s)"
        using dist by (auto simp: run_diagnostic_def forward_def intro!: forward_work)
      then show ?thesis using sched_step.diagnosis [OF diag] by blast
    next
      case idle
      then show ?thesis using pending_progress [OF inv r idle nd] sched_step.pass by blast
    qed
  qed
qed

subsection \<open>Cyclic dependencies\<close>

definition waiting :: "string set \<Rightarrow> 'v table \<Rightarrow> bool" where
  "waiting C ts \<longleftrightarrow> (\<forall>i\<in>C. \<exists>t. map_of ts i = Some t \<and> tk_status t = TPENDING \<and> tk_dependencies t \<noteq> [] \<and> set (tk_dependencies t) \<subseteq> C)"

lemma waiting_other: "waiting C ts \<Longrightarrow> i \<notin> C \<Longrightarrow> waiting C (set_task i f ts)"
  by (auto simp: waiting_def)

lemma waiting_stuck:
  assumes "waiting C ts" "map_of ts i = Some t" "i \<in> C"
  shows "tk_status t = TPENDING" "\<not> done_for ts (tk_dependencies t)" "\<not> doomed_for ts (tk_dependencies t)"
proof -
  have t: "tk_status t = TPENDING" "tk_dependencies t \<noteq> []" "set (tk_dependencies t) \<subseteq> C"
    using assms unfolding waiting_def by (metis option.sel)+
  have "status_of ts d = Some TPENDING" if "d \<in> C" for d using assms(1) that by (auto simp: waiting_def status_of_def)
  then show "tk_status t = TPENDING" "\<not> done_for ts (tk_dependencies t)" "\<not> doomed_for ts (tk_dependencies t)"
    using t by (auto simp: done_for_def doomed_for_def neq_Nil_conv)
qed

lemma waiting_blocks: "block_step\<^sup>*\<^sup>* ts ts' \<Longrightarrow> waiting C ts \<Longrightarrow> waiting C ts'"
proof (induction rule: rtranclp_induct)
  case (step y z)
  have w: "waiting C y" using step by simp
  from step.hyps(2) show ?case
  proof cases
    case (1 i t)
    then have "i \<notin> C" using waiting_stuck(3) [OF w] by blast
    with w show ?thesis using 1 by (simp add: waiting_other)
  qed
qed

lemma waiting_starts:
  assumes "distinct ready" "\<forall>i\<in>set ready. startable (ao_tasks s) i" "waiting C (ao_tasks s)"
  shows "waiting C (ao_tasks (fold start_task ready s))"
  using assms
proof (induction ready arbitrary: s)
  case (Cons i ready)
  have "i \<notin> C" using Cons.prems waiting_stuck(2) [OF Cons.prems(3)] by (auto simp: startable_def)
  then have "waiting C (ao_tasks (start_task i s))" using Cons.prems(3) by (simp add: start_task_def waiting_other)
  moreover have "\<forall>j\<in>set ready. startable (ao_tasks (start_task i s)) j" using Cons.prems by (auto intro: startable_start)
  ultimately show ?case using Cons by simp
qed simp

lemma waiting_step: "sched_step s s' \<Longrightarrow> sched_inv s \<Longrightarrow> waiting C (ao_tasks s) \<Longrightarrow> waiting C (ao_tasks s')"
proof (induction rule: sched_step.induct)
  case (pass s s')
  then have "distinct (map fst (ao_tasks s))" by (simp add: sched_inv_def)
  with pass.hyps obtain ts ready where p: "block_step\<^sup>*\<^sup>* (ao_tasks s) ts" "distinct ready" "\<forall>i\<in>set ready. startable ts i"
    "s' = fold start_task ready (s\<lparr>ao_tasks := ts\<rparr>)" by (rule main_pass_steps)
  show ?case unfolding p(4) by (rule waiting_starts) (use p waiting_blocks [OF p(1)] pass.prems in auto)
next
  case (task i s r)
  then obtain t where "map_of (ao_tasks s) i = Some t" "tk_status t = TRUNNING" by (auto simp: sched_inv_def status_of_def)
  then have "i \<notin> C" using waiting_stuck(1) [OF task.prems(2)] by force
  then show ?case using task.prems(2) by (cases r) (simp_all add: execute_task_def waiting_other)
next
  case (diagnosis i s d)
  then obtain t where "map_of (ao_tasks s) i = Some t" "tk_status t = TDIAGNOSING" by (auto simp: sched_inv_def status_of_def)
  then have "i \<notin> C" using waiting_stuck(1) [OF diagnosis.prems(2)] by force
  then show ?case using diagnosis.prems(2) by (simp add: run_diagnostic_def waiting_other)
qed

lemma waiting_reachable:
  fixes s :: "'v scheduler"
  shows "sched_reachable specs s \<Longrightarrow> waiting C (ao_tasks (loaded specs :: 'v scheduler)) \<Longrightarrow> waiting C (ao_tasks s)"
  by (induction rule: sched_reachable.induct) (auto intro: waiting_step sched_reachable_inv)

text \<open>
  A group of tasks that wait only for each other never ends: none of its tasks is ever started or blocked, the loop never
  leaves, and no error is reported.
\<close>

theorem cyclic_tasks_hang:
  fixes s :: "'v scheduler"
  assumes "sched_reachable specs s" "C \<noteq> {}" "waiting C (ao_tasks (loaded specs :: 'v scheduler))"
  shows "(\<forall>i\<in>C. status_of (ao_tasks s) i = Some TPENDING \<and> i \<notin> set (ao_started s)) \<and> main_pass s \<noteq> None"
proof -
  have w: "waiting C (ao_tasks s)" by (rule waiting_reachable) (use assms in auto)
  then have P: "status_of (ao_tasks s) i = Some TPENDING" if "i \<in> C" for i using that by (auto simp: waiting_def status_of_def)
  then have "i \<notin> set (ao_started s)" if "i \<in> C" for i
    using that sched_reachable_inv [OF assms(1)] by (fastforce simp: sched_inv_def ran_def)
  moreover obtain i t where "i \<in> C" "map_of (ao_tasks s) i = Some t" "tk_status t = TPENDING"
    using w assms(2) unfolding waiting_def by (metis ex_in_conv)
  then have "\<not> all_done (ao_tasks s)" by (auto simp: all_done_def list_all_iff dest!: map_of_SomeD)
  then have "main_pass s \<noteq> None" by (auto simp: main_pass_def split: prod.splits)
  ultimately show ?thesis using P by blast
qed

subsection \<open>Witnesses\<close>

definition chain_specs :: "(string \<times> string list) list" where
  "chain_specs = [(''a'', []), (''b'', [''a'']), (''c'', [''b''])]"

lemma chain_loaded: "ao_tasks (loaded chain_specs) = [(''a'', new_task []), (''b'', new_task [''a'']), (''c'', new_task [''b''])]"
  by (simp add: loaded_def chain_specs_def add_task_def empty_scheduler_def)

text \<open>Task \<open>a\<close> raises: \<open>b\<close> and then \<open>c\<close> are blocked in one pass.\<close>

definition chain_end :: "nat scheduler" where
  "chain_end = the (main_pass (execute_task ''a'' (Inl ''boom'') (the (main_pass (loaded chain_specs)))))"

lemma chain_end_reachable: "sched_reachable chain_specs chain_end"
  and chain_end_tasks: "map (\<lambda>(i, t). (i, tk_status t)) (ao_tasks chain_end) = [(''a'', TDIAGNOSING), (''b'', TBLOCKED), (''c'', TBLOCKED)]"
proof -
  note d = main_pass_def all_done_def get_ready_tasks_def visit_task_def status_of_def chain_loaded new_task_def start_task_def set_task_def
    execute_task_def
  obtain s1 :: "nat scheduler" where s1: "main_pass (loaded chain_specs) = Some s1" "''a'' \<in> set (ao_pool s1)"
    "ao_tasks s1 = [(''a'', (new_task [])\<lparr>tk_status := TRUNNING\<rparr>), (''b'', new_task [''a'']), (''c'', new_task [''b''])]"
    by (simp add: d)
  obtain s2 where s2: "main_pass (execute_task ''a'' (Inl ''boom'') s1) = Some s2"
    "map (\<lambda>(i, t). (i, tk_status t)) (ao_tasks s2) = [(''a'', TDIAGNOSING), (''b'', TBLOCKED), (''c'', TBLOCKED)]"
    by (simp add: d s1(3))
  have "sched_reachable chain_specs s1" using s1(1) sched_reachable.start sched_step.pass sched_reachable.step by blast
  then have "sched_reachable chain_specs (execute_task ''a'' (Inl ''boom'') s1)" using s1(2) sched_step.task sched_reachable.step by blast
  then have "sched_reachable chain_specs s2" using s2(1) sched_step.pass sched_reachable.step by blast
  moreover have "chain_end = s2" using s1(1) s2(1) by (simp add: chain_end_def)
  ultimately show "sched_reachable chain_specs chain_end"
    "map (\<lambda>(i, t). (i, tk_status t)) (ao_tasks chain_end) = [(''a'', TDIAGNOSING), (''b'', TBLOCKED), (''c'', TBLOCKED)]"
    using s2(2) by auto
qed

theorem scheduler_runs_in_order_witness: "''c'' \<notin> set (ao_started chain_end) \<and> ''a'' \<in> set (ao_started chain_end)"
proof -
  obtain ta tb tc where ts: "ao_tasks chain_end = [(''a'', ta), (''b'', tb), (''c'', tc)]" "tk_status ta = TDIAGNOSING" "tk_status tc = TBLOCKED"
    using chain_end_tasks by (auto simp: map_eq_Cons_conv)
  then have "get_task ''a'' chain_end = Some ta" "get_task ''c'' chain_end = Some tc" by (simp_all add: get_task_def)
  then show ?thesis using scheduler_runs_in_order [OF chain_end_reachable] ts by auto
qed

theorem scheduler_ends_witness:
  "main_pass chain_end = None \<or> (\<exists>s'. sched_step chain_end s' \<and> work (ao_tasks s') < work (ao_tasks chain_end))"
proof -
  have "ranked (\<lambda>i. if i = ''a'' then 0 else if i = ''b'' then 1 else 2) (ao_tasks (loaded chain_specs :: nat scheduler))"
    by (auto simp: ranked_def chain_loaded new_task_def split: if_splits)
  from scheduler_ends [OF chain_end_reachable this] show ?thesis by blast
qed

theorem cyclic_tasks_hang_witness:
  "main_pass (loaded [(''a'', [''b'']), (''b'', [''a''])] :: nat scheduler) \<noteq> None"
proof -
  let ?s = "[(''a'', [''b'']), (''b'', [''a''])]"
  have "waiting {''a'', ''b''} (ao_tasks (loaded ?s :: nat scheduler))"
    by (simp add: waiting_def loaded_def add_task_def empty_scheduler_def new_task_def)
  from cyclic_tasks_hang [OF sched_reachable.start _ this] show ?thesis by blast
qed

end
