(* ===== verification/Isolation.thy ===== *)
theory Isolation
  imports Admission_Receipt
begin

section \<open>Isolation: staged actions, quarantine, contamination and compaction\<close>

text \<open>
  \<open>packages/replay/src/vti_coordinator.py\<close>: actions of an agent are staged and then committed or rolled back as a
  group. \<open>packages/isolation/src/isolator.py\<close> and \<open>invariance_checker.py\<close>: quarantine rules in memory and in a
  database table, and the check that a replay left untargeted state alone. \<open>packages/graph/src/compaction.py\<close>: the
  guard for summaries. Object identity matters for escrows, which are numbered in the order of their creation; the
  payload of one is a dict its client may still change.
\<close>

subsection \<open>The two-phase coordinator\<close>

datatype escrow_status = STAGED | COMMITTED | ROLLED_BACK

record escrow =
  es_trace_id :: string
  es_action_type :: string
  es_payload :: json
  es_payload_hash :: string
  es_status :: escrow_status

record coordinator =
  vt_objects :: "escrow list"
  vt_escrows :: "string \<Rightarrow> nat list option"
  vt_committed_actions :: "nat list"

definition new_coordinator :: coordinator where
  "new_coordinator = \<lparr>vt_objects = [], vt_escrows = (\<lambda>_. None), vt_committed_actions = []\<rparr>"

definition payload_hash :: "env \<Rightarrow> json \<Rightarrow> string" where
  "payload_hash E payload = sha256 E (utf8 (dumps default_style (float_repr E) payload))"

definition new_escrow :: "env \<Rightarrow> string \<Rightarrow> string \<Rightarrow> json \<Rightarrow> escrow" where
  "new_escrow E trace_id action_type payload =
     \<lparr>es_trace_id = trace_id, es_action_type = action_type, es_payload = payload, es_payload_hash = payload_hash E payload,
      es_status = STAGED\<rparr>"

definition get_staged_actions :: "string \<Rightarrow> coordinator \<Rightarrow> nat list" where
  "get_staged_actions trace_id v = (case vt_escrows v trace_id of Some ns \<Rightarrow> ns | None \<Rightarrow> [])"

definition stage_action :: "env \<Rightarrow> string \<Rightarrow> string \<Rightarrow> json \<Rightarrow> coordinator \<Rightarrow> nat \<times> coordinator" where
  "stage_action E trace_id action_type payload v =
     (let n = length (vt_objects v) in
      (n, v\<lparr>vt_objects := vt_objects v @ [new_escrow E trace_id action_type payload],
            vt_escrows := (vt_escrows v)(trace_id \<mapsto> get_staged_actions trace_id v @ [n])\<rparr>))"

definition set_escrow :: "nat \<Rightarrow> escrow_status \<Rightarrow> coordinator \<Rightarrow> coordinator" where
  "set_escrow n st v = v\<lparr>vt_objects := (vt_objects v)[n := (vt_objects v ! n)\<lparr>es_status := st\<rparr>]\<rparr>"

definition commit_one :: "nat \<Rightarrow> coordinator \<Rightarrow> coordinator" where
  "commit_one n v =
     (if es_status (vt_objects v ! n) = STAGED
      then (set_escrow n COMMITTED v)\<lparr>vt_committed_actions := vt_committed_actions v @ [n]\<rparr> else v)"

datatype vti_error = InvalidClearance string

definition clearance_prefix :: string where "clearance_prefix = ''GAT-CLEAR-''"

definition commit_action :: "string \<Rightarrow> string \<Rightarrow> coordinator \<Rightarrow> (vti_error, bool) result \<times> coordinator" where
  "commit_action trace_id clearance_signature v =
     (if clearance_signature = [] \<or> take (length clearance_prefix) clearance_signature \<noteq> clearance_prefix
      then (Inl (InvalidClearance trace_id), v)
      else if get_staged_actions trace_id v = [] then (Inr False, v)
      else let v' = fold commit_one (get_staged_actions trace_id v) v
           in (Inr True, v'\<lparr>vt_escrows := (vt_escrows v')(trace_id := None)\<rparr>))"

definition rollback_action :: "string \<Rightarrow> coordinator \<Rightarrow> bool \<times> coordinator" where
  "rollback_action trace_id v =
     (if get_staged_actions trace_id v = [] then (False, v)
      else let v' = fold (\<lambda>n. set_escrow n ROLLED_BACK) (get_staged_actions trace_id v) v
           in (True, v'\<lparr>vt_escrows := (vt_escrows v')(trace_id := None)\<rparr>))"

text \<open>A client changes the dict it staged.\<close>

definition change_payload :: "nat \<Rightarrow> json \<Rightarrow> coordinator \<Rightarrow> coordinator" where
  "change_payload n p v = v\<lparr>vt_objects := (vt_objects v)[n := (vt_objects v ! n)\<lparr>es_payload := p\<rparr>]\<rparr>"

datatype vti_op =
    VStage string string json
  | VCommit string string
  | VRollback string
  | VChange nat json

fun vti_step :: "env \<Rightarrow> vti_op \<Rightarrow> coordinator \<Rightarrow> coordinator" where
  "vti_step E (VStage t a p) v = snd (stage_action E t a p v)"
| "vti_step E (VCommit t c) v = snd (commit_action t c v)"
| "vti_step E (VRollback t) v = snd (rollback_action t v)"
| "vti_step E (VChange n p) v = (if n < length (vt_objects v) then change_payload n p v else v)"

definition vti_run :: "env \<Rightarrow> vti_op list \<Rightarrow> coordinator" where
  "vti_run E ops = fold (vti_step E) ops new_coordinator"

subsection \<open>Every action is decided once\<close>

text \<open>The specification of the decision on the action staged by call number \<open>k\<close>: the first later decision on its trace.\<close>

fun decides :: "string \<Rightarrow> vti_op \<Rightarrow> escrow_status option" where
  "decides t (VCommit t' c) = (if t' = t \<and> take (length clearance_prefix) c = clearance_prefix then Some COMMITTED else None)"
| "decides t (VRollback t') = (if t' = t then Some ROLLED_BACK else None)"
| "decides t _ = None"

definition decision_on :: "string \<Rightarrow> vti_op list \<Rightarrow> escrow_status" where
  "decision_on t later = (case List.find (\<lambda>x. decides t x \<noteq> None) later of Some x \<Rightarrow> the (decides t x) | None \<Rightarrow> STAGED)"

definition vti_inv :: "coordinator \<Rightarrow> bool" where
  "vti_inv v \<longleftrightarrow>
     distinct (vt_committed_actions v) \<and>
     (\<forall>n. n \<in> set (vt_committed_actions v) \<longleftrightarrow> n < length (vt_objects v) \<and> es_status (vt_objects v ! n) = COMMITTED) \<and>
     (\<forall>t. distinct (get_staged_actions t v)) \<and>
     (\<forall>t n. n \<in> set (get_staged_actions t v) \<longleftrightarrow>
        n < length (vt_objects v) \<and> es_trace_id (vt_objects v ! n) = t \<and> es_status (vt_objects v ! n) = STAGED)"

text \<open>Giving the listed objects a status changes nothing else.\<close>

definition restamp :: "nat set \<Rightarrow> escrow_status \<Rightarrow> escrow list \<Rightarrow> escrow list" where
  "restamp N st objs = map (\<lambda>(n, e). if n \<in> N then e\<lparr>es_status := st\<rparr> else e) (enumerate 0 objs)"

lemma length_restamp [simp]: "length (restamp N st objs) = length objs"
  by (simp add: restamp_def)

lemma nth_restamp [simp]: "n < length objs \<Longrightarrow> restamp N st objs ! n = (if n \<in> N then (objs ! n)\<lparr>es_status := st\<rparr> else objs ! n)"
  by (simp add: restamp_def nth_enumerate_eq)

lemma restamp_insert: "n < length objs \<Longrightarrow> restamp (insert n N) st objs = restamp N st (objs[n := (objs ! n)\<lparr>es_status := st\<rparr>])"
  by (rule nth_equalityI) (auto simp: nth_list_update)

lemma fold_rollback:
  assumes "\<forall>n\<in>set ns. n < length (vt_objects v)"
  shows "fold (\<lambda>n. set_escrow n st) ns v = v\<lparr>vt_objects := restamp (set ns) st (vt_objects v)\<rparr>"
  using assms
proof (induction ns arbitrary: v)
  case Nil
  have "restamp {} st (vt_objects v) = vt_objects v" by (rule nth_equalityI) auto
  then show ?case by simp
next
  case (Cons n ns)
  have "\<forall>n\<in>set ns. n < length (vt_objects (set_escrow n st v))" using Cons.prems by (auto simp: set_escrow_def)
  with Cons show ?case by (simp add: set_escrow_def restamp_insert)
qed

lemma fold_commit:
  assumes "\<forall>n\<in>set ns. n < length (vt_objects v) \<and> es_status (vt_objects v ! n) = STAGED" "distinct ns"
  shows "fold commit_one ns v = v\<lparr>vt_objects := restamp (set ns) COMMITTED (vt_objects v),
    vt_committed_actions := vt_committed_actions v @ ns\<rparr>"
  using assms
proof (induction ns arbitrary: v)
  case Nil
  have "restamp {} COMMITTED (vt_objects v) = vt_objects v" by (rule nth_equalityI) auto
  then show ?case by simp
next
  case (Cons n ns)
  let ?v = "(set_escrow n COMMITTED v)\<lparr>vt_committed_actions := vt_committed_actions v @ [n]\<rparr>"
  have "commit_one n v = ?v" using Cons.prems by (simp add: commit_one_def)
  moreover have "\<forall>m\<in>set ns. m < length (vt_objects ?v) \<and> es_status (vt_objects ?v ! m) = STAGED"
    using Cons.prems by (auto simp: set_escrow_def nth_list_update)
  ultimately show ?case using Cons by (simp add: set_escrow_def restamp_insert)
qed

lemma staged_ok:
  assumes "vti_inv v" "n \<in> set (get_staged_actions t v)"
  shows "n < length (vt_objects v)" "es_trace_id (vt_objects v ! n) = t" "es_status (vt_objects v ! n) = STAGED"
  using assms by (auto simp: vti_inv_def)

lemma get_staged_upd [simp]:
  "get_staged_actions t (v\<lparr>vt_objects := objs\<rparr>) = get_staged_actions t v"
  "get_staged_actions t (v\<lparr>vt_committed_actions := c\<rparr>) = get_staged_actions t v"
  "get_staged_actions t (v\<lparr>vt_escrows := (vt_escrows v)(u := None)\<rparr>) = (if t = u then [] else get_staged_actions t v)"
  "get_staged_actions t (v\<lparr>vt_escrows := (vt_escrows v)(u \<mapsto> ns)\<rparr>) = (if t = u then ns else get_staged_actions t v)"
  by (simp_all add: get_staged_actions_def)

text \<open>What a commit and a rollback do, where they do something.\<close>

lemma commit_effect:
  fixes t v
  assumes "vti_inv v"
  defines "ns \<equiv> get_staged_actions t v"
  shows "snd (commit_action t c v) = (if take (length clearance_prefix) c = clearance_prefix \<and> ns \<noteq> []
    then v\<lparr>vt_objects := restamp (set ns) COMMITTED (vt_objects v), vt_committed_actions := vt_committed_actions v @ ns,
           vt_escrows := (vt_escrows v)(t := None)\<rparr> else v)"
proof -
  have "c \<noteq> []" if "take (length clearance_prefix) c = clearance_prefix" using that by (auto simp: clearance_prefix_def)
  moreover have "\<forall>n\<in>set ns. n < length (vt_objects v) \<and> es_status (vt_objects v ! n) = STAGED"
    using staged_ok [OF assms(1)] unfolding ns_def by blast
  moreover have "distinct ns" using assms(1) by (simp add: vti_inv_def ns_def)
  moreover note fold_commit [of ns v]
  ultimately show ?thesis by (auto simp: commit_action_def Let_def ns_def [symmetric])
qed

lemma rollback_effect:
  fixes t v
  assumes "vti_inv v"
  defines "ns \<equiv> get_staged_actions t v"
  shows "snd (rollback_action t v) = (if ns \<noteq> []
    then v\<lparr>vt_objects := restamp (set ns) ROLLED_BACK (vt_objects v), vt_escrows := (vt_escrows v)(t := None)\<rparr> else v)"
proof -
  have "fold (\<lambda>n. set_escrow n ROLLED_BACK) ns v = v\<lparr>vt_objects := restamp (set ns) ROLLED_BACK (vt_objects v)\<rparr>"
    by (rule fold_rollback) (use staged_ok [OF assms(1)] in \<open>auto simp: ns_def\<close>)
  then show ?thesis by (auto simp: rollback_action_def Let_def ns_def [symmetric])
qed

lemma vti_inv_new: "vti_inv new_coordinator"
  by (simp add: vti_inv_def new_coordinator_def get_staged_actions_def)

lemma vti_inv_decide:
  assumes "vti_inv v" "ns = get_staged_actions t v" "st \<noteq> STAGED" "c = (if st = COMMITTED then ns else [])"
  shows "vti_inv (v\<lparr>vt_objects := restamp (set ns) st (vt_objects v), vt_committed_actions := vt_committed_actions v @ c,
           vt_escrows := (vt_escrows v)(t := None)\<rparr>)"
proof -
  have s: "n < length (vt_objects v) \<and> es_trace_id (vt_objects v ! n) = t \<and> es_status (vt_objects v ! n) = STAGED"
    if "n \<in> set ns" for n using staged_ok [OF assms(1)] that assms(2) by blast
  have g: "get_staged_actions u (v\<lparr>vt_objects := restamp (set ns) st (vt_objects v), vt_committed_actions := vt_committed_actions v @ c,
           vt_escrows := (vt_escrows v)(t := None)\<rparr>) = (if u = t then [] else get_staged_actions u v)" for u
    by (simp add: get_staged_actions_def)
  have "distinct (vt_committed_actions v @ c)"
    using assms s by (auto simp: vti_inv_def)
  moreover have "n \<in> set (vt_committed_actions v @ c) \<longleftrightarrow> n < length (vt_objects v) \<and>
      es_status (restamp (set ns) st (vt_objects v) ! n) = COMMITTED" for n
    using assms s by (cases "n < length (vt_objects v)") (auto simp: vti_inv_def)
  moreover have "n \<in> set (if u = t then [] else get_staged_actions u v) \<longleftrightarrow> n < length (vt_objects v) \<and>
      es_trace_id (restamp (set ns) st (vt_objects v) ! n) = u \<and> es_status (restamp (set ns) st (vt_objects v) ! n) = STAGED" for u n
    using assms s by (cases "n < length (vt_objects v)") (auto simp: vti_inv_def)
  moreover have "distinct (if u = t then [] else get_staged_actions u v)" for u using assms(1) by (auto simp: vti_inv_def)
  ultimately show ?thesis unfolding vti_inv_def g by auto
qed

lemma vti_inv_step: "vti_inv v \<Longrightarrow> vti_inv (vti_step E x v)"
proof (cases x)
  case (VStage t a p)
  assume inv: "vti_inv v"
  then have n: "length (vt_objects v) \<notin> set (get_staged_actions u v)" "length (vt_objects v) \<notin> set (vt_committed_actions v)" for u
    by (auto simp: vti_inv_def)
  have "get_staged_actions u (snd (stage_action E t a p v)) =
      (if u = t then get_staged_actions t v @ [length (vt_objects v)] else get_staged_actions u v)" for u
    by (simp add: stage_action_def Let_def get_staged_actions_def)
  with inv n VStage show ?thesis
    unfolding vti_inv_def by (auto simp: stage_action_def Let_def new_escrow_def nth_append less_Suc_eq)
next
  case (VCommit t c)
  assume "vti_inv v"
  then show ?thesis using VCommit commit_effect [of v t c] vti_inv_decide [of v "get_staged_actions t v" t COMMITTED] by simp
next
  case (VRollback t)
  assume "vti_inv v"
  then show ?thesis using VRollback rollback_effect [of v t] vti_inv_decide [of v "get_staged_actions t v" t ROLLED_BACK] by simp
next
  case (VChange n p)
  assume "vti_inv v"
  then show ?thesis using VChange by (auto simp: vti_inv_def change_payload_def nth_list_update)
qed

lemma vti_step_escrow:
  fixes E x v n
  assumes "vti_inv v" "n < length (vt_objects v)"
  defines "e \<equiv> vt_objects v ! n" and "e' \<equiv> vt_objects (vti_step E x v) ! n"
  shows "n < length (vt_objects (vti_step E x v)) \<and> es_trace_id e' = es_trace_id e \<and> es_payload_hash e' = es_payload_hash e \<and>
    es_status e' = (if es_status e = STAGED then case decides (es_trace_id e) x of Some st \<Rightarrow> st | None \<Rightarrow> STAGED else es_status e)"
proof (cases x)
  case (VStage t a p)
  then show ?thesis using assms by (simp add: stage_action_def Let_def nth_append)
next
  case (VCommit t c)
  have "n \<in> set (get_staged_actions t v) \<longleftrightarrow> es_trace_id e = t \<and> es_status e = STAGED" using assms(1,2) by (simp add: vti_inv_def e_def)
  then show ?thesis using VCommit commit_effect [OF assms(1), of t c] assms(2) unfolding e_def e'_def by (auto split: if_splits)
next
  case (VRollback t)
  have "n \<in> set (get_staged_actions t v) \<longleftrightarrow> es_trace_id e = t \<and> es_status e = STAGED" using assms(1,2) by (simp add: vti_inv_def e_def)
  then show ?thesis using VRollback rollback_effect [OF assms(1), of t] assms(2) unfolding e_def e'_def by (auto split: if_splits)
next
  case (VChange m p)
  then show ?thesis using assms(2) unfolding e_def e'_def by (auto simp: change_payload_def nth_list_update)
qed

lemma vti_inv_fold: "vti_inv v \<Longrightarrow> vti_inv (fold (vti_step E) ops v)"
  by (induction ops arbitrary: v) (auto intro: vti_inv_step)

lemma vti_fold_escrow:
  assumes "vti_inv v" "n < length (vt_objects v)"
  shows "n < length (vt_objects (fold (vti_step E) ops v)) \<and>
    es_payload_hash (vt_objects (fold (vti_step E) ops v) ! n) = es_payload_hash (vt_objects v ! n) \<and>
    es_trace_id (vt_objects (fold (vti_step E) ops v) ! n) = es_trace_id (vt_objects v ! n) \<and>
    es_status (vt_objects (fold (vti_step E) ops v) ! n) =
      (if es_status (vt_objects v ! n) = STAGED then decision_on (es_trace_id (vt_objects v ! n)) ops else es_status (vt_objects v ! n))"
  using assms
proof (induction ops arbitrary: v)
  case (Cons x ops)
  note st = vti_step_escrow [OF Cons.prems, of E x]
  have d: "decides t x = Some s \<Longrightarrow> s \<noteq> STAGED" for t s by (cases x) (auto split: if_splits)
  have "vti_inv (vti_step E x v)" using Cons.prems(1) by (rule vti_inv_step)
  from Cons.IH [OF this] st show ?case
    by (cases "decides (es_trace_id (vt_objects v ! n)) x") (auto simp: decision_on_def dest: d)
qed (simp add: decision_on_def)

text \<open>
  Every staged action is decided once, in any sequence of calls: it is committed exactly when the first later call
  that decides its trace is a commit with a clearance, rolled back exactly when that call is a rollback, and still staged when there
  is none. The list of committed actions has no repetitions and holds exactly the committed ones. The hash taken at
  staging is kept, but no step compares it with the payload that is committed.
\<close>

theorem staged_action_decided_once:
  "let v = vti_run E (pre @ VStage t a p # later); n = length (vt_objects (vti_run E pre))
   in es_status (vt_objects v ! n) = decision_on t later \<and>
      (n \<in> set (vt_committed_actions v) \<longleftrightarrow> decision_on t later = COMMITTED) \<and> distinct (vt_committed_actions v) \<and>
      (n \<in> set (get_staged_actions t v) \<longleftrightarrow> decision_on t later = STAGED) \<and>
      es_payload_hash (vt_objects v ! n) = payload_hash E p"
proof -
  define v n where "v = vti_run E (pre @ VStage t a p # later)" and "n = length (vt_objects (vti_run E pre))"
  let ?u = "vti_step E (VStage t a p) (vti_run E pre)"
  have u: "vti_inv ?u" by (intro vti_inv_step) (simp add: vti_run_def vti_inv_fold vti_inv_new)
  have e: "vt_objects ?u ! n = new_escrow E t a p" "n < length (vt_objects ?u)" by (simp_all add: n_def stage_action_def Let_def)
  have v: "v = fold (vti_step E) later ?u" by (simp add: v_def vti_run_def)
  note f = vti_fold_escrow [OF u e(2), of E later, folded v, unfolded e(1)]
  have "vti_inv v" unfolding v using u by (rule vti_inv_fold)
  then show ?thesis using f unfolding Let_def v_def [symmetric] n_def [symmetric] by (auto simp: vti_inv_def new_escrow_def)
qed

text \<open>A payload that changes after staging is committed under the old hash.\<close>

lemma changed_payload_committed:
  "let v = vti_run E [VStage ''t'' ''pay'' (JInt 1), VChange 0 (JInt 1000), VCommit ''t'' ''GAT-CLEAR-x'']
   in vt_committed_actions v = [0] \<and> es_payload (vt_objects v ! 0) = JInt 1000 \<and> es_payload_hash (vt_objects v ! 0) = payload_hash E (JInt 1)"
  by (simp add: vti_run_def stage_action_def change_payload_def commit_action_def commit_one_def set_escrow_def new_coordinator_def
      get_staged_actions_def new_escrow_def clearance_prefix_def)

subsection \<open>Contamination\<close>

text \<open>Python's \<open>==\<close> on the values of JSON: numbers and truth values compare by value, objects without regard to order.\<close>

fun numify :: "json \<Rightarrow> json"
  and numify_list :: "json list \<Rightarrow> json list"
  and numify_members :: "(string \<times> json) list \<Rightarrow> (string \<times> json) list" where
  "numify JNull = JNull"
| "numify (JBool b) = JFloat (if b then 1 else 0)"
| "numify (JInt i) = JFloat (of_int i)"
| "numify (JFloat q) = JFloat q"
| "numify (JStr s) = JStr s"
| "numify (JList xs) = JList (numify_list xs)"
| "numify (JObj kvs) = JObj (numify_members kvs)"
| "numify_list [] = []"
| "numify_list (x # xs) = numify x # numify_list xs"
| "numify_members [] = []"
| "numify_members ((k, v) # kvs) = (k, numify v) # numify_members kvs"

definition py_same :: "json \<Rightarrow> json \<Rightarrow> bool" where
  "py_same a b \<longleftrightarrow> canon (numify a) = canon (numify b)"

record manifest =
  rm_task_state :: "(string \<times> json) list"
  rm_prompts :: "(string \<times> string) list"

text \<open>A divergence: the key, the expected and the actual value.\<close>

type_synonym divergence = "string \<times> json \<times> json"

definition task_divergences :: "manifest \<Rightarrow> manifest \<Rightarrow> string list \<Rightarrow> string list \<Rightarrow> divergence list" where
  "task_divergences original replay allowed intervened =
     concat (map (\<lambda>(key, v). let actual = (case map_of (rm_task_state replay) key of Some w \<Rightarrow> w | None \<Rightarrow> JNull) in
         if key \<in> set allowed \<or> key \<in> set intervened then []
         else if \<not> py_same actual v then [(key, v, actual)] else []) (rm_task_state original))"

definition prompt_divergences :: "manifest \<Rightarrow> manifest \<Rightarrow> string list \<Rightarrow> divergence list" where
  "prompt_divergences original replay intervened =
     concat (map (\<lambda>(key, v). let actual = map_of (rm_prompts replay) key in
         if key \<in> set intervened then []
         else if actual \<noteq> Some v
         then [(''prompt:'' @ key, JStr v, case actual of Some w \<Rightarrow> JStr w | None \<Rightarrow> JNull)] else []) (rm_prompts original))"

text \<open>The report is a dict: a later divergence with the same key replaces an earlier one.\<close>

definition verify_no_contamination ::
    "manifest \<Rightarrow> manifest \<Rightarrow> string list \<Rightarrow> string list \<Rightarrow> ((string \<times> json \<times> json) list, unit) result" where
  "verify_no_contamination original replay allowed intervened =
     (let divergences = fold (\<lambda>(k, d). dict_put k d)
            (task_divergences original replay allowed intervened @ prompt_divergences original replay intervened) []
      in if divergences \<noteq> [] then Inl divergences else Inr ())"

lemma concat_pairs_empty: "concat (map (\<lambda>(k, v). f k v) xs) = [] \<longleftrightarrow> (\<forall>k v. (k, v) \<in> set xs \<longrightarrow> f k v = [])"
  by auto

lemma if_list_empty: "(if A then [] else if \<not> B then [x] else []) = [] \<longleftrightarrow> A \<or> B"
  by simp

lemma dict_put_nonempty [simp]: "dict_put k v d \<noteq> []"
  by (cases "(k, v, d)" rule: dict_put.cases) auto

lemma fold_dict_put_empty: "fold (\<lambda>(k, d). dict_put k d) xs acc = [] \<longleftrightarrow> xs = [] \<and> acc = []"
proof (induction xs arbitrary: acc)
  case (Cons x xs)
  show ?case using Cons.IH [of "dict_put (fst x) (snd x) acc"] by (simp add: case_prod_beta)
qed simp

text \<open>
  The contamination check accepts exactly the replays that kept every task-state value outside the allowed
  descendants and intervened variables and every prompt that was not intervened. A value that is missing in the replay reads
  as null, and what the replay adds is not looked at.
\<close>

theorem contamination_check_exact:
  "verify_no_contamination original replay allowed intervened = Inr () \<longleftrightarrow>
     (\<forall>k v. (k, v) \<in> set (rm_task_state original) \<longrightarrow> k \<in> set allowed \<or> k \<in> set intervened \<or>
        py_same (case map_of (rm_task_state replay) k of Some w \<Rightarrow> w | None \<Rightarrow> JNull) v) \<and>
     (\<forall>k v. (k, v) \<in> set (rm_prompts original) \<longrightarrow> k \<in> set intervened \<or> map_of (rm_prompts replay) k = Some v)"
proof -
  have "task_divergences original replay allowed intervened = [] \<longleftrightarrow>
     (\<forall>k v. (k, v) \<in> set (rm_task_state original) \<longrightarrow> k \<in> set allowed \<or> k \<in> set intervened \<or>
        py_same (case map_of (rm_task_state replay) k of Some w \<Rightarrow> w | None \<Rightarrow> JNull) v)"
    unfolding task_divergences_def Let_def concat_pairs_empty if_list_empty by (simp only: disj_assoc)
  moreover have "prompt_divergences original replay intervened = [] \<longleftrightarrow>
     (\<forall>k v. (k, v) \<in> set (rm_prompts original) \<longrightarrow> k \<in> set intervened \<or> map_of (rm_prompts replay) k = Some v)"
    unfolding prompt_divergences_def Let_def concat_pairs_empty if_list_empty ..
  ultimately show ?thesis by (simp add: verify_no_contamination_def Let_def fold_dict_put_empty)
qed

subsection \<open>Quarantine rules\<close>

text \<open>
  A component is given by its text (the value of the enumeration or the string). The optional database is the list of
  its rows; \<open>valid_uuid\<close> says which texts the constructor of \<open>UUID\<close> accepts, and \<open>flush_ok\<close> whether writing succeeds.
\<close>

record quarantine_rule =
  qu_rule_id :: string
  qu_target_component :: string
  qu_description :: string
  qu_enforce_network_isolation :: bool
  qu_active :: bool

record rule_row =
  qr_id :: string
  qr_tenant_id :: string
  qr_target_component :: string
  qr_description :: string
  qr_enforce_network_isolation :: bool
  qr_active :: bool

record isolator =
  ci_tenant_id :: string
  ci_active_rules :: "quarantine_rule list"

datatype isolator_error = BadUuid string | FlushFailed | RefusedQuarantine "(string \<times> json \<times> json) list"

definition new_isolator :: "string \<Rightarrow> isolator" where
  "new_isolator tenant = \<lparr>ci_tenant_id = tenant, ci_active_rules = []\<rparr>"

definition new_rule_of :: "string \<Rightarrow> string \<Rightarrow> string \<Rightarrow> quarantine_rule" where
  "new_rule_of rule_id component description = \<lparr>qu_rule_id = rule_id, qu_target_component = component, qu_description = description,
     qu_enforce_network_isolation = True, qu_active = True\<rparr>"

definition apply_quarantine :: "string \<Rightarrow> string \<Rightarrow> string \<Rightarrow> isolator \<Rightarrow> quarantine_rule \<times> isolator" where
  "apply_quarantine rule_id component description ci =
     (let r = new_rule_of rule_id component description in (r, ci\<lparr>ci_active_rules := ci_active_rules ci @ [r]\<rparr>))"

definition async_apply_quarantine ::
    "(string \<Rightarrow> bool) \<Rightarrow> bool \<Rightarrow> string \<Rightarrow> string \<Rightarrow> string \<Rightarrow> rule_row list option \<Rightarrow> isolator \<Rightarrow>
       (isolator_error, quarantine_rule) result \<times> rule_row list option \<times> isolator" where
  "async_apply_quarantine valid_uuid flush_ok rule_id component description db ci =
     (case apply_quarantine rule_id component description ci of (r, ci') \<Rightarrow>
        (case db of
           None \<Rightarrow> (Inr r, None, ci')
         | Some rows \<Rightarrow>
             if \<not> valid_uuid (ci_tenant_id ci) then (Inl (BadUuid (ci_tenant_id ci)), db, ci')
             else if \<not> flush_ok then (Inl FlushFailed, db, ci')
             else (Inr r, Some (rows @ [\<lparr>qr_id = rule_id, qr_tenant_id = ci_tenant_id ci, qr_target_component = component,
                     qr_description = description, qr_enforce_network_isolation = True, qr_active = True\<rparr>]), ci')))"

definition async_remove_quarantine ::
    "(string \<Rightarrow> bool) \<Rightarrow> bool \<Rightarrow> string \<Rightarrow> rule_row list option \<Rightarrow> isolator \<Rightarrow>
       (isolator_error, unit) result \<times> rule_row list option \<times> isolator" where
  "async_remove_quarantine valid_uuid flush_ok rule_id db ci =
     (let ci' = ci\<lparr>ci_active_rules := map (\<lambda>r. if qu_rule_id r = rule_id then r\<lparr>qu_active := False\<rparr> else r) (ci_active_rules ci)\<rparr> in
      case db of
        None \<Rightarrow> (Inr (), None, ci')
      | Some rows \<Rightarrow>
          if \<not> valid_uuid rule_id then (Inl (BadUuid rule_id), db, ci')
          else if rule_id \<in> qr_id ` set rows \<and> \<not> flush_ok then (Inl FlushFailed, db, ci')
          else (Inr (), Some (map (\<lambda>r. if qr_id r = rule_id then r\<lparr>qr_active := False\<rparr> else r) rows), ci'))"

text \<open>
  The second condition of the query is the Python expression \<open>QuarantineRuleORM.active is True\<close>: a column object is not
  the constant \<open>True\<close>, so the condition is the constant false.
\<close>

definition matching_rows :: "string \<Rightarrow> rule_row list \<Rightarrow> rule_row list" where
  "matching_rows tenant rows = filter (\<lambda>r. qr_tenant_id r = tenant \<and> False) rows"

definition async_get_quarantined_agents ::
    "(string \<Rightarrow> bool) \<Rightarrow> rule_row list option \<Rightarrow> isolator \<Rightarrow> (isolator_error, string set) result" where
  "async_get_quarantined_agents valid_uuid db ci =
     (let quarantined = qu_target_component ` set (filter qu_active (ci_active_rules ci)) in
      case db of
        None \<Rightarrow> Inr quarantined
      | Some rows \<Rightarrow>
          if \<not> valid_uuid (ci_tenant_id ci) then Inl (BadUuid (ci_tenant_id ci))
          else Inr (quarantined \<union> qr_target_component ` set (matching_rows (ci_tenant_id ci) rows)))"

definition enforce_invariance_and_quarantine ::
    "string \<Rightarrow> string \<Rightarrow> string \<Rightarrow> manifest \<Rightarrow> manifest \<Rightarrow> string list \<Rightarrow> string list \<Rightarrow> isolator \<Rightarrow>
       (isolator_error, quarantine_rule) result \<times> isolator" where
  "enforce_invariance_and_quarantine rule_id component description original replay allowed intervened ci =
     (case verify_no_contamination original replay allowed intervened of
        Inl d \<Rightarrow> (Inl (RefusedQuarantine d), ci)
      | Inr _ \<Rightarrow> (case apply_quarantine rule_id component description ci of (r, ci') \<Rightarrow> (Inr r, ci')))"

definition check_invocation_allowed :: "string \<Rightarrow> isolator \<Rightarrow> bool" where
  "check_invocation_allowed component ci \<longleftrightarrow> \<not> list_ex (\<lambda>r. qu_active r \<and> qu_target_component r = component) (ci_active_rules ci)"

definition list_active_quarantines :: "isolator \<Rightarrow> quarantine_rule list" where
  "list_active_quarantines ci = filter qu_active (ci_active_rules ci)"

datatype isolator_op =
    IApply string string string
  | IRemove string

fun isolator_step :: "isolator_op \<Rightarrow> isolator \<Rightarrow> isolator" where
  "isolator_step (IApply i c d) ci = snd (apply_quarantine i c d ci)"
| "isolator_step (IRemove i) ci = snd (snd (async_remove_quarantine (\<lambda>_. True) True i None ci))"

lemma isolator_fold_rules:
  "r \<in> set (ci_active_rules (fold isolator_step ops ci)) \<and> qu_active r \<longleftrightarrow>
     (r \<in> set (ci_active_rules ci) \<and> qu_active r \<and> IRemove (qu_rule_id r) \<notin> set ops) \<or>
     (\<exists>pre post. ops = pre @ IApply (qu_rule_id r) (qu_target_component r) (qu_description r) # post \<and>
        r = new_rule_of (qu_rule_id r) (qu_target_component r) (qu_description r) \<and> IRemove (qu_rule_id r) \<notin> set post)"
proof (induction ops arbitrary: ci)
  case (Cons x ops)
  have split: "(\<exists>pre post. x # ops = pre @ y # post \<and> Q \<and> IRemove i \<notin> set post) \<longleftrightarrow>
      (x = y \<and> Q \<and> IRemove i \<notin> set ops) \<or> (\<exists>pre post. ops = pre @ y # post \<and> Q \<and> IRemove i \<notin> set post)" for y Q i
    by (auto simp: Cons_eq_append_conv)
  show ?case
  proof (cases x)
    case (IApply i c d)
    have "r \<in> set (ci_active_rules (isolator_step x ci)) \<longleftrightarrow> r \<in> set (ci_active_rules ci) \<or> r = new_rule_of i c d"
      using IApply by (auto simp: apply_quarantine_def Let_def)
    then show ?thesis unfolding fold_Cons o_apply Cons.IH split using IApply by (cases r) (auto simp: new_rule_of_def)
  next
    case (IRemove i)
    have "r \<in> set (ci_active_rules (isolator_step x ci)) \<and> qu_active r \<longleftrightarrow> r \<in> set (ci_active_rules ci) \<and> qu_active r \<and> qu_rule_id r \<noteq> i"
      using IRemove by (force simp: async_remove_quarantine_def Let_def)
    then show ?thesis unfolding fold_Cons o_apply Cons.IH split using IRemove by auto
  qed
qed simp

text \<open>
  A component is refused exactly while a rule for it is in force: after any sequence of calls an isolator refuses a
  component if and only if some rule was applied to it and not removed afterwards. Rules stored in the database change nothing: the query for
  them matches no row, so the set of quarantined agents is that of the rules in memory.
\<close>

theorem quarantine_exact:
  "(check_invocation_allowed c (fold isolator_step ops (new_isolator t)) \<longleftrightarrow>
      \<not> (\<exists>pre post i d. ops = pre @ IApply i c d # post \<and> IRemove i \<notin> set post)) \<and>
   async_get_quarantined_agents (\<lambda>_. True) (Some rows) (fold isolator_step ops (new_isolator t)) =
     Inr {c. \<not> check_invocation_allowed c (fold isolator_step ops (new_isolator t))}"
proof
  let ?ci = "fold isolator_step ops (new_isolator t)"
  have "\<not> check_invocation_allowed c ?ci \<longleftrightarrow> (\<exists>r. (r \<in> set (ci_active_rules ?ci) \<and> qu_active r) \<and> qu_target_component r = c)"
    by (auto simp: check_invocation_allowed_def list_ex_iff)
  also have "\<dots> \<longleftrightarrow> (\<exists>pre post i d. ops = pre @ IApply i c d # post \<and> IRemove i \<notin> set post)"
    unfolding isolator_fold_rules by (fastforce simp: new_isolator_def new_rule_of_def)
  finally show "check_invocation_allowed c ?ci \<longleftrightarrow> \<not> (\<exists>pre post i d. ops = pre @ IApply i c d # post \<and> IRemove i \<notin> set post)" by blast
  show "async_get_quarantined_agents (\<lambda>_. True) (Some rows) ?ci = Inr {c. \<not> check_invocation_allowed c ?ci}"
    by (auto simp: async_get_quarantined_agents_def matching_rows_def check_invocation_allowed_def list_ex_iff Let_def)
qed

subsection \<open>The compaction guard\<close>

text \<open>
  \<open>re.sub\<close> with three look-behind conditions replaces single white-space characters, so it acts on every position
  by the characters before it: the last is a full stop or a question mark, the last four are not a word character, a full
  stop, a word character and any character but a line break, the last three not a capital, a small letter and a full
  stop. Word characters are those of the \<open>re\<close> module on code points below 256.
\<close>

definition is_word :: "char \<Rightarrow> bool" where
  "is_word c = (let n = (of_char c :: nat) in
     48 \<le> n \<and> n \<le> 57 \<or> 65 \<le> n \<and> n \<le> 90 \<or> n = 95 \<or> 97 \<le> n \<and> n \<le> 122 \<or>
     n \<in> {170, 178, 179, 181, 185, 186, 188, 189, 190} \<or> 192 \<le> n \<and> n \<noteq> 215 \<and> n \<noteq> 247)"

definition is_upper :: "char \<Rightarrow> bool" where
  "is_upper c = (let n = (of_char c :: nat) in 65 \<le> n \<and> n \<le> 90)"

definition is_lower :: "char \<Rightarrow> bool" where
  "is_lower c = (let n = (of_char c :: nat) in 97 \<le> n \<and> n \<le> 122)"

text \<open>The characters before a position, the last one first.\<close>

definition breaks_here :: "string \<Rightarrow> bool" where
  "breaks_here before =
     (case before of
        d # rest \<Rightarrow>
          (d = CHR ''.'' \<or> d = CHR ''?'') \<and>
          \<not> (case rest of w # p # v # _ \<Rightarrow> d \<noteq> CHR 0x0A \<and> is_word w \<and> p = CHR ''.'' \<and> is_word v | _ \<Rightarrow> False) \<and>
          \<not> (d = CHR ''.'' \<and> (case rest of l # u # _ \<Rightarrow> is_lower l \<and> is_upper u | _ \<Rightarrow> False))
      | [] \<Rightarrow> False)"

fun sub_breaks :: "string \<Rightarrow> string \<Rightarrow> string" where
  "sub_breaks before [] = []"
| "sub_breaks before (c # cs) = (if is_space c \<and> breaks_here before then CHR 0x0A else c) # sub_breaks (c # before) cs"

fun split_lines :: "string \<Rightarrow> string \<Rightarrow> string list" where
  "split_lines acc [] = [rev acc]"
| "split_lines acc (c # cs) = (if c = CHR 0x0A then rev acc # split_lines [] cs else split_lines (c # acc) cs)"

definition segment_claims :: "string \<Rightarrow> string list" where
  "segment_claims text = filter (\<lambda>c. c \<noteq> []) (map py_strip (split_lines [] (sub_breaks [] text)))"

record entailment =
  en_claim :: string
  en_classification :: string
  en_confidence :: rat
  en_supporting_source_ids :: "string list"

record context_span =
  cs_trust_level :: "string option"
  cs_content :: string
  cs_id :: "string option"

record compaction_result =
  cr_is_valid :: bool
  cr_claims :: "entailment list"

text \<open>The loop over the claims; \<open>Inl\<close> is an early return.\<close>

fun judge_claims :: "(string \<Rightarrow> entailment) \<Rightarrow> string \<Rightarrow> string list \<Rightarrow> nat \<times> entailment list \<Rightarrow>
    (compaction_result, nat \<times> entailment list) result" where
  "judge_claims check fail_behavior [] st = Inr st"
| "judge_claims check fail_behavior (c # cs) (unsupported, recorded) =
     (let d = check c; recorded' = recorded @ [d] in
      if en_classification d = ''CONTRADICTED'' then Inl \<lparr>cr_is_valid = False, cr_claims = recorded'\<rparr>
      else if en_classification d = ''UNKNOWN'' \<and> fail_behavior \<in> {''fail_closed'', ''require_human_review''}
      then Inl \<lparr>cr_is_valid = False, cr_claims = recorded'\<rparr>
      else judge_claims check fail_behavior cs
             ((if en_classification d = ''UNSUPPORTED'' then unsupported + 1 else unsupported), recorded'))"

definition source_text :: "context_span list \<Rightarrow> string" where
  "source_text spans = py_join '' '' (map cs_content spans)"

definition source_id :: "context_span list \<Rightarrow> string" where
  "source_id spans = (case spans of [] \<Rightarrow> ''unknown_source'' | s # _ \<Rightarrow> (case cs_id s of Some i \<Rightarrow> i | None \<Rightarrow> ''unknown_source''))"

definition trust_levels :: "context_span list \<Rightarrow> string set" where
  "trust_levels spans = set (map (\<lambda>s. case cs_trust_level s of Some t \<Rightarrow> t | None \<Rightarrow> ''low'') spans)"

definition validate_compaction ::
    "(string \<Rightarrow> string \<Rightarrow> string \<Rightarrow> entailment) \<Rightarrow> string \<Rightarrow> context_span list \<Rightarrow> string \<Rightarrow> string \<Rightarrow> compaction_result" where
  "validate_compaction check_entailment fail_behavior original_spans summary trust_level =
     (if ''low'' \<in> trust_levels original_spans \<and> trust_level = ''high'' then \<lparr>cr_is_valid = False, cr_claims = []\<rparr>
      else
        let claims = segment_claims summary in
        if claims = [] then \<lparr>cr_is_valid = True, cr_claims = []\<rparr>
        else case judge_claims (\<lambda>c. check_entailment (source_text original_spans) c (source_id original_spans)) fail_behavior claims (0, []) of
            Inl r \<Rightarrow> r
          | Inr (unsupported, recorded) \<Rightarrow>
              \<lparr>cr_is_valid = \<not> (3/10 < (of_nat unsupported / of_nat (length claims) :: rat)), cr_claims = recorded\<rparr>)"

text \<open>A claim that ends the loop.\<close>

definition stops_at :: "string \<Rightarrow> entailment \<Rightarrow> bool" where
  "stops_at fail_behavior d \<longleftrightarrow> en_classification d = ''CONTRADICTED'' \<or>
     en_classification d = ''UNKNOWN'' \<and> fail_behavior \<in> {''fail_closed'', ''require_human_review''}"

lemma judge_claims_result:
  "case judge_claims check fb cs (n, acc) of
     Inl r \<Rightarrow> \<not> cr_is_valid r \<and> (\<exists>c\<in>set cs. stops_at fb (check c))
   | Inr (m, rec) \<Rightarrow> (\<forall>c\<in>set cs. \<not> stops_at fb (check c)) \<and> rec = acc @ map check cs \<and>
       m = n + length (filter (\<lambda>c. en_classification (check c) = ''UNSUPPORTED'') cs)"
proof (induction cs arbitrary: n acc)
  case (Cons c cs)
  show ?case
  proof (cases "stops_at fb (check c)")
    case True
    then show ?thesis by (auto simp: Let_def stops_at_def)
  next
    case False
    define m where "m = (if en_classification (check c) = ''UNSUPPORTED'' then n + 1 else n)"
    have eq: "judge_claims check fb (c # cs) (n, acc) = judge_claims check fb cs (m, acc @ [check c])"
      using False by (auto simp: Let_def stops_at_def m_def)
    have "m + length (filter (\<lambda>c. en_classification (check c) = ''UNSUPPORTED'') cs) =
        n + length (filter (\<lambda>c. en_classification (check c) = ''UNSUPPORTED'') (c # cs))" by (simp add: m_def)
    then show ?thesis unfolding eq using Cons.IH [where n=m and acc="acc @ [check c]"] False
      by (cases "judge_claims check fb cs (m, acc @ [check c])") auto
  qed
qed simp

text \<open>
  A summary is accepted exactly when it does not raise the trust of a low-trust source to high and either makes no claim, or
  none of its claims is contradicted or left undecided under a closed failure behaviour, and at most three in ten are
  unsupported by the source text. Any other label a provider returns counts as support.
\<close>

theorem compaction_exact:
  fixes check fb spans summary trust
  defines "judged \<equiv> \<lambda>c. check (source_text spans) c (source_id spans)"
  shows "cr_is_valid (validate_compaction check fb spans summary trust) \<longleftrightarrow>
    \<not> (''low'' \<in> trust_levels spans \<and> trust = ''high'') \<and>
    (segment_claims summary = [] \<or>
     (\<forall>c\<in>set (segment_claims summary). \<not> stops_at fb (judged c)) \<and>
     10 * length (filter (\<lambda>c. en_classification (judged c) = ''UNSUPPORTED'') (segment_claims summary)) \<le> 3 * length (segment_claims summary))"
proof (cases "''low'' \<in> trust_levels spans \<and> trust = ''high'' \<or> segment_claims summary = []")
  case True
  then show ?thesis by (auto simp: validate_compaction_def)
next
  case False
  let ?cs = "segment_claims summary"
  have ratio: "\<not> (3/10 < (of_nat m / of_nat k :: rat)) \<longleftrightarrow> 10 * m \<le> 3 * k" if "0 < k" for m k :: nat
  proof -
    have "\<not> (3/10 < (of_nat m / of_nat k :: rat)) \<longleftrightarrow> of_nat (10 * m) \<le> (of_nat (3 * k) :: rat)"
      using that by (simp add: not_less divide_le_eq field_simps)
    then show ?thesis by (simp only: of_nat_le_iff)
  qed
  note r = judge_claims_result [where check=judged and fb=fb and cs="?cs" and n=0 and acc="[]"]
  show ?thesis
  proof (cases "judge_claims judged fb ?cs (0, [])")
    case (Inl x)
    then show ?thesis using False r by (auto simp: validate_compaction_def Let_def judged_def)
  next
    case (Inr y)
    then show ?thesis using False r ratio [of "length ?cs"] by (cases y) (auto simp: validate_compaction_def Let_def judged_def)
  qed
qed

text \<open>The test provider labels an undecided claim \<open>NEUTRAL\<close>, which the guard takes for support even when it should fail closed.\<close>

lemma neutral_passes:
  "cr_is_valid (validate_compaction (\<lambda>p c i. \<lparr>en_claim = c, en_classification = ''NEUTRAL'', en_confidence = 0, en_supporting_source_ids = []\<rparr>)
     ''fail_closed'' [] summary ''low'')"
proof -
  let ?n = "\<lambda>c. \<lparr>en_claim = c, en_classification = ''NEUTRAL'', en_confidence = 0 :: rat, en_supporting_source_ids = [] :: string list\<rparr>"
  have "\<not> stops_at ''fail_closed'' (?n c)" for c by (simp add: stops_at_def)
  then show ?thesis using judge_claims_result [where check="?n" and fb="''fail_closed''" and cs="segment_claims summary" and n=0 and acc="[]"]
    by (auto simp: validate_compaction_def Let_def split: sum.splits)
qed

end
