(* ===== verification/Admissibility_Gateway.thy ===== *)
theory Admissibility_Gateway
  imports Admission_Receipt Belief_Model
begin

section \<open>The admissibility gateway and the trusted time\<close>

text \<open>
  \<open>packages/replay/src/raeb.py\<close>: whether a proposed replay is admissible as evidence, by the freshness of the trace, the
  determinism of the intervened component and its impact on the graph. \<open>packages/replay/src/time_authority.py\<close>: the
  verifier of signed timestamps with its table of seen nonces. A span is what the gateway reads of a model or a
  dict, with the defaults applied. The text of a \<open>datetime\<close> is the parameter \<open>iso_text\<close>, the binary logarithm the
  parameter \<open>lg\<close>. Of the errors of the nonce table only the violated primary key is modelled.
\<close>

subsection \<open>Trusted timestamps\<close>

record time_envelope =
  tv_timestamp :: py_datetime
  tv_source :: string
  tv_issued_at :: py_datetime
  tv_nonce :: string
  tv_signature :: "string option"
  tv_verified :: bool

record time_verifier =
  hv_secret_key :: string
  hv_seen_nonces :: "(string \<times> int) list"

definition time_text :: "(py_datetime \<Rightarrow> string) \<Rightarrow> time_envelope \<Rightarrow> string" where
  "time_text iso_text t =
     iso_text (tv_timestamp t) @ ''|'' @ tv_source t @ ''|'' @ iso_text (tv_issued_at t) @ ''|'' @ tv_nonce t"

definition recompute_hash :: "env \<Rightarrow> (py_datetime \<Rightarrow> string) \<Rightarrow> time_envelope \<Rightarrow> string" where
  "recompute_hash E iso_text t = sha256 E (utf8 (time_text iso_text t))"

definition time_signature :: "env \<Rightarrow> (py_datetime \<Rightarrow> string) \<Rightarrow> string \<Rightarrow> time_envelope \<Rightarrow> string" where
  "time_signature E iso_text key t = b64_encode E (hmac_sha256 E key (utf8 (time_text iso_text t)))"

datatype gateway_error =
    NonAsciiDigest
  | VerifierMissing
  | TimestampMissing
  | TimestampRefused
  | NaiveTimestamp
  | NegativeAge rat
  | ZeroTtl
  | NoSpans
  | AmbiguousComponent "string option"
  | NoMatchingSpan "string option"
  | ScoreOutOfRange
  | BeliefModelRequired

text \<open>\<open>hmac.compare_digest\<close> on two texts refuses characters outside ASCII.\<close>

definition compare_digest :: "string \<Rightarrow> string \<Rightarrow> (gateway_error, bool) result" where
  "compare_digest a b = (if list_ex (\<lambda>c. 128 \<le> (of_char c :: nat)) (a @ b) then Inl NonAsciiDigest else Inr (a = b))"

text \<open>A nonce is stored only after the signature was accepted; a stored one violates the primary key.\<close>

definition verify_time ::
    "env \<Rightarrow> (py_datetime \<Rightarrow> string) \<Rightarrow> int \<Rightarrow> time_envelope \<Rightarrow> time_verifier \<Rightarrow>
       (gateway_error, bool) result \<times> time_verifier \<times> time_envelope" where
  "verify_time E iso_text now t v =
     (if \<not> truthy (tv_signature t) then (Inr False, v, t)
      else case compare_digest (the (tv_signature t)) (time_signature E iso_text (hv_secret_key v) t) of
        Inl e \<Rightarrow> (Inl e, v, t)
      | Inr False \<Rightarrow> (Inr False, v, t)
      | Inr True \<Rightarrow>
          if tv_nonce t \<in> fst ` set (hv_seen_nonces v) then (Inr False, v, t)
          else (Inr True, v\<lparr>hv_seen_nonces := hv_seen_nonces v @ [(tv_nonce t, now)]\<rparr>, t\<lparr>tv_verified := True\<rparr>))"

subsection \<open>The intervened node\<close>

record gateway_span =
  gs_span_id :: "string option"
  gs_parent_span_id :: "string option"
  gs_component_type :: "string option"

record live_trace =
  lt_spans :: "gateway_span list"
  lt_created_at :: py_datetime

text \<open>The two explicit identifiers may be missing as attributes; an attribute may hold no value.\<close>

record proposed_replay =
  pp_target_component_id :: "string option option"
  pp_component_id :: "string option option"
  pp_swapped_component_type :: "string option"

definition explicit_component :: "proposed_replay \<Rightarrow> string option" where
  "explicit_component p =
     (case pp_target_component_id p of Some i \<Rightarrow> i | None \<Rightarrow> (case pp_component_id p of Some i \<Rightarrow> i | None \<Rightarrow> None))"

definition matching_spans :: "string option \<Rightarrow> gateway_span list \<Rightarrow> string list" where
  "matching_spans ty spans = List.map_filter (\<lambda>s. if gs_component_type s = ty then gs_span_id s else None) spans"

definition resolve_intervention_node :: "proposed_replay \<Rightarrow> live_trace \<Rightarrow> (gateway_error, string) result" where
  "resolve_intervention_node p tr =
     (if truthy (explicit_component p) then Inr (the (explicit_component p))
      else if lt_spans tr = [] then Inl NoSpans
      else case matching_spans (pp_swapped_component_type p) (lt_spans tr) of
        [i] \<Rightarrow> Inr i
      | [] \<Rightarrow> Inl (NoMatchingSpan (pp_swapped_component_type p))
      | _ \<Rightarrow> Inl (AmbiguousComponent (pp_swapped_component_type p)))"

subsection \<open>The evaluation\<close>

datatype admissibility = ADMISSIBLE | LIMITED | UNSUPPORTED

datatype reject_reason = CompletelyStale | MarginalScore | BelowThreshold

record equivalence_vector =
  ev_freshness :: rat
  ev_determinism :: rat
  ev_impact :: rat

record raeb_evaluation =
  ra_vector :: equivalence_vector
  ra_admissibility :: admissibility
  ra_information_gain :: rat
  ra_risk :: rat
  ra_rejection_reason :: "reject_reason option"
  ra_prior_entropy :: rat
  ra_posterior_entropy :: rat
  ra_raw_eig :: rat
  ra_target :: string

record gateway =
  gw_ttl :: int
  gw_verifier :: "time_verifier option"
  gw_determinism :: determinism

definition new_gateway :: "int \<Rightarrow> time_verifier option \<Rightarrow> gateway" where
  "new_gateway ttl v = \<lparr>gw_ttl = ttl, gw_verifier = v, gw_determinism = new_determinism\<rparr>"

text \<open>Configuration of production mode, the timestamp and the time of evaluation.\<close>

definition check_mode :: "bool \<Rightarrow> gateway \<Rightarrow> time_envelope option \<Rightarrow> (gateway_error, unit) result" where
  "check_mode production g t =
     (if production \<and> gw_verifier g = None then Inl VerifierMissing
      else if production \<and> t = None then Inl TimestampMissing else Inr ())"

definition evaluation_time ::
    "env \<Rightarrow> (py_datetime \<Rightarrow> string) \<Rightarrow> int \<Rightarrow> time_envelope option \<Rightarrow> gateway \<Rightarrow>
       (gateway_error, py_datetime) result \<times> gateway \<times> time_envelope option" where
  "evaluation_time E iso_text now ts g =
     (case ts of
        None \<Rightarrow> (Inr (AwareUTC now), g, None)
      | Some t \<Rightarrow>
          (case gw_verifier g of
             None \<Rightarrow> (Inr (tv_timestamp t), g, Some t)
           | Some v \<Rightarrow>
               (case verify_time E iso_text now t v of (r, v', t') \<Rightarrow>
                  (case r of Inl e \<Rightarrow> Inl e | Inr ok \<Rightarrow> if ok then Inr (tv_timestamp t') else Inl TimestampRefused,
                   g\<lparr>gw_verifier := Some v'\<rparr>, Some t'))))"

definition age_seconds :: "py_datetime \<Rightarrow> py_datetime \<Rightarrow> (gateway_error, rat) result" where
  "age_seconds eval_time created =
     (case (eval_time, created) of
        (AwareUTC e, AwareUTC c) \<Rightarrow>
          let age = of_int (e - c) / 10 ^ 6 in
          if age < 0 then if age < - 5 then Inl (NegativeAge age) else Inr 0 else Inr age
      | _ \<Rightarrow> Inl NaiveTimestamp)"

definition freshness_score :: "int \<Rightarrow> rat \<Rightarrow> (gateway_error, rat) result" where
  "freshness_score ttl age =
     (if of_int ttl < age then Inr 0
      else if ttl = 0 then Inl ZeroTtl else Inr (max 0 (1 - age / of_int ttl)))"

definition graph_nodes :: "live_trace \<Rightarrow> string list" where
  "graph_nodes tr = List.map_filter gs_span_id (lt_spans tr)"

definition graph_edges :: "live_trace \<Rightarrow> edges" where
  "graph_edges tr = List.map_filter (\<lambda>s. case (gs_parent_span_id s, gs_span_id s) of
     (Some p, Some i) \<Rightarrow> Some (p, i) | _ \<Rightarrow> None) (lt_spans tr)"

definition equivalence_vector_of :: "rat \<Rightarrow> rat \<Rightarrow> rat \<Rightarrow> (gateway_error, equivalence_vector) result" where
  "equivalence_vector_of f d i =
     (if \<forall>x\<in>{f, d, i}. 0 \<le> x \<and> x \<le> 1 then Inr \<lparr>ev_freshness = f, ev_determinism = d, ev_impact = i\<rparr>
      else Inl ScoreOutOfRange)"

definition classify :: "equivalence_vector \<Rightarrow> admissibility \<times> reject_reason option" where
  "classify v =
     (let composite = (ev_freshness v + ev_determinism v + ev_impact v) / 3 in
      if ev_freshness v = 0 then (UNSUPPORTED, Some CompletelyStale)
      else if 8/10 \<le> composite then (ADMISSIBLE, None)
      else if 5/10 \<le> composite then (LIMITED, Some MarginalScore)
      else (UNSUPPORTED, Some BelowThreshold))"

definition belief_of :: "bool \<Rightarrow> bool \<Rightarrow> string list \<Rightarrow> beliefs option \<Rightarrow> (gateway_error, beliefs) result" where
  "belief_of production allow_uniform_prior nodes b =
     (case b of
        Some b \<Rightarrow> Inr b
      | None \<Rightarrow> if production \<or> \<not> allow_uniform_prior then Inl BeliefModelRequired else Inr (initial_beliefs nodes))"

definition score_replay ::
    "(rat \<Rightarrow> rat) \<Rightarrow> bool \<Rightarrow> bool \<Rightarrow> py_datetime \<Rightarrow> live_trace \<Rightarrow> proposed_replay \<Rightarrow> beliefs option \<Rightarrow> gateway \<Rightarrow>
       (gateway_error, raeb_evaluation) result" where
  "score_replay lg production allow_uniform_prior eval_time tr p b g =
     rbind (age_seconds eval_time (lt_created_at tr)) (\<lambda>age.
     rbind (freshness_score (gw_ttl g) age) (\<lambda>freshness.
     rbind (resolve_intervention_node p tr) (\<lambda>node.
       let determinism = estimate_determinism node (gw_determinism g);
           impact = calculate_graph_impact (graph_nodes tr) (graph_edges tr) node
       in rbind (equivalence_vector_of freshness determinism impact) (\<lambda>vector.
          rbind (belief_of production allow_uniform_prior (graph_nodes tr) b) (\<lambda>belief.
            let (expected_ig, expected_h_post) = expected_information_gain lg node heuristic_likelihood belief
            in Inr \<lparr>ra_vector = vector, ra_admissibility = fst (classify vector),
                    ra_information_gain = determinism * expected_ig, ra_risk = (1 - freshness) * impact,
                    ra_rejection_reason = snd (classify vector), ra_prior_entropy = entropy lg belief,
                    ra_posterior_entropy = expected_h_post, ra_raw_eig = expected_ig, ra_target = node\<rparr>)))))"

definition evaluate_admissibility ::
    "env \<Rightarrow> (py_datetime \<Rightarrow> string) \<Rightarrow> (rat \<Rightarrow> rat) \<Rightarrow> bool \<Rightarrow> int \<Rightarrow> live_trace \<Rightarrow> proposed_replay \<Rightarrow> beliefs option \<Rightarrow>
       time_envelope option \<Rightarrow> bool \<Rightarrow> gateway \<Rightarrow>
       (gateway_error, raeb_evaluation) result \<times> gateway \<times> time_envelope option" where
  "evaluate_admissibility E iso_text lg production now tr p b ts allow_uniform_prior g =
     (case check_mode production g ts of
        Inl e \<Rightarrow> (Inl e, g, ts)
      | Inr _ \<Rightarrow>
          (case evaluation_time E iso_text now ts g of (r, g', ts') \<Rightarrow>
             (rbind r (\<lambda>eval_time. score_replay lg production allow_uniform_prior eval_time tr p b g'), g', ts')))"

subsection \<open>Timestamps are used once\<close>

lemma verify_time_True:
  "verify_time E iso_text now t v = (Inr True, v', t') \<longleftrightarrow>
     truthy (tv_signature t) \<and> compare_digest (the (tv_signature t)) (time_signature E iso_text (hv_secret_key v) t) = Inr True \<and>
     tv_nonce t \<notin> fst ` set (hv_seen_nonces v) \<and>
     v' = v\<lparr>hv_seen_nonces := hv_seen_nonces v @ [(tv_nonce t, now)]\<rparr> \<and> t' = t\<lparr>tv_verified := True\<rparr>"
  by (auto simp: verify_time_def split: sum.splits bool.splits)

lemma verify_time_keeps:
  assumes "verify_time E iso_text now t v = (r, v', t')"
  shows "hv_secret_key v' = hv_secret_key v \<and> set (hv_seen_nonces v) \<subseteq> set (hv_seen_nonces v') \<and>
    tv_timestamp t' = tv_timestamp t"
  using assms by (auto simp: verify_time_def split: if_splits sum.splits bool.splits)

text \<open>The envelope was signed with the key of the verifier.\<close>

definition signed_time :: "env \<Rightarrow> (py_datetime \<Rightarrow> string) \<Rightarrow> string \<Rightarrow> time_envelope \<Rightarrow> bool" where
  "signed_time E iso_text key t \<longleftrightarrow> tv_signature t = Some (time_signature E iso_text key t)"

lemma verify_time_signed:
  "verify_time E iso_text now t v = (Inr True, v', t') \<Longrightarrow> signed_time E iso_text (hv_secret_key v) t"
  by (cases "tv_signature t") (auto simp: verify_time_True compare_digest_def signed_time_def split: if_splits)

text \<open>What an evaluation under a verifier means for its timestamp.\<close>

lemma evaluation_verified:
  assumes "evaluate_admissibility E iso_text lg production now tr p b (Some t) uniform g = (Inr r, g', ts')"
    and "gw_verifier g = Some v"
  shows "\<exists>v'. verify_time E iso_text now t v = (Inr True, v', t\<lparr>tv_verified := True\<rparr>) \<and>
    gw_verifier g' = Some v' \<and> ts' = Some (t\<lparr>tv_verified := True\<rparr>)"
proof -
  obtain r0 v' t' where v: "verify_time E iso_text now t v = (r0, v', t')" by (cases "verify_time E iso_text now t v") auto
  with assms have "r0 = Inr True" "gw_verifier g' = Some v'" "ts' = Some t'"
    by (auto simp: evaluate_admissibility_def evaluation_time_def rbind_Inr_iff split: sum.splits if_splits)
  with v show ?thesis by (auto simp: verify_time_True)
qed

lemma evaluation_keeps_verifier:
  assumes "evaluate_admissibility E iso_text lg production now tr p b ts uniform g = (r, g', ts')" "gw_verifier g = Some v"
  shows "\<exists>v'. gw_verifier g' = Some v' \<and> hv_secret_key v' = hv_secret_key v \<and> set (hv_seen_nonces v) \<subseteq> set (hv_seen_nonces v')"
proof (cases ts)
  case None
  then show ?thesis using assms by (auto simp: evaluate_admissibility_def evaluation_time_def split: sum.splits)
next
  case (Some t)
  obtain r0 v' t' where v: "verify_time E iso_text now t v = (r0, v', t')" by (cases "verify_time E iso_text now t v") auto
  then show ?thesis using assms Some verify_time_keeps [OF v]
    by (auto simp: evaluate_admissibility_def evaluation_time_def split: sum.splits)
qed

text \<open>A sequence of calls of one gateway, and the timestamps of the calls that returned an evaluation.\<close>

record gateway_call =
  gc_production :: bool
  gc_now :: int
  gc_trace :: live_trace
  gc_replay :: proposed_replay
  gc_beliefs :: "beliefs option"
  gc_time :: "time_envelope option"
  gc_uniform :: bool

definition gateway_step ::
    "env \<Rightarrow> (py_datetime \<Rightarrow> string) \<Rightarrow> (rat \<Rightarrow> rat) \<Rightarrow> gateway_call \<Rightarrow> gateway \<Rightarrow>
       (gateway_error, raeb_evaluation) result \<times> gateway \<times> time_envelope option" where
  "gateway_step E iso_text lg c g =
     evaluate_admissibility E iso_text lg (gc_production c) (gc_now c) (gc_trace c) (gc_replay c) (gc_beliefs c)
       (gc_time c) (gc_uniform c) g"

fun admitted_times :: "env \<Rightarrow> (py_datetime \<Rightarrow> string) \<Rightarrow> (rat \<Rightarrow> rat) \<Rightarrow> gateway_call list \<Rightarrow> gateway \<Rightarrow> time_envelope list" where
  "admitted_times E iso_text lg [] g = []"
| "admitted_times E iso_text lg (c # cs) g =
     (case gateway_step E iso_text lg c g of (r, g', _) \<Rightarrow>
        (case (r, gc_time c) of (Inr _, Some t) \<Rightarrow> [t] | _ \<Rightarrow> []) @ admitted_times E iso_text lg cs g')"

lemma admitted_times_fresh:
  assumes "gw_verifier g = Some v"
  shows "distinct (map tv_nonce (admitted_times E iso_text lg cs g)) \<and>
    (\<forall>t\<in>set (admitted_times E iso_text lg cs g).
       tv_nonce t \<notin> fst ` set (hv_seen_nonces v) \<and> signed_time E iso_text (hv_secret_key v) t)"
  using assms
proof (induction cs arbitrary: g v)
  case (Cons c cs)
  obtain r g' ts' where st: "gateway_step E iso_text lg c g = (r, g', ts')" by (cases "gateway_step E iso_text lg c g") auto
  note ev = st [unfolded gateway_step_def]
  obtain v' where v': "gw_verifier g' = Some v'" "hv_secret_key v' = hv_secret_key v"
    "set (hv_seen_nonces v) \<subseteq> set (hv_seen_nonces v')"
    using evaluation_keeps_verifier [OF ev Cons.prems] by blast
  note IH = Cons.IH [OF v'(1), unfolded v'(2)]
  show ?case
  proof (cases "\<exists>x t. r = Inr x \<and> gc_time c = Some t")
    case True
    then obtain x t where x: "r = Inr x" "gc_time c = Some t" by blast
    from evaluation_verified [OF ev [unfolded x] Cons.prems] v'(1)
    have ver: "verify_time E iso_text (gc_now c) t v = (Inr True, v', t\<lparr>tv_verified := True\<rparr>)" by auto
    then have "tv_nonce t \<notin> fst ` set (hv_seen_nonces v)" "tv_nonce t \<in> fst ` set (hv_seen_nonces v')"
      by (auto simp: verify_time_True)
    moreover have eq: "admitted_times E iso_text lg (c # cs) g = t # admitted_times E iso_text lg cs g'" using x st by simp
    moreover have "n \<notin> fst ` set (hv_seen_nonces v)" if "n \<notin> fst ` set (hv_seen_nonces v')" for n using that v'(3) by blast
    moreover have "tv_nonce t \<notin> tv_nonce ` set (admitted_times E iso_text lg cs g')" using IH calculation(2) by (metis imageE)
    ultimately show ?thesis unfolding eq list.map distinct.simps list.set using IH verify_time_signed [OF ver] by (metis insert_iff image_set)
  next
    case False
    then have "admitted_times E iso_text lg (c # cs) g = admitted_times E iso_text lg cs g'"
      using st by (auto split: sum.splits option.splits)
    then show ?thesis using IH v'(3) by auto
  qed
qed simp

lemma time_text_nonce:
  assumes "time_text iso_text t = time_text iso_text u" "CHR ''|'' \<notin> set (tv_nonce t)" "CHR ''|'' \<notin> set (tv_nonce u)"
  shows "tv_nonce t = tv_nonce u"
proof -
  have "takeWhile (\<lambda>c. c \<noteq> CHR ''|'') (rev (time_text iso_text x)) = rev (tv_nonce x)" if "CHR ''|'' \<notin> set (tv_nonce x)" for x
    unfolding time_text_def using that by (simp add: takeWhile_append takeWhile_eq_all_conv [THEN iffD2])
  from this [OF assms(2)] this [OF assms(3)] assms(1) show ?thesis by simp
qed

text \<open>
  C26. A signed timestamp admits one evaluation. However the calls of a gateway with a verifier go, the timestamps of the
  calls that returned an evaluation were signed with its key, their nonces were not seen before and are pairwise
  different; and where nonces do not contain the separator of the signed text, their signatures are pairwise different
  too, unless two of the signed texts collide under the keyed hash.
\<close>

theorem timestamp_admits_once:
  assumes "gw_verifier g = Some v" and "ts = admitted_times E iso_text lg cs g"
    and "\<forall>t\<in>set ts. CHR ''|'' \<notin> set (tv_nonce t)"
  shows "distinct (map tv_nonce ts) \<and>
    (\<forall>t\<in>set ts. tv_nonce t \<notin> fst ` set (hv_seen_nonces v) \<and> signed_time E iso_text (hv_secret_key v) t) \<and>
    (distinct (map tv_signature ts) \<or>
     (let M = (\<lambda>t. utf8 (time_text iso_text t)) ` set ts
      in collision_between (\<lambda>m. b64_encode E (hmac_sha256 E (hv_secret_key v) m)) M M))"
proof -
  note f = admitted_times_fresh [OF assms(1), of E iso_text lg cs, folded assms(2)]
  have "distinct (map tv_signature ts)" if n: "\<not> (let M = (\<lambda>t. utf8 (time_text iso_text t)) ` set ts
      in collision_between (\<lambda>m. b64_encode E (hmac_sha256 E (hv_secret_key v) m)) M M)"
  proof (rule ccontr)
    assume "\<not> distinct (map tv_signature ts)"
    then obtain i j where ij: "i < j" "j < length ts" "tv_signature (ts ! i) = tv_signature (ts ! j)"
      by (auto simp: distinct_conv_nth) (metis linorder_neqE_nat)
    then have in_ts: "ts ! i \<in> set ts" "ts ! j \<in> set ts" by auto
    have "tv_nonce (ts ! i) \<noteq> tv_nonce (ts ! j)"
      using f ij by (auto simp: distinct_conv_nth)
    then have "utf8 (time_text iso_text (ts ! i)) \<noteq> utf8 (time_text iso_text (ts ! j))"
      using time_text_nonce [of iso_text "ts ! i" "ts ! j"] assms(3) in_ts by (auto dest: utf8_inj)
    moreover have "time_signature E iso_text (hv_secret_key v) (ts ! i) = time_signature E iso_text (hv_secret_key v) (ts ! j)"
      using f in_ts ij(3) by (auto simp: signed_time_def)
    ultimately show False using n in_ts by (auto simp: collision_between_def Let_def time_signature_def)
  qed
  then show ?thesis using f by blast
qed

text \<open>
  The separator matters: an envelope whose nonce holds an instant and a separator has the same signed text as one whose
  source took over the instant and whose nonce is the rest.
\<close>

lemma time_fields_ambiguous:
  fixes t :: time_envelope
  assumes "tv_nonce t = iso_text i @ ''|'' @ n"
  shows "signed_time E iso_text key t \<longleftrightarrow>
    signed_time E iso_text key (t\<lparr>tv_source := tv_source t @ ''|'' @ iso_text (tv_issued_at t), tv_issued_at := i, tv_nonce := n\<rparr>)"
  using assms by (simp add: signed_time_def time_signature_def time_text_def)

text \<open>The clock is read for the table only: an unused timestamp of any age is accepted.\<close>

lemma verify_time_ignores_clock: "fst (verify_time E iso_text now t v) = fst (verify_time E iso_text now' t v)"
  by (auto simp: verify_time_def split: sum.splits bool.splits)

subsection \<open>What an evaluation says\<close>

lemma rbind_Inr_obtain: "rbind m f = Inr r \<Longrightarrow> \<exists>x. m = Inr x \<and> f x = Inr r"
  by (simp add: rbind_Inr_iff)

lemma age_seconds_Inr:
  "age_seconds e c = Inr a \<Longrightarrow> \<exists>i j. e = AwareUTC i \<and> c = AwareUTC j \<and> - 5 \<le> (of_int (i - j) / 10 ^ 6 :: rat) \<and>
     a = max 0 (of_int (i - j) / 10 ^ 6)"
  by (cases e; cases c) (auto simp: age_seconds_def Let_def max_def split: if_splits)

lemma freshness_positive:
  assumes "freshness_score ttl age = Inr f" "0 \<le> age"
  shows "0 \<le> f \<and> f \<le> 1 \<and> (0 < f \<longleftrightarrow> age < of_int ttl)"
proof (cases "of_int ttl < age")
  case True
  then show ?thesis using assms by (auto simp: freshness_score_def)
next
  case False
  then have ttl: "(0 :: rat) < of_int ttl" and f: "f = max 0 (1 - age / of_int ttl)"
    using assms by (auto simp: freshness_score_def split: if_splits)
  have "0 \<le> age / of_int ttl" "age / of_int ttl \<le> 1" "age / of_int ttl < 1 \<longleftrightarrow> age < of_int ttl"
    using ttl assms(2) False by (simp_all add: divide_le_eq divide_less_eq)
  then show ?thesis by (auto simp: f)
qed

lemma expected_gain_nonneg: "0 \<le> fst (expected_information_gain lg node est b)"
  by (simp add: expected_information_gain_def Let_def)

lemma score_replay_Inr:
  assumes "score_replay lg production uniform eval_time tr p b g = Inr r"
  shows "\<exists>age belief. age_seconds eval_time (lt_created_at tr) = Inr age \<and>
    freshness_score (gw_ttl g) age = Inr (ev_freshness (ra_vector r)) \<and>
    resolve_intervention_node p tr = Inr (ra_target r) \<and>
    ev_determinism (ra_vector r) = estimate_determinism (ra_target r) (gw_determinism g) \<and>
    ev_impact (ra_vector r) = calculate_graph_impact (graph_nodes tr) (graph_edges tr) (ra_target r) \<and>
    equivalence_vector_of (ev_freshness (ra_vector r)) (ev_determinism (ra_vector r)) (ev_impact (ra_vector r)) = Inr (ra_vector r) \<and>
    belief_of production uniform (graph_nodes tr) b = Inr belief \<and>
    ra_admissibility r = fst (classify (ra_vector r)) \<and> ra_rejection_reason r = snd (classify (ra_vector r)) \<and>
    ra_raw_eig r = fst (expected_information_gain lg (ra_target r) heuristic_likelihood belief) \<and>
    ra_information_gain r = ev_determinism (ra_vector r) * ra_raw_eig r \<and>
    ra_risk r = (1 - ev_freshness (ra_vector r)) * ev_impact (ra_vector r)"
proof -
  obtain age where age: "age_seconds eval_time (lt_created_at tr) = Inr age"
    using assms by (auto simp: score_replay_def dest!: rbind_Inr_obtain)
  obtain f where f: "freshness_score (gw_ttl g) age = Inr f"
    using assms age by (auto simp: score_replay_def dest!: rbind_Inr_obtain)
  obtain node where node: "resolve_intervention_node p tr = Inr node"
    using assms age f by (auto simp: score_replay_def dest!: rbind_Inr_obtain)
  define d i where "d = estimate_determinism node (gw_determinism g)"
    and "i = calculate_graph_impact (graph_nodes tr) (graph_edges tr) node"
  obtain vec where vec: "equivalence_vector_of f d i = Inr vec"
    using assms age f node by (auto simp: score_replay_def Let_def d_def i_def dest!: rbind_Inr_obtain)
  then have v: "vec = \<lparr>ev_freshness = f, ev_determinism = d, ev_impact = i\<rparr>"
    by (auto simp: equivalence_vector_of_def split: if_splits)
  obtain belief where belief: "belief_of production uniform (graph_nodes tr) b = Inr belief"
    using assms age f node vec by (auto simp: score_replay_def Let_def d_def [symmetric] i_def [symmetric] dest!: rbind_Inr_obtain)
  have "r = \<lparr>ra_vector = vec, ra_admissibility = fst (classify vec),
      ra_information_gain = d * fst (expected_information_gain lg node heuristic_likelihood belief), ra_risk = (1 - f) * i,
      ra_rejection_reason = snd (classify vec), ra_prior_entropy = entropy lg belief,
      ra_posterior_entropy = snd (expected_information_gain lg node heuristic_likelihood belief),
      ra_raw_eig = fst (expected_information_gain lg node heuristic_likelihood belief), ra_target = node\<rparr>"
    using assms age f node vec belief
    by (simp add: score_replay_def Let_def d_def [symmetric] i_def [symmetric] case_prod_beta)
  then show ?thesis using age f node vec belief by (simp add: v d_def i_def)
qed

text \<open>The documented verdict on three scores.\<close>

definition composite :: "equivalence_vector \<Rightarrow> rat" where
  "composite v = (ev_freshness v + ev_determinism v + ev_impact v) / 3"

lemma classify_exact:
  "(fst (classify v) = ADMISSIBLE \<longleftrightarrow> ev_freshness v \<noteq> 0 \<and> 8/10 \<le> composite v) \<and>
   (fst (classify v) = LIMITED \<longleftrightarrow> ev_freshness v \<noteq> 0 \<and> 5/10 \<le> composite v \<and> composite v < 8/10) \<and>
   (snd (classify v) = None \<longleftrightarrow> fst (classify v) = ADMISSIBLE)"
  by (auto simp: classify_def composite_def Let_def)

lemma resolve_unique:
  assumes "resolve_intervention_node p tr = Inr n"
  shows "explicit_component p = Some n \<or> matching_spans (pp_swapped_component_type p) (lt_spans tr) = [n]"
proof (cases "truthy (explicit_component p)")
  case True
  then show ?thesis using assms by (cases "explicit_component p") (auto simp: resolve_intervention_node_def)
next
  case False
  then show ?thesis using assms by (auto simp: resolve_intervention_node_def split: if_splits list.splits)
qed

text \<open>
  An evaluation means what it says. Where the gateway returns one, all three scores lie between zero and one; the
  replay is admissible exactly when the trace is younger than the time to live at the evaluation time and the mean of the
  scores is at least 0.8, limited when it is between 0.5 and 0.8, with a reason exactly when it is not admissible; the
  target is the explicit component or the only span of the swapped type; the risk lies between zero and one and the information
  gain between zero and the raw estimate; and in production the evaluation time is a timestamp with a valid signature and
  an unused nonce, which is used from then on.
\<close>

theorem admissibility_exact:
  assumes "evaluate_admissibility E iso_text lg production now tr p b ts uniform g = (Inr r, g', ts')"
  shows "\<exists>i j. lt_created_at tr = AwareUTC j \<and> (case ts of Some t \<Rightarrow> tv_timestamp t = AwareUTC i | None \<Rightarrow> i = now) \<and>
    - 5 * 10 ^ 6 \<le> i - j \<and>
    (\<forall>x\<in>{ev_freshness (ra_vector r), ev_determinism (ra_vector r), ev_impact (ra_vector r), ra_risk r}. 0 \<le> x \<and> x \<le> 1) \<and>
    (ra_admissibility r = ADMISSIBLE \<longleftrightarrow> max 0 (i - j) < gw_ttl g * 10 ^ 6 \<and> 8/10 \<le> composite (ra_vector r)) \<and>
    (ra_admissibility r = LIMITED \<longleftrightarrow>
       max 0 (i - j) < gw_ttl g * 10 ^ 6 \<and> 5/10 \<le> composite (ra_vector r) \<and> composite (ra_vector r) < 8/10) \<and>
    (ra_rejection_reason r = None \<longleftrightarrow> ra_admissibility r = ADMISSIBLE) \<and>
    (explicit_component p = Some (ra_target r) \<or> matching_spans (pp_swapped_component_type p) (lt_spans tr) = [ra_target r]) \<and>
    0 \<le> ra_information_gain r \<and> ra_information_gain r \<le> ra_raw_eig r \<and>
    (production \<longrightarrow> (\<exists>t v v'. ts = Some t \<and> gw_verifier g = Some v \<and> gw_verifier g' = Some v' \<and>
       signed_time E iso_text (hv_secret_key v) t \<and> tv_nonce t \<notin> fst ` set (hv_seen_nonces v) \<and>
       tv_nonce t \<in> fst ` set (hv_seen_nonces v')))"
proof -
  obtain et where et: "evaluation_time E iso_text now ts g = (Inr et, g', ts')"
    "score_replay lg production uniform et tr p b g' = Inr r" and mode: "check_mode production g ts = Inr ()"
    using assms by (auto simp: evaluate_admissibility_def rbind_Inr_iff split: sum.splits prod.splits)
  have ttl: "gw_ttl g' = gw_ttl g"
    using et(1) by (auto simp: evaluation_time_def split: option.splits prod.splits)
  have time: "case ts of Some t \<Rightarrow> tv_timestamp t = et | None \<Rightarrow> et = AwareUTC now"
    using et(1) by (auto simp: evaluation_time_def dest!: verify_time_keeps split: option.splits prod.splits sum.splits if_splits)
  obtain age belief where s: "age_seconds et (lt_created_at tr) = Inr age"
      "freshness_score (gw_ttl g) age = Inr (ev_freshness (ra_vector r))"
      "resolve_intervention_node p tr = Inr (ra_target r)"
      "equivalence_vector_of (ev_freshness (ra_vector r)) (ev_determinism (ra_vector r)) (ev_impact (ra_vector r)) = Inr (ra_vector r)"
      "ra_admissibility r = fst (classify (ra_vector r))" "ra_rejection_reason r = snd (classify (ra_vector r))"
      "ra_raw_eig r = fst (expected_information_gain lg (ra_target r) heuristic_likelihood belief)"
      "ra_information_gain r = ev_determinism (ra_vector r) * ra_raw_eig r"
      "ra_risk r = (1 - ev_freshness (ra_vector r)) * ev_impact (ra_vector r)"
    using score_replay_Inr [OF et(2)] unfolding ttl by blast
  obtain i j where ij: "et = AwareUTC i" "lt_created_at tr = AwareUTC j" "- 5 \<le> (of_int (i - j) / 10 ^ 6 :: rat)"
    "age = max 0 (of_int (i - j) / 10 ^ 6)" using age_seconds_Inr [OF s(1)] by blast
  have skew: "- 5 * 10 ^ 6 \<le> i - j"
  proof -
    have "(of_int (- 5 * 10 ^ 6) :: rat) \<le> of_int (i - j)" using ij(3) by (simp add: field_simps)
    then show ?thesis by (simp only: of_int_le_iff)
  qed
  have young: "age < of_int (gw_ttl g) \<longleftrightarrow> max 0 (i - j) < gw_ttl g * 10 ^ 6"
  proof -
    have age: "age = of_int (max 0 (i - j)) / 10 ^ 6" by (simp add: ij(4) max_def)
    have "age < of_int (gw_ttl g) \<longleftrightarrow> (of_int (max 0 (i - j)) :: rat) < of_int (gw_ttl g * 10 ^ 6)"
      unfolding age by (simp add: divide_less_eq)
    then show ?thesis by (simp only: of_int_less_iff)
  qed
  have unit: "\<forall>x\<in>{ev_freshness (ra_vector r), ev_determinism (ra_vector r), ev_impact (ra_vector r)}. 0 \<le> x \<and> x \<le> 1"
    using s(4) by (auto simp: equivalence_vector_of_def split: if_splits)
  have risk: "0 \<le> ra_risk r \<and> ra_risk r \<le> 1" unfolding s(9) using unit by (auto intro: mult_nonneg_nonneg mult_le_one)
  have "0 \<le> age" by (simp add: ij(4))
  then have fresh: "ev_freshness (ra_vector r) \<noteq> 0 \<longleftrightarrow> max 0 (i - j) < gw_ttl g * 10 ^ 6"
    using freshness_positive [OF s(2)] young by auto
  have gain: "0 \<le> ra_information_gain r \<and> ra_information_gain r \<le> ra_raw_eig r"
    unfolding s(8) using unit expected_gain_nonneg [of lg "ra_target r" heuristic_likelihood belief]
    by (auto simp: s(7) mult_left_le_one_le)
  have prod: "production \<longrightarrow> (\<exists>t v v'. ts = Some t \<and> gw_verifier g = Some v \<and> gw_verifier g' = Some v' \<and>
       signed_time E iso_text (hv_secret_key v) t \<and> tv_nonce t \<notin> fst ` set (hv_seen_nonces v) \<and>
       tv_nonce t \<in> fst ` set (hv_seen_nonces v'))"
  proof
    assume production
    then obtain t v where tv: "ts = Some t" "gw_verifier g = Some v" using mode by (auto simp: check_mode_def split: if_splits)
    from evaluation_verified [OF assms [unfolded tv(1)] tv(2)] obtain v' where
      v': "verify_time E iso_text now t v = (Inr True, v', t\<lparr>tv_verified := True\<rparr>)" "gw_verifier g' = Some v'" by blast
    then show "\<exists>t v v'. ts = Some t \<and> gw_verifier g = Some v \<and> gw_verifier g' = Some v' \<and>
       signed_time E iso_text (hv_secret_key v) t \<and> tv_nonce t \<notin> fst ` set (hv_seen_nonces v) \<and>
       tv_nonce t \<in> fst ` set (hv_seen_nonces v')"
      using tv verify_time_signed [OF v'(1)] by (auto simp: verify_time_True)
  qed
  have now: "case ts of Some t \<Rightarrow> tv_timestamp t = AwareUTC i | None \<Rightarrow> i = now"
    using time ij(1) by (auto split: option.splits)
  have units: "\<forall>x\<in>{ev_freshness (ra_vector r), ev_determinism (ra_vector r), ev_impact (ra_vector r), ra_risk r}. 0 \<le> x \<and> x \<le> 1"
    using unit risk by blast
  note verdict = classify_exact [of "ra_vector r", folded s(5,6), unfolded fresh]
  show ?thesis
    using ij(2) now skew units verdict [THEN conjunct1] verdict [THEN conjunct2, THEN conjunct1] verdict [THEN conjunct2, THEN conjunct2]
      resolve_unique [OF s(3)] gain prod
    by (intro exI [of _ i] exI [of _ j] conjI) (assumption | erule conjunct1 conjunct2)+
qed

subsection \<open>A production call\<close>

definition time_env :: env where
  "time_env = \<lparr>sha256 = id, float_repr = (\<lambda>_. []), iso = (\<lambda>_. []), ed25519_verify = (\<lambda>_ _ _. EdVerified), ed25519_sign = (\<lambda>_ m. m),
     hmac_sha256 = (\<lambda>k m. k @ m), b64_encode = id, b64_decode = Some\<rparr>"

definition sample_time :: "string \<Rightarrow> time_envelope" where
  "sample_time n = \<lparr>tv_timestamp = AwareUTC 1000000, tv_source = ''ntp'', tv_issued_at = AwareUTC 0, tv_nonce = n,
     tv_signature = Some (''kT|ntp|T|'' @ n), tv_verified = False\<rparr>"

definition sample_gateway :: gateway where
  "sample_gateway = new_gateway 3600 (Some \<lparr>hv_secret_key = ''k'', hv_seen_nonces = []\<rparr>)"

definition sample_call :: "string \<Rightarrow> gateway_call" where
  "sample_call n = \<lparr>gc_production = True, gc_now = 7,
     gc_trace = \<lparr>lt_spans = [\<lparr>gs_span_id = Some ''a'', gs_parent_span_id = None, gs_component_type = Some ''retriever''\<rparr>],
       lt_created_at = AwareUTC 0\<rparr>,
     gc_replay = \<lparr>pp_target_component_id = None, pp_component_id = None, pp_swapped_component_type = Some ''retriever''\<rparr>,
     gc_beliefs = Some [(''a'', 1)], gc_time = Some (sample_time n), gc_uniform = False\<rparr>"

lemmas sample_gateway_defs = sample_call_def sample_time_def sample_gateway_def new_gateway_def time_env_def gateway_step_def
  evaluate_admissibility_def check_mode_def evaluation_time_def verify_time_def compare_digest_def time_signature_def time_text_def

lemma sample_impact: "calculate_graph_impact [''a''] [] ''a'' = 1"
  by (simp add: calculate_graph_impact_def fresh_targets_def)

lemma sample_step:
  "\<exists>r ts'. gateway_step time_env (\<lambda>_. ''T'') (\<lambda>_. 0) (sample_call ''1'') sample_gateway =
     (Inr r, sample_gateway\<lparr>gw_verifier := Some \<lparr>hv_secret_key = ''k'', hv_seen_nonces = [(''1'', 7)]\<rparr>\<rparr>, ts') \<and> ra_target r = ''a''"
  by (simp add: sample_gateway_defs utf8_def utf8_char_def score_replay_def age_seconds_def freshness_score_def graph_nodes_def graph_edges_def
      resolve_intervention_node_def explicit_component_def matching_spans_def map_filter_simps sample_impact
      equivalence_vector_of_def belief_of_def estimate_determinism_def new_determinism_def case_prod_beta)

lemma admitted_times_from: "t \<in> set (admitted_times E iso_text lg cs g) \<Longrightarrow> \<exists>c\<in>set cs. gc_time c = Some t"
  by (induction cs arbitrary: g) (auto split: prod.splits sum.splits option.splits)

theorem timestamp_admits_once_witness:
  "admitted_times time_env (\<lambda>_. ''T'') (\<lambda>_. 0) [sample_call ''1'', sample_call ''1''] sample_gateway = [sample_time ''1'']"
proof -
  let ?ts = "admitted_times time_env (\<lambda>_. ''T'') (\<lambda>_. 0) [sample_call ''1'', sample_call ''1''] sample_gateway"
  have one: "t = sample_time ''1''" if "t \<in> set ?ts" for t using admitted_times_from [OF that] by (auto simp: sample_call_def)
  have "\<exists>us. ?ts = sample_time ''1'' # us" using sample_step by (auto simp: sample_call_def split: prod.splits)
  then obtain us where us: "?ts = sample_time ''1'' # us" by blast
  have "gw_verifier sample_gateway = Some \<lparr>hv_secret_key = ''k'', hv_seen_nonces = []\<rparr>"
    by (simp add: sample_gateway_def new_gateway_def)
  moreover have "\<forall>t\<in>set ?ts. CHR ''|'' \<notin> set (tv_nonce t)" 
  proof
    fix t assume "t \<in> set ?ts"
    from one [OF this] show "CHR ''|'' \<notin> set (tv_nonce t)" by (simp add: sample_time_def)
  qed
  ultimately have d: "distinct (map tv_nonce ?ts)" using timestamp_admits_once [OF _ refl] by blast
  have "us = []"
  proof (cases us)
    case (Cons u rest)
    then have "u = sample_time ''1''" using one us by (metis list.set_intros)
    then show ?thesis using d unfolding us Cons by simp
  qed
  then show ?thesis using us by simp
qed

theorem admissibility_exact_witness:
  "\<exists>r g' ts'. gateway_step time_env (\<lambda>_. ''T'') (\<lambda>_. 0) (sample_call ''1'') sample_gateway = (Inr r, g', ts') \<and>
     ra_risk r \<le> 1 \<and> ra_information_gain r \<le> ra_raw_eig r"
proof -
  obtain r g' ts' where r: "gateway_step time_env (\<lambda>_. ''T'') (\<lambda>_. 0) (sample_call ''1'') sample_gateway = (Inr r, g', ts')"
    using sample_step by blast
  then show ?thesis using admissibility_exact [OF r [unfolded gateway_step_def]] by blast
qed

end
