(* ===== verification/Reliability.thy ===== *)
theory Reliability
  imports Prelude
begin

section \<open>The reliability vector of a trace\<close>

text \<open>
  \<open>packages/evaluation/src/reliability.py\<close>: five scores measured from the spans of a trace, their weighted sum, and
  the difference of two vectors. A vector is a dict; the function returns its five keys in a fixed order. Numbers are
  rational, so \<open>round(x, 4)\<close> is rounding half to even at four decimals.
\<close>

record span_measure =
  me_latency_ms :: "rat option"
  me_policy_result :: "string option"
  me_error_type :: "string option"
  me_token_count_input :: "int option"
  me_token_count_output :: "int option"

record reliability_config =
  rl_max_latency_ms :: rat
  rl_max_tokens_total :: int
  rl_latency_weight :: rat
  rl_policy_weight :: rat
  rl_error_weight :: rat
  rl_token_weight :: rat
  rl_faithfulness_weight :: rat

definition default_reliability :: reliability_config where
  "default_reliability = \<lparr>rl_max_latency_ms = 5000, rl_max_tokens_total = 4096, rl_latency_weight = 2/10,
     rl_policy_weight = 3/10, rl_error_weight = 3/10, rl_token_weight = 1/10, rl_faithfulness_weight = 1/10\<rparr>"

datatype weight_error = BadWeights rat

definition total_weights :: "reliability_config \<Rightarrow> rat" where
  "total_weights c = rl_latency_weight c + rl_policy_weight c + rl_error_weight c + rl_token_weight c + rl_faithfulness_weight c"

definition validate_config :: "reliability_config \<Rightarrow> (weight_error, unit) result" where
  "validate_config c = (if 1 / 10 ^ 6 < \<bar>total_weights c - 1\<bar> then Inl (BadWeights (total_weights c)) else Inr ())"

subsection \<open>Rounding\<close>

definition round_half_even :: "rat \<Rightarrow> int" where
  "round_half_even q =
     (let f = \<lfloor>q\<rfloor>; r = q - of_int f in
      if r < 1/2 then f else if 1/2 < r then f + 1 else if even f then f else f + 1)"

definition round4 :: "rat \<Rightarrow> rat" where
  "round4 q = of_int (round_half_even (q * 10 ^ 4)) / 10 ^ 4"

lemma round_half_even_near: "\<bar>of_int (round_half_even q) - q\<bar> \<le> 1/2"
  by (auto simp: round_half_even_def Let_def abs_if) linarith+

lemma round_half_even_int [simp]: "round_half_even (of_int i) = i"
  by (simp add: round_half_even_def)

text \<open>A value between two integers is rounded to a value between them.\<close>

lemma round_half_even_between:
  assumes "of_int a \<le> q" "q \<le> of_int b"
  shows "a \<le> round_half_even q \<and> round_half_even q \<le> b"
proof
  have f: "a \<le> \<lfloor>q\<rfloor>" using assms(1) by (simp add: le_floor_iff)
  then show "a \<le> round_half_even q" by (auto simp: round_half_even_def Let_def)
  show "round_half_even q \<le> b"
  proof (cases "q = of_int b")
    case False
    then have "\<lfloor>q\<rfloor> < b" using assms(2) by (simp add: floor_less_iff)
    then show ?thesis by (auto simp: round_half_even_def Let_def)
  qed simp
qed

lemma round4_unit:
  assumes "0 \<le> q" "q \<le> 1"
  shows "0 \<le> round4 q" "round4 q \<le> 1"
proof -
  have r: "0 \<le> round_half_even (q * 10 ^ 4) \<and> round_half_even (q * 10 ^ 4) \<le> 10 ^ 4"
    by (rule round_half_even_between) (use assms in \<open>simp_all\<close>)
  then show "0 \<le> round4 q" by (simp add: round4_def)
  have "(of_int (round_half_even (q * 10 ^ 4)) :: rat) \<le> of_int (10 ^ 4)" using r by (simp only: of_int_le_iff)
  then show "round4 q \<le> 1" by (simp add: round4_def)
qed

lemma round4_near: "\<bar>round4 q - q\<bar> \<le> 1 / (2 * 10 ^ 4)"
proof -
  have "round4 q - q = (of_int (round_half_even (q * 10 ^ 4)) - q * 10 ^ 4) / 10 ^ 4" by (simp add: round4_def diff_divide_distrib)
  then have "\<bar>round4 q - q\<bar> = \<bar>of_int (round_half_even (q * 10 ^ 4)) - q * 10 ^ 4\<bar> / 10 ^ 4" by (simp only: abs_divide) simp
  also have "\<dots> \<le> (1/2) / 10 ^ 4" by (intro divide_right_mono round_half_even_near) simp
  finally show ?thesis by simp
qed

lemma round4_0_1 [simp]: "round4 0 = 0" "round4 1 = 1"
  using round_half_even_int [of 0] round_half_even_int [of 10000] by (simp_all add: round4_def)

subsection \<open>The scores\<close>

type_synonym reliability_vector = "(string \<times> rat) list"

definition mean :: "rat list \<Rightarrow> rat" where
  "mean xs = sum_list xs / of_nat (length xs)"

definition latency_score :: "reliability_config \<Rightarrow> rat \<Rightarrow> rat" where
  "latency_score c l = min (min 1 (rl_max_latency_ms c / max l 1)) 1"

definition latency_ok :: "reliability_config \<Rightarrow> 'z span_measure_scheme list \<Rightarrow> rat" where
  "latency_ok c spans =
     (let scores = map (latency_score c) (List.map_filter me_latency_ms spans) in if scores = [] then 1 else mean scores)"

definition policy_pass :: "'z span_measure_scheme list \<Rightarrow> rat" where
  "policy_pass spans =
     (let results = List.map_filter me_policy_result spans
      in if results = [] then 1 else of_nat (length (filter (\<lambda>r. r = ''allow'') results)) / of_nat (length results))"

definition error_free :: "'z span_measure_scheme list \<Rightarrow> rat" where
  "error_free spans =
     (let errors = List.map_filter me_error_type spans
      in if errors = [] then 1 else max 0 (1 - of_nat (length errors) / of_nat (length spans)))"

definition total_tokens :: "'z span_measure_scheme list \<Rightarrow> int" where
  "total_tokens spans = sum_list (map (\<lambda>s. (case me_token_count_input s of Some n \<Rightarrow> n | None \<Rightarrow> 0) +
     (case me_token_count_output s of Some n \<Rightarrow> n | None \<Rightarrow> 0)) spans)"

definition token_budget :: "reliability_config \<Rightarrow> 'z span_measure_scheme list \<Rightarrow> rat" where
  "token_budget c spans =
     (if 0 < total_tokens spans then min 1 (of_int (rl_max_tokens_total c) / of_int (max (total_tokens spans) 1)) else 1)"

definition compute_reliability_vector :: "reliability_config \<Rightarrow> rat option \<Rightarrow> 'z span_measure_scheme list \<Rightarrow> reliability_vector" where
  "compute_reliability_vector c faithfulness_score spans =
     [(''latency_ok'', round4 (latency_ok c spans)), (''policy_pass'', round4 (policy_pass spans)),
      (''error_free'', round4 (error_free spans)), (''token_budget'', round4 (token_budget c spans)),
      (''faithfulness'', round4 (case faithfulness_score of Some f \<Rightarrow> f | None \<Rightarrow> 1))]"

definition vector_get :: "reliability_vector \<Rightarrow> string \<Rightarrow> rat" where
  "vector_get v k = (case map_of v k of Some x \<Rightarrow> x | None \<Rightarrow> 0)"

definition weights_of :: "reliability_config \<Rightarrow> reliability_vector" where
  "weights_of c = [(''latency_ok'', rl_latency_weight c), (''policy_pass'', rl_policy_weight c),
     (''error_free'', rl_error_weight c), (''token_budget'', rl_token_weight c), (''faithfulness'', rl_faithfulness_weight c)]"

definition weighted_sum :: "reliability_config \<Rightarrow> reliability_vector \<Rightarrow> rat" where
  "weighted_sum c v = sum_list (map (\<lambda>(k, w). vector_get v k * w) (weights_of c))"

definition aggregate_reliability_score :: "reliability_config \<Rightarrow> reliability_vector \<Rightarrow> rat" where
  "aggregate_reliability_score c v = round4 (min (max (weighted_sum c v) 0) 1)"

definition compute_reliability_delta :: "reliability_vector \<Rightarrow> reliability_vector \<Rightarrow> reliability_vector" where
  "compute_reliability_delta before after =
     map (\<lambda>k. (k, round4 (vector_get after k - vector_get before k)))
       (sort (remdups (map fst before @ map fst after)))"

subsection \<open>Scores lie between zero and one\<close>

lemma mean_unit:
  assumes "xs \<noteq> []" "\<forall>x\<in>set xs. 0 \<le> x \<and> x \<le> 1"
  shows "0 \<le> mean xs \<and> mean xs \<le> 1"
proof -
  have "0 \<le> sum_list xs" using assms(2) by (auto intro: sum_list_nonneg)
  moreover have "sum_list xs \<le> of_nat (length xs)" using assms(2) by (induction xs) auto
  ultimately show ?thesis using assms(1) by (auto simp: mean_def divide_le_eq)
qed

lemma length_map_filter_le: "length (List.map_filter f xs) \<le> length xs"
  by (induction xs) (auto simp: map_filter_simps split: option.splits)

lemma share_unit: "n \<le> m \<Longrightarrow> 0 \<le> (of_nat n / of_nat m :: rat) \<and> (of_nat n / of_nat m :: rat) \<le> 1"
  by (cases "m = 0") (auto simp: divide_le_eq)

lemma scores_unit:
  assumes "0 \<le> rl_max_latency_ms c" "0 \<le> rl_max_tokens_total c"
  shows "0 \<le> latency_ok c spans \<and> latency_ok c spans \<le> 1" "0 \<le> policy_pass spans \<and> policy_pass spans \<le> 1"
    "0 \<le> error_free spans \<and> error_free spans \<le> 1" "0 \<le> token_budget c spans \<and> token_budget c spans \<le> 1"
proof -
  have "0 \<le> latency_score c l \<and> latency_score c l \<le> 1" for l
    using assms(1) by (auto simp: latency_score_def zero_le_divide_iff)
  then show "0 \<le> latency_ok c spans \<and> latency_ok c spans \<le> 1"
    unfolding latency_ok_def Let_def by (auto intro!: mean_unit [THEN conjunct1] mean_unit [THEN conjunct2])
  show "0 \<le> policy_pass spans \<and> policy_pass spans \<le> 1"
    unfolding policy_pass_def Let_def using share_unit [OF length_filter_le] by auto
  show "0 \<le> error_free spans \<and> error_free spans \<le> 1"
    unfolding error_free_def Let_def using share_unit [OF length_map_filter_le, of me_error_type spans] by auto
  show "0 \<le> token_budget c spans \<and> token_budget c spans \<le> 1"
    unfolding token_budget_def using assms(2) by (auto simp: zero_le_divide_iff)
qed

lemma error_free_perfect: "error_free spans = 1 \<longleftrightarrow> (\<forall>s\<in>set spans. me_error_type s = None)"
proof -
  have e: "List.map_filter me_error_type spans = [] \<longleftrightarrow> (\<forall>s\<in>set spans. me_error_type s = None)"
    by (induction spans) (auto simp: map_filter_simps split: option.splits)
  have "spans \<noteq> []" if "List.map_filter me_error_type spans \<noteq> []" using that by (auto simp: map_filter_simps)
  then show ?thesis by (auto simp: error_free_def Let_def e max_def)
qed

text \<open>
  The reliability scores are scores. With non-negative limits every entry of a vector lies between zero and one whenever
  the faithfulness does, and the four measured entries do in any case; the total lies between zero and one for every
  vector and every weights; before rounding, the errors count fully only when no span has one; rounding
  changes no entry and no total by more than half of the fourth decimal.
\<close>

theorem reliability_bounds:
  assumes "0 \<le> rl_max_latency_ms c" "0 \<le> rl_max_tokens_total c"
  shows "(\<forall>(k, x)\<in>set (compute_reliability_vector c f spans). k \<noteq> ''faithfulness'' \<or> (\<exists>q. f = Some q \<and> 0 \<le> q \<and> q \<le> 1) \<longrightarrow> 0 \<le> x \<and> x \<le> 1) \<and>
    0 \<le> aggregate_reliability_score c' v \<and> aggregate_reliability_score c' v \<le> 1 \<and>
    (error_free spans = 1 \<longleftrightarrow> (\<forall>s\<in>set spans. me_error_type s = None)) \<and>
    \<bar>aggregate_reliability_score c' v - min (max (weighted_sum c' v) 0) 1\<bar> \<le> 1 / (2 * 10 ^ 4)"
  using scores_unit [OF assms, of spans] round4_near [of "min (max (weighted_sum c' v) 0) 1"]
  by (auto simp: compute_reliability_vector_def aggregate_reliability_score_def error_free_perfect round4_unit)

text \<open>A vector whose entries are all one has the total weight as its score; with the default weights that is one.\<close>

lemma perfect_score: "aggregate_reliability_score default_reliability (compute_reliability_vector default_reliability None ([] :: span_measure list)) = 1"
  by (simp add: aggregate_reliability_score_def weighted_sum_def weights_of_def compute_reliability_vector_def vector_get_def
      default_reliability_def latency_ok_def policy_pass_def error_free_def token_budget_def total_tokens_def map_filter_simps)

text \<open>
  Two comments of the source say otherwise: a span slower than the limit still scores the ratio of the two, and a single
  error among several spans leaves a positive score.
\<close>

lemma slow_span_scores: "latency_score default_reliability 10000 = 1/2"
  by (simp add: latency_score_def default_reliability_def)

theorem reliability_bounds_witness:
  "aggregate_reliability_score default_reliability [(''latency_ok'', 7)] \<le> 1 \<and> error_free ([] :: span_measure list) = 1"
  using reliability_bounds [of default_reliability None "[] :: span_measure list" default_reliability "[(''latency_ok'', 7)]"]
  by (simp add: default_reliability_def)

end
