(* ===== verification/Replay_Engine.thy ===== *)
theory Replay_Engine
  imports Reliability Divergence_Validator Admission_Receipt
begin

section \<open>The replay engine\<close>

text \<open>
  \<open>packages/replay/src/engine.py\<close>, the manifest of \<open>packages/contracts/src/models.py\<close> and the span builder of
  \<open>packages/trace_sdk/src/tracer.py\<close>: a run is executed again with one component version swapped and all others
  pinned to those of the original trace. Identifiers and versions are texts, component types their values. Payloads are
  JSON objects in insertion order. A component runs in a child process that sends its output in frames; what
  the parent observes of the child is a parameter, as are the clock readings and the identifiers of spans. The
  messages of errors are not modelled. \<open>json.loads\<close> and the reading of floats are the fields of \<^typ>\<open>pytext\<close>.
\<close>

type_synonym payload = "(string \<times> json) list"

definition payload_get :: "payload \<Rightarrow> string \<Rightarrow> json \<Rightarrow> json" where
  "payload_get p k dflt = (case map_of p k of Some v \<Rightarrow> v | None \<Rightarrow> dflt)"

subsection \<open>The version registry\<close>

record component_version =
  cv_id :: string
  cv_component_type :: string
  cv_version_tag :: string

type_synonym registry = "(string \<times> component_version) list"

definition register :: "component_version \<Rightarrow> registry \<Rightarrow> registry" where
  "register cv reg = dict_put (cv_id cv) cv reg"

definition registry_get :: "registry \<Rightarrow> string \<Rightarrow> component_version option" where
  "registry_get reg i = map_of reg i"

definition get_by_type_and_tag :: "registry \<Rightarrow> string \<Rightarrow> string \<Rightarrow> component_version option" where
  "get_by_type_and_tag reg ty tag = List.find (\<lambda>cv. cv_component_type cv = ty \<and> cv_version_tag cv = tag) (map snd reg)"

definition list_by_type :: "registry \<Rightarrow> string \<Rightarrow> component_version list" where
  "list_by_type reg ty = filter (\<lambda>cv. cv_component_type cv = ty) (map snd reg)"

subsection \<open>The state manifest\<close>

record replay_manifest =
  mf_id :: string
  mf_run_id :: string
  mf_tenant_id :: string
  mf_original_query :: "string option"
  mf_original_query_hash :: "string option"
  mf_corpus_version_id :: "string option"
  mf_model_provider :: "string option"
  mf_model_identifier :: "string option"
  mf_model_config_hash :: "string option"
  mf_prompt_template_hash :: "string option"
  mf_retriever_version :: "string option"
  mf_retriever_settings :: payload
  mf_retrieved_chunk_ids :: "string list"
  mf_embedding_provider :: "string option"
  mf_embedding_model_id :: "string option"
  mf_embedding_model_version :: "string option"
  mf_embedding_vector_dimension :: "int option"
  mf_embedding_config_hash :: "string option"
  mf_vector_index_snapshot_id :: "string option"
  mf_tool_schemas_hash :: "string option"
  mf_policy_config_hash :: "string option"
  mf_memory_snapshot_id :: "string option"
  mf_random_seed :: "int option"
  mf_generation_parameters :: payload
  mf_container_image_digest :: "string option"
  mf_dependency_lockfile_hash :: "string option"
  mf_trace_root_hash :: "string option"
  mf_manifest_hash :: string

text \<open>\<open>exclude_none\<close>: a field without a value is left out of the document.\<close>

definition text_member :: "string \<Rightarrow> string option \<Rightarrow> payload" where
  "text_member k v = (case v of None \<Rightarrow> [] | Some s \<Rightarrow> [(k, JStr s)])"

definition int_member :: "string \<Rightarrow> int option \<Rightarrow> payload" where
  "int_member k v = (case v of None \<Rightarrow> [] | Some i \<Rightarrow> [(k, JInt i)])"

definition manifest_document :: "replay_manifest \<Rightarrow> json" where
  "manifest_document m = JObj (concat
     [text_member ''original_query'' (mf_original_query m),
      text_member ''original_query_hash'' (mf_original_query_hash m),
      text_member ''corpus_version_id'' (mf_corpus_version_id m),
      text_member ''model_provider'' (mf_model_provider m),
      text_member ''model_identifier'' (mf_model_identifier m),
      text_member ''model_config_hash'' (mf_model_config_hash m),
      text_member ''prompt_template_hash'' (mf_prompt_template_hash m),
      text_member ''retriever_version'' (mf_retriever_version m),
      [(''retriever_settings'', JObj (mf_retriever_settings m))],
      [(''retrieved_chunk_ids'', JList (map JStr (mf_retrieved_chunk_ids m)))],
      text_member ''embedding_provider'' (mf_embedding_provider m),
      text_member ''embedding_model_id'' (mf_embedding_model_id m),
      text_member ''embedding_model_version'' (mf_embedding_model_version m),
      int_member ''embedding_vector_dimension'' (mf_embedding_vector_dimension m),
      text_member ''embedding_config_hash'' (mf_embedding_config_hash m),
      text_member ''vector_index_snapshot_id'' (mf_vector_index_snapshot_id m),
      text_member ''tool_schemas_hash'' (mf_tool_schemas_hash m),
      text_member ''policy_config_hash'' (mf_policy_config_hash m),
      text_member ''memory_snapshot_id'' (mf_memory_snapshot_id m),
      int_member ''random_seed'' (mf_random_seed m),
      [(''generation_parameters'', JObj (mf_generation_parameters m))],
      text_member ''container_image_digest'' (mf_container_image_digest m),
      text_member ''dependency_lockfile_hash'' (mf_dependency_lockfile_hash m),
      text_member ''trace_root_hash'' (mf_trace_root_hash m)])"

definition manifest_hash :: "env \<Rightarrow> replay_manifest \<Rightarrow> string" where
  "manifest_hash E m = sha256 E (canonical_bytes E (manifest_document m))"

text \<open>The validator of the model: no version may be called latest, and a missing hash is filled in.\<close>

fun contains_text :: "string \<Rightarrow> string \<Rightarrow> bool" where
  "contains_text x [] = (x = [])"
| "contains_text x (c # cs) = (take (length x) (c # cs) = x \<or> contains_text x cs)"

definition validate_manifest :: "env \<Rightarrow> replay_manifest \<Rightarrow> (string, replay_manifest) result" where
  "validate_manifest E m =
     (case List.find (\<lambda>v. truthy v \<and> contains_text ''latest'' (py_lower (the v)))
         [mf_model_identifier m, mf_retriever_version m, mf_embedding_model_version m, mf_vector_index_snapshot_id m] of
        Some v \<Rightarrow> Inl (the v)
      | None \<Rightarrow> Inr (if mf_manifest_hash m = [] then m\<lparr>mf_manifest_hash := manifest_hash E m\<rparr> else m))"

definition is_fully_pinned :: "replay_manifest \<Rightarrow> bool" where
  "is_fully_pinned m \<longleftrightarrow>
     list_all truthy [mf_original_query m, mf_original_query_hash m, mf_corpus_version_id m, mf_model_provider m,
       mf_model_identifier m, mf_model_config_hash m, mf_prompt_template_hash m, mf_retriever_version m,
       mf_embedding_provider m, mf_embedding_model_id m, mf_embedding_model_version m, mf_embedding_config_hash m,
       mf_vector_index_snapshot_id m, mf_tool_schemas_hash m, mf_policy_config_hash m, mf_memory_snapshot_id m,
       mf_container_image_digest m, mf_dependency_lockfile_hash m, mf_trace_root_hash m] \<and>
     mf_retriever_settings m \<noteq> [] \<and> mf_retrieved_chunk_ids m \<noteq> [] \<and>
     mf_embedding_vector_dimension m \<noteq> None \<and> mf_random_seed m \<noteq> None"

subsection \<open>The checks before a replay\<close>

record run_info =
  ri_id :: string
  ri_tenant_id :: string
  ri_pipeline_id :: string
  ri_request_hash :: "string option"
  ri_evidence_class :: evidence

record original_span =
  og_run_id :: string
  og_tenant_id :: string
  og_pipeline_id :: string
  og_component_type :: "string option"
  og_version_id :: "string option"
  og_version_tag :: "string option"

record original_trace =
  ot_run_id :: string
  ot_tenant_id :: string
  ot_pipeline_id :: string
  ot_spans :: "original_span list"
  ot_evidence_class :: evidence

record intervention =
  iv_target_component :: string
  iv_current_version :: "string option"
  iv_candidate_version :: "string option"

datatype replay_refusal =
    ManifestAbsent | NotPinned | ForeignManifest | ManifestTampered | SeedDiffers | NoCurrentVersion
  | ForeignTrace | WrongReplacement | ForeignSpan | OriginalVersionDiffers | VersionUnavailable
  | VersionSpanMismatch | ConflictingVersions | NoExecutor string string | PinnedVersionMissing
  | ChildPipeClosed | BadFaithfulness | InvalidSpan

definition check_replay ::
    "env \<Rightarrow> int \<Rightarrow> replay_manifest option \<Rightarrow> run_info \<Rightarrow> original_trace \<Rightarrow> intervention \<Rightarrow> component_version \<Rightarrow>
       (replay_refusal, replay_manifest) result" where
  "check_replay E seed manifest run tr iv rv =
     (case manifest of
        None \<Rightarrow> Inl ManifestAbsent
      | Some m \<Rightarrow>
          if \<not> is_fully_pinned m then Inl NotPinned
          else if mf_run_id m \<noteq> ri_id run \<or> mf_tenant_id m \<noteq> ri_tenant_id run then Inl ForeignManifest
          else if mf_manifest_hash m \<noteq> manifest_hash E m then Inl ManifestTampered
          else if mf_random_seed m \<noteq> Some seed then Inl SeedDiffers
          else if \<not> truthy (iv_current_version iv) then Inl NoCurrentVersion
          else if ot_run_id tr \<noteq> ri_id run \<or> ot_tenant_id tr \<noteq> ri_tenant_id run \<or> ot_pipeline_id tr \<noteq> ri_pipeline_id run
          then Inl ForeignTrace
          else if cv_component_type rv \<noteq> iv_target_component iv \<or> Some (cv_version_tag rv) \<noteq> iv_candidate_version iv
          then Inl WrongReplacement
          else Inr m)"

type_synonym resolved = "(string \<times> component_version) list"

definition resolve_span :: "registry \<Rightarrow> run_info \<Rightarrow> intervention \<Rightarrow> original_span \<Rightarrow> resolved \<Rightarrow> (replay_refusal, resolved) result" where
  "resolve_span reg run iv s res =
     (if og_run_id s \<noteq> ri_id run \<or> og_tenant_id s \<noteq> ri_tenant_id run \<or> og_pipeline_id s \<noteq> ri_pipeline_id run then Inl ForeignSpan
      else if og_component_type s = Some (iv_target_component iv)
      then if truthy (og_version_tag s) \<and> og_version_tag s \<noteq> iv_current_version iv then Inl OriginalVersionDiffers else Inr res
      else if \<not> truthy (og_component_type s) then Inr res
      else case (case og_version_id s of None \<Rightarrow> None | Some i \<Rightarrow> registry_get reg i) of
        None \<Rightarrow> Inl VersionUnavailable
      | Some cv \<Rightarrow>
          if Some (cv_component_type cv) \<noteq> og_component_type s \<or>
             truthy (og_version_tag s) \<and> Some (cv_version_tag cv) \<noteq> og_version_tag s
          then Inl VersionSpanMismatch
          else case map_of res (the (og_component_type s)) of
            Some previous \<Rightarrow>
              if cv_id previous \<noteq> cv_id cv then Inl ConflictingVersions else Inr (dict_put (the (og_component_type s)) cv res)
          | None \<Rightarrow> Inr (dict_put (the (og_component_type s)) cv res))"

fun resolve_versions :: "registry \<Rightarrow> run_info \<Rightarrow> intervention \<Rightarrow> original_span list \<Rightarrow> resolved \<Rightarrow> (replay_refusal, resolved) result" where
  "resolve_versions reg run iv [] res = Inr res"
| "resolve_versions reg run iv (s # ss) res = rbind (resolve_span reg run iv s res) (resolve_versions reg run iv ss)"

definition pinned_versions :: "intervention \<Rightarrow> original_span list \<Rightarrow> (string \<times> string) list" where
  "pinned_versions iv spans =
     fold (\<lambda>s p. if truthy (og_component_type s) \<and> og_version_id s \<noteq> None \<and> og_component_type s \<noteq> Some (iv_target_component iv)
       then dict_put (the (og_component_type s)) (the (og_version_id s)) p else p) spans []"

definition fallback_order :: "string list" where
  "fallback_order = [''memory_read'', ''retriever'', ''reranker'', ''generator'', ''tool_call'', ''policy_check'',
     ''memory_write'', ''final_response'']"

text \<open>The component types of the trace in the order of their first span.\<close>

definition trace_order :: "original_span list \<Rightarrow> string list" where
  "trace_order spans =
     fold (\<lambda>s os. if truthy (og_component_type s) \<and> the (og_component_type s) \<notin> set os then os @ [the (og_component_type s)] else os) spans []"

definition pipeline_order :: "original_span list \<Rightarrow> string list" where
  "pipeline_order spans = (if trace_order spans = [] then fallback_order else trace_order spans)"

subsection \<open>The component executors\<close>

datatype executor =
    MockRetrieverV1 | MockRetrieverV2Experimental | MockRerankerV1 | MockGeneratorV1 | MockMemoryReadV1
  | MockMemoryWriteV1 | MockToolCallV1 | MockPolicyCheckV1 | MockFinalResponseV1

text \<open>Every executor of the map derives from the mock base class.\<close>

definition executor_is_synthetic :: "executor \<Rightarrow> bool" where
  "executor_is_synthetic x = True"

definition executor_map :: "((string \<times> string) \<times> executor) list" where
  "executor_map =
     [((''retriever'', ''v1''), MockRetrieverV1), ((''retriever'', ''v2-exp''), MockRetrieverV2Experimental),
      ((''reranker'', ''v1''), MockRerankerV1), ((''generator'', ''v1''), MockGeneratorV1),
      ((''memory_read'', ''v1''), MockMemoryReadV1), ((''memory_write'', ''v1''), MockMemoryWriteV1),
      ((''tool_call'', ''v1''), MockToolCallV1), ((''policy_check'', ''v1''), MockPolicyCheckV1),
      ((''final_response'', ''v1''), MockFinalResponseV1)]"

definition get_executor :: "string \<Rightarrow> string \<Rightarrow> (replay_refusal, executor) result" where
  "get_executor ty tag = (case map_of executor_map (ty, tag) of None \<Rightarrow> Inl (NoExecutor ty tag) | Some x \<Rightarrow> Inr x)"

text \<open>
  What fails in the child: out of memory, or any other exception, with the flag whether its report fits the last frame.
  The documents an executor receives come from another executor; a document without a numeric score or a text is
  taken as a failure of the child.
\<close>

datatype child_error = OutOfMemory | Failed bool

definition mock_document :: "string \<Rightarrow> string \<Rightarrow> rat \<Rightarrow> json" where
  "mock_document i t q = JObj [(''id'', JStr i), (''text'', JStr t), (''score'', JFloat q)]"

definition doc_score :: "json \<Rightarrow> rat option" where
  "doc_score d = (case d of JObj p \<Rightarrow> (case payload_get p ''score'' (JInt 0) of
     JInt i \<Rightarrow> Some (of_int i) | JFloat q \<Rightarrow> Some q | JBool b \<Rightarrow> Some (if b then 1 else 0) | _ \<Rightarrow> None) | _ \<Rightarrow> None)"

definition doc_text :: "json \<Rightarrow> string option" where
  "doc_text d = (case d of JObj p \<Rightarrow> (case payload_get p ''text'' (JStr []) of JStr t \<Rightarrow> Some t | _ \<Rightarrow> None) | _ \<Rightarrow> None)"

fun any_stale :: "json list \<Rightarrow> bool option" where
  "any_stale [] = Some False"
| "any_stale (d # ds) = (case doc_text d of None \<Rightarrow> None | Some t \<Rightarrow> if contains_text ''STALE'' t then Some True else any_stale ds)"

definition run_reranker :: "payload \<Rightarrow> string \<Rightarrow> (child_error, payload) result" where
  "run_reranker inputs tag =
     (case payload_get inputs ''documents'' (JList []) of
        JList docs \<Rightarrow>
          if list_all (\<lambda>d. doc_score d \<noteq> None) docs
          then Inr [(''ranked_documents'', JList (sort_key (\<lambda>d. - the (doc_score d)) docs)), (''reranker_version'', JStr tag)]
          else Inl (Failed True)
      | _ \<Rightarrow> Inl (Failed True))"

definition run_generator :: "payload \<Rightarrow> string \<Rightarrow> (child_error, payload) result" where
  "run_generator inputs tag =
     (case payload_get inputs ''ranked_documents'' (JList []) of
        JList docs \<Rightarrow>
          (case (all_some (map doc_text (take 2 docs)), any_stale docs) of
             (Some texts, Some is_stale) \<Rightarrow>
               Inr [(''response'', JStr (''Based on retrieved context: '' @ take 200 (py_join '' | '' texts))),
                    (''is_stale_context'', JBool is_stale), (''faithfulness_score'', JFloat (if is_stale then 35/100 else 90/100)),
                    (''token_count_input'', JInt 128), (''token_count_output'', JInt 64), (''generator_version'', JStr tag)]
           | _ \<Rightarrow> Inl (Failed True))
      | _ \<Rightarrow> Inl (Failed True))"

text \<open>The memory a reading component sees is a parameter: the entries, or an exception of the store.\<close>

fun execute_component ::
    "(rat \<Rightarrow> string) \<Rightarrow> (payload \<Rightarrow> (child_error, json list) result) \<Rightarrow> executor \<Rightarrow> payload \<Rightarrow> string \<Rightarrow> (child_error, payload) result" where
  "execute_component fr memory MockRetrieverV1 inputs tag =
     (let query = py_str fr (payload_get inputs ''query'' (JStr [])) in
      Inr [(''documents'', JList [mock_document ''doc-001'' (''[FRESH] Accurate document for: '' @ query) (92/100),
                                  mock_document ''doc-002'' (''[FRESH] Supporting document for: '' @ query) (87/100)]),
           (''retriever_version'', JStr tag), (''is_stale'', JBool False), (''faithfulness_hint'', JFloat (90/100))])"
| "execute_component fr memory MockRetrieverV2Experimental inputs tag =
     (let query = py_str fr (payload_get inputs ''query'' (JStr [])) in
      Inr [(''documents'', JList [mock_document ''doc-old-001'' (''[STALE-2021] Outdated document for: '' @ query) (61/100),
                                  mock_document ''doc-old-002'' (''[STALE-2020] Deprecated content for: '' @ query) (55/100)]),
           (''retriever_version'', JStr tag), (''is_stale'', JBool True), (''faithfulness_hint'', JFloat (35/100))])"
| "execute_component fr memory MockRerankerV1 inputs tag = run_reranker inputs tag"
| "execute_component fr memory MockGeneratorV1 inputs tag = run_generator inputs tag"
| "execute_component fr memory MockMemoryReadV1 inputs tag =
     rbind (memory inputs) (\<lambda>entries. Inr [(''memory_entries'', JList entries), (''memory_read_version'', JStr tag)])"
| "execute_component fr memory MockMemoryWriteV1 inputs tag =
     Inr [(''written'', JBool False), (''reason'', JStr ''memory_write disabled in prototype''), (''memory_write_version'', JStr tag)]"
| "execute_component fr memory MockToolCallV1 inputs tag =
     Inr [(''tool_result'', JNull), (''tool_called'', JBool False), (''tool_call_version'', JStr tag)]"
| "execute_component fr memory MockPolicyCheckV1 inputs tag =
     Inr [(''policy_result'', JStr ''allow''), (''policy_rule'', JStr ''ALLOW_SYNTHETIC_READ''), (''policy_check_version'', JStr tag)]"
| "execute_component fr memory MockFinalResponseV1 inputs tag =
     Inr [(''final_response'', payload_get inputs ''response'' (JStr [])),
          (''faithfulness_score'', payload_get inputs ''faithfulness_score'' (JFloat (1/2))), (''final_response_version'', JStr tag)]"

subsection \<open>Execution in a child process\<close>

text \<open>
  The child sends the pieces of the encoded output in blocks of at most 64 KiB, then an end frame; past the limit, or on an
  exception, a failure frame. The parent sees frames, polls without a frame, the end of the process, a child above
  the memory limit, or a closed pipe; the end of the list of observations is the deadline.
\<close>

datatype frame = Data string | End | Failure "bool option" | Junk

datatype observation = Frame frame | Idle | Exited | OverMemory | PipeClosed

datatype iso_error = IsoTimeout | IsoMemory | IsoRuntime | IsoDecode | IsoType | IsoOs | IsoPipeClosed

fun iso_error_name :: "iso_error \<Rightarrow> string" where
  "iso_error_name IsoTimeout = ''TimeoutError''"
| "iso_error_name IsoMemory = ''MemoryError''"
| "iso_error_name IsoRuntime = ''RuntimeError''"
| "iso_error_name IsoDecode = ''JSONDecodeError''"
| "iso_error_name IsoType = ''TypeError''"
| "iso_error_name IsoOs = ''OSError''"
| "iso_error_name IsoPipeClosed = ''EOFError''"

definition block_size :: nat where "block_size = 64 * 1024"

function blocks :: "string \<Rightarrow> string list" where
  "blocks s = (if s = [] then [] else take block_size s # blocks (drop block_size s))"
  by pat_completeness auto
termination by (relation "measure length") (auto simp: block_size_def)

declare blocks.simps [simp del]

fun emit :: "nat \<Rightarrow> nat \<Rightarrow> string list \<Rightarrow> frame list" where
  "emit limit emitted [] = [End]"
| "emit limit emitted (b # bs) =
     (if limit < emitted + length b then [Failure (Some True)] else Data b # emit limit (emitted + length b) bs)"

text \<open>How the encoder cuts the text into pieces is a parameter.\<close>

definition child_frames :: "env \<Rightarrow> (string \<Rightarrow> string list) \<Rightarrow> nat \<Rightarrow> (child_error, payload) result \<Rightarrow> frame list" where
  "child_frames E pieces limit r =
     (case r of
        Inl OutOfMemory \<Rightarrow> [Failure (Some True)]
      | Inl (Failed fits) \<Rightarrow> [Failure (if fits then Some False else None)]
      | Inr out \<Rightarrow> emit limit 0 (concat (map blocks (pieces (canonical_bytes E (JObj out))))))"

fun parent_receive :: "pytext \<Rightarrow> nat \<Rightarrow> observation list \<Rightarrow> string \<Rightarrow> (iso_error, payload) result" where
  "parent_receive P limit [] received = Inl IsoTimeout"
| "parent_receive P limit (Idle # obs) received = parent_receive P limit obs received"
| "parent_receive P limit (Exited # obs) received = Inl IsoRuntime"
| "parent_receive P limit (OverMemory # obs) received = Inl IsoMemory"
| "parent_receive P limit (PipeClosed # obs) received = Inl IsoPipeClosed"
| "parent_receive P limit (Frame (Data b) # obs) received =
     (if block_size + 4097 < Suc (length b) then Inl IsoOs
      else if limit < length received + length b then Inl IsoMemory
      else parent_receive P limit obs (received @ b))"
| "parent_receive P limit (Frame End # obs) received =
     (case json_loads P received of None \<Rightarrow> Inl IsoDecode | Some (JObj out) \<Rightarrow> Inr out | Some _ \<Rightarrow> Inl IsoType)"
| "parent_receive P limit (Frame (Failure r) # obs) received =
     Inl (case r of Some True \<Rightarrow> IsoMemory | Some False \<Rightarrow> IsoRuntime | None \<Rightarrow> IsoDecode)"
| "parent_receive P limit (Frame Junk # obs) received = Inl IsoRuntime"

definition max_output_bytes :: nat where "max_output_bytes = 5000000"

subsection \<open>The replay\<close>

text \<open>\<open>hash_payload\<close>: objects and lists as sorted JSON, texts as they are, anything else as its \<open>str\<close>.\<close>

definition hash_payload :: "env \<Rightarrow> json \<Rightarrow> string" where
  "hash_payload E v =
     (case v of
        JObj _ \<Rightarrow> sha256 E (utf8 (dumps default_style (float_repr E) v))
      | JList _ \<Rightarrow> sha256 E (utf8 (dumps default_style (float_repr E) v))
      | JStr s \<Rightarrow> sha256 E (utf8 s)
      | _ \<Rightarrow> sha256 E (utf8 (py_str (float_repr E) v)))"

record replay_span = span_measure +
  rp_span_id :: string
  rp_parent_span_id :: "string option"
  rp_name :: string
  rp_component_type :: "string option"
  rp_version_id :: "string option"
  rp_version_tag :: "string option"
  rp_input_hash :: "string option"
  rp_output_hash :: "string option"
  rp_start_time :: int
  rp_end_time :: int

record replay_world =
  wd_observe :: "nat \<Rightarrow> executor \<Rightarrow> payload \<Rightarrow> component_version \<Rightarrow> int \<Rightarrow> observation list"
  wd_start :: "nat \<Rightarrow> int"
  wd_end :: "nat \<Rightarrow> int"
  wd_span_id :: "nat \<Rightarrow> string"
  wd_root_id :: string
  wd_root_start :: int
  wd_root_end :: int
  wd_replay_id :: string

record loop_state =
  ls_inputs :: payload
  ls_spans :: "replay_span list"
  ls_faithfulness :: rat
  ls_synthetic :: bool

text \<open>The strict model of a span takes integers or nothing as token counts, and a text or nothing as policy result.\<close>

definition int_or_none :: "json \<Rightarrow> (replay_refusal, int option) result" where
  "int_or_none v = (case v of JInt i \<Rightarrow> Inr (Some i) | JNull \<Rightarrow> Inr None | _ \<Rightarrow> Inl InvalidSpan)"

definition text_or_none :: "json \<Rightarrow> (replay_refusal, string option) result" where
  "text_or_none v = (case v of JStr s \<Rightarrow> Inr (Some s) | JNull \<Rightarrow> Inr None | _ \<Rightarrow> Inl InvalidSpan)"

definition build_span ::
    "env \<Rightarrow> pytext \<Rightarrow> string \<Rightarrow> component_version \<Rightarrow> string option \<Rightarrow> payload \<Rightarrow> payload \<Rightarrow> string \<Rightarrow> string \<Rightarrow> int \<Rightarrow> int \<Rightarrow> rat \<Rightarrow>
       (replay_refusal, replay_span \<times> rat) result" where
  "build_span E P ct cv error_type inputs output sid root_id start finish faithfulness =
     rbind (if ct = ''generator''
            then case py_float P (payload_get output ''faithfulness_score'' (JFloat 1)) of None \<Rightarrow> Inl BadFaithfulness | Some q \<Rightarrow> Inr q
            else Inr faithfulness) (\<lambda>f.
     rbind (if ct = ''generator'' then int_or_none (payload_get output ''token_count_input'' (JInt 0)) else Inr None) (\<lambda>tin.
     rbind (if ct = ''generator'' then int_or_none (payload_get output ''token_count_output'' (JInt 0)) else Inr None) (\<lambda>tout.
     rbind (if ct = ''policy_check'' then text_or_none (payload_get output ''policy_result'' (JStr ''allow'')) else Inr None) (\<lambda>pol.
       if finish < start then Inl InvalidSpan
       else Inr (\<lparr>me_latency_ms = Some (of_int (finish - start) / 1000), me_policy_result = pol, me_error_type = error_type,
                  me_token_count_input = tin, me_token_count_output = tout, rp_span_id = sid, rp_parent_span_id = Some root_id,
                  rp_name = ct @ ''/'' @ cv_version_tag cv, rp_component_type = Some ct, rp_version_id = Some (cv_id cv),
                  rp_version_tag = Some (cv_version_tag cv), rp_input_hash = Some (hash_payload E (JObj inputs)),
                  rp_output_hash = Some (hash_payload E (JObj output)), rp_start_time = start, rp_end_time = finish\<rparr>, f)))))"

text \<open>Which version of a component runs; nothing where the trace has no version of it.\<close>

definition version_for ::
    "intervention \<Rightarrow> component_version \<Rightarrow> original_span list \<Rightarrow> resolved \<Rightarrow> string \<Rightarrow> (replay_refusal, component_version option) result" where
  "version_for iv rv spans res ct =
     (if ct = iv_target_component iv then Inr (Some rv)
      else case List.find (\<lambda>s. og_component_type s = Some ct) spans of
        None \<Rightarrow> Inr None
      | Some s \<Rightarrow>
          if og_version_id s = None then Inr None
          else (case map_of res ct of None \<Rightarrow> Inl PinnedVersionMissing | Some cv \<Rightarrow> Inr (Some cv)))"

definition merge_payload :: "payload \<Rightarrow> payload \<Rightarrow> payload" where
  "merge_payload p q = fold (\<lambda>(k, v). dict_put k v) q p"

definition run_component ::
    "env \<Rightarrow> pytext \<Rightarrow> replay_world \<Rightarrow> int \<Rightarrow> nat \<Rightarrow> string \<Rightarrow> component_version \<Rightarrow> loop_state \<Rightarrow> (replay_refusal, loop_state) result" where
  "run_component E P w seed k ct cv st =
     rbind (get_executor ct (cv_version_tag cv)) (\<lambda>x.
       let r = parent_receive P max_output_bytes (wd_observe w k x (ls_inputs st) cv seed) [];
           output = (case r of Inr out \<Rightarrow> out | Inl _ \<Rightarrow> []);
           error_type = (case r of Inr _ \<Rightarrow> None | Inl e \<Rightarrow> Some (iso_error_name e))
       in if r = Inl IsoPipeClosed then Inl ChildPipeClosed
          else rbind (build_span E P ct cv error_type (ls_inputs st) output (wd_span_id w k) (wd_root_id w)
                        (wd_start w k) (wd_end w k) (ls_faithfulness st)) (\<lambda>(s, f).
            Inr \<lparr>ls_inputs = merge_payload (ls_inputs st) output, ls_spans = ls_spans st @ [s], ls_faithfulness = f,
                 ls_synthetic = (ls_synthetic st \<or> executor_is_synthetic x)\<rparr>))"

fun run_pipeline ::
    "env \<Rightarrow> pytext \<Rightarrow> replay_world \<Rightarrow> int \<Rightarrow> intervention \<Rightarrow> component_version \<Rightarrow> original_span list \<Rightarrow> resolved \<Rightarrow> nat \<Rightarrow>
       string list \<Rightarrow> loop_state \<Rightarrow> (replay_refusal, loop_state) result" where
  "run_pipeline E P w seed iv rv spans res k [] st = Inr st"
| "run_pipeline E P w seed iv rv spans res k (ct # cts) st =
     rbind (version_for iv rv spans res ct) (\<lambda>v.
       case v of
         None \<Rightarrow> run_pipeline E P w seed iv rv spans res k cts st
       | Some cv \<Rightarrow> rbind (run_component E P w seed k ct cv st) (run_pipeline E P w seed iv rv spans res (Suc k) cts))"

definition initial_inputs :: "replay_manifest \<Rightarrow> run_info \<Rightarrow> int \<Rightarrow> payload" where
  "initial_inputs m run seed =
     [(''query'', case mf_original_query m of Some q \<Rightarrow> JStr q | None \<Rightarrow> JNull), (''seed'', JInt seed),
      (''tenant_id'', JStr (ri_tenant_id run)), (''partition_id'', JStr (ri_tenant_id run @ ''_'' @ ri_id run))]"

definition root_span :: "replay_world \<Rightarrow> replay_span" where
  "root_span w = \<lparr>me_latency_ms = Some (of_int (wd_root_end w - wd_root_start w) / 1000), me_policy_result = None,
     me_error_type = None, me_token_count_input = None, me_token_count_output = None, rp_span_id = wd_root_id w,
     rp_parent_span_id = None, rp_name = ''replay_pipeline'', rp_component_type = None, rp_version_id = None,
     rp_version_tag = None, rp_input_hash = None, rp_output_hash = None, rp_start_time = wd_root_start w, rp_end_time = wd_root_end w\<rparr>"

definition replay_evidence :: "evidence \<Rightarrow> evidence \<Rightarrow> bool \<Rightarrow> evidence" where
  "replay_evidence run_class trace_class synthetic_executor =
     (if is_synthetic run_class \<or> is_synthetic trace_class \<or> synthetic_executor then SYNTHETIC_SIMULATION
      else if run_class = UNVERIFIED \<or> trace_class = UNVERIFIED then UNVERIFIED
      else REAL_CONTROLLED_EXPERIMENT)"

record replay_trace =
  rt_run_id :: string
  rt_tenant_id :: string
  rt_pipeline_id :: string
  rt_spans :: "replay_span list"
  rt_root_span_id :: string
  rt_evidence_class :: evidence

record replay_episode =
  er_replay_id :: string
  er_run_id :: string
  er_tenant_id :: string
  er_swapped_component_type :: string
  er_original_version_id :: "string option"
  er_replay_version_id :: string
  er_original_version_tag :: "string option"
  er_replay_version_tag :: "string option"
  er_pinned_version_ids :: "(string \<times> string) list"
  er_original_reliability :: reliability_vector
  er_replay_reliability :: reliability_vector
  er_reliability_delta :: reliability_vector
  er_original_score :: rat
  er_replay_score :: rat
  er_improvement :: rat
  er_original_request_hash :: "string option"
  er_replay_response_hash :: string
  er_seed :: int
  er_evidence_class :: evidence
  er_manifest_id :: string

definition record_episode ::
    "env \<Rightarrow> replay_world \<Rightarrow> int \<Rightarrow> replay_manifest \<Rightarrow> run_info \<Rightarrow> original_trace \<Rightarrow> intervention \<Rightarrow> component_version \<Rightarrow>
       reliability_vector \<Rightarrow> loop_state \<Rightarrow> replay_episode \<times> replay_trace" where
  "record_episode E w seed m run tr iv rv original_vector st =
     (let ev = replay_evidence (ri_evidence_class run) (ot_evidence_class tr) (ls_synthetic st);
          spans = root_span w # ls_spans st;
          replay_vector = compute_reliability_vector default_reliability (Some (ls_faithfulness st)) spans;
          original_score = aggregate_reliability_score default_reliability original_vector;
          replay_score = aggregate_reliability_score default_reliability replay_vector
      in (\<lparr>er_replay_id = wd_replay_id w, er_run_id = ri_id run, er_tenant_id = ri_tenant_id run,
           er_swapped_component_type = cv_component_type rv,
           er_original_version_id = (case List.find (\<lambda>s. og_component_type s = Some (iv_target_component iv)) (ot_spans tr) of
              Some s \<Rightarrow> og_version_id s | None \<Rightarrow> None),
           er_replay_version_id = cv_id rv, er_original_version_tag = iv_current_version iv,
           er_replay_version_tag = iv_candidate_version iv, er_pinned_version_ids = pinned_versions iv (ot_spans tr),
           er_original_reliability = original_vector, er_replay_reliability = replay_vector,
           er_reliability_delta = compute_reliability_delta original_vector replay_vector,
           er_original_score = original_score, er_replay_score = replay_score,
           er_improvement = round4 (replay_score - original_score),
           er_original_request_hash = ri_request_hash run,
           er_replay_response_hash = hash_payload E (payload_get (ls_inputs st) ''final_response'' (JStr [])),
           er_seed = seed, er_evidence_class = ev, er_manifest_id = mf_id m\<rparr>,
          \<lparr>rt_run_id = wd_replay_id w, rt_tenant_id = ri_tenant_id run, rt_pipeline_id = ri_pipeline_id run,
           rt_spans = spans, rt_root_span_id = wd_root_id w, rt_evidence_class = ev\<rparr>))"

definition execute_replay ::
    "env \<Rightarrow> pytext \<Rightarrow> replay_world \<Rightarrow> registry \<Rightarrow> int \<Rightarrow> replay_manifest option \<Rightarrow> run_info \<Rightarrow> original_trace \<Rightarrow> intervention \<Rightarrow>
       component_version \<Rightarrow> reliability_vector \<Rightarrow> (replay_refusal, replay_episode \<times> replay_trace) result" where
  "execute_replay E P w reg seed manifest run tr iv rv original_vector =
     rbind (check_replay E seed manifest run tr iv rv) (\<lambda>m.
     rbind (resolve_versions reg run iv (ot_spans tr) []) (\<lambda>res.
     rbind (run_pipeline E P w seed iv rv (ot_spans tr) res 0 (pipeline_order (ot_spans tr))
              \<lparr>ls_inputs = initial_inputs m run seed, ls_spans = [], ls_faithfulness = 1, ls_synthetic = False\<rparr>) (\<lambda>st.
       if wd_root_end w < wd_root_start w then Inl InvalidSpan
       else Inr (record_episode E w seed m run tr iv rv original_vector st))))"

subsection \<open>The output that comes back\<close>

lemma concat_blocks [simp]: "concat (blocks s) = s"
proof (induction s rule: blocks.induct)
  case (1 s)
  then show ?case by (subst blocks.simps) simp
qed

lemma concat_all_blocks: "concat (concat (map blocks ps)) = concat ps"
  by (induction ps) simp_all

lemma blocks_small: "b \<in> set (blocks s) \<Longrightarrow> length b \<le> block_size"
proof (induction s rule: blocks.induct)
  case (1 s)
  then show ?case by (subst (asm) blocks.simps) (auto split: if_splits)
qed

lemma parent_ignores_idle:
  "parent_receive P limit obs received = parent_receive P limit (filter (\<lambda>x. x \<noteq> Idle) obs) received"
  by (induction P limit obs received rule: parent_receive.induct) auto

definition decode_output :: "pytext \<Rightarrow> string \<Rightarrow> (iso_error, payload) result" where
  "decode_output P t = (case json_loads P t of None \<Rightarrow> Inl IsoDecode | Some (JObj out) \<Rightarrow> Inr out | Some _ \<Rightarrow> Inl IsoType)"

lemma parent_receives_emitted:
  assumes "\<forall>b\<in>set bs. length b \<le> block_size"
  shows "parent_receive P limit (map Frame (emit limit (length received) bs)) received =
    (if length received + length (concat bs) \<le> limit \<or> bs = [] then decode_output P (received @ concat bs) else Inl IsoMemory)"
  using assms
proof (induction bs arbitrary: received)
  case (Cons b bs)
  show ?case
  proof (cases "limit < length received + length b")
    case False
    have "parent_receive P limit (map Frame (emit limit (length received) (b # bs))) received =
        parent_receive P limit (map Frame (emit limit (length (received @ b)) bs)) (received @ b)"
      using False Cons.prems by (auto simp: block_size_def)
    also have "\<dots> = (if length (received @ b) + length (concat bs) \<le> limit \<or> bs = [] then decode_output P ((received @ b) @ concat bs)
        else Inl IsoMemory)" using Cons.prems by (intro Cons.IH) auto
    finally show ?thesis using False by auto
  qed auto
qed (simp add: decode_output_def)

lemma object_text_nonempty: "canonical_bytes E (JObj out) \<noteq> []"
proof -
  have "print_json st fr (JObj kvs) \<noteq> []" for st fr kvs by (cases "(st, fr, JObj kvs)" rule: print_json.cases) auto
  then show ?thesis by (simp add: canonical_bytes_def dumps_def utf8_def utf8_char_nonempty)
qed

lemma parent_received_bounded:
  "parent_receive P limit obs received = Inr out \<Longrightarrow> length received \<le> limit \<Longrightarrow>
     \<exists>t. length (received @ t) \<le> limit \<and> json_loads P (received @ t) = Some (JObj out)"
proof (induction P limit obs received rule: parent_receive.induct)
  case (6 P limit b obs received)
  from "6.prems" have "\<exists>t. length ((received @ b) @ t) \<le> limit \<and> json_loads P ((received @ b) @ t) = Some (JObj out)"
    by (intro "6.IH") (auto split: if_splits)
  then show ?case by (metis append.assoc)
next
  case (7 P limit obs received)
  then show ?case by (intro exI [of _ "[]"]) (auto split: option.splits json.splits)
qed auto

text \<open>
  C38. A child process cannot make the engine accept anything but a complete, bounded output. Whatever the parent observes, an
  output it returns is the decoding of at most the allowed number of bytes. And a child that
  is not disturbed, however its frames are interleaved with empty polls and however the encoder cuts the text, delivers
  exactly its output when the text fits the limit, and a memory error when it does not.
\<close>

theorem isolated_output_exact:
  assumes "concat (pieces (canonical_bytes E (JObj out))) = canonical_bytes E (JObj out)"
    and "filter (\<lambda>x. x \<noteq> Idle) obs = map Frame (child_frames E pieces limit (Inr out))"
  shows "parent_receive P limit obs [] =
      (if length (canonical_bytes E (JObj out)) \<le> limit then decode_output P (canonical_bytes E (JObj out)) else Inl IsoMemory) \<and>
    (\<forall>obs' out'. parent_receive P limit obs' [] = Inr out' \<longrightarrow> (\<exists>t. length t \<le> limit \<and> json_loads P t = Some (JObj out')))"
proof
  let ?bs = "concat (map blocks (pieces (canonical_bytes E (JObj out))))"
  have c: "concat ?bs = canonical_bytes E (JObj out)"
    using assms(1) by (simp add: concat_all_blocks)
  then have ne: "?bs \<noteq> []" using object_text_nonempty by (metis concat.simps(1))
  show "parent_receive P limit obs [] =
      (if length (canonical_bytes E (JObj out)) \<le> limit then decode_output P (canonical_bytes E (JObj out)) else Inl IsoMemory)"
    using parent_receives_emitted [of ?bs P limit "[]"] blocks_small assms(2) c ne
    by (subst parent_ignores_idle) (auto simp: child_frames_def)
  show "\<forall>obs' out'. parent_receive P limit obs' [] = Inr out' \<longrightarrow> (\<exists>t. length t \<le> limit \<and> json_loads P t = Some (JObj out'))"
    using parent_received_bounded [of P limit _ "[]"] by fastforce
qed

subsection \<open>One component is swapped, all others are pinned\<close>

definition registry_ok :: "registry \<Rightarrow> bool" where
  "registry_ok reg \<longleftrightarrow> (\<forall>i cv. map_of reg i = Some cv \<longrightarrow> cv_id cv = i)"

lemma registry_ok_register: "registry_ok reg \<Longrightarrow> registry_ok (register cv reg)"
  by (auto simp: registry_ok_def register_def)

lemma registry_ok_fold: "registry_ok reg \<Longrightarrow> registry_ok (fold register cvs reg)"
  by (induction cvs arbitrary: reg) (auto intro: registry_ok_register)

lemma registry_ok_built: "registry_ok (fold register cvs [])"
  by (rule registry_ok_fold) (simp add: registry_ok_def)

text \<open>What the resolution has established for the spans it went through.\<close>

definition span_pinned :: "registry \<Rightarrow> run_info \<Rightarrow> intervention \<Rightarrow> resolved \<Rightarrow> original_span \<Rightarrow> bool" where
  "span_pinned reg run iv res s \<longleftrightarrow>
     og_run_id s = ri_id run \<and> og_tenant_id s = ri_tenant_id run \<and> og_pipeline_id s = ri_pipeline_id run \<and>
     (case og_component_type s of
        None \<Rightarrow> True
      | Some ct \<Rightarrow>
          if ct = iv_target_component iv then \<not> truthy (og_version_tag s) \<or> og_version_tag s = iv_current_version iv
          else ct = [] \<or> (\<exists>cv. map_of res ct = Some cv \<and> registry_get reg (cv_id cv) = Some cv \<and> og_version_id s = Some (cv_id cv) \<and>
                cv_component_type cv = ct \<and> (truthy (og_version_tag s) \<longrightarrow> og_version_tag s = Some (cv_version_tag cv))))"

lemma resolve_span_pins:
  assumes reg: "registry_ok reg" and r: "resolve_span reg run iv s res = Inr res'"
  shows "span_pinned reg run iv res' s \<and> (\<forall>s'. span_pinned reg run iv res s' \<longrightarrow> span_pinned reg run iv res' s')"
proof (cases "og_component_type s = Some (iv_target_component iv) \<or> \<not> truthy (og_component_type s)")
  case True
  then have "res' = res" "span_pinned reg run iv res s"
    using r by (auto simp: resolve_span_def span_pinned_def split: if_splits option.splits)
  then show ?thesis by simp
next
  case False
  then obtain ct where ct: "og_component_type s = Some ct" "ct \<noteq> []" "ct \<noteq> iv_target_component iv"
    by (cases "og_component_type s") auto
  obtain i cv where cv: "og_version_id s = Some i" "registry_get reg i = Some cv" "cv_component_type cv = ct"
    "truthy (og_version_tag s) \<longrightarrow> og_version_tag s = Some (cv_version_tag cv)"
    using r ct by (auto simp: resolve_span_def split: if_splits option.splits)
  have i: "i = cv_id cv" using reg cv(2) by (auto simp: registry_ok_def registry_get_def)
  have res': "res' = dict_put ct cv res" and prev: "map_of res ct = Some p \<Longrightarrow> cv_id p = cv_id cv" for p
    using r ct cv by (auto simp: resolve_span_def split: if_splits option.splits)
  have "span_pinned reg run iv res' s"
    using r ct cv i by (auto simp: span_pinned_def res' resolve_span_def split: if_splits)
  moreover have "span_pinned reg run iv res' s'" if pin: "span_pinned reg run iv res s'" for s'
  proof (cases "og_component_type s' = Some ct")
    case True
    then obtain p where p: "map_of res ct = Some p" "registry_get reg (cv_id p) = Some p" "og_version_id s' = Some (cv_id p)"
      "truthy (og_version_tag s') \<longrightarrow> og_version_tag s' = Some (cv_version_tag p)"
      using pin ct by (auto simp: span_pinned_def)
    with prev cv(2) i have "p = cv" by (metis option.inject)
    then show ?thesis using pin True p ct cv i by (auto simp: span_pinned_def res')
  next
    case False
    then show ?thesis using pin by (auto simp: span_pinned_def res' split: option.splits)
  qed
  ultimately show ?thesis by blast
qed

lemma resolve_versions_pins:
  assumes "registry_ok reg" "resolve_versions reg run iv ss res = Inr res'"
  shows "(\<forall>s\<in>set ss. span_pinned reg run iv res' s) \<and> (\<forall>s'. span_pinned reg run iv res s' \<longrightarrow> span_pinned reg run iv res' s')"
  using assms(2)
proof (induction ss arbitrary: res)
  case (Cons s ss)
  then obtain res1 where 1: "resolve_span reg run iv s res = Inr res1" "resolve_versions reg run iv ss res1 = Inr res'"
    by (auto simp: rbind_Inr_iff)
  with resolve_span_pins [OF assms(1) 1(1)] Cons.IH [OF 1(2)] show ?case by auto
qed simp

text \<open>The version a component of the pipeline runs with.\<close>

lemma version_for_pinned:
  assumes pins: "\<forall>s\<in>set spans. span_pinned reg run iv res s" and "ct \<noteq> []" "version_for iv rv spans res ct = Inr (Some cv)"
  shows "if ct = iv_target_component iv then cv = rv
    else (\<exists>s\<in>set spans. og_component_type s = Some ct) \<and>
         (\<forall>s\<in>set spans. og_component_type s = Some ct \<longrightarrow> og_version_id s = Some (cv_id cv)) \<and> registry_get reg (cv_id cv) = Some cv"
proof (cases "ct = iv_target_component iv")
  case False
  then obtain s where s: "List.find (\<lambda>s. og_component_type s = Some ct) spans = Some s" "map_of res ct = Some cv"
    using assms(3) by (auto simp: version_for_def split: if_splits option.splits)
  then have "s \<in> set spans" "og_component_type s = Some ct" by (auto simp: find_Some_iff)
  moreover have "og_version_id s' = Some (cv_id cv) \<and> registry_get reg (cv_id cv) = Some cv"
    if "s' \<in> set spans" "og_component_type s' = Some ct" for s'
    using bspec [OF pins that(1)] that(2) False assms(2) s(2) by (auto simp: span_pinned_def)
  ultimately show ?thesis using False by auto
qed (use assms(3) in \<open>simp add: version_for_def\<close>)

lemma build_span_fields:
  assumes "build_span E P ct cv err ins out sid rid st fi f0 = Inr (s, f)"
  shows "rp_component_type s = Some ct \<and> rp_version_id s = Some (cv_id cv) \<and> rp_version_tag s = Some (cv_version_tag cv) \<and>
    rp_parent_span_id s = Some rid \<and> me_error_type s = err"
  using assms by (auto simp: build_span_def rbind_Inr_iff split: if_splits)

lemma run_component_span:
  assumes "run_component E P w seed k ct cv st = Inr st'"
  shows "\<exists>s. ls_spans st' = ls_spans st @ [s] \<and> rp_component_type s = Some ct \<and> rp_version_id s = Some (cv_id cv) \<and>
    rp_version_tag s = Some (cv_version_tag cv) \<and> ls_synthetic st'"
proof -
  obtain x where x: "get_executor ct (cv_version_tag cv) = Inr x" using assms by (auto simp: run_component_def rbind_Inr_iff)
  define r where "r = parent_receive P max_output_bytes (wd_observe w k x (ls_inputs st) cv seed) []"
  obtain s f where b: "build_span E P ct cv (case r of Inr _ \<Rightarrow> None | Inl e \<Rightarrow> Some (iso_error_name e)) (ls_inputs st)
      (case r of Inr out \<Rightarrow> out | Inl _ \<Rightarrow> []) (wd_span_id w k) (wd_root_id w) (wd_start w k) (wd_end w k) (ls_faithfulness st) = Inr (s, f)"
    and st': "ls_spans st' = ls_spans st @ [s]" "ls_synthetic st'"
    using assms x by (auto simp: run_component_def r_def [symmetric] Let_def executor_is_synthetic_def rbind_Inr_iff split: if_splits)
  from build_span_fields [OF b] st' show ?thesis by auto
qed

definition runs_with :: "intervention \<Rightarrow> component_version \<Rightarrow> original_span list \<Rightarrow> resolved \<Rightarrow> replay_span \<Rightarrow> bool" where
  "runs_with iv rv spans res s \<longleftrightarrow> (\<exists>ct cv. rp_component_type s = Some ct \<and> version_for iv rv spans res ct = Inr (Some cv) \<and>
     rp_version_id s = Some (cv_id cv) \<and> rp_version_tag s = Some (cv_version_tag cv))"

lemma run_pipeline_spans:
  assumes "run_pipeline E P w seed iv rv spans res k cts st = Inr st'"
  shows "\<exists>new. ls_spans st' = ls_spans st @ new \<and> (\<forall>s\<in>set new. runs_with iv rv spans res s) \<and>
    map rp_component_type new = map Some (filter (\<lambda>ct. \<exists>cv. version_for iv rv spans res ct = Inr (Some cv)) cts) \<and>
    (ls_synthetic st' \<longleftrightarrow> ls_synthetic st \<or> new \<noteq> [])"
  using assms
proof (induction cts arbitrary: k st)
  case (Cons ct cts)
  obtain v where v: "version_for iv rv spans res ct = Inr v" using Cons.prems by (auto simp: rbind_Inr_iff)
  show ?case
  proof (cases v)
    case None
    then show ?thesis using Cons.IH [of k st] Cons.prems v by auto
  next
    case (Some cv)
    then obtain st1 where 1: "run_component E P w seed k ct cv st = Inr st1"
      "run_pipeline E P w seed iv rv spans res (Suc k) cts st1 = Inr st'"
      using Cons.prems v by (auto simp: rbind_Inr_iff)
    obtain s where s: "ls_spans st1 = ls_spans st @ [s]" "rp_component_type s = Some ct" "rp_version_id s = Some (cv_id cv)"
      "rp_version_tag s = Some (cv_version_tag cv)" "ls_synthetic st1"
      using run_component_span [OF 1(1)] by blast
    obtain new where new: "ls_spans st' = ls_spans st1 @ new" "\<forall>s\<in>set new. runs_with iv rv spans res s"
      "map rp_component_type new = map Some (filter (\<lambda>ct. \<exists>cv. version_for iv rv spans res ct = Inr (Some cv)) cts)"
      "ls_synthetic st' \<longleftrightarrow> ls_synthetic st1 \<or> new \<noteq> []"
      using Cons.IH [OF 1(2)] by blast
    have "runs_with iv rv spans res s" using s v Some by (auto simp: runs_with_def)
    then show ?thesis using s new v Some by (intro exI [of _ "s # new"]) auto
  qed
qed simp

lemma registered_fold: "map_of (fold register cvs reg) i = Some cv \<Longrightarrow> cv \<in> set cvs \<or> map_of reg i = Some cv"
proof (induction cvs arbitrary: reg)
  case (Cons c cvs)
  from Cons.IH [of "register c reg"] Cons.prems have "cv \<in> set cvs \<or> map_of (register c reg) i = Some cv" by simp
  then show ?case by (auto simp: register_def split: if_splits)
qed simp

lemma registered_from: "map_of (fold register cvs []) i = Some cv \<Longrightarrow> cv \<in> set cvs"
  using registered_fold [of cvs "[]"] by auto

lemma trace_order_fold:
  "distinct os \<Longrightarrow> distinct (fold (\<lambda>s os. if truthy (og_component_type s) \<and> the (og_component_type s) \<notin> set os
       then os @ [the (og_component_type s)] else os) spans os) \<and>
     set (fold (\<lambda>s os. if truthy (og_component_type s) \<and> the (og_component_type s) \<notin> set os
       then os @ [the (og_component_type s)] else os) spans os) =
     set os \<union> {ct. ct \<noteq> [] \<and> (\<exists>s\<in>set spans. og_component_type s = Some ct)}"
proof (induction spans arbitrary: os)
  case (Cons s spans)
  show ?case
  proof (cases "truthy (og_component_type s) \<and> the (og_component_type s) \<notin> set os")
    case True
    then obtain ct where ct: "og_component_type s = Some ct" "ct \<noteq> []" "ct \<notin> set os" by (cases "og_component_type s") auto
    then show ?thesis using Cons.IH [of "os @ [ct]"] Cons.prems by auto
  next
    case False
    then have "ct \<in> set os" if "og_component_type s = Some ct" "ct \<noteq> []" for ct using that by auto
    then show ?thesis using False Cons.IH [of os] Cons.prems by auto
  qed
qed auto

lemma trace_order_types:
  "distinct (trace_order spans)" "set (trace_order spans) = {ct. ct \<noteq> [] \<and> (\<exists>s\<in>set spans. og_component_type s = Some ct)}"
  using trace_order_fold [of "[]" spans] by (simp_all add: trace_order_def)

lemma pipeline_order_types:
  "distinct (pipeline_order spans)" "[] \<notin> set (pipeline_order spans)"
  "ct \<noteq> [] \<Longrightarrow> s \<in> set spans \<Longrightarrow> og_component_type s = Some ct \<Longrightarrow> ct \<in> set (pipeline_order spans)"
proof -
  have f: "distinct fallback_order" "[] \<notin> set fallback_order" by (simp_all add: fallback_order_def)
  show "distinct (pipeline_order spans)" using f(1) trace_order_types(1) by (simp add: pipeline_order_def)
  show "[] \<notin> set (pipeline_order spans)" using f(2) trace_order_types(2) by (simp add: pipeline_order_def)
  show "ct \<in> set (pipeline_order spans)" if "ct \<noteq> []" "s \<in> set spans" "og_component_type s = Some ct"
  proof -
    have ct: "ct \<in> set (trace_order spans)" unfolding trace_order_types(2) using that by blast
    then have "trace_order spans \<noteq> []" by auto
    with ct show ?thesis by (simp add: pipeline_order_def)
  qed
qed

text \<open>A replay that returned, in terms of its parts.\<close>

lemma execute_replay_Inr:
  assumes "execute_replay E P w reg seed manifest run tr iv rv v = Inr (ep, t)"
  shows "\<exists>m res st. check_replay E seed manifest run tr iv rv = Inr m \<and> resolve_versions reg run iv (ot_spans tr) [] = Inr res \<and>
    run_pipeline E P w seed iv rv (ot_spans tr) res 0 (pipeline_order (ot_spans tr))
      \<lparr>ls_inputs = initial_inputs m run seed, ls_spans = [], ls_faithfulness = 1, ls_synthetic = False\<rparr> = Inr st \<and>
    (ep, t) = record_episode E w seed m run tr iv rv v st"
  using assms by (auto simp: execute_replay_def rbind_Inr_iff split: if_splits)

text \<open>
  C16. A replay swaps one component and pins all others. Where the engine returns a replay, the manifest was present, fully
  pinned, unaltered and of the same run, tenant and seed; every span of the trace belonged to the run; the replayed
  trace is the root span followed by at most one span per component type; every component of the original trace was
  executed; the spans of the intervened component carry the replacement version, and every other span carries the version that
  all spans of its type had in the original trace, which is registered.
\<close>

theorem replay_swaps_one_component:
  assumes "execute_replay E P w (fold register cvs []) seed manifest run tr iv rv v = Inr (ep, t)"
  shows "\<exists>m new. manifest = Some m \<and> is_fully_pinned m \<and> mf_run_id m = ri_id run \<and> mf_tenant_id m = ri_tenant_id run \<and>
    mf_manifest_hash m = manifest_hash E m \<and> mf_random_seed m = Some seed \<and>
    (\<forall>s\<in>set (ot_spans tr). og_run_id s = ri_id run \<and> og_tenant_id s = ri_tenant_id run) \<and>
    rt_spans t = root_span w # new \<and> distinct (map rp_component_type new) \<and>
    (\<forall>s\<in>set (ot_spans tr). truthy (og_component_type s) \<longrightarrow> og_component_type s \<in> set (map rp_component_type new)) \<and>
    (\<forall>s\<in>set new. if rp_component_type s = Some (iv_target_component iv)
       then rp_version_id s = Some (cv_id rv) \<and> rp_version_tag s = iv_candidate_version iv
       else (\<exists>x\<in>set (ot_spans tr). og_component_type x = rp_component_type s) \<and>
            (\<forall>x\<in>set (ot_spans tr). og_component_type x = rp_component_type s \<longrightarrow> og_version_id x = rp_version_id s) \<and>
            (\<exists>cv\<in>set cvs. rp_version_id s = Some (cv_id cv)))"
proof -
  let ?reg = "fold register cvs []" and ?spans = "ot_spans tr"
  obtain m res st where c: "check_replay E seed manifest run tr iv rv = Inr m" and res: "resolve_versions ?reg run iv ?spans [] = Inr res"
    and run: "run_pipeline E P w seed iv rv ?spans res 0 (pipeline_order ?spans)
      \<lparr>ls_inputs = initial_inputs m run seed, ls_spans = [], ls_faithfulness = 1, ls_synthetic = False\<rparr> = Inr st"
    and ep: "(ep, t) = record_episode E w seed m run tr iv rv v st" using execute_replay_Inr [OF assms] by blast
  have m: "manifest = Some m" "is_fully_pinned m" "mf_run_id m = ri_id run" "mf_tenant_id m = ri_tenant_id run"
    "mf_manifest_hash m = manifest_hash E m" "mf_random_seed m = Some seed" "iv_candidate_version iv = Some (cv_version_tag rv)"
    using c by (auto simp: check_replay_def split: option.splits if_splits)
  have pins: "\<forall>s\<in>set ?spans. span_pinned ?reg run iv res s" using resolve_versions_pins [OF registry_ok_built res] by blast
  let ?ok = "\<lambda>ct. \<exists>cv. version_for iv rv ?spans res ct = Inr (Some cv)"
  obtain new where new: "ls_spans st = new" "\<forall>s\<in>set new. runs_with iv rv ?spans res s"
    "map rp_component_type new = map Some (filter ?ok (pipeline_order ?spans))"
    using run_pipeline_spans [OF run] by auto
  have rt: "rt_spans t = root_span w # new" using ep new(1) by (simp add: record_episode_def Let_def)
  have d: "distinct (map rp_component_type new)"
    unfolding new(3) using pipeline_order_types(1) [of ?spans] by (simp add: distinct_map)
  have covers: "og_component_type s \<in> set (map rp_component_type new)" if s: "s \<in> set ?spans" "truthy (og_component_type s)" for s
  proof -
    obtain ct where ct: "og_component_type s = Some ct" "ct \<noteq> []" using s(2) by (cases "og_component_type s") auto
    have "?ok ct"
    proof (cases "ct = iv_target_component iv")
      case False
      then obtain cv where "map_of res ct = Some cv" using bspec [OF pins s(1)] ct by (auto simp: span_pinned_def)
      moreover obtain x where x: "List.find (\<lambda>s. og_component_type s = Some ct) ?spans = Some x"
        using s(1) ct(1) by (cases "List.find (\<lambda>s. og_component_type s = Some ct) ?spans") (auto simp: find_None_iff)
      then have "x \<in> set ?spans" "og_component_type x = Some ct" by (auto simp: find_Some_iff)
      then have "og_version_id x \<noteq> None" using bspec [OF pins] False ct(2) by (fastforce simp: span_pinned_def)
      ultimately show ?thesis using False x by (auto simp: version_for_def)
    qed (simp add: version_for_def)
    then show ?thesis unfolding new(3) using pipeline_order_types(3) [OF ct(2) s(1) ct(1)] ct(1) by auto
  qed
  have versions: "if rp_component_type s = Some (iv_target_component iv)
       then rp_version_id s = Some (cv_id rv) \<and> rp_version_tag s = iv_candidate_version iv
       else (\<exists>x\<in>set ?spans. og_component_type x = rp_component_type s) \<and>
            (\<forall>x\<in>set ?spans. og_component_type x = rp_component_type s \<longrightarrow> og_version_id x = rp_version_id s) \<and>
            (\<exists>cv\<in>set cvs. rp_version_id s = Some (cv_id cv))" if s: "s \<in> set new" for s
  proof -
    obtain ct cv where ct: "rp_component_type s = Some ct" "version_for iv rv ?spans res ct = Inr (Some cv)"
      "rp_version_id s = Some (cv_id cv)" "rp_version_tag s = Some (cv_version_tag cv)"
      using new(2) s by (auto simp: runs_with_def)
    have "rp_component_type s \<in> set (map rp_component_type new)" using s by simp
    then have "ct \<noteq> []" unfolding new(3) using ct(1) pipeline_order_types(2) [of ?spans] by auto
    note vf = version_for_pinned [OF pins this ct(2)]
    have "cv \<in> set cvs" if "registry_get ?reg (cv_id cv) = Some cv" using that registered_from by (simp add: registry_get_def)
    then show ?thesis using vf ct m(7) by (cases "ct = iv_target_component iv") auto
  qed
  have "\<forall>s\<in>set ?spans. og_run_id s = ri_id run \<and> og_tenant_id s = ri_tenant_id run" using pins by (auto simp: span_pinned_def)
  then show ?thesis using m rt d covers versions by blast
qed

subsection \<open>The evidence of a replay\<close>

text \<open>
  C37. A replay is never evidence from production, and with the executors of the repository it is a real controlled experiment
  only when nothing was executed: every executor is synthetic, so the class of a real experiment is given exactly to
  the replays whose trace is the root span alone, of a run and a trace that are neither synthetic nor unverified. Scores lie
  between zero and one.
\<close>

theorem real_evidence_means_nothing_ran:
  assumes "execute_replay E P w reg seed manifest run tr iv rv v = Inr (ep, t)"
  shows "er_evidence_class ep = rt_evidence_class t \<and> er_evidence_class ep \<noteq> PRODUCTION \<and>
    (er_evidence_class ep = REAL_CONTROLLED_EXPERIMENT \<longleftrightarrow>
       rt_spans t = [root_span w] \<and> {ri_evidence_class run, ot_evidence_class tr} \<subseteq> {PRODUCTION, REAL_CONTROLLED_EXPERIMENT}) \<and>
    0 \<le> er_replay_score ep \<and> er_replay_score ep \<le> 1"
proof -
  obtain m res st where run: "run_pipeline E P w seed iv rv (ot_spans tr) res 0 (pipeline_order (ot_spans tr))
      \<lparr>ls_inputs = initial_inputs m run seed, ls_spans = [], ls_faithfulness = 1, ls_synthetic = False\<rparr> = Inr st"
    and ep: "(ep, t) = record_episode E w seed m run tr iv rv v st" using execute_replay_Inr [OF assms] by blast
  have syn: "ls_synthetic st \<longleftrightarrow> ls_spans st \<noteq> []" using run_pipeline_spans [OF run] by auto
  have e: "er_evidence_class ep = replay_evidence (ri_evidence_class run) (ot_evidence_class tr) (ls_synthetic st)"
    "rt_evidence_class t = replay_evidence (ri_evidence_class run) (ot_evidence_class tr) (ls_synthetic st)"
    "rt_spans t = root_span w # ls_spans st"
    "er_replay_score ep = aggregate_reliability_score default_reliability (er_replay_reliability ep)"
    using ep by (simp_all add: record_episode_def Let_def)
  have "replay_evidence a b c = REAL_CONTROLLED_EXPERIMENT \<longleftrightarrow> \<not> c \<and> {a, b} \<subseteq> {PRODUCTION, REAL_CONTROLLED_EXPERIMENT}" for a b c
    by (cases a; cases b) (auto simp: replay_evidence_def)
  moreover have "replay_evidence a b c \<noteq> PRODUCTION" for a b c by (simp add: replay_evidence_def)
  moreover have "0 \<le> er_replay_score ep \<and> er_replay_score ep \<le> 1"
    unfolding e(4) aggregate_reliability_score_def using round4_unit by simp
  ultimately show ?thesis unfolding e(1-3) using syn by simp
qed

subsection \<open>A replay is deterministic\<close>

text \<open>The data of a span: everything but its identifiers and times.\<close>

definition span_data :: "replay_span \<Rightarrow> (string option \<times> string option \<times> string option) \<times> (string option \<times> string option) \<times>
    (string option \<times> string option) \<times> (int option \<times> int option)" where
  "span_data s = ((rp_component_type s, rp_version_id s, rp_version_tag s), (rp_input_hash s, rp_output_hash s),
     (me_error_type s, me_policy_result s), (me_token_count_input s, me_token_count_output s))"

text \<open>Nothing disturbs the children, and the clock does not go backwards.\<close>

definition undisturbed :: "env \<Rightarrow> (string \<Rightarrow> string list) \<Rightarrow> (payload \<Rightarrow> (child_error, json list) result) \<Rightarrow> replay_world \<Rightarrow> bool" where
  "undisturbed E pieces memory w \<longleftrightarrow>
     (\<forall>k x ins cv seed. filter (\<lambda>y. y \<noteq> Idle) (wd_observe w k x ins cv seed) =
        map Frame (child_frames E pieces max_output_bytes (execute_component (float_repr E) memory x ins (cv_version_tag cv)))) \<and>
     (\<forall>k. wd_start w k \<le> wd_end w k) \<and> wd_root_start w \<le> wd_root_end w"

definition same_state :: "loop_state \<Rightarrow> loop_state \<Rightarrow> bool" where
  "same_state a b \<longleftrightarrow> ls_inputs a = ls_inputs b \<and> map span_data (ls_spans a) = map span_data (ls_spans b) \<and>
     ls_faithfulness a = ls_faithfulness b \<and> ls_synthetic a = ls_synthetic b"

lemma rel_sum_rbind:
  assumes "rel_sum (=) R a b" "\<And>x y. R x y \<Longrightarrow> rel_sum (=) S (f x) (g y)"
  shows "rel_sum (=) S (rbind a f) (rbind b g)"
  using assms(1) by cases (auto simp: assms(2))

lemma rel_sum_rbind_same: "(\<And>x. rel_sum (=) S (f x) (g x)) \<Longrightarrow> rel_sum (=) S (rbind a f) (rbind a g)"
  by (cases a) auto

lemma build_span_same:
  assumes "st \<le> fi" "st' \<le> fi'"
  shows "rel_sum (=) (\<lambda>(s, f) (s', f'). span_data s = span_data s' \<and> f = f')
    (build_span E P ct cv err ins out sid rid st fi f0) (build_span E P ct cv err ins out sid' rid' st' fi' f0)"
  unfolding build_span_def
  by (intro rel_sum_rbind_same) (use assms in \<open>simp add: span_data_def\<close>)

lemma run_component_same:
  assumes u: "undisturbed E pieces memory w" "undisturbed E pieces memory w'" and s: "same_state a b"
  shows "rel_sum (=) same_state (run_component E P w seed k ct cv a) (run_component E P w' seed k' ct cv b)"
proof (cases "get_executor ct (cv_version_tag cv)")
  case (Inr x)
  have ins: "ls_inputs b = ls_inputs a" "ls_faithfulness b = ls_faithfulness a" using s by (simp_all add: same_state_def)
  let ?r = "parent_receive P max_output_bytes (wd_observe w k x (ls_inputs a) cv seed) []"
  have r: "parent_receive P max_output_bytes (wd_observe w' k' x (ls_inputs a) cv seed) [] = ?r"
    using u by (subst (1 2) parent_ignores_idle) (simp add: undisturbed_def)
  have "rel_sum (=) (\<lambda>(s, f) (s', f'). span_data s = span_data s' \<and> f = f')
      (build_span E P ct cv err (ls_inputs a) out (wd_span_id w k) (wd_root_id w) (wd_start w k) (wd_end w k) (ls_faithfulness a))
      (build_span E P ct cv err (ls_inputs a) out (wd_span_id w' k') (wd_root_id w') (wd_start w' k') (wd_end w' k') (ls_faithfulness a))"
    for err out using u by (intro build_span_same) (simp_all add: undisturbed_def)
  then show ?thesis unfolding run_component_def Inr rbind_simps ins r Let_def
    by (auto intro!: rel_sum_rbind simp: s [unfolded same_state_def] same_state_def)
qed (simp add: run_component_def)

lemma run_pipeline_same:
  assumes u: "undisturbed E pieces memory w" "undisturbed E pieces memory w'"
  shows "same_state a b \<Longrightarrow>
    rel_sum (=) same_state (run_pipeline E P w seed iv rv spans res k cts a) (run_pipeline E P w' seed iv rv spans res k' cts b)"
proof (induction cts arbitrary: k k' a b)
  case (Cons ct cts)
  have "rel_sum (=) same_state (case v of None \<Rightarrow> run_pipeline E P w seed iv rv spans res k cts a
        | Some cv \<Rightarrow> rbind (run_component E P w seed k ct cv a) (run_pipeline E P w seed iv rv spans res (Suc k) cts))
      (case v of None \<Rightarrow> run_pipeline E P w' seed iv rv spans res k' cts b
        | Some cv \<Rightarrow> rbind (run_component E P w' seed k' ct cv b) (run_pipeline E P w' seed iv rv spans res (Suc k') cts))" for v
    by (cases v) (auto intro: rel_sum_rbind run_component_same [OF u] Cons.IH Cons.prems)
  then show ?case by (auto intro: rel_sum_rbind_same)
qed simp

text \<open>
  C24. A replay is deterministic. Two replays of the same run with the same manifest, memory and versions, whose child processes
  are not disturbed, both refuse for the same reason or both return; then they agree on every span up to identifiers
  and times, that is on the components, versions, hashes of inputs and outputs, errors, policy results and tokens, and on the
  hash of the response, the evidence class and the pinned versions.
\<close>

theorem replay_deterministic:
  assumes "undisturbed E pieces memory w" "undisturbed E pieces memory w'"
  shows "rel_sum (=) (\<lambda>(ep, t) (ep', t'). map span_data (rt_spans t) = map span_data (rt_spans t') \<and>
      er_replay_response_hash ep = er_replay_response_hash ep' \<and> er_evidence_class ep = er_evidence_class ep' \<and>
      er_pinned_version_ids ep = er_pinned_version_ids ep')
    (execute_replay E P w reg seed manifest run tr iv rv v) (execute_replay E P w' reg seed manifest run tr iv rv v)"
proof -
  have root: "wd_root_start w \<le> wd_root_end w" "wd_root_start w' \<le> wd_root_end w'" using assms by (simp_all add: undisturbed_def)
  have init: "same_state st st" for st by (simp add: same_state_def)
  show ?thesis unfolding execute_replay_def
    by (intro rel_sum_rbind_same rel_sum_rbind [OF run_pipeline_same [OF assms init]])
      (use root in \<open>auto simp: record_episode_def Let_def same_state_def root_span_def span_data_def\<close>)
qed

subsection \<open>Sample replays\<close>

definition replay_env :: env where
  "replay_env = \<lparr>sha256 = id, float_repr = (\<lambda>_. ''0.5''), iso = (\<lambda>_. []), ed25519_verify = (\<lambda>_ _ _. EdVerified), ed25519_sign = (\<lambda>_ m. m),
     hmac_sha256 = (\<lambda>k m. k @ m), b64_encode = id, b64_decode = Some\<rparr>"

definition replay_text :: pytext where
  "replay_text = \<lparr>float_of_text = (\<lambda>_. None), json_loads = (\<lambda>_. Some (JObj [])), seq_ratio = (\<lambda>_ _. 1)\<rparr>"

definition unsealed_manifest :: replay_manifest where
  "unsealed_manifest = (let x = Some ''x'' in
     \<lparr>mf_id = ''m'', mf_run_id = ''r'', mf_tenant_id = ''t'', mf_original_query = x, mf_original_query_hash = x, mf_corpus_version_id = x,
      mf_model_provider = x, mf_model_identifier = x, mf_model_config_hash = x, mf_prompt_template_hash = x, mf_retriever_version = x,
      mf_retriever_settings = [(''k'', JInt 1)], mf_retrieved_chunk_ids = [''c''], mf_embedding_provider = x, mf_embedding_model_id = x,
      mf_embedding_model_version = x, mf_embedding_vector_dimension = Some 3, mf_embedding_config_hash = x, mf_vector_index_snapshot_id = x,
      mf_tool_schemas_hash = x, mf_policy_config_hash = x, mf_memory_snapshot_id = x, mf_random_seed = Some 42, mf_generation_parameters = [],
      mf_container_image_digest = x, mf_dependency_lockfile_hash = x, mf_trace_root_hash = x, mf_manifest_hash = []\<rparr>)"

definition sealed_manifest :: replay_manifest where
  "sealed_manifest = unsealed_manifest\<lparr>mf_manifest_hash := manifest_hash replay_env unsealed_manifest\<rparr>"

lemma sealed_manifest_hash: "mf_manifest_hash sealed_manifest = manifest_hash replay_env sealed_manifest"
  by (simp add: sealed_manifest_def manifest_hash_def manifest_document_def)

lemma sealed_manifest_pinned: "is_fully_pinned sealed_manifest" "mf_run_id sealed_manifest = ''r''" "mf_tenant_id sealed_manifest = ''t''"
  "mf_random_seed sealed_manifest = Some 42"
  by (simp_all add: sealed_manifest_def unsealed_manifest_def is_fully_pinned_def Let_def)

text \<open>The hash binds neither the run nor the tenant: a manifest can be relabelled.\<close>

lemma manifest_relabelled:
  "manifest_hash E (m\<lparr>mf_run_id := r, mf_tenant_id := t, mf_id := i\<rparr>) = manifest_hash E m"
  by (simp add: manifest_hash_def manifest_document_def)

definition sample_run :: run_info where
  "sample_run = \<lparr>ri_id = ''r'', ri_tenant_id = ''t'', ri_pipeline_id = ''p'', ri_request_hash = None, ri_evidence_class = PRODUCTION\<rparr>"

definition sample_original_span :: "string \<Rightarrow> string \<Rightarrow> original_span" where
  "sample_original_span ct i = \<lparr>og_run_id = ''r'', og_tenant_id = ''t'', og_pipeline_id = ''p'', og_component_type = Some ct,
     og_version_id = Some i, og_version_tag = None\<rparr>"

definition sample_trace :: "original_span list \<Rightarrow> original_trace" where
  "sample_trace spans = \<lparr>ot_run_id = ''r'', ot_tenant_id = ''t'', ot_pipeline_id = ''p'', ot_spans = spans, ot_evidence_class = PRODUCTION\<rparr>"

definition sample_version :: "string \<Rightarrow> string \<Rightarrow> string \<Rightarrow> component_version" where
  "sample_version i ct tag = \<lparr>cv_id = i, cv_component_type = ct, cv_version_tag = tag\<rparr>"

definition sample_world :: "(nat \<Rightarrow> executor \<Rightarrow> payload \<Rightarrow> component_version \<Rightarrow> int \<Rightarrow> observation list) \<Rightarrow> int \<Rightarrow> replay_world" where
  "sample_world obs d = \<lparr>wd_observe = obs, wd_start = (\<lambda>k. 2 * int k), wd_end = (\<lambda>k. 2 * int k + d), wd_span_id = nat_str, wd_root_id = ''root'',
     wd_root_start = 0, wd_root_end = 100, wd_replay_id = ''q''\<rparr>"

definition sample_intervention :: "string \<Rightarrow> intervention" where
  "sample_intervention ct = \<lparr>iv_target_component = ct, iv_current_version = Some ''v2-exp'', iv_candidate_version = Some ''v1''\<rparr>"

lemma sample_check:
  "check_replay replay_env 42 (Some sealed_manifest) sample_run (sample_trace spans) (sample_intervention ct) (sample_version i ct ''v1'') =
     Inr sealed_manifest"
  by (simp add: check_replay_def sealed_manifest_hash [symmetric] sealed_manifest_pinned sample_run_def sample_trace_def
      sample_intervention_def sample_version_def)

text \<open>An intervention on an agent of a trace without components: nothing runs, and the evidence is that of a real experiment.\<close>

lemma empty_replay_returns:
  "\<exists>ep t. execute_replay replay_env replay_text (sample_world (\<lambda>_ _ _ _ _. []) 1) [] 42 (Some sealed_manifest) sample_run (sample_trace [])
     (sample_intervention ''agent'') (sample_version ''9'' ''agent'' ''v1'') [] = Inr (ep, t) \<and> rt_spans t = [root_span (sample_world (\<lambda>_ _ _ _ _. []) 1)]"
  by (simp add: execute_replay_def sample_check, simp add: sample_trace_def pipeline_order_def trace_order_def fallback_order_def version_for_def
      sample_intervention_def sample_world_def record_episode_def Let_def)

theorem real_evidence_means_nothing_ran_witness:
  "\<exists>ep t. execute_replay replay_env replay_text (sample_world (\<lambda>_ _ _ _ _. []) 1) [] 42 (Some sealed_manifest) sample_run (sample_trace [])
     (sample_intervention ''agent'') (sample_version ''9'' ''agent'' ''v1'') [] = Inr (ep, t) \<and> er_evidence_class ep = REAL_CONTROLLED_EXPERIMENT"
proof -
  obtain ep t where r: "execute_replay replay_env replay_text (sample_world (\<lambda>_ _ _ _ _. []) 1) [] 42 (Some sealed_manifest) sample_run (sample_trace [])
     (sample_intervention ''agent'') (sample_version ''9'' ''agent'' ''v1'') [] = Inr (ep, t)"
    "rt_spans t = [root_span (sample_world (\<lambda>_ _ _ _ _. []) 1)]" using empty_replay_returns by blast
  from real_evidence_means_nothing_ran [OF r(1)] r show ?thesis by (auto simp: sample_run_def sample_trace_def)
qed

text \<open>A replay that swaps the retriever and pins the tool; both children time out.\<close>

definition sample_versions :: "component_version list" where
  "sample_versions = [sample_version ''1'' ''retriever'' ''v2-exp'', sample_version ''2'' ''tool_call'' ''v1'', sample_version ''3'' ''retriever'' ''v1'']"

definition swap_replay :: "(replay_refusal, replay_episode \<times> replay_trace) result" where
  "swap_replay = execute_replay replay_env replay_text (sample_world (\<lambda>_ _ _ _ _. []) 1) (fold register sample_versions []) 42 (Some sealed_manifest)
     sample_run (sample_trace [sample_original_span ''retriever'' ''1'', sample_original_span ''tool_call'' ''2'']) (sample_intervention ''retriever'')
     (sample_version ''3'' ''retriever'' ''v1'') []"

lemma swap_replay_returns: "\<exists>ep t. swap_replay = Inr (ep, t) \<and> length (rt_spans t) = 3"
  by (simp add: swap_replay_def execute_replay_def sample_check, simp add: sample_trace_def pipeline_order_def trace_order_def version_for_def
      sample_intervention_def sample_world_def record_episode_def Let_def sample_original_span_def sample_versions_def sample_version_def register_def
      registry_get_def resolve_span_def sample_run_def run_component_def get_executor_def executor_map_def build_span_def)

theorem replay_swaps_one_component_witness:
  "\<exists>ep t. swap_replay = Inr (ep, t) \<and>
     (\<forall>s\<in>set (tl (rt_spans t)). rp_component_type s = Some ''retriever'' \<longrightarrow> rp_version_id s = Some ''3'')"
proof -
  obtain ep t where r: "swap_replay = Inr (ep, t)" using swap_replay_returns by blast
  from replay_swaps_one_component [OF r [unfolded swap_replay_def]] r show ?thesis
    by (fastforce simp: sample_intervention_def sample_version_def)
qed

theorem isolated_output_exact_witness:
  "parent_receive replay_text 10 [Idle, Frame (Data ''{}''), Idle, Frame End] [] = Inr []"
proof -
  have t: "canonical_bytes replay_env (JObj []) = ''{}''" by (simp add: canonical_bytes_def dumps_def utf8_def utf8_char_def)
  have b: "blocks ''{}'' = [''{}'']" by (subst blocks.simps, simp add: block_size_def, subst blocks.simps, simp)
  show ?thesis
    using isolated_output_exact [of "\<lambda>s. [s]" replay_env "[]" "[Idle, Frame (Data ''{}''), Idle, Frame End]" 10 replay_text]
    by (simp add: t b child_frames_def decode_output_def replay_text_def)
qed

definition prompt_world :: "int \<Rightarrow> replay_world" where
  "prompt_world d = sample_world (\<lambda>k x ins cv seed. map Frame (child_frames replay_env (\<lambda>s. [s]) max_output_bytes
     (execute_component (float_repr replay_env) (\<lambda>_. Inr []) x ins (cv_version_tag cv)))) d"

theorem replay_deterministic_witness:
  "rel_sum (=) (\<lambda>(ep, t) (ep', t'). map span_data (rt_spans t) = map span_data (rt_spans t'))
    (execute_replay replay_env replay_text (prompt_world 1) [] 42 (Some sealed_manifest) sample_run (sample_trace [])
       (sample_intervention ''retriever'') (sample_version ''3'' ''retriever'' ''v1'') [])
    (execute_replay replay_env replay_text (prompt_world 7) [] 42 (Some sealed_manifest) sample_run (sample_trace [])
       (sample_intervention ''retriever'') (sample_version ''3'' ''retriever'' ''v1'') [])"
proof -
  have f: "filter (\<lambda>y. y \<noteq> Idle) (map Frame xs) = map Frame xs" for xs by (induction xs) auto
  have "undisturbed replay_env (\<lambda>s. [s]) (\<lambda>_. Inr []) (prompt_world d)" if "0 \<le> d" for d
    using that by (simp add: undisturbed_def prompt_world_def sample_world_def f)
  then have "undisturbed replay_env (\<lambda>s. [s]) (\<lambda>_. Inr []) (prompt_world 1)" "undisturbed replay_env (\<lambda>s. [s]) (\<lambda>_. Inr []) (prompt_world 7)" by simp_all
  from replay_deterministic [OF this] show ?thesis by (rule sum.rel_mono_strong) auto
qed

end
