(* ===== verification/Bandit_Calibration.thy ===== *)
theory Bandit_Calibration
  imports Replay_Engine
begin

text \<open>
  The estimators of the causal reasoning board: \<open>bcrb/src/calibration.py\<close>, \<open>bayesian_updater.py\<close>, \<open>utility_function.py\<close>.
  Priors, costs, risks and blast radii of candidates, the likelihoods of an observed improvement, Bayes' rule for one
  candidate, the utility of an experiment, and the calibration errors. Arithmetic is exact; the exponential is a parameter
  whose value \<^const>\<open>None\<close> is an overflow.
\<close>

subsection \<open>Parameters\<close>

type_synonym weights = "(string \<times> rat) list"

record calibration_params =
  cb_prior_weights :: weights
  cb_base_costs :: weights
  cb_base_risks :: weights
  cb_base_blast_radii :: weights
  cb_sigmoid_k :: rat
  cb_sigmoid_theta :: rat

definition default_params :: calibration_params where
  "default_params = \<lparr>
     cb_prior_weights = [(''gat'', 45/100), (''diffusion'', 35/100), (''symptom'', 20/100)],
     cb_base_costs = [(''retriever'', 12/1000), (''generator'', 38/1000), (''policy_check'', 4/1000), (''tool_call'', 8/1000),
       (''default'', 20/1000)],
     cb_base_risks = [(''retriever'', 12/100), (''generator'', 18/100), (''policy_check'', 5/100), (''tool_call'', 9/100), (''default'', 10/100)],
     cb_base_blast_radii = [(''retriever'', 25/100), (''generator'', 15/100), (''policy_check'', 5/100), (''tool_call'', 10/100),
       (''default'', 10/100)],
     cb_sigmoid_k = 6, cb_sigmoid_theta = 35/100\<rparr>"

datatype calibration_error = MissingWeight string | ZeroBins | ShortObservations

subsection \<open>Priors\<close>

definition clamp :: "rat \<Rightarrow> rat \<Rightarrow> rat \<Rightarrow> rat" where
  "clamp lo hi x = min hi (max lo x)"

definition get_weight :: "weights \<Rightarrow> string \<Rightarrow> rat \<Rightarrow> rat" where
  "get_weight ws k d = (case map_of ws k of Some w \<Rightarrow> w | None \<Rightarrow> d)"

definition need_weight :: "weights \<Rightarrow> string \<Rightarrow> (calibration_error, rat) result" where
  "need_weight ws k = (case map_of ws k of Some w \<Rightarrow> Inr w | None \<Rightarrow> Inl (MissingWeight k))"

definition accuracy_weights :: "weights \<Rightarrow> weights" where
  "accuracy_weights acc =
     (let w_gat = max (get_weight acc ''gat_accuracy'' (7/10)) (1/10);
          w_diff = max (get_weight acc ''diffusion_accuracy'' (6/10)) (1/10);
          w_sym = max (get_weight acc ''symptom_accuracy'' (5/10)) (1/10);
          total_w = w_gat + w_diff + w_sym
      in [(''gat'', w_gat / total_w), (''diffusion'', w_diff / total_w), (''symptom'', w_sym / total_w)])"

definition estimate_prior :: "calibration_params \<Rightarrow> rat \<Rightarrow> rat \<Rightarrow> rat \<Rightarrow> weights \<Rightarrow> (calibration_error, rat \<times> weights) result" where
  "estimate_prior cp gat_score diff_score symptom_score historical_accuracy =
     (let ws = (if historical_accuracy \<noteq> [] then accuracy_weights historical_accuracy else cb_prior_weights cp) in
      rbind (need_weight ws ''gat'') (\<lambda>g. rbind (need_weight ws ''diffusion'') (\<lambda>d. rbind (need_weight ws ''symptom'') (\<lambda>s.
        Inr (clamp 0 1 (gat_score * g + diff_score * d + symptom_score * s), ws)))))"

subsection \<open>Cost, risk and blast radius\<close>

definition base_value :: "weights \<Rightarrow> string \<Rightarrow> rat \<Rightarrow> rat" where
  "base_value table comp_key d =
     (case List.find (\<lambda>(k, v). contains_text k comp_key) table of Some (k, v) \<Rightarrow> v | None \<Rightarrow> get_weight table ''default'' d)"

record history_span =
  hs_component_type :: string
  hs_cost_usd :: "rat option"

definition matching_costs :: "string \<Rightarrow> history_span list \<Rightarrow> rat list" where
  "matching_costs comp_key spans =
     List.map_filter (\<lambda>s. if py_lower (hs_component_type s) = comp_key then hs_cost_usd s else None) spans"

definition estimate_candidate_cost :: "calibration_params \<Rightarrow> string \<Rightarrow> history_span list \<Rightarrow> rat" where
  "estimate_candidate_cost cp component_type historical_spans =
     (let comp_key = py_lower component_type; costs = matching_costs comp_key historical_spans in
      if costs \<noteq> [] then sum_list costs / of_nat (length costs) else base_value (cb_base_costs cp) comp_key (2/100))"

definition adjacent :: "string list \<Rightarrow> (string \<times> string) list \<Rightarrow> string \<Rightarrow> string list" where
  "adjacent nodes edges n = (if n \<in> set nodes then map snd (filter (\<lambda>(s, t). s = n) edges) else [])"

definition visit_next :: "string list \<Rightarrow> string list \<times> string set \<Rightarrow> string list \<times> string set" where
  "visit_next ns = fold (\<lambda>n (queue, visited). if n \<in> visited then (queue, visited) else (queue @ [n], insert n visited)) ns"

lemma visit_next_simps [simp]:
  "visit_next [] qV = qV"
  "visit_next (n # ns) (q, V) = (if n \<in> V then visit_next ns (q, V) else visit_next ns (q @ [n], insert n V))"
  by (simp_all add: visit_next_def)

lemma visit_next_props:
  assumes "visit_next ns (q, V) = (q', V')"
  shows "V' = V \<union> set ns" "\<exists>new. q' = q @ new \<and> set new = V' - V \<and> distinct new"
proof -
  have "V' = V \<union> set ns \<and> (\<exists>new. q' = q @ new \<and> set new = V' - V \<and> distinct new)" using assms
  proof (induction ns arbitrary: q V)
    case (Cons n ns)
    show ?case
    proof (cases "n \<in> V")
      case True
      with Cons.IH [of q V] Cons.prems show ?thesis by auto
    next
      case False
      with Cons.IH [of "q @ [n]" "insert n V"] Cons.prems obtain new
        where "V' = insert n V \<union> set ns" "q' = (q @ [n]) @ new" "set new = V' - insert n V" "distinct new" by auto
      with False show ?thesis by (auto intro!: exI [of _ "n # new"])
    qed
  qed auto
  then show "V' = V \<union> set ns" "\<exists>new. q' = q @ new \<and> set new = V' - V \<and> distinct new" by auto
qed

function blast_search :: "string list \<Rightarrow> (string \<times> string) list \<Rightarrow> string list \<Rightarrow> string set \<Rightarrow> string set" where
  "blast_search nodes edges [] visited = visited"
| "blast_search nodes edges (current # queue) visited =
     (case visit_next (adjacent nodes edges current) (queue, visited) of (queue', visited') \<Rightarrow> blast_search nodes edges queue' visited')"
  by pat_completeness auto

text \<open>Every node is appended at most once, so the queue and the unvisited targets together get smaller.\<close>

lemma visit_next_smaller:
  assumes "visit_next (adjacent nodes edges n) (queue, visited) = (queue', visited')"
  shows "length queue' + card (snd ` set edges - visited') = length queue + card (snd ` set edges - visited)"
proof -
  obtain new where new: "queue' = queue @ new" "set new = visited' - visited" "distinct new"
    and V': "visited' = visited \<union> set (adjacent nodes edges n)"
    using visit_next_props [OF assms] by blast
  have sub: "set new \<subseteq> snd ` set edges - visited"
    using V' new(2) by (auto simp: adjacent_def split: if_splits)
  have "snd ` set edges - visited' = (snd ` set edges - visited) - set new" using new(2) V' by auto
  then show ?thesis
    using new(1) sub card_Diff_subset [of "set new" "snd ` set edges - visited"] card_mono [OF _ sub] distinct_card [OF new(3)] by auto
qed

termination blast_search
  by (relation "measure (\<lambda>(nodes, edges, queue, visited). length queue + card (snd ` set edges - visited))")
    (auto dest: visit_next_smaller split: prod.splits)

declare blast_search.simps [simp del]

definition estimate_candidate_blast_radius :: "calibration_params \<Rightarrow> string \<Rightarrow> (string \<times> string) list \<Rightarrow> string list \<Rightarrow> rat" where
  "estimate_candidate_blast_radius cp component_type causal_graph_edges all_nodes =
     (let comp_key = py_lower component_type; matching = filter (\<lambda>n. contains_text comp_key (py_lower n)) all_nodes in
      if causal_graph_edges \<noteq> [] \<and> all_nodes \<noteq> [] \<and> matching \<noteq> []
      then max (of_nat (card (blast_search all_nodes causal_graph_edges matching {})) / of_nat (max (length all_nodes) 1)) (5/100)
      else base_value (cb_base_blast_radii cp) comp_key (10/100))"

definition estimate_candidate_risk :: "calibration_params \<Rightarrow> string \<Rightarrow> string \<Rightarrow> rat" where
  "estimate_candidate_risk cp component_type intervention_type =
     (let base_risk = base_value (cb_base_risks cp) (py_lower component_type) (10/100);
          int_key = py_lower intervention_type;
          multiplier = (if contains_text ''rollback'' int_key then 12/10
             else if contains_text ''config_patch'' int_key then 8/10
             else if contains_text ''alternate'' int_key then 11/10 else 1)
      in min (max (base_risk * multiplier) (2/100)) (95/100))"

subsection \<open>Likelihoods, deltas, information\<close>

definition calculate_calibrated_likelihoods :: "(rat \<Rightarrow> rat option) \<Rightarrow> calibration_params \<Rightarrow> rat \<Rightarrow> rat \<times> rat" where
  "calculate_calibrated_likelihoods ex cp reliability_delta =
     (let x = cb_sigmoid_k cp * (reliability_delta - cb_sigmoid_theta cp);
          raw = (case ex (- x) of Some e \<Rightarrow> 1 / (1 + e) | None \<Rightarrow> if 0 < x then 1 else 0);
          p_cause = min (95/100) (max (5/100) raw);
          p_not_cause = min (95/100) (max (5/100) (1 - p_cause + 5/100))
      in (p_cause, p_not_cause))"

definition estimate_reliability_delta :: "string \<Rightarrow> string \<Rightarrow> rat" where
  "estimate_reliability_delta component_type intervention_type =
     (let comp_key = py_lower component_type;
          base_delta = (if contains_text ''generator'' comp_key then 7/10 else if contains_text ''retriever'' comp_key then 8/10 else 5/10);
          d = (if contains_text ''rollback'' (py_lower intervention_type) then base_delta + 1/10 else base_delta)
      in min (max d (1/10)) (95/100))"

definition estimate_information_gain :: "string \<Rightarrow> rat" where
  "estimate_information_gain component_type =
     (let comp_key = py_lower component_type in
      if contains_text ''generator'' comp_key then 7/10 else if contains_text ''retriever'' comp_key then 6/10 else 5/10)"

definition update_posterior :: "rat \<Rightarrow> rat \<Rightarrow> rat \<Rightarrow> rat" where
  "update_posterior prior likelihood_given_cause likelihood_given_not_cause =
     (if prior \<le> 0 then 0
      else if 1 \<le> prior then 1
      else let p_evidence = likelihood_given_cause * prior + likelihood_given_not_cause * (1 - prior) in
        if p_evidence = 0 then prior
        else max 0 (min 1 (likelihood_given_cause * prior / p_evidence)))"

definition calculate_candidate_utility :: "rat \<Rightarrow> rat \<Rightarrow> rat \<Rightarrow> rat \<Rightarrow> rat \<Rightarrow> rat \<Rightarrow> rat" where
  "calculate_candidate_utility probability expected_reliability_delta information_gain cost risk blast_radius =
     probability * expected_reliability_delta * information_gain / (cost + 1 * risk + 1 * blast_radius + 1/10^6)"

subsection \<open>Calibration errors\<close>

definition compute_brier_score :: "rat list \<Rightarrow> rat list \<Rightarrow> rat" where
  "compute_brier_score predictions observations =
     (if predictions = [] \<or> observations = [] \<or> length predictions \<noteq> length observations then 0
      else sum_list (map (\<lambda>(p, r). (p - r)\<^sup>2) (zip predictions observations)) / of_nat (length predictions))"

definition in_bin :: "nat \<Rightarrow> nat \<Rightarrow> rat \<Rightarrow> bool" where
  "in_bin bins i p \<longleftrightarrow> of_nat i / of_nat bins \<le> p \<and> p < of_nat (Suc i) / of_nat bins"

definition bin_of :: "nat \<Rightarrow> (rat \<times> rat) list \<Rightarrow> nat \<Rightarrow> (rat \<times> rat) list" where
  "bin_of bins items i = filter (\<lambda>(p, r). in_bin bins i p) items"

definition compute_expected_calibration_error :: "rat list \<Rightarrow> rat list \<Rightarrow> nat \<Rightarrow> (calibration_error, rat) result" where
  "compute_expected_calibration_error predictions observations bins =
     (if predictions = [] \<or> observations = [] \<or> length predictions \<noteq> length observations then Inr 0
      else if bins = 0 then Inl ZeroBins
      else Inr (fold (\<lambda>i ece. let b = bin_of bins (zip predictions observations) i in
        if b = [] then ece
        else ece + of_nat (length b) / of_nat (length predictions) * \<bar>mean (map fst b) - mean (map snd b)\<bar>) [0..<bins] 0))"

definition generate_calibration_curve :: "rat list \<Rightarrow> rat list \<Rightarrow> nat \<Rightarrow> (calibration_error, rat list \<times> rat list) result" where
  "generate_calibration_curve predictions observations bins =
     (if bins = 0 then Inl ZeroBins
      else if list_ex (\<lambda>i. list_ex (in_bin bins i) (drop (length observations) predictions)) [0..<bins] then Inl ShortObservations
      else let bs = filter (\<lambda>b. b \<noteq> []) (map (bin_of bins (zip predictions observations)) [0..<bins])
        in Inr (map (\<lambda>b. mean (map fst b)) bs, map (\<lambda>b. mean (map snd b)) bs))"

subsection \<open>The blast radius is reachability\<close>

definition adjacency :: "string list \<Rightarrow> (string \<times> string) list \<Rightarrow> (string \<times> string) set" where
  "adjacency nodes edges = {(s, t) \<in> set edges. s \<in> set nodes}"

lemma set_adjacent: "set (adjacent nodes edges n) = adjacency nodes edges `` {n}"
  by (force simp: adjacent_def adjacency_def)

lemma blast_search_sound:
  "set q \<subseteq> M \<union> V \<Longrightarrow> V \<subseteq> (adjacency nodes edges)\<^sup>+ `` M \<Longrightarrow> blast_search nodes edges q V \<subseteq> (adjacency nodes edges)\<^sup>+ `` M"
proof (induction nodes edges q V rule: blast_search.induct)
  case (2 nodes edges x q V)
  let ?R = "adjacency nodes edges"
  obtain q' V' where v: "visit_next (adjacent nodes edges x) (q, V) = (q', V')" by fastforce
  note p = visit_next_props [OF v, unfolded set_adjacent]
  have "x \<in> M \<or> x \<in> ?R\<^sup>+ `` M" using "2.prems" by auto
  then have "?R `` {x} \<subseteq> ?R\<^sup>+ `` M" by (auto intro: trancl_into_trancl)
  then have "V' \<subseteq> ?R\<^sup>+ `` M" using p(1) "2.prems"(2) by blast
  moreover have "set q' \<subseteq> M \<union> V'" using p "2.prems"(1) by fastforce
  ultimately show ?case using "2.IH" [OF v [symmetric]] by (simp add: blast_search.simps v)
qed (simp add: blast_search.simps)

lemma blast_search_complete:
  "(\<forall>s\<in>M \<union> V. s \<in> set q \<or> adjacency nodes edges `` {s} \<subseteq> V) \<Longrightarrow>
     V \<subseteq> blast_search nodes edges q V \<and> (\<forall>s\<in>M \<union> blast_search nodes edges q V. adjacency nodes edges `` {s} \<subseteq> blast_search nodes edges q V)"
proof (induction nodes edges q V rule: blast_search.induct)
  case (2 nodes edges x q V)
  obtain q' V' where v: "visit_next (adjacent nodes edges x) (q, V) = (q', V')" by fastforce
  note p = visit_next_props [OF v, unfolded set_adjacent]
  have "\<forall>s\<in>M \<union> V'. s \<in> set q' \<or> adjacency nodes edges `` {s} \<subseteq> V'"
  proof
    fix s assume "s \<in> M \<union> V'"
    then consider "s \<in> M \<union> V" | "s \<in> V' - V" by blast
    then show "s \<in> set q' \<or> adjacency nodes edges `` {s} \<subseteq> V'"
      using "2.prems" p by cases fastforce+
  qed
  with "2.IH" [OF v [symmetric]] p(1) show ?case by (simp add: blast_search.simps v)
qed (auto simp: blast_search.simps)

lemma blast_search_eq: "blast_search nodes edges M {} = (adjacency nodes edges)\<^sup>+ `` set M"
proof
  let ?B = "blast_search nodes edges M {}" and ?R = "adjacency nodes edges"
  show "?B \<subseteq> ?R\<^sup>+ `` set M" by (rule blast_search_sound) auto
  have c: "\<forall>s\<in>set M \<union> ?B. ?R `` {s} \<subseteq> ?B" using blast_search_complete [of "set M" "{}" M] by auto
  have "y \<in> ?B" if "(m, y) \<in> ?R\<^sup>+" "m \<in> set M" for m y
    using that by (induction rule: trancl_induct) (use c in blast)+
  then show "?R\<^sup>+ `` set M \<subseteq> ?B" by blast
qed

text \<open>
  The blast radius of a component that occurs in the graph is the share of nodes reachable from its nodes in one step
  or more, and at least 0.05; it is at most one when the edges stay within the distinct nodes. The search ends on every graph,
  with cycles too.
\<close>

theorem blast_radius_exact:
  assumes "edges \<noteq> []" "matching = {n \<in> set nodes. contains_text (py_lower ct) (py_lower n)}" "matching \<noteq> {}"
  shows "estimate_candidate_blast_radius cp ct edges nodes =
      max (of_nat (card ((adjacency nodes edges)\<^sup>+ `` matching)) / of_nat (length nodes)) (5/100) \<and>
    (distinct nodes \<and> snd ` set edges \<subseteq> set nodes \<longrightarrow> estimate_candidate_blast_radius cp ct edges nodes \<le> 1)"
proof -
  have m: "matching = set (filter (\<lambda>n. contains_text (py_lower ct) (py_lower n)) nodes)" using assms(2) by auto
  have ne: "nodes \<noteq> []" "filter (\<lambda>n. contains_text (py_lower ct) (py_lower n)) nodes \<noteq> []" using assms(2,3) by (auto simp: filter_empty_conv)
  then have l: "max (length nodes) 1 = length nodes" by (cases nodes) auto
  have e: "estimate_candidate_blast_radius cp ct edges nodes =
      max (of_nat (card ((adjacency nodes edges)\<^sup>+ `` matching)) / of_nat (length nodes)) (5/100)"
    using ne assms(1) unfolding estimate_candidate_blast_radius_def Let_def blast_search_eq m l by simp
  have "card ((adjacency nodes edges)\<^sup>+ `` matching) \<le> length nodes" if "snd ` set edges \<subseteq> set nodes"
  proof -
    have "(adjacency nodes edges)\<^sup>+ `` matching \<subseteq> Range ((adjacency nodes edges)\<^sup>+)" by blast
    also have "\<dots> \<subseteq> set nodes" unfolding trancl_range using that by (force simp: adjacency_def)
    finally have "(adjacency nodes edges)\<^sup>+ `` matching \<subseteq> set nodes" .
    then have "card ((adjacency nodes edges)\<^sup>+ `` matching) \<le> card (set nodes)" by (intro card_mono) auto
    then show ?thesis using card_length [of nodes] by simp
  qed
  then have "of_nat (card ((adjacency nodes edges)\<^sup>+ `` matching)) / of_nat (length nodes) \<le> (1 :: rat)" if "snd ` set edges \<subseteq> set nodes"
    using that by (simp add: divide_le_eq_1)
  then show ?thesis unfolding e by simp
qed

subsection \<open>Likelihoods and posteriors\<close>

lemma likelihood_range:
  assumes "calculate_calibrated_likelihoods ex cp d = (c, n)"
  shows "5/100 \<le> c" "c \<le> 95/100" "n = min (95/100) (105/100 - c)" "10/100 \<le> n" "n \<le> 95/100"
proof -
  show "5/100 \<le> c" "c \<le> 95/100" using assms by (auto simp: calculate_calibrated_likelihoods_def Let_def)
  moreover have "n = min (95/100) (max (5/100) (1 - c + 5/100))" using assms by (auto simp: calculate_calibrated_likelihoods_def Let_def)
  ultimately show "n = min (95/100) (105/100 - c)" "10/100 \<le> n" "n \<le> 95/100" by (auto simp: min_def max_def)
qed

text \<open>For a prior strictly between zero and one and positive likelihoods the update is Bayes' rule without the clamps.\<close>

lemma update_posterior_bayes:
  assumes "0 < p" "p < 1" "0 < c" "0 < n"
  shows "update_posterior p c n = c * p / (c * p + n * (1 - p))"
    "0 < update_posterior p c n" "update_posterior p c n < 1"
proof -
  have pos: "0 < c * p" "0 < n * (1 - p)" using assms by simp_all
  then have q: "0 < c * p / (c * p + n * (1 - p))" "c * p / (c * p + n * (1 - p)) < 1" by (simp_all add: divide_less_eq_1)
  have "update_posterior p c n = max 0 (min 1 (c * p / (c * p + n * (1 - p))))"
    using assms(1,2) pos by (simp add: update_posterior_def Let_def)
  with q show "update_posterior p c n = c * p / (c * p + n * (1 - p))" "0 < update_posterior p c n" "update_posterior p c n < 1" by simp_all
qed

lemma update_posterior_unit: "0 \<le> update_posterior p c n \<and> update_posterior p c n \<le> 1"
  by (auto simp: update_posterior_def Let_def)

lemma posterior_above_iff:
  assumes "0 < p" "p < 1" "0 < c" "0 < n" "q < 1"
  shows "q \<le> update_posterior p c n \<longleftrightarrow> q * n * (1 - p) \<le> (1 - q) * (c * p)"
proof -
  have "0 < c * p" "0 < n * (1 - p)" using assms by simp_all
  then have "0 < c * p + n * (1 - p)" by simp
  then have "q \<le> c * p / (c * p + n * (1 - p)) \<longleftrightarrow> q * (c * p + n * (1 - p)) \<le> c * p" by (simp add: le_divide_eq)
  then show ?thesis unfolding update_posterior_bayes(1) [OF assms(1-4)] by (auto simp: algebra_simps)
qed

text \<open>The evidence of one test raises the odds by at most 9.5: a posterior of 0.9 needs a prior of 18/37 or more.\<close>

lemma confident_posterior_needs_prior:
  assumes "calculate_calibrated_likelihoods ex cp d = (c, n)" "9/10 \<le> update_posterior p c n"
  shows "18/37 \<le> p"
proof (cases "0 < p \<and> p < 1")
  case True
  note r = likelihood_range [OF assms(1)]
  have "9/10 * n * (1 - p) \<le> (1 - 9/10) * (c * p)"
    using posterior_above_iff [of p c n "9/10"] True r assms(2) by simp
  moreover have "10/100 * (1 - p) \<le> n * (1 - p)" "c * p \<le> 95/100 * p"
    using mult_right_mono [OF r(4), of "1 - p"] mult_right_mono [OF r(2), of p] True by simp_all
  ultimately show ?thesis by simp
next
  case False
  then show ?thesis using assms(2) by (auto simp: update_posterior_def)
qed

text \<open>An improvement speaks for the cause exactly above 0.525 on the response curve.\<close>

lemma evidence_raises_iff:
  assumes "calculate_calibrated_likelihoods ex cp d = (c, n)" "0 < p" "p < 1"
  shows "p < update_posterior p c n \<longleftrightarrow> 525/1000 < c"
proof -
  note r = likelihood_range [OF assms(1)]
  have pos: "0 < c" "0 < n" using r by auto
  have s: "0 < c * p + n * (1 - p)" using pos assms by (auto intro!: add_pos_pos mult_pos_pos)
  have "p < c * p / (c * p + n * (1 - p)) \<longleftrightarrow> p * (c * p + n * (1 - p)) < c * p" using s by (simp add: less_divide_eq)
  also have "\<dots> \<longleftrightarrow> p * (c * p + n * (1 - p)) < p * c" by (simp add: mult.commute)
  also have "\<dots> \<longleftrightarrow> c * p + n * (1 - p) < c" using assms(2) by simp
  also have "\<dots> \<longleftrightarrow> (1 - p) * n < (1 - p) * c" by (auto simp: algebra_simps)
  also have "\<dots> \<longleftrightarrow> n < c" using assms(3) by simp
  also have "\<dots> \<longleftrightarrow> 525/1000 < c" using r by (auto simp: min_def)
  finally show ?thesis using update_posterior_bayes(1) [of p c n] assms pos by simp
qed

text \<open>Larger improvements give larger posteriors, where the exponential is monotone and overflows only on large arguments.\<close>

definition exp_like :: "(rat \<Rightarrow> rat option) \<Rightarrow> bool" where
  "exp_like ex \<longleftrightarrow> (\<forall>x y. x \<le> y \<longrightarrow> (case ex y of Some b \<Rightarrow> (\<exists>a. ex x = Some a \<and> 0 \<le> a \<and> a \<le> b) | None \<Rightarrow> 0 < y))"

lemma likelihood_mono:
  assumes "exp_like ex" "0 \<le> cb_sigmoid_k cp" "d \<le> d'"
    and "calculate_calibrated_likelihoods ex cp d = (c, n)" "calculate_calibrated_likelihoods ex cp d' = (c', n')"
  shows "c \<le> c'" "n' \<le> n"
proof -
  let ?x = "cb_sigmoid_k cp * (d - cb_sigmoid_theta cp)" and ?x' = "cb_sigmoid_k cp * (d' - cb_sigmoid_theta cp)"
  define raw where "raw x = (case ex (- x) of Some e \<Rightarrow> 1 / (1 + e) | None \<Rightarrow> if 0 < x then 1 else 0)" for x
  have x: "- ?x' \<le> - ?x" using assms(2,3) by (simp add: mult_left_mono)
  have "raw ?x \<le> raw ?x'"
  proof (cases "ex (- ?x)")
    case None
    then have "0 < - ?x" using assms(1) [unfolded exp_like_def, rule_format, of "- ?x" "- ?x"] by simp
    then have "raw ?x = 0" using None by (simp add: raw_def)
    moreover have "0 \<le> a" if "ex y = Some a" for a y
      using assms(1) [unfolded exp_like_def, rule_format, of y y] that by simp
    then have "0 \<le> raw ?x'" by (fastforce simp: raw_def split: option.splits)
    ultimately show ?thesis by simp
  next
    case (Some b)
    then obtain a where "ex (- ?x') = Some a" "0 \<le> a" "a \<le> b" using assms(1) x unfolding exp_like_def by fastforce
    with Some show ?thesis by (simp add: raw_def frac_le)
  qed
  then have "min (95/100) (max (5/100) (raw ?x)) \<le> min (95/100) (max (5/100) (raw ?x'))" by (intro min.mono max.mono order_refl)
  moreover have "c = min (95/100) (max (5/100) (raw ?x))" "c' = min (95/100) (max (5/100) (raw ?x'))"
    using assms(4,5) by (auto simp: calculate_calibrated_likelihoods_def Let_def raw_def [symmetric])
  ultimately show c: "c \<le> c'" by simp
  show "n' \<le> n" unfolding likelihood_range(3) [OF assms(4)] likelihood_range(3) [OF assms(5)] using c by (intro min.mono diff_left_mono order_refl)
qed

lemma update_posterior_mono:
  assumes "0 < c" "c \<le> c'" "0 < n'" "n' \<le> n"
  shows "update_posterior p c n \<le> update_posterior p c' n'"
proof (cases "0 < p \<and> p < 1")
  case True
  let ?q = "update_posterior p c n"
  have pos: "0 < c'" "0 < n" using assms by auto
  note b = update_posterior_bayes [of p c n, OF _ _ assms(1) pos(2)]
  have "?q * n * (1 - p) \<le> (1 - ?q) * (c * p)" using posterior_above_iff [of p c n ?q] True assms pos b(3) by simp
  moreover have "?q * n' * (1 - p) \<le> ?q * n * (1 - p)" using True assms b(2) by (intro mult_right_mono mult_left_mono) auto
  moreover have "(1 - ?q) * (c * p) \<le> (1 - ?q) * (c' * p)" using True assms b(3) by (intro mult_left_mono mult_right_mono) auto
  ultimately have "?q * n' * (1 - p) \<le> (1 - ?q) * (c' * p)" by linarith
  then show ?thesis using posterior_above_iff [of p c' n' ?q] True assms pos b(3) by simp
qed (auto simp: update_posterior_def)

text \<open>
  One test of a candidate is a sound Bayesian update. The likelihoods lie between 0.05 and 0.95, the posterior between zero
  and one; it exceeds the prior exactly when the response to the improvement is above 0.525; larger improvements give
  larger posteriors; and from a prior below 18/37 no improvement reaches the confidence of 0.9 at which a session stops.
\<close>

theorem posterior_sound:
  assumes "exp_like ex" "0 \<le> cb_sigmoid_k cp" "0 < p" "p < 1"
  shows "(case calculate_calibrated_likelihoods ex cp d of (c, n) \<Rightarrow>
      {c, n} \<subseteq> {5/100 .. 95/100} \<and> 0 < update_posterior p c n \<and> update_posterior p c n < 1 \<and>
      (p < update_posterior p c n \<longleftrightarrow> 525/1000 < c) \<and> (9/10 \<le> update_posterior p c n \<longrightarrow> 18/37 \<le> p) \<and>
      (\<forall>d'\<ge>d. case calculate_calibrated_likelihoods ex cp d' of (c', n') \<Rightarrow> update_posterior p c n \<le> update_posterior p c' n'))"
proof -
  obtain c n where l: "calculate_calibrated_likelihoods ex cp d = (c, n)" by fastforce
  note r = likelihood_range [OF l]
  have pos: "0 < c" "0 < n" using r(1,4) by linarith+
  have "update_posterior p c n \<le> update_posterior p c' n'"
    if "d \<le> d'" "calculate_calibrated_likelihoods ex cp d' = (c', n')" for d' c' n'
    using likelihood_mono [OF assms(1,2) that(1) l that(2)] likelihood_range(4) [OF that(2)] pos by (intro update_posterior_mono) auto
  then have mono: "\<forall>d'\<ge>d. case calculate_calibrated_likelihoods ex cp d' of (c', n') \<Rightarrow> update_posterior p c n \<le> update_posterior p c' n'"
    by (auto split: prod.splits)
  have "{c, n} \<subseteq> {5/100 .. 95/100}" using r(1,2,4,5) by simp
  with mono update_posterior_bayes(2,3) [OF assms(3,4) pos] evidence_raises_iff [OF l assms(3,4)] confident_posterior_needs_prior [OF l, of p]
  show ?thesis unfolding l prod.case by (intro conjI impI) assumption+
qed

definition step_exp :: "rat \<Rightarrow> rat option" where
  "step_exp x = (if x \<le> 0 then Some 0 else None)"

theorem posterior_sound_witness:
  "exp_like step_exp \<and> calculate_calibrated_likelihoods step_exp default_params 1 = (95/100, 10/100) \<and> 1/2 < update_posterior (1/2) (95/100) (10/100)"
proof -
  have e: "exp_like step_exp" by (auto simp: exp_like_def step_exp_def)
  have l: "calculate_calibrated_likelihoods step_exp default_params 1 = (95/100, 10/100)"
    by (simp add: calculate_calibrated_likelihoods_def default_params_def step_exp_def)
  from posterior_sound [OF e, of default_params "1/2" 1] e l show ?thesis by (simp add: default_params_def)
qed

theorem blast_radius_exact_witness:
  "estimate_candidate_blast_radius default_params ''retriever'' [(''retriever'', ''b''), (''b'', ''retriever'')] [''retriever'', ''b''] \<le> 1"
proof -
  have m: "{''retriever''} = {n \<in> set [''retriever'', ''b'']. contains_text (py_lower ''retriever'') (py_lower n)}"
    by (auto simp: py_lower_def lower_char_def)
  have "[(''retriever'', ''b''), (''b'', ''retriever'')] \<noteq> []" "{''retriever''} \<noteq> {}" by simp_all
  from blast_radius_exact [OF this(1) m this(2), of default_params, THEN conjunct2] show ?thesis by (rule mp) simp
qed

subsection \<open>What the calibration error does not see\<close>

lemma certain_predictions_in_no_bin: "1 \<le> p \<Longrightarrow> i < bins \<Longrightarrow> \<not> in_bin bins i p"
proof -
  assume "1 \<le> p" "i < bins"
  moreover from this have "of_nat (Suc i) / of_nat bins \<le> (1 :: rat)" by (simp add: divide_le_eq_1 del: of_nat_Suc)
  ultimately show ?thesis unfolding in_bin_def by linarith
qed

text \<open>
  The last bin is open: predictions of certainty are in no bin, so a model that is certain and always wrong has no
  calibration error.
\<close>

lemma certain_and_wrong_is_calibrated:
  assumes "predictions \<noteq> []" "length observations = length predictions" "0 < bins" "\<forall>p\<in>set predictions. 1 \<le> p"
  shows "compute_expected_calibration_error predictions observations bins = Inr 0"
proof -
  have "bin_of bins (zip predictions observations) i = []" if "i < bins" for i
    using certain_predictions_in_no_bin that assms(4) by (auto simp: bin_of_def filter_empty_conv dest!: set_zip_leftD)
  then have "fold (\<lambda>i ece. let b = bin_of bins (zip predictions observations) i in
      if b = [] then ece else ece + of_nat (length b) / of_nat (length predictions) * \<bar>mean (map fst b) - mean (map snd b)\<bar>) [0..<k] 0 = (0 :: rat)"
    if "k \<le> bins" for k using that by (induction k) auto
  then show ?thesis using assms by (auto simp: compute_expected_calibration_error_def)
qed

end
