(* ===== verification/Diffusion.thy ===== *)
theory Diffusion
  imports Reliability "HOL-Library.Product_Lexorder"
begin

text \<open>
  Scores of suspicion on a trace: the backward diffusion of \<open>diffusion/src/engine.py\<close> (with the contracts of
  \<open>diffusion/src/contracts.py\<close>) and the trace detector of \<open>detectors/src/gat_inference.py\<close>. The trained network, \<open>log1p\<close> and Python's
  \<open>hash\<close> are parameters.
\<close>

subsection \<open>Backward diffusion\<close>

record node_state =
  nd_node_id :: string
  nd_symptom :: rat

record edge_features =
  ef_source_id :: string
  ef_target_id :: string
  ef_confidence :: rat
  ef_directionality :: rat

record diffusion_engine =
  de_num_steps :: nat
  de_decay :: rat

definition default_diffusion :: diffusion_engine where
  "default_diffusion = \<lparr>de_num_steps = 3, de_decay = 85/100\<rparr>"

type_synonym scores = "(string \<times> rat) list"

definition score_of :: "scores \<Rightarrow> string \<Rightarrow> rat" where
  "score_of s n = (case map_of s n of Some x \<Rightarrow> x | None \<Rightarrow> 0)"

definition initial_scores :: "node_state list \<Rightarrow> scores" where
  "initial_scores nodes = fold (\<lambda>n. dict_put (nd_node_id n) (nd_symptom n)) nodes []"

definition add_backward :: "edge_features \<Rightarrow> (string \<times> edge_features list) list \<Rightarrow> (string \<times> edge_features list) list" where
  "add_backward e b = dict_put (ef_target_id e) ((case map_of b (ef_target_id e) of Some es \<Rightarrow> es | None \<Rightarrow> []) @ [e]) b"

definition backward_edges :: "edge_features list \<Rightarrow> (string \<times> edge_features list) list" where
  "backward_edges es = fold add_backward es []"

definition message :: "diffusion_engine \<Rightarrow> rat \<Rightarrow> edge_features \<Rightarrow> rat" where
  "message de target_score e =
     (let m = target_score * ef_confidence e * de_decay de in if ef_directionality e < 0 then m * (5/10) else m)"

definition send :: "diffusion_engine \<Rightarrow> rat \<Rightarrow> edge_features \<Rightarrow> scores \<Rightarrow> scores" where
  "send de target_score e new = dict_put (ef_source_id e) (min 1 (score_of new (ef_source_id e) + message de target_score e)) new"

definition diffuse_target :: "diffusion_engine \<Rightarrow> scores \<Rightarrow> string \<times> edge_features list \<Rightarrow> scores \<Rightarrow> scores" where
  "diffuse_target de s b new =
     (let target_score = score_of s (fst b) in if 0 < target_score then fold (send de target_score) (snd b) new else new)"

definition diffuse_step :: "diffusion_engine \<Rightarrow> edge_features list \<Rightarrow> scores \<Rightarrow> scores" where
  "diffuse_step de es s = fold (diffuse_target de s) (backward_edges es) s"

primrec diffuse :: "diffusion_engine \<Rightarrow> edge_features list \<Rightarrow> nat \<Rightarrow> scores \<Rightarrow> scores" where
  "diffuse de es 0 s = s"
| "diffuse de es (Suc k) s = diffuse de es k (diffuse_step de es s)"

record diffusion_output =
  do_root_probability :: rat
  do_symptom_probability :: rat
  do_influential :: "string list"
  do_propagation_depth :: nat
  do_delta_from_local :: rat

definition output_of :: "diffusion_engine \<Rightarrow> edge_features list \<Rightarrow> scores \<Rightarrow> node_state \<Rightarrow> diffusion_output" where
  "output_of de es s n =
     \<lparr>do_root_probability = min 1 (score_of s (nd_node_id n)), do_symptom_probability = nd_symptom n,
      do_influential = map ef_source_id (filter (\<lambda>e. 1/10 < score_of s (ef_source_id e))
        (case map_of (backward_edges es) (nd_node_id n) of Some xs \<Rightarrow> xs | None \<Rightarrow> [])),
      do_propagation_depth = de_num_steps de, do_delta_from_local = score_of s (nd_node_id n) - nd_symptom n\<rparr>"

definition run_backward_diffusion ::
    "diffusion_engine \<Rightarrow> node_state list \<Rightarrow> edge_features list \<Rightarrow> (string \<times> diffusion_output) list" where
  "run_backward_diffusion de nodes es =
     (let s = diffuse de es (de_num_steps de) (initial_scores nodes) in
      fold (\<lambda>n. dict_put (nd_node_id n) (output_of de es s n)) nodes [])"

subsection \<open>The trace detector\<close>

record trace_span =
  tp_span_id :: string
  tp_parent_id :: "string option"
  tp_duration_ms :: rat
  tp_operation_name :: string
  tp_is_error :: bool

record suspicious =
  su_span_id :: string
  su_duration_ms :: rat
  su_is_error :: bool
  su_self_time_ratio :: rat
  su_node_fault_prob :: rat

record detection =
  dt_is_fault :: bool
  dt_fault_probability :: rat
  dt_num_spans :: nat
  dt_candidates :: "suspicious list"

type_synonym network = "rat list list \<Rightarrow> (nat \<times> nat) list \<Rightarrow> bool \<times> rat \<times> rat list"

definition span_index :: "trace_span list \<Rightarrow> string \<Rightarrow> nat option" where
  "span_index spans i = map_of (fold (\<lambda>(k, s). dict_put (tp_span_id s) k) (enumerate 0 spans) []) i"

definition parent_index :: "trace_span list \<Rightarrow> trace_span \<Rightarrow> nat option" where
  "parent_index spans s = (case tp_parent_id s of None \<Rightarrow> None | Some p \<Rightarrow> if p = [] then None else span_index spans p)"

definition children_of :: "trace_span list \<Rightarrow> nat \<Rightarrow> trace_span list" where
  "children_of spans i = filter (\<lambda>s. parent_index spans s = Some i) spans"

definition trace_edges :: "trace_span list \<Rightarrow> (nat \<times> nat) list" where
  "trace_edges spans =
     (let es = concat (map (\<lambda>(i, s). case parent_index spans s of Some p \<Rightarrow> [(p, i), (i, p)] | None \<Rightarrow> []) (enumerate 0 spans)) in
      if es = [] then map (\<lambda>i. (i, i)) [0..<length spans] else es)"

definition total_duration :: "trace_span list \<Rightarrow> rat" where
  "total_duration spans = Max (set (map tp_duration_ms spans)) + 1/10^5"

definition self_time_ratio :: "trace_span list \<Rightarrow> nat \<Rightarrow> trace_span \<Rightarrow> rat" where
  "self_time_ratio spans i s =
     max 0 (tp_duration_ms s - sum_list (map tp_duration_ms (children_of spans i))) / total_duration spans"

definition node_features :: "(rat \<Rightarrow> rat) \<Rightarrow> (string \<Rightarrow> int) \<Rightarrow> trace_span list \<Rightarrow> rat list list" where
  "node_features log1p hash spans = map (\<lambda>(i, s).
     [log1p (tp_duration_ms s), tp_duration_ms s / total_duration spans, self_time_ratio spans i s, (if tp_is_error s then 1 else 0),
      of_nat (length (children_of spans i)), of_int (hash (tp_operation_name s) mod 50)]) (enumerate 0 spans)"

definition detect_trace_anomaly :: "network option \<Rightarrow> (rat \<Rightarrow> rat) \<Rightarrow> (string \<Rightarrow> int) \<Rightarrow> trace_span list \<Rightarrow> detection" where
  "detect_trace_anomaly model log1p hash spans =
     (case model of
        None \<Rightarrow> \<lparr>dt_is_fault = False, dt_fault_probability = 0, dt_num_spans = length spans, dt_candidates = []\<rparr>
      | Some net \<Rightarrow>
          if spans = [] then \<lparr>dt_is_fault = False, dt_fault_probability = 0, dt_num_spans = 0, dt_candidates = []\<rparr>
          else let (is_fault, fault_prob, node_probs) = net (node_features log1p hash spans) (trace_edges spans);
                   found = map (\<lambda>(i, s). \<lparr>su_span_id = tp_span_id s, su_duration_ms = tp_duration_ms s, su_is_error = tp_is_error s,
                     su_self_time_ratio = self_time_ratio spans i s, su_node_fault_prob = node_probs ! i\<rparr>) (enumerate 0 spans)
               in \<lparr>dt_is_fault = is_fault, dt_fault_probability = round4 fault_prob, dt_num_spans = length spans,
                   dt_candidates = take 3 (sort_key (\<lambda>u. (- su_node_fault_prob u, \<not> su_is_error u, - su_self_time_ratio u, - su_duration_ms u)) found)\<rparr>)"

subsection \<open>Diffusion finds what can have caused a symptom\<close>

lemma distinct_backward: "distinct (map fst (backward_edges es))"
proof -
  have "distinct (map fst b) \<Longrightarrow> distinct (map fst (fold add_backward es b))" for b
    by (induction es arbitrary: b) (simp_all add: add_backward_def)
  then show ?thesis by (simp add: backward_edges_def)
qed

lemma map_of_backward:
  "map_of (backward_edges es) t = (let xs = filter (\<lambda>e. ef_target_id e = t) es in if xs = [] then None else Some xs)"
  by (induction es rule: rev_induct) (auto simp: backward_edges_def add_backward_def Let_def)

lemma set_backward: "(t, xs) \<in> set (backward_edges es) \<longleftrightarrow> xs \<noteq> [] \<and> xs = filter (\<lambda>e. ef_target_id e = t) es"
  using map_of_eq_Some_iff [OF distinct_backward, of es t xs] by (auto simp: map_of_backward Let_def split: if_splits)

text \<open>One pass sends along a list of edges with the score of their target.\<close>

definition sendings :: "edge_features list \<Rightarrow> scores \<Rightarrow> (rat \<times> edge_features) list" where
  "sendings es s = concat (map (\<lambda>(t, xs). if 0 < score_of s t then map (Pair (score_of s t)) xs else []) (backward_edges es))"

lemma set_sendings: "set (sendings es s) = {(q, e). e \<in> set es \<and> q = score_of s (ef_target_id e) \<and> 0 < q}"
proof -
  have "(q, e) \<in> set (sendings es s) \<longleftrightarrow> (\<exists>t xs. (t, xs) \<in> set (backward_edges es) \<and> 0 < score_of s t \<and> q = score_of s t \<and> e \<in> set xs)" for q e
    by (force simp: sendings_def)
  then show ?thesis by (auto simp: set_backward filter_empty_conv)
qed

lemma diffuse_step_sendings: "diffuse_step de es s = fold (\<lambda>(q, e). send de q e) (sendings es s) s"
proof -
  have "fold (diffuse_target de s) b new = fold (\<lambda>(q, e). send de q e)
      (concat (map (\<lambda>(t, xs). if 0 < score_of s t then map (Pair (score_of s t)) xs else []) b)) new" for b new
    by (induction b arbitrary: new) (auto simp: diffuse_target_def Let_def fold_map comp_def)
  then show ?thesis by (simp add: diffuse_step_def sendings_def)
qed

lemma score_of_send:
  "score_of (send de q e new) n = (if n = ef_source_id e then min 1 (score_of new n + message de q e) else score_of new n)"
  by (simp add: score_of_def send_def)

lemma message_pos: "0 < q \<Longrightarrow> 0 < ef_confidence e \<Longrightarrow> 0 < de_decay de \<Longrightarrow> 0 < message de q e"
  by (simp add: message_def Let_def)

lemma fold_send:
  assumes "\<forall>(q, e)\<in>set L. 0 < q \<and> 0 < ef_confidence e" "0 < de_decay de" "score_of new n \<le> 1"
  shows "score_of new n \<le> score_of (fold (\<lambda>(q, e). send de q e) L new) n \<and> score_of (fold (\<lambda>(q, e). send de q e) L new) n \<le> 1 \<and>
    (0 \<le> score_of new n \<longrightarrow>
      (0 < score_of (fold (\<lambda>(q, e). send de q e) L new) n \<longleftrightarrow> 0 < score_of new n \<or> (\<exists>(q, e)\<in>set L. ef_source_id e = n)))"
  using assms
proof (induction L arbitrary: new)
  case (Cons p L)
  obtain q e where p: "p = (q, e)" by fastforce
  have m: "0 < message de q e" using Cons.prems p by (auto intro: message_pos)
  have s: "score_of new n \<le> score_of (send de q e new) n" "score_of (send de q e new) n \<le> 1"
    "0 \<le> score_of new n \<longrightarrow> (0 < score_of (send de q e new) n \<longleftrightarrow> 0 < score_of new n \<or> ef_source_id e = n)"
    using m Cons.prems(3) by (auto simp: score_of_send)
  have IH: "score_of (send de q e new) n \<le> score_of (fold (\<lambda>(q, e). send de q e) L (send de q e new)) n"
    "score_of (fold (\<lambda>(q, e). send de q e) L (send de q e new)) n \<le> 1"
    "0 \<le> score_of (send de q e new) n \<longrightarrow> (0 < score_of (fold (\<lambda>(q, e). send de q e) L (send de q e new)) n \<longleftrightarrow>
       0 < score_of (send de q e new) n \<or> (\<exists>(q, e)\<in>set L. ef_source_id e = n))"
    using Cons.IH [of "send de q e new"] Cons.prems s(2) by auto
  show ?case using s IH p by auto
qed simp

definition causes :: "edge_features list \<Rightarrow> (string \<times> string) set" where
  "causes es = (\<lambda>e. (ef_source_id e, ef_target_id e)) ` set es"

lemma diffuse_step_score:
  assumes "\<forall>e\<in>set es. 0 < ef_confidence e" "0 < de_decay de" "\<forall>n. 0 \<le> score_of s n \<and> score_of s n \<le> 1"
  shows "score_of s n \<le> score_of (diffuse_step de es s) n" "score_of (diffuse_step de es s) n \<le> 1"
    "0 < score_of (diffuse_step de es s) n \<longleftrightarrow> 0 < score_of s n \<or> (\<exists>t. (n, t) \<in> causes es \<and> 0 < score_of s t)"
proof -
  have L: "\<forall>(q, e)\<in>set (sendings es s). 0 < q \<and> 0 < ef_confidence e" using assms(1) by (auto simp: set_sendings)
  have ex: "(\<exists>(q, e)\<in>set (sendings es s). ef_source_id e = n) \<longleftrightarrow> (\<exists>t. (n, t) \<in> causes es \<and> 0 < score_of s t)"
    by (auto simp: set_sendings causes_def)
  note f = fold_send [OF L assms(2), of s n, folded diffuse_step_sendings, unfolded ex]
  show "score_of s n \<le> score_of (diffuse_step de es s) n" "score_of (diffuse_step de es s) n \<le> 1"
    "0 < score_of (diffuse_step de es s) n \<longleftrightarrow> 0 < score_of s n \<or> (\<exists>t. (n, t) \<in> causes es \<and> 0 < score_of s t)"
    using f assms(3) by auto
qed

lemma diffuse_score:
  assumes "\<forall>e\<in>set es. 0 < ef_confidence e" "0 < de_decay de" "\<forall>n. 0 \<le> score_of s n \<and> score_of s n \<le> 1"
  shows "score_of s n \<le> score_of (diffuse de es k s) n \<and> score_of (diffuse de es k s) n \<le> 1 \<and>
    (0 < score_of (diffuse de es k s) n \<longleftrightarrow> (\<exists>j\<le>k. \<exists>m. (n, m) \<in> causes es ^^ j \<and> 0 < score_of s m))"
  using assms(3)
proof (induction k arbitrary: s)
  case (Suc k)
  note st = diffuse_step_score [OF assms(1,2) Suc.prems]
  have "\<forall>n. 0 \<le> score_of (diffuse_step de es s) n \<and> score_of (diffuse_step de es s) n \<le> 1" using st Suc.prems by (meson order_trans)
  note IH = Suc.IH [OF this]
  have "(\<exists>j\<le>k. \<exists>m. (n, m) \<in> causes es ^^ j \<and> 0 < score_of (diffuse_step de es s) m) \<longleftrightarrow>
      (\<exists>j\<le>Suc k. \<exists>m. (n, m) \<in> causes es ^^ j \<and> 0 < score_of s m)" (is "?L \<longleftrightarrow> ?R")
  proof
    assume ?L
    then obtain j m where j: "j \<le> k" "(n, m) \<in> causes es ^^ j" "0 < score_of s m \<or> (\<exists>t. (m, t) \<in> causes es \<and> 0 < score_of s t)" by (auto simp: st(3))
    then show ?R
    proof (elim disjE exE conjE)
      fix t assume "(m, t) \<in> causes es" "0 < score_of s t"
      then show ?R using j by (intro exI [of _ "Suc j"]) auto
    qed (use j le_SucI in blast)
  next
    assume ?R
    then obtain j m where j: "j \<le> Suc k" "(n, m) \<in> causes es ^^ j" "0 < score_of s m" by blast
    show ?L
    proof (cases j)
      case 0
      with j show ?thesis by (auto simp: st(3))
    next
      case (Suc i)
      then obtain l where "(n, l) \<in> causes es ^^ i" "(l, m) \<in> causes es" using j by auto
      then show ?thesis using Suc j by (intro exI [of _ i]) (auto simp: st(3))
    qed
  qed
  then show ?case using IH st(1) by (auto intro: order_trans)
qed auto

lemma map_of_fold_put:
  "x \<notin> k ` set xs \<Longrightarrow> map_of (fold (\<lambda>y. dict_put (k y) (v y)) xs d) x = map_of d x"
  "distinct (map k xs) \<Longrightarrow> y \<in> set xs \<Longrightarrow> map_of (fold (\<lambda>y. dict_put (k y) (v y)) xs d) (k y) = Some (v y)"
proof -
  show none: "x \<notin> k ` set xs \<Longrightarrow> map_of (fold (\<lambda>y. dict_put (k y) (v y)) xs d) x = map_of d x" for x xs d
    by (induction xs arbitrary: d) auto
  show "distinct (map k xs) \<Longrightarrow> y \<in> set xs \<Longrightarrow> map_of (fold (\<lambda>y. dict_put (k y) (v y)) xs d) (k y) = Some (v y)"
    by (induction xs arbitrary: d) (auto simp: none)
qed

lemma score_of_initial:
  "distinct (map nd_node_id nodes) \<Longrightarrow> x \<in> set nodes \<Longrightarrow> score_of (initial_scores nodes) (nd_node_id x) = nd_symptom x"
  "i \<notin> nd_node_id ` set nodes \<Longrightarrow> score_of (initial_scores nodes) i = 0"
  unfolding score_of_def initial_scores_def by (simp_all add: map_of_fold_put(2) map_of_fold_put(1))

lemma diffusion_result:
  assumes "distinct (map nd_node_id nodes)" "x \<in> set nodes"
  shows "map_of (run_backward_diffusion de nodes es) (nd_node_id x) =
    Some (output_of de es (diffuse de es (de_num_steps de) (initial_scores nodes)) x)"
  unfolding run_backward_diffusion_def Let_def using assms by (rule map_of_fold_put(2))

text \<open>
  C40. Diffusion is bounded reachability. With symptoms between zero and one, positive confidences and a positive decay, the root
  score of a node lies between its own symptom and one, and it is positive exactly when a node with a symptom is
  reached from it along at most as many edges as there are steps.
\<close>

theorem diffusion_exact:
  assumes "distinct (map nd_node_id nodes)" "\<forall>x\<in>set nodes. 0 \<le> nd_symptom x \<and> nd_symptom x \<le> 1"
    and "\<forall>e\<in>set es. 0 < ef_confidence e" "0 < de_decay de" "x \<in> set nodes"
  shows "\<exists>out. map_of (run_backward_diffusion de nodes es) (nd_node_id x) = Some out \<and>
    nd_symptom x \<le> do_root_probability out \<and> do_root_probability out \<le> 1 \<and>
    (0 < do_root_probability out \<longleftrightarrow>
      (\<exists>j\<le>de_num_steps de. \<exists>y\<in>set nodes. 0 < nd_symptom y \<and> (nd_node_id x, nd_node_id y) \<in> causes es ^^ j))"
proof -
  let ?s = "initial_scores nodes"
  have unit: "\<forall>n. 0 \<le> score_of ?s n \<and> score_of ?s n \<le> 1"
  proof
    fix n show "0 \<le> score_of ?s n \<and> score_of ?s n \<le> 1"
      using assms(2) score_of_initial assms(1) by (cases "n \<in> nd_node_id ` set nodes") auto
  qed
  have pos: "0 < score_of ?s m \<longleftrightarrow> (\<exists>y\<in>set nodes. nd_node_id y = m \<and> 0 < nd_symptom y)" for m
  proof
    assume p: "0 < score_of ?s m"
    then have "m \<in> nd_node_id ` set nodes" using score_of_initial(2) by force
    then obtain y where "y \<in> set nodes" "nd_node_id y = m" by blast
    with p score_of_initial(1) [OF assms(1)] show "\<exists>y\<in>set nodes. nd_node_id y = m \<and> 0 < nd_symptom y" by force
  next
    assume "\<exists>y\<in>set nodes. nd_node_id y = m \<and> 0 < nd_symptom y"
    with score_of_initial(1) [OF assms(1)] show "0 < score_of ?s m" by force
  qed
  note d = diffuse_score [OF assms(3,4) unit, of "nd_node_id x" "de_num_steps de", unfolded pos]
  have x: "score_of ?s (nd_node_id x) = nd_symptom x" using score_of_initial(1) assms(1,5) by blast
  show ?thesis unfolding diffusion_result [OF assms(1,5)] using d x by (auto simp: output_of_def)
qed

text \<open>
  The explanation of a node lists the sources of the edges into it, while its score comes from the targets of the edges
  out of it. On an edge from a cause to a failed node the cause has no explanation and the failed node is explained by the cause.
\<close>

definition failing_pair :: "node_state list \<times> edge_features list" where
  "failing_pair = ([\<lparr>nd_node_id = ''a'', nd_symptom = 0\<rparr>, \<lparr>nd_node_id = ''b'', nd_symptom = 1\<rparr>],
     [\<lparr>ef_source_id = ''a'', ef_target_id = ''b'', ef_confidence = 9/10, ef_directionality = 1\<rparr>])"

lemma explanation_is_reversed:
  "map (\<lambda>(n, out). (n, do_influential out, 0 < do_delta_from_local out)) (run_backward_diffusion default_diffusion (fst failing_pair) (snd failing_pair)) =
     [(''a'', [], True), (''b'', [''a''], False)]"
  by (simp add: failing_pair_def run_backward_diffusion_def Let_def default_diffusion_def eval_nat_numeral diffuse_step_def backward_edges_def
      add_backward_def initial_scores_def diffuse_target_def send_def message_def score_of_def output_of_def)

theorem diffusion_exact_witness:
  "\<exists>out. map_of (run_backward_diffusion default_diffusion (fst failing_pair) (snd failing_pair)) ''a'' = Some out \<and> 0 < do_root_probability out"
proof -
  let ?x = "\<lparr>nd_node_id = ''a'', nd_symptom = 0\<rparr>"
  have h: "distinct (map nd_node_id (fst failing_pair))" "\<forall>x\<in>set (fst failing_pair). 0 \<le> nd_symptom x \<and> nd_symptom x \<le> 1"
    "\<forall>e\<in>set (snd failing_pair). 0 < ef_confidence e" "0 < de_decay default_diffusion" "?x \<in> set (fst failing_pair)"
    by (simp_all add: failing_pair_def default_diffusion_def)
  have e: "(''a'', ''b'') \<in> causes (snd failing_pair) ^^ 1" by (simp add: causes_def failing_pair_def)
  obtain out where out: "map_of (run_backward_diffusion default_diffusion (fst failing_pair) (snd failing_pair)) ''a'' = Some out"
    "0 < do_root_probability out \<longleftrightarrow> (\<exists>j\<le>de_num_steps default_diffusion. \<exists>y\<in>set (fst failing_pair).
       0 < nd_symptom y \<and> (''a'', nd_node_id y) \<in> causes (snd failing_pair) ^^ j)"
    using diffusion_exact [OF h] by auto
  have "\<exists>j\<le>de_num_steps default_diffusion. \<exists>y\<in>set (fst failing_pair). 0 < nd_symptom y \<and> (''a'', nd_node_id y) \<in> causes (snd failing_pair) ^^ j"
    by (rule exI [of _ 1]) (use e in \<open>auto simp: failing_pair_def default_diffusion_def\<close>)
  with out show ?thesis by blast
qed

subsection \<open>What the detector reports\<close>

lemma self_time_ratio_unit:
  assumes "\<forall>s\<in>set spans. 0 \<le> tp_duration_ms s" "(i, s) \<in> set (enumerate 0 spans)"
  shows "0 \<le> self_time_ratio spans i s" "self_time_ratio spans i s < 1"
proof -
  have s: "s \<in> set spans" using assms(2) by (auto simp: in_set_enumerate_eq)
  then have m: "tp_duration_ms s \<le> Max (set (map tp_duration_ms spans))" by simp
  moreover have "0 \<le> tp_duration_ms s" using assms(1) s by blast
  ultimately have pos: "0 < total_duration spans" unfolding total_duration_def by (simp add: add_nonneg_pos)
  have "0 \<le> sum_list (map tp_duration_ms (children_of spans i))" using assms(1) by (intro sum_list_nonneg) (auto simp: children_of_def)
  then have "max 0 (tp_duration_ms s - sum_list (map tp_duration_ms (children_of spans i))) < total_duration spans"
    using m pos by (auto simp: total_duration_def)
  then show "0 \<le> self_time_ratio spans i s" "self_time_ratio spans i s < 1" using pos by (auto simp: self_time_ratio_def divide_less_eq_1)
qed

text \<open>The detector names at most three spans, all of the trace, with a share of own time between zero and one.\<close>

lemma detector_candidates:
  assumes "\<forall>s\<in>set spans. 0 \<le> tp_duration_ms s" "u \<in> set (dt_candidates (detect_trace_anomaly model log1p hash spans))"
  shows "length (dt_candidates (detect_trace_anomaly model log1p hash spans)) \<le> 3" "su_span_id u \<in> tp_span_id ` set spans"
    "0 \<le> su_self_time_ratio u" "su_self_time_ratio u < 1"
proof -
  have "\<exists>i s. (i, s) \<in> set (enumerate 0 spans) \<and> su_span_id u = tp_span_id s \<and> su_self_time_ratio u = self_time_ratio spans i s"
    using assms(2) by (fastforce simp: detect_trace_anomaly_def Let_def split: option.splits if_splits prod.splits dest!: in_set_takeD)
  then show "su_span_id u \<in> tp_span_id ` set spans" "0 \<le> su_self_time_ratio u" "su_self_time_ratio u < 1"
    using self_time_ratio_unit [OF assms(1)] by (auto simp: in_set_enumerate_eq)
  show "length (dt_candidates (detect_trace_anomaly model log1p hash spans)) \<le> 3"
    by (auto simp: detect_trace_anomaly_def Let_def split: option.splits prod.splits)
qed

end
