(* ===== verification/Bandit_Session.thy ===== *)
theory Bandit_Session
  imports Bandit_Calibration Diffusion
begin

text \<open>
  Sessions of the causal reasoning board: \<open>bcrb/src/candidate_planner.py\<close>, \<open>bcrb/src/orchestrator.py\<close>, the models of
  \<open>contracts/src/bcrb_models.py\<close>, and the canary of \<open>replay/src/test_framework.py\<close>, which runs a replay with the engine. A session
  proposes candidates from an invocation history, tests them one after the other and stops on a budget, a confidence or
  exhaustion. Identifiers are numbers; identifiers and times of steps are left out, and a random shuffle is the order of
  arbitrary ranks. Reading a stored span is a parameter.
\<close>

subsection \<open>Data\<close>

datatype step_status = PLANNED | EXECUTING | COMPLETED | STEP_FAILED | SKIPPED | BUDGET_BLOCKED

datatype stopping_condition =
    CONFIDENCE_REACHED | RELIABILITY_RECOVERED | BUDGET_EXHAUSTED | ALL_SAFE_CANDIDATES_TESTED
  | EXPECTED_UTILITY_BELOW_THRESHOLD | NO_SAFE_INTERVENTION | INSUFFICIENT_EVIDENCE

record bcrb_candidate =
  bc_id :: nat
  bc_component_type :: string
  bc_intervention_type :: string
  bc_utility :: rat
  bc_cost :: rat
  bc_risk :: rat
  bc_blast_radius :: rat
  bc_reliability_delta :: rat
  bc_information_gain :: rat
  bc_prior :: rat
  bc_posterior :: "rat option"
  bc_evidence :: "(rat \<times> rat \<times> rat) option"

record bcrb_step =
  sp_candidate_id :: nat
  sp_status :: step_status
  sp_utility_observed :: "rat option"
  sp_cost_incurred :: "(rat \<times> string) option"
  sp_recovery_effect :: "rat option"
  sp_decision_reason :: "string option"

record bcrb_session =
  ss_run_id :: string
  ss_budget :: rat
  ss_spent :: rat
  ss_candidates :: "bcrb_candidate list"
  ss_steps :: "bcrb_step list"
  ss_stopping :: "stopping_condition option"

record ablation =
  ab_without_gat :: bool
  ab_without_diffusion :: bool
  ab_without_bayesian :: bool
  ab_without_bcrb_utility :: bool
  ab_random_recovery :: bool
  ab_fixed_order_recovery :: bool
  ab_without_replay :: bool
  ab_without_provenance :: bool
  ab_gat_only :: bool
  ab_diffusion_only :: bool
  ab_symptoms_only :: bool

definition no_ablation :: ablation where
  "no_ablation = \<lparr>ab_without_gat = False, ab_without_diffusion = False, ab_without_bayesian = False, ab_without_bcrb_utility = False,
     ab_random_recovery = False, ab_fixed_order_recovery = False, ab_without_replay = False, ab_without_provenance = False,
     ab_gat_only = False, ab_diffusion_only = False, ab_symptoms_only = False\<rparr>"

subsection \<open>Candidates\<close>

record invocation =
  in_agent_type :: "string option"
  in_agent_name :: string
  in_is_error :: bool
  in_start_time :: int
  in_end_time :: "int option"

definition role_type :: "invocation \<Rightarrow> string" where
  "role_type i = (case in_agent_type i of Some t \<Rightarrow> t | None \<Rightarrow> in_agent_name i)"

definition node_name :: "invocation list \<Rightarrow> nat \<Rightarrow> string" where
  "node_name invs i = ''node_'' @ nat_str i @ ''_'' @ role_type (invs ! i)"

definition invocation_failed :: "invocation list \<Rightarrow> string \<Rightarrow> nat \<Rightarrow> bool" where
  "invocation_failed invs failure_symptom i \<longleftrightarrow> in_is_error (invs ! i) \<or> Suc i = length invs \<and> failure_symptom \<noteq> []"

definition plan_nodes :: "invocation list \<Rightarrow> string \<Rightarrow> node_state list" where
  "plan_nodes invs failure_symptom = map (\<lambda>i. \<lparr>nd_node_id = node_name invs i,
     nd_symptom = (if invocation_failed invs failure_symptom i then 1 else 0)\<rparr>) [0..<length invs]"

definition plan_spans :: "invocation list \<Rightarrow> string \<Rightarrow> trace_span list" where
  "plan_spans invs failure_symptom = map (\<lambda>i. \<lparr>tp_span_id = node_name invs i,
     tp_parent_id = (if 0 < i then Some (node_name invs (i - 1)) else None),
     tp_duration_ms = (case in_end_time (invs ! i) of Some t \<Rightarrow> of_int (t - in_start_time (invs ! i)) / 1000 | None \<Rightarrow> 0),
     tp_operation_name = role_type (invs ! i), tp_is_error = invocation_failed invs failure_symptom i\<rparr>) [0..<length invs]"

definition plan_edges :: "invocation list \<Rightarrow> edge_features list" where
  "plan_edges invs = map (\<lambda>i. \<lparr>ef_source_id = node_name invs (i - 1), ef_target_id = node_name invs i, ef_confidence = 9/10,
     ef_directionality = 1\<rparr>) [1..<length invs]"

definition gat_scores :: "suspicious list \<Rightarrow> scores" where
  "gat_scores gcs = fold (\<lambda>g. dict_put (su_span_id g) (su_self_time_ratio g * (if su_is_error g then 2 else 1))) gcs []"

definition prior_of :: "calibration_params \<Rightarrow> ablation \<Rightarrow> rat \<Rightarrow> rat \<Rightarrow> rat \<Rightarrow> (calibration_error, rat) result" where
  "prior_of cp ab gat_score diff_score symptom_score =
     rbind (estimate_prior cp gat_score diff_score symptom_score []) (\<lambda>(combined_prior, ws).
       Inr (if ab_gat_only ab then gat_score else if ab_diffusion_only ab then diff_score
            else if ab_symptoms_only ab then symptom_score else combined_prior))"

definition intervention_for :: "string \<Rightarrow> string \<times> string" where
  "intervention_for node_id =
     (if contains_text ''retriev'' node_id then (''retriever'', ''rollback'')
      else if contains_text ''policy'' node_id then (''policy_check'', ''config_patch'')
      else (''generator'', ''alternate_stable''))"

definition new_candidate ::
    "calibration_params \<Rightarrow> (string \<times> string) list \<Rightarrow> string list \<Rightarrow> nat \<Rightarrow> string \<Rightarrow> rat \<Rightarrow> bcrb_candidate" where
  "new_candidate cp edge_pairs all_ids uid node_id prior =
     (let (ct, it) = intervention_for node_id;
          cost = estimate_candidate_cost cp ct [];
          blast = estimate_candidate_blast_radius cp ct edge_pairs all_ids;
          risk = estimate_candidate_risk cp ct it;
          delta = estimate_reliability_delta ct it;
          gain = estimate_information_gain ct
      in \<lparr>bc_id = uid, bc_component_type = ct, bc_intervention_type = it,
          bc_utility = calculate_candidate_utility prior delta gain cost risk blast, bc_cost = cost, bc_risk = risk,
          bc_blast_radius = blast, bc_reliability_delta = delta, bc_information_gain = gain, bc_prior = prior,
          bc_posterior = None, bc_evidence = None\<rparr>)"

fun propose ::
    "calibration_params \<Rightarrow> ablation \<Rightarrow> (nat \<Rightarrow> nat) \<Rightarrow> node_state list \<Rightarrow> (string \<times> string) list \<Rightarrow> scores \<Rightarrow> (string \<times> rat) list \<Rightarrow>
       bcrb_candidate list \<Rightarrow> (calibration_error, bcrb_candidate list) result" where
  "propose cp ab uids nodes edge_pairs gat [] acc = Inr acc"
| "propose cp ab uids nodes edge_pairs gat ((node_id, diff_score) # outs) acc =
     (let symptom_score = (case List.find (\<lambda>n. nd_node_id n = node_id) nodes of Some n \<Rightarrow> nd_symptom n | None \<Rightarrow> 0) in
      rbind (prior_of cp ab (score_of gat node_id) diff_score symptom_score) (\<lambda>prior.
        propose cp ab uids nodes edge_pairs gat outs
          (if 5/100 < prior then acc @ [new_candidate cp edge_pairs (map nd_node_id nodes) (uids (length acc)) node_id prior] else acc)))"

definition generate_candidates ::
    "network option \<Rightarrow> (rat \<Rightarrow> rat) \<Rightarrow> (string \<Rightarrow> int) \<Rightarrow> calibration_params \<Rightarrow> ablation \<Rightarrow> (nat \<Rightarrow> nat) \<Rightarrow> invocation list \<Rightarrow> string \<Rightarrow>
       (calibration_error, bcrb_candidate list) result" where
  "generate_candidates model log1p hash cp ab uids invs failure_symptom =
     (if invs = [] then Inr []
      else let nodes = plan_nodes invs failure_symptom;
               edges = plan_edges invs;
               gat = (if ab_without_gat ab then []
                 else gat_scores (dt_candidates (detect_trace_anomaly model log1p hash (plan_spans invs failure_symptom))));
               outs = (if ab_without_diffusion ab then map (\<lambda>(i, r). (i, 0)) (fold (\<lambda>n. dict_put (nd_node_id n) ()) nodes [])
                 else map (\<lambda>(i, r). (i, do_root_probability r)) (run_backward_diffusion default_diffusion nodes edges))
           in rbind (propose cp ab uids nodes (map (\<lambda>e. (ef_source_id e, ef_target_id e)) edges) gat outs [])
                (\<lambda>cs. Inr (sort_key (\<lambda>c. - bc_utility c) cs)))"

subsection \<open>The session\<close>

definition evaluate_stopping_conditions :: "bcrb_session \<Rightarrow> stopping_condition option" where
  "evaluate_stopping_conditions ss =
     (if ss_budget ss \<le> ss_spent ss then Some BUDGET_EXHAUSTED
      else if ss_candidates ss = [] then Some ALL_SAFE_CANDIDATES_TESTED
      else if Max (set (map bc_utility (ss_candidates ss))) < 1/10 then Some EXPECTED_UTILITY_BELOW_THRESHOLD
      else None)"

definition shuffle :: "(nat \<Rightarrow> nat) \<Rightarrow> 'a list \<Rightarrow> 'a list" where
  "shuffle rank xs = map (\<lambda>i. xs ! i) (sort_key rank [0..<length xs])"

definition order_candidates :: "ablation \<Rightarrow> (nat \<Rightarrow> nat) \<Rightarrow> bcrb_candidate list \<Rightarrow> bcrb_candidate list" where
  "order_candidates ab rank cs =
     (if ab_random_recovery ab then shuffle rank cs
      else if ab_fixed_order_recovery ab then sort_key bc_id cs
      else sort_key (\<lambda>c. - bc_utility c) cs)"

definition next_candidate :: "ablation \<Rightarrow> (nat \<Rightarrow> nat) \<Rightarrow> nat list \<Rightarrow> bcrb_session \<Rightarrow> (stopping_condition, bcrb_candidate) result" where
  "next_candidate ab rank tested ss =
     (case evaluate_stopping_conditions ss of
        Some s \<Rightarrow> Inl s
      | None \<Rightarrow>
          let untested = filter (\<lambda>c. bc_id c \<notin> set tested) (ss_candidates ss) in
          if untested = [] then Inl ALL_SAFE_CANDIDATES_TESTED
          else case List.find (\<lambda>c. bc_cost c + ss_spent ss \<le> ss_budget ss) (order_candidates ab rank untested) of
            None \<Rightarrow> Inl BUDGET_EXHAUSTED
          | Some c \<Rightarrow> Inr c)"

type_synonym 'e canary = "nat \<Rightarrow> bcrb_candidate \<Rightarrow> ('e, bcrb_step) result"

definition perform_step :: "ablation \<Rightarrow> 'e canary \<Rightarrow> nat \<Rightarrow> bcrb_candidate \<Rightarrow> ('e, bcrb_step) result" where
  "perform_step ab canary k best =
     (if ab_without_replay ab
      then Inr \<lparr>sp_candidate_id = bc_id best, sp_status = COMPLETED, sp_utility_observed = None, sp_cost_incurred = None,
             sp_recovery_effect = Some (bc_reliability_delta best), sp_decision_reason = None\<rparr>
      else canary k best)"

definition charge :: "bcrb_step \<Rightarrow> rat" where
  "charge step = (case sp_cost_incurred step of Some (cost, status) \<Rightarrow> if status = ''ACTUAL'' then cost else 0 | None \<Rightarrow> 0)"

definition is_clean :: "ablation \<Rightarrow> bcrb_step \<Rightarrow> bool" where
  "is_clean ab step \<longleftrightarrow> ab_without_provenance ab \<or>
     (let reason = py_lower (case sp_decision_reason step of Some r \<Rightarrow> r | None \<Rightarrow> [])
      in \<not> contains_text ''contaminated'' reason \<and> \<not> contains_text ''confounded'' reason)"

definition update_candidate ::
    "ablation \<Rightarrow> calibration_params \<Rightarrow> nat list \<Rightarrow> nat \<Rightarrow> rat \<Rightarrow> rat \<Rightarrow> rat \<Rightarrow> bcrb_candidate \<Rightarrow> bcrb_candidate" where
  "update_candidate ab cp tested best_id improvement l_cause l_not c =
     (let c1 = (if bc_id c = best_id
            then c\<lparr>bc_posterior := Some (if ab_without_bayesian ab then bc_prior c else update_posterior (bc_prior c) l_cause l_not),
                   bc_evidence := Some (improvement, l_cause, l_not)\<rparr>
            else c)
      in if bc_id c1 \<in> set tested then c1
         else c1\<lparr>bc_utility := (if ab_without_bcrb_utility ab then 1
                else calculate_candidate_utility (case bc_posterior c1 of Some q \<Rightarrow> q | None \<Rightarrow> bc_prior c1) (bc_reliability_delta c1)
                       (bc_information_gain c1) (bc_cost c1) (bc_risk c1) (bc_blast_radius c1))\<rparr>)"

definition highest_posterior :: "bcrb_candidate list \<Rightarrow> rat" where
  "highest_posterior cs = (let qs = List.map_filter bc_posterior cs in if qs = [] then 0 else Max (set qs))"

text \<open>Recording a step: the session afterwards, and whether the confidence is reached.\<close>

definition record_step ::
    "ablation \<Rightarrow> (rat \<Rightarrow> rat option) \<Rightarrow> calibration_params \<Rightarrow> nat list \<Rightarrow> bcrb_candidate \<Rightarrow> bcrb_step \<Rightarrow> bcrb_session \<Rightarrow> bcrb_session \<times> bool" where
  "record_step ab ex cp tested best step ss =
     (let spent = ss_spent ss + charge step in
      case (if is_clean ab step then sp_recovery_effect step else None) of
        None \<Rightarrow> (ss\<lparr>ss_steps := ss_steps ss @ [step], ss_spent := spent\<rparr>, False)
      | Some improvement \<Rightarrow>
          let (l_cause, l_not) = calculate_calibrated_likelihoods ex cp improvement;
              cs = map (update_candidate ab cp tested (bc_id best) improvement l_cause l_not) (ss_candidates ss)
          in (ss\<lparr>ss_steps := ss_steps ss @ [step\<lparr>sp_utility_observed := Some (bc_utility best)\<rparr>], ss_spent := spent, ss_candidates := cs\<rparr>,
              9/10 \<le> highest_posterior cs))"

datatype 'e progress = Ended "'e option" bcrb_session | Continue "nat list" bcrb_session

definition session_step ::
    "ablation \<Rightarrow> (rat \<Rightarrow> rat option) \<Rightarrow> calibration_params \<Rightarrow> (nat \<Rightarrow> nat \<Rightarrow> nat) \<Rightarrow> 'e canary \<Rightarrow> nat list \<Rightarrow> bcrb_session \<Rightarrow> 'e progress" where
  "session_step ab ex cp ranks canary tested ss =
     (case next_candidate ab (ranks (length tested)) tested ss of
        Inl s \<Rightarrow> Ended None (ss\<lparr>ss_stopping := Some s\<rparr>)
      | Inr best \<Rightarrow>
          (case perform_step ab canary (length tested) best of
             Inl e \<Rightarrow> Ended (Some e) ss
           | Inr step \<Rightarrow>
               (case record_step ab ex cp (bc_id best # tested) best step ss of
                  (ss', confident) \<Rightarrow>
                    if confident then Ended None (ss'\<lparr>ss_stopping := Some CONFIDENCE_REACHED\<rparr>)
                    else Continue (bc_id best # tested) ss')))"

text \<open>Every turn tests a candidate that was not tested before.\<close>

lemma set_order_candidates: "set (order_candidates ab rank cs) = set cs"
proof -
  have "set (shuffle rank cs) = set cs" by (auto simp: shuffle_def in_set_conv_nth)
  then show ?thesis by (simp add: order_candidates_def)
qed

lemma next_candidate_Inr:
  assumes "next_candidate ab rank tested ss = Inr best"
  shows "best \<in> set (ss_candidates ss)" "bc_id best \<notin> set tested" "bc_cost best + ss_spent ss \<le> ss_budget ss" "ss_spent ss < ss_budget ss"
  using assms set_order_candidates
  by (auto simp: next_candidate_def evaluate_stopping_conditions_def Let_def find_Some_iff set_order_candidates dest!: nth_mem
      split: option.splits if_splits)

definition fixed :: "bcrb_candidate \<Rightarrow> bcrb_candidate" where
  "fixed c = c\<lparr>bc_utility := 0, bc_posterior := None, bc_evidence := None\<rparr>"

lemma fixed_eqD:
  assumes "fixed c = fixed d"
  shows "bc_id c = bc_id d" "bc_cost c = bc_cost d" "bc_prior c = bc_prior d" "bc_component_type c = bc_component_type d"
    "bc_reliability_delta c = bc_reliability_delta d" "bc_information_gain c = bc_information_gain d" "bc_risk c = bc_risk d"
    "bc_blast_radius c = bc_blast_radius d"
  using assms by (auto simp: fixed_def dest: arg_cong [of _ _ bc_id] arg_cong [of _ _ bc_cost] arg_cong [of _ _ bc_prior]
      arg_cong [of _ _ bc_component_type] arg_cong [of _ _ bc_reliability_delta] arg_cong [of _ _ bc_information_gain]
      arg_cong [of _ _ bc_risk] arg_cong [of _ _ bc_blast_radius])

lemma fixed_update_candidate [simp]: "fixed (update_candidate ab cp tested i x a b c) = fixed c"
  by (simp add: update_candidate_def fixed_def Let_def)

lemma record_step_fixed: "map fixed (ss_candidates (fst (record_step ab ex cp tested best step ss))) = map fixed (ss_candidates ss)"
  by (auto simp: record_step_def Let_def split: option.splits prod.splits)

lemma fixed_ids: "map fixed cs = map fixed ds \<Longrightarrow> map bc_id cs = map bc_id ds"
  using map_eq_transfer [of fixed cs ds bc_id] fixed_eqD(1) by blast

lemma filter_less_strict:
  assumes "x \<in> set xs" "\<not> P x" "Q x" "\<And>y. P y \<Longrightarrow> Q y"
  shows "length (filter P xs) < length (filter Q xs)"
proof -
  have "filter P xs = filter P (filter Q xs)" using assms(4) by (auto intro: filter_cong)
  moreover have "length (filter P (filter Q xs)) < length (filter Q xs)" using assms(1-3) by (intro length_filter_less [of x]) auto
  ultimately show ?thesis by simp
qed

lemma session_step_Continue:
  assumes "session_step ab ex cp ranks canary tested ss = Continue tested' ss'"
  obtains best step where "next_candidate ab (ranks (length tested)) tested ss = Inr best" "perform_step ab canary (length tested) best = Inr step"
    "record_step ab ex cp (bc_id best # tested) best step ss = (ss', False)" "tested' = bc_id best # tested"
  using assms by (auto simp: session_step_def split: sum.splits prod.splits if_splits)

lemma untested_smaller:
  assumes "session_step ab ex cp ranks canary tested ss = Continue tested' ss'"
  shows "length (filter (\<lambda>i. i \<notin> set tested') (map bc_id (ss_candidates ss'))) < length (filter (\<lambda>i. i \<notin> set tested) (map bc_id (ss_candidates ss)))"
proof -
  from assms obtain best step where best: "next_candidate ab (ranks (length tested)) tested ss = Inr best"
    and r: "record_step ab ex cp (bc_id best # tested) best step ss = (ss', False)" and t: "tested' = bc_id best # tested"
    by (rule session_step_Continue)
  note b = next_candidate_Inr [OF best]
  have "map bc_id (ss_candidates ss') = map bc_id (ss_candidates ss)"
    by (rule fixed_ids) (use record_step_fixed [of ab ex cp "bc_id best # tested" best step ss] r in \<open>simp only: fst_conv\<close>)
  moreover have "bc_id best \<in> set (map bc_id (ss_candidates ss))" using b(1) by simp
  then have "length (filter (\<lambda>i. i \<notin> set tested') (map bc_id (ss_candidates ss))) < length (filter (\<lambda>i. i \<notin> set tested) (map bc_id (ss_candidates ss)))"
    using b(2) t by (intro filter_less_strict [of "bc_id best"]) auto
  ultimately show ?thesis by (simp only:)
qed

function session_loop ::
    "ablation \<Rightarrow> (rat \<Rightarrow> rat option) \<Rightarrow> calibration_params \<Rightarrow> (nat \<Rightarrow> nat \<Rightarrow> nat) \<Rightarrow> 'e canary \<Rightarrow> nat list \<Rightarrow> bcrb_session \<Rightarrow>
       'e option \<times> bcrb_session" where
  "session_loop ab ex cp ranks canary tested ss =
     (case session_step ab ex cp ranks canary tested ss of
        Ended e ss' \<Rightarrow> (e, ss')
      | Continue tested' ss' \<Rightarrow> session_loop ab ex cp ranks canary tested' ss')"
  by pat_completeness auto

termination session_loop
  by (relation "measure (\<lambda>(ab, ex, cp, ranks, canary, tested, ss). length (filter (\<lambda>i. i \<notin> set tested) (map bc_id (ss_candidates ss))))")
    (simp_all only: in_measure prod.case wf_measure untested_smaller)

declare session_loop.simps [simp del]

definition execute_session ::
    "network option \<Rightarrow> (rat \<Rightarrow> rat) \<Rightarrow> (string \<Rightarrow> int) \<Rightarrow> ablation \<Rightarrow> (rat \<Rightarrow> rat option) \<Rightarrow> calibration_params \<Rightarrow> (nat \<Rightarrow> nat) \<Rightarrow>
       (nat \<Rightarrow> nat \<Rightarrow> nat) \<Rightarrow> 'e canary \<Rightarrow> invocation list \<Rightarrow> string \<Rightarrow> bcrb_session \<Rightarrow>
       (calibration_error, 'e option \<times> bcrb_session) result" where
  "execute_session model log1p hash ab ex cp uids ranks canary invs failure_symptom ss =
     rbind (generate_candidates model log1p hash cp ab uids invs failure_symptom) (\<lambda>cs.
       Inr (session_loop ab ex cp ranks canary [] (ss\<lparr>ss_candidates := cs\<rparr>)))"

text \<open>An invariant of the turns holds at the end.\<close>

lemma session_loop_invariant:
  assumes "I tested ss" "session_loop ab ex cp ranks canary tested ss = (e, ss')"
    and "\<And>tested ss tested' ss'. I tested ss \<Longrightarrow> session_step ab ex cp ranks canary tested ss = Continue tested' ss' \<Longrightarrow> I tested' ss'"
    and "\<And>tested ss e ss'. I tested ss \<Longrightarrow> session_step ab ex cp ranks canary tested ss = Ended e ss' \<Longrightarrow> Q e ss'"
  shows "Q e ss'"
  using assms
proof (induction ab ex cp ranks canary tested ss rule: session_loop.induct)
  case (1 ab ex cp ranks canary tested ss)
  show ?case
  proof (cases "session_step ab ex cp ranks canary tested ss")
    case (Ended f x)
    then have "(f, x) = (e, ss')" using "1.prems"(2) by (simp add: session_loop.simps)
    then show ?thesis using "1.prems"(4) [OF "1.prems"(1) Ended] by simp
  next
    case (Continue tested' x)
    then have "session_loop ab ex cp ranks canary tested' x = (e, ss')" using "1.prems"(2) by (simp add: session_loop.simps)
    then show ?thesis by (rule "1.IH" [OF Continue "1.prems"(3) [OF "1.prems"(1) Continue] _ "1.prems"(3,4)])
  qed
qed

subsection \<open>The canary\<close>

datatype canary_error = MultipleRows | BadStoredSpan | ReplayRaised replay_refusal | NoAttribute string

record trace_row =
  tw_run_id :: string
  tw_tenant_id :: string
  tw_pipeline_id :: string
  tw_spans_json :: "json list"

record canary_db =
  cd_manifests :: "replay_manifest list"
  cd_runs :: "(run_info \<times> reliability_vector) list"
  cd_traces :: "trace_row list"

definition scalar_one_or_none :: "'a list \<Rightarrow> (canary_error, 'a option) result" where
  "scalar_one_or_none rows = (case rows of [] \<Rightarrow> Inr None | [x] \<Rightarrow> Inr (Some x) | _ \<Rightarrow> Inl MultipleRows)"

fun read_spans :: "(json \<Rightarrow> original_span option) \<Rightarrow> json list \<Rightarrow> (canary_error, original_span list) result" where
  "read_spans span_of [] = Inr []"
| "read_spans span_of (j # js) =
     (case span_of j of None \<Rightarrow> Inl BadStoredSpan | Some s \<Rightarrow> rbind (read_spans span_of js) (\<lambda>ss. Inr (s # ss)))"

text \<open>The registered versions of the mock pipeline: only the retriever has two.\<close>

definition registered :: "string \<Rightarrow> string \<Rightarrow> string \<Rightarrow> component_version" where
  "registered i ct tag = \<lparr>cv_id = ''00000000-0000-0000-000'' @ i, cv_component_type = ct, cv_version_tag = tag\<rparr>"

definition ALL_COMPONENT_VERSIONS :: "component_version list" where
  "ALL_COMPONENT_VERSIONS =
     [registered ''1-000000000001'' ''retriever'' ''v1'', registered ''1-000000000002'' ''retriever'' ''v2-exp'',
      registered ''2-000000000001'' ''reranker'' ''v1'', registered ''3-000000000001'' ''generator'' ''v1'',
      registered ''4-000000000001'' ''memory_read'' ''v1'', registered ''5-000000000001'' ''memory_write'' ''v1'',
      registered ''6-000000000001'' ''tool_call'' ''v1'', registered ''7-000000000001'' ''policy_check'' ''v1'',
      registered ''8-000000000001'' ''final_response'' ''v1'']"

definition failed_step :: "bcrb_candidate \<Rightarrow> (rat \<times> string) option \<Rightarrow> string \<Rightarrow> bcrb_step" where
  "failed_step c cost reason = \<lparr>sp_candidate_id = bc_id c, sp_status = STEP_FAILED, sp_utility_observed = None, sp_cost_incurred = cost,
     sp_recovery_effect = None, sp_decision_reason = Some reason\<rparr>"

text \<open>
  Two attributes of the episode are read that its class does not declare; reading an attribute that a pydantic model does
  not have raises.
\<close>

definition episode_cost_usd :: "replay_episode \<Rightarrow> (canary_error, rat) result" where
  "episode_cost_usd ep = Inl (NoAttribute ''cost_usd'')"

definition episode_reliability_vector :: "replay_episode \<Rightarrow> (canary_error, reliability_vector) result" where
  "episode_reliability_vector ep = Inl (NoAttribute ''reliability_vector'')"

definition measure_episode :: "bcrb_candidate \<Rightarrow> reliability_vector \<Rightarrow> replay_episode \<Rightarrow> (canary_error, bcrb_step) result" where
  "measure_episode c run_vector ep =
     rbind (episode_cost_usd ep) (\<lambda>cost.
       if is_synthetic (er_evidence_class ep) \<or> er_evidence_class ep = SYNTHETIC_SIMULATION
       then Inr (failed_step c (Some (cost, ''OK'')) ''SYNTHETIC_EVIDENCE_ONLY: Synthetic demonstrations are not valid causal evidence.'')
       else rbind (episode_reliability_vector ep) (\<lambda>v.
         let delta = (case (map_of v ''reliability'', map_of run_vector ''reliability'') of (Some a, Some b) \<Rightarrow> a - b | _ \<Rightarrow> 0)
         in Inr \<lparr>sp_candidate_id = bc_id c, sp_status = COMPLETED, sp_utility_observed = Some delta, sp_cost_incurred = Some (cost, ''OK''),
              sp_recovery_effect = Some delta, sp_decision_reason = Some ''CLEAN: Measured via actual ReplayEngine execution.''\<rparr>))"

definition canary_replay ::
    "env \<Rightarrow> pytext \<Rightarrow> replay_world \<Rightarrow> bcrb_candidate \<Rightarrow> replay_manifest \<Rightarrow> run_info \<Rightarrow> reliability_vector \<Rightarrow> original_trace \<Rightarrow>
       (canary_error, bcrb_step) result" where
  "canary_replay E P w c m run run_vector tr =
     (case List.find (\<lambda>s. og_component_type s = Some (bc_component_type c) \<and> og_version_tag s \<noteq> None) (ot_spans tr) of
        None \<Rightarrow> Inr (failed_step c (Some (0, ''UNAVAILABLE'')) ''INSUFFICIENT_EVIDENCE: Current component version missing from trace.'')
      | Some s \<Rightarrow>
          if \<not> truthy (og_version_tag s)
          then Inr (failed_step c (Some (0, ''UNAVAILABLE'')) ''INSUFFICIENT_EVIDENCE: Current component version missing from trace.'')
          else let registry = fold register ALL_COMPONENT_VERSIONS [] in
            case List.find (\<lambda>cv. Some (cv_version_tag cv) \<noteq> og_version_tag s) (list_by_type registry (bc_component_type c)) of
              None \<Rightarrow> Inr (failed_step c (Some (0, ''UNAVAILABLE'')) ''INSUFFICIENT_EVIDENCE: No registered replacement version for candidate.'')
            | Some cv \<Rightarrow>
                (case execute_replay E P w registry 42 (Some m) run tr
                   \<lparr>iv_target_component = bc_component_type c, iv_current_version = og_version_tag s, iv_candidate_version = Some (cv_version_tag cv)\<rparr>
                   cv run_vector of
                   Inl r \<Rightarrow> Inl (ReplayRaised r)
                 | Inr (ep, t) \<Rightarrow> measure_episode c run_vector ep))"

definition canary_artifacts ::
    "env \<Rightarrow> pytext \<Rightarrow> replay_world \<Rightarrow> (json \<Rightarrow> original_span option) \<Rightarrow> bcrb_candidate \<Rightarrow> replay_manifest option \<Rightarrow>
       (run_info \<times> reliability_vector) option \<Rightarrow> trace_row option \<Rightarrow> (canary_error, bcrb_step) result" where
  "canary_artifacts E P w span_of c manifest run row =
     (case (manifest, run, row) of
        (Some m, Some (r, v), Some t) \<Rightarrow>
          rbind (read_spans span_of (tw_spans_json t)) (\<lambda>spans.
            canary_replay E P w c m (r\<lparr>ri_request_hash := None\<rparr>) v
              \<lparr>ot_run_id = tw_run_id t, ot_tenant_id = tw_tenant_id t, ot_pipeline_id = tw_pipeline_id t, ot_spans = spans,
               ot_evidence_class = ri_evidence_class r\<rparr>)
      | _ \<Rightarrow> Inr (failed_step c (Some (0, ''UNAVAILABLE'')) ''INSUFFICIENT_EVIDENCE: Required artifacts missing from DB.''))"

definition execute_canary ::
    "env \<Rightarrow> pytext \<Rightarrow> replay_world \<Rightarrow> (json \<Rightarrow> original_span option) \<Rightarrow> bcrb_candidate \<Rightarrow> string \<Rightarrow> canary_db option \<Rightarrow> (canary_error, bcrb_step) result" where
  "execute_canary E P w span_of c original_run_id db =
     (case db of
        None \<Rightarrow> Inr (failed_step c None ''No DB provided'')
      | Some d \<Rightarrow>
          rbind (scalar_one_or_none (filter (\<lambda>m. mf_run_id m = original_run_id) (cd_manifests d))) (\<lambda>manifest.
          rbind (scalar_one_or_none (filter (\<lambda>(r, v). ri_id r = original_run_id) (cd_runs d))) (\<lambda>run.
          rbind (scalar_one_or_none (filter (\<lambda>t. tw_run_id t = original_run_id) (cd_traces d))) (\<lambda>row.
            canary_artifacts E P w span_of c manifest run row))))"

subsection \<open>What a session does\<close>

lemma fixed_memD:
  assumes "map fixed cs = map fixed ds" "c \<in> set cs"
  obtains d where "d \<in> set ds" "fixed d = fixed c"
  using assms by (metis (no_types, lifting) imageE image_eqI list.set_map)

lemma charge_utility_observed [simp]: "charge (st\<lparr>sp_utility_observed := u\<rparr>) = charge st"
  by (simp add: charge_def)

lemma record_step_props:
  assumes "record_step ab ex cp tested best step ss = (ss', b)"
  shows "\<exists>st. ss_steps ss' = ss_steps ss @ [st] \<and> sp_candidate_id st = sp_candidate_id step \<and> charge st = charge step"
    "ss_spent ss' = ss_spent ss + charge step" "ss_budget ss' = ss_budget ss"
  using assms by (auto simp: record_step_def Let_def split: option.splits prod.splits)

lemma update_candidate_posterior:
  assumes "calculate_calibrated_likelihoods ex cp x = (a, b)" "bc_posterior (update_candidate ab cp tested i x a b c) = Some q"
  shows "if bc_id c = i then 9/10 \<le> q \<longrightarrow> 18/37 \<le> bc_prior c else bc_posterior c = Some q"
  using assms(2) confident_posterior_needs_prior [OF assms(1), of "bc_prior c"]
  by (auto simp: update_candidate_def Let_def split: if_splits)

lemma record_step_posterior:
  assumes "record_step ab ex cp tested best step ss = (ss', b)" "c \<in> set (ss_candidates ss')" "bc_posterior c = Some q"
  obtains d where "d \<in> set (ss_candidates ss)" "fixed d = fixed c"
    "if bc_id c = bc_id best then 9/10 \<le> q \<longrightarrow> 18/37 \<le> bc_prior c else bc_posterior d = Some q"
  | "c \<in> set (ss_candidates ss)"
proof (cases "if is_clean ab step then sp_recovery_effect step else None")
  case None
  then have "ss_candidates ss' = ss_candidates ss" using assms(1) by (auto simp: record_step_def Let_def)
  then show ?thesis using assms(2) that(2) by simp
next
  case (Some x)
  obtain l m where l: "calculate_calibrated_likelihoods ex cp x = (l, m)" by fastforce
  have "ss_candidates ss' = map (update_candidate ab cp tested (bc_id best) x l m) (ss_candidates ss)"
    using assms(1) Some l by (auto simp: record_step_def Let_def)
  then obtain d where d: "d \<in> set (ss_candidates ss)" "c = update_candidate ab cp tested (bc_id best) x l m d" using assms(2) by auto
  then have f: "fixed d = fixed c" by simp
  show ?thesis using that(1) [OF d(1) f] update_candidate_posterior [OF l, of ab tested "bc_id best" d q] assms(3) d(2) fixed_eqD(1,3) [OF f]
    by (simp split: if_splits)
qed

definition session_inv :: "bcrb_session \<Rightarrow> nat list \<Rightarrow> bcrb_session \<Rightarrow> bool" where
  "session_inv s0 tested ss \<longleftrightarrow>
     ss_budget ss = ss_budget s0 \<and> map fixed (ss_candidates ss) = map fixed (ss_candidates s0) \<and> distinct tested \<and>
     (\<exists>new. ss_steps ss = ss_steps s0 @ new \<and> map sp_candidate_id new = rev tested \<and>
        ss_spent ss = ss_spent s0 + sum_list (map charge new) \<and>
        (\<forall>i<length new. \<exists>c\<in>set (ss_candidates s0). bc_id c = sp_candidate_id (new ! i) \<and>
           bc_cost c + (ss_spent s0 + sum_list (map charge (take i new))) \<le> ss_budget s0)) \<and>
     (\<forall>c\<in>set (ss_candidates ss). \<forall>q. bc_posterior c = Some q \<longrightarrow> bc_id c \<in> set tested \<and> (9/10 \<le> q \<longrightarrow> 18/37 \<le> bc_prior c))"

lemma session_inv_step:
  assumes "session_inv s0 tested ss" "next_candidate ab rank tested ss = Inr best" "sp_candidate_id step = bc_id best"
    and "record_step ab ex cp (bc_id best # tested) best step ss = (ss', b)"
  shows "session_inv s0 (bc_id best # tested) ss'"
proof -
  note n = next_candidate_Inr [OF assms(2)] and r = record_step_props [OF assms(4)]
  obtain st where st: "ss_steps ss' = ss_steps ss @ [st]" "sp_candidate_id st = bc_id best" "charge st = charge step" using r(1) assms(3) by auto
  obtain new where new: "ss_steps ss = ss_steps s0 @ new" "map sp_candidate_id new = rev tested" "ss_spent ss = ss_spent s0 + sum_list (map charge new)"
    "\<forall>i<length new. \<exists>c\<in>set (ss_candidates s0). bc_id c = sp_candidate_id (new ! i) \<and>
       bc_cost c + (ss_spent s0 + sum_list (map charge (take i new))) \<le> ss_budget s0"
    and old: "ss_budget ss = ss_budget s0" "map fixed (ss_candidates ss) = map fixed (ss_candidates s0)" "distinct tested"
      "\<And>c q. c \<in> set (ss_candidates ss) \<Longrightarrow> bc_posterior c = Some q \<Longrightarrow> bc_id c \<in> set tested \<and> (9/10 \<le> q \<longrightarrow> 18/37 \<le> bc_prior c)"
    using assms(1) unfolding session_inv_def by blast
  obtain d where d: "d \<in> set (ss_candidates s0)" "fixed d = fixed best" using fixed_memD [OF old(2) n(1)] .
  have fits: "\<exists>c\<in>set (ss_candidates s0). bc_id c = sp_candidate_id ((new @ [st]) ! i) \<and>
      bc_cost c + (ss_spent s0 + sum_list (map charge (take i (new @ [st])))) \<le> ss_budget s0" if "i < length (new @ [st])" for i
  proof (cases "i < length new")
    case True
    then show ?thesis using new(4) by (simp add: nth_append)
  next
    case False
    then have "i = length new" using that by simp
    then show ?thesis using d fixed_eqD(1,2) [OF d(2)] st(2) n(3) new(3) old(1) by (auto intro!: bexI [of _ d])
  qed
  have post: "bc_id c \<in> set (bc_id best # tested) \<and> (9/10 \<le> q \<longrightarrow> 18/37 \<le> bc_prior c)"
    if "c \<in> set (ss_candidates ss')" "bc_posterior c = Some q" for c q
    using assms(4) that
  proof (rule record_step_posterior)
    fix d assume d: "d \<in> set (ss_candidates ss)" "fixed d = fixed c"
      "if bc_id c = bc_id best then 9/10 \<le> q \<longrightarrow> 18/37 \<le> bc_prior c else bc_posterior d = Some q"
    then show ?thesis using old(4) [OF d(1), of q] fixed_eqD(1,3) [OF d(2)] by (auto split: if_splits)
  qed (use old(4) that in auto)
  have "map fixed (ss_candidates ss') = map fixed (ss_candidates s0)"
    using record_step_fixed [of ab ex cp "bc_id best # tested" best step ss] assms(4) old(2) by simp
  moreover have "distinct (bc_id best # tested)" using n(2) old(3) by simp
  moreover have "\<exists>new'. ss_steps ss' = ss_steps s0 @ new' \<and> map sp_candidate_id new' = rev (bc_id best # tested) \<and>
      ss_spent ss' = ss_spent s0 + sum_list (map charge new') \<and>
      (\<forall>i<length new'. \<exists>c\<in>set (ss_candidates s0). bc_id c = sp_candidate_id (new' ! i) \<and>
         bc_cost c + (ss_spent s0 + sum_list (map charge (take i new'))) \<le> ss_budget s0)"
    using st new(1-3) r(2) fits by (intro exI [of _ "new @ [st]"] conjI) simp_all
  moreover have "ss_budget ss' = ss_budget s0" "\<forall>c\<in>set (ss_candidates ss'). \<forall>q. bc_posterior c = Some q \<longrightarrow>
      bc_id c \<in> set (bc_id best # tested) \<and> (9/10 \<le> q \<longrightarrow> 18/37 \<le> bc_prior c)" using r(3) old(1) post by auto
  ultimately show ?thesis unfolding session_inv_def by (intro conjI)
qed

definition stop_means :: "bcrb_session \<Rightarrow> nat list \<Rightarrow> bcrb_session \<Rightarrow> bool" where
  "stop_means s0 tested ss \<longleftrightarrow>
     (case ss_stopping ss of
        Some CONFIDENCE_REACHED \<Rightarrow> (\<exists>c\<in>set (ss_candidates ss). \<exists>q. bc_posterior c = Some q \<and> 9/10 \<le> q \<and> bc_id c \<in> set tested \<and> 18/37 \<le> bc_prior c)
      | Some ALL_SAFE_CANDIDATES_TESTED \<Rightarrow> bc_id ` set (ss_candidates s0) \<subseteq> set tested
      | Some BUDGET_EXHAUSTED \<Rightarrow> (\<forall>c\<in>set (ss_candidates s0). bc_id c \<in> set tested \<or> ss_budget s0 < bc_cost c + ss_spent ss) \<or> ss_budget s0 \<le> ss_spent ss
      | Some EXPECTED_UTILITY_BELOW_THRESHOLD \<Rightarrow> (\<forall>c\<in>set (ss_candidates ss). bc_utility c < 1/10)
      | _ \<Rightarrow> False)"

lemma evaluate_stopping_alt:
  "evaluate_stopping_conditions ss =
     (if ss_budget ss \<le> ss_spent ss then Some BUDGET_EXHAUSTED
      else if ss_candidates ss = [] then Some ALL_SAFE_CANDIDATES_TESTED
      else if \<forall>c\<in>set (ss_candidates ss). bc_utility c < 1/10 then Some EXPECTED_UTILITY_BELOW_THRESHOLD else None)"
  unfolding evaluate_stopping_conditions_def by (cases "ss_candidates ss = []") (simp_all add: Max_less_iff del: less_divide_eq_numeral1)

lemma next_candidate_stop:
  assumes "session_inv s0 tested ss" "next_candidate ab rank tested ss = Inl r"
  shows "stop_means s0 tested (ss\<lparr>ss_stopping := Some r\<rparr>)"
proof -
  have f: "map fixed (ss_candidates s0) = map fixed (ss_candidates ss)" "ss_budget ss = ss_budget s0" using assms(1) by (simp_all add: session_inv_def)
  have ids: "bc_id ` set (ss_candidates s0) = bc_id ` set (ss_candidates ss)" using arg_cong [OF fixed_ids [OF f(1)], of set] by simp
  have costs: "\<exists>d\<in>set (ss_candidates ss). bc_id d = bc_id c \<and> bc_cost d = bc_cost c" if "c \<in> set (ss_candidates s0)" for c
    using fixed_memD [OF f(1) that] fixed_eqD(1,2) by metis
  from assms(2) consider "r = BUDGET_EXHAUSTED" "ss_budget ss \<le> ss_spent ss" | "r = ALL_SAFE_CANDIDATES_TESTED" "ss_candidates ss = []"
    | "r = EXPECTED_UTILITY_BELOW_THRESHOLD" "\<forall>c\<in>set (ss_candidates ss). bc_utility c < 1/10"
    | "r = ALL_SAFE_CANDIDATES_TESTED" "bc_id ` set (ss_candidates ss) \<subseteq> set tested"
    | "r = BUDGET_EXHAUSTED" "\<forall>c\<in>set (ss_candidates ss). bc_id c \<in> set tested \<or> \<not> bc_cost c + ss_spent ss \<le> ss_budget ss"
    by (auto simp: next_candidate_def evaluate_stopping_alt Let_def find_None_iff set_order_candidates filter_empty_conv
        split: option.splits if_splits)
  then show ?thesis
  proof cases
    case 5
    have "bc_id c \<in> set tested \<or> ss_budget s0 < bc_cost c + ss_spent ss" if "c \<in> set (ss_candidates s0)" for c
      using costs [OF that] 5(2) f(2) by force
    with 5(1) show ?thesis by (simp add: stop_means_def)
  qed (use ids f(2) in \<open>auto simp: stop_means_def\<close>)
qed

lemma confident_means:
  assumes "session_inv s0 tested ss" "9/10 \<le> highest_posterior (ss_candidates ss)"
  shows "stop_means s0 tested (ss\<lparr>ss_stopping := Some CONFIDENCE_REACHED\<rparr>)"
proof -
  let ?qs = "List.map_filter bc_posterior (ss_candidates ss)"
  have ne: "?qs \<noteq> []" and m: "9/10 \<le> Max (set ?qs)" using assms(2) by (auto simp: highest_posterior_def Let_def split: if_splits)
  have "Max (set ?qs) \<in> set ?qs" using ne by (intro Max_in) auto
  then obtain c q where "c \<in> set (ss_candidates ss)" "bc_posterior c = Some q" "9/10 \<le> q" using m by (auto simp: List.map_filter_def)
  then show ?thesis using assms(1) by (auto simp: session_inv_def stop_means_def)
qed

lemma session_step_Ended:
  assumes "session_inv s0 tested ss" "session_step ab ex cp ranks canary tested ss = Ended e ss'"
    and "\<forall>k c st. canary k c = Inr st \<longrightarrow> sp_candidate_id st = bc_id c"
  shows "\<exists>t. session_inv s0 t ss' \<and> (e = None \<longrightarrow> stop_means s0 t ss')"
proof (cases "next_candidate ab (ranks (length tested)) tested ss")
  case (Inl r)
  then have e: "e = None" "ss' = ss\<lparr>ss_stopping := Some r\<rparr>" using assms(2) by (auto simp: session_step_def)
  then have "session_inv s0 tested ss'" using assms(1) by (simp add: session_inv_def)
  then show ?thesis using next_candidate_stop [OF assms(1) Inl] e by blast
next
  case (Inr best)
  show ?thesis
  proof (cases "perform_step ab canary (length tested) best")
    case (Inl x)
    then show ?thesis using assms(1,2) Inr by (auto simp: session_step_def)
  next
    case (Inr step)
    obtain s b where r: "record_step ab ex cp (bc_id best # tested) best step ss = (s, b)" by fastforce
    have i: "sp_candidate_id step = bc_id best" using Inr assms(3) by (auto simp: perform_step_def split: if_splits)
    have inv: "session_inv s0 (bc_id best # tested) s"
      by (rule session_inv_step [OF assms(1) \<open>next_candidate _ _ _ _ = Inr best\<close> i r])
    have e: "e = None" "ss' = s\<lparr>ss_stopping := Some CONFIDENCE_REACHED\<rparr>" "b"
      using assms(2) \<open>next_candidate _ _ _ _ = Inr best\<close> Inr r by (auto simp: session_step_def split: if_splits)
    have "9/10 \<le> highest_posterior (ss_candidates s)" using r e(3) by (auto simp: record_step_def Let_def split: option.splits prod.splits)
    then have "stop_means s0 (bc_id best # tested) ss'" using confident_means [OF inv] e by blast
    moreover have "session_inv s0 (bc_id best # tested) ss'" using inv e(2) by (simp add: session_inv_def)
    ultimately show ?thesis by blast
  qed
qed

lemma session_loop_inv:
  assumes "session_inv s0 tested ss" "session_loop ab ex cp ranks canary tested ss = (e, ss')"
    and "\<forall>k c st. canary k c = Inr st \<longrightarrow> sp_candidate_id st = bc_id c"
  shows "\<exists>t. session_inv s0 t ss' \<and> (e = None \<longrightarrow> stop_means s0 t ss')"
  using assms(1,2)
proof (rule session_loop_invariant)
  fix tested ss tested' ss' assume i: "session_inv s0 tested ss" "session_step ab ex cp ranks canary tested ss = Continue tested' ss'"
  from i(2) obtain best step where "next_candidate ab (ranks (length tested)) tested ss = Inr best" "perform_step ab canary (length tested) best = Inr step"
    "record_step ab ex cp (bc_id best # tested) best step ss = (ss', False)" "tested' = bc_id best # tested" by (rule session_step_Continue)
  moreover from this(2) have "sp_candidate_id step = bc_id best" using assms(3) by (auto simp: perform_step_def split: if_splits)
  ultimately show "session_inv s0 tested' ss'" using session_inv_step [OF i(1)] by blast
qed (rule session_step_Ended [OF _ _ assms(3)])

subsection \<open>Proposed candidates\<close>

definition as_proposed :: "bcrb_candidate \<Rightarrow> bool" where
  "as_proposed c \<longleftrightarrow> bc_posterior c = None \<and> 5/100 < bc_prior c \<and>
     bc_utility c = calculate_candidate_utility (bc_prior c) (bc_reliability_delta c) (bc_information_gain c) (bc_cost c) (bc_risk c) (bc_blast_radius c)"

definition has_weights :: "calibration_params \<Rightarrow> bool" where
  "has_weights cp \<longleftrightarrow> (\<forall>k\<in>{''gat'', ''diffusion'', ''symptom''}. map_of (cb_prior_weights cp) k \<noteq> None)"

lemma prior_of_returns: "has_weights cp \<Longrightarrow> \<exists>p. prior_of cp ab g d s = Inr p"
  by (auto simp: has_weights_def prior_of_def estimate_prior_def need_weight_def)

lemma propose_returns:
  "has_weights cp \<Longrightarrow> list_all as_proposed acc \<Longrightarrow> \<exists>cs. propose cp ab uids nodes es gat outs acc = Inr cs \<and> list_all as_proposed cs"
proof (induction outs arbitrary: acc)
  case (Cons p outs)
  obtain i d where p: "p = (i, d)" by fastforce
  let ?s = "case List.find (\<lambda>n. nd_node_id n = i) nodes of Some n \<Rightarrow> nd_symptom n | None \<Rightarrow> 0"
  obtain q where q: "prior_of cp ab (score_of gat i) d ?s = Inr q" using prior_of_returns [OF Cons.prems(1)] by blast
  have "as_proposed (new_candidate cp es ns u i q)" if "5/100 < q" for ns u
    using that by (simp add: new_candidate_def as_proposed_def Let_def split: prod.splits)
  then have "list_all as_proposed (if 5/100 < q then acc @ [new_candidate cp es (map nd_node_id nodes) (uids (length acc)) i q] else acc)"
    using Cons.prems(2) by simp
  from Cons.IH [OF Cons.prems(1) this] show ?case unfolding p propose.simps Let_def q rbind_simps .
qed simp

lemma generate_candidates_returns:
  assumes "has_weights cp"
  shows "\<exists>cs. generate_candidates model log1p hash cp ab uids invs symptom = Inr cs \<and> (\<forall>c\<in>set cs. as_proposed c)"
proof (cases "invs = []")
  case False
  let ?nodes = "plan_nodes invs symptom" and ?pairs = "map (\<lambda>e. (ef_source_id e, ef_target_id e)) (plan_edges invs)"
  obtain gat outs where "generate_candidates model log1p hash cp ab uids invs symptom =
      rbind (propose cp ab uids ?nodes ?pairs gat outs []) (\<lambda>cs. Inr (sort_key (\<lambda>c. - bc_utility c) cs))"
    using False unfolding generate_candidates_def Let_def by auto
  moreover obtain cs where "propose cp ab uids ?nodes ?pairs gat outs [] = Inr cs" "list_all as_proposed cs"
    using propose_returns [OF assms, of "[]"] by fastforce
  ultimately show ?thesis by (simp add: list_all_iff)
qed (simp add: generate_candidates_def)

text \<open>
  C21. A session ends, within its budget of estimates, and says why. Whatever the canary answers or raises, whatever the order of a
  shuffle and whatever is switched off, the loop returns; every candidate is tested at most once; before every
  test its estimated cost fits the budget left after the measured costs so far; what is spent is the sum of the measured
  costs; and a session without an exception ends with a reason that holds: a tested candidate of confidence 0.9, whose prior
  was at least 18/37; all candidates tested; every untested candidate too expensive, or the budget spent; or no utility
  of 0.1.
\<close>

theorem session_sound:
  assumes "has_weights cp" "\<forall>k c st. canary k c = Inr st \<longrightarrow> sp_candidate_id st = bc_id c"
  shows "\<exists>cs e ss' new. generate_candidates model log1p hash cp ab uids invs symptom = Inr cs \<and>
    execute_session model log1p hash ab ex cp uids ranks canary invs symptom ss = Inr (e, ss') \<and>
    ss_steps ss' = ss_steps ss @ new \<and> distinct (map sp_candidate_id new) \<and>
    ss_spent ss' = ss_spent ss + sum_list (map charge new) \<and>
    (\<forall>i<length new. \<exists>c\<in>set cs. bc_id c = sp_candidate_id (new ! i) \<and>
       bc_cost c + (ss_spent ss + sum_list (map charge (take i new))) \<le> ss_budget ss) \<and>
    (e = None \<longrightarrow> stop_means (ss\<lparr>ss_candidates := cs\<rparr>) (map sp_candidate_id new) ss')"
proof -
  obtain cs where cs: "generate_candidates model log1p hash cp ab uids invs symptom = Inr cs" "\<forall>c\<in>set cs. as_proposed c"
    using generate_candidates_returns [OF assms(1)] by blast
  let ?s0 = "ss\<lparr>ss_candidates := cs\<rparr>"
  obtain e ss' where r: "session_loop ab ex cp ranks canary [] ?s0 = (e, ss')" by fastforce
  have "session_inv ?s0 [] ?s0" using cs(2) by (auto simp: session_inv_def as_proposed_def)
  from session_loop_inv [OF this r assms(2)] obtain t where t: "session_inv ?s0 t ss'" "e = None \<longrightarrow> stop_means ?s0 t ss'" by blast
  from t(1) obtain new where new: "ss_steps ss' = ss_steps ss @ new" "map sp_candidate_id new = rev t" "ss_spent ss' = ss_spent ss + sum_list (map charge new)"
    "\<forall>i<length new. \<exists>c\<in>set cs. bc_id c = sp_candidate_id (new ! i) \<and> bc_cost c + (ss_spent ss + sum_list (map charge (take i new))) \<le> ss_budget ss"
    "distinct t" unfolding session_inv_def by auto
  have "stop_means ?s0 (rev t) ss' = stop_means ?s0 t ss'" unfolding stop_means_def set_rev ..
  then show ?thesis using cs(1) r t(2) new by (intro exI [of _ cs] exI [of _ e] exI [of _ ss'] exI [of _ new]) (simp add: execute_session_def)
qed

subsection \<open>Utilities do not learn\<close>

definition unlearned :: "nat list \<Rightarrow> bcrb_session \<Rightarrow> bool" where
  "unlearned tested ss \<longleftrightarrow> (\<forall>c\<in>set (ss_candidates ss). bc_id c \<in> set tested \<or> as_proposed c)"

lemma update_candidate_unlearned:
  assumes "bc_id c \<in> set tested \<or> as_proposed c" "\<not> ab_without_bcrb_utility ab"
  shows "bc_utility (update_candidate ab cp (b # tested) b x l m c) = bc_utility c"
    "bc_id (update_candidate ab cp (b # tested) b x l m c) \<in> set (b # tested) \<or> as_proposed (update_candidate ab cp (b # tested) b x l m c)"
  using assms by (auto simp: update_candidate_def Let_def as_proposed_def)

lemma record_step_unlearned:
  assumes "unlearned tested ss" "\<not> ab_without_bcrb_utility ab" "record_step ab ex cp (bc_id best # tested) best step ss = (ss', b)"
  shows "unlearned (bc_id best # tested) ss'" "map bc_utility (ss_candidates ss') = map bc_utility (ss_candidates ss)"
proof -
  have "unlearned (bc_id best # tested) ss' \<and> map bc_utility (ss_candidates ss') = map bc_utility (ss_candidates ss)"
  proof (cases "if is_clean ab step then sp_recovery_effect step else None")
    case None
    then have "ss_candidates ss' = ss_candidates ss" using assms(3) by (auto simp: record_step_def Let_def)
    then show ?thesis using assms(1) by (auto simp: unlearned_def)
  next
    case (Some x)
    obtain l m where "calculate_calibrated_likelihoods ex cp x = (l, m)" by fastforce
    then have "ss_candidates ss' = map (update_candidate ab cp (bc_id best # tested) (bc_id best) x l m) (ss_candidates ss)"
      using assms(3) Some by (auto simp: record_step_def Let_def)
    then show ?thesis using assms(1,2) update_candidate_unlearned unfolding unlearned_def by simp
  qed
  then show "unlearned (bc_id best # tested) ss'" "map bc_utility (ss_candidates ss') = map bc_utility (ss_candidates ss)" by auto
qed

text \<open>
  The utilities of a session never change, although they are recomputed after every test: the formula is applied to
  untested candidates only, whose posterior is still unset. So the stop on low utility happens before the first test or
  never.
\<close>

theorem utilities_never_change:
  assumes "has_weights cp" "\<not> ab_without_bcrb_utility ab"
  shows "\<exists>cs e ss'. generate_candidates model log1p hash cp ab uids invs symptom = Inr cs \<and>
    execute_session model log1p hash ab ex cp uids ranks canary invs symptom ss = Inr (e, ss') \<and>
    map bc_utility (ss_candidates ss') = map bc_utility cs \<and>
    (e = None \<and> ss_stopping ss' = Some EXPECTED_UTILITY_BELOW_THRESHOLD \<longrightarrow> ss_steps ss' = ss_steps ss)"
proof -
  obtain cs where cs: "generate_candidates model log1p hash cp ab uids invs symptom = Inr cs" "\<forall>c\<in>set cs. as_proposed c"
    using generate_candidates_returns [OF assms(1)] by blast
  let ?s0 = "ss\<lparr>ss_candidates := cs\<rparr>"
  obtain e ss' where r: "session_loop ab ex cp ranks canary [] ?s0 = (e, ss')" by fastforce
  let ?low = "\<forall>u\<in>set (map bc_utility cs). u < 1/10"
  let ?I = "\<lambda>tested x. unlearned tested x \<and> map bc_utility (ss_candidates x) = map bc_utility cs \<and> (ss_steps x = ss_steps ss \<or> \<not> ?low)"
  let ?Q = "\<lambda>e x. map bc_utility (ss_candidates x) = map bc_utility cs \<and>
    (e = None \<and> ss_stopping x = Some EXPECTED_UTILITY_BELOW_THRESHOLD \<longrightarrow> ss_steps x = ss_steps ss)"
  have low: "\<not> ?low" if "map bc_utility (ss_candidates x) = map bc_utility cs" "next_candidate ab rank tested x = Inr best" for rank tested x best
  proof -
    have "\<not> (\<forall>u\<in>set (map bc_utility (ss_candidates x)). u < 1/10)"
      using that(2) by (auto simp: next_candidate_def evaluate_stopping_alt simp del: less_divide_eq_numeral1 split: if_splits option.splits)
    with that(1) show ?thesis by simp
  qed
  have "?I [] ?s0" using cs(2) by (simp add: unlearned_def)
  then have "?Q e ss'" using r
  proof (rule session_loop_invariant)
    fix tested x tested' x' assume i: "?I tested x" "session_step ab ex cp ranks canary tested x = Continue tested' x'"
    from i(2) obtain best step where "next_candidate ab (ranks (length tested)) tested x = Inr best"
      "record_step ab ex cp (bc_id best # tested) best step x = (x', False)" "tested' = bc_id best # tested" by (rule session_step_Continue)
    then show "?I tested' x'" using record_step_unlearned [OF conjunct1 [OF i(1)] assms(2)] i(1) low by fastforce
  next
    fix tested x e x' assume i: "?I tested x" "session_step ab ex cp ranks canary tested x = Ended e x'"
    show "?Q e x'"
    proof (cases "next_candidate ab (ranks (length tested)) tested x")
      case (Inl s)
      then have x': "x' = x\<lparr>ss_stopping := Some s\<rparr>" using i(2) by (simp add: session_step_def)
      have "?low" if "s = EXPECTED_UTILITY_BELOW_THRESHOLD"
      proof -
        have "\<forall>u\<in>set (map bc_utility (ss_candidates x)). u < 1/10"
          using Inl that by (auto simp: next_candidate_def evaluate_stopping_alt Let_def simp del: less_divide_eq_numeral1 split: if_splits option.splits)
        with i(1) show ?thesis by simp
      qed
      then show ?thesis using i(1) x' by auto
    next
      case (Inr best)
      then show ?thesis using i record_step_unlearned(2) [OF conjunct1 [OF i(1)] assms(2)]
        by (auto simp: session_step_def split: sum.splits prod.splits if_splits)
    qed
  qed
  then show ?thesis using cs(1) r by (intro exI [of _ cs] exI [of _ e] exI [of _ ss']) (simp add: execute_session_def)
qed

subsection \<open>The canary of the repository\<close>

lemma measure_episode_raises: "measure_episode c v ep = Inl (NoAttribute ''cost_usd'')"
  by (simp add: measure_episode_def episode_cost_usd_def)

definition nothing_measured :: "bcrb_candidate \<Rightarrow> bcrb_step \<Rightarrow> bool" where
  "nothing_measured c st \<longleftrightarrow> sp_candidate_id st = bc_id c \<and> sp_status st = STEP_FAILED \<and> sp_recovery_effect st = None \<and> charge st = 0"

lemma nothing_measured_failed: "nothing_measured c (failed_step c None r)" "nothing_measured c (failed_step c (Some (0, s)) r)"
  by (simp_all add: nothing_measured_def failed_step_def charge_def)

lemma execute_canary_Inr:
  assumes "execute_canary E P w span_of c run_id db = Inr st"
  shows "nothing_measured c st"
proof -
  have rp: "nothing_measured c st" if "canary_replay E P w c m run v tr = Inr st" for m run v tr
    using that nothing_measured_failed
    by (auto simp: canary_replay_def measure_episode_raises Let_def split: option.splits if_splits sum.splits)
  show ?thesis
  proof (cases db)
    case None
    then show ?thesis using assms nothing_measured_failed(1) by (auto simp: execute_canary_def)
  next
    case (Some d)
    obtain m r t where "canary_artifacts E P w span_of c m r t = Inr st"
      using assms unfolding execute_canary_def Some option.case rbind_Inr_iff by blast
    then show ?thesis using nothing_measured_failed(2) rp
      by (cases m; cases r; cases t) (auto simp: canary_artifacts_def rbind_Inr_iff)
  qed
qed

lemma record_nothing_measured:
  assumes "nothing_measured c st"
  shows "record_step ab ex cp tested best st ss = (ss\<lparr>ss_steps := ss_steps ss @ [st], ss_spent := ss_spent ss\<rparr>, False)"
  using assms by (simp add: record_step_def nothing_measured_def)

lemma repository_loop:
  assumes "\<not> ab_without_replay ab" "canary = (\<lambda>k c. execute_canary E P (w k) span_of c run_id db)"
    and "session_loop ab ex cp ranks canary [] s0 = (e, ss')"
  shows "(ss_candidates ss' = ss_candidates s0 \<and> ss_spent ss' = ss_spent s0 \<and>
      (\<exists>new. ss_steps ss' = ss_steps s0 @ new \<and> (\<forall>st\<in>set new. sp_status st = STEP_FAILED \<and> sp_recovery_effect st = None))) \<and>
    (e = None \<longrightarrow> ss_stopping ss' \<noteq> Some CONFIDENCE_REACHED)"
proof -
  let ?I = "\<lambda>x. ss_candidates x = ss_candidates s0 \<and> ss_spent x = ss_spent s0 \<and>
    (\<exists>new. ss_steps x = ss_steps s0 @ new \<and> (\<forall>st\<in>set new. sp_status st = STEP_FAILED \<and> sp_recovery_effect st = None))"
  have measured: "\<exists>c. nothing_measured c st" if "perform_step ab canary k best = Inr st" for k best st
    using that assms(1) execute_canary_Inr unfolding assms(2) perform_step_def by fastforce
  have keep: "?I (x\<lparr>ss_steps := ss_steps x @ [st], ss_spent := ss_spent x\<rparr>)" if "?I x" "nothing_measured c st" for x st c
    using that by (auto simp: nothing_measured_def)
  have "?I s0" by simp
  then show "?I ss' \<and> (e = None \<longrightarrow> ss_stopping ss' \<noteq> Some CONFIDENCE_REACHED)" using assms(3)
  proof (rule session_loop_invariant [where I = "\<lambda>t x. ?I x"])
    fix tested x tested' x' assume i: "?I x" "session_step ab ex cp ranks canary tested x = Continue tested' x'"
    from i(2) obtain best st where "perform_step ab canary (length tested) best = Inr st"
      "record_step ab ex cp (bc_id best # tested) best st x = (x', False)" by (rule session_step_Continue)
    moreover from measured [OF this(1)] obtain c where "nothing_measured c st" by blast
    ultimately show "?I x'" using keep [OF i(1)] record_nothing_measured by fastforce
  next
    fix tested x e x' assume i: "?I x" "session_step ab ex cp ranks canary tested x = Ended e x'"
    show "?I x' \<and> (e = None \<longrightarrow> ss_stopping x' \<noteq> Some CONFIDENCE_REACHED)"
    proof (cases "next_candidate ab (ranks (length tested)) tested x")
      case (Inl s)
      then have "s \<noteq> CONFIDENCE_REACHED" by (auto simp: next_candidate_def evaluate_stopping_alt Let_def split: option.splits if_splits)
      then show ?thesis using i Inl by (auto simp: session_step_def)
    next
      case (Inr best)
      show ?thesis
      proof (cases "perform_step ab canary (length tested) best")
        case (Inl y)
        then show ?thesis using i Inr by (auto simp: session_step_def)
      next
        case st: (Inr st)
        from measured [OF st] obtain c where "nothing_measured c st" by blast
        then show ?thesis using i(2) Inr st by (simp add: session_step_def record_nothing_measured)
      qed
    qed
  qed
qed

lemma session_candidates_kept:
  assumes "has_weights cp" "\<not> ab_without_replay ab" "canary = (\<lambda>k c. execute_canary E P (w k) span_of c (ss_run_id ss) db)"
    and "execute_session model log1p hash ab ex cp uids ranks canary invs symptom ss = Inr (e, ss')"
  shows "\<forall>c\<in>set (ss_candidates ss'). as_proposed c"
proof -
  obtain cs where cs: "generate_candidates model log1p hash cp ab uids invs symptom = Inr cs" "\<forall>c\<in>set cs. as_proposed c"
    using generate_candidates_returns [OF assms(1)] by blast
  then have "session_loop ab ex cp ranks canary [] (ss\<lparr>ss_candidates := cs\<rparr>) = (e, ss')" using assms(4) by (simp add: execute_session_def)
  from repository_loop [OF assms(2,3) this] cs(2) show ?thesis by simp
qed

text \<open>
  C39. With the canary of the repository a session measures nothing. The replay engine either raises, or returns an episode of
  which an attribute is read that does not exist; so every step a canary returns is a failed one without effect and without
  cost. A session that tests with it never charges its budget, never updates a candidate, never reaches confidence, and when it
  ends without an exception every step failed.
\<close>

theorem repository_session_measures_nothing:
  assumes "has_weights cp" "\<not> ab_without_replay ab" "canary = (\<lambda>k c. execute_canary E P (w k) span_of c (ss_run_id ss) db)"
  shows "\<exists>cs e ss' new. generate_candidates model log1p hash cp ab uids invs symptom = Inr cs \<and>
    execute_session model log1p hash ab ex cp uids ranks canary invs symptom ss = Inr (e, ss') \<and>
    ss_candidates ss' = cs \<and> ss_spent ss' = ss_spent ss \<and> ss_steps ss' = ss_steps ss @ new \<and>
    (\<forall>st\<in>set new. sp_status st = STEP_FAILED \<and> sp_recovery_effect st = None) \<and>
    (e = None \<longrightarrow> ss_stopping ss' \<noteq> Some CONFIDENCE_REACHED)"
proof -
  obtain cs where cs: "generate_candidates model log1p hash cp ab uids invs symptom = Inr cs"
    using generate_candidates_returns [OF assms(1)] by blast
  obtain e ss' where r: "session_loop ab ex cp ranks canary [] (ss\<lparr>ss_candidates := cs\<rparr>) = (e, ss')" by fastforce
  from repository_loop [OF assms(2,3) r] show ?thesis using cs r by (auto simp: execute_session_def)
qed

subsection \<open>Sample sessions\<close>

definition sample_invocations :: "invocation list" where
  "sample_invocations = [\<lparr>in_agent_type = Some ''retriever'', in_agent_name = [], in_is_error = False, in_start_time = 0, in_end_time = None\<rparr>]"

definition sample_session :: bcrb_session where
  "sample_session = \<lparr>ss_run_id = ''r'', ss_budget = 1, ss_spent = 0, ss_candidates = [], ss_steps = [], ss_stopping = None\<rparr>"

lemma default_has_weights: "has_weights default_params"
  by (simp add: has_weights_def default_params_def del: not_None_eq)

definition no_db_canary :: "canary_error canary" where
  "no_db_canary = (\<lambda>k c. execute_canary replay_env replay_text (sample_world (\<lambda>_ _ _ _ _. []) 1) (\<lambda>_. None) c (ss_run_id sample_session) None)"

theorem repository_session_measures_nothing_witness:
  "\<exists>e ss'. execute_session None id (\<lambda>_. 0) no_ablation step_exp default_params id (\<lambda>_. id) no_db_canary sample_invocations ''slow'' sample_session =
     Inr (e, ss') \<and> ss_spent ss' = 0"
proof -
  have "\<not> ab_without_replay no_ablation" by (simp add: no_ablation_def)
  from repository_session_measures_nothing [OF default_has_weights this no_db_canary_def, of None id "\<lambda>_. 0" id sample_invocations "''slow''" step_exp "\<lambda>_. id"]
  show ?thesis by (auto simp: sample_session_def)
qed

theorem utilities_never_change_witness:
  "\<exists>cs e ss'. generate_candidates None id (\<lambda>_. 0) default_params no_ablation id sample_invocations ''slow'' = Inr cs \<and>
     execute_session None id (\<lambda>_. 0) no_ablation step_exp default_params id (\<lambda>_. id) no_db_canary sample_invocations ''slow'' sample_session =
       Inr (e, ss') \<and> map bc_utility (ss_candidates ss') = map bc_utility cs"
proof -
  have "\<not> ab_without_bcrb_utility no_ablation" by (simp add: no_ablation_def)
  from utilities_never_change [OF default_has_weights this, of None id "\<lambda>_. 0" id sample_invocations "''slow''" step_exp "\<lambda>_. id" no_db_canary sample_session]
  show ?thesis by blast
qed

theorem session_sound_witness:
  "\<exists>e ss' new. execute_session None id (\<lambda>_. 0) no_ablation step_exp default_params id (\<lambda>_. id) no_db_canary sample_invocations ''slow'' sample_session =
     Inr (e, ss') \<and> ss_steps ss' = new \<and> distinct (map sp_candidate_id new)"
proof -
  have "\<forall>k c st. no_db_canary k c = Inr st \<longrightarrow> sp_candidate_id st = bc_id c"
    using execute_canary_Inr by (fastforce simp: no_db_canary_def nothing_measured_def)
  from session_sound [OF default_has_weights this, of None id "\<lambda>_. 0" no_ablation id sample_invocations "''slow''" step_exp "\<lambda>_. id" sample_session]
  show ?thesis by (auto simp: sample_session_def)
qed

end
