(* ===== verification/Root_Cause_Bandit.thy ===== *)
theory Root_Cause_Bandit
  imports Admissibility_Gateway Bandit_Session
begin

text \<open>
  Which replay is run next: the resource-admitted bandit of \<open>replay/src/bandit.py\<close> with its base class and the baselines of
  \<open>evaluation/src/bandit_baselines.py\<close>, the execution budget of \<open>contracts/src/models.py\<close>, and the diagnosis that is drawn from a session,
  \<open>diagnosis/src/engine.py\<close>. Measurements that are not a number are \<^const>\<open>None\<close>; the square root and the logarithm are
  parameters.
\<close>

subsection \<open>Budgets\<close>

datatype exhaustion_reason =
    WALL_CLOCK | MAX_STEPS | MAX_TOKENS | MAX_TOOL_CALLS | MAX_REPLAYS | CPU_EXHAUSTED | GPU_EXHAUSTED | MEMORY_EXHAUSTED
  | STORAGE_EXHAUSTED | QUEUE_DELAY_EXHAUSTED

record execution_budget =
  xb_wall_clock_time_s :: "rat option"
  xb_max_steps :: "int option"
  xb_max_tokens :: "int option"
  xb_max_tool_calls :: "int option"
  xb_max_replays :: "int option"
  xb_max_cpu_s :: "rat option"
  xb_max_gpu_s :: "rat option"
  xb_max_memory_mb :: "rat option"
  xb_max_storage_mb :: "rat option"
  xb_max_queue_delay_s :: "rat option"
  xb_used_wall_clock_s :: rat
  xb_used_steps :: int
  xb_used_tokens :: int
  xb_used_tool_calls :: int
  xb_used_replays :: int
  xb_used_cpu_s :: rat
  xb_used_gpu_s :: rat
  xb_used_memory_mb :: rat
  xb_used_storage_mb :: rat
  xb_used_queue_delay_s :: rat

definition exceeded :: "('a :: linorder) option \<Rightarrow> 'a \<Rightarrow> bool" where
  "exceeded limit used \<longleftrightarrow> (case limit of None \<Rightarrow> False | Some l \<Rightarrow> l \<le> used)"

definition check_exhaustion :: "execution_budget \<Rightarrow> exhaustion_reason option" where
  "check_exhaustion b =
     (if exceeded (xb_wall_clock_time_s b) (xb_used_wall_clock_s b) then Some WALL_CLOCK
      else if exceeded (xb_max_steps b) (xb_used_steps b) then Some MAX_STEPS
      else if exceeded (xb_max_tokens b) (xb_used_tokens b) then Some MAX_TOKENS
      else if exceeded (xb_max_tool_calls b) (xb_used_tool_calls b) then Some MAX_TOOL_CALLS
      else if exceeded (xb_max_replays b) (xb_used_replays b) then Some MAX_REPLAYS
      else if exceeded (xb_max_cpu_s b) (xb_used_cpu_s b) then Some CPU_EXHAUSTED
      else if exceeded (xb_max_gpu_s b) (xb_used_gpu_s b) then Some GPU_EXHAUSTED
      else if exceeded (xb_max_memory_mb b) (xb_used_memory_mb b) then Some MEMORY_EXHAUSTED
      else if exceeded (xb_max_storage_mb b) (xb_used_storage_mb b) then Some STORAGE_EXHAUSTED
      else if exceeded (xb_max_queue_delay_s b) (xb_used_queue_delay_s b) then Some QUEUE_DELAY_EXHAUSTED
      else None)"

subsection \<open>Schedulers\<close>

record candidate_arm =
  am_arm_id :: string
  am_cost :: rat
  am_prior :: rat

record base_scheduler =
  sh_total_budget :: rat
  sh_remaining_budget :: rat
  sh_pulls :: "(string \<times> nat) list"

definition get_count :: "(string \<times> nat) list \<Rightarrow> string \<Rightarrow> nat" where
  "get_count d k = (case map_of d k of Some n \<Rightarrow> n | None \<Rightarrow> 0)"

definition base_update :: "string \<Rightarrow> rat \<Rightarrow> ('z base_scheduler_scheme) \<Rightarrow> 'z base_scheduler_scheme" where
  "base_update arm_id cost s = s\<lparr>sh_remaining_budget := sh_remaining_budget s - cost,
     sh_pulls := dict_put arm_id (Suc (get_count (sh_pulls s) arm_id)) (sh_pulls s)\<rparr>"

definition eligible :: "'z base_scheduler_scheme \<Rightarrow> candidate_arm list \<Rightarrow> candidate_arm list" where
  "eligible s arms = filter (\<lambda>a. am_cost a \<le> sh_remaining_budget s) arms"

definition first_id :: "candidate_arm list \<Rightarrow> string option" where
  "first_id arms = (case arms of [] \<Rightarrow> None | a # as \<Rightarrow> Some (am_arm_id a))"

text \<open>\<open>random.choice\<close> picks an index below the length; the index is a parameter.\<close>

definition random_select :: "nat \<Rightarrow> 'z base_scheduler_scheme \<Rightarrow> candidate_arm list \<Rightarrow> string option" where
  "random_select r s arms = (let e = eligible s arms in if e = [] then None else Some (am_arm_id (e ! (r mod length e))))"

definition cheapest_select :: "'z base_scheduler_scheme \<Rightarrow> candidate_arm list \<Rightarrow> string option" where
  "cheapest_select s arms = first_id (sort_key am_cost (eligible s arms))"

definition greedy_prior_select :: "'z base_scheduler_scheme \<Rightarrow> candidate_arm list \<Rightarrow> string option" where
  "greedy_prior_select s arms = first_id (sort_key (\<lambda>a. - am_prior a) (eligible s arms))"

definition exhaustive_select :: "'z base_scheduler_scheme \<Rightarrow> candidate_arm list \<Rightarrow> string option" where
  "exhaustive_select s arms = first_id (sort_key am_arm_id (eligible s arms))"

text \<open>The first arm with the highest value, as the loops with a strict comparison find it.\<close>

fun best_arm :: "(candidate_arm \<Rightarrow> rat) \<Rightarrow> candidate_arm list \<Rightarrow> (candidate_arm \<times> rat) option \<Rightarrow> (candidate_arm \<times> rat) option" where
  "best_arm f [] best = best"
| "best_arm f (a # as) best =
     best_arm f as (case best of None \<Rightarrow> Some (a, f a) | Some (b, v) \<Rightarrow> if v < f a then Some (a, f a) else best)"

record ucb_scheduler = base_scheduler +
  uc_c :: rat
  uc_rewards :: "(string \<times> rat) list"
  uc_total_pulls :: nat

definition ucb_value :: "(rat \<Rightarrow> rat) \<Rightarrow> (rat \<Rightarrow> rat) \<Rightarrow> 'z ucb_scheduler_scheme \<Rightarrow> candidate_arm \<Rightarrow> rat" where
  "ucb_value sq lg s a =
     (let pulls = get_count (sh_pulls s) (am_arm_id a) in
      if pulls = 0 then am_prior a + uc_c s
      else get_weight (uc_rewards s) (am_arm_id a) 0 / of_nat pulls + uc_c s * sq (lg (of_nat (uc_total_pulls s)) / of_nat pulls))"

definition ucb_select :: "(rat \<Rightarrow> rat) \<Rightarrow> (rat \<Rightarrow> rat) \<Rightarrow> 'z ucb_scheduler_scheme \<Rightarrow> candidate_arm list \<Rightarrow> string option" where
  "ucb_select sq lg s arms =
     map_option (am_arm_id \<circ> fst) (best_arm (ucb_value sq lg s) (sort_key am_arm_id (eligible s arms)) None)"

definition ucb_update :: "string \<Rightarrow> rat \<Rightarrow> rat \<Rightarrow> 'z ucb_scheduler_scheme \<Rightarrow> 'z ucb_scheduler_scheme" where
  "ucb_update arm_id reward cost s =
     (let s1 = base_update arm_id cost s in
      s1\<lparr>uc_rewards := dict_put arm_id (get_weight (uc_rewards s1) arm_id 0 + reward) (uc_rewards s1), uc_total_pulls := Suc (uc_total_pulls s1)\<rparr>)"

subsection \<open>The resource-admitted controller\<close>

datatype bandit_stop = Exhausted exhaustion_reason | AllShed

record controller = ucb_scheduler +
  ct_execution_budget :: "execution_budget option"
  ct_rollback_reserve :: rat
  ct_stop_reason :: "bandit_stop option"
  ct_cost_history :: "(string \<times> rat list) list"
  ct_shed_log :: "string list"

definition new_controller :: "rat \<Rightarrow> rat \<Rightarrow> execution_budget option \<Rightarrow> rat \<Rightarrow> controller" where
  "new_controller total_budget c budget ratio = \<lparr>sh_total_budget = total_budget, sh_remaining_budget = total_budget, sh_pulls = [], uc_c = c, uc_rewards = [],
     uc_total_pulls = 0, ct_execution_budget = budget, ct_rollback_reserve = total_budget * ratio, ct_stop_reason = None, ct_cost_history = [],
     ct_shed_log = []\<rparr>"

definition history_of :: "controller \<Rightarrow> string \<Rightarrow> rat list" where
  "history_of s i = (case map_of (ct_cost_history s) i of Some h \<Rightarrow> h | None \<Rightarrow> [])"

definition get_cost_statistics :: "(rat \<Rightarrow> rat) \<Rightarrow> controller \<Rightarrow> candidate_arm \<Rightarrow> rat \<times> rat" where
  "get_cost_statistics sq s a =
     (let h = history_of s (am_arm_id a) in
      if h = [] then (max (am_cost a) (5/100), 0)
      else if length h < 2 then (mean h, 5/100)
      else (mean h, 2 * sq (sum_list (map (\<lambda>x. (x - mean h)\<^sup>2) h) / of_nat (length h - 1))))"

definition violates_admission_rule :: "(rat \<Rightarrow> rat) \<Rightarrow> controller \<Rightarrow> candidate_arm \<Rightarrow> bool" where
  "violates_admission_rule sq s a =
     (case get_cost_statistics sq s a of (m, u) \<Rightarrow> \<not> m + u \<le> sh_remaining_budget s - ct_rollback_reserve s)"

definition knapsack_score :: "(rat \<Rightarrow> rat) \<Rightarrow> (rat \<Rightarrow> rat) \<Rightarrow> controller \<Rightarrow> candidate_arm \<Rightarrow> rat" where
  "knapsack_score sq lg s a =
     (let pulls = get_count (sh_pulls s) (am_arm_id a);
          effective_cost = max (fst (get_cost_statistics sq s a)) (1/10000);
          expected_reward = (if pulls = 0 then am_prior a else get_weight (uc_rewards s) (am_arm_id a) 0 / of_nat pulls);
          ucb_bonus = (if pulls = 0 then uc_c s * sq (lg (of_nat (max (uc_total_pulls s) 1) + 1))
                       else uc_c s * sq (lg (of_nat (max (uc_total_pulls s) 1)) / of_nat pulls))
      in (expected_reward + ucb_bonus) / effective_cost)"

definition shed :: "(rat \<Rightarrow> rat) \<Rightarrow> candidate_arm list \<Rightarrow> controller \<Rightarrow> controller" where
  "shed sq arms s = s\<lparr>ct_shed_log := ct_shed_log s @ map am_arm_id (filter (violates_admission_rule sq s) arms)\<rparr>"

definition select_arm :: "(rat \<Rightarrow> rat) \<Rightarrow> (rat \<Rightarrow> rat) \<Rightarrow> candidate_arm list \<Rightarrow> controller \<Rightarrow> string option \<times> controller" where
  "select_arm sq lg arms s =
     (case (case ct_execution_budget s of None \<Rightarrow> None | Some b \<Rightarrow> check_exhaustion b) of
        Some r \<Rightarrow> (None, s\<lparr>ct_stop_reason := Some (Exhausted r)\<rparr>)
      | None \<Rightarrow>
          let admitted = filter (\<lambda>a. \<not> violates_admission_rule sq s a) arms; s1 = shed sq arms s in
          if admitted = [] then (None, s1\<lparr>ct_stop_reason := Some AllShed\<rparr>)
          else (map_option (am_arm_id \<circ> fst) (best_arm (knapsack_score sq lg s) (sort_key am_arm_id admitted) None), s1))"

definition controller_update :: "string \<Rightarrow> rat option \<Rightarrow> rat option \<Rightarrow> controller \<Rightarrow> controller" where
  "controller_update arm_id reward cost s =
     (let r = (case reward of Some x \<Rightarrow> x | None \<Rightarrow> 0); c = (case cost of Some x \<Rightarrow> x | None \<Rightarrow> 0); s1 = ucb_update arm_id r c s in
      if 0 < c then s1\<lparr>ct_cost_history := dict_put arm_id (history_of s1 arm_id @ [c]) (ct_cost_history s1)\<rparr> else s1)"

subsection \<open>The Pareto set\<close>

record pareto_candidate =
  pc_arm_id :: string
  pc_information_gain :: rat
  pc_recovery_harm :: rat
  pc_cost :: rat
  pc_admissibility :: admissibility

definition pareto_candidates :: "(rat \<Rightarrow> rat) \<Rightarrow> controller \<Rightarrow> (string \<times> raeb_evaluation) list \<Rightarrow> candidate_arm list \<Rightarrow> pareto_candidate list" where
  "pareto_candidates sq s evals arms = List.map_filter (\<lambda>a.
     if violates_admission_rule sq s a then None
     else case map_of evals (am_arm_id a) of
       None \<Rightarrow> None
     | Some e \<Rightarrow> if ra_admissibility e = UNSUPPORTED then None
         else Some \<lparr>pc_arm_id = am_arm_id a, pc_information_gain = ra_information_gain e, pc_recovery_harm = ra_risk e,
                pc_cost = fst (get_cost_statistics sq s a), pc_admissibility = ra_admissibility e\<rparr>) arms"

definition no_worse :: "pareto_candidate \<Rightarrow> pareto_candidate \<Rightarrow> bool" where
  "no_worse c2 c1 \<longleftrightarrow> pc_information_gain c1 \<le> pc_information_gain c2 \<and> pc_recovery_harm c2 \<le> pc_recovery_harm c1 \<and> pc_cost c2 \<le> pc_cost c1"

definition strictly_better :: "pareto_candidate \<Rightarrow> pareto_candidate \<Rightarrow> bool" where
  "strictly_better c2 c1 \<longleftrightarrow> pc_information_gain c1 < pc_information_gain c2 \<or> pc_recovery_harm c2 < pc_recovery_harm c1 \<or> pc_cost c2 < pc_cost c1"

definition dominates :: "pareto_candidate \<Rightarrow> pareto_candidate \<Rightarrow> bool" where
  "dominates c2 c1 \<longleftrightarrow> no_worse c2 c1 \<and> (strictly_better c2 c1 \<or> pc_arm_id c2 < pc_arm_id c1)"

definition undominated :: "pareto_candidate list \<Rightarrow> pareto_candidate list" where
  "undominated cs = map (\<lambda>i. cs ! i) (filter (\<lambda>i. \<not> list_ex (\<lambda>j. i \<noteq> j \<and> dominates (cs ! j) (cs ! i)) [0..<length cs]) [0..<length cs])"

definition select_pareto_set ::
    "(rat \<Rightarrow> rat) \<Rightarrow> candidate_arm list \<Rightarrow> (string \<times> raeb_evaluation) list \<Rightarrow> controller \<Rightarrow> pareto_candidate list \<times> controller" where
  "select_pareto_set sq arms evals s =
     (sort_key pc_arm_id (undominated (pareto_candidates sq s evals arms)), shed sq arms s)"

subsection \<open>Diagnosis\<close>

datatype claim_status = MEASURED | INFERRED

datatype diagnosis_text = NoCandidates | Multiple "string list" | Isolated string rat string rat | Insufficient

datatype diagnosis_status = UNKNOWN | ROOT_CAUSE_ISOLATED | INSUFFICIENT

record diagnosis_claim =
  dc_component :: "string option"
  dc_status :: claim_status
  dc_confidence :: rat

record diagnosis =
  dg_claims :: "diagnosis_claim list"
  dg_root_cause_component :: "string option"
  dg_description :: diagnosis_text
  dg_status :: diagnosis_status
  dg_highest_component :: "string option"
  dg_highest_posterior :: "rat option"
  dg_collect_another_replay :: bool

record diagnosis_scan =
  ds_high :: "(bcrb_candidate \<times> bcrb_step \<times> rat) list"
  ds_best :: "(bcrb_candidate \<times> bcrb_step \<times> rat) option"

definition candidate_map :: "bcrb_candidate list \<Rightarrow> nat \<Rightarrow> bcrb_candidate option" where
  "candidate_map cs = map_of (rev (map (\<lambda>c. (bc_id c, c)) cs))"

definition evaluated :: "bcrb_candidate list \<Rightarrow> bcrb_step \<Rightarrow> (bcrb_candidate \<times> bcrb_step \<times> rat) option" where
  "evaluated cs st = (case candidate_map cs (sp_candidate_id st) of
     None \<Rightarrow> None | Some c \<Rightarrow> (case bc_posterior c of None \<Rightarrow> None | Some q \<Rightarrow> Some (c, st, q)))"

definition scan_step :: "bcrb_candidate list \<Rightarrow> bcrb_step \<Rightarrow> diagnosis_scan \<Rightarrow> diagnosis_scan" where
  "scan_step cs st ds =
     (case evaluated cs st of
        None \<Rightarrow> ds
      | Some (c, t, q) \<Rightarrow>
          \<lparr>ds_high = (if 8/10 \<le> q then ds_high ds @ [(c, t, q)] else ds_high ds),
           ds_best = (if (case ds_best ds of None \<Rightarrow> -1 | Some (b, u, p) \<Rightarrow> p) < q then Some (c, t, q) else ds_best ds)\<rparr>)"

definition isolated_text :: "(bcrb_candidate \<times> bcrb_step \<times> rat) list \<Rightarrow> bcrb_candidate \<times> bcrb_step \<times> rat \<Rightarrow> diagnosis_text" where
  "isolated_text high b =
     (if 1 < length high then Multiple (map (\<lambda>(c, t, q). bc_component_type c) high)
      else case b of (c, t, q) \<Rightarrow>
        Isolated (bc_component_type c) q (bc_intervention_type c) (case sp_recovery_effect t of Some d \<Rightarrow> d | None \<Rightarrow> 0))"

definition generate_diagnosis :: "bcrb_step list \<Rightarrow> bcrb_candidate list \<Rightarrow> diagnosis" where
  "generate_diagnosis sts cs =
     (if sts = []
      then \<lparr>dg_claims = [], dg_root_cause_component = None, dg_description = NoCandidates, dg_status = UNKNOWN, dg_highest_component = None,
             dg_highest_posterior = None, dg_collect_another_replay = False\<rparr>
      else let ds = fold (scan_step cs) sts \<lparr>ds_high = [], ds_best = None\<rparr>;
               highest = map_option (\<lambda>(c, t, q). q) (ds_best ds);
               component = map_option (\<lambda>(c, t, q). bc_component_type c) (ds_best ds)
           in case (ds_high ds, ds_best ds) of
                (h # hs, Some b) \<Rightarrow>
                  \<lparr>dg_claims = map (\<lambda>(c, t, q). \<lparr>dc_component = Some (bc_component_type c), dc_status = MEASURED, dc_confidence = q\<rparr>) (h # hs),
                   dg_root_cause_component = component, dg_description = isolated_text (h # hs) b, dg_status = ROOT_CAUSE_ISOLATED,
                   dg_highest_component = component, dg_highest_posterior = (case highest of Some q \<Rightarrow> if 0 \<le> q then Some q else None | None \<Rightarrow> None),
                   dg_collect_another_replay = False\<rparr>
              | _ \<Rightarrow>
                  \<lparr>dg_claims = [\<lparr>dc_component = None, dc_status = INFERRED, dc_confidence = max (case highest of Some q \<Rightarrow> q | None \<Rightarrow> -1) 0\<rparr>],
                   dg_root_cause_component = None, dg_description = Insufficient, dg_status = INSUFFICIENT, dg_highest_component = component,
                   dg_highest_posterior = (case highest of Some q \<Rightarrow> if 0 \<le> q then Some q else None | None \<Rightarrow> None),
                   dg_collect_another_replay = True\<rparr>)"

subsection \<open>What the controller selects\<close>

lemma set_map_filter_Some: "set (List.map_filter f xs) = {y. \<exists>x\<in>set xs. f x = Some y}"
  by (force simp: List.map_filter_def)


lemma best_arm_props:
  assumes "best_arm f arms best = Some (a, v)" "\<And>b w. best = Some (b, w) \<Longrightarrow> w = f b"
  shows "v = f a \<and> (a \<in> set arms \<or> best = Some (a, v)) \<and> (\<forall>x\<in>set arms. f x \<le> v) \<and> (\<forall>b w. best = Some (b, w) \<longrightarrow> w \<le> v)"
  using assms
proof (induction f arms best rule: best_arm.induct)
  case (2 f x as best)
  let ?next = "case best of None \<Rightarrow> Some (x, f x) | Some (b, v) \<Rightarrow> if v < f x then Some (x, f x) else best"
  have n: "w = f b" if "?next = Some (b, w)" for b w using that "2.prems"(2) by (auto split: option.splits if_splits)
  have IH: "v = f a \<and> (a \<in> set as \<or> ?next = Some (a, v)) \<and> (\<forall>y\<in>set as. f y \<le> v) \<and> (\<forall>b w. ?next = Some (b, w) \<longrightarrow> w \<le> v)"
    by (rule "2.IH" [OF _ n]) (use "2.prems"(1) in simp)
  then have "f x \<le> v" by (cases best) (auto split: if_splits)
  moreover have "w \<le> v" if "best = Some (b, w)" for b w using IH that by (auto split: if_splits)
  moreover have "a \<in> set (x # as) \<or> best = Some (a, v)" using IH by (cases best) (auto split: if_splits)
  moreover have "v = f a" "\<forall>y\<in>set as. f y \<le> v" using IH by blast+
  ultimately show ?case by (intro conjI) auto
qed simp

lemma sort_key_Nil_iff: "sort_key f xs = [] \<longleftrightarrow> xs = []"
  by (metis length_0_conv length_sort)

lemma best_arm_total: "best_arm f arms best = None \<longleftrightarrow> arms = [] \<and> best = None"
  by (induction f arms best rule: best_arm.induct) (auto split: option.splits)

lemma select_arm_Some:
  assumes "select_arm sq lg arms s = (Some i, s')"
  obtains a where "a \<in> set arms" "am_arm_id a = i" "\<not> violates_admission_rule sq s a"
    "\<And>b. b \<in> set arms \<Longrightarrow> \<not> violates_admission_rule sq s b \<Longrightarrow> knapsack_score sq lg s b \<le> knapsack_score sq lg s a"
    "s' = shed sq arms s" "(case ct_execution_budget s of None \<Rightarrow> None | Some b \<Rightarrow> check_exhaustion b) = None"
proof -
  let ?adm = "filter (\<lambda>a. \<not> violates_admission_rule sq s a) arms"
  have x: "(case ct_execution_budget s of None \<Rightarrow> None | Some b \<Rightarrow> check_exhaustion b) = None" "s' = shed sq arms s"
    "map_option (am_arm_id \<circ> fst) (best_arm (knapsack_score sq lg s) (sort_key am_arm_id ?adm) None) = Some i"
    using assms by (auto simp: select_arm_def Let_def split: option.splits if_splits)
  from x(3) obtain a v where av: "best_arm (knapsack_score sq lg s) (sort_key am_arm_id ?adm) None = Some (a, v)" "am_arm_id a = i" by auto
  from best_arm_props [OF av(1)] show ?thesis using that [of a] av(2) x(1,2) by auto
qed

text \<open>
  One use of the controller: a selection that selects nothing, one that is followed by the update with the measurements of
  the selected arm, whose cost is within the prediction and margin of every offered arm of that identifier, the
  selection of a Pareto set, or a change of the shared execution budget, which is an object of the caller.
\<close>

definition predicted :: "(rat \<Rightarrow> rat) \<Rightarrow> controller \<Rightarrow> candidate_arm \<Rightarrow> rat" where
  "predicted sq s a = fst (get_cost_statistics sq s a) + snd (get_cost_statistics sq s a)"

inductive bandit_round :: "(rat \<Rightarrow> rat) \<Rightarrow> (rat \<Rightarrow> rat) \<Rightarrow> controller \<Rightarrow> controller \<Rightarrow> bool" for sq lg where
  stopped: "select_arm sq lg arms s = (None, s') \<Longrightarrow> bandit_round sq lg s s'"
| pulled: "select_arm sq lg arms s = (Some i, s1) \<Longrightarrow>
     (\<And>c a. cost = Some c \<Longrightarrow> a \<in> set arms \<Longrightarrow> am_arm_id a = i \<Longrightarrow> c \<le> predicted sq s a) \<Longrightarrow>
     bandit_round sq lg s (controller_update i reward cost s1)"
| pareto: "bandit_round sq lg s (snd (select_pareto_set sq arms evals s))"
| used: "bandit_round sq lg s (s\<lparr>ct_execution_budget := b\<rparr>)"

lemma shed_fields [simp]:
  "sh_remaining_budget (shed sq arms s) = sh_remaining_budget s" "ct_rollback_reserve (shed sq arms s) = ct_rollback_reserve s"
  "sh_total_budget (shed sq arms s) = sh_total_budget s"
  by (simp_all add: shed_def)

lemma controller_update_fields [simp]:
  "sh_remaining_budget (controller_update i r c s) = sh_remaining_budget s - (case c of Some x \<Rightarrow> x | None \<Rightarrow> 0)"
  "ct_rollback_reserve (controller_update i r c s) = ct_rollback_reserve s"
  "sh_total_budget (controller_update i r c s) = sh_total_budget s"
  by (simp_all add: controller_update_def ucb_update_def base_update_def Let_def)

lemma select_arm_None: "select_arm sq lg arms s = (None, s') \<Longrightarrow> sh_remaining_budget s' = sh_remaining_budget s \<and>
    ct_rollback_reserve s' = ct_rollback_reserve s \<and> sh_total_budget s' = sh_total_budget s"
  by (auto simp: select_arm_def Let_def split: option.splits if_splits)

lemma admitted_iff: "\<not> violates_admission_rule sq s a \<longleftrightarrow> predicted sq s a \<le> sh_remaining_budget s - ct_rollback_reserve s"
  by (simp add: violates_admission_rule_def predicted_def split: prod.splits)

lemma bandit_round_reserve:
  assumes "bandit_round sq lg s s'" "ct_rollback_reserve s \<le> sh_remaining_budget s"
  shows "ct_rollback_reserve s' = ct_rollback_reserve s \<and> ct_rollback_reserve s' \<le> sh_remaining_budget s'"
  using assms
proof cases
  case (stopped arms)
  then show ?thesis using select_arm_None assms(2) by metis
next
  case (pulled arms i s1 cost reward)
  obtain b where b: "b \<in> set arms" "am_arm_id b = i" "\<not> violates_admission_rule sq s b" "s1 = shed sq arms s"
    using select_arm_Some [OF pulled(2)] by metis
  then have "predicted sq s b \<le> sh_remaining_budget s - ct_rollback_reserve s" by (simp add: admitted_iff)
  then show ?thesis using pulled(1) pulled(3) [OF _ b(1,2)] b(4) assms(2) by (cases cost) auto
qed (use assms(2) in \<open>simp_all add: select_pareto_set_def\<close>)

text \<open>
  C25. The controller keeps its rollback reserve, when it is no larger than the budget to begin with. After any number of rounds in which the measured cost of a selected arm stays
  within the prediction and margin of the offered arms of that identifier, the remaining budget is at least the reserve, whatever the
  rewards, the corrupted measurements (which charge nothing), the execution budget and the arms offered; an arm that is selected is admitted with its margin, has the best score among the admitted ones, and is selected
  only while no measured resource is exhausted; no arm is selected exactly when a resource is exhausted or none is
  admitted.
\<close>

theorem rollback_reserve_kept:
  assumes "(bandit_round sq lg)\<^sup>*\<^sup>* (new_controller total_budget c budget ratio) s" "total_budget * ratio \<le> total_budget"
  shows "total_budget * ratio \<le> sh_remaining_budget s \<and>
    (\<forall>i s'. select_arm sq lg arms s = (Some i, s') \<longrightarrow> (\<exists>a\<in>set arms. am_arm_id a = i \<and>
       predicted sq s a \<le> sh_remaining_budget s - total_budget * ratio \<and>
       (\<forall>b\<in>set arms. predicted sq s b \<le> sh_remaining_budget s - total_budget * ratio \<longrightarrow> knapsack_score sq lg s b \<le> knapsack_score sq lg s a))) \<and>
    (fst (select_arm sq lg arms s) = None \<longleftrightarrow>
       (\<exists>b r. ct_execution_budget s = Some b \<and> check_exhaustion b = Some r) \<or>
       (\<forall>a\<in>set arms. sh_remaining_budget s - total_budget * ratio < predicted sq s a))"
proof -
  have r: "ct_rollback_reserve s = total_budget * ratio \<and> total_budget * ratio \<le> sh_remaining_budget s" using assms(1)
  proof (induction rule: rtranclp_induct)
    case base
    then show ?case using assms(2) by (simp add: new_controller_def)
  next
    case (step x y)
    then show ?case using bandit_round_reserve [OF step(2)] by simp
  qed
  have "\<exists>a\<in>set arms. am_arm_id a = i \<and> predicted sq s a \<le> sh_remaining_budget s - total_budget * ratio \<and>
      (\<forall>b\<in>set arms. predicted sq s b \<le> sh_remaining_budget s - total_budget * ratio \<longrightarrow> knapsack_score sq lg s b \<le> knapsack_score sq lg s a)"
    if sel: "select_arm sq lg arms s = (Some i, s')" for i s'
  proof -
    obtain a where "a \<in> set arms" "am_arm_id a = i" "\<not> violates_admission_rule sq s a"
      "\<forall>b\<in>set arms. \<not> violates_admission_rule sq s b \<longrightarrow> knapsack_score sq lg s b \<le> knapsack_score sq lg s a"
      using select_arm_Some [OF sel] by metis
    then show ?thesis using r by (auto simp: admitted_iff)
  qed
  moreover have "fst (select_arm sq lg arms s) = None \<longleftrightarrow>
       (\<exists>b r. ct_execution_budget s = Some b \<and> check_exhaustion b = Some r) \<or> (\<forall>a\<in>set arms. violates_admission_rule sq s a)"
    by (auto simp: select_arm_def Let_def best_arm_total sort_key_Nil_iff filter_empty_conv split: option.splits)
  moreover have "violates_admission_rule sq s a \<longleftrightarrow> sh_remaining_budget s - total_budget * ratio < predicted sq s a" for a
    using admitted_iff [of sq s a] r by auto
  ultimately show ?thesis using r by simp
qed

subsection \<open>The Pareto set is exact\<close>

lemma dominates_trans: "dominates a b \<Longrightarrow> dominates b c \<Longrightarrow> dominates a c"
  by (auto simp: dominates_def no_worse_def strictly_better_def)

lemma dominates_irrefl: "\<not> dominates a a"
  by (auto simp: dominates_def strictly_better_def)

lemma set_undominated: "set (undominated cs) = {c \<in> set cs. \<forall>d\<in>set cs. \<not> dominates d c}"
proof -
  have ex: "list_ex (\<lambda>j. i \<noteq> j \<and> dominates (cs ! j) (cs ! i)) [0..<length cs] \<longleftrightarrow> (\<exists>d\<in>set cs. dominates d (cs ! i))" for i
    unfolding list_ex_iff set_upt by (metis (no_types, lifting) atLeastLessThan_iff dominates_irrefl in_set_conv_nth zero_le)
  show ?thesis unfolding undominated_def ex set_map set_filter set_upt
    by (auto simp: in_set_conv_nth image_iff)
qed

lemma undominated_covers:
  assumes "finite S" "c \<in> S"
  shows "\<exists>p\<in>S. (\<forall>d\<in>S. \<not> dominates d p) \<and> (p = c \<or> dominates p c)"
  using assms
proof (induction "card {d \<in> S. dominates d c}" arbitrary: c rule: less_induct)
  case less
  show ?case
  proof (cases "\<forall>d\<in>S. \<not> dominates d c")
    case True
    then show ?thesis using less.prems by blast
  next
    case False
    then obtain d where d: "d \<in> S" "dominates d c" by blast
    have "{x \<in> S. dominates x d} \<subset> {x \<in> S. dominates x c}" using d dominates_trans dominates_irrefl by blast
    then have "card {x \<in> S. dominates x d} < card {x \<in> S. dominates x c}" using less.prems(1) by (intro psubset_card_mono) auto
    from less.hyps [OF this less.prems(1) d(1)] show ?thesis using d dominates_trans by blast
  qed
qed

text \<open>
  The Pareto set is exact and complete. The replays it returns, ordered by identifier, are precisely the admitted and
  supported candidates that no other one dominates; each fits the budget beside the reserve; and for every candidate the set holds
  one that informs at least as much, harms at most as much and costs at most as much.
\<close>

theorem pareto_exact:
  "case select_pareto_set sq arms evals s of (ps, s') \<Rightarrow>
     sorted (map pc_arm_id ps) \<and>
     set ps = {c \<in> set (pareto_candidates sq s evals arms). \<forall>d\<in>set (pareto_candidates sq s evals arms). \<not> dominates d c} \<and>
     (\<forall>c\<in>set (pareto_candidates sq s evals arms). \<exists>p\<in>set ps. no_worse p c) \<and>
     (\<forall>p\<in>set ps. pc_admissibility p \<noteq> UNSUPPORTED \<and>
        (\<exists>a\<in>set arms. am_arm_id a = pc_arm_id p \<and> predicted sq s a \<le> sh_remaining_budget s - ct_rollback_reserve s))"
proof -
  let ?C = "set (pareto_candidates sq s evals arms)"
  have cand: "pc_admissibility p \<noteq> UNSUPPORTED \<and> (\<exists>a\<in>set arms. am_arm_id a = pc_arm_id p \<and> \<not> violates_admission_rule sq s a)"
    if "p \<in> ?C" for p
    using that by (fastforce simp: pareto_candidates_def set_map_filter_Some split: option.splits if_splits)
  have cover: "\<exists>p\<in>?C. (\<forall>d\<in>?C. \<not> dominates d p) \<and> no_worse p c" if c: "c \<in> ?C" for c
  proof -
    obtain p where "p \<in> ?C" "\<forall>d\<in>?C. \<not> dominates d p" "p = c \<or> dominates p c" using undominated_covers [OF finite_set c] by blast
    moreover from this(3) have "no_worse p c" by (auto simp: dominates_def no_worse_def)
    ultimately show ?thesis by blast
  qed
  show ?thesis unfolding select_pareto_set_def prod.case set_sort set_undominated
    using cand [unfolded admitted_iff] cover by (intro conjI; (simp; fail | blast))
qed

theorem pareto_exact_witness:
  "fst (select_pareto_set id [] [] (new_controller 1 1 None (1/10))) = []"
  using pareto_exact [where sq = id and arms = "[]" and evals = "[]" and s = "new_controller 1 1 None (1/10)"]
  by (auto simp: pareto_candidates_def List.map_filter_def split: prod.splits)

subsection \<open>The diagnosis means what it says\<close>

lemma scan_props:
  "ds_high (fold (scan_step cs) sts ds) = ds_high ds @ filter (\<lambda>(c, t, q). 8/10 \<le> q) (List.map_filter (evaluated cs) sts)"
  by (induction sts arbitrary: ds) (auto simp: scan_step_def map_filter_simps split: option.splits)

definition best_value :: "(bcrb_candidate \<times> bcrb_step \<times> rat) option \<Rightarrow> rat" where
  "best_value b = (case b of None \<Rightarrow> -1 | Some (c, t, q) \<Rightarrow> q)"

lemma scan_best:
  assumes "\<forall>c t q. ds_best ds = Some (c, t, q) \<longrightarrow> -1 < q"
  shows "(\<forall>(c, t, q)\<in>set (List.map_filter (evaluated cs) sts). q \<le> best_value (ds_best (fold (scan_step cs) sts ds))) \<and>
    best_value (ds_best ds) \<le> best_value (ds_best (fold (scan_step cs) sts ds)) \<and>
    (case ds_best (fold (scan_step cs) sts ds) of None \<Rightarrow> ds_best ds = None
     | Some b \<Rightarrow> (b \<in> set (List.map_filter (evaluated cs) sts) \<or> ds_best ds = Some b) \<and> -1 < snd (snd b))"
  using assms
proof (induction sts arbitrary: ds)
  case Nil
  then show ?case by (auto split: option.splits simp: map_filter_simps)
next
  case (Cons st sts)
  show ?case
  proof (cases "evaluated cs st")
    case None
    then have "scan_step cs st ds = ds" by (simp add: scan_step_def)
    moreover have "List.map_filter (evaluated cs) (st # sts) = List.map_filter (evaluated cs) sts" using None by (simp add: map_filter_simps)
    ultimately show ?thesis unfolding fold_simps using Cons.IH [OF Cons.prems] by metis
  next
    case (Some x)
    obtain c t q where x: "x = (c, t, q)" by (cases x) auto
    let ?d = "scan_step cs st ds"
    have b: "ds_best ?d = (if best_value (ds_best ds) < q then Some x else ds_best ds)"
      using Some x by (simp add: scan_step_def best_value_def)
    have m: "q \<le> best_value (ds_best ?d)" "best_value (ds_best ds) \<le> best_value (ds_best ?d)" using b x by (auto simp: best_value_def)
    have lo: "-1 \<le> best_value (ds_best ds)" using Cons.prems by (force simp: best_value_def split: option.splits)
    have prem: "\<forall>c t q. ds_best ?d = Some (c, t, q) \<longrightarrow> -1 < q"
      using b x lo Cons.prems by (auto split: if_splits)
    have IH: "(\<forall>(c, t, q)\<in>set (List.map_filter (evaluated cs) sts). q \<le> best_value (ds_best (fold (scan_step cs) sts ?d)))"
      "best_value (ds_best ?d) \<le> best_value (ds_best (fold (scan_step cs) sts ?d))"
      "case ds_best (fold (scan_step cs) sts ?d) of None \<Rightarrow> ds_best ?d = None
       | Some b \<Rightarrow> (b \<in> set (List.map_filter (evaluated cs) sts) \<or> ds_best ?d = Some b) \<and> -1 < snd (snd b)"
      using Cons.IH [OF prem] by blast+
    have e: "set (List.map_filter (evaluated cs) (st # sts)) = insert x (set (List.map_filter (evaluated cs) sts))"
      using Some by (simp add: map_filter_simps)
    have last: "case ds_best (fold (scan_step cs) sts ?d) of None \<Rightarrow> ds_best ds = None
       | Some b \<Rightarrow> (b \<in> insert x (set (List.map_filter (evaluated cs) sts)) \<or> ds_best ds = Some b) \<and> -1 < snd (snd b)"
      using IH(3) b by (auto split: option.splits if_splits)
    show ?thesis unfolding e fold_simps using IH(1,2) m x last by (intro conjI) (auto split: prod.splits)
  qed
qed

text \<open>
  A diagnosis claims a root cause exactly on evidence. It names one precisely when an evaluated step belongs to a candidate with a
  posterior of at least 0.8; the named component is that of a candidate with the highest posterior; there is one
  measured claim for each such step, with its posterior as confidence; and otherwise there is a single inferred claim and
  the advice to collect another replay.
\<close>

theorem diagnosis_exact:
  assumes "sts \<noteq> []"
  shows "let d = generate_diagnosis sts cs; ev = List.map_filter (evaluated cs) sts; high = filter (\<lambda>(c, t, q). 8/10 \<le> q) ev in
    (dg_status d = ROOT_CAUSE_ISOLATED \<longleftrightarrow> high \<noteq> []) \<and> (dg_root_cause_component d \<noteq> None \<longleftrightarrow> high \<noteq> []) \<and>
    (high \<noteq> [] \<longrightarrow> (\<exists>c t q. (c, t, q) \<in> set ev \<and> dg_root_cause_component d = Some (bc_component_type c) \<and>
       dg_highest_posterior d = Some q \<and> 8/10 \<le> q \<and> (\<forall>(c', t', q')\<in>set ev. q' \<le> q)) \<and>
       map dc_confidence (dg_claims d) = map (\<lambda>(c, t, q). q) high \<and> (\<forall>x\<in>set (dg_claims d). dc_status x = MEASURED)) \<and>
    (high = [] \<longrightarrow> dg_status d = INSUFFICIENT \<and> dg_collect_another_replay d \<and> length (dg_claims d) = 1)"
proof -
  let ?ds = "fold (scan_step cs) sts \<lparr>ds_high = [], ds_best = None\<rparr>" and ?ev = "List.map_filter (evaluated cs) sts"
  let ?high = "filter (\<lambda>(c, t, q). 8/10 \<le> q) ?ev"
  have h: "ds_high ?ds = ?high" by (simp add: scan_props)
  note b = scan_best [of "\<lparr>ds_high = [], ds_best = None\<rparr>" cs sts]
  show ?thesis
  proof (cases ?high)
    case Nil
    then show ?thesis using assms h by (simp add: generate_diagnosis_def Let_def)
  next
    case (Cons x xs)
    then have "x \<in> set ?high" by (metis list.set_intros(1))
    then obtain c t q where x: "x = (c, t, q)" "(c, t, q) \<in> set ?ev" "8/10 \<le> q" by auto
    have le: "q \<le> best_value (ds_best ?ds)" using b x(2) by fastforce
    then obtain c' t' q' where best: "ds_best ?ds = Some (c', t', q')" using x(3) by (cases "ds_best ?ds") (auto simp: best_value_def)
    have in_ev: "(c', t', q') \<in> set ?ev" using b best by simp
    have max: "\<forall>(c, t, r)\<in>set ?ev. r \<le> q'" using b best by (simp add: best_value_def)
    have q': "8/10 \<le> q'" using le best x(3) by (simp add: best_value_def)
    have d: "generate_diagnosis sts cs = \<lparr>dg_claims = map (\<lambda>(c, t, q). \<lparr>dc_component = Some (bc_component_type c), dc_status = MEASURED, dc_confidence = q\<rparr>) ?high,
        dg_root_cause_component = Some (bc_component_type c'), dg_description = isolated_text ?high (c', t', q'), dg_status = ROOT_CAUSE_ISOLATED,
        dg_highest_component = Some (bc_component_type c'), dg_highest_posterior = Some q', dg_collect_another_replay = False\<rparr>"
      using assms h best Cons q' by (simp add: generate_diagnosis_def Let_def)
    have conf: "map dc_confidence (dg_claims (generate_diagnosis sts cs)) = map (\<lambda>(c, t, q). q) ?high" unfolding d by (simp add: split_def comp_def)
    have st: "\<forall>x\<in>set (dg_claims (generate_diagnosis sts cs)). dc_status x = MEASURED" unfolding d by auto
    have ne: "?high \<noteq> []" using Cons by (metis list.distinct(1))
    have "dg_status (generate_diagnosis sts cs) = ROOT_CAUSE_ISOLATED" "dg_root_cause_component (generate_diagnosis sts cs) = Some (bc_component_type c')"
      "dg_highest_posterior (generate_diagnosis sts cs) = Some q'" unfolding d by simp_all
    with conf st in_ev max q' ne show ?thesis unfolding Let_def by (metis option.distinct(1))
  qed
qed

theorem diagnosis_exact_witness:
  "dg_root_cause_component (generate_diagnosis [failed_step (new_candidate default_params [] [] 1 ''policy'' 1) None []] []) = None"
  using diagnosis_exact [where sts = "[failed_step (new_candidate default_params [] [] 1 ''policy'' 1) None []]" and cs = "[]"]
  by (simp add: Let_def evaluated_def candidate_map_def map_filter_simps)

text \<open>
  Composed with the session: where the canary of the repository is used and steps are replayed, no diagnosis ever names a
  root cause.
\<close>

theorem repository_never_diagnoses:
  assumes "has_weights cp" "\<not> ab_without_replay ab" "canary = (\<lambda>k c. execute_canary E P (w k) span_of c (ss_run_id ss) db)"
    and "execute_session model log1p hash ab ex cp uids ranks canary invs symptom ss = Inr (e, ss')"
  shows "dg_root_cause_component (generate_diagnosis (ss_steps ss') (ss_candidates ss')) = None \<and>
    dg_status (generate_diagnosis (ss_steps ss') (ss_candidates ss')) \<noteq> ROOT_CAUSE_ISOLATED"
proof -
  let ?cs = "ss_candidates ss'"
  have cs: "\<forall>c\<in>set ?cs. as_proposed c" by (rule session_candidates_kept [OF assms])
  have "evaluated ?cs st = None" for st
  proof (cases "candidate_map ?cs (sp_candidate_id st)")
    case (Some c)
    then have "c \<in> set ?cs" by (auto simp: candidate_map_def dest!: map_of_SomeD)
    then show ?thesis using cs Some by (simp add: evaluated_def as_proposed_def)
  qed (simp add: evaluated_def)
  then have "List.map_filter (evaluated ?cs) sts = []" for sts by (induction sts) (simp_all add: map_filter_simps)
  then have "ds_high (fold (scan_step ?cs) sts \<lparr>ds_high = [], ds_best = None\<rparr>) = []" for sts by (simp add: scan_props)
  then show ?thesis by (simp add: generate_diagnosis_def Let_def)
qed

theorem repository_never_diagnoses_witness:
  "dg_root_cause_component (case execute_session None id (\<lambda>_. 0) no_ablation step_exp default_params id (\<lambda>_. id) no_db_canary sample_invocations ''slow'' sample_session
     of Inr (e, ss') \<Rightarrow> generate_diagnosis (ss_steps ss') (ss_candidates ss')) = None"
proof -
  have a: "\<not> ab_without_replay no_ablation" by (simp add: no_ablation_def)
  obtain e ss' where r: "execute_session None id (\<lambda>_. 0) no_ablation step_exp default_params id (\<lambda>_. id) no_db_canary sample_invocations ''slow'' sample_session =
      Inr (e, ss')" using generate_candidates_returns [OF default_has_weights, of None id "\<lambda>_. 0" no_ablation id sample_invocations "''slow''"]
    by (auto simp: execute_session_def) (metis surj_pair)
  from repository_never_diagnoses [OF default_has_weights a no_db_canary_def r] r show ?thesis by simp
qed

subsection \<open>Schedulers within a budget\<close>

text \<open>What the schedulers promise: an arm they can pay for, and none only when they can pay for none.\<close>

locale budget_scheduler =
  fixes select :: "'z base_scheduler_scheme \<Rightarrow> candidate_arm list \<Rightarrow> string option"
  assumes select_eligible: "select s arms = Some i \<Longrightarrow> \<exists>a\<in>set (eligible s arms). am_arm_id a = i"
    and select_None_iff: "select s arms = None \<longleftrightarrow> eligible s arms = []"
begin

lemma charged_within_budget:
  assumes "select s arms = Some (am_arm_id a)" "a \<in> set arms" "distinct (map am_arm_id arms)"
  shows "0 \<le> sh_remaining_budget (base_update (am_arm_id a) (am_cost a) s)"
proof -
  obtain b where b: "b \<in> set (eligible s arms)" "am_arm_id b = am_arm_id a" using select_eligible [OF assms(1)] by blast
  then have "b = a" using assms(2,3) by (metis distinct_map eligible_def filter_is_subset inj_onD subsetD)
  then show ?thesis using b(1) by (simp add: eligible_def base_update_def)
qed

lemma stops_only_when_poor:
  assumes "select s arms = None" "a \<in> set arms"
  shows "sh_remaining_budget s < am_cost a"
  using assms select_None_iff [of s arms] by (auto simp: eligible_def filter_empty_conv)

end

lemma first_id_props:
  "first_id xs = Some i \<Longrightarrow> \<exists>a\<in>set xs. am_arm_id a = i" "first_id xs = None \<longleftrightarrow> xs = []"
  by (auto simp: first_id_def split: list.splits)

interpretation cheapest: budget_scheduler cheapest_select
  by unfold_locales (auto simp: cheapest_select_def first_id_props(2) sort_key_Nil_iff dest!: first_id_props(1))

interpretation greedy: budget_scheduler greedy_prior_select
  by unfold_locales (auto simp: greedy_prior_select_def first_id_props(2) sort_key_Nil_iff dest!: first_id_props(1))

interpretation exhaustive: budget_scheduler exhaustive_select
  by unfold_locales (auto simp: exhaustive_select_def first_id_props(2) sort_key_Nil_iff dest!: first_id_props(1))

interpretation random: budget_scheduler "random_select r" for r
  by unfold_locales (auto simp: random_select_def Let_def split: if_splits intro!: bexI [OF refl nth_mem])

interpretation ucb: budget_scheduler "ucb_select sq lg" for sq lg
proof
  show "\<exists>a\<in>set (eligible s arms). am_arm_id a = i" if "ucb_select sq lg s arms = Some i" for s :: "'a ucb_scheduler_scheme" and arms i
    using that best_arm_props [of "ucb_value sq lg s" "sort_key am_arm_id (eligible s arms)" None] by (fastforce simp: ucb_select_def)
  show "ucb_select sq lg s arms = None \<longleftrightarrow> eligible s arms = []" for s :: "'a ucb_scheduler_scheme" and arms
    by (simp add: ucb_select_def best_arm_total sort_key_Nil_iff)
qed

text \<open>With declared costs no baseline overdraws its budget, and each stops only when every arm is too expensive.\<close>

lemmas baselines_within_budget =
  cheapest.charged_within_budget greedy.charged_within_budget exhaustive.charged_within_budget random.charged_within_budget
  ucb.charged_within_budget

lemmas baselines_stop =
  cheapest.stops_only_when_poor greedy.stops_only_when_poor exhaustive.stops_only_when_poor random.stops_only_when_poor
  ucb.stops_only_when_poor

definition reserve_arms :: "candidate_arm list" where
  "reserve_arms = [\<lparr>am_arm_id = ''b'', am_cost = 8, am_prior = 1/2\<rparr>, \<lparr>am_arm_id = ''a'', am_cost = 2, am_prior = 1/2\<rparr>]"

definition reserve_pulled :: controller where
  "reserve_pulled = controller_update ''a'' (Some 1) (Some 2) (snd (select_arm id id reserve_arms (new_controller 10 1 None (1/10))))"

lemma reserve_round: "bandit_round id id (new_controller 10 1 None (1/10)) reserve_pulled"
  unfolding reserve_pulled_def
proof (rule pulled [of id id reserve_arms])
  show "select_arm id id reserve_arms (new_controller 10 1 None (1/10)) =
      (Some ''a'', snd (select_arm id id reserve_arms (new_controller 10 1 None (1/10))))"
    by code_simp
  show "c \<le> predicted id (new_controller 10 1 None (1/10)) a"
    if "Some 2 = Some c" "a \<in> set reserve_arms" "am_arm_id a = ''a''" for c a
    using that by (auto simp: reserve_arms_def predicted_def get_cost_statistics_def history_of_def new_controller_def Let_def)
qed

text \<open>After a round that pulled an arm for 2 the arm of cost 8 would touch the reserve and is shed; the other is selected again.\<close>

theorem rollback_reserve_kept_witness:
  "(1 :: rat) \<le> sh_remaining_budget reserve_pulled \<and> sh_remaining_budget reserve_pulled = 8 \<and>
   fst (select_arm id id reserve_arms reserve_pulled) = Some ''a'' \<and>
   (\<exists>a\<in>set reserve_arms. am_arm_id a = ''a'' \<and> predicted id reserve_pulled a \<le> 8 - 1) \<and>
   fst (select_arm id id (take 1 reserve_arms) reserve_pulled) = None"
proof -
  have star: "(bandit_round id id)\<^sup>*\<^sup>* (new_controller 10 1 None (1/10)) reserve_pulled"
    using reserve_round by blast
  have b: "sh_remaining_budget reserve_pulled = 8" "fst (select_arm id id reserve_arms reserve_pulled) = Some ''a''"
    by code_simp+
  have n: "8 - 1 < predicted id reserve_pulled (hd reserve_arms)" by code_simp
  have t: "set (take 1 reserve_arms) = {hd reserve_arms}" by (simp add: reserve_arms_def)
  note kept = rollback_reserve_kept [OF star]
  from kept [of reserve_arms] b have "\<exists>a\<in>set reserve_arms. am_arm_id a = ''a'' \<and> predicted id reserve_pulled a \<le> 8 - 1"
    by (cases "select_arm id id reserve_arms reserve_pulled") auto
  moreover from kept [of "take 1 reserve_arms"] t n b have "fst (select_arm id id (take 1 reserve_arms) reserve_pulled) = None" by simp
  moreover from kept [of "[]"] have "1 \<le> sh_remaining_budget reserve_pulled" by simp
  ultimately show ?thesis using b by simp
qed

end
