(* ===== verification/Spec2Isabelle.thy ===== *)
theory Spec2Isabelle
  imports Postgres_Store Recovery_Engine Certificate_Chain Transparency_Witness Policy_Engine Merkle_Dag Incident_Orchestrator
    Transport_Gate Task_Scheduler Isolation Root_Cause_Bandit
begin

text \<open>
  \<^bold>\<open>DriftGuard-X: a verified model of the admission, policy, recovery and audit core.\<close>

  DriftGuard-X watches retrieval and agent pipelines, diagnoses failures from traces and recovers from them under
  policy. The packages modelled here decide whether a recovery may happen, carry it out, undo it, and keep the
  evidence. An incident goes through them in this order: a trace becomes a causal graph (\<open>packages/graph\<close>), a
  minimal set of actions that cuts every failure path is computed (\<open>recovery/src/causal_cut.py\<close>), the policy engine
  and the approval service decide on the action (\<open>packages/policy\<close>), an admission receipt with a budget
  reservation is issued and checked once (\<open>packages/replay/src/admission_*.py\<close>), the recovery engine drives the
  executor through a state machine, a canary and, where needed, a compensation (\<open>packages/recovery\<close>), and what
  happened is kept in hash chains, Merkle structures and signed certificates (\<open>packages/ledger\<close>,
  \<open>packages/replay/src/merkle_dag.py\<close>, \<open>packages/memory\<close>).

  \<^bold>\<open>Theories and sources\<close> (paths under \<open>src/packages\<close>).

  \<^item> \<open>Prelude\<close>, \<open>Canon_Json\<close>, \<open>Crypto_Env\<close>, \<open>Hash_Chain\<close>: results of code that may raise, insertion-ordered
    dictionaries, Python text helpers, JSON printing with \<open>sort_keys\<close> and its injectivity, byte packing, and the
    parameters of the model. They hold the locales: \<open>step_invariant\<close> and \<open>step_monotone\<close> (an invariant, and a preorder,
    kept by every step of a system), \<open>hash_chain\<close> (sequences whose entries name the digest of the entry before). Each
    is interpreted on the definitions of the components that follow.
  \<^item> \<open>Ledger_Store\<close>: \<open>ledger/src/store.py\<close>. Appending keeps a ledger accepted, equal heads mean equal ledgers up to a
    named hash collision, the backward walk of \<open>verify_chain\<close> returns and agrees with the full check; and what the
    full check cannot see.
  \<^item> \<open>Certificate_Chain\<close>: \<open>ledger/src/schema.py\<close>, \<open>chain.py\<close>. \<open>Transparency_Witness\<close>: \<open>ledger/src/witness.py\<close>. One
    writer keeps the chain verified, equal heads mean equal certificates, a Merkle root binds a batch of given size, a
    committed batch is found again.
  \<^item> \<open>Resource_Budget\<close>: the resource context of \<open>contracts/src/interfaces.py\<close>. \<open>Admission_Receipt\<close>,
    \<open>Receipt_Lifecycle\<close>: \<open>replay/src/admission_receipt.py\<close>, \<open>admission_keys.py\<close>, \<open>execution_attestation.py\<close>,
    \<open>contracts/src/evidence.py\<close>. Budgets are not exceeded, reservations are held exactly while a receipt lives,
    binding hashes bind, signatures round-trip.
  \<^item> \<open>Admission_Store\<close>, \<open>Postgres_Store\<close>: \<open>replay/src/admission_store.py\<close>, \<open>postgres_admission_store.py\<close>. Under every
    interleaving of transactions a receipt is claimed at most once, pools are not overcommitted, the audit events
    verify, replay to the stored status and are tamper-evident.
  \<^item> \<open>Recovery_FSM\<close>: \<open>recovery/src/state_machine.py\<close>, \<open>incident_state_machine.py\<close>. \<open>Provenance_Store\<close>: \<open>memory/src\<close>.
    \<open>Recovery_Executor\<close>: \<open>recovery/src/actions.py\<close>, \<open>capsule.py\<close>, \<open>executor.py\<close>. \<open>Canary\<close>: \<open>recovery/src/canary.py\<close>.
    \<open>Recovery_Engine\<close>: \<open>recovery/src/engine.py\<close>, which composes the four with the receipt store and the ledger. A
    recovery is committed only through its gates, a passed canary commits, a failed one restores every store, a
    receipt admits one execution, quarantine holds until an authorised release or a \<open>clear\<close>.
  \<^item> \<open>Policy_Hierarchy\<close>: \<open>policy/src/tiers.py\<close>, \<open>hierarchy.py\<close>, \<open>resolver.py\<close>, \<open>shadow.py\<close>, \<open>gate.py\<close>.
    \<open>Approvals\<close>: \<open>approvals.py\<close>. \<open>Policy_Engine\<close>: \<open>engine.py\<close>, \<open>hooks.py\<close>. Resolution only tightens and refuses
    exactly the unjustified relaxations, approval means a quorum, the engine decides as specified by the matching rules, and
    in every reachable state what it allows is authorised by them or by an approval; the risk tier alone demands none,
    against the documentation of the engine.
  \<^item> \<open>Causal_Graph\<close>: \<open>contracts/src/graph.py\<close>, \<open>graph/src/builder.py\<close>, \<open>validation.py\<close>. \<open>Causal_Cut\<close>:
    \<open>recovery/src/causal_cut.py\<close>. Built graphs are well-formed, validation is exact for the checks it makes, path enumeration
    finds all and only the simple failure paths, a cut without residual paths meets every walk from source to target unless
    two available actions share an identifier.
  \<^item> \<open>Merkle_Dag\<close>: \<open>replay/src/merkle_dag.py\<close>. Insertions and forks keep the store verified and its nodes unchanged, a
    node hash binds payload and parents, \<open>verify_path\<close> is exact.

  \<^item> \<open>Stopping_Rule\<close>, \<open>Belief_Model\<close>, \<open>Experiment_Planner\<close>, \<open>Divergence_Validator\<close>: \<open>replay/src/stopping_rule.py\<close>,
    \<open>belief_model.py\<close>, \<open>causal_experiment_planner.py\<close>, \<open>divergence_validator.py\<close>. The verdicts of the stopping rule mean
    what they say, closures and impact are reachability, updates are Bayes' rule, the planner returns the best
    affordable experiment, divergence reports are exact, and the adapter around them never rejects.
  \<^item> \<open>Recovery_Validation\<close>: \<open>recovery/src/validation.py\<close>, \<open>replay_executor.py\<close>, the envelope of
    \<open>contracts/src/recovery_models.py\<close>. \<open>Incident_Orchestrator\<close>: \<open>recovery/src/orchestrator.py\<close>, which composes state
    machine, planner, stopping rule, divergence validation, cut and validation. It fails closed whatever the injected
    objects do, and returns with the ones of the repository, with no budget reserved unless a replay reports a cost that is
    no number; the locale \<open>planner_contract\<close> states what the loop
    relies on.
  \<^item> \<open>Transport_Gate\<close>: \<open>policy/src/causal_transport_gate.py\<close>, \<open>transfer_guard.py\<close>, \<open>contracts/src/transport_models.py\<close>.
    Decisions equal their specification; what signatures leave out; that no experiment is ever planned.
  \<^item> \<open>Task_Scheduler\<close>: \<open>replay/src/aor_scheduler.py\<close> as interleaved steps of loop and threads. \<open>Isolation\<close>:
    \<open>replay/src/vti_coordinator.py\<close>, \<open>isolation/src\<close>, \<open>graph/src/compaction.py\<close>. Tasks run once and in order, acyclic ones
    end, cyclic ones hang; staged actions are decided once; quarantine and compaction verdicts are exact.
  \<^item> \<open>Replay_Engine\<close>: \<open>replay/src/engine.py\<close> with the replay manifest of \<open>contracts/src/models.py\<close>. \<open>Reliability\<close>:
    \<open>evaluation/src/reliability.py\<close>. A replay swaps one component and pins the others, is deterministic up to
    identifiers and times, accepts only complete bounded outputs of its child processes, and is real evidence only
    when nothing ran; scores lie between zero and one.
  \<^item> \<open>Admissibility_Gateway\<close>: \<open>replay/src/raeb.py\<close>, \<open>time_authority.py\<close>. A signed timestamp admits one evaluation,
    and verdicts are exact; what the signed text leaves open.
  \<^item> \<open>Diffusion\<close>: \<open>diffusion/src/engine.py\<close>, \<open>detectors/src/gat_inference.py\<close> around the trained network. \<open>Bandit_Calibration\<close>,
    \<open>Bandit_Session\<close>: \<open>bcrb/src\<close> and the canary of \<open>replay/src/test_framework.py\<close>. Diffusion is bounded reachability, one test
    is a sound Bayesian update, every session ends within its budget with a reason that holds; and with the canary of the
    repository no session measures anything.
  \<^item> \<open>Root_Cause_Bandit\<close>: \<open>replay/src/bandit.py\<close>, \<open>evaluation/src/bandit_baselines.py\<close>, \<open>diagnosis/src/engine.py\<close>. The controller
    keeps its rollback reserve, the Pareto set is exact, the baselines share the locale \<open>budget_scheduler\<close>, and a diagnosis names a
    root cause exactly on evidence.

  \<^bold>\<open>How code is read.\<close> A dataclass or pydantic model is a \<^theory_text>\<open>record\<close> with a prefix per class, an enumeration a
  \<^theory_text>\<open>datatype\<close>, a function or method one definition with every branch and early return. An exception is the left
  of a sum; where code changes state before it raises, the outcome is paired with the state. What is no \<open>Exception\<close>
  (an interrupt, \<open>SystemExit\<close>, exhausted memory) is outside the model. Strings and bytes
  are \<^typ>\<open>string\<close> (code points below 256), floats \<^typ>\<open>rat\<close> (exact, no NaN), instants \<^typ>\<open>int\<close> in microseconds.
  Clock readings, fresh identifiers and the iteration order of sets are arguments; where a call compares one reading and
  records another, as an approval does, it has an argument for each. Texts for people are left out
  or are constructors that carry their numbers; texts that are hashed or compared are exact. A database call is one
  atomic step on the list of rows, as the transaction of the source makes it.

  \<^bold>\<open>Parameters.\<close> The record \<^typ>\<open>env\<close> holds SHA-256, HMAC, Ed25519, base64, the text of floats and of instants.
  Nothing is assumed of the hash: every binding theorem concludes equality or exhibits two colliding messages among
  the ones hashed. Hypotheses on the parameters are documented behaviour: distinct instants have distinct ISO texts,
  a float's text is a number that reads back, no hex digest is the genesis marker, digests have a fixed length.

  \<^bold>\<open>Loops.\<close> Recursion is structural or has a measure, with four exceptions. The backward walk of the ledger, the
  closure loop of the belief model and the experiment loop of the orchestrator are partial functions whose value
  \<^const>\<open>None\<close> is not returning; the depth-first search of the graph validator takes the number of frames that the
  interpreter has left, since it is recursive in the source and raises \<open>RecursionError\<close> without one: a frame for each
  identifier of the graph is shown to be enough. Other limits of the interpreter, as on deeply nested
  JSON, are not modelled. The theorems about the three others state that they return: the closure sets can only grow, and every turn of the experiment loop tests a candidate that was not tested before. The
  scheduler loop is a step relation; its work measure decreases as long as dependencies are acyclic.

  \<^bold>\<open>Not modelled.\<close> Statistical detectors, training and benchmark evaluation are floating-point statistics with random
  sampling; the replay sandbox, adapters, retrieval pipeline, tracing, the API, worker, command line and web
  applications are input and output around the packages. The production executor delegates to external adapters.
\<close>

end
